(* ===== verification/Prelude.thy ===== *)
theory Prelude
  imports Main "HOL-Library.Word"
begin

text \<open>
  Shared vocabulary of the development: the error kinds a Go function of the engine can
  raise by \<open>panic\<close>, the result of an operation that may mutate its receiver before it
  raises, Go's fixed-width integer conversions, and the binary search of Go's standard
  library (\<open>sort.Search\<close>), which \<open>object.go\<close>, \<open>array_sparse.go\<close>,
  \<open>compiler.go\<close> and \<open>file/file.go\<close> all rely on.
\<close>

named_theorems op_simps "unfolding rules for the operations of a component"
named_theorems inv_intros "introduction rules for the invariants of the components"

section \<open>Errors\<close>

text \<open>
  The error values the modelled code raises. Messages are dropped: only the kind of a
  JavaScript error is observable through its prototype. \<open>GoPanic\<close> is a Go run-time
  panic (index out of range, nil dereference), which the engine does not turn into a
  JavaScript exception; \<open>MemFault\<close> is an access through an \<open>unsafe.Pointer\<close>
  outside the memory it was derived from, for which Go promises nothing at all.
\<close>

datatype go_error =
    TypeErr
  | RangeErr
  | ReferenceErr
  | SyntaxErr
  | URIErr
  | PlainErr
  | GoPanic
  | MemFault

text \<open>The errors that never reach a JavaScript \<open>catch\<close>.\<close>

fun not_js :: "go_error \<Rightarrow> bool" where
  "not_js GoPanic = True"
| "not_js MemFault = True"
| "not_js PlainErr = True"
| "not_js _ = False"

text \<open>
  A method that mutates its receiver returns the receiver's new state beside its result,
  because a panic raised halfway keeps the mutations made so far.
\<close>

type_synonym ('s, 'a) outcome = "'s \<times> (go_error + 'a)"

text \<open>\<open>Runtime.typeErrorResult(throw, ...)\<close>: raise if asked to, else go on.\<close>

definition typeErrorResult :: "bool \<Rightarrow> 'a \<Rightarrow> go_error + 'a" where
  "typeErrorResult throw x = (if throw then Inl TypeErr else Inr x)"

lemma typeErrorResult_cases [simp]:
  "typeErrorResult True x = Inl TypeErr"
  "typeErrorResult False x = Inr x"
  by (simp_all add: typeErrorResult_def)

lemma typeErrorResult_Inr_iff [simp]:
  "typeErrorResult throw x = Inr y \<longleftrightarrow> \<not> throw \<and> x = y"
  by (simp add: typeErrorResult_def)

definition ok_result :: "go_error + 'a \<Rightarrow> bool" where
  "ok_result r = (case r of Inl _ \<Rightarrow> False | Inr _ \<Rightarrow> True)"

lemma ok_result_simps [simp]: "\<not> ok_result (Inl e)" "ok_result (Inr x)"
  by (simp_all add: ok_result_def)

text \<open>Go on with the result, or pass the error on.\<close>

definition bindR :: "'e + 'a \<Rightarrow> ('a \<Rightarrow> 'e + 'b) \<Rightarrow> 'e + 'b" where
  "bindR r f = (case r of Inl e \<Rightarrow> Inl e | Inr x \<Rightarrow> f x)"

lemma bindR_simps [simp]: "bindR (Inl e) f = Inl e" "bindR (Inr x) f = f x"
  by (simp_all add: bindR_def)

lemma bindR_Inr_iff: "bindR r f = Inr y \<longleftrightarrow> (\<exists>x. r = Inr x \<and> f x = Inr y)"
  by (cases r) auto

lemma bindR_cong [fundef_cong]:
  "r = r' \<Longrightarrow> (\<And>x. r' = Inr x \<Longrightarrow> f x = f' x) \<Longrightarrow> bindR r f = bindR r' f'"
  by (cases r') auto

definition mapR :: "('a \<Rightarrow> 'b) \<Rightarrow> 'e + 'a \<Rightarrow> 'e + 'b" where
  "mapR f r = (case r of Inl e \<Rightarrow> Inl e | Inr x \<Rightarrow> Inr (f x))"

lemma mapR_simps [simp]: "mapR f (Inl e) = Inl e" "mapR f (Inr x) = Inr (f x)"
  by (simp_all add: mapR_def)

text \<open>The result of an operation mapped, its state kept.\<close>

definition mapS :: "('a \<Rightarrow> 'b) \<Rightarrow> 's \<times> ('e + 'a) \<Rightarrow> 's \<times> ('e + 'b)" where
  "mapS f r = (fst r, mapR f (snd r))"

lemma fst_mapS [simp]: "fst (mapS f r) = fst r"
  by (simp add: mapS_def)

lemma mapS_eq_Inr: "mapS f r = (s, Inr y) \<longleftrightarrow> (\<exists>x. r = (s, Inr x) \<and> y = f x)"
  by (cases r; cases "snd r") (auto simp: mapS_def)

lemma mapS_pair [simp]: "mapS f (s, Inr x) = (s, Inr (f x))" "mapS f (s, Inl e) = (s, Inl e)"
  by (simp_all add: mapS_def)

section \<open>Fixed-width integers\<close>

text \<open>Go's conversions to a signed or unsigned integer type of \<open>w\<close> bits wrap around.\<close>

definition wrap_signed :: "nat \<Rightarrow> int \<Rightarrow> int" where
  "wrap_signed w i = (i + 2 ^ (w - 1)) mod 2 ^ w - 2 ^ (w - 1)"

definition wrap_unsigned :: "nat \<Rightarrow> int \<Rightarrow> int" where
  "wrap_unsigned w i = i mod 2 ^ w"

lemma wrap_signed_id:
  assumes "0 < w" "- (2 ^ (w - 1)) \<le> i" "i < 2 ^ (w - 1)"
  shows "wrap_signed w i = i"
proof -
  have "(2::int) ^ w = 2 * 2 ^ (w - 1)"
    using assms(1) by (cases w) auto
  then have "(i + 2 ^ (w - 1)) mod 2 ^ w = i + 2 ^ (w - 1)"
    using assms by (intro mod_pos_pos_trivial) auto
  then show ?thesis by (simp add: wrap_signed_def)
qed

lemma wrap_signed_range:
  assumes "0 < w"
  shows "- (2 ^ (w - 1)) \<le> wrap_signed w i \<and> wrap_signed w i < 2 ^ (w - 1)"
proof -
  have e: "(2::int) ^ w = 2 * 2 ^ (w - 1)"
    using assms by (cases w) auto
  have "0 \<le> (i + 2 ^ (w - 1)) mod 2 ^ w" "(i + 2 ^ (w - 1)) mod 2 ^ w < 2 ^ w"
    by simp_all
  then show ?thesis by (simp add: wrap_signed_def e)
qed

lemma wrap_signed_cong: "wrap_signed w i mod 2 ^ w = i mod 2 ^ w"
proof -
  have "wrap_signed w i mod 2 ^ w = ((i + 2 ^ (w - 1)) mod 2 ^ w - 2 ^ (w - 1)) mod 2 ^ w"
    by (simp add: wrap_signed_def)
  also have "\<dots> = (i + 2 ^ (w - 1) - 2 ^ (w - 1)) mod 2 ^ w"
    by (rule mod_diff_left_eq)
  finally show ?thesis by simp
qed

text \<open>Magnitudes that fit.\<close>

lemma wrap_signed_nat:
  assumes "0 < w"
  shows "n < 2 ^ (w - 1) \<Longrightarrow> wrap_signed w (int n) = int n"
    and "n \<le> 2 ^ (w - 1) \<Longrightarrow> wrap_signed w (- int n) = - int n"
proof -
  have c: "int n < 2 ^ (w - 1) \<longleftrightarrow> n < 2 ^ (w - 1)" "int n \<le> 2 ^ (w - 1) \<longleftrightarrow> n \<le> 2 ^ (w - 1)"
    by (simp_all flip: of_nat_less_iff of_nat_le_iff)
  have p: "(0::int) < 2 ^ (w - 1)" "0 \<le> int n" by simp_all
  show "wrap_signed w (int n) = int n" if "n < 2 ^ (w - 1)"
    using that [folded c] p by (intro wrap_signed_id assms) linarith+
  show "wrap_signed w (- int n) = - int n" if "n \<le> 2 ^ (w - 1)"
    using that [folded c] p by (intro wrap_signed_id assms) linarith+
qed

lemma wrap_unsigned_range: "0 \<le> wrap_unsigned w i \<and> wrap_unsigned w i < 2 ^ w"
  by (simp add: wrap_unsigned_def)

text \<open>The largest \<open>uint32\<close>, which the code also uses as a "not an index" marker.\<close>

definition maxUint32 :: nat where
  "maxUint32 = 4294967295"

lemma maxUint32_pos [simp]: "0 < maxUint32"
  by (simp add: maxUint32_def)

text \<open>Go's integer division and remainder truncate towards zero.\<close>

definition go_div :: "int \<Rightarrow> int \<Rightarrow> int" where
  "go_div a b = sgn a * sgn b * (\<bar>a\<bar> div \<bar>b\<bar>)"

definition go_rem :: "int \<Rightarrow> int \<Rightarrow> int" where
  "go_rem a b = sgn a * (\<bar>a\<bar> mod \<bar>b\<bar>)"

lemma go_div_rem: "go_div a b * b + go_rem a b = a"
proof -
  have b: "sgn b * b = \<bar>b\<bar>"
    by (simp add: sgn_if abs_if)
  have "go_div a b * b + go_rem a b
      = sgn a * ((\<bar>a\<bar> div \<bar>b\<bar>) * (sgn b * b)) + sgn a * (\<bar>a\<bar> mod \<bar>b\<bar>)"
    by (simp add: go_div_def go_rem_def)
  also have "\<dots> = sgn a * ((\<bar>a\<bar> div \<bar>b\<bar>) * \<bar>b\<bar> + \<bar>a\<bar> mod \<bar>b\<bar>)"
    by (simp only: b distrib_left)
  also have "\<dots> = sgn a * \<bar>a\<bar>"
    by (simp only: div_mult_mod_eq)
  finally show ?thesis by (simp add: sgn_if abs_if split: if_splits)
qed

section \<open>Binary search\<close>

text \<open>
  \<open>sort.Search(n, f)\<close> of Go's standard library: the loop keeps \<open>f(i-1) = false\<close> and
  \<open>f(j) = true\<close> and halves \<open>[i, j)\<close>.
\<close>

function sort_search_loop :: "(nat \<Rightarrow> bool) \<Rightarrow> nat \<Rightarrow> nat \<Rightarrow> nat" where
  "sort_search_loop f i j =
     (if i < j then
        let h = (i + j) div 2 in
        if \<not> f h then sort_search_loop f (Suc h) j else sort_search_loop f i h
      else i)"
  by pat_completeness auto
termination
  by (relation "measure (\<lambda>(f, i, j). j - i)") auto

declare sort_search_loop.simps [simp del]

definition sort_search :: "nat \<Rightarrow> (nat \<Rightarrow> bool) \<Rightarrow> nat" where
  "sort_search n f = sort_search_loop f 0 n"

lemma sort_search_loop_spec:
  assumes "i \<le> j"
    and "\<And>k. k < i \<Longrightarrow> \<not> f k"
    and "\<And>k. j \<le> k \<Longrightarrow> k < n \<Longrightarrow> f k"
    and "\<And>k l. k \<le> l \<Longrightarrow> l < n \<Longrightarrow> f k \<Longrightarrow> f l"
    and "j \<le> n"
  shows "(\<forall>k < sort_search_loop f i j. \<not> f k)
    \<and> (\<forall>k. sort_search_loop f i j \<le> k \<longrightarrow> k < n \<longrightarrow> f k)
    \<and> sort_search_loop f i j \<le> j"
  using assms
proof (induction f i j rule: sort_search_loop.induct)
  case (1 f i j)
  show ?case
  proof (cases "i < j")
    case False
    with "1.prems" show ?thesis
      by (subst (1 2 3) sort_search_loop.simps) auto
  next
    case True
    define h where "h = (i + j) div 2"
    have h: "i \<le> h" "h < j" using True by (auto simp: h_def)
    show ?thesis
    proof (cases "f h")
      case True
      have "(\<forall>k < sort_search_loop f i h. \<not> f k)
        \<and> (\<forall>k. sort_search_loop f i h \<le> k \<longrightarrow> k < n \<longrightarrow> f k) \<and> sort_search_loop f i h \<le> h"
        using \<open>i < j\<close> True h "1.prems"
        by (intro "1.IH"(2)[OF _ h_def]) auto
      then show ?thesis
        using \<open>i < j\<close> True h by (subst (1 2 3) sort_search_loop.simps) (auto simp: h_def Let_def)
    next
      case False
      have nf: "\<not> f k" if "k < Suc h" for k
        using "1.prems"(4)[of k h] False that h "1.prems"(5) by auto
      have "(\<forall>k < sort_search_loop f (Suc h) j. \<not> f k)
        \<and> (\<forall>k. sort_search_loop f (Suc h) j \<le> k \<longrightarrow> k < n \<longrightarrow> f k)
        \<and> sort_search_loop f (Suc h) j \<le> j"
        using \<open>i < j\<close> False h "1.prems" nf
        by (intro "1.IH"(1)[OF _ h_def]) auto
      then show ?thesis
        using \<open>i < j\<close> False h by (subst (1 2 3) sort_search_loop.simps) (auto simp: h_def Let_def)
    qed
  qed
qed

lemma sort_search_spec:
  assumes "\<And>k l. k \<le> l \<Longrightarrow> l < n \<Longrightarrow> f k \<Longrightarrow> f l"
  shows "sort_search n f \<le> n"
    and "\<And>k. k < sort_search n f \<Longrightarrow> \<not> f k"
    and "\<And>k. sort_search n f \<le> k \<Longrightarrow> k < n \<Longrightarrow> f k"
  using sort_search_loop_spec [of 0 n f n] assms by (auto simp: sort_search_def)

lemma sort_search_unique:
  assumes "\<And>k l. k \<le> l \<Longrightarrow> l < n \<Longrightarrow> f k \<Longrightarrow> f l"
    and "m \<le> n" "\<And>k. k < m \<Longrightarrow> \<not> f k" "\<And>k. m \<le> k \<Longrightarrow> k < n \<Longrightarrow> f k"
  shows "sort_search n f = m"
proof -
  note spec = sort_search_spec [where n = n and f = f, OF assms(1)]
  have "\<not> sort_search n f < m"
    using spec(3) [where k = "sort_search n f"] assms(2,3) by fastforce
  moreover have "\<not> m < sort_search n f"
    using spec(1) spec(2) [where k = m] assms(4) [of m] by fastforce
  ultimately show ?thesis by simp
qed

text \<open>The search over a strictly sorted list of keys.\<close>

lemma sort_search_sorted_mono:
  assumes "sorted (xs :: 'a::linorder list)"
  shows "k \<le> l \<Longrightarrow> l < length xs \<Longrightarrow> x \<le> xs ! k \<Longrightarrow> x \<le> xs ! l"
  using sorted_nth_mono [OF assms, of k l] by simp

section \<open>Lists\<close>

lemma distinct_snoc [simp]: "distinct (xs @ [x]) \<longleftrightarrow> distinct xs \<and> x \<notin> set xs"
  by auto

end
