(* ===== verification/Floats.thy ===== *)
theory Floats
  imports Prelude
begin

text \<open>
  Go's \<open>float64\<close>: IEEE 754 binary64 numbers as exact dyadic rationals, with correctly
  rounded (nearest, ties to even) addition, subtraction, multiplication and division, the
  exact \<open>math.Mod\<close>, comparison, truncation and the conversion from \<open>int64\<close>.
  \<open>Fin s m e\<close> is the number \<open>(-1)^s * m * 2^e\<close>, in the form the 64-bit encoding
  fixes: \<open>m\<close> is the significand, \<open>e\<close> the exponent of its last bit
  (\<open>f64_ok\<close>). The payload of a NaN is not represented.
\<close>

datatype f64 =
    NaN
  | Inf bool
  | Fin (sign: bool) (mant: nat) (expo: int)

definition f64_ok :: "f64 \<Rightarrow> bool" where
  "f64_ok f = (case f of Fin s m e \<Rightarrow>
       m < 2 ^ 53 \<and> -1074 \<le> e \<and> e \<le> 971 \<and> (m < 2 ^ 52 \<longrightarrow> e = -1074)
     | _ \<Rightarrow> True)"

definition f_zero :: "bool \<Rightarrow> f64" where
  "f_zero s = Fin s 0 (-1074)"

section \<open>Bit length\<close>

fun bitlen :: "nat \<Rightarrow> nat" where
  "bitlen n = (if n = 0 then 0 else Suc (bitlen (n div 2)))"

declare bitlen.simps [simp del]

lemma bitlen_0 [simp]: "bitlen 0 = 0"
  by (simp add: bitlen.simps)

lemma bitlen_bounds: "0 < n \<Longrightarrow> 2 ^ (bitlen n - 1) \<le> n \<and> n < 2 ^ bitlen n \<and> 0 < bitlen n"
proof (induction n rule: bitlen.induct)
  case (1 n)
  show ?case
  proof (cases "n = 1")
    case True
    then show ?thesis by (simp add: bitlen.simps)
  next
    case False
    with "1.prems" have IH: "2 ^ (bitlen (n div 2) - 1) \<le> n div 2 \<and> n div 2 < 2 ^ bitlen (n div 2)
        \<and> 0 < bitlen (n div 2)"
      by (intro "1.IH") auto
    then obtain k where k: "bitlen (n div 2) = Suc k"
      by (cases "bitlen (n div 2)") auto
    have "bitlen n = Suc (Suc k)"
      using "1.prems" k by (subst bitlen.simps) simp
    moreover have "2 ^ Suc k \<le> n"
    proof -
      have "2 * 2 ^ k \<le> 2 * (n div 2)" using IH k by simp
      also have "\<dots> \<le> n" by simp
      finally show ?thesis by simp
    qed
    moreover have "n < 2 ^ Suc (Suc k)"
    proof -
      have "n div 2 < 2 * 2 ^ k" using IH k by simp
      then have "n < 2 * (2 * 2 ^ k)" by linarith
      then show ?thesis by simp
    qed
    ultimately show ?thesis by simp
  qed
qed

lemma bitlen_unique:
  assumes "2 ^ k \<le> n" "n < 2 ^ Suc k"
  shows "bitlen n = Suc k"
proof -
  have "0 < n" using assms(1) by (rule order_less_le_trans [rotated]) simp
  then obtain j where j: "bitlen n = Suc j"
    using bitlen_bounds [of n] by (cases "bitlen n") auto
  then have "2 ^ j \<le> n" "n < 2 ^ Suc j"
    using bitlen_bounds [OF \<open>0 < n\<close>] by auto
  then have "(2::nat) ^ j < 2 ^ Suc k" "(2::nat) ^ k < 2 ^ Suc j"
    using assms by linarith+
  then have "j < Suc k" "k < Suc j"
    by (simp_all only: power_strict_increasing_iff)
  then show ?thesis using j by simp
qed

lemma bitlen_le: "n < 2 ^ k \<Longrightarrow> bitlen n \<le> k"
proof (cases "n = 0")
  case False
  assume n: "n < 2 ^ k"
  from False obtain j where j: "bitlen n = Suc j"
    using bitlen_bounds [of n] by (cases "bitlen n") auto
  then have "2 ^ j \<le> n" using bitlen_bounds [of n] False by auto
  with n have "(2::nat) ^ j < 2 ^ k" by linarith
  then show ?thesis using j by (simp only: power_strict_increasing_iff)
qed simp

lemma bitlen_shift: "0 < n \<Longrightarrow> bitlen (n * 2 ^ k) = bitlen n + k"
proof -
  assume "0 < n"
  then obtain j where j: "bitlen n = Suc j" "2 ^ j \<le> n" "n < 2 ^ Suc j"
    using bitlen_bounds [of n] by (cases "bitlen n") auto
  then have "2 ^ (j + k) \<le> n * 2 ^ k" "n * 2 ^ k < 2 ^ Suc (j + k)"
    by (simp_all add: power_add)
  then have "bitlen (n * 2 ^ k) = Suc (j + k)"
    by (rule bitlen_unique)
  then show ?thesis using j(1) by simp
qed

section \<open>Rounding\<close>

text \<open>\<open>n / 2^d\<close> rounded to the nearest integer, ties to even.\<close>

definition shift_round :: "nat \<Rightarrow> nat \<Rightarrow> nat" where
  "shift_round n d =
     (let q = n div 2 ^ d; r = n mod 2 ^ d; h = 2 ^ (d - 1) in
      if h < r \<or> (r = h \<and> 0 < d \<and> odd q) then Suc q else q)"

lemma shift_round_0 [simp]: "shift_round n 0 = n"
  by (simp add: shift_round_def)

lemma shift_round_scale: "shift_round (n * 2 ^ k) (d + k) = shift_round n d"
proof (cases d)
  case 0
  have "n * 2 ^ k div 2 ^ k = n" "n * 2 ^ k mod 2 ^ k = 0" by simp_all
  then show ?thesis using 0 by (cases k) (simp_all add: shift_round_def)
next
  case (Suc d')
  have q: "n * 2 ^ k div 2 ^ (d + k) = n div 2 ^ d"
    by (simp add: power_add)
  have r: "n * 2 ^ k mod 2 ^ (d + k) = (n mod 2 ^ d) * 2 ^ k"
    by (simp add: power_add mult_mod_left)
  have h: "(2::nat) ^ (d + k - 1) = 2 ^ (d - 1) * 2 ^ k"
    using Suc by (simp add: power_add)
  have c: "(2 ^ (d - 1) * 2 ^ k < (n mod 2 ^ d) * 2 ^ k) = (2 ^ (d - 1) < n mod 2 ^ d)"
    "((n mod 2 ^ d) * 2 ^ k = 2 ^ (d - 1) * 2 ^ k) = (n mod 2 ^ d = 2 ^ (d - 1))"
    by simp_all
  show ?thesis
    using Suc unfolding shift_round_def q r h Let_def c by simp
qed

lemma shift_round_exact: "d \<le> k \<Longrightarrow> shift_round (n * 2 ^ k) d = n * 2 ^ (k - d)"
proof -
  assume "d \<le> k"
  then have "(2::nat) ^ k = 2 ^ (k - d) * 2 ^ d"
    by (simp flip: power_add)
  then have "n * 2 ^ k = (n * 2 ^ (k - d)) * 2 ^ d"
    by (simp only: mult.assoc)
  then show ?thesis
    using shift_round_scale [of "n * 2 ^ (k - d)" d 0] by (simp only: shift_round_0 add_0)
qed

lemma shift_round_le: "n < 2 ^ (d + p) \<Longrightarrow> shift_round n d \<le> 2 ^ p"
proof -
  assume "n < 2 ^ (d + p)"
  then have "n div 2 ^ d < 2 ^ p"
    by (simp add: power_add less_mult_imp_div_less mult.commute)
  then show ?thesis by (simp add: shift_round_def Let_def)
qed

lemma shift_round_ge: "2 ^ (d + p) \<le> n \<Longrightarrow> 2 ^ p \<le> shift_round n d"
proof -
  assume "2 ^ (d + p) \<le> n"
  then have "2 ^ (d + p) div 2 ^ d \<le> n div 2 ^ d"
    by (rule div_le_mono)
  then have "2 ^ p \<le> n div 2 ^ d" by (simp add: power_add)
  then show ?thesis by (simp add: shift_round_def Let_def)
qed

definition mk_fin :: "bool \<Rightarrow> nat \<Rightarrow> int \<Rightarrow> f64" where
  "mk_fin s m e =
     (if m = 2 ^ 53 then (if 971 < e + 1 then Inf s else Fin s (2 ^ 52) (e + 1))
      else if 971 < e then Inf s else Fin s m e)"

text \<open>The float nearest to \<open>(-1)^s * n * 2^e\<close>.\<close>

definition round_f64 :: "bool \<Rightarrow> nat \<Rightarrow> int \<Rightarrow> f64" where
  "round_f64 s n e =
     (if n = 0 then f_zero s else
      let e' = max (e + int (bitlen n) - 53) (-1074) in
      if e' \<le> e then mk_fin s (n * 2 ^ nat (e - e')) e'
      else mk_fin s (shift_round n (nat (e' - e))) e')"

lemma round_f64_scale:
  assumes "0 < n"
  shows "round_f64 s (n * 2 ^ k) (e - int k) = round_f64 s n e"
proof -
  define e' where "e' = max (e + int (bitlen n) - 53) (-1074)"
  have e'2: "max (e - int k + int (bitlen (n * 2 ^ k)) - 53) (-1074) = e'"
    using assms by (simp add: bitlen_shift e'_def)
  consider "e' \<le> e - int k" | "e - int k < e'" "e' \<le> e" | "e < e'"
    by linarith
  then show ?thesis
  proof cases
    case 1
    then have "nat (e - e') = k + nat (e - int k - e')" by linarith
    then have "n * 2 ^ k * 2 ^ nat (e - int k - e') = n * 2 ^ nat (e - e')"
      by (simp only: power_add mult.assoc)
    then have "mk_fin s (n * 2 ^ k * 2 ^ nat (e - int k - e')) e' = mk_fin s (n * 2 ^ nat (e - e')) e'"
      by (simp only:)
    with 1 assms show ?thesis
      unfolding round_f64_def e'2 e'_def [symmetric] Let_def by simp
  next
    case 2
    have "shift_round (n * 2 ^ k) (nat (e' - (e - int k))) = n * 2 ^ (k - nat (e' - (e - int k)))"
      using 2 by (intro shift_round_exact) linarith
    moreover have "k - nat (e' - (e - int k)) = nat (e - e')"
      using 2 by linarith
    ultimately show ?thesis
      using 2 assms unfolding round_f64_def e'2 e'_def [symmetric] by (simp add: Let_def)
  next
    case 3
    then have "nat (e' - (e - int k)) = nat (e' - e) + k" by linarith
    then have "shift_round (n * 2 ^ k) (nat (e' - (e - int k))) = shift_round n (nat (e' - e))"
      by (simp only: shift_round_scale)
    with 3 assms show ?thesis
      unfolding round_f64_def e'2 e'_def [symmetric] by (simp add: Let_def)
  qed
qed

text \<open>Rounding depends on the exact value only.\<close>

lemma round_f64_value:
  assumes "0 \<le> e1 + K" "0 \<le> e2 + K"
    and "n1 * 2 ^ nat (e1 + K) = n2 * 2 ^ nat (e2 + K)"
  shows "round_f64 s n1 e1 = round_f64 s n2 e2"
proof (cases "n1 = 0")
  case True
  with assms(3) have "n2 = 0" by (metis mult_0 mult_eq_0_iff power_not_zero zero_neq_numeral)
  with True show ?thesis by (simp add: round_f64_def)
next
  case False
  with assms(3) have n2: "0 < n2"
    by (metis gr0I mult_0 mult_eq_0_iff power_not_zero zero_neq_numeral)
  have "round_f64 s n1 e1 = round_f64 s (n1 * 2 ^ nat (e1 + K)) (e1 - int (nat (e1 + K)))"
    using False by (intro round_f64_scale [symmetric]) simp
  also have "\<dots> = round_f64 s (n2 * 2 ^ nat (e2 + K)) (e2 - int (nat (e2 + K)))"
    using assms by simp
  also have "\<dots> = round_f64 s n2 e2"
    using n2 by (intro round_f64_scale)
  finally show ?thesis .
qed

lemma mk_fin_ok:
  assumes "m \<le> 2 ^ 53" "-1074 \<le> e" "m < 2 ^ 52 \<Longrightarrow> e = -1074"
  shows "f64_ok (mk_fin s m e)"
  using assms by (auto simp: mk_fin_def f64_ok_def)

lemma f_zero_ok [simp]: "f64_ok (f_zero s)"
  by (simp add: f_zero_def f64_ok_def)

lemma round_f64_ok [simp]: "f64_ok (round_f64 s n e)"
proof (cases "n = 0")
  case False
  define l where "l = bitlen n"
  define e' where "e' = max (e + int l - 53) (-1074)"
  have l: "2 ^ (l - 1) \<le> n" "n < 2 ^ l" "0 < l"
    using bitlen_bounds [of n] False by (auto simp: l_def)
  show ?thesis
  proof (cases "e' \<le> e")
    case True
    define t where "t = nat (e - e')"
    have lt: "l + t \<le> 53" using True by (auto simp: t_def e'_def)
    have "n * 2 ^ t < 2 ^ (l + t)" using l by (simp add: power_add)
    also have "\<dots> \<le> (2::nat) ^ 53" using lt by (intro power_increasing) auto
    finally have up: "n * 2 ^ t \<le> 2 ^ 53" by simp
    have low: "e' = -1074" if "n * 2 ^ t < 2 ^ 52"
    proof (rule ccontr)
      assume "e' \<noteq> -1074"
      then have "e' = e + int l - 53" by (auto simp: e'_def)
      then have "l - 1 + t = 52" using True l(3) by (auto simp: t_def)
      moreover have "2 ^ (l - 1 + t) \<le> n * 2 ^ t"
        using l(1) by (simp only: power_add mult_le_mono1)
      ultimately show False using that by simp
    qed
    have "f64_ok (mk_fin s (n * 2 ^ t) e')"
      using up low by (intro mk_fin_ok) (auto simp: e'_def)
    then show ?thesis
      using False True unfolding round_f64_def l_def [symmetric] e'_def [symmetric]
      by (simp add: Let_def t_def)
  next
    case False': False
    define d where "d = nat (e' - e)"
    have d: "e' = e + int d" using False' by (simp add: d_def)
    have "l \<le> d + 53" using d by (auto simp: e'_def)
    then have "(2::nat) ^ l \<le> 2 ^ (d + 53)" by (intro power_increasing) auto
    with l(2) have "n < 2 ^ (d + 53)" by (rule less_le_trans)
    then have up: "shift_round n d \<le> 2 ^ 53" by (rule shift_round_le)
    have low: "e' = -1074" if "shift_round n d < 2 ^ 52"
    proof (rule ccontr)
      assume "e' \<noteq> -1074"
      then have "e' = e + int l - 53" by (auto simp: e'_def)
      then have "l - 1 = d + 52" using d by auto
      then have "2 ^ 52 \<le> shift_round n d" using l(1) by (intro shift_round_ge) simp
      then show False using that by simp
    qed
    have "f64_ok (mk_fin s (shift_round n d) e')"
      using up low by (intro mk_fin_ok) (auto simp: e'_def)
    then show ?thesis
      using False False' unfolding round_f64_def l_def [symmetric] e'_def [symmetric]
      by (simp add: Let_def d_def)
  qed
qed (simp add: round_f64_def)

section \<open>Classification, comparison, truncation\<close>

fun f_isNaN :: "f64 \<Rightarrow> bool" where
  "f_isNaN NaN = True"
| "f_isNaN _ = False"

fun f_isInf :: "f64 \<Rightarrow> bool" where
  "f_isInf (Inf _) = True"
| "f_isInf _ = False"

fun f_signbit :: "f64 \<Rightarrow> bool" where
  "f_signbit NaN = False"
| "f_signbit (Inf s) = s"
| "f_signbit (Fin s _ _) = s"

fun f_isZero :: "f64 \<Rightarrow> bool" where
  "f_isZero (Fin _ m _) = (m = 0)"
| "f_isZero _ = False"

text \<open>A finite float as an integer multiple of the smallest subnormal, \<open>2^-1074\<close>.\<close>

definition f_scaled :: "bool \<Rightarrow> nat \<Rightarrow> int \<Rightarrow> int" where
  "f_scaled s m e = (if s then -1 else 1) * int m * 2 ^ nat (e + 1074)"

fun f_eq :: "f64 \<Rightarrow> f64 \<Rightarrow> bool" where
  "f_eq (Fin s m e) (Fin s' m' e') = (f_scaled s m e = f_scaled s' m' e')"
| "f_eq (Inf s) (Inf s') = (s = s')"
| "f_eq _ _ = False"

fun f_lt :: "f64 \<Rightarrow> f64 \<Rightarrow> bool" where
  "f_lt (Fin s m e) (Fin s' m' e') = (f_scaled s m e < f_scaled s' m' e')"
| "f_lt (Inf s) (Inf s') = (s \<and> \<not> s')"
| "f_lt (Inf s) (Fin _ _ _) = s"
| "f_lt (Fin _ _ _) (Inf s) = (\<not> s)"
| "f_lt _ _ = False"

definition f_le :: "f64 \<Rightarrow> f64 \<Rightarrow> bool" where
  "f_le x y = (f_lt x y \<or> f_eq x y)"

lemma f_scaled_inj:
  assumes "f64_ok (Fin s m e)" "f64_ok (Fin s' m' e')" "f_scaled s m e = f_scaled s' m' e'"
  shows "m = m' \<and> e = e' \<and> (m = 0 \<or> s = s')"
proof -
  have eq: "m * 2 ^ nat (e + 1074) = m' * 2 ^ nat (e' + 1074)"
  proof -
    have "\<bar>f_scaled s m e\<bar> = int (m * 2 ^ nat (e + 1074))" for s m e
      by (simp add: f_scaled_def abs_mult)
    with assms(3) show ?thesis by (metis of_nat_eq_iff)
  qed
  have key: "\<not> a < b"
    if "m1 * 2 ^ a = m2 * 2 ^ b" "m1 < 2 ^ 53" "m2 < 2 ^ 52 \<longrightarrow> b = 0" for m1 m2 a b :: nat
  proof
    assume "a < b"
    then obtain c where c: "b = a + Suc c" by (auto dest: less_imp_Suc_add)
    with that(1) have "m1 = 2 * (m2 * 2 ^ c)" by (simp add: power_add)
    moreover have "2 ^ 52 \<le> m2" using that(3) c by auto
    moreover have "m2 * 1 \<le> m2 * 2 ^ c" by (intro mult_le_mono) auto
    ultimately have "2 * 2 ^ 52 \<le> m1" by linarith
    then show False using that(2) by simp
  qed
  have "nat (e + 1074) = nat (e' + 1074)"
    using key [OF eq] key [OF eq [symmetric]] assms(1,2)
    by (fastforce simp: f64_ok_def)
  moreover have "0 \<le> e + 1074" "0 \<le> e' + 1074" using assms(1,2) by (simp_all add: f64_ok_def)
  ultimately have e: "e = e'" by simp
  with eq have m: "m = m'" by simp
  moreover have "m = 0 \<or> s = s'"
    using assms(3) e m by (auto simp: f_scaled_def split: if_splits)
  ultimately show ?thesis using e by simp
qed

lemma f_eq_iff:
  assumes "f64_ok x" "f64_ok y"
  shows "f_eq x y \<longleftrightarrow> \<not> f_isNaN x \<and> (x = y \<or> f_isZero x \<and> f_isZero y)"
  using assms by (cases x; cases y) (auto dest: f_scaled_inj simp: f_scaled_def)

text \<open>The integer part, and Go's conversion \<open>int64(f)\<close> of a float in range.\<close>

fun f_trunc :: "f64 \<Rightarrow> int" where
  "f_trunc (Fin s m e) =
     (if s then -1 else 1) * (if 0 \<le> e then int m * 2 ^ nat e else int m div 2 ^ nat (- e))"
| "f_trunc _ = 0"

fun f_integral :: "f64 \<Rightarrow> bool" where
  "f_integral (Fin s m e) = (0 \<le> e \<or> 2 ^ nat (- e) dvd m)"
| "f_integral _ = False"

section \<open>Integers as floats\<close>

definition f_of_int :: "int \<Rightarrow> f64" where
  "f_of_int i = round_f64 (i < 0) (nat \<bar>i\<bar>) 0"

lemma f_of_int_ok [simp]: "f64_ok (f_of_int i)"
  by (simp add: f_of_int_def)

lemma f_of_int_0: "f_of_int 0 = f_zero False"
  by (simp add: f_of_int_def round_f64_def)

text \<open>The integers up to \<open>2^53\<close> in absolute value are floats.\<close>

lemma round_pow53: "round_f64 s (2 ^ 53) 0 = Fin s (2 ^ 52) 1"
proof -
  have "bitlen (2 ^ 53) = 54" using bitlen_unique [of 53 "2 ^ 53"] by simp
  moreover have "shift_round (2 ^ 53) 1 = 2 ^ 52"
    using shift_round_exact [of 1 53 1] by simp
  ultimately show ?thesis by (simp add: round_f64_def mk_fin_def)
qed

lemma round_small:
  assumes "0 < n" "n < 2 ^ 53"
  shows "round_f64 s n 0 = Fin s (n * 2 ^ (53 - bitlen n)) (int (bitlen n) - 53)
    \<and> bitlen n \<le> 53"
proof -
  have l: "bitlen n \<le> 53" using assms(2) by (rule bitlen_le)
  have "n * 2 ^ (53 - bitlen n) < 2 ^ 53"
  proof -
    have "n < 2 ^ bitlen n" using bitlen_bounds [OF assms(1)] by simp
    then have "n * 2 ^ (53 - bitlen n) < 2 ^ bitlen n * 2 ^ (53 - bitlen n)" by simp
    also have "\<dots> = (2::nat) ^ 53" using l by (simp flip: power_add)
    finally show ?thesis .
  qed
  moreover have "nat (53 - int (bitlen n)) = 53 - bitlen n" by linarith
  ultimately show ?thesis
    using l assms(1) by (simp add: round_f64_def mk_fin_def Let_def max_def)
qed

lemma f_of_int_repr:
  assumes "i \<noteq> 0" "\<bar>i\<bar> \<le> 2 ^ 53"
  shows "\<exists>m e. f_of_int i = Fin (i < 0) m e \<and> - 1074 \<le> e \<and> m \<noteq> 0
    \<and> (0 \<le> e \<longrightarrow> int m * 2 ^ nat e = \<bar>i\<bar>) \<and> (e < 0 \<longrightarrow> int m = \<bar>i\<bar> * 2 ^ nat (- e))"
proof (cases "\<bar>i\<bar> = 2 ^ 53")
  case True
  then have "nat \<bar>i\<bar> = 2 ^ 53" by simp
  then have "f_of_int i = Fin (i < 0) (2 ^ 52) 1"
    by (simp only: f_of_int_def round_pow53)
  with True show ?thesis by simp
next
  case False
  then have n: "0 < nat \<bar>i\<bar>" "nat \<bar>i\<bar> < 2 ^ 53" using assms by auto
  define l where "l = bitlen (nat \<bar>i\<bar>)"
  have r: "f_of_int i = Fin (i < 0) (nat \<bar>i\<bar> * 2 ^ (53 - l)) (int l - 53)" "l \<le> 53"
    using round_small [OF n] by (auto simp: f_of_int_def l_def)
  have "nat (53 - int l) = 53 - l" by linarith
  with r n(1) show ?thesis by auto
qed

lemma f_trunc_of_int: "\<bar>i\<bar> \<le> 2 ^ 53 \<Longrightarrow> f_trunc (f_of_int i) = i"
proof (cases "i = 0")
  case False
  assume "\<bar>i\<bar> \<le> 2 ^ 53"
  with False obtain m e where "f_of_int i = Fin (i < 0) m e" "m \<noteq> 0"
    "0 \<le> e \<longrightarrow> int m * 2 ^ nat e = \<bar>i\<bar>" "e < 0 \<longrightarrow> int m = \<bar>i\<bar> * 2 ^ nat (- e)"
    using f_of_int_repr by blast
  then show ?thesis by (cases "0 \<le> e") (auto simp: abs_if split: if_splits)
qed (simp add: f_of_int_0 f_zero_def)

lemma f_integral_of_int: "\<bar>i\<bar> \<le> 2 ^ 53 \<Longrightarrow> f_integral (f_of_int i)"
proof (cases "i = 0")
  case False
  assume "\<bar>i\<bar> \<le> 2 ^ 53"
  with False obtain m e where r: "f_of_int i = Fin (i < 0) m e" "m \<noteq> 0"
    "0 \<le> e \<longrightarrow> int m * 2 ^ nat e = \<bar>i\<bar>" "e < 0 \<longrightarrow> int m = \<bar>i\<bar> * 2 ^ nat (- e)"
    using f_of_int_repr by blast
  have "e < 0 \<Longrightarrow> int (2 ^ nat (- e)) dvd int m" using r(4) by simp
  then have "e < 0 \<Longrightarrow> 2 ^ nat (- e) dvd m" by (simp only: of_nat_dvd_iff)
  then show ?thesis using r(1) by (cases "0 \<le> e") auto
qed (simp add: f_of_int_0 f_zero_def)

lemma f_of_int_inj:
  "\<bar>i\<bar> \<le> 2 ^ 53 \<Longrightarrow> \<bar>j\<bar> \<le> 2 ^ 53 \<Longrightarrow> f_of_int i = f_of_int j \<longleftrightarrow> i = j"
  by (metis f_trunc_of_int)

lemma f_of_int_isZero: "\<bar>i\<bar> \<le> 2 ^ 53 \<Longrightarrow> f_isZero (f_of_int i) \<longleftrightarrow> i = 0"
proof (cases "i = 0")
  case False
  assume "\<bar>i\<bar> \<le> 2 ^ 53"
  with False obtain m e where "f_of_int i = Fin (i < 0) m e" "m \<noteq> 0"
    "0 \<le> e \<longrightarrow> int m * 2 ^ nat e = \<bar>i\<bar>" "e < 0 \<longrightarrow> int m = \<bar>i\<bar> * 2 ^ nat (- e)"
    using f_of_int_repr by blast
  then show ?thesis using False by simp
qed (simp add: f_of_int_0 f_zero_def)

lemma f_of_int_not_NaN [simp]: "\<not> f_isNaN (f_of_int i)" "f_of_int i \<noteq> NaN"
  by (auto simp: f_of_int_def round_f64_def f_zero_def mk_fin_def Let_def)

lemma f_of_int_finite: "\<bar>i\<bar> \<le> 2 ^ 53 \<Longrightarrow> \<not> f_isInf (f_of_int i)"
proof (cases "i = 0")
  case False
  assume "\<bar>i\<bar> \<le> 2 ^ 53"
  with False obtain m e where "f_of_int i = Fin (i < 0) m e" "m \<noteq> 0"
    "0 \<le> e \<longrightarrow> int m * 2 ^ nat e = \<bar>i\<bar>" "e < 0 \<longrightarrow> int m = \<bar>i\<bar> * 2 ^ nat (- e)"
    using f_of_int_repr by blast
  then show ?thesis by simp
qed (simp add: f_of_int_0 f_zero_def)

lemma round_f64_idem:
  assumes "f64_ok (Fin s m e)" "m \<noteq> 0"
  shows "round_f64 s m e = Fin s m e"
proof -
  have "max (e + int (bitlen m) - 53) (-1074) = e"
  proof (cases "m < 2 ^ 52")
    case True
    then have "bitlen m \<le> 52" by (rule bitlen_le)
    with True assms(1) show ?thesis by (simp add: f64_ok_def)
  next
    case False
    then have "bitlen m = 53" using assms(1) bitlen_unique [of 52 m] by (simp add: f64_ok_def)
    then show ?thesis using assms(1) by (simp add: f64_ok_def)
  qed
  then show ?thesis
    using assms by (simp add: round_f64_def mk_fin_def f64_ok_def)
qed

text \<open>A finite float that is an integer in range is the float of that integer.\<close>

lemma f_of_int_trunc:
  assumes "f64_ok (Fin s m e)" "m \<noteq> 0" "f_integral (Fin s m e)"
  shows "f_of_int (f_trunc (Fin s m e)) = Fin s m e"
proof -
  define t where "t = f_trunc (Fin s m e)"
  have v: "nat \<bar>t\<bar> * 2 ^ nat 1074 = m * 2 ^ nat (e + 1074)"
    and t0: "t \<noteq> 0" and sg: "(t < 0) = s"
  proof -
    have e: "-1074 \<le> e" using assms(1) by (simp add: f64_ok_def)
    show "nat \<bar>t\<bar> * 2 ^ nat 1074 = m * 2 ^ nat (e + 1074)"
    proof (cases "0 \<le> e")
      case True
      then have "nat \<bar>t\<bar> = m * 2 ^ nat e"
        by (simp add: t_def abs_mult nat_mult_distrib nat_power_eq)
      moreover have "nat (e + 1074) = nat e + 1074" using True by linarith
      ultimately show ?thesis by (simp add: power_add)
    next
      case False
      then obtain q where q: "m = 2 ^ nat (- e) * q" using assms(3) by auto
      then have "nat \<bar>t\<bar> = q" using False by (simp add: t_def abs_mult)
      moreover have "(1074::nat) = nat (- e) + nat (e + 1074)" using False e by linarith
      then have "(2::nat) ^ 1074 = 2 ^ nat (- e) * 2 ^ nat (e + 1074)"
        by (simp only: power_add)
      ultimately show ?thesis by (simp only: q) simp
    qed
    then show "t \<noteq> 0" using assms(2) by (cases "t = 0") auto
    have "0 \<le> (if 0 \<le> e then int m * 2 ^ nat e else int m div 2 ^ nat (- e))"
      by (simp add: pos_imp_zdiv_nonneg_iff)
    with \<open>t \<noteq> 0\<close> show "(t < 0) = s"
      unfolding t_def f_trunc.simps by (auto simp: mult_less_0_iff not_less)
  qed
  have "round_f64 s m e = Fin s m e"
    using assms(1,2) by (rule round_f64_idem)
  moreover have "f_of_int t = round_f64 s m e"
    unfolding f_of_int_def sg using v assms(1)
    by (intro round_f64_value [where K = 1074]) (auto simp: f64_ok_def)
  ultimately show ?thesis by (simp add: t_def)
qed

section \<open>Arithmetic\<close>

fun f_neg :: "f64 \<Rightarrow> f64" where
  "f_neg NaN = NaN"
| "f_neg (Inf s) = Inf (\<not> s)"
| "f_neg (Fin s m e) = Fin (\<not> s) m e"

definition signed :: "bool \<Rightarrow> nat \<Rightarrow> int" where
  "signed s n = (if s then - int n else int n)"

definition fin_add :: "bool \<Rightarrow> nat \<Rightarrow> int \<Rightarrow> bool \<Rightarrow> nat \<Rightarrow> int \<Rightarrow> f64" where
  "fin_add s m e s' m' e' =
     (let k = min e e';
          t = signed s (m * 2 ^ nat (e - k)) + signed s' (m' * 2 ^ nat (e' - k)) in
      if t = 0 then f_zero (s \<and> s') else round_f64 (t < 0) (nat \<bar>t\<bar>) k)"

fun f_add :: "f64 \<Rightarrow> f64 \<Rightarrow> f64" where
  "f_add (Fin s m e) (Fin s' m' e') = fin_add s m e s' m' e'"
| "f_add (Inf s) (Inf s') = (if s = s' then Inf s else NaN)"
| "f_add (Inf s) (Fin _ _ _) = Inf s"
| "f_add (Fin _ _ _) (Inf s) = Inf s"
| "f_add _ _ = NaN"

definition f_sub :: "f64 \<Rightarrow> f64 \<Rightarrow> f64" where
  "f_sub x y = f_add x (f_neg y)"

fun f_mul :: "f64 \<Rightarrow> f64 \<Rightarrow> f64" where
  "f_mul (Fin s m e) (Fin s' m' e') = round_f64 (s \<noteq> s') (m * m') (e + e')"
| "f_mul (Inf s) (Inf s') = Inf (s \<noteq> s')"
| "f_mul (Inf s) (Fin s' m _) = (if m = 0 then NaN else Inf (s \<noteq> s'))"
| "f_mul (Fin s m _) (Inf s') = (if m = 0 then NaN else Inf (s \<noteq> s'))"
| "f_mul _ _ = NaN"

text \<open>
  The quotient of two significands, to at least two more bits than a significand holds, with
  a sticky last bit that records whether the division was exact: enough for a correct
  rounding.
\<close>

definition fin_div :: "bool \<Rightarrow> nat \<Rightarrow> int \<Rightarrow> nat \<Rightarrow> int \<Rightarrow> f64" where
  "fin_div s m e m' e' =
     (let k = bitlen m' + 56; q = (m * 2 ^ k) div m'; r = (m * 2 ^ k) mod m' in
      round_f64 s (2 * q + (if r = 0 then 0 else 1)) (e - e' - int k - 1))"

fun f_div :: "f64 \<Rightarrow> f64 \<Rightarrow> f64" where
  "f_div (Fin s m e) (Fin s' m' e') =
     (if m' = 0 then (if m = 0 then NaN else Inf (s \<noteq> s'))
      else fin_div (s \<noteq> s') m e m' e')"
| "f_div (Inf s) (Fin s' _ _) = Inf (s \<noteq> s')"
| "f_div (Fin s _ _) (Inf s') = f_zero (s \<noteq> s')"
| "f_div _ _ = NaN"

text \<open>\<open>math.Mod\<close>: the exact remainder of the truncated division, signed as \<open>x\<close>.\<close>

fun f_mod :: "f64 \<Rightarrow> f64 \<Rightarrow> f64" where
  "f_mod (Fin s m e) (Fin s' m' e') =
     (if m' = 0 then NaN else
      let k = min e e' in
      round_f64 s ((m * 2 ^ nat (e - k)) mod (m' * 2 ^ nat (e' - k))) k)"
| "f_mod (Fin s m e) (Inf _) = Fin s m e"
| "f_mod _ _ = NaN"

lemma f_neg_ok [simp]: "f64_ok (f_neg x) = f64_ok x"
  by (cases x) (simp_all add: f64_ok_def)

lemma fin_add_ok [simp]: "f64_ok (fin_add s m e s' m' e')"
  by (simp add: fin_add_def Let_def)

lemma f64_ok_nonfinite [simp]: "f64_ok NaN" "f64_ok (Inf s)"
  by (simp_all add: f64_ok_def)

lemma f_arith_ok:
  "f64_ok (f_add x y)" "f64_ok (f_sub x y)" "f64_ok (f_mul x y)" "f64_ok (f_div x y)"
proof -
  show add: "f64_ok (f_add x y)" for x y by (cases x; cases y) auto
  then show "f64_ok (f_sub x y)" by (simp add: f_sub_def)
  show "f64_ok (f_mul x y)" by (cases x; cases y) auto
  show "f64_ok (f_div x y)" by (cases x; cases y) (auto simp: fin_div_def Let_def)
qed

lemma f_mod_ok: "f64_ok x \<Longrightarrow> f64_ok (f_mod x y)"
  by (cases x; cases y) (auto simp: Let_def)

text \<open>
  On integers in range the float operations are the integer ones, rounded once.
  A common form: the float of \<open>i\<close> is \<open>\<plusminus>m * 2^e\<close> with \<open>m * 2^(e + 60) = |i| * 2^60\<close>.
\<close>

lemma f_of_int_fixed:
  assumes "\<bar>i\<bar> \<le> 2 ^ 53"
  obtains m e where "f_of_int i = Fin (i < 0) m e" "- 1074 \<le> e"
    "m * 2 ^ nat (e + 1074) = nat \<bar>i\<bar> * 2 ^ 1074"
proof (cases "i = 0")
  case True
  then show ?thesis by (intro that [of 0 "-1074"]) (simp_all add: f_of_int_0 f_zero_def)
next
  case False
  with assms obtain m e where r: "f_of_int i = Fin (i < 0) m e" "-1074 \<le> e"
    "0 \<le> e \<longrightarrow> int m * 2 ^ nat e = \<bar>i\<bar>" "e < 0 \<longrightarrow> int m = \<bar>i\<bar> * 2 ^ nat (- e)"
    using f_of_int_repr by blast
  have "int (m * 2 ^ nat (e + 1074)) = int (nat \<bar>i\<bar> * 2 ^ 1074)"
  proof (cases "0 \<le> e")
    case True
    then have "nat (e + 1074) = nat e + 1074" by linarith
    then have "int (m * 2 ^ nat (e + 1074)) = int m * 2 ^ nat e * 2 ^ 1074"
      by (simp only: of_nat_mult of_nat_power power_add of_nat_numeral mult.assoc)
    with r(3) True show ?thesis by simp
  next
    case False
    then have "nat (- e) + nat (e + 1074) = 1074" using r(2) by linarith
    then have "(2::int) ^ nat (- e) * 2 ^ nat (e + 1074) = 2 ^ 1074"
      by (simp only: power_add [symmetric])
    with r(4) False show ?thesis by (simp add: mult.assoc)
  qed
  then have "m * 2 ^ nat (e + 1074) = nat \<bar>i\<bar> * 2 ^ 1074"
    by (simp only: of_nat_eq_iff)
  with r show ?thesis by (intro that) auto
qed

lemma f_mul_of_int:
  assumes "\<bar>i\<bar> \<le> 2 ^ 53" "\<bar>j\<bar> \<le> 2 ^ 53" "i * j \<noteq> 0"
  shows "f_mul (f_of_int i) (f_of_int j) = f_of_int (i * j)"
proof -
  obtain m e where i: "f_of_int i = Fin (i < 0) m e" "-1074 \<le> e"
    "m * 2 ^ nat (e + 1074) = nat \<bar>i\<bar> * 2 ^ 1074"
    using assms(1) by (rule f_of_int_fixed)
  obtain m' e' where j: "f_of_int j = Fin (j < 0) m' e'" "-1074 \<le> e'"
    "m' * 2 ^ nat (e' + 1074) = nat \<bar>j\<bar> * 2 ^ 1074"
    using assms(2) by (rule f_of_int_fixed)
  have "nat (e + e' + 2148) = nat (e + 1074) + nat (e' + 1074)" using i(2) j(2) by linarith
  then have "m * m' * 2 ^ nat (e + e' + 2148)
      = (m * 2 ^ nat (e + 1074)) * (m' * 2 ^ nat (e' + 1074))"
    by (simp only: power_add mult.assoc mult.left_commute)
  also have "\<dots> = nat \<bar>i * j\<bar> * 2 ^ nat (0 + 2148)"
    unfolding i(3) j(3)
    by (simp add: abs_mult nat_mult_distrib mult.assoc mult.left_commute flip: power_add)
  finally have "round_f64 ((i < 0) \<noteq> (j < 0)) (m * m') (e + e')
      = round_f64 ((i < 0) \<noteq> (j < 0)) (nat \<bar>i * j\<bar>) 0"
    using i(2) j(2) by (intro round_f64_value [where K = 2148]) auto
  moreover have "((i < 0) \<noteq> (j < 0)) = (i * j < 0)"
    using assms(3) by (auto simp: mult_less_0_iff)
  moreover have "f_of_int (i * j) = round_f64 (i * j < 0) (nat \<bar>i * j\<bar>) 0"
    by (rule f_of_int_def)
  ultimately show ?thesis by (simp only: i(1) j(1) f_mul.simps)
qed

lemma f_neg_of_int: "i \<noteq> 0 \<Longrightarrow> f_neg (f_of_int i) = f_of_int (- i)"
  by (auto simp: f_of_int_def round_f64_def mk_fin_def Let_def not_less)

lemma fin_add_of_int:
  assumes "\<bar>i\<bar> \<le> 2 ^ 53" "\<bar>j\<bar> \<le> 2 ^ 53"
  shows "f_add (f_of_int i) (f_of_int j) = f_of_int (i + j)"
proof -
  obtain m e where i: "f_of_int i = Fin (i < 0) m e" "-1074 \<le> e"
    "m * 2 ^ nat (e + 1074) = nat \<bar>i\<bar> * 2 ^ 1074"
    using assms(1) by (rule f_of_int_fixed)
  obtain m' e' where j: "f_of_int j = Fin (j < 0) m' e'" "-1074 \<le> e'"
    "m' * 2 ^ nat (e' + 1074) = nat \<bar>j\<bar> * 2 ^ 1074"
    using assms(2) by (rule f_of_int_fixed)
  define k where "k = min e e'"
  define t where "t = signed (i < 0) (m * 2 ^ nat (e - k)) + signed (j < 0) (m' * 2 ^ nat (e' - k))"
  have k: "-1074 \<le> k" "nat (e + 1074) = nat (e - k) + nat (k + 1074)"
    "nat (e' + 1074) = nat (e' - k) + nat (k + 1074)"
    using i(2) j(2) by (auto simp: k_def)
  have sg: "signed (x < 0) (nat \<bar>x\<bar>) = x" for x :: int by (auto simp: signed_def)
  have sm: "signed s (a * b) = signed s a * int b" for s a b by (simp add: signed_def)
  have "t * 2 ^ nat (k + 1074)
      = signed (i < 0) (m * 2 ^ nat (e + 1074)) + signed (j < 0) (m' * 2 ^ nat (e' + 1074))"
    unfolding t_def k(2,3) power_add by (simp add: signed_def algebra_simps)
  also have "\<dots> = (i + j) * 2 ^ 1074"
    unfolding i(3) j(3) sm sg by (simp add: algebra_simps)
  finally have v: "t * 2 ^ nat (k + 1074) = (i + j) * 2 ^ 1074" .
  have gen: "(x = 0) = (y = 0) \<and> (x < 0) = (y < 0) \<and> nat \<bar>x\<bar> * 2 ^ a = nat \<bar>y\<bar> * 2 ^ b"
    if "x * 2 ^ a = y * 2 ^ b" for x y :: int and a b
  proof -
    have p: "(0::int) < 2 ^ a" "(0::int) < 2 ^ b" by simp_all
    have "int (nat \<bar>x\<bar> * 2 ^ a) = \<bar>x * 2 ^ a\<bar>" "int (nat \<bar>y\<bar> * 2 ^ b) = \<bar>y * 2 ^ b\<bar>"
      by (simp_all add: abs_mult)
    with that have "nat \<bar>x\<bar> * 2 ^ a = nat \<bar>y\<bar> * 2 ^ b" by (metis of_nat_eq_iff)
    moreover have "(x = 0) = (y = 0)" using that by auto
    moreover have "(x < 0) = (y < 0)"
      using that mult_less_0_iff [of x "2 ^ a"] mult_less_0_iff [of y "2 ^ b"] p by force
    ultimately show ?thesis by blast
  qed
  have t0: "t = 0 \<longleftrightarrow> i + j = 0" and tneg: "(t < 0) = (i + j < 0)"
    and "nat \<bar>t\<bar> * 2 ^ nat (k + 1074) = nat \<bar>i + j\<bar> * 2 ^ 1074"
    using gen [OF v] by blast+
  then have "nat \<bar>t\<bar> * 2 ^ nat (k + 1074) = nat \<bar>i + j\<bar> * 2 ^ nat (0 + 1074)"
    by (simp only: add_0 nat_numeral)
  then have r: "round_f64 s (nat \<bar>t\<bar>) k = round_f64 s (nat \<bar>i + j\<bar>) 0" for s
    using k(1) by (intro round_f64_value [where K = 1074]) auto
  have "\<not> (i < 0 \<and> j < 0)" if "t = 0" using t0 that by linarith
  then have n: "f_zero (i < 0 \<and> j < 0) = f_zero False" if "t = 0"
    using that by (intro arg_cong [of _ _ f_zero]) auto
  have "f_add (f_of_int i) (f_of_int j)
      = (if t = 0 then f_zero (i < 0 \<and> j < 0) else round_f64 (t < 0) (nat \<bar>t\<bar>) k)"
    by (simp only: i(1) j(1) f_add.simps fin_add_def k_def t_def Let_def)
  also have "\<dots> = round_f64 (i + j < 0) (nat \<bar>i + j\<bar>) 0"
    using t0 tneg r n by (cases "t = 0") (simp_all add: round_f64_def [of _ 0])
  finally show ?thesis by (simp only: f_of_int_def)
qed

lemma fin_sub_of_int:
  assumes "\<bar>i\<bar> \<le> 2 ^ 53" "\<bar>j\<bar> \<le> 2 ^ 53"
  shows "f_sub (f_of_int i) (f_of_int j) = f_of_int (i - j)"
proof (cases "j = 0")
  case True
  obtain m e where i: "f_of_int i = Fin (i < 0) m e" "-1074 \<le> e"
    "m * 2 ^ nat (e + 1074) = nat \<bar>i\<bar> * 2 ^ 1074"
    using assms(1) by (rule f_of_int_fixed)
  have "f_add (Fin (i < 0) m e) (f_neg (f_of_int 0)) = f_add (Fin (i < 0) m e) (f_of_int 0)"
    if "i = 0 \<or> m \<noteq> 0"
    using that by (auto simp: f_of_int_0 f_zero_def fin_add_def signed_def Let_def)
  moreover have "i = 0 \<or> m \<noteq> 0" using i(3) by (cases "m = 0") auto
  ultimately have "f_add (f_of_int i) (f_neg (f_of_int 0)) = f_add (f_of_int i) (f_of_int 0)"
    by (simp only: i(1))
  then show ?thesis
    using True assms fin_add_of_int [of i 0] by (simp add: f_sub_def)
next
  case False
  then show ?thesis
    using assms fin_add_of_int [of i "- j"] by (simp add: f_sub_def f_neg_of_int)
qed

end
