(* ===== verification/Values.thy ===== *)
theory Values
  imports Floats
begin

text \<open>
  JavaScript values as \<open>value.go\<close> represents them, and \<open>intToValue\<close>, \<open>floatToInt\<close> and
  \<open>floatToValue\<close> of \<open>vm.go\<close>, which build a number.

  A number is a \<open>valueInt\<close> when it is an integer up to \<open>2^53\<close> in absolute value other than
  negative zero, else a \<open>valueFloat\<close> (\<open>num_ok\<close>); \<open>Conversions\<close> and \<open>Arith\<close> prove which
  operations keep this normal form. A string is the list of its UTF-16 code units;
  the Go types behind it are the subject of \<open>Ustrings\<close>.
\<close>

type_synonym ustr = "16 word list"

definition u :: "string \<Rightarrow> ustr" where
  "u s = map of_char s"

datatype jsval =
    VUndefined
  | VNull
  | VBool bool
  | VInt int
  | VFloat f64
  | VString ustr
  | VSymbol nat
  | VBigInt int
  | VObject nat

text \<open>\<open>const maxInt = 1 << 53\<close>.\<close>

definition maxInt :: int where
  "maxInt = 9007199254740992"

lemma maxInt_pow: "maxInt = 2 ^ 53"
  by (simp add: maxInt_def)

text \<open>
  Go's \<open>int64(f)\<close> truncates. Out of range (or for a NaN) its result is implementation
  defined; the model takes that of amd64, the smallest \<open>int64\<close>.
\<close>

definition go_int64 :: "f64 \<Rightarrow> int" where
  "go_int64 f =
     (case f of
        Fin s m e \<Rightarrow>
          (let i = f_trunc f in if - (2 ^ 63) \<le> i \<and> i < 2 ^ 63 then i else - (2 ^ 63))
      | _ \<Rightarrow> - (2 ^ 63))"

section \<open>Integers and floats as values\<close>

definition intToValue :: "int \<Rightarrow> jsval" where
  "intToValue i =
     (let idx = wrap_signed 64 (256 + i) in
      if 0 \<le> idx \<and> idx < 256 then VInt (idx - 256)
      else if - maxInt \<le> i \<and> i \<le> maxInt then VInt i
      else VFloat (f_of_int i))"

definition floatToInt :: "f64 \<Rightarrow> int option" where
  "floatToInt f =
     (if (\<not> f_isZero f \<or> \<not> f_signbit f) \<and> \<not> f_isInf f \<and> f_integral f
         \<and> f_le (f_of_int (- maxInt)) f \<and> f_le f (f_of_int maxInt)
      then Some (go_int64 f) else None)"

definition negativeZero :: jsval where
  "negativeZero = VFloat (f_zero True)"

definition floatToValue :: "f64 \<Rightarrow> jsval" where
  "floatToValue f =
     (case floatToInt f of
        Some i \<Rightarrow> intToValue i
      | None \<Rightarrow>
          if f_isZero f then negativeZero
          else if f_isNaN f then VFloat NaN
          else if f_isInf f \<and> \<not> f_signbit f then VFloat (Inf False)
          else if f_isInf f \<and> f_signbit f then VFloat (Inf True)
          else VFloat f)"

text \<open>The normal form of a number.\<close>

definition num_ok :: "jsval \<Rightarrow> bool" where
  "num_ok v =
     (case v of
        VInt i \<Rightarrow> \<bar>i\<bar> \<le> maxInt
      | VFloat f \<Rightarrow> f64_ok f \<and> floatToInt f = None
      | _ \<Rightarrow> True)"

definition is_number :: "jsval \<Rightarrow> bool" where
  "is_number v = (case v of VInt _ \<Rightarrow> True | VFloat _ \<Rightarrow> True | _ \<Rightarrow> False)"

lemma intToValue_int:
  assumes "- (2 ^ 63) \<le> i" "i < 2 ^ 63"
  shows "intToValue i = (if \<bar>i\<bar> \<le> maxInt then VInt i else VFloat (f_of_int i))"
proof (cases "i < 2 ^ 63 - 256")
  case True
  then have "wrap_signed 64 (256 + i) = 256 + i"
    using assms by (intro wrap_signed_id) auto
  then show ?thesis by (auto simp: intToValue_def maxInt_def Let_def)
next
  case False
  then have "wrap_signed 64 (256 + i) < 0"
    using assms by (simp add: wrap_signed_def mod_pos_pos_trivial mod_pos_geq)
  then show ?thesis by (auto simp: intToValue_def maxInt_def Let_def)
qed

lemma intToValue_small [simp]: "\<bar>i\<bar> \<le> maxInt \<Longrightarrow> intToValue i = VInt i"
  by (subst intToValue_int) (auto simp: maxInt_def)

lemma f_le_maxInt_trunc:
  assumes "f64_ok (Fin s m e)" "f_le (f_of_int (- maxInt)) (Fin s m e)"
    "f_le (Fin s m e) (f_of_int maxInt)"
  shows "\<bar>f_trunc (Fin s m e)\<bar> \<le> maxInt"
proof -
  have c: "f_of_int maxInt = Fin False (2 ^ 52) 1" "f_of_int (- maxInt) = Fin True (2 ^ 52) 1"
    using round_pow53 by (simp_all add: f_of_int_def maxInt_def)
  have e: "-1074 \<le> e" using assms(1) by (simp add: f64_ok_def)
  have "\<bar>f_scaled s m e\<bar> \<le> 2 ^ 52 * 2 ^ 1075"
    using assms(2,3) unfolding c f_le_def f_lt.simps f_eq.simps
    by (auto simp: f_scaled_def abs_if split: if_splits)
  then have b: "int m * 2 ^ nat (e + 1074) \<le> 2 ^ 1127"
    by (cases s) (simp_all add: f_scaled_def abs_mult)
  show ?thesis
  proof (cases "0 \<le> e")
    case True
    then have "nat (e + 1074) = nat e + 1074" by linarith
    then have "int m * 2 ^ nat e * 2 ^ 1074 \<le> 2 ^ 53 * 2 ^ 1074"
      using b by (simp only: power_add mult.assoc) simp
    then have "int m * 2 ^ nat e \<le> 2 ^ 53" by (rule mult_right_le_imp_le) simp
    with True show ?thesis by (simp add: maxInt_def abs_mult)
  next
    case False
    have "int m div 2 ^ nat (- e) \<le> 2 ^ 53"
    proof -
      have "nat (- e) + nat (e + 1074) = 1074" using e False by linarith
      then have p: "(2::int) ^ 1074 = 2 ^ nat (- e) * 2 ^ nat (e + 1074)"
        by (simp only: power_add [symmetric])
      have "int m * 2 ^ nat (e + 1074) \<le> 2 ^ 53 * 2 ^ nat (- e) * 2 ^ nat (e + 1074)"
        using b unfolding mult.assoc p [symmetric] by simp
      then have "int m \<le> 2 ^ 53 * 2 ^ nat (- e)" by (rule mult_right_le_imp_le) simp
      then have "int m div 2 ^ nat (- e) \<le> (2 ^ 53 * 2 ^ nat (- e)) div 2 ^ nat (- e)"
        by (intro zdiv_mono1) auto
      then show ?thesis by simp
    qed
    moreover have "0 \<le> int m div 2 ^ nat (- e)" by (simp add: pos_imp_zdiv_nonneg_iff)
    ultimately show ?thesis using False by (simp add: maxInt_def abs_mult)
  qed
qed

lemma floatToInt_Some:
  assumes "f64_ok f" "floatToInt f = Some i"
  shows "\<bar>i\<bar> \<le> maxInt \<and> f_of_int i = f"
proof -
  from assms(2) obtain s m e where f: "f = Fin s m e"
    by (cases f) (auto simp: floatToInt_def split: if_splits)
  from assms(2) have c: "m = 0 \<longrightarrow> \<not> s" "f_integral (Fin s m e)"
    "f_le (f_of_int (- maxInt)) (Fin s m e)" "f_le (Fin s m e) (f_of_int maxInt)"
    and i: "i = go_int64 (Fin s m e)"
    by (auto simp: floatToInt_def f split: if_splits)
  have t: "\<bar>f_trunc (Fin s m e)\<bar> \<le> maxInt"
    using f_le_maxInt_trunc c assms(1) f by blast
  then have it: "i = f_trunc (Fin s m e)"
    unfolding i go_int64_def f64.case Let_def maxInt_def by (auto simp del: f_trunc.simps)
  have "f_of_int i = f"
  proof (cases "m = 0")
    case True
    then have "e = -1074" "\<not> s" using assms(1) c(1) by (simp_all add: f f64_ok_def)
    then show ?thesis using True it by (simp add: f f_of_int_0 f_zero_def)
  next
    case False
    then show ?thesis
      unfolding it using f_of_int_trunc assms(1) c(2) by (simp only: f)
  qed
  with t it show ?thesis by simp
qed

lemma f_le_of_int:
  assumes "\<bar>i\<bar> \<le> 2 ^ 53" "\<bar>j\<bar> \<le> 2 ^ 53"
  shows "f_lt (f_of_int i) (f_of_int j) = (i < j)" "f_eq (f_of_int i) (f_of_int j) = (i = j)"
    "f_le (f_of_int i) (f_of_int j) = (i \<le> j)"
proof -
  obtain m e where i: "f_of_int i = Fin (i < 0) m e" "-1074 \<le> e"
    "m * 2 ^ nat (e + 1074) = nat \<bar>i\<bar> * 2 ^ 1074"
    using assms(1) by (rule f_of_int_fixed)
  obtain m' e' where j: "f_of_int j = Fin (j < 0) m' e'" "-1074 \<le> e'"
    "m' * 2 ^ nat (e' + 1074) = nat \<bar>j\<bar> * 2 ^ 1074"
    using assms(2) by (rule f_of_int_fixed)
  have s: "f_scaled (x < 0) n k = x * 2 ^ 1074"
    if "n * 2 ^ nat (k + 1074) = nat \<bar>x\<bar> * 2 ^ 1074" for x n k
  proof -
    have "int n * 2 ^ nat (k + 1074) = \<bar>x\<bar> * 2 ^ 1074"
    proof -
      have "int (n * 2 ^ nat (k + 1074)) = int (nat \<bar>x\<bar> * 2 ^ 1074)" by (simp only: that)
      then show ?thesis by (simp only: of_nat_mult of_nat_power of_nat_numeral nat_0_le abs_ge_zero int_nat_eq) simp
    qed
    then show ?thesis by (simp add: f_scaled_def mult.assoc abs_if)
  qed
  have p: "(0::int) < 2 ^ 1074" by simp
  show lt: "f_lt (f_of_int i) (f_of_int j) = (i < j)"
    unfolding i(1) j(1) f_lt.simps s [OF i(3)] s [OF j(3)]
    by (rule mult_less_cancel_right_pos [OF p])
  show eq: "f_eq (f_of_int i) (f_of_int j) = (i = j)"
    unfolding i(1) j(1) f_eq.simps s [OF i(3)] s [OF j(3)] using p by simp
  show "f_le (f_of_int i) (f_of_int j) = (i \<le> j)"
    unfolding f_le_def lt eq by auto
qed

lemma floatToInt_of_int: "\<bar>i\<bar> \<le> maxInt \<Longrightarrow> floatToInt (f_of_int i) = Some i"
proof -
  assume i: "\<bar>i\<bar> \<le> maxInt"
  then have b: "\<bar>i\<bar> \<le> 2 ^ 53" "\<bar>maxInt\<bar> \<le> 2 ^ 53" "\<bar>- maxInt\<bar> \<le> 2 ^ 53"
    by (simp_all add: maxInt_def)
  have "f_isZero (f_of_int i) \<longrightarrow> \<not> f_signbit (f_of_int i)"
    using f_of_int_isZero [OF b(1)] by (auto simp: f_of_int_0 f_zero_def)
  moreover have "go_int64 (f_of_int i) = i"
    using f_trunc_of_int [OF b(1)] f_of_int_finite [OF b(1)] b(1)
    by (cases "f_of_int i") (auto simp: go_int64_def Let_def)
  ultimately show ?thesis
    using i b f_of_int_finite [OF b(1)] f_integral_of_int [OF b(1)]
    by (auto simp: floatToInt_def f_le_of_int)
qed

lemma floatToValue_ok: "f64_ok f \<Longrightarrow> num_ok (floatToValue f)"
proof (cases "floatToInt f")
  case (Some i)
  assume "f64_ok f"
  with Some floatToInt_Some have "\<bar>i\<bar> \<le> maxInt" by blast
  with Some show ?thesis by (simp add: floatToValue_def num_ok_def)
next
  case None
  assume "f64_ok f"
  with None show ?thesis
    by (cases f) (auto simp: floatToValue_def num_ok_def negativeZero_def floatToInt_def f_zero_def f64_ok_def)
qed

lemma floatToValue_of_int [simp]: "\<bar>i\<bar> \<le> maxInt \<Longrightarrow> floatToValue (f_of_int i) = VInt i"
  by (simp add: floatToValue_def floatToInt_of_int)

end
