(* ===== verification/Strconv.thy ===== *)
theory Strconv
  imports Values
begin

text \<open>
  Strings as numbers. First the parts of Go's \<open>strconv\<close> and \<open>strings\<close> packages the
  source calls (\<open>ParseInt\<close>, \<open>ParseFloat\<close>, \<open>FormatInt\<close>, \<open>TrimSpace\<close>), then the
  conversions of \<open>string_ascii.go\<close> and \<open>string_unicode.go\<close> and the array index
  parsers of \<open>runtime.go\<close> (\<open>strToArrayIdx\<close>, \<open>strToInt32\<close>, \<open>strToInt64\<close>,
  \<open>strToIntNum\<close>). The main results: \<open>strToArrayIdx\<close> is exactly the inverse of the
  canonical decimal form on the array indices, and \<open>strToInt64\<close> inverts it on the
  integers of up to 18 digits.
\<close>

section \<open>Characters and digits\<close>

definition is_digit :: "16 word \<Rightarrow> bool" where
  "is_digit c = (48 \<le> unat c \<and> unat c \<le> 57)"

definition digit_val :: "16 word \<Rightarrow> nat" where
  "digit_val c = unat c - 48"

definition digit_char :: "nat \<Rightarrow> 16 word" where
  "digit_char d = of_nat (48 + d)"

lemma unat_digit_char: "d < 10 \<Longrightarrow> unat (digit_char d) = 48 + d"
  unfolding digit_char_def by (subst unat_of_nat) simp

lemma is_digit_digit_char [simp]: "d < 10 \<Longrightarrow> is_digit (digit_char d)"
  by (simp add: is_digit_def unat_digit_char)

lemma digit_val_digit_char [simp]: "d < 10 \<Longrightarrow> digit_val (digit_char d) = d"
  by (simp add: digit_val_def unat_digit_char)

lemma digit_char_digit_val: "is_digit c \<Longrightarrow> digit_char (digit_val c) = c"
  by (simp add: is_digit_def digit_val_def digit_char_def)

lemma digit_val_less: "is_digit c \<Longrightarrow> digit_val c < 10"
  unfolding is_digit_def digit_val_def by linarith

text \<open>The number a list of decimal digits stands for.\<close>

definition digits_val :: "ustr \<Rightarrow> nat" where
  "digits_val s = foldl (\<lambda>n c. n * 10 + digit_val c) 0 s"

lemma foldl_digits:
  "foldl (\<lambda>n c. n * 10 + digit_val c) a s = a * 10 ^ length s + digits_val s"
proof (induction s arbitrary: a)
  case (Cons c s)
  show ?case
    using Cons [of "a * 10 + digit_val c"] Cons [of "digit_val c"]
    by (simp add: digits_val_def algebra_simps)
qed (simp add: digits_val_def)

lemma digits_val_Nil [simp]: "digits_val [] = 0"
  by (simp add: digits_val_def)

lemma digits_val_Cons: "digits_val (c # s) = digit_val c * 10 ^ length s + digits_val s"
  using foldl_digits [of "digit_val c" s] by (simp add: digits_val_def)

lemma digits_val_snoc [simp]: "digits_val (s @ [c]) = digits_val s * 10 + digit_val c"
  by (simp add: digits_val_def)

lemma digits_val_less: "list_all is_digit s \<Longrightarrow> digits_val s < 10 ^ length s"
proof (induction s)
  case (Cons c s)
  then have "digit_val c \<le> 9" "digits_val s < 10 ^ length s"
    using digit_val_less [of c] by auto
  then have "digit_val c * 10 ^ length s \<le> 9 * 10 ^ length s" by (intro mult_le_mono) auto
  with \<open>digits_val s < _\<close> have "digits_val (c # s) < 9 * 10 ^ length s + 10 ^ length s"
    unfolding digits_val_Cons by (rule add_le_less_mono [rotated])
  then show ?case by simp
qed simp

text \<open>\<open>strconv.FormatInt(i, 10)\<close>: the canonical decimal form.\<close>

fun nat_str :: "nat \<Rightarrow> ustr" where
  "nat_str n = (if n < 10 then [digit_char n] else nat_str (n div 10) @ [digit_char (n mod 10)])"

declare nat_str.simps [simp del]

definition FormatInt :: "int \<Rightarrow> ustr" where
  "FormatInt i = (if i < 0 then 45 # nat_str (nat (- i)) else nat_str (nat i))"

lemma nat_str_small: "n < 10 \<Longrightarrow> nat_str n = [digit_char n]"
  by (simp add: nat_str.simps)

lemma nat_str_digits [simp]: "list_all is_digit (nat_str n)"
proof (induction n rule: nat_str.induct)
  case (1 n)
  then show ?case by (subst nat_str.simps) auto
qed

lemma nat_str_not_Nil [simp]: "nat_str n \<noteq> []"
  by (subst nat_str.simps) simp

lemma digits_val_nat_str [simp]: "digits_val (nat_str n) = n"
proof (induction n rule: nat_str.induct)
  case (1 n)
  then show ?case
    by (subst nat_str.simps) (auto simp: digits_val_Cons)
qed

lemma nat_str_hd: "0 < n \<Longrightarrow> hd (nat_str n) \<noteq> 48"
proof (induction n rule: nat_str.induct)
  case (1 n)
  show ?case
  proof (cases "n < 10")
    case True
    have "unat (digit_char n) \<noteq> unat (48 :: 16 word)"
      using True "1.prems" by (simp add: unat_digit_char)
    then show ?thesis using True by (subst nat_str.simps) auto
  next
    case False
    with "1.IH" have "hd (nat_str (n div 10)) \<noteq> 48" by simp
    with False show ?thesis by (subst nat_str.simps) simp
  qed
qed

text \<open>A digit string without a leading zero is the canonical form of its value.\<close>

lemma nat_str_digits_val:
  assumes "list_all is_digit s" "s \<noteq> []" "hd s \<noteq> 48 \<or> length s = 1"
  shows "nat_str (digits_val s) = s"
  using assms
proof (induction s rule: rev_induct)
  case (snoc c s)
  from snoc.prems(1) have c: "is_digit c" and s: "list_all is_digit s" by auto
  show ?case
  proof (cases "s = []")
    case True
    then show ?thesis
      using c digit_val_less [OF c] by (simp add: digits_val_Cons nat_str_small digit_char_digit_val)
  next
    case False
    with snoc.prems(3) have h: "hd s \<noteq> 48" by simp
    have "0 < digits_val s"
    proof -
      obtain a t where a: "s = a # t" using False by (cases s) auto
      have "is_digit a" using s a by simp
      moreover have "unat a \<noteq> 48"
        using h a by (simp add: word_unat_eq_iff)
      ultimately have "0 < digit_val a" unfolding is_digit_def digit_val_def by linarith
      then show ?thesis by (simp add: a digits_val_Cons)
    qed
    moreover have "nat_str (digits_val s) = s"
      using snoc.IH s False h by simp
    ultimately show ?thesis
      using digit_val_less [OF c]
      by (subst nat_str.simps) (simp add: digit_char_digit_val c)
  qed
qed simp

lemma length_nat_str_le: "n < 10 ^ k \<Longrightarrow> 0 < k \<Longrightarrow> length (nat_str n) \<le> k"
proof (induction n arbitrary: k rule: nat_str.induct)
  case (1 n)
  show ?case
  proof (cases "n < 10")
    case True
    then show ?thesis using "1.prems" by (simp add: nat_str_small)
  next
    case False
    then obtain k' where k: "k = Suc k'" "0 < k'"
      using "1.prems" by (cases k; cases "k - 1") auto
    have "n div 10 < 10 ^ k'" using "1.prems" k by (simp add: less_mult_imp_div_less)
    then have "length (nat_str (n div 10)) \<le> k'" using "1.IH" False k by blast
    then show ?thesis using False k by (subst nat_str.simps) simp
  qed
qed

section \<open>\<open>strToArrayIdx\<close>\<close>

text \<open>The loop over the digits, in \<open>uint32\<close>; \<open>None\<close> at a character that is not a digit.\<close>

fun digits_loop :: "nat \<Rightarrow> ustr \<Rightarrow> nat \<Rightarrow> nat option" where
  "digits_loop w [] n = Some n"
| "digits_loop w (c # s) n =
     (if unat c < 48 \<or> 57 < unat c then None
      else digits_loop w s ((n * 10 + (unat c - 48)) mod 2 ^ w))"

lemma digits_loop_eq:
  "(a + 1) * 10 ^ length s \<le> 2 ^ w \<Longrightarrow>
   digits_loop w s a = (if list_all is_digit s then Some (a * 10 ^ length s + digits_val s) else None)"
proof (induction s arbitrary: a)
  case (Cons c s)
  show ?case
  proof (cases "is_digit c")
    case False
    then show ?thesis by (auto simp: is_digit_def)
  next
    case True
    then have d: "digit_val c < 10" by (rule digit_val_less)
    have le: "(a * 10 + digit_val c + 1) * 10 ^ length s \<le> 2 ^ w"
    proof -
      have "(a * 10 + digit_val c + 1) * 10 ^ length s \<le> (a + 1) * 10 * 10 ^ length s"
        using d by (intro mult_le_mono) auto
      also have "\<dots> = (a + 1) * 10 ^ length (c # s)" by (simp only: list.size power_Suc mult.assoc add_0_right One_nat_def add_Suc_right)
      also have "\<dots> \<le> 2 ^ w" using Cons.prems by (simp only:)
      finally show ?thesis .
    qed
    have "(a * 10 + digit_val c + 1) * 1 \<le> (a * 10 + digit_val c + 1) * 10 ^ length s"
      by (intro mult_le_mono) auto
    from this le have "(a * 10 + digit_val c + 1) * 1 \<le> 2 ^ w" by (rule le_trans)
    then have "a * 10 + digit_val c < 2 ^ w" by simp
    then have "(a * 10 + (unat c - 48)) mod 2 ^ w = a * 10 + digit_val c"
      by (simp add: digit_val_def)
    then show ?thesis
      using True Cons.IH [OF le] by (auto simp: is_digit_def digits_val_Cons algebra_simps)
  qed
qed simp

definition strToArrayIdx :: "ustr \<Rightarrow> nat" where
  "strToArrayIdx s =
     (if s = [] then maxUint32
      else let l = length s in
      if s ! 0 = 48 then (if l = 1 then 0 else maxUint32)
      else if l < 10 then (case digits_loop 32 s 0 of None \<Rightarrow> maxUint32 | Some n \<Rightarrow> n)
      else if 10 < l then maxUint32
      else let c9 = s ! 9 in
      if unat c9 < 48 \<or> 57 < unat c9 then maxUint32
      else case digits_loop 32 (take 9 s) 0 of
          None \<Rightarrow> maxUint32
        | Some n \<Rightarrow>
            if maxUint32 div 10 + 1 \<le> n then maxUint32
            else let m = (n * 10) mod 2 ^ 32; n1 = (m + (unat c9 - 48)) mod 2 ^ 32 in
                 if n1 < m then maxUint32 else n1)"

lemma char48 [simp]: "(c = (48 :: 16 word)) = (unat c = 48)"
  by (simp add: word_unat_eq_iff)

text \<open>The digits of an index in canonical form are read back.\<close>

lemma strToArrayIdx_eq:
  "strToArrayIdx s =
     (if s \<noteq> [] \<and> list_all is_digit s \<and> (unat (hd s) \<noteq> 48 \<or> length s = 1) \<and> digits_val s < maxUint32
      then digits_val s else maxUint32)"
proof (cases "s = []")
  case False
  then have h: "s ! 0 = hd s" by (simp add: hd_conv_nth)
  consider "unat (hd s) = 48" | "unat (hd s) \<noteq> 48" "length s < 10"
    | "unat (hd s) \<noteq> 48" "length s = 10" | "unat (hd s) \<noteq> 48" "10 < length s"
    by linarith
  then show ?thesis
  proof cases
    case 1
    then show ?thesis
    proof (cases "length s = 1")
      case True
      then obtain c where "s = [c]" by (cases s) auto
      with 1 show ?thesis by (simp add: strToArrayIdx_def is_digit_def digits_val_Cons digit_val_def)
    qed (use 1 False h in \<open>simp add: strToArrayIdx_def\<close>)
  next
    case 2
    have "(0 + 1) * 10 ^ length s \<le> (10::nat) ^ 9"
      using 2 by (simp add: power_increasing del: power_numeral)
    then have "(0 + 1) * 10 ^ length s \<le> (2::nat) ^ 32" by simp
    note l = digits_loop_eq [OF this]
    have "digits_val s < maxUint32" if "list_all is_digit s"
    proof -
      have "digits_val s < 10 ^ length s" using that by (rule digits_val_less)
      also have "\<dots> \<le> (10::nat) ^ 9" using 2 by (intro power_increasing) auto
      finally show ?thesis by (simp add: maxUint32_def)
    qed
    then show ?thesis using 2 False h by (simp add: strToArrayIdx_def l)
  next
    case 4
    have "maxUint32 \<le> digits_val s" if "list_all is_digit s"
    proof -
      obtain c t where s: "s = c # t" using False by (cases s) auto
      have "is_digit c" "unat c \<noteq> 48" using that 4 s by auto
      then have "1 \<le> digit_val c" unfolding is_digit_def digit_val_def by linarith
      moreover have "(10::nat) ^ 10 \<le> 10 ^ length t" using 4 s by (intro power_increasing) auto
      ultimately have "1 * 10 ^ 10 \<le> digit_val c * 10 ^ length t" by (intro mult_le_mono) auto
      then show ?thesis by (simp add: s digits_val_Cons maxUint32_def)
    qed
    then show ?thesis using 4 False h by (auto simp: strToArrayIdx_def)
  next
    case 3
    define t where "t = take 9 s"
    define c9 where "c9 = s ! 9"
    have s: "s = t @ [c9]"
      using 3 by (simp add: t_def c9_def take_Suc_conv_app_nth [symmetric])
    have lt: "length t = 9" using 3 by (simp add: t_def)
    then have "(0 + 1) * 10 ^ length t \<le> (2::nat) ^ 32" by simp
    note l = digits_loop_eq [OF this]
    have eq: "strToArrayIdx s =
       (if \<not> is_digit c9 \<or> \<not> list_all is_digit t then maxUint32
        else if maxUint32 div 10 + 1 \<le> digits_val t then maxUint32
        else let m = (digits_val t * 10) mod 2 ^ 32; n1 = (m + digit_val c9) mod 2 ^ 32 in
             if n1 < m then maxUint32 else n1)"
      using 3 False h
      by (auto simp: strToArrayIdx_def t_def [symmetric] c9_def [symmetric] l is_digit_def digit_val_def)
    show ?thesis
    proof (cases "is_digit c9 \<and> list_all is_digit t")
      case False
      then show ?thesis unfolding eq by (auto simp: s)
    next
      case True
      then have d: "digit_val c9 < 10" by (simp add: digit_val_less)
      have v: "digits_val s = digits_val t * 10 + digit_val c9" by (simp add: s)
      show ?thesis
      proof (cases "digits_val t * 10 + digit_val c9 < 2 ^ 32")
        case True': True
        show ?thesis
          using True d 3 \<open>s \<noteq> []\<close> True' unfolding eq v
          by (auto simp: s maxUint32_def Let_def)
      next
        case False
        have "n1 < digits_val t * 10"
          if "n1 = (digits_val t * 10 + digit_val c9) mod 2 ^ 32" "digits_val t < 429496730" for n1
          using that False d by (simp add: le_mod_geq)
        then show ?thesis
          using True d 3 \<open>s \<noteq> []\<close> False unfolding eq v
          by (auto simp: s maxUint32_def Let_def)
      qed
    qed
  qed
qed (simp add: strToArrayIdx_def)

lemma strToArrayIdx_iff:
  "strToArrayIdx s = i \<and> i \<noteq> maxUint32 \<longleftrightarrow> i < maxUint32 \<and> s = nat_str i"
proof
  assume "strToArrayIdx s = i \<and> i \<noteq> maxUint32"
  then have a: "s \<noteq> []" "list_all is_digit s" "unat (hd s) \<noteq> 48 \<or> length s = 1"
    "digits_val s < maxUint32" "i = digits_val s"
    by (auto simp: strToArrayIdx_eq split: if_splits)
  then show "i < maxUint32 \<and> s = nat_str i"
    using nat_str_digits_val [of s] by simp
next
  assume a: "i < maxUint32 \<and> s = nat_str i"
  have "unat (hd (nat_str i)) \<noteq> 48 \<or> length (nat_str i) = 1"
    using nat_str_hd [of i] by (cases "i = 0") (auto simp: nat_str_small)
  with a show "strToArrayIdx s = i \<and> i \<noteq> maxUint32"
    by (simp add: strToArrayIdx_eq)
qed

text \<open>
  C25. \<open>strToArrayIdx\<close> recognises exactly the canonical decimal forms of the array indices
  \<open>0 \<dots> 2^32 - 2\<close>: it returns \<open>i\<close> on the canonical form of \<open>i\<close> and on no other
  string, and the marker \<open>math.MaxUint32\<close> on every string that is no index.
\<close>

theorem strToArrayIdx_canonical:
  "strToArrayIdx s = i \<and> i \<noteq> maxUint32 \<longleftrightarrow> i < maxUint32 \<and> s = nat_str i"
  by (rule strToArrayIdx_iff)

lemma strToArrayIdx_nat_str: "i < maxUint32 \<Longrightarrow> strToArrayIdx (nat_str i) = i"
  using nat_str_hd [of i] by (cases "i = 0") (auto simp: strToArrayIdx_eq nat_str_small digits_val_Cons)

lemma strToArrayIdx_le: "strToArrayIdx s \<le> maxUint32"
  by (simp add: strToArrayIdx_eq)

section \<open>\<open>strToInt32\<close> and \<open>strToInt64\<close>\<close>

text \<open>
  The two functions have one body over an integer type of \<open>w\<close> bits, whose values have at
  most \<open>d\<close> digits (\<open>w = 32, d = 10\<close> and \<open>w = 64, d = 19\<close>). Reading \<open>s[0]\<close> of the
  string left after a lone minus sign is a Go panic.
\<close>

definition strToIntW_body :: "nat \<Rightarrow> nat \<Rightarrow> bool \<Rightarrow> ustr \<Rightarrow> go_error + int \<times> bool" where
  "strToIntW_body w d neg s =
     (let l = length s;
          finish = (\<lambda>n. Inr (if neg then wrap_signed w (- int n) else wrap_signed w (int n), True)) in
      if s = [] then Inl GoPanic
      else if s ! 0 = 48 then (if l = 1 then Inr (0, \<not> neg) else Inr (-1, False))
      else if l < d then
        (case digits_loop w s 0 of None \<Rightarrow> Inr (-1, False) | Some n \<Rightarrow> finish n)
      else if d < l then Inr (-1, False)
      else let c = s ! (d - 1) in
      if 48 \<le> unat c then
        (if (\<not> neg \<and> 55 < unat c) \<or> 56 < unat c then Inr (-1, False)
         else case digits_loop w (take (d - 1) s) 0 of
             None \<Rightarrow> Inr (-1, False)
           | Some n \<Rightarrow>
               if (2 ^ (w - 1) - 1) div 10 + 1 \<le> n then Inr (0, False)
               else finish ((n * 10 + (unat c - 48)) mod 2 ^ w))
      else Inr (-1, False))"

definition strToIntW :: "nat \<Rightarrow> nat \<Rightarrow> ustr \<Rightarrow> go_error + int \<times> bool" where
  "strToIntW w d s =
     (if s = [] then Inr (-1, False)
      else if s ! 0 = 45 then strToIntW_body w d True (tl s)
      else strToIntW_body w d False s)"

definition strToInt32 :: "ustr \<Rightarrow> go_error + int \<times> bool" where
  "strToInt32 s = strToIntW 32 10 s"

definition strToInt64 :: "ustr \<Rightarrow> go_error + int \<times> bool" where
  "strToInt64 s = strToIntW 64 19 s"

definition strToInt :: "ustr \<Rightarrow> go_error + int \<times> bool" where
  "strToInt s = strToInt64 s"

definition strToGoIdx :: "ustr \<Rightarrow> go_error + int" where
  "strToGoIdx s =
     (case strToInt s of Inl e \<Rightarrow> Inl e | Inr (n, ok) \<Rightarrow> Inr (if ok then n else -1))"

definition strToIdx64 :: "ustr \<Rightarrow> go_error + int" where
  "strToIdx64 s =
     (case strToInt64 s of Inl e \<Rightarrow> Inl e | Inr (n, ok) \<Rightarrow> Inr (if ok then n else -1))"

text \<open>An accepted string is the canonical form of the number returned, in either width.\<close>

lemma strToIntW_sound:
  assumes "0 < w" "0 < d" "10 ^ (d - 1) \<le> (2::nat) ^ (w - 1)" "(2::nat) ^ (w - 1) mod 10 = 8"
    and ok: "strToIntW w d s = Inr (i, True)"
  shows "s = FormatInt i \<and> - (2 ^ (w - 1)) \<le> i \<and> i < 2 ^ (w - 1)"
proof -
  obtain neg t where s: "s = (if neg then 45 # t else t)" and ok: "strToIntW_body w d neg t = Inr (i, True)"
  proof (cases "s = []")
    case False
    then have "s = 45 # tl s" if "s ! 0 = 45" using that by (cases s) auto
    with False that [of True "tl s"] that [of False s] ok show ?thesis
      by (auto simp: strToIntW_def split: if_splits)
  qed (use ok in \<open>simp add: strToIntW_def\<close>)
  note body = ok [unfolded strToIntW_body_def Let_def]
  have t: "t \<noteq> []" using body by (auto split: if_splits)
  have p: "(2::nat) ^ w = 2 * 2 ^ (w - 1)" using assms(1) by (cases w) auto
  show ?thesis
  proof (cases "t ! 0 = 48")
    case True
    with body t have "length t = 1" "i = 0" "\<not> neg" by (auto split: if_splits)
    then show ?thesis
      using True s by (cases t) (auto simp: FormatInt_def nat_str_small digit_char_def word_unat_eq_iff)
  next
    case False
    have "\<exists>n. list_all is_digit t \<and> n = digits_val t \<and> n < 2 ^ w
        \<and> n < 2 ^ (w - 1) + (if neg then 1 else 0)
        \<and> i = (if neg then wrap_signed w (- int n) else wrap_signed w (int n))"
    proof (cases "length t < d")
      case True
      have "10 ^ length t \<le> (10::nat) ^ (d - 1)"
        using True assms(2) by (intro power_increasing) auto
      from this assms(3) have le2: "10 ^ length t \<le> (2::nat) ^ (w - 1)" by (rule le_trans)
      with p have le: "(0 + 1) * 10 ^ length t \<le> (2::nat) ^ w" by simp
      have dg: "list_all is_digit t"
        and i: "i = (if neg then wrap_signed w (- int (digits_val t)) else wrap_signed w (int (digits_val t)))"
        using body False True t digits_loop_eq [OF le] by (auto split: if_splits)
      have "digits_val t < 2 ^ (w - 1)" using digits_val_less [OF dg] le2 by (rule less_le_trans)
      with dg i p show ?thesis by auto
    next
      case False': False
      define c where "c = t ! (d - 1)"
      define r where "r = take (d - 1) t"
      have len: "length t = d"
        using body False False' t by (auto split: if_splits)
      have tr: "t = r @ [c]"
        using len assms(2) by (simp add: r_def c_def take_Suc_conv_app_nth [symmetric])
      have "length r = d - 1" using len by (simp add: r_def)
      with assms(3) p have le: "(0 + 1) * 10 ^ length r \<le> (2::nat) ^ w" by simp
      have c: "48 \<le> unat c" "unat c \<le> 56" "\<not> neg \<longrightarrow> unat c \<le> 55"
        and dg: "list_all is_digit r"
        and n: "\<not> (2 ^ (w - 1) - 1) div 10 + 1 \<le> digits_val r"
        and i: "i = (if neg then wrap_signed w (- int ((digits_val r * 10 + (unat c - 48)) mod 2 ^ w))
                     else wrap_signed w (int ((digits_val r * 10 + (unat c - 48)) mod 2 ^ w)))"
        using body [folded c_def r_def] False len t digits_loop_eq [OF le]
        by (auto simp del: One_nat_def split: if_splits)
      have ct: "is_digit c" "digit_val c = unat c - 48" using c by (auto simp: is_digit_def digit_val_def)
      have "digits_val r * 10 + (unat c - 48) < 2 ^ (w - 1) + (if neg then 1 else 0)"
      proof -
        define P :: nat where "P = 2 ^ (w - 1)"
        have "P mod 10 = 8" "1 \<le> P" using assms(4) by (auto simp: P_def)
        moreover have "digits_val r \<le> (P - 1) div 10" using n by (simp add: P_def)
        ultimately have "digits_val r * 10 + 8 \<le> P" by presburger
        then show ?thesis using c by (auto simp: P_def)
      qed
      moreover have "1 \<le> (2::nat) ^ (w - 1)" by simp
      with calculation p have "digits_val r * 10 + (unat c - 48) < 2 ^ w"
        by (cases neg; simp only: if_True if_False)
      ultimately show ?thesis
        using dg ct i by (simp add: tr)
    qed
    then obtain n where n: "list_all is_digit t" "n = digits_val t"
      "n < 2 ^ (w - 1) + (if neg then 1 else 0)"
      "i = (if neg then wrap_signed w (- int n) else wrap_signed w (int n))" by blast
    have "nat_str n = t"
      unfolding n(2) using n(1) t False by (intro nat_str_digits_val) (auto simp: hd_conv_nth)
    moreover have "n \<noteq> 0"
      using \<open>nat_str n = t\<close> False by (cases n) (auto simp: nat_str_small digit_char_def word_unat_eq_iff)
    moreover have "i = (if neg then - int n else int n)"
      using n(3,4) wrap_signed_nat [OF assms(1), of n] by (cases neg) auto
    moreover have "int n \<le> 2 ^ (w - 1)" "\<not> neg \<longrightarrow> int n < 2 ^ (w - 1)"
      using n(3) by (auto split: if_splits simp flip: of_nat_less_iff of_nat_le_iff)
    moreover have "- (2 ^ (w - 1)) \<le> int n" "0 < int n" "- int n < 2 ^ (w - 1)"
      using \<open>n \<noteq> 0\<close> by (auto intro: order_trans [of _ 0] le_less_trans [of _ 0])
    ultimately show ?thesis using s by (auto simp: FormatInt_def)
  qed
qed

lemma strToIntW_complete:
  assumes "0 < w" "10 ^ (d - 1) \<le> (2::nat) ^ (w - 1)" "\<bar>i\<bar> < 10 ^ (d - 1)" "1 < d"
  shows "strToIntW w d (FormatInt i) = Inr (i, True)"
proof -
  define n where "n = nat \<bar>i\<bar>"
  have n: "n < 10 ^ (d - 1)"
  proof -
    have "int n < 10 ^ (d - 1)" using assms(3) by (simp add: n_def)
    then show ?thesis by (simp flip: of_nat_less_iff)
  qed
  have p: "(2::nat) ^ w = 2 * 2 ^ (w - 1)" using assms(1) by (cases w) auto
  have len: "length (nat_str n) \<le> d - 1" using n assms(4) by (intro length_nat_str_le) auto
  have "10 ^ length (nat_str n) \<le> (10::nat) ^ (d - 1)" using len by (intro power_increasing) auto
  then have "10 ^ length (nat_str n) \<le> (2::nat) ^ (w - 1)" using assms(2) by (rule le_trans)
  with p have le: "(0 + 1) * 10 ^ length (nat_str n) \<le> (2::nat) ^ w" by simp
  have w: "wrap_signed w (int n) = int n" "wrap_signed w (- int n) = - int n"
    using less_le_trans [OF n assms(2)] wrap_signed_nat [OF assms(1), of n] by auto
  have hd: "nat_str n ! 0 \<noteq> 48" if "n \<noteq> 0"
    using nat_str_hd [of n] that by (simp add: hd_conv_nth)
  have first: "nat_str n ! 0 \<noteq> 45"
  proof -
    have "is_digit (nat_str n ! 0)"
      using nat_str_digits [of n] nat_str_not_Nil [of n]
      by (metis length_greater_0_conv list_all_length)
    then show ?thesis by (auto simp: is_digit_def)
  qed
  have body: "strToIntW_body w d neg (nat_str n) = Inr (if neg then - int n else int n, True)"
    if "n \<noteq> 0" for neg
  proof -
    have "length (nat_str n) < d" using len assms(4) by linarith
    then show ?thesis
      using hd [OF that] digits_loop_eq [OF le] w by (simp add: strToIntW_body_def Let_def)
  qed
  show ?thesis
  proof (cases "n = 0")
    case True
    then have "i = 0" by (simp add: n_def)
    then show ?thesis
      by (simp add: strToIntW_def strToIntW_body_def FormatInt_def nat_str_small unat_digit_char word_unat_eq_iff)
  next
    case False
    then show ?thesis
      using body [OF False] first by (auto simp: strToIntW_def FormatInt_def n_def [symmetric] abs_if n_def)
  qed
qed

text \<open>
  C26. A string \<open>strToInt64\<close> accepts is the canonical decimal form of the 64-bit integer it
  returns: there is no other spelling of an integer index (no leading zero, sign, blank or
  overflowed digit string).
\<close>

theorem strToInt64_sound:
  assumes "strToInt64 s = Inr (i, True)"
  shows "s = FormatInt i \<and> - (2 ^ 63) \<le> i \<and> i < 2 ^ 63"
  using assms strToIntW_sound [of 64 19 s i] by (simp add: strToInt64_def)

text \<open>
  C27. \<open>strToInt64\<close> reads every integer of at most 18 digits back from its canonical form.
\<close>

theorem strToInt64_roundtrip:
  assumes "\<bar>i\<bar> < 10 ^ 18"
  shows "strToInt64 (FormatInt i) = Inr (i, True)"
  using assms strToIntW_complete [of 64 19 i] by (simp add: strToInt64_def)

lemma strToInt64_roundtrip_witness: "strToInt64 (FormatInt (-42)) = Inr (-42, True)"
  using strToInt64_roundtrip [of "-42"] by simp

lemma strToInt64_sound_witness:
  "[45, 52, 50] = FormatInt (-42)"
proof -
  have "strToInt64 [45, 52, 50] = Inr (-42, True)"
    by (simp add: strToInt64_def strToIntW_def strToIntW_body_def wrap_signed_def Let_def)
  then show ?thesis using strToInt64_sound by blast
qed

text \<open>
  The inputs the two functions get wrong: a lone minus sign makes them read past the end of
  the string, and a last digit of eight or nine (nine, for a negative number) is taken for an
  overflow whatever the digits before it say.
\<close>

lemma strToInt64_lone_minus: "strToInt64 [45] = Inl GoPanic"
  by (simp add: strToInt64_def strToIntW_def strToIntW_body_def)

lemma strToInt32_rejects_1000000009:
  "strToInt32 (u ''1000000009'') = Inr (-1, False) \<and> (1000000009 :: int) < 2 ^ 31"
  by (simp add: strToInt32_def strToIntW_def strToIntW_body_def u_def)

section \<open>\<open>strconv.ParseInt\<close> and \<open>strings.TrimSpace\<close>\<close>

text \<open>
  The errors of \<open>strconv\<close>: a bare \<open>ErrSyntax\<close>, which the source returns itself, and the
  \<open>*NumError\<close>s that wrap \<open>ErrSyntax\<close> or \<open>ErrRange\<close>; the latter comes with the
  clamped value that is returned beside it.
\<close>

datatype num_err = BareSyntax | NumSyntax | NumRange int

definition char_digit :: "16 word \<Rightarrow> nat option" where
  "char_digit c =
     (let n = unat c in
      if 48 \<le> n \<and> n \<le> 57 then Some (n - 48)
      else if 97 \<le> n \<and> n \<le> 122 then Some (n - 87)
      else if 65 \<le> n \<and> n \<le> 90 then Some (n - 55)
      else None)"

fun ParseUint_loop :: "nat \<Rightarrow> ustr \<Rightarrow> nat \<Rightarrow> num_err + nat" where
  "ParseUint_loop base [] n = Inr n"
| "ParseUint_loop base (c # s) n =
     (case char_digit c of
        None \<Rightarrow> Inl NumSyntax
      | Some d \<Rightarrow>
          if base \<le> d then Inl NumSyntax
          else if (2 ^ 64 - 1) div base + 1 \<le> n then Inl (NumRange (2 ^ 64 - 1))
          else if 2 ^ 64 - 1 < n * base + d then Inl (NumRange (2 ^ 64 - 1))
          else ParseUint_loop base s (n * base + d))"

definition ParseUint :: "nat \<Rightarrow> ustr \<Rightarrow> num_err + nat" where
  "ParseUint base s = (if s = [] then Inl NumSyntax else ParseUint_loop base s 0)"

definition ParseInt :: "nat \<Rightarrow> ustr \<Rightarrow> num_err + int" where
  "ParseInt base s =
     (if s = [] then Inl NumSyntax
      else let neg = (hd s = 45); t = (if unat (hd s) = 45 \<or> unat (hd s) = 43 then tl s else s) in
      case ParseUint base t of
        Inl (NumRange _) \<Rightarrow> Inl (NumRange (if neg then - (2 ^ 63) else 2 ^ 63 - 1))
      | Inl e \<Rightarrow> Inl e
      | Inr n \<Rightarrow>
          if (\<not> neg \<and> 2 ^ 63 \<le> n) \<or> (neg \<and> 2 ^ 63 < n)
          then Inl (NumRange (if neg then - (2 ^ 63) else 2 ^ 63 - 1))
          else Inr (if neg then - int n else int n))"

definition trim_by :: "(16 word \<Rightarrow> bool) \<Rightarrow> ustr \<Rightarrow> ustr" where
  "trim_by P s = rev (dropWhile P (rev (dropWhile P s)))"

text \<open>\<open>unicode.IsSpace\<close>, by which \<open>strings.TrimSpace\<close> trims.\<close>

definition go_isSpace :: "16 word \<Rightarrow> bool" where
  "go_isSpace c =
     (let n = unat c in (9 \<le> n \<and> n \<le> 13) \<or> n = 32 \<or> n = 0x85 \<or> n = 0xA0 \<or> n = 0x1680
      \<or> (0x2000 \<le> n \<and> n \<le> 0x200a) \<or> n = 0x2028 \<or> n = 0x2029 \<or> n = 0x202f \<or> n = 0x205f \<or> n = 0x3000)"

text \<open>\<open>parser.WhitespaceChars\<close>, the white space of the language.\<close>

definition WhitespaceChars :: "16 word \<Rightarrow> bool" where
  "WhitespaceChars c =
     (let n = unat c in n = 32 \<or> n = 12 \<or> n = 10 \<or> n = 13 \<or> n = 9 \<or> n = 11 \<or> n = 0xA0 \<or> n = 0x1680
      \<or> (0x2000 \<le> n \<and> n \<le> 0x200a) \<or> n = 0x2028 \<or> n = 0x2029 \<or> n = 0x202f \<or> n = 0x205f \<or> n = 0x3000
      \<or> n = 0xfeff)"

definition TrimSpace :: "ustr \<Rightarrow> ustr" where
  "TrimSpace s = trim_by go_isSpace s"

section \<open>\<open>strconv.ParseFloat\<close>\<close>

text \<open>
  The decimal syntax of Go's \<open>ParseFloat\<close> (signs, one point, an exponent, the special
  names), the value read being the float nearest to the decimal number.
\<close>

definition dec_to_f64 :: "bool \<Rightarrow> nat \<Rightarrow> int \<Rightarrow> f64" where
  "dec_to_f64 s m e =
     (if m = 0 then f_zero s
      else if 0 \<le> e then round_f64 s (m * 10 ^ nat e) 0
      else fin_div s m 0 (10 ^ nat (- e)) 0)"

fun span_digits :: "ustr \<Rightarrow> ustr \<times> ustr" where
  "span_digits [] = ([], [])"
| "span_digits (c # s) =
     (if is_digit c then (let (a, b) = span_digits s in (c # a, b)) else ([], c # s))"

definition parse_exp :: "ustr \<Rightarrow> int option" where
  "parse_exp s =
     (if s = [] then Some 0
      else if unat (hd s) = 101 \<or> unat (hd s) = 69 then
        (let t = tl s; sg = (t \<noteq> [] \<and> unat (hd t) = 45);
             t' = (if t \<noteq> [] \<and> (unat (hd t) = 45 \<or> unat (hd t) = 43) then tl t else t) in
         if t' \<noteq> [] \<and> list_all is_digit t'
         then Some (if sg then - int (digits_val t') else int (digits_val t')) else None)
      else None)"

definition lower_char :: "16 word \<Rightarrow> 16 word" where
  "lower_char c = (if 65 \<le> unat c \<and> unat c \<le> 90 then c + 32 else c)"

definition ParseFloat :: "ustr \<Rightarrow> num_err + f64" where
  "ParseFloat str =
     (let neg = (str \<noteq> [] \<and> unat (hd str) = 45);
          s = (if str \<noteq> [] \<and> (unat (hd str) = 45 \<or> unat (hd str) = 43) then tl str else str);
          low = List.map lower_char s in
      if low = u ''inf'' \<or> low = u ''infinity'' then Inr (Inf neg)
      else if List.map lower_char str = u ''nan'' then Inr NaN
      else let (ip, r) = span_digits s;
               (fp, r') = (if r \<noteq> [] \<and> unat (hd r) = 46 then span_digits (tl r) else ([], r)) in
        if ip = [] \<and> fp = [] then Inl NumSyntax
        else case parse_exp r' of
            None \<Rightarrow> Inl NumSyntax
          | Some e \<Rightarrow>
              let f = dec_to_f64 neg (digits_val (ip @ fp)) (e - int (length fp)) in
              if f_isInf f then Inl (NumRange 0) else Inr f)"

section \<open>The conversions of a string\<close>

definition stringToInt :: "ustr \<Rightarrow> num_err + int" where
  "stringToInt ss =
     (if ss = [] then Inr 0
      else if ss = u ''-0'' then Inl BareSyntax
      else if 2 < length ss \<and> (take 2 ss = u ''0x'' \<or> take 2 ss = u ''0X'') then ParseInt 16 (drop 2 ss)
      else if 2 < length ss \<and> (take 2 ss = u ''0b'' \<or> take 2 ss = u ''0B'') then ParseInt 2 (drop 2 ss)
      else if 2 < length ss \<and> (take 2 ss = u ''0o'' \<or> take 2 ss = u ''0O'') then ParseInt 8 (drop 2 ss)
      else ParseInt 10 ss)"

text \<open>
  \<open>_toFloat\<close>. A \<open>ParseFloat\<close> that overflows returns an infinity beside its error, which
  the source keeps.
\<close>

definition asciiString_toFloat :: "ustr \<Rightarrow> num_err + f64" where
  "asciiString_toFloat s =
     (if s = [] then Inr (f_zero False)
      else if s = u ''-0'' then Inr (f_zero True)
      else if 95 \<in> set s then Inl BareSyntax
      else let signed = (unat (hd s) = 45 \<or> unat (hd s) = 43); p = (if signed then tl s else s) in
      if 2 \<le> length s \<and> 2 \<le> length p \<and> unat (p ! 0) = 48 \<and> (unat (p ! 1) = 120 \<or> unat (p ! 1) = 88)
      then Inl BareSyntax
      else case ParseFloat s of
          Inr f \<Rightarrow>
            (let ss = List.map lower_char s in
             if f_isInf f \<and> (take 3 ss = u ''inf'' \<or> take 4 ss = u ''-inf'' \<or> take 4 ss = u ''+inf'')
             then Inl BareSyntax else Inr f)
        | Inl (NumRange _) \<Rightarrow> Inr (Inf (unat (hd s) = 45))
        | Inl e \<Rightarrow> Inl e)"

definition asciiString_ToInteger :: "ustr \<Rightarrow> int" where
  "asciiString_ToInteger s =
     (let ss = TrimSpace s in
      if ss = [] then 0
      else if ss = u ''Infinity'' \<or> ss = u ''+Infinity'' then 2 ^ 63 - 1
      else if ss = u ''-Infinity'' then - (2 ^ 63)
      else case stringToInt ss of
          Inr i \<Rightarrow> i
        | Inl e \<Rightarrow>
            (case asciiString_toFloat ss of
               Inr f \<Rightarrow> go_int64 f
             | Inl _ \<Rightarrow> (case e of NumRange i \<Rightarrow> i | _ \<Rightarrow> 0)))"

definition asciiString_ToFloat :: "ustr \<Rightarrow> f64" where
  "asciiString_ToFloat s =
     (let ss = TrimSpace s in
      if ss = [] then f_zero False
      else if ss = u ''Infinity'' \<or> ss = u ''+Infinity'' then Inf False
      else if ss = u ''-Infinity'' then Inf True
      else case asciiString_toFloat ss of
          Inr f \<Rightarrow> f
        | Inl _ \<Rightarrow> (case stringToInt ss of Inr i \<Rightarrow> f_of_int i | Inl _ \<Rightarrow> NaN))"

definition asciiString_ToNumber :: "ustr \<Rightarrow> jsval" where
  "asciiString_ToNumber s =
     (let ss = TrimSpace s in
      if ss = [] then intToValue 0
      else if ss = u ''Infinity'' \<or> ss = u ''+Infinity'' then VFloat (Inf False)
      else if ss = u ''-Infinity'' then VFloat (Inf True)
      else case stringToInt ss of
          Inr i \<Rightarrow> intToValue i
        | Inl _ \<Rightarrow>
            (case asciiString_toFloat ss of
               Inr f \<Rightarrow> floatToValue f
             | Inl _ \<Rightarrow> VFloat NaN))"

text \<open>Evaluation of the parsers on a literal.\<close>

lemmas str_eval = u_def TrimSpace_def trim_by_def go_isSpace_def stringToInt_def ParseInt_def
  ParseUint_def char_digit_def asciiString_toFloat_def ParseFloat_def lower_char_def parse_exp_def
  is_digit_def digits_val_def digit_val_def dec_to_f64_def Let_def

text \<open>\<open>Number("0x-5")\<close> should be NaN: \<open>ParseInt\<close> takes a sign after the prefix.\<close>

lemma ToNumber_signed_hex: "asciiString_ToNumber (u ''0x-5'') = VInt (-5)"
  by (simp add: str_eval asciiString_ToNumber_def maxInt_def)

end
