(* ===== verification/Conversions.thy ===== *)
theory Conversions
  imports Strconv
begin

text \<open>
  The methods of the \<open>Value\<close> interface on every kind of value: \<open>ToNumber\<close>, \<open>ToFloat\<close>,
  \<open>ToInteger\<close>, \<open>ToBoolean\<close>, \<open>toString\<close>, \<open>SameAs\<close>, \<open>StrictEquals\<close>, \<open>Equals\<close> and
  \<open>hash\<close> (\<open>value.go\<close>, \<open>builtin_bigint.go\<close>, \<open>string_ascii.go\<close>,
  \<open>string_unicode.go\<close>), the conversion of an object to a primitive (\<open>object.go\<close>) and the
  conversions to a machine integer (\<open>runtime.go\<close>).

  An object is converted by user code: its exotic and ordinary conversion methods are the
  fields of a \<open>host\<close>, which return what the call returns, a value or an error. The
  \<open>host\<close> also holds the float formatter (\<open>fToStr\<close>, built on the \<open>ftoa\<close> package) and
  the equality of wrapped Go values (\<open>self.equal\<close>), and the value a failed
  \<open>big.Int.SetString\<close> leaves behind, which its documentation leaves undefined.
\<close>

record host =
  h_exotic :: "nat \<Rightarrow> string \<Rightarrow> (go_error + jsval) option"
  h_method :: "nat \<Rightarrow> string \<Rightarrow> (go_error + jsval) option"
  h_fToStr :: "f64 \<Rightarrow> ustr"
  h_equal :: "nat \<Rightarrow> nat \<Rightarrow> bool"
  h_badBigInt :: "ustr \<Rightarrow> int"

text \<open>A host without user code, for concrete instances.\<close>

definition host0 :: host where
  "host0 = \<lparr>h_exotic = \<lambda>_ _. None, h_method = \<lambda>_ _. None, h_fToStr = \<lambda>_. [], h_equal = \<lambda>_ _. False,
    h_badBigInt = \<lambda>_. 0\<rparr>"

fun is_object :: "jsval \<Rightarrow> bool" where
  "is_object (VObject _) = True"
| "is_object _ = False"

fun is_bigint :: "jsval \<Rightarrow> bool" where
  "is_bigint (VBigInt _) = True"
| "is_bigint _ = False"

section \<open>Objects to primitives\<close>

definition tryPrimitive :: "host \<Rightarrow> nat \<Rightarrow> string \<Rightarrow> go_error + jsval option" where
  "tryPrimitive h obj methodName =
     (case h_method h obj methodName of
        None \<Rightarrow> Inr None
      | Some r \<Rightarrow> mapR (\<lambda>v. if \<not> is_object v then Some v else None) r)"

definition ordinaryToPrimitiveNumber :: "host \<Rightarrow> nat \<Rightarrow> go_error + jsval" where
  "ordinaryToPrimitiveNumber h obj =
     bindR (tryPrimitive h obj ''valueOf'') (\<lambda>r. case r of
        Some v \<Rightarrow> Inr v
      | None \<Rightarrow> bindR (tryPrimitive h obj ''toString'') (\<lambda>r. case r of
            Some v \<Rightarrow> Inr v
          | None \<Rightarrow> Inl TypeErr))"

definition ordinaryToPrimitiveString :: "host \<Rightarrow> nat \<Rightarrow> go_error + jsval" where
  "ordinaryToPrimitiveString h obj =
     bindR (tryPrimitive h obj ''toString'') (\<lambda>r. case r of
        Some v \<Rightarrow> Inr v
      | None \<Rightarrow> bindR (tryPrimitive h obj ''valueOf'') (\<lambda>r. case r of
            Some v \<Rightarrow> Inr v
          | None \<Rightarrow> Inl TypeErr))"

definition tryExoticToPrimitive :: "host \<Rightarrow> nat \<Rightarrow> string \<Rightarrow> go_error + jsval option" where
  "tryExoticToPrimitive h obj hint =
     (case h_exotic h obj hint of
        None \<Rightarrow> Inr None
      | Some r \<Rightarrow> bindR r (\<lambda>ret. if \<not> is_object ret then Inr (Some ret) else Inl TypeErr))"

definition toPrimitiveNumber :: "host \<Rightarrow> nat \<Rightarrow> go_error + jsval" where
  "toPrimitiveNumber h obj =
     bindR (tryExoticToPrimitive h obj ''number'') (\<lambda>r. case r of
        Some v \<Rightarrow> Inr v | None \<Rightarrow> ordinaryToPrimitiveNumber h obj)"

definition toPrimitiveString :: "host \<Rightarrow> nat \<Rightarrow> go_error + jsval" where
  "toPrimitiveString h obj =
     bindR (tryExoticToPrimitive h obj ''string'') (\<lambda>r. case r of
        Some v \<Rightarrow> Inr v | None \<Rightarrow> ordinaryToPrimitiveString h obj)"

definition toPrimitive :: "host \<Rightarrow> nat \<Rightarrow> go_error + jsval" where
  "toPrimitive h obj =
     bindR (tryExoticToPrimitive h obj ''default'') (\<lambda>r. case r of
        Some v \<Rightarrow> Inr v | None \<Rightarrow> ordinaryToPrimitiveNumber h obj)"

lemma ordinaryToPrimitive_prim:
  "ordinaryToPrimitiveNumber h obj = Inr v \<Longrightarrow> \<not> is_object v"
  "ordinaryToPrimitiveString h obj = Inr v \<Longrightarrow> \<not> is_object v"
  by (auto simp: ordinaryToPrimitiveNumber_def ordinaryToPrimitiveString_def tryPrimitive_def
      mapR_def bindR_def split: option.splits sum.splits if_splits)

text \<open>Whatever the user code returns, a conversion yields a primitive or raises.\<close>

lemma toPrimitive_prim:
  "toPrimitiveNumber h obj = Inr v \<Longrightarrow> \<not> is_object v"
  "toPrimitiveString h obj = Inr v \<Longrightarrow> \<not> is_object v"
  "toPrimitive h obj = Inr v \<Longrightarrow> \<not> is_object v"
  by (auto simp: toPrimitiveNumber_def toPrimitiveString_def toPrimitive_def tryExoticToPrimitive_def
      mapR_def bindR_def split: option.splits sum.splits if_splits dest: ordinaryToPrimitive_prim)

section \<open>Strings\<close>

definition is_ascii :: "ustr \<Rightarrow> bool" where
  "is_ascii s = list_all (\<lambda>c. unat c < 128) s"

definition toTrimmedUTF8 :: "ustr \<Rightarrow> ustr" where
  "toTrimmedUTF8 s = (if is_ascii s then TrimSpace s else trim_by WhitespaceChars s)"

definition unicodeString_ToNumber :: "ustr \<Rightarrow> jsval" where
  "unicodeString_ToNumber s = asciiString_ToNumber (trim_by WhitespaceChars s)"

definition String_ToNumber :: "ustr \<Rightarrow> jsval" where
  "String_ToNumber s = (if is_ascii s then asciiString_ToNumber s else unicodeString_ToNumber s)"

text \<open>\<open>unicodeString.ToFloat\<close> and \<open>ToInteger\<close> do not look at the string.\<close>

definition String_ToFloat :: "ustr \<Rightarrow> f64" where
  "String_ToFloat s = (if is_ascii s then asciiString_ToFloat s else NaN)"

definition String_ToInteger :: "ustr \<Rightarrow> int" where
  "String_ToInteger s = (if is_ascii s then asciiString_ToInteger s else 0)"

section \<open>Conversions of a primitive\<close>

definition floatToIntClip :: "f64 \<Rightarrow> int" where
  "floatToIntClip n =
     (if f_isNaN n then 0
      else if f_le (round_f64 False (2 ^ 63) 0) n then 2 ^ 63 - 1
      else if f_le n (round_f64 True (2 ^ 63) 0) then - (2 ^ 63)
      else go_int64 n)"

fun ToNumber_prim :: "jsval \<Rightarrow> go_error + jsval" where
  "ToNumber_prim VUndefined = Inr (VFloat NaN)"
| "ToNumber_prim VNull = Inr (intToValue 0)"
| "ToNumber_prim (VBool b) = Inr (VInt (if b then 1 else 0))"
| "ToNumber_prim (VInt i) = Inr (VInt i)"
| "ToNumber_prim (VFloat f) = Inr (VFloat f)"
| "ToNumber_prim (VString s) = Inr (String_ToNumber s)"
| "ToNumber_prim (VSymbol _) = Inl TypeErr"
| "ToNumber_prim (VBigInt _) = Inl TypeErr"
| "ToNumber_prim (VObject _) = Inl GoPanic"

fun ToFloat_prim :: "jsval \<Rightarrow> go_error + f64" where
  "ToFloat_prim VUndefined = Inr NaN"
| "ToFloat_prim VNull = Inr (f_zero False)"
| "ToFloat_prim (VBool b) = Inr (f_of_int (if b then 1 else 0))"
| "ToFloat_prim (VInt i) = Inr (f_of_int i)"
| "ToFloat_prim (VFloat f) = Inr f"
| "ToFloat_prim (VString s) = Inr (String_ToFloat s)"
| "ToFloat_prim (VSymbol _) = Inl TypeErr"
| "ToFloat_prim (VBigInt _) = Inl TypeErr"
| "ToFloat_prim (VObject _) = Inl GoPanic"

fun ToInteger_prim :: "jsval \<Rightarrow> go_error + int" where
  "ToInteger_prim VUndefined = Inr 0"
| "ToInteger_prim VNull = Inr 0"
| "ToInteger_prim (VBool b) = Inr (if b then 1 else 0)"
| "ToInteger_prim (VInt i) = Inr i"
| "ToInteger_prim (VFloat f) = Inr (floatToIntClip f)"
| "ToInteger_prim (VString s) = Inr (String_ToInteger s)"
| "ToInteger_prim (VSymbol _) = Inl TypeErr"
| "ToInteger_prim (VBigInt _) = Inl TypeErr"
| "ToInteger_prim (VObject _) = Inl GoPanic"

fun toString_prim :: "host \<Rightarrow> jsval \<Rightarrow> go_error + ustr" where
  "toString_prim h VUndefined = Inr (u ''undefined'')"
| "toString_prim h VNull = Inr (u ''null'')"
| "toString_prim h (VBool b) = Inr (u (if b then ''true'' else ''false''))"
| "toString_prim h (VInt i) = Inr (FormatInt i)"
| "toString_prim h (VFloat f) = Inr (h_fToStr h f)"
| "toString_prim h (VString s) = Inr s"
| "toString_prim h (VSymbol _) = Inl TypeErr"
| "toString_prim h (VBigInt i) = Inr (FormatInt i)"
| "toString_prim h (VObject _) = Inl GoPanic"

section \<open>Conversions of any value\<close>

definition ToNumber :: "host \<Rightarrow> jsval \<Rightarrow> go_error + jsval" where
  "ToNumber h v =
     (case v of VObject x \<Rightarrow> bindR (toPrimitiveNumber h x) ToNumber_prim | _ \<Rightarrow> ToNumber_prim v)"

definition ToFloat :: "host \<Rightarrow> jsval \<Rightarrow> go_error + f64" where
  "ToFloat h v =
     (case v of VObject x \<Rightarrow> bindR (toPrimitiveNumber h x) ToFloat_prim | _ \<Rightarrow> ToFloat_prim v)"

text \<open>\<open>Object.ToInteger\<close> goes through \<open>ToNumber\<close>.\<close>

definition ToInteger :: "host \<Rightarrow> jsval \<Rightarrow> go_error + int" where
  "ToInteger h v =
     (case v of VObject x \<Rightarrow>
        bindR (toPrimitiveNumber h x) (\<lambda>p. bindR (ToNumber_prim p) ToInteger_prim)
      | _ \<Rightarrow> ToInteger_prim v)"

definition toString :: "host \<Rightarrow> jsval \<Rightarrow> go_error + ustr" where
  "toString h v =
     (case v of VObject x \<Rightarrow> bindR (toPrimitiveString h x) (toString_prim h) | _ \<Rightarrow> toString_prim h v)"

fun ToBoolean :: "jsval \<Rightarrow> bool" where
  "ToBoolean VUndefined = False"
| "ToBoolean VNull = False"
| "ToBoolean (VBool b) = b"
| "ToBoolean (VInt i) = (i \<noteq> 0)"
| "ToBoolean (VFloat f) = (\<not> f_eq f (f_zero False) \<and> \<not> f_isNaN f)"
| "ToBoolean (VString s) = (s \<noteq> [])"
| "ToBoolean (VSymbol _) = True"
| "ToBoolean (VBigInt i) = (i \<noteq> 0)"
| "ToBoolean (VObject _) = True"

definition toNumeric :: "host \<Rightarrow> jsval \<Rightarrow> go_error + jsval" where
  "toNumeric h v =
     (case v of
        VInt _ \<Rightarrow> Inr v
      | VBigInt _ \<Rightarrow> Inr v
      | VFloat f \<Rightarrow> Inr (floatToValue f)
      | VObject x \<Rightarrow>
          bindR (toPrimitiveNumber h x) (\<lambda>p. if is_bigint p then Inr p else ToNumber_prim p)
      | _ \<Rightarrow> ToNumber_prim v)"

lemma not_is_object_cases:
  "\<not> is_object v \<longleftrightarrow> (\<forall>x. v \<noteq> VObject x)"
  by (cases v) auto

lemma ToNumber_prim_eq [simp]: "\<not> is_object v \<Longrightarrow> ToNumber h v = ToNumber_prim v"
  "\<not> is_object v \<Longrightarrow> ToFloat h v = ToFloat_prim v"
  "\<not> is_object v \<Longrightarrow> ToInteger h v = ToInteger_prim v"
  "\<not> is_object v \<Longrightarrow> toString h v = toString_prim h v"
  by (cases v; simp add: ToNumber_def ToFloat_def ToInteger_def toString_def)+

section \<open>Machine integers\<close>

text \<open>The common shape: the number converted, truncated, then wrapped to the target type.\<close>

definition num_to_int :: "(int \<Rightarrow> int) \<Rightarrow> jsval \<Rightarrow> int" where
  "num_to_int wrap v =
     (case v of
        VInt i \<Rightarrow> wrap i
      | VFloat f \<Rightarrow> if \<not> f_isNaN f \<and> \<not> f_isInf f then wrap (go_int64 f) else 0
      | _ \<Rightarrow> 0)"

definition toInt8 :: "host \<Rightarrow> jsval \<Rightarrow> go_error + int" where
  "toInt8 h v = mapR (num_to_int (wrap_signed 8)) (ToNumber h v)"

definition toUint8 :: "host \<Rightarrow> jsval \<Rightarrow> go_error + int" where
  "toUint8 h v = mapR (num_to_int (wrap_unsigned 8)) (ToNumber h v)"

definition toInt16 :: "host \<Rightarrow> jsval \<Rightarrow> go_error + int" where
  "toInt16 h v = mapR (num_to_int (wrap_signed 16)) (ToNumber h v)"

definition toUint16 :: "host \<Rightarrow> jsval \<Rightarrow> go_error + int" where
  "toUint16 h v = mapR (num_to_int (wrap_unsigned 16)) (ToNumber h v)"

definition toInt32 :: "host \<Rightarrow> jsval \<Rightarrow> go_error + int" where
  "toInt32 h v = mapR (num_to_int (wrap_signed 32)) (ToNumber h v)"

definition toUint32 :: "host \<Rightarrow> jsval \<Rightarrow> go_error + int" where
  "toUint32 h v = mapR (num_to_int (wrap_unsigned 32)) (ToNumber h v)"

definition toInt64 :: "host \<Rightarrow> jsval \<Rightarrow> go_error + int" where
  "toInt64 h v = mapR (num_to_int (wrap_signed 64)) (ToNumber h v)"

definition toUint64 :: "host \<Rightarrow> jsval \<Rightarrow> go_error + int" where
  "toUint64 h v = mapR (num_to_int (wrap_unsigned 64)) (ToNumber h v)"

text \<open>\<open>toUint8Clamp\<close>: clamped to a byte, a half rounded to even.\<close>

definition toUint8Clamp :: "host \<Rightarrow> jsval \<Rightarrow> go_error + int" where
  "toUint8Clamp h v =
     mapR (\<lambda>n. case n of
         VInt i \<Rightarrow> if i < 0 then 0 else if i \<le> 255 then i else 255
       | VFloat num \<Rightarrow>
           if f_isNaN num then 0
           else if f_lt num (f_zero False) then 0
           else if f_lt (f_of_int 255) num then 255
           else (let f = f_of_int (f_trunc num); f1 = f_add f (Fin False (2 ^ 52) (-53)) in
             if f_lt f1 num then wrap_unsigned 8 (go_int64 (f_add f (f_of_int 1)))
             else if f_lt num f1 then wrap_unsigned 8 (go_int64 f)
             else (let r = wrap_unsigned 8 (go_int64 f) in if odd r then wrap_unsigned 8 (r + 1) else r))
       | _ \<Rightarrow> 0) (ToNumber h v)"

definition toLength :: "host \<Rightarrow> jsval option \<Rightarrow> go_error + int" where
  "toLength h v =
     (case v of
        None \<Rightarrow> Inr 0
      | Some v \<Rightarrow>
          mapR (\<lambda>i. if i < 0 then 0 else if maxInt \<le> i then maxInt - 1 else i) (ToInteger h v))"

text \<open>
  \<open>toLengthUint32\<close> checks that the value is the array length it converts to; a string is
  converted first (\<open>goto repeat\<close>).
\<close>

definition toLengthUint32_num :: "host \<Rightarrow> jsval \<Rightarrow> go_error + int" where
  "toLengthUint32_num h v =
     (let check = (\<lambda>i. if 0 \<le> i \<and> i \<le> int maxUint32 then Inr i else Inl RangeErr) in
      case v of
        VInt i \<Rightarrow> check i
      | VFloat f \<Rightarrow>
          if f_isZero f then check 0
          else (case floatToInt f of Some i \<Rightarrow> check i | None \<Rightarrow> Inl RangeErr)
      | _ \<Rightarrow>
          bindR (toUint32 h v) (\<lambda>n2. bindR (ToNumber h v) (\<lambda>n1.
            if (case n1 of VFloat f \<Rightarrow> \<not> f_isZero f \<or> \<not> f_signbit f | _ \<Rightarrow> False) then Inl RangeErr
            else bindR (ToInteger h n1) (\<lambda>i. if i \<noteq> n2 then Inl RangeErr else Inr n2))))"

definition toLengthUint32 :: "host \<Rightarrow> jsval \<Rightarrow> go_error + int" where
  "toLengthUint32 h v =
     (case v of VString s \<Rightarrow> toLengthUint32_num h (String_ToNumber s) | _ \<Rightarrow> toLengthUint32_num h v)"

text \<open>\<open>toIndex\<close>, on a platform whose \<open>int\<close> has 64 bits.\<close>

definition toIndex :: "host \<Rightarrow> jsval \<Rightarrow> go_error + int" where
  "toIndex h v =
     bindR (ToInteger h v) (\<lambda>num. if 0 \<le> num \<and> num < maxInt then Inr num else Inl RangeErr)"

text \<open>
  ECMAScript's \<open>ToInt32\<close>, \<open>ToUint8\<close>, \<dots> on a number: its integer part modulo \<open>2^w\<close>.
\<close>

definition number_trunc :: "jsval \<Rightarrow> int" where
  "number_trunc v = (case v of VInt i \<Rightarrow> i | VFloat f \<Rightarrow> f_trunc f | _ \<Rightarrow> 0)"

lemma num_to_int_trunc:
  assumes "is_number v" "- (2 ^ 63) \<le> number_trunc v" "number_trunc v < 2 ^ 63" "wrap 0 = 0"
  shows "num_to_int wrap v = wrap (number_trunc v)"
proof (cases v)
  case (VFloat f)
  with assms show ?thesis
    by (cases f) (auto simp: num_to_int_def number_trunc_def go_int64_def Let_def)
qed (use assms in \<open>auto simp: num_to_int_def number_trunc_def is_number_def\<close>)

lemma wrap_0 [simp]: "0 < w \<Longrightarrow> wrap_signed w 0 = 0" "wrap_unsigned w 0 = 0"
  using wrap_signed_nat(1) [of w 0] by (auto simp: wrap_unsigned_def)

lemma ToNumber_number [simp]: "is_number v \<Longrightarrow> ToNumber h v = Inr v"
  by (cases v) (auto simp: ToNumber_def is_number_def)

text \<open>
  C29. On a number whose integer part fits in an \<open>int64\<close>, \<open>toInt32\<close> is ECMAScript's
  \<open>ToInt32\<close>: the representative in \<open>[-2^31, 2^31)\<close> of the integer part modulo \<open>2^32\<close>
  (and zero for NaN and the infinities).
\<close>

theorem toInt32_modular:
  assumes "is_number v" "- (2 ^ 63) \<le> number_trunc v" "number_trunc v < 2 ^ 63"
  shows "\<exists>i. toInt32 h v = Inr i \<and> - (2 ^ 31) \<le> i \<and> i < 2 ^ 31
    \<and> i mod 2 ^ 32 = number_trunc v mod 2 ^ 32"
proof -
  have "toInt32 h v = Inr (wrap_signed 32 (number_trunc v))"
    using assms by (simp add: toInt32_def num_to_int_trunc)
  moreover have "- (2 ^ (32 - 1)) \<le> wrap_signed 32 (number_trunc v)
      \<and> wrap_signed 32 (number_trunc v) < 2 ^ (32 - 1)"
    by (intro wrap_signed_range) simp
  ultimately show ?thesis using wrap_signed_cong [of 32 "number_trunc v"] by auto
qed

lemma toInt32_modular_witness:
  "\<exists>i. toInt32 host0 (VFloat (Fin False (2 ^ 52 + 1) (-1))) = Inr i \<and> - (2 ^ 31) \<le> i \<and> i < 2 ^ 31
    \<and> i mod 2 ^ 32 = number_trunc (VFloat (Fin False (2 ^ 52 + 1) (-1))) mod 2 ^ 32"
  by (rule toInt32_modular) (simp_all add: is_number_def number_trunc_def)

text \<open>
  Beyond \<open>int64\<close> the conversion is not ECMAScript's: \<open>2^63 + 2^12\<close> should give 4096.
\<close>

lemma toInt32_beyond_int64:
  "toInt32 h (VFloat (Fin False (2 ^ 52 + 2) 11)) = Inr 0
   \<and> f_trunc (Fin False (2 ^ 52 + 2) 11) mod 2 ^ 32 = 4096"
  by (simp add: toInt32_def ToNumber_def num_to_int_def go_int64_def wrap_signed_def)



section \<open>\<open>SameAs\<close> and \<open>StrictEquals\<close>\<close>

text \<open>
  \<open>valueInt.SameAs\<close> compares the interface values: only a \<open>valueInt\<close> can be equal.
  \<open>valueFloat.SameAs\<close> also knows \<open>valueInt\<close>. An object is the same as itself, or as
  another wrapper of the same Go value.
\<close>

definition valueInt_SameAs :: "int \<Rightarrow> jsval \<Rightarrow> bool" where
  "valueInt_SameAs i other = (other = VInt i)"

definition valueFloat_SameAs :: "f64 \<Rightarrow> jsval \<Rightarrow> bool" where
  "valueFloat_SameAs this other =
     (case other of
        VFloat o1 \<Rightarrow>
          if f_isNaN this \<and> f_isNaN o1 then True
          else let ret = f_eq this o1 in
            if ret \<and> f_isZero this then f_signbit this = f_signbit o1 else ret
      | VInt i \<Rightarrow>
          let ret = f_eq this (f_of_int i) in
          if ret \<and> f_isZero this then \<not> f_signbit this else ret
      | _ \<Rightarrow> False)"

definition Object_StrictEquals :: "host \<Rightarrow> nat \<Rightarrow> jsval \<Rightarrow> bool" where
  "Object_StrictEquals h obj other =
     (case other of VObject x \<Rightarrow> obj = x \<or> h_equal h obj x | _ \<Rightarrow> False)"

fun SameAs :: "host \<Rightarrow> jsval \<Rightarrow> jsval \<Rightarrow> bool" where
  "SameAs h VUndefined other = (other = VUndefined)"
| "SameAs h VNull other = (other = VNull)"
| "SameAs h (VBool b) other = (other = VBool b)"
| "SameAs h (VInt i) other = valueInt_SameAs i other"
| "SameAs h (VFloat f) other = valueFloat_SameAs f other"
| "SameAs h (VString s) other = (other = VString s)"
| "SameAs h (VSymbol s) other = (other = VSymbol s)"
| "SameAs h (VBigInt i) other = (other = VBigInt i)"
| "SameAs h (VObject x) other = Object_StrictEquals h x other"

definition valueInt_StrictEquals :: "int \<Rightarrow> jsval \<Rightarrow> bool" where
  "valueInt_StrictEquals i other =
     (case other of
        VInt j \<Rightarrow> i = j
      | VFloat f \<Rightarrow> f_eq (f_of_int i) f
      | _ \<Rightarrow> False)"

definition valueFloat_StrictEquals :: "f64 \<Rightarrow> jsval \<Rightarrow> bool" where
  "valueFloat_StrictEquals f other =
     (case other of
        VFloat g \<Rightarrow> f_eq f g
      | VInt i \<Rightarrow> f_eq f (f_of_int i)
      | _ \<Rightarrow> False)"

fun StrictEquals :: "host \<Rightarrow> jsval \<Rightarrow> jsval \<Rightarrow> bool" where
  "StrictEquals h VUndefined other = (other = VUndefined)"
| "StrictEquals h VNull other = (other = VNull)"
| "StrictEquals h (VBool b) other = (other = VBool b)"
| "StrictEquals h (VInt i) other = valueInt_StrictEquals i other"
| "StrictEquals h (VFloat f) other = valueFloat_StrictEquals f other"
| "StrictEquals h (VString s) other = (other = VString s)"
| "StrictEquals h (VSymbol s) other = (other = VSymbol s)"
| "StrictEquals h (VBigInt i) other = (other = VBigInt i)"
| "StrictEquals h (VObject x) other = Object_StrictEquals h x other"

text \<open>In normal form a float is no integer: the two representations do not overlap.\<close>

lemma num_ok_VFloat_not_int:
  assumes "num_ok (VFloat f)" "\<bar>i\<bar> \<le> maxInt"
  shows "f_eq f (f_of_int i) \<longleftrightarrow> f = f_zero True \<and> i = 0"
proof -
  have f: "f64_ok f" "floatToInt f = None" using assms(1) by (simp_all add: num_ok_def)
  have ne: "f \<noteq> f_of_int i" using f(2) floatToInt_of_int [OF assms(2)] by auto
  have z: "f_isZero (f_of_int i) \<longleftrightarrow> i = 0"
    using assms(2) by (intro f_of_int_isZero) (simp add: maxInt_def)
  have "f = f_zero True" if fz: "f_isZero f"
  proof -
    obtain s e where "f = Fin s 0 e" using fz by (cases f) auto
    moreover from this f(1) have "e = -1074" by (simp add: f64_ok_def)
    moreover have "s" using f(2) floatToInt_of_int [of 0] calculation
      by (cases s) (auto simp: f_of_int_0 f_zero_def maxInt_def)
    ultimately show ?thesis by (simp add: f_zero_def)
  qed
  moreover have "f_isZero (f_zero True)" "\<not> f_isNaN (f_zero True)" by (simp_all add: f_zero_def)
  ultimately show ?thesis
    using f_eq_iff [OF f(1), of "f_of_int i"] ne z by auto
qed

lemma f_eq_refl [simp]: "\<not> f_isNaN f \<Longrightarrow> f_eq f f"
  by (cases f) auto

lemma f_eq_sym: "f_eq f g = f_eq g f"
  by (cases f; cases g) auto

lemma f64_ok_isZero: "f64_ok f \<Longrightarrow> f_isZero f \<longleftrightarrow> f = f_zero (f_signbit f)"
  by (cases f) (auto simp: f_zero_def f64_ok_def)

lemma f_signbit_zero [simp]: "f_signbit (f_zero s) = s" "f_isZero (f_zero s)" "\<not> f_isNaN (f_zero s)"
  by (simp_all add: f_zero_def)

lemma isNaN_iff: "f_isNaN f \<longleftrightarrow> f = NaN"
  by (cases f) auto

lemma valueFloat_SameAs_iff:
  assumes "num_ok (VFloat f)" "num_ok v"
  shows "valueFloat_SameAs f v \<longleftrightarrow> v = VFloat f"
proof (cases v)
  case (VFloat g)
  have g: "f64_ok f" "f64_ok g" using assms VFloat by (simp_all add: num_ok_def)
  show ?thesis
    using VFloat f_eq_iff [OF g] f64_ok_isZero [OF g(1)] f64_ok_isZero [OF g(2)]
    by (auto simp: valueFloat_SameAs_def Let_def isNaN_iff)
next
  case (VInt i)
  then have "\<bar>i\<bar> \<le> maxInt" using assms(2) by (simp add: num_ok_def)
  then show ?thesis
    using VInt num_ok_VFloat_not_int [OF assms(1)] by (auto simp: valueFloat_SameAs_def Let_def)
qed (auto simp: valueFloat_SameAs_def)

lemma SameAs_iff_aux:
  assumes "num_ok v" "num_ok w"
  shows "SameAs h v w \<longleftrightarrow>
    v = w \<or> (\<exists>x y. v = VObject x \<and> w = VObject y \<and> h_equal h x y)"
  using assms valueFloat_SameAs_iff
  by (cases v) (auto simp: valueInt_SameAs_def Object_StrictEquals_def split: jsval.splits)

text \<open>
  C31. On values in normal form \<open>SameAs\<close> is the identity of primitives (so NaN is the same as
  NaN and the two zeros differ), and on objects it is the identity of the object up to the
  equality of wrapped Go values.
\<close>

theorem SameAs_iff:
  assumes "num_ok v" "num_ok w"
  shows "SameAs h v w \<longleftrightarrow>
    v = w \<or> (\<exists>x y. v = VObject x \<and> w = VObject y \<and> h_equal h x y)"
  using assms by (rule SameAs_iff_aux)

lemma SameAs_iff_witness:
  "SameAs host0 (VFloat NaN) (VFloat NaN) \<and> \<not> SameAs host0 (VFloat (f_zero True)) (VInt 0)"
  using SameAs_iff [of "VFloat NaN" "VFloat NaN" host0] SameAs_iff [of "VFloat (f_zero True)" "VInt 0" host0]
  by (simp add: num_ok_def floatToInt_def maxInt_def)

text \<open>Outside the normal form it is not even symmetric.\<close>

lemma SameAs_asymmetric:
  "SameAs h (VFloat (f_of_int 1)) (VInt 1) \<and> \<not> SameAs h (VInt 1) (VFloat (f_of_int 1))"
  by (simp add: valueFloat_SameAs_def valueInt_SameAs_def Let_def f_of_int_isZero)

text \<open>\<open>StrictEquals\<close> is \<open>SameAs\<close> but for NaN and the signed zeros.\<close>

lemma StrictEquals_iff:
  assumes "num_ok v" "num_ok w"
  shows "StrictEquals h v w \<longleftrightarrow>
    v \<noteq> VFloat NaN \<and> (SameAs h v w \<or> {v, w} = {VInt 0, negativeZero})"
proof (cases v)
  case (VInt i)
  show ?thesis
  proof (cases w)
    case (VFloat f)
    then show ?thesis
      using VInt assms num_ok_VFloat_not_int [of f i]
      by (auto simp: valueInt_StrictEquals_def valueInt_SameAs_def negativeZero_def num_ok_def f_eq_sym doubleton_eq_iff)
  qed (use VInt in \<open>auto simp: valueInt_StrictEquals_def valueInt_SameAs_def negativeZero_def doubleton_eq_iff\<close>)
next
  case (VFloat f)
  show ?thesis
  proof (cases w)
    case (VInt i)
    then show ?thesis
      using VFloat assms num_ok_VFloat_not_int [of f i] valueFloat_SameAs_iff [of f w]
      by (auto simp: valueFloat_StrictEquals_def negativeZero_def num_ok_def doubleton_eq_iff)
  next
    case (VFloat g)
    have g: "f64_ok f" "f64_ok g" using assms VFloat \<open>v = VFloat f\<close> by (simp_all add: num_ok_def)
    have nz: "h \<noteq> f_zero False" if "num_ok (VFloat h)" for h
      using that floatToInt_of_int [of 0] by (auto simp: num_ok_def f_of_int_0 maxInt_def)
    have "f_signbit f = f_signbit g" if "f_isZero f" "f_isZero g"
    proof -
      have "f_signbit f" "f_signbit g"
        using that f64_ok_isZero [OF g(1)] f64_ok_isZero [OF g(2)] nz [of f] nz [of g] assms
          VFloat \<open>v = VFloat f\<close> by (metis (full_types))+
      then show ?thesis by simp
    qed
    then show ?thesis
      using VFloat \<open>v = VFloat f\<close> assms valueFloat_SameAs_iff [of f w] f_eq_iff [OF g]
        f64_ok_isZero [OF g(1)] f64_ok_isZero [OF g(2)]
      by (auto simp: valueFloat_StrictEquals_def negativeZero_def doubleton_eq_iff isNaN_iff)
  qed (use VFloat in \<open>auto simp: valueFloat_StrictEquals_def valueFloat_SameAs_def negativeZero_def doubleton_eq_iff\<close>)
qed (auto simp: negativeZero_def doubleton_eq_iff)

section \<open>\<open>hash\<close>\<close>

text \<open>
  The random constants, the string and \<open>big.Int\<close> hasher and the addresses behind
  \<open>uintptr\<close> are parameters. \<open>math.Float64bits\<close> is the 64-bit encoding.
\<close>

record hashes =
  h_undef :: nat
  h_null :: nat
  h_bool :: "bool \<Rightarrow> nat"
  h_string :: "ustr \<Rightarrow> nat"
  h_bigint :: "int \<Rightarrow> nat"
  h_symbol :: "nat \<Rightarrow> nat"
  h_object :: "nat \<Rightarrow> nat"

fun Float64bits :: "f64 \<Rightarrow> nat" where
  "Float64bits NaN = 0x7FF8000000000001"
| "Float64bits (Inf s) = (if s then 2 ^ 63 else 0) + 2047 * 2 ^ 52"
| "Float64bits (Fin s m e) =
     (if s then 2 ^ 63 else 0) + (if m < 2 ^ 52 then m else nat (e + 1075) * 2 ^ 52 + (m - 2 ^ 52))"

fun hash :: "hashes \<Rightarrow> jsval \<Rightarrow> nat" where
  "hash hs VUndefined = h_undef hs"
| "hash hs VNull = h_null hs"
| "hash hs (VBool b) = h_bool hs b"
| "hash hs (VInt i) = nat (i mod 2 ^ 64)"
| "hash hs (VFloat f) = (if f_eq f (f_zero True) then 0 else Float64bits f)"
| "hash hs (VString s) = h_string hs s"
| "hash hs (VSymbol x) = h_symbol hs x"
| "hash hs (VBigInt i) = h_bigint hs i"
| "hash hs (VObject x) = h_object hs x"


definition hashes0 :: hashes where
  "hashes0 = \<lparr>h_undef = 1, h_null = 2, h_bool = \<lambda>b. if b then 3 else 4, h_string = \<lambda>_. 5,
    h_bigint = \<lambda>_. 6, h_symbol = \<lambda>x. x, h_object = \<lambda>x. x\<rparr>"


text \<open>Without it the law fails: the float one and the integer one are the same, and hash apart.\<close>

lemma SameAs_hash_unnormalised:
  "SameAs h (VFloat (f_of_int 1)) (VInt 1) \<and> hash hs (VFloat (f_of_int 1)) \<noteq> hash hs (VInt 1)"
proof -
  have "bitlen 1 = 1" by (simp add: bitlen.simps)
  then have f: "f_of_int 1 = Fin False (2 ^ 52) (-52)"
    by (simp add: f_of_int_def round_f64_def mk_fin_def Let_def)
  have "\<not> f_eq (Fin False (2 ^ 52) (-52)) (f_zero True)"
    by (simp add: f_zero_def f_scaled_def)
  then have "hash hs (VFloat (f_of_int 1)) = 1023 * 2 ^ 52"
    unfolding f by simp
  moreover have "hash hs (VInt 1) = 1" by simp
  ultimately show ?thesis using SameAs_asymmetric by simp
qed

section \<open>\<open>Equals\<close>\<close>

text \<open>
  The operator \<open>==\<close>. Each method takes as \<open>eq\<close> the dynamically dispatched call it makes
  on other values; \<open>Equals\<close> ties the knot, to a depth of six calls, which always is enough
  (\<open>Equals_enough\<close>).
\<close>

type_synonym eqm = "jsval \<Rightarrow> jsval \<Rightarrow> go_error + bool"

text \<open>\<open>big.Int.SetString(s, 0)\<close>: the base is that of the prefix, and a lone zero is octal's.\<close>

fun bigscan :: "nat \<Rightarrow> ustr \<Rightarrow> nat \<Rightarrow> bool \<Rightarrow> nat option" where
  "bigscan b [] acc digit = (if digit then Some acc else None)"
| "bigscan b (c # s) acc digit =
     (if unat c = 95 then (if digit then bigscan b s acc False else None)
      else case char_digit c of
          None \<Rightarrow> None
        | Some d \<Rightarrow> if b \<le> d then None else bigscan b s (acc * b + d) True)"

definition SetString0 :: "ustr \<Rightarrow> int option" where
  "SetString0 s =
     (let neg = (s \<noteq> [] \<and> unat (hd s) = 45);
          t = (if s \<noteq> [] \<and> (unat (hd s) = 45 \<or> unat (hd s) = 43) then tl s else s);
          n = (if 2 \<le> length t \<and> unat (t ! 0) = 48 then
                 (let c = unat (t ! 1); r = drop 2 t in
                  if c = 98 \<or> c = 66 then (if r = [] then None else bigscan 2 r 0 True)
                  else if c = 111 \<or> c = 79 then (if r = [] then None else bigscan 8 r 0 True)
                  else if c = 120 \<or> c = 88 then (if r = [] then None else bigscan 16 r 0 True)
                  else bigscan 8 (tl t) 0 True)
               else bigscan 10 t 0 False) in
      map_option (\<lambda>n. if neg then - int n else int n) n)"

definition stringToBigInt :: "host \<Rightarrow> ustr \<Rightarrow> int option" where
  "stringToBigInt h str =
     (case stringToInt str of
        Inr n \<Rightarrow> Some n
      | Inl (NumRange _) \<Rightarrow>
          Some (case SetString0 str of Some i \<Rightarrow> i | None \<Rightarrow> h_badBigInt h str)
      | Inl BareSyntax \<Rightarrow> Some 0
      | Inl NumSyntax \<Rightarrow> None)"

text \<open>A decimal \<open>BigInt\<close> beyond 64 bits with a leading zero is read as octal.\<close>

lemma stringToBigInt_octal:
  "stringToBigInt h (u ''0100000000000000000000000'') = Some (8 ^ 23)"
  by (simp add: stringToBigInt_def stringToInt_def u_def ParseInt_def ParseUint_def char_digit_def
      SetString0_def Let_def)

text \<open>A finite float that is an integer, as \<open>big.Float.Int\<close> gives it.\<close>

definition float_cmp_big :: "f64 \<Rightarrow> int \<Rightarrow> bool" where
  "float_cmp_big f i = (f_integral f \<and> f_trunc f = i)"

definition valueInt_Equals :: "host \<Rightarrow> eqm \<Rightarrow> int \<Rightarrow> jsval \<Rightarrow> go_error + bool" where
  "valueInt_Equals h eq i other =
     (case other of
        VInt j \<Rightarrow> Inr (i = j)
      | VBigInt j \<Rightarrow> Inr (j = i)
      | VFloat f \<Rightarrow> Inr (f_eq (f_of_int i) f)
      | VString s \<Rightarrow> eq (String_ToNumber s) (VInt i)
      | VBool b \<Rightarrow> Inr (i = (if b then 1 else 0))
      | VObject x \<Rightarrow> bindR (toPrimitive h x) (\<lambda>p. eq (VInt i) p)
      | _ \<Rightarrow> Inr False)"

definition valueBool_Equals :: "eqm \<Rightarrow> bool \<Rightarrow> jsval \<Rightarrow> go_error + bool" where
  "valueBool_Equals eq b other =
     (case other of
        VBool c \<Rightarrow> Inr (b = c)
      | _ \<Rightarrow> if b then eq other (intToValue 1) else eq other (intToValue 0))"

definition valueNull_Equals :: "jsval \<Rightarrow> go_error + bool" where
  "valueNull_Equals other = Inr (other = VUndefined \<or> other = VNull)"

definition valueFloat_Equals :: "host \<Rightarrow> eqm \<Rightarrow> f64 \<Rightarrow> jsval \<Rightarrow> go_error + bool" where
  "valueFloat_Equals h eq f other =
     (case other of
        VFloat g \<Rightarrow> Inr (f_eq f g)
      | VInt i \<Rightarrow> Inr (f_eq f (f_of_int i))
      | VBigInt i \<Rightarrow> Inr (if f_isInf f \<or> f_isNaN f then False else float_cmp_big f i)
      | VString s \<Rightarrow> Inr (f_eq f (String_ToFloat s))
      | VBool b \<Rightarrow> Inr (f_eq f (f_of_int (if b then 1 else 0)))
      | VObject x \<Rightarrow> bindR (toPrimitive h x) (\<lambda>p. eq (VFloat f) p)
      | _ \<Rightarrow> Inr False)"

definition Object_Equals :: "host \<Rightarrow> eqm \<Rightarrow> nat \<Rightarrow> jsval \<Rightarrow> go_error + bool" where
  "Object_Equals h eq obj other =
     (case other of
        VObject x \<Rightarrow> Inr (obj = x \<or> h_equal h obj x)
      | VBool b \<Rightarrow> eq (VObject obj) (VInt (if b then 1 else 0))
      | VUndefined \<Rightarrow> Inr False
      | VNull \<Rightarrow> Inr False
      | _ \<Rightarrow> bindR (toPrimitive h obj) (\<lambda>p. eq p other))"

definition Symbol_Equals :: "host \<Rightarrow> eqm \<Rightarrow> nat \<Rightarrow> jsval \<Rightarrow> go_error + bool" where
  "Symbol_Equals h eq x other =
     (case other of
        VObject y \<Rightarrow> bindR (toPrimitive h y) (\<lambda>p. eq (VSymbol x) p)
      | _ \<Rightarrow> Inr (other = VSymbol x))"

definition valueBigInt_Equals :: "host \<Rightarrow> eqm \<Rightarrow> int \<Rightarrow> jsval \<Rightarrow> go_error + bool" where
  "valueBigInt_Equals h eq v other =
     (case other of
        VBigInt i \<Rightarrow> Inr (v = i)
      | VInt i \<Rightarrow> Inr (v = i)
      | VFloat f \<Rightarrow> Inr (if f_isInf f \<or> f_isNaN f then False else float_cmp_big f v)
      | VString s \<Rightarrow>
          (case stringToBigInt h (toTrimmedUTF8 s) of None \<Rightarrow> Inr False | Some i \<Rightarrow> Inr (i = v))
      | VBool b \<Rightarrow> Inr (wrap_signed 64 v = (if b then 1 else 0))
      | VObject x \<Rightarrow> bindR (toPrimitiveNumber h x) (\<lambda>p. eq (VBigInt v) p)
      | _ \<Rightarrow> Inr False)"

definition asciiString_Equals :: "host \<Rightarrow> eqm \<Rightarrow> ustr \<Rightarrow> jsval \<Rightarrow> go_error + bool" where
  "asciiString_Equals h eq s other =
     (case other of
        VString t \<Rightarrow> Inr (s = t)
      | VInt i \<Rightarrow> (case stringToInt (TrimSpace s) of Inr o1 \<Rightarrow> Inr (o1 = i) | Inl _ \<Rightarrow> Inr False)
      | VFloat f \<Rightarrow> Inr (f_eq (asciiString_ToFloat s) f)
      | VBool b \<Rightarrow>
          (case asciiString_toFloat (TrimSpace s) of
             Inr o1 \<Rightarrow> Inr (f_eq o1 (f_of_int (if b then 1 else 0)))
           | Inl _ \<Rightarrow> Inr False)
      | VBigInt i \<Rightarrow>
          (case stringToBigInt h (TrimSpace s) of None \<Rightarrow> Inr False | Some n \<Rightarrow> Inr (n = i))
      | VObject x \<Rightarrow> bindR (toPrimitive h x) (\<lambda>p. eq (VString s) p)
      | _ \<Rightarrow> Inr False)"

definition unicodeString_Equals :: "host \<Rightarrow> eqm \<Rightarrow> ustr \<Rightarrow> jsval \<Rightarrow> go_error + bool" where
  "unicodeString_Equals h eq s other =
     (case other of
        VString t \<Rightarrow> Inr (s = t)
      | VObject x \<Rightarrow> bindR (toPrimitive h x) (\<lambda>p. eq (VString s) p)
      | _ \<Rightarrow> Inr False)"

definition Equals_call :: "host \<Rightarrow> eqm \<Rightarrow> eqm" where
  "Equals_call h eq v w =
     (case v of
        VUndefined \<Rightarrow> valueNull_Equals w
      | VNull \<Rightarrow> valueNull_Equals w
      | VBool b \<Rightarrow> valueBool_Equals eq b w
      | VInt i \<Rightarrow> valueInt_Equals h eq i w
      | VFloat f \<Rightarrow> valueFloat_Equals h eq f w
      | VString s \<Rightarrow>
          if is_ascii s then asciiString_Equals h eq s w else unicodeString_Equals h eq s w
      | VSymbol x \<Rightarrow> Symbol_Equals h eq x w
      | VBigInt i \<Rightarrow> valueBigInt_Equals h eq i w
      | VObject x \<Rightarrow> Object_Equals h eq x w)"

fun EqualsN :: "host \<Rightarrow> nat \<Rightarrow> eqm" where
  "EqualsN h 0 v w = Inl GoPanic"
| "EqualsN h (Suc n) v w = Equals_call h (EqualsN h n) v w"

definition Equals :: "host \<Rightarrow> eqm" where
  "Equals h = EqualsN h 6"

lemmas Equals_defs = valueBool_Equals_def valueInt_Equals_def valueFloat_Equals_def
  asciiString_Equals_def unicodeString_Equals_def Symbol_Equals_def valueBigInt_Equals_def
  Object_Equals_def valueNull_Equals_def

text \<open>Calls needed: one more for each string, boolean or object still to be converted.\<close>

fun conv_rank :: "jsval \<Rightarrow> nat" where
  "conv_rank (VObject _) = 3"
| "conv_rank (VBool _) = 2"
| "conv_rank (VString _) = 1"
| "conv_rank _ = 0"

lemma is_number_simps [simp]: "is_number (VInt i)" "is_number (VFloat f)"
  by (simp_all add: is_number_def)

lemma number_cases: "is_number v \<Longrightarrow> (\<exists>i. v = VInt i) \<or> (\<exists>f. v = VFloat f)"
  by (cases v) (auto simp: is_number_def)

lemma is_number_intToValue [simp]: "is_number (intToValue i)"
  by (simp add: intToValue_def Let_def)

lemma is_number_floatToValue [simp]: "is_number (floatToValue f)"
  by (simp add: floatToValue_def negativeZero_def split: option.splits)

lemma String_ToNumber_number: "is_number (String_ToNumber s)"
proof -
  have "is_number (asciiString_ToNumber t)" for t
    unfolding asciiString_ToNumber_def Let_def
    by (simp only: if_split sum.case_eq_if is_number_simps is_number_intToValue is_number_floatToValue
        simp_thms)
  then show ?thesis by (simp add: String_ToNumber_def unicodeString_ToNumber_def)
qed

lemma conv_rank_prim:
  "\<not> is_object v \<Longrightarrow> conv_rank v \<le> 2" "is_number v \<Longrightarrow> conv_rank v = 0"
  by (cases v; simp add: is_number_def)+

lemma intToValue_rank [simp]: "conv_rank (intToValue i) = 0"
  by (simp add: intToValue_def Let_def)

lemma Equals_call_cong:
  assumes "\<And>v' w'. conv_rank v' + conv_rank w' < conv_rank v + conv_rank w \<Longrightarrow> eq v' w' = eq' v' w'"
  shows "Equals_call h eq v w = Equals_call h eq' v w"
proof -
  have num: "conv_rank (String_ToNumber s) = 0" for s
    using conv_rank_prim(2) String_ToNumber_number by blast
  have p: "bindR (toPrimitive h x) (eq z) = bindR (toPrimitive h x) (eq' z)"
    "bindR (toPrimitive h x) (\<lambda>p. eq p z) = bindR (toPrimitive h x) (\<lambda>p. eq' p z)"
    "bindR (toPrimitiveNumber h x) (eq z) = bindR (toPrimitiveNumber h x) (eq' z)"
    if "conv_rank z + 3 \<le> conv_rank v + conv_rank w" for x z
    using that toPrimitive_prim conv_rank_prim(1)
    by (auto intro!: bindR_cong assms simp: less_eq_Suc_le numeral_eq_Suc
        dest!: toPrimitive_prim(1,3) conv_rank_prim(1))
  show ?thesis
    using assms p
    by (cases v; cases w) (auto simp: Equals_call_def Equals_defs num)
qed

text \<open>The recursion of \<open>Equals\<close> ends: more fuel than six calls never changes the answer.\<close>

lemma EqualsN_step:
  "conv_rank v + conv_rank w < k \<Longrightarrow> EqualsN h (k + n) v w = EqualsN h k v w"
proof (induction k arbitrary: v w)
  case (Suc k)
  then show ?case by (auto intro!: Equals_call_cong)
qed simp

lemma Equals_enough: "EqualsN h (6 + n) v w = Equals h v w"
proof (cases "\<exists>x y. v = VObject x \<and> w = VObject y")
  case True
  then show ?thesis by (auto simp: Equals_def Equals_call_def Object_Equals_def numeral_eq_Suc)
next
  case False
  then have "conv_rank v + conv_rank w < 6" by (cases v; cases w) auto
  then show ?thesis unfolding Equals_def by (rule EqualsN_step)
qed

lemma Equals_unfold: "Equals h v w = Equals_call h (Equals h) v w"
proof -
  have "Equals h v w = EqualsN h (Suc 6) v w" using Equals_enough [of h 1 v w] by simp
  also have "\<dots> = Equals_call h (EqualsN h 6) v w" by (simp only: EqualsN.simps)
  finally show ?thesis by (simp only: Equals_def)
qed


text \<open>
  On two numbers in normal form \<open>==\<close> is \<open>===\<close>; and an undefined or null value equals
  exactly these two.
\<close>

theorem Equals_numbers:
  assumes "is_number v" "is_number w"
  shows "Equals h v w = Inr (StrictEquals h v w)
    \<and> Equals h VNull x = Inr (x = VUndefined \<or> x = VNull)"
  using number_cases [OF assms(1)] number_cases [OF assms(2)]
  by (auto simp: Equals_unfold Equals_call_def Equals_defs valueInt_StrictEquals_def
      valueFloat_StrictEquals_def)

lemma Equals_numbers_witness:
  "Equals host0 (VInt 2) (VInt 2) = Inr True \<and> Equals host0 VNull VUndefined = Inr True"
  using Equals_numbers [of "VInt 2" "VInt 2" host0 VUndefined] by (simp add: valueInt_StrictEquals_def)

text \<open>
  \<open>==\<close> is not symmetric between a string and a number: \<open>asciiString.Equals\<close> reads an
  integer only in the syntax of \<open>ParseInt\<close>, \<open>valueInt.Equals\<close> converts the string by
  \<open>ToNumber\<close>.
\<close>

lemma Equals_asymmetric:
  "Equals h (VString (u ''1e3'')) (VInt 1000) = Inr False
   \<and> Equals h (VInt 1000) (VString (u ''1e3'')) = Inr True"
proof
  have "is_ascii (u ''1e3'')" by (simp add: is_ascii_def u_def)
  moreover have "stringToInt (TrimSpace (u ''1e3'')) = Inl NumSyntax" by (simp add: str_eval)
  ultimately show "Equals h (VString (u ''1e3'')) (VInt 1000) = Inr False"
    by (subst Equals_unfold) (simp add: Equals_call_def asciiString_Equals_def)
  have "asciiString_ToNumber (u ''1e3'') = floatToValue (f_of_int 1000)"
    using f_of_int_finite [of 1000] by (simp add: str_eval asciiString_ToNumber_def f_of_int_def)
  then have "String_ToNumber (u ''1e3'') = VInt 1000"
    using \<open>is_ascii _\<close> by (simp add: String_ToNumber_def maxInt_def)
  moreover have "Equals h (VInt 1000) (VInt 1000) = Inr True"
    by (subst Equals_unfold) (simp add: Equals_call_def valueInt_Equals_def)
  ultimately show "Equals h (VInt 1000) (VString (u ''1e3'')) = Inr True"
    by (subst Equals_unfold) (simp add: Equals_call_def valueInt_Equals_def)
qed

section \<open>\<open>strToIntNum\<close>\<close>

text \<open>
  The canonical numeric index strings: an integer up to \<open>2^53\<close>, another canonical number
  (result 0, \<open>false\<close>), or no number (-1, \<open>false\<close>).
\<close>

definition strToIntNum :: "host \<Rightarrow> ustr \<Rightarrow> go_error + int \<times> bool" where
  "strToIntNum h s =
     bindR (strToInt64 s) (\<lambda>(n, ok).
       if n = 0 then Inr (0, ok)
       else if ok \<and> - maxInt \<le> n \<and> n \<le> maxInt then Inr (n, True)
       else bindR (toString h (String_ToNumber s)) (\<lambda>str. Inr (if str = s then 0 else -1, False)))"

text \<open>
  C28. A string \<open>strToIntNum\<close> takes for an integer is the canonical decimal form of it, and
  the integer is at most \<open>2^53\<close> in absolute value; conversely the canonical form of every
  such integer is recognised (typed arrays decide by this whether a key is an index).
\<close>

theorem strToIntNum_canonical:
  "strToIntNum h s = Inr (i, True) \<longleftrightarrow> s = FormatInt i \<and> \<bar>i\<bar> \<le> maxInt"
proof
  assume a: "strToIntNum h s = Inr (i, True)"
  then obtain n ok where n: "strToInt64 s = Inr (n, ok)"
    by (auto simp: strToIntNum_def bindR_Inr_iff)
  with a have "ok \<and> n = i \<and> \<bar>i\<bar> \<le> maxInt"
    by (auto simp: strToIntNum_def bindR_Inr_iff maxInt_def split: if_splits)
  with n strToIntW_sound [of 64 19 s i] show "s = FormatInt i \<and> \<bar>i\<bar> \<le> maxInt"
    by (simp add: strToInt64_def)
next
  assume a: "s = FormatInt i \<and> \<bar>i\<bar> \<le> maxInt"
  then have "strToInt64 s = Inr (i, True)"
    using strToIntW_complete [of 64 19 i] by (auto simp: strToInt64_def maxInt_def)
  with a show "strToIntNum h s = Inr (i, True)"
    by (auto simp: strToIntNum_def)
qed

end
