(* ===== verification/Arith.thy ===== *)
theory Arith
  imports Conversions
begin

text \<open>
  The operators of the language on values: what the arithmetic, bitwise, comparison and
  equality instructions of \<open>vm.go\<close> compute from the operands on the stack. The stack
  handling itself is in \<open>Vm\<close>. The integer fast paths are compared with IEEE 754
  arithmetic on the floats the operands stand for.
\<close>

unbundle bit_operations_syntax

section \<open>Arithmetic\<close>

definition prim_of :: "host \<Rightarrow> jsval \<Rightarrow> go_error + jsval" where
  "prim_of h v = (case v of VObject x \<Rightarrow> toPrimitive h x | _ \<Rightarrow> Inr v)"

fun is_string :: "jsval \<Rightarrow> bool" where
  "is_string (VString _) = True"
| "is_string _ = False"

definition op_add :: "host \<Rightarrow> jsval \<Rightarrow> jsval \<Rightarrow> go_error + jsval" where
  "op_add h left right =
     bindR (prim_of h left) (\<lambda>left. bindR (prim_of h right) (\<lambda>right.
       if is_string left \<or> is_string right then
         bindR (toString_prim h left) (\<lambda>s. bindR (toString_prim h right) (\<lambda>t. Inr (VString (s @ t))))
       else case left of
           VInt a \<Rightarrow>
             (case right of
                VInt b \<Rightarrow> Inr (intToValue (wrap_signed 64 (a + b)))
              | VBigInt _ \<Rightarrow> Inl TypeErr
              | _ \<Rightarrow> mapR (\<lambda>g. floatToValue (f_add (f_of_int a) g)) (ToFloat_prim right))
         | VBigInt a \<Rightarrow> (case right of VBigInt b \<Rightarrow> Inr (VBigInt (a + b)) | _ \<Rightarrow> Inl TypeErr)
         | _ \<Rightarrow>
             if is_bigint right then Inl TypeErr
             else bindR (ToFloat_prim left) (\<lambda>f.
               mapR (\<lambda>g. floatToValue (f_add f g)) (ToFloat_prim right))))"

text \<open>
  The shape the other operators share: both operands are made numeric, two \<open>BigInt\<close>s are
  kept apart from the numbers, two integers have a fast path (\<open>None\<close>: not applicable) and
  everything else is computed on floats.
\<close>

definition arith2 :: "(int \<Rightarrow> int \<Rightarrow> jsval option) \<Rightarrow> (int \<Rightarrow> int \<Rightarrow> go_error + jsval)
    \<Rightarrow> (f64 \<Rightarrow> f64 \<Rightarrow> jsval) \<Rightarrow> host \<Rightarrow> jsval \<Rightarrow> jsval \<Rightarrow> go_error + jsval" where
  "arith2 fint fbig ffloat h left right =
     bindR (toNumeric h left) (\<lambda>left. bindR (toNumeric h right) (\<lambda>right.
       let floats = bindR (ToFloat_prim left) (\<lambda>f. mapR (ffloat f) (ToFloat_prim right)) in
       case left of
         VBigInt a \<Rightarrow> (case right of VBigInt b \<Rightarrow> fbig a b | _ \<Rightarrow> Inl TypeErr)
       | VInt a \<Rightarrow>
           (case right of
              VInt b \<Rightarrow> (case fint a b of Some v \<Rightarrow> Inr v | None \<Rightarrow> floats)
            | VBigInt _ \<Rightarrow> Inl TypeErr
            | _ \<Rightarrow> floats)
       | _ \<Rightarrow> if is_bigint right then Inl TypeErr else floats))"

definition op_sub :: "host \<Rightarrow> jsval \<Rightarrow> jsval \<Rightarrow> go_error + jsval" where
  "op_sub = arith2 (\<lambda>a b. Some (intToValue (wrap_signed 64 (a - b))))
     (\<lambda>a b. Inr (VBigInt (a - b))) (\<lambda>f g. floatToValue (f_sub f g))"

text \<open>\<open>res/left == right\<close> detects an overflow of the 64-bit product.\<close>

definition mul_int :: "int \<Rightarrow> int \<Rightarrow> jsval option" where
  "mul_int left right =
     (if (left = 0 \<and> right = -1) \<or> (left = -1 \<and> right = 0) then Some negativeZero
      else let res = wrap_signed 64 (left * right) in
      if left = 0 \<or> right = 0 \<or> go_div res left = right then Some (intToValue res) else None)"

definition op_mul :: "host \<Rightarrow> jsval \<Rightarrow> jsval \<Rightarrow> go_error + jsval" where
  "op_mul = arith2 mul_int (\<lambda>a b. Inr (VBigInt (a * b))) (\<lambda>f g. floatToValue (f_mul f g))"

definition div_float :: "f64 \<Rightarrow> f64 \<Rightarrow> jsval" where
  "div_float left right =
     (if f_isNaN left \<or> f_isNaN right then VFloat NaN
      else if f_isInf left \<and> f_isInf right then VFloat NaN
      else if f_isZero left \<and> f_isZero right then VFloat NaN
      else if f_isInf left then VFloat (Inf (f_signbit left \<noteq> f_signbit right))
      else if f_isInf right then
        (if f_signbit left = f_signbit right then VInt 0 else negativeZero)
      else if f_isZero right then VFloat (Inf (f_signbit left \<noteq> f_signbit right))
      else floatToValue (f_div left right))"

definition op_div :: "host \<Rightarrow> jsval \<Rightarrow> jsval \<Rightarrow> go_error + jsval" where
  "op_div = arith2 (\<lambda>_ _. None)
     (\<lambda>a b. if b = 0 then Inl RangeErr else if \<bar>a\<bar> < \<bar>b\<bar> then Inr (VBigInt 0) else Inr (VBigInt (go_div a b)))
     div_float"

definition mod_int :: "int \<Rightarrow> int \<Rightarrow> jsval" where
  "mod_int left right =
     (if right = 0 then VFloat NaN
      else let r = go_rem left right in
      if r = 0 \<and> left < 0 then negativeZero else intToValue r)"

definition op_mod :: "host \<Rightarrow> jsval \<Rightarrow> jsval \<Rightarrow> go_error + jsval" where
  "op_mod = arith2 (\<lambda>a b. Some (mod_int a b))
     (\<lambda>a b. if b = 0 then Inl RangeErr
            else if a < 0 then Inr (VBigInt (- (\<bar>a\<bar> mod \<bar>b\<bar>)))
            else Inr (VBigInt (a mod \<bar>b\<bar>)))
     (\<lambda>f g. floatToValue (f_mod f g))"

definition op_neg :: "host \<Rightarrow> jsval \<Rightarrow> go_error + jsval" where
  "op_neg h operand =
     bindR (toNumeric h operand) (\<lambda>n. case n of
         VBigInt i \<Rightarrow> Inr (VBigInt (- i))
       | VInt i \<Rightarrow> Inr (if i = 0 then negativeZero else VInt (- i))
       | _ \<Rightarrow> mapR (\<lambda>f. VFloat (if f_isNaN f then f else f_neg f)) (ToFloat h operand))"

definition op_plus :: "host \<Rightarrow> jsval \<Rightarrow> go_error + jsval" where
  "op_plus h v = ToNumber h v"

definition op_inc :: "host \<Rightarrow> jsval \<Rightarrow> go_error + jsval" where
  "op_inc h v =
     (case v of
        VBigInt i \<Rightarrow> Inr (VBigInt (i + 1))
      | VInt i \<Rightarrow> Inr (intToValue (wrap_signed 64 (i + 1)))
      | _ \<Rightarrow> mapR (\<lambda>f. VFloat (f_add f (f_of_int 1))) (ToFloat h v))"

definition op_dec :: "host \<Rightarrow> jsval \<Rightarrow> go_error + jsval" where
  "op_dec h v =
     (case v of
        VBigInt i \<Rightarrow> Inr (VBigInt (i - 1))
      | VInt i \<Rightarrow> Inr (intToValue (wrap_signed 64 (i - 1)))
      | _ \<Rightarrow> mapR (\<lambda>f. VFloat (f_sub f (f_of_int 1))) (ToFloat h v))"

section \<open>Bitwise operators\<close>

definition bits2 :: "(int \<Rightarrow> int \<Rightarrow> int) \<Rightarrow> (int \<Rightarrow> int \<Rightarrow> int) \<Rightarrow> (host \<Rightarrow> jsval \<Rightarrow> go_error + int)
    \<Rightarrow> host \<Rightarrow> jsval \<Rightarrow> jsval \<Rightarrow> go_error + jsval" where
  "bits2 fint fbig conv h left right =
     bindR (toNumeric h left) (\<lambda>left. bindR (toNumeric h right) (\<lambda>right.
       case left of
         VBigInt a \<Rightarrow> (case right of VBigInt b \<Rightarrow> Inr (VBigInt (fbig a b)) | _ \<Rightarrow> Inl TypeErr)
       | _ \<Rightarrow>
           if is_bigint right then Inl TypeErr
           else bindR (toInt32 h left) (\<lambda>a. mapR (\<lambda>b. intToValue (fint a b)) (conv h right))))"

definition op_and :: "host \<Rightarrow> jsval \<Rightarrow> jsval \<Rightarrow> go_error + jsval" where
  "op_and = bits2 (\<lambda>a b. a AND b) (\<lambda>a b. a AND b) toInt32"

definition op_or :: "host \<Rightarrow> jsval \<Rightarrow> jsval \<Rightarrow> go_error + jsval" where
  "op_or = bits2 (\<lambda>a b. a OR b) (\<lambda>a b. a OR b) toInt32"

definition op_xor :: "host \<Rightarrow> jsval \<Rightarrow> jsval \<Rightarrow> go_error + jsval" where
  "op_xor = bits2 (\<lambda>a b. a XOR b) (\<lambda>a b. a XOR b) toInt32"

definition op_bnot :: "host \<Rightarrow> jsval \<Rightarrow> go_error + jsval" where
  "op_bnot h v =
     bindR (toNumeric h v) (\<lambda>n. case n of
         VBigInt i \<Rightarrow> Inr (VBigInt (NOT i))
       | _ \<Rightarrow> mapR (\<lambda>i. intToValue (NOT i)) (toInt32 h n))"

definition big_shift :: "bool \<Rightarrow> int \<Rightarrow> int \<Rightarrow> int" where
  "big_shift left_shift a b =
     (let n = nat (\<bar>b\<bar> mod 2 ^ 64) in
      if (b < 0) = left_shift then drop_bit n a else push_bit n a)"

definition op_sal :: "host \<Rightarrow> jsval \<Rightarrow> jsval \<Rightarrow> go_error + jsval" where
  "op_sal = bits2 (\<lambda>a b. wrap_signed 32 (push_bit (nat (b AND 31)) a)) (big_shift True) toUint32"

definition op_sar :: "host \<Rightarrow> jsval \<Rightarrow> jsval \<Rightarrow> go_error + jsval" where
  "op_sar = bits2 (\<lambda>a b. drop_bit (nat (b AND 31)) a) (big_shift False) toUint32"

definition op_shr :: "host \<Rightarrow> jsval \<Rightarrow> jsval \<Rightarrow> go_error + jsval" where
  "op_shr h left right =
     bindR (toNumeric h left) (\<lambda>left. bindR (toNumeric h right) (\<lambda>right.
       if is_bigint left \<or> is_bigint right then Inl TypeErr
       else bindR (toUint32 h left) (\<lambda>a.
         mapR (\<lambda>b. intToValue (drop_bit (nat (b AND 31)) a)) (toUint32 h right))))"

section \<open>Comparison and equality\<close>

text \<open>\<open>big.Float\<close> comparison of a finite float with an integer: \<open>f < i\<close> and \<open>i < f\<close>.\<close>

definition f_floor :: "f64 \<Rightarrow> int" where
  "f_floor f = (case f of Fin s m e \<Rightarrow>
     if f_integral f \<or> \<not> s then f_trunc f else - (int m div 2 ^ nat (- e)) - 1 | _ \<Rightarrow> 0)"

definition f_less_big :: "f64 \<Rightarrow> int \<Rightarrow> bool" where
  "f_less_big f i = (case f of NaN \<Rightarrow> False | Inf s \<Rightarrow> s | Fin _ _ _ \<Rightarrow> f_floor f < i)"

definition big_less_f :: "int \<Rightarrow> f64 \<Rightarrow> bool" where
  "big_less_f i f = (case f of NaN \<Rightarrow> False | Inf s \<Rightarrow> \<not> s | Fin _ _ _ \<Rightarrow>
     i < f_floor f \<or> (i = f_floor f \<and> \<not> f_integral f))"

fun str_less :: "ustr \<Rightarrow> ustr \<Rightarrow> bool" where
  "str_less _ [] = False"
| "str_less [] (_ # _) = True"
| "str_less (a # s) (b # t) = (unat a < unat b \<or> (a = b \<and> str_less s t))"

text \<open>\<open>cmp(px, py)\<close>: \<open>Some\<close> of \<open>px < py\<close>, or \<open>None\<close> for undefined.\<close>

definition cmp :: "host \<Rightarrow> jsval \<Rightarrow> jsval \<Rightarrow> go_error + bool option" where
  "cmp h px py =
     (case (px, py) of
        (VString xs, VString ys) \<Rightarrow> Inr (Some (str_less xs ys))
      | (VBigInt a, VString ys) \<Rightarrow>
          Inr (map_option (\<lambda>n. a < n) (stringToBigInt h (toTrimmedUTF8 ys)))
      | (VString xs, VBigInt b) \<Rightarrow>
          Inr (map_option (\<lambda>n. n < b) (stringToBigInt h (toTrimmedUTF8 xs)))
      | _ \<Rightarrow>
          bindR (toNumeric h px) (\<lambda>px. bindR (toNumeric h py) (\<lambda>py.
            case (px, py) of
              (VInt a, VInt b) \<Rightarrow> Inr (Some (a < b))
            | (VInt a, VBigInt b) \<Rightarrow> Inr (Some (a < b))
            | (VFloat f, VBigInt b) \<Rightarrow> Inr (if f_isNaN f then None else Some (f_less_big f b))
            | (VBigInt a, VInt b) \<Rightarrow> Inr (Some (a < b))
            | (VBigInt a, VFloat g) \<Rightarrow> Inr (if f_isNaN g then None else Some (big_less_f a g))
            | (VBigInt a, VBigInt b) \<Rightarrow> Inr (Some (a < b))
            | _ \<Rightarrow>
                bindR (ToFloat_prim px) (\<lambda>nx. bindR (ToFloat_prim py) (\<lambda>ny.
                  Inr (if f_isNaN nx \<or> f_isNaN ny then None else Some (f_lt nx ny)))))))"

definition number_prim_of :: "host \<Rightarrow> jsval \<Rightarrow> go_error + jsval" where
  "number_prim_of h v = (case v of VObject x \<Rightarrow> toPrimitiveNumber h x | _ \<Rightarrow> Inr v)"

definition op_lt :: "host \<Rightarrow> jsval \<Rightarrow> jsval \<Rightarrow> go_error + jsval" where
  "op_lt h left right =
     bindR (number_prim_of h left) (\<lambda>left. bindR (number_prim_of h right) (\<lambda>right.
       mapR (\<lambda>r. VBool (case r of None \<Rightarrow> False | Some b \<Rightarrow> b)) (cmp h left right)))"

definition op_lte :: "host \<Rightarrow> jsval \<Rightarrow> jsval \<Rightarrow> go_error + jsval" where
  "op_lte h left right =
     bindR (number_prim_of h left) (\<lambda>left. bindR (number_prim_of h right) (\<lambda>right.
       mapR (\<lambda>r. VBool (case r of None \<Rightarrow> False | Some b \<Rightarrow> \<not> b)) (cmp h right left)))"

definition op_gt :: "host \<Rightarrow> jsval \<Rightarrow> jsval \<Rightarrow> go_error + jsval" where
  "op_gt h left right =
     bindR (number_prim_of h left) (\<lambda>left. bindR (number_prim_of h right) (\<lambda>right.
       mapR (\<lambda>r. VBool (case r of None \<Rightarrow> False | Some b \<Rightarrow> b)) (cmp h right left)))"

definition op_gte :: "host \<Rightarrow> jsval \<Rightarrow> jsval \<Rightarrow> go_error + jsval" where
  "op_gte h left right =
     bindR (number_prim_of h left) (\<lambda>left. bindR (number_prim_of h right) (\<lambda>right.
       mapR (\<lambda>r. VBool (case r of None \<Rightarrow> False | Some b \<Rightarrow> \<not> b)) (cmp h left right)))"

definition op_eq :: "host \<Rightarrow> jsval \<Rightarrow> jsval \<Rightarrow> go_error + jsval" where
  "op_eq h left right = mapR VBool (Equals h left right)"

definition op_neq :: "host \<Rightarrow> jsval \<Rightarrow> jsval \<Rightarrow> go_error + jsval" where
  "op_neq h left right = mapR (\<lambda>b. VBool (\<not> b)) (Equals h left right)"

definition op_strict_eq :: "host \<Rightarrow> jsval \<Rightarrow> jsval \<Rightarrow> go_error + jsval" where
  "op_strict_eq h left right = Inr (VBool (StrictEquals h left right))"

definition op_strict_neq :: "host \<Rightarrow> jsval \<Rightarrow> jsval \<Rightarrow> go_error + jsval" where
  "op_strict_neq h left right = Inr (VBool (\<not> StrictEquals h left right))"

section \<open>The integer fast paths and IEEE arithmetic\<close>

text \<open>The float a number stands for.\<close>

definition num_float :: "jsval \<Rightarrow> f64" where
  "num_float v = (case v of VInt i \<Rightarrow> f_of_int i | VFloat f \<Rightarrow> f | _ \<Rightarrow> NaN)"

lemma num_float_ok: "num_ok v \<Longrightarrow> is_number v \<Longrightarrow> f64_ok (num_float v)"
  by (cases v) (auto simp: num_float_def num_ok_def is_number_def)

lemma floatToValue_None:
  assumes "f64_ok f" "floatToInt f = None"
  shows "floatToValue f = VFloat f"
proof -
  have "floatToInt (f_zero False) = Some 0"
    using floatToInt_of_int [of 0] by (simp add: f_of_int_0 maxInt_def)
  then have "f = f_zero True" if "f_isZero f"
    using that f64_ok_isZero [OF assms(1)] assms(2) by (cases "f_signbit f") auto
  then show ?thesis
    using assms by (cases f) (auto simp: floatToValue_def negativeZero_def)
qed

lemma num_float_floatToValue: "f64_ok f \<Longrightarrow> num_float (floatToValue f) = f"
proof (cases "floatToInt f")
  case (Some i)
  assume "f64_ok f"
  with Some have "\<bar>i\<bar> \<le> maxInt \<and> f_of_int i = f" by (intro floatToInt_Some)
  with Some show ?thesis by (simp add: floatToValue_def num_float_def)
qed (simp add: floatToValue_None num_float_def)

lemma num_float_intToValue:
  "- (2 ^ 63) \<le> i \<Longrightarrow> i < 2 ^ 63 \<Longrightarrow> num_float (intToValue i) = f_of_int i"
  by (simp add: intToValue_int num_float_def)

text \<open>\<open>valueFloat\<close> is never the result of converting an integer back: normal form is unique.\<close>

lemma num_float_inj:
  assumes "is_number v" "is_number w" "num_ok v" "num_ok w" "num_float v = num_float w"
  shows "v = w"
  using number_cases [OF assms(1)] number_cases [OF assms(2)] assms(3-5)
    floatToInt_of_int
  by (auto simp: num_float_def num_ok_def) (metis floatToInt_of_int option.inject option.distinct(1))+

lemma number_not_bigint: "is_number v \<Longrightarrow> \<not> is_bigint v \<and> \<not> is_string v \<and> \<not> is_object v"
  using number_cases [of v] by auto

lemma toNumeric_number: "is_number v \<Longrightarrow> num_ok v \<Longrightarrow> toNumeric h v = Inr v"
proof -
  assume v: "is_number v" "num_ok v"
  show ?thesis
  proof (cases v)
    case (VFloat f)
    with v(2) show ?thesis by (simp add: toNumeric_def num_ok_def floatToValue_None)
  qed (use v in \<open>auto simp: toNumeric_def is_number_def\<close>)
qed

lemma ToFloat_prim_number: "is_number v \<Longrightarrow> ToFloat_prim v = Inr (num_float v)"
  using number_cases [of v] by (auto simp: num_float_def)

lemma arith2_number:
  assumes "is_number l" "num_ok l" "is_number r" "num_ok r"
  shows "arith2 fint fbig ffl h l r =
    (case (l, r) of
       (VInt a, VInt b) \<Rightarrow> (case fint a b of Some v \<Rightarrow> Inr v | None \<Rightarrow> Inr (ffl (f_of_int a) (f_of_int b)))
     | _ \<Rightarrow> Inr (ffl (num_float l) (num_float r)))"
  using number_cases [OF assms(1)] number_cases [OF assms(3)] assms
  by (auto simp: arith2_def toNumeric_number num_float_def split: option.split)

lemma wrap64: "\<bar>i\<bar> < 2 ^ 62 \<Longrightarrow> wrap_signed 64 i = i"
  by (intro wrap_signed_id) auto

lemma f_sub_of_int:
  "\<bar>i\<bar> \<le> 2 ^ 53 \<Longrightarrow> \<bar>j\<bar> \<le> 2 ^ 53 \<Longrightarrow> f_sub (f_of_int i) (f_of_int j) = f_of_int (i - j)"
  by (rule fin_sub_of_int)

text \<open>
  C34. Addition and subtraction of two numbers are IEEE addition and subtraction of the
  floats they stand for, whatever the representations of the operands; the integer fast path
  never changes the result.
\<close>

theorem add_sub_ieee:
  assumes "is_number l" "num_ok l" "is_number r" "num_ok r"
  shows "\<exists>v w. op_add h l r = Inr v \<and> is_number v \<and> num_float v = f_add (num_float l) (num_float r)
    \<and> op_sub h l r = Inr w \<and> is_number w \<and> num_float w = f_sub (num_float l) (num_float r)"
proof -
  have prim: "prim_of h l = Inr l" "prim_of h r = Inr r"
    using assms(1,3) by (auto simp: prim_of_def is_number_def split: jsval.splits)
  show ?thesis
  proof (cases "(\<exists>a. l = VInt a) \<and> (\<exists>b. r = VInt b)")
    case True
    then obtain a b where ab: "l = VInt a" "r = VInt b" by blast
    with assms have b: "\<bar>a\<bar> \<le> 2 ^ 53" "\<bar>b\<bar> \<le> 2 ^ 53" by (auto simp: num_ok_def maxInt_def)
    then have s: "\<bar>a + b\<bar> < 2 ^ 62" "\<bar>a - b\<bar> < 2 ^ 62" by auto
    show ?thesis
      using ab prim assms b s
      by (simp add: op_add_def op_sub_def arith2_number wrap64 num_float_intToValue
          fin_add_of_int f_sub_of_int num_float_def [of "VInt _"])
  next
    case False
    have "op_add h l r = Inr (floatToValue (f_add (num_float l) (num_float r)))"
      using False prim number_cases [OF assms(1)] number_cases [OF assms(3)]
      by (auto simp: op_add_def num_float_def)
    moreover have "op_sub h l r = Inr (floatToValue (f_sub (num_float l) (num_float r)))"
      using False number_cases [OF assms(1)] number_cases [OF assms(3)] assms
      by (auto simp: op_sub_def arith2_number)
    ultimately show ?thesis by (simp add: num_float_floatToValue f_arith_ok)
  qed
qed

lemma add_sub_ieee_witness:
  "\<exists>v w. op_add host0 (VInt 2) (VFloat (f_zero True)) = Inr v \<and> is_number v
    \<and> num_float v = f_add (num_float (VInt 2)) (num_float (VFloat (f_zero True)))
    \<and> op_sub host0 (VInt 2) (VFloat (f_zero True)) = Inr w \<and> is_number w
    \<and> num_float w = f_sub (num_float (VInt 2)) (num_float (VFloat (f_zero True)))"
  by (rule add_sub_ieee) (simp_all add: num_ok_def maxInt_def floatToInt_def)

text \<open>The overflow check of the product is exact on the operands the fast path gets.\<close>

lemma mul_overflow_check:
  assumes "\<bar>a\<bar> \<le> 2 ^ 53" "\<bar>b\<bar> \<le> 2 ^ 53" "a \<noteq> 0" "b \<noteq> 0"
  shows "go_div (wrap_signed 64 (a * b)) a = b \<longleftrightarrow> wrap_signed 64 (a * b) = a * b"
proof
  define res where "res = wrap_signed 64 (a * b)"
  assume "go_div res a = b"
  then have "b * a + go_rem res a = res" using go_div_rem [of res a] by simp
  moreover have "\<bar>go_rem res a\<bar> < 2 ^ 53 + 1"
  proof -
    have "\<bar>res\<bar> mod \<bar>a\<bar> < \<bar>a\<bar>" "0 \<le> \<bar>res\<bar> mod \<bar>a\<bar>" using assms(3) by simp_all
    then have "\<bar>go_rem res a\<bar> \<le> \<bar>a\<bar>" by (auto simp: go_rem_def abs_mult sgn_if)
    with assms(1) show ?thesis by linarith
  qed
  ultimately have d: "\<bar>res - a * b\<bar> < 2 ^ 53 + 1" by (simp add: algebra_simps)
  have "res mod 2 ^ 64 = (a * b) mod 2 ^ 64" unfolding res_def by (rule wrap_signed_cong)
  then have "2 ^ 64 dvd res - a * b" by (simp only: mod_eq_dvd_iff)
  then have "res - a * b = 0" using d dvd_imp_le_int [of "res - a * b" "2 ^ 64"] by auto
  then show "wrap_signed 64 (a * b) = a * b" by (simp add: res_def)
next
  assume "wrap_signed 64 (a * b) = a * b"
  moreover have "go_div (a * b) a = b"
    using assms(3) by (simp add: go_div_def abs_mult sgn_mult abs_sgn mult.assoc [symmetric])
      (simp add: sgn_if abs_if)
  ultimately show "go_div (wrap_signed 64 (a * b)) a = b" by simp
qed



text \<open>The excluded case: \<open>0 * -5\<close> is positive zero.\<close>

lemma mul_zero_sign:
  "op_mul h (VInt 0) (VInt (-5)) = Inr (VInt 0)
   \<and> f_mul (num_float (VInt 0)) (num_float (VInt (-5))) = f_zero True"
proof
  show "op_mul h (VInt 0) (VInt (-5)) = Inr (VInt 0)"
    by (simp add: op_mul_def arith2_number num_ok_def maxInt_def mul_int_def Let_def)
  obtain y e' where "f_of_int (-5) = Fin True y e'"
    using f_of_int_repr [of "-5"] by auto
  then show "f_mul (num_float (VInt 0)) (num_float (VInt (-5))) = f_zero True"
    by (simp add: num_float_def f_of_int_0 f_zero_def round_f64_def)
qed

text \<open>
  C36. Division of two numbers is IEEE division in every case: the special cases the
  instruction treats itself (NaN, the infinities, zeros of either sign) are those of the
  standard, and the result is in normal form.
\<close>

theorem div_ieee:
  assumes "is_number l" "num_ok l" "is_number r" "num_ok r"
  shows "\<exists>v. op_div h l r = Inr v \<and> is_number v \<and> num_ok v
    \<and> num_float v = f_div (num_float l) (num_float r)"
proof -
  have d: "op_div h l r = Inr (div_float (num_float l) (num_float r))"
    using number_cases [OF assms(1)] number_cases [OF assms(3)] assms
    by (auto simp: op_div_def arith2_number num_float_def)
  have ok: "num_ok (VFloat NaN)" "num_ok (VFloat (Inf s))" "num_ok negativeZero" for s
    by (simp_all add: num_ok_def floatToInt_def negativeZero_def)
  have "is_number (div_float f g) \<and> num_ok (div_float f g) \<and> num_float (div_float f g) = f_div f g" for f g
  proof (cases "f_isNaN f \<or> f_isNaN g \<or> f_isInf f \<or> f_isInf g \<or> f_isZero g")
    case True
    then show ?thesis
      by (cases f; cases g)
        (auto simp: div_float_def ok num_float_def negativeZero_def num_ok_def maxInt_def f_of_int_0
          floatToInt_def)
  next
    case False
    then have "div_float f g = floatToValue (f_div f g)" by (simp add: div_float_def)
    then show ?thesis by (simp add: floatToValue_ok num_float_floatToValue f_arith_ok)
  qed
  with d show ?thesis by blast
qed

lemma div_ieee_witness:
  "\<exists>v. op_div host0 (VInt 1) negativeZero = Inr v \<and> is_number v \<and> num_ok v
    \<and> num_float v = f_div (num_float (VInt 1)) (num_float negativeZero)"
  by (rule div_ieee) (simp_all add: num_ok_def maxInt_def negativeZero_def floatToInt_def)

section \<open>Leaving the normal form\<close>

text \<open>
  Three instructions return numbers that are not in normal form. \<open>-(-0)\<close> is a float zero;
  \<open>++\<close> on a float gives a float even when the sum is an integer; and the sum
  \<open>2^53 + 1\<close> is rounded to the float \<open>2^53\<close>. Each result is the same as an integer value
  when asked (\<open>valueFloat.SameAs\<close>) and different when the integer is asked.
\<close>

lemma negativeZero_ok: "num_ok negativeZero" "is_number negativeZero"
  by (simp_all add: negativeZero_def num_ok_def floatToInt_def)

lemma unnormalised_not_ok: "\<bar>i\<bar> \<le> maxInt \<Longrightarrow> \<not> num_ok (VFloat (f_of_int i))"
  by (simp add: num_ok_def floatToInt_of_int)

lemma neg_negativeZero:
  "op_neg h negativeZero = Inr (VFloat (f_of_int 0)) \<and> \<not> num_ok (VFloat (f_of_int 0))
   \<and> \<not> SameAs h (VInt 0) (VFloat (f_of_int 0))"
proof -
  have "toNumeric h negativeZero = Inr negativeZero"
    by (rule toNumeric_number) (simp_all add: negativeZero_ok)
  then have "op_neg h negativeZero = Inr (VFloat (f_of_int 0))"
    by (simp add: op_neg_def negativeZero_def f_of_int_0 f_zero_def)
  then show ?thesis using unnormalised_not_ok [of 0] by (simp add: valueInt_SameAs_def maxInt_def)
qed

lemma inc_negativeZero:
  "op_inc h negativeZero = Inr (VFloat (f_of_int 1)) \<and> \<not> num_ok (VFloat (f_of_int 1))
   \<and> \<not> SameAs h (VInt 1) (VFloat (f_of_int 1))"
proof -
  obtain m e where f: "f_of_int 1 = Fin False m e" "-1074 \<le> e" "m \<noteq> 0" using f_of_int_repr [of 1] by auto
  have "f64_ok (Fin False m e)" using f_of_int_ok [of 1] by (simp only: f(1))
  then have "round_f64 False m e = Fin False m e" using f(3) by (rule round_f64_idem)
  moreover have "round_f64 False (m * 2 ^ nat (e + 1074)) (-1074) = round_f64 False m e"
    using f(2) by (intro round_f64_value [where K = 1074]) simp_all
  ultimately have "f_add (f_zero True) (f_of_int 1) = f_of_int 1"
    using f by (simp add: f_zero_def fin_add_def signed_def Let_def min_def nat_mult_distrib nat_power_eq
        f_of_int_0 mult_less_0_iff)
  then have "op_inc h negativeZero = Inr (VFloat (f_of_int 1))"
    by (simp add: op_inc_def negativeZero_def)
  then show ?thesis using unnormalised_not_ok [of 1] by (simp add: valueInt_SameAs_def maxInt_def)
qed

lemma add_beyond_maxInt:
  "op_add h (VInt maxInt) (VInt 1) = Inr (VFloat (f_of_int (maxInt + 1)))
   \<and> f_of_int (maxInt + 1) = f_of_int maxInt \<and> \<not> num_ok (VFloat (f_of_int (maxInt + 1)))"
proof -
  have "intToValue (maxInt + 1) = VFloat (f_of_int (maxInt + 1))"
    by (subst intToValue_int) (simp_all add: maxInt_def)
  moreover have "bitlen (2 ^ 53 + 1) = 54" using bitlen_unique [of 53 "2 ^ 53 + 1"] by simp
  then have "f_of_int (maxInt + 1) = Fin False (2 ^ 52) 1"
    by (simp add: f_of_int_def maxInt_def round_f64_def mk_fin_def shift_round_def)
  moreover have "f_of_int maxInt = Fin False (2 ^ 52) 1"
    using round_pow53 by (simp add: f_of_int_def maxInt_def)
  ultimately show ?thesis
    using unnormalised_not_ok [of maxInt]
    by (simp add: op_add_def prim_of_def wrap_signed_id maxInt_def)
qed

text \<open>
  The negation of a non-ASCII string converts it twice, by \<open>ToNumber\<close> and by the
  \<open>ToFloat\<close> that a \<open>unicodeString\<close> does not implement: \<open>-"\u00a0" + "5.5"\<close> is NaN.
\<close>

lemma neg_unicode_string:
  assumes "\<not> is_ascii s" "String_ToNumber s = VFloat f" "floatToInt f = None" "f64_ok f"
  shows "op_neg h (VString s) = Inr (VFloat NaN)"
  using assms by (simp add: op_neg_def toNumeric_def String_ToFloat_def)

section \<open>The remainder\<close>

text \<open>The integer remainder is the float one.\<close>

lemma f_mod_of_int:
  assumes "\<bar>a\<bar> \<le> 2 ^ 53" "\<bar>b\<bar> \<le> 2 ^ 53" "b \<noteq> 0"
  shows "f_mod (f_of_int a) (f_of_int b) = (if a mod b = 0 \<and> a < 0 then f_zero True else f_of_int (go_rem a b))"
proof -
  obtain m e where i: "f_of_int a = Fin (a < 0) m e" "-1074 \<le> e"
    "m * 2 ^ nat (e + 1074) = nat \<bar>a\<bar> * 2 ^ 1074"
    using assms(1) by (rule f_of_int_fixed)
  obtain m' e' where j: "f_of_int b = Fin (b < 0) m' e'" "-1074 \<le> e'"
    "m' * 2 ^ nat (e' + 1074) = nat \<bar>b\<bar> * 2 ^ 1074"
    using assms(2) by (rule f_of_int_fixed)
  have m': "m' \<noteq> 0" using j(3) assms(3) by (cases "m' = 0") auto
  define k where "k = min e e'"
  have k: "-1074 \<le> k" "nat (e + 1074) = nat (e - k) + nat (k + 1074)"
    "nat (e' + 1074) = nat (e' - k) + nat (k + 1074)"
    using i(2) j(2) by (auto simp: k_def)
  define x where "x = m * 2 ^ nat (e - k)"
  define y where "y = m' * 2 ^ nat (e' - k)"
  define K :: nat where "K = 2 ^ nat (k + 1074)"
  have xy: "x * K = nat \<bar>a\<bar> * 2 ^ 1074" "y * K = nat \<bar>b\<bar> * 2 ^ 1074"
    using i(3) j(3) unfolding k x_def y_def K_def power_add by (simp_all only: mult.assoc)
  have "(x mod y) * K = (nat \<bar>a\<bar> mod nat \<bar>b\<bar>) * 2 ^ 1074"
    by (simp only: mult_mod_left xy)
  then have v: "(x mod y) * 2 ^ nat (k + 1074) = (nat \<bar>a\<bar> mod nat \<bar>b\<bar>) * 2 ^ nat (0 + 1074)"
    by (simp only: K_def add_0 nat_numeral)
  have "f_mod (f_of_int a) (f_of_int b) = round_f64 (a < 0) (x mod y) k"
    using m' by (simp only: i(1) j(1) f_mod.simps k_def [symmetric] x_def y_def Let_def if_False)
  also have "\<dots> = round_f64 (a < 0) (nat \<bar>a\<bar> mod nat \<bar>b\<bar>) 0"
    using k(1) v by (intro round_f64_value [where K = 1074]) auto
  finally have f: "f_mod (f_of_int a) (f_of_int b) = round_f64 (a < 0) (nat \<bar>a\<bar> mod nat \<bar>b\<bar>) 0" .
  have n: "nat \<bar>a\<bar> mod nat \<bar>b\<bar> = nat (\<bar>a\<bar> mod \<bar>b\<bar>)" by (simp add: nat_mod_distrib)
  have z: "a mod b = 0 \<longleftrightarrow> \<bar>a\<bar> mod \<bar>b\<bar> = 0" by (simp add: mod_eq_0_iff_dvd)
  have p: "0 \<le> \<bar>a\<bar> mod \<bar>b\<bar>" using assms(3) by simp
  show ?thesis
  proof (cases "\<bar>a\<bar> mod \<bar>b\<bar> = 0")
    case True
    then show ?thesis unfolding f n z by (auto simp: round_f64_def go_rem_def f_of_int_0)
  next
    case False
    then have "\<bar>go_rem a b\<bar> = \<bar>a\<bar> mod \<bar>b\<bar>" "(go_rem a b < 0) = (a < 0)"
      using p by (auto simp: go_rem_def sgn_if)
    then have "f_of_int (go_rem a b) = round_f64 (a < 0) (nat (\<bar>a\<bar> mod \<bar>b\<bar>)) 0"
      by (simp add: f_of_int_def)
    then show ?thesis using False unfolding f n z by simp
  qed
qed

text \<open>
  C37. The remainder of two numbers is IEEE's (\<open>math.Mod\<close>): the integer fast path agrees
  with it, the sign of a zero remainder included.
\<close>

theorem mod_ieee:
  assumes "is_number l" "num_ok l" "is_number r" "num_ok r"
  shows "\<exists>v. op_mod h l r = Inr v \<and> is_number v \<and> num_float v = f_mod (num_float l) (num_float r)"
proof (cases "(\<exists>a. l = VInt a) \<and> (\<exists>b. r = VInt b)")
  case True
  then obtain a b where ab: "l = VInt a" "r = VInt b" by blast
  with assms have b: "\<bar>a\<bar> \<le> 2 ^ 53" "\<bar>b\<bar> \<le> 2 ^ 53" by (auto simp: num_ok_def maxInt_def)
  have m: "op_mod h l r = Inr (mod_int a b)"
    using ab assms by (simp add: op_mod_def arith2_number)
  have rem: "\<bar>go_rem a b\<bar> \<le> 2 ^ 53" "go_rem a b = 0 \<longleftrightarrow> a mod b = 0" if "b \<noteq> 0"
  proof -
    have "\<bar>a\<bar> mod \<bar>b\<bar> \<le> \<bar>a\<bar>" "0 \<le> \<bar>a\<bar> mod \<bar>b\<bar>" using that by (simp_all add: zmod_le_nonneg_dividend)
    then show "\<bar>go_rem a b\<bar> \<le> 2 ^ 53" using b(1) by (auto simp: go_rem_def abs_mult sgn_if)
    show "go_rem a b = 0 \<longleftrightarrow> a mod b = 0" by (auto simp: go_rem_def sgn_if mod_eq_0_iff_dvd)
  qed
  show ?thesis
  proof (cases "b = 0")
    case True
    have "f_mod (f_of_int a) (f_of_int 0) = NaN"
      by (cases "f_of_int a") (simp_all add: f_of_int_0 f_zero_def)
    then show ?thesis using m ab True by (simp add: mod_int_def num_float_def)
  next
    case False
    then show ?thesis
      using m ab f_mod_of_int [OF b False] rem [OF False]
      by (auto simp: mod_int_def Let_def num_float_def negativeZero_def maxInt_def)
  qed
next
  case False
  have "op_mod h l r = Inr (floatToValue (f_mod (num_float l) (num_float r)))"
    using False number_cases [OF assms(1)] number_cases [OF assms(3)] assms
    by (auto simp: op_mod_def arith2_number)
  then show ?thesis
    using f_mod_ok [OF num_float_ok [OF assms(2,1)]] by (simp add: num_float_floatToValue)
qed

lemma mod_ieee_witness:
  "\<exists>v. op_mod host0 (VInt (-4)) (VInt 2) = Inr v \<and> is_number v
    \<and> num_float v = f_mod (num_float (VInt (-4))) (num_float (VInt 2))"
  by (rule mod_ieee) (simp_all add: num_ok_def maxInt_def)

end
