(* ===== verification/Ordered_Map.thy ===== *)
theory Ordered_Map
  imports Conversions
begin

text \<open>
  The insertion-ordered hash table of \<open>map.go\<close> behind \<open>Map\<close>, \<open>Set\<close> and the symbol
  properties of an object. Entries live on a heap of addresses, allocated in increasing
  order; each is on a doubly linked list in insertion order and on the singly linked chain of
  its hash. A removed entry stays on the heap with its \<open>iterPrev\<close> pointer, by which an
  iterator that stands on it finds its way back.

  The table is shown to refine an association list (insertion, update in place, removal),
  and the iterator to visit, in insertion order, every entry present when its turn comes,
  however the table was changed or cleared between two calls of \<open>next\<close>.
\<close>

section \<open>State and operations\<close>

record ('k, 'v) mapEntry =
  e_key :: "'k option"
  e_value :: "'v option"
  iterPrev :: "nat option"
  iterNext :: "nat option"
  hNext :: "nat option"

record ('k, 'v) orderedMap =
  heap :: "nat \<Rightarrow> ('k, 'v) mapEntry"
  fresh :: nat
  hashTable :: "nat \<Rightarrow> nat option"
  iterFirst :: "nat option"
  iterLast :: "nat option"
  om_size :: nat

text \<open>The operations on keys the table calls: \<open>SameAs\<close>, \<open>hash\<close>, the replacement of \<open>-0\<close>.\<close>

record 'k keyops =
  k_same :: "'k \<Rightarrow> 'k \<Rightarrow> bool"
  k_hash :: "'k \<Rightarrow> nat"
  k_norm :: "'k \<Rightarrow> 'k"

definition upd :: "nat \<Rightarrow> (('k, 'v) mapEntry \<Rightarrow> ('k, 'v) mapEntry) \<Rightarrow>
    ('k, 'v) orderedMap \<Rightarrow> ('k, 'v) orderedMap" where
  "upd a f m = m\<lparr>heap := (heap m)(a := f (heap m a))\<rparr>"

text \<open>
  The search along a chain, with fuel for the pointers followed; a chain has at most as many
  entries as were ever allocated. An entry without a key would be a nil dereference.
\<close>

fun find_chain :: "'k keyops \<Rightarrow> ('k, 'v) orderedMap \<Rightarrow> 'k \<Rightarrow> nat \<Rightarrow> nat option \<Rightarrow> nat option
    \<Rightarrow> nat option \<times> nat option" where
  "find_chain K m key 0 e p = (e, p)"
| "find_chain K m key (Suc n) None p = (None, p)"
| "find_chain K m key (Suc n) (Some e) p =
     (if (case e_key (heap m e) of None \<Rightarrow> False | Some k \<Rightarrow> k_same K k key) then (Some e, p)
      else find_chain K m key n (hNext (heap m e)) (Some e))"

definition om_lookup :: "'k keyops \<Rightarrow> ('k, 'v) orderedMap \<Rightarrow> 'k \<Rightarrow> nat \<times> nat option \<times> nat option" where
  "om_lookup K m key =
     (let key = k_norm K key; h = k_hash K key in
      (h, find_chain K m key (Suc (fresh m)) (hashTable m h) None))"

definition om_set :: "'k keyops \<Rightarrow> ('k, 'v) orderedMap \<Rightarrow> 'k \<Rightarrow> 'v \<Rightarrow> ('k, 'v) orderedMap" where
  "om_set K m key val =
     (case om_lookup K m key of (h, entry, hPrev) \<Rightarrow>
       (case entry of
          Some e \<Rightarrow> upd e (\<lambda>x. x\<lparr>e_value := Some val\<rparr>) m
        | None \<Rightarrow>
            let key = k_norm K key;
                entry = fresh m;
                m = upd entry (\<lambda>_. \<lparr>e_key = Some key, e_value = Some val, iterPrev = None,
                      iterNext = None, hNext = None\<rparr>) (m\<lparr>fresh := Suc entry\<rparr>);
                m = (case hPrev of
                       None \<Rightarrow> m\<lparr>hashTable := (hashTable m)(h := Some entry)\<rparr>
                     | Some p \<Rightarrow> upd p (\<lambda>x. x\<lparr>hNext := Some entry\<rparr>) m);
                m = (case iterLast m of
                       Some l \<Rightarrow> upd l (\<lambda>x. x\<lparr>iterNext := Some entry\<rparr>)
                                   (upd entry (\<lambda>x. x\<lparr>iterPrev := Some l\<rparr>) m)
                     | None \<Rightarrow> m\<lparr>iterFirst := Some entry\<rparr>)
            in m\<lparr>iterLast := Some entry, om_size := om_size m + 1\<rparr>))"

definition om_get :: "'k keyops \<Rightarrow> ('k, 'v) orderedMap \<Rightarrow> 'k \<Rightarrow> 'v option" where
  "om_get K m key =
     (case om_lookup K m key of (_, entry, _) \<Rightarrow>
       (case entry of Some e \<Rightarrow> e_value (heap m e) | None \<Rightarrow> None))"

definition om_remove :: "'k keyops \<Rightarrow> ('k, 'v) orderedMap \<Rightarrow> 'k \<Rightarrow> ('k, 'v) orderedMap \<times> bool" where
  "om_remove K m key =
     (case om_lookup K m key of (h, entry, hPrev) \<Rightarrow>
       (case entry of
          None \<Rightarrow> (m, False)
        | Some e \<Rightarrow>
            let m = upd e (\<lambda>x. x\<lparr>e_key := None, e_value := None\<rparr>) m;
                m = (case iterPrev (heap m e) of
                       Some p \<Rightarrow> upd p (\<lambda>x. x\<lparr>iterNext := iterNext (heap m e)\<rparr>) m
                     | None \<Rightarrow> m\<lparr>iterFirst := iterNext (heap m e)\<rparr>);
                m = (case iterNext (heap m e) of
                       Some n \<Rightarrow> upd n (\<lambda>x. x\<lparr>iterPrev := iterPrev (heap m e)\<rparr>) m
                     | None \<Rightarrow> m\<lparr>iterLast := iterPrev (heap m e)\<rparr>);
                m = (case hPrev of
                       None \<Rightarrow> m\<lparr>hashTable := (hashTable m)(h := hNext (heap m e))\<rparr>
                     | Some p \<Rightarrow> upd p (\<lambda>x. x\<lparr>hNext := hNext (heap m e)\<rparr>) m)
            in (m\<lparr>om_size := om_size m - 1\<rparr>, True)))"

definition om_has :: "'k keyops \<Rightarrow> ('k, 'v) orderedMap \<Rightarrow> 'k \<Rightarrow> bool" where
  "om_has K m key = (case om_lookup K m key of (_, entry, _) \<Rightarrow> entry \<noteq> None)"

definition newOrderedMap :: "('k, 'v) orderedMap" where
  "newOrderedMap = \<lparr>heap = (\<lambda>_. \<lparr>e_key = None, e_value = None, iterPrev = None, iterNext = None,
       hNext = None\<rparr>), fresh = 0, hashTable = (\<lambda>_. None), iterFirst = None, iterLast = None, om_size = 0\<rparr>"

fun clear_loop :: "nat \<Rightarrow> nat option \<Rightarrow> ('k, 'v) orderedMap \<Rightarrow> ('k, 'v) orderedMap" where
  "clear_loop 0 _ m = m"
| "clear_loop (Suc n) None m = m"
| "clear_loop (Suc n) (Some item) m =
     (let m = upd item (\<lambda>x. x\<lparr>e_key := None, e_value := None\<rparr>) m;
          m = (case iterPrev (heap m item) of
                 Some p \<Rightarrow> upd p (\<lambda>x. x\<lparr>iterNext := None\<rparr>) m | None \<Rightarrow> m)
      in clear_loop n (iterNext (heap m item)) m)"

definition om_clear :: "('k, 'v) orderedMap \<Rightarrow> ('k, 'v) orderedMap" where
  "om_clear m =
     (clear_loop (Suc (fresh m)) (iterFirst m) m)
       \<lparr>iterFirst := None, iterLast := None, hashTable := (\<lambda>_. None), om_size := 0\<rparr>"

text \<open>An iterator: \<open>None\<close> once closed, else the entry returned last (none at first).\<close>

type_synonym orderedMapIter = "nat option option"

definition newIter :: orderedMapIter where
  "newIter = Some None"

text \<open>From a removed entry back to the latest that was not.\<close>

fun track_back :: "('k, 'v) orderedMap \<Rightarrow> nat \<Rightarrow> nat option \<Rightarrow> nat option" where
  "track_back m 0 cur = cur"
| "track_back m (Suc n) None = None"
| "track_back m (Suc n) (Some c) =
     (if e_key (heap m c) = None then track_back m n (iterPrev (heap m c)) else Some c)"

definition iter_next :: "('k, 'v) orderedMap \<Rightarrow> orderedMapIter \<Rightarrow> orderedMapIter \<times> nat option" where
  "iter_next m it =
     (case it of
        None \<Rightarrow> (None, None)
      | Some cur \<Rightarrow>
          let cur = (case track_back m (Suc (fresh m)) cur of
                       Some c \<Rightarrow> iterNext (heap m c)
                     | None \<Rightarrow> iterFirst m)
          in (if cur = None then None else Some cur, cur))"

section \<open>Linked lists\<close>

fun linked :: "(nat \<Rightarrow> nat option) \<Rightarrow> nat option \<Rightarrow> nat list \<Rightarrow> bool" where
  "linked nx p [] = (p = None)"
| "linked nx p (x # xs) = (p = Some x \<and> linked nx (nx x) xs)"

lemma linked_cong: "(\<And>x. x \<in> set xs \<Longrightarrow> nx x = nx' x) \<Longrightarrow> linked nx p xs = linked nx' p xs"
  by (induction xs arbitrary: p) auto

lemma linked_transfer:
  "linked nx p xs \<Longrightarrow> (\<And>x. x \<in> set xs \<Longrightarrow> nx' x = nx x) \<Longrightarrow> linked nx' p xs"
  using linked_cong [of xs nx nx' p] by simp

lemma linked_first: "linked nx p xs \<Longrightarrow> p = (if xs = [] then None else Some (hd xs))"
  by (cases xs) auto

lemma linked_unique: "linked nx p xs \<Longrightarrow> linked nx p ys \<Longrightarrow> xs = ys"
proof (induction xs arbitrary: p ys)
  case Nil
  then show ?case by (cases ys) auto
next
  case (Cons x xs)
  then show ?case by (cases ys) auto
qed

text \<open>Appending a fresh address, and removing an address from the middle.\<close>

lemma linked_snoc:
  assumes "linked nx p xs" "distinct xs" "a \<notin> set xs" "nx' a = None"
    "\<And>x. x \<in> set xs \<Longrightarrow> x \<noteq> last xs \<Longrightarrow> nx' x = nx x" "xs \<noteq> [] \<Longrightarrow> nx' (last xs) = Some a"
  shows "linked nx' (if xs = [] then Some a else p) (xs @ [a])"
  using assms
proof (induction xs arbitrary: p)
  case (Cons x xs)
  show ?case
  proof (cases "xs = []")
    case False
    then have "x \<noteq> last xs" using Cons.prems(2) by (auto dest: last_in_set)
    moreover have "linked nx' (if xs = [] then Some a else nx x) (xs @ [a])"
      using Cons.prems False by (intro Cons.IH) auto
    ultimately show ?thesis using Cons.prems False by auto
  qed (use Cons.prems in auto)
qed simp

lemma linked_nth:
  "linked nx p (xs @ x # ys) \<Longrightarrow> nx x = (if ys = [] then None else Some (hd ys))"
  by (induction xs arbitrary: p) (auto dest: linked_first)

lemma linked_remove:
  assumes "linked nx p (xs @ x # ys)" "distinct (xs @ x # ys)"
    "\<And>z. z \<in> set (xs @ ys) \<Longrightarrow> (xs = [] \<or> z \<noteq> last xs) \<Longrightarrow> nx' z = nx z"
    "xs \<noteq> [] \<Longrightarrow> nx' (last xs) = nx x"
  shows "linked nx' (if xs = [] then nx x else p) (xs @ ys)"
  using assms
proof (induction xs arbitrary: p)
  case Nil
  then have "linked nx (nx x) ys" by simp
  moreover have "\<And>z. z \<in> set ys \<Longrightarrow> nx z = nx' z" using Nil.prems(3) by simp
  ultimately show ?case using linked_cong [of ys nx nx' "nx x"] by simp
next
  case (Cons a xs)
  show ?case
  proof (cases "xs = []")
    case True
    then have "linked nx (nx x) ys" "nx' a = nx x" using Cons.prems by simp_all
    moreover have "\<And>z. z \<in> set ys \<Longrightarrow> nx z = nx' z" using Cons.prems(2,3) True by fastforce
    ultimately show ?thesis
      using True Cons.prems(1) linked_cong [of ys nx nx' "nx x"] by simp
  next
    case False
    then have "a \<noteq> last xs" using Cons.prems(2) by (auto dest: last_in_set)
    moreover have "linked nx' (if xs = [] then nx x else nx a) (xs @ ys)"
      using Cons.prems False by (intro Cons.IH) auto
    ultimately show ?thesis using Cons.prems False by auto
  qed
qed

lemma linked_update_other: "a \<notin> set xs \<Longrightarrow> linked (nx(a := y)) p xs = linked nx p xs"
  by (intro linked_cong) auto

section \<open>The invariant\<close>

text \<open>
  \<open>es\<close> are the addresses of the entries present, in insertion order, which is the order of
  their addresses; \<open>ch h\<close> are those of hash \<open>h\<close>. From a removed entry, \<open>iterPrev\<close>
  leads to an older one with no present entry in between (\<open>dead_ok\<close>).
\<close>

definition the_key :: "('k, 'v) orderedMap \<Rightarrow> nat \<Rightarrow> 'k" where
  "the_key m a = the (e_key (heap m a))"

definition list_ok :: "('k, 'v) orderedMap \<Rightarrow> nat list \<Rightarrow> bool" where
  "list_ok m es \<longleftrightarrow> sorted_wrt (<) es \<and> (\<forall>a \<in> set es. a < fresh m)
     \<and> linked (\<lambda>a. iterNext (heap m a)) (iterFirst m) es
     \<and> linked (\<lambda>a. iterPrev (heap m a)) (iterLast m) (rev es) \<and> om_size m = length es"

definition back_ok :: "nat option \<Rightarrow> nat \<Rightarrow> nat list \<Rightarrow> bool" where
  "back_ok p a es \<longleftrightarrow>
     (case p of
        None \<Rightarrow> \<forall>c \<in> set es. \<not> c < a
      | Some b \<Rightarrow> b < a \<and> (\<forall>c \<in> set es. \<not> (b < c \<and> c < a)))"

lemma back_ok_snoc [simp]: "a < b \<Longrightarrow> back_ok p a (es @ [b]) = back_ok p a es"
  by (auto simp: back_ok_def split: option.splits)

lemma back_ok_subset: "back_ok p a es \<Longrightarrow> set es' \<subseteq> set es \<Longrightarrow> back_ok p a es'"
  by (auto simp: back_ok_def split: option.splits)

definition dead_ok :: "('k, 'v) orderedMap \<Rightarrow> nat list \<Rightarrow> bool" where
  "dead_ok m es \<longleftrightarrow> (\<forall>a < fresh m. (e_key (heap m a) = None) = (a \<notin> set es))
     \<and> (\<forall>a < fresh m. a \<notin> set es \<longrightarrow> back_ok (iterPrev (heap m a)) a es)"

definition keys_ok :: "'k keyops \<Rightarrow> ('k \<Rightarrow> bool) \<Rightarrow> ('k, 'v) orderedMap \<Rightarrow> nat list \<Rightarrow> bool" where
  "keys_ok K ok m es \<longleftrightarrow>
     (\<forall>a \<in> set es. ok (the_key m a) \<and> e_value (heap m a) \<noteq> None)
     \<and> (\<forall>a \<in> set es. \<forall>b \<in> set es. k_same K (the_key m a) (the_key m b) \<longrightarrow> a = b)"

definition chains_ok :: "'k keyops \<Rightarrow> ('k, 'v) orderedMap \<Rightarrow> nat list \<Rightarrow> (nat \<Rightarrow> nat list) \<Rightarrow> bool" where
  "chains_ok K m es ch \<longleftrightarrow>
     (\<forall>h. linked (\<lambda>a. hNext (heap m a)) (hashTable m h) (ch h) \<and> distinct (ch h)
        \<and> set (ch h) = {a \<in> set es. k_hash K (the_key m a) = h})"

definition om_inv :: "'k keyops \<Rightarrow> ('k \<Rightarrow> bool) \<Rightarrow> ('k, 'v) orderedMap \<Rightarrow> nat list \<Rightarrow> (nat \<Rightarrow> nat list) \<Rightarrow> bool" where
  "om_inv K ok m es ch \<longleftrightarrow> list_ok m es \<and> dead_ok m es \<and> keys_ok K ok m es \<and> chains_ok K m es ch"

lemmas om_inv_defs = om_inv_def list_ok_def dead_ok_def keys_ok_def chains_ok_def

text \<open>The abstract view: the entries as an association list.\<close>

definition entries :: "('k, 'v) orderedMap \<Rightarrow> nat list \<Rightarrow> ('k \<times> 'v) list" where
  "entries m es = List.map (\<lambda>a. (the_key m a, the (e_value (heap m a)))) es"

text \<open>The reference operations on association lists, keys compared by \<open>k_same\<close>.\<close>

definition al_get :: "'k keyops \<Rightarrow> ('k \<times> 'v) list \<Rightarrow> 'k \<Rightarrow> 'v option" where
  "al_get K xs k = map_option snd (find (\<lambda>p. k_same K (fst p) k) xs)"

definition al_set :: "'k keyops \<Rightarrow> ('k \<times> 'v) list \<Rightarrow> 'k \<Rightarrow> 'v \<Rightarrow> ('k \<times> 'v) list" where
  "al_set K xs k v =
     (if \<exists>p \<in> set xs. k_same K (fst p) k
      then List.map (\<lambda>p. if k_same K (fst p) k then (fst p, v) else p) xs else xs @ [(k, v)])"

definition al_remove :: "'k keyops \<Rightarrow> ('k \<times> 'v) list \<Rightarrow> 'k \<Rightarrow> ('k \<times> 'v) list" where
  "al_remove K xs k = filter (\<lambda>p. \<not> k_same K (fst p) k) xs"

lemma sorted_wrt_less_distinct: "sorted_wrt (<) (xs :: nat list) \<Longrightarrow> distinct xs"
  by (induction xs) auto

lemma om_inv_distinct: "om_inv K ok m es ch \<Longrightarrow> distinct es"
  by (auto simp: om_inv_def list_ok_def intro: sorted_wrt_less_distinct)

lemma om_inv_length: "om_inv K ok m es ch \<Longrightarrow> length es \<le> fresh m"
proof -
  assume a: "om_inv K ok m es ch"
  then have "set es \<subseteq> {..<fresh m}" by (auto simp: om_inv_def list_ok_def)
  then have "card (set es) \<le> fresh m" by (metis card_lessThan card_mono finite_lessThan)
  then show ?thesis using om_inv_distinct [OF a] by (simp add: distinct_card)
qed

section \<open>Lookup\<close>

lemma find_chain_spec:
  assumes "linked (\<lambda>a. hNext (heap m a)) e xs" "length xs < n"
    and "\<forall>a \<in> set xs. e_key (heap m a) \<noteq> None"
  shows "(\<exists>as a bs. xs = as @ a # bs \<and> k_same K (the_key m a) key
        \<and> (\<forall>b \<in> set as. \<not> k_same K (the_key m b) key)
        \<and> find_chain K m key n e p = (Some a, if as = [] then p else Some (last as)))
    \<or> (\<forall>a \<in> set xs. \<not> k_same K (the_key m a) key)
        \<and> find_chain K m key n e p = (None, if xs = [] then p else Some (last xs))"
  using assms
proof (induction xs arbitrary: e p n)
  case Nil
  then show ?case by (cases n) auto
next
  case (Cons x xs)
  then obtain n' where n: "n = Suc n'" by (cases n) auto
  have e: "e = Some x" and l: "linked (\<lambda>a. hNext (heap m a)) (hNext (heap m x)) xs"
    using Cons.prems(1) by auto
  obtain k where k: "e_key (heap m x) = Some k" "the_key m x = k"
    using Cons.prems(3) by (auto simp: the_key_def)
  show ?case
  proof (cases "k_same K k key")
    case True
    then show ?thesis using n e k by (intro disjI1 exI [of _ "[]"] exI [of _ x] exI [of _ xs]) simp
  next
    case False
    have step: "find_chain K m key n e p = find_chain K m key n' (hNext (heap m x)) (Some x)"
      using n e k False by simp
    have "length xs < n'" "\<forall>a \<in> set xs. e_key (heap m a) \<noteq> None"
      using Cons.prems n by auto
    from Cons.IH [OF l this, of "Some x"] show ?thesis
    proof (elim disjE exE conjE)
      fix as a bs
      assume "xs = as @ a # bs" "k_same K (the_key m a) key" "\<forall>b\<in>set as. \<not> k_same K (the_key m b) key"
        "find_chain K m key n' (hNext (heap m x)) (Some x) = (Some a, if as = [] then Some x else Some (last as))"
      then show ?thesis
        using step False k by (intro disjI1 exI [of _ "x # as"] exI [of _ a] exI [of _ bs]) auto
    next
      assume "\<forall>a\<in>set xs. \<not> k_same K (the_key m a) key"
        "find_chain K m key n' (hNext (heap m x)) (Some x) = (None, if xs = [] then Some x else Some (last xs))"
      then show ?thesis using step False k by (intro disjI2) auto
    qed
  qed
qed

text \<open>The laws of the key operations a table relies on.\<close>

locale map_keys =
  fixes K :: "'k keyops" and ok :: "'k \<Rightarrow> bool"
  assumes norm_ok: "ok k \<Longrightarrow> ok (k_norm K k)"
    and same_refl: "ok k \<Longrightarrow> k_same K k k"
    and same_sym: "ok k \<Longrightarrow> ok k' \<Longrightarrow> k_same K k k' \<Longrightarrow> k_same K k' k"
    and same_trans: "ok k \<Longrightarrow> ok k' \<Longrightarrow> ok k'' \<Longrightarrow> k_same K k k' \<Longrightarrow> k_same K k' k'' \<Longrightarrow> k_same K k k''"
    and same_hash: "ok k \<Longrightarrow> ok k' \<Longrightarrow> k_same K k k' \<Longrightarrow> k_hash K k = k_hash K k'"

context map_keys
begin

lemma lookup_cases:
  assumes inv: "om_inv K ok m es ch" and "ok key"
  defines "k \<equiv> k_norm K key" and "h \<equiv> k_hash K (k_norm K key)"
  shows "(\<exists>a as bs. a \<in> set es \<and> k_same K (the_key m a) k \<and> ch h = as @ a # bs
        \<and> om_lookup K m key = (h, Some a, if as = [] then None else Some (last as)))
    \<or> ((\<forall>a \<in> set es. \<not> k_same K (the_key m a) k)
        \<and> om_lookup K m key = (h, None, if ch h = [] then None else Some (last (ch h))))"
proof -
  have k: "ok k" unfolding k_def using assms(2) by (rule norm_ok)
  have ch: "linked (\<lambda>a. hNext (heap m a)) (hashTable m h) (ch h)" "distinct (ch h)"
    "set (ch h) = {a \<in> set es. k_hash K (the_key m a) = h}"
    using inv by (auto simp: om_inv_def chains_ok_def)
  have "length (ch h) \<le> length es"
    using ch(2,3) om_inv_distinct [OF inv]
    by (metis (no_types, lifting) card_mono distinct_card mem_Collect_eq List.finite_set subsetI)
  then have len: "length (ch h) < Suc (fresh m)" using om_inv_length [OF inv] by simp
  have keys: "\<forall>a \<in> set (ch h). e_key (heap m a) \<noteq> None"
    using ch(3) inv by (auto simp: om_inv_def dead_ok_def list_ok_def)
  have in_chain: "a \<in> set (ch h)" if "a \<in> set es" "k_same K (the_key m a) k" for a
    using that same_hash [of "the_key m a" k] k inv unfolding ch(3)
    by (auto simp: om_inv_def keys_ok_def h_def k_def)
  have lk: "om_lookup K m key = (h, find_chain K m k (Suc (fresh m)) (hashTable m h) None)"
    by (simp only: om_lookup_def Let_def k_def h_def)
  from find_chain_spec [OF ch(1) len keys, of K k None] show ?thesis
  proof (elim disjE exE conjE)
    fix as a bs
    assume a: "ch h = as @ a # bs" "k_same K (the_key m a) k"
      "find_chain K m k (Suc (fresh m)) (hashTable m h) None
        = (Some a, if as = [] then None else Some (last as))"
    then have "a \<in> set es" using ch(3) by auto
    with a lk show ?thesis by (intro disjI1 exI conjI) simp_all
  next
    assume a: "\<forall>a \<in> set (ch h). \<not> k_same K (the_key m a) k"
      "find_chain K m k (Suc (fresh m)) (hashTable m h) None
        = (None, if ch h = [] then None else Some (last (ch h)))"
    then have "\<forall>a \<in> set es. \<not> k_same K (the_key m a) k" using in_chain by blast
    with a lk show ?thesis by (intro disjI2 conjI) simp_all
  qed
qed

text \<open>At most one entry has the key looked up.\<close>

lemma same_unique:
  assumes "om_inv K ok m es ch" "ok k" "a \<in> set es" "b \<in> set es"
    "k_same K (the_key m a) k" "k_same K (the_key m b) k"
  shows "a = b"
proof -
  have "ok (the_key m a)" "ok (the_key m b)" using assms by (auto simp: om_inv_def keys_ok_def)
  then have "k_same K (the_key m a) (the_key m b)"
    using assms(2,5,6) same_sym same_trans by blast
  then show ?thesis using assms by (auto simp: om_inv_def keys_ok_def)
qed

lemma find_entries:
  assumes "om_inv K ok m es ch" "ok k" "a \<in> set es" "k_same K (the_key m a) k"
  shows "find (\<lambda>p. k_same K (fst p) k) (entries m es) = Some (the_key m a, the (e_value (heap m a)))"
proof -
  have "find (\<lambda>p. k_same K (fst p) k) (List.map (\<lambda>a. (the_key m a, the (e_value (heap m a)))) xs)
      = Some (the_key m a, the (e_value (heap m a)))" if "a \<in> set xs" "set xs \<subseteq> set es" for xs
    using that same_unique [OF assms(1,2) _ assms(3) _ assms(4)] assms(4)
    by (induction xs) auto
  then show ?thesis using assms(3) by (simp add: entries_def)
qed

lemma find_entries_None:
  "\<forall>a \<in> set es. \<not> k_same K (the_key m a) k \<Longrightarrow> find (\<lambda>p. k_same K (fst p) k) (entries m es) = None"
  by (auto simp: entries_def find_None_iff)

lemma get_correct:
  assumes inv: "om_inv K ok m es ch" and "ok key"
  shows "om_get K m key = al_get K (entries m es) (k_norm K key)
    \<and> om_has K m key = (al_get K (entries m es) (k_norm K key) \<noteq> None)"
  using lookup_cases [OF assms]
proof (elim disjE exE conjE)
  fix a as bs
  assume a: "a \<in> set es" "k_same K (the_key m a) (k_norm K key)"
    "om_lookup K m key = (k_hash K (k_norm K key), Some a, if as = [] then None else Some (last as))"
  have "e_value (heap m a) \<noteq> None" using inv a(1) by (auto simp: om_inv_def keys_ok_def)
  then show ?thesis
    using a find_entries [OF inv norm_ok [OF assms(2)] a(1,2)]
    by (auto simp: om_get_def om_has_def al_get_def)
next
  assume a: "\<forall>a \<in> set es. \<not> k_same K (the_key m a) (k_norm K key)"
    "om_lookup K m key = (k_hash K (k_norm K key), None,
       if ch (k_hash K (k_norm K key)) = [] then None else Some (last (ch (k_hash K (k_norm K key)))))"
  then show ?thesis using find_entries_None [OF a(1)] by (simp add: om_get_def om_has_def al_get_def)
qed

end

section \<open>Insertion\<close>

lemma upd_simps [simp]:
  "heap (upd a f m) = (heap m)(a := f (heap m a))" "fresh (upd a f m) = fresh m"
  "hashTable (upd a f m) = hashTable m" "iterFirst (upd a f m) = iterFirst m"
  "iterLast (upd a f m) = iterLast m" "om_size (upd a f m) = om_size m"
  by (simp_all add: upd_def)

lemma set_existing:
  "om_lookup K m key = (h, Some a, q) \<Longrightarrow>
   om_set K m key v = upd a (\<lambda>x. x\<lparr>e_value := Some v\<rparr>) m"
  by (simp add: om_set_def)

text \<open>What the insertion of a new entry writes.\<close>

lemma set_new:
  fixes v :: 'v
  assumes lk: "om_lookup K m key = (h, None, q)" and "iterLast m \<noteq> Some (fresh m)" "q \<noteq> Some (fresh m)"
  defines "a \<equiv> fresh m" and "m' \<equiv> om_set K m key v"
  shows "fresh m' = Suc a" "om_size m' = om_size m + 1" "iterLast m' = Some a"
    "iterFirst m' = (if iterLast m = None then Some a else iterFirst m)"
    "hashTable m' = (if q = None then (hashTable m)(h := Some a) else hashTable m)"
    "e_key (heap m' x) = (if x = a then Some (k_norm K key) else e_key (heap m x))"
    "e_value (heap m' x) = (if x = a then Some v else e_value (heap m x))"
    "iterPrev (heap m' x) = (if x = a then iterLast m else iterPrev (heap m x))"
    "iterNext (heap m' x) = (if x = a then None else if iterLast m = Some x then Some a else iterNext (heap m x))"
    "hNext (heap m' x) = (if x = a then None else if q = Some x then Some a else hNext (heap m x))"
  using assms(2,3) unfolding m'_def a_def
  by (cases q; cases "iterLast m"; auto simp: om_set_def lk Let_def)+

lemma sorted_wrt_snoc: "sorted_wrt (<) (xs @ [a :: nat]) \<longleftrightarrow> sorted_wrt (<) xs \<and> (\<forall>x \<in> set xs. x < a)"
  by (auto simp: sorted_wrt_append)

context map_keys
begin

lemma set_existing_inv:
  assumes inv: "om_inv K ok m es ch"
  shows "om_inv K ok (upd a (\<lambda>x. x\<lparr>e_value := Some v\<rparr>) m) es ch"
proof -
  define m' where "m' = upd a (\<lambda>x. x\<lparr>e_value := Some v\<rparr>) m"
  have f: "e_key (heap m' x) = e_key (heap m x)" "iterPrev (heap m' x) = iterPrev (heap m x)"
    "iterNext (heap m' x) = iterNext (heap m x)" "hNext (heap m' x) = hNext (heap m x)"
    "the_key m' x = the_key m x" "e_value (heap m x) \<noteq> None \<Longrightarrow> e_value (heap m' x) \<noteq> None"
    "fresh m' = fresh m" "hashTable m' = hashTable m" "iterFirst m' = iterFirst m"
    "iterLast m' = iterLast m" "om_size m' = om_size m" for x
    by (simp_all add: m'_def the_key_def)
  show ?thesis
    using inv f(6) unfolding m'_def [symmetric] om_inv_defs f by blast
qed

lemma set_existing_entries:
  assumes inv: "om_inv K ok m es ch" and "ok k" "a \<in> set es" "k_same K (the_key m a) k"
  shows "entries (upd a (\<lambda>x. x\<lparr>e_value := Some v\<rparr>) m) es = al_set K (entries m es) k v"
proof -
  have "k_same K (the_key m b) k \<longleftrightarrow> b = a" if "b \<in> set es" for b
    using same_unique [OF inv assms(2) that assms(3) _ assms(4)] assms(4) by blast
  moreover have "\<exists>p \<in> set (entries m es). k_same K (fst p) k"
    using assms(3,4) by (auto simp: entries_def)
  ultimately show ?thesis
    by (auto simp: al_set_def entries_def the_key_def)
qed

lemma set_new_inv:
  assumes inv: "om_inv K ok m es ch" and "ok key"
    and none: "\<forall>a \<in> set es. \<not> k_same K (the_key m a) (k_norm K key)"
    and lk: "om_lookup K m key = (h, None, if ch h = [] then None else Some (last (ch h)))"
    and h: "h = k_hash K (k_norm K key)"
  shows "om_inv K ok (om_set K m key v) (es @ [fresh m]) (ch(h := ch h @ [fresh m]))"
    and "entries (om_set K m key v) (es @ [fresh m]) = entries m es @ [(k_norm K key, v)]"
proof -
  define a where "a = fresh m"
  define q where "q = (if ch h = [] then None else Some (last (ch h)))"
  define m' where "m' = om_set K m key v"
  have k: "ok (k_norm K key)" using assms(2) by (rule norm_ok)
  have lo: "sorted_wrt (<) es" "\<forall>x \<in> set es. x < a" "distinct es"
    "linked (\<lambda>a. iterNext (heap m a)) (iterFirst m) es"
    "linked (\<lambda>a. iterPrev (heap m a)) (iterLast m) (rev es)" "om_size m = length es"
    using inv om_inv_distinct [OF inv] by (auto simp: om_inv_def list_ok_def a_def)
  have ch: "linked (\<lambda>a. hNext (heap m a)) (hashTable m g) (ch g)" "distinct (ch g)"
    "set (ch g) = {b \<in> set es. k_hash K (the_key m b) = g}" for g
    using inv by (auto simp: om_inv_def chains_ok_def)
  have last: "iterLast m = (if es = [] then None else Some (last es))"
    using linked_first [OF lo(5)] by (simp add: hd_rev)
  have fr: "a \<notin> set es" "a \<notin> set (ch g)" for g using lo(2) ch(3) [of g] by auto
  have lc: "last (ch h) \<noteq> a" if "ch h \<noteq> []" using last_in_set [OF that] fr(2) [of h] by metis
  then have "q \<noteq> Some (fresh m)" by (simp add: a_def q_def)
  moreover have "last es \<noteq> a" if "es \<noteq> []" using last_in_set [OF that] fr(1) by metis
  then have "iterLast m \<noteq> Some (fresh m)" by (simp add: a_def last)
  ultimately have "iterLast m \<noteq> Some (fresh m)" "q \<noteq> Some (fresh m)" by blast+
  note w = set_new [OF lk [folded q_def] this, where v = v, folded a_def m'_def]
  have key: "the_key m' x = (if x = a then k_norm K key else the_key m x)" for x
    by (simp add: the_key_def w(6))
  have "list_ok m' (es @ [a])"
  proof -
    have "linked (\<lambda>x. iterNext (heap m' x)) (if es = [] then Some a else iterFirst m) (es @ [a])"
      using lo fr(1) last by (intro linked_snoc [where nx = "\<lambda>a. iterNext (heap m a)"]) (auto simp: w(9))
    moreover have "linked (\<lambda>x. iterPrev (heap m' x)) (iterLast m) (rev es)"
      using lo(5) by (rule linked_transfer) (use fr(1) in \<open>auto simp: w(8)\<close>)
    ultimately show ?thesis
      using lo last by (auto simp: list_ok_def w(1-4,8) sorted_wrt_snoc)
  qed
  moreover have "dead_ok m' (es @ [a])"
  proof -
    have d: "(e_key (heap m b) = None) = (b \<notin> set es)" "b \<notin> set es \<Longrightarrow> back_ok (iterPrev (heap m b)) b es" if "b < a" for b
      using that inv by (auto simp: om_inv_def dead_ok_def a_def)
    show ?thesis
      using d unfolding dead_ok_def w(1)
      by (auto simp: w(6,8) less_Suc_eq)
  qed
  moreover have "keys_ok K ok m' (es @ [a])"
  proof -
    have o: "ok (the_key m b)" "e_value (heap m b) \<noteq> None" if "b \<in> set es" for b
      using that inv by (auto simp: om_inv_def keys_ok_def)
    have u: "b = c" if "b \<in> set es" "c \<in> set es" "k_same K (the_key m b) (the_key m c)" for b c
      using that inv by (auto simp: om_inv_def keys_ok_def)
    have n: "\<not> k_same K (the_key m b) (k_norm K key)" "\<not> k_same K (k_norm K key) (the_key m b)"
      if "b \<in> set es" for b
      using that none same_sym [OF k o(1) [OF that]] by blast+
    show ?thesis
      unfolding keys_ok_def key
    proof (intro conjI ballI impI)
      fix b assume "b \<in> set (es @ [a])"
      then show "ok (if b = a then k_norm K key else the_key m b)" "e_value (heap m' b) \<noteq> None"
        using o k by (auto simp: w(7))
    next
      fix b c
      assume "b \<in> set (es @ [a])" "c \<in> set (es @ [a])"
        "k_same K (if b = a then k_norm K key else the_key m b) (if c = a then k_norm K key else the_key m c)"
      then show "b = c" using u n fr(1) by (cases "b = a"; cases "c = a") auto
    qed
  qed
  moreover have "chains_ok K m' (es @ [a]) (ch(h := ch h @ [a]))"
    unfolding chains_ok_def
  proof (intro allI conjI)
    fix g
    show "distinct ((ch(h := ch h @ [a])) g)" using ch(2) fr(2) by simp
    show "set ((ch(h := ch h @ [a])) g) = {b \<in> set (es @ [a]). k_hash K (the_key m' b) = g}"
      using ch(3) [of g] fr(1) by (auto simp: key h)
    show "linked (\<lambda>x. hNext (heap m' x)) (hashTable m' g) ((ch(h := ch h @ [a])) g)"
    proof (cases "g = h")
      case True
      have "linked (\<lambda>x. hNext (heap m' x)) (if ch h = [] then Some a else hashTable m h) (ch h @ [a])"
        using ch(1,2) [of h] fr(2) lc by (intro linked_snoc [where nx = "\<lambda>a. hNext (heap m a)"]) (auto simp: w(10) q_def)
      then show ?thesis using True by (cases "ch h = []") (simp_all add: w(5) q_def)
    next
      case False
      have "x \<noteq> a \<and> q \<noteq> Some x" if "x \<in> set (ch g)" for x
        using that ch(3) [of g] ch(3) [of h] fr(2) [of g] False last_in_set [of "ch h"]
        by (auto simp: q_def split: if_splits)
      then have "linked (\<lambda>x. hNext (heap m' x)) (hashTable m g) (ch g)"
        by (intro linked_transfer [OF ch(1)]) (simp add: w(10))
      then show ?thesis using False by (simp add: w(5))
    qed
  qed
  ultimately show "om_inv K ok (om_set K m key v) (es @ [fresh m]) (ch(h := ch h @ [fresh m]))"
    by (simp add: om_inv_def m'_def a_def)
  show "entries (om_set K m key v) (es @ [fresh m]) = entries m es @ [(k_norm K key, v)]"
    using fr(1) unfolding m'_def [symmetric] a_def [symmetric]
    by (auto simp: entries_def key w(7))
qed

lemma set_correct:
  assumes inv: "om_inv K ok m es ch" and "ok key"
  shows "\<exists>es' ch'. om_inv K ok (om_set K m key v) es' ch'
    \<and> entries (om_set K m key v) es' = al_set K (entries m es) (k_norm K key) v"
  using lookup_cases [OF assms]
proof (elim disjE exE conjE)
  fix a as bs
  assume a: "a \<in> set es" "k_same K (the_key m a) (k_norm K key)"
    "om_lookup K m key = (k_hash K (k_norm K key), Some a, if as = [] then None else Some (last as))"
  show ?thesis
    unfolding set_existing [OF a(3)]
    using set_existing_inv [OF inv] set_existing_entries [OF inv norm_ok [OF assms(2)] a(1,2)] by blast
next
  assume a: "\<forall>a \<in> set es. \<not> k_same K (the_key m a) (k_norm K key)"
    "om_lookup K m key = (k_hash K (k_norm K key), None,
       if ch (k_hash K (k_norm K key)) = [] then None else Some (last (ch (k_hash K (k_norm K key)))))"
  have "al_set K (entries m es) (k_norm K key) v = entries m es @ [(k_norm K key, v)]"
    using a(1) by (auto simp: al_set_def entries_def)
  with set_new_inv [OF inv assms(2) a refl, of v] show ?thesis by auto
qed

end

section \<open>Removal\<close>

lemma remove_found:
  assumes lk: "om_lookup K m key = (h, Some e, q)"
    and "iterPrev (heap m e) \<noteq> Some e" "iterNext (heap m e) \<noteq> Some e" "q \<noteq> Some e"
  defines "m' \<equiv> fst (om_remove K m key)"
  shows "om_remove K m key = (m', True)"
    "fresh m' = fresh m" "om_size m' = om_size m - 1"
    "iterFirst m' = (if iterPrev (heap m e) = None then iterNext (heap m e) else iterFirst m)"
    "iterLast m' = (if iterNext (heap m e) = None then iterPrev (heap m e) else iterLast m)"
    "hashTable m' = (if q = None then (hashTable m)(h := hNext (heap m e)) else hashTable m)"
    "e_key (heap m' x) = (if x = e then None else e_key (heap m x))"
    "e_value (heap m' x) = (if x = e then None else e_value (heap m x))"
    "iterNext (heap m' x) = (if iterPrev (heap m e) = Some x then iterNext (heap m e) else iterNext (heap m x))"
    "iterPrev (heap m' x) = (if iterNext (heap m e) = Some x then iterPrev (heap m e) else iterPrev (heap m x))"
    "hNext (heap m' x) = (if q = Some x then hNext (heap m e) else hNext (heap m x))"
  using assms(2-4) unfolding m'_def
  by (cases q; cases "iterPrev (heap m e)"; cases "iterNext (heap m e)";
      auto simp: om_remove_def lk Let_def)+

lemma rev_linked_prev:
  "linked pv p (rev (xs @ x # ys)) \<Longrightarrow> pv x = (if xs = [] then None else Some (last xs))"
  using linked_nth [of pv p "rev ys" x "rev xs"] by (simp add: hd_rev)

context map_keys
begin

lemma remove_inv:
  assumes inv: "om_inv K ok m es ch" and e: "e \<in> set es"
    and lk: "om_lookup K m key = (h, Some e, if ca = [] then None else Some (last ca))"
    and chh: "ch h = ca @ e # cb"
  shows "om_inv K ok (fst (om_remove K m key)) (filter (\<lambda>x. x \<noteq> e) es) (ch(h := ca @ cb))"
    and "entries (fst (om_remove K m key)) (filter (\<lambda>x. x \<noteq> e) es)
      = List.map (\<lambda>a. (the_key m a, the (e_value (heap m a)))) (filter (\<lambda>x. x \<noteq> e) es)"
    and "snd (om_remove K m key)"
proof -
  define q where "q = (if ca = [] then None else Some (last ca))"
  define m' where "m' = fst (om_remove K m key)"
  obtain as bs where es: "es = as @ e # bs" using e by (auto simp: in_set_conv_decomp)
  have lo: "sorted_wrt (<) es" "\<forall>x \<in> set es. x < fresh m" "distinct es"
    "linked (\<lambda>a. iterNext (heap m a)) (iterFirst m) es"
    "linked (\<lambda>a. iterPrev (heap m a)) (iterLast m) (rev es)" "om_size m = length es"
    using inv om_inv_distinct [OF inv] by (auto simp: om_inv_def list_ok_def)
  have ch: "linked (\<lambda>a. hNext (heap m a)) (hashTable m g) (ch g)" "distinct (ch g)"
    "set (ch g) = {b \<in> set es. k_hash K (the_key m b) = g}" for g
    using inv by (auto simp: om_inv_def chains_ok_def)
  have ne: "e \<notin> set as" "e \<notin> set bs" "e \<notin> set ca" "e \<notin> set cb"
    using lo(3) es ch(2) [of h] chh by auto
  have pn: "iterPrev (heap m e) = (if as = [] then None else Some (last as))"
    "iterNext (heap m e) = (if bs = [] then None else Some (hd bs))"
    using rev_linked_prev [OF lo(5) [unfolded es]] linked_nth [OF lo(4) [unfolded es]] by simp_all
  have lst: "as \<noteq> [] \<Longrightarrow> last as \<noteq> e" "bs \<noteq> [] \<Longrightarrow> hd bs \<noteq> e" "ca \<noteq> [] \<Longrightarrow> last ca \<noteq> e"
    using ne by (metis last_in_set hd_in_set)+
  then have "iterPrev (heap m e) \<noteq> Some e" "iterNext (heap m e) \<noteq> Some e" "q \<noteq> Some e"
    by (simp_all add: pn q_def)
  note w = remove_found [OF lk [folded q_def] this, folded m'_def]
  have fil: "filter (\<lambda>x. x \<noteq> e) es = as @ bs"
  proof -
    have "filter (\<lambda>x. x \<noteq> e) xs = xs" if "e \<notin> set xs" for xs
      using that by (intro filter_True) auto
    then show ?thesis using ne by (simp add: es)
  qed
  have key: "the_key m' x = the_key m x" if "x \<noteq> e" for x
    using that by (simp add: the_key_def w(7))
  have dis: "set as \<inter> set bs = {}" using lo(3) es by auto
  have "list_ok m' (as @ bs)"
  proof -
    have "linked (\<lambda>x. iterNext (heap m' x)) (if as = [] then iterNext (heap m e) else iterFirst m) (as @ bs)"
      using lo(4,3) unfolding es
      by (rule linked_remove) (auto simp: w(9) pn(1))
    moreover have "linked (\<lambda>x. iterPrev (heap m' x))
        (if rev bs = [] then iterPrev (heap m e) else iterLast m) (rev bs @ rev as)"
      using lo(3,5) unfolding es
      by (intro linked_remove [where nx = "\<lambda>a. iterPrev (heap m a)"]) (auto simp: w(10) pn(2) last_rev)
    moreover have "sorted_wrt (<) (as @ bs)" using lo(1) unfolding es by (auto simp: sorted_wrt_append)
    ultimately show ?thesis
      using lo(2,6) unfolding list_ok_def w(2-5)
      by (cases "as = []"; cases "bs = []") (simp_all add: es pn)
  qed
  moreover have "dead_ok m' (as @ bs)"
  proof -
    have d: "(e_key (heap m b) = None) = (b \<notin> set es)"
        "b \<notin> set es \<Longrightarrow> back_ok (iterPrev (heap m b)) b es" if "b < fresh m" for b
      using that inv by (auto simp: om_inv_def dead_ok_def)
    have be: "back_ok (iterPrev (heap m e)) e (as @ bs)"
      using lo(1) unfolding es pn(1)
      by (cases as rule: rev_cases) (auto simp: back_ok_def sorted_wrt_append)
    have "back_ok (iterPrev (heap m' b)) b (as @ bs)" if "b < fresh m" "b \<notin> set (as @ bs)" for b
    proof (cases "b = e")
      case True
      then show ?thesis using be lst(2) by (auto simp: w(10) pn(2))
    next
      case False
      then have "b \<notin> set es" using that(2) by (simp add: es)
      then have "back_ok (iterPrev (heap m b)) b (as @ bs)"
        by (intro back_ok_subset [OF d(2) [OF that(1)]]) (auto simp: es)
      moreover have "iterPrev (heap m' b) = iterPrev (heap m b)"
        using that(2) hd_in_set [of bs] by (auto simp: w(10) pn(2))
      ultimately show ?thesis by simp
    qed
    then show ?thesis using d(1) by (auto simp: dead_ok_def w(2,7) es ne)
  qed
  moreover have "keys_ok K ok m' (as @ bs)"
  proof -
    have se: "x \<in> set (as @ bs) \<longleftrightarrow> x \<noteq> e \<and> x \<in> set es" for x using ne by (auto simp: es)
    show ?thesis
      using inv unfolding om_inv_def keys_ok_def se Ball_def by (auto simp: key w(8))
  qed
  moreover have "chains_ok K m' (as @ bs) (ch(h := ca @ cb))"
    unfolding chains_ok_def
  proof (intro allI conjI)
    fix g
    show "distinct ((ch(h := ca @ cb)) g)" using ch(2) [of g] ch(2) [of h] chh by auto
    have se: "set (as @ bs) = set es - {e}" using ne by (auto simp: es)
    have "set ((ch(h := ca @ cb)) g) = set (ch g) - {e}"
      using ch(3) [of g] ch(3) [of h] chh ne by (auto split: if_splits)
    also have "\<dots> = {b \<in> set es. k_hash K (the_key m b) = g} - {e}" by (simp only: ch(3))
    also have "\<dots> = {b \<in> set es - {e}. k_hash K (the_key m' b) = g}" using key by auto
    finally show "set ((ch(h := ca @ cb)) g) = {b \<in> set (as @ bs). k_hash K (the_key m' b) = g}"
      by (simp only: se)
    show "linked (\<lambda>x. hNext (heap m' x)) (hashTable m' g) ((ch(h := ca @ cb)) g)"
    proof (cases "g = h")
      case True
      have "linked (\<lambda>x. hNext (heap m' x)) (if ca = [] then hNext (heap m e) else hashTable m h) (ca @ cb)"
        using ch(1,2) [of h] unfolding chh
        by (rule linked_remove) (auto simp: w(11) q_def)
      then show ?thesis using True by (cases "ca = []") (simp_all add: w(6) q_def)
    next
      case False
      have "q \<noteq> Some x" if "x \<in> set (ch g)" for x
      proof
        assume "q = Some x"
        then have "x \<in> set (ch h)" using chh by (auto simp: q_def split: if_splits)
        then show False using that ch(3) [of g] ch(3) [of h] False by auto
      qed
      then have "linked (\<lambda>x. hNext (heap m' x)) (hashTable m g) (ch g)"
        by (intro linked_transfer [OF ch(1)]) (auto simp: w(11))
      then show ?thesis using False by (simp add: w(6))
    qed
  qed
  ultimately show "om_inv K ok (fst (om_remove K m key)) (filter (\<lambda>x. x \<noteq> e) es) (ch(h := ca @ cb))"
    unfolding fil m'_def [symmetric] om_inv_def by blast
  show "entries (fst (om_remove K m key)) (filter (\<lambda>x. x \<noteq> e) es)
      = List.map (\<lambda>a. (the_key m a, the (e_value (heap m a)))) (filter (\<lambda>x. x \<noteq> e) es)"
    unfolding m'_def [symmetric] by (auto simp: entries_def key w(8))
  show "snd (om_remove K m key)" by (simp add: w(1))
qed

lemma remove_correct:
  assumes inv: "om_inv K ok m es ch" and "ok key"
  shows "\<exists>es' ch'. om_inv K ok (fst (om_remove K m key)) es' ch'
    \<and> entries (fst (om_remove K m key)) es' = al_remove K (entries m es) (k_norm K key)
    \<and> snd (om_remove K m key) = (al_get K (entries m es) (k_norm K key) \<noteq> None)"
  using lookup_cases [OF assms]
proof (elim disjE exE conjE)
  fix a as bs
  assume a: "a \<in> set es" "k_same K (the_key m a) (k_norm K key)"
    "ch (k_hash K (k_norm K key)) = as @ a # bs"
    "om_lookup K m key = (k_hash K (k_norm K key), Some a, if as = [] then None else Some (last as))"
  note k = norm_ok [OF assms(2)]
  have "k_same K (the_key m b) (k_norm K key) \<longleftrightarrow> b = a" if "b \<in> set es" for b
    using same_unique [OF inv k that a(1) _ a(2)] a(2) by blast
  then have "al_remove K (entries m es) (k_norm K key)
      = List.map (\<lambda>a. (the_key m a, the (e_value (heap m a)))) (filter (\<lambda>x. x \<noteq> a) es)"
    by (auto simp: al_remove_def entries_def filter_map o_def cong: filter_cong)
  moreover have "al_get K (entries m es) (k_norm K key) \<noteq> None"
    using find_entries [OF inv k a(1,2)] by (simp add: al_get_def)
  ultimately show ?thesis
    using remove_inv [OF inv a(1,4,3)] by metis
next
  assume a: "\<forall>a \<in> set es. \<not> k_same K (the_key m a) (k_norm K key)"
    "om_lookup K m key = (k_hash K (k_norm K key), None,
       if ch (k_hash K (k_norm K key)) = [] then None else Some (last (ch (k_hash K (k_norm K key)))))"
  have "om_remove K m key = (m, False)" using a(2) by (simp add: om_remove_def)
  moreover have "al_remove K (entries m es) (k_norm K key) = entries m es"
    using a(1) by (auto simp: al_remove_def entries_def filter_id_conv)
  ultimately show ?thesis using inv find_entries_None [OF a(1)] by (auto simp: al_get_def)
qed

end

section \<open>Clearing\<close>

text \<open>
  The loop of \<open>clear\<close> visits the entries in order and cuts each from its predecessor, so
  that it unlinks exactly the entries present.
\<close>

lemma clear_loop_spec:
  assumes "linked (\<lambda>a. iterNext (heap m a)) p xs" "length xs < n" "distinct xs"
    and "\<And>x y. x \<in> set xs \<Longrightarrow> iterPrev (heap m x) = Some y \<Longrightarrow> y \<notin> set xs \<or> y < x"
    and "sorted_wrt (<) xs"
  shows "(\<forall>a. e_key (heap (clear_loop n p m) a) = (if a \<in> set xs then None else e_key (heap m a))
      \<and> iterPrev (heap (clear_loop n p m) a) = iterPrev (heap m a))
    \<and> fresh (clear_loop n p m) = fresh m"
  using assms
proof (induction xs arbitrary: p n m)
  case Nil
  then show ?case by (cases n) auto
next
  case (Cons x xs)
  then obtain n' where n: "n = Suc n'" by (cases n) auto
  have p: "p = Some x" and l: "linked (\<lambda>a. iterNext (heap m a)) (iterNext (heap m x)) xs"
    using Cons.prems(1) by auto
  define m1 where "m1 = upd x (\<lambda>x. x\<lparr>e_key := None, e_value := None\<rparr>) m"
  define m2 where "m2 = (case iterPrev (heap m1 x) of
      Some p \<Rightarrow> upd p (\<lambda>x. x\<lparr>iterNext := None\<rparr>) m1 | None \<Rightarrow> m1)"
  have f: "e_key (heap m2 a) = (if a = x then None else e_key (heap m a))"
    "iterPrev (heap m2 a) = iterPrev (heap m a)" "fresh m2 = fresh m"
    "iterNext (heap m2 a) = (if iterPrev (heap m x) = Some a then None else iterNext (heap m a))" for a
    by (auto simp: m1_def m2_def split: option.splits)
  have pr: "iterPrev (heap m x) \<noteq> Some y" if "y \<in> set (x # xs)" for y
    using that Cons.prems(4) [of x y] Cons.prems(5) by auto
  have "clear_loop n p m = clear_loop n' (iterNext (heap m2 x)) m2"
    by (simp only: n p clear_loop.simps Let_def m1_def m2_def)
  moreover have "iterNext (heap m2 x) = iterNext (heap m x)" using pr [of x] by (simp add: f)
  moreover have "linked (\<lambda>a. iterNext (heap m2 a)) (iterNext (heap m x)) xs"
    using l by (rule linked_transfer) (use pr f(4) in auto)
  then have "(\<forall>a. e_key (heap (clear_loop n' (iterNext (heap m x)) m2) a)
        = (if a \<in> set xs then None else e_key (heap m2 a))
      \<and> iterPrev (heap (clear_loop n' (iterNext (heap m x)) m2) a) = iterPrev (heap m2 a))
    \<and> fresh (clear_loop n' (iterNext (heap m x)) m2) = fresh m2"
    using Cons.prems(2-5) n by (intro Cons.IH) (auto simp: f(2))
  ultimately show ?case using Cons.prems(3) by (auto simp: f)
qed

context map_keys
begin

lemma clear_correct:
  assumes inv: "om_inv K ok m es ch"
  shows "om_inv K ok (om_clear m) [] (\<lambda>_. []) \<and> entries (om_clear m) [] = []"
proof -
  have lo: "sorted_wrt (<) es" "\<forall>x \<in> set es. x < fresh m" "distinct es"
    "linked (\<lambda>a. iterNext (heap m a)) (iterFirst m) es"
    "linked (\<lambda>a. iterPrev (heap m a)) (iterLast m) (rev es)"
    using inv om_inv_distinct [OF inv] by (auto simp: om_inv_def list_ok_def)
  have prev: "y < x \<and> y \<in> set es" if "x \<in> set es" "iterPrev (heap m x) = Some y" for x y
  proof -
    obtain as bs where es: "es = as @ x # bs" using \<open>x \<in> set es\<close> by (auto simp: in_set_conv_decomp)
    have "as \<noteq> []" "y = last as"
      using rev_linked_prev [OF lo(5) [unfolded es]] that(2) by (auto split: if_splits)
    then show ?thesis using lo(1) by (cases as rule: rev_cases) (auto simp: es sorted_wrt_append)
  qed
  define m' where "m' = clear_loop (Suc (fresh m)) (iterFirst m) m"
  have c: "e_key (heap m' a) = (if a \<in> set es then None else e_key (heap m a))"
    "iterPrev (heap m' a) = iterPrev (heap m a)" "fresh m' = fresh m" for a
    using clear_loop_spec [OF lo(4) _ lo(3) _ lo(1), of "Suc (fresh m)"] om_inv_length [OF inv] prev
    by (auto simp: m'_def)
  have d: "(e_key (heap m a) = None) = (a \<notin> set es)"
    "a \<notin> set es \<Longrightarrow> back_ok (iterPrev (heap m a)) a es" if "a < fresh m" for a
    using that inv by (auto simp: om_inv_def dead_ok_def)
  have "back_ok (iterPrev (heap m a)) a []" if "a < fresh m" for a
    using d(2) [OF that] prev [of a] by (cases "a \<in> set es") (auto simp: back_ok_def split: option.splits)
  then have "dead_ok (om_clear m) []"
    using d(1) by (auto simp: dead_ok_def om_clear_def m'_def [symmetric] c)
  then show ?thesis
    by (simp add: om_inv_def list_ok_def keys_ok_def chains_ok_def om_clear_def entries_def)
qed

lemma new_correct: "om_inv K ok newOrderedMap [] (\<lambda>_. []) \<and> entries newOrderedMap [] = []"
  by (simp add: om_inv_defs newOrderedMap_def entries_def)

end

section \<open>Iteration\<close>

text \<open>The present entries after an address, in order.\<close>

definition after :: "nat option \<Rightarrow> nat list \<Rightarrow> nat list" where
  "after cur es = (case cur of None \<Rightarrow> es | Some c \<Rightarrow> filter (\<lambda>x. c < x) es)"

lemma track_back_spec:
  assumes d: "dead_ok m es" and "\<And>c. cur = Some c \<Longrightarrow> c < n \<and> c < fresh m"
  shows "(case track_back m n cur of None \<Rightarrow> True | Some c \<Rightarrow> c \<in> set es)
    \<and> after (track_back m n cur) es = after cur es"
  using assms(2)
proof (induction n arbitrary: cur)
  case 0
  then show ?case by (cases cur) auto
next
  case (Suc n)
  show ?case
  proof (cases cur)
    case (Some c)
    then have c: "c < Suc n" "c < fresh m" using Suc.prems by auto
    show ?thesis
    proof (cases "c \<in> set es")
      case True
      then show ?thesis using Some c d by (auto simp: dead_ok_def)
    next
      case False
      then have k: "e_key (heap m c) = None" "back_ok (iterPrev (heap m c)) c es"
        using c d by (auto simp: dead_ok_def)
      have p: "\<And>b. iterPrev (heap m c) = Some b \<Longrightarrow> b < n \<and> b < fresh m"
        using k(2) c by (auto simp: back_ok_def)
      have same: "after (iterPrev (heap m c)) es = after (Some c) es"
      proof (cases "iterPrev (heap m c)")
        case None
        then have "\<forall>x \<in> set es. c < x"
          using k(2) False by (auto simp: back_ok_def) (metis linorder_neqE_nat)
        then show ?thesis using None by (simp add: after_def)
      next
        case (Some b)
        then have "b < a \<longleftrightarrow> c < a" if "a \<in> set es" for a
          using k(2) False that by (auto simp: back_ok_def) (metis linorder_neqE_nat)
        then show ?thesis using Some by (auto simp: after_def cong: filter_cong)
      qed
      show ?thesis using Suc.IH [OF p] Some k(1) same by simp
    qed
  qed (simp add: after_def)
qed

lemma after_hd:
  assumes "list_ok m es" "c \<in> set es"
  shows "iterNext (heap m c) = (case after (Some c) es of [] \<Rightarrow> None | x # _ \<Rightarrow> Some x)"
proof -
  obtain as bs where es: "es = as @ c # bs" using assms(2) by (auto simp: in_set_conv_decomp)
  have "iterNext (heap m c) = (if bs = [] then None else Some (hd bs))"
    using assms(1) linked_nth [of "\<lambda>a. iterNext (heap m a)" "iterFirst m" as c bs]
    by (auto simp: list_ok_def es)
  moreover have "filter (\<lambda>x. c < x) as = []" "filter (\<lambda>x. c < x) bs = bs"
    using assms(1) by (auto simp: list_ok_def es sorted_wrt_append filter_empty_conv filter_id_conv)
  ultimately show ?thesis by (cases bs) (auto simp: after_def es)
qed

lemma iter_next_correct:
  assumes inv: "om_inv K ok m es ch" and "\<And>c. cur = Some c \<Longrightarrow> c < fresh m"
  shows "iter_next m (Some cur) =
    (case after cur es of [] \<Rightarrow> (None, None) | x # _ \<Rightarrow> (Some (Some x), Some x))"
proof -
  have lo: "list_ok m es" "dead_ok m es" using inv by (auto simp: om_inv_def)
  define t where "t = track_back m (Suc (fresh m)) cur"
  have t: "case t of None \<Rightarrow> True | Some c \<Rightarrow> c \<in> set es" "after t es = after cur es"
    using track_back_spec [OF lo(2), of cur "Suc (fresh m)"] assms(2) unfolding t_def
    by (meson less_SucI)+
  have "(case t of Some c \<Rightarrow> iterNext (heap m c) | None \<Rightarrow> iterFirst m)
      = (case after t es of [] \<Rightarrow> None | x # _ \<Rightarrow> Some x)"
  proof (cases t)
    case None
    then show ?thesis
      using lo(1) linked_first [of "\<lambda>a. iterNext (heap m a)" "iterFirst m" es]
      by (cases es) (auto simp: after_def list_ok_def)
  next
    case (Some c)
    then show ?thesis using t(1) after_hd [OF lo(1)] by simp
  qed
  then show ?thesis
    using t(2) by (auto simp: iter_next_def t_def [symmetric] Let_def split: list.splits)
qed

section \<open>Sequences of operations\<close>

datatype ('k, 'v) map_op = OSet 'k 'v | ORemove 'k | OClear

fun op_key :: "('k, 'v) map_op \<Rightarrow> 'k option" where
  "op_key (OSet k _) = Some k"
| "op_key (ORemove k) = Some k"
| "op_key OClear = None"

fun om_step :: "'k keyops \<Rightarrow> ('k, 'v) map_op \<Rightarrow> ('k, 'v) orderedMap \<Rightarrow> ('k, 'v) orderedMap" where
  "om_step K (OSet k v) m = om_set K m k v"
| "om_step K (ORemove k) m = fst (om_remove K m k)"
| "om_step K OClear m = om_clear m"

fun al_step :: "'k keyops \<Rightarrow> ('k, 'v) map_op \<Rightarrow> ('k \<times> 'v) list \<Rightarrow> ('k \<times> 'v) list" where
  "al_step K (OSet k v) xs = al_set K xs (k_norm K k) v"
| "al_step K (ORemove k) xs = al_remove K xs (k_norm K k)"
| "al_step K OClear xs = []"

definition om_run :: "'k keyops \<Rightarrow> ('k, 'v) map_op list \<Rightarrow> ('k, 'v) orderedMap \<Rightarrow> ('k, 'v) orderedMap" where
  "om_run K ops m = fold (om_step K) ops m"

definition al_run :: "'k keyops \<Rightarrow> ('k, 'v) map_op list \<Rightarrow> ('k \<times> 'v) list \<Rightarrow> ('k \<times> 'v) list" where
  "al_run K ops xs = fold (al_step K) ops xs"

definition ops_ok :: "('k \<Rightarrow> bool) \<Rightarrow> ('k, 'v) map_op list \<Rightarrow> bool" where
  "ops_ok ok ops = list_all (\<lambda>p. case op_key p of None \<Rightarrow> True | Some k \<Rightarrow> ok k) ops"

text \<open>Addresses are never reused, and an operation never makes an address unallocated.\<close>

lemma om_step_fresh:
  fixes m :: "('k, 'v) orderedMap"
  shows "fresh m \<le> fresh (om_step K p m)"
proof (cases p)
  case (OSet k v)
  then show ?thesis by (auto simp: om_set_def Let_def split: prod.splits option.splits)
next
  case (ORemove k)
  then show ?thesis by (auto simp: om_remove_def Let_def split: prod.splits option.splits)
next
  case OClear
  have "fresh (clear_loop n q m) = fresh m" for n q and m :: "('k, 'v) orderedMap"
  proof (induction n arbitrary: q m)
    case (Suc n)
    show ?case
    proof (cases q)
      case (Some i)
      then show ?thesis by (cases "iterPrev (heap m i)") (simp_all add: Suc)
    qed simp
  qed simp
  then show ?thesis using OClear by (simp add: om_clear_def)
qed

context map_keys
begin

lemma step_correct:
  assumes "om_inv K ok m es ch" "case op_key p of None \<Rightarrow> True | Some k \<Rightarrow> ok k"
  shows "\<exists>es' ch'. om_inv K ok (om_step K p m) es' ch'
    \<and> entries (om_step K p m) es' = al_step K p (entries m es)"
proof (cases p)
  case (OSet k v)
  then show ?thesis using set_correct [OF assms(1), of k v] assms(2) by auto
next
  case (ORemove k)
  then show ?thesis using remove_correct [OF assms(1), of k] assms(2) by auto
next
  case OClear
  then show ?thesis using clear_correct [OF assms(1)] by auto
qed

lemma run_correct:
  assumes "om_inv K ok m es ch" "ops_ok ok ops"
  shows "\<exists>es' ch'. om_inv K ok (om_run K ops m) es' ch'
    \<and> entries (om_run K ops m) es' = al_run K ops (entries m es) \<and> fresh m \<le> fresh (om_run K ops m)"
  using assms
proof (induction ops arbitrary: m es ch)
  case (Cons p ops)
  obtain es' ch' where 1: "om_inv K ok (om_step K p m) es' ch'"
    "entries (om_step K p m) es' = al_step K p (entries m es)"
    using step_correct [OF Cons.prems(1), of p] Cons.prems(2) by (auto simp: ops_ok_def)
  have "ops_ok ok ops" using Cons.prems(2) by (simp add: ops_ok_def)
  from Cons.IH [OF 1(1) this] show ?case
    using 1(2) om_step_fresh [of m K p] by (auto simp: om_run_def al_run_def intro: le_trans)
qed (auto simp: om_run_def al_run_def)

lemma run_new:
  fixes ops :: "('k, 'v) map_op list"
  assumes "ops_ok ok ops"
  shows "\<exists>es ch. om_inv K ok (om_run K ops newOrderedMap) es ch
    \<and> entries (om_run K ops newOrderedMap) es = al_run K ops []"
proof -
  have "om_inv K ok (newOrderedMap :: ('k, 'v) orderedMap) [] (\<lambda>_. [])"
    "entries (newOrderedMap :: ('k, 'v) orderedMap) [] = []"
    using new_correct by blast+
  with run_correct [OF this(1) assms] show ?thesis by auto
qed

lemma refines:
  assumes "ops_ok ok ops" "ok key"
  defines "m \<equiv> om_run K ops newOrderedMap" and "xs \<equiv> al_run K ops []"
  shows "om_get K m key = al_get K xs (k_norm K key)
    \<and> om_has K m key = (al_get K xs (k_norm K key) \<noteq> None)
    \<and> snd (om_remove K m key) = om_has K m key \<and> om_size m = length xs"
proof -
  obtain es ch where i: "om_inv K ok m es ch" "entries m es = xs"
    using run_new [OF assms(1)] by (auto simp: m_def xs_def)
  have "om_size m = length es" using i(1) by (simp add: om_inv_def list_ok_def)
  also have "\<dots> = length xs" using i(2) by (auto simp: entries_def)
  finally show ?thesis
    using get_correct [OF i(1) assms(2)] remove_correct [OF i(1) assms(2)] i(2) by auto
qed

lemma iter_after_run:
  assumes "om_inv K ok m es ch" "cur = None \<or> (\<exists>c. cur = Some c \<and> c < fresh m)" "ops_ok ok ops"
  shows "\<exists>es' ch'. om_inv K ok (om_run K ops m) es' ch'
    \<and> entries (om_run K ops m) es' = al_run K ops (entries m es)
    \<and> iter_next (om_run K ops m) (Some cur) =
        (case after cur es' of [] \<Rightarrow> (None, None) | x # _ \<Rightarrow> (Some (Some x), Some x))"
proof -
  obtain es' ch' where r: "om_inv K ok (om_run K ops m) es' ch'"
    "entries (om_run K ops m) es' = al_run K ops (entries m es)" "fresh m \<le> fresh (om_run K ops m)"
    using run_correct [OF assms(1,3)] by blast
  have "c < fresh (om_run K ops m)" if "cur = Some c" for c
    using assms(2) that r(3) by auto
  from iter_next_correct [OF r(1) this] r show ?thesis by blast
qed

end

section \<open>The table on JavaScript values\<close>

definition map_norm :: "jsval \<Rightarrow> jsval" where
  "map_norm key = (case key of VFloat f \<Rightarrow> if f_eq f (f_zero True) then intToValue 0 else key | _ \<Rightarrow> key)"

definition map_keyops :: "host \<Rightarrow> hashes \<Rightarrow> jsval keyops" where
  "map_keyops h hs = \<lparr>k_same = SameAs h, k_hash = hash hs, k_norm = map_norm\<rparr>"

text \<open>
  Objects that wrap equal Go values are the same value but hash by their address, so the
  laws hold where no two distinct objects are equal.
\<close>

definition plain_host :: "host \<Rightarrow> host" where
  "plain_host h = h\<lparr>h_equal := \<lambda>_ _. False\<rparr>"

lemma SameAs_plain: "num_ok v \<Longrightarrow> num_ok w \<Longrightarrow> SameAs (plain_host h) v w \<longleftrightarrow> v = w"
  using SameAs_iff_aux [of v w "plain_host h"] by (simp add: plain_host_def)

interpretation omap: map_keys "map_keyops (plain_host h) hs" num_ok for h hs
proof unfold_locales
  show "num_ok (k_norm (map_keyops (plain_host h) hs) k)" if "num_ok k" for k
    using that by (auto simp: map_keyops_def map_norm_def num_ok_def maxInt_def split: jsval.splits)
qed (simp_all add: map_keyops_def SameAs_plain)

text \<open>
  C5. The hash table refines an insertion-ordered association list: after any sequence of
  insertions, removals and clears, the table's \<open>get\<close>, \<open>has\<close>, \<open>remove\<close> and \<open>size\<close> answer
  as the list does, with keys compared by \<open>SameAs\<close> after \<open>-0\<close> was replaced.
\<close>

theorem orderedMap_refines:
  fixes h :: host and hs :: hashes
  assumes "ops_ok num_ok ops" "num_ok key"
  defines "K \<equiv> map_keyops (plain_host h) hs"
  shows "om_get K (om_run K ops newOrderedMap) key = al_get K (al_run K ops []) (map_norm key)
    \<and> om_has K (om_run K ops newOrderedMap) key = (al_get K (al_run K ops []) (map_norm key) \<noteq> None)
    \<and> snd (om_remove K (om_run K ops newOrderedMap) key) = om_has K (om_run K ops newOrderedMap) key
    \<and> om_size (om_run K ops newOrderedMap) = length (al_run K ops [])"
  using omap.refines [OF assms(1,2), of h hs] by (simp add: K_def map_keyops_def)

lemma orderedMap_refines_witness:
  "om_size (om_run (map_keyops (plain_host host0) hashes0)
      [OSet (VInt 1) (10::nat), OSet negativeZero 20, OSet (VInt 1) 30, ORemove (VInt 0)] newOrderedMap) = 1"
proof -
  let ?ops = "[OSet (VInt 1) (10::nat), OSet negativeZero 20, OSet (VInt 1) 30, ORemove (VInt 0)]"
  have nz: "f_eq (f_zero True) (f_zero True)" by (simp add: f_zero_def)
  have "ops_ok num_ok ?ops" "num_ok (VInt 1)"
    by (simp_all add: ops_ok_def num_ok_def maxInt_def negativeZero_def floatToInt_def)
  note r = orderedMap_refines [OF this, of host0 hashes0]
  have "al_run (map_keyops (plain_host host0) hashes0) ?ops [] = [(VInt 1, 30)]"
    by (simp add: al_run_def map_keyops_def al_set_def al_remove_def map_norm_def negativeZero_def nz
        valueInt_SameAs_def maxInt_def)
  with r show ?thesis by simp
qed

text \<open>
  C24. An iterator survives any change of the table between two calls of \<open>next\<close>: whatever
  insertions, removals (also of the entry it stands on) and clears happened since, \<open>next\<close>
  returns the first entry present whose insertion is later than that of the entry returned
  last, and closes when there is none.
\<close>

theorem iterator_robust:
  fixes h :: host and hs :: hashes
  assumes "ops_ok num_ok ops1" "ops_ok num_ok ops2"
  defines "K \<equiv> map_keyops (plain_host h) hs"
  defines "m1 \<equiv> om_run K ops1 newOrderedMap"
  defines "m2 \<equiv> om_run K ops2 m1"
  assumes "\<And>c. cur = Some c \<Longrightarrow> c < fresh m1"
  shows "\<exists>es. sorted_wrt (<) es \<and> entries m2 es = al_run K ops2 (al_run K ops1 [])
    \<and> iter_next m2 (Some cur) =
        (case after cur es of [] \<Rightarrow> (None, None) | x # _ \<Rightarrow> (Some (Some x), Some x))"
proof -
  obtain es ch where i: "om_inv K num_ok m1 es ch" "entries m1 es = al_run K ops1 []"
    using omap.run_new [OF assms(1), of h hs] by (auto simp: m1_def K_def)
  have "cur = None \<or> (\<exists>c. cur = Some c \<and> c < fresh m1)" using assms(6) by (cases cur) auto
  from omap.iter_after_run [OF i(1) [unfolded K_def] this assms(2)] i(2)
  show ?thesis by (auto simp: m2_def K_def om_inv_def list_ok_def)
qed

lemma iterator_robust_witness:
  "\<exists>es. sorted_wrt (<) es
    \<and> entries (om_run (map_keyops (plain_host host0) hashes0) [OClear, OSet (VInt 2) (7::nat)]
        (om_run (map_keyops (plain_host host0) hashes0) [OSet (VInt 1) 5] newOrderedMap)) es
      = al_run (map_keyops (plain_host host0) hashes0) [OClear, OSet (VInt 2) 7]
          (al_run (map_keyops (plain_host host0) hashes0) [OSet (VInt 1) 5] [])
    \<and> iter_next (om_run (map_keyops (plain_host host0) hashes0) [OClear, OSet (VInt 2) (7::nat)]
        (om_run (map_keyops (plain_host host0) hashes0) [OSet (VInt 1) 5] newOrderedMap)) (Some (Some 0))
      = (case after (Some 0) es of [] \<Rightarrow> (None, None) | x # _ \<Rightarrow> (Some (Some x), Some x))"
  by (rule iterator_robust)
    (auto simp: ops_ok_def num_ok_def maxInt_def om_run_def om_set_def om_lookup_def newOrderedMap_def
      map_keyops_def map_norm_def Let_def split: option.splits)

end
