(* ===== verification/Objects.thy ===== *)
theory Objects
  imports Ordered_Map "HOL-Library.Multiset"
begin

text \<open>
  Ordinary objects (\<open>baseObject\<close> of \<open>object.go\<close>): properties, property descriptors,
  the prototype chain and the order of the property names. Objects live on a heap of
  addresses, every object of which is a \<open>baseObject\<close>; getters and setters are user code,
  a parameter (\<open>ucall\<close>) that may change the heap and may throw.

  Recursion along the prototype chain takes fuel, one unit for each object; a result
  \<open>None\<close> is a chain longer than the fuel. \<open>setProto\<close> keeps the chains free of cycles
  (\<open>setProto_acyclic\<close>), and then fuel for the number of objects always suffices.
\<close>

section \<open>Descriptors and properties\<close>

datatype flag = FLAG_NOT_SET | FLAG_FALSE | FLAG_TRUE

definition flag_bool :: "flag \<Rightarrow> bool" where
  "flag_bool f = (f = FLAG_TRUE)"

record propdesc =
  pd_value :: "jsval option"
  pd_writable :: flag
  pd_configurable :: flag
  pd_enumerable :: flag
  pd_getter :: "jsval option"
  pd_setter :: "jsval option"

definition empty_desc :: propdesc where
  "empty_desc = \<lparr>pd_value = None, pd_writable = FLAG_NOT_SET, pd_configurable = FLAG_NOT_SET,
     pd_enumerable = FLAG_NOT_SET, pd_getter = None, pd_setter = None\<rparr>"

definition pd_IsAccessor :: "propdesc \<Rightarrow> bool" where
  "pd_IsAccessor p = (pd_setter p \<noteq> None \<or> pd_getter p \<noteq> None)"

definition pd_IsData :: "propdesc \<Rightarrow> bool" where
  "pd_IsData p = (pd_value p \<noteq> None \<or> pd_writable p \<noteq> FLAG_NOT_SET)"

definition pd_IsGeneric :: "propdesc \<Rightarrow> bool" where
  "pd_IsGeneric p = (\<not> pd_IsAccessor p \<and> \<not> pd_IsData p)"

definition pd_complete :: "propdesc \<Rightarrow> propdesc" where
  "pd_complete p =
     (let p = (if pd_getter p = None \<and> pd_setter p = None then
                 p\<lparr>pd_value := Some (case pd_value p of None \<Rightarrow> VUndefined | Some v \<Rightarrow> v),
                   pd_writable := if pd_writable p = FLAG_NOT_SET then FLAG_FALSE else pd_writable p\<rparr>
               else
                 p\<lparr>pd_getter := Some (case pd_getter p of None \<Rightarrow> VUndefined | Some v \<Rightarrow> v),
                   pd_setter := Some (case pd_setter p of None \<Rightarrow> VUndefined | Some v \<Rightarrow> v)\<rparr>)
      in p\<lparr>pd_enumerable := if pd_enumerable p = FLAG_NOT_SET then FLAG_FALSE else pd_enumerable p,
           pd_configurable := if pd_configurable p = FLAG_NOT_SET then FLAG_FALSE else pd_configurable p\<rparr>)"

record valueProperty =
  vp_value :: "jsval option"
  vp_writable :: bool
  vp_configurable :: bool
  vp_enumerable :: bool
  vp_accessor :: bool
  vp_getter :: "nat option"
  vp_setter :: "nat option"

text \<open>
  A property is stored as its bare value when it is a writable, enumerable and configurable
  data property, else as a \<open>*valueProperty\<close>.
\<close>

datatype slot = Plain jsval | Prop valueProperty

record jsobj =
  o_prototype :: "nat option"
  o_extensible :: bool
  o_values :: "ustr \<Rightarrow> slot option"
  o_propNames :: "ustr list"
  o_lastSorted :: nat
  o_idxCount :: nat
  o_symValues :: "(jsval, slot) orderedMap option"

type_synonym oheap = "nat \<Rightarrow> jsobj option"

record env =
  e_host :: host
  e_hashes :: hashes
  e_callable :: "nat \<Rightarrow> bool"
  e_call :: "oheap \<Rightarrow> nat \<Rightarrow> jsval \<Rightarrow> jsval list \<Rightarrow> (oheap, jsval) outcome"
  e_objectProto :: nat

definition vp_isWritable :: "valueProperty \<Rightarrow> bool" where
  "vp_isWritable p = (vp_writable p \<or> vp_setter p \<noteq> None)"

definition vp_get :: "env \<Rightarrow> oheap \<Rightarrow> valueProperty \<Rightarrow> jsval \<Rightarrow> (oheap, jsval option) outcome" where
  "vp_get E H p this =
     (case vp_getter p of
        None \<Rightarrow> (H, Inr (Some (case vp_value p of Some v \<Rightarrow> v | None \<Rightarrow> VUndefined)))
      | Some f \<Rightarrow> mapS Some (e_call E H f this []))"

definition valueProp :: "jsval \<Rightarrow> bool \<Rightarrow> bool \<Rightarrow> bool \<Rightarrow> slot" where
  "valueProp val writable enumerable configurable =
     (if writable \<and> enumerable \<and> configurable then Plain val
      else Prop \<lparr>vp_value = Some val, vp_writable = writable, vp_configurable = configurable,
             vp_enumerable = enumerable, vp_accessor = False, vp_getter = None, vp_setter = None\<rparr>)"

definition propGetter :: "env \<Rightarrow> jsval \<Rightarrow> go_error + nat option" where
  "propGetter E v =
     (case v of
        VUndefined \<Rightarrow> Inr None
      | VObject f \<Rightarrow> if e_callable E f then Inr (Some f) else Inl TypeErr
      | _ \<Rightarrow> Inl TypeErr)"

definition propSetter :: "env \<Rightarrow> jsval \<Rightarrow> go_error + nat option" where
  "propSetter E v =
     (case v of
        VUndefined \<Rightarrow> Inr None
      | VObject f \<Rightarrow> if e_callable E f then Inr (Some f) else Inl TypeErr
      | _ \<Rightarrow> Inl TypeErr)"

text \<open>The property a slot stands for.\<close>

definition slot_prop :: "slot \<Rightarrow> valueProperty" where
  "slot_prop s =
     (case s of
        Plain v \<Rightarrow> \<lparr>vp_value = Some v, vp_writable = True, vp_configurable = True, vp_enumerable = True,
            vp_accessor = False, vp_getter = None, vp_setter = None\<rparr>
      | Prop p \<Rightarrow> p)"

definition empty_prop :: valueProperty where
  "empty_prop = \<lparr>vp_value = None, vp_writable = False, vp_configurable = False, vp_enumerable = False,
     vp_accessor = False, vp_getter = None, vp_setter = None\<rparr>"

definition object_of :: "jsval option \<Rightarrow> nat option" where
  "object_of v = (case v of Some (VObject x) \<Rightarrow> Some x | _ \<Rightarrow> None)"

section \<open>\<open>_defineOwnProperty\<close>\<close>

text \<open>The checks that lead to \<open>Reject\<close>.\<close>

definition define_rejected :: "host \<Rightarrow> valueProperty \<Rightarrow> propdesc \<Rightarrow> bool" where
  "define_rejected h existing descr =
     (let getterObj = object_of (pd_getter descr); setterObj = object_of (pd_setter descr) in
      (\<not> vp_configurable existing \<and>
         (pd_configurable descr = FLAG_TRUE
          \<or> pd_enumerable descr \<noteq> FLAG_NOT_SET \<and> flag_bool (pd_enumerable descr) \<noteq> vp_enumerable existing))
      \<or> (if vp_accessor existing \<and> pd_value descr \<noteq> None
            \<or> \<not> vp_accessor existing \<and> (getterObj \<noteq> None \<or> setterObj \<noteq> None)
         then \<not> vp_configurable existing
         else if \<not> vp_accessor existing then
           \<not> vp_configurable existing \<and> \<not> vp_writable existing
           \<and> (pd_writable descr = FLAG_TRUE
              \<or> (case (pd_value descr, vp_value existing) of
                   (Some v, Some w) \<Rightarrow> \<not> SameAs h v w
                 | (Some v, None) \<Rightarrow> True
                 | _ \<Rightarrow> False))
         else \<not> vp_configurable existing
           \<and> (pd_getter descr \<noteq> None \<and> vp_getter existing \<noteq> getterObj
              \<or> pd_setter descr \<noteq> None \<and> vp_setter existing \<noteq> setterObj)))"

text \<open>The updates, in the order the code makes them; the accessor functions are checked last.\<close>

definition define_flags :: "propdesc \<Rightarrow> valueProperty \<Rightarrow> valueProperty" where
  "define_flags descr p =
     (let p = (if pd_writable descr \<noteq> FLAG_NOT_SET then p\<lparr>vp_writable := flag_bool (pd_writable descr)\<rparr> else p);
          p = (if pd_enumerable descr \<noteq> FLAG_NOT_SET then p\<lparr>vp_enumerable := flag_bool (pd_enumerable descr)\<rparr> else p);
          p = (if pd_configurable descr \<noteq> FLAG_NOT_SET then p\<lparr>vp_configurable := flag_bool (pd_configurable descr)\<rparr> else p);
          p = (if pd_value descr \<noteq> None then p\<lparr>vp_value := pd_value descr, vp_getter := None, vp_setter := None\<rparr> else p)
      in if pd_value descr \<noteq> None \<or> pd_writable descr \<noteq> FLAG_NOT_SET then p\<lparr>vp_accessor := False\<rparr> else p)"

definition define_getter :: "env \<Rightarrow> propdesc \<Rightarrow> valueProperty \<Rightarrow> go_error + valueProperty" where
  "define_getter E descr p =
     (case pd_getter descr of
        None \<Rightarrow> Inr p
      | Some g \<Rightarrow> mapR (\<lambda>f. p\<lparr>vp_getter := f, vp_value := None, vp_accessor := True\<rparr>) (propGetter E g))"

definition define_setter :: "env \<Rightarrow> propdesc \<Rightarrow> valueProperty \<Rightarrow> go_error + valueProperty" where
  "define_setter E descr p =
     (case pd_setter descr of
        None \<Rightarrow> Inr p
      | Some g \<Rightarrow> mapR (\<lambda>f. p\<lparr>vp_setter := f, vp_value := None, vp_accessor := True\<rparr>) (propSetter E g))"

definition define_finish :: "valueProperty \<Rightarrow> valueProperty" where
  "define_finish p =
     (if \<not> vp_accessor p \<and> vp_value p = None then p\<lparr>vp_value := Some VUndefined\<rparr> else p)"

text \<open>
  The result is the slot to store, \<open>None\<close> when rejected. Beside it comes what the existing
  slot has become: a stored \<open>*valueProperty\<close> is updated in place, so a getter that is not
  callable leaves it half updated.
\<close>

definition base_defineOwnProperty :: "env \<Rightarrow> bool \<Rightarrow> slot option \<Rightarrow> propdesc \<Rightarrow> bool
    \<Rightarrow> slot option \<times> (go_error + slot option)" where
  "base_defineOwnProperty E extensible existingValue descr throw =
     (let in_place = (\<lambda>p. case existingValue of Some (Prop _) \<Rightarrow> Some (Prop p) | s \<Rightarrow> s) in
      if existingValue = None \<and> \<not> extensible then (existingValue, typeErrorResult throw None)
      else
        let existing = (case existingValue of None \<Rightarrow> empty_prop | Some s \<Rightarrow> slot_prop s) in
        if existingValue \<noteq> None \<and> define_rejected (e_host E) existing descr
        then (existingValue, typeErrorResult throw None)
        else if pd_writable descr = FLAG_TRUE \<and> pd_enumerable descr = FLAG_TRUE
            \<and> pd_configurable descr = FLAG_TRUE \<and> pd_value descr \<noteq> None
        then (existingValue, Inr (map_option Plain (pd_value descr)))
        else
          let p1 = define_flags descr existing in
          case define_getter E descr p1 of
            Inl e \<Rightarrow> (in_place p1, Inl e)
          | Inr p2 \<Rightarrow>
              (case define_setter E descr p2 of
                 Inl e \<Rightarrow> (in_place p2, Inl e)
               | Inr p3 \<Rightarrow> (in_place (define_finish p3), Inr (Some (Prop (define_finish p3))))))"

section \<open>Own properties\<close>

text \<open>An operation on the object at an address; a missing object is a nil dereference.\<close>

definition with_obj :: "oheap \<Rightarrow> nat \<Rightarrow> (jsobj \<Rightarrow> (oheap, 'a) outcome) \<Rightarrow> (oheap, 'a) outcome" where
  "with_obj H a f = (case H a of None \<Rightarrow> (H, Inl GoPanic) | Some ob \<Rightarrow> f ob)"

definition put_value :: "ustr \<Rightarrow> slot \<Rightarrow> jsobj \<Rightarrow> jsobj" where
  "put_value name s ob = ob\<lparr>o_values := (o_values ob)(name := Some s)\<rparr>"

definition add_name :: "ustr \<Rightarrow> jsobj \<Rightarrow> jsobj" where
  "add_name name ob = ob\<lparr>o_propNames := o_propNames ob @ [name]\<rparr>"

definition base_put :: "ustr \<Rightarrow> slot \<Rightarrow> jsobj \<Rightarrow> jsobj" where
  "base_put name v ob =
     put_value name v (if o_values ob name = None then add_name name ob else ob)"

definition base_putProp :: "ustr \<Rightarrow> jsval \<Rightarrow> bool \<Rightarrow> bool \<Rightarrow> bool \<Rightarrow> jsobj \<Rightarrow> jsobj" where
  "base_putProp name v writable enumerable configurable ob =
     base_put name (valueProp v writable enumerable configurable) ob"

definition getOwnPropStr :: "jsobj \<Rightarrow> ustr \<Rightarrow> slot option" where
  "getOwnPropStr ob name = o_values ob name"

definition hasOwnPropertyStr :: "jsobj \<Rightarrow> ustr \<Rightarrow> bool" where
  "hasOwnPropertyStr ob name = (o_values ob name \<noteq> None)"

definition checkDelete :: "slot \<Rightarrow> bool \<Rightarrow> go_error + bool" where
  "checkDelete s throw =
     (case s of
        Plain _ \<Rightarrow> Inr True
      | Prop p \<Rightarrow> if \<not> vp_configurable p then typeErrorResult throw False else Inr True)"

fun index_of :: "'a \<Rightarrow> 'a list \<Rightarrow> nat option" where
  "index_of x [] = None"
| "index_of x (y # ys) = (if x = y then Some 0 else map_option Suc (index_of x ys))"

definition base_delete :: "ustr \<Rightarrow> jsobj \<Rightarrow> jsobj" where
  "base_delete name ob =
     (let ob = ob\<lparr>o_values := (o_values ob)(name := None)\<rparr> in
      case index_of name (o_propNames ob) of
        None \<Rightarrow> ob
      | Some i \<Rightarrow>
          ob\<lparr>o_propNames := take i (o_propNames ob) @ drop (Suc i) (o_propNames ob),
             o_lastSorted := if i < o_lastSorted ob then o_lastSorted ob - 1 else o_lastSorted ob,
             o_idxCount := if i < o_lastSorted ob \<and> i < o_idxCount ob then o_idxCount ob - 1 else o_idxCount ob\<rparr>)"

definition deleteStr :: "oheap \<Rightarrow> nat \<Rightarrow> ustr \<Rightarrow> bool \<Rightarrow> (oheap, bool) outcome" where
  "deleteStr H a name throw =
     with_obj H a (\<lambda>ob. case o_values ob name of
         None \<Rightarrow> (H, Inr True)
       | Some s \<Rightarrow>
           (case checkDelete s throw of
              Inl e \<Rightarrow> (H, Inl e)
            | Inr False \<Rightarrow> (H, Inr False)
            | Inr True \<Rightarrow> (H(a \<mapsto> base_delete name ob), Inr True)))"

definition defineOwnPropertyStr :: "env \<Rightarrow> oheap \<Rightarrow> nat \<Rightarrow> ustr \<Rightarrow> propdesc \<Rightarrow> bool \<Rightarrow> (oheap, bool) outcome" where
  "defineOwnPropertyStr E H a name descr throw =
     with_obj H a (\<lambda>ob.
       let existingVal = o_values ob name in
       case base_defineOwnProperty E (o_extensible ob) existingVal descr throw of
         (cur, r) \<Rightarrow>
           let ob = (case cur of None \<Rightarrow> ob | Some s \<Rightarrow> put_value name s ob) in
           (case r of
              Inl e \<Rightarrow> (H(a \<mapsto> ob), Inl e)
            | Inr None \<Rightarrow> (H(a \<mapsto> ob), Inr False)
            | Inr (Some v) \<Rightarrow>
                (H(a \<mapsto> (let ob = put_value name v ob in
                     if existingVal = None then add_name name ob else ob)), Inr True)))"

definition preventExtensions :: "oheap \<Rightarrow> nat \<Rightarrow> (oheap, bool) outcome" where
  "preventExtensions H a = with_obj H a (\<lambda>ob. (H(a \<mapsto> ob\<lparr>o_extensible := False\<rparr>), Inr True))"

section \<open>The prototype chain\<close>

fun hasPropertyStr :: "nat \<Rightarrow> oheap \<Rightarrow> nat \<Rightarrow> ustr \<Rightarrow> (go_error + bool) option" where
  "hasPropertyStr 0 H a name = None"
| "hasPropertyStr (Suc n) H a name =
     (case H a of
        None \<Rightarrow> Some (Inl GoPanic)
      | Some ob \<Rightarrow>
          if hasOwnPropertyStr ob name then Some (Inr True)
          else (case o_prototype ob of
                  Some p \<Rightarrow> hasPropertyStr n H p name
                | None \<Rightarrow> Some (Inr False)))"

text \<open>A nil result, of a property that is nowhere on the chain, is \<open>Inr None\<close>.\<close>

fun getStr :: "env \<Rightarrow> nat \<Rightarrow> oheap \<Rightarrow> nat \<Rightarrow> ustr \<Rightarrow> jsval option \<Rightarrow> (oheap, jsval option) outcome option" where
  "getStr E 0 H a name receiver = None"
| "getStr E (Suc n) H a name receiver =
     (case H a of
        None \<Rightarrow> Some (H, Inl GoPanic)
      | Some ob \<Rightarrow>
          let recv = (case receiver of None \<Rightarrow> VObject a | Some r \<Rightarrow> r) in
          (case o_values ob name of
             None \<Rightarrow>
               (case o_prototype ob of
                  Some p \<Rightarrow> getStr E n H p name (Some recv)
                | None \<Rightarrow> Some (H, Inr None))
           | Some (Prop p) \<Rightarrow> Some (vp_get E H p recv)
           | Some (Plain v) \<Rightarrow> Some (H, Inr (Some v))))"

text \<open>The walk of \<open>setProto\<close> along the new chain: does it meet the object itself?\<close>

fun proto_cycle :: "nat \<Rightarrow> oheap \<Rightarrow> nat option \<Rightarrow> nat \<Rightarrow> bool option" where
  "proto_cycle 0 H p a = None"
| "proto_cycle (Suc n) H None a = Some False"
| "proto_cycle (Suc n) H (Some p) a =
     (if p = a then Some True
      else case H p of None \<Rightarrow> Some False | Some ob \<Rightarrow> proto_cycle n H (o_prototype ob) a)"

definition setProto :: "env \<Rightarrow> nat \<Rightarrow> oheap \<Rightarrow> nat \<Rightarrow> nat option \<Rightarrow> bool \<Rightarrow> (oheap, bool) outcome option" where
  "setProto E n H a proto throw =
     (case H a of
        None \<Rightarrow> Some (H, Inl GoPanic)
      | Some ob \<Rightarrow>
          if o_prototype ob = proto then Some (H, Inr True)
          else if a = e_objectProto E then Some (H, typeErrorResult throw False)
          else if \<not> o_extensible ob then Some (H, typeErrorResult throw False)
          else (case proto_cycle n H proto a of
                  None \<Rightarrow> None
                | Some True \<Rightarrow> Some (H, typeErrorResult throw False)
                | Some False \<Rightarrow> Some (H(a \<mapsto> ob\<lparr>o_prototype := proto\<rparr>), Inr True)))"

section \<open>Assignment\<close>

text \<open>\<open>valueProperty.set\<close>: the stored property is updated in place, or the setter is called.\<close>

definition vp_set :: "env \<Rightarrow> oheap \<Rightarrow> nat \<Rightarrow> ustr \<Rightarrow> valueProperty \<Rightarrow> jsval \<Rightarrow> jsval \<Rightarrow> (oheap, unit) outcome" where
  "vp_set E H a name p this v =
     (case vp_setter p of
        None \<Rightarrow> with_obj H a (\<lambda>ob. (H(a \<mapsto> put_value name (Prop (p\<lparr>vp_value := Some v\<rparr>)) ob), Inr ()))
      | Some f \<Rightarrow> mapS (\<lambda>_. ()) (e_call E H f this [v]))"

definition set_new_prop :: "oheap \<Rightarrow> nat \<Rightarrow> ustr \<Rightarrow> jsval \<Rightarrow> bool \<Rightarrow> (oheap, bool) outcome" where
  "set_new_prop H a name val throw =
     with_obj H a (\<lambda>ob.
       if \<not> o_extensible ob then (H, typeErrorResult throw False)
       else (H(a \<mapsto> add_name name (put_value name (Plain val) ob)), Inr True))"

definition handled_or :: "(oheap, bool \<times> bool) outcome option \<Rightarrow> (oheap \<Rightarrow> (oheap, bool) outcome)
    \<Rightarrow> (oheap, bool) outcome option" where
  "handled_or r f =
     (case r of
        None \<Rightarrow> None
      | Some (H, Inl e) \<Rightarrow> Some (H, Inl e)
      | Some (H, Inr (res, handled)) \<Rightarrow> if handled then Some (H, Inr res) else Some (f H))"

fun setOwnStr :: "env \<Rightarrow> nat \<Rightarrow> oheap \<Rightarrow> nat \<Rightarrow> ustr \<Rightarrow> jsval \<Rightarrow> bool \<Rightarrow> (oheap, bool) outcome option"
and setForeignStr :: "env \<Rightarrow> nat \<Rightarrow> oheap \<Rightarrow> nat \<Rightarrow> ustr \<Rightarrow> jsval \<Rightarrow> jsval \<Rightarrow> bool
    \<Rightarrow> (oheap, bool \<times> bool) outcome option" where
  "setOwnStr E 0 H a name val throw = None"
| "setOwnStr E (Suc n) H a name val throw =
     (case H a of
        None \<Rightarrow> Some (H, Inl GoPanic)
      | Some ob \<Rightarrow>
          (case o_values ob name of
             None \<Rightarrow>
               (case o_prototype ob of
                  None \<Rightarrow> Some (set_new_prop H a name val throw)
                | Some p \<Rightarrow>
                    handled_or (setForeignStr E n H p name val (VObject a) throw)
                      (\<lambda>H. set_new_prop H a name val throw))
           | Some (Prop p) \<Rightarrow>
               if \<not> vp_isWritable p then Some (H, typeErrorResult throw False)
               else Some (mapS (\<lambda>_. True) (vp_set E H a name p (VObject a) val))
           | Some (Plain _) \<Rightarrow> Some (H(a \<mapsto> put_value name (Plain val) ob), Inr True)))"
| "setForeignStr E 0 H a name val receiver throw = None"
| "setForeignStr E (Suc n) H a name val receiver throw =
     (case H a of
        None \<Rightarrow> Some (H, Inl GoPanic)
      | Some ob \<Rightarrow>
          (case o_values ob name of
             Some (Prop p) \<Rightarrow>
               if \<not> vp_isWritable p then Some (H, typeErrorResult throw (False, True))
               else if vp_setter p \<noteq> None
               then Some (mapS (\<lambda>_. (True, True)) (vp_set E H a name p receiver val))
               else Some (H, Inr (False, False))
           | Some (Plain _) \<Rightarrow> Some (H, Inr (False, False))
           | None \<Rightarrow>
               (case o_prototype ob of
                  None \<Rightarrow> Some (H, Inr (False, False))
                | Some p \<Rightarrow>
                    if receiver \<noteq> VObject p then setForeignStr E n H p name val receiver throw
                    else map_option (mapS (\<lambda>r. (r, True))) (setOwnStr E n H p name val throw))))"

definition data_desc :: "jsval \<Rightarrow> propdesc" where
  "data_desc v = \<lparr>pd_value = Some v, pd_writable = FLAG_TRUE, pd_configurable = FLAG_TRUE,
     pd_enumerable = FLAG_TRUE, pd_getter = None, pd_setter = None\<rparr>"

text \<open>\<open>Object.setStr\<close>: assignment with a receiver.\<close>

definition object_setStr :: "env \<Rightarrow> nat \<Rightarrow> oheap \<Rightarrow> nat \<Rightarrow> ustr \<Rightarrow> jsval \<Rightarrow> jsval \<Rightarrow> bool
    \<Rightarrow> (oheap, bool) outcome option" where
  "object_setStr E n H a name val receiver throw =
     (if receiver = VObject a then setOwnStr E n H a name val throw
      else handled_or (setForeignStr E n H a name val receiver throw) (\<lambda>H.
        case receiver of
          VObject r \<Rightarrow>
            with_obj H r (\<lambda>robj.
              case o_values robj name of
                Some prop \<Rightarrow>
                  (case prop of
                     Prop desc \<Rightarrow>
                       if vp_accessor desc then (H, typeErrorResult throw False)
                       else if \<not> vp_writable desc then (H, typeErrorResult throw False)
                       else defineOwnPropertyStr E H r name (empty_desc\<lparr>pd_value := Some val\<rparr>) throw
                   | Plain _ \<Rightarrow> defineOwnPropertyStr E H r name (empty_desc\<lparr>pd_value := Some val\<rparr>) throw)
              | None \<Rightarrow> defineOwnPropertyStr E H r name (data_desc val) throw)
        | _ \<Rightarrow> (H, typeErrorResult throw False)))"

section \<open>Symbol properties\<close>

definition sym_keys :: "env \<Rightarrow> jsval keyops" where
  "sym_keys E = map_keyops (e_host E) (e_hashes E)"

definition getOwnPropSym :: "env \<Rightarrow> jsobj \<Rightarrow> jsval \<Rightarrow> slot option" where
  "getOwnPropSym E ob s =
     (case o_symValues ob of None \<Rightarrow> None | Some m \<Rightarrow> om_get (sym_keys E) m s)"

definition hasOwnPropertySym :: "env \<Rightarrow> jsobj \<Rightarrow> jsval \<Rightarrow> bool" where
  "hasOwnPropertySym E ob s =
     (case o_symValues ob of None \<Rightarrow> False | Some m \<Rightarrow> om_has (sym_keys E) m s)"

definition put_sym :: "env \<Rightarrow> jsval \<Rightarrow> slot \<Rightarrow> jsobj \<Rightarrow> jsobj" where
  "put_sym E s prop ob =
     ob\<lparr>o_symValues := Some (om_set (sym_keys E)
          (case o_symValues ob of None \<Rightarrow> newOrderedMap | Some m \<Rightarrow> m) s prop)\<rparr>"

definition deleteSym :: "env \<Rightarrow> oheap \<Rightarrow> nat \<Rightarrow> jsval \<Rightarrow> bool \<Rightarrow> (oheap, bool) outcome" where
  "deleteSym E H a s throw =
     with_obj H a (\<lambda>ob. case o_symValues ob of
         None \<Rightarrow> (H, Inr True)
       | Some m \<Rightarrow>
           (case om_get (sym_keys E) m s of
              None \<Rightarrow> (H, Inr True)
            | Some val \<Rightarrow>
                (case checkDelete val throw of
                   Inl e \<Rightarrow> (H, Inl e)
                 | Inr False \<Rightarrow> (H, Inr False)
                 | Inr True \<Rightarrow>
                     (H(a \<mapsto> ob\<lparr>o_symValues := Some (fst (om_remove (sym_keys E) m s))\<rparr>), Inr True))))"

definition defineOwnPropertySym :: "env \<Rightarrow> oheap \<Rightarrow> nat \<Rightarrow> jsval \<Rightarrow> propdesc \<Rightarrow> bool \<Rightarrow> (oheap, bool) outcome" where
  "defineOwnPropertySym E H a s descr throw =
     with_obj H a (\<lambda>ob.
       case base_defineOwnProperty E (o_extensible ob) (getOwnPropSym E ob s) descr throw of
         (cur, r) \<Rightarrow>
           let ob = (case cur of None \<Rightarrow> ob | Some x \<Rightarrow> put_sym E s x ob) in
           (case r of
              Inl e \<Rightarrow> (H(a \<mapsto> ob), Inl e)
            | Inr None \<Rightarrow> (H(a \<mapsto> ob), Inr False)
            | Inr (Some v) \<Rightarrow> (H(a \<mapsto> put_sym E s v ob), Inr True)))"

section \<open>The order of the property names\<close>

text \<open>
  The loop of \<open>fixPropOrder\<close>: the name at \<open>i\<close>, when it is an array index, is moved behind
  the indices below it among the first \<open>idxPropCount\<close> names.
\<close>

definition fix_step :: "nat \<Rightarrow> ustr list \<times> nat \<Rightarrow> ustr list \<times> nat" where
  "fix_step i st =
     (case st of (names, cnt) \<Rightarrow>
       let name = names ! i; idx = strToArrayIdx name in
       if idx \<noteq> maxUint32 then
         let k = sort_search cnt (\<lambda>j. idx \<le> strToArrayIdx (names ! j)) in
         (if k < i then take k names @ name # drop k (take i names) @ drop (Suc i) names else names, Suc cnt)
       else (names, cnt))"

definition fixPropOrder :: "jsobj \<Rightarrow> jsobj" where
  "fixPropOrder ob =
     (case fold fix_step [o_lastSorted ob ..< length (o_propNames ob)] (o_propNames ob, o_idxCount ob) of
        (names, cnt) \<Rightarrow> ob\<lparr>o_propNames := names, o_idxCount := cnt, o_lastSorted := length names\<rparr>)"

definition ensurePropOrder :: "jsobj \<Rightarrow> jsobj" where
  "ensurePropOrder ob = (if o_lastSorted ob < length (o_propNames ob) then fixPropOrder ob else ob)"

definition enumerable_slot :: "slot option \<Rightarrow> bool" where
  "enumerable_slot s = (case s of Some (Prop p) \<Rightarrow> vp_enumerable p | _ \<Rightarrow> True)"

definition stringKeys :: "bool \<Rightarrow> jsobj \<Rightarrow> jsobj \<times> ustr list" where
  "stringKeys all ob =
     (let ob = ensurePropOrder ob in
      (ob, if all then o_propNames ob
           else filter (\<lambda>k. enumerable_slot (o_values ob k)) (o_propNames ob)))"

text \<open>The order ECMAScript asks for: indices ascending, then the others as they were added.\<close>

definition is_idx :: "ustr \<Rightarrow> bool" where
  "is_idx s = (strToArrayIdx s \<noteq> maxUint32)"

definition idx_less :: "ustr \<Rightarrow> ustr \<Rightarrow> bool" where
  "idx_less a b = (strToArrayIdx a < strToArrayIdx b)"

definition names_sorted :: "ustr list \<Rightarrow> nat \<Rightarrow> nat \<Rightarrow> bool" where
  "names_sorted names cnt len \<longleftrightarrow> cnt \<le> len \<and> len \<le> length names
     \<and> sorted_wrt idx_less (take cnt names) \<and> list_all is_idx (take cnt names)
     \<and> list_all (\<lambda>s. \<not> is_idx s) (drop cnt (take len names))"

definition obj_ok :: "jsobj \<Rightarrow> bool" where
  "obj_ok ob \<longleftrightarrow> distinct (o_propNames ob) \<and> set (o_propNames ob) = dom (o_values ob)
     \<and> names_sorted (o_propNames ob) (o_idxCount ob) (o_lastSorted ob)"

text \<open>Two index names with the same index are the same name.\<close>

lemma idx_inj: "is_idx a \<Longrightarrow> strToArrayIdx a = strToArrayIdx b \<Longrightarrow> a = b"
  using strToArrayIdx_iff [of a "strToArrayIdx a"] strToArrayIdx_iff [of b "strToArrayIdx b"]
  by (auto simp: is_idx_def)

lemma fix_step_correct:
  assumes ok: "names_sorted names cnt i" and i: "i < length names" and d: "distinct names"
    and st: "fix_step i (names, cnt) = (names', cnt')"
  shows "names_sorted names' cnt' (Suc i) \<and> mset names' = mset names
    \<and> filter (\<lambda>s. \<not> is_idx s) names' = filter (\<lambda>s. \<not> is_idx s) names
    \<and> drop (Suc i) names' = drop (Suc i) names"
proof -
  define A where "A = take cnt names"
  define B where "B = drop cnt (take i names)"
  define x where "x = names ! i"
  define R where "R = drop (Suc i) names"
  have n: "names = A @ B @ x # R"
  proof -
    have "take i names = take cnt (take i names) @ drop cnt (take i names)"
      by (rule append_take_drop_id [symmetric])
    also have "take cnt (take i names) = A"
      using ok by (simp add: A_def names_sorted_def min_def)
    finally have "take i names = A @ B" by (simp only: B_def)
    then show ?thesis using id_take_nth_drop [OF i] by (simp add: x_def R_def)
  qed
  have la: "length A = cnt" "length (A @ B) = i"
    using ok i by (auto simp: A_def B_def names_sorted_def min_def)
  have sa: "sorted_wrt idx_less A" "list_all is_idx A" "list_all (\<lambda>s. \<not> is_idx s) B"
    using ok by (auto simp: names_sorted_def A_def B_def)
  show ?thesis
  proof (cases "is_idx x")
    case False
    then have "names' = names" "cnt' = cnt"
      using st by (auto simp: fix_step_def x_def [symmetric] is_idx_def Let_def)
    moreover have "drop cnt (take (Suc i) names) = B @ [x]"
      using la by (simp add: n)
    then have "names_sorted names cnt (Suc i)"
      using ok i False sa(3) unfolding names_sorted_def by simp
    ultimately show ?thesis by simp
  next
    case True
    define k where "k = sort_search cnt (\<lambda>j. strToArrayIdx x \<le> strToArrayIdx (names ! j))"
    have nth: "names ! j = A ! j" if "j < cnt" for j
      using that la(1) by (simp add: n nth_append)
    have mono: "strToArrayIdx x \<le> strToArrayIdx (names ! l)"
      if "k \<le> l" "l < cnt" "strToArrayIdx x \<le> strToArrayIdx (names ! k)" for k l
    proof (cases "k = l")
      case False
      then have "idx_less (A ! k) (A ! l)"
        using that la(1) sorted_wrt_nth_less [OF sa(1), of k l] by simp
      then show ?thesis using that nth [of k] nth [of l] by (simp add: idx_less_def)
    qed (use that in simp)
    have k: "k \<le> cnt"
      unfolding k_def by (rule sort_search_spec(1)) (rule mono)
    have below: "\<not> strToArrayIdx x \<le> strToArrayIdx (names ! j)" if "j < k" for j
      using that unfolding k_def by (rule sort_search_spec(2) [rotated]) (rule mono)
    have above: "strToArrayIdx x \<le> strToArrayIdx (names ! j)" if "k \<le> j" "j < cnt" for j
      using that unfolding k_def by (rule sort_search_spec(3) [rotated]) (rule mono)
    have lt: "strToArrayIdx (A ! j) < strToArrayIdx x" if "j < k" for j
      using below [OF that] nth [of j] that k by auto
    have x_notin: "x \<notin> set A" using d n by auto
    have gt: "strToArrayIdx x < strToArrayIdx (A ! j)" if "k \<le> j" "j < cnt" for j
    proof -
      have "strToArrayIdx x \<le> strToArrayIdx (A ! j)" using above [OF that] nth [OF that(2)] by simp
      moreover have "x \<noteq> A ! j" using x_notin that la(1) by auto
      then have "strToArrayIdx x \<noteq> strToArrayIdx (A ! j)" using idx_inj [OF True] by blast
      ultimately show ?thesis by simp
    qed
    have n': "names' = take k A @ x # drop k A @ B @ R" "cnt' = Suc cnt"
    proof -
      have c: "strToArrayIdx x \<noteq> maxUint32" using True by (simp add: is_idx_def)
      have "take k names = take k A" "drop k (take i names) = drop k A @ B"
        using k la by (simp_all add: n)
      moreover have "drop (Suc i) names = R" by (simp add: R_def)
      moreover have "names = take k A @ x # drop k A @ B @ R" if "\<not> k < i"
      proof -
        have "length B = 0" "k = cnt" using that k la unfolding length_append by linarith+
        then show ?thesis using n la by simp
      qed
      ultimately show "names' = take k A @ x # drop k A @ B @ R" "cnt' = Suc cnt"
        using st c by (auto simp: fix_step_def x_def [symmetric] k_def [symmetric] Let_def split: if_splits)
    qed
    have A: "A = take k A @ drop k A" by simp
    define C where "C = take k A @ x # drop k A"
    have C: "length C = Suc cnt" "names' = C @ B @ R" using k la(1) by (simp_all add: C_def n')
    have sorted: "sorted_wrt idx_less (take k A @ x # drop k A)"
      unfolding sorted_wrt_append sorted_wrt.simps
    proof (intro conjI ballI)
      show "sorted_wrt idx_less (take k A)" using sa(1) by (rule sorted_wrt_take)
      show "sorted_wrt idx_less (drop k A)" using sa(1) by (rule sorted_wrt_drop)
      show "idx_less x y" if "y \<in> set (drop k A)" for y
        using that gt la(1) by (auto simp: in_set_conv_nth idx_less_def add.commute)
      show "idx_less y z" if y: "y \<in> set (take k A)" and z: "z \<in> set (x # drop k A)" for y z
      proof (cases "z = x")
        case True
        then show ?thesis using y lt k la(1) by (auto simp: in_set_conv_nth idx_less_def)
      next
        case False
        then have "z \<in> set (drop k A)" using z by simp
        moreover have "sorted_wrt idx_less (take k A @ drop k A)" using sa(1) by simp
        ultimately show ?thesis using y unfolding sorted_wrt_append by blast
      qed
    qed
    have "names_sorted names' cnt' (Suc i)"
    proof -
      have t: "take (Suc cnt) names' = take k A @ x # drop k A"
        "drop (Suc cnt) (take (Suc i) names') = B" "Suc i \<le> length names'" "Suc cnt \<le> Suc i"
        using la C by (simp_all add: C_def [symmetric])
      have "list_all is_idx (take k A @ x # drop k A)"
        using sa(2) True by (auto simp: list_all_iff dest: in_set_takeD in_set_dropD)
      then show ?thesis using sorted sa(3) t(3,4) unfolding names_sorted_def n'(2) t(1,2) by blast
    qed
    moreover have "mset names' = mset names"
    proof -
      have "mset A = mset (take k A) + mset (drop k A)" by (metis A mset_append)
      then show ?thesis by (simp add: n' n)
    qed
    moreover have "filter (\<lambda>s. \<not> is_idx s) names' = filter (\<lambda>s. \<not> is_idx s) names"
    proof -
      have "filter (\<lambda>s. \<not> is_idx s) C = []" if "set C \<subseteq> set A" for C
        using that sa(2) by (auto simp: filter_empty_conv list_all_iff)
      then show ?thesis using True by (simp add: n' n set_take_subset set_drop_subset)
    qed
    moreover have "drop (Suc i) names' = drop (Suc i) names"
      using la C by (simp add: R_def [symmetric])
    ultimately show ?thesis by blast
  qed
qed

lemma fix_fold_correct:
  assumes "names_sorted names cnt i" "i \<le> length names" "distinct names"
    "fold fix_step [i ..< length names] (names, cnt) = (names', cnt')"
  shows "names_sorted names' cnt' (length names) \<and> mset names' = mset names
    \<and> filter (\<lambda>s. \<not> is_idx s) names' = filter (\<lambda>s. \<not> is_idx s) names"
  using assms
proof (induction "length names - i" arbitrary: i names cnt)
  case (Suc m)
  then have i: "i < length names" by simp
  obtain n1 c1 where st: "fix_step i (names, cnt) = (n1, c1)" by fastforce
  note s = fix_step_correct [OF Suc.prems(1) i Suc.prems(3) st]
  have len: "length n1 = length names" using s by (metis size_mset)
  have "fold fix_step [Suc i ..< length n1] (n1, c1) = (names', cnt')"
    using Suc.prems(4) i st len by (simp add: upt_conv_Cons)
  moreover have "distinct n1" using s Suc.prems(3) by (metis mset_eq_imp_distinct_iff)
  ultimately have "names_sorted names' cnt' (length n1) \<and> mset names' = mset n1
    \<and> filter (\<lambda>s. \<not> is_idx s) names' = filter (\<lambda>s. \<not> is_idx s) n1"
    using Suc.hyps(2) i s len by (intro Suc.hyps(1)) auto
  then show ?case using s len by simp
qed simp

lemma ensurePropOrder_correct:
  assumes "obj_ok ob"
  shows "obj_ok (ensurePropOrder ob) \<and> o_values (ensurePropOrder ob) = o_values ob
    \<and> o_lastSorted (ensurePropOrder ob) = length (o_propNames (ensurePropOrder ob))
    \<and> filter (\<lambda>s. \<not> is_idx s) (o_propNames (ensurePropOrder ob)) = filter (\<lambda>s. \<not> is_idx s) (o_propNames ob)
    \<and> set (o_propNames (ensurePropOrder ob)) = set (o_propNames ob)"
proof (cases "o_lastSorted ob < length (o_propNames ob)")
  case True
  obtain names cnt where f: "fold fix_step [o_lastSorted ob ..< length (o_propNames ob)]
      (o_propNames ob, o_idxCount ob) = (names, cnt)" by fastforce
  have c: "names_sorted names cnt (length (o_propNames ob))" "mset names = mset (o_propNames ob)"
    "filter (\<lambda>s. \<not> is_idx s) names = filter (\<lambda>s. \<not> is_idx s) (o_propNames ob)"
    using fix_fold_correct [OF _ _ _ f] assms True by (auto simp: obj_ok_def)
  then have "length names = length (o_propNames ob)" "set names = set (o_propNames ob)"
    "distinct names" using assms by (metis size_mset, metis set_mset_mset,
      metis mset_eq_imp_distinct_iff obj_ok_def)
  then show ?thesis
    using True f c assms by (auto simp: ensurePropOrder_def fixPropOrder_def obj_ok_def)
qed (use assms in \<open>auto simp: ensurePropOrder_def obj_ok_def names_sorted_def\<close>)

text \<open>
  \<open>stringKeys\<close> lists the own property names in the order of \<open>OrdinaryOwnPropertyKeys\<close>:
  first the array indices, in ascending order, then the other names in the order in which
  they were added; every own name once. The lazy sorting leaves the properties unchanged.
\<close>

theorem stringKeys_order:
  assumes "obj_ok ob" "stringKeys True ob = (ob', keys)"
  shows "\<exists>is ns. keys = is @ ns \<and> list_all is_idx is \<and> sorted_wrt idx_less is
    \<and> ns = filter (\<lambda>s. \<not> is_idx s) (o_propNames ob) \<and> distinct keys
    \<and> set keys = dom (o_values ob) \<and> obj_ok ob' \<and> o_values ob' = o_values ob"
proof -
  note e = ensurePropOrder_correct [OF assms(1)]
  define k where "k = o_idxCount ob'"
  have ob': "ob' = ensurePropOrder ob" "keys = o_propNames ob'"
    using assms(2) by (auto simp: stringKeys_def Let_def)
  have so: "names_sorted keys k (length keys)" and dk: "distinct keys" "set keys = dom (o_values ob')"
    using e ob' by (auto simp: obj_ok_def k_def)
  have s: "list_all is_idx (take k keys)" "sorted_wrt idx_less (take k keys)"
    "list_all (\<lambda>s. \<not> is_idx s) (drop k keys)"
    using so by (auto simp: names_sorted_def)
  have "filter (\<lambda>s. \<not> is_idx s) keys = filter (\<lambda>s. \<not> is_idx s) (take k keys @ drop k keys)"
    by (simp only: append_take_drop_id)
  also have "\<dots> = drop k keys"
    using s unfolding filter_append by (simp add: filter_empty_conv filter_id_conv list_all_iff)
  finally have "drop k keys = filter (\<lambda>s. \<not> is_idx s) (o_propNames ob)" using e ob' by simp
  then have "keys = take k keys @ drop k keys \<and> drop k keys = filter (\<lambda>s. \<not> is_idx s) (o_propNames ob)"
    by (intro conjI append_take_drop_id [symmetric])
  moreover have "set keys = dom (o_values ob)" "obj_ok ob'" "o_values ob' = o_values ob"
    using e ob' dk by simp_all
  ultimately show ?thesis using s dk(1) by blast
qed

section \<open>The invariant of an object\<close>

lemma obj_ok_put_value:
  assumes "obj_ok ob" "o_values ob name \<noteq> None"
  shows "obj_ok (put_value name s ob)"
  using assms by (auto simp: obj_ok_def put_value_def)

lemma names_sorted_snoc: "names_sorted names cnt len \<Longrightarrow> names_sorted (names @ [x]) cnt len"
  by (simp add: names_sorted_def)

lemma obj_ok_add:
  assumes "obj_ok ob" "o_values ob name = None"
  shows "obj_ok (add_name name (put_value name s ob))" "obj_ok (put_value name s (add_name name ob))"
  using assms names_sorted_snoc by (auto simp: obj_ok_def add_name_def put_value_def)

lemma index_of_Some: "index_of x xs = Some i \<Longrightarrow> i < length xs \<and> xs ! i = x"
  by (induction xs arbitrary: i) (auto split: if_splits)

lemma index_of_None: "index_of x xs = None \<longleftrightarrow> x \<notin> set xs"
  by (induction xs) auto

lemma sorted_wrt_remove_nth: "sorted_wrt R xs \<Longrightarrow> sorted_wrt R (take i xs @ drop (Suc i) xs)"
proof -
  assume a: "sorted_wrt R xs"
  have "sorted_wrt R (take (Suc i) xs @ drop (Suc i) xs)" using a by simp
  moreover have "set (take i xs) \<subseteq> set (take (Suc i) xs)" by (rule set_take_subset_set_take) simp
  ultimately show ?thesis using sorted_wrt_take [OF a, of i] unfolding sorted_wrt_append by blast
qed

lemma names_sorted_delete:
  assumes ok: "names_sorted names cnt len" and i: "i < length names"
  shows "names_sorted (take i names @ drop (Suc i) names)
    (if i < len \<and> i < cnt then cnt - 1 else cnt) (if i < len then len - 1 else len)"
proof -
  define A where "A = take cnt names"
  define B where "B = drop cnt (take len names)"
  define R where "R = drop len names"
  have le: "cnt \<le> len" "len \<le> length names" using ok by (auto simp: names_sorted_def)
  have n: "names = A @ B @ R"
  proof -
    have "take len names = take cnt (take len names) @ drop cnt (take len names)"
      by (rule append_take_drop_id [symmetric])
    also have "take cnt (take len names) = A" using le by (simp add: A_def min_def)
    finally have "take len names = A @ B" by (simp only: B_def)
    then show ?thesis using append_take_drop_id [of len names] by (simp add: R_def)
  qed
  have la: "length A = cnt" "length B = len - cnt" using le by (simp_all add: A_def B_def)
  have s: "sorted_wrt idx_less A" "list_all is_idx A" "list_all (\<lambda>s. \<not> is_idx s) B"
    using ok by (auto simp: names_sorted_def A_def B_def)
  have all: "list_all P (take j xs @ drop (Suc j) xs)" if "list_all P xs" for P j and xs :: "ustr list"
    using that by (auto simp: list_all_iff dest: in_set_takeD in_set_dropD)
  consider "i < cnt" | "cnt \<le> i" "i < len" | "len \<le> i" by linarith
  then show ?thesis
  proof cases
    case 1
    define A' where "A' = take i A @ drop (Suc i) A"
    have A': "length A' = cnt - 1" "sorted_wrt idx_less A'" "list_all is_idx A'"
      using 1 la sorted_wrt_remove_nth [OF s(1)] all [OF s(2)] by (simp_all add: A'_def)
    have "take i names @ drop (Suc i) names = A' @ B @ R" using 1 la by (simp add: n A'_def)
    then show ?thesis
      using 1 le la A' s(3) unfolding names_sorted_def by (simp add: n) arith
  next
    case 2
    define B' where "B' = take (i - cnt) B @ drop (Suc (i - cnt)) B"
    have B': "length B' = len - cnt - 1" "list_all (\<lambda>s. \<not> is_idx s) B'"
      using 2 la all [OF s(3)] by (simp_all add: B'_def)
    have "take i names @ drop (Suc i) names = A @ B' @ R"
      using 2 la by (simp add: n B'_def Suc_diff_le)
    then show ?thesis
      using 2 le la B' s(1,2) unfolding names_sorted_def by (simp add: n) arith
  next
    case 3
    define R' where "R' = take (i - len) R @ drop (Suc (i - len)) R"
    have "take i names @ drop (Suc i) names = A @ B @ R'"
      using 3 la le by (simp add: n R'_def Suc_diff_le)
    then show ?thesis using 3 le la s unfolding names_sorted_def by (simp add: n)
  qed
qed

lemma obj_ok_delete:
  assumes ok: "obj_ok ob"
  shows "obj_ok (base_delete name ob)"
proof (cases "index_of name (o_propNames ob)")
  case None
  then have "name \<notin> dom (o_values ob)" using ok by (simp add: obj_ok_def index_of_None)
  then show ?thesis using None ok by (auto simp: base_delete_def obj_ok_def)
next
  case (Some i)
  then have i: "i < length (o_propNames ob)" "o_propNames ob ! i = name" by (auto dest: index_of_Some)
  define names where "names = take i (o_propNames ob) @ drop (Suc i) (o_propNames ob)"
  have sp: "o_propNames ob = take i (o_propNames ob) @ name # drop (Suc i) (o_propNames ob)"
    using id_take_nth_drop [OF i(1)] i(2) by simp
  have d: "distinct (o_propNames ob)" "set (o_propNames ob) = dom (o_values ob)"
    using ok by (auto simp: obj_ok_def)
  have "distinct names \<and> set names = set (o_propNames ob) - {name}"
    using d(1) unfolding names_def by (subst (asm) sp, subst sp) auto
  moreover have "names_sorted names (if i < o_lastSorted ob \<and> i < o_idxCount ob then o_idxCount ob - 1 else o_idxCount ob)
      (if i < o_lastSorted ob then o_lastSorted ob - 1 else o_lastSorted ob)"
    unfolding names_def using names_sorted_delete [OF _ i(1)] ok by (auto simp: obj_ok_def)
  ultimately show ?thesis
    using Some d(2) by (auto simp: base_delete_def obj_ok_def names_def Let_def)
qed

definition heap_ok :: "oheap \<Rightarrow> bool" where
  "heap_ok H \<longleftrightarrow> (\<forall>a ob. H a = Some ob \<longrightarrow> obj_ok ob)"

lemma heap_ok_upd: "heap_ok H \<Longrightarrow> obj_ok ob \<Longrightarrow> heap_ok (H(a \<mapsto> ob))"
  by (simp add: heap_ok_def)

text \<open>User code is trusted to keep the invariant: it can only use these operations.\<close>

definition call_ok :: "env \<Rightarrow> bool" where
  "call_ok E \<longleftrightarrow> (\<forall>H f this args. heap_ok H \<longrightarrow> heap_ok (fst (e_call E H f this args)))"

lemma put_value_idem: "o_values ob name = Some s \<Longrightarrow> put_value name s ob = ob"
  by (cases ob) (simp add: put_value_def fun_upd_idem)

lemma base_define_cur:
  "base_defineOwnProperty E ext ev descr throw = (cur, r) \<Longrightarrow> (cur = None) = (ev = None)"
  by (auto simp: base_defineOwnProperty_def Let_def split: if_splits sum.splits option.splits slot.splits)

lemma defineOwnPropertyStr_ok:
  assumes "heap_ok H"
  shows "heap_ok (fst (defineOwnPropertyStr E H a name descr throw))"
proof (cases "H a")
  case (Some ob)
  then have ob: "obj_ok ob" using assms by (simp add: heap_ok_def)
  obtain cur r where d: "base_defineOwnProperty E (o_extensible ob) (o_values ob name) descr throw = (cur, r)"
    by fastforce
  note c = base_define_cur [OF d]
  show ?thesis
  proof (cases "o_values ob name")
    case None
    then have "cur = None" using c by simp
    then show ?thesis
      using Some d None ob assms obj_ok_add [OF ob None]
      by (auto simp: defineOwnPropertyStr_def with_obj_def Let_def heap_ok_upd split: sum.splits option.splits)
  next
    case (Some sl)
    then obtain s where cur: "cur = Some s" using c by auto
    have ok1: "obj_ok (put_value name s ob)" using ob Some by (intro obj_ok_put_value) auto
    moreover have "obj_ok (put_value name v (put_value name s ob))" for v
      by (rule obj_ok_put_value [OF ok1]) (simp add: put_value_def)
    ultimately have "obj_ok (put_value name s ob)" "\<And>v. obj_ok (put_value name v (put_value name s ob))"
      by blast+
    then show ?thesis
      using \<open>H a = Some ob\<close> d Some cur assms
      by (auto simp: defineOwnPropertyStr_def with_obj_def Let_def heap_ok_upd split: sum.splits option.splits)
  qed
qed (use assms in \<open>simp add: defineOwnPropertyStr_def with_obj_def\<close>)

lemma deleteStr_ok: "heap_ok H \<Longrightarrow> heap_ok (fst (deleteStr H a name throw))"
  by (auto simp: deleteStr_def with_obj_def heap_ok_def obj_ok_delete
      split: option.splits sum.splits bool.splits)

lemma preventExtensions_ok: "heap_ok H \<Longrightarrow> heap_ok (fst (preventExtensions H a))"
  by (auto simp: preventExtensions_def with_obj_def heap_ok_def obj_ok_def split: option.splits)

lemma set_new_prop_ok:
  "heap_ok H \<Longrightarrow> (\<And>ob. H a = Some ob \<Longrightarrow> o_values ob name = None) \<Longrightarrow>
   heap_ok (fst (set_new_prop H a name val throw))"
  by (auto simp: set_new_prop_def with_obj_def split: option.splits intro!: heap_ok_upd obj_ok_add)
    (auto simp: heap_ok_def)

lemma setForeign_unhandled:
  "setForeignStr E n H a name val receiver throw = Some (H', Inr (r, False)) \<Longrightarrow> H' = H"
proof (induction n arbitrary: a)
  case (Suc n)
  then show ?case
    by (auto simp: typeErrorResult_def mapS_eq_Inr split: option.splits slot.splits if_splits)
qed simp

lemma vp_set_ok:
  assumes "heap_ok H" "call_ok E" "\<And>ob. H a = Some ob \<Longrightarrow> o_values ob name \<noteq> None"
  shows "heap_ok (fst (vp_set E H a name p this v))"
  using assms obj_ok_put_value
  by (auto simp: vp_set_def with_obj_def call_ok_def split: option.splits intro!: heap_ok_upd)
    (auto simp: heap_ok_def)

lemma set_ok:
  assumes "call_ok E"
  shows "heap_ok H \<Longrightarrow> setOwnStr E n H a name val throw = Some (H', r) \<Longrightarrow> heap_ok H'"
    and "heap_ok H \<Longrightarrow> setForeignStr E n H a name val receiver throw = Some (H', r2) \<Longrightarrow> heap_ok H'"
proof (induction n arbitrary: H a H' r r2 receiver)
  case (Suc n)
  {
    case 1
    show ?case
    proof (cases "H a")
      case (Some ob)
      note ha = this
      have ob: "obj_ok ob" using 1 ha by (simp add: heap_ok_def)
      have new: "heap_ok (fst (set_new_prop H a name val throw))" if "o_values ob name = None"
        using that 1(1) ha by (intro set_new_prop_ok) auto
      show ?thesis
      proof (cases "o_values ob name")
        case None
        show ?thesis
        proof (cases "o_prototype ob")
          case None
          then show ?thesis using 1(2) ha \<open>o_values ob name = None\<close> new by auto
        next
          case (Some p)
          then have "handled_or (setForeignStr E n H p name val (VObject a) throw)
              (\<lambda>H. set_new_prop H a name val throw) = Some (H', r)"
            using 1(2) ha None by simp
          then obtain H1 r1 where f: "setForeignStr E n H p name val (VObject a) throw = Some (H1, r1)"
            by (auto simp: handled_or_def split: option.splits)
          have "heap_ok H1" using Suc.IH(2) [OF 1(1) f] .
          then show ?thesis
            using \<open>handled_or _ _ = _\<close> f setForeign_unhandled [of E n H p name val "VObject a" throw H1] new None
            by (auto simp: handled_or_def split: sum.splits if_splits prod.splits)
        qed
      next
        case (Some s)
        have w: "heap_ok (fst (vp_set E H a name p this v))" for p this v
          by (rule vp_set_ok [OF 1(1) assms]) (use ha Some in auto)
        show ?thesis
        proof (cases s)
          case (Plain x)
          then have h: "H' = H(a \<mapsto> put_value name (Plain val) ob)" using 1(2) ha Some by simp
          show ?thesis unfolding h by (rule heap_ok_upd [OF 1(1) obj_ok_put_value [OF ob]]) (simp add: Some)
        next
          case (Prop p)
          then show ?thesis
            using 1 ha Some w [of p "VObject a" val] by (auto split: if_splits simp: mapS_def)
        qed
      qed
    qed (use 1 in simp)
  next
    case 2
    show ?case
    proof (cases "H a")
      case (Some ob)
      note ha = this
      show ?thesis
      proof (cases "o_values ob name")
        case None
        show ?thesis
        proof (cases "o_prototype ob")
          case (Some p)
          show ?thesis
          proof (cases "receiver = VObject p")
            case True
            then obtain x where "setOwnStr E n H p name val throw = Some x" "H' = fst x"
              using 2(2) ha None Some by (auto simp: mapS_def)
            then show ?thesis using Suc.IH(1) [OF 2(1), of p H' "snd x"] by simp
          next
            case False
            then show ?thesis using 2(2) ha None Some Suc.IH(2) [OF 2(1)] by auto
          qed
        qed (use 2 ha None in auto)
      next
        case (Some s)
        have w: "heap_ok (fst (vp_set E H a name p this v))" for p this v
          by (rule vp_set_ok [OF 2(1) assms]) (use ha Some in auto)
        show ?thesis
        proof (cases s)
          case (Prop p)
          then show ?thesis
            using 2 ha Some w [of p receiver val] by (auto split: if_splits simp: mapS_def)
        qed (use 2 ha Some in auto)
      qed
    qed (use 2 in simp)
  }
qed simp_all

text \<open>
  C8. Every operation on string properties keeps the invariant of the objects: the list of
  names holds each own property exactly once, and its sorted part stays sorted, whether the
  operation succeeds, is refused or raises.
\<close>

theorem object_invariant:
  assumes "heap_ok H" "call_ok E"
  shows "heap_ok (fst (defineOwnPropertyStr E H a name descr throw))
    \<and> heap_ok (fst (deleteStr H a name throw)) \<and> heap_ok (fst (preventExtensions H a))
    \<and> (\<forall>n H' r. setOwnStr E n H a name val throw = Some (H', r) \<longrightarrow> heap_ok H')
    \<and> (\<forall>n H' r. object_setStr E n H a name val receiver throw = Some (H', r) \<longrightarrow> heap_ok H')"
proof (intro conjI allI impI)
  show "heap_ok H'" if s: "object_setStr E n H a name val receiver throw = Some (H', r)" for n H' r
  proof (cases "receiver = VObject a")
    case True
    then show ?thesis using s set_ok(1) [OF assms(2,1)] by (auto simp: object_setStr_def)
  next
    case False
    with s obtain H1 r1 where f: "setForeignStr E n H a name val receiver throw = Some (H1, r1)"
      by (auto simp: object_setStr_def handled_or_def split: option.splits)
    have h1: "heap_ok H1" using set_ok(2) [OF assms(2,1) f] .
    have d: "heap_ok H2" if "defineOwnPropertyStr E H1 x name dd throw = (H2, r2)" for x dd H2 r2
      using defineOwnPropertyStr_ok [OF h1, of E x name dd throw] that by simp
    show ?thesis
      using s False f h1 d
      by (auto simp: object_setStr_def handled_or_def with_obj_def
          split: sum.splits if_splits prod.splits jsval.splits option.splits slot.splits)
  qed
next
  show "heap_ok H'" if "setOwnStr E n H a name val throw = Some (H', r)" for n H' r
    using set_ok(1) [OF assms(2,1) that] .
qed (simp_all add: assms defineOwnPropertyStr_ok deleteStr_ok preventExtensions_ok)

section \<open>Redefinition of a non-configurable property\<close>

text \<open>
  A property as the code keeps it, and a descriptor as \<open>toPropertyDescriptor\<close> builds it:
  not both of a data and of an accessor property.
\<close>

definition prop_ok :: "valueProperty \<Rightarrow> bool" where
  "prop_ok p \<longleftrightarrow>
     (if vp_accessor p then vp_value p = None
      else vp_value p \<noteq> None \<and> vp_getter p = None \<and> vp_setter p = None)"

definition desc_ok :: "propdesc \<Rightarrow> bool" where
  "desc_ok d \<longleftrightarrow> \<not> (pd_IsAccessor d \<and> pd_IsData d)"

text \<open>
  The two shapes of a descriptor whose change of kind the code overlooks: an accessor
  descriptor whose functions are undefined, for a data property, and one that only sets
  \<open>writable\<close>, for an accessor property.
\<close>

definition desc_overlooked :: "valueProperty \<Rightarrow> propdesc \<Rightarrow> bool" where
  "desc_overlooked p d \<longleftrightarrow>
     (if vp_accessor p then pd_value d = None \<and> pd_writable d \<noteq> FLAG_NOT_SET
      else pd_IsAccessor d \<and> object_of (pd_getter d) = None \<and> object_of (pd_setter d) = None)"

lemma propGetter_object: "propGetter E g = Inr f \<Longrightarrow> f = object_of (Some g)"
  by (auto simp: propGetter_def object_of_def split: jsval.splits if_splits)

lemma propSetter_object: "propSetter E g = Inr f \<Longrightarrow> f = object_of (Some g)"
  by (auto simp: propSetter_def object_of_def split: jsval.splits if_splits)

lemma define_flags_simps:
  "vp_configurable (define_flags d p) =
     (if pd_configurable d = FLAG_NOT_SET then vp_configurable p else flag_bool (pd_configurable d))"
  "vp_enumerable (define_flags d p) =
     (if pd_enumerable d = FLAG_NOT_SET then vp_enumerable p else flag_bool (pd_enumerable d))"
  "vp_writable (define_flags d p) =
     (if pd_writable d = FLAG_NOT_SET then vp_writable p else flag_bool (pd_writable d))"
  "vp_value (define_flags d p) = (if pd_value d = None then vp_value p else pd_value d)"
  "vp_getter (define_flags d p) = (if pd_value d = None then vp_getter p else None)"
  "vp_setter (define_flags d p) = (if pd_value d = None then vp_setter p else None)"
  "vp_accessor (define_flags d p) =
     (if pd_value d \<noteq> None \<or> pd_writable d \<noteq> FLAG_NOT_SET then False else vp_accessor p)"
  by (simp_all add: define_flags_def Let_def)

lemma define_getter_same:
  assumes "define_getter E d p = Inr p2" "pd_getter d \<noteq> None \<longrightarrow> vp_getter p = object_of (pd_getter d)"
    "vp_accessor p" "vp_value p = None"
  shows "p2 = p"
  using assms by (cases p) (auto simp: define_getter_def mapR_def split: option.splits sum.splits dest!: propGetter_object)

lemma define_setter_same:
  assumes "define_setter E d p = Inr p2" "pd_setter d \<noteq> None \<longrightarrow> vp_setter p = object_of (pd_setter d)"
    "vp_accessor p" "vp_value p = None"
  shows "p2 = p"
  using assms by (cases p) (auto simp: define_setter_def mapR_def split: option.splits sum.splits dest!: propSetter_object)


section \<open>The prototype chain ends\<close>

definition proto_of :: "oheap \<Rightarrow> nat \<Rightarrow> nat option" where
  "proto_of H a = (case H a of None \<Rightarrow> None | Some ob \<Rightarrow> o_prototype ob)"

lemma proto_of_simps [simp]:
  "H a = Some ob \<Longrightarrow> proto_of H a = o_prototype ob" "H a = None \<Longrightarrow> proto_of H a = None"
  by (simp_all add: proto_of_def)

definition chains_end :: "oheap \<Rightarrow> bool" where
  "chains_end H \<longleftrightarrow> (\<forall>a. \<exists>xs. linked (proto_of H) (Some a) xs)"

lemma linked_suffix: "linked nx p (ys @ x # zs) \<Longrightarrow> linked nx (Some x) (x # zs)"
  by (induction ys arbitrary: p) auto

lemma linked_distinct: "linked nx p xs \<Longrightarrow> distinct xs"
proof (induction xs arbitrary: p)
  case (Cons x xs)
  have "x \<notin> set xs"
  proof
    assume "x \<in> set xs"
    then obtain ys zs where xs: "xs = ys @ x # zs" by (auto dest: split_list)
    then have "linked nx (Some x) (x # zs)" using Cons.prems linked_suffix [of nx p "x # ys" x zs] by simp
    moreover have "linked nx (Some x) (x # xs)" using Cons.prems by simp
    ultimately have "x # xs = x # zs" by (rule linked_unique [rotated])
    then show False using xs by (metis append_eq_append_conv2 length_Cons length_append list.inject
          not_add_less2 append.assoc append_Cons append_self_conv2 impossible_Cons le_add2)
  qed
  then show ?case using Cons by auto
qed simp

lemma linked_splice:
  "linked nx p (ys @ a # zs) \<Longrightarrow> (\<And>y. y \<in> set ys \<Longrightarrow> nx' y = nx y) \<Longrightarrow> linked nx' (nx' a) cs \<Longrightarrow>
   linked nx' p (ys @ a # cs)"
  by (induction ys arbitrary: p) auto

lemma chain_length:
  assumes "linked (proto_of H) p xs" "finite (dom H)"
  shows "length xs \<le> Suc (card (dom H))"
proof -
  have "set xs \<subseteq> insert (last xs) (dom H)"
  proof
    fix x assume "x \<in> set xs"
    then obtain ys zs where xs: "xs = ys @ x # zs" by (auto dest: split_list)
    show "x \<in> insert (last xs) (dom H)"
    proof (cases "zs = []")
      case False
      then have "proto_of H x \<noteq> None" using assms(1) linked_nth [of "proto_of H" p ys x zs] xs by auto
      then show ?thesis by (auto simp: proto_of_def split: option.splits)
    qed (simp add: xs)
  qed
  then have "card (set xs) \<le> card (insert (last xs) (dom H))"
    using assms(2) by (intro card_mono) auto
  also have "\<dots> \<le> Suc (card (dom H))" by (rule card_insert_le_m1) simp_all
  finally show ?thesis using distinct_card [OF linked_distinct [OF assms(1)]] by simp
qed

lemma chain_step: "linked (proto_of H) (Some a) xs \<Longrightarrow> H a = Some ob \<Longrightarrow>
  \<exists>ys. xs = a # ys \<and> linked (proto_of H) (o_prototype ob) ys"
  by (cases xs) (auto simp: proto_of_def)

lemma proto_cycle_iff:
  "linked (proto_of H) p xs \<Longrightarrow> length xs < n \<Longrightarrow> proto_cycle n H p a = Some (a \<in> set xs)"
proof (induction n arbitrary: p xs)
  case (Suc n)
  show ?case
  proof (cases p)
    case (Some b)
    then obtain ys where ys: "xs = b # ys" "linked (proto_of H) (proto_of H b) ys"
      using Suc.prems(1) by (cases xs) auto
    then show ?thesis
      using Some Suc.prems(2) Suc.IH [of "proto_of H b" ys]
      by (cases "H b"; cases ys) auto
  qed (use Suc.prems in \<open>cases xs; simp\<close>)
qed simp

lemma proto_cycle_False:
  "linked (proto_of H) p xs \<Longrightarrow> proto_cycle n H p a = Some False \<Longrightarrow> a \<notin> set xs"
proof (induction n arbitrary: p xs)
  case (Suc n)
  show ?case
  proof (cases p)
    case (Some b)
    then obtain ys where ys: "xs = b # ys" "linked (proto_of H) (proto_of H b) ys"
      using Suc.prems(1) by (cases xs) auto
    show ?thesis
    proof (cases "H b")
      case None
      then have "ys = []" using ys(2) by (cases ys) (auto simp: proto_of_def)
      then show ?thesis using Suc.prems(2) Some ys(1) by (auto split: if_splits)
    next
      case (Some ob)
      then show ?thesis using Suc.prems(2) \<open>p = Some b\<close> ys Suc.IH [of "o_prototype ob" ys]
        by (auto split: if_splits)
    qed
  qed (use Suc.prems in \<open>cases xs; simp\<close>)
qed simp

lemma chains_end_proto: "chains_end H \<Longrightarrow> \<exists>xs. linked (proto_of H) p xs"
  by (cases p) (auto simp: chains_end_def intro: exI [of _ "[]"])

text \<open>
  C10. \<open>setProto\<close> keeps the prototype chains free of cycles: when every chain ends before
  the call, every chain ends after it, whatever the new prototype and the outcome.
\<close>

theorem setProto_acyclic:
  assumes "chains_end H" "setProto E n H a proto throw = Some (H', r)"
  shows "chains_end H'"
proof (cases "H' = H")
  case False
  then obtain ob where ob: "H a = Some ob" and pc: "proto_cycle n H proto a = Some False"
    and H': "H' = H(a \<mapsto> ob\<lparr>o_prototype := proto\<rparr>)"
    using assms(2) by (auto simp: setProto_def split: option.splits if_splits bool.splits)
  obtain cs where cs: "linked (proto_of H) proto cs" using chains_end_proto [OF assms(1)] by blast
  have a: "a \<notin> set cs" by (rule proto_cycle_False [OF cs pc])
  have nx: "proto_of H' b = (if b = a then proto else proto_of H b)" for b
    by (simp add: H' proto_of_def)
  have cs': "linked (proto_of H') proto cs"
    by (rule linked_transfer [OF cs]) (use a nx in auto)
  show ?thesis unfolding chains_end_def
  proof
    fix b
    obtain xs where xs: "linked (proto_of H) (Some b) xs" using assms(1) by (auto simp: chains_end_def)
    show "\<exists>xs. linked (proto_of H') (Some b) xs"
    proof (cases "a \<in> set xs")
      case True
      then obtain ys zs where s: "xs = ys @ a # zs" by (auto dest: split_list)
      then have ny: "a \<notin> set ys" using linked_distinct [OF xs] by simp
      have "linked (proto_of H') (Some b) (ys @ a # cs)"
      proof (rule linked_splice)
        show "linked (proto_of H) (Some b) (ys @ a # zs)" using xs s by simp
        show "linked (proto_of H') (proto_of H' a) cs" using cs' nx by simp
      qed (use ny nx in auto)
      then show ?thesis by blast
    next
      case False
      then have "linked (proto_of H') (Some b) xs"
        by (intro linked_transfer [OF xs]) (use nx in auto)
      then show ?thesis by blast
    qed
  qed
qed (use assms in simp)

lemma chain_fuel:
  assumes "linked (proto_of H) (Some a) xs" "length xs \<le> n"
  shows "hasPropertyStr n H a name \<noteq> None" "getStr E n H a name recv \<noteq> None"
    "setOwnStr E n H a name val throw \<noteq> None" "setForeignStr E n H a name val r throw \<noteq> None"
proof -
  have "\<forall>r recv. hasPropertyStr n H a name \<noteq> None \<and> getStr E n H a name recv \<noteq> None
    \<and> setOwnStr E n H a name val throw \<noteq> None \<and> setForeignStr E n H a name val r throw \<noteq> None"
    using assms
  proof (induction n arbitrary: a xs)
    case 0
    then show ?case by simp
  next
    case (Suc n)
    show ?case
    proof (cases "H a")
      case (Some ob)
      then obtain ys where ys: "xs = a # ys" "linked (proto_of H) (o_prototype ob) ys"
        using chain_step [OF Suc.prems(1)] by blast
      show ?thesis
      proof (cases "o_prototype ob")
        case (Some p)
        then have "\<forall>r recv. hasPropertyStr n H p name \<noteq> None \<and> getStr E n H p name recv \<noteq> None
          \<and> setOwnStr E n H p name val throw \<noteq> None \<and> setForeignStr E n H p name val r throw \<noteq> None"
          using Suc.IH [of p ys] Suc.prems(2) ys by simp
        then have "setForeignStr E n H p name val r throw \<noteq> None" "getStr E n H p name recv \<noteq> None"
          "hasPropertyStr n H p name \<noteq> None" "setOwnStr E n H p name val throw \<noteq> None" for r recv
          by blast+
        moreover have "handled_or q g \<noteq> None" if "q \<noteq> None" for q g
          using that by (auto simp: handled_or_def split: sum.splits)
        ultimately show ?thesis using \<open>H a = Some ob\<close> Some
          by (auto simp: Let_def split: slot.splits option.splits)
      qed (use Some in \<open>auto simp: Let_def split: option.splits slot.splits\<close>)
    qed auto
  qed
  then show "hasPropertyStr n H a name \<noteq> None" "getStr E n H a name recv \<noteq> None"
    "setOwnStr E n H a name val throw \<noteq> None" "setForeignStr E n H a name val r throw \<noteq> None"
    by blast+
qed

text \<open>
  C22. When the chains end, every lookup and assignment along them returns: fuel for one more
  than the objects of the heap is enough, and one more for the check of \<open>setProto\<close>.
\<close>

theorem chain_operations_return:
  assumes "chains_end H" "finite (dom H)" "card (dom H) + 1 < n"
  shows "hasPropertyStr n H a name \<noteq> None \<and> getStr E n H a name recv \<noteq> None
    \<and> setOwnStr E n H a name val throw \<noteq> None \<and> object_setStr E n H a name val r throw \<noteq> None
    \<and> setProto E n H a proto throw \<noteq> None"
proof -
  obtain xs where xs: "linked (proto_of H) (Some a) xs" using assms(1) by (auto simp: chains_end_def)
  then have "length xs \<le> n" using chain_length [OF xs assms(2)] assms(3) by simp
  note f = chain_fuel [OF xs this]
  obtain cs where cs: "linked (proto_of H) proto cs" using chains_end_proto [OF assms(1)] by blast
  then have "length cs < n" using chain_length [OF cs assms(2)] assms(3) by simp
  then have "setProto E n H a proto throw \<noteq> None"
    using proto_cycle_iff [OF cs] by (auto simp: setProto_def split: option.splits bool.splits)
  moreover have "object_setStr E n H a name val r throw \<noteq> None"
    using f(3) [of E name val throw] f(4) [of E name val r throw]
    by (auto simp: object_setStr_def handled_or_def split: option.splits sum.splits)
  ultimately show ?thesis using f(1) [of name] f(2) [of E name recv] f(3) [of E name val throw] by blast
qed

section \<open>What an assignment does\<close>

lemma foreign_without_setters:
  assumes "\<forall>b ob p. H b = Some ob \<longrightarrow> o_values ob name = Some (Prop p) \<longrightarrow> vp_getter p = None \<and> vp_setter p = None"
    and "linked (proto_of H) (Some b) xs" "a \<notin> set xs"
    and "setForeignStr E n H b name val (VObject a) throw = Some (H', Inr (r, h))"
  shows "H' = H \<and> \<not> r"
  using assms(2-)
proof (induction n arbitrary: b xs)
  case (Suc n)
  show ?case
  proof (cases "H b")
    case (Some ob)
    note hb = this
    obtain ys where ys: "xs = b # ys" "linked (proto_of H) (o_prototype ob) ys"
      using chain_step [OF Suc.prems(1) Some] by blast
    show ?thesis
    proof (cases "o_values ob name")
      case None
      show ?thesis
      proof (cases "o_prototype ob")
        case (Some p)
        have "linked (proto_of H) (Some p) ys" using ys(2) Some by simp
        moreover have "a \<notin> set ys" using Suc.prems(2) ys(1) by simp
        moreover from this have "VObject a \<noteq> VObject p" using calculation by (cases ys) auto
        then have "setForeignStr E n H p name val (VObject a) throw = Some (H', Inr (r, h))"
          using Suc.prems(3) hb None Some by simp
        ultimately show ?thesis by (rule Suc.IH)
      qed (use Suc.prems(3) hb None in auto)
    next
      case (Some s)
      then have "\<And>p. s = Prop p \<Longrightarrow> vp_setter p = None" using assms(1) hb by blast
      then show ?thesis using Suc.prems(3) hb Some by (cases s) (auto split: if_splits)
    qed
  qed (use Suc.prems(3) in simp)
qed simp


section \<open>Where the code departs from ECMAScript\<close>

text \<open>
  A descriptor \<open>{get: undefined}\<close> is accepted for a data property that is neither
  configurable nor writable, turns it into an accessor and drops its value.
\<close>

lemma define_undefined_getter:
  assumes "\<not> vp_configurable p" "\<not> vp_accessor p"
  shows "base_defineOwnProperty E ext (Some (Prop p)) (empty_desc\<lparr>pd_getter := Some VUndefined\<rparr>) throw =
    (let q = Some (Prop (p\<lparr>vp_getter := None, vp_value := None, vp_accessor := True\<rparr>)) in (q, Inr q))"
  using assms
  by (simp add: base_defineOwnProperty_def define_rejected_def empty_desc_def slot_prop_def
      define_flags_def define_getter_def define_setter_def define_finish_def propGetter_def object_of_def Let_def)

text \<open>
  A descriptor that only sets \<open>writable\<close> makes an accessor that is not configurable a data
  property, whose getter stays and is still called by \<open>valueProperty.get\<close>.
\<close>

lemma define_writable_on_accessor:
  assumes "\<not> vp_configurable p" "vp_accessor p" "vp_value p = None"
  shows "base_defineOwnProperty E ext (Some (Prop p)) (empty_desc\<lparr>pd_writable := FLAG_FALSE\<rparr>) throw =
    (let q = Some (Prop (p\<lparr>vp_writable := False, vp_accessor := False, vp_value := Some VUndefined\<rparr>)) in (q, Inr q))"
  using assms
  by (simp add: base_defineOwnProperty_def define_rejected_def empty_desc_def slot_prop_def flag_bool_def
      define_flags_def define_getter_def define_setter_def define_finish_def object_of_def Let_def)

text \<open>
  Turned into an accessor, a writable data property keeps its \<open>writable\<close> flag, so an accessor
  without a setter counts as writable, and an assignment stores a value beside the getter.
\<close>

lemma define_accessor_stays_writable:
  assumes "e_callable E f"
  shows "base_defineOwnProperty E ext (Some (Plain v)) (empty_desc\<lparr>pd_getter := Some (VObject f)\<rparr>) throw =
    (Some (Plain v), Inr (Some (Prop \<lparr>vp_value = None, vp_writable = True, vp_configurable = True,
       vp_enumerable = True, vp_accessor = True, vp_getter = Some f, vp_setter = None\<rparr>)))"
  using assms
  by (simp add: base_defineOwnProperty_def define_rejected_def empty_desc_def slot_prop_def
      define_flags_def define_getter_def define_setter_def define_finish_def propGetter_def object_of_def Let_def)

section \<open>Concrete heaps\<close>

definition env0 :: env where
  "env0 = \<lparr>e_host = host0, e_hashes = hashes0, e_callable = \<lambda>_. False,
     e_call = \<lambda>H _ _ _. (H, Inr VUndefined), e_objectProto = 0\<rparr>"

definition demo_obj :: "nat option \<Rightarrow> jsobj" where
  "demo_obj p = \<lparr>o_prototype = p, o_extensible = True,
     o_values = [u ''b'' \<mapsto> Plain VNull, u ''1'' \<mapsto> Plain (VBool True), u ''0'' \<mapsto> Plain (VInt 7)],
     o_propNames = [u ''b'', u ''1'', u ''0''], o_lastSorted = 0, o_idxCount = 0, o_symValues = None\<rparr>"

definition demo_heap :: oheap where
  "demo_heap = [1 \<mapsto> demo_obj (Some 2), 2 \<mapsto> demo_obj None]"

lemma demo_obj_ok: "obj_ok (demo_obj p)"
  by (auto simp: obj_ok_def demo_obj_def names_sorted_def u_def)

lemma demo_heap_ok: "heap_ok demo_heap" "call_ok env0" "chains_end demo_heap"
  "finite (dom demo_heap)" "card (dom demo_heap) = 2"
proof -
  show "heap_ok demo_heap" by (auto simp: heap_ok_def demo_heap_def demo_obj_ok split: if_splits)
  show "call_ok env0" by (simp add: call_ok_def env0_def)
  have p: "proto_of demo_heap a = (if a = 1 then Some 2 else None)" for a
    by (simp add: proto_of_def demo_heap_def demo_obj_def)
  show "chains_end demo_heap"
    unfolding chains_end_def
  proof
    fix a
    have "linked (proto_of demo_heap) (Some a) (if a = 1 then [1, 2] else [a])" by (simp add: p)
    then show "\<exists>xs. linked (proto_of demo_heap) (Some a) xs" by blast
  qed
  have "dom demo_heap = {1, 2}" by (auto simp: demo_heap_def)
  then show "finite (dom demo_heap)" "card (dom demo_heap) = 2" by simp_all
qed

lemma stringKeys_order_witness:
  "\<exists>is ns. snd (stringKeys True (demo_obj None)) = is @ ns \<and> list_all is_idx is \<and> sorted_wrt idx_less is
    \<and> ns = filter (\<lambda>s. \<not> is_idx s) [u ''b'', u ''1'', u ''0'']"
  using stringKeys_order [OF demo_obj_ok surjective_pairing, of None] by (auto simp: demo_obj_def)

lemma object_invariant_witness:
  "heap_ok (fst (deleteStr demo_heap 1 (u ''1'') True))"
  using object_invariant [OF demo_heap_ok(1,2)] by blast


lemma setProto_acyclic_witness: "chains_end (fst (the (setProto env0 4 demo_heap 2 (Some 3) True)))"
proof -
  have "setProto env0 4 demo_heap 2 (Some 3) True =
      Some (demo_heap(2 \<mapsto> (demo_obj None)\<lparr>o_prototype := Some 3\<rparr>), Inr True)"
    by (simp add: setProto_def demo_heap_def demo_obj_def env0_def numeral_eq_Suc)
  from setProto_acyclic [OF demo_heap_ok(3) this] this show ?thesis by simp
qed

lemma chain_operations_return_witness: "setProto env0 4 demo_heap 2 (Some 1) True \<noteq> None"
  using chain_operations_return [OF demo_heap_ok(3,4), of 4] demo_heap_ok(5) by simp

lemma demo_simps:
  "demo_heap 1 = Some (demo_obj (Some 2))" "demo_heap 2 = Some (demo_obj None)"
  "o_values (demo_obj p) (u ''x'') = None" "o_prototype (demo_obj p) = p" "o_extensible (demo_obj p)"
  by (simp_all add: demo_heap_def demo_obj_def u_def)


end
