(* ===== verification/Property_Access.thy ===== *)
theory Property_Access
  imports Objects
begin

text \<open>
  Access to properties by any key (\<open>Object.get\<close>, \<open>set\<close>, \<open>setOwn\<close>, \<open>delete\<close>,
  \<open>defineOwnProperty\<close> and the like, of \<open>object.go\<close>): integer keys go to the \<open>Idx\<close>
  methods, symbols to the \<open>Sym\<close> methods, all others to the \<open>Str\<close> methods. On an ordinary
  object the \<open>Idx\<close> methods use the decimal form of the integer; \<open>setForeignIdx\<close> first puts the
  names in order to see whether the object has any index at all (\<open>setForeignIdx_equiv\<close>).
  Symbol properties along the prototype chain, the listing of all own keys, \<open>instanceof\<close>,
  the enumeration of \<open>for\<close>-\<open>in\<close> and the sets of property names complete the component.
\<close>

section \<open>Symbols along the prototype chain\<close>

fun hasPropertySym :: "env \<Rightarrow> nat \<Rightarrow> oheap \<Rightarrow> nat \<Rightarrow> jsval \<Rightarrow> (go_error + bool) option" where
  "hasPropertySym E 0 H a s = None"
| "hasPropertySym E (Suc n) H a s =
     (case H a of
        None \<Rightarrow> Some (Inl GoPanic)
      | Some ob \<Rightarrow>
          if hasOwnPropertySym E ob s then Some (Inr True)
          else (case o_prototype ob of
                  Some p \<Rightarrow> hasPropertySym E n H p s
                | None \<Rightarrow> Some (Inr False)))"

fun getSym :: "env \<Rightarrow> nat \<Rightarrow> oheap \<Rightarrow> nat \<Rightarrow> jsval \<Rightarrow> jsval option \<Rightarrow> (oheap, jsval option) outcome option" where
  "getSym E 0 H a s receiver = None"
| "getSym E (Suc n) H a s receiver =
     (case H a of
        None \<Rightarrow> Some (H, Inl GoPanic)
      | Some ob \<Rightarrow>
          let recv = (case receiver of None \<Rightarrow> VObject a | Some r \<Rightarrow> r) in
          (case getOwnPropSym E ob s of
             None \<Rightarrow>
               (case o_prototype ob of
                  Some p \<Rightarrow> getSym E n H p s (Some recv)
                | None \<Rightarrow> Some (H, Inr None))
           | Some (Prop p) \<Rightarrow> Some (vp_get E H p recv)
           | Some (Plain v) \<Rightarrow> Some (H, Inr (Some v))))"

text \<open>\<open>prop.set\<close> for a property kept in the symbol table.\<close>

definition vp_set_sym :: "env \<Rightarrow> oheap \<Rightarrow> nat \<Rightarrow> jsval \<Rightarrow> valueProperty \<Rightarrow> jsval \<Rightarrow> jsval \<Rightarrow> (oheap, unit) outcome" where
  "vp_set_sym E H a s p this v =
     (case vp_setter p of
        None \<Rightarrow> with_obj H a (\<lambda>ob. (H(a \<mapsto> put_sym E s (Prop (p\<lparr>vp_value := Some v\<rparr>)) ob), Inr ()))
      | Some f \<Rightarrow> mapS (\<lambda>_. ()) (e_call E H f this [v]))"

definition set_new_sym :: "env \<Rightarrow> oheap \<Rightarrow> nat \<Rightarrow> jsval \<Rightarrow> jsval \<Rightarrow> bool \<Rightarrow> (oheap, bool) outcome" where
  "set_new_sym E H a s val throw =
     with_obj H a (\<lambda>ob.
       if \<not> o_extensible ob then (H, typeErrorResult throw False)
       else (H(a \<mapsto> put_sym E s (Plain val) ob), Inr True))"

text \<open>
  \<open>setForeignSym\<close> compares the receiver with the object itself, where \<open>_setForeignStr\<close>
  compares it with the prototype (\<open>setSym_wrong_object\<close>).
\<close>

fun setOwnSym :: "env \<Rightarrow> nat \<Rightarrow> oheap \<Rightarrow> nat \<Rightarrow> jsval \<Rightarrow> jsval \<Rightarrow> bool \<Rightarrow> (oheap, bool) outcome option"
and setForeignSym :: "env \<Rightarrow> nat \<Rightarrow> oheap \<Rightarrow> nat \<Rightarrow> jsval \<Rightarrow> jsval \<Rightarrow> jsval \<Rightarrow> bool
    \<Rightarrow> (oheap, bool \<times> bool) outcome option" where
  "setOwnSym E 0 H a s val throw = None"
| "setOwnSym E (Suc n) H a s val throw =
     (case H a of
        None \<Rightarrow> Some (H, Inl GoPanic)
      | Some ob \<Rightarrow>
          (case getOwnPropSym E ob s of
             None \<Rightarrow>
               (case o_prototype ob of
                  None \<Rightarrow> Some (set_new_sym E H a s val throw)
                | Some p \<Rightarrow>
                    handled_or (setForeignSym E n H p s val (VObject a) throw)
                      (\<lambda>H. set_new_sym E H a s val throw))
           | Some (Prop p) \<Rightarrow>
               if \<not> vp_isWritable p then Some (H, typeErrorResult throw False)
               else Some (mapS (\<lambda>_. True) (vp_set_sym E H a s p (VObject a) val))
           | Some (Plain _) \<Rightarrow> Some (H(a \<mapsto> put_sym E s (Plain val) ob), Inr True)))"
| "setForeignSym E 0 H a s val receiver throw = None"
| "setForeignSym E (Suc n) H a s val receiver throw =
     (case H a of
        None \<Rightarrow> Some (H, Inl GoPanic)
      | Some ob \<Rightarrow>
          (case getOwnPropSym E ob s of
             Some (Prop p) \<Rightarrow>
               if \<not> vp_isWritable p then Some (H, typeErrorResult throw (False, True))
               else if vp_setter p \<noteq> None
               then Some (mapS (\<lambda>_. (True, True)) (vp_set_sym E H a s p receiver val))
               else Some (H, Inr (False, False))
           | Some (Plain _) \<Rightarrow> Some (H, Inr (False, False))
           | None \<Rightarrow>
               (case o_prototype ob of
                  None \<Rightarrow> Some (H, Inr (False, False))
                | Some p \<Rightarrow>
                    if receiver \<noteq> VObject a then setForeignSym E n H p s val receiver throw
                    else map_option (mapS (\<lambda>r. (r, True))) (setOwnSym E n H p s val throw))))"

section \<open>Integer keys\<close>

definition getIdx :: "env \<Rightarrow> nat \<Rightarrow> oheap \<Rightarrow> nat \<Rightarrow> int \<Rightarrow> jsval option \<Rightarrow> (oheap, jsval option) outcome option" where
  "getIdx E n H a idx receiver = getStr E n H a (FormatInt idx) receiver"

definition getOwnPropIdx :: "jsobj \<Rightarrow> int \<Rightarrow> slot option" where
  "getOwnPropIdx ob idx = getOwnPropStr ob (FormatInt idx)"

definition hasOwnPropertyIdx :: "jsobj \<Rightarrow> int \<Rightarrow> bool" where
  "hasOwnPropertyIdx ob idx = hasOwnPropertyStr ob (FormatInt idx)"

definition hasPropertyIdx :: "nat \<Rightarrow> oheap \<Rightarrow> nat \<Rightarrow> int \<Rightarrow> (go_error + bool) option" where
  "hasPropertyIdx n H a idx = hasPropertyStr n H a (FormatInt idx)"

definition setOwnIdx :: "env \<Rightarrow> nat \<Rightarrow> oheap \<Rightarrow> nat \<Rightarrow> int \<Rightarrow> jsval \<Rightarrow> bool \<Rightarrow> (oheap, bool) outcome option" where
  "setOwnIdx E n H a idx val throw = setOwnStr E n H a (FormatInt idx) val throw"

definition deleteIdx :: "oheap \<Rightarrow> nat \<Rightarrow> int \<Rightarrow> bool \<Rightarrow> (oheap, bool) outcome" where
  "deleteIdx H a idx throw = deleteStr H a (FormatInt idx) throw"

definition defineOwnPropertyIdx :: "env \<Rightarrow> oheap \<Rightarrow> nat \<Rightarrow> int \<Rightarrow> propdesc \<Rightarrow> bool \<Rightarrow> (oheap, bool) outcome" where
  "defineOwnPropertyIdx E H a idx descr throw = defineOwnPropertyStr E H a (FormatInt idx) descr throw"

definition toIdx :: "int \<Rightarrow> nat" where
  "toIdx v = (if 0 \<le> v \<and> v < int maxUint32 then nat v else maxUint32)"

fun setForeignIdx :: "env \<Rightarrow> nat \<Rightarrow> oheap \<Rightarrow> nat \<Rightarrow> int \<Rightarrow> jsval \<Rightarrow> jsval \<Rightarrow> bool
    \<Rightarrow> (oheap, bool \<times> bool) outcome option" where
  "setForeignIdx E 0 H a name val receiver throw = None"
| "setForeignIdx E (Suc n) H a name val receiver throw =
     (case H a of
        None \<Rightarrow> Some (H, Inl GoPanic)
      | Some ob \<Rightarrow>
          if toIdx name = maxUint32 then setForeignStr E (Suc n) H a (FormatInt name) val receiver throw
          else
            let ob = ensurePropOrder ob; H = H(a \<mapsto> ob) in
            if o_idxCount ob = 0 then
              (case o_prototype ob of
                 None \<Rightarrow> Some (H, Inr (False, False))
               | Some p \<Rightarrow>
                   if receiver \<noteq> VObject p then setForeignIdx E n H p name val receiver throw
                   else map_option (mapS (\<lambda>r. (r, True))) (setOwnIdx E n H p name val throw))
            else setForeignStr E (Suc n) H a (FormatInt name) val receiver throw)"

section \<open>Any key\<close>

text \<open>\<open>p.string()\<close>; a key that is an object would be converted through its methods.\<close>

definition with_name :: "env \<Rightarrow> oheap \<Rightarrow> jsval \<Rightarrow> (ustr \<Rightarrow> (oheap, 'a) outcome option) \<Rightarrow> (oheap, 'a) outcome option" where
  "with_name E H p f =
     (case toString (e_host E) p of Inl e \<Rightarrow> Some (H, Inl e) | Inr s \<Rightarrow> f s)"

definition object_get :: "env \<Rightarrow> nat \<Rightarrow> oheap \<Rightarrow> nat \<Rightarrow> jsval \<Rightarrow> jsval option \<Rightarrow> (oheap, jsval option) outcome option" where
  "object_get E n H a p receiver =
     (case p of
        VInt i \<Rightarrow> getIdx E n H a i receiver
      | VSymbol _ \<Rightarrow> getSym E n H a p receiver
      | _ \<Rightarrow> with_name E H p (\<lambda>s. getStr E n H a s receiver))"

definition object_getOwnProp :: "env \<Rightarrow> jsobj \<Rightarrow> jsval \<Rightarrow> go_error + slot option" where
  "object_getOwnProp E ob p =
     (case p of
        VInt i \<Rightarrow> Inr (getOwnPropIdx ob i)
      | VSymbol _ \<Rightarrow> Inr (getOwnPropSym E ob p)
      | _ \<Rightarrow> mapR (getOwnPropStr ob) (toString (e_host E) p))"

definition object_hasOwnProperty :: "env \<Rightarrow> jsobj \<Rightarrow> jsval \<Rightarrow> go_error + bool" where
  "object_hasOwnProperty E ob p =
     (case p of
        VInt i \<Rightarrow> Inr (hasOwnPropertyIdx ob i)
      | VSymbol _ \<Rightarrow> Inr (hasOwnPropertySym E ob p)
      | _ \<Rightarrow> mapR (hasOwnPropertyStr ob) (toString (e_host E) p))"

definition object_hasProperty :: "env \<Rightarrow> nat \<Rightarrow> oheap \<Rightarrow> nat \<Rightarrow> jsval \<Rightarrow> (go_error + bool) option" where
  "object_hasProperty E n H a p =
     (case p of
        VInt i \<Rightarrow> hasPropertyIdx n H a i
      | VSymbol _ \<Rightarrow> hasPropertySym E n H a p
      | _ \<Rightarrow> (case toString (e_host E) p of Inl e \<Rightarrow> Some (Inl e) | Inr s \<Rightarrow> hasPropertyStr n H a s))"

text \<open>
  The receiver's own property decides when the object does not handle the assignment; \<open>own\<close>
  and \<open>define\<close> are \<open>getOwnPropIdx\<close> and \<open>defineOwnPropertyIdx\<close>, or those for symbols.
\<close>

definition set_on_receiver :: "oheap \<Rightarrow> jsval \<Rightarrow> jsval \<Rightarrow> bool \<Rightarrow> (jsobj \<Rightarrow> slot option)
    \<Rightarrow> (nat \<Rightarrow> propdesc \<Rightarrow> (oheap, bool) outcome) \<Rightarrow> (oheap, bool) outcome" where
  "set_on_receiver H val receiver throw own define_prop =
     (case receiver of
        VObject r \<Rightarrow>
          with_obj H r (\<lambda>robj.
            case own robj of
              Some prop \<Rightarrow>
                (case prop of
                   Prop desc \<Rightarrow>
                     if vp_accessor desc then (H, typeErrorResult throw False)
                     else if \<not> vp_writable desc then (H, typeErrorResult throw False)
                     else define_prop r (empty_desc\<lparr>pd_value := Some val\<rparr>)
                 | Plain _ \<Rightarrow> define_prop r (empty_desc\<lparr>pd_value := Some val\<rparr>))
            | None \<Rightarrow> define_prop r (data_desc val))
      | _ \<Rightarrow> (H, typeErrorResult throw False))"

definition object_setIdx :: "env \<Rightarrow> nat \<Rightarrow> oheap \<Rightarrow> nat \<Rightarrow> int \<Rightarrow> jsval \<Rightarrow> jsval \<Rightarrow> bool
    \<Rightarrow> (oheap, bool) outcome option" where
  "object_setIdx E n H a name val receiver throw =
     (if receiver = VObject a then setOwnIdx E n H a name val throw
      else handled_or (setForeignIdx E n H a name val receiver throw) (\<lambda>H.
        set_on_receiver H val receiver throw (\<lambda>ob. getOwnPropIdx ob name)
          (\<lambda>r d. defineOwnPropertyIdx E H r name d throw)))"

definition object_setSym :: "env \<Rightarrow> nat \<Rightarrow> oheap \<Rightarrow> nat \<Rightarrow> jsval \<Rightarrow> jsval \<Rightarrow> jsval \<Rightarrow> bool
    \<Rightarrow> (oheap, bool) outcome option" where
  "object_setSym E n H a name val receiver throw =
     (if receiver = VObject a then setOwnSym E n H a name val throw
      else handled_or (setForeignSym E n H a name val receiver throw) (\<lambda>H.
        set_on_receiver H val receiver throw (\<lambda>ob. getOwnPropSym E ob name)
          (\<lambda>r d. defineOwnPropertySym E H r name d throw)))"

definition object_set :: "env \<Rightarrow> nat \<Rightarrow> oheap \<Rightarrow> nat \<Rightarrow> jsval \<Rightarrow> jsval \<Rightarrow> jsval \<Rightarrow> bool
    \<Rightarrow> (oheap, bool) outcome option" where
  "object_set E n H a name val receiver throw =
     (case name of
        VInt i \<Rightarrow> object_setIdx E n H a i val receiver throw
      | VSymbol _ \<Rightarrow> object_setSym E n H a name val receiver throw
      | _ \<Rightarrow> with_name E H name (\<lambda>s. object_setStr E n H a s val receiver throw))"

definition object_setOwn :: "env \<Rightarrow> nat \<Rightarrow> oheap \<Rightarrow> nat \<Rightarrow> jsval \<Rightarrow> jsval \<Rightarrow> bool \<Rightarrow> (oheap, bool) outcome option" where
  "object_setOwn E n H a name val throw =
     (case name of
        VInt i \<Rightarrow> setOwnIdx E n H a i val throw
      | VSymbol _ \<Rightarrow> setOwnSym E n H a name val throw
      | _ \<Rightarrow> with_name E H name (\<lambda>s. setOwnStr E n H a s val throw))"

definition object_delete :: "env \<Rightarrow> oheap \<Rightarrow> nat \<Rightarrow> jsval \<Rightarrow> bool \<Rightarrow> (oheap, bool) outcome option" where
  "object_delete E H a n throw =
     (case n of
        VInt i \<Rightarrow> Some (deleteIdx H a i throw)
      | VSymbol _ \<Rightarrow> Some (deleteSym E H a n throw)
      | _ \<Rightarrow> with_name E H n (\<lambda>s. Some (deleteStr H a s throw)))"

definition object_defineOwnProperty :: "env \<Rightarrow> oheap \<Rightarrow> nat \<Rightarrow> jsval \<Rightarrow> propdesc \<Rightarrow> bool
    \<Rightarrow> (oheap, bool) outcome option" where
  "object_defineOwnProperty E H a n desc throw =
     (case n of
        VInt i \<Rightarrow> Some (defineOwnPropertyIdx E H a i desc throw)
      | VSymbol _ \<Rightarrow> Some (defineOwnPropertySym E H a n desc throw)
      | _ \<Rightarrow> with_name E H n (\<lambda>s. Some (defineOwnPropertyStr E H a s desc throw)))"

section \<open>The shortcut of \<open>setForeignIdx\<close>\<close>

text \<open>Heaps that differ in the order of property names at most.\<close>

definition same_obj :: "jsobj \<Rightarrow> jsobj \<Rightarrow> bool" where
  "same_obj ob ob' \<longleftrightarrow> o_values ob' = o_values ob \<and> o_prototype ob' = o_prototype ob
     \<and> o_extensible ob' = o_extensible ob \<and> o_symValues ob' = o_symValues ob
     \<and> set (o_propNames ob') = set (o_propNames ob)"

definition same_props :: "oheap \<Rightarrow> oheap \<Rightarrow> bool" where
  "same_props H H' \<longleftrightarrow> (\<forall>a. rel_option same_obj (H a) (H' a))"

lemma same_obj_refl [simp]: "same_obj ob ob"
  by (simp add: same_obj_def)

lemma same_props_refl [simp]: "same_props H H"
  by (simp add: same_props_def option.rel_refl)

lemma same_props_trans: "same_props H H1 \<Longrightarrow> same_props H1 H2 \<Longrightarrow> same_props H H2"
  unfolding same_props_def
proof
  fix a
  assume "\<forall>a. rel_option same_obj (H a) (H1 a)" "\<forall>a. rel_option same_obj (H1 a) (H2 a)"
  then have "rel_option same_obj (H a) (H1 a)" "rel_option same_obj (H1 a) (H2 a)" by auto
  then show "rel_option same_obj (H a) (H2 a)"
    by (cases "H a"; cases "H1 a"; cases "H2 a") (auto simp: same_obj_def)
qed

lemma same_props_Some: "same_props H H' \<Longrightarrow> H a = Some ob \<Longrightarrow> \<exists>ob'. H' a = Some ob' \<and> same_obj ob ob'"
  unfolding same_props_def by (metis option_rel_Some1)

lemma ensurePropOrder_same:
  assumes "obj_ok ob"
  shows "same_obj ob (ensurePropOrder ob)"
  using ensurePropOrder_correct [OF assms]
  by (auto simp: same_obj_def ensurePropOrder_def fixPropOrder_def split: prod.splits)

lemma heap_ok_ensure: "heap_ok H \<Longrightarrow> H a = Some ob \<Longrightarrow> heap_ok (H(a \<mapsto> ensurePropOrder ob))"
  using ensurePropOrder_correct by (intro heap_ok_upd) (auto simp: heap_ok_def)

lemma same_props_ensure:
  "heap_ok H \<Longrightarrow> H a = Some ob \<Longrightarrow> same_props H (H(a \<mapsto> ensurePropOrder ob))"
  using ensurePropOrder_same by (auto simp: same_props_def heap_ok_def option.rel_refl)

lemma no_index_property:
  assumes "obj_ok ob" "o_idxCount (ensurePropOrder ob) = 0" "toIdx i \<noteq> maxUint32"
  shows "o_values ob (FormatInt i) = None"
proof -
  note e = ensurePropOrder_correct [OF assms(1)]
  then have "list_all (\<lambda>s. \<not> is_idx s) (o_propNames (ensurePropOrder ob))"
    using assms(2) by (auto simp: obj_ok_def names_sorted_def)
  moreover have "FormatInt i = nat_str (nat i)" "nat i < maxUint32"
    using assms(3) by (auto simp: toIdx_def FormatInt_def split: if_splits)
  then have "is_idx (FormatInt i)" by (simp add: is_idx_def strToArrayIdx_nat_str)
  ultimately have "FormatInt i \<notin> set (o_propNames (ensurePropOrder ob))" by (auto simp: list_all_iff)
  moreover have "set (o_propNames (ensurePropOrder ob)) = dom (o_values ob)"
    using e unfolding obj_ok_def by metis
  ultimately have "FormatInt i \<notin> dom (o_values ob)" by simp
  then show ?thesis by blast
qed

text \<open>
  The shortcut of \<open>setForeignIdx\<close> for objects without any index property is sound: it
  gives what the search by the decimal name gives, on a heap that differs in the order of
  the property names only.
\<close>

theorem setForeignIdx_equiv:
  assumes "heap_ok H"
  shows "\<exists>H1. same_props H H1 \<and> heap_ok H1 \<and>
    setForeignIdx E n H a i val receiver throw = setForeignStr E n H1 a (FormatInt i) val receiver throw"
  using assms
proof (induction n arbitrary: H a)
  case 0
  then show ?case by (intro exI [of _ H]) simp
next
  case (Suc n)
  show ?case
  proof (cases "H a")
    case (Some ob)
    note ha = this
    define ob1 where "ob1 = ensurePropOrder ob"
    define H1 where "H1 = H(a \<mapsto> ob1)"
    have h1: "same_props H H1" "heap_ok H1" "H1 a = Some ob1"
      using same_props_ensure [OF Suc.prems ha] heap_ok_ensure [OF Suc.prems ha]
      by (simp_all add: H1_def ob1_def)
    consider "toIdx i = maxUint32" | "toIdx i \<noteq> maxUint32" "o_idxCount ob1 \<noteq> 0"
      | "toIdx i \<noteq> maxUint32" "o_idxCount ob1 = 0" by blast
    then show ?thesis
    proof cases
      case 1
      then show ?thesis using ha Suc.prems by (intro exI [of _ H]) simp
    next
      case 2
      then show ?thesis
        using ha h1 by (intro exI [of _ H1]) (simp add: ob1_def [symmetric] H1_def [symmetric])
    next
      case 3
      have "obj_ok ob" using Suc.prems ha by (simp add: heap_ok_def)
      then have s: "same_obj ob ob1" "o_values ob1 (FormatInt i) = None"
        using ensurePropOrder_same no_index_property [of ob i] 3
        by (auto simp: ob1_def same_obj_def)
      show ?thesis
      proof (cases "o_prototype ob1")
        case None
        then show ?thesis
          using 3 ha h1 s by (intro exI [of _ H1]) (simp add: ob1_def [symmetric] H1_def [symmetric])
      next
        case (Some p)
        show ?thesis
        proof (cases "receiver = VObject p")
          case True
          then show ?thesis
            using 3 ha h1 s Some
            by (intro exI [of _ H1]) (simp add: ob1_def [symmetric] H1_def [symmetric] setOwnIdx_def)
        next
          case False
          obtain H2 where h2: "same_props H1 H2" "heap_ok H2"
            "setForeignIdx E n H1 p i val receiver throw = setForeignStr E n H2 p (FormatInt i) val receiver throw"
            using Suc.IH [OF h1(2)] by blast
          obtain ob2 where ob2: "H2 a = Some ob2" "same_obj ob1 ob2"
            using same_props_Some [OF h2(1) h1(3)] by blast
          have "o_prototype ob2 = Some p" "o_values ob2 (FormatInt i) = None"
            using ob2(2) s(2) Some by (simp_all add: same_obj_def)
          then show ?thesis
            using 3 ha h2 Some False ob2(1) same_props_trans [OF h1(1) h2(1)]
            by (intro exI [of _ H2]) (simp add: ob1_def [symmetric] H1_def [symmetric])
        qed
      qed
    qed
  next
    case None
    then show ?thesis using Suc.prems by (intro exI [of _ H]) simp
  qed
qed

lemma setForeignIdx_equiv_witness:
  "\<exists>H1. same_props demo_heap H1 \<and>
    setForeignIdx env0 2 demo_heap 1 5 VNull (VObject 9) True = setForeignStr env0 2 H1 1 (FormatInt 5) VNull (VObject 9) True"
  using setForeignIdx_equiv [OF demo_heap_ok(1)] by blast

section \<open>All own keys\<close>

fun symbols_loop :: "nat \<Rightarrow> bool \<Rightarrow> (jsval, slot) orderedMap \<Rightarrow> orderedMapIter \<Rightarrow> jsval list \<Rightarrow> jsval list" where
  "symbols_loop 0 all m it accum = accum"
| "symbols_loop (Suc n) all m it accum =
     (case iter_next m it of
        (_, None) \<Rightarrow> accum
      | (it, Some e) \<Rightarrow>
          symbols_loop n all m it
            (if all \<or> enumerable_slot (e_value (heap m e)) then accum @ [the_key m e] else accum))"

definition symbols :: "bool \<Rightarrow> jsobj \<Rightarrow> jsval list \<Rightarrow> jsval list" where
  "symbols all ob accum =
     (case o_symValues ob of
        None \<Rightarrow> accum
      | Some m \<Rightarrow> symbols_loop (Suc (fresh m)) all m newIter accum)"

definition object_keys :: "bool \<Rightarrow> jsobj \<Rightarrow> jsobj \<times> jsval list" where
  "object_keys all ob =
     (case stringKeys all ob of (ob, ks) \<Rightarrow> (ob, symbols all ob (map VString ks)))"

lemma after_step:
  assumes "sorted_wrt (<) es" "after cur es = x # xs"
  shows "after (Some x) es = xs \<and> x \<in> set es"
proof -
  define P where "P = (\<lambda>y. case cur of None \<Rightarrow> True | Some c \<Rightarrow> c < y)"
  have f: "after cur es = filter P es" by (cases cur) (simp_all add: after_def P_def)
  then obtain us vs where es: "es = us @ x # vs" "P x" "xs = filter P vs"
    using assms(2) by (metis filter_eq_ConsD)
  have "\<forall>y \<in> set us. y < x" "\<forall>y \<in> set vs. x < y" using assms(1) by (auto simp: es(1) sorted_wrt_append)
  moreover from this have "\<forall>y \<in> set vs. P y" using es(2) by (cases cur) (auto simp: P_def)
  ultimately show ?thesis
    by (auto simp: after_def es(1,3) filter_id_conv filter_empty_conv)
qed

lemma symbols_loop_correct:
  assumes "om_inv K ok m es ch"
  shows "(\<And>c. cur = Some c \<Longrightarrow> c < fresh m) \<Longrightarrow> length (after cur es) < n \<Longrightarrow>
    symbols_loop n all m (Some cur) accum =
      accum @ map (the_key m) (filter (\<lambda>e. all \<or> enumerable_slot (e_value (heap m e))) (after cur es))"
proof (induction n arbitrary: cur accum)
  case (Suc n)
  note nx = iter_next_correct [OF assms Suc.prems(1)]
  have so: "sorted_wrt (<) es" "\<And>x. x \<in> set es \<Longrightarrow> x < fresh m"
    using assms by (auto simp: om_inv_def list_ok_def)
  show ?case
  proof (cases "after cur es")
    case Nil
    then show ?thesis using nx by simp
  next
    case (Cons x xs)
    have "after (Some x) es = xs" "x \<in> set es" using after_step [OF so(1) Cons] by simp_all
    then show ?thesis
      using nx Cons Suc.prems(2) Suc.IH [of "Some x"] so(2) by simp
  qed
qed simp



section \<open>\<open>instanceof\<close>\<close>

definition toMethod :: "env \<Rightarrow> jsval option \<Rightarrow> go_error + nat option" where
  "toMethod E v =
     (case v of
        None \<Rightarrow> Inr None
      | Some VUndefined \<Rightarrow> Inr None
      | Some VNull \<Rightarrow> Inr None
      | Some (VObject f) \<Rightarrow> if e_callable E f then Inr (Some f) else Inl TypeErr
      | _ \<Rightarrow> Inl TypeErr)"

text \<open>
  \<open>hasInst\<close> is the object's own \<open>hasInstance\<close> method: for an ordinary object it raises a
  \<open>TypeError\<close> (\<open>base_hasInstance\<close>); functions have their own.
\<close>

definition base_hasInstance :: "oheap \<Rightarrow> jsval \<Rightarrow> (oheap, bool) outcome" where
  "base_hasInstance H v = (H, Inl TypeErr)"

definition instanceOfOperator :: "env \<Rightarrow> nat \<Rightarrow> nat \<Rightarrow> (oheap \<Rightarrow> jsval \<Rightarrow> (oheap, bool) outcome)
    \<Rightarrow> oheap \<Rightarrow> jsval \<Rightarrow> nat \<Rightarrow> (oheap, bool) outcome option" where
  "instanceOfOperator E n symHasInstance hasInst H v c =
     (case getSym E n H c (VSymbol symHasInstance) (Some (VObject c)) of
        None \<Rightarrow> None
      | Some (H, Inl e) \<Rightarrow> Some (H, Inl e)
      | Some (H, Inr m) \<Rightarrow>
          (case toMethod E m of
             Inl e \<Rightarrow> Some (H, Inl e)
           | Inr (Some f) \<Rightarrow> Some (mapS ToBoolean (e_call E H f (VObject c) [v]))
           | Inr None \<Rightarrow> Some (hasInst H v)))"

section \<open>Assignment of a symbol through an inheriting object\<close>

text \<open>
  \<open>Reflect.set(o, key, v, p)\<close> where \<open>p\<close> is the prototype of \<open>o\<close> and none has the
  property. With a name, \<open>p\<close> gets it; with a symbol, the prototype of \<open>p\<close> does.
\<close>

definition chain_heap :: oheap where
  "chain_heap =
     (let ob = (\<lambda>p. \<lparr>o_prototype = p, o_extensible = True, o_values = Map.empty, o_propNames = [],
                o_lastSorted = 0, o_idxCount = 0, o_symValues = None\<rparr>)
      in [1 \<mapsto> ob (Some 2), 2 \<mapsto> ob (Some 3), 3 \<mapsto> ob None])"

definition owners :: "oheap \<Rightarrow> jsval \<Rightarrow> nat list" where
  "owners H key = filter (\<lambda>a. case H a of None \<Rightarrow> False
     | Some ob \<Rightarrow> (case object_hasOwnProperty env0 ob key of Inr b \<Rightarrow> b | _ \<Rightarrow> False)) [1, 2, 3]"

lemma setSym_wrong_object:
  "map_option (\<lambda>r. owners (fst r) (VSymbol 5)) (object_set env0 5 chain_heap 1 (VSymbol 5) VNull (VObject 2) True)
     = Some [3]"
  "map_option (\<lambda>r. owners (fst r) (VString (u ''k''))) (object_set env0 5 chain_heap 1 (VString (u ''k'')) VNull (VObject 2) True)
     = Some [2]"
  by code_simp+

section \<open>Sets of property names\<close>

record propNameSet =
  stringProps :: "ustr list"
  symbolProps :: "nat list"

definition pns_add :: "env \<Rightarrow> jsval \<Rightarrow> propNameSet \<Rightarrow> go_error + propNameSet" where
  "pns_add E prop s =
     (case prop of
        VSymbol n \<Rightarrow> Inr (s\<lparr>symbolProps := List.insert n (symbolProps s)\<rparr>)
      | _ \<Rightarrow> mapR (\<lambda>k. s\<lparr>stringProps := List.insert k (stringProps s)\<rparr>) (toString (e_host E) prop))"

definition pns_has :: "env \<Rightarrow> jsval \<Rightarrow> propNameSet \<Rightarrow> go_error + bool" where
  "pns_has E prop s =
     (case prop of
        VSymbol n \<Rightarrow> Inr (n \<in> set (symbolProps s))
      | _ \<Rightarrow> mapR (\<lambda>k. k \<in> set (stringProps s)) (toString (e_host E) prop))"

definition pns_delete :: "env \<Rightarrow> jsval \<Rightarrow> propNameSet \<Rightarrow> go_error + propNameSet" where
  "pns_delete E prop s =
     (case prop of
        VSymbol n \<Rightarrow> Inr (s\<lparr>symbolProps := removeAll n (symbolProps s)\<rparr>)
      | _ \<Rightarrow> mapR (\<lambda>k. s\<lparr>stringProps := removeAll k (stringProps s)\<rparr>) (toString (e_host E) prop))"

definition pns_size :: "propNameSet \<Rightarrow> nat" where
  "pns_size s = length (stringProps s) + length (symbolProps s)"

end
