(* ===== verification/Name_Lists.thy ===== *)
theory Name_Lists
  imports Values
begin

text \<open>
  The lists of property names as Go slices (\<open>object.go\<close>): a slice is a length and a
  backing array, which several slices may share. An iteration over the properties keeps the
  slice it started with, and a marker in the last place of the array's capacity makes the
  operations on the object's own slice copy the array before they overwrite anything the
  iteration still has to read.

  The slices are shown to refine plain lists, each live iteration owning a list of its own
  (\<open>names_refine\<close>): no sequence of insertions, deletions, moves and nested iterations makes
  an iteration see any change. An iteration over an empty list shares its array unmarked; it
  has to end before anything else happens (\<open>late_end_of_empty_iteration\<close>).
\<close>

section \<open>Slices\<close>

record names_store =
  ns_arr :: "nat \<Rightarrow> ustr list"
  ns_next :: nat

record slice =
  sl_arr :: nat
  sl_len :: nat

definition slice_cap :: "names_store \<Rightarrow> slice \<Rightarrow> nat" where
  "slice_cap st s = length (ns_arr st (sl_arr s))"

definition slice_list :: "names_store \<Rightarrow> slice \<Rightarrow> ustr list" where
  "slice_list st s = take (sl_len s) (ns_arr st (sl_arr s))"

definition names_put :: "nat \<Rightarrow> ustr list \<Rightarrow> names_store \<Rightarrow> names_store" where
  "names_put a xs st = st\<lparr>ns_arr := (ns_arr st)(a := xs)\<rparr>"

text \<open>\<open>make\<close> with a length and a capacity, followed by \<open>copy\<close>.\<close>

definition alloc :: "ustr list \<Rightarrow> nat \<Rightarrow> names_store \<Rightarrow> names_store \<times> slice" where
  "alloc xs cap st =
     (\<lparr>ns_arr = (ns_arr st)(ns_next st := xs @ replicate (cap - length xs) []), ns_next = Suc (ns_next st)\<rparr>,
      \<lparr>sl_arr = ns_next st, sl_len = length xs\<rparr>)"

definition copyMarker :: ustr where
  "copyMarker = u '' ''"

text \<open>Go's capacity arithmetic; the loop grows by a quarter, and sizes are far from overflow.\<close>

fun grow_loop :: "nat \<Rightarrow> nat \<Rightarrow> nat \<Rightarrow> nat" where
  "grow_loop 0 cap newSize = cap"
| "grow_loop (Suc n) cap newSize =
     (if 0 < cap \<and> cap < newSize then grow_loop n (cap + cap div 4) newSize else cap)"

definition growCap :: "nat \<Rightarrow> nat \<Rightarrow> nat \<Rightarrow> nat" where
  "growCap newSize oldSize oldCap =
     (let doublecap = oldCap + oldCap in
      if doublecap < newSize then newSize
      else if oldSize < 1024 then doublecap
      else let cap = grow_loop newSize oldCap newSize in if cap = 0 then newSize else cap)"

definition shrinkCap :: "nat \<Rightarrow> nat \<Rightarrow> nat" where
  "shrinkCap newSize oldCap =
     (if 8 < oldCap \<and> newSize \<le> oldCap div 2 then oldCap div 2 else oldCap)"

definition namesMarkedForCopy :: "names_store \<Rightarrow> slice \<Rightarrow> bool" where
  "namesMarkedForCopy st s \<longleftrightarrow>
     sl_len s < slice_cap st s \<and> ns_arr st (sl_arr s) ! (slice_cap st s - 1) = copyMarker"

definition prepareNamesForCopy :: "names_store \<Rightarrow> slice \<Rightarrow> names_store \<times> slice" where
  "prepareNamesForCopy st names =
     (if sl_len names = 0 then (st, names)
      else
        let (st, names) =
          (if namesMarkedForCopy st names \<or> slice_cap st names = sl_len names then
             let newcap = (if slice_cap st names = sl_len names
                           then growCap (sl_len names + 1) (sl_len names) (slice_cap st names)
                           else slice_cap st names)
             in alloc (slice_list st names) newcap st
           else (st, names))
        in (names_put (sl_arr names) ((ns_arr st (sl_arr names))[slice_cap st names - 1 := copyMarker]) st, names))"

definition clearNamesCopyMarker :: "names_store \<Rightarrow> slice \<Rightarrow> names_store" where
  "clearNamesCopyMarker st names =
     (if sl_len names < slice_cap st names
      then names_put (sl_arr names) ((ns_arr st (sl_arr names))[slice_cap st names - 1 := []]) st
      else st)"

definition copyNamesIfNeeded :: "names_store \<Rightarrow> slice \<Rightarrow> nat \<Rightarrow> names_store \<times> slice" where
  "copyNamesIfNeeded st names extraCap =
     (if namesMarkedForCopy st names \<and> slice_cap st names \<le> sl_len names + extraCap then
        let newsize = sl_len names + extraCap + 1;
            newcap = (if slice_cap st names < newsize
                      then growCap newsize (sl_len names) (slice_cap st names)
                      else slice_cap st names)
        in alloc (slice_list st names) newcap st
      else (st, names))"

text \<open>
  \<open>append\<close>: in place while the capacity lasts, else into a new array, whose capacity \<open>g\<close> the
  Go run-time chooses.
\<close>

definition go_append :: "(nat \<Rightarrow> nat) \<Rightarrow> names_store \<Rightarrow> slice \<Rightarrow> ustr \<Rightarrow> names_store \<times> slice" where
  "go_append g st s x =
     (if sl_len s < slice_cap st s
      then (names_put (sl_arr s) ((ns_arr st (sl_arr s))[sl_len s := x]) st, s\<lparr>sl_len := sl_len s + 1\<rparr>)
      else alloc (slice_list st s @ [x]) (g (slice_cap st s)) st)"

text \<open>The addition of a name: \<open>names := copyNamesIfNeeded(o.propNames, 1); append(names, name)\<close>.\<close>

definition append_name :: "(nat \<Rightarrow> nat) \<Rightarrow> names_store \<Rightarrow> slice \<Rightarrow> ustr \<Rightarrow> names_store \<times> slice" where
  "append_name g st names x =
     (case copyNamesIfNeeded st names 1 of (st, names) \<Rightarrow> go_append g st names x)"

text \<open>The deletion of the name at \<open>i\<close> in \<open>_delete\<close>.\<close>

definition delete_name :: "names_store \<Rightarrow> slice \<Rightarrow> nat \<Rightarrow> names_store \<times> slice" where
  "delete_name st names i =
     (if namesMarkedForCopy st names then
        alloc (take i (slice_list st names) @ drop (Suc i) (slice_list st names))
          (shrinkCap (sl_len names) (slice_cap st names)) st
      else
        let arr = ns_arr st (sl_arr names); n = sl_len names in
        (names_put (sl_arr names)
           ((take i arr @ take (n - Suc i) (drop (Suc i) arr) @ drop (n - 1) arr)[n - 1 := []]) st,
         names\<lparr>sl_len := n - 1\<rparr>))"

text \<open>The move of the name at \<open>i\<close> to \<open>k < i\<close> in \<open>fixPropOrder\<close>.\<close>

definition move_name :: "names_store \<Rightarrow> slice \<Rightarrow> nat \<Rightarrow> nat \<Rightarrow> names_store \<times> slice" where
  "move_name st names k i =
     (let arr = ns_arr st (sl_arr names);
          moved = (\<lambda>xs. (take k xs @ xs ! k # take (i - k) (drop k xs) @ drop (Suc i) xs)[k := arr ! i])
      in if namesMarkedForCopy st names
         then alloc (moved (slice_list st names)) (slice_cap st names) st
         else (names_put (sl_arr names) (moved arr) st, names))"

section \<open>The object's list and the iterations under way\<close>

record names_state =
  n_store :: names_store
  n_names :: slice
  n_iters :: "slice list"

datatype names_op = NAppend ustr | NDelete nat | NMove nat nat | NIterate | NFinish nat

text \<open>
  \<open>iterateStringKeys\<close> keeps the prepared slice; over an empty list the first \<open>next\<close>, which
  follows at once, ends the iteration and clears the marker. \<open>NFinish j\<close> is the end of the
  iteration \<open>j\<close>.
\<close>

fun names_step :: "(nat \<Rightarrow> nat) \<Rightarrow> names_op \<Rightarrow> names_state \<Rightarrow> names_state" where
  "names_step g (NAppend x) s =
     (case append_name g (n_store s) (n_names s) x of (st, names) \<Rightarrow> s\<lparr>n_store := st, n_names := names\<rparr>)"
| "names_step g (NDelete i) s =
     (case delete_name (n_store s) (n_names s) i of (st, names) \<Rightarrow> s\<lparr>n_store := st, n_names := names\<rparr>)"
| "names_step g (NMove k i) s =
     (case move_name (n_store s) (n_names s) k i of (st, names) \<Rightarrow> s\<lparr>n_store := st, n_names := names\<rparr>)"
| "names_step g NIterate s =
     (case prepareNamesForCopy (n_store s) (n_names s) of (st, names) \<Rightarrow>
        if sl_len names = 0 then s\<lparr>n_store := clearNamesCopyMarker st names, n_names := names\<rparr>
        else s\<lparr>n_store := st, n_names := names, n_iters := n_iters s @ [names]\<rparr>)"
| "names_step g (NFinish j) s =
     s\<lparr>n_store := clearNamesCopyMarker (n_store s) (n_iters s ! j),
       n_iters := take j (n_iters s) @ drop (Suc j) (n_iters s)\<rparr>"

definition names_init :: names_state where
  "names_init = \<lparr>n_store = \<lparr>ns_arr = \<lambda>_. [], ns_next = 1\<rparr>, n_names = \<lparr>sl_arr = 0, sl_len = 0\<rparr>, n_iters = []\<rparr>"

definition names_run :: "(nat \<Rightarrow> nat) \<Rightarrow> names_op list \<Rightarrow> names_state" where
  "names_run g ops = fold (names_step g) ops names_init"

text \<open>The specification: a list, and a list of its own for every iteration.\<close>

type_synonym names_spec = "ustr list \<times> ustr list list"

fun spec_step :: "names_op \<Rightarrow> names_spec \<Rightarrow> names_spec" where
  "spec_step (NAppend x) (xs, its) = (xs @ [x], its)"
| "spec_step (NDelete i) (xs, its) = (take i xs @ drop (Suc i) xs, its)"
| "spec_step (NMove k i) (xs, its) = (take k xs @ xs ! i # drop k (take i xs) @ drop (Suc i) xs, its)"
| "spec_step NIterate (xs, its) = (xs, if xs = [] then its else its @ [xs])"
| "spec_step (NFinish j) (xs, its) = (xs, take j its @ drop (Suc j) its)"

fun spec_ok :: "names_op \<Rightarrow> names_spec \<Rightarrow> bool" where
  "spec_ok (NAppend x) _ = True"
| "spec_ok (NDelete i) (xs, _) = (i < length xs)"
| "spec_ok (NMove k i) (xs, _) = (k < i \<and> i < length xs)"
| "spec_ok NIterate _ = True"
| "spec_ok (NFinish j) (_, its) = (j < length its)"

fun spec_run :: "names_op list \<Rightarrow> names_spec \<Rightarrow> names_spec option" where
  "spec_run [] s = Some s"
| "spec_run (op # ops) s = (if spec_ok op s then spec_run ops (spec_step op s) else None)"

definition names_abs :: "names_state \<Rightarrow> names_spec" where
  "names_abs s = (slice_list (n_store s) (n_names s), map (slice_list (n_store s)) (n_iters s))"

section \<open>The invariant\<close>

definition slice_ok :: "names_store \<Rightarrow> slice \<Rightarrow> bool" where
  "slice_ok st s \<longleftrightarrow> sl_len s \<le> slice_cap st s \<and> sl_arr s < ns_next st"

definition names_inv :: "names_state \<Rightarrow> bool" where
  "names_inv s \<longleftrightarrow> slice_ok (n_store s) (n_names s)
     \<and> (\<forall>it \<in> set (n_iters s). slice_ok (n_store s) it \<and> 0 < sl_len it
          \<and> (sl_arr it = sl_arr (n_names s) \<longrightarrow>
               sl_len it \<le> sl_len (n_names s) \<and> namesMarkedForCopy (n_store s) (n_names s)))
     \<and> distinct (map sl_arr (n_iters s))"

lemma slice_list_other:
  "sl_arr it \<noteq> a \<Longrightarrow> slice_list (names_put a xs st) it = slice_list st it"
  "sl_arr it \<noteq> a \<Longrightarrow> slice_cap (names_put a xs st) it = slice_cap st it"
  "sl_arr it \<noteq> a \<Longrightarrow> namesMarkedForCopy (names_put a xs st) it = namesMarkedForCopy st it"
  by (simp_all add: slice_list_def slice_cap_def names_put_def namesMarkedForCopy_def)

lemma slice_list_beyond:
  "sl_len it \<le> i \<Longrightarrow> sl_arr it = a \<Longrightarrow>
   slice_list (names_put a ((ns_arr st a)[i := x]) st) it = slice_list st it"
  "slice_cap (names_put a ((ns_arr st a)[i := x]) st) it = slice_cap st it"
  by (simp_all add: slice_list_def slice_cap_def names_put_def)

lemma ns_next_put [simp]: "ns_next (names_put a xs st) = ns_next st"
  by (simp add: names_put_def)

lemma slice_list_alloc:
  assumes "alloc xs cap st = (st', s')" "length xs \<le> cap"
  shows "slice_list st' s' = xs" "slice_cap st' s' = cap" "sl_arr s' = ns_next st" "sl_len s' = length xs"
    "ns_next st' = Suc (ns_next st)"
    "\<And>it. sl_arr it < ns_next st \<Longrightarrow> slice_list st' it = slice_list st it"
    "\<And>it. sl_arr it < ns_next st \<Longrightarrow> slice_cap st' it = slice_cap st it"
  using assms by (auto simp: alloc_def slice_list_def slice_cap_def)

lemma length_slice_list: "slice_ok st s \<Longrightarrow> length (slice_list st s) = sl_len s"
  by (simp add: slice_ok_def slice_list_def slice_cap_def)

text \<open>A new array for the object's slice leaves every iteration alone.\<close>

lemma names_inv_alloc:
  assumes inv: "names_inv s" and a: "alloc xs cap (n_store s) = (st, names)" "length xs \<le> cap"
  shows "names_inv (s\<lparr>n_store := st, n_names := names\<rparr>)
    \<and> names_abs (s\<lparr>n_store := st, n_names := names\<rparr>) = (xs, snd (names_abs s))"
proof -
  note al = slice_list_alloc [OF a]
  have it: "sl_arr i < ns_next (n_store s)" if "i \<in> set (n_iters s)" for i
    using inv that by (auto simp: names_inv_def slice_ok_def)
  have "names_inv (s\<lparr>n_store := st, n_names := names\<rparr>)"
    using inv it al a(2) by (fastforce simp: names_inv_def slice_ok_def)
  then show ?thesis using it al by (auto simp: names_abs_def)
qed

text \<open>So does a change of its own array beyond what the iterations read, or of an unshared array.\<close>

lemma unmarked_unshared:
  "names_inv s \<Longrightarrow> \<not> namesMarkedForCopy (n_store s) (n_names s) \<Longrightarrow> it \<in> set (n_iters s) \<Longrightarrow>
   sl_arr it \<noteq> sl_arr (n_names s)"
  by (auto simp: names_inv_def)

lemma names_inv_put_unshared:
  assumes inv: "names_inv s" and un: "\<And>it. it \<in> set (n_iters s) \<Longrightarrow> sl_arr it \<noteq> sl_arr (n_names s)"
    and len: "length xs = slice_cap (n_store s) (n_names s)" "n \<le> length xs"
  shows "names_inv (s\<lparr>n_store := names_put (sl_arr (n_names s)) xs (n_store s), n_names := (n_names s)\<lparr>sl_len := n\<rparr>\<rparr>)
    \<and> names_abs (s\<lparr>n_store := names_put (sl_arr (n_names s)) xs (n_store s), n_names := (n_names s)\<lparr>sl_len := n\<rparr>\<rparr>)
      = (take n xs, snd (names_abs s))"
proof -
  have "slice_ok (names_put (sl_arr (n_names s)) xs (n_store s)) ((n_names s)\<lparr>sl_len := n\<rparr>)"
    using inv len by (simp add: names_inv_def slice_ok_def slice_cap_def names_put_def)
  then show ?thesis
    using inv un slice_list_other
    by (auto simp: names_inv_def names_abs_def slice_ok_def slice_list_def names_put_def slice_cap_def)
qed

section \<open>Every operation refines its specification\<close>

lemma grow_loop_ge: "newSize - cap < n \<Longrightarrow> 4 \<le> cap \<Longrightarrow> newSize \<le> grow_loop n cap newSize"
proof (induction n arbitrary: cap)
  case (Suc n)
  show ?case
  proof (cases "cap < newSize")
    case True
    have "1 \<le> cap div 4" using Suc.prems(2) by (simp add: div_greater_zero_iff)
    then have "newSize - (cap + cap div 4) < n" "4 \<le> cap + cap div 4"
      using Suc.prems True by linarith+
    then show ?thesis using Suc.IH True Suc.prems(2) by simp
  qed simp
qed simp

lemma growCap_ge:
  assumes "oldSize \<le> oldCap"
  shows "newSize \<le> growCap newSize oldSize oldCap"
proof -
  have "newSize \<le> grow_loop newSize oldCap newSize" if "\<not> oldSize < 1024"
  proof (cases "oldCap < newSize")
    case True
    then show ?thesis using grow_loop_ge [of newSize oldCap newSize] that assms by simp
  next
    case False
    then show ?thesis by (cases newSize) simp_all
  qed
  then show ?thesis by (auto simp: growCap_def Let_def)
qed

lemma copyNames_correct:
  assumes inv: "names_inv s" and c: "copyNamesIfNeeded (n_store s) (n_names s) k = (st, names)"
  shows "names_inv (s\<lparr>n_store := st, n_names := names\<rparr>)
    \<and> names_abs (s\<lparr>n_store := st, n_names := names\<rparr>) = names_abs s
    \<and> (namesMarkedForCopy st names \<longrightarrow> sl_len names + k < slice_cap st names)"
proof (cases "namesMarkedForCopy (n_store s) (n_names s) \<and> slice_cap (n_store s) (n_names s) \<le> sl_len (n_names s) + k")
  case True
  define newcap where "newcap = (if slice_cap (n_store s) (n_names s) < sl_len (n_names s) + k + 1
      then growCap (sl_len (n_names s) + k + 1) (sl_len (n_names s)) (slice_cap (n_store s) (n_names s))
      else slice_cap (n_store s) (n_names s))"
  have ok: "sl_len (n_names s) \<le> slice_cap (n_store s) (n_names s)" "slice_ok (n_store s) (n_names s)"
    using inv by (simp_all add: names_inv_def slice_ok_def)
  have nc: "sl_len (n_names s) + k < newcap"
    using growCap_ge [OF ok(1), of "sl_len (n_names s) + k + 1"] by (auto simp: newcap_def)
  have a: "alloc (slice_list (n_store s) (n_names s)) newcap (n_store s) = (st, names)"
    using c True by (simp add: copyNamesIfNeeded_def newcap_def Let_def)
  have l: "length (slice_list (n_store s) (n_names s)) \<le> newcap"
    using nc length_slice_list [OF ok(2)] by simp
  note n = names_inv_alloc [OF inv a l] slice_list_alloc [OF a l]
  then show ?thesis using nc length_slice_list [OF ok(2)] by (simp add: names_abs_def)
next
  case False
  then have e: "st = n_store s" "names = n_names s" using c by (auto simp: copyNamesIfNeeded_def)
  have "s\<lparr>n_store := st, n_names := names\<rparr> = s" by (simp add: e)
  then show ?thesis using False inv e by (simp only: e) auto
qed

lemma append_correct:
  assumes inv: "names_inv s" and g: "\<And>c. c < g c"
  shows "names_inv (names_step g (NAppend x) s)
    \<and> names_abs (names_step g (NAppend x) s) = spec_step (NAppend x) (names_abs s)"
proof -
  obtain st names where c: "copyNamesIfNeeded (n_store s) (n_names s) 1 = (st, names)" by fastforce
  define s1 where "s1 = s\<lparr>n_store := st, n_names := names\<rparr>"
  have s1: "names_inv s1" "names_abs s1 = names_abs s" "n_store s1 = st" "n_names s1 = names"
    "n_iters s1 = n_iters s" "namesMarkedForCopy st names \<longrightarrow> sl_len names + 1 < slice_cap st names"
    using copyNames_correct [OF inv c] by (simp_all add: s1_def)
  obtain st' names' where ap: "go_append g st names x = (st', names')" by fastforce
  have step: "names_step g (NAppend x) s = s1\<lparr>n_store := st', n_names := names'\<rparr>"
    using c ap by (simp add: append_name_def s1_def)
  have ok: "slice_ok st names" using s1 by (simp add: names_inv_def)
  have abs: "fst (names_abs s1) = slice_list st names" by (simp add: names_abs_def s1)
  have "names_inv (s1\<lparr>n_store := st', n_names := names'\<rparr>)
    \<and> names_abs (s1\<lparr>n_store := st', n_names := names'\<rparr>) = (slice_list st names @ [x], snd (names_abs s1))"
  proof (cases "sl_len names < slice_cap st names")
    case False
    have "length (slice_list st names @ [x]) \<le> g (slice_cap st names)"
      using length_slice_list [OF ok] ok g [of "slice_cap st names"] by (simp add: slice_ok_def)
    then show ?thesis
      using names_inv_alloc [OF s1(1), of "slice_list st names @ [x]" "g (slice_cap st names)" st' names']
        ap False s1(3) by (simp add: go_append_def)
  next
    case True
    define a where "a = sl_arr names"
    define xs where "xs = (ns_arr st a)[sl_len names := x]"
    have n': "st' = names_put a xs st" "names' = names\<lparr>sl_len := sl_len names + 1\<rparr>"
      using ap True by (auto simp: go_append_def a_def xs_def)
    have sl: "slice_list st' names' = slice_list st names @ [x]"
      using True by (simp add: n' slice_list_def names_put_def a_def xs_def take_Suc_conv_app_nth slice_cap_def)
    have cap: "slice_cap st' names' = slice_cap st names"
      by (simp add: n' a_def xs_def names_put_def slice_cap_def)
    have mk: "namesMarkedForCopy st' names'" if "namesMarkedForCopy st names"
      using that s1(6) True by (auto simp: namesMarkedForCopy_def n' cap slice_cap_def names_put_def a_def xs_def nth_list_update)
    have others: "slice_list st' it = slice_list st it" "slice_cap st' it = slice_cap st it"
      if "it \<in> set (n_iters s1)" for it
      using that s1(1)
      by (cases "sl_arr it = a"; auto simp: names_inv_def s1 n' a_def xs_def slice_list_other slice_list_beyond)+
    have ok': "slice_ok st' names'" using ok True cap by (simp add: slice_ok_def n')
    have "names_inv (s1\<lparr>n_store := st', n_names := names'\<rparr>)"
      using s1(1) ok' others mk by (auto simp: names_inv_def s1(3,4) slice_ok_def n')
    moreover have "map (slice_list st') (n_iters s1) = map (slice_list st) (n_iters s1)"
      using others by simp
    ultimately show ?thesis using sl by (simp add: names_abs_def s1(3))
  qed
  then show ?thesis using step s1(2) abs by (cases "names_abs s") (simp add: names_abs_def s1)
qed

lemma delete_correct:
  assumes inv: "names_inv s" and i: "i < sl_len (n_names s)"
  shows "names_inv (names_step g (NDelete i) s)
    \<and> names_abs (names_step g (NDelete i) s) = spec_step (NDelete i) (names_abs s)"
proof -
  let ?st = "n_store s" and ?names = "n_names s"
  have ok: "slice_ok ?st ?names" "sl_len ?names \<le> slice_cap ?st ?names"
    using inv by (simp_all add: names_inv_def slice_ok_def)
  note len = length_slice_list [OF ok(1)]
  show ?thesis
  proof (cases "namesMarkedForCopy ?st ?names")
    case True
    obtain st names where d: "delete_name ?st ?names i = (st, names)" by fastforce
    then have a: "alloc (take i (slice_list ?st ?names) @ drop (Suc i) (slice_list ?st ?names))
        (shrinkCap (sl_len ?names) (slice_cap ?st ?names)) ?st = (st, names)"
      using True by (simp add: delete_name_def)
    have "sl_len ?names \<le> shrinkCap (sl_len ?names) (slice_cap ?st ?names)"
      using ok(2) by (simp add: shrinkCap_def)
    then show ?thesis
      using names_inv_alloc [OF inv a] d len i by (simp add: names_abs_def)
  next
    case False
    define n where "n = sl_len ?names"
    define arr where "arr = ns_arr ?st (sl_arr ?names)"
    define xs where "xs = (take i arr @ take (n - Suc i) (drop (Suc i) arr) @ drop (n - 1) arr)[n - 1 := []]"
    have arr: "length arr = slice_cap ?st ?names" by (simp add: arr_def slice_cap_def)
    have xs: "length xs = slice_cap ?st ?names"
      using i ok(2) arr by (simp add: xs_def n_def)
    have "take (n - 1) xs = take i (slice_list ?st ?names) @ drop (Suc i) (slice_list ?st ?names)"
    proof -
      have "take (n - 1) (take i arr @ take (n - Suc i) (drop (Suc i) arr) @ zs) =
          take i (take n arr) @ drop (Suc i) (take n arr)" for zs
      proof -
        have "n - Suc 0 \<le> i \<longrightarrow> take (n - Suc 0) arr = take i arr"
          using i by (auto simp: n_def dest: le_antisym)
        then show ?thesis using i ok(2) arr by (simp add: n_def drop_take min_def)
      qed
      then show ?thesis by (simp add: xs_def slice_list_def arr_def [symmetric] n_def [symmetric])
    qed
    moreover have "names_step g (NDelete i) s =
        s\<lparr>n_store := names_put (sl_arr ?names) xs ?st, n_names := ?names\<lparr>sl_len := n - 1\<rparr>\<rparr>"
      using False by (simp add: delete_name_def Let_def xs_def arr_def n_def)
    moreover have "n - 1 \<le> length xs" using ok(2) xs by (simp add: n_def)
    ultimately show ?thesis
      using names_inv_put_unshared [OF inv unmarked_unshared [OF inv False] xs, of "n - 1"]
      by (simp add: names_abs_def)
  qed
qed

lemma move_correct:
  assumes inv: "names_inv s" and i: "k < i" "i < sl_len (n_names s)"
  shows "names_inv (names_step g (NMove k i) s)
    \<and> names_abs (names_step g (NMove k i) s) = spec_step (NMove k i) (names_abs s)"
proof -
  let ?st = "n_store s" and ?names = "n_names s"
  define arr where "arr = ns_arr ?st (sl_arr ?names)"
  define moved where "moved = (\<lambda>xs. (take k xs @ xs ! k # take (i - k) (drop k xs) @ drop (Suc i) xs)[k := arr ! i])"
  have ok: "slice_ok ?st ?names" "sl_len ?names \<le> slice_cap ?st ?names"
    using inv by (simp_all add: names_inv_def slice_ok_def)
  have arr: "length arr = slice_cap ?st ?names" by (simp add: arr_def slice_cap_def)
  have m: "moved xs = take k xs @ arr ! i # drop k (take i xs) @ drop (Suc i) xs" if "i < length xs" for xs
    using that i by (simp add: moved_def list_update_append drop_take)
  have sl: "slice_list ?st ?names = take (sl_len ?names) arr" by (simp add: slice_list_def arr_def)
  have spec: "spec_step (NMove k i) (names_abs s) = (moved (slice_list ?st ?names), snd (names_abs s))"
    using i length_slice_list [OF ok(1)] by (simp add: names_abs_def m) (simp add: sl)
  have lm: "length (moved xs) = length xs" if "i < length xs" for xs using that i m [OF that] by simp
  show ?thesis
  proof (cases "namesMarkedForCopy ?st ?names")
    case True
    obtain st names where d: "move_name ?st ?names k i = (st, names)" by fastforce
    then have a: "alloc (moved (slice_list ?st ?names)) (slice_cap ?st ?names) ?st = (st, names)"
      using True by (simp add: move_name_def Let_def arr_def [symmetric] moved_def)
    then show ?thesis
      using names_inv_alloc [OF inv a] d spec lm length_slice_list [OF ok(1)] i ok(2) by simp
  next
    case False
    have "take (sl_len ?names) (moved arr) = moved (slice_list ?st ?names)"
    proof -
      have "i < length (slice_list ?st ?names)" "i < length arr"
        using i ok(2) arr length_slice_list [OF ok(1)] by simp_all
      then have "moved arr = take k arr @ arr ! i # drop k (take i arr) @ drop (Suc i) arr"
        "moved (slice_list ?st ?names) = take k arr @ arr ! i # drop k (take i arr) @ drop (Suc i) (take (sl_len ?names) arr)"
        using m i by (simp_all add: sl min_def)
      moreover have "take (sl_len ?names) (take k arr @ arr ! i # drop k (take i arr) @ drop (Suc i) arr) =
          take k arr @ arr ! i # drop k (take i arr) @ drop (Suc i) (take (sl_len ?names) arr)"
      proof -
        have "sl_len ?names - k = Suc (sl_len ?names - Suc k)" using i by simp
        moreover have "length (drop k (take i arr)) = i - k" "i - k \<le> sl_len ?names - Suc k"
          "sl_len ?names - Suc k - (i - k) = sl_len ?names - Suc i"
          using i ok(2) arr by auto
        ultimately show ?thesis using i ok(2) arr by (simp add: drop_take [symmetric] take_drop [symmetric])
      qed
      ultimately show ?thesis by simp
    qed
    moreover have "names_step g (NMove k i) s =
        s\<lparr>n_store := names_put (sl_arr ?names) (moved arr) ?st, n_names := ?names\<lparr>sl_len := sl_len ?names\<rparr>\<rparr>"
      using False by (simp add: move_name_def Let_def moved_def arr_def)
    ultimately show ?thesis
      using names_inv_put_unshared [OF inv unmarked_unshared [OF inv False], of "moved arr" "sl_len ?names"]
        ok(2) arr lm [of arr] i spec by simp
  qed
qed

lemma prepare_correct:
  assumes inv: "names_inv s"
  shows "names_inv (names_step g NIterate s) \<and> names_abs (names_step g NIterate s) = spec_step NIterate (names_abs s)"
proof -
  let ?st = "n_store s" and ?names = "n_names s"
  have ok: "slice_ok ?st ?names" "sl_len ?names \<le> slice_cap ?st ?names"
    using inv by (simp_all add: names_inv_def slice_ok_def)
  note len = length_slice_list [OF ok(1)]
  show ?thesis
  proof (cases "sl_len ?names = 0")
    case True
    have un: "sl_arr it \<noteq> sl_arr ?names" if "it \<in> set (n_iters s)" for it
      using that inv True by (auto simp: names_inv_def)
    have e: "?names\<lparr>sl_len := 0\<rparr> = ?names" using True by (cases ?names) simp
    show ?thesis
      using names_inv_put_unshared [OF inv un, of "(ns_arr ?st (sl_arr ?names))[slice_cap ?st ?names - 1 := []]" 0]
        inv True len
      by (cases "0 < slice_cap ?st ?names")
        (simp_all add: prepareNamesForCopy_def clearNamesCopyMarker_def slice_cap_def names_abs_def e slice_list_def)
  next
    case False
    define copied where "copied \<longleftrightarrow> namesMarkedForCopy ?st ?names \<or> slice_cap ?st ?names = sl_len ?names"
    define newcap where "newcap = (if slice_cap ?st ?names = sl_len ?names
        then growCap (sl_len ?names + 1) (sl_len ?names) (slice_cap ?st ?names) else slice_cap ?st ?names)"
    obtain st1 names1 where p1: "(if copied then alloc (slice_list ?st ?names) newcap ?st else (?st, ?names)) = (st1, names1)"
      by fastforce
    have nc: "sl_len ?names < newcap"
      using growCap_ge [OF ok(2), of "sl_len ?names + 1"] ok(2) by (auto simp: newcap_def)
    define s1 where "s1 = s\<lparr>n_store := st1, n_names := names1\<rparr>"
    have s1: "names_inv s1" "names_abs s1 = names_abs s" "sl_len names1 < slice_cap st1 names1"
      "sl_len names1 = sl_len ?names"
      "\<And>it. it \<in> set (n_iters s) \<Longrightarrow> sl_arr it \<noteq> sl_arr names1"
    proof -
      have "names_inv s1 \<and> names_abs s1 = names_abs s \<and> sl_len names1 < slice_cap st1 names1
        \<and> sl_len names1 = sl_len ?names \<and> (\<forall>it \<in> set (n_iters s). sl_arr it \<noteq> sl_arr names1)"
      proof (cases copied)
        case True
        then have a: "alloc (slice_list ?st ?names) newcap ?st = (st1, names1)" using p1 by simp
        have l: "length (slice_list ?st ?names) \<le> newcap" using nc len by simp
        note al = slice_list_alloc [OF a l]
        have "\<forall>it \<in> set (n_iters s). sl_arr it < ns_next ?st"
          using inv by (auto simp: names_inv_def slice_ok_def)
        then show ?thesis
          using names_inv_alloc [OF inv a l] al nc len by (auto simp: s1_def names_abs_def)
      next
        case False
        then have e: "st1 = ?st" "names1 = ?names" using p1 by simp_all
        have "s1 = s" by (simp add: s1_def e)
        moreover have "sl_len ?names < slice_cap ?st ?names" "\<not> namesMarkedForCopy ?st ?names"
          using False ok(2) by (auto simp: copied_def)
        ultimately show ?thesis using inv unmarked_unshared [OF inv] by (simp add: e)
      qed
      then show "names_inv s1" "names_abs s1 = names_abs s" "sl_len names1 < slice_cap st1 names1"
        "sl_len names1 = sl_len ?names" "\<And>it. it \<in> set (n_iters s) \<Longrightarrow> sl_arr it \<noteq> sl_arr names1"
        by blast+
    qed
    define xs where "xs = (ns_arr st1 (sl_arr names1))[slice_cap st1 names1 - 1 := copyMarker]"
    have prep: "prepareNamesForCopy ?st ?names = (names_put (sl_arr names1) xs st1, names1)"
      unfolding prepareNamesForCopy_def Let_def copied_def [symmetric] newcap_def [symmetric] p1
      using False by (simp add: xs_def)
    have step: "names_step g NIterate s = s1\<lparr>n_store := names_put (sl_arr names1) xs st1,
        n_names := names1, n_iters := n_iters s @ [names1]\<rparr>"
      using False prep s1(4) by (simp add: s1_def)
    have sl: "slice_list (names_put (sl_arr names1) xs st1) names1 = slice_list st1 names1"
      "slice_cap (names_put (sl_arr names1) xs st1) names1 = slice_cap st1 names1"
      using s1(3) by (simp_all add: slice_list_def names_put_def xs_def slice_cap_def)
    have mk: "namesMarkedForCopy (names_put (sl_arr names1) xs st1) names1"
      using s1(3) by (simp add: namesMarkedForCopy_def sl(2)) (simp add: names_put_def xs_def slice_cap_def)
    have ok1: "slice_ok (names_put (sl_arr names1) xs st1) names1"
      using s1(1) sl by (simp add: names_inv_def s1_def slice_ok_def)
    have oc: "slice_cap (names_put (sl_arr names1) xs st1) it = slice_cap st1 it" if "it \<in> set (n_iters s)" for it
      by (rule slice_list_other(2)) (rule s1(5) [OF that])
    have "names_inv (names_step g NIterate s)"
      unfolding step using s1(1-4) False mk ok1 oc
      by (auto simp: names_inv_def s1_def slice_ok_def dest: s1(5))
    moreover have "names_abs (names_step g NIterate s) = spec_step NIterate (names_abs s)"
    proof -
      have "slice_list st1 names1 = slice_list ?st ?names" using s1(2) by (simp add: names_abs_def s1_def)
      then have "slice_list st1 names1 \<noteq> []" using len False by auto
      moreover have "slice_list (names_put (sl_arr names1) xs st1) it = slice_list st1 it" if "it \<in> set (n_iters s)" for it
        by (rule slice_list_other(1)) (rule s1(5) [OF that])
      ultimately show ?thesis
        unfolding step using s1(2) by (auto simp: names_abs_def s1_def sl)
    qed
    ultimately show ?thesis by simp
  qed
qed

lemma finish_correct:
  assumes inv: "names_inv s" and j: "j < length (n_iters s)"
  shows "names_inv (names_step g (NFinish j) s) \<and> names_abs (names_step g (NFinish j) s) = spec_step (NFinish j) (names_abs s)"
proof -
  let ?st = "n_store s" and ?names = "n_names s"
  define it where "it = n_iters s ! j"
  define rest where "rest = take j (n_iters s) @ drop (Suc j) (n_iters s)"
  define st where "st = clearNamesCopyMarker ?st it"
  have sp: "n_iters s = take j (n_iters s) @ it # drop (Suc j) (n_iters s)"
    using id_take_nth_drop [OF j] by (simp add: it_def)
  then have d: "distinct (map sl_arr rest)" "\<And>x. x \<in> set rest \<Longrightarrow> sl_arr x \<noteq> sl_arr it \<and> x \<in> set (n_iters s)"
  proof -
    have "distinct (map sl_arr (take j (n_iters s) @ it # drop (Suc j) (n_iters s)))"
      using inv sp by (simp add: names_inv_def)
    then have "distinct (map sl_arr rest)" "sl_arr it \<notin> sl_arr ` set rest" by (auto simp: rest_def)
    moreover have "set rest \<subseteq> set (n_iters s)" by (auto simp: rest_def dest: in_set_takeD in_set_dropD)
    ultimately show "distinct (map sl_arr rest)"
      "\<And>x. x \<in> set rest \<Longrightarrow> sl_arr x \<noteq> sl_arr it \<and> x \<in> set (n_iters s)"
      by (simp, metis imageI subsetD)
  qed
  have it: "it \<in> set (n_iters s)" using j by (simp add: it_def)
  have oth: "slice_list st x = slice_list ?st x" "slice_cap st x = slice_cap ?st x"
    "namesMarkedForCopy st x = namesMarkedForCopy ?st x" if "sl_arr x \<noteq> sl_arr it" for x
    using that by (simp_all add: st_def clearNamesCopyMarker_def slice_list_other)
  have cap: "slice_cap st x = slice_cap ?st x" for x
    by (cases "sl_arr x = sl_arr it") (simp_all add: oth st_def clearNamesCopyMarker_def slice_cap_def names_put_def)
  have nx: "ns_next st = ns_next ?st" by (simp add: st_def clearNamesCopyMarker_def)
  have names: "slice_list st ?names = slice_list ?st ?names"
  proof (cases "sl_arr ?names = sl_arr it")
    case True
    then have "sl_len ?names < slice_cap ?st ?names"
      using inv it by (auto simp: names_inv_def namesMarkedForCopy_def)
    then show ?thesis using True
      by (simp add: st_def clearNamesCopyMarker_def slice_list_def names_put_def slice_cap_def)
  qed (rule oth)
  have step: "names_step g (NFinish j) s = s\<lparr>n_store := st, n_iters := rest\<rparr>"
    by (simp add: st_def it_def rest_def)
  have "namesMarkedForCopy st ?names" if "x \<in> set rest" "sl_arr x = sl_arr ?names" for x
    using that d(2) [of x] oth(3) [of ?names] inv by (auto simp: names_inv_def)
  then have "names_inv (s\<lparr>n_store := st, n_iters := rest\<rparr>)"
    using inv d oth cap nx by (auto simp: names_inv_def slice_ok_def)
  moreover have "names_abs (s\<lparr>n_store := st, n_iters := rest\<rparr>) = spec_step (NFinish j) (names_abs s)"
    using names oth(1) d(2) by (simp add: names_abs_def rest_def take_map drop_map)
  ultimately show ?thesis using step by simp
qed

lemma names_step_correct:
  assumes "names_inv s" "spec_ok op (names_abs s)" "\<And>c. c < g c"
  shows "names_inv (names_step g op s) \<and> names_abs (names_step g op s) = spec_step op (names_abs s)"
proof -
  have len: "length (slice_list (n_store s) (n_names s)) = sl_len (n_names s)"
    using assms(1) length_slice_list by (simp add: names_inv_def)
  show ?thesis
  proof (cases op)
    case (NAppend x) then show ?thesis using append_correct [OF assms(1,3)] by blast
  next
    case (NDelete i) then show ?thesis using delete_correct [OF assms(1)] assms(2) len by (simp add: names_abs_def)
  next
    case (NMove k i) then show ?thesis using move_correct [OF assms(1)] assms(2) len by (simp add: names_abs_def)
  next
    case NIterate then show ?thesis using prepare_correct [OF assms(1)] by blast
  next
    case (NFinish j) then show ?thesis using finish_correct [OF assms(1)] assms(2) by (simp add: names_abs_def)
  qed
qed

text \<open>
  C9. The shared slices of names refine plain lists: after any sequence of insertions,
  deletions and moves of names and of starts and ends of iterations, the object's slice
  reads as the list the specification computes, and every iteration under way still reads
  the names that were there when it began.
\<close>

theorem names_refine:
  assumes "spec_run ops ([], []) = Some (xs, its)" "\<forall>c. c < g c"
  shows "names_abs (names_run g ops) = (xs, its)"
proof -
  have "names_inv s \<Longrightarrow> spec_run ops (names_abs s) = Some r \<Longrightarrow> names_abs (fold (names_step g) ops s) = r" for s r
  proof (induction ops arbitrary: s)
    case (Cons op ops)
    then show ?case
      using names_step_correct [of s op g] assms(2) by (auto split: if_splits)
  qed simp
  from this [of names_init "(xs, its)"] assms(1) show ?thesis
    by (simp add: names_run_def names_inv_def names_init_def names_abs_def slice_ok_def slice_cap_def slice_list_def)
qed

lemma names_refine_witness:
  "names_abs (names_run (\<lambda>c. 2 * c + 1) [NAppend (u ''a''), NAppend (u ''b''), NIterate, NDelete 0, NAppend (u ''c'')])
    = ([u ''b'', u ''c''], [[u ''a'', u ''b'']])"
  by (rule names_refine) simp_all

text \<open>
  The end of an iteration over an empty list clears the last place of the capacity: had the
  list been filled up meanwhile, a name would be lost.
\<close>

lemma late_end_of_empty_iteration:
  "let st = \<lparr>ns_arr = (\<lambda>_. [])(1 := [[], []]), ns_next = 2\<rparr>;
       empty = \<lparr>sl_arr = 1, sl_len = 0\<rparr>;
       it = snd (prepareNamesForCopy st empty);
       (st, names) = append_name Suc st empty (u ''a'');
       (st, names) = append_name Suc st names (u ''b'')
   in slice_list st names = [u ''a'', u ''b''] \<and> slice_list (clearNamesCopyMarker st it) names = [u ''a'', []]"
  by code_simp

end
