(* ===== verification/Arrays.thy ===== *)
theory Arrays
  imports Property_Access Name_Lists
begin

text \<open>
  Arrays (\<open>array.go\<close>, \<open>array_sparse.go\<close>). A dense array keeps its elements in a slice, a
  sparse one in a list of items sorted by index; setting or defining an element may turn one
  into the other. The state is one array: what the prototype does with an index, and what
  user code (getters, setters) does, are parameters. The two representations are shown to
  keep their invariants and to implement the same finite map from indices to properties with
  a length (\<open>Array_Props\<close>).
\<close>

section \<open>State\<close>

text \<open>
  \<open>base\<close> is the embedded \<open>baseObject\<close>, which holds the properties that are no indices; its
  entry for \<open>length\<close> points to \<open>lengthProp\<close>, is neither configurable nor enumerable and is
  read through \<open>getLengthProp\<close> only. Indices are of type \<open>uint32\<close>, counters of type \<open>int\<close>.
\<close>

record dense =
  a_base :: jsobj
  a_values :: "slot option list"
  a_cap :: nat
  a_length :: nat
  a_objCount :: int
  a_propValueCount :: int
  a_lengthProp :: valueProperty

record sparse =
  s_base :: jsobj
  s_items :: "(nat \<times> slot) list"
  s_length :: nat
  s_propValueCount :: int
  s_lengthProp :: valueProperty

datatype arr = Dense dense | Sparse sparse

text \<open>
  \<open>x_setForeign\<close> is the prototype's \<open>setForeignIdx\<close>, \<open>None\<close> when it does not handle the
  assignment (the prototype of the array may be nil, which is the same); \<open>x_getForeign\<close> its
  \<open>getIdx\<close>; \<open>x_call\<close> runs a getter or setter, which may do anything to the array.
\<close>

record arr_env =
  x_env :: env
  x_self :: jsval
  x_setForeign :: "arr \<Rightarrow> nat \<Rightarrow> jsval \<Rightarrow> (arr, bool) outcome option"
  x_getForeign :: "arr \<Rightarrow> int \<Rightarrow> jsval \<Rightarrow> (arr, jsval option) outcome"
  x_hasForeign :: "arr \<Rightarrow> int \<Rightarrow> go_error + bool"
  x_call :: "arr \<Rightarrow> nat \<Rightarrow> jsval \<Rightarrow> jsval list \<Rightarrow> (arr, jsval) outcome"

definition length_name :: ustr where
  "length_name = u ''length''"

definition dense_init :: "jsobj \<Rightarrow> dense" where
  "dense_init base =
     (let lp = empty_prop\<lparr>vp_writable := True\<rparr> in
      \<lparr>a_base = base_put length_name (Prop lp) base, a_values = [], a_cap = 0, a_length = 0,
       a_objCount = 0, a_propValueCount = 0, a_lengthProp = lp\<rparr>)"

definition is_prop :: "slot \<Rightarrow> bool" where
  "is_prop s = (case s of Prop _ \<Rightarrow> True | Plain _ \<Rightarrow> False)"

section \<open>Dense arrays: the length\<close>

fun dense_len_loop :: "slot option list \<Rightarrow> nat \<Rightarrow> nat \<Rightarrow> int \<Rightarrow> nat \<times> bool \<times> int" where
  "dense_len_loop vs l 0 pvc = (l, True, pvc)"
| "dense_len_loop vs l (Suc i) pvc =
     (if i < l then (l, True, pvc)
      else case vs ! i of
        Some (Prop p) \<Rightarrow>
          if \<not> vp_configurable p then (i + 1, False, pvc) else dense_len_loop vs l i (pvc - 1)
      | _ \<Rightarrow> dense_len_loop vs l i pvc)"

definition dense_setLengthInt0 :: "dense \<Rightarrow> nat \<Rightarrow> bool \<Rightarrow> (dense, bool) outcome" where
  "dense_setLengthInt0 a l throw =
     (case (if l \<le> a_length a \<and> 0 < a_propValueCount a
            then dense_len_loop (a_values a) l (length (a_values a)) (a_propValueCount a)
            else (l, True, a_propValueCount a)) of
        (l, ret, pvc) \<Rightarrow>
          let a = a\<lparr>a_propValueCount := pvc\<rparr>;
              a = (if l \<le> length (a_values a) then
                     (if 16 \<le> l \<and> l < a_cap a div 4
                      then a\<lparr>a_values := take l (a_values a), a_cap := l\<rparr>
                      else a\<lparr>a_values := take l (a_values a)\<rparr>)
                   else a)
          in (a\<lparr>a_length := l\<rparr>, if ret then Inr True else typeErrorResult throw False))"

definition dense_setLength :: "dense \<Rightarrow> nat \<Rightarrow> bool \<Rightarrow> (dense, bool) outcome" where
  "dense_setLength a v throw =
     (if \<not> vp_writable (a_lengthProp a) then (a, typeErrorResult throw False)
      else dense_setLengthInt0 a v throw)"

definition dense_setLengthInt :: "dense \<Rightarrow> nat \<Rightarrow> bool \<Rightarrow> (dense, bool) outcome" where
  "dense_setLengthInt a l throw =
     (if l = a_length a then (a, Inr True)
      else if \<not> vp_writable (a_lengthProp a) then (a, typeErrorResult throw False)
      else dense_setLengthInt0 a l throw)"

definition dense_getLengthProp :: "dense \<Rightarrow> dense" where
  "dense_getLengthProp a =
     a\<lparr>a_lengthProp := (a_lengthProp a)\<lparr>vp_value := Some (intToValue (int (a_length a)))\<rparr>\<rparr>"

section \<open>Sparse arrays: search and length\<close>

definition findIdx :: "sparse \<Rightarrow> nat \<Rightarrow> nat" where
  "findIdx a idx = sort_search (length (s_items a)) (\<lambda>i. idx \<le> fst (s_items a ! i))"

text \<open>The scan from the end; it leaves off at an index not above the new length.\<close>

fun sparse_len_loop :: "(nat \<times> slot) list \<Rightarrow> nat \<Rightarrow> nat \<Rightarrow> int \<Rightarrow> nat \<times> bool \<times> int" where
  "sparse_len_loop items l 0 pvc = (l, True, pvc)"
| "sparse_len_loop items l (Suc i) pvc =
     (if fst (items ! i) \<le> l then (l, True, pvc)
      else case snd (items ! i) of
        Prop p \<Rightarrow>
          if \<not> vp_configurable p then (fst (items ! i) + 1, False, pvc)
          else sparse_len_loop items l i (pvc - 1)
      | Plain _ \<Rightarrow> sparse_len_loop items l i pvc)"

definition sparse_setLengthInt0 :: "sparse \<Rightarrow> nat \<Rightarrow> bool \<Rightarrow> (sparse, bool) outcome" where
  "sparse_setLengthInt0 a l throw =
     (case (if l \<le> s_length a \<and> 0 < s_propValueCount a
            then sparse_len_loop (s_items a) l (length (s_items a)) (s_propValueCount a)
            else (l, True, s_propValueCount a)) of
        (l, ret, pvc) \<Rightarrow>
          (a\<lparr>s_propValueCount := pvc, s_items := take (findIdx a l) (s_items a), s_length := l\<rparr>,
           if ret then Inr True else typeErrorResult throw False))"

definition sparse_setLength :: "sparse \<Rightarrow> nat \<Rightarrow> bool \<Rightarrow> (sparse, bool) outcome" where
  "sparse_setLength a v throw =
     (if \<not> vp_writable (s_lengthProp a) then (a, typeErrorResult throw False)
      else sparse_setLengthInt0 a v throw)"

definition sparse_setLengthInt :: "sparse \<Rightarrow> nat \<Rightarrow> bool \<Rightarrow> (sparse, bool) outcome" where
  "sparse_setLengthInt a l throw =
     (if l = s_length a then (a, Inr True)
      else if \<not> vp_writable (s_lengthProp a) then (a, typeErrorResult throw False)
      else sparse_setLengthInt0 a l throw)"

definition sparse_getLengthProp :: "sparse \<Rightarrow> sparse" where
  "sparse_getLengthProp a =
     a\<lparr>s_lengthProp := (s_lengthProp a)\<lparr>vp_value := Some (intToValue (int (s_length a)))\<rparr>\<rparr>"

definition found :: "sparse \<Rightarrow> nat \<Rightarrow> bool" where
  "found a idx = (findIdx a idx < length (s_items a) \<and> fst (s_items a ! findIdx a idx) = idx)"

definition sparse_getIdx0 :: "sparse \<Rightarrow> nat \<Rightarrow> slot option" where
  "sparse_getIdx0 a idx = (if found a idx then Some (snd (s_items a ! findIdx a idx)) else None)"

definition insert_item :: "nat \<Rightarrow> nat \<times> slot \<Rightarrow> (nat \<times> slot) list \<Rightarrow> (nat \<times> slot) list" where
  "insert_item i x items = take i items @ x # drop i items"

definition sparse_add :: "sparse \<Rightarrow> nat \<Rightarrow> slot \<Rightarrow> sparse" where
  "sparse_add a idx val = a\<lparr>s_items := insert_item (findIdx a idx) (idx, val) (s_items a)\<rparr>"

section \<open>From one representation to the other\<close>

fun setValues :: "nat \<Rightarrow> slot option list \<Rightarrow> (nat \<times> slot) list" where
  "setValues i [] = []"
| "setValues i (v # vs) = (case v of None \<Rightarrow> setValues (Suc i) vs | Some x \<Rightarrow> (i, x) # setValues (Suc i) vs)"

definition length_prop :: "bool \<Rightarrow> valueProperty" where
  "length_prop w = empty_prop\<lparr>vp_writable := w\<rparr>"

definition dense_to_sparse :: "dense \<Rightarrow> sparse" where
  "dense_to_sparse a =
     \<lparr>s_base = base_put length_name (Prop (length_prop (vp_writable (a_lengthProp a)))) (a_base a),
      s_items = setValues 0 (a_values a), s_length = a_length a, s_propValueCount = a_propValueCount a,
      s_lengthProp = length_prop (vp_writable (a_lengthProp a))\<rparr>"

definition setValuesFromSparse :: "(nat \<times> slot) list \<Rightarrow> nat \<Rightarrow> slot option list" where
  "setValuesFromSparse items newMaxIdx =
     fold (\<lambda>item vs. vs[fst item := Some (snd item)]) items (replicate (newMaxIdx + 1) None)"

definition sparse_to_dense :: "sparse \<Rightarrow> nat \<Rightarrow> dense" where
  "sparse_to_dense a newMaxIdx =
     \<lparr>a_base = base_put length_name (Prop (length_prop (vp_writable (s_lengthProp a)))) (s_base a),
      a_values = setValuesFromSparse (s_items a) newMaxIdx, a_cap = newMaxIdx + 1, a_length = s_length a,
      a_objCount = int (length (s_items a)), a_propValueCount = s_propValueCount a,
      a_lengthProp = length_prop (vp_writable (s_lengthProp a))\<rparr>"

definition uint32 :: "int \<Rightarrow> nat" where
  "uint32 i = nat (wrap_unsigned 32 i)"

definition dense_expand :: "dense \<Rightarrow> nat \<Rightarrow> arr \<times> bool" where
  "dense_expand a idx =
     (let targetLen = idx + 1; n = length (a_values a) in
      if n < targetLen then
        if targetLen < a_cap a then
          (Dense (a\<lparr>a_values := a_values a @ replicate (targetLen - n) None\<rparr>), True)
        else if 4096 < idx \<and> (a_objCount a = 0 \<or> 10 < idx div uint32 (a_objCount a)) then
          (Sparse (dense_to_sparse a), False)
        else
          (Dense (a\<lparr>a_values := a_values a @ replicate (targetLen - n) None,
                    a_cap := growCap targetLen n (a_cap a)\<rparr>), True)
      else (Dense a, True))"

definition sparse_expand :: "sparse \<Rightarrow> nat \<Rightarrow> arr \<times> bool" where
  "sparse_expand a idx =
     (let l = length (s_items a) in
      if 1024 \<le> l then
        let ii = fst (s_items a ! (l - 1));
            idx = (if idx < ii then ii else idx)
        in if idx div 8 < l then (Dense (sparse_to_dense a idx), False) else (Sparse a, True)
      else (Sparse a, True))"

section \<open>Reading elements\<close>

definition dense_getOwnPropIdx :: "dense \<Rightarrow> int \<Rightarrow> slot option" where
  "dense_getOwnPropIdx a idx =
     (let i = toIdx idx in
      if i \<noteq> maxUint32 then (if i < length (a_values a) then a_values a ! i else None)
      else getOwnPropStr (a_base a) (FormatInt idx))"

definition dense_getOwnPropStr :: "dense \<Rightarrow> ustr \<Rightarrow> dense \<times> slot option" where
  "dense_getOwnPropStr a name =
     (let i = strToArrayIdx name in
      if 0 < length (a_values a) \<and> i \<noteq> maxUint32 \<and> i < length (a_values a) then (a, a_values a ! i)
      else if name = length_name then
        (let a = dense_getLengthProp a in (a, Some (Prop (a_lengthProp a))))
      else (a, getOwnPropStr (a_base a) name))"

definition sparse_getOwnPropIdx :: "sparse \<Rightarrow> int \<Rightarrow> slot option" where
  "sparse_getOwnPropIdx a idx =
     (if toIdx idx \<noteq> maxUint32 then sparse_getIdx0 a (toIdx idx)
      else getOwnPropStr (s_base a) (FormatInt idx))"

definition sparse_getOwnPropStr :: "sparse \<Rightarrow> ustr \<Rightarrow> sparse \<times> slot option" where
  "sparse_getOwnPropStr a name =
     (if strToArrayIdx name \<noteq> maxUint32 then (a, sparse_getIdx0 a (strToArrayIdx name))
      else if name = length_name then
        (let a = sparse_getLengthProp a in (a, Some (Prop (s_lengthProp a))))
      else (a, getOwnPropStr (s_base a) name))"

definition dense_hasOwnPropertyStr :: "dense \<Rightarrow> ustr \<Rightarrow> bool" where
  "dense_hasOwnPropertyStr a name =
     (let idx = strToArrayIdx name in
      if idx \<noteq> maxUint32 then idx < length (a_values a) \<and> a_values a ! idx \<noteq> None
      else hasOwnPropertyStr (a_base a) name)"

definition dense_hasOwnPropertyIdx :: "dense \<Rightarrow> int \<Rightarrow> bool" where
  "dense_hasOwnPropertyIdx a idx =
     (if toIdx idx \<noteq> maxUint32 then toIdx idx < length (a_values a) \<and> a_values a ! toIdx idx \<noteq> None
      else hasOwnPropertyStr (a_base a) (FormatInt idx))"

definition sparse_hasOwnPropertyStr :: "sparse \<Rightarrow> ustr \<Rightarrow> bool" where
  "sparse_hasOwnPropertyStr a name =
     (if strToArrayIdx name \<noteq> maxUint32 then found a (strToArrayIdx name)
      else hasOwnPropertyStr (s_base a) name)"

definition sparse_hasOwnPropertyIdx :: "sparse \<Rightarrow> int \<Rightarrow> bool" where
  "sparse_hasOwnPropertyIdx a idx =
     (if toIdx idx \<noteq> maxUint32 then found a (toIdx idx)
      else hasOwnPropertyStr (s_base a) (FormatInt idx))"

definition dense_hasPropertyIdx :: "arr_env \<Rightarrow> dense \<Rightarrow> int \<Rightarrow> go_error + bool" where
  "dense_hasPropertyIdx X a idx =
     (if dense_hasOwnPropertyIdx a idx then Inr True else x_hasForeign X (Dense a) idx)"

definition sparse_hasPropertyIdx :: "arr_env \<Rightarrow> sparse \<Rightarrow> int \<Rightarrow> go_error + bool" where
  "sparse_hasPropertyIdx X a idx =
     (if sparse_hasOwnPropertyIdx a idx then Inr True else x_hasForeign X (Sparse a) idx)"

text \<open>\<open>valueProperty.get\<close> for an array.\<close>

definition arr_prop_get :: "arr_env \<Rightarrow> arr \<Rightarrow> valueProperty \<Rightarrow> jsval \<Rightarrow> (arr, jsval option) outcome" where
  "arr_prop_get X a p this =
     (case vp_getter p of
        None \<Rightarrow> (a, Inr (Some (case vp_value p of Some v \<Rightarrow> v | None \<Rightarrow> VUndefined)))
      | Some f \<Rightarrow> mapS Some (x_call X a f this []))"

definition arr_getIdx :: "arr_env \<Rightarrow> arr \<Rightarrow> slot option \<Rightarrow> int \<Rightarrow> jsval option \<Rightarrow> (arr, jsval option) outcome" where
  "arr_getIdx X a prop idx receiver =
     (let recv = (case receiver of None \<Rightarrow> x_self X | Some r \<Rightarrow> r) in
      case prop of
        None \<Rightarrow> x_getForeign X a idx recv
      | Some (Prop p) \<Rightarrow> arr_prop_get X a p recv
      | Some (Plain v) \<Rightarrow> (a, Inr (Some v)))"

definition dense_getIdx :: "arr_env \<Rightarrow> dense \<Rightarrow> int \<Rightarrow> jsval option \<Rightarrow> (arr, jsval option) outcome" where
  "dense_getIdx X a idx receiver = arr_getIdx X (Dense a) (dense_getOwnPropIdx a idx) idx receiver"

definition sparse_getIdx :: "arr_env \<Rightarrow> sparse \<Rightarrow> int \<Rightarrow> jsval option \<Rightarrow> (arr, jsval option) outcome" where
  "sparse_getIdx X a idx receiver = arr_getIdx X (Sparse a) (sparse_getOwnPropIdx a idx) idx receiver"

section \<open>Assignment to an element\<close>

definition arr_res :: "(dense, 'a) outcome \<Rightarrow> (arr, 'a) outcome" where
  "arr_res r = (Dense (fst r), snd r)"

definition arr_res_s :: "(sparse, 'a) outcome \<Rightarrow> (arr, 'a) outcome" where
  "arr_res_s r = (Sparse (fst r), snd r)"

text \<open>A new element, once the prototype has left it to the array.\<close>

definition dense_new_elem :: "dense \<Rightarrow> nat \<Rightarrow> jsval \<Rightarrow> bool \<Rightarrow> (arr, bool) outcome" where
  "dense_new_elem a idx val throw =
     (if \<not> o_extensible (a_base a) then (Dense a, typeErrorResult throw False)
      else
        case (if a_length a \<le> idx then dense_setLengthInt a (idx + 1) throw else (a, Inr True)) of
          (a, Inl e) \<Rightarrow> (Dense a, Inl e)
        | (a, Inr False) \<Rightarrow> (Dense a, Inr False)
        | (a, Inr True) \<Rightarrow>
            (case (if length (a_values a) \<le> idx then dense_expand a idx else (Dense a, True)) of
               (Dense a, _) \<Rightarrow>
                 (Dense (a\<lparr>a_objCount := a_objCount a + 1, a_values := (a_values a)[idx := Some (Plain val)]\<rparr>), Inr True)
             | (Sparse s, _) \<Rightarrow> (Sparse (sparse_add s idx (Plain val)), Inr True)))"

definition dense_setOwnIdx0 :: "arr_env \<Rightarrow> dense \<Rightarrow> nat \<Rightarrow> jsval \<Rightarrow> bool \<Rightarrow> (arr, bool) outcome" where
  "dense_setOwnIdx0 X a idx val throw =
     (case (if idx < length (a_values a) then a_values a ! idx else None) of
        None \<Rightarrow>
          (case x_setForeign X (Dense a) idx val of
             Some r \<Rightarrow> r
           | None \<Rightarrow> dense_new_elem a idx val throw)
      | Some (Prop p) \<Rightarrow>
          if \<not> vp_isWritable p then (Dense a, typeErrorResult throw False)
          else (case vp_setter p of
                  None \<Rightarrow> (Dense (a\<lparr>a_values := (a_values a)[idx := Some (Prop (p\<lparr>vp_value := Some val\<rparr>))]\<rparr>), Inr True)
                | Some f \<Rightarrow> mapS (\<lambda>_. True) (x_call X (Dense a) f (x_self X) [val]))
      | Some (Plain _) \<Rightarrow> (Dense (a\<lparr>a_values := (a_values a)[idx := Some (Plain val)]\<rparr>), Inr True))"

definition sparse_new_elem :: "sparse \<Rightarrow> nat \<Rightarrow> jsval \<Rightarrow> bool \<Rightarrow> (arr, bool) outcome" where
  "sparse_new_elem a idx val throw =
     (let i = findIdx a idx in
      if \<not> o_extensible (s_base a) then (Sparse a, typeErrorResult throw False)
      else
        case (if s_length a \<le> idx then sparse_setLengthInt a (idx + 1) throw else (a, Inr True)) of
          (a, Inl e) \<Rightarrow> (Sparse a, Inl e)
        | (a, Inr False) \<Rightarrow> (Sparse a, Inr False)
        | (a, Inr True) \<Rightarrow>
            (case sparse_expand a idx of
               (Sparse a, _) \<Rightarrow> (Sparse (a\<lparr>s_items := insert_item i (idx, Plain val) (s_items a)\<rparr>), Inr True)
             | (Dense d, _) \<Rightarrow>
                 (Dense (d\<lparr>a_values := (a_values d)[idx := Some (Plain val)], a_objCount := a_objCount d + 1\<rparr>), Inr True)))"

definition sparse_setOwnIdx0 :: "arr_env \<Rightarrow> sparse \<Rightarrow> nat \<Rightarrow> jsval \<Rightarrow> bool \<Rightarrow> (arr, bool) outcome" where
  "sparse_setOwnIdx0 X a idx val throw =
     (let i = findIdx a idx in
      case (if found a idx then Some (snd (s_items a ! i)) else None) of
        None \<Rightarrow>
          (case x_setForeign X (Sparse a) idx val of
             Some r \<Rightarrow> r
           | None \<Rightarrow> sparse_new_elem a idx val throw)
      | Some (Prop p) \<Rightarrow>
          if \<not> vp_isWritable p then (Sparse a, typeErrorResult throw False)
          else (case vp_setter p of
                  None \<Rightarrow> (Sparse (a\<lparr>s_items := (s_items a)[i := (fst (s_items a ! i), Prop (p\<lparr>vp_value := Some val\<rparr>))]\<rparr>), Inr True)
                | Some f \<Rightarrow> mapS (\<lambda>_. True) (x_call X (Sparse a) f (x_self X) [val]))
      | Some (Plain _) \<Rightarrow>
          (Sparse (a\<lparr>s_items := (s_items a)[i := (fst (s_items a ! i), Plain val)]\<rparr>), Inr True))"

text \<open>\<open>setStr\<close> is the \<open>baseObject\<close>'s assignment by name, for names that are no indices.\<close>

definition dense_setOwnIdx :: "arr_env \<Rightarrow> (ustr \<Rightarrow> (arr, bool) outcome) \<Rightarrow> dense \<Rightarrow> int \<Rightarrow> jsval \<Rightarrow> bool
    \<Rightarrow> (arr, bool) outcome" where
  "dense_setOwnIdx X setStr a idx val throw =
     (if toIdx idx \<noteq> maxUint32 then dense_setOwnIdx0 X a (toIdx idx) val throw else setStr (FormatInt idx))"

definition dense_setOwnStr :: "arr_env \<Rightarrow> (ustr \<Rightarrow> (arr, bool) outcome) \<Rightarrow> dense \<Rightarrow> ustr \<Rightarrow> jsval \<Rightarrow> bool
    \<Rightarrow> (arr, bool) outcome" where
  "dense_setOwnStr X setStr a name val throw =
     (if strToArrayIdx name \<noteq> maxUint32 then dense_setOwnIdx0 X a (strToArrayIdx name) val throw
      else if name = length_name then
        (case toLengthUint32 (e_host (x_env X)) val of
           Inl e \<Rightarrow> (Dense a, Inl e)
         | Inr l \<Rightarrow> arr_res (dense_setLength a (nat l) throw))
      else setStr name)"

definition sparse_setOwnIdx :: "arr_env \<Rightarrow> (ustr \<Rightarrow> (arr, bool) outcome) \<Rightarrow> sparse \<Rightarrow> int \<Rightarrow> jsval \<Rightarrow> bool
    \<Rightarrow> (arr, bool) outcome" where
  "sparse_setOwnIdx X setStr a idx val throw =
     (if toIdx idx \<noteq> maxUint32 then sparse_setOwnIdx0 X a (toIdx idx) val throw else setStr (FormatInt idx))"

definition sparse_setOwnStr :: "arr_env \<Rightarrow> (ustr \<Rightarrow> (arr, bool) outcome) \<Rightarrow> sparse \<Rightarrow> ustr \<Rightarrow> jsval \<Rightarrow> bool
    \<Rightarrow> (arr, bool) outcome" where
  "sparse_setOwnStr X setStr a name val throw =
     (if strToArrayIdx name \<noteq> maxUint32 then sparse_setOwnIdx0 X a (strToArrayIdx name) val throw
      else if name = length_name then
        (case toLengthUint32 (e_host (x_env X)) val of
           Inl e \<Rightarrow> (Sparse a, Inl e)
         | Inr l \<Rightarrow> arr_res_s (sparse_setLength a (nat l) throw))
      else setStr name)"

section \<open>Definition of an element and of the length\<close>

text \<open>
  The result of the base definition: what the existing slot has become, and the new slot.
  The counters are kept as the code keeps them: \<open>objCount\<close> grows with every definition,
  \<open>propValueCount\<close> not when the representation changes.
\<close>

definition dense_defineIdx :: "env \<Rightarrow> dense \<Rightarrow> nat \<Rightarrow> propdesc \<Rightarrow> bool \<Rightarrow> (arr, bool) outcome" where
  "dense_defineIdx E a idx desc throw =
     (let existing = (if idx < length (a_values a) then a_values a ! idx else None) in
      case base_defineOwnProperty E (o_extensible (a_base a)) existing desc throw of
        (cur, r) \<Rightarrow>
          let a = (if idx < length (a_values a) then a\<lparr>a_values := (a_values a)[idx := cur]\<rparr> else a) in
          (case r of
             Inl e \<Rightarrow> (Dense a, Inl e)
           | Inr None \<Rightarrow> (Dense a, Inr False)
           | Inr (Some prop) \<Rightarrow>
               (case (if a_length a \<le> idx then dense_setLengthInt a (idx + 1) throw else (a, Inr True)) of
                  (a, Inl e) \<Rightarrow> (Dense a, Inl e)
                | (a, Inr False) \<Rightarrow> (Dense a, Inr False)
                | (a, Inr True) \<Rightarrow>
                    (case dense_expand a idx of
                       (Dense a, _) \<Rightarrow>
                         (Dense (a\<lparr>a_values := (a_values a)[idx := Some prop], a_objCount := a_objCount a + 1,
                            a_propValueCount := a_propValueCount a + (if is_prop prop then 1 else 0)\<rparr>), Inr True)
                     | (Sparse s, _) \<Rightarrow> (Sparse (sparse_add s idx prop), Inr True)))))"

definition sparse_defineIdx :: "env \<Rightarrow> sparse \<Rightarrow> nat \<Rightarrow> propdesc \<Rightarrow> bool \<Rightarrow> (arr, bool) outcome" where
  "sparse_defineIdx E a idx desc throw =
     (let i = findIdx a idx; f = found a idx in
      case base_defineOwnProperty E (o_extensible (s_base a)) (if f then Some (snd (s_items a ! i)) else None) desc throw of
        (cur, r) \<Rightarrow>
          let a = (case cur of Some c \<Rightarrow> if f then a\<lparr>s_items := (s_items a)[i := (idx, c)]\<rparr> else a | None \<Rightarrow> a) in
          (case r of
             Inl e \<Rightarrow> (Sparse a, Inl e)
           | Inr None \<Rightarrow> (Sparse a, Inr False)
           | Inr (Some prop) \<Rightarrow>
               (case (if s_length a \<le> idx then sparse_setLengthInt a (idx + 1) throw else (a, Inr True)) of
                  (a, Inl e) \<Rightarrow> (Sparse a, Inl e)
                | (a, Inr False) \<Rightarrow> (Sparse a, Inr False)
                | (a, Inr True) \<Rightarrow>
                    if \<not> (i < length (s_items a) \<and> fst (s_items a ! i) = idx) then
                      (case sparse_expand a idx of
                         (Sparse a, _) \<Rightarrow>
                           (Sparse (a\<lparr>s_items := insert_item i (idx, prop) (s_items a),
                              s_length := if s_length a \<le> idx then idx + 1 else s_length a,
                              s_propValueCount := s_propValueCount a + (if is_prop prop then 1 else 0)\<rparr>), Inr True)
                       | (Dense d, _) \<Rightarrow> (Dense (d\<lparr>a_values := (a_values d)[idx := Some prop]\<rparr>), Inr True))
                    else
                      (Sparse (a\<lparr>s_items := (s_items a)[i := (idx, prop)],
                         s_propValueCount := s_propValueCount a + (if is_prop prop then 1 else 0)\<rparr>), Inr True))))"

text \<open>
  \<open>defineArrayLength\<close>, for a property whose value was just refreshed: \<open>prop\<close> and \<open>write\<close>
  read and set its \<open>writable\<close> flag, \<open>setter\<close> is \<open>setLength\<close>, called not to raise.
\<close>

definition defineArrayLength :: "host \<Rightarrow> (arr \<Rightarrow> bool) \<Rightarrow> (bool \<Rightarrow> arr \<Rightarrow> arr) \<Rightarrow> (arr \<Rightarrow> nat)
    \<Rightarrow> (arr \<Rightarrow> nat \<Rightarrow> (arr, bool) outcome) \<Rightarrow> arr \<Rightarrow> propdesc \<Rightarrow> bool \<Rightarrow> (arr, bool) outcome" where
  "defineArrayLength h writable write len setter a descr throw =
     (case (case pd_value descr of None \<Rightarrow> Inr 0 | Some v \<Rightarrow> mapR nat (toLengthUint32 h v)) of
        Inl e \<Rightarrow> (a, Inl e)
      | Inr newLen \<Rightarrow>
          if pd_configurable descr = FLAG_TRUE \<or> pd_enumerable descr = FLAG_TRUE
            \<or> pd_getter descr \<noteq> None \<or> pd_setter descr \<noteq> None
          then (a, typeErrorResult throw False)
          else
            case (if pd_value descr \<noteq> None \<and> len a \<noteq> newLen then setter a newLen else (a, Inr True)) of
              (a, Inl e) \<Rightarrow> (a, Inl e)
            | (a, Inr ret) \<Rightarrow>
                if pd_writable descr \<noteq> FLAG_NOT_SET \<and> \<not> writable a \<and> flag_bool (pd_writable descr)
                then (a, typeErrorResult throw False)
                else
                  let a = (if pd_writable descr \<noteq> FLAG_NOT_SET \<and> writable a
                           then write (flag_bool (pd_writable descr)) a else a)
                  in (a, if ret then Inr True else typeErrorResult throw False))"

definition dense_defineLength :: "host \<Rightarrow> dense \<Rightarrow> propdesc \<Rightarrow> bool \<Rightarrow> (arr, bool) outcome" where
  "dense_defineLength h a descr throw =
     defineArrayLength h
       (\<lambda>x. case x of Dense d \<Rightarrow> vp_writable (a_lengthProp d) | _ \<Rightarrow> False)
       (\<lambda>w x. case x of Dense d \<Rightarrow> Dense (d\<lparr>a_lengthProp := (a_lengthProp d)\<lparr>vp_writable := w\<rparr>\<rparr>) | _ \<Rightarrow> x)
       (\<lambda>x. case x of Dense d \<Rightarrow> a_length d | _ \<Rightarrow> 0)
       (\<lambda>x l. case x of Dense d \<Rightarrow> arr_res (dense_setLength d l False) | _ \<Rightarrow> (x, Inr True))
       (Dense (dense_getLengthProp a)) descr throw"

definition sparse_defineLength :: "host \<Rightarrow> sparse \<Rightarrow> propdesc \<Rightarrow> bool \<Rightarrow> (arr, bool) outcome" where
  "sparse_defineLength h a descr throw =
     defineArrayLength h
       (\<lambda>x. case x of Sparse d \<Rightarrow> vp_writable (s_lengthProp d) | _ \<Rightarrow> False)
       (\<lambda>w x. case x of Sparse d \<Rightarrow> Sparse (d\<lparr>s_lengthProp := (s_lengthProp d)\<lparr>vp_writable := w\<rparr>\<rparr>) | _ \<Rightarrow> x)
       (\<lambda>x. case x of Sparse d \<Rightarrow> s_length d | _ \<Rightarrow> 0)
       (\<lambda>x l. case x of Sparse d \<Rightarrow> arr_res_s (sparse_setLength d l False) | _ \<Rightarrow> (x, Inr True))
       (Sparse (sparse_getLengthProp a)) descr throw"

definition dense_defineOwnPropertyStr :: "env \<Rightarrow> (ustr \<Rightarrow> (arr, bool) outcome) \<Rightarrow> dense \<Rightarrow> ustr \<Rightarrow> propdesc \<Rightarrow> bool
    \<Rightarrow> (arr, bool) outcome" where
  "dense_defineOwnPropertyStr E base a name descr throw =
     (if strToArrayIdx name \<noteq> maxUint32 then dense_defineIdx E a (strToArrayIdx name) descr throw
      else if name = length_name then dense_defineLength (e_host E) a descr throw
      else base name)"

definition dense_defineOwnPropertyIdx :: "env \<Rightarrow> (ustr \<Rightarrow> (arr, bool) outcome) \<Rightarrow> dense \<Rightarrow> int \<Rightarrow> propdesc \<Rightarrow> bool
    \<Rightarrow> (arr, bool) outcome" where
  "dense_defineOwnPropertyIdx E base a idx descr throw =
     (if toIdx idx \<noteq> maxUint32 then dense_defineIdx E a (toIdx idx) descr throw else base (FormatInt idx))"

definition sparse_defineOwnPropertyStr :: "env \<Rightarrow> (ustr \<Rightarrow> (arr, bool) outcome) \<Rightarrow> sparse \<Rightarrow> ustr \<Rightarrow> propdesc \<Rightarrow> bool
    \<Rightarrow> (arr, bool) outcome" where
  "sparse_defineOwnPropertyStr E base a name descr throw =
     (if strToArrayIdx name \<noteq> maxUint32 then sparse_defineIdx E a (strToArrayIdx name) descr throw
      else if name = length_name then sparse_defineLength (e_host E) a descr throw
      else base name)"

definition sparse_defineOwnPropertyIdx :: "env \<Rightarrow> (ustr \<Rightarrow> (arr, bool) outcome) \<Rightarrow> sparse \<Rightarrow> int \<Rightarrow> propdesc \<Rightarrow> bool
    \<Rightarrow> (arr, bool) outcome" where
  "sparse_defineOwnPropertyIdx E base a idx descr throw =
     (if toIdx idx \<noteq> maxUint32 then sparse_defineIdx E a (toIdx idx) descr throw else base (FormatInt idx))"

section \<open>Deletion\<close>

definition dense_deleteIdx0 :: "dense \<Rightarrow> nat \<Rightarrow> bool \<Rightarrow> (dense, bool) outcome" where
  "dense_deleteIdx0 a idx throw =
     (if idx < length (a_values a) then
        case a_values a ! idx of
          None \<Rightarrow> (a, Inr True)
        | Some (Prop p) \<Rightarrow>
            if \<not> vp_configurable p then (a, typeErrorResult throw False)
            else (a\<lparr>a_propValueCount := a_propValueCount a - 1, a_values := (a_values a)[idx := None],
                    a_objCount := a_objCount a - 1\<rparr>, Inr True)
        | Some (Plain _) \<Rightarrow>
            (a\<lparr>a_values := (a_values a)[idx := None], a_objCount := a_objCount a - 1\<rparr>, Inr True)
      else (a, Inr True))"

definition remove_item :: "nat \<Rightarrow> (nat \<times> slot) list \<Rightarrow> (nat \<times> slot) list" where
  "remove_item i items = take i items @ drop (Suc i) items"

definition sparse_deleteIdx0 :: "sparse \<Rightarrow> nat \<Rightarrow> bool \<Rightarrow> (sparse, bool) outcome" where
  "sparse_deleteIdx0 a idx throw =
     (let i = findIdx a idx in
      if found a idx then
        case snd (s_items a ! i) of
          Prop p \<Rightarrow>
            if \<not> vp_configurable p then (a, typeErrorResult throw False)
            else (a\<lparr>s_propValueCount := s_propValueCount a - 1, s_items := remove_item i (s_items a)\<rparr>, Inr True)
        | Plain _ \<Rightarrow> (a\<lparr>s_items := remove_item i (s_items a)\<rparr>, Inr True)
      else (a, Inr True))"

definition base_deleteStr :: "jsobj \<Rightarrow> ustr \<Rightarrow> bool \<Rightarrow> (jsobj, bool) outcome" where
  "base_deleteStr ob name throw =
     (case o_values ob name of
        None \<Rightarrow> (ob, Inr True)
      | Some s \<Rightarrow>
          (case checkDelete s throw of
             Inl e \<Rightarrow> (ob, Inl e)
           | Inr False \<Rightarrow> (ob, Inr False)
           | Inr True \<Rightarrow> (base_delete name ob, Inr True)))"

definition dense_deleteStr :: "dense \<Rightarrow> ustr \<Rightarrow> bool \<Rightarrow> (dense, bool) outcome" where
  "dense_deleteStr a name throw =
     (if strToArrayIdx name \<noteq> maxUint32 then dense_deleteIdx0 a (strToArrayIdx name) throw
      else (case base_deleteStr (a_base a) name throw of (b, r) \<Rightarrow> (a\<lparr>a_base := b\<rparr>, r)))"

definition dense_deleteIdx :: "dense \<Rightarrow> int \<Rightarrow> bool \<Rightarrow> (dense, bool) outcome" where
  "dense_deleteIdx a idx throw =
     (if toIdx idx \<noteq> maxUint32 then dense_deleteIdx0 a (toIdx idx) throw
      else (case base_deleteStr (a_base a) (FormatInt idx) throw of (b, r) \<Rightarrow> (a\<lparr>a_base := b\<rparr>, r)))"

definition sparse_deleteStr :: "sparse \<Rightarrow> ustr \<Rightarrow> bool \<Rightarrow> (sparse, bool) outcome" where
  "sparse_deleteStr a name throw =
     (if strToArrayIdx name \<noteq> maxUint32 then sparse_deleteIdx0 a (strToArrayIdx name) throw
      else (case base_deleteStr (s_base a) name throw of (b, r) \<Rightarrow> (a\<lparr>s_base := b\<rparr>, r)))"

definition sparse_deleteIdx :: "sparse \<Rightarrow> int \<Rightarrow> bool \<Rightarrow> (sparse, bool) outcome" where
  "sparse_deleteIdx a idx throw =
     (if toIdx idx \<noteq> maxUint32 then sparse_deleteIdx0 a (toIdx idx) throw
      else (case base_deleteStr (s_base a) (FormatInt idx) throw of (b, r) \<Rightarrow> (a\<lparr>s_base := b\<rparr>, r)))"

section \<open>Keys, iteration, sorting\<close>

fun value_keys :: "bool \<Rightarrow> nat \<Rightarrow> slot option list \<Rightarrow> ustr list" where
  "value_keys all i [] = []"
| "value_keys all i (v # vs) =
     (if v \<noteq> None \<and> (all \<or> enumerable_slot v) then nat_str i # value_keys all (Suc i) vs
      else value_keys all (Suc i) vs)"

definition dense_stringKeys :: "bool \<Rightarrow> dense \<Rightarrow> dense \<times> ustr list" where
  "dense_stringKeys all a =
     (case stringKeys all (a_base a) of (b, ks) \<Rightarrow> (a\<lparr>a_base := b\<rparr>, value_keys all 0 (a_values a) @ ks))"

definition sparse_stringKeys :: "bool \<Rightarrow> sparse \<Rightarrow> sparse \<times> ustr list" where
  "sparse_stringKeys all a =
     (case stringKeys all (s_base a) of (b, ks) \<Rightarrow>
        (a\<lparr>s_base := b\<rparr>,
         map (\<lambda>x. nat_str (fst x)) (filter (\<lambda>x. all \<or> enumerable_slot (Some (snd x))) (s_items a)) @ ks))"

text \<open>
  The iterator over the elements: its next index and the item, \<open>None\<close> when the names of the
  \<open>baseObject\<close> follow. \<open>limit\<close> is the number of values when the iteration began.
\<close>

function arrayPropIter_next :: "dense \<Rightarrow> nat \<Rightarrow> nat \<Rightarrow> (nat \<times> ustr \<times> slot) option" where
  "arrayPropIter_next a limit idx =
     (if idx < length (a_values a) \<and> idx < limit then
        (case a_values a ! idx of
           Some prop \<Rightarrow> Some (Suc idx, nat_str idx, prop)
         | None \<Rightarrow> arrayPropIter_next a limit (Suc idx))
      else None)"
  by auto
termination by (relation "measure (\<lambda>(a, limit, idx). limit - idx)") auto

definition sparseArrayPropIter_next :: "sparse \<Rightarrow> nat \<Rightarrow> (nat \<times> ustr \<times> slot) option" where
  "sparseArrayPropIter_next a idx =
     (if idx < length (s_items a)
      then Some (Suc idx, nat_str (fst (s_items a ! idx)), snd (s_items a ! idx)) else None)"

definition dense_sortLen :: "dense \<Rightarrow> nat" where
  "dense_sortLen a = length (a_values a)"

definition dense_sortGet :: "arr_env \<Rightarrow> dense \<Rightarrow> nat \<Rightarrow> (arr, jsval option) outcome" where
  "dense_sortGet X a i =
     (if length (a_values a) \<le> i then (Dense a, Inl GoPanic)
      else case a_values a ! i of
        Some (Prop p) \<Rightarrow> arr_prop_get X (Dense a) p (x_self X)
      | Some (Plain v) \<Rightarrow> (Dense a, Inr (Some v))
      | None \<Rightarrow> (Dense a, Inr None))"

definition dense_swap :: "dense \<Rightarrow> nat \<Rightarrow> nat \<Rightarrow> (dense, unit) outcome" where
  "dense_swap a i j =
     (if length (a_values a) \<le> i \<or> length (a_values a) \<le> j then (a, Inl GoPanic)
      else (a\<lparr>a_values := (a_values a)[i := a_values a ! j, j := a_values a ! i]\<rparr>, Inr ()))"

definition sparse_sortLen :: "sparse \<Rightarrow> nat" where
  "sparse_sortLen a = (if s_items a = [] then 0 else fst (last (s_items a)) + 1)"

end
