(* ===== verification/Array_Props.thy ===== *)
theory Array_Props
  imports Arrays
begin

text \<open>
  What the two representations of an array promise. An array is viewed as a finite map from
  indices to properties with a length (\<open>arr_abs\<close>); assignment, definition, deletion and the
  change of the length, dense or sparse and with the switches between the two, implement the
  same operations on that view (\<open>arrays_refine\<close>).
\<close>

section \<open>The abstract view\<close>

record aspec =
  as_elems :: "nat \<Rightarrow> slot option"
  as_len :: nat
  as_writable :: bool
  as_ext :: bool

definition dense_elems :: "dense \<Rightarrow> nat \<Rightarrow> slot option" where
  "dense_elems a i = (if i < length (a_values a) then a_values a ! i else None)"

definition dense_abs :: "dense \<Rightarrow> aspec" where
  "dense_abs a = \<lparr>as_elems = dense_elems a, as_len = a_length a,
     as_writable = vp_writable (a_lengthProp a), as_ext = o_extensible (a_base a)\<rparr>"

definition sparse_abs :: "sparse \<Rightarrow> aspec" where
  "sparse_abs a = \<lparr>as_elems = map_of (s_items a), as_len = s_length a,
     as_writable = vp_writable (s_lengthProp a), as_ext = o_extensible (s_base a)\<rparr>"

fun arr_abs :: "arr \<Rightarrow> aspec" where
  "arr_abs (Dense a) = dense_abs a"
| "arr_abs (Sparse a) = sparse_abs a"

definition dense_ok :: "dense \<Rightarrow> bool" where
  "dense_ok a \<longleftrightarrow> length (a_values a) \<le> a_length a \<and> length (a_values a) \<le> a_cap a"

definition sparse_ok :: "sparse \<Rightarrow> bool" where
  "sparse_ok a \<longleftrightarrow> sorted_wrt (<) (map fst (s_items a)) \<and> (\<forall>x \<in> set (s_items a). fst x < s_length a)"

fun arr_ok :: "arr \<Rightarrow> bool" where
  "arr_ok (Dense a) = dense_ok a"
| "arr_ok (Sparse a) = sparse_ok a"

section \<open>Sorted items\<close>

lemma sorted_items_nth:
  "sorted_wrt (<) (map fst items) \<Longrightarrow> i < j \<Longrightarrow> j < length items \<Longrightarrow> fst (items ! i) < fst (items ! j)"
  using sorted_wrt_nth_less [of "(<)" "map fst items" i j] by simp

lemma findIdx_split:
  assumes "sorted_wrt (<) (map fst (s_items a))"
  shows "findIdx a idx \<le> length (s_items a)"
    "\<forall>x \<in> set (take (findIdx a idx) (s_items a)). fst x < idx"
    "\<forall>x \<in> set (drop (findIdx a idx) (s_items a)). idx \<le> fst x"
proof -
  have mono: "idx \<le> fst (s_items a ! l)"
    if "k \<le> l" "l < length (s_items a)" "idx \<le> fst (s_items a ! k)" for k l
    using that sorted_items_nth [OF assms, of k l] by (cases "k = l") auto
  show le: "findIdx a idx \<le> length (s_items a)"
    unfolding findIdx_def by (rule sort_search_spec(1)) (rule mono)
  have "\<not> idx \<le> fst (s_items a ! j)" if "j < findIdx a idx" for j
    using that unfolding findIdx_def by (rule sort_search_spec(2) [rotated]) (rule mono)
  then show "\<forall>x \<in> set (take (findIdx a idx) (s_items a)). fst x < idx"
    using le by (simp add: all_set_conv_all_nth not_le)
  have "idx \<le> fst (s_items a ! j)" if "findIdx a idx \<le> j" "j < length (s_items a)" for j
    using that unfolding findIdx_def by (rule sort_search_spec(3) [rotated]) (rule mono)
  then show "\<forall>x \<in> set (drop (findIdx a idx) (s_items a)). idx \<le> fst x"
    using le by (simp add: all_set_conv_all_nth)
qed

text \<open>The items split at an index that is present, and at one that is not.\<close>

lemma found_split:
  assumes "sorted_wrt (<) (map fst (s_items a))" "found a idx"
  obtains us vs w where "s_items a = us @ (idx, w) # vs" "s_items a ! findIdx a idx = (idx, w)"
    "length us = findIdx a idx" "\<forall>x \<in> set us. fst x < idx" "\<forall>x \<in> set vs. idx < fst x"
proof -
  define k where "k = findIdx a idx"
  note s = findIdx_split [OF assms(1), of idx, folded k_def]
  have k: "k < length (s_items a)" "fst (s_items a ! k) = idx" using assms(2) by (simp_all add: found_def k_def)
  obtain w where w: "s_items a ! k = (idx, w)" using k(2) by (cases "s_items a ! k") auto
  have "s_items a = take k (s_items a) @ (idx, w) # drop (Suc k) (s_items a)"
    using id_take_nth_drop [OF k(1)] w by simp
  moreover have "\<forall>x \<in> set (drop (Suc k) (s_items a)). idx < fst x"
    using sorted_items_nth [OF assms(1), of k] k by (simp add: all_set_conv_all_nth)
  ultimately show ?thesis using s k w by (intro that) (auto simp: k_def)
qed

lemma absent_split:
  assumes "sorted_wrt (<) (map fst (s_items a))" "\<not> found a idx"
  obtains us vs where "s_items a = us @ vs" "length us = findIdx a idx"
    "\<forall>x \<in> set us. fst x < idx" "\<forall>x \<in> set vs. idx < fst x"
proof -
  define k where "k = findIdx a idx"
  note s = findIdx_split [OF assms(1), of idx, folded k_def]
  have "idx \<noteq> fst (s_items a ! (k + j))" if "j < length (s_items a) - k" for j
  proof -
    have kl: "k < length (s_items a)" "k + j < length (s_items a)" using that by simp_all
    then have "fst (s_items a ! k) \<noteq> idx" using assms(2) by (simp add: found_def k_def)
    moreover have "idx \<le> fst (s_items a ! k)"
      using s(3) kl(1) by (metis Cons_nth_drop_Suc list.set_intros(1))
    moreover have "fst (s_items a ! k) \<le> fst (s_items a ! (k + j))"
      using sorted_items_nth [OF assms(1), of k "k + j"] kl by (cases "j = 0") auto
    ultimately show ?thesis by linarith
  qed
  then have "\<forall>x \<in> set (drop k (s_items a)). idx \<noteq> fst x" by (simp add: all_set_conv_all_nth)
  then have "\<forall>x \<in> set (drop k (s_items a)). idx < fst x" using s(3) by (metis order_le_imp_less_or_eq)
  then show ?thesis
    using s by (intro that [of "take k (s_items a)" "drop k (s_items a)"]) (simp_all add: k_def)
qed

lemma map_of_none: "\<forall>x \<in> set xs. fst x \<noteq> i \<Longrightarrow> map_of xs i = None"
  by (auto simp: map_of_eq_None_iff)

lemma map_of_insert_mid:
  "i \<notin> fst ` set us \<Longrightarrow> map_of (us @ (i, v) # vs) = (map_of (us @ vs))(i \<mapsto> v)"
  by (induction us) (auto simp: fun_upd_twist)

lemma map_of_update_mid:
  "i \<notin> fst ` set us \<Longrightarrow> map_of (us @ (i, v) # vs) = (map_of (us @ (i, w) # vs))(i \<mapsto> v)"
  by (induction us) (auto simp: fun_upd_twist)

lemma map_of_delete_mid:
  "i \<notin> fst ` set us \<Longrightarrow> i \<notin> fst ` set vs \<Longrightarrow> map_of (us @ vs) = (map_of (us @ (i, w) # vs))(i := None)"
proof (induction us)
  case Nil
  then have "map_of vs i = None" by (simp add: map_of_eq_None_iff)
  then show ?case by (auto simp: fun_eq_iff)
qed (auto simp: fun_upd_twist)

lemma sparse_getIdx0_map:
  assumes "sorted_wrt (<) (map fst (s_items a))"
  shows "sparse_getIdx0 a idx = map_of (s_items a) idx" "found a idx = (map_of (s_items a) idx \<noteq> None)"
proof -
  have "sparse_getIdx0 a idx = map_of (s_items a) idx \<and> found a idx = (map_of (s_items a) idx \<noteq> None)"
  proof (cases "found a idx")
    case True
    then obtain us vs w where f: "s_items a = us @ (idx, w) # vs" "s_items a ! findIdx a idx = (idx, w)"
      "\<forall>x \<in> set us. fst x < idx" by (rule found_split [OF assms])
    have "map_of (s_items a) idx = Some w" unfolding f(1) by (subst map_of_insert_mid) (use f(3) in auto)
    then show ?thesis using True f(2) by (simp add: sparse_getIdx0_def)
  next
    case False
    then obtain us vs where f: "s_items a = us @ vs" "\<forall>x \<in> set us. fst x < idx" "\<forall>x \<in> set vs. idx < fst x"
      by (rule absent_split [OF assms])
    then have "map_of (s_items a) idx = None" by (intro map_of_none) auto
    then show ?thesis using False by (simp add: sparse_getIdx0_def)
  qed
  then show "sparse_getIdx0 a idx = map_of (s_items a) idx" "found a idx = (map_of (s_items a) idx \<noteq> None)"
    by simp_all
qed

lemma sorted_items_append:
  "sorted_wrt (<) (map fst (us @ vs)) \<longleftrightarrow> sorted_wrt (<) (map fst us) \<and> sorted_wrt (<) (map fst vs)
    \<and> (\<forall>x \<in> set us. \<forall>y \<in> set vs. fst x < (fst y :: nat))"
  by (auto simp: sorted_wrt_append)

lemma insert_item_map:
  assumes "sorted_wrt (<) (map fst (s_items a))" "\<not> found a idx"
  shows "sorted_wrt (<) (map fst (insert_item (findIdx a idx) (idx, v) (s_items a)))"
    "map_of (insert_item (findIdx a idx) (idx, v) (s_items a)) = (map_of (s_items a))(idx \<mapsto> v)"
    "set (insert_item (findIdx a idx) (idx, v) (s_items a)) = insert (idx, v) (set (s_items a))"
proof -
  obtain us vs where s: "s_items a = us @ vs" "length us = findIdx a idx"
    "\<forall>x \<in> set us. fst x < idx" "\<forall>x \<in> set vs. idx < fst x"
    by (rule absent_split [OF assms])
  then have i: "insert_item (findIdx a idx) (idx, v) (s_items a) = us @ (idx, v) # vs"
    by (simp add: insert_item_def)
  show "sorted_wrt (<) (map fst (insert_item (findIdx a idx) (idx, v) (s_items a)))"
    using assms(1) s unfolding i by (auto simp: sorted_wrt_append)
  show "map_of (insert_item (findIdx a idx) (idx, v) (s_items a)) = (map_of (s_items a))(idx \<mapsto> v)"
    unfolding i unfolding s(1) by (rule map_of_insert_mid) (use s(3) in auto)
  show "set (insert_item (findIdx a idx) (idx, v) (s_items a)) = insert (idx, v) (set (s_items a))"
    unfolding i by (auto simp: s(1))
qed

lemma update_item_map:
  assumes "sorted_wrt (<) (map fst (s_items a))" "found a idx"
  shows "map fst ((s_items a)[findIdx a idx := (idx, v)]) = map fst (s_items a)"
    "map_of ((s_items a)[findIdx a idx := (idx, v)]) = (map_of (s_items a))(idx \<mapsto> v)"
proof -
  obtain us vs w where s: "s_items a = us @ (idx, w) # vs" "length us = findIdx a idx" "\<forall>x \<in> set us. fst x < idx"
    by (rule found_split [OF assms])
  have i: "(s_items a)[findIdx a idx := (idx, v)] = us @ (idx, v) # vs"
    unfolding s(1) s(2) [symmetric] by (simp add: list_update_append)
  show "map fst ((s_items a)[findIdx a idx := (idx, v)]) = map fst (s_items a)"
    unfolding i by (simp add: s(1))
  show "map_of ((s_items a)[findIdx a idx := (idx, v)]) = (map_of (s_items a))(idx \<mapsto> v)"
    unfolding i unfolding s(1) by (rule map_of_update_mid) (use s(3) in auto)
qed

lemma remove_item_map:
  assumes "sorted_wrt (<) (map fst (s_items a))" "found a idx"
  shows "sorted_wrt (<) (map fst (remove_item (findIdx a idx) (s_items a)))"
    "map_of (remove_item (findIdx a idx) (s_items a)) = (map_of (s_items a))(idx := None)"
    "set (remove_item (findIdx a idx) (s_items a)) \<subseteq> set (s_items a)"
proof -
  obtain us vs w where s: "s_items a = us @ (idx, w) # vs" "length us = findIdx a idx"
    "\<forall>x \<in> set us. fst x < idx" "\<forall>x \<in> set vs. idx < fst x"
    by (rule found_split [OF assms])
  have i: "remove_item (findIdx a idx) (s_items a) = us @ vs"
    unfolding s(1) s(2) [symmetric] by (simp add: remove_item_def)
  show "sorted_wrt (<) (map fst (remove_item (findIdx a idx) (s_items a)))"
    using assms(1) unfolding i by (auto simp: s(1) sorted_wrt_append)
  show "map_of (remove_item (findIdx a idx) (s_items a)) = (map_of (s_items a))(idx := None)"
    unfolding i unfolding s(1) by (rule map_of_delete_mid) (use s(3,4) in auto)
  show "set (remove_item (findIdx a idx) (s_items a)) \<subseteq> set (s_items a)" unfolding i by (auto simp: s(1))
qed

lemma truncate_items_map:
  assumes "sorted_wrt (<) (map fst (s_items a))"
  shows "map_of (take (findIdx a l) (s_items a)) = (\<lambda>i. if i < l then map_of (s_items a) i else None)"
proof
  fix i
  note s = findIdx_split [OF assms, of l]
  have e: "map_of (s_items a) i = (case map_of (take (findIdx a l) (s_items a)) i of
      Some v \<Rightarrow> Some v | None \<Rightarrow> map_of (drop (findIdx a l) (s_items a)) i)"
  proof -
    have "map_of (s_items a) = map_of (take (findIdx a l) (s_items a) @ drop (findIdx a l) (s_items a))" by simp
    then show ?thesis unfolding map_of_append by (auto simp: map_add_def split: option.splits)
  qed
  show "map_of (take (findIdx a l) (s_items a)) i = (if i < l then map_of (s_items a) i else None)"
  proof (cases "i < l")
    case True
    then have "map_of (drop (findIdx a l) (s_items a)) i = None" using s(3) by (intro map_of_none) auto
    then show ?thesis using e True by (auto split: option.splits)
  next
    case False
    then have "map_of (take (findIdx a l) (s_items a)) i = None" using s(2) by (intro map_of_none) auto
    then show ?thesis using False by simp
  qed
qed

section \<open>The switches keep the array\<close>

lemma setValues_map:
  "map_of (setValues k vs) i = (if k \<le> i \<and> i < k + length vs then vs ! (i - k) else None)"
proof (induction k vs rule: setValues.induct)
  case (2 k v vs)
  show ?case
  proof (cases "i = k")
    case True
    then show ?thesis using 2 by (cases v) auto
  next
    case False
    then have "Suc k \<le> i \<longleftrightarrow> k \<le> i" by linarith
    moreover have "(v # vs) ! (i - k) = vs ! (i - Suc k)" if "Suc k \<le> i"
      using that by (simp add: nth_Cons split: nat.splits) (metis Suc_diff_Suc diff_Suc_Suc nat.inject Suc_le_lessD)
    ultimately show ?thesis using False 2 by (cases v) auto
  qed
qed auto

lemma setValues_range: "x \<in> set (setValues k vs) \<Longrightarrow> k \<le> fst x \<and> fst x < k + length vs"
  by (induction k vs rule: setValues.induct) (fastforce split: option.splits)+

lemma setValues_sorted: "sorted_wrt (<) (map fst (setValues k vs))"
  by (induction k vs rule: setValues.induct) (auto split: option.splits dest!: setValues_range)

lemma base_put_ext [simp]: "o_extensible (base_put n s ob) = o_extensible ob"
  by (simp add: base_put_def put_value_def add_name_def)

lemma length_prop_writable [simp]: "vp_writable (length_prop w) = w"
  by (simp add: length_prop_def empty_prop_def)

lemma dense_to_sparse_correct:
  assumes "dense_ok a"
  shows "sparse_ok (dense_to_sparse a)" "sparse_abs (dense_to_sparse a) = dense_abs a"
    "s_length (dense_to_sparse a) = a_length a"
proof -
  show "sparse_ok (dense_to_sparse a)"
    using assms setValues_sorted [of 0 "a_values a"] setValues_range [of _ 0 "a_values a"]
    by (fastforce simp: sparse_ok_def dense_ok_def dense_to_sparse_def)
  show "sparse_abs (dense_to_sparse a) = dense_abs a"
    by (simp add: sparse_abs_def dense_abs_def dense_to_sparse_def fun_eq_iff setValues_map dense_elems_def)
qed (simp add: dense_to_sparse_def)

lemma setValuesFromSparse_fold:
  assumes "distinct (map fst items)" "\<forall>x \<in> set items. fst x < length vs"
  shows "length (fold (\<lambda>item vs. vs[fst item := Some (snd item)]) items vs) = length vs"
    "i < length vs \<Longrightarrow> fold (\<lambda>item vs. vs[fst item := Some (snd item)]) items vs ! i =
      (case map_of items i of None \<Rightarrow> vs ! i | Some v \<Rightarrow> Some v)"
proof -
  have "length (fold (\<lambda>item vs. vs[fst item := Some (snd item)]) items vs) = length vs
    \<and> (i < length vs \<longrightarrow> fold (\<lambda>item vs. vs[fst item := Some (snd item)]) items vs ! i =
      (case map_of items i of None \<Rightarrow> vs ! i | Some v \<Rightarrow> Some v))"
    using assms
  proof (induction items arbitrary: vs)
    case (Cons x items)
    have "map_of items (fst x) = None" using Cons.prems(1) by (simp add: map_of_eq_None_iff)
    then show ?case
      using Cons.IH [of "vs[fst x := Some (snd x)]"] Cons.prems
      by (cases x) (auto simp: nth_list_update split: option.splits)
  qed simp
  then show "length (fold (\<lambda>item vs. vs[fst item := Some (snd item)]) items vs) = length vs"
    "i < length vs \<Longrightarrow> fold (\<lambda>item vs. vs[fst item := Some (snd item)]) items vs ! i =
      (case map_of items i of None \<Rightarrow> vs ! i | Some v \<Rightarrow> Some v)" by blast+
qed

lemma sparse_to_dense_correct:
  assumes ok: "sparse_ok a" and n: "n < s_length a" "\<forall>x \<in> set (s_items a). fst x \<le> n"
  shows "dense_ok (sparse_to_dense a n)" "dense_abs (sparse_to_dense a n) = sparse_abs a"
    "length (a_values (sparse_to_dense a n)) = n + 1" "a_length (sparse_to_dense a n) = s_length a"
proof -
  have d: "distinct (map fst (s_items a))"
    using ok by (simp add: sparse_ok_def strict_sorted_iff)
  have l: "length (setValuesFromSparse (s_items a) n) = n + 1"
    unfolding setValuesFromSparse_def by (subst setValuesFromSparse_fold(1) [OF d]) (use n in auto)
  show "length (a_values (sparse_to_dense a n)) = n + 1" by (simp add: sparse_to_dense_def l)
  show "dense_ok (sparse_to_dense a n)" using n by (simp add: dense_ok_def sparse_to_dense_def l)
  have e: "map_of (s_items a) = (\<lambda>i. if i < n + 1 then setValuesFromSparse (s_items a) n ! i else None)"
  proof
    fix i
    show "map_of (s_items a) i = (if i < n + 1 then setValuesFromSparse (s_items a) n ! i else None)"
    proof (cases "i < n + 1")
    case True
    have "setValuesFromSparse (s_items a) n ! i =
        (case map_of (s_items a) i of None \<Rightarrow> replicate (n + 1) None ! i | Some v \<Rightarrow> Some v)"
      unfolding setValuesFromSparse_def using True n
      by (intro setValuesFromSparse_fold(2) [OF d]) auto
    then show ?thesis using True by (auto simp del: replicate.simps split: option.splits)
  next
    case False
    then have "map_of (s_items a) i = None" using n(2) by (intro map_of_none) auto
    then show ?thesis using False by simp
    qed
  qed
  have "dense_elems (sparse_to_dense a n) = map_of (s_items a)"
    unfolding e by (simp add: dense_elems_def sparse_to_dense_def l fun_eq_iff)
  then show "dense_abs (sparse_to_dense a n) = sparse_abs a"
    by (simp add: dense_abs_def sparse_abs_def) (simp add: sparse_to_dense_def)
  show "a_length (sparse_to_dense a n) = s_length a" by (simp add: sparse_to_dense_def)
qed

lemma dense_elems_append_None [simp]:
  "dense_elems (a\<lparr>a_values := a_values a @ replicate n None, a_cap := c\<rparr>) = dense_elems a"
  "dense_elems (a\<lparr>a_values := a_values a @ replicate n None\<rparr>) = dense_elems a"
  by (auto simp: dense_elems_def fun_eq_iff nth_append)

lemma dense_expand_correct:
  assumes ok: "dense_ok a" and idx: "idx < a_length a"
  shows "(case dense_expand a idx of
      (Dense d, _) \<Rightarrow> dense_ok d \<and> dense_abs d = dense_abs a \<and> idx < length (a_values d) \<and> a_length d = a_length a
    | (Sparse s, _) \<Rightarrow> sparse_ok s \<and> sparse_abs s = dense_abs a \<and> s_length s = a_length a \<and> length (a_values a) \<le> idx)"
proof -
  have g: "idx + 1 \<le> growCap (idx + 1) (length (a_values a)) (a_cap a)"
    using ok by (intro growCap_ge) (simp add: dense_ok_def)
  consider "idx < length (a_values a)" | "length (a_values a) \<le> idx" "idx + 1 < a_cap a"
    | "length (a_values a) \<le> idx" "\<not> idx + 1 < a_cap a" by linarith
  then show ?thesis
  proof cases
    case 1
    then show ?thesis using ok by (simp add: dense_expand_def)
  next
    case 2
    then show ?thesis using ok idx by (simp add: dense_expand_def dense_ok_def dense_abs_def)
  next
    case 3
    then show ?thesis using ok idx g dense_to_sparse_correct [OF ok]
      by (simp add: dense_expand_def Let_def dense_ok_def dense_abs_def)
  qed
qed

lemma sparse_last_max:
  assumes "sparse_ok a" "s_items a \<noteq> []"
  shows "\<forall>x \<in> set (s_items a). fst x \<le> fst (s_items a ! (length (s_items a) - 1))"
proof -
  have "fst (s_items a ! i) \<le> fst (s_items a ! (length (s_items a) - 1))" if "i < length (s_items a)" for i
  proof (cases "i = length (s_items a) - 1")
    case False
    then have "i < length (s_items a) - 1" using that by linarith
    then show ?thesis
      using assms sorted_items_nth [of "s_items a" i "length (s_items a) - 1"]
      by (simp add: sparse_ok_def less_imp_le)
  qed simp
  then show ?thesis by (simp add: all_set_conv_all_nth)
qed

lemma sparse_expand_correct:
  assumes ok: "sparse_ok a" and idx: "idx < s_length a"
  shows "(case sparse_expand a idx of
      (Dense d, _) \<Rightarrow> dense_ok d \<and> dense_abs d = sparse_abs a \<and> idx < length (a_values d) \<and> a_length d = s_length a
    | (Sparse s, _) \<Rightarrow> s = a)"
proof (cases "1024 \<le> length (s_items a)")
  case True
  define ii where "ii = fst (s_items a ! (length (s_items a) - 1))"
  define m where "m = (if idx < ii then ii else idx)"
  have "s_items a \<noteq> []" using True by auto
  then have "\<forall>x \<in> set (s_items a). fst x \<le> m" "ii < s_length a"
    using sparse_last_max [OF ok] ok True by (auto simp: m_def ii_def sparse_ok_def)
  then have c: "dense_ok (sparse_to_dense a m)" "dense_abs (sparse_to_dense a m) = sparse_abs a"
    "length (a_values (sparse_to_dense a m)) = m + 1" "a_length (sparse_to_dense a m) = s_length a"
    using sparse_to_dense_correct [OF ok, of m] idx by (simp_all add: m_def)
  have "idx \<le> m" by (simp add: m_def)
  have "sparse_expand a idx =
      (if m div 8 < length (s_items a) then (Dense (sparse_to_dense a m), False) else (Sparse a, True))"
    using True by (simp add: sparse_expand_def Let_def ii_def m_def)
  then show ?thesis using c \<open>idx \<le> m\<close> by simp
qed (simp add: sparse_expand_def)

section \<open>The operations on the view\<close>

definition aspec_store :: "aspec \<Rightarrow> nat \<Rightarrow> slot \<Rightarrow> bool \<Rightarrow> (aspec, bool) outcome" where
  "aspec_store s idx v throw =
     (if as_len s \<le> idx \<and> \<not> as_writable s then (s, typeErrorResult throw False)
      else (s\<lparr>as_elems := (as_elems s)(idx \<mapsto> v), as_len := max (as_len s) (idx + 1)\<rparr>, Inr True))"

definition aspec_set :: "aspec \<Rightarrow> nat \<Rightarrow> jsval \<Rightarrow> bool \<Rightarrow> (aspec, bool) outcome" where
  "aspec_set s idx val throw =
     (case as_elems s idx of
        None \<Rightarrow> if \<not> as_ext s then (s, typeErrorResult throw False) else aspec_store s idx (Plain val) throw
      | Some (Plain _) \<Rightarrow> (s\<lparr>as_elems := (as_elems s)(idx \<mapsto> Plain val)\<rparr>, Inr True)
      | Some (Prop p) \<Rightarrow>
          if \<not> vp_isWritable p then (s, typeErrorResult throw False)
          else (s\<lparr>as_elems := (as_elems s)(idx \<mapsto> Prop (p\<lparr>vp_value := Some val\<rparr>))\<rparr>, Inr True))"

definition aspec_define :: "env \<Rightarrow> aspec \<Rightarrow> nat \<Rightarrow> propdesc \<Rightarrow> bool \<Rightarrow> (aspec, bool) outcome" where
  "aspec_define E s idx desc throw =
     (case base_defineOwnProperty E (as_ext s) (as_elems s idx) desc throw of
        (cur, r) \<Rightarrow>
          let s = s\<lparr>as_elems := (as_elems s)(idx := cur)\<rparr> in
          (case r of
             Inl e \<Rightarrow> (s, Inl e)
           | Inr None \<Rightarrow> (s, Inr False)
           | Inr (Some p) \<Rightarrow> aspec_store s idx p throw))"

definition aspec_delete :: "aspec \<Rightarrow> nat \<Rightarrow> bool \<Rightarrow> (aspec, bool) outcome" where
  "aspec_delete s idx throw =
     (case as_elems s idx of
        None \<Rightarrow> (s, Inr True)
      | Some v \<Rightarrow>
          (case checkDelete v throw of
             Inr True \<Rightarrow> (s\<lparr>as_elems := (as_elems s)(idx := None)\<rparr>, Inr True)
           | r \<Rightarrow> (s, r)))"

definition aspec_setLength :: "aspec \<Rightarrow> nat \<Rightarrow> bool \<Rightarrow> (aspec, bool) outcome" where
  "aspec_setLength s l throw =
     (if \<not> as_writable s then (s, typeErrorResult throw False)
      else (s\<lparr>as_elems := (\<lambda>i. if i < l then as_elems s i else None), as_len := l\<rparr>, Inr True))"

datatype arr_op = ASet nat jsval | ADefine nat propdesc | ADelete nat | ALength nat

fun arr_step :: "arr_env \<Rightarrow> bool \<Rightarrow> arr_op \<Rightarrow> arr \<Rightarrow> (arr, bool) outcome" where
  "arr_step X throw (ASet idx v) (Dense a) = dense_setOwnIdx0 X a idx v throw"
| "arr_step X throw (ASet idx v) (Sparse a) = sparse_setOwnIdx0 X a idx v throw"
| "arr_step X throw (ADefine idx d) (Dense a) = dense_defineIdx (x_env X) a idx d throw"
| "arr_step X throw (ADefine idx d) (Sparse a) = sparse_defineIdx (x_env X) a idx d throw"
| "arr_step X throw (ADelete idx) (Dense a) = arr_res (dense_deleteIdx0 a idx throw)"
| "arr_step X throw (ADelete idx) (Sparse a) = arr_res_s (sparse_deleteIdx0 a idx throw)"
| "arr_step X throw (ALength l) (Dense a) = arr_res (dense_setLength a l throw)"
| "arr_step X throw (ALength l) (Sparse a) = arr_res_s (sparse_setLength a l throw)"

fun aspec_step :: "env \<Rightarrow> bool \<Rightarrow> arr_op \<Rightarrow> aspec \<Rightarrow> (aspec, bool) outcome" where
  "aspec_step E throw (ASet idx v) s = aspec_set s idx v throw"
| "aspec_step E throw (ADefine idx d) s = aspec_define E s idx d throw"
| "aspec_step E throw (ADelete idx) s = aspec_delete s idx throw"
| "aspec_step E throw (ALength l) s = aspec_setLength s l throw"

text \<open>
  The operations the refinement speaks of: no setter is called, and a shorter length cuts off
  configurable elements only (see \<open>sparse_length_off_by_one\<close> for the others).
\<close>

definition configurable_slot :: "slot \<Rightarrow> bool" where
  "configurable_slot v = (case v of Plain _ \<Rightarrow> True | Prop p \<Rightarrow> vp_configurable p)"

fun aspec_ok :: "arr_op \<Rightarrow> aspec \<Rightarrow> bool" where
  "aspec_ok (ASet idx v) s = (\<forall>p. as_elems s idx = Some (Prop p) \<longrightarrow> vp_setter p = None)"
| "aspec_ok (ADefine idx d) s = True"
| "aspec_ok (ADelete idx) s = True"
| "aspec_ok (ALength l) s = (\<forall>i v. l \<le> i \<longrightarrow> as_elems s i = Some v \<longrightarrow> configurable_slot v)"

definition refines_to :: "(arr, bool) outcome \<Rightarrow> (aspec, bool) outcome \<Rightarrow> bool" where
  "refines_to r s \<longleftrightarrow> arr_ok (fst r) \<and> arr_abs (fst r) = fst s \<and> snd r = snd s"

section \<open>Storing an element\<close>

lemma dense_elems_update:
  "idx < length (a_values a) \<Longrightarrow>
   dense_elems (a\<lparr>a_values := (a_values a)[idx := v]\<rparr>) = (dense_elems a)(idx := v)"
  by (auto simp: dense_elems_def fun_eq_iff nth_list_update)

lemma dense_elems_cong: "a_values a = a_values b \<Longrightarrow> dense_elems a = dense_elems b"
  by (simp add: dense_elems_def fun_eq_iff)

lemma dense_grow:
  assumes "dense_ok a" "a_length a \<le> idx"
  shows "dense_setLengthInt a (idx + 1) throw =
    (if vp_writable (a_lengthProp a) then (a\<lparr>a_length := idx + 1\<rparr>, Inr True) else (a, typeErrorResult throw False))"
  using assms by (simp add: dense_setLengthInt_def dense_setLengthInt0_def dense_ok_def)

lemma sparse_grow:
  assumes "sparse_ok a" "s_length a \<le> idx"
  shows "sparse_setLengthInt a (idx + 1) throw =
    (if vp_writable (s_lengthProp a) then (a\<lparr>s_length := idx + 1\<rparr>, Inr True) else (a, typeErrorResult throw False))"
proof -
  have so: "sorted_wrt (<) (map fst (s_items a))" using assms(1) by (simp add: sparse_ok_def)
  note f = findIdx_split [OF so, of "idx + 1"]
  have "drop (findIdx a (idx + 1)) (s_items a) = []"
  proof (rule ccontr)
    assume "drop (findIdx a (idx + 1)) (s_items a) \<noteq> []"
    then obtain x where "x \<in> set (drop (findIdx a (idx + 1)) (s_items a))" using hd_in_set by blast
    then have "idx + 1 \<le> fst x" "x \<in> set (s_items a)" using f(3) by (auto dest: in_set_dropD)
    then show False using assms by (auto simp: sparse_ok_def)
  qed
  then have "take (findIdx a (idx + 1)) (s_items a) = s_items a" by simp
  then show ?thesis using assms by (simp add: sparse_setLengthInt_def sparse_setLengthInt0_def)
qed

lemma abs_sel [simp]:
  "as_elems (dense_abs a) = dense_elems a" "as_len (dense_abs a) = a_length a"
  "as_writable (dense_abs a) = vp_writable (a_lengthProp a)" "as_ext (dense_abs a) = o_extensible (a_base a)"
  "as_elems (sparse_abs b) = map_of (s_items b)" "as_len (sparse_abs b) = s_length b"
  "as_writable (sparse_abs b) = vp_writable (s_lengthProp b)" "as_ext (sparse_abs b) = o_extensible (s_base b)"
  by (simp_all add: dense_abs_def sparse_abs_def)

text \<open>The element stored in what \<open>expand\<close> returned, whatever the counters.\<close>

lemma dense_store_correct:
  assumes "dense_ok a" "idx < a_length a" "\<And>d. dense_elems (g d) = dense_elems d"
    "\<And>d. a_values (g d) = a_values d" "\<And>d. a_length (g d) = a_length d" "\<And>d. a_cap (g d) = a_cap d"
    "\<And>d. a_lengthProp (g d) = a_lengthProp d" "\<And>d. a_base (g d) = a_base d"
  shows "refines_to
    (case dense_expand a idx of
       (Dense d, _) \<Rightarrow> (Dense (g (d\<lparr>a_values := (a_values d)[idx := Some v]\<rparr>)), Inr True)
     | (Sparse s, _) \<Rightarrow> (Sparse (sparse_add s idx v), Inr True))
    ((dense_abs a)\<lparr>as_elems := (dense_elems a)(idx \<mapsto> v)\<rparr>, Inr True)"
proof -
  note e = dense_expand_correct [OF assms(1,2)]
  show ?thesis
  proof (cases "dense_expand a idx")
    case (Pair x b)
    show ?thesis
    proof (cases x)
      case (Dense d)
      then have d: "dense_ok d" "dense_abs d = dense_abs a" "idx < length (a_values d)" using e Pair by auto
      have "dense_elems (g (d\<lparr>a_values := (a_values d)[idx := Some v]\<rparr>)) = (dense_elems a)(idx \<mapsto> v)"
        using d(2,3) by (simp add: assms(3) dense_elems_update dense_abs_def)
      then show ?thesis
        using d Pair Dense assms(4-) by (simp add: refines_to_def dense_ok_def dense_abs_def)
    next
      case (Sparse s)
      then have s: "sparse_ok s" "sparse_abs s = dense_abs a" "s_length s = a_length a" "length (a_values a) \<le> idx"
        using e Pair by auto
      have so: "sorted_wrt (<) (map fst (s_items s))" using s(1) by (simp add: sparse_ok_def)
      have "map_of (s_items s) = dense_elems a" using s(2) by (simp add: sparse_abs_def dense_abs_def)
      then have "map_of (s_items s) idx = None" using s(4) by (simp add: dense_elems_def)
      then have nf: "\<not> found s idx" using sparse_getIdx0_map(2) [OF so] by simp
      note i = insert_item_map [OF so nf, of v]
      have "sparse_ok (sparse_add s idx v)"
        using i s assms(2) by (auto simp: sparse_ok_def sparse_add_def)
      moreover have "sparse_abs (sparse_add s idx v) = (dense_abs a)\<lparr>as_elems := (dense_elems a)(idx \<mapsto> v)\<rparr>"
        using s(2) i(2) \<open>map_of (s_items s) = dense_elems a\<close>
        by (simp add: sparse_abs_def sparse_add_def dense_abs_def)
      ultimately show ?thesis using Pair Sparse by (simp add: refines_to_def)
    qed
  qed
qed

lemma sparse_store_correct:
  assumes "sparse_ok a" "idx < s_length a" "\<not> found a idx"
    "\<And>x. sparse_ok x \<Longrightarrow> s_length x = s_length a \<Longrightarrow> sparse_ok (g x) \<and> sparse_abs (g x) = sparse_abs x"
    "\<And>d. dense_ok d \<Longrightarrow> dense_ok (k d) \<and> dense_abs (k d) = dense_abs d"
  shows "refines_to
    (case sparse_expand a idx of
       (Sparse s, _) \<Rightarrow> (Sparse (g (s\<lparr>s_items := insert_item (findIdx a idx) (idx, v) (s_items s)\<rparr>)), Inr True)
     | (Dense d, _) \<Rightarrow> (Dense (k (d\<lparr>a_values := (a_values d)[idx := Some v]\<rparr>)), Inr True))
    ((sparse_abs a)\<lparr>as_elems := (map_of (s_items a))(idx \<mapsto> v)\<rparr>, Inr True)"
proof -
  note e = sparse_expand_correct [OF assms(1,2)]
  show ?thesis
  proof (cases "sparse_expand a idx")
    case (Pair x b)
    show ?thesis
    proof (cases x)
      case (Dense d)
      then have d: "dense_ok d" "dense_abs d = sparse_abs a" "idx < length (a_values d)" using e Pair by auto
      define d' where "d' = d\<lparr>a_values := (a_values d)[idx := Some v]\<rparr>"
      have "dense_ok d'" using d(1) by (simp add: d'_def dense_ok_def)
      moreover have "dense_abs d' = (sparse_abs a)\<lparr>as_elems := (map_of (s_items a))(idx \<mapsto> v)\<rparr>"
        using d(2) dense_elems_update [OF d(3), of "Some v"] by (simp add: d'_def dense_abs_def sparse_abs_def)
      ultimately show ?thesis using assms(5) [of d'] Pair Dense by (simp add: refines_to_def d'_def)
    next
      case (Sparse s)
      then have s: "s = a" using e Pair by simp
      have so: "sorted_wrt (<) (map fst (s_items a))" using assms(1) by (simp add: sparse_ok_def)
      note i = insert_item_map [OF so assms(3), of v]
      define s' where "s' = a\<lparr>s_items := insert_item (findIdx a idx) (idx, v) (s_items a)\<rparr>"
      have "sparse_ok s'" using i assms(1,2) by (auto simp: sparse_ok_def s'_def)
      moreover have "sparse_abs s' = (sparse_abs a)\<lparr>as_elems := (map_of (s_items a))(idx \<mapsto> v)\<rparr>"
        using i(2) by (simp add: sparse_abs_def s'_def)
      ultimately show ?thesis using assms(4) [of s'] Pair Sparse s by (simp add: refines_to_def s'_def)
    qed
  qed
qed

section \<open>The steps\<close>

lemma refines_to_self:
  "arr_ok a \<Longrightarrow> refines_to (a, r) (arr_abs a, r)"
  by (simp add: refines_to_def)

lemma dense_new_elem_correct:
  assumes ok: "dense_ok a" and new: "dense_elems a idx = None"
  shows "refines_to (dense_new_elem a idx val throw)
    (if \<not> o_extensible (a_base a) then (dense_abs a, typeErrorResult throw False)
     else aspec_store (dense_abs a) idx (Plain val) throw)"
proof (cases "o_extensible (a_base a)")
  case True
  have st: "refines_to
      (case (if length (a_values b) \<le> idx then dense_expand b idx else (Dense b, True)) of
         (Dense d, _) \<Rightarrow> (Dense (d\<lparr>a_objCount := a_objCount d + 1, a_values := (a_values d)[idx := Some (Plain val)]\<rparr>), Inr True)
       | (Sparse s, _) \<Rightarrow> (Sparse (sparse_add s idx (Plain val)), Inr True))
      ((dense_abs b)\<lparr>as_elems := (dense_elems b)(idx \<mapsto> Plain val)\<rparr>, Inr True)"
    if "dense_ok b" "idx < a_length b" for b
  proof -
    have e: "(if length (a_values b) \<le> idx then dense_expand b idx else (Dense b, True)) = dense_expand b idx"
      by (simp add: dense_expand_def)
    have c: "\<And>d. d\<lparr>a_objCount := a_objCount d + 1, a_values := (a_values d)[idx := Some (Plain val)]\<rparr>
        = (\<lambda>x. x\<lparr>a_objCount := a_objCount x + 1\<rparr>) (d\<lparr>a_values := (a_values d)[idx := Some (Plain val)]\<rparr>)"
      by simp
    show ?thesis unfolding e c
      by (rule dense_store_correct [OF that, where g = "\<lambda>x. x\<lparr>a_objCount := a_objCount x + 1\<rparr>"])
        (simp_all add: dense_elems_def fun_eq_iff)
  qed
  show ?thesis
  proof (cases "a_length a \<le> idx")
    case False
    then have "max (a_length a) (idx + 1) = a_length a" by simp
    then show ?thesis
      using True False st [OF ok]
      by (simp add: dense_new_elem_def aspec_store_def dense_abs_def del: max_Suc_Suc)
  next
    case True
    note grow = dense_grow [OF ok True]
    have "dense_ok (a\<lparr>a_length := idx + 1\<rparr>)" using ok True by (simp add: dense_ok_def)
    note s2 = st [OF this]
    have el: "dense_elems (a\<lparr>a_length := idx + 1\<rparr>) = dense_elems a" by (rule dense_elems_cong) simp
    show ?thesis
    proof (cases "vp_writable (a_lengthProp a)")
      case False
      then show ?thesis
        using True ok grow \<open>o_extensible (a_base a)\<close>
        by (cases throw) (auto simp: dense_new_elem_def aspec_store_def dense_abs_def refines_to_def)
    next
      case w: True
      then show ?thesis
        using True s2 grow \<open>o_extensible (a_base a)\<close> el
        by (simp add: dense_new_elem_def aspec_store_def dense_abs_def max_def split: if_splits)
    qed
  qed
qed (use ok in \<open>simp add: dense_new_elem_def refines_to_def\<close>)

lemma dense_set_correct:
  assumes ok: "dense_ok a" and X: "x_setForeign X = (\<lambda>_ _ _. None)"
    and s: "aspec_ok (ASet idx val) (dense_abs a)"
  shows "refines_to (dense_setOwnIdx0 X a idx val throw) (aspec_set (dense_abs a) idx val throw)"
proof (cases "dense_elems a idx")
  case None
  then have "(if idx < length (a_values a) then a_values a ! idx else None) = None" by (simp add: dense_elems_def)
  then have "dense_setOwnIdx0 X a idx val throw = dense_new_elem a idx val throw"
    unfolding dense_setOwnIdx0_def by (simp add: X)
  then show ?thesis
    using dense_new_elem_correct [OF ok None, of val throw] None by (simp add: aspec_set_def)
next
  case (Some v)
  then have v: "idx < length (a_values a)" "a_values a ! idx = Some v" by (auto simp: dense_elems_def split: if_splits)
  have u: "refines_to (Dense (a\<lparr>a_values := (a_values a)[idx := Some w]\<rparr>), Inr True)
      ((dense_abs a)\<lparr>as_elems := (dense_elems a)(idx \<mapsto> w)\<rparr>, Inr True)" for w
    using ok dense_elems_update [OF v(1), of "Some w"]
    by (simp add: refines_to_def dense_ok_def dense_abs_def)
  show ?thesis
  proof (cases v)
    case (Plain x)
    then show ?thesis using v Some u [of "Plain val"]
      by (simp add: dense_setOwnIdx0_def aspec_set_def dense_abs_def)
  next
    case (Prop p)
    then have "vp_setter p = None" using s Some by (simp add: dense_abs_def)
    then show ?thesis using v Some Prop u [of "Prop (p\<lparr>vp_value := Some val\<rparr>)"] ok
      by (simp add: dense_setOwnIdx0_def aspec_set_def dense_abs_def refines_to_def)
  qed
qed

lemma sparse_new_elem_correct:
  assumes ok: "sparse_ok a" and new: "\<not> found a idx"
  shows "refines_to (sparse_new_elem a idx val throw)
    (if \<not> o_extensible (s_base a) then (sparse_abs a, typeErrorResult throw False)
     else aspec_store (sparse_abs a) idx (Plain val) throw)"
proof (cases "o_extensible (s_base a)")
  case True
  have st: "refines_to
      (case sparse_expand b idx of
         (Sparse s, _) \<Rightarrow> (Sparse (s\<lparr>s_items := insert_item (findIdx b idx) (idx, Plain val) (s_items s)\<rparr>), Inr True)
       | (Dense d, _) \<Rightarrow> (Dense (d\<lparr>a_values := (a_values d)[idx := Some (Plain val)], a_objCount := a_objCount d + 1\<rparr>), Inr True))
      ((sparse_abs b)\<lparr>as_elems := (map_of (s_items b))(idx \<mapsto> Plain val)\<rparr>, Inr True)"
    if "sparse_ok b" "idx < s_length b" "\<not> found b idx" for b
  proof -
    have c: "\<And>d. d\<lparr>a_values := (a_values d)[idx := Some (Plain val)], a_objCount := a_objCount d + 1\<rparr>
        = (\<lambda>x. x\<lparr>a_objCount := a_objCount x + 1\<rparr>) (d\<lparr>a_values := (a_values d)[idx := Some (Plain val)]\<rparr>)"
      by simp
    show ?thesis unfolding c
      by (rule sparse_store_correct [OF that, where g = "\<lambda>x. x" and k = "\<lambda>x. x\<lparr>a_objCount := a_objCount x + 1\<rparr>"])
        (simp_all add: dense_ok_def dense_abs_def dense_elems_def fun_eq_iff)
  qed
  show ?thesis
  proof (cases "s_length a \<le> idx")
    case False
    then have "max (s_length a) (idx + 1) = s_length a" by simp
    then show ?thesis
      using True False st [OF ok _ new]
      by (simp add: sparse_new_elem_def aspec_store_def sparse_abs_def Let_def del: max_Suc_Suc)
  next
    case True
    note grow = sparse_grow [OF ok True]
    define b where "b = a\<lparr>s_length := idx + 1\<rparr>"
    have "sparse_ok b" "idx < s_length b" using ok True by (fastforce simp: sparse_ok_def b_def)+
    moreover have fi: "findIdx b idx = findIdx a idx" "\<not> found b idx"
      using new by (simp_all add: found_def findIdx_def b_def)
    ultimately have "sparse_ok b" "idx < s_length b" "\<not> found b idx" by simp_all
    note s2 = st [OF this, unfolded fi(1)]
    show ?thesis
    proof (cases "vp_writable (s_lengthProp a)")
      case False
      then show ?thesis
        using True ok grow \<open>o_extensible (s_base a)\<close>
        by (cases throw) (auto simp: sparse_new_elem_def aspec_store_def sparse_abs_def refines_to_def Let_def)
    next
      case w: True
      then show ?thesis
        using True s2 grow \<open>o_extensible (s_base a)\<close>
        by (simp add: sparse_new_elem_def aspec_store_def sparse_abs_def max_def Let_def b_def)
    qed
  qed
qed (use ok in \<open>simp add: sparse_new_elem_def refines_to_def Let_def\<close>)

lemma sparse_update_refines:
  assumes ok: "sparse_ok a" and f: "found a idx"
  shows "refines_to (Sparse (a\<lparr>s_items := (s_items a)[findIdx a idx := (idx, w)], s_propValueCount := c\<rparr>), Inr True)
    ((sparse_abs a)\<lparr>as_elems := (map_of (s_items a))(idx \<mapsto> w)\<rparr>, Inr True)"
proof -
  have so: "sorted_wrt (<) (map fst (s_items a))" using ok by (simp add: sparse_ok_def)
  note u = update_item_map [OF so f, of w]
  have "sparse_ok (a\<lparr>s_items := (s_items a)[findIdx a idx := (idx, w)], s_propValueCount := c\<rparr>)"
  proof -
    have "\<forall>x \<in> set (map fst ((s_items a)[findIdx a idx := (idx, w)])). x < s_length a"
      using ok unfolding u(1) by (auto simp: sparse_ok_def)
    then have "\<forall>x \<in> set ((s_items a)[findIdx a idx := (idx, w)]). fst x < s_length a"
      by (simp del: map_update)
    then show ?thesis using so unfolding sparse_ok_def by (simp add: u(1) del: map_update)
  qed
  then show ?thesis using u(2) by (simp add: refines_to_def sparse_abs_def)
qed

lemma sparse_set_correct:
  assumes ok: "sparse_ok a" and X: "x_setForeign X = (\<lambda>_ _ _. None)"
    and s: "aspec_ok (ASet idx val) (sparse_abs a)"
  shows "refines_to (sparse_setOwnIdx0 X a idx val throw) (aspec_set (sparse_abs a) idx val throw)"
proof -
  have so: "sorted_wrt (<) (map fst (s_items a))" using ok by (simp add: sparse_ok_def)
  note g = sparse_getIdx0_map [OF so, of idx]
  show ?thesis
  proof (cases "found a idx")
    case False
    then have n: "map_of (s_items a) idx = None" using g(2) by simp
    have "sparse_setOwnIdx0 X a idx val throw = sparse_new_elem a idx val throw"
      using False by (simp add: sparse_setOwnIdx0_def X)
    then show ?thesis
      using sparse_new_elem_correct [OF ok False, of val throw] n by (simp add: aspec_set_def)
  next
    case True
    have m: "map_of (s_items a) idx = Some (snd (s_items a ! findIdx a idx))"
      using g(1) True by (simp add: sparse_getIdx0_def)
    have fi: "fst (s_items a ! findIdx a idx) = idx" using True by (simp add: found_def)
    have u: "refines_to (Sparse (a\<lparr>s_items := (s_items a)[findIdx a idx := (idx, w)]\<rparr>), Inr True)
      ((sparse_abs a)\<lparr>as_elems := (map_of (s_items a))(idx \<mapsto> w)\<rparr>, Inr True)" for w
      using sparse_update_refines [OF ok True, where w = w and c = "s_propValueCount a"] by simp
    show ?thesis
    proof (cases "snd (s_items a ! findIdx a idx)")
      case (Plain x)
      then show ?thesis using True m fi u [of "Plain val"]
        by (simp add: sparse_setOwnIdx0_def aspec_set_def sparse_abs_def Let_def)
    next
      case (Prop p)
      then have "vp_setter p = None" using s m by (simp add: sparse_abs_def)
      then show ?thesis using True m fi Prop u [of "Prop (p\<lparr>vp_value := Some val\<rparr>)"] ok
        by (simp add: sparse_setOwnIdx0_def aspec_set_def sparse_abs_def refines_to_def Let_def)
    qed
  qed
qed

lemma dense_define_store:
  assumes ok: "dense_ok a"
  shows "refines_to
    (case (if a_length a \<le> idx then dense_setLengthInt a (idx + 1) throw else (a, Inr True)) of
       (a, Inl e) \<Rightarrow> (Dense a, Inl e)
     | (a, Inr False) \<Rightarrow> (Dense a, Inr False)
     | (a, Inr True) \<Rightarrow>
         (case dense_expand a idx of
            (Dense a, _) \<Rightarrow>
              (Dense (a\<lparr>a_values := (a_values a)[idx := Some prop], a_objCount := a_objCount a + 1,
                 a_propValueCount := a_propValueCount a + (if is_prop prop then 1 else 0)\<rparr>), Inr True)
          | (Sparse s, _) \<Rightarrow> (Sparse (sparse_add s idx prop), Inr True)))
    (aspec_store (dense_abs a) idx prop throw)"
proof -
  define g where "g = (\<lambda>x :: dense. x\<lparr>a_objCount := a_objCount x + 1,
      a_propValueCount := a_propValueCount x + (if is_prop prop then 1 else 0)\<rparr>)"
  have g: "\<And>d. d\<lparr>a_values := (a_values d)[idx := Some prop], a_objCount := a_objCount d + 1,
        a_propValueCount := a_propValueCount d + (if is_prop prop then 1 else 0)\<rparr>
      = g (d\<lparr>a_values := (a_values d)[idx := Some prop]\<rparr>)"
    by (simp add: g_def)
  have st: "refines_to
      (case dense_expand b idx of
         (Dense d, _) \<Rightarrow> (Dense (g (d\<lparr>a_values := (a_values d)[idx := Some prop]\<rparr>)), Inr True)
       | (Sparse s, _) \<Rightarrow> (Sparse (sparse_add s idx prop), Inr True))
      ((dense_abs b)\<lparr>as_elems := (dense_elems b)(idx \<mapsto> prop)\<rparr>, Inr True)"
    if "dense_ok b" "idx < a_length b" for b
    by (rule dense_store_correct [OF that]) (simp_all add: g_def dense_elems_def fun_eq_iff)
  show ?thesis
    unfolding g
  proof (cases "a_length a \<le> idx")
    case False
    then have "max (a_length a) (idx + 1) = a_length a" by simp
    then show "refines_to
    (case (if a_length a \<le> idx then dense_setLengthInt a (idx + 1) throw else (a, Inr True)) of
       (a, Inl e) \<Rightarrow> (Dense a, Inl e)
     | (a, Inr False) \<Rightarrow> (Dense a, Inr False)
     | (a, Inr True) \<Rightarrow>
         (case dense_expand a idx of
            (Dense a, _) \<Rightarrow> (Dense (g (a\<lparr>a_values := (a_values a)[idx := Some prop]\<rparr>)), Inr True)
          | (Sparse s, _) \<Rightarrow> (Sparse (sparse_add s idx prop), Inr True)))
    (aspec_store (dense_abs a) idx prop throw)"
      using False st [OF ok] by (simp add: aspec_store_def dense_abs_def del: max_Suc_Suc)
  next
    case True
    note grow = dense_grow [OF ok True]
    define b where "b = a\<lparr>a_length := idx + 1\<rparr>"
    have b: "dense_ok b" "idx < a_length b" "dense_elems b = dense_elems a"
      using ok True by (simp_all add: dense_ok_def b_def dense_elems_def fun_eq_iff)
    show "refines_to
    (case (if a_length a \<le> idx then dense_setLengthInt a (idx + 1) throw else (a, Inr True)) of
       (a, Inl e) \<Rightarrow> (Dense a, Inl e)
     | (a, Inr False) \<Rightarrow> (Dense a, Inr False)
     | (a, Inr True) \<Rightarrow>
         (case dense_expand a idx of
            (Dense a, _) \<Rightarrow> (Dense (g (a\<lparr>a_values := (a_values a)[idx := Some prop]\<rparr>)), Inr True)
          | (Sparse s, _) \<Rightarrow> (Sparse (sparse_add s idx prop), Inr True)))
    (aspec_store (dense_abs a) idx prop throw)"
    proof (cases "vp_writable (a_lengthProp a)")
      case False
      then show ?thesis using True ok grow
        by (cases throw) (auto simp: aspec_store_def dense_abs_def refines_to_def)
    next
      case w: True
      then show ?thesis using True st [OF b(1,2)] grow b(3)
        by (simp add: aspec_store_def dense_abs_def max_def b_def)
    qed
  qed
qed

lemma dense_define_correct:
  assumes ok: "dense_ok a"
  shows "refines_to (dense_defineIdx E a idx desc throw) (aspec_define E (dense_abs a) idx desc throw)"
proof -
  obtain cur r where d: "base_defineOwnProperty E (o_extensible (a_base a)) (dense_elems a idx) desc throw = (cur, r)"
    by fastforce
  define a1 where "a1 = (if idx < length (a_values a) then a\<lparr>a_values := (a_values a)[idx := cur]\<rparr> else a)"
  have el: "dense_elems a1 = (dense_elems a)(idx := cur)"
  proof (cases "idx < length (a_values a)")
    case False
    then have "dense_elems a idx = None" by (simp add: dense_elems_def)
    then have "cur = None" using base_define_cur [OF d] by simp
    then show ?thesis using False \<open>dense_elems a idx = None\<close> by (simp add: a1_def fun_upd_idem)
  qed (simp add: a1_def dense_elems_update)
  have a1: "dense_ok a1" "dense_abs a1 = (dense_abs a)\<lparr>as_elems := (dense_elems a)(idx := cur)\<rparr>"
    using ok el by (auto simp: a1_def dense_ok_def dense_abs_def)
  have ex: "(if idx < length (a_values a) then a_values a ! idx else None) = dense_elems a idx"
    by (simp add: dense_elems_def)
  note st = dense_define_store [OF a1(1), where idx = idx and throw = throw]
  show ?thesis
    unfolding dense_defineIdx_def aspec_define_def ex Let_def abs_sel d prod.case a1_def [symmetric] a1(2) [symmetric]
  proof (cases r)
    case (Inr q)
    then show "refines_to
       (case r of Inl e \<Rightarrow> (Dense a1, Inl e) | Inr None \<Rightarrow> (Dense a1, Inr False)
        | Inr (Some prop) \<Rightarrow>
            (case (if a_length a1 \<le> idx then dense_setLengthInt a1 (idx + 1) throw else (a1, Inr True)) of
               (a, Inl e) \<Rightarrow> (Dense a, Inl e)
             | (a, Inr False) \<Rightarrow> (Dense a, Inr False)
             | (a, Inr True) \<Rightarrow>
                 (case dense_expand a idx of
                    (Dense a, _) \<Rightarrow>
                      (Dense (a\<lparr>a_values := (a_values a)[idx := Some prop], a_objCount := a_objCount a + 1,
                         a_propValueCount := a_propValueCount a + (if is_prop prop then 1 else 0)\<rparr>), Inr True)
                  | (Sparse s, _) \<Rightarrow> (Sparse (sparse_add s idx prop), Inr True))))
       (case r of Inl e \<Rightarrow> (dense_abs a1, Inl e) | Inr None \<Rightarrow> (dense_abs a1, Inr False)
        | Inr (Some p) \<Rightarrow> aspec_store (dense_abs a1) idx p throw)"
      using st a1(1) by (cases q) (simp_all add: refines_to_def)
  qed (use a1(1) in \<open>simp add: refines_to_def\<close>)
qed

lemma sparse_define_store:
  assumes ok: "sparse_ok a" and nf: "\<not> found a idx"
  shows "refines_to
    (case (if s_length a \<le> idx then sparse_setLengthInt a (idx + 1) throw else (a, Inr True)) of
       (b, Inl e) \<Rightarrow> (Sparse b, Inl e)
     | (b, Inr False) \<Rightarrow> (Sparse b, Inr False)
     | (b, Inr True) \<Rightarrow>
         (case sparse_expand b idx of
            (Sparse s, _) \<Rightarrow>
              (Sparse (s\<lparr>s_items := insert_item (findIdx a idx) (idx, prop) (s_items s),
                 s_length := if s_length s \<le> idx then idx + 1 else s_length s,
                 s_propValueCount := s_propValueCount s + (if is_prop prop then 1 else 0)\<rparr>), Inr True)
          | (Dense d, _) \<Rightarrow> (Dense (d\<lparr>a_values := (a_values d)[idx := Some prop]\<rparr>), Inr True)))
    (aspec_store (sparse_abs a) idx prop throw)"
proof -
  define g where "g = (\<lambda>x :: sparse. x\<lparr>s_length := if s_length x \<le> idx then idx + 1 else s_length x,
      s_propValueCount := s_propValueCount x + (if is_prop prop then 1 else 0)\<rparr>)"
  have g: "\<And>s its. s\<lparr>s_items := its, s_length := if s_length s \<le> idx then idx + 1 else s_length s,
        s_propValueCount := s_propValueCount s + (if is_prop prop then 1 else 0)\<rparr> = g (s\<lparr>s_items := its\<rparr>)"
    by (simp add: g_def)
  have st: "refines_to
      (case sparse_expand b idx of
         (Sparse s, _) \<Rightarrow> (Sparse (g (s\<lparr>s_items := insert_item (findIdx b idx) (idx, prop) (s_items s)\<rparr>)), Inr True)
       | (Dense d, _) \<Rightarrow> (Dense (d\<lparr>a_values := (a_values d)[idx := Some prop]\<rparr>), Inr True))
      ((sparse_abs b)\<lparr>as_elems := (map_of (s_items b))(idx \<mapsto> prop)\<rparr>, Inr True)"
    if "sparse_ok b" "idx < s_length b" "\<not> found b idx" for b
    by (rule sparse_store_correct [OF that, where g = g and k = "\<lambda>x. x"])
      (use that(2) in \<open>simp_all add: g_def sparse_ok_def sparse_abs_def\<close>)
  define b where "b = a\<lparr>s_length := idx + 1\<rparr>"
  have fi: "findIdx b idx = findIdx a idx" "\<not> found b idx"
    using nf by (simp_all add: found_def findIdx_def b_def)
  let ?goal = "\<lambda>r. refines_to
    (case r of
       (b, Inl e) \<Rightarrow> (Sparse b, Inl e)
     | (b, Inr False) \<Rightarrow> (Sparse b, Inr False)
     | (b, Inr True) \<Rightarrow>
         (case sparse_expand b idx of
            (Sparse s, _) \<Rightarrow> (Sparse (g (s\<lparr>s_items := insert_item (findIdx a idx) (idx, prop) (s_items s)\<rparr>)), Inr True)
          | (Dense d, _) \<Rightarrow> (Dense (d\<lparr>a_values := (a_values d)[idx := Some prop]\<rparr>), Inr True)))
    (aspec_store (sparse_abs a) idx prop throw)"
  have "?goal (if s_length a \<le> idx then sparse_setLengthInt a (idx + 1) throw else (a, Inr True))"
  proof (cases "s_length a \<le> idx")
    case False
    then have "max (s_length a) (idx + 1) = s_length a" by simp
    then show ?thesis
      using False st [OF ok _ nf] by (simp add: aspec_store_def sparse_abs_def del: max_Suc_Suc)
  next
    case True
    note grow = sparse_grow [OF ok True]
    have b: "sparse_ok b" "idx < s_length b" using ok True by (fastforce simp: sparse_ok_def b_def)+
    note s2 = st [OF b fi(2), unfolded fi(1)]
    show ?thesis
    proof (cases "vp_writable (s_lengthProp a)")
      case False
      then show ?thesis using True ok grow
        by (cases throw) (auto simp: aspec_store_def sparse_abs_def refines_to_def)
    next
      case w: True
      then show ?thesis using True s2 grow
        by (simp add: aspec_store_def sparse_abs_def max_def b_def)
    qed
  qed
  then show ?thesis by (simp only: g)
qed

lemma sparse_define_correct:
  assumes ok: "sparse_ok a"
  shows "refines_to (sparse_defineIdx E a idx desc throw) (aspec_define E (sparse_abs a) idx desc throw)"
proof -
  have so: "sorted_wrt (<) (map fst (s_items a))" using ok by (simp add: sparse_ok_def)
  note gi = sparse_getIdx0_map [OF so, of idx]
  have ex: "(if found a idx then Some (snd (s_items a ! findIdx a idx)) else None) = map_of (s_items a) idx"
    using gi(1) by (simp add: sparse_getIdx0_def)
  obtain cur r where d: "base_defineOwnProperty E (o_extensible (s_base a)) (map_of (s_items a) idx) desc throw = (cur, r)"
    by fastforce
  show ?thesis
  proof (cases "found a idx")
    case False
    then have m: "map_of (s_items a) idx = None" using gi(2) by simp
    then have cur: "cur = None" using base_define_cur [OF d] by simp
    have abs: "(sparse_abs a)\<lparr>as_elems := (map_of (s_items a))(idx := None)\<rparr> = sparse_abs a"
      using m by (simp add: sparse_abs_def fun_upd_idem)
    note st = sparse_define_store [OF ok False, where throw = throw]
    have sp: "aspec_define E (sparse_abs a) idx desc throw =
        (case r of Inl e \<Rightarrow> (sparse_abs a, Inl e) | Inr None \<Rightarrow> (sparse_abs a, Inr False)
         | Inr (Some p) \<Rightarrow> aspec_store (sparse_abs a) idx p throw)"
      using d by (simp add: aspec_define_def cur abs Let_def)
    show ?thesis
    proof (cases r)
      case (Inl e)
      then show ?thesis using ok ex d cur sp by (simp add: sparse_defineIdx_def refines_to_def Let_def)
    next
      case (Inr q)
      show ?thesis
      proof (cases q)
        case None
        then show ?thesis using Inr ok ex d cur sp by (simp add: sparse_defineIdx_def refines_to_def Let_def)
      next
        case (Some p)
        define st2 where "st2 = (if s_length a \<le> idx then sparse_setLengthInt a (idx + 1) throw else (a, Inr True))"
        have nf: "\<not> (findIdx a idx < length (s_items (fst st2)) \<and> fst (s_items (fst st2) ! findIdx a idx) = idx)"
          using False sparse_grow [OF ok] by (auto simp: found_def st2_def)
        have "sparse_defineIdx E a idx desc throw =
          (case st2 of
             (b, Inl e) \<Rightarrow> (Sparse b, Inl e)
           | (b, Inr False) \<Rightarrow> (Sparse b, Inr False)
           | (b, Inr True) \<Rightarrow>
               (case sparse_expand b idx of
                  (Sparse s, _) \<Rightarrow>
                    (Sparse (s\<lparr>s_items := insert_item (findIdx a idx) (idx, p) (s_items s),
                       s_length := if s_length s \<le> idx then idx + 1 else s_length s,
                       s_propValueCount := s_propValueCount s + (if is_prop p then 1 else 0)\<rparr>), Inr True)
                | (Dense d, _) \<Rightarrow> (Dense (d\<lparr>a_values := (a_values d)[idx := Some p]\<rparr>), Inr True)))"
          unfolding sparse_defineIdx_def Let_def ex d prod.case cur option.case Inr Some sum.case st2_def [symmetric]
          using nf by (cases st2) (simp split: sum.split bool.split)
        then show ?thesis using st [of p] sp Inr Some unfolding st2_def by simp
      qed
    qed
  next
    case True
    then have m: "map_of (s_items a) idx \<noteq> None" using gi(2) by simp
    then obtain c where cur: "cur = Some c" using base_define_cur [OF d] by (cases cur) auto
    have f: "findIdx a idx < length (s_items a)" "fst (s_items a ! findIdx a idx) = idx"
      using True by (auto simp: found_def)
    have "fst (s_items a ! findIdx a idx) < s_length a" using ok nth_mem [OF f(1)] by (simp add: sparse_ok_def)
    then have "idx < s_length a" using f(2) by simp
    note fi = f this
    have u: "refines_to (Sparse (a\<lparr>s_items := (s_items a)[findIdx a idx := (idx, w)], s_propValueCount := k\<rparr>), Inr True)
      ((sparse_abs a)\<lparr>as_elems := (map_of (s_items a))(idx \<mapsto> w)\<rparr>, Inr True)" for w k
      by (rule sparse_update_refines [OF ok True])
    have u1: "refines_to (Sparse (a\<lparr>s_items := (s_items a)[findIdx a idx := (idx, c)]\<rparr>), q)
      ((sparse_abs a)\<lparr>as_elems := (map_of (s_items a))(idx \<mapsto> c)\<rparr>, q)" for q
      using u [where w = c and k = "s_propValueCount a"] by (simp add: refines_to_def)
    have mx: "max (s_length a) (idx + 1) = s_length a" using fi(3) by simp
    show ?thesis
    proof (cases r)
      case (Inl e)
      then show ?thesis using True ex d cur u1 by (simp add: sparse_defineIdx_def aspec_define_def Let_def)
    next
      case (Inr q)
      show ?thesis
      proof (cases q)
        case None
        then show ?thesis using Inr True ex d cur u1 by (simp add: sparse_defineIdx_def aspec_define_def Let_def)
      next
        case (Some p)
        then show ?thesis using Inr True ex d cur u [where w = p] fi mx
          by (simp add: sparse_defineIdx_def aspec_define_def aspec_store_def Let_def sparse_abs_def del: max_Suc_Suc)
      qed
    qed
  qed
qed

lemma dense_delete_correct:
  assumes ok: "dense_ok a"
  shows "refines_to (arr_res (dense_deleteIdx0 a idx throw)) (aspec_delete (dense_abs a) idx throw)"
proof (cases "dense_elems a idx")
  case None
  then show ?thesis using ok
    by (auto simp: dense_deleteIdx0_def aspec_delete_def refines_to_def arr_res_def dense_elems_def split: if_splits)
next
  case (Some v)
  then have v: "idx < length (a_values a)" "a_values a ! idx = Some v" by (auto simp: dense_elems_def split: if_splits)
  have el: "dense_elems (a\<lparr>a_propValueCount := p, a_values := (a_values a)[idx := None], a_objCount := c\<rparr>) =
      (dense_elems a)(idx := None)" for c p
    using dense_elems_update [OF v(1), of None] by (simp add: dense_elems_def fun_eq_iff)
  show ?thesis
    using v ok Some el el [where p = "a_propValueCount a"]
    by (cases v; cases throw)
      (auto simp: dense_deleteIdx0_def aspec_delete_def refines_to_def arr_res_def checkDelete_def dense_ok_def dense_abs_def)
qed

lemma sparse_delete_correct:
  assumes ok: "sparse_ok a"
  shows "refines_to (arr_res_s (sparse_deleteIdx0 a idx throw)) (aspec_delete (sparse_abs a) idx throw)"
proof -
  have so: "sorted_wrt (<) (map fst (s_items a))" using ok by (simp add: sparse_ok_def)
  note gi = sparse_getIdx0_map [OF so, of idx]
  show ?thesis
  proof (cases "found a idx")
    case False
    then show ?thesis using gi(2) ok
      by (simp add: sparse_deleteIdx0_def aspec_delete_def refines_to_def arr_res_s_def Let_def)
  next
    case True
    have m: "map_of (s_items a) idx = Some (snd (s_items a ! findIdx a idx))"
      using gi(1) True by (simp add: sparse_getIdx0_def)
    note rm = remove_item_map [OF so True]
    show ?thesis
      using True m rm ok
      by (cases "snd (s_items a ! findIdx a idx)"; cases throw)
        (auto simp: sparse_deleteIdx0_def aspec_delete_def refines_to_def arr_res_s_def checkDelete_def
          sparse_ok_def sparse_abs_def Let_def)
  qed
qed

lemma dense_len_loop_configurable:
  "(\<And>i v. l \<le> i \<Longrightarrow> i < n \<Longrightarrow> vs ! i = Some v \<Longrightarrow> configurable_slot v) \<Longrightarrow>
   \<exists>pvc'. dense_len_loop vs l n pvc = (l, True, pvc')"
proof (induction n arbitrary: pvc)
  case (Suc n)
  have IH: "\<exists>pvc'. dense_len_loop vs l n pvc = (l, True, pvc')" for pvc
    by (rule Suc.IH) (use Suc.prems less_SucI in blast)
  show ?case
  proof (cases "vs ! n")
    case (Some v)
    then show ?thesis using Suc.prems [of n v] IH
      by (cases v; cases "n < l") (auto simp: configurable_slot_def)
  qed (use IH in simp)
qed simp

lemma sparse_len_loop_configurable:
  "(\<And>i. i < n \<Longrightarrow> l < fst (items ! i) \<Longrightarrow> configurable_slot (snd (items ! i))) \<Longrightarrow>
   \<exists>pvc'. sparse_len_loop items l n pvc = (l, True, pvc')"
proof (induction n arbitrary: pvc)
  case (Suc n)
  have IH: "\<exists>pvc'. sparse_len_loop items l n pvc = (l, True, pvc')" for pvc
    by (rule Suc.IH) (use Suc.prems less_SucI in blast)
  show ?case
    using Suc.prems [of n] IH
    by (cases "snd (items ! n)"; cases "fst (items ! n) \<le> l") (auto simp: configurable_slot_def)
qed simp

lemma dense_setLength_correct:
  assumes ok: "dense_ok a" and s: "aspec_ok (ALength l) (dense_abs a)"
  shows "refines_to (arr_res (dense_setLength a l throw)) (aspec_setLength (dense_abs a) l throw)"
proof (cases "vp_writable (a_lengthProp a)")
  case True
  have cf: "configurable_slot v" if "l \<le> i" "i < length (a_values a)" "a_values a ! i = Some v" for i v
    using s that by (auto simp: dense_elems_def)
  have "\<exists>pvc. (if l \<le> a_length a \<and> 0 < a_propValueCount a
      then dense_len_loop (a_values a) l (length (a_values a)) (a_propValueCount a)
      else (l, True, a_propValueCount a)) = (l, True, pvc)"
    using dense_len_loop_configurable [OF cf] by auto
  then obtain pvc where p: "(if l \<le> a_length a \<and> 0 < a_propValueCount a
      then dense_len_loop (a_values a) l (length (a_values a)) (a_propValueCount a)
      else (l, True, a_propValueCount a)) = (l, True, pvc)" ..
  have el: "dense_elems (a\<lparr>a_propValueCount := pvc, a_values := take l (a_values a), a_cap := c, a_length := l\<rparr>)
      = (\<lambda>i. if i < l then dense_elems a i else None)" for c
    by (auto simp: dense_elems_def fun_eq_iff)
  have el2: "dense_elems (a\<lparr>a_propValueCount := pvc, a_values := take l (a_values a), a_length := l\<rparr>)
      = (\<lambda>i. if i < l then dense_elems a i else None)"
    using el [of "a_cap a"] by simp
  have el3: "dense_elems (a\<lparr>a_propValueCount := pvc, a_length := l\<rparr>) = (\<lambda>i. if i < l then dense_elems a i else None)"
    if "length (a_values a) < l"
    using that by (auto simp: dense_elems_def fun_eq_iff)
  show ?thesis
    unfolding dense_setLength_def dense_setLengthInt0_def p
    using True ok el el2 el3
    by (auto simp: aspec_setLength_def refines_to_def arr_res_def dense_ok_def dense_abs_def Let_def not_le)
qed (use ok in \<open>simp add: dense_setLength_def aspec_setLength_def refines_to_def arr_res_def\<close>)

lemma sparse_setLength_correct:
  assumes ok: "sparse_ok a" and s: "aspec_ok (ALength l) (sparse_abs a)"
  shows "refines_to (arr_res_s (sparse_setLength a l throw)) (aspec_setLength (sparse_abs a) l throw)"
proof (cases "vp_writable (s_lengthProp a)")
  case True
  have so: "sorted_wrt (<) (map fst (s_items a))" using ok by (simp add: sparse_ok_def)
  have cf: "configurable_slot (snd (s_items a ! i))" if "i < length (s_items a)" "l < fst (s_items a ! i)" for i
  proof -
    have "distinct (map fst (s_items a))" using so by (simp add: strict_sorted_iff)
    then have "map_of (s_items a) (fst (s_items a ! i)) = Some (snd (s_items a ! i))"
      using that(1) by (intro map_of_is_SomeI) simp_all
    then show ?thesis using s that(2) by (simp, metis less_imp_le)
  qed
  have "\<exists>pvc. (if l \<le> s_length a \<and> 0 < s_propValueCount a
      then sparse_len_loop (s_items a) l (length (s_items a)) (s_propValueCount a)
      else (l, True, s_propValueCount a)) = (l, True, pvc)"
    using sparse_len_loop_configurable [OF cf] by auto
  then obtain pvc where p: "(if l \<le> s_length a \<and> 0 < s_propValueCount a
      then sparse_len_loop (s_items a) l (length (s_items a)) (s_propValueCount a)
      else (l, True, s_propValueCount a)) = (l, True, pvc)" ..
  have "sorted_wrt (<) (map fst (take (findIdx a l) (s_items a)))"
    using sorted_wrt_take [OF so] by (simp add: take_map)
  then show ?thesis
    unfolding sparse_setLength_def sparse_setLengthInt0_def p
    using True truncate_items_map [OF so, of l] findIdx_split(2) [OF so, of l]
    by (auto simp: aspec_setLength_def refines_to_def arr_res_s_def sparse_ok_def sparse_abs_def)
qed (use ok in \<open>simp add: sparse_setLength_def aspec_setLength_def refines_to_def arr_res_s_def\<close>)

section \<open>Sequences of operations\<close>

fun arr_run :: "arr_env \<Rightarrow> bool \<Rightarrow> arr_op list \<Rightarrow> arr \<Rightarrow> arr \<times> (go_error + bool) list" where
  "arr_run X throw [] a = (a, [])"
| "arr_run X throw (op # ops) a =
     (case arr_step X throw op a of (a, r) \<Rightarrow> (case arr_run X throw ops a of (a, rs) \<Rightarrow> (a, r # rs)))"

fun aspec_run :: "env \<Rightarrow> bool \<Rightarrow> arr_op list \<Rightarrow> aspec \<Rightarrow> (aspec \<times> (go_error + bool) list) option" where
  "aspec_run E throw [] s = Some (s, [])"
| "aspec_run E throw (op # ops) s =
     (if aspec_ok op s then
        case aspec_step E throw op s of (s, r) \<Rightarrow>
          map_option (\<lambda>(s, rs). (s, r # rs)) (aspec_run E throw ops s)
      else None)"

lemma arr_step_correct:
  assumes "arr_ok a" "x_setForeign X = (\<lambda>_ _ _. None)" "aspec_ok op (arr_abs a)"
  shows "refines_to (arr_step X throw op a) (aspec_step (x_env X) throw op (arr_abs a))"
proof (cases a)
  case (Dense d)
  then show ?thesis
    using assms dense_set_correct dense_define_correct dense_delete_correct dense_setLength_correct
    by (cases op) simp_all
next
  case (Sparse s)
  then show ?thesis
    using assms sparse_set_correct sparse_define_correct sparse_delete_correct sparse_setLength_correct
    by (cases op) simp_all
qed

definition aspec_empty :: "bool \<Rightarrow> aspec" where
  "aspec_empty ext = \<lparr>as_elems = Map.empty, as_len = 0, as_writable = True, as_ext = ext\<rparr>"

text \<open>
  C3. From the empty array, any sequence of assignments to elements, definitions, deletions
  and changes of the length, dense or sparse and across all switches between the two
  representations, computes what the finite map with a length computes, with the same
  results and the same errors; the invariants of the representations hold throughout. The
  prototype does not intervene, no setter is called, and no element that is not configurable
  is cut off.
\<close>

theorem arrays_refine:
  assumes "aspec_run (x_env X) throw ops (aspec_empty (o_extensible base)) = Some (s, rs)"
    and "x_setForeign X = (\<lambda>_ _ _. None)"
  shows "\<exists>a. arr_run X throw ops (Dense (dense_init base)) = (a, rs) \<and> arr_ok a \<and> arr_abs a = s"
proof -
  have "\<exists>a'. arr_run X throw ops a = (a', rs) \<and> arr_ok a' \<and> arr_abs a' = s"
    if "arr_ok a" "aspec_run (x_env X) throw ops (arr_abs a) = Some (s, rs)" for a
    using that
  proof (induction ops arbitrary: a rs)
    case (Cons op ops)
    obtain s1 r1 where s1: "aspec_step (x_env X) throw op (arr_abs a) = (s1, r1)" by fastforce
    obtain a1 r where a1: "arr_step X throw op a = (a1, r)" by fastforce
    have ok: "aspec_ok op (arr_abs a)" using Cons.prems(2) by (auto split: if_splits)
    have "arr_ok a1" "arr_abs a1 = s1" "r = r1"
      using arr_step_correct [OF Cons.prems(1) assms(2) ok, of throw] s1 a1 by (simp_all add: refines_to_def)
    then show ?case using Cons.prems(2) Cons.IH [of a1] ok s1 a1 by (auto split: prod.splits)
  qed simp
  moreover have "arr_abs (Dense (dense_init base)) = aspec_empty (o_extensible base)" "arr_ok (Dense (dense_init base))"
    by (simp_all add: dense_init_def dense_abs_def aspec_empty_def dense_ok_def dense_elems_def fun_eq_iff empty_prop_def Let_def)
  ultimately show ?thesis using assms(1) by metis
qed

definition arr_env0 :: arr_env where
  "arr_env0 = \<lparr>x_env = env0, x_self = VObject 1, x_setForeign = \<lambda>_ _ _. None,
     x_getForeign = \<lambda>a _ _. (a, Inr None), x_hasForeign = \<lambda>_ _. Inr False,
     x_call = \<lambda>a _ _ _. (a, Inr VUndefined)\<rparr>"

lemma arrays_refine_witness:
  "\<exists>a. arr_run arr_env0 True [ASet 3 VNull, ASet 100000 VNull, ADelete 3, ALength 50000] (Dense (dense_init (demo_obj None)))
      = (a, [Inr True, Inr True, Inr True, Inr True]) \<and> arr_ok a \<and> as_len (arr_abs a) = 50000"
proof -
  have "aspec_run (x_env arr_env0) True [ASet 3 VNull, ASet 100000 VNull, ADelete 3, ALength 50000]
      (aspec_empty (o_extensible (demo_obj None))) =
    Some (\<lparr>as_elems = \<lambda>i. if i < 50000 then (([3 \<mapsto> Plain VNull])(100000 \<mapsto> Plain VNull, 3 := None)) i else None,
        as_len = 50000, as_writable = True, as_ext = True\<rparr>, [Inr True, Inr True, Inr True, Inr True])"
    by (simp add: aspec_empty_def demo_obj_def aspec_set_def aspec_store_def aspec_delete_def checkDelete_def
        aspec_setLength_def configurable_slot_def fun_eq_iff)
  from arrays_refine [OF this] show ?thesis by (auto simp: arr_env0_def)
qed

section \<open>Elements that are not configurable\<close>

text \<open>
  A definition that makes the array sparse does not count the property, so that an element
  that is not configurable is deleted by a shorter length.
\<close>

definition fixed_desc :: propdesc where
  "fixed_desc = empty_desc\<lparr>pd_value := Some (VInt 1)\<rparr>"

lemma switch_forgets_property:
  "arr_step arr_env0 True (ADefine 100000 fixed_desc) (Dense (dense_init (demo_obj None))) =
    (Sparse \<lparr>s_base = base_put length_name (Prop (length_prop True)) (a_base (dense_init (demo_obj None))),
       s_items = [(100000, valueProp (VInt 1) False False False)], s_length = 100001,
       s_propValueCount = 0, s_lengthProp = length_prop True\<rparr>, Inr True)"
  "s_propValueCount a = 0 \<Longrightarrow> vp_writable (s_lengthProp a) \<Longrightarrow>
   snd (sparse_setLength a 0 throw) = Inr True \<and> s_items (fst (sparse_setLength a 0 throw)) = []"
proof -
  show "arr_step arr_env0 True (ADefine 100000 fixed_desc) (Dense (dense_init (demo_obj None))) =
    (Sparse \<lparr>s_base = base_put length_name (Prop (length_prop True)) (a_base (dense_init (demo_obj None))),
       s_items = [(100000, valueProp (VInt 1) False False False)], s_length = 100001,
       s_propValueCount = 0, s_lengthProp = length_prop True\<rparr>, Inr True)"
    by (simp add: dense_defineIdx_def dense_init_def demo_obj_def arr_env0_def fixed_desc_def empty_desc_def
        base_defineOwnProperty_def empty_prop_def define_flags_def define_getter_def define_setter_def
        define_finish_def dense_setLengthInt_def dense_setLengthInt0_def dense_expand_def dense_to_sparse_def
        sparse_add_def findIdx_def sort_search_def sort_search_loop.simps insert_item_def valueProp_def
        length_prop_def Let_def)
  show "snd (sparse_setLength a 0 throw) = Inr True \<and> s_items (fst (sparse_setLength a 0 throw)) = []"
    if "s_propValueCount a = 0" "vp_writable (s_lengthProp a)"
  proof -
    have "findIdx a 0 = 0"
      unfolding findIdx_def by (rule sort_search_unique) simp_all
    then show ?thesis using that by (simp add: sparse_setLength_def sparse_setLengthInt0_def)
  qed
qed

text \<open>In a sparse array, the scan for such elements leaves out the one at the new length.\<close>

lemma sparse_length_off_by_one:
  "let a = \<lparr>s_base = demo_obj None, s_items = [(5, valueProp (VInt 1) False False False)], s_length = 6,
       s_propValueCount = 1, s_lengthProp = length_prop True\<rparr> in
   snd (sparse_setLength a 4 False) = Inr False \<and> s_length (fst (sparse_setLength a 4 False)) = 6
   \<and> snd (sparse_setLength a 5 False) = Inr True \<and> s_items (fst (sparse_setLength a 5 False)) = []"
  by code_simp

end
