(* ===== verification/Vm.thy ===== *)
theory Vm
  imports Property_Access Arith
begin

text \<open>
  The machine state of \<open>vm.go\<close>: value stack, contexts, try frames, iterator and reference
  stacks, how an exception unwinds them (\<open>handleThrow\<close>) and how the frame of a generator is
  taken off the stacks and put back (\<open>suspend\<close>, \<open>resume\<close>).

  An action takes a machine and returns it with a result; a Go panic is an error result,
  whose machine is the one the panic leaves behind. Interrupts, the profiler and the stack
  traces of exceptions are left out.
\<close>

section \<open>Machine state\<close>

text \<open>
  A cell of the value stack or of a scope holds a value, nil, or one of the markers a call
  of an unknown name leaves on the stack (\<open>valueUnresolved\<close>, \<open>memberUnresolved\<close>).
\<close>

datatype cell = CNil | CVal jsval | CUnresolved ustr | CMember ustr

datatype funcType =
    funcNone | funcRegular | funcArrow | funcMethod | funcClsInit | funcCtor | funcDerivedCtor

record stash =
  s_values :: "cell list"
  s_extraArgs :: "cell list"
  s_names :: "(ustr \<times> 32 word) list"
  s_obj :: "nat option"
  s_outer :: "nat option"
  s_funcType :: funcType

record ctx =
  c_prg :: "nat option"
  c_stash :: "nat option"
  c_privEnv :: "nat option"
  c_newTarget :: cell
  c_result :: cell
  c_pc :: int
  c_sb :: int
  c_args :: int

text \<open>\<open>uint32\<close> and \<open>int32\<close> fields are words; the latter are read with \<open>sint\<close>.\<close>

record tryFrame =
  t_exception :: "jsval option"
  t_callStackLen :: "32 word"
  t_iterLen :: "32 word"
  t_refLen :: "32 word"
  t_sp :: "32 word"
  t_stash :: "nat option"
  t_privEnv :: "nat option"
  t_catchPos :: "32 word"
  t_finallyPos :: "32 word"
  t_finallyRet :: "32 word"

text \<open>An iterator that is closed has lost its object and its \<open>next\<close> method.\<close>

record iteratorRecord =
  it_iterator :: "nat option"
  it_next :: "nat option"

record iterStackItem =
  i_val :: cell
  i_f :: "nat option"
  i_iter :: "iteratorRecord option"

text \<open>Where the cell of a reference lives: in a scope, or on the value stack.\<close>

datatype store = InStash nat | OnStack

datatype ref =
    StashRef ustr store int
  | ThisRef store int
  | StashRefLex ustr store int
  | StashRefConst ustr store int bool
  | ObjRef nat jsval "jsval option" bool bool
  | ObjStrRef nat ustr "jsval option" bool bool
  | UnresolvedRef ustr

record vm =
  v_heap :: oheap
  v_stashes :: "stash list"
  v_prg :: "nat option"
  v_pc :: int
  v_stack :: "cell list"
  v_sp :: int
  v_sb :: int
  v_args :: int
  v_stash :: "nat option"
  v_privEnv :: "nat option"
  v_callStack :: "ctx list"
  v_iterStack :: "iterStackItem list"
  v_refStack :: "ref list"
  v_tryStack :: "tryFrame list"
  v_tryCap :: nat
  v_newTarget :: cell
  v_result :: cell
  v_maxCallStackSize :: int

text \<open>
  The payload of a Go panic: a thrown value, or an error of the engine. \<open>PErr GoPanic\<close>
  stands for everything \<open>exceptionFromValue\<close> does not know, Go's own run-time errors
  among it.
\<close>

datatype panic = PVal jsval | PErr go_error

type_synonym 'a act = "vm \<Rightarrow> vm \<times> (panic + 'a)"

text \<open>
  The surroundings of the machine: those of the objects, fuel for prototype chains, the
  error objects that are made for the engine's errors, the global object, the symbol
  \<open>Symbol.unscopables\<close>, the prototype for a primitive, the address of a new object, the
  object that stands for a string, the description of a symbol, and the capacity
  Go's \<open>append\<close> gives a slice that has to grow to a length (\<open>grow_ok\<close>).
\<close>

record venv =
  x_env :: env
  x_fuel :: nat
  x_error :: "go_error \<Rightarrow> jsval"
  x_global :: nat
  x_unscopables :: nat
  x_proto :: "jsval \<Rightarrow> nat"
  x_fresh :: "oheap \<Rightarrow> nat"
  x_string :: "ustr \<Rightarrow> oheap \<Rightarrow> oheap \<times> nat"
  x_symdesc :: "nat \<Rightarrow> ustr option"
  x_grow :: "nat \<Rightarrow> nat"

definition grow_ok :: "venv \<Rightarrow> bool" where
  "grow_ok E \<longleftrightarrow> (\<forall>n. n \<le> x_grow E n)"

section \<open>Actions\<close>

definition returnA :: "'a \<Rightarrow> 'a act" where
  "returnA x s = (s, Inr x)"

definition raise :: "panic \<Rightarrow> 'a act" where
  "raise p s = (s, Inl p)"

definition thenA :: "'a act \<Rightarrow> ('a \<Rightarrow> 'b act) \<Rightarrow> 'b act" where
  "thenA m f s = (case m s of (s', Inl p) \<Rightarrow> (s', Inl p) | (s', Inr x) \<Rightarrow> f x s')"

definition readA :: "(vm \<Rightarrow> 'a) \<Rightarrow> 'a act" where
  "readA f s = (s, Inr (f s))"

definition updA :: "(vm \<Rightarrow> vm) \<Rightarrow> unit act" where
  "updA f s = (f s, Inr ())"

text \<open>A nil dereference, an index out of range or a failed assertion.\<close>

definition crash :: "'a act" where
  "crash = raise (PErr GoPanic)"

definition liftR :: "go_error + 'a \<Rightarrow> 'a act" where
  "liftR r s = (s, case r of Inl e \<Rightarrow> Inl (PErr e) | Inr x \<Rightarrow> Inr x)"

text \<open>
  An operation on the objects. Where the fuel is used up the prototype chain has a cycle,
  which \<open>setProto\<close> rules out (\<open>chain_operations_return\<close> of \<open>Objects\<close>); the code would loop.
\<close>

definition liftH :: "(oheap \<Rightarrow> (oheap, 'a) outcome option) \<Rightarrow> 'a act" where
  "liftH f s =
     (case f (v_heap s) of
        None \<Rightarrow> (s, Inl (PErr GoPanic))
      | Some (H, r) \<Rightarrow> (s\<lparr>v_heap := H\<rparr>, case r of Inl e \<Rightarrow> Inl (PErr e) | Inr x \<Rightarrow> Inr x))"

lemmas act_simps [simp] = returnA_def raise_def readA_def updA_def crash_def liftR_def

lemma thenA_simps [simp]:
  "thenA (returnA x) f s = f x s"
  "thenA (raise p) f s = (s, Inl p)"
  "thenA (readA g) f s = f (g s) s"
  "thenA (updA h) k s = k () (h s)"
  by (simp_all add: thenA_def)

lemma thenA_eq:
  "m s = (s', Inr x) \<Longrightarrow> thenA m f s = f x s'"
  "m s = (s', Inl p) \<Longrightarrow> thenA m f s = (s', Inl p)"
  by (simp_all add: thenA_def)

lemma thenA_assoc: "thenA (thenA m f) g = thenA m (\<lambda>x. thenA (f x) g)"
  by (rule ext) (auto simp: thenA_def split: prod.splits sum.splits)

section \<open>The value stack\<close>

text \<open>
  \<open>valueStack.expand\<close>. What the capacity holds beyond the length is nil: \<open>clearStack\<close> sets
  the tail to nil before it shortens the stack, and new backing arrays are zero.
\<close>

definition expand :: "int \<Rightarrow> cell list \<Rightarrow> cell list" where
  "expand idx s = (if idx < int (length s) then s else s @ replicate (nat (idx + 1) - length s) CNil)"

definition stack_at :: "int \<Rightarrow> cell act" where
  "stack_at i s =
     (s, if 0 \<le> i \<and> i < int (length (v_stack s)) then Inr (v_stack s ! nat i) else Inl (PErr GoPanic))"

definition set_stack :: "int \<Rightarrow> cell \<Rightarrow> unit act" where
  "set_stack i c s =
     (if 0 \<le> i \<and> i < int (length (v_stack s))
      then (s\<lparr>v_stack := (v_stack s)[nat i := c]\<rparr>, Inr ())
      else (s, Inl (PErr GoPanic)))"

definition add_sp :: "int \<Rightarrow> unit act" where
  "add_sp d = updA (\<lambda>s. s\<lparr>v_sp := v_sp s + d\<rparr>)"

definition add_pc :: "int \<Rightarrow> unit act" where
  "add_pc d = updA (\<lambda>s. s\<lparr>v_pc := v_pc s + d\<rparr>)"

definition push :: "cell \<Rightarrow> unit act" where
  "push v =
     thenA (updA (\<lambda>s. s\<lparr>v_stack := expand (v_sp s) (v_stack s)\<rparr>)) (\<lambda>_.
     thenA (readA v_sp) (\<lambda>i. thenA (set_stack i v) (\<lambda>_. add_sp 1)))"

definition pop :: "cell act" where
  "pop = thenA (add_sp (-1)) (\<lambda>_. thenA (readA v_sp) stack_at)"

definition peek :: "cell act" where
  "peek = thenA (readA v_sp) (\<lambda>i. stack_at (i - 1))"

definition clearStack :: "unit act" where
  "clearStack s =
     (if 0 \<le> v_sp s \<and> v_sp s \<le> int (length (v_stack s))
      then (s\<lparr>v_stack := take (nat (v_sp s)) (v_stack s)\<rparr>, Inr ()) else (s, Inl (PErr GoPanic)))"

definition nilSafe :: "cell \<Rightarrow> cell" where
  "nilSafe v = (if v = CNil then CVal VUndefined else v)"
section \<open>Contexts\<close>

definition saveCtx :: "vm \<Rightarrow> ctx" where
  "saveCtx s = \<lparr>c_prg = v_prg s, c_stash = v_stash s, c_privEnv = v_privEnv s,
     c_newTarget = v_newTarget s, c_result = v_result s, c_pc = v_pc s, c_sb = v_sb s, c_args = v_args s\<rparr>"

definition restoreCtx :: "ctx \<Rightarrow> vm \<Rightarrow> vm" where
  "restoreCtx c s = s\<lparr>v_prg := c_prg c, v_pc := c_pc c, v_sb := c_sb c, v_args := c_args c,
     v_stash := c_stash c, v_privEnv := c_privEnv c, v_newTarget := c_newTarget c, v_result := c_result c\<rparr>"

text \<open>A call stack that is too deep panics with a \<open>StackOverflowError\<close>, which no frame catches.\<close>

definition pushCtx :: "unit act" where
  "pushCtx s =
     (if int (length (v_callStack s)) > v_maxCallStackSize s then (s, Inl (PErr GoPanic))
      else (s\<lparr>v_callStack := v_callStack s @ [saveCtx s]\<rparr>, Inr ()))"

definition popCtx :: "unit act" where
  "popCtx s =
     (if v_callStack s = [] then (s, Inl (PErr GoPanic))
      else ((restoreCtx (last (v_callStack s)) s)\<lparr>v_callStack := butlast (v_callStack s)\<rparr>, Inr ()))"

section \<open>Try frames\<close>

definition tryPanicMarker :: "32 word" where
  "tryPanicMarker = -2"

text \<open>
  The capacity of the stack of try frames is part of the state, because \<open>handleThrow\<close> holds a
  pointer to a frame while it runs code that may push frames.
\<close>

definition reserveTry :: "venv \<Rightarrow> nat \<Rightarrow> vm \<Rightarrow> vm" where
  "reserveTry E n s =
     (if n \<le> v_tryCap s then s else s\<lparr>v_tryCap := x_grow E n\<rparr>)"

definition pushTryFrame :: "venv \<Rightarrow> 32 word \<Rightarrow> 32 word \<Rightarrow> vm \<Rightarrow> vm" where
  "pushTryFrame E catchPos finallyPos s =
     (reserveTry E (Suc (length (v_tryStack s))) s)\<lparr>v_tryStack := v_tryStack s @
       [\<lparr>t_exception = None, t_callStackLen = of_nat (length (v_callStack s)),
         t_iterLen = of_nat (length (v_iterStack s)), t_refLen = of_nat (length (v_refStack s)),
         t_sp = of_int (v_sp s), t_stash = v_stash s, t_privEnv = v_privEnv s,
         t_catchPos = catchPos, t_finallyPos = finallyPos, t_finallyRet = -1\<rparr>]\<rparr>"

definition popTryFrame :: "unit act" where
  "popTryFrame s =
     (if v_tryStack s = [] then (s, Inl (PErr GoPanic))
      else (s\<lparr>v_tryStack := butlast (v_tryStack s)\<rparr>, Inr ()))"

text \<open>The try frame on top, updated in place.\<close>

definition set_top :: "(tryFrame \<Rightarrow> tryFrame) \<Rightarrow> vm \<Rightarrow> vm" where
  "set_top f s = s\<lparr>v_tryStack := butlast (v_tryStack s) @ [f (last (v_tryStack s))]\<rparr>"

definition exceptionFromValue :: "venv \<Rightarrow> panic \<Rightarrow> jsval option" where
  "exceptionFromValue E p =
     (case p of
        PVal v \<Rightarrow> Some v
      | PErr e \<Rightarrow> if not_js e then None else Some (x_error E e))"

text \<open>
  \<open>returnIter\<close>: the \<open>return\<close> method of an iterator, if it has one, is called and must return
  an object. Its code, like that of a getter, is user code that may change the objects.
\<close>

definition returnIter :: "venv \<Rightarrow> iteratorRecord \<Rightarrow> oheap \<Rightarrow> (oheap, unit) outcome option" where
  "returnIter E it H =
     (case it_iterator it of
        None \<Rightarrow> Some (H, Inr ())
      | Some a \<Rightarrow>
          (case getStr (x_env E) (x_fuel E) H a (u ''return'') None of
             None \<Rightarrow> None
           | Some (H1, Inl e) \<Rightarrow> Some (H1, Inl e)
           | Some (H1, Inr m) \<Rightarrow>
               (case toMethod (x_env E) m of
                  Inl e \<Rightarrow> Some (H1, Inl e)
                | Inr None \<Rightarrow> Some (H1, Inr ())
                | Inr (Some f) \<Rightarrow>
                    (case e_call (x_env E) H1 f (VObject a) [] of
                       (H2, Inl e) \<Rightarrow> Some (H2, Inl e)
                     | (H2, Inr r) \<Rightarrow> Some (H2, if is_object r then Inr () else Inl TypeErr)))))"

text \<open>
  \<open>returnIter\<close> within \<open>vm.try\<close>, which pushes a frame and pops it again: an exception is the
  result. That this is what \<open>vm.try\<close> gives is \<open>vm_try_returnIter\<close> below.
\<close>

definition close_iter :: "venv \<Rightarrow> iteratorRecord \<Rightarrow> jsval option act" where
  "close_iter E it s =
     (case liftH (returnIter E it) (reserveTry E (Suc (length (v_tryStack s))) s) of
        (s', Inr _) \<Rightarrow> (s', Inr None)
      | (s', Inl p) \<Rightarrow> (s', case exceptionFromValue E p of None \<Rightarrow> Inl p | Some v \<Rightarrow> Inr (Some v)))"

definition empty_item :: iterStackItem where
  "empty_item = \<lparr>i_val = CNil, i_f = None, i_iter = None\<rparr>"

text \<open>\<open>restoreStacks\<close>, its loop over the iterators, from the top down to position \<open>base\<close>.\<close>

fun close_iters :: "venv \<Rightarrow> nat \<Rightarrow> nat \<Rightarrow> jsval option \<Rightarrow> jsval option act" where
  "close_iters E base 0 ex s = (s, Inr ex)"
| "close_iters E base (Suc n) ex s =
     thenA (case i_iter (v_iterStack s ! (base + n)) of
              None \<Rightarrow> returnA ex
            | Some it \<Rightarrow> thenA (close_iter E it) (\<lambda>ex1. returnA (if ex1 \<noteq> None \<and> ex = None then ex1 else ex)))
       (\<lambda>ex. thenA (updA (\<lambda>s. s\<lparr>v_iterStack := (v_iterStack s)[base + n := empty_item]\<rparr>))
          (\<lambda>_. close_iters E base n ex)) s"

definition restoreStacks :: "venv \<Rightarrow> 32 word \<Rightarrow> 32 word \<Rightarrow> jsval option act" where
  "restoreStacks E iterLen refLen s =
     (if unat iterLen > length (v_iterStack s) then (s, Inl (PErr GoPanic))
      else thenA (close_iters E (unat iterLen) (length (v_iterStack s) - unat iterLen) None)
        (\<lambda>ex s. let s = s\<lparr>v_iterStack := take (unat iterLen) (v_iterStack s)\<rparr> in
           if unat refLen > length (v_refStack s) then (s, Inl (PErr GoPanic))
           else (s\<lparr>v_refStack := take (unat refLen) (v_refStack s)\<rparr>, Inr ex)) s)"

text \<open>Of the context a try frame was pushed in, \<open>handleThrow\<close> restores all but the scopes.\<close>

definition unwind_calls :: "tryFrame \<Rightarrow> vm \<Rightarrow> vm" where
  "unwind_calls tf s =
     (if unat (t_callStackLen tf) < length (v_callStack s) then
        let c = v_callStack s ! unat (t_callStackLen tf) in
        s\<lparr>v_prg := c_prg c, v_pc := c_pc c, v_sb := c_sb c, v_args := c_args c,
          v_callStack := take (unat (t_callStackLen tf)) (v_callStack s),
          v_newTarget := c_newTarget c, v_result := c_result c\<rparr>
      else s)"

definition unwind_frame :: "tryFrame \<Rightarrow> vm \<Rightarrow> vm" where
  "unwind_frame tf s =
     (unwind_calls tf s)\<lparr>v_sp := sint (t_sp tf), v_stash := t_stash tf, v_privEnv := t_privEnv tf\<rparr>"

definition inert_frame :: "tryFrame \<Rightarrow> jsval option \<Rightarrow> bool" where
  "inert_frame tf ex \<longleftrightarrow>
     t_catchPos tf = -1 \<and> t_finallyPos tf = -1 \<or> ex = None \<and> t_catchPos tf \<noteq> tryPanicMarker"

text \<open>
  The loop of \<open>handleThrow\<close>; a result \<open>None\<close> says that a frame of this machine goes on with
  the exception, else it is the exception, to be passed on. A frame is popped at each turn
  unless its positions are none of those the code ever stores, so fuel for the number of
  frames is enough (\<open>handle_loop_fuel\<close>). The code updates the frame through a pointer it
  took before \<open>restoreStacks\<close>: when the frames were moved to a bigger array meanwhile, it
  updates the old copy.
\<close>

definition update_tf :: "bool \<Rightarrow> (tryFrame \<Rightarrow> tryFrame) \<Rightarrow> vm \<Rightarrow> vm" where
  "update_tf moved f s = (if moved then s else set_top f s)"


fun handle_loop :: "venv \<Rightarrow> nat \<Rightarrow> panic \<Rightarrow> jsval option \<Rightarrow> jsval option act" where
  "handle_loop E 0 arg ex s = (s, Inl (PErr GoPanic))"
| "handle_loop E (Suc n) arg ex s =
     (let done = (s, case ex of None \<Rightarrow> Inl arg | Some v \<Rightarrow> Inr (Some v)) in
      if v_tryStack s = [] then done
      else
        let tf = last (v_tryStack s) in
        if inert_frame tf ex then
          handle_loop E n arg ex (s\<lparr>v_tryStack := butlast (v_tryStack s)\<rparr>)
        else
          (case restoreStacks E (t_iterLen tf) (t_refLen tf) (unwind_frame tf s) of
             (s1, Inl p) \<Rightarrow> (s1, Inl p)
           | (s1, Inr _) \<Rightarrow>
               let moved = v_tryCap s1 \<noteq> v_tryCap s; s = s1 in
               if t_catchPos tf = tryPanicMarker then
                 (s, case ex of None \<Rightarrow> Inl arg | Some v \<Rightarrow> Inr (Some v))
               else if 0 \<le> sint (t_catchPos tf) then
                 thenA (push (case ex of Some v \<Rightarrow> CVal v | None \<Rightarrow> CNil)) (\<lambda>_ s.
                   (update_tf moved (\<lambda>tf. tf\<lparr>t_catchPos := -1\<rparr>) (s\<lparr>v_pc := sint (t_catchPos tf)\<rparr>), Inr None)) s
               else if 0 \<le> sint (t_finallyPos tf) then
                 (update_tf moved (\<lambda>tf. tf\<lparr>t_exception := ex, t_finallyPos := -1, t_finallyRet := -1\<rparr>)
                    (s\<lparr>v_pc := sint (t_finallyPos tf)\<rparr>), Inr None)
               else handle_loop E n arg ex s))"

definition handleThrow :: "venv \<Rightarrow> panic \<Rightarrow> jsval option act" where
  "handleThrow E arg s = handle_loop E (Suc (length (v_tryStack s))) arg (exceptionFromValue E arg) s"

text \<open>\<open>throw\<close>, used by the instructions themselves.\<close>

definition vm_throw :: "venv \<Rightarrow> panic \<Rightarrow> unit act" where
  "vm_throw E arg =
     thenA (handleThrow E arg) (\<lambda>ex. case ex of None \<Rightarrow> returnA () | Some v \<Rightarrow> raise (PVal v))"

text \<open>\<open>vm.try\<close>: the deferred calls recover a panic of \<open>f\<close> and pop the frame in any case.\<close>

definition vm_try :: "venv \<Rightarrow> unit act \<Rightarrow> jsval option act" where
  "vm_try E f s =
     (let (s, r) = (case f (pushTryFrame E tryPanicMarker (-1) s) of
            (s, Inr _) \<Rightarrow> (s, Inr None)
          | (s, Inl p) \<Rightarrow> handleThrow E p s)
      in thenA popTryFrame (\<lambda>_ s. (s, r)) s)"
section \<open>Suspending and resuming a frame\<close>

record execCtx =
  e_ctx :: ctx
  e_stack :: "cell list"
  e_tryStack :: "tryFrame list"
  e_iterStack :: "iterStackItem list"
  e_refStack :: "ref list"

text \<open>The fields of a try frame made relative to the bottom of its function's frame.\<close>

definition rel_frame :: "int \<Rightarrow> 32 word \<Rightarrow> 32 word \<Rightarrow> tryFrame \<Rightarrow> tryFrame" where
  "rel_frame bottom iters refs tf =
     tf\<lparr>t_iterLen := t_iterLen tf - iters, t_refLen := t_refLen tf - refs, t_sp := t_sp tf - of_int bottom\<rparr>"

definition abs_frame :: "nat \<Rightarrow> int \<Rightarrow> nat \<Rightarrow> nat \<Rightarrow> tryFrame \<Rightarrow> tryFrame" where
  "abs_frame calls bottom iters refs tf =
     tf\<lparr>t_callStackLen := of_nat calls, t_iterLen := t_iterLen tf + of_nat iters,
        t_refLen := t_refLen tf + of_nat refs, t_sp := t_sp tf + of_int bottom\<rparr>"

definition suspend :: "execCtx \<Rightarrow> 32 word \<Rightarrow> 32 word \<Rightarrow> 32 word \<Rightarrow> execCtx act" where
  "suspend ectx tryLen iterLen refLen s =
     (let ectx = ectx\<lparr>e_ctx := saveCtx s\<rparr> in
      if v_sb s < 1 \<or> v_sp s < v_sb s - 1 \<or> int (length (v_stack s)) < v_sp s then (s, Inl (PErr GoPanic))
      else
        let ectx = ectx\<lparr>e_stack := drop (nat (v_sb s - 1)) (take (nat (v_sp s)) (v_stack s))\<rparr>;
            t = unat tryLen; i = unat iterLen; r = unat refLen;
            ectx = (if length (v_tryStack s) > t
              then ectx\<lparr>e_tryStack := map (rel_frame (v_sb s - 1) iterLen refLen) (drop t (v_tryStack s))\<rparr>
              else ectx);
            ectx = (if length (v_iterStack s) > i then ectx\<lparr>e_iterStack := drop i (v_iterStack s)\<rparr> else ectx);
            ectx = (if length (v_refStack s) > r then ectx\<lparr>e_refStack := drop r (v_refStack s)\<rparr> else ectx)
        in (s\<lparr>v_iterStack := take i (v_iterStack s), v_refStack := take r (v_refStack s),
              v_tryStack := take t (v_tryStack s)\<rparr>, Inr ectx))"

definition resume :: "venv \<Rightarrow> execCtx \<Rightarrow> unit act" where
  "resume E ectx s =
     (let s = restoreCtx (e_ctx ectx) s; sp = v_sp s; n = length (e_stack ectx);
          st = expand (sp + int n) (v_stack s) in
      if sp < 0 \<or> int (length st) < sp then (s, Inl (PErr GoPanic))
      else
        let tfs = map (abs_frame (length (v_callStack s)) sp (length (v_iterStack s)) (length (v_refStack s)))
              (e_tryStack ectx) in
        ((reserveTry E (length (v_tryStack s @ tfs)) s)
           \<lparr>v_stack := take (nat sp) st @ e_stack ectx @ drop (nat sp + n) st,
            v_sp := sp + int n, v_sb := sp + 1,
            v_iterStack := v_iterStack s @ e_iterStack ectx,
            v_refStack := v_refStack s @ e_refStack ectx,
            v_tryStack := v_tryStack s @ tfs\<rparr>, Inr ()))"

text \<open>
  What a function sees of the machine: its part of the stacks, with the heights its try frames
  hold taken relative to the bottom of the frame, and its context.
\<close>

record view =
  w_ctx :: ctx
  w_stack :: "cell list"
  w_tries :: "tryFrame list"
  w_iters :: "iterStackItem list"
  w_refs :: "ref list"

definition frame_view :: "nat \<Rightarrow> nat \<Rightarrow> nat \<Rightarrow> vm \<Rightarrow> view" where
  "frame_view t i r s =
     \<lparr>w_ctx = (saveCtx s)\<lparr>c_sb := 0\<rparr>,
      w_stack = drop (nat (v_sb s - 1)) (take (nat (v_sp s)) (v_stack s)),
      w_tries = map (\<lambda>tf. (rel_frame (v_sb s - 1) (of_nat i) (of_nat r) tf)\<lparr>t_callStackLen := 0\<rparr>)
        (drop t (v_tryStack s)),
      w_iters = drop i (v_iterStack s), w_refs = drop r (v_refStack s)\<rparr>"

definition empty_execCtx :: execCtx where
  "empty_execCtx = \<lparr>e_ctx = \<lparr>c_prg = None, c_stash = None, c_privEnv = None, c_newTarget = CNil,
     c_result = CNil, c_pc = 0, c_sb = 0, c_args = 0\<rparr>, e_stack = [], e_tryStack = [],
     e_iterStack = [], e_refStack = []\<rparr>"

lemma saveCtx_restoreCtx: "saveCtx (restoreCtx c s) = c"
  by (simp add: saveCtx_def restoreCtx_def)

lemma reserveTry_simps [simp]:
  "v_heap (reserveTry E n s) = v_heap s" "v_stashes (reserveTry E n s) = v_stashes s"
  "v_prg (reserveTry E n s) = v_prg s" "v_pc (reserveTry E n s) = v_pc s"
  "v_stack (reserveTry E n s) = v_stack s" "v_sp (reserveTry E n s) = v_sp s"
  "v_sb (reserveTry E n s) = v_sb s" "v_args (reserveTry E n s) = v_args s"
  "v_stash (reserveTry E n s) = v_stash s" "v_privEnv (reserveTry E n s) = v_privEnv s"
  "v_callStack (reserveTry E n s) = v_callStack s" "v_iterStack (reserveTry E n s) = v_iterStack s"
  "v_refStack (reserveTry E n s) = v_refStack s" "v_tryStack (reserveTry E n s) = v_tryStack s"
  "v_newTarget (reserveTry E n s) = v_newTarget s" "v_result (reserveTry E n s) = v_result s"
  by (simp_all add: reserveTry_def)

lemma suspend_eq:
  assumes "1 \<le> v_sb s" "v_sb s - 1 \<le> v_sp s" "v_sp s \<le> int (length (v_stack s))"
  shows "suspend empty_execCtx t i r s =
    (s\<lparr>v_iterStack := take (unat i) (v_iterStack s), v_refStack := take (unat r) (v_refStack s),
       v_tryStack := take (unat t) (v_tryStack s)\<rparr>,
     Inr \<lparr>e_ctx = saveCtx s, e_stack = drop (nat (v_sb s - 1)) (take (nat (v_sp s)) (v_stack s)),
       e_tryStack = map (rel_frame (v_sb s - 1) i r) (drop (unat t) (v_tryStack s)),
       e_iterStack = drop (unat i) (v_iterStack s), e_refStack = drop (unat r) (v_refStack s)\<rparr>)"
  using assms by (auto simp: suspend_def empty_execCtx_def Let_def)

lemma rel_abs_frame:
  "rel_frame b (of_nat i) (of_nat r) (abs_frame c b i r tf) = tf\<lparr>t_callStackLen := of_nat c\<rparr>"
  by (simp add: rel_frame_def abs_frame_def)

lemma expand_long: "idx < int (length (expand idx s))" if "0 \<le> idx"
  using that by (simp add: expand_def)

lemma expand_take: "i \<le> length s \<Longrightarrow> take i (expand idx s) = take i s"
  by (simp add: expand_def)

text \<open>
  C17. A frame taken off the machine by \<open>suspend\<close> and put back by \<open>resume\<close> on a machine in any
  other state, its stacks of any height, is unchanged: the function sees the same values, open
  iterators, references, try frames and context; what lies below is that of the machine it is
  resumed on, and \<open>suspend\<close> leaves just what was below.
\<close>

theorem suspend_resume_roundtrip:
  assumes frame: "1 \<le> v_sb s" "v_sb s - 1 \<le> v_sp s" "v_sp s \<le> int (length (v_stack s))"
    and below: "0 \<le> v_sp m" "v_sp m \<le> int (length (v_stack m))"
  shows "\<exists>s' e m'. suspend empty_execCtx t i r s = (s', Inr e) \<and> resume E e m = (m', Inr ())
    \<and> frame_view (length (v_tryStack m)) (length (v_iterStack m)) (length (v_refStack m)) m'
      = frame_view (unat t) (unat i) (unat r) s
    \<and> v_sb m' = v_sp m + 1
    \<and> take (nat (v_sp m)) (v_stack m') = take (nat (v_sp m)) (v_stack m)
    \<and> take (length (v_tryStack m)) (v_tryStack m') = v_tryStack m
    \<and> take (length (v_iterStack m)) (v_iterStack m') = v_iterStack m
    \<and> take (length (v_refStack m)) (v_refStack m') = v_refStack m
    \<and> (\<forall>tf \<in> set (drop (length (v_tryStack m)) (v_tryStack m')).
         t_callStackLen tf = of_nat (length (v_callStack m)))
    \<and> v_tryStack s' = take (unat t) (v_tryStack s) \<and> v_iterStack s' = take (unat i) (v_iterStack s)
    \<and> v_refStack s' = take (unat r) (v_refStack s)"
proof -
  define part where "part = drop (nat (v_sb s - 1)) (take (nat (v_sp s)) (v_stack s))"
  define st where "st = expand (v_sp m + int (length part)) (v_stack m)"
  have long: "nat (v_sp m) \<le> length st"
    using expand_long [of "v_sp m + int (length part)" "v_stack m"] below by (simp add: st_def)
  have tk: "take (nat (v_sp m)) st = take (nat (v_sp m)) (v_stack m)"
    using below by (simp add: st_def expand_take)
  have len: "length (take (nat (v_sp m)) (v_stack m)) = nat (v_sp m)"
    using below by simp
  have sum: "nat (v_sp m + int n) = nat (v_sp m) + n" for n
    using below by simp
  have le: "nat (v_sp m) \<le> length (v_stack m)"
    using below by simp
  have ifs: "\<not> (v_sp m < 0 \<or> int (length st) < v_sp m)"
    using long below by simp
  show ?thesis
    unfolding suspend_eq [OF frame] part_def [symmetric]
    apply (simp add: resume_def restoreCtx_def Let_def st_def [symmetric] ifs tk)
    apply (simp add: frame_view_def saveCtx_def part_def [symmetric] len sum below
        rel_abs_frame o_def abs_frame_def)
    apply (simp add: rel_frame_def le min_absorb2)
    done
qed

section \<open>Unwinding\<close>

text \<open>
  The \<open>return\<close> methods of the iterators, called in turn, end: none makes Go itself panic, and
  the prototype chains they are looked up on have no cycle. They may throw.
\<close>

fun all_close :: "venv \<Rightarrow> iteratorRecord list \<Rightarrow> oheap \<Rightarrow> bool" where
  "all_close E [] H = True"
| "all_close E (it # its) H =
     (case returnIter E it H of
        None \<Rightarrow> False
      | Some (H', Inl e) \<Rightarrow> \<not> not_js e \<and> all_close E its H'
      | Some (H', Inr _) \<Rightarrow> all_close E its H')"

text \<open>The open iterators of the stack, the last one first.\<close>

definition open_iters :: "iterStackItem list \<Rightarrow> iteratorRecord list" where
  "open_iters items = List.map_filter i_iter (rev items)"

lemma open_iters_snoc:
  "open_iters (items @ [x]) = (case i_iter x of None \<Rightarrow> open_iters items | Some it \<Rightarrow> it # open_iters items)"
  by (simp add: open_iters_def List.map_filter_simps split: option.splits)

text \<open>What closing the iterators above a height may change.\<close>

definition closing :: "nat \<Rightarrow> vm \<Rightarrow> vm \<Rightarrow> bool" where
  "closing base s s' \<longleftrightarrow>
     (\<exists>H I c. s' = s\<lparr>v_heap := H, v_iterStack := I, v_tryCap := c\<rparr>
        \<and> length I = length (v_iterStack s) \<and> take base I = take base (v_iterStack s)
        \<and> (length (v_tryStack s) < v_tryCap s \<longrightarrow> c = v_tryCap s))"

lemma closing_refl: "closing base s s"
  unfolding closing_def
  by (rule exI [of _ "v_heap s"], rule exI [of _ "v_iterStack s"], rule exI [of _ "v_tryCap s"]) simp

lemma closing_trans: "closing base s s' \<Longrightarrow> closing base s' s'' \<Longrightarrow> closing base s s''"
proof -
  assume "closing base s s'" "closing base s' s''"
  then obtain H I c H' I' c' where
    1: "s' = s\<lparr>v_heap := H, v_iterStack := I, v_tryCap := c\<rparr>" "length I = length (v_iterStack s)"
      "take base I = take base (v_iterStack s)" "length (v_tryStack s) < v_tryCap s \<longrightarrow> c = v_tryCap s"
    and 2: "s'' = s'\<lparr>v_heap := H', v_iterStack := I', v_tryCap := c'\<rparr>" "length I' = length (v_iterStack s')"
      "take base I' = take base (v_iterStack s')" "length (v_tryStack s') < v_tryCap s' \<longrightarrow> c' = v_tryCap s'"
    unfolding closing_def by blast
  show ?thesis
    unfolding closing_def
    by (rule exI [of _ H'], rule exI [of _ I'], rule exI [of _ c']) (use 1 2 in simp)
qed

lemma close_iter_ok:
  assumes "all_close E (it # its) (v_heap s)"
  shows "\<exists>s' r. close_iter E it s = (s', Inr r) \<and> closing base s s' \<and> all_close E its (v_heap s')
    \<and> v_iterStack s' = v_iterStack s"
proof -
  let ?s = "reserveTry E (Suc (length (v_tryStack s))) s"
  obtain H r where r: "returnIter E it (v_heap s) = Some (H, r)"
    and e: "\<forall>e. r = Inl e \<longrightarrow> \<not> not_js e" and H: "all_close E its H"
    using assms by (auto split: option.splits sum.splits)
  have *: "closing base s (?s\<lparr>v_heap := H\<rparr>)"
    unfolding closing_def
    by (rule exI [of _ H], rule exI [of _ "v_iterStack s"], rule exI [of _ "v_tryCap ?s"])
      (simp add: reserveTry_def)
  show ?thesis
    using r e * H by (cases r) (auto simp: close_iter_def liftH_def exceptionFromValue_def)
qed

lemma close_iters_ok:
  assumes "base + n \<le> length (v_iterStack s)"
    and "all_close E (open_iters (drop base (take (base + n) (v_iterStack s)))) (v_heap s)"
  shows "\<exists>s' r. close_iters E base n ex s = (s', Inr r) \<and> closing base s s'"
  using assms
proof (induction n arbitrary: ex s)
  case 0
  then show ?case by (simp add: closing_refl)
next
  case (Suc n)
  let ?x = "v_iterStack s ! (base + n)" and ?rest = "open_iters (drop base (take (base + n) (v_iterStack s)))"
  have "drop base (take (base + Suc n) (v_iterStack s)) = drop base (take (base + n) (v_iterStack s)) @ [?x]"
    using Suc.prems(1) by (simp add: take_Suc_conv_app_nth)
  then have all: "all_close E (case i_iter ?x of None \<Rightarrow> ?rest | Some it \<Rightarrow> it # ?rest) (v_heap s)"
    using Suc.prems(2) by (simp add: open_iters_snoc)
  define m where "m = (case i_iter ?x of None \<Rightarrow> returnA ex
      | Some it \<Rightarrow> thenA (close_iter E it) (\<lambda>ex1. returnA (if ex1 \<noteq> None \<and> ex = None then ex1 else ex)))"
  obtain s1 ex1 where first: "m s = (s1, Inr ex1)" and c1: "closing base s s1"
    and s1: "all_close E ?rest (v_heap s1)" "v_iterStack s1 = v_iterStack s"
  proof (cases "i_iter ?x")
    case None
    then show ?thesis using that [of s ex] closing_refl all by (simp add: m_def)
  next
    case (Some it)
    then obtain s' r where "close_iter E it s = (s', Inr r)" "closing base s s'"
        "all_close E ?rest (v_heap s')" "v_iterStack s' = v_iterStack s"
      using close_iter_ok [of E it ?rest s base] all by auto
    then show ?thesis
      using that [of s'] Some by (simp add: thenA_def m_def)
  qed
  let ?s2 = "s1\<lparr>v_iterStack := (v_iterStack s1)[base + n := empty_item]\<rparr>"
  have c2: "closing base s1 ?s2"
    unfolding closing_def
    by (rule exI [of _ "v_heap s1"], rule exI [of _ "v_iterStack ?s2"], rule exI [of _ "v_tryCap s1"]) simp
  obtain s3 r where "close_iters E base n ex1 ?s2 = (s3, Inr r)" "closing base ?s2 s3"
    using Suc.IH [of ?s2 ex1] Suc.prems(1) s1 by auto
  then show ?case
    using closing_trans [OF closing_trans [OF c1 c2]]
    by (auto simp: m_def [symmetric] thenA_eq(1) [where m = m, OF first])
qed

lemma restoreStacks_ok:
  assumes "unat iterLen \<le> length (v_iterStack s)" "unat refLen \<le> length (v_refStack s)"
    and "all_close E (open_iters (drop (unat iterLen) (v_iterStack s))) (v_heap s)"
  shows "\<exists>H c ex. restoreStacks E iterLen refLen s =
      (s\<lparr>v_heap := H, v_iterStack := take (unat iterLen) (v_iterStack s),
         v_refStack := take (unat refLen) (v_refStack s), v_tryCap := c\<rparr>, Inr ex)
    \<and> (length (v_tryStack s) < v_tryCap s \<longrightarrow> c = v_tryCap s)"
proof -
  obtain s1 r where 1: "close_iters E (unat iterLen) (length (v_iterStack s) - unat iterLen) None s = (s1, Inr r)"
    and c: "closing (unat iterLen) s s1"
    using close_iters_ok [of "unat iterLen" "length (v_iterStack s) - unat iterLen" s E None] assms by auto
  from c obtain H I c where s1: "s1 = s\<lparr>v_heap := H, v_iterStack := I, v_tryCap := c\<rparr>"
      "take (unat iterLen) I = take (unat iterLen) (v_iterStack s)"
      "length (v_tryStack s) < v_tryCap s \<longrightarrow> c = v_tryCap s"
    unfolding closing_def by blast
  show ?thesis
    by (rule exI [of _ H], rule exI [of _ c], rule exI [of _ r])
      (use assms(1,2) s1 in \<open>simp add: restoreStacks_def thenA_def 1 Let_def\<close>)
qed

lemma handle_loop_skip:
  assumes "\<forall>d \<in> set dead. inert_frame d ex"
  shows "handle_loop E (length dead + n) arg ex (s\<lparr>v_tryStack := below @ dead\<rparr>)
    = handle_loop E n arg ex (s\<lparr>v_tryStack := below\<rparr>)"
  using assms
proof (induction dead rule: rev_induct)
  case (snoc d ds)
  have "handle_loop E (length (ds @ [d]) + n) arg ex (s\<lparr>v_tryStack := below @ ds @ [d]\<rparr>)
      = handle_loop E (length ds + n) arg ex (s\<lparr>v_tryStack := below @ ds\<rparr>)"
    using snoc.prems by (simp add: Let_def butlast_append flip: append_assoc)
  then show ?case using snoc by simp
qed simp

lemma push_eq:
  assumes "0 \<le> v_sp s"
  shows "push c s = (s\<lparr>v_stack := (expand (v_sp s) (v_stack s))[nat (v_sp s) := c], v_sp := v_sp s + 1\<rparr>, Inr ())"
  using assms expand_long [OF assms, of "v_stack s"]
  by (simp add: push_def thenA_def set_stack_def add_sp_def)

lemma unwind_frame_simps [simp]:
  "v_iterStack (unwind_frame tf s) = v_iterStack s" "v_refStack (unwind_frame tf s) = v_refStack s"
  "v_heap (unwind_frame tf s) = v_heap s" "v_tryStack (unwind_frame tf s) = v_tryStack s" "v_tryCap (unwind_frame tf s) = v_tryCap s"
  "v_stack (unwind_frame tf s) = v_stack s" "v_sp (unwind_frame tf s) = sint (t_sp tf)"
  "v_stash (unwind_frame tf s) = t_stash tf" "v_privEnv (unwind_frame tf s) = t_privEnv tf"
  "v_callStack (unwind_frame tf s) = take (unat (t_callStackLen tf)) (v_callStack s)"
  by (simp_all add: unwind_frame_def unwind_calls_def Let_def)

lemma marker_simps [simp]:
  "sint tryPanicMarker = -2" "tryPanicMarker \<noteq> -1" "(-1 :: 32 word) \<noteq> tryPanicMarker"
  by (simp_all add: tryPanicMarker_def)


lemma handleThrow_marker:
  assumes "v_tryStack s = below @ [tf]" "t_catchPos tf = tryPanicMarker"
    and "unat (t_iterLen tf) = length (v_iterStack s)" "unat (t_refLen tf) = length (v_refStack s)"
  shows "handleThrow E p s =
    (unwind_frame tf s, case exceptionFromValue E p of None \<Rightarrow> Inl p | Some v \<Rightarrow> Inr (Some v))"
proof -
  have r: "restoreStacks E (t_iterLen tf) (t_refLen tf) (unwind_frame tf s) = (unwind_frame tf s, Inr None)"
    using assms(3,4) by (simp add: restoreStacks_def thenA_def Let_def)
  show ?thesis
    using assms(1,2) by (simp add: handleThrow_def r inert_frame_def Let_def)
qed

text \<open>\<open>vm.try(iter.returnIter)\<close>, which \<open>restoreStacks\<close> runs, is \<open>close_iter\<close>.\<close>

lemma vm_try_returnIter:
  assumes "length (v_callStack s) < 2 ^ 32" "length (v_iterStack s) < 2 ^ 32"
    "length (v_refStack s) < 2 ^ 32" "- (2 ^ 31) \<le> v_sp s" "v_sp s < 2 ^ 31"
  shows "vm_try E (thenA (liftH (returnIter E it)) (\<lambda>_. returnA ())) s = close_iter E it s"
proof -
  let ?n = "Suc (length (v_tryStack s))" and ?p = "pushTryFrame E tryPanicMarker (-1) s"
  define tf where "tf = last (v_tryStack ?p)"
  have p: "v_tryStack ?p = v_tryStack s @ [tf]"
    by (simp add: pushTryFrame_def tf_def)
  have len: "unat (t_iterLen tf) = length (v_iterStack s)" "unat (t_refLen tf) = length (v_refStack s)"
      "unat (t_callStackLen tf) = length (v_callStack s)" "t_catchPos tf = tryPanicMarker"
      "t_stash tf = v_stash s" "t_privEnv tf = v_privEnv s"
    using assms by (simp_all add: tf_def pushTryFrame_def unat_of_nat take_bit_nat_eq_self)
  have sp: "sint (t_sp tf) = v_sp s"
    using assms by (simp add: tf_def pushTryFrame_def sint_sbintrunc' signed_take_bit_int_eq_self)
  have same: "unwind_frame tf t = t" if "v_callStack t = v_callStack s" "v_sp t = v_sp s"
      "v_stash t = v_stash s" "v_privEnv t = v_privEnv s" for t
    using that len sp by (simp add: unwind_frame_def unwind_calls_def)
  have eq: "?p = (reserveTry E ?n s)\<lparr>v_tryStack := v_tryStack s @ [tf]\<rparr>"
    using p by (simp add: pushTryFrame_def)
  show ?thesis
  proof (cases "returnIter E it (v_heap s)")
    case None
    have "handleThrow E (PErr GoPanic) ?p = (?p, Inl (PErr GoPanic))"
      using handleThrow_marker [OF p len(4), of E "PErr GoPanic"] len same [of ?p]
      by (simp add: eq exceptionFromValue_def)
    then show ?thesis
      using None by (simp add: vm_try_def thenA_def liftH_def close_iter_def popTryFrame_def
          exceptionFromValue_def eq Let_def)
  next
    case (Some hr)
    obtain H r where hr: "hr = (H, r)" by (cases hr)
    let ?t = "?p\<lparr>v_heap := H\<rparr>"
    have t: "v_tryStack ?t = v_tryStack s @ [tf]" "unwind_frame tf ?t = ?t"
      using p same [of ?t] by (simp_all add: eq)
    have "handleThrow E (PErr e) ?t =
        (?t, case exceptionFromValue E (PErr e) of None \<Rightarrow> Inl (PErr e) | Some v \<Rightarrow> Inr (Some v))" for e
      using handleThrow_marker [OF t(1) len(4), of E "PErr e"] len t(2) by (simp add: eq)
    then show ?thesis
      using Some hr by (cases r) (auto simp: vm_try_def thenA_def liftH_def close_iter_def
          popTryFrame_def eq Let_def split: option.splits)
  qed
qed

section \<open>Concrete machines\<close>

definition venv0 :: venv where
  "venv0 = \<lparr>x_env = env0, x_fuel = 8, x_error = \<lambda>_. VNull, x_global = 0, x_unscopables = 0, x_proto = \<lambda>_. 0,
     x_fresh = \<lambda>_. 1, x_string = \<lambda>_ H. (H, 2), x_symdesc = \<lambda>_. None, x_grow = \<lambda>n. 2 * n\<rparr>"

definition vm0 :: vm where
  "vm0 = \<lparr>v_heap = Map.empty, v_stashes = [], v_prg = None, v_pc = 0, v_stack = [], v_sp = 0, v_sb = 0,
     v_args = 0, v_stash = None, v_privEnv = None, v_callStack = [], v_iterStack = [], v_refStack = [],
     v_tryStack = [], v_tryCap = 0, v_newTarget = CNil, v_result = CNil, v_maxCallStackSize = 100\<rparr>"

text \<open>
  A script within a \<open>try\<close> statement, whose catch and finally blocks are at 10 and 20; on top of
  it the frame that stays behind while a catch block of an inner statement runs. An iterator has
  been opened since, as by an array pattern whose first target throws before the first step.
\<close>

definition try_vm :: "32 word \<Rightarrow> 32 word \<Rightarrow> nat \<Rightarrow> vm" where
  "try_vm catchPos finallyPos cap =
     (let s = pushTryFrame venv0 tryPanicMarker (-1) (vm0\<lparr>v_stack := [CVal (VInt 5), CVal (VInt 6)]\<rparr>);
          s = pushTryFrame venv0 catchPos finallyPos (s\<lparr>v_sp := 1\<rparr>)
      in s\<lparr>v_sp := 2, v_tryCap := cap,
           v_iterStack := [\<lparr>i_val = CNil, i_f = None, i_iter = Some \<lparr>it_iterator = None, it_next = None\<rparr>\<rparr>]\<rparr>)"

lemma try_vm_simps [simp]:
  "v_sb (try_vm c f k) = 0" "v_sp (try_vm c f k) = 2" "v_tryCap (try_vm c f k) = k"
  "v_stack (try_vm c f k) = [CVal (VInt 5), CVal (VInt 6)]" "v_refStack (try_vm c f k) = []"
  "v_iterStack (try_vm c f k) =
     [\<lparr>i_val = CNil, i_f = None, i_iter = Some \<lparr>it_iterator = None, it_next = None\<rparr>\<rparr>]"
  "v_tryStack (try_vm c f k) =
     [\<lparr>t_exception = None, t_callStackLen = 0, t_iterLen = 0, t_refLen = 0, t_sp = 0, t_stash = None,
       t_privEnv = None, t_catchPos = tryPanicMarker, t_finallyPos = -1, t_finallyRet = -1\<rparr>,
      \<lparr>t_exception = None, t_callStackLen = 0, t_iterLen = 0, t_refLen = 0, t_sp = 1, t_stash = None,
       t_privEnv = None, t_catchPos = c, t_finallyPos = f, t_finallyRet = -1\<rparr>]"
  by (simp_all add: try_vm_def vm0_def pushTryFrame_def Let_def)

lemma vm0_simps [simp]:
  "v_sp vm0 = 0" "v_stack vm0 = []" "v_tryStack vm0 = []" "v_iterStack vm0 = []" "v_refStack vm0 = []"
  by (simp_all add: vm0_def)

lemma suspend_resume_roundtrip_witness:
  "\<exists>s' e m'. suspend empty_execCtx 1 0 0 ((try_vm 10 20 4)\<lparr>v_sb := 1\<rparr>) = (s', Inr e)
     \<and> resume venv0 e vm0 = (m', Inr ())
     \<and> frame_view 0 0 0 m' = frame_view 1 0 0 ((try_vm 10 20 4)\<lparr>v_sb := 1\<rparr>)"
proof -
  let ?s = "(try_vm 10 20 4)\<lparr>v_sb := 1\<rparr>"
  have "1 \<le> v_sb ?s" "v_sb ?s - 1 \<le> v_sp ?s" "v_sp ?s \<le> int (length (v_stack ?s))"
      "0 \<le> v_sp vm0" "v_sp vm0 \<le> int (length (v_stack vm0))"
    by simp_all
  from suspend_resume_roundtrip [OF this, of 1 0 0 venv0]
  show ?thesis by auto
qed


text \<open>
  Where the stack of try frames is full when the exception is thrown, closing the iterator moves
  the frames to a bigger array and \<open>handleThrow\<close> updates the old one. The catch block then keeps
  its handler and is entered again when it throws; a finally block loses the exception.
\<close>

lemma catch_entered_twice:
  "let (s1, r1) = handleThrow venv0 (PVal (VInt 1)) (try_vm 10 (-1) 2);
       (s2, r2) = handleThrow venv0 (PVal (VInt 2)) s1
   in r1 = Inr None \<and> v_pc s1 = 10 \<and> r2 = Inr None \<and> v_pc s2 = 10"
  by code_simp

lemma catch_entered_once:
  "let (s1, r1) = handleThrow venv0 (PVal (VInt 1)) (try_vm 10 (-1) 4);
       (s2, r2) = handleThrow venv0 (PVal (VInt 2)) s1
   in r1 = Inr None \<and> v_pc s1 = 10 \<and> r2 = Inr (Some (VInt 2))"
  by code_simp

lemma finally_loses_exception:
  "let (s, r) = handleThrow venv0 (PVal (VInt 1)) (try_vm (-1) 20 2)
   in r = Inr None \<and> v_pc s = 20 \<and> t_exception (last (v_tryStack s)) = None"
  by code_simp

end
