(* ===== verification/Scopes.thy ===== *)
theory Scopes
  imports Vm "HOL-Library.AList"
begin

unbundle bit_operations_syntax

text \<open>
  Scopes (\<open>stash\<close> of \<open>vm.go\<close>) and the references to their bindings. A scope keeps its
  bindings in a list of cells; a scope whose names can be looked up at run time also has a map
  from names to indices, whose upper bits say what kind of binding it is. The scope of a
  \<open>with\<close> statement has an object instead. Scopes live in a list of the machine, a scope's
  address being its position, and are linked by \<open>s_outer\<close>.
\<close>

section \<open>Bindings of one scope\<close>

definition maskConst :: "32 word" where "maskConst = push_bit 31 1"
definition maskVar :: "32 word" where "maskVar = push_bit 30 1"
definition maskDeletable :: "32 word" where "maskDeletable = push_bit 29 1"
definition maskStrict :: "32 word" where "maskStrict = maskDeletable"
definition maskTyp :: "32 word" where "maskTyp = maskConst OR maskVar OR maskDeletable"

text \<open>\<open>idx &^ maskTyp\<close>\<close>

definition slot_of :: "32 word \<Rightarrow> nat" where
  "slot_of idx = unat (idx AND NOT maskTyp)"

definition is_var :: "32 word \<Rightarrow> bool" where "is_var idx \<longleftrightarrow> idx AND maskVar \<noteq> 0"
definition is_const :: "32 word \<Rightarrow> bool" where "is_const idx \<longleftrightarrow> idx AND maskConst \<noteq> 0"
definition is_strict :: "32 word \<Rightarrow> bool" where "is_strict idx \<longleftrightarrow> idx AND maskStrict \<noteq> 0"

definition stash_at :: "nat \<Rightarrow> stash act" where
  "stash_at a s = (s, if a < length (v_stashes s) then Inr (v_stashes s ! a) else Inl (PErr GoPanic))"

definition set_stash :: "nat \<Rightarrow> stash \<Rightarrow> unit act" where
  "set_stash a st = updA (\<lambda>s. s\<lparr>v_stashes := (v_stashes s)[a := st]\<rparr>)"

text \<open>\<open>values[i]\<close>, read and written.\<close>

definition cell_at :: "int \<Rightarrow> cell list \<Rightarrow> cell act" where
  "cell_at i cs = (if 0 \<le> i \<and> i < int (length cs) then returnA (cs ! nat i) else crash)"

definition set_cell :: "nat \<Rightarrow> int \<Rightarrow> cell \<Rightarrow> unit act" where
  "set_cell a i v =
     thenA (stash_at a) (\<lambda>st.
       if 0 \<le> i \<and> i < int (length (s_values st)) then set_stash a (st\<lparr>s_values := (s_values st)[nat i := v]\<rparr>)
       else crash)"

definition liftB :: "(oheap \<Rightarrow> (go_error + 'a) option) \<Rightarrow> 'a act" where
  "liftB f = liftH (\<lambda>H. map_option (Pair H) (f H))"

definition optval :: "jsval option \<Rightarrow> cell" where
  "optval v = (case v of None \<Rightarrow> CNil | Some v \<Rightarrow> CVal v)"

text \<open>\<open>stashObjHas\<close>: the names of an object's \<open>Symbol.unscopables\<close> are not in scope.\<close>

definition stashObjHas :: "venv \<Rightarrow> nat \<Rightarrow> ustr \<Rightarrow> bool act" where
  "stashObjHas E obj name =
     thenA (liftB (\<lambda>H. hasPropertyStr (x_fuel E) H obj name)) (\<lambda>has.
       if \<not> has then returnA False
       else thenA (liftH (\<lambda>H. getSym (x_env E) (x_fuel E) H obj (VSymbol (x_unscopables E)) None)) (\<lambda>un.
         case un of
           Some (VObject unscopables) \<Rightarrow>
             thenA (liftH (\<lambda>H. getStr (x_env E) (x_fuel E) H unscopables name None)) (\<lambda>b.
               case b of Some b \<Rightarrow> returnA (\<not> ToBoolean b) | None \<Rightarrow> returnA True)
         | _ \<Rightarrow> returnA True))"

definition isVariable :: "stash \<Rightarrow> bool" where
  "isVariable st \<longleftrightarrow> s_funcType st \<noteq> funcNone"

definition initByIdx :: "nat \<Rightarrow> int \<Rightarrow> cell \<Rightarrow> unit act" where
  "initByIdx a idx v = thenA (stash_at a) (\<lambda>st. if s_obj st \<noteq> None then crash else set_cell a idx v)"

definition initByName :: "nat \<Rightarrow> ustr \<Rightarrow> cell \<Rightarrow> unit act" where
  "initByName a name v =
     thenA (stash_at a) (\<lambda>st. case map_of (s_names st) name of
         Some idx \<Rightarrow> set_cell a (int (slot_of idx)) v
       | None \<Rightarrow> raise (PErr ReferenceErr))"

definition getByIdx :: "nat \<Rightarrow> int \<Rightarrow> cell act" where
  "getByIdx a idx = thenA (stash_at a) (\<lambda>st. cell_at idx (s_values st))"

text \<open>The result \<open>None\<close> says that there is no such binding.\<close>

definition getByName :: "venv \<Rightarrow> nat \<Rightarrow> ustr \<Rightarrow> cell option act" where
  "getByName E a name =
     thenA (stash_at a) (\<lambda>st. case s_obj st of
         Some obj \<Rightarrow>
           thenA (stashObjHas E obj name) (\<lambda>has.
             if has then thenA (liftH (\<lambda>H. getStr (x_env E) (x_fuel E) H obj name None))
                 (\<lambda>v. returnA (Some (nilSafe (optval v))))
             else returnA None)
       | None \<Rightarrow>
           (case map_of (s_names st) name of
              None \<Rightarrow> returnA None
            | Some idx \<Rightarrow>
                thenA (cell_at (int (slot_of idx)) (s_values st)) (\<lambda>v.
                  if v = CNil then
                    if \<not> is_var idx then raise (PErr ReferenceErr) else returnA (Some (CVal VUndefined))
                  else returnA (Some v))))"

definition getRefByName :: "venv \<Rightarrow> nat \<Rightarrow> ustr \<Rightarrow> bool \<Rightarrow> ref option act" where
  "getRefByName E a name strict =
     thenA (stash_at a) (\<lambda>st. case s_obj st of
         Some obj \<Rightarrow>
           thenA (stashObjHas E obj name) (\<lambda>has.
             returnA (if has then Some (ObjStrRef obj name None strict True) else None))
       | None \<Rightarrow>
           returnA (case map_of (s_names st) name of
               None \<Rightarrow> None
             | Some idx \<Rightarrow>
                 if \<not> is_var idx then
                   if \<not> is_const idx then Some (StashRefLex name (InStash a) (int (slot_of idx)))
                   else Some (StashRefConst name (InStash a) (int (slot_of idx)) (strict \<or> is_strict idx))
                 else Some (StashRef name (InStash a) (int (slot_of idx)))))"

definition createBinding :: "ustr \<Rightarrow> bool \<Rightarrow> stash \<Rightarrow> stash" where
  "createBinding name deletable st =
     (if map_of (s_names st) name = None then
        let idx = of_nat (length (s_names st)) OR maskVar;
            idx = (if deletable then idx OR maskDeletable else idx)
        in st\<lparr>s_values := s_values st @ [CVal VUndefined], s_names := AList.update name idx (s_names st)\<rparr>
      else st)"

definition createLexBinding :: "ustr \<Rightarrow> bool \<Rightarrow> stash \<Rightarrow> stash" where
  "createLexBinding name isConst st =
     (if map_of (s_names st) name = None then
        let idx = of_nat (length (s_names st));
            idx = (if isConst then idx OR (maskConst OR maskStrict) else idx)
        in st\<lparr>s_values := s_values st @ [CNil], s_names := AList.update name idx (s_names st)\<rparr>
      else st)"

definition deleteBinding :: "ustr \<Rightarrow> stash \<Rightarrow> stash" where
  "deleteBinding name st = st\<lparr>s_names := AList.delete name (s_names st)\<rparr>"

section \<open>References\<close>

definition load_cell :: "store \<Rightarrow> int \<Rightarrow> cell act" where
  "load_cell w i = (case w of InStash a \<Rightarrow> getByIdx a i | OnStack \<Rightarrow> stack_at i)"

definition store_cell :: "store \<Rightarrow> int \<Rightarrow> cell \<Rightarrow> unit act" where
  "store_cell w i v = (case w of InStash a \<Rightarrow> set_cell a i v | OnStack \<Rightarrow> set_stack i v)"

text \<open>\<open>toPropertyKey\<close>: a symbol stays, anything else becomes a string.\<close>

definition toPropertyKey :: "venv \<Rightarrow> jsval \<Rightarrow> jsval act" where
  "toPropertyKey E key =
     (case key of
        VObject x \<Rightarrow>
          thenA (liftR (toPrimitiveString (e_host (x_env E)) x)) (\<lambda>p.
            case p of VSymbol _ \<Rightarrow> returnA p
            | _ \<Rightarrow> thenA (liftR (toString_prim (e_host (x_env E)) p)) (\<lambda>t. returnA (VString t)))
      | VSymbol _ \<Rightarrow> returnA key
      | _ \<Rightarrow> thenA (liftR (toString_prim (e_host (x_env E)) key)) (\<lambda>t. returnA (VString t)))"

text \<open>The value a cell holds where the code relies on one; a nil is dereferenced.\<close>

definition val_of :: "cell \<Rightarrow> jsval act" where
  "val_of c = (case c of CVal v \<Rightarrow> returnA v | _ \<Rightarrow> crash)"

text \<open>\<open>objRef.getKey\<close> converts the key once and keeps it: the reference is part of the result.\<close>

definition getKey :: "venv \<Rightarrow> ref \<Rightarrow> (ref \<times> jsval) act" where
  "getKey E r =
     (case r of
        ObjRef base name this strict conv \<Rightarrow>
          if conv then returnA (r, name)
          else thenA (toPropertyKey E name) (\<lambda>k. returnA (ObjRef base k this strict True, k))
      | _ \<Rightarrow> crash)"

definition ref_get :: "venv \<Rightarrow> ref \<Rightarrow> (ref \<times> cell) act" where
  "ref_get E r =
     (case r of
        StashRef n w i \<Rightarrow> thenA (load_cell w i) (\<lambda>v. returnA (r, nilSafe v))
      | ThisRef w i \<Rightarrow>
          thenA (load_cell w i) (\<lambda>v. if v = CNil then raise (PErr ReferenceErr) else returnA (r, v))
      | StashRefLex n w i \<Rightarrow>
          thenA (load_cell w i) (\<lambda>v. if v = CNil then raise (PErr ReferenceErr) else returnA (r, v))
      | StashRefConst n w i strict \<Rightarrow>
          thenA (load_cell w i) (\<lambda>v. if v = CNil then raise (PErr ReferenceErr) else returnA (r, v))
      | ObjRef base name this strict conv \<Rightarrow>
          thenA (getKey E r) (\<lambda>(r, k).
            thenA (liftH (\<lambda>H. object_get (x_env E) (x_fuel E) H base k this)) (\<lambda>v. returnA (r, optval v)))
      | ObjStrRef base name this strict binding \<Rightarrow>
          thenA (liftH (\<lambda>H. getStr (x_env E) (x_fuel E) H base name this)) (\<lambda>v. case v of
              Some v \<Rightarrow> returnA (r, CVal v)
            | None \<Rightarrow> if binding then raise (PErr ReferenceErr) else returnA (r, CVal VUndefined))
      | UnresolvedRef n \<Rightarrow> raise (PErr ReferenceErr))"

definition unitA :: "'a act \<Rightarrow> unit act" where
  "unitA m = thenA m (\<lambda>_. returnA ())"

text \<open>A write through \<open>set\<close> with the receiver of a \<open>super\<close> reference, or to the object itself.\<close>

definition obj_write :: "venv \<Rightarrow> nat \<Rightarrow> jsval \<Rightarrow> jsval \<Rightarrow> jsval option \<Rightarrow> bool \<Rightarrow> unit act" where
  "obj_write E base key v this strict =
     unitA (liftH (\<lambda>H. case this of
         Some t \<Rightarrow> object_set (x_env E) (x_fuel E) H base key v t strict
       | None \<Rightarrow> object_setOwn (x_env E) (x_fuel E) H base key v strict))"

definition obj_write_str :: "venv \<Rightarrow> nat \<Rightarrow> ustr \<Rightarrow> jsval \<Rightarrow> jsval option \<Rightarrow> bool \<Rightarrow> unit act" where
  "obj_write_str E base name v this strict =
     unitA (liftH (\<lambda>H. case this of
         Some t \<Rightarrow> object_setStr (x_env E) (x_fuel E) H base name v t strict
       | None \<Rightarrow> setOwnStr (x_env E) (x_fuel E) H base name v strict))"

definition ref_set :: "venv \<Rightarrow> ref \<Rightarrow> cell \<Rightarrow> unit act" where
  "ref_set E r v =
     (case r of
        StashRef n w i \<Rightarrow> store_cell w i v
      | ThisRef w i \<Rightarrow>
          thenA (load_cell w i) (\<lambda>old. if old \<noteq> CNil then raise (PErr ReferenceErr) else store_cell w i v)
      | StashRefLex n w i \<Rightarrow>
          thenA (load_cell w i) (\<lambda>old. if old = CNil then raise (PErr ReferenceErr) else store_cell w i v)
      | StashRefConst n w i strict \<Rightarrow> if strict then raise (PErr TypeErr) else returnA ()
      | ObjRef base name this strict conv \<Rightarrow>
          thenA (getKey E r) (\<lambda>(_, k). thenA (val_of v) (\<lambda>v. obj_write E base k v this strict))
      | ObjStrRef base name this strict binding \<Rightarrow>
          thenA (readA v_heap) (\<lambda>H.
            case H base of
              None \<Rightarrow> crash
            | Some ob \<Rightarrow>
                if strict \<and> binding \<and> \<not> hasOwnPropertyStr ob name then raise (PErr ReferenceErr)
                else thenA (val_of v) (\<lambda>v. obj_write_str E base name v this strict))
      | UnresolvedRef n \<Rightarrow> raise (PErr ReferenceErr))"

definition ref_init :: "venv \<Rightarrow> ref \<Rightarrow> cell \<Rightarrow> unit act" where
  "ref_init E r v =
     (case r of
        StashRef n w i \<Rightarrow> store_cell w i v
      | ThisRef w i \<Rightarrow> ref_set E r v
      | StashRefLex n w i \<Rightarrow> store_cell w i v
      | StashRefConst n w i strict \<Rightarrow> store_cell w i v
      | ObjRef base name this strict conv \<Rightarrow>
          thenA (getKey E r) (\<lambda>(_, k). thenA (val_of v) (\<lambda>v. obj_write E base k v this strict))
      | ObjStrRef base name this strict binding \<Rightarrow>
          thenA (val_of v) (\<lambda>v. obj_write_str E base name v this strict)
      | UnresolvedRef n \<Rightarrow> raise (PErr ReferenceErr))"

section \<open>The kind of a binding\<close>

lemma mask_bits:
  "bit maskConst i \<longleftrightarrow> i = 31" "bit maskVar i \<longleftrightarrow> i = 30" "bit maskDeletable i \<longleftrightarrow> i = 29"
  by (auto simp only: maskConst_def maskVar_def maskDeletable_def bit_push_bit_iff possible_bit_word
      bit_1_iff) simp_all

lemma small_bits: "n < 2 ^ 29 \<Longrightarrow> bit n i \<Longrightarrow> i < 29" for n :: nat
  by (metis bit_take_bit_iff take_bit_nat_eq_self)

lemma slot_of_or:
  assumes "n < 2 ^ 29" "m AND NOT maskTyp = 0"
  shows "slot_of (of_nat n OR m) = n"
proof -
  have "(of_nat n OR m) AND NOT maskTyp = (of_nat n :: 32 word)"
    using arg_cong [where f = bit, OF assms(2)]
    by (intro bit_word_eqI) (auto simp: maskTyp_def mask_bits bit_simps fun_eq_iff dest: small_bits [OF assms(1)])
  then show ?thesis
    using assms(1) by (simp add: slot_of_def unat_of_nat take_bit_nat_eq_self)
qed

lemma kind_bits: "is_var x \<longleftrightarrow> bit x 30" "is_const x \<longleftrightarrow> bit x 31" "is_strict x \<longleftrightarrow> bit x 29"
  by (simp_all only: is_var_def is_const_def is_strict_def maskStrict_def maskVar_def maskConst_def
      maskDeletable_def bit_iff_and_push_bit_not_eq_0)

lemma kind_of_small:
  assumes "n < 2 ^ 29"
  shows "is_var (of_nat n OR m) = is_var m" "is_const (of_nat n OR m) = is_const m"
    "is_strict (of_nat n OR m) = is_strict m"
  by (auto simp: kind_bits bit_or_iff bit_of_nat_iff possible_bit_word dest: small_bits [OF assms])

lemma kind_of_masks:
  "is_var maskVar" "\<not> is_const maskVar" "\<not> is_var 0" "\<not> is_const 0" "\<not> is_strict 0"
  "\<not> is_var (maskConst OR maskStrict)" "is_const (maskConst OR maskStrict)"
  "is_strict (maskConst OR maskStrict)" "is_var (maskVar OR maskDeletable)"
  "\<not> is_const (maskVar OR maskDeletable)" "is_strict (maskVar OR maskDeletable)" "\<not> is_strict maskVar"
  by (simp_all add: is_var_def is_const_def is_strict_def maskStrict_def maskVar_def maskConst_def
      maskDeletable_def)

lemma masks_typ:
  "maskVar AND NOT maskTyp = 0" "(maskVar OR maskDeletable) AND NOT maskTyp = 0"
  "(maskConst OR maskStrict) AND NOT maskTyp = 0"
  by (simp_all add: maskTyp_def maskStrict_def maskVar_def maskConst_def maskDeletable_def)

section \<open>A scope as an environment\<close>

datatype bkind = BVar | BLet | BConst bool

type_synonym environment = "ustr \<Rightarrow> (bkind \<times> cell) option"

definition kind_of :: "32 word \<Rightarrow> bkind" where
  "kind_of idx = (if is_var idx then BVar else if is_const idx then BConst (is_strict idx) else BLet)"

definition abs_scope :: "stash \<Rightarrow> environment" where
  "abs_scope st name = map_option (\<lambda>idx. (kind_of idx, s_values st ! slot_of idx)) (map_of (s_names st) name)"

definition scope_ok :: "stash \<Rightarrow> bool" where
  "scope_ok st \<longleftrightarrow> s_obj st = None \<and> length (s_names st) = length (s_values st)
     \<and> length (s_values st) \<le> 2 ^ 29
     \<and> distinct (map fst (s_names st))
     \<and> distinct (map (slot_of \<circ> snd) (s_names st))
     \<and> (\<forall>(n, idx) \<in> set (s_names st). slot_of idx < length (s_values st))"

text \<open>What the code does with the bindings of a scope, by name, and what that means.\<close>

datatype scope_op =
    OpVar ustr bool
  | OpLex ustr bool
  | OpInit ustr cell
  | OpGet ustr
  | OpRead ustr bool
  | OpAssign ustr bool cell

definition declare_in :: "nat \<Rightarrow> (stash \<Rightarrow> stash) \<Rightarrow> cell option act" where
  "declare_in a f = thenA (stash_at a) (\<lambda>st. thenA (set_stash a (f st)) (\<lambda>_. returnA None))"

fun do_op :: "venv \<Rightarrow> nat \<Rightarrow> scope_op \<Rightarrow> cell option act" where
  "do_op E a (OpVar n deletable) = declare_in a (createBinding n deletable)"
| "do_op E a (OpLex n isConst) = declare_in a (createLexBinding n isConst)"
| "do_op E a (OpInit n v) = thenA (initByName a n v) (\<lambda>_. returnA None)"
| "do_op E a (OpGet n) = getByName E a n"
| "do_op E a (OpRead n strict) =
     thenA (getRefByName E a n strict) (\<lambda>r. case r of
         None \<Rightarrow> returnA None
       | Some r \<Rightarrow> thenA (ref_get E r) (\<lambda>(_, v). returnA (Some v)))"
| "do_op E a (OpAssign n strict v) =
     thenA (getRefByName E a n strict) (\<lambda>r. case r of
         None \<Rightarrow> returnA None
       | Some r \<Rightarrow> thenA (ref_set E r v) (\<lambda>_. returnA (Some v)))"

definition env_read :: "environment \<Rightarrow> ustr \<Rightarrow> panic + cell option" where
  "env_read env n =
     (case env n of
        None \<Rightarrow> Inr None
      | Some (k, v) \<Rightarrow>
          if v = CNil then if k = BVar then Inr (Some (CVal VUndefined)) else Inl (PErr ReferenceErr)
          else Inr (Some v))"

fun env_op :: "environment \<Rightarrow> scope_op \<Rightarrow> environment \<times> (panic + cell option)" where
  "env_op env (OpVar n _) = (if env n = None then env(n \<mapsto> (BVar, CVal VUndefined)) else env, Inr None)"
| "env_op env (OpLex n isConst) =
     (if env n = None then env(n \<mapsto> (if isConst then BConst True else BLet, CNil)) else env, Inr None)"
| "env_op env (OpInit n v) =
     (case env n of None \<Rightarrow> (env, Inl (PErr ReferenceErr)) | Some (k, _) \<Rightarrow> (env(n \<mapsto> (k, v)), Inr None))"
| "env_op env (OpGet n) = (env, env_read env n)"
| "env_op env (OpRead n _) = (env, env_read env n)"
| "env_op env (OpAssign n strict v) =
     (case env n of
        None \<Rightarrow> (env, Inr None)
      | Some (BVar, _) \<Rightarrow> (env(n \<mapsto> (BVar, v)), Inr (Some v))
      | Some (BLet, old) \<Rightarrow>
          if old = CNil then (env, Inl (PErr ReferenceErr)) else (env(n \<mapsto> (BLet, v)), Inr (Some v))
      | Some (BConst s, _) \<Rightarrow> (env, if strict \<or> s then Inl (PErr TypeErr) else Inr (Some v)))"

fun do_ops :: "venv \<Rightarrow> nat \<Rightarrow> scope_op list \<Rightarrow> vm \<Rightarrow> vm \<times> (panic + cell option) list" where
  "do_ops E a [] s = (s, [])"
| "do_ops E a (op # ops) s =
     (case do_op E a op s of (s, r) \<Rightarrow> case do_ops E a ops s of (s, rs) \<Rightarrow> (s, r # rs))"

fun env_ops :: "environment \<Rightarrow> scope_op list \<Rightarrow> environment \<times> (panic + cell option) list" where
  "env_ops env [] = (env, [])"
| "env_ops env (op # ops) =
     (case env_op env op of (env, r) \<Rightarrow> case env_ops env ops of (env, rs) \<Rightarrow> (env, r # rs))"

lemma scope_okD:
  assumes "scope_ok st" "map_of (s_names st) n = Some idx"
  shows "slot_of idx < length (s_values st)"
    and "\<And>m j. map_of (s_names st) m = Some j \<Longrightarrow> slot_of j = slot_of idx \<Longrightarrow> m = n"
proof -
  have d: "distinct (map fst (s_names st))" "distinct (map (slot_of \<circ> snd) (s_names st))"
    using assms(1) by (simp_all add: scope_ok_def)
  have mem: "(n, idx) \<in> set (s_names st)"
    using assms(2) by (rule map_of_SomeD)
  then show "slot_of idx < length (s_values st)"
    using assms(1) by (auto simp: scope_ok_def)
  fix m j
  assume "map_of (s_names st) m = Some j" "slot_of j = slot_of idx"
  then have mj: "(m, j) \<in> set (s_names st)" "(slot_of \<circ> snd) (m, j) = (slot_of \<circ> snd) (n, idx)"
    by (simp_all add: map_of_SomeD)
  have "inj_on (slot_of \<circ> snd) (set (s_names st))"
    using d(2) by (simp only: distinct_map)
  then have "(m, j) = (n, idx)"
    using mj(2) mj(1) mem by (rule inj_onD)
  then show "m = n" by simp
qed

lemma scope_write:
  assumes "scope_ok st" "map_of (s_names st) n = Some idx"
  shows "scope_ok (st\<lparr>s_values := (s_values st)[slot_of idx := v]\<rparr>)"
    and "abs_scope (st\<lparr>s_values := (s_values st)[slot_of idx := v]\<rparr>) = (abs_scope st)(n \<mapsto> (kind_of idx, v))"
proof -
  show "scope_ok (st\<lparr>s_values := (s_values st)[slot_of idx := v]\<rparr>)"
    using assms(1) by (simp add: scope_ok_def)
  show "abs_scope (st\<lparr>s_values := (s_values st)[slot_of idx := v]\<rparr>) = (abs_scope st)(n \<mapsto> (kind_of idx, v))"
  proof (rule ext)
    fix m
    show "abs_scope (st\<lparr>s_values := (s_values st)[slot_of idx := v]\<rparr>) m
        = ((abs_scope st)(n \<mapsto> (kind_of idx, v))) m"
    proof (cases "m = n")
      case True
      then show ?thesis using scope_okD(1) [OF assms] assms(2) by (simp add: abs_scope_def)
    next
      case False
      then have "slot_of j \<noteq> slot_of idx" if "map_of (s_names st) m = Some j" for j
        using scope_okD(2) [OF assms that] by blast
      then show ?thesis using False by (cases "map_of (s_names st) m") (simp_all add: abs_scope_def)
    qed
  qed
qed

lemma update_new: "n \<notin> fst ` set al \<Longrightarrow> AList.update n v al = al @ [(n, v)]"
  by (induction al) auto

lemma scope_add:
  assumes ok: "scope_ok st" and new: "map_of (s_names st) n = None"
    and room: "length (s_values st) < 2 ^ 29" and m: "m AND NOT maskTyp = 0"
  shows "scope_ok (st\<lparr>s_values := s_values st @ [v],
      s_names := AList.update n (of_nat (length (s_names st)) OR m) (s_names st)\<rparr>)" (is "scope_ok ?st")
    and "abs_scope (st\<lparr>s_values := s_values st @ [v],
      s_names := AList.update n (of_nat (length (s_names st)) OR m) (s_names st)\<rparr>)
      = (abs_scope st)(n \<mapsto> (kind_of m, v))"
proof -
  let ?idx = "of_nat (length (s_names st)) OR m"
  have len: "length (s_names st) = length (s_values st)" using ok by (simp add: scope_ok_def)
  have slot: "slot_of ?idx = length (s_values st)" and kind: "kind_of ?idx = kind_of m"
    using room m slot_of_or [of "length (s_names st)" m] kind_of_small [of "length (s_names st)" m]
    by (simp_all add: len kind_of_def)
  have upd: "AList.update n ?idx (s_names st) = s_names st @ [(n, ?idx)]"
    using new by (simp add: update_new map_of_eq_None_iff)
  show "scope_ok ?st"
    unfolding scope_ok_def upd using ok new room
    by (auto simp: scope_ok_def slot [unfolded len] len map_of_eq_None_iff less_SucI)
  show "abs_scope ?st = (abs_scope st)(n \<mapsto> (kind_of m, v))"
  proof (rule ext)
    fix x
    show "abs_scope ?st x = ((abs_scope st)(n \<mapsto> (kind_of m, v))) x"
      using scope_okD(1) [OF ok, of x] new
      by (cases "map_of (s_names st) x")
        (auto simp: abs_scope_def update_conv' nth_append slot [unfolded len] kind [unfolded len] len)
  qed
qed

lemma kind_of_new:
  "kind_of maskVar = BVar" "kind_of (maskVar OR maskDeletable) = BVar" "kind_of 0 = BLet"
  "kind_of (maskConst OR maskStrict) = BConst True"
  by (simp_all add: kind_of_def kind_of_masks)

lemma createBinding_env:
  assumes "scope_ok st" "length (s_values st) < 2 ^ 29"
  shows "scope_ok (createBinding n d st)"
    and "abs_scope (createBinding n d st) = fst (env_op (abs_scope st) (OpVar n d))"
    and "length (s_values (createBinding n d st)) \<le> Suc (length (s_values st))"
  using scope_add [OF assms(1) _ assms(2), of n] assms(1)
  by (auto simp: createBinding_def Let_def abs_scope_def [of _ n] masks_typ kind_of_new or.assoc)

lemma createLexBinding_env:
  assumes "scope_ok st" "length (s_values st) < 2 ^ 29"
  shows "scope_ok (createLexBinding n c st)"
    and "abs_scope (createLexBinding n c st) = fst (env_op (abs_scope st) (OpLex n c))"
    and "length (s_values (createLexBinding n c st)) \<le> Suc (length (s_values st))"
  using scope_add [OF assms(1) _ assms(2), of n 0] scope_add [OF assms(1) _ assms(2), of n "maskConst OR maskStrict"] assms(1)
  by (auto simp: createLexBinding_def Let_def abs_scope_def [of _ n] masks_typ kind_of_new)

text \<open>One operation on the scope at address \<open>a\<close> of a machine.\<close>

definition scope_in :: "vm \<Rightarrow> nat \<Rightarrow> stash \<Rightarrow> vm" where
  "scope_in s a st = s\<lparr>v_stashes := (v_stashes s)[a := st]\<rparr>"

lemma scope_in_simps:
  "a < length (v_stashes s) \<Longrightarrow> scope_in s a (v_stashes s ! a) = s"
  "scope_in (scope_in s a st) a st' = scope_in s a st'"
  "a < length (v_stashes s) \<Longrightarrow> v_stashes (scope_in s a st) ! a = st"
  "length (v_stashes (scope_in s a st)) = length (v_stashes s)"
  by (simp_all add: scope_in_def)

lemma scope_op_env:
  assumes a: "a < length (v_stashes s)" and st: "v_stashes s ! a = st" and ok: "scope_ok st"
    and room: "length (s_values st) < 2 ^ 29"
  shows "\<exists>st'. do_op E a op s = (scope_in s a st', snd (env_op (abs_scope st) op))
    \<and> scope_ok st' \<and> abs_scope st' = fst (env_op (abs_scope st) op)
    \<and> length (s_values st') \<le> Suc (length (s_values st))"
proof -
  have obj: "s_obj st = None" using ok by (simp add: scope_ok_def)
  have get: "stash_at a s = (s, Inr st)" using a st by (simp add: stash_at_def)
  have same: "scope_in s a st = s" using a by (simp add: scope_in_def flip: st)
  have bound: "slot_of idx < length (s_values st)" if "map_of (s_names st) n = Some idx" for n idx
    using scope_okD(1) [OF ok that] .
  have set: "set_cell a (int (slot_of idx)) v s = (scope_in s a (st\<lparr>s_values := (s_values st)[slot_of idx := v]\<rparr>), Inr ())"
    if "map_of (s_names st) n = Some idx" for n idx v
    using bound [OF that] by (simp add: set_cell_def thenA_def get set_stash_def scope_in_def)
  have cell: "getByIdx a (int (slot_of idx)) s = (s, Inr (s_values st ! slot_of idx))"
    if "map_of (s_names st) n = Some idx" for n idx
    using bound [OF that] by (simp add: getByIdx_def thenA_def get cell_at_def)
  note unchanged = exI [of _ st]
  show ?thesis
  proof (cases op)
    case (OpVar n d)
    then show ?thesis
      using createBinding_env [OF ok room, of n d]
      by (intro exI [of _ "createBinding n d st"])
        (simp add: declare_in_def thenA_def get set_stash_def scope_in_def [symmetric])
  next
    case (OpLex n c)
    then show ?thesis
      using createLexBinding_env [OF ok room, of n c]
      by (intro exI [of _ "createLexBinding n c st"])
        (simp add: declare_in_def thenA_def get set_stash_def scope_in_def [symmetric])
  next
    case (OpInit n v)
    show ?thesis
    proof (cases "map_of (s_names st) n")
      case None
      then show ?thesis using OpInit ok
        by (intro unchanged) (simp add: initByName_def thenA_def get same abs_scope_def)
    next
      case (Some idx)
      then show ?thesis
        using OpInit scope_write [OF ok Some, of v] set [OF Some]
        by (intro exI [of _ "st\<lparr>s_values := (s_values st)[slot_of idx := v]\<rparr>"])
          (simp add: initByName_def thenA_def get abs_scope_def [of _ n])
    qed
  next
    case (OpGet n)
    show ?thesis
      using OpGet ok bound
      by (intro unchanged) (auto simp: getByName_def thenA_def get obj same env_read_def abs_scope_def
          cell_at_def kind_of_def split: option.splits)
  next
    case (OpRead n strict)
    show ?thesis
      using OpRead ok cell
      by (intro unchanged) (auto simp: getRefByName_def thenA_def get obj same env_read_def abs_scope_def
          ref_get_def load_cell_def nilSafe_def kind_of_def split: option.splits)
  next
    case (OpAssign n strict v)
    show ?thesis
    proof (cases "map_of (s_names st) n")
      case None
      then show ?thesis using OpAssign ok
        by (intro unchanged) (simp add: getRefByName_def thenA_def get obj same abs_scope_def)
    next
      case (Some idx)
      let ?st = "st\<lparr>s_values := (s_values st)[slot_of idx := v]\<rparr>"
      have env: "abs_scope st n = Some (kind_of idx, s_values st ! slot_of idx)"
        using Some by (simp add: abs_scope_def)
      show ?thesis
      proof (cases "kind_of idx = BVar \<or> kind_of idx = BLet \<and> s_values st ! slot_of idx \<noteq> CNil")
        case True
        then show ?thesis
          using OpAssign scope_write [OF ok Some, of v] set [OF Some] cell [OF Some] Some env
          by (intro exI [of _ ?st]) (auto simp: getRefByName_def thenA_def get obj ref_set_def
              load_cell_def store_cell_def kind_of_def split: if_splits)
      next
        case False
        then show ?thesis
          using OpAssign ok cell [OF Some] Some env
          by (intro unchanged) (auto simp: getRefByName_def thenA_def get obj same ref_set_def
              load_cell_def store_cell_def kind_of_def split: if_splits)
      qed
    qed
  qed
qed

text \<open>
  C7. A scope whose names are looked up at run time is an environment: whatever sequence of
  declarations, initialisations, reads by name, reads and assignments through references, its
  bindings and every result are those of the map from names to kinds and values. A lexical
  binding that is not initialised yet raises ReferenceError when read or assigned, a constant
  TypeError when assigned (silently ignored for the name of a function expression in sloppy
  mode); no binding interferes with another and no other scope changes.
\<close>

theorem scope_refines:
  assumes "a < length (v_stashes s)" "scope_ok (v_stashes s ! a)"
    and "length (s_values (v_stashes s ! a)) + length ops \<le> 2 ^ 29"
  shows "\<exists>st rs. do_ops E a ops s = (s\<lparr>v_stashes := (v_stashes s)[a := st]\<rparr>, rs)
    \<and> env_ops (abs_scope (v_stashes s ! a)) ops = (abs_scope st, rs) \<and> scope_ok st"
  using assms
proof (induction ops arbitrary: s)
  case Nil
  then show ?case by (intro exI [of _ "v_stashes s ! a"]) simp
next
  case (Cons op ops)
  let ?st = "v_stashes s ! a"
  obtain st where 1: "do_op E a op s = (scope_in s a st, snd (env_op (abs_scope ?st) op))"
    and ok: "scope_ok st" and abs: "abs_scope st = fst (env_op (abs_scope ?st) op)"
    and len: "length (s_values st) \<le> Suc (length (s_values ?st))"
    using scope_op_env [OF Cons.prems(1) refl Cons.prems(2), of E op] Cons.prems(3) by auto
  obtain st' rs where 2: "do_ops E a ops (scope_in s a st) =
        ((scope_in s a st)\<lparr>v_stashes := (v_stashes (scope_in s a st))[a := st']\<rparr>, rs)"
      "env_ops (abs_scope st) ops = (abs_scope st', rs)" "scope_ok st'"
    using Cons.IH [of "scope_in s a st"] Cons.prems ok len by (auto simp: scope_in_def)
  show ?case
    using 1 2 abs by (intro exI [of _ st']) (auto simp: scope_in_def split: prod.splits)
qed

definition scope0 :: stash where
  "scope0 = \<lparr>s_values = [], s_extraArgs = [], s_names = [], s_obj = None, s_outer = None,
     s_funcType = funcRegular\<rparr>"

lemma scope_refines_witness:
  "\<exists>st rs. do_ops venv0 0 [OpLex (u ''x'') False, OpRead (u ''x'') True, OpInit (u ''x'') (CVal VNull),
        OpAssign (u ''x'') True (CVal (VInt 1)), OpGet (u ''x'')] (vm0\<lparr>v_stashes := [scope0]\<rparr>)
      = (vm0\<lparr>v_stashes := [st]\<rparr>, rs)
    \<and> rs = [Inr None, Inl (PErr ReferenceErr), Inr None, Inr (Some (CVal (VInt 1))), Inr (Some (CVal (VInt 1)))]"
  using scope_refines [of 0 "vm0\<lparr>v_stashes := [scope0]\<rparr>" "[OpLex (u ''x'') False, OpRead (u ''x'') True,
      OpInit (u ''x'') (CVal VNull), OpAssign (u ''x'') True (CVal (VInt 1)), OpGet (u ''x'')]" venv0]
  by (auto simp: scope0_def scope_ok_def env_read_def abs_scope_def)

text \<open>
  \<open>deleteBinding\<close> is not among the operations: it leaves the cell in place, and the index of
  the next binding is the number of names. The binding then shares its cell with another one:
  \<open>eval("var a, b; delete a; var c")\<close> makes \<open>b\<close> and \<open>c\<close> one variable.
\<close>

lemma delete_then_declare_aliases:
  "let st = createBinding (u ''c'') True (deleteBinding (u ''a'')
        (createBinding (u ''b'') True (createBinding (u ''a'') True scope0)))
   in map_option slot_of (map_of (s_names st) (u ''b'')) = Some 1
     \<and> map_option slot_of (map_of (s_names st) (u ''c'')) = Some 1 \<and> length (s_values st) = 3"
  by code_simp

end
