(* ===== verification/Instructions.thy ===== *)
theory Instructions
  imports Scopes
begin

text \<open>
  The instructions of \<open>vm.go\<close>, one definition for each \<open>exec\<close> method, over the machine of
  \<open>Vm\<close> and the scopes of \<open>Scopes\<close>. An instruction that raises by \<open>panic\<close> leaves the machine
  to \<open>runTryInner\<close>, one that calls \<open>vm.throw\<close> has looked for the handler itself.

  The objects a string, a number or another primitive is wrapped in are parameters: own
  properties of strings are computed by \<open>string.go\<close>, not kept in the object.
\<close>

section \<open>Building blocks\<close>

definition seqA :: "unit act \<Rightarrow> 'a act \<Rightarrow> 'a act" where
  "seqA m k = thenA m (\<lambda>_. k)"

lemma seqA_eq: "m s = (s', Inr ()) \<Longrightarrow> seqA m k s = k s'"
  by (simp add: seqA_def thenA_def)

lemma seqA_error: "m s = (s', Inl p) \<Longrightarrow> seqA m k s = (s', Inl p)"
  by (simp add: seqA_def thenA_def)

text \<open>\<open>vm.pc++\<close>\<close>

definition next_pc :: "unit act" where
  "next_pc = add_pc 1"

text \<open>\<open>vm.stack[vm.sp-k]\<close>, read and written.\<close>

definition top :: "int \<Rightarrow> cell act" where
  "top k = thenA (readA v_sp) (\<lambda>sp. stack_at (sp - k))"

definition put_top :: "int \<Rightarrow> cell \<Rightarrow> unit act" where
  "put_top k c = thenA (readA v_sp) (\<lambda>sp. set_stack (sp - k) c)"

text \<open>
  The value of a cell that a method is called on. A marker, which the compiler leaves to calls
  and \<open>typeof\<close>, raises ReferenceError.
\<close>

definition cell_val :: "cell \<Rightarrow> jsval act" where
  "cell_val c = (case c of CVal v \<Rightarrow> returnA v | CNil \<Rightarrow> crash | _ \<Rightarrow> raise (PErr ReferenceErr))"

definition top_val :: "int \<Rightarrow> jsval act" where
  "top_val k = thenA (top k) cell_val"

definition h_of :: "venv \<Rightarrow> host" where
  "h_of E = e_host (x_env E)"

section \<open>Loading and storing on the stack\<close>

definition loadVal_exec :: "jsval \<Rightarrow> unit act" where
  "loadVal_exec v = seqA (push (CVal v)) next_pc"

definition loadUndef_exec :: "unit act" where
  "loadUndef_exec = seqA (push (CVal VUndefined)) next_pc"

definition loadNil_exec :: "unit act" where
  "loadNil_exec = seqA (push CNil) next_pc"

definition saveResult_exec :: "unit act" where
  "saveResult_exec =
     seqA (add_sp (-1)) (thenA (top 0) (\<lambda>c. seqA (updA (\<lambda>s. s\<lparr>v_result := c\<rparr>)) next_pc))"

definition loadResult_exec :: "unit act" where
  "loadResult_exec = thenA (readA v_result) (\<lambda>c. seqA (push c) next_pc)"

definition clearResult_exec :: "unit act" where
  "clearResult_exec = seqA (updA (\<lambda>s. s\<lparr>v_result := CVal VUndefined\<rparr>)) next_pc"

definition loadGlobalObject_exec :: "venv \<Rightarrow> unit act" where
  "loadGlobalObject_exec E = seqA (push (CVal (VObject (x_global E)))) next_pc"

definition loadStack_exec :: "int \<Rightarrow> unit act" where
  "loadStack_exec l =
     thenA (readA (\<lambda>s. if l > 0 then v_sb s + v_args s + l else v_sb s)) (\<lambda>i.
     thenA (stack_at i) (\<lambda>c. seqA (push (if l > 0 then nilSafe c else c)) next_pc))"

definition loadStack1_exec :: "int \<Rightarrow> unit act" where
  "loadStack1_exec l =
     thenA (readA (\<lambda>s. if l > 0 then v_sb s + l else v_sb s)) (\<lambda>i.
     thenA (stack_at i) (\<lambda>c. seqA (push (if l > 0 then nilSafe c else c)) next_pc))"

definition load_lex :: "venv \<Rightarrow> int \<Rightarrow> unit act" where
  "load_lex E i =
     thenA (stack_at i) (\<lambda>c. if c = CNil then vm_throw E (PErr ReferenceErr) else seqA (push c) next_pc)"

definition loadStackLex_exec :: "venv \<Rightarrow> int \<Rightarrow> unit act" where
  "loadStackLex_exec E l =
     thenA (readA (\<lambda>s. s)) (\<lambda>s.
       if l \<le> 0 then
         if - l > v_args s then seqA (push (CVal VUndefined)) next_pc else load_lex E (v_sb s - l)
       else load_lex E (v_sb s + v_args s + l))"

definition loadStack1Lex_exec :: "venv \<Rightarrow> int \<Rightarrow> unit act" where
  "loadStack1Lex_exec E l = thenA (readA v_sb) (\<lambda>sb. load_lex E (sb + l))"

definition loadCallee_exec :: "unit act" where
  "loadCallee_exec = thenA (readA v_sb) (\<lambda>sb. thenA (stack_at (sb - 1)) (\<lambda>c. seqA (push c) next_pc))"

text \<open>\<open>vm.stack[i] = vm.stack[vm.sp-1]\<close>\<close>

definition copy_top :: "(vm \<Rightarrow> int) \<Rightarrow> unit act" where
  "copy_top i = thenA (top 1) (\<lambda>c. thenA (readA i) (\<lambda>i. set_stack i c))"

definition copy_top_lex :: "(vm \<Rightarrow> int) \<Rightarrow> unit act" where
  "copy_top_lex i =
     thenA (readA i) (\<lambda>j. thenA (stack_at j) (\<lambda>old.
       if old \<noteq> CNil then copy_top i else raise (PErr ReferenceErr)))"

definition storeStack :: "int \<Rightarrow> unit act" where
  "storeStack l =
     seqA (if l > 0 then copy_top (\<lambda>s. v_sb s + v_args s + l) else crash) next_pc"

definition storeStack1 :: "int \<Rightarrow> unit act" where
  "storeStack1 l = seqA (if l > 0 then copy_top (\<lambda>s. v_sb s + l) else crash) next_pc"

definition storeStackLex :: "int \<Rightarrow> unit act" where
  "storeStackLex l =
     seqA (copy_top_lex (\<lambda>s. if l < 0 then v_sb s - l else v_sb s + v_args s + l)) next_pc"

definition storeStack1Lex :: "int \<Rightarrow> unit act" where
  "storeStack1Lex l = seqA (if l \<le> 0 then crash else copy_top_lex (\<lambda>s. v_sb s + l)) next_pc"

definition initStack :: "int \<Rightarrow> unit act" where
  "initStack l =
     seqA (copy_top (\<lambda>s. if l \<le> 0 then v_sb s - l else v_sb s + v_args s + l)) next_pc"

definition initStack1 :: "int \<Rightarrow> unit act" where
  "initStack1 l = seqA (if l \<le> 0 then crash else copy_top (\<lambda>s. v_sb s + l)) next_pc"

text \<open>The variants that pop the value.\<close>

definition then_pop :: "unit act \<Rightarrow> unit act" where
  "then_pop m = seqA m (add_sp (-1))"

definition initStackP_exec :: "int \<Rightarrow> unit act" where
  "initStackP_exec l = then_pop (initStack l)"

definition initStack1P_exec :: "int \<Rightarrow> unit act" where
  "initStack1P_exec l = then_pop (initStack1 l)"

definition storeStackP_exec :: "int \<Rightarrow> unit act" where
  "storeStackP_exec l = then_pop (storeStack l)"

definition storeStack1P_exec :: "int \<Rightarrow> unit act" where
  "storeStack1P_exec l = then_pop (storeStack1 l)"

definition storeStackLexP_exec :: "int \<Rightarrow> unit act" where
  "storeStackLexP_exec l = then_pop (storeStackLex l)"

definition storeStack1LexP_exec :: "int \<Rightarrow> unit act" where
  "storeStack1LexP_exec l = then_pop (storeStack1Lex l)"

definition pop_exec :: "unit act" where
  "pop_exec = seqA (add_sp (-1)) next_pc"

definition dup_exec :: "unit act" where
  "dup_exec = thenA (top 1) (\<lambda>c. seqA (push c) next_pc)"

definition dupN_exec :: "nat \<Rightarrow> unit act" where
  "dupN_exec d = thenA (top (1 + int d)) (\<lambda>c. seqA (push c) next_pc)"

definition rdupN_exec :: "nat \<Rightarrow> unit act" where
  "rdupN_exec d = thenA (top 1) (\<lambda>c. seqA (put_top (1 + int d) c) next_pc)"

text \<open>\<open>dupLast\<close>: the last \<open>d\<close> values once more, by \<open>copy\<close> within the stack.\<close>

definition dupLast_exec :: "nat \<Rightarrow> unit act" where
  "dupLast_exec d s =
     (let e = v_sp s + int d; st = expand e (v_stack s); i = nat (v_sp s) in
      if v_sp s < int d then (s\<lparr>v_stack := st\<rparr>, Inl (PErr GoPanic))
      else (s\<lparr>v_stack := take i st @ take d (drop (i - d) st) @ drop (i + d) st,
              v_sp := e, v_pc := v_pc s + 1\<rparr>, Inr ()))"

section \<open>Operators and jumps\<close>

definition binop :: "(jsval \<Rightarrow> jsval \<Rightarrow> go_error + jsval) \<Rightarrow> unit act" where
  "binop f =
     thenA (top_val 2) (\<lambda>x. thenA (top_val 1) (\<lambda>y. thenA (liftR (f x y)) (\<lambda>v.
       seqA (put_top 2 (CVal v)) (seqA (add_sp (-1)) next_pc))))"

definition unop :: "(jsval \<Rightarrow> go_error + jsval) \<Rightarrow> unit act" where
  "unop f = thenA (top_val 1) (\<lambda>x. thenA (liftR (f x)) (\<lambda>v. seqA (put_top 1 (CVal v)) next_pc))"

definition toNumber_exec :: "venv \<Rightarrow> unit act" where
  "toNumber_exec E = unop (toNumeric (h_of E))"

definition jump_exec :: "int \<Rightarrow> unit act" where
  "jump_exec j = add_pc j"

definition jneP_exec :: "int \<Rightarrow> unit act" where
  "jneP_exec j = seqA (add_sp (-1)) (thenA (top_val 0) (\<lambda>v. if \<not> ToBoolean v then add_pc j else next_pc))"

definition jeqP_exec :: "int \<Rightarrow> unit act" where
  "jeqP_exec j = seqA (add_sp (-1)) (thenA (top_val 0) (\<lambda>v. if ToBoolean v then add_pc j else next_pc))"

definition jeq_exec :: "int \<Rightarrow> unit act" where
  "jeq_exec j = thenA (top_val 1) (\<lambda>v. if ToBoolean v then add_pc j else seqA (add_sp (-1)) next_pc)"

definition jne_exec :: "int \<Rightarrow> unit act" where
  "jne_exec j = thenA (top_val 1) (\<lambda>v. if \<not> ToBoolean v then add_pc j else seqA (add_sp (-1)) next_pc)"

definition jdef_exec :: "int \<Rightarrow> unit act" where
  "jdef_exec j = thenA (top 1) (\<lambda>c. if c \<noteq> CVal VUndefined then add_pc j else seqA (add_sp (-1)) next_pc)"

definition jdefP_exec :: "int \<Rightarrow> unit act" where
  "jdefP_exec j = thenA (top 1) (\<lambda>c. seqA (if c \<noteq> CVal VUndefined then add_pc j else next_pc) (add_sp (-1)))"

definition is_nullish :: "cell \<Rightarrow> bool" where
  "is_nullish c \<longleftrightarrow> c = CVal VNull \<or> c = CVal VUndefined"

definition is_nullish_or_member :: "cell \<Rightarrow> bool" where
  "is_nullish_or_member c \<longleftrightarrow> is_nullish c \<or> (case c of CMember _ \<Rightarrow> True | _ \<Rightarrow> False)"

definition jopt_exec :: "int \<Rightarrow> unit act" where
  "jopt_exec j =
     thenA (top 1) (\<lambda>c.
       if c = CVal VNull then seqA (put_top 1 (CVal VUndefined)) (add_pc j)
       else if c = CVal VUndefined then add_pc j else next_pc)"

definition joptc_exec :: "int \<Rightarrow> unit act" where
  "joptc_exec j =
     thenA (top 1) (\<lambda>c.
       if is_nullish_or_member c then seqA (add_sp (-1)) (seqA (put_top 1 (CVal VUndefined)) (add_pc j))
       else next_pc)"

definition joptdel_exec :: "int \<Rightarrow> unit act" where
  "joptdel_exec j =
     thenA (top 1) (\<lambda>c. if is_nullish c then seqA (put_top 1 (CVal (VBool True))) (add_pc j) else next_pc)"

definition joptdelc_exec :: "int \<Rightarrow> unit act" where
  "joptdelc_exec j =
     thenA (top 1) (\<lambda>c.
       if is_nullish_or_member c then seqA (add_sp (-1)) (seqA (put_top 1 (CVal (VBool True))) (add_pc j))
       else next_pc)"

definition joptdelP_exec :: "int \<Rightarrow> unit act" where
  "joptdelP_exec j = thenA (top 1) (\<lambda>c. if is_nullish c then seqA (add_sp (-1)) (add_pc j) else next_pc)"

definition joptdelcP_exec :: "int \<Rightarrow> unit act" where
  "joptdelcP_exec j =
     thenA (top 1) (\<lambda>c. if is_nullish_or_member c then seqA (add_sp (-2)) (add_pc j) else next_pc)"

definition jcoalesc_exec :: "int \<Rightarrow> unit act" where
  "jcoalesc_exec j = thenA (top 1) (\<lambda>c. if is_nullish c then seqA (add_sp (-1)) next_pc else add_pc j)"

definition jcoalescP_exec :: "int \<Rightarrow> unit act" where
  "jcoalescP_exec j = seqA (add_sp (-1)) (thenA (top 0) (\<lambda>c. if is_nullish c then next_pc else add_pc j))"

definition not_exec :: "unit act" where
  "not_exec = unop (\<lambda>v. Inr (VBool (\<not> ToBoolean v)))"

text \<open>\<open>typeof\<close>: the class of an object decides between \<open>"object"\<close> and \<open>"function"\<close>.\<close>

definition typeof_exec :: "venv \<Rightarrow> unit act" where
  "typeof_exec E =
     thenA (top 1) (\<lambda>c.
       thenA (case c of
           CNil \<Rightarrow> raise (PErr TypeErr)
         | CUnresolved _ \<Rightarrow> returnA (u ''undefined'')
         | CMember _ \<Rightarrow> raise (PErr TypeErr)
         | CVal v \<Rightarrow> returnA (case v of
               VUndefined \<Rightarrow> u ''undefined''
             | VNull \<Rightarrow> u ''object''
             | VObject a \<Rightarrow> if e_callable (x_env E) a then u ''function'' else u ''object''
             | VBool _ \<Rightarrow> u ''boolean''
             | VString _ \<Rightarrow> u ''string''
             | VInt _ \<Rightarrow> u ''number''
             | VFloat _ \<Rightarrow> u ''number''
             | VBigInt _ \<Rightarrow> u ''bigint''
             | VSymbol _ \<Rightarrow> u ''symbol''))
         (\<lambda>t. seqA (put_top 1 (CVal (VString t))) next_pc))"

section \<open>Objects and properties\<close>

text \<open>\<open>newPrimitiveObject\<close>: a new object with the prototype of its value's type.\<close>

definition newPrimitiveObject :: "venv \<Rightarrow> jsval \<Rightarrow> nat act" where
  "newPrimitiveObject E v s =
     (let a = x_fresh E (v_heap s) in
      (s\<lparr>v_heap := (v_heap s)(a \<mapsto> \<lparr>o_prototype = Some (x_proto E v), o_extensible = True,
          o_values = Map.empty, o_propNames = [], o_lastSorted = 0, o_idxCount = 0, o_symValues = None\<rparr>)\<rparr>,
       Inr a))"

definition string_object :: "venv \<Rightarrow> ustr \<Rightarrow> nat act" where
  "string_object E t s = (case x_string E t (v_heap s) of (H, a) \<Rightarrow> (s\<lparr>v_heap := H\<rparr>, Inr a))"

definition ToObject :: "venv \<Rightarrow> jsval \<Rightarrow> nat act" where
  "ToObject E v =
     (case v of
        VUndefined \<Rightarrow> raise (PErr TypeErr)
      | VNull \<Rightarrow> raise (PErr TypeErr)
      | VObject a \<Rightarrow> returnA a
      | VString t \<Rightarrow> string_object E t
      | _ \<Rightarrow> newPrimitiveObject E v)"

text \<open>The object a property is read from; nil for undefined and null.\<close>

definition baseObject :: "venv \<Rightarrow> jsval \<Rightarrow> nat option act" where
  "baseObject E v =
     (case v of
        VUndefined \<Rightarrow> returnA None
      | VNull \<Rightarrow> returnA None
      | VObject a \<Rightarrow> returnA (Some a)
      | VString t \<Rightarrow> thenA (string_object E t) (\<lambda>a. returnA (Some a))
      | VSymbol _ \<Rightarrow> thenA (newPrimitiveObject E v) (\<lambda>a. returnA (Some a))
      | _ \<Rightarrow> returnA (Some (x_proto E v)))"

text \<open>\<open>Runtime.toObject\<close>, which converts nothing.\<close>

definition toObject :: "jsval \<Rightarrow> nat act" where
  "toObject v = (case v of VObject a \<Rightarrow> returnA a | _ \<Rightarrow> raise (PErr TypeErr))"

definition obj_get_str :: "venv \<Rightarrow> nat \<Rightarrow> ustr \<Rightarrow> jsval \<Rightarrow> jsval option act" where
  "obj_get_str E a name recv = liftH (\<lambda>H. getStr (x_env E) (x_fuel E) H a name (Some recv))"

definition obj_get :: "venv \<Rightarrow> nat \<Rightarrow> jsval \<Rightarrow> jsval \<Rightarrow> jsval option act" where
  "obj_get E a key recv = liftH (\<lambda>H. object_get (x_env E) (x_fuel E) H a key (Some recv))"

text \<open>Reading from undefined or null is a TypeError thrown by the instruction itself.\<close>

definition with_base :: "venv \<Rightarrow> jsval \<Rightarrow> (nat \<Rightarrow> unit act) \<Rightarrow> unit act" where
  "with_base E v f =
     thenA (baseObject E v) (\<lambda>obj. case obj of None \<Rightarrow> vm_throw E (PErr TypeErr) | Some a \<Rightarrow> f a)"

definition getProp_exec :: "venv \<Rightarrow> ustr \<Rightarrow> unit act" where
  "getProp_exec E g =
     thenA (top_val 1) (\<lambda>v. with_base E v (\<lambda>a.
       thenA (obj_get_str E a g v) (\<lambda>r. seqA (put_top 1 (nilSafe (optval r))) next_pc)))"

definition getPropRecv_exec :: "venv \<Rightarrow> ustr \<Rightarrow> unit act" where
  "getPropRecv_exec E g =
     thenA (top_val 2) (\<lambda>recv. thenA (top_val 1) (\<lambda>v. with_base E v (\<lambda>a.
       thenA (obj_get_str E a g recv) (\<lambda>r.
         seqA (put_top 2 (nilSafe (optval r))) (seqA (add_sp (-1)) next_pc)))))"

text \<open>The callee of a method call: an unknown member is left as a marker that names it.\<close>

definition member_cell :: "ustr \<Rightarrow> jsval option \<Rightarrow> cell" where
  "member_cell n r = (case r of None \<Rightarrow> CMember n | Some v \<Rightarrow> CVal v)"

definition getPropRecvCallee_exec :: "venv \<Rightarrow> ustr \<Rightarrow> unit act" where
  "getPropRecvCallee_exec E g =
     thenA (top_val 2) (\<lambda>recv. thenA (top_val 1) (\<lambda>v. with_base E v (\<lambda>a.
       thenA (obj_get_str E a g recv) (\<lambda>r. seqA (put_top 1 (member_cell g r)) next_pc))))"

definition getPropCallee_exec :: "venv \<Rightarrow> ustr \<Rightarrow> unit act" where
  "getPropCallee_exec E g =
     thenA (top_val 1) (\<lambda>v. with_base E v (\<lambda>a.
       thenA (obj_get_str E a g v) (\<lambda>r. seqA (push (member_cell g r)) next_pc)))"

definition getElem_exec :: "venv \<Rightarrow> unit act" where
  "getElem_exec E =
     thenA (top_val 2) (\<lambda>v. with_base E v (\<lambda>a.
       thenA (top_val 1) (\<lambda>k. thenA (toPropertyKey E k) (\<lambda>k.
         thenA (obj_get E a k v) (\<lambda>r.
           seqA (put_top 2 (nilSafe (optval r))) (seqA (add_sp (-1)) next_pc))))))"

definition getElemRecv_exec :: "venv \<Rightarrow> unit act" where
  "getElemRecv_exec E =
     thenA (top_val 3) (\<lambda>recv. thenA (top_val 1) (\<lambda>v. with_base E v (\<lambda>a.
       thenA (top_val 2) (\<lambda>k. thenA (toPropertyKey E k) (\<lambda>k.
         thenA (obj_get E a k recv) (\<lambda>r.
           seqA (put_top 3 (nilSafe (optval r))) (seqA (add_sp (-2)) next_pc)))))))"

definition getKey_exec :: "venv \<Rightarrow> unit act" where
  "getKey_exec E =
     thenA (top_val 2) (\<lambda>v. thenA (baseObject E v) (\<lambda>obj. thenA (top_val 1) (\<lambda>k.
       case obj of
         None \<Rightarrow> vm_throw E (PErr TypeErr)
       | Some a \<Rightarrow> thenA (obj_get E a k v) (\<lambda>r.
           seqA (put_top 2 (nilSafe (optval r))) (seqA (add_sp (-1)) next_pc)))))"

text \<open>\<open>propName.string()\<close>, the name in the marker: empty for a symbol.\<close>

definition key_name :: "jsval \<Rightarrow> ustr" where
  "key_name k = (case k of VString n \<Rightarrow> n | _ \<Rightarrow> [])"

definition getElemCallee_exec :: "venv \<Rightarrow> unit act" where
  "getElemCallee_exec E =
     thenA (top_val 2) (\<lambda>v. with_base E v (\<lambda>a.
       thenA (top_val 1) (\<lambda>k. thenA (toPropertyKey E k) (\<lambda>k.
         thenA (obj_get E a k v) (\<lambda>r. seqA (put_top 1 (member_cell (key_name k) r)) next_pc)))))"

definition getElemRecvCallee_exec :: "venv \<Rightarrow> unit act" where
  "getElemRecvCallee_exec E =
     thenA (top_val 3) (\<lambda>recv. thenA (top_val 2) (\<lambda>v. with_base E v (\<lambda>a.
       thenA (top_val 1) (\<lambda>k. thenA (toPropertyKey E k) (\<lambda>k.
         thenA (obj_get E a k recv) (\<lambda>r.
           seqA (put_top 2 (member_cell (key_name k) r)) (seqA (add_sp (-1)) next_pc)))))))"

text \<open>After an assignment: the operands are popped, the value is kept or not.\<close>

definition set_done :: "int \<Rightarrow> jsval option \<Rightarrow> unit act" where
  "set_done k v =
     seqA (add_sp (- k)) (seqA (case v of Some v \<Rightarrow> put_top 1 (CVal v) | None \<Rightarrow> returnA ()) next_pc)"

definition set_elem :: "venv \<Rightarrow> jsval act" where
  "set_elem E =
     thenA (thenA (top_val 3) (ToObject E)) (\<lambda>a. thenA (thenA (top_val 2) (toPropertyKey E)) (\<lambda>k.
       thenA (top_val 1) (\<lambda>v. seqA (obj_write E a k v None False) (returnA v))))"

definition setElem_exec :: "venv \<Rightarrow> unit act" where
  "setElem_exec E = thenA (set_elem E) (\<lambda>v. set_done 2 (Some v))"

definition setElemP_exec :: "venv \<Rightarrow> unit act" where
  "setElemP_exec E = thenA (set_elem E) (\<lambda>_. set_done 3 None)"

definition setElem1_exec :: "venv \<Rightarrow> unit act" where
  "setElem1_exec E =
     thenA (thenA (top_val 3) (ToObject E)) (\<lambda>a. thenA (top_val 2) (\<lambda>k. thenA (top_val 1) (\<lambda>v.
       seqA (obj_write E a k v None True) (set_done 2 None))))"

text \<open>In strict mode a write to a primitive goes through \<open>set\<close>, with the primitive as receiver.\<close>

definition strict_write :: "venv \<Rightarrow> jsval \<Rightarrow> jsval \<Rightarrow> jsval \<Rightarrow> unit act" where
  "strict_write E receiver k v =
     (case receiver of
        VObject a \<Rightarrow> obj_write E a k v None True
      | _ \<Rightarrow> thenA (ToObject E receiver) (\<lambda>a. obj_write E a k v (Some receiver) True))"

definition set_elem_strict :: "venv \<Rightarrow> jsval act" where
  "set_elem_strict E =
     thenA (thenA (top_val 2) (toPropertyKey E)) (\<lambda>k. thenA (top_val 3) (\<lambda>receiver.
       thenA (top_val 1) (\<lambda>v. seqA (strict_write E receiver k v) (returnA v))))"

definition setElemStrict_exec :: "venv \<Rightarrow> unit act" where
  "setElemStrict_exec E = thenA (set_elem_strict E) (\<lambda>v. set_done 2 (Some v))"

definition setElemStrictP_exec :: "venv \<Rightarrow> unit act" where
  "setElemStrictP_exec E = thenA (set_elem_strict E) (\<lambda>_. set_done 3 None)"

definition set_elem_recv :: "venv \<Rightarrow> bool \<Rightarrow> jsval act" where
  "set_elem_recv E strict =
     thenA (top_val 4) (\<lambda>receiver. thenA (thenA (top_val 3) (toPropertyKey E)) (\<lambda>k.
       thenA (top_val 2) (\<lambda>ob. thenA (top_val 1) (\<lambda>v. thenA (ToObject E ob) (\<lambda>a.
         seqA (obj_write E a k v (Some receiver) strict) (returnA v))))))"

definition setElemRecv_exec :: "venv \<Rightarrow> unit act" where
  "setElemRecv_exec E = thenA (set_elem_recv E False) (\<lambda>v. set_done 3 (Some v))"

definition setElemRecvStrict_exec :: "venv \<Rightarrow> unit act" where
  "setElemRecvStrict_exec E = thenA (set_elem_recv E True) (\<lambda>v. set_done 3 (Some v))"

definition setElemRecvP_exec :: "venv \<Rightarrow> unit act" where
  "setElemRecvP_exec E = thenA (set_elem_recv E False) (\<lambda>_. set_done 4 None)"

definition setElemRecvStrictP_exec :: "venv \<Rightarrow> unit act" where
  "setElemRecvStrictP_exec E = thenA (set_elem_recv E True) (\<lambda>_. set_done 4 None)"

definition set_prop :: "venv \<Rightarrow> ustr \<Rightarrow> jsval act" where
  "set_prop E p =
     thenA (top_val 1) (\<lambda>v. thenA (thenA (top_val 2) (ToObject E)) (\<lambda>a.
       seqA (obj_write_str E a p v None False) (returnA v)))"

definition setProp_exec :: "venv \<Rightarrow> ustr \<Rightarrow> unit act" where
  "setProp_exec E p = thenA (set_prop E p) (\<lambda>v. set_done 1 (Some v))"

definition setPropP_exec :: "venv \<Rightarrow> ustr \<Rightarrow> unit act" where
  "setPropP_exec E p = thenA (set_prop E p) (\<lambda>_. set_done 2 None)"

definition set_prop_strict :: "venv \<Rightarrow> ustr \<Rightarrow> jsval act" where
  "set_prop_strict E p =
     thenA (top_val 2) (\<lambda>receiver. thenA (top_val 1) (\<lambda>v.
       seqA (case receiver of
           VObject a \<Rightarrow> obj_write_str E a p v None True
         | _ \<Rightarrow> thenA (ToObject E receiver) (\<lambda>a. obj_write_str E a p v (Some receiver) True))
         (returnA v)))"

definition setPropStrict_exec :: "venv \<Rightarrow> ustr \<Rightarrow> unit act" where
  "setPropStrict_exec E p = thenA (set_prop_strict E p) (\<lambda>v. set_done 1 (Some v))"

definition setPropStrictP_exec :: "venv \<Rightarrow> ustr \<Rightarrow> unit act" where
  "setPropStrictP_exec E p = thenA (set_prop_strict E p) (\<lambda>_. set_done 2 None)"

definition set_prop_recv :: "venv \<Rightarrow> ustr \<Rightarrow> bool \<Rightarrow> jsval act" where
  "set_prop_recv E p strict =
     thenA (top_val 3) (\<lambda>receiver. thenA (top_val 2) (\<lambda>ob. thenA (top_val 1) (\<lambda>v.
       thenA (ToObject E ob) (\<lambda>a. seqA (obj_write_str E a p v (Some receiver) strict) (returnA v)))))"

definition setPropRecv_exec :: "venv \<Rightarrow> ustr \<Rightarrow> unit act" where
  "setPropRecv_exec E p = thenA (set_prop_recv E p False) (\<lambda>v. set_done 2 (Some v))"

definition setPropRecvStrict_exec :: "venv \<Rightarrow> ustr \<Rightarrow> unit act" where
  "setPropRecvStrict_exec E p = thenA (set_prop_recv E p True) (\<lambda>v. set_done 2 (Some v))"

definition setPropRecvP_exec :: "venv \<Rightarrow> ustr \<Rightarrow> unit act" where
  "setPropRecvP_exec E p = thenA (set_prop_recv E p False) (\<lambda>_. set_done 3 None)"

definition setPropRecvStrictP_exec :: "venv \<Rightarrow> ustr \<Rightarrow> unit act" where
  "setPropRecvStrictP_exec E p = thenA (set_prop_recv E p True) (\<lambda>_. set_done 3 None)"

definition deleteElem_exec :: "venv \<Rightarrow> unit act" where
  "deleteElem_exec E =
     thenA (thenA (top_val 2) (ToObject E)) (\<lambda>a. thenA (thenA (top_val 1) (toPropertyKey E)) (\<lambda>k.
       thenA (liftH (\<lambda>H. object_delete (x_env E) H a k False)) (\<lambda>b.
         seqA (put_top 2 (CVal (VBool b))) (seqA (add_sp (-1)) next_pc))))"

definition deleteElemStrict_exec :: "venv \<Rightarrow> unit act" where
  "deleteElemStrict_exec E =
     thenA (thenA (top_val 2) (ToObject E)) (\<lambda>a. thenA (thenA (top_val 1) (toPropertyKey E)) (\<lambda>k.
       thenA (liftH (\<lambda>H. object_delete (x_env E) H a k True)) (\<lambda>_.
         seqA (put_top 2 (CVal (VBool True))) (seqA (add_sp (-1)) next_pc))))"

definition deleteProp_exec :: "venv \<Rightarrow> ustr \<Rightarrow> unit act" where
  "deleteProp_exec E d =
     thenA (thenA (top_val 1) (ToObject E)) (\<lambda>a. thenA (liftH (\<lambda>H. Some (deleteStr H a d False))) (\<lambda>b.
       seqA (put_top 1 (CVal (VBool b))) next_pc))"

definition deletePropStrict_exec :: "venv \<Rightarrow> ustr \<Rightarrow> unit act" where
  "deletePropStrict_exec E d =
     thenA (thenA (top_val 1) (ToObject E)) (\<lambda>a. thenA (liftH (\<lambda>H. Some (deleteStr H a d True))) (\<lambda>_.
       seqA (put_top 1 (CVal (VBool True))) next_pc))"

section \<open>Object and class literals\<close>

definition to_flag :: "bool \<Rightarrow> flag" where
  "to_flag b = (if b then FLAG_TRUE else FLAG_FALSE)"

definition putProp_exec :: "ustr \<Rightarrow> unit act" where
  "putProp_exec p =
     thenA (thenA (top_val 2) toObject) (\<lambda>a. thenA (top_val 1) (\<lambda>v.
       seqA (liftH (\<lambda>H. Some (with_obj H a (\<lambda>ob. (H(a \<mapsto> base_putProp p v True True True ob), Inr ())))))
         (seqA (add_sp (-1)) next_pc)))"

definition definePropKeyed_exec :: "venv \<Rightarrow> ustr \<Rightarrow> unit act" where
  "definePropKeyed_exec E p =
     thenA (thenA (top_val 2) toObject) (\<lambda>a. thenA (top_val 1) (\<lambda>v.
       thenA (liftH (\<lambda>H. Some (defineOwnPropertyStr (x_env E) H a p (data_desc v) True)))
         (\<lambda>_. seqA (add_sp (-1)) next_pc)))"

definition defineProp_exec :: "venv \<Rightarrow> unit act" where
  "defineProp_exec E =
     thenA (thenA (top_val 3) toObject) (\<lambda>a. thenA (top_val 2) (\<lambda>k. thenA (top_val 1) (\<lambda>v.
       thenA (liftH (\<lambda>H. object_defineOwnProperty (x_env E) H a k (data_desc v) True))
         (\<lambda>_. seqA (add_sp (-2)) next_pc))))"

text \<open>\<open>funcName\<close>: a symbol's description in brackets.\<close>

definition funcName :: "venv \<Rightarrow> ustr \<Rightarrow> jsval \<Rightarrow> go_error + ustr" where
  "funcName E prefix n =
     (case n of
        VSymbol x \<Rightarrow> Inr (case x_symdesc E x of None \<Rightarrow> prefix | Some d \<Rightarrow> prefix @ u ''['' @ d @ u '']'')
      | _ \<Rightarrow> mapR ((@) prefix) (toString (h_of E) n))"

definition name_function :: "venv \<Rightarrow> nat \<Rightarrow> ustr \<Rightarrow> unit act" where
  "name_function E f name =
     unitA (liftH (\<lambda>H. Some (defineOwnPropertyStr (x_env E) H f (u ''name'')
       (empty_desc\<lparr>pd_value := Some (VString name), pd_configurable := FLAG_TRUE\<rparr>) True)))"

definition method_desc :: "jsval \<Rightarrow> bool \<Rightarrow> propdesc" where
  "method_desc v enumerable = (data_desc v)\<lparr>pd_enumerable := to_flag enumerable\<rparr>"

definition defineMethod_exec :: "venv \<Rightarrow> bool \<Rightarrow> unit act" where
  "defineMethod_exec E enumerable =
     thenA (thenA (top_val 3) toObject) (\<lambda>a. thenA (top_val 2) (\<lambda>k.
       thenA (thenA (top_val 1) toObject) (\<lambda>m. thenA (liftR (funcName E [] k)) (\<lambda>n.
         seqA (name_function E m n)
           (thenA (liftH (\<lambda>H. object_defineOwnProperty (x_env E) H a k (method_desc (VObject m) enumerable) True))
             (\<lambda>_. seqA (add_sp (-2)) next_pc))))))"

definition defineMethodKeyed_exec :: "venv \<Rightarrow> ustr \<Rightarrow> bool \<Rightarrow> unit act" where
  "defineMethodKeyed_exec E key enumerable =
     thenA (thenA (top_val 2) toObject) (\<lambda>a. thenA (thenA (top_val 1) toObject) (\<lambda>m.
       thenA (liftH (\<lambda>H. Some (defineOwnPropertyStr (x_env E) H a key (method_desc (VObject m) enumerable) True)))
         (\<lambda>_. seqA (add_sp (-1)) next_pc)))"

definition getter_desc :: "jsval \<Rightarrow> flag \<Rightarrow> propdesc" where
  "getter_desc f enumerable =
     empty_desc\<lparr>pd_getter := Some f, pd_configurable := FLAG_TRUE, pd_enumerable := enumerable\<rparr>"

definition setter_desc :: "jsval \<Rightarrow> flag \<Rightarrow> propdesc" where
  "setter_desc f enumerable =
     empty_desc\<lparr>pd_setter := Some f, pd_configurable := FLAG_TRUE, pd_enumerable := enumerable\<rparr>"

definition defineGetterKeyed_exec :: "venv \<Rightarrow> ustr \<Rightarrow> bool \<Rightarrow> unit act" where
  "defineGetterKeyed_exec E key enumerable =
     thenA (thenA (top_val 2) toObject) (\<lambda>a. thenA (thenA (top_val 1) toObject) (\<lambda>m.
       seqA (name_function E m (u ''get '' @ key))
         (thenA (liftH (\<lambda>H. Some (defineOwnPropertyStr (x_env E) H a key
               (getter_desc (VObject m) (to_flag enumerable)) True)))
           (\<lambda>_. seqA (add_sp (-1)) next_pc))))"

definition defineSetterKeyed_exec :: "venv \<Rightarrow> ustr \<Rightarrow> bool \<Rightarrow> unit act" where
  "defineSetterKeyed_exec E key enumerable =
     thenA (thenA (top_val 2) toObject) (\<lambda>a. thenA (thenA (top_val 1) toObject) (\<lambda>m.
       seqA (name_function E m (u ''set '' @ key))
         (thenA (liftH (\<lambda>H. Some (defineOwnPropertyStr (x_env E) H a key
               (setter_desc (VObject m) (to_flag enumerable)) True)))
           (\<lambda>_. seqA (add_sp (-1)) next_pc))))"

definition define_accessor :: "venv \<Rightarrow> ustr \<Rightarrow> (jsval \<Rightarrow> propdesc) \<Rightarrow> unit act" where
  "define_accessor E prefix desc =
     thenA (thenA (top_val 3) toObject) (\<lambda>a. thenA (top_val 2) (\<lambda>k.
       thenA (thenA (top_val 1) toObject) (\<lambda>m. thenA (liftR (funcName E prefix k)) (\<lambda>n.
         seqA (name_function E m n)
           (thenA (liftH (\<lambda>H. object_defineOwnProperty (x_env E) H a k (desc (VObject m)) True))
             (\<lambda>_. seqA (add_sp (-2)) next_pc))))))"

definition defineGetter_exec :: "venv \<Rightarrow> bool \<Rightarrow> unit act" where
  "defineGetter_exec E enumerable =
     define_accessor E (u ''get '') (\<lambda>f. getter_desc f (to_flag enumerable))"

text \<open>The setter of a computed key is enumerable whatever the instruction says.\<close>

definition defineSetter_exec :: "venv \<Rightarrow> bool \<Rightarrow> unit act" where
  "defineSetter_exec E enumerable = define_accessor E (u ''set '') (\<lambda>f. setter_desc f FLAG_TRUE)"

definition setProto_exec :: "venv \<Rightarrow> unit act" where
  "setProto_exec E =
     thenA (top_val 2) (\<lambda>ob. thenA (top_val 1) (\<lambda>arg.
       seqA (if ob = VUndefined \<or> ob = VNull then raise (PErr TypeErr)
             else case (arg, ob) of
                 (VNull, VObject a) \<Rightarrow> unitA (liftH (\<lambda>H. setProto (x_env E) (x_fuel E) H a None True))
               | (VObject p, VObject a) \<Rightarrow> unitA (liftH (\<lambda>H. setProto (x_env E) (x_fuel E) H a (Some p) True))
               | _ \<Rightarrow> returnA ())
         (seqA (add_sp (-1)) next_pc)))"

definition newObject_exec :: "venv \<Rightarrow> unit act" where
  "newObject_exec E s =
     (let a = x_fresh E (v_heap s) in
      seqA (push (CVal (VObject a))) next_pc
        (s\<lparr>v_heap := (v_heap s)(a \<mapsto> \<lparr>o_prototype = Some (e_objectProto (x_env E)), o_extensible = True,
            o_values = Map.empty, o_propNames = [], o_lastSorted = 0, o_idxCount = 0, o_symValues = None\<rparr>)\<rparr>))"

section \<open>Instance and membership tests\<close>

definition instanceof_exec :: "venv \<Rightarrow> nat \<Rightarrow> (oheap \<Rightarrow> jsval \<Rightarrow> (oheap, bool) outcome) \<Rightarrow> unit act" where
  "instanceof_exec E symHasInstance hasInst =
     thenA (top_val 2) (\<lambda>left. thenA (thenA (top_val 1) toObject) (\<lambda>right.
       thenA (liftH (\<lambda>H. instanceOfOperator (x_env E) (x_fuel E) symHasInstance hasInst H left right)) (\<lambda>b.
         seqA (put_top 2 (CVal (VBool b))) (seqA (add_sp (-1)) next_pc))))"

definition in_exec :: "venv \<Rightarrow> unit act" where
  "in_exec E =
     thenA (top_val 2) (\<lambda>left. thenA (thenA (top_val 1) toObject) (\<lambda>right.
       thenA (liftB (\<lambda>H. object_hasProperty (x_env E) (x_fuel E) H right left)) (\<lambda>b.
         seqA (put_top 2 (CVal (VBool b))) (seqA (add_sp (-1)) next_pc))))"

section \<open>References\<close>

definition push_ref :: "ref \<Rightarrow> unit act" where
  "push_ref r = updA (\<lambda>s. s\<lparr>v_refStack := v_refStack s @ [r]\<rparr>)"

definition pop_ref :: "ref act" where
  "pop_ref s =
     (if v_refStack s = [] then (s, Inl (PErr GoPanic))
      else (s\<lparr>v_refStack := butlast (v_refStack s)\<rparr>, Inr (last (v_refStack s))))"

definition elem_ref :: "venv \<Rightarrow> bool \<Rightarrow> unit act" where
  "elem_ref E strict =
     thenA (thenA (top_val 2) (ToObject E)) (\<lambda>a. thenA (top_val 1) (\<lambda>k.
       seqA (push_ref (ObjRef a k None strict False)) (seqA (add_sp (-2)) next_pc)))"

definition getElemRef_exec :: "venv \<Rightarrow> unit act" where
  "getElemRef_exec E = elem_ref E False"

definition getElemRefStrict_exec :: "venv \<Rightarrow> unit act" where
  "getElemRefStrict_exec E = elem_ref E True"

definition elem_ref_recv :: "venv \<Rightarrow> bool \<Rightarrow> unit act" where
  "elem_ref_recv E strict =
     thenA (thenA (top_val 1) (ToObject E)) (\<lambda>a. thenA (top_val 2) (\<lambda>k. thenA (top_val 3) (\<lambda>this.
       seqA (push_ref (ObjRef a k (Some this) strict False)) (seqA (add_sp (-3)) next_pc))))"

definition getElemRefRecv_exec :: "venv \<Rightarrow> unit act" where
  "getElemRefRecv_exec E = elem_ref_recv E False"

definition getElemRefRecvStrict_exec :: "venv \<Rightarrow> unit act" where
  "getElemRefRecvStrict_exec E = elem_ref_recv E True"

definition prop_ref :: "venv \<Rightarrow> ustr \<Rightarrow> bool \<Rightarrow> unit act" where
  "prop_ref E p strict =
     thenA (thenA (top_val 1) (ToObject E)) (\<lambda>a.
       seqA (push_ref (ObjStrRef a p None strict False)) (seqA (add_sp (-1)) next_pc))"

definition getPropRef_exec :: "venv \<Rightarrow> ustr \<Rightarrow> unit act" where
  "getPropRef_exec E p = prop_ref E p False"

definition getPropRefStrict_exec :: "venv \<Rightarrow> ustr \<Rightarrow> unit act" where
  "getPropRefStrict_exec E p = prop_ref E p True"

definition prop_ref_recv :: "venv \<Rightarrow> ustr \<Rightarrow> bool \<Rightarrow> unit act" where
  "prop_ref_recv E p strict =
     thenA (top_val 2) (\<lambda>this. thenA (thenA (top_val 1) (ToObject E)) (\<lambda>a.
       seqA (push_ref (ObjStrRef a p (Some this) strict False)) (seqA (add_sp (-2)) next_pc)))"

definition getPropRefRecv_exec :: "venv \<Rightarrow> ustr \<Rightarrow> unit act" where
  "getPropRefRecv_exec E p = prop_ref_recv E p False"

definition getPropRefRecvStrict_exec :: "venv \<Rightarrow> ustr \<Rightarrow> unit act" where
  "getPropRefRecvStrict_exec E p = prop_ref_recv E p True"

text \<open>\<open>getValue\<close> leaves the reference, its key converted, on the reference stack.\<close>

definition getValue_exec :: "venv \<Rightarrow> unit act" where
  "getValue_exec E =
     thenA (readA v_refStack) (\<lambda>refs.
       if refs = [] then crash
       else thenA (ref_get E (last refs)) (\<lambda>(r, v).
         seqA (updA (\<lambda>s. s\<lparr>v_refStack := butlast (v_refStack s) @ [r]\<rparr>)) (seqA (push (nilSafe v)) next_pc)))"

definition putValue_exec :: "venv \<Rightarrow> unit act" where
  "putValue_exec E = thenA pop_ref (\<lambda>r. thenA (top 1) (\<lambda>c. seqA (ref_set E r c) next_pc))"

definition popRef_exec :: "unit act" where
  "popRef_exec = thenA pop_ref (\<lambda>_. next_pc)"

definition putValueP_exec :: "venv \<Rightarrow> unit act" where
  "putValueP_exec E =
     thenA pop_ref (\<lambda>r. thenA (top 1) (\<lambda>c. seqA (ref_set E r c) (seqA (add_sp (-1)) next_pc)))"

definition initValueP_exec :: "venv \<Rightarrow> unit act" where
  "initValueP_exec E =
     thenA pop_ref (\<lambda>r. thenA (top 1) (\<lambda>c. seqA (ref_init E r c) (seqA (add_sp (-1)) next_pc)))"

section \<open>Bindings in scopes\<close>

text \<open>The operand of a scope instruction: 8 bits for the level, 24 for the index.\<close>

definition op_level :: "32 word \<Rightarrow> nat" where
  "op_level x = unat (drop_bit 24 x)"

definition op_index :: "32 word \<Rightarrow> int" where
  "op_index x = uint (x AND 0x00FFFFFF)"

text \<open>\<open>stash = stash.outer\<close>, \<open>n\<close> times; the result may be nil.\<close>

fun outer_stash :: "nat \<Rightarrow> nat option \<Rightarrow> nat option act" where
  "outer_stash 0 st = returnA st"
| "outer_stash (Suc n) st =
     (case st of None \<Rightarrow> crash | Some a \<Rightarrow> thenA (stash_at a) (\<lambda>x. outer_stash n (s_outer x)))"

definition stash_of_op :: "32 word \<Rightarrow> nat act" where
  "stash_of_op x =
     thenA (readA v_stash) (\<lambda>st. thenA (outer_stash (op_level x) st) (\<lambda>st.
       case st of None \<Rightarrow> crash | Some a \<Rightarrow> returnA a))"

definition setLocalLex :: "32 word \<Rightarrow> unit act" where
  "setLocalLex x =
     thenA (top 1) (\<lambda>c. thenA (stash_of_op x) (\<lambda>a. thenA (getByIdx a (op_index x)) (\<lambda>old.
       if old = CNil then raise (PErr ReferenceErr) else seqA (set_cell a (op_index x) c) next_pc)))"

definition initLocal :: "32 word \<Rightarrow> unit act" where
  "initLocal x =
     thenA (top 1) (\<lambda>c. thenA (stash_of_op x) (\<lambda>a. seqA (initByIdx a (op_index x) c) next_pc))"

definition storeStash_exec :: "32 word \<Rightarrow> unit act" where
  "storeStash_exec x = initLocal x"

definition storeStashP_exec :: "32 word \<Rightarrow> unit act" where
  "storeStashP_exec x = then_pop (initLocal x)"

definition storeStashLex_exec :: "32 word \<Rightarrow> unit act" where
  "storeStashLex_exec x = setLocalLex x"

definition storeStashLexP_exec :: "32 word \<Rightarrow> unit act" where
  "storeStashLexP_exec x = then_pop (setLocalLex x)"

definition initStash_exec :: "32 word \<Rightarrow> unit act" where
  "initStash_exec x = initLocal x"

definition initStashP_exec :: "32 word \<Rightarrow> unit act" where
  "initStashP_exec x = then_pop (initLocal x)"

definition loadStash_exec :: "32 word \<Rightarrow> unit act" where
  "loadStash_exec x =
     thenA (stash_of_op x) (\<lambda>a. thenA (getByIdx a (op_index x)) (\<lambda>c. seqA (push (nilSafe c)) next_pc))"

definition loadStashLex_exec :: "venv \<Rightarrow> 32 word \<Rightarrow> unit act" where
  "loadStashLex_exec E x =
     thenA (stash_of_op x) (\<lambda>a. thenA (getByIdx a (op_index x)) (\<lambda>c.
       if c = CNil then vm_throw E (PErr ReferenceErr) else seqA (push c) next_pc))"

text \<open>The scope of the global lexical bindings, which the machine starts with.\<close>

definition global_stash :: nat where
  "global_stash = 0"

definition initGlobalP_exec :: "ustr \<Rightarrow> unit act" where
  "initGlobalP_exec name =
     seqA (add_sp (-1)) (thenA (top 0) (\<lambda>c. seqA (initByName global_stash name c) next_pc))"

text \<open>\<open>initGlobal\<close> reads the cell above the top of the stack.\<close>

definition initGlobal_exec :: "ustr \<Rightarrow> unit act" where
  "initGlobal_exec name = thenA (top 0) (\<lambda>c. seqA (initByName global_stash name c) next_pc)"

text \<open>
  The scopes scanned for a name, at most \<open>n\<close> of them: the first that has it, with its value, or
  the scope reached.
\<close>

fun scan_scopes :: "venv \<Rightarrow> ustr \<Rightarrow> nat \<Rightarrow> nat option \<Rightarrow> ((nat \<times> cell) + nat option) act" where
  "scan_scopes E name 0 st = returnA (Inr st)"
| "scan_scopes E name (Suc n) st =
     (case st of
        None \<Rightarrow> crash
      | Some a \<Rightarrow> thenA (getByName E a name) (\<lambda>r. case r of
            Some v \<Rightarrow> returnA (Inl (a, v))
          | None \<Rightarrow> thenA (stash_at a) (\<lambda>x. scan_scopes E name n (s_outer x))))"

definition push_callee :: "bool \<Rightarrow> nat option \<Rightarrow> unit act" where
  "push_callee callee obj =
     (if callee then push (case obj of Some a \<Rightarrow> CVal (VObject a) | None \<Rightarrow> CVal VUndefined)
      else returnA ())"

definition load_mixed :: "venv \<Rightarrow> ustr \<Rightarrow> nat \<Rightarrow> bool \<Rightarrow> (nat option \<Rightarrow> unit act) \<Rightarrow> unit act" where
  "load_mixed E name level callee not_found =
     thenA (readA v_stash) (\<lambda>st. thenA (scan_scopes E name level st) (\<lambda>r. case r of
         Inl (a, v) \<Rightarrow>
           thenA (stash_at a) (\<lambda>x. seqA (push_callee callee (s_obj x)) (seqA (push v) next_pc))
       | Inr st \<Rightarrow> seqA (push_callee callee None) (not_found st)))"

definition loadMixed_exec :: "venv \<Rightarrow> ustr \<Rightarrow> 32 word \<Rightarrow> bool \<Rightarrow> unit act" where
  "loadMixed_exec E name x callee =
     load_mixed E name (op_level x) callee (\<lambda>st. seqA
       (case st of None \<Rightarrow> returnA () | Some a \<Rightarrow> thenA (getByIdx a (op_index x)) (\<lambda>c. push (nilSafe c))) next_pc)"

definition loadMixedLex_exec :: "venv \<Rightarrow> ustr \<Rightarrow> 32 word \<Rightarrow> bool \<Rightarrow> unit act" where
  "loadMixedLex_exec E name x callee =
     load_mixed E name (op_level x) callee (\<lambda>st. case st of
         None \<Rightarrow> next_pc
       | Some a \<Rightarrow> thenA (getByIdx a (op_index x)) (\<lambda>c.
           if c = CNil then vm_throw E (PErr ReferenceErr) else seqA (push c) next_pc))"

definition loadMixedStack_exec :: "venv \<Rightarrow> ustr \<Rightarrow> int \<Rightarrow> nat \<Rightarrow> bool \<Rightarrow> unit act" where
  "loadMixedStack_exec E name idx level callee =
     load_mixed E name level callee (\<lambda>_. loadStack_exec idx)"

definition loadMixedStack1_exec :: "venv \<Rightarrow> ustr \<Rightarrow> int \<Rightarrow> nat \<Rightarrow> bool \<Rightarrow> unit act" where
  "loadMixedStack1_exec E name idx level callee =
     load_mixed E name level callee (\<lambda>_. loadStack1_exec idx)"

definition loadMixedStackLex_exec :: "venv \<Rightarrow> ustr \<Rightarrow> int \<Rightarrow> nat \<Rightarrow> bool \<Rightarrow> unit act" where
  "loadMixedStackLex_exec E name idx level callee =
     load_mixed E name level callee (\<lambda>_. loadStackLex_exec E idx)"

definition loadMixedStack1Lex_exec :: "venv \<Rightarrow> ustr \<Rightarrow> int \<Rightarrow> nat \<Rightarrow> bool \<Rightarrow> unit act" where
  "loadMixedStack1Lex_exec E name idx level callee =
     load_mixed E name level callee (\<lambda>_. loadStack1Lex_exec E idx)"

datatype varType = varTypeVar | varTypeLet | varTypeStrictConst | varTypeConst

definition newStashRef :: "varType \<Rightarrow> ustr \<Rightarrow> store \<Rightarrow> int \<Rightarrow> ref" where
  "newStashRef typ name w idx =
     (case typ of
        varTypeVar \<Rightarrow> StashRef name w idx
      | varTypeLet \<Rightarrow> StashRefLex name w idx
      | varTypeStrictConst \<Rightarrow> StashRefConst name w idx True
      | varTypeConst \<Rightarrow> StashRefConst name w idx False)"

text \<open>A reference by name in the first of \<open>n\<close> scopes that has one, or the scope reached.\<close>

fun scan_refs :: "venv \<Rightarrow> ustr \<Rightarrow> bool \<Rightarrow> nat \<Rightarrow> nat option \<Rightarrow> (ref + nat option) act" where
  "scan_refs E name strict 0 st = returnA (Inr st)"
| "scan_refs E name strict (Suc n) st =
     (case st of
        None \<Rightarrow> crash
      | Some a \<Rightarrow> thenA (getRefByName E a name strict) (\<lambda>r. case r of
            Some r \<Rightarrow> returnA (Inl r)
          | None \<Rightarrow> thenA (stash_at a) (\<lambda>x. scan_refs E name strict n (s_outer x))))"

definition resolve_mixed :: "venv \<Rightarrow> ustr \<Rightarrow> bool \<Rightarrow> nat \<Rightarrow> (nat option \<Rightarrow> vm \<Rightarrow> ref) \<Rightarrow> unit act" where
  "resolve_mixed E name strict level not_found =
     thenA (readA v_stash) (\<lambda>st. thenA (scan_refs E name strict level st) (\<lambda>r.
       thenA (readA (\<lambda>s. case r of Inl r \<Rightarrow> r | Inr st \<Rightarrow> not_found st s)) (\<lambda>r. seqA (push_ref r) next_pc)))"

definition resolveMixed_exec :: "venv \<Rightarrow> ustr \<Rightarrow> 32 word \<Rightarrow> varType \<Rightarrow> bool \<Rightarrow> unit act" where
  "resolveMixed_exec E name x typ strict =
     resolve_mixed E name strict (op_level x) (\<lambda>st s. case st of
         Some a \<Rightarrow> newStashRef typ name (InStash a) (op_index x)
       | None \<Rightarrow> UnresolvedRef name)"

definition resolveMixedStack_exec :: "venv \<Rightarrow> ustr \<Rightarrow> int \<Rightarrow> varType \<Rightarrow> nat \<Rightarrow> bool \<Rightarrow> unit act" where
  "resolveMixedStack_exec E name idx typ level strict =
     resolve_mixed E name strict level (\<lambda>_ s.
       newStashRef typ name OnStack (if idx > 0 then v_sb s + v_args s + idx else v_sb s - idx))"

definition resolveMixedStack1_exec :: "venv \<Rightarrow> ustr \<Rightarrow> int \<Rightarrow> varType \<Rightarrow> nat \<Rightarrow> bool \<Rightarrow> unit act" where
  "resolveMixedStack1_exec E name idx typ level strict =
     resolve_mixed E name strict level (\<lambda>_ s. newStashRef typ name OnStack (v_sb s + idx))"

text \<open>
  The loops over all scopes, out to nil. A scope is younger than the one around it, so no chain
  is longer than the number of scopes, which is the fuel.
\<close>

fun find_ref :: "venv \<Rightarrow> ustr \<Rightarrow> bool \<Rightarrow> nat \<Rightarrow> nat option \<Rightarrow> ref option act" where
  "find_ref E name strict n None = returnA None"
| "find_ref E name strict 0 (Some a) = crash"
| "find_ref E name strict (Suc n) (Some a) =
     thenA (getRefByName E a name strict) (\<lambda>r. case r of
         Some r \<Rightarrow> returnA (Some r)
       | None \<Rightarrow> thenA (stash_at a) (\<lambda>x. find_ref E name strict n (s_outer x)))"

definition find_ref_all :: "venv \<Rightarrow> ustr \<Rightarrow> bool \<Rightarrow> ref option act" where
  "find_ref_all E name strict s = find_ref E name strict (length (v_stashes s)) (v_stash s) s"

definition resolveVar1_exec :: "venv \<Rightarrow> ustr \<Rightarrow> unit act" where
  "resolveVar1_exec E name =
     thenA (find_ref_all E name False) (\<lambda>r.
       seqA (push_ref (case r of Some r \<Rightarrow> r | None \<Rightarrow> ObjStrRef (x_global E) name None False True)) next_pc)"

definition resolveVar1Strict_exec :: "venv \<Rightarrow> ustr \<Rightarrow> unit act" where
  "resolveVar1Strict_exec E name =
     thenA (find_ref_all E name True) (\<lambda>r. case r of
         Some r \<Rightarrow> seqA (push_ref r) next_pc
       | None \<Rightarrow>
           thenA (liftB (\<lambda>H. hasPropertyStr (x_fuel E) H (x_global E) name)) (\<lambda>has.
             seqA (push_ref (if has then ObjStrRef (x_global E) name None True True else UnresolvedRef name))
               next_pc))"

fun find_name :: "venv \<Rightarrow> ustr \<Rightarrow> nat \<Rightarrow> nat option \<Rightarrow> (nat \<times> cell) option act" where
  "find_name E name n None = returnA None"
| "find_name E name 0 (Some a) = crash"
| "find_name E name (Suc n) (Some a) =
     thenA (getByName E a name) (\<lambda>r. case r of
         Some v \<Rightarrow> returnA (Some (a, v))
       | None \<Rightarrow> thenA (stash_at a) (\<lambda>x. find_name E name n (s_outer x)))"

definition find_name_all :: "venv \<Rightarrow> ustr \<Rightarrow> (nat \<times> cell) option act" where
  "find_name_all E name s = find_name E name (length (v_stashes s)) (v_stash s) s"

definition global_value :: "venv \<Rightarrow> ustr \<Rightarrow> jsval option act" where
  "global_value E name = liftH (\<lambda>H. getStr (x_env E) (x_fuel E) H (x_global E) name None)"

definition loadDynamic_exec :: "venv \<Rightarrow> ustr \<Rightarrow> unit act" where
  "loadDynamic_exec E name =
     thenA (find_name_all E name) (\<lambda>r. case r of
         Some (_, v) \<Rightarrow> seqA (push v) next_pc
       | None \<Rightarrow> thenA (global_value E name) (\<lambda>v. case v of
             Some v \<Rightarrow> seqA (push (CVal v)) next_pc
           | None \<Rightarrow> vm_throw E (PErr ReferenceErr)))"

definition loadDynamicRef_exec :: "venv \<Rightarrow> ustr \<Rightarrow> unit act" where
  "loadDynamicRef_exec E name =
     thenA (find_name_all E name) (\<lambda>r. case r of
         Some (_, v) \<Rightarrow> seqA (push v) next_pc
       | None \<Rightarrow> thenA (global_value E name) (\<lambda>v.
           seqA (push (case v of Some v \<Rightarrow> CVal v | None \<Rightarrow> CUnresolved name)) next_pc))"

definition loadDynamicCallee_exec :: "venv \<Rightarrow> ustr \<Rightarrow> unit act" where
  "loadDynamicCallee_exec E name =
     thenA (find_name_all E name) (\<lambda>r. case r of
         Some (a, v) \<Rightarrow>
           thenA (stash_at a) (\<lambda>x. seqA (push_callee True (s_obj x)) (seqA (push v) next_pc))
       | None \<Rightarrow> thenA (global_value E name) (\<lambda>v. seqA (push_callee True None)
           (seqA (push (case v of Some v \<Rightarrow> CVal v | None \<Rightarrow> CUnresolved name)) next_pc)))"

text \<open>\<open>deleteVar\<close>: whether the name is found, and what deleting it gives.\<close>

fun delete_name_in :: "venv \<Rightarrow> ustr \<Rightarrow> nat \<Rightarrow> nat option \<Rightarrow> bool option act" where
  "delete_name_in E name n None = returnA None"
| "delete_name_in E name 0 (Some a) = crash"
| "delete_name_in E name (Suc n) (Some a) =
     thenA (stash_at a) (\<lambda>x. case s_obj x of
         Some obj \<Rightarrow> thenA (stashObjHas E obj name) (\<lambda>has.
           if has then thenA (liftH (\<lambda>H. Some (deleteStr H obj name False))) (\<lambda>b. returnA (Some b))
           else delete_name_in E name n (s_outer x))
       | None \<Rightarrow>
           (case map_of (s_names x) name of
              None \<Rightarrow> delete_name_in E name n (s_outer x)
            | Some idx \<Rightarrow>
                if idx AND (maskVar OR maskDeletable) = maskVar OR maskDeletable then
                  seqA (set_stash a (deleteBinding name x)) (returnA (Some True))
                else returnA (Some False)))"

definition delete_global :: "venv \<Rightarrow> ustr \<Rightarrow> bool act" where
  "delete_global E name =
     thenA (liftB (\<lambda>H. hasPropertyStr (x_fuel E) H (x_global E) name)) (\<lambda>has.
       if has then liftH (\<lambda>H. Some (deleteStr H (x_global E) name False)) else returnA True)"

definition deleteVar_exec :: "venv \<Rightarrow> ustr \<Rightarrow> unit act" where
  "deleteVar_exec E name =
     thenA (\<lambda>s. delete_name_in E name (length (v_stashes s)) (v_stash s) s) (\<lambda>r.
       thenA (case r of Some b \<Rightarrow> returnA b | None \<Rightarrow> delete_global E name) (\<lambda>b.
         seqA (push (CVal (VBool b))) next_pc))"

definition deleteGlobal_exec :: "venv \<Rightarrow> ustr \<Rightarrow> unit act" where
  "deleteGlobal_exec E name =
     thenA (delete_global E name) (\<lambda>b. seqA (push (CVal (VBool b))) next_pc)"

definition setGlobal :: "venv \<Rightarrow> ustr \<Rightarrow> cell \<Rightarrow> bool \<Rightarrow> unit act" where
  "setGlobal E name c strict =
     thenA (getRefByName E global_stash name strict) (\<lambda>r. case r of
         Some r \<Rightarrow> ref_set E r c
       | None \<Rightarrow>
           thenA (readA v_heap) (\<lambda>H. case H (x_global E) of
               None \<Rightarrow> crash
             | Some ob \<Rightarrow>
                 if strict \<and> \<not> hasOwnPropertyStr ob name then raise (PErr ReferenceErr)
                 else thenA (val_of c) (\<lambda>v. obj_write_str E (x_global E) name v None strict)))"

definition setGlobal_exec :: "venv \<Rightarrow> ustr \<Rightarrow> unit act" where
  "setGlobal_exec E name = thenA peek (\<lambda>c. seqA (setGlobal E name c False) next_pc)"

definition setGlobalStrict_exec :: "venv \<Rightarrow> ustr \<Rightarrow> unit act" where
  "setGlobalStrict_exec E name = thenA peek (\<lambda>c. seqA (setGlobal E name c True) next_pc)"

section \<open>Blocks and functions\<close>

text \<open>Cells \<open>i\<close> to \<open>i+n-1\<close> of the stack set to \<open>c\<close>.\<close>

definition fill :: "nat \<Rightarrow> nat \<Rightarrow> cell \<Rightarrow> cell list \<Rightarrow> cell list" where
  "fill i n c st = take i st @ replicate n c @ drop (i + n) st"

text \<open>\<open>vm.newStash\<close>, with the fields its callers set.\<close>

definition newStash :: "stash \<Rightarrow> vm \<Rightarrow> vm" where
  "newStash x s = s\<lparr>v_stashes := v_stashes s @ [x\<lparr>s_outer := v_stash s\<rparr>], v_stash := Some (length (v_stashes s))\<rparr>"

definition make_stash :: "nat \<Rightarrow> (ustr \<times> 32 word) list \<Rightarrow> funcType \<Rightarrow> stash" where
  "make_stash n names typ =
     \<lparr>s_values = replicate n CNil, s_extraArgs = [], s_names = names, s_obj = None, s_outer = None,
      s_funcType = typ\<rparr>"

text \<open>The locals of a block, all nil; the stack is as long as the code makes it.\<close>

definition alloc_locals :: "nat \<Rightarrow> unit act" where
  "alloc_locals n s =
     (let st = expand (v_sp s + int n - 1) (v_stack s) in
      if v_sp s < 0 \<or> int (length st) < v_sp s then (s\<lparr>v_stack := st\<rparr>, Inl (PErr GoPanic))
      else (s\<lparr>v_stack := fill (nat (v_sp s)) n CNil st, v_sp := v_sp s + int n\<rparr>, Inr ()))"

definition enterBlock_exec :: "(ustr \<times> 32 word) list \<Rightarrow> nat \<Rightarrow> nat \<Rightarrow> unit act" where
  "enterBlock_exec names stashSize stackSize =
     seqA (if stashSize > 0 then updA (newStash (make_stash stashSize names funcNone)) else returnA ())
       (seqA (alloc_locals stackSize) next_pc)"

definition enterCatchBlock_exec :: "(ustr \<times> 32 word) list \<Rightarrow> nat \<Rightarrow> nat \<Rightarrow> unit act" where
  "enterCatchBlock_exec names stashSize stackSize =
     seqA (updA (newStash (make_stash stashSize names funcNone)))
       (seqA (add_sp (-1)) (thenA (top 0) (\<lambda>c. thenA (readA v_stash) (\<lambda>a.
         seqA (case a of Some a \<Rightarrow> set_cell a 0 c | None \<Rightarrow> crash)
           (seqA (alloc_locals stackSize) next_pc)))))"

text \<open>\<open>vm.stash = vm.stash.outer\<close>\<close>

definition pop_stash :: "unit act" where
  "pop_stash =
     thenA (readA v_stash) (\<lambda>a. case a of
         None \<Rightarrow> crash
       | Some a \<Rightarrow> thenA (stash_at a) (\<lambda>x. updA (\<lambda>s. s\<lparr>v_stash := s_outer x\<rparr>)))"

definition leaveBlock_exec :: "nat \<Rightarrow> bool \<Rightarrow> unit act" where
  "leaveBlock_exec stackSize popStash =
     seqA (if popStash then pop_stash else returnA ()) (seqA (add_sp (- int stackSize)) next_pc)"

definition enterWith_exec :: "venv \<Rightarrow> unit act" where
  "enterWith_exec E =
     seqA (updA (newStash (make_stash 0 [] funcNone)))
       (thenA (top_val 1) (\<lambda>v. thenA (ToObject E v) (\<lambda>obj. thenA (readA v_stash) (\<lambda>a. case a of
           None \<Rightarrow> crash
         | Some a \<Rightarrow> thenA (stash_at a) (\<lambda>x.
             seqA (set_stash a (x\<lparr>s_obj := Some obj\<rparr>)) (seqA (add_sp (-1)) next_pc))))))"

definition leaveWith_exec :: "unit act" where
  "leaveWith_exec = seqA pop_stash next_pc"

definition copyStash_exec :: "unit act" where
  "copyStash_exec =
     thenA (readA v_stash) (\<lambda>a. case a of
         None \<Rightarrow> crash
       | Some a \<Rightarrow> thenA (stash_at a) (\<lambda>x.
           seqA (updA (\<lambda>s. s\<lparr>v_stashes := v_stashes s @
               [(make_stash 0 (s_names x) funcNone)\<lparr>s_values := s_values x, s_outer := s_outer x\<rparr>],
             v_stash := Some (length (v_stashes s))\<rparr>)) next_pc))"

text \<open>
  Go's \<open>copy(dst, src)\<close>, and the arguments of the running function: they lie on top of the
  stack when it is entered.
\<close>

definition go_copy :: "'a list \<Rightarrow> 'a list \<Rightarrow> 'a list" where
  "go_copy dst src = take (length dst) src @ drop (length src) dst"

definition args_ok :: "vm \<Rightarrow> bool" where
  "args_ok s \<longleftrightarrow> 0 \<le> v_args s \<and> v_args s \<le> v_sp s \<and> v_sp s \<le> int (length (v_stack s))"

definition args_of :: "vm \<Rightarrow> cell list" where
  "args_of s = drop (nat (v_sp s - v_args s)) (take (nat (v_sp s)) (v_stack s))"

text \<open>\<open>enterFunc\<close>: the arguments move to the scope, or stay on the stack and are completed there.\<close>

definition enterFunc_exec :: "(ustr \<times> 32 word) list \<Rightarrow> nat \<Rightarrow> nat \<Rightarrow> nat \<Rightarrow> funcType \<Rightarrow> bool \<Rightarrow> unit act" where
  "enterFunc_exec names stashSize stackSize numArgs typ argsToStash s =
     (if \<not> args_ok s then (s, Inl (PErr GoPanic))
      else
        let sp = nat (v_sp s); n = nat (v_args s); argv = args_of s; x = make_stash stashSize names typ;
            s = s\<lparr>v_sb := v_sp s - v_args s - 1\<rparr>
        in if argsToStash then
          if n \<le> numArgs \<and> stashSize < numArgs then (newStash x s, Inl (PErr GoPanic))
          else
            let vals = go_copy (s_values x) argv;
                x = (if numArgs < n then x\<lparr>s_values := vals, s_extraArgs := drop numArgs argv\<rparr>
                     else x\<lparr>s_values := fill n (numArgs - n) (CVal VUndefined) vals\<rparr>);
                sp = sp - n; st = expand (int sp + int stackSize - 1) (v_stack s)
            in ((newStash x s)\<lparr>v_stack := fill sp stackSize CNil st, v_sp := int (sp + stackSize),
                 v_pc := v_pc s + 1\<rparr>, Inr ())
        else
          let d = numArgs - n; st = expand (int sp + int (stackSize + d) - 1) (v_stack s)
          in ((newStash x s)\<lparr>v_args := int (max n numArgs),
               v_stack := fill (sp + d) stackSize CNil (fill sp d (CVal VUndefined) st),
               v_sp := int (sp + d + stackSize), v_pc := v_pc s + 1\<rparr>, Inr ()))"

definition enterFunc1_exec :: "(ustr \<times> 32 word) list \<Rightarrow> nat \<Rightarrow> nat \<Rightarrow> nat \<Rightarrow> funcType \<Rightarrow> unit act" where
  "enterFunc1_exec names stashSize numArgs argsToCopy typ s =
     (if \<not> args_ok s then (s, Inl (PErr GoPanic))
      else
        let n = nat (v_args s); argv = args_of s; x = make_stash stashSize names typ;
            s = s\<lparr>v_sb := v_sp s - v_args s - 1\<rparr>
        in if n < argsToCopy \<and> stashSize < argsToCopy then (newStash x s, Inl (PErr GoPanic))
        else
          let x = (if argsToCopy < n then
                x\<lparr>s_values := go_copy (s_values x) (take argsToCopy argv),
                  s_extraArgs := (if numArgs < n then drop numArgs argv else [])\<rparr>
              else
                x\<lparr>s_values := fill n (argsToCopy - n) (CVal VUndefined) (go_copy (s_values x) argv)\<rparr>)
          in ((newStash x s)\<lparr>v_pc := v_pc s + 1\<rparr>, Inr ()))"

definition enterFuncBody_exec :: "(ustr \<times> 32 word) list \<Rightarrow> nat \<Rightarrow> nat \<Rightarrow> funcType \<Rightarrow> bool \<Rightarrow> bool \<Rightarrow> unit act" where
  "enterFuncBody_exec names stashSize stackSize typ extensible adjustStack =
     seqA (if stashSize > 0 \<or> extensible then updA (newStash (make_stash stashSize names typ)) else returnA ())
       (seqA (if adjustStack then thenA (readA v_args) (\<lambda>n. add_sp (- n)) else returnA ())
         (seqA (if stackSize > 0 then alloc_locals stackSize else returnA ()) next_pc))"

definition enterFuncStashless_exec :: "nat \<Rightarrow> nat \<Rightarrow> unit act" where
  "enterFuncStashless_exec stackSize args s =
     (if \<not> args_ok s then (s, Inl (PErr GoPanic))
      else
        let sp = nat (v_sp s); n = nat (v_args s); d = args - n;
            s = s\<lparr>v_sb := v_sp s - v_args s - 1\<rparr>
        in if d > 0 then
          let st = expand (int (sp + stackSize + d)) (v_stack s)
          in (s\<lparr>v_args := int args, v_stack := fill (sp + d) stackSize CNil (fill sp d (CVal VUndefined) st),
              v_sp := int (sp + stackSize + d), v_pc := v_pc s + 1\<rparr>, Inr ())
        else if stackSize > 0 then
          let st = expand (int (sp + stackSize)) (v_stack s)
          in (s\<lparr>v_stack := fill sp stackSize CNil st, v_sp := int (sp + stackSize), v_pc := v_pc s + 1\<rparr>, Inr ())
        else (s\<lparr>v_pc := v_pc s + 1\<rparr>, Inr ()))"

text \<open>\<open>ret\<close>: the value replaces the callee below the frame, and the caller's context returns.\<close>

definition ret_exec :: "unit act" where
  "ret_exec =
     thenA (top 1) (\<lambda>c. thenA (readA v_sb) (\<lambda>sb. seqA (set_stack (sb - 1) c)
       (seqA (updA (\<lambda>s. s\<lparr>v_sp := sb\<rparr>)) (seqA popCtx next_pc))))"

definition cret_exec :: "32 word \<Rightarrow> unit act" where
  "cret_exec x =
     thenA (stash_of_op x) (\<lambda>a. thenA (getByIdx a (op_index x)) (\<lambda>c.
       thenA (readA v_sb) (\<lambda>sb. seqA (set_stack sb c) ret_exec)))"

section \<open>Calls\<close>

record funcObj =
  f_prg :: "nat option"
  f_stash :: "nat option"
  f_privEnv :: "nat option"
  f_newTarget :: cell

text \<open>
  \<open>baseJsFuncObject.vmCall\<close>: \<open>this\<close> and the callee change places below the arguments. The
  target of a running constructor call is not reset.
\<close>

definition swap_callee :: "int \<Rightarrow> unit act" where
  "swap_callee n =
     thenA (top (n + 1)) (\<lambda>c. thenA (top (n + 2)) (\<lambda>this.
       seqA (put_top (n + 1) this) (put_top (n + 2) c)))"

definition js_vmCall :: "funcObj \<Rightarrow> int \<Rightarrow> unit act" where
  "js_vmCall f n =
     seqA pushCtx (seqA (updA (\<lambda>s. s\<lparr>v_prg := f_prg f, v_pc := 0, v_args := n, v_stash := f_stash f,
         v_privEnv := f_privEnv f\<rparr>)) (swap_callee n))"

definition arrow_vmCall :: "funcObj \<Rightarrow> int \<Rightarrow> unit act" where
  "arrow_vmCall f n =
     seqA pushCtx (seqA (updA (\<lambda>s. s\<lparr>v_prg := f_prg f, v_pc := 0, v_args := n, v_stash := f_stash f,
         v_privEnv := f_privEnv f\<rparr>))
       (thenA (top (n + 1)) (\<lambda>c. seqA (put_top (n + 1) CNil) (seqA (put_top (n + 2) c)
         (updA (\<lambda>s. s\<lparr>v_newTarget := f_newTarget f\<rparr>))))))"

text \<open>A function of Go: \<open>f\<close> gets the objects, the receiver and the arguments.\<close>

definition native_vmCall :: "(oheap \<Rightarrow> cell \<Rightarrow> cell list \<Rightarrow> (oheap, cell) outcome) option \<Rightarrow> nat \<Rightarrow> unit act" where
  "native_vmCall f n =
     seqA (case f of
         None \<Rightarrow> put_top (int n + 2) (CVal VUndefined)
       | Some f \<Rightarrow>
           seqA pushCtx (seqA (updA (\<lambda>s. s\<lparr>v_prg := None, v_sb := v_sp s - int n\<rparr>))
             (thenA (top (int n + 2)) (\<lambda>this.
               thenA (readA (\<lambda>s. drop (nat (v_sp s - int n)) (take (nat (v_sp s)) (v_stack s)))) (\<lambda>argv.
                 thenA (liftH (\<lambda>H. Some (f H this argv))) (\<lambda>r.
                   seqA (put_top (int n + 2) (nilSafe r)) popCtx)))))
       ) (seqA (add_sp (- int n - 1)) next_pc)"

text \<open>\<open>toCallee\<close>: what is called must be an object; a marker names what is missing.\<close>

definition toCallee :: "cell \<Rightarrow> nat act" where
  "toCallee c =
     (case c of
        CVal (VObject a) \<Rightarrow> returnA a
      | CUnresolved _ \<Rightarrow> raise (PErr ReferenceErr)
      | CNil \<Rightarrow> crash
      | _ \<Rightarrow> raise (PErr TypeErr))"

definition call_exec :: "(nat \<Rightarrow> int \<Rightarrow> unit act) \<Rightarrow> int \<Rightarrow> unit act" where
  "call_exec vmCall n = thenA (top (n + 1)) (\<lambda>c. thenA (toCallee c) (\<lambda>a. vmCall a n))"

definition loadNewTarget_exec :: "unit act" where
  "loadNewTarget_exec =
     thenA (readA v_newTarget) (\<lambda>t. seqA (push (if t \<noteq> CNil then t else CVal VUndefined)) next_pc)"

definition boxThis_exec :: "venv \<Rightarrow> unit act" where
  "boxThis_exec E =
     thenA (readA v_sb) (\<lambda>sb. thenA (stack_at sb) (\<lambda>c. seqA
       (if c = CVal VUndefined \<or> c = CVal VNull then set_stack sb (CVal (VObject (x_global E)))
        else thenA (cell_val c) (\<lambda>v. thenA (ToObject E v) (\<lambda>a. set_stack sb (CVal (VObject a))))) next_pc))"

section \<open>Exceptions\<close>

definition try_exec :: "venv \<Rightarrow> int \<Rightarrow> int \<Rightarrow> unit act" where
  "try_exec E catchOffset finallyOffset =
     thenA (readA v_pc) (\<lambda>pc.
       seqA (updA (pushTryFrame E
           (if catchOffset > 0 then of_int pc + of_int catchOffset else -1)
           (if finallyOffset > 0 then of_int pc + of_int finallyOffset else -1))) next_pc)"

text \<open>The frame on top, where there is one.\<close>

definition top_frame :: "tryFrame act" where
  "top_frame s = (s, if v_tryStack s = [] then Inl (PErr GoPanic) else Inr (last (v_tryStack s)))"

definition leaveTry_exec :: "unit act" where
  "leaveTry_exec =
     thenA top_frame (\<lambda>tf.
       if 0 \<le> sint (t_finallyPos tf) then
         updA (\<lambda>s. (set_top (\<lambda>t. t\<lparr>t_catchPos := -1, t_finallyPos := -1, t_finallyRet := of_int (v_pc s + 1)\<rparr>) s)
           \<lparr>v_pc := sint (t_finallyPos tf), v_sp := sint (t_sp tf), v_stash := t_stash tf\<rparr>)
       else seqA popTryFrame next_pc)"

definition enterFinally_exec :: "unit act" where
  "enterFinally_exec =
     thenA top_frame (\<lambda>_. seqA (updA (set_top (\<lambda>t. t\<lparr>t_finallyPos := -1\<rparr>))) next_pc)"

definition leaveFinally_exec :: "venv \<Rightarrow> unit act" where
  "leaveFinally_exec E =
     thenA top_frame (\<lambda>tf. seqA popTryFrame
       (case t_exception tf of
          Some v \<Rightarrow> vm_throw E (PVal v)
        | None \<Rightarrow> if t_finallyRet tf \<noteq> -1 then updA (\<lambda>s. s\<lparr>v_pc := sint (t_finallyRet tf)\<rparr>) else next_pc))"

definition throw_exec :: "venv \<Rightarrow> unit act" where
  "throw_exec E = thenA (top_val 1) (\<lambda>v. vm_throw E (PVal v))"

definition throwConst_exec :: "venv \<Rightarrow> panic \<Rightarrow> unit act" where
  "throwConst_exec E p = vm_throw E p"

definition throwAssignToConst_exec :: "venv \<Rightarrow> unit act" where
  "throwAssignToConst_exec E = vm_throw E (PErr TypeErr)"

section \<open>Strings and coercions\<close>

text \<open>\<open>concatStrings\<close>: the parts of a template are strings already.\<close>

fun concat_cells :: "cell list \<Rightarrow> ustr option" where
  "concat_cells [] = Some []"
| "concat_cells (CVal (VString t) # cs) = map_option ((@) t) (concat_cells cs)"
| "concat_cells (_ # _) = None"

definition concatStrings_exec :: "nat \<Rightarrow> unit act" where
  "concatStrings_exec n s =
     (if v_sp s < int n \<or> int (length (v_stack s)) < v_sp s then (s, Inl (PErr GoPanic))
      else case concat_cells (drop (nat (v_sp s) - n) (take (nat (v_sp s)) (v_stack s))) of
          None \<Rightarrow> (s, Inl (PErr GoPanic))
        | Some t \<Rightarrow> seqA (add_sp (1 - int n)) (seqA (put_top 1 (CVal (VString t))) next_pc) s)"

definition toPropertyKey_exec :: "venv \<Rightarrow> unit act" where
  "toPropertyKey_exec E =
     thenA (top_val 1) (\<lambda>v. thenA (toPropertyKey E v) (\<lambda>k. seqA (put_top 1 (CVal k)) next_pc))"

definition toString_exec :: "venv \<Rightarrow> unit act" where
  "toString_exec E = unop (\<lambda>v. mapR VString (toString (h_of E) v))"

definition checkObjectCoercible_exec :: "unit act" where
  "checkObjectCoercible_exec =
     thenA (top 1) (\<lambda>c. if is_nullish c then raise (PErr TypeErr) else next_pc)"

section \<open>Open iterators\<close>

definition pop_iter :: "iterStackItem act" where
  "pop_iter s =
     (if v_iterStack s = [] then (s, Inl (PErr GoPanic))
      else (s\<lparr>v_iterStack := butlast (v_iterStack s)\<rparr>, Inr (last (v_iterStack s))))"

definition enumPop_exec :: "unit act" where
  "enumPop_exec = thenA pop_iter (\<lambda>_. next_pc)"

definition enumGet_exec :: "unit act" where
  "enumGet_exec =
     thenA (readA v_iterStack) (\<lambda>items.
       if items = [] then crash else seqA (push (i_val (last items))) next_pc)"

definition enumPopClose_exec :: "venv \<Rightarrow> unit act" where
  "enumPopClose_exec E =
     thenA pop_iter (\<lambda>item.
       seqA (case i_iter item of None \<Rightarrow> returnA () | Some it \<Rightarrow> liftH (returnIter E it)) next_pc)"

section \<open>Declarations at run time\<close>

text \<open>
  \<open>bindVars\<close> walks out from the current scope for every name: a lexical binding of that name
  before the variable scope is reached is an error. The result is the variable scope, if the
  walk met one.
\<close>

fun var_scope :: "ustr \<Rightarrow> nat \<Rightarrow> nat option \<Rightarrow> (bool \<times> nat option) act" where
  "var_scope name n None = returnA (False, None)"
| "var_scope name 0 (Some a) = crash"
| "var_scope name (Suc n) (Some a) =
     thenA (stash_at a) (\<lambda>x.
       case map_of (s_names x) name of
         Some idx \<Rightarrow> if \<not> is_var idx then returnA (True, None)
                     else if isVariable x then returnA (False, Some a) else var_scope name n (s_outer x)
       | None \<Rightarrow> if isVariable x then returnA (False, Some a) else var_scope name n (s_outer x))"

fun var_target :: "ustr list \<Rightarrow> nat option \<Rightarrow> (bool \<times> nat option) act" where
  "var_target [] target = returnA (False, target)"
| "var_target (name # names) target =
     thenA (\<lambda>s. var_scope name (length (v_stashes s)) (v_stash s) s) (\<lambda>(clash, t).
       if clash then returnA (True, None)
       else var_target names (case t of Some a \<Rightarrow> Some a | None \<Rightarrow> target))"

fun create_bindings :: "nat \<Rightarrow> (stash \<Rightarrow> stash) list \<Rightarrow> unit act" where
  "create_bindings a [] = returnA ()"
| "create_bindings a (f # fs) =
     thenA (stash_at a) (\<lambda>x. seqA (set_stash a (f x)) (create_bindings a fs))"

definition bindVars_exec :: "venv \<Rightarrow> ustr list \<Rightarrow> bool \<Rightarrow> unit act" where
  "bindVars_exec E names deletable =
     thenA (var_target names None) (\<lambda>(clash, target).
       if clash then vm_throw E (PErr SyntaxErr)
       else thenA (readA v_stash) (\<lambda>cur.
         case (case target of Some a \<Rightarrow> Some a | None \<Rightarrow> cur) of
           None \<Rightarrow> if names = [] then next_pc else crash
         | Some a \<Rightarrow> seqA (create_bindings a (map (\<lambda>n. createBinding n deletable) names)) next_pc))"

text \<open>
  The checks and declarations of a global script, for a global object that is an ordinary one:
  the shortcut for the lazily filled object of a fresh runtime (\<open>templatedObject\<close>) is left out.
\<close>

definition with_global :: "venv \<Rightarrow> (jsobj \<Rightarrow> stash \<Rightarrow> 'a act) \<Rightarrow> 'a act" where
  "with_global E f =
     thenA (readA v_heap) (\<lambda>H. case H (x_global E) of
         None \<Rightarrow> crash | Some ob \<Rightarrow> thenA (stash_at global_stash) (\<lambda>x. f ob x))"

fun check_names :: "(ustr \<Rightarrow> (panic + unit)) \<Rightarrow> ustr list \<Rightarrow> unit act" where
  "check_names f [] = returnA ()"
| "check_names f (n # ns) = (case f n of Inl p \<Rightarrow> raise p | Inr _ \<Rightarrow> check_names f ns)"

definition checkBindVarsGlobal :: "venv \<Rightarrow> ustr list \<Rightarrow> unit act" where
  "checkBindVarsGlobal E names =
     with_global E (\<lambda>ob x. check_names (\<lambda>n.
       if \<not> o_extensible ob \<and> \<not> hasOwnPropertyStr ob n then Inl (PErr TypeErr)
       else if map_of (s_names x) n \<noteq> None then Inl (PErr SyntaxErr) else Inr ()) names)"

definition checkBindFuncsGlobal :: "venv \<Rightarrow> ustr list \<Rightarrow> unit act" where
  "checkBindFuncsGlobal E names =
     with_global E (\<lambda>ob x. check_names (\<lambda>n.
       if map_of (s_names x) n \<noteq> None then Inl (PErr SyntaxErr)
       else if (case getOwnPropStr ob n of
             None \<Rightarrow> o_extensible ob
           | Some (Prop p) \<Rightarrow> vp_configurable p
               \<or> vp_getter p = None \<and> vp_setter p = None \<and> vp_writable p \<and> vp_enumerable p
           | Some (Plain _) \<Rightarrow> True) then Inr () else Inl (PErr TypeErr)) names)"

definition checkBindLexGlobal :: "venv \<Rightarrow> ustr list \<Rightarrow> unit act" where
  "checkBindLexGlobal E names =
     with_global E (\<lambda>ob x. check_names (\<lambda>n.
       if map_of (s_names x) n \<noteq> None
          \<or> (case getOwnPropStr ob n of Some (Prop p) \<Rightarrow> \<not> vp_configurable p | _ \<Rightarrow> False)
       then Inl (PErr SyntaxErr) else Inr ()) names)"

fun createGlobalVarBindings :: "venv \<Rightarrow> ustr list \<Rightarrow> bool \<Rightarrow> unit act" where
  "createGlobalVarBindings E [] d = returnA ()"
| "createGlobalVarBindings E (n # ns) d =
     thenA (with_global E (\<lambda>ob _. returnA (\<not> hasOwnPropertyStr ob n \<and> o_extensible ob))) (\<lambda>new.
       seqA (if new then
           seqA (unitA (liftH (\<lambda>H. Some (defineOwnPropertyStr (x_env E) H (x_global E) n
               ((data_desc VUndefined)\<lparr>pd_configurable := to_flag d\<rparr>) True))))
             (obj_write_str E (x_global E) n VUndefined None False)
         else returnA ()) (createGlobalVarBindings E ns d))"

fun global_funcs :: "venv \<Rightarrow> int \<Rightarrow> ustr list \<Rightarrow> bool \<Rightarrow> unit act" where
  "global_funcs E b [] d = returnA ()"
| "global_funcs E b (n # ns) d =
     with_global E (\<lambda>ob _. thenA (thenA (stack_at b) val_of) (\<lambda>v.
       let fixed = (case getOwnPropStr ob n of Some (Prop p) \<Rightarrow> \<not> vp_configurable p | _ \<Rightarrow> False);
           desc = (if fixed then empty_desc\<lparr>pd_value := Some v\<rparr>
                   else (data_desc v)\<lparr>pd_configurable := to_flag d\<rparr>)
       in seqA (unitA (liftH (\<lambda>H. Some (defineOwnPropertyStr (x_env E) H (x_global E) n desc True))))
            (seqA (obj_write_str E (x_global E) n v None False) (global_funcs E (b + 1) ns d))))"

definition createGlobalFuncBindings :: "venv \<Rightarrow> ustr list \<Rightarrow> bool \<Rightarrow> unit act" where
  "createGlobalFuncBindings E names d =
     thenA (readA (\<lambda>s. v_sp s - int (length names))) (\<lambda>b.
       seqA (global_funcs E b names d) (updA (\<lambda>s. s\<lparr>v_sp := b\<rparr>)))"

definition bindGlobal_exec :: "venv \<Rightarrow> ustr list \<Rightarrow> ustr list \<Rightarrow> ustr list \<Rightarrow> ustr list \<Rightarrow> bool \<Rightarrow> unit act" where
  "bindGlobal_exec E vars funcs lets consts deletable =
     seqA (checkBindFuncsGlobal E funcs) (seqA (checkBindLexGlobal E lets)
     (seqA (checkBindLexGlobal E consts) (seqA (checkBindVarsGlobal E vars)
     (seqA (create_bindings global_stash (map (\<lambda>n. createLexBinding n False) lets
         @ map (\<lambda>n. createLexBinding n True) consts))
     (seqA (createGlobalFuncBindings E funcs deletable)
     (seqA (createGlobalVarBindings E vars deletable) next_pc))))))"

end
