(* ===== verification/Machine_Props.thy ===== *)
theory Machine_Props
  imports Instructions
begin

text \<open>
  Properties of the instructions: the layout of a function's frame and the return to its
  caller, bindings found by name against bindings found by position, and instructions that do
  not do what they are meant to.
\<close>

section \<open>The frame of a function\<close>

text \<open>A call as the caller sets it up: \<open>this\<close>, the callee and \<open>n\<close> arguments on top of the stack.\<close>

definition call_ready :: "vm \<Rightarrow> cell list \<Rightarrow> cell \<Rightarrow> cell \<Rightarrow> cell list \<Rightarrow> bool" where
  "call_ready s below this callee argv \<longleftrightarrow>
     (\<exists>rest. v_stack s = below @ this # callee # argv @ rest)
     \<and> v_sp s = int (length below + 2 + length argv)
     \<and> int (length (v_callStack s)) \<le> v_maxCallStackSize s"

lemma list_update_at: "(xs @ y # ys)[length xs := z] = xs @ z # ys"
  by simp

lemma nth_at: "(xs @ y # ys) ! length xs = y"
  by simp

lemma js_vmCall_eq:
  assumes "call_ready s below this callee argv" "v_stack s = below @ this # callee # argv @ rest"
  shows "js_vmCall f (int (length argv)) s =
    (s\<lparr>v_prg := f_prg f, v_pc := 0, v_stack := below @ callee # this # argv @ rest,
       v_args := int (length argv), v_stash := f_stash f, v_privEnv := f_privEnv f,
       v_callStack := v_callStack s @ [saveCtx s]\<rparr>, Inr ())"
proof -
  let ?n = "length argv"
  have sp: "v_sp s = int (length below + 2 + ?n)" and room: "\<not> v_maxCallStackSize s < int (length (v_callStack s))"
    using assms(1) by (auto simp: call_ready_def)
  have i: "nat (1 + int (length below)) = Suc (length below)" by simp
  show ?thesis
    using room
    by (simp add: js_vmCall_def seqA_def thenA_def pushCtx_def swap_callee_def top_def put_top_def
        stack_at_def set_stack_def assms(2) sp i nth_append list_update_append)
qed

lemma args_of_ready:
  assumes "v_stack s = below @ callee # this # argv @ rest" "v_sp s = int (length below + 2 + length argv)"
    and "v_args s = int (length argv)"
  shows "args_ok s" "args_of s = argv"
proof -
  have "nat (v_sp s - v_args s) = Suc (Suc (length below))"
    "nat (v_sp s) = length (below @ callee # this # argv)"
    using assms(2,3) by simp_all
  then show "args_of s = argv" by (simp add: args_of_def assms(1))
  show "args_ok s" using assms by (simp add: args_ok_def)
qed

lemma expand_append: "\<exists>t. expand i st = st @ t"
  by (auto simp: expand_def)

lemma fill_at:
  assumes "i = length xs" "n \<le> length ys"
  shows "fill i n c (xs @ ys) = xs @ replicate n c @ drop n ys"
  using assms by (simp add: fill_def)

text \<open>
  The frame \<open>enterFuncStashless\<close> builds: the callee below \<open>sb\<close>, \<open>this\<close> at \<open>sb\<close>, then the
  arguments, as many as there are formal ones at least, then the locals, all nil.
\<close>

lemma enterFuncStashless_eq:
  assumes stack: "v_stack s = below @ callee # this # argv @ rest"
    and sp: "v_sp s = int (length below + 2 + length argv)" and n: "v_args s = int (length argv)"
  shows "\<exists>rest'. enterFuncStashless_exec locals args s =
    (s\<lparr>v_pc := v_pc s + 1,
       v_stack := below @ callee # this # (argv @ replicate (args - length argv) (CVal VUndefined)
         @ replicate locals CNil) @ rest',
       v_sp := int (length below + 2 + max (length argv) args + locals),
       v_sb := int (length below) + 1, v_args := int (max (length argv) args)\<rparr>, Inr ())"
proof -
  let ?n = "length argv" and ?b = "below @ callee # this # argv"
  have [simp]: "nat (int (length below) + 2 + int ?n) = length ?b" by simp
  have nsp: "nat (v_sp s) = length ?b" and nn: "nat (v_args s) = ?n"
    using sp n by simp_all
  note ok = args_of_ready(1) [OF stack sp n]
  consider (more) "0 < args - ?n" | (locals) "args - ?n = 0" "0 < locals" | (none) "args - ?n = 0" "locals = 0"
    by (cases "0 < args - ?n"; cases "0 < locals") auto
  then show ?thesis
  proof cases
    case more
    let ?d = "args - ?n"
    define st where "st = expand (int (length ?b + locals + ?d)) (v_stack s)"
    obtain w where t: "st = ?b @ w"
      using expand_append [of "int (length ?b + locals + ?d)" "v_stack s"] stack by (auto simp: st_def)
    have len: "length ?b + locals + ?d < length st"
      using expand_long [of "int (length ?b + locals + ?d)" "v_stack s"] by (simp add: st_def)
    have "fill (length ?b) ?d (CVal VUndefined) st = ?b @ replicate ?d (CVal VUndefined) @ drop ?d w"
      using len by (simp only: t fill_def) simp
    then have "fill (length ?b + ?d) locals CNil (fill (length ?b) ?d (CVal VUndefined) st)
        = ?b @ replicate ?d (CVal VUndefined) @ replicate locals CNil @ drop (locals + ?d) w"
      by (simp add: fill_def)
    moreover have "enterFuncStashless_exec locals args s =
        (s\<lparr>v_pc := v_pc s + 1,
           v_stack := fill (length ?b + ?d) locals CNil (fill (length ?b) ?d (CVal VUndefined) st),
           v_sp := int (length ?b + locals + ?d), v_sb := v_sp s - v_args s - 1, v_args := int args\<rparr>, Inr ())"
      using more ok by (simp add: enterFuncStashless_exec_def nsp nn Let_def st_def add.assoc)
    ultimately show ?thesis
      using more by (intro exI [of _ "drop (locals + ?d) w"]) (simp add: sp n max_def)
  next
    case locals
    define st where "st = expand (int (length ?b + locals)) (v_stack s)"
    obtain w where t: "st = ?b @ w"
      using expand_append [of "int (length ?b + locals)" "v_stack s"] stack by (auto simp: st_def)
    have "fill (length ?b) locals CNil st = ?b @ replicate locals CNil @ drop locals w"
      by (simp only: t fill_def) simp
    moreover have "enterFuncStashless_exec locals args s =
        (s\<lparr>v_pc := v_pc s + 1, v_stack := fill (length ?b) locals CNil st,
           v_sp := int (length ?b + locals), v_sb := v_sp s - v_args s - 1\<rparr>, Inr ())"
      using locals ok by (simp add: enterFuncStashless_exec_def nsp nn Let_def st_def add.assoc)
    ultimately show ?thesis
      using locals by (intro exI [of _ "drop locals w"]) (simp add: sp n max_def)
  next
    case none
    then show ?thesis
      using ok by (intro exI [of _ rest]) (simp add: enterFuncStashless_exec_def nsp nn Let_def sp n stack max_def)
  qed
qed

lemma push_next_eq: "0 \<le> v_sp s \<Longrightarrow> seqA (push c) next_pc s =
    (s\<lparr>v_pc := v_pc s + 1, v_stack := (expand (v_sp s) (v_stack s))[nat (v_sp s) := c],
       v_sp := v_sp s + 1\<rparr>, Inr ())"
  by (simp add: seqA_def thenA_def push_eq next_pc_def add_pc_def)

lemma ret_exec_eq:
  assumes "1 \<le> v_sb s" "v_sb s \<le> int (length (v_stack s))" "v_callStack s = cs @ [c]"
    and "stack_at (v_sp s - 1) s = (s, Inr v)"
  shows "ret_exec s = ((restoreCtx c s)\<lparr>v_pc := c_pc c + 1, v_sp := v_sb s,
      v_stack := (v_stack s)[nat (v_sb s - 1) := v], v_callStack := cs\<rparr>, Inr ())"
proof -
  have top: "top 1 s = (s, Inr v)"
    using assms(4) by (simp add: top_def)
  have "set_stack (v_sb s - 1) v s = (s\<lparr>v_stack := (v_stack s)[nat (v_sb s - 1) := v]\<rparr>, Inr ())"
    using assms(1,2) by (simp add: set_stack_def)
  then show ?thesis
    by (simp add: ret_exec_def seqA_def thenA_def top popCtx_def assms(3) restoreCtx_def
        next_pc_def add_pc_def)
qed

text \<open>
  C16. A call of a function without scopes of its own. The function finds \<open>this\<close>, its arguments
  (undefined where fewer are passed than declared) and its local variables at the positions its
  instructions address; a local lexical variable that is not initialised raises ReferenceError.
  Whatever the function has done to the machine meanwhile, as long as its context is still on
  top of the call stack, \<open>ret\<close> restores the caller's context, goes on behind the call, and
  leaves the value in the place of \<open>this\<close>, the callee and the arguments.
\<close>

theorem call_frame:
  assumes "call_ready s below this callee argv" and "\<forall>c \<in> set argv. c \<noteq> CNil"
  shows "\<exists>s1 s2. js_vmCall f (int (length argv)) s = (s1, Inr ())
    \<and> enterFuncStashless_exec locals args s1 = (s2, Inr ())
    \<and> v_pc s2 = 1 \<and> v_prg s2 = f_prg f \<and> v_stash s2 = f_stash f
    \<and> loadStack_exec 0 s2 = seqA (push this) next_pc s2
    \<and> loadCallee_exec s2 = seqA (push callee) next_pc s2
    \<and> (\<forall>i. loadStackLex_exec E (- int (Suc i)) s2
         = seqA (push (if i < length argv then argv ! i else CVal VUndefined)) next_pc s2)
    \<and> (\<forall>l < locals. loadStack_exec (int (Suc l)) s2 = seqA (push (CVal VUndefined)) next_pc s2
         \<and> loadStackLex_exec E (int (Suc l)) s2 = vm_throw E (PErr ReferenceErr) s2)
    \<and> (\<forall>s3 c. v_callStack s3 = v_callStack s2 \<and> v_sb s3 = v_sb s2 \<and> length below < length (v_stack s3)
         \<and> stack_at (v_sp s3 - 1) s3 = (s3, Inr c) \<longrightarrow>
         (\<exists>s4. ret_exec s3 = (s4, Inr ()) \<and> saveCtx s4 = (saveCtx s)\<lparr>c_pc := v_pc s + 1\<rparr>
            \<and> v_callStack s4 = v_callStack s \<and> v_sp s4 = int (length below) + 1
            \<and> v_stack s4 = (v_stack s3)[length below := c]))"
proof -
  let ?n = "length argv"
  obtain rest where rest: "v_stack s = below @ this # callee # argv @ rest"
    using assms(1) by (auto simp: call_ready_def)
  let ?s1 = "s\<lparr>v_prg := f_prg f, v_pc := 0, v_stack := below @ callee # this # argv @ rest,
       v_args := int ?n, v_stash := f_stash f, v_privEnv := f_privEnv f,
       v_callStack := v_callStack s @ [saveCtx s]\<rparr>"
  have s1: "js_vmCall f (int ?n) s = (?s1, Inr ())"
    using js_vmCall_eq [OF assms(1) rest] .
  have "v_stack ?s1 = below @ callee # this # argv @ rest" "v_sp ?s1 = int (length below + 2 + ?n)"
      "v_args ?s1 = int ?n"
    using assms(1) by (simp_all add: call_ready_def)
  from enterFuncStashless_eq [OF this, of locals args] obtain rest' s2 where
    s2: "enterFuncStashless_exec locals args ?s1 = (s2, Inr ())" and s2_eq: "s2 = ?s1\<lparr>v_pc := v_pc ?s1 + 1,
       v_stack := below @ callee # this # (argv @ replicate (args - ?n) (CVal VUndefined)
         @ replicate locals CNil) @ rest',
       v_sp := int (length below + 2 + max ?n args + locals),
       v_sb := int (length below) + 1, v_args := int (max ?n args)\<rparr>"
    by blast
  let ?cells = "argv @ replicate (args - ?n) (CVal VUndefined) @ replicate locals CNil"
  define cells where "cells = ?cells"
  have stk: "v_stack s2 = (below @ [callee, this]) @ cells @ rest'"
    by (simp add: s2_eq cells_def)
  have cell: "stack_at (2 + (int (length below) + int i)) s2 = (s2, Inr (cells ! i))"
    if "i < length cells" for i
  proof -
    have idx: "nat (2 + (int (length below) + int i)) = length (below @ [callee, this]) + i" by simp
    show ?thesis
      using that unfolding stack_at_def idx stk nth_append_length_plus by (simp add: nth_append)
  qed
  have this_cell: "stack_at (int (length below) + 1) s2 = (s2, Inr this)"
    and callee_cell: "stack_at (int (length below)) s2 = (s2, Inr callee)"
    by (simp_all add: stack_at_def s2_eq nth_append nat_add_distrib)
  have arg: "loadStackLex_exec E (- int (Suc i)) s2
      = seqA (push (if i < ?n then argv ! i else CVal VUndefined)) next_pc s2" for i
  proof (cases "i < max ?n args")
    case True
    then have i: "i < length cells" "cells ! i = (if i < ?n then argv ! i else CVal VUndefined)"
      by (auto simp: cells_def nth_append max_def split: if_splits)
    then have "cells ! i \<noteq> CNil" using assms(2) by auto
    moreover have "v_sb s2 + int (Suc i) = 2 + (int (length below) + int i)" "\<not> int (Suc i) > v_args s2"
      using True by (simp_all add: s2_eq)
    ultimately show ?thesis
      using cell [OF i(1)] i(2) by (simp add: loadStackLex_exec_def load_lex_def thenA_def)
  next
    case False
    then have "\<not> i < ?n" "v_args s2 < int (Suc i)" by (simp_all add: s2_eq)
    then show ?thesis by (simp add: loadStackLex_exec_def)
  qed
  have local: "loadStack_exec (int (Suc l)) s2 = seqA (push (CVal VUndefined)) next_pc s2
      \<and> loadStackLex_exec E (int (Suc l)) s2 = vm_throw E (PErr ReferenceErr) s2" if "l < locals" for l
  proof -
    let ?i = "max ?n args + l"
    have "?i < length cells" "cells ! ?i = CNil"
      using that by (auto simp: cells_def nth_append max_def)
    moreover have "v_sb s2 + v_args s2 + int (Suc l) = 2 + (int (length below) + int ?i)"
      by (simp add: s2_eq)
    ultimately show ?thesis
      using cell [of ?i] by (simp add: loadStack_exec_def loadStackLex_exec_def load_lex_def thenA_def nilSafe_def)
  qed
  have ret: "\<exists>s4. ret_exec s3 = (s4, Inr ()) \<and> saveCtx s4 = (saveCtx s)\<lparr>c_pc := v_pc s + 1\<rparr>
      \<and> v_callStack s4 = v_callStack s \<and> v_sp s4 = int (length below) + 1
      \<and> v_stack s4 = (v_stack s3)[length below := c]"
    if "v_callStack s3 = v_callStack s2 \<and> v_sb s3 = v_sb s2 \<and> length below < length (v_stack s3)
        \<and> stack_at (v_sp s3 - 1) s3 = (s3, Inr c)" for s3 c
  proof -
    have sb: "v_sb s3 = int (length below) + 1" and cs: "v_callStack s3 = v_callStack s @ [saveCtx s]"
      using that by (simp_all add: s2_eq)
    have "nat (v_sb s3 - 1) = length below" using sb by simp
    then show ?thesis
      using ret_exec_eq [OF _ _ cs, of c] that sb
      by (simp add: saveCtx_def restoreCtx_def)
  qed
  have pc: "v_pc s2 = 1" "v_prg s2 = f_prg f" "v_stash s2 = f_stash f" and sb: "v_sb s2 = int (length below) + 1"
    by (simp_all add: s2_eq)
  have load_this: "loadStack_exec 0 s2 = seqA (push this) next_pc s2"
    using this_cell by (simp add: loadStack_exec_def thenA_def sb)
  have load_callee: "loadCallee_exec s2 = seqA (push callee) next_pc s2"
    using callee_cell by (simp add: loadCallee_exec_def thenA_def sb)
  show ?thesis
    using s1 s2 pc load_this load_callee arg local ret by blast
qed

text \<open>
  \<open>vmCall\<close> leaves \<open>newTarget\<close> as it is: a plain function called from a constructor sees the
  constructor's \<open>new.target\<close>.
\<close>

lemma call_keeps_newTarget:
  assumes "call_ready s below this callee argv"
  shows "\<exists>s1. js_vmCall f (int (length argv)) s = (s1, Inr ()) \<and> v_newTarget s1 = v_newTarget s"
proof -
  obtain rest where "v_stack s = below @ this # callee # argv @ rest"
    using assms by (auto simp: call_ready_def)
  from js_vmCall_eq [OF assms this] show ?thesis by simp
qed

definition call_vm :: vm where
  "call_vm = vm0\<lparr>v_stack := [CVal VUndefined, CVal (VObject 7), CVal (VInt 3)], v_sp := 3, v_pc := 4\<rparr>"

lemma call_vm_ready: "call_ready call_vm [] (CVal VUndefined) (CVal (VObject 7)) [CVal (VInt 3)]"
  by (simp add: call_ready_def call_vm_def vm0_def)

definition func0 :: funcObj where
  "func0 = \<lparr>f_prg = Some 1, f_stash = None, f_privEnv = None, f_newTarget = CNil\<rparr>"

lemma call_frame_witness:
  "\<exists>s1 s2. js_vmCall func0 1 call_vm = (s1, Inr ())
     \<and> enterFuncStashless_exec 1 2 s1 = (s2, Inr ()) \<and> v_pc s2 = 1
     \<and> loadStackLex_exec venv0 (-1) s2 = seqA (push (CVal (VInt 3))) next_pc s2
     \<and> loadStackLex_exec venv0 (-2) s2 = seqA (push (CVal VUndefined)) next_pc s2"
proof -
  obtain s1 s2 where 1: "js_vmCall func0 1 call_vm = (s1, Inr ())"
    "enterFuncStashless_exec 1 2 s1 = (s2, Inr ())" "v_pc s2 = 1"
    and arg: "\<forall>i. loadStackLex_exec venv0 (- int (Suc i)) s2
         = seqA (push (if i < 1 then [CVal (VInt 3)] ! i else CVal VUndefined)) next_pc s2"
    using call_frame [OF call_vm_ready, of func0 1 2 venv0] by auto
  show ?thesis
    using 1 spec [OF arg, of 0] spec [OF arg, of 1] by auto
qed

section \<open>Instructions that miss their mark\<close>

text \<open>
  \<open>initGlobal\<close>, for a declaration whose value stays on the stack, stores the cell above it.
\<close>

lemma initGlobal_stores_stale_cell:
  "let s = vm0\<lparr>v_stack := [CVal (VInt 1), CVal (VInt 2)], v_sp := 1,
             v_stashes := [createLexBinding (u ''x'') False scope0]\<rparr>
   in s_values (v_stashes (fst (initGlobal_exec (u ''x'') s)) ! 0) = [CVal (VInt 2)]"
  by code_simp

text \<open>The setter of a computed key in a class is enumerable, its getter is not.\<close>

lemma computed_setter_enumerable:
  "let H = [1 \<mapsto> demo_obj None, 2 \<mapsto> demo_obj None];
       E = venv0\<lparr>x_env := env0\<lparr>e_callable := \<lambda>_. True\<rparr>\<rparr>;
       s = vm0\<lparr>v_heap := H, v_sp := 3, v_stack := [CVal (VObject 1), CVal (VString (u ''p'')), CVal (VObject 2)]\<rparr>;
       flag_of = (\<lambda>s. case v_heap s 1 of None \<Rightarrow> None | Some ob \<Rightarrow>
         (case o_values ob (u ''p'') of Some (Prop p) \<Rightarrow> Some (vp_enumerable p) | _ \<Rightarrow> None))
   in flag_of (fst (defineSetter_exec E False s)) = Some True
    \<and> flag_of (fst (defineGetter_exec E False s)) = Some False"
  by code_simp

end
