(* ===== verification/Utf.thy ===== *)
theory Utf
  imports Conversions
begin

text \<open>
  The encodings of text the engine moves between: the UTF-8 of Go strings and the UTF-16 of
  JavaScript strings. The functions of Go's \<open>unicode/utf8\<close> and \<open>unicode/utf16\<close> that the
  code calls, the readers of \<open>string_unicode.go\<close>, \<open>string_ascii.go\<close> and
  \<open>string_imported.go\<close> and the package \<open>unistring\<close>, with their round trips.
  A byte is an \<open>8 word\<close>, a code unit a \<open>16 word\<close>, a rune (a code point) a \<open>nat\<close>.
\<close>

type_synonym byte = "8 word"

section \<open>UTF-16\<close>

definition isUTF16FirstSurrogate :: "16 word \<Rightarrow> bool" where
  "isUTF16FirstSurrogate c \<longleftrightarrow> 0xD800 \<le> unat c \<and> unat c \<le> 0xDBFF"

definition isUTF16SecondSurrogate :: "16 word \<Rightarrow> bool" where
  "isUTF16SecondSurrogate c \<longleftrightarrow> 0xDC00 \<le> unat c \<and> unat c \<le> 0xDFFF"

definition surrogate :: "nat \<Rightarrow> bool" where
  "surrogate r \<longleftrightarrow> 0xD800 \<le> r \<and> r \<le> 0xDFFF"

definition valid_rune :: "nat \<Rightarrow> bool" where
  "valid_rune r \<longleftrightarrow> r \<le> 0x10FFFF \<and> \<not> surrogate r"

definition RuneError :: nat where
  "RuneError = 0xFFFD"

text \<open>\<open>utf16.DecodeRune\<close> and \<open>utf16.EncodeRune\<close> of the standard library.\<close>

definition utf16_DecodeRune :: "nat \<Rightarrow> nat \<Rightarrow> nat" where
  "utf16_DecodeRune r1 r2 =
     (if 0xD800 \<le> r1 \<and> r1 < 0xDC00 \<and> 0xDC00 \<le> r2 \<and> r2 < 0xE000
      then (r1 - 0xD800) * 0x400 + (r2 - 0xDC00) + 0x10000 else RuneError)"

definition utf16_EncodeRune :: "nat \<Rightarrow> nat \<times> nat" where
  "utf16_EncodeRune r =
     (if r < 0x10000 \<or> 0x10FFFF < r then (RuneError, RuneError)
      else (0xD800 + (r - 0x10000) div 0x400 mod 0x400, 0xDC00 + (r - 0x10000) mod 0x400))"

text \<open>The code units written for one rune, as \<open>writeRuneFast\<close>, \<open>Scan\<close> and
  \<open>NewFromRunes\<close> write them.\<close>

definition rune_units :: "nat \<Rightarrow> ustr" where
  "rune_units r = (if r \<le> 0xFFFF then [of_nat r]
     else (let (first, second) = utf16_EncodeRune r in [of_nat first, of_nat second]))"

definition units_of_runes :: "nat list \<Rightarrow> ustr" where
  "units_of_runes rs = concat (map rune_units rs)"

lemma units_of_runes_simps [simp]:
  "units_of_runes [] = []"
  "units_of_runes (r # rs) = rune_units r @ units_of_runes rs"
  "units_of_runes (rs @ rs') = units_of_runes rs @ units_of_runes rs'"
  by (simp_all add: units_of_runes_def)

text \<open>\<open>lenientUtf16Decoder\<close>: the reader of the underlying units and the unit read ahead.\<close>

record lenient =
  l_rest :: ustr
  l_prev :: "16 word option"

datatype 'a rr = EOF | Rune 'a nat | Invalid 'a nat

definition readChar :: "ustr \<Rightarrow> (16 word \<times> ustr) option" where
  "readChar us = (case us of [] \<Rightarrow> None | c # cs \<Rightarrow> Some (c, cs))"

definition lenient_after :: "16 word \<Rightarrow> lenient \<Rightarrow> lenient \<times> nat rr" where
  "lenient_after c d =
     (if isUTF16FirstSurrogate c then
        (case readChar (l_rest d) of
           None \<Rightarrow> (d, Rune (unat c) 1)
         | Some (second, cs) \<Rightarrow>
             (if isUTF16SecondSurrogate second
              then (d\<lparr>l_rest := cs\<rparr>, Rune (utf16_DecodeRune (unat c) (unat second)) 2)
              else (d\<lparr>l_rest := cs, l_prev := Some second\<rparr>, Rune (unat c) 1)))
      else (d, Rune (unat c) 1))"

definition lenient_ReadRune :: "lenient \<Rightarrow> lenient \<times> nat rr" where
  "lenient_ReadRune d =
     (case l_prev d of
        Some c \<Rightarrow> lenient_after c (d\<lparr>l_prev := None\<rparr>)
      | None \<Rightarrow> (case readChar (l_rest d) of
            None \<Rightarrow> (d, EOF)
          | Some (c, cs) \<Rightarrow> lenient_after c (d\<lparr>l_rest := cs\<rparr>)))"

definition lenient_units :: "lenient \<Rightarrow> ustr" where
  "lenient_units d = (case l_prev d of None \<Rightarrow> [] | Some c \<Rightarrow> [c]) @ l_rest d"

text \<open>\<open>unicodeRuneReader\<close>: refuses lone surrogates with \<open>InvalidRuneError\<close>.\<close>

fun unicode_ReadRune :: "ustr \<Rightarrow> ustr \<times> nat rr" where
  "unicode_ReadRune [] = ([], EOF)"
| "unicode_ReadRune (c # cs) =
     (if isUTF16FirstSurrogate c then
        (case cs of
           second # cs' \<Rightarrow>
             (if isUTF16SecondSurrogate second
              then (cs', Rune (utf16_DecodeRune (unat c) (unat second)) 2)
              else (cs, Invalid (unat c) 1))
         | [] \<Rightarrow> (cs, Invalid (unat c) 1))
      else if isUTF16SecondSurrogate c then (cs, Invalid (unat c) 1)
      else (cs, Rune (unat c) 1))"

text \<open>\<open>asciiRuneReader\<close>.\<close>

fun ascii_ReadRune :: "byte list \<Rightarrow> byte list \<times> nat rr" where
  "ascii_ReadRune [] = ([], EOF)"
| "ascii_ReadRune (c # cs) = (cs, Rune (unat c) 1)"

text \<open>\<open>utf16.Decode\<close> of the standard library: a lone surrogate becomes U+FFFD.\<close>

fun utf16_Decode :: "ustr \<Rightarrow> nat list" where
  "utf16_Decode [] = []"
| "utf16_Decode [c] =
     [if isUTF16FirstSurrogate c \<or> isUTF16SecondSurrogate c then RuneError else unat c]"
| "utf16_Decode (c # d # cs) =
     (if isUTF16FirstSurrogate c \<and> isUTF16SecondSurrogate d
      then utf16_DecodeRune (unat c) (unat d) # utf16_Decode cs
      else (if isUTF16FirstSurrogate c \<or> isUTF16SecondSurrogate c then RuneError else unat c)
           # utf16_Decode (d # cs))"

text \<open>A string without lone surrogates.\<close>

fun well_formed :: "ustr \<Rightarrow> bool" where
  "well_formed [] \<longleftrightarrow> True"
| "well_formed [c] \<longleftrightarrow> \<not> isUTF16FirstSurrogate c \<and> \<not> isUTF16SecondSurrogate c"
| "well_formed (c # d # cs) \<longleftrightarrow>
     (if isUTF16FirstSurrogate c then isUTF16SecondSurrogate d \<and> well_formed cs
      else \<not> isUTF16SecondSurrogate c \<and> well_formed (d # cs))"

lemma unat16_lt: "unat (c :: 16 word) < 65536"
  using unsigned_less [of c] by simp

lemma unat_of_nat16: "n < 65536 \<Longrightarrow> unat (of_nat n :: 16 word) = n"
  by (simp add: unat_of_nat)

lemma unat_of_nat8: "n < 256 \<Longrightarrow> unat (of_nat n :: 8 word) = n"
  by (simp add: unat_of_nat)

lemma surrogates_disjoint:
  "isUTF16FirstSurrogate c \<Longrightarrow> \<not> isUTF16SecondSurrogate c"
  by (simp add: isUTF16FirstSurrogate_def isUTF16SecondSurrogate_def)

lemma pair_units:
  assumes "isUTF16FirstSurrogate c" and "isUTF16SecondSurrogate d"
  shows "rune_units (utf16_DecodeRune (unat c) (unat d)) = [c, d]"
proof -
  define a b where "a = unat c - 0xD800" and "b = unat d - 0xDC00"
  have ab: "a < 1024" "b < 1024" "unat c = a + 0xD800" "unat d = b + 0xDC00"
    using assms by (auto simp: a_def b_def isUTF16FirstSurrogate_def isUTF16SecondSurrogate_def)
  have r: "utf16_DecodeRune (unat c) (unat d) = a * 1024 + b + 0x10000"
    using ab by (simp add: utf16_DecodeRune_def)
  have e: "utf16_EncodeRune (a * 1024 + b + 0x10000) = (unat c, unat d)"
    using ab by (auto simp: utf16_EncodeRune_def)
  show ?thesis
    unfolding r by (simp add: rune_units_def e)
qed

lemma pair_range:
  assumes "isUTF16FirstSurrogate c" and "isUTF16SecondSurrogate d"
  shows "0xFFFF < utf16_DecodeRune (unat c) (unat d)"
    and "utf16_DecodeRune (unat c) (unat d) \<le> 0x10FFFF"
  using assms
  by (auto simp: utf16_DecodeRune_def isUTF16FirstSurrogate_def isUTF16SecondSurrogate_def)

lemma unit_units: "rune_units (unat c) = [c]"
  using unat16_lt [of c] by (simp add: rune_units_def)

text \<open>Every rune the lenient decoder gives stands for the units it has consumed.\<close>

lemma lenient_ReadRune_units:
  "lenient_ReadRune d = (d', Rune r n) \<Longrightarrow>
     lenient_units d = rune_units r @ lenient_units d' \<and> length (rune_units r) = n \<and> 0 < n"
  by (auto simp: lenient_ReadRune_def lenient_after_def lenient_units_def readChar_def pair_units
      unit_units split: option.splits list.splits if_splits)

lemma lenient_ReadRune_eof:
  "fst (lenient_ReadRune d) = d' \<Longrightarrow> snd (lenient_ReadRune d) = EOF \<longleftrightarrow> lenient_units d = []"
  by (auto simp: lenient_ReadRune_def lenient_after_def lenient_units_def readChar_def
      split: option.splits list.splits if_splits)

lemma lenient_not_invalid: "snd (lenient_ReadRune d) \<noteq> Invalid r n"
  by (auto simp: lenient_ReadRune_def lenient_after_def readChar_def
      split: option.splits list.splits if_splits)

section \<open>The string iterator\<close>

text \<open>\<open>stringFromRune\<close>, through \<open>unicodeStringBuilder.WriteRune\<close>.\<close>

definition stringFromRune :: "nat \<Rightarrow> ustr" where
  "stringFromRune r = (if r < 128 then [of_nat r] else rune_units r)"

lemma stringFromRune_units: "stringFromRune r = rune_units r"
  by (simp add: stringFromRune_def rune_units_def)

text \<open>\<open>stringIterObject\<close>: its reader is nil once the end was reached. \<open>next\<close> gives the
  value and the \<open>done\<close> field of the iterator result.\<close>

type_synonym stringIter = "lenient option"

definition stringIter_next :: "stringIter \<Rightarrow> stringIter \<times> ustr option" where
  "stringIter_next si =
     (case si of
        None \<Rightarrow> (None, None)
      | Some d \<Rightarrow> (case lenient_ReadRune d of
            (d', EOF) \<Rightarrow> (None, None)
          | (d', Rune r n) \<Rightarrow> (Some d', Some (stringFromRune r))
          | (d', Invalid r n) \<Rightarrow> (Some d', Some (stringFromRune r))))"

definition createStringIterator :: "ustr \<Rightarrow> stringIter" where
  "createStringIterator us = Some \<lparr>l_rest = us, l_prev = None\<rparr>"

fun iter_units :: "stringIter \<Rightarrow> ustr" where
  "iter_units None = []"
| "iter_units (Some d) = lenient_units d"

text \<open>The values a loop over the iterator sees, for at most \<open>n\<close> steps.\<close>

fun iterate_string :: "nat \<Rightarrow> stringIter \<Rightarrow> ustr list" where
  "iterate_string 0 si = []"
| "iterate_string (Suc n) si =
     (case stringIter_next si of
        (si', None) \<Rightarrow> []
      | (si', Some s) \<Rightarrow> s # iterate_string n si')"

lemma stringIter_next_units:
  "stringIter_next si = (si', Some s) \<Longrightarrow> iter_units si = s @ iter_units si' \<and> s \<noteq> []"
  by (auto simp: stringIter_next_def stringFromRune_units lenient_not_invalid
      split: option.splits prod.splits rr.splits dest!: lenient_ReadRune_units)
    (metis lenient_not_invalid snd_conv)+

lemma stringIter_next_done:
  "stringIter_next si = (si', None) \<Longrightarrow> iter_units si = []"
  by (auto simp: stringIter_next_def split: option.splits prod.splits rr.splits)
    (metis lenient_ReadRune_eof fst_conv snd_conv)

lemma iterate_string_concat:
  "length (iter_units si) < n \<Longrightarrow> concat (iterate_string n si) = iter_units si"
proof (induction n arbitrary: si)
  case 0 then show ?case by simp
next
  case (Suc n)
  obtain si' o' where st: "stringIter_next si = (si', o')" by fastforce
  show ?case
  proof (cases o')
    case None
    then show ?thesis using stringIter_next_done [of si si'] st by simp
  next
    case (Some s)
    then have e: "iter_units si = s @ iter_units si'" "s \<noteq> []"
      using stringIter_next_units st by blast+
    have "length (iter_units si') < n" using Suc.prems e by (cases s) auto
    then show ?thesis using Suc.IH [of si'] st Some e by simp
  qed
qed

section \<open>UTF-8\<close>

text \<open>\<open>utf8.EncodeRune\<close> and \<open>utf8.DecodeRune\<close> of the standard library: what is not the
  shortest encoding of a valid rune decodes to U+FFFD of width 1.\<close>

definition byte_of :: "nat \<Rightarrow> byte" where
  "byte_of n = of_nat n"

lemma unat_byte_of: "n < 256 \<Longrightarrow> unat (byte_of n) = n"
  by (simp add: byte_of_def unat_of_nat8)

definition EncodeRune :: "nat \<Rightarrow> byte list" where
  "EncodeRune r0 =
     (let r = (if valid_rune r0 then r0 else RuneError) in
      if r < 0x80 then [byte_of r]
      else if r < 0x800 then [byte_of (0xC0 + r div 64), byte_of (0x80 + r mod 64)]
      else if r < 0x10000 then
        [byte_of (0xE0 + r div 4096), byte_of (0x80 + r div 64 mod 64), byte_of (0x80 + r mod 64)]
      else [byte_of (0xF0 + r div 262144), byte_of (0x80 + r div 4096 mod 64),
            byte_of (0x80 + r div 64 mod 64), byte_of (0x80 + r mod 64)])"

definition second_ok :: "nat \<Rightarrow> nat \<Rightarrow> bool" where
  "second_ok b0 b1 \<longleftrightarrow>
     (if b0 = 0xE0 then 0xA0 \<le> b1 \<and> b1 \<le> 0xBF
      else if b0 = 0xED then 0x80 \<le> b1 \<and> b1 \<le> 0x9F
      else if b0 = 0xF0 then 0x90 \<le> b1 \<and> b1 \<le> 0xBF
      else if b0 = 0xF4 then 0x80 \<le> b1 \<and> b1 \<le> 0x8F
      else 0x80 \<le> b1 \<and> b1 \<le> 0xBF)"

definition cont :: "nat \<Rightarrow> bool" where
  "cont b \<longleftrightarrow> 0x80 \<le> b \<and> b \<le> 0xBF"

fun DecodeRune :: "byte list \<Rightarrow> nat \<times> nat" where
  "DecodeRune [] = (RuneError, 0)"
| "DecodeRune (c # cs) =
     (let b0 = unat c in
      if b0 < 0x80 then (b0, 1)
      else if 0xC2 \<le> b0 \<and> b0 \<le> 0xDF then
        (case cs of
           c1 # _ \<Rightarrow> if second_ok b0 (unat c1)
                     then ((b0 - 0xC0) * 64 + (unat c1 - 0x80), 2) else (RuneError, 1)
         | _ \<Rightarrow> (RuneError, 1))
      else if 0xE0 \<le> b0 \<and> b0 \<le> 0xEF then
        (case cs of
           c1 # c2 # _ \<Rightarrow> if second_ok b0 (unat c1) \<and> cont (unat c2)
             then ((b0 - 0xE0) * 4096 + (unat c1 - 0x80) * 64 + (unat c2 - 0x80), 3)
             else (RuneError, 1)
         | _ \<Rightarrow> (RuneError, 1))
      else if 0xF0 \<le> b0 \<and> b0 \<le> 0xF4 then
        (case cs of
           c1 # c2 # c3 # _ \<Rightarrow> if second_ok b0 (unat c1) \<and> cont (unat c2) \<and> cont (unat c3)
             then ((b0 - 0xF0) * 262144 + (unat c1 - 0x80) * 4096 + (unat c2 - 0x80) * 64
                   + (unat c3 - 0x80), 4)
             else (RuneError, 1)
         | _ \<Rightarrow> (RuneError, 1))
      else (RuneError, 1))"

lemma DecodeRune_size:
  "0 < length s \<Longrightarrow> 0 < snd (DecodeRune s) \<and> snd (DecodeRune s) \<le> length s"
  by (cases s) (auto simp: Let_def split: list.splits)

lemma EncodeRune_nonempty: "EncodeRune r \<noteq> []" "0 < length (EncodeRune r)"
  by (auto simp: EncodeRune_def Let_def)

lemma div4096: "(r :: nat) div 64 = r div 4096 * 64 + r div 64 mod 64"
proof -
  have "r div 4096 = r div 64 div 64" by (simp add: div_mult2_eq [symmetric])
  then show ?thesis by simp
qed

lemma div262144: "(r :: nat) div 4096 = r div 262144 * 64 + r div 4096 mod 64"
proof -
  have "r div 262144 = r div 4096 div 64" by (simp add: div_mult2_eq [symmetric])
  then show ?thesis by simp
qed

lemma DecodeRune_Encode:
  assumes "valid_rune r"
  shows "DecodeRune (EncodeRune r @ s) = (r, length (EncodeRune r))"
proof -
  have v: "r \<le> 0x10FFFF" "\<not> (0xD800 \<le> r \<and> r \<le> 0xDFFF)"
    using assms by (auto simp: valid_rune_def surrogate_def)
  consider "r < 0x80" | "0x80 \<le> r" "r < 0x800" | "0x800 \<le> r" "r < 0x10000" | "0x10000 \<le> r"
    by linarith
  then show ?thesis
  proof cases
    case 1
    then show ?thesis using assms by (simp add: EncodeRune_def unat_byte_of)
  next
    case 2
    have m: "r div 64 < 32" "2 \<le> r div 64" "r mod 64 < 64" using 2 by auto
    have "r div 64 * 64 + r mod 64 = r" by simp
    then show ?thesis
      using 2 assms m by (simp add: EncodeRune_def unat_byte_of second_ok_def)
  next
    case 3
    have m: "r div 4096 < 16" "r div 64 mod 64 < 64" "r mod 64 < 64" using 3 by auto
    have q1: "r div 64 = r div 4096 * 64 + r div 64 mod 64" by (rule div4096)
    have q0: "r = r div 64 * 64 + r mod 64" by simp
    have d: "r div 4096 * 4096 + r div 64 mod 64 * 64 + r mod 64 = r" using q0 q1 by linarith
    have e0: "r div 4096 = 0 \<Longrightarrow> 32 \<le> r div 64 mod 64" using 3 q0 q1 m by linarith
    have e13: "r div 4096 = 13 \<Longrightarrow> r div 64 mod 64 < 32" using 3 v q0 q1 m by linarith
    obtain q a b where qab: "r div 4096 = q" "r div 64 mod 64 = a" "r mod 64 = b" by simp
    show ?thesis
      using 3 assms m d e0 e13 unfolding qab
      by (auto simp add: EncodeRune_def unat_byte_of second_ok_def cont_def Let_def qab)
  next
    case 4
    have m: "r div 262144 \<le> 4" "r div 4096 mod 64 < 64" "r div 64 mod 64 < 64" "r mod 64 < 64"
      using 4 v by auto
    have q2: "r div 4096 = r div 262144 * 64 + r div 4096 mod 64" by (rule div262144)
    have q1: "r div 64 = r div 4096 * 64 + r div 64 mod 64" by (rule div4096)
    have q0: "r = r div 64 * 64 + r mod 64" by simp
    have d: "r div 262144 * 262144 + r div 4096 mod 64 * 4096 + r div 64 mod 64 * 64 + r mod 64 = r"
      using q0 q1 q2 by linarith
    have e0: "r div 262144 = 0 \<Longrightarrow> 16 \<le> r div 4096 mod 64" using 4 q0 q1 q2 m by linarith
    have e4: "r div 262144 = 4 \<Longrightarrow> r div 4096 mod 64 < 16" using 4 v q0 q1 q2 m by linarith
    obtain q a b c where qab: "r div 262144 = q" "r div 4096 mod 64 = a" "r div 64 mod 64 = b"
      "r mod 64 = c" by simp
    show ?thesis
      using 4 assms m d e0 e4 unfolding qab
      by (auto simp add: EncodeRune_def unat_byte_of second_ok_def cont_def Let_def qab)
  qed
qed

text \<open>A Go string as the runes a \<open>range\<close> loop visits, and back.\<close>

function runes :: "byte list \<Rightarrow> nat list" where
  "runes [] = []"
| "runes (c # cs) =
     (let (r, n) = DecodeRune (c # cs) in r # runes (drop n (c # cs)))"
  by pat_completeness auto
termination
proof (relation "measure length")
  fix c and cs :: "byte list" and x r n
  assume a: "x = DecodeRune (c # cs)" "(r, n) = x"
  have "0 < snd (DecodeRune (c # cs))" using DecodeRune_size [of "c # cs"] by blast
  then have "0 < n" using a by (metis snd_conv)
  then show "(drop n (c # cs), c # cs) \<in> measure length" by simp
qed simp

definition utf8 :: "nat list \<Rightarrow> byte list" where
  "utf8 rs = concat (map EncodeRune rs)"

lemma utf8_simps [simp]:
  "utf8 [] = []" "utf8 (r # rs) = EncodeRune r @ utf8 rs" "utf8 (rs @ rs') = utf8 rs @ utf8 rs'"
  by (simp_all add: utf8_def)

lemma runes_step:
  "s \<noteq> [] \<Longrightarrow> runes s = fst (DecodeRune s) # runes (drop (snd (DecodeRune s)) s)"
  by (cases s) (simp_all add: case_prod_beta Let_def del: DecodeRune.simps)

lemma runes_Encode: "valid_rune r \<Longrightarrow> runes (EncodeRune r @ s) = r # runes s"
  by (simp add: runes_step EncodeRune_nonempty DecodeRune_Encode)

lemma runes_utf8: "\<forall>r \<in> set rs. valid_rune r \<Longrightarrow> runes (utf8 rs) = rs"
  by (induction rs) (simp_all add: runes_Encode)

lemma DecodeRune_ascii: "unat c < 128 \<Longrightarrow> DecodeRune (c # cs) = (unat c, 1)"
  by simp

lemma runes_ascii: "unat c < 128 \<Longrightarrow> runes (c # cs) = unat c # runes cs"
  by simp

lemma second_ok_range: "second_ok b0 b1 \<Longrightarrow> 128 \<le> b1 \<and> b1 \<le> 191"
  by (auto simp: second_ok_def split: if_splits)

lemma valid_two: "b0 \<le> 223 \<Longrightarrow> second_ok b0 b1 \<Longrightarrow> valid_rune ((b0 - 192) * 64 + (b1 - 128))"
  using second_ok_range [of b0 b1] unfolding valid_rune_def surrogate_def by linarith

lemma valid_three:
  assumes "224 \<le> b0" "b0 \<le> 239" "second_ok b0 b1" "cont b2"
  shows "valid_rune ((b0 - 224) * 4096 + (b1 - 128) * 64 + (b2 - 128))"
proof -
  define x where "x = (b0 - 224) * 4096 + (b1 - 128) * 64 + (b2 - 128)"
  have r: "128 \<le> b1 \<and> b1 \<le> 191" "b2 \<le> 191"
    using assms second_ok_range by (auto simp: cont_def)
  have le: "x \<le> 0xFFFF" using assms r unfolding x_def by linarith
  consider "b0 = 237" | "b0 < 237" | "238 \<le> b0" by linarith
  then have "x < 0xD800 \<or> 0xE000 \<le> x"
  proof cases
    case 1
    then have "b1 \<le> 159" using assms by (simp add: second_ok_def)
    then show ?thesis using 1 r unfolding x_def by linarith
  next
    case 2 then show ?thesis using r unfolding x_def by linarith
  next
    case 3 then show ?thesis unfolding x_def by linarith
  qed
  then have "valid_rune x" using le by (auto simp: valid_rune_def surrogate_def)
  then show ?thesis by (simp add: x_def)
qed

lemma valid_four:
  assumes "240 \<le> b0" "b0 \<le> 244" "second_ok b0 b1" "cont b2" "cont b3"
  shows "valid_rune ((b0 - 240) * 262144 + (b1 - 128) * 4096 + (b2 - 128) * 64 + (b3 - 128))"
proof -
  define x where "x = (b0 - 240) * 262144 + (b1 - 128) * 4096 + (b2 - 128) * 64 + (b3 - 128)"
  have r: "128 \<le> b1 \<and> b1 \<le> 191" "b2 \<le> 191" "b3 \<le> 191"
    using assms second_ok_range by (auto simp: cont_def)
  consider "b0 = 240" | "b0 = 244" | "241 \<le> b0" "b0 \<le> 243" using assms by linarith
  then have "x \<le> 0x10FFFF \<and> 0xE000 \<le> x"
  proof cases
    case 1
    then have "144 \<le> b1" using assms by (simp add: second_ok_def)
    then show ?thesis using 1 r unfolding x_def by linarith
  next
    case 2
    then have "b1 \<le> 143" using assms by (simp add: second_ok_def)
    then show ?thesis using 2 r unfolding x_def by linarith
  next
    case 3 then show ?thesis using r unfolding x_def by linarith
  qed
  then have "valid_rune x" by (auto simp: valid_rune_def surrogate_def)
  then show ?thesis by (simp add: x_def)
qed

lemma valid_small: "r < 0x80 \<Longrightarrow> valid_rune r" "valid_rune RuneError"
  by (simp_all add: valid_rune_def surrogate_def RuneError_def)

lemma DecodeRune_valid: "valid_rune (fst (DecodeRune s))"
  by (cases s) (simp_all add: Let_def valid_small valid_two valid_three valid_four
      split: list.split)

lemma runes_valid: "r \<in> set (runes s) \<Longrightarrow> valid_rune r"
proof (induction s rule: runes.induct)
  case 1 then show ?case by simp
next
  case (2 c cs)
  then show ?case
    using DecodeRune_valid [of "c # cs"]
    by (cases "DecodeRune (c # cs)") (auto simp: runes_step simp del: DecodeRune.simps runes.simps)
qed

text \<open>\<open>string(utf16.Decode(us))\<close>: the Go string of a JavaScript string, lone surrogates
  replaced. It can be read back when there were none.\<close>

definition go_string :: "ustr \<Rightarrow> byte list" where
  "go_string us = utf8 (utf16_Decode us)"

lemma utf16_Decode_valid: "r \<in> set (utf16_Decode us) \<Longrightarrow> valid_rune r"
proof (induction us rule: utf16_Decode.induct)
  case 1 then show ?case by simp
next
  case (2 c)
  then show ?case
    using unat16_lt [of c]
    by (auto simp: valid_rune_def surrogate_def RuneError_def isUTF16FirstSurrogate_def
        isUTF16SecondSurrogate_def split: if_splits)
next
  case (3 c d cs)
  show ?case
  proof (cases "isUTF16FirstSurrogate c \<and> isUTF16SecondSurrogate d")
    case True
    then show ?thesis
      using 3 pair_range [of c d] by (auto simp: valid_rune_def surrogate_def)
  next
    case False
    then have "r = (if isUTF16FirstSurrogate c \<or> isUTF16SecondSurrogate c then RuneError else unat c)
      \<or> r \<in> set (utf16_Decode (d # cs))"
      using 3(3) by (simp only: utf16_Decode.simps if_False) simp
    then show ?thesis
      using 3(2) False unat16_lt [of c]
      by (auto simp: valid_rune_def surrogate_def RuneError_def isUTF16FirstSurrogate_def
          isUTF16SecondSurrogate_def split: if_splits)
  qed
qed

lemma units_of_Decode: "well_formed us \<Longrightarrow> units_of_runes (utf16_Decode us) = us"
  by (induction us rule: utf16_Decode.induct)
    (auto simp: unit_units pair_units surrogates_disjoint split: if_splits)

lemma runes_go_string: "runes (go_string us) = utf16_Decode us"
  by (simp add: go_string_def runes_utf8 utf16_Decode_valid)

lemma units_go_string: "well_formed us \<Longrightarrow> units_of_runes (runes (go_string us)) = us"
  by (simp add: runes_go_string units_of_Decode)

end
