(* ===== verification/Ustrings.thy ===== *)
theory Ustrings
  imports Utf
begin

text \<open>
  The representations of a JavaScript string: the package \<open>unistring\<close>, the three Go types
  behind the interface \<open>String\<close> (\<open>string.go\<close>, \<open>string_ascii.go\<close>, \<open>string_unicode.go\<close>,
  \<open>string_imported.go\<close>), the string builders and the substring searches. The abstract
  string is its list of code units (\<open>units\<close>); \<open>str_ok\<close> is the invariant that makes the
  type of a string a function of its content, on which the comparisons of mixed types rely.
\<close>

section \<open>Package unistring\<close>

definition BOM :: "16 word" where
  "BOM = 0xFEFF"

text \<open>The loops of \<open>Scan\<close> and \<open>NewFromRunes\<close> that fill a buffer of the size counted
  before; an index out of range is a Go panic.\<close>

definition put_unit :: "nat \<Rightarrow> 16 word \<Rightarrow> ustr \<Rightarrow> go_error + ustr" where
  "put_unit c x buf = (if c < length buf then Inr (buf[c := x]) else Inl GoPanic)"

fun fill_units :: "nat list \<Rightarrow> nat \<Rightarrow> ustr \<Rightarrow> go_error + ustr" where
  "fill_units [] c buf = Inr buf"
| "fill_units (r # rs) c buf =
     (if r \<le> 0xFFFF then bindR (put_unit c (of_nat r) buf) (\<lambda>buf. fill_units rs (c + 1) buf)
      else (let (first, second) = utf16_EncodeRune r in
        bindR (put_unit c (of_nat first) buf) (\<lambda>buf.
        bindR (put_unit (c + 1) (of_nat second) buf) (\<lambda>buf. fill_units rs (c + 2) buf))))"

fun count_units :: "nat list \<Rightarrow> nat \<Rightarrow> nat" where
  "count_units [] n = n"
| "count_units (r # rs) n = count_units rs (if 0xFFFF < r then n + 2 else n + 1)"

definition ascii_prefix :: "byte list \<Rightarrow> nat" where
  "ascii_prefix s = length (takeWhile (\<lambda>b. unat b < 128) s)"

definition Scan_go :: "byte list \<Rightarrow> go_error + ustr option" where
  "Scan_go s =
     (let p = ascii_prefix s in
      if p = length s then Inr None
      else (let size = count_units (runes (drop p s)) p in
        mapR Some (fill_units (runes s) 1 ((replicate (size + 1) 0)[0 := BOM]))))"

text \<open>What \<open>Scan\<close> computes.\<close>

definition Scan :: "byte list \<Rightarrow> ustr option" where
  "Scan s = (if list_all (\<lambda>b. unat b < 128) s then None
     else Some (BOM # units_of_runes (runes s)))"

fun count_runes :: "nat list \<Rightarrow> nat \<Rightarrow> bool \<Rightarrow> nat \<times> bool" where
  "count_runes [] n ascii = (n, ascii)"
| "count_runes (c # cs) n ascii =
     (if 128 \<le> c then count_runes cs (if 0xFFFF < c then n + 2 else n + 1) False
      else count_runes cs (n + 1) ascii)"

text \<open>\<open>FromUtf16\<close> is the memory of the buffer read as bytes (little endian), \<open>AsUtf16\<close>
  the converse.\<close>

fun unit_bytes :: "16 word \<Rightarrow> byte list" where
  "unit_bytes c = [ucast c, ucast (drop_bit 8 c)]"

definition FromUtf16 :: "ustr \<Rightarrow> byte list" where
  "FromUtf16 us = concat (map unit_bytes us)"

fun bytes_units :: "byte list \<Rightarrow> ustr" where
  "bytes_units (a # b # bs) = (ucast a + push_bit 8 (ucast b)) # bytes_units bs"
| "bytes_units _ = []"

definition AsUtf16 :: "byte list \<Rightarrow> ustr option" where
  "AsUtf16 s =
     (if length s < 4 \<or> odd (length s) then None
      else (let a = bytes_units s in if a ! 0 = BOM then Some a else None))"

definition NewFromString :: "byte list \<Rightarrow> byte list" where
  "NewFromString s = (case Scan s of Some buf \<Rightarrow> FromUtf16 buf | None \<Rightarrow> s)"

definition NewFromRunes_go :: "nat list \<Rightarrow> go_error + byte list" where
  "NewFromRunes_go rs =
     (let (size, ascii) = count_runes rs 0 True in
      if ascii then Inr (utf8 rs)
      else mapR FromUtf16 (fill_units rs 1 ((replicate (size + 1) 0)[0 := BOM])))"

definition unistring_String :: "byte list \<Rightarrow> byte list" where
  "unistring_String s = (case AsUtf16 s of Some b \<Rightarrow> go_string (tl b) | None \<Rightarrow> s)"

definition ascii_bytes :: "byte list \<Rightarrow> bool" where
  "ascii_bytes s = list_all (\<lambda>b. unat b < 128) s"

definition widen :: "byte list \<Rightarrow> ustr" where
  "widen s = map ucast s"

definition narrow :: "ustr \<Rightarrow> byte list" where
  "narrow us = map ucast us"

subsection \<open>The buffers are filled exactly\<close>

lemma fill_units_exact:
  "length buf = length pre + length (units_of_runes rs) \<Longrightarrow> take (length pre) buf = pre \<Longrightarrow>
     fill_units rs (length pre) buf = Inr (pre @ units_of_runes rs)"
proof (induction rs arbitrary: pre buf)
  case Nil then show ?case by simp
next
  case (Cons r rs)
  show ?case
  proof (cases "r \<le> 0xFFFF")
    case True
    then have u: "rune_units r = [of_nat r]" by (simp add: rune_units_def)
    have lt: "length pre < length buf" using Cons.prems u by simp
    define buf' where "buf' = buf[length pre := of_nat r]"
    have t: "take (length (pre @ [of_nat r])) buf' = pre @ [of_nat r]"
      using lt Cons.prems by (simp add: buf'_def take_Suc_conv_app_nth)
    have "fill_units rs (length (pre @ [of_nat r])) buf' = Inr ((pre @ [of_nat r]) @ units_of_runes rs)"
      by (rule Cons.IH) (use t Cons.prems u in \<open>simp_all add: buf'_def\<close>)
    then show ?thesis using True lt u by (simp add: put_unit_def bindR_def buf'_def)
  next
    case False
    obtain f s where fs: "utf16_EncodeRune r = (f, s)" by fastforce
    then have u: "rune_units r = [of_nat f, of_nat s]" using False by (simp add: rune_units_def)
    have lt: "Suc (length pre) < length buf" using Cons.prems u by simp
    then have lt': "length pre < length buf" by simp
    define buf' where "buf' = buf[length pre := of_nat f, Suc (length pre) := of_nat s]"
    have t: "take (length (pre @ [of_nat f, of_nat s])) buf' = pre @ [of_nat f, of_nat s]"
      using lt lt' Cons.prems by (simp add: buf'_def take_Suc_conv_app_nth)
    have "fill_units rs (length (pre @ [of_nat f, of_nat s])) buf'
        = Inr ((pre @ [of_nat f, of_nat s]) @ units_of_runes rs)"
      by (rule Cons.IH) (use t Cons.prems u in \<open>simp_all add: buf'_def\<close>)
    then show ?thesis using False lt u fs by (simp add: put_unit_def bindR_def buf'_def)
  qed
qed

lemma rune_units_length: "length (rune_units r) = (if 0xFFFF < r then 2 else 1)"
  by (simp add: rune_units_def case_prod_beta Let_def)

lemma count_units_eq: "count_units rs n = n + length (units_of_runes rs)"
  by (induction rs arbitrary: n) (auto simp: rune_units_length)

lemma count_runes_eq:
  "count_runes rs n a = (n + length (units_of_runes rs), a \<and> (\<forall>r \<in> set rs. r < 128))"
  by (induction rs arbitrary: n a) (auto simp: rune_units_length)

lemma runes_ascii_app:
  "ascii_bytes s \<Longrightarrow> runes (s @ t) = map unat s @ runes t"
proof (induction s)
  case Nil then show ?case by simp
next
  case (Cons c s)
  then have "unat c < 128" by (simp add: ascii_bytes_def)
  then show ?case
    using Cons by (simp add: ascii_bytes_def runes_step del: runes.simps) 
qed

lemma units_of_ascii:
  "ascii_bytes s \<Longrightarrow> units_of_runes (map unat s) = widen s"
  by (induction s) (auto simp: ascii_bytes_def widen_def rune_units_def unsigned_ucast_eq)

theorem Scan_correct: "Scan_go s = Inr (Scan s)"
proof (cases "ascii_bytes s")
  case True
  then have "ascii_prefix s = length s"
    by (metis ascii_bytes_def ascii_prefix_def list_all_iff takeWhile_eq_all_conv)
  then show ?thesis using True by (simp add: Scan_go_def Scan_def ascii_bytes_def)
next
  case False
  define p where "p = ascii_prefix s"
  have t: "take p s = takeWhile (\<lambda>b. unat b < 128) s"
    by (simp add: p_def ascii_prefix_def takeWhile_eq_take [symmetric])
  have ne: "p \<noteq> length s"
    using False t by (metis ascii_bytes_def list_all_iff set_takeWhileD take_all_iff le_refl)
  have a: "ascii_bytes (take p s)"
    unfolding t ascii_bytes_def list_all_iff by (auto dest: set_takeWhileD)
  have r: "runes s = map unat (take p s) @ runes (drop p s)"
    using runes_ascii_app [OF a, of "drop p s"] by simp
  have p: "p \<le> length s" by (simp add: p_def ascii_prefix_def length_takeWhile_le)
  have sz: "count_units (runes (drop p s)) p = length (units_of_runes (runes s))"
    using units_of_ascii [OF a] p by (simp add: r count_units_eq widen_def)
  define n where "n = length (units_of_runes (runes s))"
  have "fill_units (runes s) (length [BOM]) ((replicate (n + 1) 0)[0 := BOM])
      = Inr ([BOM] @ units_of_runes (runes s))"
    by (rule fill_units_exact) (simp_all add: n_def)
  then show ?thesis
    using False ne sz
    by (simp add: Scan_go_def Scan_def ascii_bytes_def Let_def mapR_def bindR_def p_def n_def)
qed

lemma NewFromRunes_correct:
  "NewFromRunes_go rs =
     Inr (if \<forall>r \<in> set rs. r < 128 then utf8 rs else FromUtf16 (BOM # units_of_runes rs))"
proof -
  define n where "n = length (units_of_runes rs)"
  have "fill_units rs (length [BOM]) ((replicate (n + 1) 0)[0 := BOM]) = Inr ([BOM] @ units_of_runes rs)"
    by (rule fill_units_exact) (simp_all add: n_def)
  then show ?thesis
    by (simp add: NewFromRunes_go_def count_runes_eq mapR_def bindR_def n_def)
qed

subsection \<open>The two forms of a unistring do not clash\<close>

lemma unat8_lt: "unat (x :: byte) < 256"
  using unsigned_less [of x] by simp

lemma unat_widen: "unat (ucast (x :: byte) :: 16 word) = unat x"
  using unat8_lt [of x] by (simp add: unsigned_ucast_eq take_bit_nat_eq_self)

lemma unat_narrow: "unat (ucast (c :: 16 word) :: byte) = unat c mod 256"
  by (simp add: unsigned_ucast_eq take_bit_eq_mod)

lemma unat_unit_of_bytes:
  "unat ((ucast (a :: byte) :: 16 word) + push_bit 8 (ucast (b :: byte))) = unat a + 256 * unat b"
proof -
  have "unat (push_bit 8 (ucast (b :: byte) :: 16 word)) = 256 * unat b"
    using unat8_lt [of b]
    by (subst unsigned_push_bit_eq) (simp add: unat_widen push_bit_eq_mult take_bit_eq_mod)
  then show ?thesis
    using unat8_lt [of a] unat8_lt [of b] by (simp add: unat_word_ariths unat_widen)
qed

lemma unit_of_bytes: "ucast (ucast c :: byte) + push_bit 8 (ucast (ucast (drop_bit 8 c) :: byte)) = (c :: 16 word)"
proof (rule word_unat_eq_iff [THEN iffD2])
  have "unat (drop_bit 8 c) = unat c div 256"
    by (subst unat_drop_bit_eq) (simp add: drop_bit_eq_div)
  then show "unat (ucast (ucast c :: byte) + push_bit 8 (ucast (ucast (drop_bit 8 c) :: byte)) :: 16 word) = unat c"
    using unat16_lt [of c] by (simp add: unat_unit_of_bytes unat_narrow del: drop_bit_eq_div)
qed

lemma bytes_units_FromUtf16: "bytes_units (FromUtf16 us) = us"
  by (induction us) (simp_all add: FromUtf16_def unit_of_bytes)

lemma length_FromUtf16 [simp]: "length (FromUtf16 us) = 2 * length us"
  by (induction us) (simp_all add: FromUtf16_def)

lemma AsUtf16_FromUtf16: "us \<noteq> [] \<Longrightarrow> AsUtf16 (FromUtf16 (BOM # us)) = Some (BOM # us)"
  by (cases us) (simp_all add: AsUtf16_def bytes_units_FromUtf16)

lemma AsUtf16_ascii: "ascii_bytes s \<Longrightarrow> AsUtf16 s = None"
proof (cases s rule: bytes_units.cases)
  case (1 a b bs)
  assume "ascii_bytes s"
  then have a: "unat a < 128" "unat b < 128" using 1 by (simp_all add: ascii_bytes_def)
  have "unat ((ucast a :: 16 word) + push_bit 8 (ucast b)) \<noteq> unat BOM"
    using a by (simp add: unat_unit_of_bytes BOM_def)
  then have "(ucast a :: 16 word) + push_bit 8 (ucast b) \<noteq> BOM" by metis
  then show ?thesis using 1 by (simp add: AsUtf16_def)
qed (simp_all add: AsUtf16_def)

section \<open>The representations of a string\<close>

text \<open>\<open>asciiString\<close>, \<open>unicodeString\<close> (the BOM is element 0) and \<open>*importedString\<close> with
  its fields \<open>s\<close>, \<open>u\<close> and \<open>scanned\<close>. Scanning an imported string only fills a cache, so it
  is a function of the string here and the operations apply it before they look.\<close>

datatype jstr =
    AsciiStr "byte list"
  | UnicodeStr ustr
  | ImportedStr "byte list" "ustr option" bool

fun scan :: "jstr \<Rightarrow> jstr" where
  "scan (ImportedStr s uc scanned) = ImportedStr s (Scan s) True"
| "scan str = str"

fun ensureScanned :: "jstr \<Rightarrow> jstr" where
  "ensureScanned (ImportedStr s uc scanned) =
     (if \<not> scanned then scan (ImportedStr s uc scanned) else ImportedStr s uc scanned)"
| "ensureScanned str = str"

definition has_unicode :: "ustr \<Rightarrow> bool" where
  "has_unicode us \<longleftrightarrow> list_ex (\<lambda>c. 128 \<le> unat c) us"

text \<open>The invariant: an \<open>asciiString\<close> holds ASCII only, a \<open>unicodeString\<close> starts with the
  BOM and holds at least one other unit, the cache of an imported string is right.\<close>

fun str_ok :: "jstr \<Rightarrow> bool" where
  "str_ok (AsciiStr s) \<longleftrightarrow> ascii_bytes s"
| "str_ok (UnicodeStr us) \<longleftrightarrow> us \<noteq> [] \<and> hd us = BOM \<and> has_unicode (tl us)"
| "str_ok (ImportedStr s uc scanned) \<longleftrightarrow> uc = (if scanned then Scan s else None)"

fun units :: "jstr \<Rightarrow> ustr" where
  "units (AsciiStr s) = widen s"
| "units (UnicodeStr us) = tl us"
| "units (ImportedStr s uc scanned) = (case Scan s of None \<Rightarrow> widen s | Some b \<Rightarrow> tl b)"

text \<open>\<open>devirtualizeString\<close>.\<close>

fun devirtualize :: "jstr \<Rightarrow> byte list + ustr" where
  "devirtualize (AsciiStr s) = Inl s"
| "devirtualize (UnicodeStr us) = Inr us"
| "devirtualize (ImportedStr s uc scanned) =
     (case ensureScanned (ImportedStr s uc scanned) of
        ImportedStr s' (Some b) _ \<Rightarrow> Inr b
      | _ \<Rightarrow> Inl s)"

definition newStringValue :: "byte list \<Rightarrow> jstr" where
  "newStringValue s = (case Scan s of Some b \<Rightarrow> UnicodeStr b | None \<Rightarrow> AsciiStr s)"

definition stringValueFromRaw :: "byte list \<Rightarrow> jstr" where
  "stringValueFromRaw raw = (case AsUtf16 raw of Some b \<Rightarrow> UnicodeStr b | None \<Rightarrow> AsciiStr raw)"

definition StringFromUTF16 :: "ustr \<Rightarrow> jstr" where
  "StringFromUTF16 chars =
     (if list_all (\<lambda>c. unat c < 128) chars then AsciiStr (narrow chars) else UnicodeStr (BOM # chars))"

text \<open>\<open>string()\<close>, the property key of a string.\<close>

definition str_key :: "jstr \<Rightarrow> byte list" where
  "str_key str = (case devirtualize str of Inl s \<Rightarrow> s | Inr b \<Rightarrow> FromUtf16 b)"

text \<open>\<open>String()\<close>, the Go string.\<close>

fun str_String :: "jstr \<Rightarrow> byte list" where
  "str_String (AsciiStr s) = s"
| "str_String (UnicodeStr us) = go_string (tl us)"
| "str_String (ImportedStr s uc scanned) = s"

lemma has_unicode_iff: "has_unicode us \<longleftrightarrow> (\<exists>c \<in> set us. 128 \<le> unat c)"
  by (simp add: has_unicode_def list_ex_iff)

lemma widen_not_unicode: "ascii_bytes s \<Longrightarrow> \<not> has_unicode (widen s)"
  by (auto simp: has_unicode_iff widen_def ascii_bytes_def list_all_iff unat_widen)

lemma narrow_widen: "narrow (widen s) = s"
proof (induction s)
  case (Cons c s)
  have "(ucast (ucast c :: 16 word) :: byte) = c"
    by (rule word_unat_eq_iff [THEN iffD2]) (use unat8_lt [of c] in \<open>simp add: unat_narrow unat_widen\<close>)
  then show ?case using Cons by (simp add: narrow_def widen_def)
qed (simp add: narrow_def widen_def)

lemma widen_narrow: "\<not> has_unicode us \<Longrightarrow> widen (narrow us) = us \<and> ascii_bytes (narrow us)"
proof (induction us)
  case Nil then show ?case by (simp add: narrow_def widen_def ascii_bytes_def)
next
  case (Cons c us)
  then have c: "unat c < 128" by (simp add: has_unicode_def)
  have "(ucast (ucast c :: byte) :: 16 word) = c"
    by (rule word_unat_eq_iff [THEN iffD2]) (use c in \<open>simp add: unat_widen unat_narrow\<close>)
  then show ?case
    using Cons c by (simp add: narrow_def widen_def ascii_bytes_def has_unicode_def unat_narrow)
qed

lemma widen_inj: "widen s = widen t \<Longrightarrow> s = t"
  by (metis narrow_widen)

lemma length_widen [simp]: "length (widen s) = length s"
  by (simp add: widen_def)

subsection \<open>The type of a string is a function of its content\<close>

lemma Scan_ascii: "ascii_bytes s \<Longrightarrow> Scan s = None"
  by (simp add: Scan_def ascii_bytes_def)

lemma Scan_unicode: "\<not> ascii_bytes s \<Longrightarrow> Scan s = Some (BOM # units_of_runes (runes s))"
  by (simp add: Scan_def ascii_bytes_def)

lemma DecodeRune_high: "128 \<le> unat c \<Longrightarrow> 128 \<le> fst (DecodeRune (c # cs))"
  by (auto simp: Let_def RuneError_def second_ok_def split: list.splits if_splits)

lemma rune_units_high: "128 \<le> r \<Longrightarrow> r \<le> 0x10FFFF \<Longrightarrow> has_unicode (rune_units r)"
proof (cases "r \<le> 0xFFFF")
  case True
  assume "128 \<le> r"
  then show ?thesis using True by (simp add: rune_units_def has_unicode_def unat_of_nat16)
next
  case False
  assume "r \<le> 0x10FFFF"
  define f where "f = 0xD800 + (r - 0x10000) div 0x400 mod 0x400"
  have "(r - 0x10000) div 0x400 mod 0x400 < 0x400" by simp
  then have "f < 65536" "128 \<le> f" by (simp_all add: f_def)
  then have "128 \<le> unat (of_nat f :: 16 word)" by (simp add: unat_of_nat16)
  moreover have "\<exists>t. rune_units r = of_nat f # t"
    using False \<open>r \<le> 0x10FFFF\<close> by (simp add: rune_units_def utf16_EncodeRune_def f_def)
  ultimately show ?thesis by (auto simp: has_unicode_def)
qed

lemma has_unicode_append [simp]: "has_unicode (xs @ ys) \<longleftrightarrow> has_unicode xs \<or> has_unicode ys"
  by (simp add: has_unicode_def)

lemma runes_high: "\<not> ascii_bytes s \<Longrightarrow> has_unicode (units_of_runes (runes s))"
proof (induction s)
  case Nil then show ?case by (simp add: ascii_bytes_def)
next
  case (Cons c s)
  show ?case
  proof (cases "unat c < 128")
    case True
    then show ?thesis using Cons by (simp add: ascii_bytes_def runes_ascii del: runes.simps)
  next
    case False
    then have "128 \<le> fst (DecodeRune (c # s))" by (simp add: DecodeRune_high del: DecodeRune.simps)
    moreover have "fst (DecodeRune (c # s)) \<le> 0x10FFFF"
      using DecodeRune_valid [of "c # s"] by (simp add: valid_rune_def)
    ultimately show ?thesis
      by (simp add: runes_step rune_units_high del: runes.simps DecodeRune.simps)
  qed
qed

lemma devirtualize_units:
  "str_ok str \<Longrightarrow> devirtualize str =
     (if has_unicode (units str) then Inr (BOM # units str) else Inl (narrow (units str)))"
proof (cases str)
  case (AsciiStr s)
  assume "str_ok str"
  then show ?thesis using AsciiStr by (simp add: widen_not_unicode narrow_widen)
next
  case (UnicodeStr us)
  assume "str_ok str"
  then show ?thesis using UnicodeStr by (cases us) simp_all
next
  case (ImportedStr s uc scanned)
  assume "str_ok str"
  then have "uc = (if scanned then Scan s else None)" using ImportedStr by simp
  then show ?thesis
    using ImportedStr
    by (cases "ascii_bytes s")
      (auto simp: Scan_ascii Scan_unicode widen_not_unicode narrow_widen runes_high)
qed

text \<open>\<open>if i.u != nil { i.u.op } else { asciiString(i.s).op }\<close>, after \<open>ensureScanned\<close>.\<close>

definition concrete :: "jstr \<Rightarrow> jstr" where
  "concrete str = (case devirtualize str of Inl s \<Rightarrow> AsciiStr s | Inr b \<Rightarrow> UnicodeStr b)"

lemma concrete_units:
  "str_ok str \<Longrightarrow> concrete str =
     (if has_unicode (units str) then UnicodeStr (BOM # units str) else AsciiStr (narrow (units str)))"
  by (simp add: concrete_def devirtualize_units)

lemma StringFromUTF16_ok: "str_ok (StringFromUTF16 us)" "units (StringFromUTF16 us) = us"
proof -
  have "list_all (\<lambda>c. unat c < 128) us \<longleftrightarrow> \<not> has_unicode us"
    by (auto simp: list_all_iff has_unicode_iff not_le)
  then show "str_ok (StringFromUTF16 us)" "units (StringFromUTF16 us) = us"
    using widen_narrow [of us] by (auto simp: StringFromUTF16_def)
qed

lemma newStringValue_ok: "str_ok (newStringValue s)" "units (newStringValue s) = units (ImportedStr s None False)"
  by (cases "ascii_bytes s"; simp add: newStringValue_def Scan_ascii Scan_unicode runes_high)+

lemma str_key_units:
  "str_ok str \<Longrightarrow> str_key str = (if has_unicode (units str) then FromUtf16 (BOM # units str) else narrow (units str))"
  by (simp add: str_key_def devirtualize_units)

lemma stringValueFromRaw_key:
  assumes "str_ok str"
  shows "stringValueFromRaw (str_key str) = concrete str"
proof (cases "has_unicode (units str)")
  case True
  then have "units str \<noteq> []" by (auto simp: has_unicode_def)
  then show ?thesis
    using assms True by (simp add: stringValueFromRaw_def str_key_units concrete_units AsUtf16_FromUtf16)
next
  case False
  then show ?thesis
    using assms widen_narrow [OF False]
    by (simp add: stringValueFromRaw_def str_key_units concrete_units AsUtf16_ascii)
qed

lemma units_concrete: "str_ok str \<Longrightarrow> units (concrete str) = units str"
  using widen_narrow [of "units str"] by (simp add: concrete_units)

lemma str_key_inj:
  assumes "str_ok a" and "str_ok b" and "str_key a = str_key b"
  shows "units a = units b"
proof -
  have "concrete a = concrete b" using assms stringValueFromRaw_key by metis
  then show ?thesis using assms units_concrete by metis
qed

section \<open>Operations\<close>

definition go_index :: "'a list \<Rightarrow> int \<Rightarrow> go_error + 'a" where
  "go_index xs i = (if 0 \<le> i \<and> i < int (length xs) then Inr (xs ! nat i) else Inl GoPanic)"

definition go_slice :: "'a list \<Rightarrow> int \<Rightarrow> int \<Rightarrow> go_error + 'a list" where
  "go_slice xs i j =
     (if 0 \<le> i \<and> i \<le> j \<and> j \<le> int (length xs) then Inr (take (nat (j - i)) (drop (nat i) xs))
      else Inl GoPanic)"

fun str_Length :: "jstr \<Rightarrow> int" where
  "str_Length (AsciiStr s) = int (length s)"
| "str_Length (UnicodeStr us) = int (length us) - 1"
| "str_Length (ImportedStr s uc scanned) =
     (case devirtualize (ImportedStr s uc scanned) of
        Inl s \<Rightarrow> int (length s) | Inr b \<Rightarrow> int (length b) - 1)"

definition ascii_CharAt :: "byte list \<Rightarrow> int \<Rightarrow> go_error + 16 word" where [simp]:
  "ascii_CharAt s idx = mapR ucast (go_index s idx)"

definition unicode_CharAt :: "ustr \<Rightarrow> int \<Rightarrow> go_error + 16 word" where [simp]:
  "unicode_CharAt us idx = go_index us (idx + 1)"

fun str_CharAt :: "jstr \<Rightarrow> int \<Rightarrow> go_error + 16 word" where
  "str_CharAt (AsciiStr s) idx = ascii_CharAt s idx"
| "str_CharAt (UnicodeStr us) idx = unicode_CharAt us idx"
| "str_CharAt (ImportedStr s uc scanned) idx =
     (case devirtualize (ImportedStr s uc scanned) of
        Inl s \<Rightarrow> mapR ucast (go_index s idx) | Inr b \<Rightarrow> go_index b (idx + 1))"

definition ascii_Concat :: "byte list \<Rightarrow> jstr \<Rightarrow> jstr" where [simp]:
  "ascii_Concat s other =
     (case devirtualize other of
        Inr b \<Rightarrow> UnicodeStr (BOM # widen s @ tl b)
      | Inl a \<Rightarrow> AsciiStr (s @ a))"

definition unicode_Concat :: "ustr \<Rightarrow> jstr \<Rightarrow> jstr" where [simp]:
  "unicode_Concat us other =
     (case devirtualize other of
        Inr b \<Rightarrow> UnicodeStr (us @ tl b)
      | Inl a \<Rightarrow> UnicodeStr (us @ widen a))"

fun conc_Concat :: "jstr \<Rightarrow> jstr \<Rightarrow> jstr" where
  "conc_Concat (AsciiStr s) other = ascii_Concat s other"
| "conc_Concat (UnicodeStr us) other = unicode_Concat us other"
| "conc_Concat str other = str"

fun str_Concat :: "jstr \<Rightarrow> jstr \<Rightarrow> jstr" where
  "str_Concat (ImportedStr s uc False) (ImportedStr s' uc' False) = ImportedStr (s @ s') None False"
| "str_Concat str other = conc_Concat (concrete str) other"

text \<open>The result of slicing past the end of a slice depends on its capacity: such calls,
  which the callers exclude, are a panic here.\<close>

definition ascii_Substring :: "byte list \<Rightarrow> int \<Rightarrow> int \<Rightarrow> go_error + jstr" where [simp]:
  "ascii_Substring s start end = mapR AsciiStr (go_slice s start end)"

definition unicode_Substring :: "ustr \<Rightarrow> int \<Rightarrow> int \<Rightarrow> go_error + jstr" where [simp]:
  "unicode_Substring us start end =
     mapR (\<lambda>ss. if list_ex (\<lambda>c. 128 \<le> unat c) ss then UnicodeStr (BOM # ss) else AsciiStr (narrow ss))
       (go_slice us (start + 1) (end + 1))"

fun conc_Substring :: "jstr \<Rightarrow> int \<Rightarrow> int \<Rightarrow> go_error + jstr" where
  "conc_Substring (AsciiStr s) start end = ascii_Substring s start end"
| "conc_Substring (UnicodeStr us) start end = unicode_Substring us start end"
| "conc_Substring str start end = Inl GoPanic"

definition str_Substring :: "jstr \<Rightarrow> int \<Rightarrow> int \<Rightarrow> go_error + jstr" where
  "str_Substring str start end = conc_Substring (concrete str) start end"

text \<open>\<open>strings.Compare\<close> and \<open>slices.Compare\<close>, and \<open>compareToAscii\<close>.\<close>

fun cmp_words :: "'a::len word list \<Rightarrow> 'a word list \<Rightarrow> int" where
  "cmp_words [] [] = 0"
| "cmp_words [] (y # ys) = - 1"
| "cmp_words (x # xs) [] = 1"
| "cmp_words (x # xs) (y # ys) = (if x < y then - 1 else if y < x then 1 else cmp_words xs ys)"

fun compareToAscii :: "ustr \<Rightarrow> byte list \<Rightarrow> int" where
  "compareToAscii [] s2 = (if s2 \<noteq> [] then - 1 else 0)"
| "compareToAscii (c1 # s1) [] = 1"
| "compareToAscii (c1 # s1) (c2 # s2) =
     (if c1 < ucast c2 then - 1 else if ucast c2 < c1 then 1 else compareToAscii s1 s2)"

definition ascii_CompareTo :: "byte list \<Rightarrow> jstr \<Rightarrow> int" where [simp]:
  "ascii_CompareTo s other =
     (case devirtualize other of
        Inr b \<Rightarrow> - compareToAscii (tl b) s
      | Inl a \<Rightarrow> cmp_words s a)"

definition unicode_CompareTo :: "ustr \<Rightarrow> jstr \<Rightarrow> int" where [simp]:
  "unicode_CompareTo us other =
     (case devirtualize other of
        Inr b \<Rightarrow> cmp_words (tl us) (tl b)
      | Inl a \<Rightarrow> compareToAscii (tl us) a)"

fun conc_CompareTo :: "jstr \<Rightarrow> jstr \<Rightarrow> int" where
  "conc_CompareTo (AsciiStr s) other = ascii_CompareTo s other"
| "conc_CompareTo (UnicodeStr us) other = unicode_CompareTo us other"
| "conc_CompareTo str other = 0"

definition str_CompareTo :: "jstr \<Rightarrow> jstr \<Rightarrow> int" where
  "str_CompareTo str other = conc_CompareTo (concrete str) other"

text \<open>\<open>StrictEquals\<close> of the three types on strings.\<close>

fun str_StrictEquals :: "jstr \<Rightarrow> jstr \<Rightarrow> bool" where
  "str_StrictEquals (AsciiStr s) (AsciiStr s') \<longleftrightarrow> s = s'"
| "str_StrictEquals (AsciiStr s) (ImportedStr s' uc' scanned') \<longleftrightarrow> uc' = None \<and> s = s'"
| "str_StrictEquals (AsciiStr s) (UnicodeStr us') \<longleftrightarrow> False"
| "str_StrictEquals (UnicodeStr us) (UnicodeStr us') \<longleftrightarrow> us = us'"
| "str_StrictEquals (UnicodeStr us) (ImportedStr s' uc' scanned') \<longleftrightarrow>
     (case devirtualize (ImportedStr s' uc' scanned') of Inr b \<Rightarrow> us = b | Inl _ \<Rightarrow> False)"
| "str_StrictEquals (UnicodeStr us) (AsciiStr s') \<longleftrightarrow> False"
| "str_StrictEquals (ImportedStr s uc scanned) (AsciiStr s') \<longleftrightarrow> uc = None \<and> s = s'"
| "str_StrictEquals (ImportedStr s uc scanned) (UnicodeStr us') \<longleftrightarrow>
     (case devirtualize (ImportedStr s uc scanned) of Inr b \<Rightarrow> b = us' | Inl _ \<Rightarrow> False)"
| "str_StrictEquals (ImportedStr s uc scanned) (ImportedStr s' uc' scanned') \<longleftrightarrow> s = s'"

section \<open>The operations refine those of lists of code units\<close>

text \<open>A string imported from Go whose bytes are valid UTF-8.\<close>

definition valid_utf8 :: "byte list \<Rightarrow> bool" where
  "valid_utf8 s \<longleftrightarrow> utf8 (runes s) = s"

fun str_valid :: "jstr \<Rightarrow> bool" where
  "str_valid (ImportedStr s uc scanned) \<longleftrightarrow> valid_utf8 s"
| "str_valid str \<longleftrightarrow> True"

lemma units_imported: "units (ImportedStr s uc scanned) = units_of_runes (runes s)"
proof (cases "ascii_bytes s")
  case True
  then have "runes s = map unat s" using runes_ascii_app [of s "[]"] by simp
  then show ?thesis using True by (simp add: Scan_ascii units_of_ascii)
qed (simp add: Scan_unicode)

lemma runes_append_utf8:
  "\<forall>r \<in> set rs. valid_rune r \<Longrightarrow> runes (utf8 rs @ t) = rs @ runes t"
  by (induction rs) (simp_all add: runes_Encode)

lemma runes_append: "valid_utf8 s \<Longrightarrow> runes (s @ t) = runes s @ runes t"
  using runes_append_utf8 [of "runes s" t] runes_valid by (simp add: valid_utf8_def)

lemma utf16_Decode_rune:
  assumes "valid_rune r"
  shows "utf16_Decode (rune_units r @ us) = r # utf16_Decode us"
proof (cases "r \<le> 0xFFFF")
  case True
  define c :: "16 word" where "c = of_nat r"
  have c: "unat c = r" using True by (simp add: c_def unat_of_nat16)
  have "\<not> isUTF16FirstSurrogate c" "\<not> isUTF16SecondSurrogate c"
    using assms c by (auto simp: valid_rune_def surrogate_def isUTF16FirstSurrogate_def isUTF16SecondSurrogate_def)
  then show ?thesis
    using True c by (cases us) (simp_all add: rune_units_def c_def [symmetric])
next
  case False
  then have r: "0x10000 \<le> r" "r \<le> 0x10FFFF" using assms by (simp_all add: valid_rune_def)
  define a b where "a = (r - 0x10000) div 0x400" and "b = (r - 0x10000) mod 0x400"
  have ab: "a < 0x400" "b < 0x400" "r = a * 0x400 + b + 0x10000" using r by (simp_all add: a_def b_def)
  have e: "utf16_EncodeRune r = (0xD800 + a, 0xDC00 + b)"
    using r ab(1,2) by (simp add: utf16_EncodeRune_def a_def b_def)
  define c d :: "16 word" where "c = of_nat (0xD800 + a)" and "d = of_nat (0xDC00 + b)"
  have cd: "unat c = 0xD800 + a" "unat d = 0xDC00 + b"
    using ab unfolding c_def d_def by (intro unat_of_nat16; simp)+
  have s: "isUTF16FirstSurrogate c" "isUTF16SecondSurrogate d"
    using cd ab by (simp_all add: isUTF16FirstSurrogate_def isUTF16SecondSurrogate_def)
  have "utf16_DecodeRune (unat c) (unat d) = r"
    using cd ab by (simp add: utf16_DecodeRune_def)
  moreover have "rune_units r = [c, d]"
    using False e by (simp add: rune_units_def c_def d_def del: of_nat_add)
  ultimately show ?thesis using s by simp
qed

lemma utf16_Decode_units:
  "\<forall>r \<in> set rs. valid_rune r \<Longrightarrow> utf16_Decode (units_of_runes rs) = rs"
  by (induction rs) (simp_all add: utf16_Decode_rune)

lemma str_Length_units: "str_ok a \<Longrightarrow> str_Length a = int (length (units a))"
proof (cases a)
  case (UnicodeStr us)
  assume "str_ok a"
  then show ?thesis using UnicodeStr by (cases us) simp_all
next
  case (ImportedStr s uc sc)
  assume "str_ok a"
  then show ?thesis
    using devirtualize_units [of a] ImportedStr by (simp add: narrow_def del: devirtualize.simps units.simps)
qed simp

lemma go_index_tl:
  "us \<noteq> [] \<Longrightarrow> 0 \<le> i \<Longrightarrow> i < int (length us) - 1 \<Longrightarrow> go_index us (i + 1) = Inr (tl us ! nat i)"
  by (cases us) (auto simp: go_index_def nat_add_distrib)

lemma str_CharAt_units:
  assumes "str_ok a" and "0 \<le> i" and "i < int (length (units a))"
  shows "str_CharAt a i = Inr (units a ! nat i)"
proof (cases a)
  case (AsciiStr s)
  then show ?thesis using assms by (simp add: go_index_def widen_def)
next
  case (UnicodeStr us)
  then show ?thesis using assms by (cases us) (simp_all add: go_index_tl)
next
  case (ImportedStr s uc sc)
  have d: "devirtualize a = (if has_unicode (units a) then Inr (BOM # units a) else Inl (narrow (units a)))"
    using assms(1) by (rule devirtualize_units)
  have n: "\<not> has_unicode (units a) \<Longrightarrow> ucast (narrow (units a) ! nat i) = units a ! nat i"
    using widen_narrow [of "units a"] assms
    by (metis length_widen nat_less_iff nth_map widen_def)
  show ?thesis
    using d n assms go_index_tl [of "BOM # units a" i]
    unfolding ImportedStr
    by (simp add: go_index_def narrow_def del: devirtualize.simps units.simps)
qed

lemma conc_Concat_units:
  assumes "str_ok a" and "str_ok b"
  shows "str_ok (conc_Concat (concrete a) b) \<and> units (conc_Concat (concrete a) b) = units a @ units b"
proof -
  note w = widen_narrow [of "units a"] widen_narrow [of "units b"]
  have ap: "widen (s @ t) = widen s @ widen t" "ascii_bytes (s @ t) \<longleftrightarrow> ascii_bytes s \<and> ascii_bytes t" for s t
    by (simp_all add: widen_def ascii_bytes_def)
  show ?thesis
    using w assms
    by (cases "has_unicode (units a)"; cases "has_unicode (units b)")
      (simp_all add: concrete_units devirtualize_units ap)
qed

lemma str_Concat_units:
  assumes "str_ok a" and "str_ok b" and "str_valid a" and "str_valid b"
  shows "str_ok (str_Concat a b) \<and> units (str_Concat a b) = units a @ units b"
proof (cases "\<exists>s uc s' uc'. a = ImportedStr s uc False \<and> b = ImportedStr s' uc' False")
  case True
  then obtain s uc s' uc' where ab: "a = ImportedStr s uc False" "b = ImportedStr s' uc' False" by blast
  then show ?thesis
    using assms by (simp add: units_imported runes_append del: units.simps) 
next
  case False
  then have "str_Concat a b = conc_Concat (concrete a) b"
    by (cases "(a, b)" rule: str_Concat.cases) (auto split: bool.splits)
  then show ?thesis using conc_Concat_units assms by simp
qed

lemma narrow_length [simp]: "length (narrow us) = length us"
  by (simp add: narrow_def)

lemma take_narrow: "take n (drop m (narrow us)) = narrow (take n (drop m us))"
  by (simp add: narrow_def take_map drop_map)

lemma has_unicode_sub: "\<not> has_unicode us \<Longrightarrow> \<not> has_unicode (take n (drop m us))"
  by (auto simp: has_unicode_iff dest: in_set_takeD in_set_dropD)

lemma str_Substring_units:
  assumes "str_ok a" and "0 \<le> i" and "i \<le> j" and "j \<le> int (length (units a))"
  shows "\<exists>t. str_Substring a i j = Inr t \<and> str_ok t \<and> units t = take (nat (j - i)) (drop (nat i) (units a))"
proof (cases "has_unicode (units a)")
  case True
  define ss where "ss = take (nat (j - i)) (drop (nat i) (units a))"
  have sl: "go_slice (BOM # units a) (i + 1) (j + 1) = Inr ss"
    using assms by (simp add: go_slice_def ss_def nat_add_distrib)
  have su: "list_ex (\<lambda>c. 128 \<le> unat c) ss \<longleftrightarrow> has_unicode ss" by (simp add: has_unicode_def)
  show ?thesis
    using True assms(1) sl su widen_narrow [of ss]
    by (cases "has_unicode ss") (simp_all add: str_Substring_def concrete_units ss_def [symmetric])
next
  case False
  have "go_slice (narrow (units a)) i j = Inr (narrow (take (nat (j - i)) (drop (nat i) (units a))))"
    using assms by (simp add: go_slice_def take_narrow)
  then show ?thesis
    using False assms(1) widen_narrow [OF has_unicode_sub [OF False]]
    by (simp add: str_Substring_def concrete_units)
qed

lemma widen_less: "(ucast x :: 16 word) < ucast y \<longleftrightarrow> x < (y :: byte)"
  by (simp add: word_less_nat_alt unat_widen)

lemma cmp_words_widen: "cmp_words (widen s) (widen t) = cmp_words s t"
  by (induction s t rule: cmp_words.induct) (simp_all add: widen_def widen_less)

lemma compareToAscii_cmp: "compareToAscii us s = cmp_words us (widen s)"
  by (induction us s rule: compareToAscii.induct) (simp_all add: widen_def neq_Nil_conv, metis widen_def list.simps(8) cmp_words.simps(1,2) list.simps(9) neq_Nil_conv)

lemma cmp_words_anti: "cmp_words b a = - cmp_words a b"
  by (induction a b rule: cmp_words.induct) auto

lemma str_CompareTo_units:
  assumes "str_ok a" and "str_ok b"
  shows "str_CompareTo a b = cmp_words (units a) (units b)"
proof -
  note w = widen_narrow [of "units a"] widen_narrow [of "units b"]
  show ?thesis
  proof (cases "has_unicode (units a)"; cases "has_unicode (units b)")
    assume "\<not> has_unicode (units a)" "has_unicode (units b)"
    then show ?thesis
      using assms w cmp_words_anti [of "units b" "units a"]
      by (simp add: str_CompareTo_def concrete_units devirtualize_units compareToAscii_cmp)
  next
    assume "\<not> has_unicode (units a)" "\<not> has_unicode (units b)"
    then show ?thesis
      using assms w cmp_words_widen [of "narrow (units a)" "narrow (units b)"]
      by (simp add: str_CompareTo_def concrete_units devirtualize_units)
  qed (use assms w in \<open>simp_all add: str_CompareTo_def concrete_units devirtualize_units compareToAscii_cmp\<close>)
qed

lemma imported_eq_units:
  assumes "valid_utf8 s" and "valid_utf8 t"
  shows "units_of_runes (runes s) = units_of_runes (runes t) \<longleftrightarrow> s = t"
  by (metis assms runes_valid utf16_Decode_units valid_utf8_def)

lemma str_StrictEquals_units:
  assumes "str_ok a" and "str_ok b" and "str_valid a" and "str_valid b"
  shows "str_StrictEquals a b \<longleftrightarrow> units a = units b"
proof -
  have au: "ascii_bytes s \<Longrightarrow> us \<noteq> [] \<Longrightarrow> has_unicode (tl us) \<Longrightarrow> widen s \<noteq> tl us" for s us
    using widen_not_unicode by metis
  have ai: "(uc = None \<and> s = t) \<longleftrightarrow> widen s = units (ImportedStr t uc sc)"
    if "ascii_bytes s" "uc = (if sc then Scan t else None)" for s t uc sc
    using that widen_inj [of s t] widen_not_unicode [of s] runes_high [of t]
    by (cases "ascii_bytes t") (auto simp: Scan_ascii Scan_unicode)
  have ui: "(case devirtualize (ImportedStr t uc sc) of Inr b \<Rightarrow> us = b | Inl _ \<Rightarrow> False)
      \<longleftrightarrow> tl us = units (ImportedStr t uc sc)"
    if "us \<noteq> []" "hd us = BOM" "has_unicode (tl us)" "uc = (if sc then Scan t else None)" for us t uc sc
    using that devirtualize_units [of "ImportedStr t uc sc"]
    by (cases us) (auto simp del: devirtualize.simps units.simps)
  have uu: "us = ut \<longleftrightarrow> tl us = tl ut" if "us \<noteq> []" "ut \<noteq> []" "hd us = BOM" "hd ut = BOM" for us ut :: ustr
    using that by (metis list.collapse)
  show ?thesis
  proof (cases a; cases b)
    fix s t assume "a = AsciiStr s" "b = AsciiStr t"
    then show ?thesis using widen_inj [of s t] by auto
  next
    fix s t assume "a = AsciiStr s" "b = UnicodeStr t"
    then show ?thesis using au assms by auto
  next
    fix s t uc sc assume "a = AsciiStr s" "b = ImportedStr t uc sc"
    then show ?thesis using ai [of s uc sc t] assms by (simp del: units.simps(3))
  next
    fix s t assume "a = UnicodeStr s" "b = AsciiStr t"
    then show ?thesis using au [of t s] assms by auto
  next
    fix s t assume "a = UnicodeStr s" "b = UnicodeStr t"
    then show ?thesis using uu [of s t] assms by simp
  next
    fix s t uc sc assume "a = UnicodeStr s" "b = ImportedStr t uc sc"
    then show ?thesis using ui [of s uc sc t] assms by (simp del: units.simps(3) devirtualize.simps)
  next
    fix s t uc sc assume "a = ImportedStr s uc sc" "b = AsciiStr t"
    then show ?thesis using ai [of t uc sc s] assms by (auto simp del: units.simps(3))
  next
    fix s t uc sc assume ab: "a = ImportedStr s uc sc" "b = UnicodeStr t"
    have "str_StrictEquals a b \<longleftrightarrow> (case devirtualize (ImportedStr s uc sc) of Inr b \<Rightarrow> t = b | Inl _ \<Rightarrow> False)"
      unfolding ab str_StrictEquals.simps by (cases "devirtualize (ImportedStr s uc sc)") auto
    moreover have "t \<noteq> []" "hd t = BOM" "has_unicode (tl t)" "uc = (if sc then Scan s else None)"
      using assms ab by simp_all
    ultimately have "str_StrictEquals a b \<longleftrightarrow> tl t = units a"
      using ui [of t uc sc s] unfolding ab by blast
    then show ?thesis using ab by auto
  next
    fix s t uc sc uc' sc' assume "a = ImportedStr s uc sc" "b = ImportedStr t uc' sc'"
    then show ?thesis using imported_eq_units assms by (simp add: units_imported del: units.simps)
  qed
qed

end
