(* ===== verification/String_Builders.thy ===== *)
theory String_Builders
  imports Ustrings
begin

text \<open>
  The string builders of \<open>string_unicode.go\<close> (\<open>unicodeStringBuilder\<close>, \<open>StringBuilder\<close>)
  and the readers of code units of \<open>string_imported.go\<close>. A builder refines the list of code
  units written so far, and what it returns satisfies the representation invariant of
  strings, with one exception: \<open>WriteSubstring\<close> after \<open>LikelyUnicode\<close>. Capacities are not
  modelled, except that \<open>Grow\<close> writes the BOM into an empty buffer.
\<close>

section \<open>unicodeStringBuilder\<close>

record usb =
  ub_buf :: ustr
  ub_unicode :: bool

definition usb0 :: usb where
  "usb0 = \<lparr>ub_buf = [], ub_unicode = False\<rparr>"

definition usb_Grow :: "usb \<Rightarrow> usb" where
  "usb_Grow b = (if ub_buf b = [] then b\<lparr>ub_buf := [BOM]\<rparr> else b)"

definition usb_writeString :: "usb \<Rightarrow> jstr \<Rightarrow> usb" where
  "usb_writeString b s =
     (case devirtualize s of
        Inr us \<Rightarrow> b\<lparr>ub_buf := ub_buf b @ tl us, ub_unicode := True\<rparr>
      | Inl a \<Rightarrow> b\<lparr>ub_buf := ub_buf b @ widen a\<rparr>)"

definition usb_String :: "usb \<Rightarrow> jstr" where
  "usb_String b =
     (if ub_unicode b then UnicodeStr (ub_buf b)
      else if length (ub_buf b) < 2 then AsciiStr []
      else AsciiStr (narrow (tl (ub_buf b))))"

definition usb_writeRuneFast :: "usb \<Rightarrow> nat \<Rightarrow> usb" where
  "usb_writeRuneFast b r =
     (if r \<le> 0xFFFF then
        b\<lparr>ub_buf := ub_buf b @ [of_nat r], ub_unicode := ub_unicode b \<or> 128 \<le> r\<rparr>
      else (let (first, second) = utf16_EncodeRune r in
        b\<lparr>ub_buf := ub_buf b @ [of_nat first, of_nat second], ub_unicode := True\<rparr>))"

definition usb_WriteRune :: "usb \<Rightarrow> nat \<Rightarrow> usb" where
  "usb_WriteRune b r = usb_writeRuneFast (usb_Grow b) r"

definition usb_writeASCIIString :: "usb \<Rightarrow> byte list \<Rightarrow> usb" where
  "usb_writeASCIIString b bytes = b\<lparr>ub_buf := ub_buf b @ map of_nat (runes bytes)\<rparr>"

definition usb_writeUnicodeString :: "usb \<Rightarrow> ustr \<Rightarrow> usb" where
  "usb_writeUnicodeString b str = b\<lparr>ub_buf := ub_buf b @ tl str, ub_unicode := True\<rparr>"

definition usb_ok :: "usb \<Rightarrow> bool" where
  "usb_ok b \<longleftrightarrow> ub_buf b \<noteq> [] \<and> hd (ub_buf b) = BOM \<and> (ub_unicode b \<longleftrightarrow> has_unicode (tl (ub_buf b)))"

definition usb_units :: "usb \<Rightarrow> ustr" where
  "usb_units b = tl (ub_buf b)"

lemma usb_append_ok:
  assumes "usb_ok b" and "uc \<longleftrightarrow> ub_unicode b \<or> has_unicode us"
  shows "usb_ok (b\<lparr>ub_buf := ub_buf b @ us, ub_unicode := uc\<rparr>)
    \<and> usb_units (b\<lparr>ub_buf := ub_buf b @ us, ub_unicode := uc\<rparr>) = usb_units b @ us"
  using assms by (auto simp: usb_ok_def usb_units_def)

lemma usb_append_ok1:
  assumes "usb_ok b" and "\<not> has_unicode us"
  shows "usb_ok (b\<lparr>ub_buf := ub_buf b @ us\<rparr>) \<and> usb_units (b\<lparr>ub_buf := ub_buf b @ us\<rparr>) = usb_units b @ us"
  using assms by (auto simp: usb_ok_def usb_units_def)

lemma usb_Grow_ok: "usb_ok b \<Longrightarrow> usb_Grow b = b" "usb_ok (usb_Grow usb0)" "usb_units (usb_Grow usb0) = []"
  by (auto simp: usb_ok_def usb_Grow_def usb0_def usb_units_def has_unicode_def)

lemma usb_writeString_ok:
  assumes "usb_ok b" and "str_ok s"
  shows "usb_ok (usb_writeString b s) \<and> usb_units (usb_writeString b s) = usb_units b @ units s"
proof (cases "has_unicode (units s)")
  case True
  then show ?thesis
    using assms usb_append_ok [of b True "units s"] by (simp add: usb_writeString_def devirtualize_units)
next
  case False
  then show ?thesis
    using assms usb_append_ok1 [of b "units s"] widen_narrow [OF False]
    by (simp add: usb_writeString_def devirtualize_units)
qed

lemma has_unicode_rune: "r \<le> 0x10FFFF \<Longrightarrow> has_unicode (rune_units r) \<longleftrightarrow> 128 \<le> r"
  using rune_units_high [of r]
  by (cases "128 \<le> r") (simp_all add: rune_units_def has_unicode_def unat_of_nat16)

lemma usb_writeRuneFast_ok:
  assumes "usb_ok b" and "r \<le> 0x10FFFF"
  shows "usb_ok (usb_writeRuneFast b r) \<and> usb_units (usb_writeRuneFast b r) = usb_units b @ rune_units r"
proof (cases "r \<le> 0xFFFF")
  case True
  then show ?thesis
    using usb_append_ok [of b "ub_unicode b \<or> 128 \<le> r" "rune_units r"] assms has_unicode_rune [of r]
    by (simp add: usb_writeRuneFast_def rune_units_def)
next
  case False
  obtain f s where fs: "utf16_EncodeRune r = (f, s)" by fastforce
  then have "rune_units r = [of_nat f, of_nat s]" using False by (simp add: rune_units_def)
  then show ?thesis
    using usb_append_ok [of b True "rune_units r"] assms has_unicode_rune [of r] False fs
    by (simp add: usb_writeRuneFast_def)
qed

lemma usb_writeUnicodeString_ok:
  assumes "usb_ok b" and "has_unicode (tl str)"
  shows "usb_ok (usb_writeUnicodeString b str) \<and> usb_units (usb_writeUnicodeString b str) = usb_units b @ tl str"
  using usb_append_ok [of b True "tl str"] assms by (simp add: usb_writeUnicodeString_def)

lemma ascii_runes: "ascii_bytes s \<Longrightarrow> map of_nat (runes s) = widen s"
proof (induction s)
  case (Cons c s)
  then have "unat c < 128" by (simp add: ascii_bytes_def)
  moreover have "(of_nat (unat c) :: 16 word) = ucast c" by (rule word_unat_eq_iff [THEN iffD2]) (simp add: unat_widen unat_of_nat16 unat8_lt order_less_trans)
  ultimately show ?case
    using Cons by (simp add: ascii_bytes_def widen_def runes_ascii del: runes.simps)
qed (simp add: widen_def)

lemma usb_writeASCIIString_ok:
  assumes "usb_ok b" and "ascii_bytes s"
  shows "usb_ok (usb_writeASCIIString b s) \<and> usb_units (usb_writeASCIIString b s) = usb_units b @ widen s"
  using usb_append_ok1 [of b "widen s"] assms widen_not_unicode
  by (simp add: usb_writeASCIIString_def ascii_runes)

lemma usb_String_ok:
  assumes "usb_ok b"
  shows "str_ok (usb_String b) \<and> units (usb_String b) = usb_units b"
proof (cases "ub_unicode b")
  case False
  then have n: "\<not> has_unicode (usb_units b)" using assms by (simp add: usb_ok_def usb_units_def)
  show ?thesis
    using False widen_narrow [OF n] assms
    by (cases "ub_buf b") (auto simp: usb_String_def usb_units_def usb_ok_def ascii_bytes_def widen_def)
qed (use assms in \<open>simp add: usb_String_def usb_ok_def usb_units_def\<close>)

section \<open>StringBuilder\<close>

record sbuilder =
  sb_ascii :: "byte list"
  sb_uni :: usb

definition sb0 :: sbuilder where
  "sb0 = \<lparr>sb_ascii = [], sb_uni = usb0\<rparr>"

definition sb_isascii :: "sbuilder \<Rightarrow> bool" where
  "sb_isascii b \<longleftrightarrow> ub_buf (sb_uni b) = []"

definition sb_switchToUnicode :: "sbuilder \<Rightarrow> sbuilder" where
  "sb_switchToUnicode b =
     (if sb_isascii b
      then b\<lparr>sb_uni := usb_writeASCIIString (usb_Grow (sb_uni b)) (sb_ascii b), sb_ascii := []\<rparr>
      else b)"

definition sb_WriteString :: "sbuilder \<Rightarrow> jstr \<Rightarrow> sbuilder" where
  "sb_WriteString b s =
     (case devirtualize s of
        Inr us \<Rightarrow> (let b = sb_switchToUnicode b in b\<lparr>sb_uni := usb_writeUnicodeString (sb_uni b) us\<rparr>)
      | Inl a \<Rightarrow>
          (if sb_isascii b then b\<lparr>sb_ascii := sb_ascii b @ a\<rparr>
           else b\<lparr>sb_uni := usb_writeASCIIString (sb_uni b) a\<rparr>))"

definition sb_writeRunes :: "sbuilder \<Rightarrow> nat list \<Rightarrow> sbuilder" where
  "sb_writeRunes b rs = b\<lparr>sb_uni := foldl usb_writeRuneFast (sb_uni b) rs\<rparr>"

definition sb_WriteUTF8String :: "sbuilder \<Rightarrow> byte list \<Rightarrow> sbuilder" where
  "sb_WriteUTF8String b s =
     (if sb_isascii b then
        (let i = ascii_prefix s in
         if i = length s then b\<lparr>sb_ascii := sb_ascii b @ s\<rparr>
         else (let b = sb_switchToUnicode b;
                   b = b\<lparr>sb_uni := usb_writeASCIIString (sb_uni b) (take i s)\<rparr>
               in sb_writeRunes b (runes (drop i s))))
      else sb_writeRunes b (runes s))"

definition sb_writeASCII :: "sbuilder \<Rightarrow> byte list \<Rightarrow> sbuilder" where
  "sb_writeASCII b s =
     (if sb_isascii b then b\<lparr>sb_ascii := sb_ascii b @ s\<rparr>
      else b\<lparr>sb_uni := usb_writeASCIIString (sb_uni b) s\<rparr>)"

definition sb_WriteRune :: "sbuilder \<Rightarrow> nat \<Rightarrow> sbuilder" where
  "sb_WriteRune b r =
     (if r < 128 then
        (if sb_isascii b then b\<lparr>sb_ascii := sb_ascii b @ [of_nat r]\<rparr>
         else b\<lparr>sb_uni := usb_writeRuneFast (sb_uni b) r\<rparr>)
      else (let b = sb_switchToUnicode b in b\<lparr>sb_uni := usb_writeRuneFast (sb_uni b) r\<rparr>))"

definition sb_String :: "sbuilder \<Rightarrow> jstr" where
  "sb_String b = (if sb_isascii b then AsciiStr (sb_ascii b) else usb_String (sb_uni b))"

definition sb_LikelyUnicode :: "sbuilder \<Rightarrow> sbuilder" where
  "sb_LikelyUnicode b = sb_switchToUnicode b"

definition sb_WriteSubstring :: "sbuilder \<Rightarrow> jstr \<Rightarrow> int \<Rightarrow> int \<Rightarrow> go_error + sbuilder" where
  "sb_WriteSubstring b source start end =
     (case devirtualize source of
        Inl a \<Rightarrow> bindR (go_slice a start end) (\<lambda>ss.
          if sb_isascii b then Inr (b\<lparr>sb_ascii := sb_ascii b @ ss\<rparr>)
          else Inr (b\<lparr>sb_uni := usb_writeASCIIString (sb_uni b) ss\<rparr>))
      | Inr us \<Rightarrow> bindR (go_slice us (start + 1) (end + 1)) (\<lambda>ss.
          if sb_isascii b \<and> \<not> list_ex (\<lambda>c. 128 \<le> unat c) ss
          then Inr (b\<lparr>sb_ascii := sb_ascii b @ narrow ss\<rparr>)
          else (let b = (if sb_isascii b then sb_switchToUnicode b else b);
                    ub = sb_uni b
                in Inr (b\<lparr>sb_uni := ub\<lparr>ub_buf := ub_buf ub @ ss, ub_unicode := True\<rparr>\<rparr>))))"

definition sb_units :: "sbuilder \<Rightarrow> ustr" where
  "sb_units b = (if sb_isascii b then widen (sb_ascii b) else usb_units (sb_uni b))"

definition sb_ok :: "sbuilder \<Rightarrow> bool" where
  "sb_ok b \<longleftrightarrow>
     (if sb_isascii b then ascii_bytes (sb_ascii b) \<and> sb_uni b = usb0 else sb_ascii b = [] \<and> usb_ok (sb_uni b))"

lemma sb0_ok: "sb_ok sb0" "sb_units sb0 = []"
  by (simp_all add: sb_ok_def sb0_def sb_isascii_def usb0_def ascii_bytes_def sb_units_def widen_def)

lemma usb_ok_nonempty: "usb_ok b \<Longrightarrow> ub_buf b \<noteq> []"
  by (simp add: usb_ok_def)

lemma sb_uni_mode:
  assumes "usb_ok ub"
  shows "sb_ok (b\<lparr>sb_uni := ub\<rparr>) \<longleftrightarrow> sb_ascii b = []"
    and "sb_units (b\<lparr>sb_uni := ub\<rparr>) = usb_units ub"
  using usb_ok_nonempty [OF assms] assms by (simp_all add: sb_ok_def sb_units_def sb_isascii_def)

lemma sb_ascii_mode:
  "sb_ok b \<Longrightarrow> sb_isascii b \<Longrightarrow> ascii_bytes s \<Longrightarrow>
     sb_ok (b\<lparr>sb_ascii := sb_ascii b @ s\<rparr>) \<and> sb_units (b\<lparr>sb_ascii := sb_ascii b @ s\<rparr>) = sb_units b @ widen s"
  by (simp add: sb_ok_def sb_units_def sb_isascii_def ascii_bytes_def widen_def)

lemma sb_switchToUnicode_ok:
  assumes "sb_ok b"
  shows "usb_ok (sb_uni (sb_switchToUnicode b))" "sb_ascii (sb_switchToUnicode b) = []"
    "usb_units (sb_uni (sb_switchToUnicode b)) = sb_units b"
  using assms usb_writeASCIIString_ok [OF usb_Grow_ok(2), of "sb_ascii b"]
  by (auto simp: sb_switchToUnicode_def sb_ok_def sb_units_def usb_Grow_ok)

lemma sb_switchToUnicode_sb_ok:
  assumes "sb_ok b"
  shows "sb_ok (sb_switchToUnicode b) \<and> sb_units (sb_switchToUnicode b) = sb_units b"
  using sb_switchToUnicode_ok [OF assms] usb_ok_nonempty
  by (simp add: sb_ok_def sb_units_def sb_isascii_def)

lemma sb_uni_case: "sb_ok b \<Longrightarrow> \<not> sb_isascii b \<Longrightarrow> sb_ascii b = [] \<and> usb_ok (sb_uni b) \<and> usb_units (sb_uni b) = sb_units b"
  by (simp add: sb_ok_def sb_units_def)

lemma sb_WriteString_ok:
  assumes "sb_ok b" and "str_ok s"
  shows "sb_ok (sb_WriteString b s) \<and> sb_units (sb_WriteString b s) = sb_units b @ units s"
proof (cases "has_unicode (units s)")
  case True
  have "usb_ok (usb_writeUnicodeString (sb_uni (sb_switchToUnicode b)) (BOM # units s))
    \<and> usb_units (usb_writeUnicodeString (sb_uni (sb_switchToUnicode b)) (BOM # units s)) = sb_units b @ units s"
    using usb_writeUnicodeString_ok [of "sb_uni (sb_switchToUnicode b)" "BOM # units s"] True
      sb_switchToUnicode_ok [OF assms(1)] by simp
  then show ?thesis
    using True assms sb_switchToUnicode_ok [OF assms(1)]
    by (simp add: sb_WriteString_def devirtualize_units sb_uni_mode Let_def)
next
  case False
  show ?thesis
  proof (cases "sb_isascii b")
    case True
    then show ?thesis
      using False assms sb_ascii_mode [of b "narrow (units s)"] widen_narrow [OF False]
      by (simp add: sb_WriteString_def devirtualize_units)
  next
    case nb: False
    then show ?thesis
      using False assms sb_uni_case [OF assms(1) nb] widen_narrow [OF False]
        usb_writeASCIIString_ok [of "sb_uni b" "narrow (units s)"]
      by (simp add: sb_WriteString_def devirtualize_units sb_uni_mode)
  qed
qed

lemma foldl_writeRuneFast_ok:
  assumes "usb_ok ub" and "\<forall>r \<in> set rs. r \<le> 0x10FFFF"
  shows "usb_ok (foldl usb_writeRuneFast ub rs) \<and> usb_units (foldl usb_writeRuneFast ub rs) = usb_units ub @ units_of_runes rs"
  using assms
proof (induction rs arbitrary: ub)
  case (Cons r rs)
  then have "usb_ok (usb_writeRuneFast ub r) \<and> usb_units (usb_writeRuneFast ub r) = usb_units ub @ rune_units r"
    using usb_writeRuneFast_ok by simp
  then show ?case using Cons.IH [of "usb_writeRuneFast ub r"] Cons.prems by simp
qed simp

lemma runes_le: "\<forall>r \<in> set (runes s). r \<le> 0x10FFFF"
  using runes_valid by (auto simp: valid_rune_def)

lemma ascii_prefix_split:
  "ascii_bytes (take (ascii_prefix s) s)" "ascii_prefix s = length s \<longleftrightarrow> ascii_bytes s"
  "runes s = map unat (take (ascii_prefix s) s) @ runes (drop (ascii_prefix s) s)"
proof -
  have t: "take (ascii_prefix s) s = takeWhile (\<lambda>b. unat b < 128) s"
    by (simp add: ascii_prefix_def takeWhile_eq_take [symmetric])
  show a: "ascii_bytes (take (ascii_prefix s) s)"
    unfolding t ascii_bytes_def list_all_iff by (auto dest: set_takeWhileD)
  show "ascii_prefix s = length s \<longleftrightarrow> ascii_bytes s"
  proof
    assume "ascii_prefix s = length s"
    then show "ascii_bytes s" using a by simp
  next
    assume "ascii_bytes s"
    then show "ascii_prefix s = length s"
      by (metis ascii_bytes_def ascii_prefix_def list_all_iff takeWhile_eq_all_conv)
  qed
  show "runes s = map unat (take (ascii_prefix s) s) @ runes (drop (ascii_prefix s) s)"
    using runes_ascii_app [OF a, of "drop (ascii_prefix s) s"] by (simp only: append_take_drop_id)
qed

lemma sb_WriteUTF8String_ok:
  assumes "sb_ok b"
  shows "sb_ok (sb_WriteUTF8String b s) \<and> sb_units (sb_WriteUTF8String b s) = sb_units b @ units_of_runes (runes s)"
proof (cases "sb_isascii b")
  case True
  show ?thesis
  proof (cases "ascii_bytes s")
    case a: True
    then have "units_of_runes (runes s) = widen s"
      using runes_ascii_app [OF a, of "[]"] by (simp add: units_of_ascii)
    then show ?thesis
      using True a sb_ascii_mode [OF assms True a] by (simp add: sb_WriteUTF8String_def ascii_prefix_split(2))
  next
    case False
    define p where "p = ascii_prefix s"
    define ub where "ub = usb_writeASCIIString (sb_uni (sb_switchToUnicode b)) (take p s)"
    have ub: "usb_ok ub \<and> usb_units ub = sb_units b @ widen (take p s)"
      using usb_writeASCIIString_ok [of "sb_uni (sb_switchToUnicode b)" "take p s"] ascii_prefix_split(1) [of s]
        sb_switchToUnicode_ok [OF assms] by (simp add: ub_def p_def)
    have "usb_ok (foldl usb_writeRuneFast ub (runes (drop p s)))
      \<and> usb_units (foldl usb_writeRuneFast ub (runes (drop p s))) = sb_units b @ units_of_runes (runes s)"
      using foldl_writeRuneFast_ok [of ub "runes (drop p s)"] ub runes_le
        units_of_ascii [OF ascii_prefix_split(1) [of s]]
      by (simp add: ascii_prefix_split(3) [of s] p_def)
    moreover have "p \<noteq> length s" using False ascii_prefix_split(2) by (simp add: p_def)
    ultimately show ?thesis
      using True sb_switchToUnicode_ok [OF assms]
      by (simp add: sb_WriteUTF8String_def Let_def sb_writeRunes_def p_def [symmetric]
          ub_def [symmetric] sb_uni_mode)
  qed
next
  case False
  then show ?thesis
    using sb_uni_case [OF assms False] foldl_writeRuneFast_ok [of "sb_uni b" "runes s"] runes_le
    by (simp add: sb_WriteUTF8String_def sb_writeRunes_def sb_uni_mode)
qed

lemma sb_WriteRune_ok:
  assumes "sb_ok b" and "r \<le> 0x10FFFF"
  shows "sb_ok (sb_WriteRune b r) \<and> sb_units (sb_WriteRune b r) = sb_units b @ rune_units r"
proof (cases "r < 128")
  case True
  have "ascii_bytes [of_nat r]" "widen [of_nat r] = rune_units r"
    using True units_of_ascii [of "[of_nat r]"] by (simp_all add: ascii_bytes_def unat_of_nat8)
  then show ?thesis
    using True assms sb_ascii_mode [of b "[of_nat r]"] sb_uni_case [OF assms(1)]
      usb_writeRuneFast_ok [of "sb_uni b" r]
    by (cases "sb_isascii b") (simp_all add: sb_WriteRune_def sb_uni_mode)
next
  case False
  then show ?thesis
    using assms sb_switchToUnicode_ok [OF assms(1)] usb_writeRuneFast_ok [of "sb_uni (sb_switchToUnicode b)" r]
    by (simp add: sb_WriteRune_def sb_uni_mode Let_def)
qed

lemma sb_String_ok: "sb_ok b \<Longrightarrow> str_ok (sb_String b) \<and> units (sb_String b) = sb_units b"
  using usb_String_ok [of "sb_uni b"] by (simp add: sb_String_def sb_ok_def sb_units_def)

lemma sb_WriteSubstring_ok:
  assumes "sb_ok b" and "str_ok source" and "0 \<le> i" and "i \<le> j" and "j \<le> int (length (units source))"
    and "sb_isascii b \<or> \<not> has_unicode (units source) \<or> ub_unicode (sb_uni b)
      \<or> has_unicode (take (nat (j - i)) (drop (nat i) (units source)))"
  shows "\<exists>b'. sb_WriteSubstring b source i j = Inr b' \<and> sb_ok b'
    \<and> sb_units b' = sb_units b @ take (nat (j - i)) (drop (nat i) (units source))"
proof -
  define ss where "ss = take (nat (j - i)) (drop (nat i) (units source))"
  have lu: "list_ex (\<lambda>c. 128 \<le> unat c) ss \<longleftrightarrow> has_unicode ss" by (simp add: has_unicode_def)
  show ?thesis
  proof (cases "has_unicode (units source)")
    case True
    have sl: "go_slice (BOM # units source) (i + 1) (j + 1) = Inr ss"
      using assms by (simp add: go_slice_def ss_def nat_add_distrib)
    show ?thesis
    proof (cases "sb_isascii b \<and> \<not> has_unicode ss")
      case a: True
      then have n: "widen (narrow ss) = ss" "ascii_bytes (narrow ss)" using widen_narrow [of ss] by blast+
      show ?thesis
        using True a assms sl lu sb_ascii_mode [OF assms(1) _ n(2)] n(1)
        by (simp add: sb_WriteSubstring_def devirtualize_units ss_def [symmetric])
    next
      case False
      define b1 where "b1 = (if sb_isascii b then sb_switchToUnicode b else b)"
      have b1: "usb_ok (sb_uni b1)" "sb_ascii b1 = []" "usb_units (sb_uni b1) = sb_units b"
        using sb_switchToUnicode_ok [OF assms(1)] sb_uni_case [OF assms(1)] by (auto simp: b1_def)
      have uc: "True \<longleftrightarrow> ub_unicode (sb_uni b1) \<or> has_unicode ss"
        using False assms(6) True by (auto simp: b1_def ss_def)
      show ?thesis
        using True False assms sl lu usb_append_ok [OF b1(1) uc] b1
        by (auto simp add: sb_WriteSubstring_def devirtualize_units ss_def [symmetric] b1_def [symmetric] Let_def sb_uni_mode)
    qed
  next
    case False
    have n: "widen (narrow ss) = ss" "ascii_bytes (narrow ss)"
      using widen_narrow [OF has_unicode_sub [OF False]] by (simp_all add: ss_def)
    have sl: "go_slice (narrow (units source)) i j = Inr (narrow ss)"
      using assms by (simp add: go_slice_def take_narrow ss_def)
    show ?thesis
      using False assms sl sb_ascii_mode [OF assms(1) _ n(2)] n sb_uni_case [OF assms(1)]
        usb_writeASCIIString_ok [of "sb_uni b" "narrow ss"]
      by (cases "sb_isascii b") (simp_all add: sb_WriteSubstring_def devirtualize_units ss_def [symmetric] sb_uni_mode)
  qed
qed

text \<open>The exception: after \<open>LikelyUnicode\<close> an ASCII substring of a unicode string makes a
  \<open>unicodeString\<close> without any non-ASCII unit, which is not equal to the same
  \<open>asciiString\<close>.\<close>

lemma WriteSubstring_breaks_invariant:
  "mapR sb_String (sb_WriteSubstring (sb_LikelyUnicode sb0) (UnicodeStr [BOM, 0x61, 0xE9]) 0 1)
     = Inr (UnicodeStr [BOM, 0x61])"
  "\<not> str_ok (UnicodeStr [BOM, 0x61])"
  "units (UnicodeStr [BOM, 0x61]) = units (AsciiStr [0x61])"
  "\<not> str_StrictEquals (UnicodeStr [BOM, 0x61]) (AsciiStr [0x61])"
  by (simp_all add: sb_WriteSubstring_def sb_LikelyUnicode_def sb_switchToUnicode_def sb0_def usb0_def
      sb_isascii_def go_slice_def usb_Grow_def usb_writeASCIIString_def sb_String_def usb_String_def
      has_unicode_def widen_def Let_def)

section \<open>Readers of imported strings\<close>

text \<open>\<open>stringUtf16Reader\<close>: the bytes not read yet and the second half of a pair.\<close>

record s16reader =
  s16_rest :: "byte list"
  s16_second :: "16 word"

definition s16_readChar :: "s16reader \<Rightarrow> s16reader \<times> 16 word option" where
  "s16_readChar s =
     (if s16_second s \<noteq> 0 then (s\<lparr>s16_second := 0\<rparr>, Some (s16_second s))
      else if s16_rest s \<noteq> [] then
        (let (r1, size1) = DecodeRune (s16_rest s);
             s = s\<lparr>s16_rest := drop size1 (s16_rest s)\<rparr> in
         if r1 \<le> 0xFFFF then (s, Some (of_nat r1))
         else (let (first, second) = utf16_EncodeRune r1 in
           (s\<lparr>s16_second := of_nat second\<rparr>, Some (of_nat first))))
      else (s, None))"

definition s16_units :: "s16reader \<Rightarrow> ustr" where
  "s16_units s = (if s16_second s \<noteq> 0 then [s16_second s] else []) @ units_of_runes (runes (s16_rest s))"

lemma encoded_second_nonzero:
  "0xFFFF < r \<Longrightarrow> r \<le> 0x10FFFF \<Longrightarrow> utf16_EncodeRune r = (f, s) \<Longrightarrow> (of_nat s :: 16 word) \<noteq> 0"
proof -
  assume a: "0xFFFF < r" "r \<le> 0x10FFFF" "utf16_EncodeRune r = (f, s)"
  then have "s = 0xDC00 + (r - 0x10000) mod 0x400" by (simp add: utf16_EncodeRune_def)
  moreover have "(r - 0x10000) mod 0x400 < 0x400" by simp
  ultimately have "0 < s" "s < 65536" by linarith+
  then have "unat (of_nat s :: 16 word) \<noteq> 0" by (simp add: unat_of_nat16)
  then show ?thesis by auto
qed

text \<open>The reader delivers the code units of the string, one at a time.\<close>

lemma s16_readChar_units:
  "s16_readChar s = (s', c) \<Longrightarrow>
     (case c of Some x \<Rightarrow> s16_units s = x # s16_units s' | None \<Rightarrow> s16_units s = [] \<and> s' = s)"
proof (cases "s16_second s \<noteq> 0")
  case True
  assume "s16_readChar s = (s', c)"
  then show ?thesis using True by (auto simp: s16_readChar_def s16_units_def)
next
  case False
  assume r: "s16_readChar s = (s', c)"
  show ?thesis
  proof (cases "s16_rest s = []")
    case True
    then show ?thesis using r False by (auto simp: s16_readChar_def s16_units_def)
  next
    case ne: False
    obtain r1 n where d: "DecodeRune (s16_rest s) = (r1, n)" by fastforce
    obtain f t where ft: "utf16_EncodeRune r1 = (f, t)" by fastforce
    have le: "r1 \<le> 0x10FFFF" using DecodeRune_valid [of "s16_rest s"] d by (simp add: valid_rune_def)
    have u: "s16_units s = rune_units r1 @ units_of_runes (runes (drop n (s16_rest s)))"
      using False d by (simp add: s16_units_def runes_step [OF ne])
    show ?thesis
      using r False ne d ft u encoded_second_nonzero [OF _ le ft]
      by (auto simp: s16_readChar_def s16_units_def rune_units_def Let_def split: if_splits)
  qed
qed

lemma importedString_reader_units:
  "s16_units \<lparr>s16_rest = s, s16_second = 0\<rparr> = units (ImportedStr s None False)"
  by (simp add: s16_units_def units_imported del: units.simps)

end
