(* ===== verification/String_Search.thy ===== *)
theory String_Search
  imports Ustrings
begin

text \<open>
  Substring search: the naive and the byte-wise searches of \<open>string_unicode.go\<close>, the
  \<open>index\<close> and \<open>lastIndex\<close> methods of the string types and the loop of
  \<open>String.prototype.replaceAll\<close> over them. The byte-wise searches look for the bytes of the
  needle and skip matches at odd offsets; they are proved to find the same position as the
  naive ones, and both the first (last) occurrence.
\<close>

section \<open>Occurrences\<close>

definition occurs_at :: "'a list \<Rightarrow> 'a list \<Rightarrow> nat \<Rightarrow> bool" where
  "occurs_at s sep i \<longleftrightarrow> i + length sep \<le> length s \<and> take (length sep) (drop i s) = sep"

definition first_occurrence :: "'a list \<Rightarrow> 'a list \<Rightarrow> int \<Rightarrow> bool" where
  "first_occurrence s sep r \<longleftrightarrow>
     (r = - 1 \<and> (\<forall>i. \<not> occurs_at s sep i)) \<or>
     (\<exists>i. r = int i \<and> occurs_at s sep i \<and> (\<forall>j < i. \<not> occurs_at s sep j))"

definition last_occurrence :: "'a list \<Rightarrow> 'a list \<Rightarrow> int \<Rightarrow> bool" where
  "last_occurrence s sep r \<longleftrightarrow>
     (r = - 1 \<and> (\<forall>i. \<not> occurs_at s sep i)) \<or>
     (\<exists>i. r = int i \<and> occurs_at s sep i \<and> (\<forall>j > i. \<not> occurs_at s sep j))"

lemma occurs_at_nth:
  "occurs_at s sep i \<longleftrightarrow> i + length sep \<le> length s \<and> (\<forall>j < length sep. s ! (i + j) = sep ! j)"
  by (auto simp: occurs_at_def list_eq_iff_nth_eq)

lemma occurs_at_bound: "occurs_at s sep i \<Longrightarrow> i \<le> length s"
  by (simp add: occurs_at_def)

section \<open>The searches\<close>

text \<open>\<open>bytes.Index\<close>, \<open>strings.Index\<close> and the last-index functions of the standard library.\<close>

definition std_Index :: "'a list \<Rightarrow> 'a list \<Rightarrow> nat option" where
  "std_Index s sep = find (occurs_at s sep) [0 ..< Suc (length s)]"

definition std_LastIndex :: "'a list \<Rightarrow> 'a list \<Rightarrow> nat option" where
  "std_LastIndex s sep = find (occurs_at s sep) (rev [0 ..< Suc (length s)])"

definition int_of_pos :: "nat option \<Rightarrow> int" where
  "int_of_pos p = (case p of None \<Rightarrow> - 1 | Some i \<Rightarrow> int i)"

definition match_tail :: "'a list \<Rightarrow> 'a list \<Rightarrow> nat \<Rightarrow> bool" where
  "match_tail s sep i = list_all (\<lambda>j. s ! (i + j) = sep ! j) [1 ..< length sep]"

definition utf16IndexNaive :: "ustr \<Rightarrow> ustr \<Rightarrow> int" where
  "utf16IndexNaive s sep =
     (if sep = [] then 0
      else if length s < length sep then - 1
      else int_of_pos (find (\<lambda>i. s ! i = sep ! 0 \<and> match_tail s sep i)
        [0 ..< Suc (length s) - length sep]))"

definition utf16LastIndexNaive :: "ustr \<Rightarrow> ustr \<Rightarrow> int" where
  "utf16LastIndexNaive s sep =
     (if sep = [] then int (length s)
      else if length s < length sep then - 1
      else int_of_pos (find (\<lambda>i. s ! i = sep ! 0 \<and> match_tail s sep i)
        (rev [0 ..< Suc (length s) - length sep])))"

function IndexBytes_loop :: "byte list \<Rightarrow> byte list \<Rightarrow> nat \<Rightarrow> go_error + int" where
  "IndexBytes_loop sb sepb offset =
     (if length sb < offset then Inl GoPanic
      else (case std_Index (drop offset sb) sepb of
         None \<Rightarrow> Inr (- 1)
       | Some i \<Rightarrow> (let pos = offset + i in
           if even pos then Inr (int (pos div 2)) else IndexBytes_loop sb sepb (pos + 1))))"
  by pat_completeness auto
termination by (relation "measure (\<lambda>(sb, sepb, offset). Suc (length sb) - offset)") auto

definition utf16IndexBytes :: "ustr \<Rightarrow> ustr \<Rightarrow> go_error + int" where
  "utf16IndexBytes s sep =
     (if sep = [] then Inr 0
      else if length s < length sep then Inr (- 1)
      else IndexBytes_loop (FromUtf16 s) (FromUtf16 sep) 0)"

lemma find_Some_iff_least:
  "find P [0 ..< n] = Some i \<longleftrightarrow> i < n \<and> P i \<and> (\<forall>j < i. \<not> P j)"
  by (auto simp: find_Some_iff)

lemma find_None_upt: "find P [0 ..< n] = None \<longleftrightarrow> (\<forall>i < n. \<not> P i)"
  by (auto simp: find_None_iff)

lemma rev_upt_nth: "i < n \<Longrightarrow> rev [0 ..< n] ! i = n - Suc i"
  by (simp add: rev_nth)

lemma find_rev_greatest:
  "find P (rev [0 ..< n]) = Some i \<longleftrightarrow> i < n \<and> P i \<and> (\<forall>j. i < j \<and> j < n \<longrightarrow> \<not> P j)"
proof (induction n)
  case (Suc n)
  show ?case
  proof (cases "P n")
    case True then show ?thesis by auto (metis less_Suc_eq not_less_eq)
  next
    case False then show ?thesis using Suc by (auto simp: less_Suc_eq)
  qed
qed simp

lemma find_rev_None: "find P (rev [0 ..< n]) = None \<longleftrightarrow> (\<forall>i < n. \<not> P i)"
  by (auto simp: find_None_iff)

lemma std_LastIndex_end: "std_LastIndex s sep = Some i \<Longrightarrow> i + length sep \<le> length s"
  by (simp add: std_LastIndex_def find_rev_greatest occurs_at_def del: upt_Suc)

function LastIndexBytes_loop :: "byte list \<Rightarrow> byte list \<Rightarrow> nat \<Rightarrow> int" where
  "LastIndexBytes_loop sb sepb end =
     (if end < length sepb \<or> sepb = [] then - 1
      else (case std_LastIndex (take end sb) sepb of
         None \<Rightarrow> - 1
       | Some i \<Rightarrow>
           (if even i then int (i div 2) else LastIndexBytes_loop sb sepb (i + length sepb - 1))))"
  by pat_completeness auto
termination
proof (relation "measure (\<lambda>(sb, sepb, end). end)")
  fix sb sepb :: "byte list" and e i :: nat
  assume a: "\<not> (e < length sepb \<or> sepb = [])" "std_LastIndex (take e sb) sepb = Some i"
  then have "i + length sepb \<le> e" using std_LastIndex_end [of "take e sb" sepb i] by simp
  moreover have "0 < length sepb" using a(1) by simp
  ultimately have "i + length sepb - 1 < e" by linarith
  then show "((sb, sepb, i + length sepb - 1), sb, sepb, e) \<in> measure (\<lambda>(sb, sepb, end). end)"
    by simp
qed simp

definition utf16LastIndexBytes :: "ustr \<Rightarrow> ustr \<Rightarrow> int" where
  "utf16LastIndexBytes s sep =
     (if sep = [] then int (length s)
      else if length s < length sep then - 1
      else LastIndexBytes_loop (FromUtf16 s) (FromUtf16 sep) (length (FromUtf16 s)))"

definition utf16IndexNaiveCrossover :: nat where
  "utf16IndexNaiveCrossover = 32"

definition utf16Index :: "ustr \<Rightarrow> ustr \<Rightarrow> go_error + int" where
  "utf16Index s substr =
     (if length s < utf16IndexNaiveCrossover then Inr (utf16IndexNaive s substr)
      else utf16IndexBytes s substr)"

definition utf16LastIndex :: "ustr \<Rightarrow> ustr \<Rightarrow> int" where
  "utf16LastIndex s sep =
     (if length s < utf16IndexNaiveCrossover then utf16LastIndexNaive s sep
      else utf16LastIndexBytes s sep)"

section \<open>They find the first and the last occurrence\<close>

lemma occurs_at_naive:
  "sep \<noteq> [] \<Longrightarrow> length sep \<le> length s \<Longrightarrow>
     occurs_at s sep i \<longleftrightarrow> i < Suc (length s) - length sep \<and> s ! i = sep ! 0 \<and> match_tail s sep i"
proof -
  assume a: "sep \<noteq> []" "length sep \<le> length s"
  have "(\<forall>j < length sep. s ! (i + j) = sep ! j) \<longleftrightarrow> s ! i = sep ! 0 \<and> match_tail s sep i"
    using a unfolding match_tail_def list_all_iff
    by (auto simp: Suc_le_eq) (metis add.right_neutral not_gr_zero)?
  then show ?thesis using a by (auto simp: occurs_at_nth)
qed

lemma occurs_at_empty: "occurs_at s [] i \<longleftrightarrow> i \<le> length s"
  by (simp add: occurs_at_def)

lemma utf16IndexNaive_first: "first_occurrence s sep (utf16IndexNaive s sep)"
proof -
  consider "sep = []" | "sep \<noteq> []" "length s < length sep" | "sep \<noteq> []" "length sep \<le> length s" by linarith
  then show ?thesis
  proof cases
    case 1 then show ?thesis by (simp add: first_occurrence_def utf16IndexNaive_def occurs_at_empty)
  next
    case 2 then show ?thesis by (simp add: first_occurrence_def utf16IndexNaive_def occurs_at_def)
  next
    case 3
    note o = occurs_at_naive [OF 3]
    show ?thesis
      using 3 unfolding first_occurrence_def utf16IndexNaive_def
      by (auto simp: int_of_pos_def find_None_upt find_Some_iff_least o split: option.split)
  qed
qed

lemma utf16LastIndexNaive_last: "last_occurrence s sep (utf16LastIndexNaive s sep)"
proof -
  consider "sep = []" | "sep \<noteq> []" "length s < length sep" | "sep \<noteq> []" "length sep \<le> length s" by linarith
  then show ?thesis
  proof cases
    case 1 then show ?thesis by (simp add: last_occurrence_def utf16LastIndexNaive_def occurs_at_empty)
  next
    case 2 then show ?thesis by (simp add: last_occurrence_def utf16LastIndexNaive_def occurs_at_def)
  next
    case 3
    note o = occurs_at_naive [OF 3]
    show ?thesis
      using 3 unfolding last_occurrence_def utf16LastIndexNaive_def
      by (auto simp: int_of_pos_def find_rev_None find_rev_greatest o split: option.split)
  qed
qed

lemma FromUtf16_take_drop: "take (2 * n) (drop (2 * k) (FromUtf16 s)) = FromUtf16 (take n (drop k s))"
proof (induction s arbitrary: n k)
  case (Cons c s)
  show ?case
    using Cons [of n 0] Cons [of "n - 1" 0] Cons [of n "k - 1"]
    by (cases k; cases n) (simp_all add: FromUtf16_def)
qed (simp add: FromUtf16_def)

lemma FromUtf16_inj: "FromUtf16 s = FromUtf16 t \<longleftrightarrow> s = t"
  by (metis bytes_units_FromUtf16)

lemma occurs_at_bytes: "occurs_at (FromUtf16 s) (FromUtf16 sep) (2 * k) \<longleftrightarrow> occurs_at s sep k"
  by (auto simp: occurs_at_def FromUtf16_take_drop FromUtf16_inj)

lemma occurs_at_drop: "offset \<le> length s \<Longrightarrow> occurs_at (drop offset s) sep i \<longleftrightarrow> occurs_at s sep (offset + i)"
  by (auto simp: occurs_at_def add.commute)

lemma std_Index_Some:
  "std_Index s sep = Some i \<longleftrightarrow> occurs_at s sep i \<and> (\<forall>j < i. \<not> occurs_at s sep j)"
  unfolding std_Index_def find_Some_iff_least using occurs_at_bound by (auto simp: less_Suc_eq_le)

lemma std_Index_None: "std_Index s sep = None \<longleftrightarrow> (\<forall>i. \<not> occurs_at s sep i)"
  unfolding std_Index_def find_None_upt using occurs_at_bound by (auto simp: less_Suc_eq_le)

lemma std_LastIndex_Some:
  "std_LastIndex s sep = Some i \<longleftrightarrow> occurs_at s sep i \<and> (\<forall>j > i. \<not> occurs_at s sep j)"
  unfolding std_LastIndex_def find_rev_greatest using occurs_at_bound by (auto simp: less_Suc_eq_le)

lemma std_LastIndex_None: "std_LastIndex s sep = None \<longleftrightarrow> (\<forall>i. \<not> occurs_at s sep i)"
  unfolding std_LastIndex_def find_rev_None using occurs_at_bound by (auto simp: less_Suc_eq_le)

lemma first_of_std: "first_occurrence s sep (int_of_pos (std_Index s sep))"
  by (auto simp: first_occurrence_def int_of_pos_def std_Index_None std_Index_Some split: option.split)

lemma last_of_std: "last_occurrence s sep (int_of_pos (std_LastIndex s sep))"
  by (auto simp: last_occurrence_def int_of_pos_def std_LastIndex_None std_LastIndex_Some split: option.split)

lemma IndexBytes_loop_first:
  assumes "sep \<noteq> []" and "offset \<le> 2 * length s" and "\<forall>k. 2 * k < offset \<longrightarrow> \<not> occurs_at s sep k"
  shows "\<exists>r. IndexBytes_loop (FromUtf16 s) (FromUtf16 sep) offset = Inr r \<and> first_occurrence s sep r"
  using assms
proof (induction "Suc (2 * length s) - offset" arbitrary: offset rule: less_induct)
  case less
  define sb sepb where "sb = FromUtf16 s" and "sepb = FromUtf16 sep"
  have o: "occurs_at (drop offset sb) sepb i \<longleftrightarrow> occurs_at sb sepb (offset + i)" for i
    using less.prems by (simp add: occurs_at_drop sb_def)
  have ev: "occurs_at sb sepb (2 * k) \<longleftrightarrow> occurs_at s sep k" for k
    by (simp add: sb_def sepb_def occurs_at_bytes)
  have len: "length sb = 2 * length s" "0 < length sepb" using less.prems by (simp_all add: sb_def sepb_def)
  show ?case
  proof (cases "std_Index (drop offset sb) sepb")
    case None
    then have n: "\<not> occurs_at sb sepb (offset + i)" for i by (simp add: std_Index_None o)
    have "\<not> occurs_at s sep k" for k
    proof (cases "2 * k < offset")
      case True then show ?thesis using less.prems by blast
    next
      case False then show ?thesis using n [of "2 * k - offset"] ev [of k] by simp
    qed
    then have "first_occurrence s sep (- 1)" by (simp add: first_occurrence_def)
    then show ?thesis using None len less.prems by (simp add: sb_def sepb_def)
  next
    case (Some i)
    define p where "p = offset + i"
    have i: "occurs_at sb sepb p" "\<And>j. j < i \<Longrightarrow> \<not> occurs_at sb sepb (offset + j)"
      using Some by (simp_all add: std_Index_Some o p_def)
    have before: "\<not> occurs_at s sep k" if "2 * k < p" for k
    proof (cases "2 * k < offset")
      case True then show ?thesis using less.prems by blast
    next
      case False then show ?thesis using i(2) [of "2 * k - offset"] ev [of k] that by (simp add: p_def)
    qed
    have pb: "p < 2 * length s" using i(1) len by (cases sepb) (auto simp: occurs_at_def)
    show ?thesis
    proof (cases "even p")
      case True
      then obtain k where k: "p = 2 * k" by blast
      have "first_occurrence s sep (int k)"
        using i(1) before ev [of k] by (auto simp: first_occurrence_def k)
      then show ?thesis using Some len less.prems k p_def by (auto simp: sb_def sepb_def Let_def)
    next
      case False
      have nx: "\<not> occurs_at s sep k" if "2 * k < p + 1" for k
        using before [of k] that False by (cases "2 * k = p") auto
      have "\<exists>r. IndexBytes_loop (FromUtf16 s) (FromUtf16 sep) (p + 1) = Inr r \<and> first_occurrence s sep r"
        by (rule less.hyps) (use pb less.prems nx in \<open>auto simp: p_def\<close>)
      moreover have "IndexBytes_loop sb sepb offset = IndexBytes_loop sb sepb (p + 1)"
        using Some False len less.prems by (simp add: p_def Let_def)
      ultimately show ?thesis by (simp only: sb_def sepb_def)
    qed
  qed
qed

lemma utf16IndexBytes_first:
  "\<exists>r. utf16IndexBytes s sep = Inr r \<and> first_occurrence s sep r"
proof -
  consider "sep = []" | "sep \<noteq> []" "length s < length sep" | "sep \<noteq> []" "length sep \<le> length s" by linarith
  then show ?thesis
  proof cases
    case 1 then show ?thesis by (simp add: utf16IndexBytes_def first_occurrence_def occurs_at_empty)
  next
    case 2 then show ?thesis by (simp add: utf16IndexBytes_def first_occurrence_def occurs_at_def)
  next
    case 3
    then show ?thesis using IndexBytes_loop_first [of sep 0 s] by (simp add: utf16IndexBytes_def del: IndexBytes_loop.simps)
  qed
qed

lemma occurs_at_take: "occurs_at (take n s) sep i \<longleftrightarrow> occurs_at s sep i \<and> i + length sep \<le> n"
  by (auto simp: occurs_at_nth)

lemma LastIndexBytes_loop_last:
  assumes "sep \<noteq> []" and "\<forall>k. occurs_at s sep k \<longrightarrow> 2 * k + 2 * length sep \<le> e"
  shows "last_occurrence s sep (LastIndexBytes_loop (FromUtf16 s) (FromUtf16 sep) e)"
  using assms
proof (induction e rule: less_induct)
  case (less e)
  define sb sepb where "sb = FromUtf16 s" and "sepb = FromUtf16 sep"
  have ev: "occurs_at sb sepb (2 * k) \<longleftrightarrow> occurs_at s sep k" for k
    by (simp add: sb_def sepb_def occurs_at_bytes)
  have len1: "length sepb = 2 * length sep" by (simp add: sepb_def)
  have len: "length sepb = 2 * length sep" "0 < length sep" "sepb \<noteq> []"
    using less.prems len1 by auto
  show ?case
  proof (cases "e < length sepb")
    case True
    then have "\<forall>k. \<not> occurs_at s sep k" using less.prems(2) len by (metis add.commute add_leE not_less)
    then show ?thesis using True by (simp add: last_occurrence_def sepb_def)
  next
    case False
    show ?thesis
    proof (cases "std_LastIndex (take e sb) sepb")
      case None
      then have "\<not> occurs_at s sep k" for k
        using less.prems(2) ev [of k] len by (auto simp: std_LastIndex_None occurs_at_take)
      then have "last_occurrence s sep (- 1)" by (simp add: last_occurrence_def)
      then show ?thesis using None False len by (simp add: sb_def sepb_def)
    next
      case (Some i)
      then have i: "occurs_at sb sepb i" "i + length sepb \<le> e"
          "\<And>j. i < j \<Longrightarrow> occurs_at sb sepb j \<Longrightarrow> e < j + length sepb"
        by (auto simp: std_LastIndex_Some occurs_at_take not_le)
      show ?thesis
      proof (cases "even i")
        case True
        then obtain k where k: "i = 2 * k" by blast
        have "\<not> occurs_at s sep j" if "k < j" for j
          using i(3) [of "2 * j"] less.prems(2) ev [of j] that len by (auto simp: k)
        then have "last_occurrence s sep (int k)"
          using i(1) ev [of k] by (auto simp: last_occurrence_def k)
        then show ?thesis using Some False len k by (auto simp: sb_def sepb_def)
      next
        case False
        have b: "\<forall>k. occurs_at s sep k \<longrightarrow> 2 * k + 2 * length sep \<le> i + length sepb - 1"
        proof (intro allI impI)
          fix k assume k: "occurs_at s sep k"
          then have "\<not> i < 2 * k" using i(3) [of "2 * k"] less.prems(2) ev [of k] len by auto
          moreover have "2 * k \<noteq> i" using False by auto
          ultimately have "2 * k < i" by simp
          then show "2 * k + 2 * length sep \<le> i + length sepb - 1" using len by simp
        qed
        have "last_occurrence s sep (LastIndexBytes_loop (FromUtf16 s) (FromUtf16 sep) (i + length sepb - 1))"
        proof (rule less.IH)
          show "i + length sepb - 1 < e" using i(2) len1 len(2) by linarith
        qed (use b less.prems(1) in blast)+
        moreover have "LastIndexBytes_loop sb sepb e = LastIndexBytes_loop sb sepb (i + length sepb - 1)"
          using Some False \<open>\<not> e < length sepb\<close> len by (subst LastIndexBytes_loop.simps) simp
        ultimately show ?thesis by (simp only: sb_def sepb_def)
      qed
    qed
  qed
qed

lemma utf16LastIndexBytes_last: "last_occurrence s sep (utf16LastIndexBytes s sep)"
proof -
  consider "sep = []" | "sep \<noteq> []" "length s < length sep" | "sep \<noteq> []" "length sep \<le> length s" by linarith
  then show ?thesis
  proof cases
    case 1 then show ?thesis by (simp add: utf16LastIndexBytes_def last_occurrence_def occurs_at_empty)
  next
    case 2 then show ?thesis by (simp add: utf16LastIndexBytes_def last_occurrence_def occurs_at_def)
  next
    case 3
    have "\<forall>k. occurs_at s sep k \<longrightarrow> 2 * k + 2 * length sep \<le> length (FromUtf16 s)"
      by (auto simp: occurs_at_def)
    then show ?thesis
      using 3 LastIndexBytes_loop_last [of sep s "length (FromUtf16 s)"]
      by (simp add: utf16LastIndexBytes_def del: LastIndexBytes_loop.simps length_FromUtf16)
  qed
qed

lemma utf16Index_first: "\<exists>r. utf16Index s sep = Inr r \<and> first_occurrence s sep r"
  using utf16IndexNaive_first [of s sep] utf16IndexBytes_first [of s sep] by (simp add: utf16Index_def)

lemma utf16LastIndex_last: "last_occurrence s sep (utf16LastIndex s sep)"
  using utf16LastIndexNaive_last utf16LastIndexBytes_last by (simp add: utf16LastIndex_def)

lemma first_occurrence_unique:
  "first_occurrence s sep r \<Longrightarrow> first_occurrence s sep r' \<Longrightarrow> r = r'"
  by (auto simp: first_occurrence_def) (metis nat_neq_iff)

lemma last_occurrence_unique:
  "last_occurrence s sep r \<Longrightarrow> last_occurrence s sep r' \<Longrightarrow> r = r'"
  by (auto simp: last_occurrence_def) (metis nat_neq_iff)

section \<open>The methods index and lastIndex\<close>

definition ascii_index :: "byte list \<Rightarrow> jstr \<Rightarrow> int \<Rightarrow> go_error + int" where [simp]:
  "ascii_index s substr start =
     (case devirtualize substr of
        Inl a \<Rightarrow>
          (if int (length s) < start then Inr (- 1)
           else bindR (go_slice s start (int (length s))) (\<lambda>rest.
             case std_Index rest a of Some p \<Rightarrow> Inr (int p + start) | None \<Rightarrow> Inr (- 1)))
      | Inr b \<Rightarrow> Inr (- 1))"

definition unicode_index :: "ustr \<Rightarrow> jstr \<Rightarrow> int \<Rightarrow> go_error + int" where [simp]:
  "unicode_index us substr start =
     (let ss = (case devirtualize substr of Inr b \<Rightarrow> tl b | Inl a \<Rightarrow> widen a) in
      bindR (go_slice us (min (1 + start) (int (length us))) (int (length us))) (\<lambda>rest.
      bindR (utf16Index rest ss) (\<lambda>idx. Inr (if idx \<noteq> - 1 then idx + start else - 1))))"

fun conc_index :: "jstr \<Rightarrow> jstr \<Rightarrow> int \<Rightarrow> go_error + int" where
  "conc_index (AsciiStr s) substr start = ascii_index s substr start"
| "conc_index (UnicodeStr us) substr start = unicode_index us substr start"
| "conc_index str substr start = Inl GoPanic"

definition str_index :: "jstr \<Rightarrow> jstr \<Rightarrow> int \<Rightarrow> go_error + int" where
  "str_index str substr start = conc_index (concrete str) substr start"

definition ascii_lastIndex :: "byte list \<Rightarrow> jstr \<Rightarrow> int \<Rightarrow> go_error + int" where [simp]:
  "ascii_lastIndex s substr pos =
     (case devirtualize substr of
        Inl a \<Rightarrow>
          (let end = pos + int (length a) in
           bindR (if int (length s) < end then Inr s else go_slice s 0 end) (\<lambda>ss.
             Inr (int_of_pos (std_LastIndex ss a))))
      | Inr b \<Rightarrow> Inr (- 1))"

definition unicode_lastIndex :: "ustr \<Rightarrow> jstr \<Rightarrow> int \<Rightarrow> go_error + int" where [simp]:
  "unicode_lastIndex us substr start =
     (let ss = (case devirtualize substr of Inr b \<Rightarrow> tl b | Inl a \<Rightarrow> widen a) in
      bindR (go_slice us 1 (min (start + 1 + int (length ss)) (int (length us)))) (\<lambda>hay.
        Inr (utf16LastIndex hay ss)))"

fun conc_lastIndex :: "jstr \<Rightarrow> jstr \<Rightarrow> int \<Rightarrow> go_error + int" where
  "conc_lastIndex (AsciiStr s) substr pos = ascii_lastIndex s substr pos"
| "conc_lastIndex (UnicodeStr us) substr start = unicode_lastIndex us substr start"
| "conc_lastIndex str substr start = Inl GoPanic"

definition str_lastIndex :: "jstr \<Rightarrow> jstr \<Rightarrow> int \<Rightarrow> go_error + int" where
  "str_lastIndex str substr pos = conc_lastIndex (concrete str) substr pos"

text \<open>The abstract searches: the first occurrence at or after a position, the last one at or
  before it.\<close>

definition index_from :: "ustr \<Rightarrow> ustr \<Rightarrow> nat \<Rightarrow> int" where
  "index_from s sep start =
     (case std_Index (drop start s) sep of Some p \<Rightarrow> int (start + p) | None \<Rightarrow> - 1)"

definition last_index_upto :: "ustr \<Rightarrow> ustr \<Rightarrow> nat \<Rightarrow> int" where
  "last_index_upto s sep pos = int_of_pos (std_LastIndex (take (pos + length sep) s) sep)"

lemma utf16Index_std: "utf16Index s sep = Inr (int_of_pos (std_Index s sep))"
  using utf16Index_first [of s sep] first_of_std first_occurrence_unique by blast

lemma utf16LastIndex_std: "utf16LastIndex s sep = int_of_pos (std_LastIndex s sep)"
  using utf16LastIndex_last last_of_std last_occurrence_unique by blast

lemma map_inj_eq: "inj f \<Longrightarrow> map f xs = map f ys \<longleftrightarrow> xs = ys"
  by (simp add: inj_map_eq_map)

lemma occurs_at_widen: "occurs_at (widen s) (widen a) i \<longleftrightarrow> occurs_at s a i"
  by (auto simp: occurs_at_def widen_def take_map drop_map dest: widen_inj [unfolded widen_def])

lemma occurs_at_widen_fun: "occurs_at (widen s) (widen a) = occurs_at s a"
  by (rule ext) (rule occurs_at_widen)

lemma std_Index_widen: "std_Index (widen s) (widen a) = std_Index s a"
  unfolding std_Index_def length_widen occurs_at_widen_fun ..

lemma std_LastIndex_widen: "std_LastIndex (widen s) (widen a) = std_LastIndex s a"
  unfolding std_LastIndex_def length_widen occurs_at_widen_fun ..

lemma no_unicode_occurrence:
  assumes "\<not> has_unicode s" and "has_unicode sep"
  shows "\<not> occurs_at s sep i"
  using assms has_unicode_sub [of s "length sep" i] by (auto simp: occurs_at_def)

lemma std_none_unicode:
  assumes "\<not> has_unicode s" and "has_unicode sep"
  shows "std_Index s sep = None" and "std_LastIndex s sep = None"
  using no_unicode_occurrence [OF assms] by (simp_all add: std_Index_None std_LastIndex_None)

lemma widen_drop: "widen (drop n s) = drop n (widen s)" and widen_take: "widen (take n s) = take n (widen s)"
  by (simp_all add: widen_def drop_map take_map)

lemma go_slice_from: "0 \<le> i \<Longrightarrow> i \<le> int (length s) \<Longrightarrow> go_slice s i (int (length s)) = Inr (drop (nat i) s)"
  by (simp add: go_slice_def nat_diff_distrib)

lemma str_index_units:
  assumes "str_ok a" and "str_ok b" and "0 \<le> start" and "start \<le> int (length (units a))"
  shows "str_index a b start = Inr (index_from (units a) (units b) (nat start))"
proof (cases "has_unicode (units a)")
  case True
  have ss: "(case devirtualize b of Inr x \<Rightarrow> tl x | Inl x \<Rightarrow> widen x) = units b"
    using assms(2) widen_narrow [of "units b"] by (simp add: devirtualize_units)
  have sl: "go_slice (BOM # units a) (min (1 + start) (int (length (BOM # units a)))) (int (length (BOM # units a)))
      = Inr (drop (nat start) (units a))"
    using assms(3,4) go_slice_from [of "1 + start" "BOM # units a"] by (simp add: nat_add_distrib min_def)
  show ?thesis
    using True assms sl
    by (simp add: str_index_def concrete_units ss utf16Index_std index_from_def int_of_pos_def
        split: option.split)
next
  case False
  note wa = widen_narrow [OF False]
  show ?thesis
  proof (cases "has_unicode (units b)")
    case True
    have "\<not> has_unicode (drop (nat start) (units a))" using False by (metis append_take_drop_id has_unicode_append)
    then show ?thesis
      using False True assms std_none_unicode
      by (simp add: str_index_def concrete_units devirtualize_units index_from_def)
  next
    case nb: False
    have "std_Index (drop (nat start) (narrow (units a))) (narrow (units b)) = std_Index (drop (nat start) (units a)) (units b)"
      using std_Index_widen [of "drop (nat start) (narrow (units a))" "narrow (units b)"] wa widen_narrow [OF nb]
      by (simp add: widen_drop)
    then show ?thesis
      using False nb assms go_slice_from [of start "narrow (units a)"]
      by (simp add: str_index_def concrete_units devirtualize_units index_from_def split: option.split)
  qed
qed

lemma str_lastIndex_units:
  assumes "str_ok a" and "str_ok b" and "0 \<le> pos"
  shows "str_lastIndex a b pos = Inr (last_index_upto (units a) (units b) (nat pos))"
proof (cases "has_unicode (units a)")
  case True
  have ss: "(case devirtualize b of Inr x \<Rightarrow> tl x | Inl x \<Rightarrow> widen x) = units b"
    using assms(2) widen_narrow [of "units b"] by (simp add: devirtualize_units)
  have "go_slice (BOM # units a) 1 (min (pos + 1 + int (length (units b))) (int (length (BOM # units a))))
      = Inr (take (nat pos + length (units b)) (units a))"
    using assms(3) by (simp add: go_slice_def min_def nat_add_distrib)
  then show ?thesis
    using True assms
    by (simp add: str_lastIndex_def concrete_units ss utf16LastIndex_std last_index_upto_def Let_def)
next
  case False
  note wa = widen_narrow [OF False]
  show ?thesis
  proof (cases "has_unicode (units b)")
    case True
    have "\<not> has_unicode (take n (units a))" for n
      using False has_unicode_sub [of "units a" n 0] by simp
    then show ?thesis
      using False True assms std_none_unicode
      by (simp add: str_lastIndex_def concrete_units devirtualize_units last_index_upto_def int_of_pos_def)
  next
    case nb: False
    define n where "n = nat pos + length (units b)"
    have "std_LastIndex (take n (narrow (units a))) (narrow (units b)) = std_LastIndex (take n (units a)) (units b)"
      using std_LastIndex_widen [of "take n (narrow (units a))" "narrow (units b)"] wa widen_narrow [OF nb]
      by (simp add: widen_take)
    moreover have "(if int (length (units a)) < pos + int (length (units b)) then Inr (narrow (units a))
        else go_slice (narrow (units a)) 0 (pos + int (length (units b)))) = Inr (take n (narrow (units a)))"
      using assms(3) by (auto simp: go_slice_def n_def nat_add_distrib)
    ultimately show ?thesis
      using False nb assms
      by (simp add: str_lastIndex_def concrete_units devirtualize_units last_index_upto_def n_def Let_def)
  qed
qed

section \<open>The search loop of String.prototype.replaceAll\<close>

text \<open>\<open>for pos != -1 { found = append(...); pos = s.index(searchStr, pos+advanceBy) }\<close>, with
  fuel: \<open>None\<close> means the loop has not ended yet.\<close>

fun replaceAll_loop :: "nat \<Rightarrow> jstr \<Rightarrow> jstr \<Rightarrow> int \<Rightarrow> (int \<times> int) list \<Rightarrow> (go_error + (int \<times> int) list) option" where
  "replaceAll_loop 0 s searchStr pos found = None"
| "replaceAll_loop (Suc n) s searchStr pos found =
     (if pos = - 1 then Some (Inr found)
      else (let searchLength = str_Length searchStr; advanceBy = max 1 searchLength in
        case str_index s searchStr (pos + advanceBy) of
          Inl e \<Rightarrow> Some (Inl e)
        | Inr pos' \<Rightarrow> replaceAll_loop n s searchStr pos' (found @ [(pos, pos + searchLength)])))"

definition replaceAll_found :: "nat \<Rightarrow> jstr \<Rightarrow> jstr \<Rightarrow> (go_error + (int \<times> int) list) option" where
  "replaceAll_found n s searchStr =
     (case str_index s searchStr 0 of
        Inl e \<Rightarrow> Some (Inl e)
      | Inr pos \<Rightarrow> replaceAll_loop n s searchStr pos [])"

text \<open>The positions to replace: leftmost, not overlapping.\<close>

function greedy_occurrences :: "ustr \<Rightarrow> ustr \<Rightarrow> nat \<Rightarrow> nat list" where
  "greedy_occurrences s sep start =
     (if length s < start then []
      else (case std_Index (drop start s) sep of
         None \<Rightarrow> []
       | Some p \<Rightarrow> (start + p) # greedy_occurrences s sep (start + p + max 1 (length sep))))"
  by pat_completeness auto
termination by (relation "measure (\<lambda>(s, sep, start). Suc (length s) - start)") auto

declare greedy_occurrences.simps [simp del]

definition as_ranges :: "nat \<Rightarrow> nat list \<Rightarrow> (int \<times> int) list" where
  "as_ranges n ps = map (\<lambda>p. (int p, int p + int n)) ps"

text \<open>Past the end of the string the two types differ: \<open>asciiString.index\<close> answers -1,
  \<open>unicodeString.index\<close> searches the empty rest.\<close>

lemma str_index_past:
  assumes "str_ok a" and "str_ok b" and "int (length (units a)) < start"
  shows "str_index a b start = Inr (if has_unicode (units a) \<and> units b = [] then start else - 1)"
proof (cases "has_unicode (units a)")
  case True
  have ss: "(case devirtualize b of Inr x \<Rightarrow> tl x | Inl x \<Rightarrow> widen x) = units b"
    using assms(2) widen_narrow [of "units b"] by (simp add: devirtualize_units)
  have "go_slice (BOM # units a) (min (1 + start) (int (length (BOM # units a)))) (int (length (BOM # units a))) = Inr []"
    using assms(3) go_slice_from [of "int (length (BOM # units a))" "BOM # units a"] by (simp add: min_def)
  moreover have "int_of_pos (std_Index [] (units b)) = (if units b = [] then 0 else - 1)"
    by (simp add: std_Index_def int_of_pos_def occurs_at_def)
  ultimately show ?thesis
    using True assms(1) by (auto simp add: str_index_def concrete_units ss utf16Index_std)
next
  case False
  then show ?thesis using assms by (simp add: str_index_def concrete_units devirtualize_units)
qed

lemma index_from_bounds:
  "index_from s sep start = - 1 \<or> (int start \<le> index_from s sep start \<and> index_from s sep start + int (length sep) \<le> int (length s))"
  if "start \<le> length s"
  using that by (auto simp: index_from_def std_Index_Some occurs_at_def split: option.split)

lemma replaceAll_loop_greedy:
  assumes "str_ok s" and "str_ok sub" and "\<not> (has_unicode (units s) \<and> units sub = [])"
  shows "start \<le> length (units s) \<Longrightarrow> length (units s) - start < n \<Longrightarrow>
     (case str_index s sub (int start) of Inr pos \<Rightarrow> replaceAll_loop (Suc n) s sub pos acc | Inl e \<Rightarrow> None)
       = Some (Inr (acc @ as_ranges (length (units sub)) (greedy_occurrences (units s) (units sub) start)))"
proof (induction n arbitrary: start acc)
  case 0 then show ?case by simp
next
  case (Suc n)
  let ?us = "units s" and ?ub = "units sub"
  have i0: "str_index s sub (int start) = Inr (index_from ?us ?ub start)"
    using str_index_units [OF assms(1,2), of "int start"] Suc.prems by simp
  show ?case
  proof (cases "std_Index (drop start ?us) ?ub")
    case None
    then show ?thesis
      using i0 by (subst greedy_occurrences.simps) (simp add: index_from_def as_ranges_def)
  next
    case (Some p)
    define q where "q = start + p"
    define nxt where "nxt = q + max 1 (length ?ub)"
    have q: "q + length ?ub \<le> length ?us"
    proof -
      have "occurs_at (drop start ?us) ?ub p" using Some by (simp add: std_Index_Some)
      then have "p + length ?ub \<le> length ?us - start" by (simp add: occurs_at_def)
      then show ?thesis using Suc.prems(1) unfolding q_def by linarith
    qed
    have g: "greedy_occurrences ?us ?ub start = q # greedy_occurrences ?us ?ub nxt"
      using Some Suc.prems by (subst greedy_occurrences.simps) (simp add: q_def nxt_def)
    have r: "index_from ?us ?ub start = int q" using Some by (simp add: index_from_def q_def)
    have L: "str_Length sub = int (length ?ub)" using assms(2) by (rule str_Length_units)
    have step: "(case str_index s sub (int start) of Inr pos \<Rightarrow> replaceAll_loop (Suc (Suc n)) s sub pos acc | Inl e \<Rightarrow> None)
      = (case str_index s sub (int nxt) of Inl e \<Rightarrow> Some (Inl e)
         | Inr pos' \<Rightarrow> replaceAll_loop (Suc n) s sub pos' (acc @ [(int q, int q + int (length ?ub))]))"
      using i0 r L by (simp add: nxt_def Let_def max_def)
    show ?thesis
    proof (cases "nxt \<le> length ?us")
      case True
      have i1: "\<exists>x. str_index s sub (int nxt) = Inr x"
        using str_index_units [OF assms(1,2), of "int nxt"] True by simp
      have "(case str_index s sub (int nxt) of Inr pos \<Rightarrow> replaceAll_loop (Suc n) s sub pos (acc @ [(int q, int q + int (length ?ub))]) | Inl e \<Rightarrow> None)
       = Some (Inr ((acc @ [(int q, int q + int (length ?ub))]) @ as_ranges (length ?ub) (greedy_occurrences ?us ?ub nxt)))"
        by (rule Suc.IH) (use True Suc.prems in \<open>auto simp: nxt_def q_def\<close>)
      then show ?thesis using step i1 g by (auto simp: as_ranges_def)
    next
      case False
      then have "str_index s sub (int nxt) = Inr (- 1)"
        using str_index_past [OF assms(1,2), of "int nxt"] assms(3) by auto
      moreover have "greedy_occurrences ?us ?ub nxt = []"
        using False by (subst greedy_occurrences.simps) simp
      ultimately show ?thesis using step g by (simp add: as_ranges_def)
    qed
  qed
qed

lemma replaceAll_found_greedy:
  assumes "str_ok s" and "str_ok sub" and "\<not> (has_unicode (units s) \<and> units sub = [])"
  shows "replaceAll_found (length (units s) + 2) s sub
     = Some (Inr (as_ranges (length (units sub)) (greedy_occurrences (units s) (units sub) 0)))"
proof -
  have "\<exists>x. str_index s sub 0 = Inr x" using str_index_units [OF assms(1,2), of 0] by simp
  then show ?thesis
    using replaceAll_loop_greedy [OF assms, of 0 "Suc (length (units s))" "[]"]
    by (auto simp: replaceAll_found_def simp del: replaceAll_loop.simps)
qed

text \<open>An empty needle in a string that is not ASCII: every step finds the next position, in
  and past the string.\<close>

lemma std_Index_empty: "std_Index s [] = Some 0"
  by (simp add: std_Index_Some occurs_at_def)

lemma replaceAll_loop_diverges:
  assumes "str_ok s" and "str_ok sub" and "has_unicode (units s)" and "units sub = []"
  shows "0 \<le> pos \<Longrightarrow> replaceAll_loop n s sub pos acc = None"
proof (induction n arbitrary: pos acc)
  case (Suc n)
  have L: "str_Length sub = 0" using str_Length_units [OF assms(2)] assms(4) by simp
  have "str_index s sub (pos + 1) = Inr (pos + 1)"
  proof (cases "pos + 1 \<le> int (length (units s))")
    case True
    show ?thesis
      using str_index_units [OF assms(1,2), of "pos + 1"] True Suc.prems assms(4)
      by (simp add: index_from_def std_Index_empty)
  next
    case False
    then show ?thesis using str_index_past [OF assms(1,2), of "pos + 1"] assms(3,4) by simp
  qed
  then show ?case using Suc L by (simp add: Let_def)
qed simp

lemma replaceAll_found_diverges:
  assumes "str_ok s" and "str_ok sub" and "has_unicode (units s)" and "units sub = []"
  shows "replaceAll_found n s sub = None"
proof -
  have "\<exists>x. str_index s sub 0 = Inr x \<and> 0 \<le> x"
    using str_index_units [OF assms(1,2), of 0] assms(4) std_Index_empty [of "units s"]
    by (simp add: index_from_def)
  then show ?thesis using replaceAll_loop_diverges [OF assms] by (auto simp: replaceAll_found_def)
qed

section \<open>Properties\<close>

text \<open>
  C14. The operations of the three string types agree with the list operations on code units,
  whatever the representations of the operands: length, element, concatenation, substring,
  comparison and equality; their results satisfy the representation invariant again.
  Strings imported from Go have to be valid UTF-8.
\<close>

theorem string_ops_refine:
  assumes "str_ok a" and "str_ok b" and "str_valid a" and "str_valid b"
  shows "str_Length a = int (length (units a))
    \<and> (0 \<le> i \<longrightarrow> i < int (length (units a)) \<longrightarrow> str_CharAt a i = Inr (units a ! nat i))
    \<and> str_ok (str_Concat a b) \<and> units (str_Concat a b) = units a @ units b
    \<and> (0 \<le> i \<longrightarrow> i \<le> j \<longrightarrow> j \<le> int (length (units a)) \<longrightarrow>
        (\<exists>t. str_Substring a i j = Inr t \<and> str_ok t \<and> units t = take (nat (j - i)) (drop (nat i) (units a))))
    \<and> str_CompareTo a b = cmp_words (units a) (units b)
    \<and> (str_StrictEquals a b \<longleftrightarrow> units a = units b)
    \<and> (str_key a = str_key b \<longleftrightarrow> units a = units b)"
proof -
  have "str_key a = str_key b \<longleftrightarrow> units a = units b"
    using assms str_key_inj by (auto simp: str_key_units)
  then show ?thesis
    by (intro conjI impI)
      (use assms in \<open>simp_all only: str_Length_units str_CharAt_units str_Concat_units
        str_Substring_units str_CompareTo_units str_StrictEquals_units\<close>)
qed

definition witness_a :: jstr where
  "witness_a = AsciiStr [0x61, 0x62]"

definition witness_b :: jstr where
  "witness_b = UnicodeStr [BOM, 0xE9, 0x62]"

lemma witness_strings:
  "str_ok witness_a" "str_ok witness_b" "str_valid witness_a" "str_valid witness_b"
  "units witness_a = [0x61, 0x62]" "units witness_b = [0xE9, 0x62]"
  by (simp_all add: witness_a_def witness_b_def ascii_bytes_def has_unicode_def widen_def)

theorem string_ops_refine_witness:
  "units (str_Concat witness_a witness_b) = [0x61, 0x62, 0xE9, 0x62]"
proof -
  have "units (str_Concat witness_a witness_b) = units witness_a @ units witness_b"
    using string_ops_refine [of witness_a witness_b 0 0, OF witness_strings(1,2,3,4)] by blast
  then show ?thesis by (simp add: witness_strings)
qed

text \<open>
  C39. The substring searches: for strings of any length, on both sides of the crossover from
  the naive to the byte-wise search, \<open>utf16Index\<close> returns the first position at which the
  needle occurs and -1 when there is none, without a slice out of range, and
  \<open>utf16LastIndex\<close> the last one. Matches of the bytes at odd offsets do not disturb them.
\<close>

theorem utf16_search_correct:
  "(\<exists>r. utf16Index s sep = Inr r \<and> first_occurrence s sep r)
    \<and> last_occurrence s sep (utf16LastIndex s sep)"
  using utf16Index_first utf16LastIndex_last by blast

text \<open>
  C40. The loop of \<open>replaceAll\<close> ends exactly when the string is ASCII or the needle is not
  empty; then it finds the leftmost non-overlapping occurrences. With an empty needle and a
  string that holds a non-ASCII unit it never ends, because \<open>unicodeString.index\<close> finds the
  empty string past the end as well.
\<close>

theorem replaceAll_terminates_iff:
  assumes "str_ok s" and "str_ok sub"
  shows "((\<exists>n. replaceAll_found n s sub \<noteq> None) \<longleftrightarrow> \<not> (has_unicode (units s) \<and> units sub = []))
    \<and> (\<not> (has_unicode (units s) \<and> units sub = []) \<longrightarrow>
        replaceAll_found (length (units s) + 2) s sub
          = Some (Inr (as_ranges (length (units sub)) (greedy_occurrences (units s) (units sub) 0))))"
  using replaceAll_found_greedy [OF assms] replaceAll_found_diverges [OF assms] by fastforce

theorem replaceAll_terminates_iff_witness:
  "\<forall>n. replaceAll_found n witness_b (AsciiStr []) = None"
proof -
  have ok: "str_ok (AsciiStr [])" by (simp add: ascii_bytes_def)
  have "has_unicode (units witness_b) \<and> units (AsciiStr []) = []"
    by (simp add: witness_strings has_unicode_def widen_def)
  then have "\<not> (\<exists>n. replaceAll_found n witness_b (AsciiStr []) \<noteq> None)"
    using replaceAll_terminates_iff [OF witness_strings(2) ok] by blast
  then show ?thesis by simp
qed

text \<open>Two strings imported from Go that are not valid UTF-8 have the same code units but are
  not equal, while each of them equals the same \<open>unicodeString\<close>.\<close>

lemma imported_equality_not_transitive:
  fixes a b c defines "a \<equiv> ImportedStr [0xFF] None False" and "b \<equiv> ImportedStr [0xFE] None False"
    and "c \<equiv> UnicodeStr [BOM, 0xFFFD]"
  shows "str_StrictEquals a c" "str_StrictEquals c b" "\<not> str_StrictEquals a b" "units a = units b"
proof -
  have r: "runes [0xFF] = [RuneError]" "runes [0xFE] = [RuneError]" by simp_all
  have s: "Scan [0xFF] = Some [BOM, 0xFFFD]" "Scan [0xFE] = Some [BOM, 0xFFFD]"
    by (simp_all add: Scan_def r rune_units_def RuneError_def del: runes.simps)
  show "str_StrictEquals a c" "str_StrictEquals c b" "\<not> str_StrictEquals a b" "units a = units b"
    by (simp_all add: a_def b_def c_def s del: runes.simps)
qed

end
