(* ===== verification/Globals.thy ===== *)
theory Globals
  imports String_Search
begin

text \<open>
  The URI functions of \<open>builtin_global.go\<close> (\<open>_encode\<close>, \<open>_decode\<close> and the four functions
  built on them), \<open>escape\<close> and \<open>unescape\<close>, and \<open>parseInt\<close>. The tables of the code are
  predicates on character codes, as its \<open>init\<close> function fills them; the result buffers are
  allocated with the size the code counts first, an index past it is a Go panic.
\<close>

section \<open>Buffers written in chunks\<close>

definition put_bytes :: "nat \<Rightarrow> 'a list \<Rightarrow> 'a list \<Rightarrow> go_error + 'a list" where
  "put_bytes i bs buf =
     (if i + length bs \<le> length buf then Inr (take i buf @ bs @ drop (i + length bs) buf) else Inl GoPanic)"

fun fill_chunks :: "('r \<Rightarrow> 'a list) \<Rightarrow> 'r list \<Rightarrow> nat \<Rightarrow> 'a list \<Rightarrow> go_error + 'a list" where
  "fill_chunks f [] i buf = Inr buf"
| "fill_chunks f (r # rs) i buf =
     bindR (put_bytes i (f r) buf) (\<lambda>buf. fill_chunks f rs (i + length (f r)) buf)"

lemma fill_chunks_exact:
  "length buf = length pre + length (concat (map f rs)) \<Longrightarrow> take (length pre) buf = pre \<Longrightarrow>
     fill_chunks f rs (length pre) buf = Inr (pre @ concat (map f rs))"
proof (induction rs arbitrary: pre buf)
  case (Cons r rs)
  define buf' where "buf' = pre @ f r @ drop (length pre + length (f r)) buf"
  have p: "put_bytes (length pre) (f r) buf = Inr buf'"
    using Cons.prems by (simp add: put_bytes_def buf'_def)
  have "fill_chunks f rs (length (pre @ f r)) buf' = Inr ((pre @ f r) @ concat (map f rs))"
    by (rule Cons.IH) (use Cons.prems in \<open>simp_all add: buf'_def\<close>)
  then show ?case using p by simp
qed simp

lemma fill_chunks_new:
  "n = length (concat (map f rs)) \<Longrightarrow> fill_chunks f rs 0 (replicate n x) = Inr (concat (map f rs))"
  using fill_chunks_exact [of "replicate n x" "[]" f rs] by simp

section \<open>Tables\<close>

definition hexUpper :: "nat \<Rightarrow> byte" where
  "hexUpper n = map of_char ''0123456789ABCDEF'' ! n"

definition uriUnescaped :: "nat \<Rightarrow> bool" where
  "uriUnescaped c \<longleftrightarrow>
     c \<in> set (map of_char ''abcdefghijklmnopqrstuvwxyzABCDEFGHIJKLMNOPQRSTUVWXYZ0123456789-_.!~*'()'')"

definition uriReserved :: "nat \<Rightarrow> bool" where
  "uriReserved c \<longleftrightarrow> c \<in> set (map of_char '';/?:@&=+$,'')"

definition uriReservedHash :: "nat \<Rightarrow> bool" where
  "uriReservedHash c \<longleftrightarrow> uriReserved c \<or> c = 35"

definition uriReservedUnescapedHash :: "nat \<Rightarrow> bool" where
  "uriReservedUnescapedHash c \<longleftrightarrow> uriUnescaped c \<or> uriReserved c \<or> c = 35"

definition emptyEscapeSet :: "nat \<Rightarrow> bool" where
  "emptyEscapeSet c \<longleftrightarrow> False"

definition ishex :: "byte \<Rightarrow> bool" where
  "ishex c \<longleftrightarrow> (48 \<le> unat c \<and> unat c \<le> 57) \<or> (97 \<le> unat c \<and> unat c \<le> 102) \<or> (65 \<le> unat c \<and> unat c \<le> 70)"

definition unhex :: "byte \<Rightarrow> nat" where
  "unhex c =
     (if 48 \<le> unat c \<and> unat c \<le> 57 then unat c - 48
      else if 97 \<le> unat c \<and> unat c \<le> 102 then unat c - 97 + 10
      else if 65 \<le> unat c \<and> unat c \<le> 70 then unat c - 65 + 10
      else 0)"

definition percent :: byte where
  "percent = 37"

text \<open>\<open>'%', hexUpper[b>>4], hexUpper[b&15]\<close>.\<close>

definition pct :: "nat \<Rightarrow> byte list" where
  "pct b = [percent, hexUpper (b div 16), hexUpper (b mod 16)]"

lemma hex_digit:
  "n < 16 \<Longrightarrow> ishex (hexUpper n) \<and> unhex (hexUpper n) = n \<and> unat (hexUpper n) < 128"
proof -
  have "list_all (\<lambda>n. ishex (hexUpper n) \<and> unhex (hexUpper n) = n \<and> unat (hexUpper n) < 128) [0 ..< 16]"
    by code_simp
  moreover assume "n < 16"
  ultimately show ?thesis by (simp add: list_all_iff)
qed

section \<open>Encoding\<close>

text \<open>\<open>uriString.Reader()\<close> read to its end: a lone surrogate is an error of the reader of
  a \<open>unicodeString\<close>.\<close>

lemma read_shorter: "unicode_ReadRune us = (us', Rune r n) \<Longrightarrow> length us' < length us"
  by (cases us rule: unicode_ReadRune.cases) (auto split: if_splits list.splits)

function read_unicode :: "ustr \<Rightarrow> go_error + nat list" where
  "read_unicode us =
     (case unicode_ReadRune us of
        (us', EOF) \<Rightarrow> Inr []
      | (us', Rune r n) \<Rightarrow> mapR ((#) r) (read_unicode us')
      | (us', Invalid r n) \<Rightarrow> Inl URIErr)"
  by pat_completeness auto
termination
  apply (relation "measure length")
   apply simp
  apply (simp, metis read_shorter)
  done

declare read_unicode.simps [simp del]

fun read_runes :: "jstr \<Rightarrow> go_error + nat list" where
  "read_runes (AsciiStr s) = Inr (map unat s)"
| "read_runes (UnicodeStr us) = read_unicode (tl us)"
| "read_runes (ImportedStr s uc scanned) =
     (if scanned then (case uc of Some b \<Rightarrow> read_unicode (tl b) | None \<Rightarrow> Inr (map unat s))
      else Inr (runes s))"

definition enc_size :: "(nat \<Rightarrow> bool) \<Rightarrow> nat \<Rightarrow> nat" where
  "enc_size unescaped rn =
     (if 128 \<le> rn then length (EncodeRune rn) * 3 else if \<not> unescaped rn then 3 else 1)"

definition enc_chunk :: "(nat \<Rightarrow> bool) \<Rightarrow> nat \<Rightarrow> byte list" where
  "enc_chunk unescaped rn =
     (if 128 \<le> rn then concat (map (\<lambda>b. pct (unat b)) (EncodeRune rn))
      else if \<not> unescaped rn then pct rn
      else [of_nat rn])"

definition uri_encode :: "jstr \<Rightarrow> (nat \<Rightarrow> bool) \<Rightarrow> go_error + jstr" where
  "uri_encode uriString unescaped =
     bindR (read_runes uriString) (\<lambda>rs.
       let needed = list_ex (\<lambda>rn. 128 \<le> rn \<or> \<not> unescaped rn) rs;
           l = sum_list (map (enc_size unescaped) rs)
       in if \<not> needed then Inr uriString
          else mapR AsciiStr (fill_chunks (enc_chunk unescaped) rs 0 (replicate l 0)))"

lemma enc_chunk_size: "length (enc_chunk unescaped rn) = enc_size unescaped rn"
proof -
  have "length (concat (map (\<lambda>b. pct (unat b)) bs)) = length bs * 3" for bs :: "byte list"
    by (induction bs) (simp_all add: pct_def)
  then show ?thesis by (simp add: enc_chunk_def enc_size_def pct_def)
qed

definition enc_bytes :: "(nat \<Rightarrow> bool) \<Rightarrow> nat list \<Rightarrow> byte list" where
  "enc_bytes unescaped rs = concat (map (enc_chunk unescaped) rs)"

text \<open>The buffer has exactly the size counted before.\<close>

lemma uri_encode_eq:
  "uri_encode s unescaped =
     bindR (read_runes s) (\<lambda>rs.
       if list_ex (\<lambda>rn. 128 \<le> rn \<or> \<not> unescaped rn) rs then Inr (AsciiStr (enc_bytes unescaped rs)) else Inr s)"
proof -
  have "fill_chunks (enc_chunk unescaped) rs 0 (replicate (sum_list (map (enc_size unescaped) rs)) 0)
      = Inr (enc_bytes unescaped rs)" for rs
    unfolding enc_bytes_def
    by (rule fill_chunks_new) (simp add: length_concat comp_def enc_chunk_size)
  then have "(\<lambda>rs. let needed = list_ex (\<lambda>rn. 128 \<le> rn \<or> \<not> unescaped rn) rs;
        l = sum_list (map (enc_size unescaped) rs)
      in if \<not> needed then Inr s else mapR AsciiStr (fill_chunks (enc_chunk unescaped) rs 0 (replicate l 0)))
    = (\<lambda>rs. if list_ex (\<lambda>rn. 128 \<le> rn \<or> \<not> unescaped rn) rs then Inr (AsciiStr (enc_bytes unescaped rs)) else Inr s)"
    by (intro ext) (simp add: Let_def)
  then show ?thesis unfolding uri_encode_def by simp
qed

lemma read_unicode_step:
  "read_unicode [] = Inr []"
  "\<not> isUTF16FirstSurrogate c \<Longrightarrow> \<not> isUTF16SecondSurrogate c \<Longrightarrow> read_unicode (c # cs) = mapR ((#) (unat c)) (read_unicode cs)"
  "isUTF16FirstSurrogate c \<Longrightarrow> isUTF16SecondSurrogate d \<Longrightarrow>
     read_unicode (c # d # cs) = mapR ((#) (utf16_DecodeRune (unat c) (unat d))) (read_unicode cs)"
  "isUTF16FirstSurrogate c \<Longrightarrow> read_unicode [c] = Inl URIErr"
  "isUTF16FirstSurrogate c \<Longrightarrow> \<not> isUTF16SecondSurrogate d \<Longrightarrow> read_unicode (c # d # cs) = Inl URIErr"
  "isUTF16SecondSurrogate c \<Longrightarrow> read_unicode (c # cs) = Inl URIErr"
  using surrogates_disjoint by (subst read_unicode.simps; auto)+

lemma read_unicode_eq:
  "read_unicode us = (if well_formed us then Inr (utf16_Decode us) else Inl URIErr)"
proof (induction us rule: well_formed.induct)
  case 1 then show ?case by (simp add: read_unicode_step)
next
  case (2 c)
  then show ?case
    by (cases "isUTF16FirstSurrogate c"; cases "isUTF16SecondSurrogate c") (simp_all add: read_unicode_step)
next
  case (3 c d cs)
  then show ?case
    by (cases "isUTF16FirstSurrogate c"; cases "isUTF16SecondSurrogate c"; cases "isUTF16SecondSurrogate d")
      (auto simp add: read_unicode_step surrogates_disjoint split: if_splits)
qed

lemma well_formed_ascii: "\<not> has_unicode us \<Longrightarrow> well_formed us \<and> utf16_Decode us = map unat us"
proof (induction us rule: well_formed.induct)
  case (2 c)
  then show ?case by (simp add: has_unicode_def isUTF16FirstSurrogate_def isUTF16SecondSurrogate_def)
next
  case (3 c d cs)
  then have "\<not> isUTF16FirstSurrogate c" "\<not> isUTF16SecondSurrogate c"
    by (simp_all add: has_unicode_def isUTF16FirstSurrogate_def isUTF16SecondSurrogate_def)
  then show ?case using 3 by (simp add: has_unicode_def)
qed simp

lemma well_formed_units: "\<forall>r \<in> set rs. valid_rune r \<Longrightarrow> well_formed (units_of_runes rs)"
proof -
  assume v: "\<forall>r \<in> set rs. valid_rune r"
  have rd: "read_unicode (rune_units r @ us) = mapR ((#) r) (read_unicode us)" if "valid_rune r" for r us
  proof (cases "r \<le> 0xFFFF")
    case True
    define c :: "16 word" where "c = of_nat r"
    have c: "unat c = r" using True by (simp add: c_def unat_of_nat16)
    have "\<not> isUTF16FirstSurrogate c" "\<not> isUTF16SecondSurrogate c"
      using that c by (auto simp: valid_rune_def surrogate_def isUTF16FirstSurrogate_def isUTF16SecondSurrogate_def)
    then show ?thesis using True c read_unicode_step(2) [of c us] by (simp add: rune_units_def c_def [symmetric])
  next
    case False
    then obtain c d where cd: "rune_units r = [c, d]" by (simp add: rune_units_def case_prod_beta Let_def)
    have "utf16_Decode [c, d] = [r]" using utf16_Decode_rune [OF that, of "[]"] cd by simp
    then have "isUTF16FirstSurrogate c \<and> isUTF16SecondSurrogate d \<and> utf16_DecodeRune (unat c) (unat d) = r"
      by (auto split: if_splits)
    then show ?thesis using cd read_unicode_step(3) [of c d us] by simp
  qed
  have "\<exists>x. read_unicode (units_of_runes rs) = Inr x"
    using v
  proof (induction rs)
    case Nil then show ?case by (simp add: read_unicode_step)
  next
    case (Cons r rs) then show ?case using rd [of r "units_of_runes rs"] by auto
  qed
  then show ?thesis by (auto simp: read_unicode_eq split: if_splits)
qed

text \<open>Whatever the representation, the runes read are those of the code units.\<close>

lemma read_runes_units:
  assumes "str_ok s"
  shows "read_runes s = (if well_formed (units s) then Inr (utf16_Decode (units s)) else Inl URIErr)"
proof (cases s)
  case (AsciiStr b)
  then have a: "ascii_bytes b" using assms by simp
  have "map unat (widen b) = map unat b" by (simp add: widen_def unat_widen)
  then show ?thesis using AsciiStr well_formed_ascii [OF widen_not_unicode [OF a]] by simp
next
  case (UnicodeStr us)
  then show ?thesis by (simp add: read_unicode_eq)
next
  case (ImportedStr b uc sc)
  have v: "\<forall>r \<in> set (runes b). valid_rune r" using runes_valid by blast
  then have u: "units s = units_of_runes (runes b)" "well_formed (units s)" "utf16_Decode (units s) = runes b"
    using ImportedStr units_imported well_formed_units utf16_Decode_units by simp_all
  have n: "Scan b = None \<Longrightarrow> runes b = map unat b"
    using runes_ascii_app [of b "[]"] Scan_unicode [of b] by (cases "ascii_bytes b") auto
  have t: "Scan b = Some x \<Longrightarrow> tl x = units s" for x
    using ImportedStr by simp
  show ?thesis
    using assms u n t ImportedStr by (auto simp: read_unicode_eq split: option.split simp del: units.simps)
qed

section \<open>Decoding\<close>

text \<open>The first loop checks the escapes and counts those that are decoded.\<close>

fun count_hex :: "(nat \<Rightarrow> bool) \<Rightarrow> byte list \<Rightarrow> nat \<Rightarrow> go_error + nat" where
  "count_hex reservedSet [] n = Inr n"
| "count_hex reservedSet (c # cs) n =
     (if c = percent then
        (case cs of
           h1 # h2 # rest \<Rightarrow>
             (if \<not> ishex h1 \<or> \<not> ishex h2 then Inl URIErr
              else count_hex reservedSet rest
                (if \<not> reservedSet (unhex h1 * 16 + unhex h2) then n + 1 else n))
         | _ \<Rightarrow> Inl URIErr)
      else count_hex reservedSet cs n)"

text \<open>The second loop writes the bytes and notes whether one is not ASCII.\<close>

fun decode_loop :: "(nat \<Rightarrow> bool) \<Rightarrow> byte list \<Rightarrow> nat \<Rightarrow> byte list \<Rightarrow> bool \<Rightarrow> go_error + byte list \<times> bool" where
  "decode_loop reservedSet [] j t isUnicode = Inr (t, isUnicode)"
| "decode_loop reservedSet (ch # cs) j t isUnicode =
     (if ch = percent then
        (case cs of
           h1 # h2 # rest \<Rightarrow>
             (let c = unhex h1 * 16 + unhex h2 in
              if reservedSet c then
                bindR (put_bytes j [ch, h1, h2] t) (\<lambda>t. decode_loop reservedSet rest (j + 3) t isUnicode)
              else bindR (put_bytes j [of_nat c] t) (\<lambda>t.
                decode_loop reservedSet rest (j + 1) t (isUnicode \<or> 128 \<le> c)))
         | _ \<Rightarrow> Inl GoPanic)
      else bindR (put_bytes j [ch] t) (\<lambda>t.
        decode_loop reservedSet cs (j + 1) t (isUnicode \<or> 128 \<le> unat ch)))"

function decode_runes :: "byte list \<Rightarrow> go_error + nat list" where
  "decode_runes [] = Inr []"
| "decode_runes (c # cs) =
     (let t = c # cs; (rn, size) = DecodeRune t in
      if rn = RuneError \<and> (size \<noteq> 3 \<or> take 3 t \<noteq> [0xEF, 0xBF, 0xBD]) then Inl URIErr
      else mapR ((#) rn) (decode_runes (drop size t)))"
  by pat_completeness auto
termination
proof (relation "measure length")
  fix c cs t x rn size
  assume "t = c # cs" "x = DecodeRune t" "(rn, size) = x"
  then have "0 < size" "t \<noteq> []" using DecodeRune_size [of t] by (auto dest: sym simp del: DecodeRune.simps)
  then show "(drop size t, c # cs) \<in> measure length" using \<open>t = c # cs\<close> by simp
qed simp

definition uri_decode :: "jstr \<Rightarrow> (nat \<Rightarrow> bool) \<Rightarrow> go_error + jstr" where
  "uri_decode sv reservedSet =
     (let s = str_String sv in
      bindR (count_hex reservedSet s 0) (\<lambda>hexCount.
        if hexCount = 0 then Inr sv
        else bindR (decode_loop reservedSet s 0 (replicate (length s - hexCount * 2) 0) False) (\<lambda>(t, isUnicode).
          if \<not> isUnicode then Inr (AsciiStr t)
          else bindR (decode_runes t) (\<lambda>us.
            bindR (NewFromRunes_go us) (\<lambda>str.
              Inr (UnicodeStr (case AsUtf16 str of Some b \<Rightarrow> b | None \<Rightarrow> [])))))))"

definition builtin_encodeURI :: "jstr \<Rightarrow> go_error + jstr" where
  "builtin_encodeURI s = uri_encode s uriReservedUnescapedHash"

definition builtin_encodeURIComponent :: "jstr \<Rightarrow> go_error + jstr" where
  "builtin_encodeURIComponent s = uri_encode s uriUnescaped"

definition builtin_decodeURI :: "jstr \<Rightarrow> go_error + jstr" where
  "builtin_decodeURI s = uri_decode s uriReservedHash"

definition builtin_decodeURIComponent :: "jstr \<Rightarrow> go_error + jstr" where
  "builtin_decodeURIComponent s = uri_decode s emptyEscapeSet"

section \<open>Decoding what was encoded\<close>

definition tables_match :: "(nat \<Rightarrow> bool) \<Rightarrow> (nat \<Rightarrow> bool) \<Rightarrow> bool" where
  "tables_match unescaped reserved \<longleftrightarrow>
     (\<forall>c. reserved c \<longrightarrow> unescaped c \<and> c < 128) \<and> \<not> unescaped 37"

lemma tables_match_uri:
  "tables_match uriReservedUnescapedHash uriReservedHash" "tables_match uriUnescaped emptyEscapeSet"
  by (auto simp: tables_match_def uriReservedUnescapedHash_def uriReservedHash_def uriReserved_def
      uriUnescaped_def emptyEscapeSet_def)

lemma count_hex_pct:
  assumes "b < 256"
  shows "count_hex reserved (pct b @ rest) n = count_hex reserved rest (if \<not> reserved b then n + 1 else n)"
proof -
  have "ishex (hexUpper (b div 16))" "ishex (hexUpper (b mod 16))"
    "unhex (hexUpper (b div 16)) = b div 16" "unhex (hexUpper (b mod 16)) = b mod 16"
    using hex_digit [of "b div 16"] hex_digit [of "b mod 16"] assms by auto
  then show ?thesis by (simp add: pct_def)
qed

lemma count_hex_plain:
  "c \<noteq> percent \<Longrightarrow> count_hex reserved (c # rest) n = count_hex reserved rest n"
  by simp

lemma decode_loop_pct:
  assumes "b < 256" and "\<not> reserved b"
  shows "decode_loop reserved (pct b @ rest) j t uc =
     bindR (put_bytes j [of_nat b] t) (\<lambda>t. decode_loop reserved rest (j + 1) t (uc \<or> 128 \<le> b))"
proof -
  have "unhex (hexUpper (b div 16)) = b div 16" "unhex (hexUpper (b mod 16)) = b mod 16"
    using hex_digit [of "b div 16"] hex_digit [of "b mod 16"] assms by auto
  then show ?thesis using assms by (simp add: pct_def)
qed

text \<open>The decoded bytes of a text in which nothing reserved is escaped.\<close>

inductive plain_escapes :: "(nat \<Rightarrow> bool) \<Rightarrow> byte list \<Rightarrow> byte list \<Rightarrow> nat \<Rightarrow> bool" for reserved where
  pe_nil: "plain_escapes reserved [] [] 0"
| pe_pct: "b < 256 \<Longrightarrow> \<not> reserved b \<Longrightarrow> plain_escapes reserved s t n \<Longrightarrow>
     plain_escapes reserved (pct b @ s) (of_nat b # t) (n + 1)"
| pe_chr: "c \<noteq> percent \<Longrightarrow> plain_escapes reserved s t n \<Longrightarrow> plain_escapes reserved (c # s) (c # t) n"

lemma plain_escapes_count:
  "plain_escapes reserved s t n \<Longrightarrow> count_hex reserved s k = Inr (k + n) \<and> length s = length t + 2 * n"
proof (induction arbitrary: k rule: plain_escapes.induct)
  case (pe_pct b s t n)
  then show ?case by (simp add: count_hex_pct) (simp add: pct_def)
qed auto

lemma put_bytes_snoc:
  "length pre < length buf \<Longrightarrow> take (length pre) buf = pre \<Longrightarrow>
     put_bytes (length pre) [x] buf = Inr (pre @ x # drop (Suc (length pre)) buf)"
  by (simp add: put_bytes_def)

lemma plain_escapes_decode:
  "plain_escapes reserved s t n \<Longrightarrow> length buf = length pre + length t \<Longrightarrow> take (length pre) buf = pre \<Longrightarrow>
     decode_loop reserved s (length pre) buf uc = Inr (pre @ t, uc \<or> \<not> ascii_bytes t)"
proof (induction arbitrary: pre buf uc rule: plain_escapes.induct)
  case pe_nil then show ?case by (simp add: ascii_bytes_def)
next
  case (pe_pct b s t n)
  define buf' where "buf' = pre @ of_nat b # drop (Suc (length pre)) buf"
  have p: "put_bytes (length pre) [of_nat b] buf = Inr buf'"
    using pe_pct.prems by (simp add: put_bytes_snoc buf'_def)
  have "decode_loop reserved s (length (pre @ [of_nat b])) buf' (uc \<or> 128 \<le> b)
      = Inr ((pre @ [of_nat b]) @ t, (uc \<or> 128 \<le> b) \<or> \<not> ascii_bytes t)"
    by (rule pe_pct.IH) (use pe_pct.prems in \<open>simp_all add: buf'_def\<close>)
  then show ?case
    using p pe_pct.hyps by (auto simp: decode_loop_pct ascii_bytes_def unat_of_nat8)
next
  case (pe_chr c s t n)
  define buf' where "buf' = pre @ c # drop (Suc (length pre)) buf"
  have p: "put_bytes (length pre) [c] buf = Inr buf'"
    using pe_chr.prems by (simp add: put_bytes_snoc buf'_def)
  have "decode_loop reserved s (length (pre @ [c])) buf' (uc \<or> 128 \<le> unat c)
      = Inr ((pre @ [c]) @ t, (uc \<or> 128 \<le> unat c) \<or> \<not> ascii_bytes t)"
    by (rule pe_chr.IH) (use pe_chr.prems in \<open>simp_all add: buf'_def\<close>)
  then show ?case using p pe_chr.hyps by (auto simp: ascii_bytes_def)
qed

lemma plain_escapes_bytes:
  "\<forall>b \<in> set bs. \<not> reserved (unat b) \<Longrightarrow> plain_escapes reserved s t n \<Longrightarrow>
     plain_escapes reserved (concat (map (\<lambda>b. pct (unat b)) bs) @ s) (bs @ t) (n + length bs)"
proof (induction bs)
  case (Cons b bs)
  then have "plain_escapes reserved (pct (unat b) @ concat (map (\<lambda>b. pct (unat b)) bs) @ s)
      (of_nat (unat b) # bs @ t) (n + length bs + 1)"
    by (intro pe_pct) (simp_all add: unat8_lt)
  then show ?case by simp
qed simp

lemma EncodeRune_high: "128 \<le> r \<Longrightarrow> \<forall>b \<in> set (EncodeRune r). 128 \<le> unat b"
  using valid_rune_def by (auto simp: EncodeRune_def Let_def unat_byte_of RuneError_def)

lemma EncodeRune_low: "r < 128 \<Longrightarrow> EncodeRune r = [of_nat r]"
  by (simp add: EncodeRune_def valid_rune_def surrogate_def byte_of_def)

lemma enc_plain_escapes:
  assumes "tables_match unescaped reserved"
  shows "plain_escapes reserved (enc_bytes unescaped rs) (utf8 rs)
     (sum_list (map (\<lambda>r. if 128 \<le> r then length (EncodeRune r) else if \<not> unescaped r then 1 else 0) rs))"
proof (induction rs)
  case Nil then show ?case by (simp add: enc_bytes_def pe_nil)
next
  case (Cons r rs)
  have res: "\<And>c. 128 \<le> c \<Longrightarrow> \<not> reserved c" "\<And>c. \<not> unescaped c \<Longrightarrow> \<not> reserved c" "\<not> unescaped 37"
    using assms by (auto simp: tables_match_def not_less [symmetric])
  show ?case
  proof (cases "128 \<le> r")
    case True
    have "\<forall>b \<in> set (EncodeRune r). \<not> reserved (unat b)" using EncodeRune_high [OF True] res(1) by blast
    from plain_escapes_bytes [OF this Cons] show ?thesis
      using True by (simp add: enc_bytes_def enc_chunk_def add.commute)
  next
    case lo: False
    show ?thesis
    proof (cases "unescaped r")
      case True
      then have "r \<noteq> 37" using res by blast
      then have "(of_nat r :: byte) \<noteq> percent"
        using lo unat_of_nat8 [of r] by (auto simp: percent_def)
      from pe_chr [OF this Cons] show ?thesis
        using lo True by (simp add: enc_bytes_def enc_chunk_def EncodeRune_low)
    next
      case False
      have "r < 256" using lo by simp
      from pe_pct [where b = r, OF this res(2) [OF False] Cons] show ?thesis
        using lo False by (simp add: enc_bytes_def enc_chunk_def EncodeRune_low)
    qed
  qed
qed

lemma decode_runes_utf8:
  "\<forall>r \<in> set rs. valid_rune r \<Longrightarrow> decode_runes (utf8 rs) = Inr rs"
proof (induction rs)
  case (Cons r rs)
  then obtain c cs where c: "EncodeRune r @ utf8 rs = c # cs"
    by (metis EncodeRune_nonempty(1) append_is_Nil_conv neq_Nil_conv)
  have d: "DecodeRune (c # cs) = (r, length (EncodeRune r))"
    using DecodeRune_Encode [of r "utf8 rs"] Cons.prems c by simp
  have e: "EncodeRune RuneError = [0xEF, 0xBF, 0xBD]" by (simp add: EncodeRune_def valid_small RuneError_def byte_of_def)
  have t: "r = RuneError \<Longrightarrow> take 3 (c # cs) = [0xEF, 0xBF, 0xBD] \<and> length (EncodeRune r) = 3"
    using c e by (metis append_eq_conv_conj length_Cons list.size(3) numeral_3_eq_3)
  have "drop (length (EncodeRune r)) (c # cs) = utf8 rs" using c by (metis append_eq_conv_conj)
  then show ?case
    using Cons d t c by (auto simp: Let_def simp del: DecodeRune.simps)
qed simp

lemma str_String_ascii: "str_ok s \<Longrightarrow> \<not> has_unicode (units s) \<Longrightarrow> str_String s = narrow (units s)"
proof (cases s)
  case (ImportedStr b uc sc)
  assume "\<not> has_unicode (units s)"
  then have "ascii_bytes b" using ImportedStr runes_high [of b] units_imported [of b uc sc] by auto
  then show ?thesis using ImportedStr by (simp add: Scan_ascii narrow_widen)
qed (simp_all add: narrow_widen)

lemma count_hex_none: "percent \<notin> set s \<Longrightarrow> count_hex reserved s n = Inr n"
  by (induction s) auto

lemma units_of_low: "\<forall>r \<in> set rs. r < 128 \<Longrightarrow> \<not> has_unicode (units_of_runes rs)"
  by (induction rs) (auto simp: rune_units_def has_unicode_def unat_of_nat16)

lemma uri_decode_encoded:
  assumes "tables_match unescaped reserved" and "\<forall>r \<in> set rs. valid_rune r"
    and "list_ex (\<lambda>rn. 128 \<le> rn \<or> \<not> unescaped rn) rs"
  shows "\<exists>d. uri_decode (AsciiStr (enc_bytes unescaped rs)) reserved = Inr d \<and> str_ok d \<and> units d = units_of_runes rs"
proof -
  define E n where "E = enc_bytes unescaped rs"
    and "n = sum_list (map (\<lambda>r. if 128 \<le> r then length (EncodeRune r) else if \<not> unescaped r then 1 else 0) rs)"
  have pe: "plain_escapes reserved E (utf8 rs) n"
    using enc_plain_escapes [OF assms(1)] by (simp add: E_def n_def)
  have n: "0 < n"
    unfolding n_def using assms(3) EncodeRune_nonempty(1) by (induction rs) auto
  have cnt: "count_hex reserved E 0 = Inr n" "length E = length (utf8 rs) + 2 * n"
    using plain_escapes_count [OF pe, of 0] by simp_all
  have dl: "decode_loop reserved E 0 (replicate (length E - n * 2) 0) False = Inr (utf8 rs, \<not> ascii_bytes (utf8 rs))"
    using plain_escapes_decode [OF pe, of "replicate (length E - n * 2) 0" "[]" False] cnt by simp
  have rr: "runes (utf8 rs) = rs" using assms(2) by (rule runes_utf8)
  show ?thesis
  proof (cases "ascii_bytes (utf8 rs)")
    case True
    then have "units_of_runes rs = widen (utf8 rs)"
      using runes_ascii_app [OF True, of "[]"] rr by (metis append.right_neutral runes.simps(1) units_of_ascii)
    then show ?thesis
      using True cnt n dl by (simp add: uri_decode_def E_def [symmetric])
  next
    case False
    have hu: "has_unicode (units_of_runes rs)" using runes_high [OF False] rr by simp
    then have ne: "\<not> (\<forall>r \<in> set rs. r < 128)" "units_of_runes rs \<noteq> []"
      using units_of_low [of rs] by (auto simp: has_unicode_def)
    then have "NewFromRunes_go rs = Inr (FromUtf16 (BOM # units_of_runes rs))"
      by (auto simp add: NewFromRunes_correct)
    then show ?thesis
      using False cnt n dl hu decode_runes_utf8 [OF assms(2)] AsUtf16_FromUtf16 [OF ne(2)]
      by (simp add: uri_decode_def E_def [symmetric])
  qed
qed

lemma uri_encode_decode:
  assumes "tables_match unescaped reserved" and "str_ok s" and "well_formed (units s)"
  shows "\<exists>e d. uri_encode s unescaped = Inr e \<and> uri_decode e reserved = Inr d \<and> str_ok d \<and> units d = units s"
proof -
  define rs where "rs = utf16_Decode (units s)"
  have rr: "read_runes s = Inr rs" "units_of_runes rs = units s" "\<forall>r \<in> set rs. valid_rune r"
    using assms read_runes_units units_of_Decode utf16_Decode_valid by (simp_all add: rs_def)
  show ?thesis
  proof (cases "list_ex (\<lambda>rn. 128 \<le> rn \<or> \<not> unescaped rn) rs")
    case True
    then show ?thesis
      using uri_decode_encoded [OF assms(1) rr(3) True] rr by (simp add: uri_encode_eq)
  next
    case False
    then have lo: "\<forall>r \<in> set rs. r < 128 \<and> unescaped r" by (auto simp: list_ex_iff not_le)
    then have nu: "\<not> has_unicode (units s)" using units_of_low [of rs] rr(2) by auto
    have "rs = map unat (units s)" using well_formed_ascii [OF nu] by (simp add: rs_def)
    moreover have "\<not> unescaped 37" using assms(1) by (simp add: tables_match_def)
    ultimately have "\<forall>c \<in> set (units s). unat c < 128 \<and> unat c \<noteq> 37" using lo by (metis image_eqI list.set_map)
    then have "percent \<notin> set (narrow (units s))"
      by (auto simp: narrow_def percent_def dest!: arg_cong [where f = unat] simp: unat_narrow)
    then show ?thesis
      using False rr assms(2) str_String_ascii [OF assms(2) nu]
      by (simp add: uri_encode_eq uri_decode_def count_hex_none)
  qed
qed

lemma uri_encode_error:
  "str_ok s \<Longrightarrow> \<not> well_formed (units s) \<Longrightarrow> uri_encode s unescaped = Inl URIErr"
  by (simp add: uri_encode_eq read_runes_units)

text \<open>A lone surrogate that stands beside an escape does not survive decoding, because the
  code decodes the Go string, in which it has become U+FFFD.\<close>

lemma decode_replaces_surrogate:
  "uri_decode (UnicodeStr [BOM, 0xD800, 0x25, 0x34, 0x31]) emptyEscapeSet = Inr (UnicodeStr [BOM, 0xFFFD, 0x41])"
  by (simp add: uri_decode_def go_string_def isUTF16FirstSurrogate_def isUTF16SecondSurrogate_def
      RuneError_def EncodeRune_def valid_rune_def surrogate_def byte_of_def percent_def ishex_def unhex_def
      emptyEscapeSet_def put_bytes_def NewFromRunes_correct rune_units_def AsUtf16_FromUtf16 cont_def second_ok_def)

section \<open>escape and unescape\<close>

definition escape_plain :: "nat \<Rightarrow> bool" where
  "escape_plain r \<longleftrightarrow> 65 \<le> r \<and> r \<le> 90 \<or> 97 \<le> r \<and> r \<le> 122 \<or> 48 \<le> r \<and> r \<le> 57 \<or>
     r = 64 \<or> r = 42 \<or> r = 95 \<or> r = 43 \<or> r = 45 \<or> r = 46 \<or> r = 47"

definition escape_char :: "16 word \<Rightarrow> byte list" where
  "escape_char c =
     (let r = unat c in
      if escape_plain r then [of_nat r]
      else if r \<le> 255 then [percent, hexUpper (r div 16), hexUpper (r mod 16)]
      else [percent, 117, hexUpper (r div 4096), hexUpper (r div 256 mod 16),
            hexUpper (r div 16 mod 16), hexUpper (r mod 16)])"

definition builtin_escape :: "jstr \<Rightarrow> jstr" where
  "builtin_escape s = AsciiStr (concat (map escape_char (units s)))"

definition hexchar :: "16 word \<Rightarrow> bool" where
  "hexchar c \<longleftrightarrow> unat c \<le> 255 \<and> ishex (ucast c)"

definition hexval :: "16 word \<Rightarrow> nat" where
  "hexval c = unhex (ucast c)"

text \<open>One step of the loop of \<open>unescape\<close> at the rest of the string: the unit written and how
  many units were read.\<close>

definition unescape_step :: "ustr \<Rightarrow> 16 word \<times> nat" where
  "unescape_step cs =
     (let r = cs ! 0; l = length cs in
      if r = 37 then
        (if 6 \<le> l \<and> cs ! 1 = 117 \<and> hexchar (cs ! 2) \<and> hexchar (cs ! 3) \<and> hexchar (cs ! 4) \<and> hexchar (cs ! 5)
         then (of_nat (hexval (cs ! 2) * 4096 + hexval (cs ! 3) * 256 + hexval (cs ! 4) * 16 + hexval (cs ! 5)), 6)
         else if 3 \<le> l \<and> hexchar (cs ! 1) \<and> hexchar (cs ! 2)
         then (of_nat (hexval (cs ! 1) * 16 + hexval (cs ! 2)), 3)
         else (r, 1))
      else (r, 1))"

function unescape_loop :: "ustr \<Rightarrow> ustr" where
  "unescape_loop [] = []"
| "unescape_loop (c # cs) = (let (r, n) = unescape_step (c # cs) in r # unescape_loop (drop n (c # cs)))"
  by pat_completeness auto
termination
  by (relation "measure length") (auto simp: unescape_step_def Let_def split: if_splits)

text \<open>The string written so far is kept in \<open>asciiBuf\<close> until a unit of 128 or more comes.\<close>

definition builtin_unescape :: "jstr \<Rightarrow> jstr" where
  "builtin_unescape s =
     (let out = unescape_loop (units s);
          unicode = (case devirtualize s of Inr _ \<Rightarrow> True | Inl _ \<Rightarrow> list_ex (\<lambda>r. 128 \<le> unat r) out)
      in if unicode then UnicodeStr (BOM # out) else AsciiStr (narrow out))"

lemma hexchar_hex:
  assumes "n < 16"
  shows "hexchar (ucast (hexUpper n))" and "hexval (ucast (hexUpper n)) = n"
proof -
  have u: "unat (ucast (hexUpper n) :: 16 word) < 128" using hex_digit [OF assms] by (simp add: unat_widen)
  have "(ucast (ucast (hexUpper n) :: 16 word) :: byte) = hexUpper n"
    by (rule word_unat_eq_iff [THEN iffD2]) (use u in \<open>simp add: unat_narrow unat_widen\<close>)
  then show "hexchar (ucast (hexUpper n))" "hexval (ucast (hexUpper n)) = n"
    using hex_digit [OF assms] u by (simp_all add: hexchar_def hexval_def)
qed

lemma unescape_escape_char: "unescape_loop (widen (escape_char c) @ rest) = c # unescape_loop rest"
proof -
  have c: "unat c < 65536" by (rule unat16_lt)
  consider "escape_plain (unat c)" | "\<not> escape_plain (unat c)" "unat c \<le> 255" | "\<not> escape_plain (unat c)" "255 < unat c"
    by linarith
  then show ?thesis
  proof cases
    case 1
    then have lt: "unat c < 128" "unat c \<noteq> 37" by (auto simp: escape_plain_def)
    have e: "(ucast (of_nat (unat c) :: byte) :: 16 word) = c"
      by (rule word_unat_eq_iff [THEN iffD2]) (use lt in \<open>simp add: unat_widen unat_narrow\<close>)
    then show ?thesis
      using 1 lt by (auto simp: escape_char_def widen_def unescape_step_def)
  next
    case 2
    have d: "unat c div 16 < 16" "unat c mod 16 < 16" using 2 by auto
    have "\<not> (hexchar (117 :: 16 word))" by (simp add: hexchar_def ishex_def)
    then have n: "(ucast (hexUpper (unat c div 16)) :: 16 word) \<noteq> 117" using hexchar_hex(1) [OF d(1)] by metis
    have v: "unat c div 16 * 16 + unat c mod 16 = unat c" by simp
    have "(of_nat (unat c div 16 * 16 + unat c mod 16) :: 16 word) = c" unfolding v by simp
    then show ?thesis
      using 2 d n by (simp add: escape_char_def widen_def percent_def unescape_step_def hexchar_hex Let_def del: of_nat_add)
  next
    case 3
    have d: "unat c div 4096 < 16" "unat c div 256 mod 16 < 16" "unat c div 16 mod 16 < 16" "unat c mod 16 < 16"
      using c by auto
    have "unat c div 16 div 16 = unat c div 256" "unat c div 256 div 16 = unat c div 4096"
      by (simp_all add: div_mult2_eq [symmetric])
    then have v: "unat c div 4096 * 4096 + unat c div 256 mod 16 * 256 + unat c div 16 mod 16 * 16 + unat c mod 16 = unat c"
      using div_mult_mod_eq [of "unat c" 16] div_mult_mod_eq [of "unat c div 16" 16] div_mult_mod_eq [of "unat c div 256" 16]
      by linarith
    have "(of_nat (unat c div 4096 * 4096 + unat c div 256 mod 16 * 256 + unat c div 16 mod 16 * 16 + unat c mod 16) :: 16 word) = c"
      unfolding v by simp
    then show ?thesis
      using 3 d by (simp add: escape_char_def widen_def percent_def unescape_step_def hexchar_hex Let_def del: of_nat_add)
  qed
qed

lemma unescape_escape:
  assumes "str_ok s"
  shows "str_ok (builtin_unescape (builtin_escape s)) \<and> units (builtin_unescape (builtin_escape s)) = units s"
proof -
  have w: "widen (xs @ ys) = widen xs @ widen ys" for xs ys by (simp add: widen_def)
  have l: "unescape_loop (widen (concat (map escape_char us))) = us" for us
    by (induction us) (simp_all add: w unescape_escape_char, simp add: widen_def)
  have hu: "list_ex (\<lambda>r. 128 \<le> unat r) (units s) \<longleftrightarrow> has_unicode (units s)" by (simp add: has_unicode_def)
  show ?thesis
    using widen_narrow [of "units s"] l hu
    by (cases "has_unicode (units s)") (simp_all add: builtin_escape_def builtin_unescape_def Let_def)
qed

section \<open>Properties\<close>

text \<open>
  C21. \<open>decodeURI\<close> undoes \<open>encodeURI\<close> and \<open>decodeURIComponent\<close> undoes
  \<open>encodeURIComponent\<close> on every string without lone surrogates, whatever its
  representation, and the encoders raise a URIError on exactly the others; \<open>unescape\<close> undoes
  \<open>escape\<close> on every string.
\<close>

theorem uri_roundtrip:
  assumes "str_ok s"
  shows "(well_formed (units s) \<longrightarrow>
      (\<exists>e d. builtin_encodeURI s = Inr e \<and> builtin_decodeURI e = Inr d \<and> str_ok d \<and> units d = units s)
      \<and> (\<exists>e d. builtin_encodeURIComponent s = Inr e \<and> builtin_decodeURIComponent e = Inr d \<and> str_ok d \<and> units d = units s))
    \<and> (\<not> well_formed (units s) \<longrightarrow>
        builtin_encodeURI s = Inl URIErr \<and> builtin_encodeURIComponent s = Inl URIErr)
    \<and> units (builtin_unescape (builtin_escape s)) = units s"
  using uri_encode_decode [OF tables_match_uri(1) assms] uri_encode_decode [OF tables_match_uri(2) assms]
    uri_encode_error [OF assms] unescape_escape [OF assms]
  by (simp add: builtin_encodeURI_def builtin_decodeURI_def builtin_encodeURIComponent_def builtin_decodeURIComponent_def)

theorem uri_roundtrip_witness:
  "\<exists>e d. builtin_encodeURIComponent witness_b = Inr e \<and> builtin_decodeURIComponent e = Inr d \<and> units d = [0xE9, 0x62]"
proof -
  have "well_formed (units witness_b)"
    by (simp add: witness_strings isUTF16FirstSurrogate_def isUTF16SecondSurrogate_def)
  then show ?thesis using uri_roundtrip [OF witness_strings(2)] by (auto simp: witness_strings)
qed

end
