(* ===== verification/Promises.thy ===== *)
theory Promises
  imports Conversions
begin

text \<open>
  Promises (\<open>builtin_promise.go\<close>) and the job loop of \<open>runtime.go\<close> (\<open>leave\<close>). The code
  that runs between the operations - callbacks, getters of \<open>then\<close>, executors - belongs to
  the user: it is a parameter, a tree of the operations it performs (\<open>prog\<close>), so that the
  theorems hold for any of it. A call of a user function may nest without bound, hence the
  fuel; \<open>None\<close> means that a call has not returned.

  The operations of promises that settle them do not check that they are pending; that a
  promise settles once rests on the flags \<open>alreadyResolved\<close> of the pairs of resolving
  functions, of which a promise may get several. The invariant counts what can still settle
  a promise: pairs that have not been called and thenable jobs in the queue.
\<close>

section \<open>State\<close>

datatype PromiseState = Pending | Fulfilled | Rejected

datatype PromiseRejectionOperation = RejectionReject | RejectionHandle

datatype promiseReactionType = ReactionFulfill | ReactionReject

text \<open>\<open>promiseCapability\<close>: the promise and the ids of its two functions.\<close>

record capability =
  cap_promise :: nat
  cap_resolve :: nat
  cap_reject :: nat

record reaction =
  r_capability :: "capability option"
  r_typ :: promiseReactionType
  r_handler :: "nat option"
  r_asyncCtx :: "nat option"

record promise =
  p_state :: PromiseState
  p_result :: jsval
  p_fulfill :: "reaction list"
  p_reject :: "reaction list"
  p_handled :: bool

text \<open>The closures of \<open>newPromiseReactionJob\<close> and \<open>newPromiseResolveThenableJob\<close>.\<close>

datatype job =
    ReactionJob reaction jsval
  | ThenableJob nat jsval nat

text \<open>The two functions of a pair share the variable \<open>alreadyResolved\<close>; a pair belongs to a
  promise.\<close>

datatype pfun = ResolveFn nat | RejectFn nat

datatype host_event =
    Tracked nat PromiseRejectionOperation
  | Resumed "nat option"
  | Exited

record prt =
  pr_promises :: "nat \<Rightarrow> promise option"
  pr_funs :: "nat \<Rightarrow> pfun option"
  pr_pairs :: "(nat \<times> bool) list"
  pr_next :: nat
  pr_queue :: "job list"
  pr_hasRejTracker :: bool
  pr_hasCtxTracker :: bool
  pr_events :: "host_event list"

text \<open>What user code can do. Promise ids, function ids and other object ids are one space of
  objects.\<close>

datatype prog =
    Return jsval
  | Throw jsval
  | Call nat jsval "jsval list" "jsval + jsval \<Rightarrow> prog"
  | NewPromise "nat \<times> nat \<times> nat \<Rightarrow> prog"
  | Construct nat "jsval + nat \<Rightarrow> prog"
  | Then nat jsval jsval "nat \<Rightarrow> prog"
  | Await nat nat nat prog

record penv =
  e_user :: "nat \<Rightarrow> jsval \<Rightarrow> jsval list \<Rightarrow> prog"
  e_callable :: "nat \<Rightarrow> bool"
  e_then :: "nat \<Rightarrow> prog"
  e_typeError :: jsval
  e_grab :: "host_event list \<Rightarrow> nat"

section \<open>Operations\<close>

definition assertCallable :: "penv \<Rightarrow> prt \<Rightarrow> jsval \<Rightarrow> nat option" where
  "assertCallable env rt v =
     (case v of VObject f \<Rightarrow> (if pr_funs rt f \<noteq> None \<or> e_callable env f then Some f else None) | _ \<Rightarrow> None)"

definition enqueuePromiseJob :: "job \<Rightarrow> prt \<Rightarrow> prt" where
  "enqueuePromiseJob j rt = rt\<lparr>pr_queue := pr_queue rt @ [j]\<rparr>"

definition triggerPromiseReactions :: "reaction list \<Rightarrow> jsval \<Rightarrow> prt \<Rightarrow> prt" where
  "triggerPromiseReactions reactions argument rt =
     foldl (\<lambda>rt reaction. enqueuePromiseJob (ReactionJob reaction argument) rt) rt reactions"

definition trackPromiseRejection :: "nat \<Rightarrow> PromiseRejectionOperation \<Rightarrow> prt \<Rightarrow> prt" where
  "trackPromiseRejection p operation rt =
     (if pr_hasRejTracker rt then rt\<lparr>pr_events := pr_events rt @ [Tracked p operation]\<rparr> else rt)"

definition upd_promise :: "nat \<Rightarrow> (promise \<Rightarrow> promise) \<Rightarrow> prt \<Rightarrow> prt" where
  "upd_promise p f rt = rt\<lparr>pr_promises := (pr_promises rt)(p := map_option f (pr_promises rt p))\<rparr>"

definition reject_promise :: "nat \<Rightarrow> jsval \<Rightarrow> prt \<Rightarrow> prt" where
  "reject_promise p reason rt =
     (case pr_promises rt p of
        None \<Rightarrow> rt
      | Some pr \<Rightarrow>
          (let reactions = p_reject pr;
               rt = upd_promise p (\<lambda>pr. pr\<lparr>p_state := Rejected, p_result := reason, p_fulfill := [], p_reject := []\<rparr>) rt;
               rt = (if \<not> p_handled pr then trackPromiseRejection p RejectionReject rt else rt)
           in triggerPromiseReactions reactions reason rt))"

definition fulfill_promise :: "nat \<Rightarrow> jsval \<Rightarrow> prt \<Rightarrow> prt" where
  "fulfill_promise p v rt =
     (case pr_promises rt p of
        None \<Rightarrow> rt
      | Some pr \<Rightarrow>
          (let reactions = p_fulfill pr;
               rt = upd_promise p (\<lambda>pr. pr\<lparr>p_state := Fulfilled, p_result := v, p_fulfill := [], p_reject := []\<rparr>) rt
           in triggerPromiseReactions reactions v rt))"

definition addReactions :: "penv \<Rightarrow> nat \<Rightarrow> reaction \<Rightarrow> reaction \<Rightarrow> prt \<Rightarrow> prt" where
  "addReactions env p fr0 rr0 rt =
     (let cx = (if pr_hasCtxTracker rt then Some (e_grab env (pr_events rt)) else None);
          fr = (if pr_hasCtxTracker rt then fr0\<lparr>r_asyncCtx := cx\<rparr> else fr0);
          rr = (if pr_hasCtxTracker rt then rr0\<lparr>r_asyncCtx := cx\<rparr> else rr0)
      in case pr_promises rt p of
           None \<Rightarrow> rt
         | Some pr \<Rightarrow>
             upd_promise p (\<lambda>pr. pr\<lparr>p_handled := True\<rparr>)
               (case p_state pr of
                  Pending \<Rightarrow> upd_promise p (\<lambda>pr. pr\<lparr>p_fulfill := p_fulfill pr @ [fr], p_reject := p_reject pr @ [rr]\<rparr>) rt
                | Fulfilled \<Rightarrow> enqueuePromiseJob (ReactionJob fr (p_result pr)) rt
                | Rejected \<Rightarrow>
                    enqueuePromiseJob (ReactionJob rr (p_result pr))
                      (if \<not> p_handled pr then trackPromiseRejection p RejectionHandle rt else rt)))"

definition newPromise :: "prt \<Rightarrow> prt \<times> nat" where
  "newPromise rt =
     (let p = pr_next rt in
      (rt\<lparr>pr_promises := (pr_promises rt)(p \<mapsto>
            \<lparr>p_state = Pending, p_result = VUndefined, p_fulfill = [], p_reject = [], p_handled = False\<rparr>),
          pr_next := p + 1\<rparr>, p))"

definition createResolvingFunctions :: "nat \<Rightarrow> prt \<Rightarrow> prt \<times> nat \<times> nat" where
  "createResolvingFunctions p rt =
     (let c = length (pr_pairs rt); f = pr_next rt; g = f + 1 in
      (rt\<lparr>pr_pairs := pr_pairs rt @ [(p, False)],
          pr_funs := (pr_funs rt)(f \<mapsto> ResolveFn c, g \<mapsto> RejectFn c), pr_next := g + 1\<rparr>, f, g))"

text \<open>\<open>newPromiseCapability\<close> for the intrinsic constructor.\<close>

definition newPromiseCapability :: "prt \<Rightarrow> prt \<times> capability" where
  "newPromiseCapability rt =
     (let (rt, p) = newPromise rt; (rt, f, g) = createResolvingFunctions p rt
      in (rt, \<lparr>cap_promise = p, cap_resolve = f, cap_reject = g\<rparr>))"

definition performPromiseThen :: "penv \<Rightarrow> nat \<Rightarrow> jsval \<Rightarrow> jsval \<Rightarrow> capability option \<Rightarrow> prt \<Rightarrow> prt" where
  "performPromiseThen env p onFulfilled onRejected resultCapability rt =
     addReactions env p
       \<lparr>r_capability = resultCapability, r_typ = ReactionFulfill,
        r_handler = assertCallable env rt onFulfilled, r_asyncCtx = None\<rparr>
       \<lparr>r_capability = resultCapability, r_typ = ReactionReject,
        r_handler = assertCallable env rt onRejected, r_asyncCtx = None\<rparr> rt"

definition promiseProto_then :: "penv \<Rightarrow> nat \<Rightarrow> jsval \<Rightarrow> jsval \<Rightarrow> prt \<Rightarrow> prt \<times> nat" where
  "promiseProto_then env p onFulfilled onRejected rt =
     (let (rt, cap) = newPromiseCapability rt
      in (performPromiseThen env p onFulfilled onRejected (Some cap) rt, cap_promise cap))"

section \<open>Execution\<close>

type_synonym callf = "nat \<Rightarrow> jsval \<Rightarrow> jsval list \<Rightarrow> prt \<Rightarrow> (prt \<times> (jsval + jsval)) option"

text \<open>\<open>builtin_newPromise\<close>: the executor runs at once, an exception rejects the promise.\<close>

definition construct_promise :: "callf \<Rightarrow> nat \<Rightarrow> prt \<Rightarrow> (prt \<times> nat) option" where
  "construct_promise cf executor rt =
     (let (rt, po) = newPromise rt; (rt, resolve, reject) = createResolvingFunctions po rt in
      case cf executor VUndefined [VObject resolve, VObject reject] rt of
        None \<Rightarrow> None
      | Some (rt, Inr _) \<Rightarrow> Some (rt, po)
      | Some (rt, Inl ex) \<Rightarrow>
          (case cf reject VUndefined [ex] rt of None \<Rightarrow> None | Some (rt, _) \<Rightarrow> Some (rt, po)))"

primrec run_prog :: "penv \<Rightarrow> callf \<Rightarrow> prog \<Rightarrow> prt \<Rightarrow> (prt \<times> (jsval + jsval)) option" where
  "run_prog env cf (Return v) rt = Some (rt, Inr v)"
| "run_prog env cf (Throw v) rt = Some (rt, Inl v)"
| "run_prog env cf (Call f this args k) rt =
     (case cf f this args rt of None \<Rightarrow> None | Some (rt, r) \<Rightarrow> run_prog env cf (k r) rt)"
| "run_prog env cf (NewPromise k) rt =
     (let (rt, cap) = newPromiseCapability rt
      in run_prog env cf (k (cap_promise cap, cap_resolve cap, cap_reject cap)) rt)"
| "run_prog env cf (Construct executor k) rt =
     (if assertCallable env rt (VObject executor) = None then run_prog env cf (k (Inl (e_typeError env))) rt
      else case construct_promise cf executor rt of
          None \<Rightarrow> None
        | Some (rt, po) \<Rightarrow> run_prog env cf (k (Inr po)) rt)"
| "run_prog env cf (Then p onF onR k) rt =
     (let (rt, q) = promiseProto_then env p onF onR rt in run_prog env cf (k q) rt)"
| "run_prog env cf (Await p onF onR k) rt =
     run_prog env cf k (performPromiseThen env p (VObject onF) (VObject onR) None rt)"

definition argument :: "jsval list \<Rightarrow> nat \<Rightarrow> jsval" where
  "argument args n = (if n < length args then args ! n else VUndefined)"

text \<open>The body of the resolving function after the flag is set.\<close>

definition resolve_body :: "penv \<Rightarrow> callf \<Rightarrow> nat \<Rightarrow> jsval \<Rightarrow> prt \<Rightarrow> prt option" where
  "resolve_body env cf p resolution rt =
     (if SameAs host0 resolution (VObject p) then Some (reject_promise p (e_typeError env) rt)
      else case resolution of
          VObject obj \<Rightarrow>
            (case run_prog env cf (e_then env obj) rt of
               None \<Rightarrow> None
             | Some (rt, Inl ex) \<Rightarrow> Some (reject_promise p ex rt)
             | Some (rt, Inr thenAction) \<Rightarrow>
                 (case assertCallable env rt thenAction of
                    Some f \<Rightarrow> Some (enqueuePromiseJob (ThenableJob p resolution f) rt)
                  | None \<Rightarrow> Some (fulfill_promise p resolution rt)))
        | _ \<Rightarrow> Some (fulfill_promise p resolution rt))"

definition set_resolved :: "nat \<Rightarrow> prt \<Rightarrow> prt" where
  "set_resolved c rt = rt\<lparr>pr_pairs := (pr_pairs rt)[c := (fst (pr_pairs rt ! c), True)]\<rparr>"

definition alreadyResolved :: "prt \<Rightarrow> nat \<Rightarrow> bool" where
  "alreadyResolved rt c = snd (pr_pairs rt ! c)"

definition pair_promise :: "prt \<Rightarrow> nat \<Rightarrow> nat" where
  "pair_promise rt c = fst (pr_pairs rt ! c)"

fun call_fn :: "nat \<Rightarrow> penv \<Rightarrow> callf" where
  "call_fn 0 env f this args rt = None"
| "call_fn (Suc n) env f this args rt =
     (case pr_funs rt f of
        Some (ResolveFn c) \<Rightarrow>
          (if alreadyResolved rt c then Some (rt, Inr VUndefined)
           else (case resolve_body env (call_fn n env) (pair_promise rt c) (argument args 0) (set_resolved c rt) of
               None \<Rightarrow> None
             | Some rt \<Rightarrow> Some (rt, Inr VUndefined)))
      | Some (RejectFn c) \<Rightarrow>
          (if alreadyResolved rt c then Some (rt, Inr VUndefined)
           else Some (reject_promise (pair_promise rt c) (argument args 0) (set_resolved c rt), Inr VUndefined))
      | None \<Rightarrow> run_prog env (call_fn n env) (e_user env f this args) rt)"

text \<open>A job. The exception of a callback rejects the derived promise; the capability of a
  reaction may be nil.\<close>

definition run_handler :: "penv \<Rightarrow> callf \<Rightarrow> reaction \<Rightarrow> jsval \<Rightarrow> prt \<Rightarrow> (prt \<times> bool \<times> jsval) option" where
  "run_handler env cf reaction arg rt =
     (case r_handler reaction of
        None \<Rightarrow> Some (rt, r_typ reaction = ReactionFulfill, arg)
      | Some h \<Rightarrow>
          (let rt = (if pr_hasCtxTracker rt then rt\<lparr>pr_events := pr_events rt @ [Resumed (r_asyncCtx reaction)]\<rparr> else rt) in
           case cf h VUndefined [arg] rt of
             None \<Rightarrow> None
           | Some (rt, res) \<Rightarrow>
               (let rt = (if pr_hasCtxTracker rt then rt\<lparr>pr_events := pr_events rt @ [Exited]\<rparr> else rt) in
                case res of Inr v \<Rightarrow> Some (rt, True, v) | Inl ex \<Rightarrow> Some (rt, False, ex))))"

fun run_job :: "penv \<Rightarrow> callf \<Rightarrow> job \<Rightarrow> prt \<Rightarrow> prt option" where
  "run_job env cf (ReactionJob reaction arg) rt =
     (case run_handler env cf reaction arg rt of
        None \<Rightarrow> None
      | Some (rt, fulfill, handlerResult) \<Rightarrow>
          (case r_capability reaction of
             None \<Rightarrow> Some rt
           | Some cap \<Rightarrow>
               (case cf (if fulfill then cap_resolve cap else cap_reject cap) VUndefined [handlerResult] rt of
                  None \<Rightarrow> None
                | Some (rt, _) \<Rightarrow> Some rt)))"
| "run_job env cf (ThenableJob p thenable f) rt =
     (let (rt, resolve, reject) = createResolvingFunctions p rt in
      case cf f thenable [VObject resolve, VObject reject] rt of
        None \<Rightarrow> None
      | Some (rt, Inr _) \<Rightarrow> Some rt
      | Some (rt, Inl ex) \<Rightarrow>
          (case cf reject VUndefined [ex] rt of None \<Rightarrow> None | Some (rt, _) \<Rightarrow> Some rt))"

text \<open>\<open>leave\<close>: the current batch and the queue the jobs append to. One step runs a job or, when
  the batch is done, makes the queue the new batch.\<close>

type_synonym loop = "job list \<times> prt"

definition leave_step :: "penv \<Rightarrow> callf \<Rightarrow> loop \<Rightarrow> (job \<times> loop) option" where
  "leave_step env cf l =
     (let (jobs, rt) = (case l of
          ([], rt) \<Rightarrow> (pr_queue rt, rt\<lparr>pr_queue := []\<rparr>)
        | (jobs, rt) \<Rightarrow> (jobs, rt))
      in case jobs of
           [] \<Rightarrow> None
         | j # js \<Rightarrow> (case run_job env cf j rt of None \<Rightarrow> None | Some rt \<Rightarrow> Some (j, js, rt)))"

fun leave_steps :: "penv \<Rightarrow> callf \<Rightarrow> nat \<Rightarrow> loop \<Rightarrow> (job list \<times> loop) option" where
  "leave_steps env cf 0 l = Some ([], l)"
| "leave_steps env cf (Suc n) l =
     (case leave_step env cf l of
        None \<Rightarrow> None
      | Some (j, l') \<Rightarrow>
          (case leave_steps env cf n l' of None \<Rightarrow> None | Some (js, l'') \<Rightarrow> Some (j # js, l'')))"

section \<open>What can still settle a promise\<close>

fun is_thenable :: "nat \<Rightarrow> job \<Rightarrow> bool" where
  "is_thenable p (ThenableJob q thenable f) \<longleftrightarrow> p = q"
| "is_thenable p (ReactionJob reaction arg) \<longleftrightarrow> False"

definition thenables :: "job list \<Rightarrow> nat \<Rightarrow> nat" where
  "thenables js p = length (filter (is_thenable p) js)"

definition open_pairs :: "(nat \<times> bool) list \<Rightarrow> nat \<Rightarrow> nat" where
  "open_pairs ps p = length (filter (\<lambda>(q, b). p = q \<and> \<not> b) ps)"

definition live :: "prt \<Rightarrow> nat \<Rightarrow> nat" where
  "live rt p = open_pairs (pr_pairs rt) p + thenables (pr_queue rt) p"

lemma thenables_simps [simp]:
  "thenables [] p = 0"
  "thenables (j # js) p = (if is_thenable p j then 1 else 0) + thenables js p"
  "thenables (js @ js') p = thenables js p + thenables js' p"
  by (simp_all add: thenables_def)

lemma open_pairs_simps [simp]:
  "open_pairs [] p = 0"
  "open_pairs ((q, b) # ps) p = (if p = q \<and> \<not> b then 1 else 0) + open_pairs ps p"
  "open_pairs (ps @ ps') p = open_pairs ps p + open_pairs ps' p"
  by (simp_all add: open_pairs_def)

definition settled :: "promise \<Rightarrow> bool" where
  "settled pr \<longleftrightarrow> p_state pr \<noteq> Pending"

fun fun_pair :: "pfun \<Rightarrow> nat" where
  "fun_pair (ResolveFn c) = c"
| "fun_pair (RejectFn c) = c"

text \<open>\<open>x p\<close> counts the thenable jobs of the current batch of the job loop.\<close>

definition pinv :: "(nat \<Rightarrow> nat) \<Rightarrow> prt \<Rightarrow> bool" where
  "pinv x rt \<longleftrightarrow>
     (\<forall>p. live rt p + x p \<le> 1)
     \<and> (\<forall>p pr. pr_promises rt p = Some pr \<longrightarrow> settled pr \<longrightarrow> live rt p + x p = 0 \<and> p_fulfill pr = [] \<and> p_reject pr = [])
     \<and> (\<forall>p. pr_promises rt p = None \<longrightarrow> live rt p + x p = 0)
     \<and> (\<forall>f k. pr_funs rt f = Some k \<longrightarrow> fun_pair k < length (pr_pairs rt))
     \<and> (\<forall>i \<ge> pr_next rt. pr_promises rt i = None \<and> pr_funs rt i = None)"

definition same_outcome :: "promise \<Rightarrow> promise \<Rightarrow> bool" where
  "same_outcome pr pr' \<longleftrightarrow> p_state pr' = p_state pr \<and> p_result pr' = p_result pr"

definition frozen :: "prt \<Rightarrow> prt \<Rightarrow> nat \<Rightarrow> bool" where
  "frozen rt rt' p \<longleftrightarrow> live rt' p = 0 \<and>
     (\<forall>pr. pr_promises rt p = Some pr \<longrightarrow> (\<exists>pr'. pr_promises rt' p = Some pr' \<and> same_outcome pr pr'))"

definition pext :: "(nat \<Rightarrow> nat) \<Rightarrow> nat set \<Rightarrow> prt \<Rightarrow> prt \<Rightarrow> bool" where
  "pext x E rt rt' \<longleftrightarrow>
     (\<exists>new. pr_queue rt' = pr_queue rt @ new)
     \<and> (\<forall>p. pr_promises rt p \<noteq> None \<longrightarrow> pr_promises rt' p \<noteq> None)
     \<and> (\<forall>p. p \<notin> E \<longrightarrow> pr_promises rt p \<noteq> None \<longrightarrow> live rt p + x p = 0 \<longrightarrow> frozen rt rt' p)
     \<and> (\<forall>f k. pr_funs rt f = Some k \<longrightarrow> pr_funs rt' f = Some k)"

lemma same_outcome_refl [simp]: "same_outcome pr pr"
  by (simp add: same_outcome_def)

lemma frozen_refl: "live rt p = 0 \<Longrightarrow> frozen rt rt p"
  by (simp add: frozen_def)

lemma frozen_trans: "frozen rt rt' p \<Longrightarrow> frozen rt' rt'' p \<Longrightarrow> frozen rt rt'' p"
  by (fastforce simp: frozen_def same_outcome_def)

lemma frozen_live: "frozen rt rt' p \<Longrightarrow> live rt' p = 0"
  by (simp add: frozen_def)

lemma pext_refl: "pext x E rt rt"
  by (simp add: pext_def frozen_refl)

lemma pext_queue: "pext x E rt rt' \<Longrightarrow> \<exists>new. pr_queue rt' = pr_queue rt @ new"
  by (simp add: pext_def)

lemma pext_dom: "pext x E rt rt' \<Longrightarrow> pr_promises rt p \<noteq> None \<Longrightarrow> pr_promises rt' p \<noteq> None"
  by (simp add: pext_def)

lemma pext_frozen: "pext x E rt rt' \<Longrightarrow> p \<notin> E \<Longrightarrow> pr_promises rt p \<noteq> None \<Longrightarrow> live rt p + x p = 0 \<Longrightarrow> frozen rt rt' p"
  by (simp add: pext_def)

lemma pext_funs: "pext x E rt rt' \<Longrightarrow> pr_funs rt f = Some k \<Longrightarrow> pr_funs rt' f = Some k"
  by (simp add: pext_def)

lemma pextI:
  assumes "\<exists>new. pr_queue rt' = pr_queue rt @ new" and "\<And>p. pr_promises rt p \<noteq> None \<Longrightarrow> pr_promises rt' p \<noteq> None"
    and "\<And>p. p \<notin> E \<Longrightarrow> pr_promises rt p \<noteq> None \<Longrightarrow> live rt p + x p = 0 \<Longrightarrow> frozen rt rt' p"
    and "\<And>f k. pr_funs rt f = Some k \<Longrightarrow> pr_funs rt' f = Some k"
  shows "pext x E rt rt'"
  unfolding pext_def by (intro conjI allI impI) (use assms in \<open>assumption | simp\<close>)+

lemma pext_trans:
  assumes "pext x E rt rt'" and "pext x E rt' rt''"
  shows "pext x E rt rt''"
proof (rule pextI)
  show "\<exists>new. pr_queue rt'' = pr_queue rt @ new"
    using pext_queue [OF assms(1)] pext_queue [OF assms(2)] by auto
  fix p assume p: "p \<notin> E" "pr_promises rt p \<noteq> None" "live rt p + x p = 0"
  then have f: "frozen rt rt' p" by (rule pext_frozen [OF assms(1)])
  moreover have "live rt' p + x p = 0" using frozen_live [OF f] p(3) by simp
  then have "frozen rt' rt'' p" by (rule pext_frozen [OF assms(2) p(1) pext_dom [OF assms(1) p(2)]])
  ultimately show "frozen rt rt'' p" by (rule frozen_trans)
next
  fix p assume "pr_promises rt p \<noteq> None"
  then show "pr_promises rt'' p \<noteq> None" by (rule pext_dom [OF assms(2) pext_dom [OF assms(1)]])
next
  fix f k assume "pr_funs rt f = Some k"
  then show "pr_funs rt'' f = Some k" by (rule pext_funs [OF assms(2) pext_funs [OF assms(1)]])
qed

lemma pext_mono:
  assumes "pext x E rt rt'" and "E \<subseteq> E'" shows "pext x E' rt rt'"
proof (rule pextI)
  fix p assume p: "p \<notin> E'" "pr_promises rt p \<noteq> None" "live rt p + x p = 0"
  then have "p \<notin> E" using assms(2) by auto
  then show "frozen rt rt' p" by (rule pext_frozen [OF assms(1) _ p(2,3)])
qed (use assms(1) in \<open>simp_all add: pext_def\<close>)

lemma pext_drop:
  assumes "pext x {p} rt rt'" and "live rt p + x p \<noteq> 0" shows "pext x {} rt rt'"
proof (rule pextI)
  fix q assume "pr_promises rt q \<noteq> None" "live rt q + x q = 0"
  then show "frozen rt rt' q" using pext_frozen [OF assms(1), of q] assms(2) by (cases "q = p") auto
qed (use assms(1) in \<open>simp_all add: pext_def\<close>)

text \<open>The operations that append reaction jobs and record events change nothing else.\<close>

definition same_core :: "prt \<Rightarrow> prt \<Rightarrow> bool" where
  "same_core rt rt' \<longleftrightarrow> pr_promises rt' = pr_promises rt \<and> pr_funs rt' = pr_funs rt
     \<and> pr_pairs rt' = pr_pairs rt \<and> pr_next rt' = pr_next rt
     \<and> (\<exists>new. pr_queue rt' = pr_queue rt @ new \<and> (\<forall>p. thenables new p = 0))"

lemma same_core_pinv: "same_core rt rt' \<Longrightarrow> pinv x rt \<Longrightarrow> pinv x rt'"
  by (auto simp: same_core_def pinv_def live_def)

lemma same_core_pext: "same_core rt rt' \<Longrightarrow> pext x E rt rt'"
  by (auto simp: same_core_def pext_def live_def frozen_def)

lemma same_core_trans: "same_core rt rt' \<Longrightarrow> same_core rt' rt'' \<Longrightarrow> same_core rt rt''"
  unfolding same_core_def by (elim conjE exE) auto

lemma same_core_enqueue: "same_core rt (enqueuePromiseJob (ReactionJob r v) rt)"
  by (simp add: same_core_def enqueuePromiseJob_def)

lemma same_core_track: "same_core rt (trackPromiseRejection p operation rt)"
  by (simp add: same_core_def trackPromiseRejection_def)

lemma same_core_event: "same_core rt (rt\<lparr>pr_events := ev\<rparr>)"
  by (simp add: same_core_def)

lemma same_core_refl: "same_core rt rt"
  by (simp add: same_core_def)

lemma trigger_queue:
  "triggerPromiseReactions rs v rt = rt\<lparr>pr_queue := pr_queue rt @ map (\<lambda>r. ReactionJob r v) rs\<rparr>"
  by (induction rs arbitrary: rt) (simp_all add: triggerPromiseReactions_def enqueuePromiseJob_def)

lemma same_core_trigger: "same_core rt (triggerPromiseReactions rs v rt)"
  by (simp add: same_core_def trigger_queue thenables_def filter_empty_conv)

lemma same_core_live: "same_core rt rt' \<Longrightarrow> live rt' p = live rt p"
  by (auto simp: same_core_def live_def)

text \<open>Settling a promise that nothing else can settle.\<close>

lemma upd_promise_simps [simp]:
  "pr_funs (upd_promise p f rt) = pr_funs rt" "pr_pairs (upd_promise p f rt) = pr_pairs rt"
  "pr_next (upd_promise p f rt) = pr_next rt" "pr_queue (upd_promise p f rt) = pr_queue rt"
  "pr_promises (upd_promise p f rt) = (pr_promises rt)(p := map_option f (pr_promises rt p))"
  "live (upd_promise p f rt) q = live rt q"
  by (simp_all add: upd_promise_def live_def)

lemma settle_step:
  assumes "pinv x rt" and "pr_promises rt p = Some pr" and "live rt p + x p = 0"
    and "p_fulfill (f pr) = []" and "p_reject (f pr) = []"
  shows "pinv x (upd_promise p f rt) \<and> pext x {p} rt (upd_promise p f rt)"
  using assms by (auto simp: pinv_def pext_def frozen_def settled_def split: if_splits)

lemma reject_promise_step:
  assumes "pinv x rt" and "pr_promises rt p \<noteq> None" and "live rt p + x p = 0"
  shows "pinv x (reject_promise p v rt) \<and> pext x {p} rt (reject_promise p v rt)"
proof -
  obtain pr where pr: "pr_promises rt p = Some pr" using assms by blast
  define rt1 where "rt1 = upd_promise p (\<lambda>pr. pr\<lparr>p_state := Rejected, p_result := v, p_fulfill := [], p_reject := []\<rparr>) rt"
  have s: "pinv x rt1 \<and> pext x {p} rt rt1"
    unfolding rt1_def using assms pr by (intro settle_step) auto
  have c: "same_core rt1 (reject_promise p v rt)"
    using pr same_core_trans [OF same_core_track same_core_trigger] same_core_trigger
    by (simp add: reject_promise_def rt1_def [symmetric] Let_def)
  show ?thesis using s same_core_pinv [OF c] same_core_pext [OF c] pext_trans by blast
qed

lemma fulfill_promise_step:
  assumes "pinv x rt" and "pr_promises rt p \<noteq> None" and "live rt p + x p = 0"
  shows "pinv x (fulfill_promise p v rt) \<and> pext x {p} rt (fulfill_promise p v rt)"
proof -
  obtain pr where pr: "pr_promises rt p = Some pr" using assms by blast
  define rt1 where "rt1 = upd_promise p (\<lambda>pr. pr\<lparr>p_state := Fulfilled, p_result := v, p_fulfill := [], p_reject := []\<rparr>) rt"
  have s: "pinv x rt1 \<and> pext x {p} rt rt1"
    unfolding rt1_def using assms pr by (intro settle_step) auto
  have c: "same_core rt1 (fulfill_promise p v rt)"
    using pr same_core_trigger by (simp add: fulfill_promise_def rt1_def [symmetric] Let_def)
  show ?thesis using s same_core_pinv [OF c] same_core_pext [OF c] pext_trans by blast
qed

lemma newPromise_step:
  assumes "pinv x rt" and "newPromise rt = (rt', p)"
  shows "pinv x rt' \<and> pext x {} rt rt' \<and> pr_promises rt' p \<noteq> None \<and> live rt' p + x p = 0
    \<and> (\<forall>pr. pr_promises rt' p = Some pr \<longrightarrow> \<not> settled pr)"
proof -
  have n: "pr_promises rt (pr_next rt) = None" "live rt (pr_next rt) + x (pr_next rt) = 0"
    using assms(1) by (auto simp: pinv_def)
  have l: "live rt' q = live rt q" for q
    using assms(2) by (auto simp: newPromise_def live_def Let_def)
  have v: "pr_promises rt' = (pr_promises rt)(pr_next rt \<mapsto>
      \<lparr>p_state = Pending, p_result = VUndefined, p_fulfill = [], p_reject = [], p_handled = False\<rparr>)"
    "p = pr_next rt" "pr_next rt' = Suc (pr_next rt)" "pr_funs rt' = pr_funs rt" "pr_pairs rt' = pr_pairs rt"
    "pr_queue rt' = pr_queue rt"
    using assms(2) by (auto simp: newPromise_def Let_def)
  show ?thesis
    using assms(1) n unfolding pinv_def pext_def v l by (auto simp: settled_def frozen_def l v(1) split: if_splits)
qed

lemma createResolvingFunctions_step:
  assumes "pinv x rt" and "pr_promises rt p = Some pr" and "\<not> settled pr" and "live rt p + x p = 0"
    and "createResolvingFunctions p rt = (rt', f, g)"
  shows "pinv x rt' \<and> pext x {p} rt rt' \<and> live rt' p + x p = 1 \<and> pr_promises rt' = pr_promises rt
    \<and> pr_funs rt' f = Some (ResolveFn (length (pr_pairs rt))) \<and> pr_funs rt' g = Some (RejectFn (length (pr_pairs rt)))"
proof -
  have l: "live rt' q = live rt q + (if q = p then 1 else 0)" for q
    using assms(5) by (auto simp: createResolvingFunctions_def live_def Let_def)
  have v: "pr_promises rt' = pr_promises rt" "pr_next rt' = pr_next rt + 2" "f = pr_next rt" "g = pr_next rt + 1"
    "pr_funs rt' = (pr_funs rt)(pr_next rt \<mapsto> ResolveFn (length (pr_pairs rt)), pr_next rt + 1 \<mapsto> RejectFn (length (pr_pairs rt)))"
    "pr_pairs rt' = pr_pairs rt @ [(p, False)]" "pr_queue rt' = pr_queue rt"
    using assms(5) by (auto simp: createResolvingFunctions_def Let_def)
  have f0: "pr_funs rt (pr_next rt) = None" "pr_funs rt (Suc (pr_next rt)) = None"
    using assms(1) by (auto simp: pinv_def)
  have k: "pr_funs rt f' = Some k \<Longrightarrow> fun_pair k < length (pr_pairs rt)" for f' k
    using assms(1) unfolding pinv_def by blast
  show ?thesis
    using assms(1-4) f0 unfolding pinv_def pext_def v l
    by (auto simp: settled_def frozen_def l v(1) less_Suc_eq split: if_splits)
qed

lemma pext_drop_new:
  assumes "pext x {p} rt rt'" and "pr_promises rt p = None" shows "pext x {} rt rt'"
proof (rule pextI)
  fix q assume q: "pr_promises rt q \<noteq> None" "live rt q + x q = 0"
  then have "q \<notin> {p}" using assms(2) by auto
  then show "frozen rt rt' q" by (rule pext_frozen [OF assms(1) _ q])
qed (use assms(1) in \<open>simp_all add: pext_def\<close>)

lemma newPromise_fresh: "pinv x rt \<Longrightarrow> newPromise rt = (rt', p) \<Longrightarrow> pr_promises rt p = None"
  by (auto simp: newPromise_def pinv_def Let_def)

lemma newPromise_pair_step:
  assumes "pinv x rt" and "newPromise rt = (rt1, p)" and "createResolvingFunctions p rt1 = (rt2, f, g)"
  shows "pinv x rt2 \<and> pext x {} rt rt2 \<and> (\<exists>k. pr_funs rt2 f = Some k) \<and> (\<exists>k. pr_funs rt2 g = Some k)"
proof -
  note n = newPromise_step [OF assms(1,2)]
  obtain pr where pr: "pr_promises rt1 p = Some pr" using n by auto
  then have ns: "\<not> settled pr" using n by simp
  note c = createResolvingFunctions_step [OF _ pr ns _ assms(3), of x]
  have "pext x {p} rt rt1" using n pext_mono [of x "{}" rt rt1 "{p}"] by simp
  then have "pext x {p} rt rt2" using c n pext_trans by metis
  then have "pext x {} rt rt2" using pext_drop_new newPromise_fresh [OF assms(1,2)] by metis
  then show ?thesis using c n by simp
qed

lemma newPromiseCapability_step:
  assumes "pinv x rt" and "newPromiseCapability rt = (rt', cap)"
  shows "pinv x rt' \<and> pext x {} rt rt'"
proof -
  obtain rt1 p where n: "newPromise rt = (rt1, p)" by fastforce
  obtain rt2 f g where c: "createResolvingFunctions p rt1 = (rt2, f, g)" by (metis prod_cases3)
  have "rt' = rt2" using assms(2) n c by (simp add: newPromiseCapability_def)
  then show ?thesis using newPromise_pair_step [OF assms(1) n c] by blast
qed

text \<open>Registering reactions keeps the state and the result; it only touches a list of reactions
  while the promise is pending.\<close>

lemma upd_reactions_step:
  assumes "pinv x rt" and "\<And>pr. same_outcome pr (f pr)"
    and "\<And>pr. pr_promises rt p = Some pr \<Longrightarrow> settled pr \<Longrightarrow> p_fulfill (f pr) = p_fulfill pr \<and> p_reject (f pr) = p_reject pr"
  shows "pinv x (upd_promise p f rt) \<and> pext x {} rt (upd_promise p f rt)"
proof
  show "pinv x (upd_promise p f rt)"
    using assms by (auto simp: pinv_def same_outcome_def settled_def split: if_splits)
  show "pext x {} rt (upd_promise p f rt)"
    using assms(2) by (intro pextI) (auto simp: frozen_def split: if_splits)
qed

lemma addReactions_step:
  assumes "pinv x rt"
  shows "pinv x (addReactions env p fr rr rt) \<and> pext x {} rt (addReactions env p fr rr rt)"
proof (cases "pr_promises rt p")
  case None
  then show ?thesis using assms by (simp add: addReactions_def Let_def pext_refl)
next
  case (Some pr)
  define cx where "cx = (if pr_hasCtxTracker rt then Some (e_grab env (pr_events rt)) else None)"
  define fr' rr' where "fr' = (if pr_hasCtxTracker rt then fr\<lparr>r_asyncCtx := cx\<rparr> else fr)"
    and "rr' = (if pr_hasCtxTracker rt then rr\<lparr>r_asyncCtx := cx\<rparr> else rr)"
  define rt1 where "rt1 = (case p_state pr of
      Pending \<Rightarrow> upd_promise p (\<lambda>pr. pr\<lparr>p_fulfill := p_fulfill pr @ [fr'], p_reject := p_reject pr @ [rr']\<rparr>) rt
    | Fulfilled \<Rightarrow> enqueuePromiseJob (ReactionJob fr' (p_result pr)) rt
    | Rejected \<Rightarrow> enqueuePromiseJob (ReactionJob rr' (p_result pr))
        (if \<not> p_handled pr then trackPromiseRejection p RejectionHandle rt else rt))"
  have e: "addReactions env p fr rr rt = upd_promise p (\<lambda>pr. pr\<lparr>p_handled := True\<rparr>) rt1"
    using Some unfolding addReactions_def Let_def cx_def [symmetric] fr'_def [symmetric] rr'_def [symmetric] rt1_def
    by simp
  have "pinv x rt1 \<and> pext x {} rt rt1"
  proof (cases "p_state pr")
    case Pending
    then show ?thesis
      using Some unfolding rt1_def by (simp, intro upd_reactions_step [OF assms]) (auto simp: same_outcome_def settled_def)
  next
    case Fulfilled
    then show ?thesis
      using same_core_pinv [OF same_core_enqueue assms] same_core_pext [OF same_core_enqueue] by (simp add: rt1_def)
  next
    case Rejected
    have "same_core rt rt1"
      using Rejected same_core_trans [OF same_core_track same_core_enqueue] same_core_enqueue by (simp add: rt1_def)
    then show ?thesis using same_core_pinv assms same_core_pext by blast
  qed
  moreover have "pinv x rt1 \<Longrightarrow> pinv x (upd_promise p (\<lambda>pr. pr\<lparr>p_handled := True\<rparr>) rt1)
      \<and> pext x {} rt1 (upd_promise p (\<lambda>pr. pr\<lparr>p_handled := True\<rparr>) rt1)"
    by (rule upd_reactions_step) (auto simp: same_outcome_def)
  ultimately show ?thesis unfolding e using pext_trans by blast
qed

lemma promiseProto_then_step:
  assumes "pinv x rt" and "promiseProto_then env p onF onR rt = (rt', q)"
  shows "pinv x rt' \<and> pext x {} rt rt'"
proof -
  obtain rt1 cap where c: "newPromiseCapability rt = (rt1, cap)" by fastforce
  have s: "pinv x rt1 \<and> pext x {} rt rt1" by (rule newPromiseCapability_step [OF assms(1) c])
  have "rt' = performPromiseThen env p onF onR (Some cap) rt1"
    using assms(2) c by (simp add: promiseProto_then_def)
  then show ?thesis
    using s addReactions_step pext_trans unfolding performPromiseThen_def by blast
qed

section \<open>Any code keeps the invariant\<close>

definition good_result :: "(nat \<Rightarrow> nat) \<Rightarrow> prt \<Rightarrow> prt \<Rightarrow> bool" where
  "good_result x rt rt' \<longleftrightarrow> pinv x rt' \<and> pext x {} rt rt'"

definition good_call :: "(nat \<Rightarrow> nat) \<Rightarrow> callf \<Rightarrow> bool" where
  "good_call x cf \<longleftrightarrow>
     (\<forall>f this args rt rt' r. pinv x rt \<longrightarrow> cf f this args rt = Some (rt', r) \<longrightarrow>
        good_result x rt rt' \<and> (pr_funs rt f \<noteq> None \<longrightarrow> r = Inr VUndefined))"

lemma good_callD:
  "good_call x cf \<Longrightarrow> pinv x rt \<Longrightarrow> cf f this args rt = Some (rt', r) \<Longrightarrow> good_result x rt rt'"
  by (simp add: good_call_def)

lemma good_trans: "good_result x rt rt' \<Longrightarrow> good_result x rt' rt'' \<Longrightarrow> good_result x rt rt''"
  using pext_trans by (auto simp: good_result_def)

lemma good_core: "same_core rt rt' \<Longrightarrow> pinv x rt \<Longrightarrow> good_result x rt rt'"
  using same_core_pinv same_core_pext by (auto simp: good_result_def)

lemma good_pinv: "good_result x rt rt' \<Longrightarrow> pinv x rt'"
  by (simp add: good_result_def)

lemma good_refl: "pinv x rt \<Longrightarrow> good_result x rt rt"
  by (simp add: good_result_def pext_refl)

lemma construct_promise_step:
  assumes "good_call x cf" and "pinv x rt" and "construct_promise cf executor rt = Some (rt', po)"
  shows "good_result x rt rt'"
proof -
  obtain rt1 p where n: "newPromise rt = (rt1, p)" by fastforce
  obtain rt2 f g where c: "createResolvingFunctions p rt1 = (rt2, f, g)" by (metis prod_cases3)
  have s: "good_result x rt rt2" using newPromise_pair_step [OF assms(2) n c] by (simp add: good_result_def)
  obtain rt3 r where r: "cf executor VUndefined [VObject f, VObject g] rt2 = Some (rt3, r)"
    using assms(3) n c by (auto simp: construct_promise_def split: option.splits)
  have t: "good_result x rt rt3" using good_callD [OF assms(1) good_pinv [OF s] r] s good_trans by blast
  show ?thesis
  proof (cases r)
    case (Inr v)
    then show ?thesis using assms(3) n c r t by (simp add: construct_promise_def)
  next
    case (Inl ex)
    then obtain r' where "cf g VUndefined [ex] rt3 = Some (rt', r')"
      using assms(3) n c r by (auto simp: construct_promise_def split: option.splits prod.splits)
    then show ?thesis using good_callD [OF assms(1) good_pinv [OF t]] t good_trans by blast
  qed
qed

lemma run_prog_good:
  assumes "good_call x cf"
  shows "pinv x rt \<Longrightarrow> run_prog env cf pg rt = Some (rt', r) \<Longrightarrow> good_result x rt rt'"
proof (induction pg arbitrary: rt)
  case (Return v) then show ?case by (simp add: good_refl)
next
  case (Throw v) then show ?case by (simp add: good_refl)
next
  case (Call f this args k)
  then obtain rt1 r1 where c: "cf f this args rt = Some (rt1, r1)" "run_prog env cf (k r1) rt1 = Some (rt', r)"
    by (auto split: option.splits prod.splits)
  have "good_result x rt rt1" by (rule good_callD [OF assms Call.prems(1) c(1)])
  then show ?case using Call.IH [OF _ good_pinv c(2)] good_trans by blast
next
  case (NewPromise k)
  obtain rt1 cap where c: "newPromiseCapability rt = (rt1, cap)" by fastforce
  have "good_result x rt rt1"
    using newPromiseCapability_step [OF NewPromise.prems(1) c] by (simp add: good_result_def)
  moreover have "run_prog env cf (k (cap_promise cap, cap_resolve cap, cap_reject cap)) rt1 = Some (rt', r)"
    using NewPromise.prems(2) c by simp
  ultimately show ?case using NewPromise.IH [OF _ good_pinv] good_trans by blast
next
  case (Construct executor k)
  show ?case
  proof (cases "assertCallable env rt (VObject executor) = None")
    case True
    then show ?thesis using Construct.IH [OF rangeI Construct.prems(1), of "Inl (e_typeError env)"] Construct.prems(2) by simp
  next
    case False
    then obtain rt1 po where c: "construct_promise cf executor rt = Some (rt1, po)"
        "run_prog env cf (k (Inr po)) rt1 = Some (rt', r)"
      using Construct.prems(2) by (auto split: option.splits prod.splits)
    have "good_result x rt rt1" by (rule construct_promise_step [OF assms Construct.prems(1) c(1)])
    then show ?thesis using Construct.IH [OF _ good_pinv c(2)] good_trans by blast
  qed
next
  case (Then p onF onR k)
  obtain rt1 q where c: "promiseProto_then env p onF onR rt = (rt1, q)" by fastforce
  have "good_result x rt rt1" using promiseProto_then_step [OF Then.prems(1) c] by (simp add: good_result_def)
  moreover have "run_prog env cf (k q) rt1 = Some (rt', r)" using Then.prems(2) c by simp
  ultimately show ?case using Then.IH [OF _ good_pinv] good_trans by blast
next
  case (Await p onF onR k)
  define rt1 where "rt1 = performPromiseThen env p (VObject onF) (VObject onR) None rt"
  have g: "good_result x rt rt1"
    using addReactions_step [OF Await.prems(1)] by (simp add: rt1_def performPromiseThen_def good_result_def)
  moreover have "run_prog env cf k rt1 = Some (rt', r)" using Await.prems(2) by (simp add: rt1_def)
  ultimately show ?case using Await.IH [OF good_pinv] good_trans by blast
qed

lemma open_pairs_update:
  assumes "c < length ps" and "ps ! c = (p, False)"
  shows "open_pairs (ps[c := (p, True)]) q + (if q = p then 1 else 0) = open_pairs ps q"
proof -
  have "ps = take c ps @ (p, False) # drop (Suc c) ps" using id_take_nth_drop [OF assms(1)] assms(2) by simp
  then have "open_pairs ps q = open_pairs (take c ps @ (p, False) # drop (Suc c) ps) q" by (rule arg_cong)
  then have "open_pairs ps q = open_pairs (take c ps) q + (if q = p then 1 else 0) + open_pairs (drop (Suc c) ps) q"
    by simp
  moreover have "open_pairs (ps[c := (p, True)]) q = open_pairs (take c ps) q + open_pairs (drop (Suc c) ps) q"
    using assms(1) by (simp add: upd_conv_take_nth_drop)
  ultimately show ?thesis by simp
qed

lemma set_resolved_step:
  assumes "pinv x rt" and "c < length (pr_pairs rt)" and "\<not> alreadyResolved rt c"
  defines "p \<equiv> pair_promise rt c"
  shows "pinv x (set_resolved c rt)" and "pext x {} rt (set_resolved c rt)"
    and "live (set_resolved c rt) p + x p = 0" and "live rt p + x p \<noteq> 0"
    and "\<exists>pr. pr_promises (set_resolved c rt) p = Some pr \<and> \<not> settled pr"
proof -
  have pc: "pr_pairs rt ! c = (p, False)"
    using assms(3) by (cases "pr_pairs rt ! c") (simp add: alreadyResolved_def p_def pair_promise_def)
  have l: "live (set_resolved c rt) q + (if q = p then 1 else 0) = live rt q" for q
    using open_pairs_update [OF assms(2) pc, of q] pc by (simp add: live_def set_resolved_def)
  have v: "pr_promises (set_resolved c rt) = pr_promises rt" "pr_funs (set_resolved c rt) = pr_funs rt"
    "pr_next (set_resolved c rt) = pr_next rt" "pr_queue (set_resolved c rt) = pr_queue rt"
    "length (pr_pairs (set_resolved c rt)) = length (pr_pairs rt)"
    by (simp_all add: set_resolved_def)
  have le: "live (set_resolved c rt) q \<le> live rt q" for q using l [of q] by simp
  have i1: "live rt q + x q \<le> 1" for q using assms(1) by (simp add: pinv_def)
  have one: "live rt p + x p = 1" using l [of p] i1 [of p] by simp
  show "live rt p + x p \<noteq> 0" using one by simp
  show "live (set_resolved c rt) p + x p = 0" using one l [of p] by simp
  have bounds: "live (set_resolved c rt) q + x q \<le> live rt q + x q" for q using le [of q] by simp
  show "pinv x (set_resolved c rt)"
    unfolding pinv_def v
  proof (intro conjI allI impI)
    fix q show "live (set_resolved c rt) q + x q \<le> 1" using bounds [of q] i1 [of q] by linarith
  next
    fix q pr assume "pr_promises rt q = Some pr" "settled pr"
    then have "live rt q + x q = 0" "p_fulfill pr = []" "p_reject pr = []"
      using assms(1) by (simp_all add: pinv_def)
    then show "live (set_resolved c rt) q + x q = 0" "p_fulfill pr = []" "p_reject pr = []"
      using bounds [of q] by simp_all
  next
    fix q assume "pr_promises rt q = None"
    then have "live rt q + x q = 0" using assms(1) by (simp add: pinv_def)
    then show "live (set_resolved c rt) q + x q = 0" using bounds [of q] by simp
  qed (use assms(1) in \<open>simp_all add: pinv_def\<close>)
  show "pext x {} rt (set_resolved c rt)"
  proof (rule pextI)
    fix q assume "pr_promises rt q \<noteq> None" "live rt q + x q = 0"
    then show "frozen rt (set_resolved c rt) q" using le [of q] by (auto simp: frozen_def v)
  qed (simp_all add: v)
  have "pr_promises rt p \<noteq> None" using assms(1) one by (auto simp: pinv_def)
  moreover have "\<not> settled pr" if "pr_promises rt p = Some pr" for pr
    using assms(1) one that by (auto simp: pinv_def)
  ultimately show "\<exists>pr. pr_promises (set_resolved c rt) p = Some pr \<and> \<not> settled pr" by (auto simp: v)
qed

lemma enqueue_thenable_step:
  assumes "pinv x rt" and "pr_promises rt p = Some pr" and "\<not> settled pr" and "live rt p + x p = 0"
  shows "pinv x (enqueuePromiseJob (ThenableJob p t f) rt) \<and> pext x {p} rt (enqueuePromiseJob (ThenableJob p t f) rt)"
proof -
  define rt' where "rt' = enqueuePromiseJob (ThenableJob p t f) rt"
  have l: "live rt' q = live rt q + (if q = p then 1 else 0)" for q
    by (simp add: rt'_def enqueuePromiseJob_def live_def)
  have v: "pr_promises rt' = pr_promises rt" "pr_funs rt' = pr_funs rt" "pr_next rt' = pr_next rt"
    "pr_pairs rt' = pr_pairs rt" "pr_queue rt' = pr_queue rt @ [ThenableJob p t f]"
    by (simp_all add: rt'_def enqueuePromiseJob_def)
  have "pinv x rt'" using assms unfolding pinv_def v l by (auto split: if_splits)
  moreover have "pext x {p} rt rt'"
    by (rule pextI) (auto simp: v frozen_def l)
  ultimately show ?thesis by (simp add: rt'_def)
qed

lemma resolve_body_step:
  assumes "good_call x cf" and "pinv x rt" and "pr_promises rt p = Some pr" and "\<not> settled pr"
    and "live rt p + x p = 0" and "resolve_body env cf p v rt = Some rt'"
  shows "pinv x rt' \<and> pext x {p} rt rt'"
proof -
  have ne: "pr_promises rt p \<noteq> None" using assms(3) by simp
  note rej = reject_promise_step [OF assms(2) ne assms(5)]
  note ful = fulfill_promise_step [OF assms(2) ne assms(5)]
  show ?thesis
  proof (cases "SameAs host0 v (VObject p)")
    case True
    then have "rt' = reject_promise p (e_typeError env) rt" using assms(6) by (simp add: resolve_body_def)
    then show ?thesis using rej by simp
  next
    case False
    show ?thesis
    proof (cases "\<exists>obj. v = VObject obj")
      case nob: False
      then have "rt' = fulfill_promise p v rt"
        using False assms(6) by (cases v) (simp_all add: resolve_body_def)
      then show ?thesis using ful by simp
    next
      case True
      then obtain obj where v: "v = VObject obj" by blast
      then obtain rt1 r where run: "run_prog env cf (e_then env obj) rt = Some (rt1, r)"
        using False assms(6) by (auto simp: resolve_body_def split: option.splits)
      have g: "pinv x rt1" "pext x {} rt rt1"
        using run_prog_good [OF assms(1,2) run] by (simp_all add: good_result_def)
      have fz: "frozen rt rt1 p" by (rule pext_frozen [OF g(2) _ ne assms(5)]) simp
      then obtain pr1 where p1: "pr_promises rt1 p = Some pr1" "\<not> settled pr1"
        using assms(3,4) by (auto simp: frozen_def same_outcome_def settled_def)
      have l1: "live rt1 p + x p = 0" using frozen_live [OF fz] assms(5) by simp
      have ne1: "pr_promises rt1 p \<noteq> None" using p1 by simp
      have g': "pext x {p} rt rt1" using pext_mono [OF g(2)] by simp
      consider ex where "r = Inl ex" "rt' = reject_promise p ex rt1"
        | f where "rt' = enqueuePromiseJob (ThenableJob p v f) rt1"
        | "rt' = fulfill_promise p v rt1"
        using False assms(6) run v by (auto simp: resolve_body_def split: sum.splits option.splits)
      then show ?thesis
        using reject_promise_step [OF g(1) ne1 l1] fulfill_promise_step [OF g(1) ne1 l1]
          enqueue_thenable_step [OF g(1) p1 l1] pext_trans [OF g'] by cases simp_all
    qed
  qed
qed

lemma call_fn_good: "good_call x (call_fn n env)"
proof (induction n)
  case 0 then show ?case by (simp add: good_call_def)
next
  case (Suc n)
  show ?case unfolding good_call_def
  proof (intro allI impI)
    fix f this args rt rt' r
    assume inv: "pinv x rt" and call: "call_fn (Suc n) env f this args rt = Some (rt', r)"
    show "good_result x rt rt' \<and> (pr_funs rt f \<noteq> None \<longrightarrow> r = Inr VUndefined)"
    proof (cases "pr_funs rt f")
      case None
      then show ?thesis using run_prog_good [OF Suc inv] call by simp
    next
      case (Some k)
      define c where "c = fun_pair k"
      have cl: "c < length (pr_pairs rt)" using inv Some unfolding pinv_def c_def by blast
      show ?thesis
      proof (cases "alreadyResolved rt c")
        case True
        then show ?thesis using Some call inv good_refl by (cases k) (simp_all add: c_def)
      next
        case False
        note s = set_resolved_step [OF inv cl False]
        obtain pr where pr: "pr_promises (set_resolved c rt) (pair_promise rt c) = Some pr" "\<not> settled pr"
          using s(5) by blast
        then have ne: "pr_promises (set_resolved c rt) (pair_promise rt c) \<noteq> None" by simp
        have fin: "good_result x rt rt2" if "pinv x rt2" "pext x {pair_promise rt c} (set_resolved c rt) rt2" for rt2
        proof -
          have "pext x {pair_promise rt c} rt (set_resolved c rt)" using pext_mono [OF s(2)] by simp
          then have "pext x {pair_promise rt c} rt rt2" using that(2) pext_trans by blast
          then show ?thesis using pext_drop s(4) that(1) by (simp add: good_result_def)
        qed
        show ?thesis
        proof (cases k)
          case (ResolveFn c')
          then have k: "c' = c" by (simp add: c_def)
          obtain rt2 where r2: "resolve_body env (call_fn n env) (pair_promise rt c) (argument args 0) (set_resolved c rt) = Some rt2"
              "rt' = rt2" "r = Inr VUndefined"
            using Some call False ResolveFn k by (auto split: option.splits)
          have "pinv x rt2 \<and> pext x {pair_promise rt c} (set_resolved c rt) rt2"
            by (rule resolve_body_step [OF Suc s(1) pr s(3) r2(1)])
          then show ?thesis using fin r2 by simp
        next
          case (RejectFn c')
          then have k: "c' = c" by (simp add: c_def)
          have "rt' = reject_promise (pair_promise rt c) (argument args 0) (set_resolved c rt)" "r = Inr VUndefined"
            using Some call False RejectFn k by simp_all
          then show ?thesis using fin reject_promise_step [OF s(1) ne s(3)] by simp
        qed
      qed
    qed
  qed
qed

section \<open>The job loop\<close>

definition linv :: "loop \<Rightarrow> bool" where
  "linv l \<longleftrightarrow> pinv (thenables (fst l)) (snd l)"

definition keeps_settled :: "prt \<Rightarrow> prt \<Rightarrow> bool" where
  "keeps_settled rt rt' \<longleftrightarrow>
     (\<forall>p pr. pr_promises rt p = Some pr \<longrightarrow> settled pr \<longrightarrow>
        (\<exists>pr'. pr_promises rt' p = Some pr' \<and> same_outcome pr pr'))"

definition pending :: "loop \<Rightarrow> job list" where
  "pending l = fst l @ pr_queue (snd l)"

lemma keeps_settled_refl: "keeps_settled rt rt"
  by (simp add: keeps_settled_def)

lemma keeps_settled_trans: "keeps_settled rt rt' \<Longrightarrow> keeps_settled rt' rt'' \<Longrightarrow> keeps_settled rt rt''"
  unfolding keeps_settled_def by (fastforce simp: same_outcome_def settled_def)

lemma good_keeps:
  assumes "pinv x rt" and "pext x E rt rt'" and "\<forall>p \<in> E. live rt p + x p \<noteq> 0 \<or> (\<forall>pr. pr_promises rt p = Some pr \<longrightarrow> \<not> settled pr)"
  shows "keeps_settled rt rt'"
  unfolding keeps_settled_def
proof (intro allI impI)
  fix p pr assume p: "pr_promises rt p = Some pr" "settled pr"
  then have l: "live rt p + x p = 0" using assms(1) by (simp add: pinv_def)
  then have "p \<notin> E" using assms(3) p by auto
  then have "frozen rt rt' p" using pext_frozen [OF assms(2) _ _ l] p by simp
  then show "\<exists>pr'. pr_promises rt' p = Some pr' \<and> same_outcome pr pr'" using p by (simp add: frozen_def)
qed

lemma pext_keeps_pending:
  "pext x {p} rt rt' \<Longrightarrow> pinv x rt \<Longrightarrow> pr_promises rt p = Some pr \<Longrightarrow> \<not> settled pr \<Longrightarrow> keeps_settled rt rt'"
  by (rule good_keeps) auto

lemma run_handler_step:
  assumes "good_call x cf" and "pinv x rt" and "run_handler env cf reaction arg rt = Some (rt', b, v)"
  shows "good_result x rt rt'"
proof (cases "r_handler reaction")
  case None
  then show ?thesis using assms good_refl by (simp add: run_handler_def)
next
  case (Some h)
  define rt1 where "rt1 = (if pr_hasCtxTracker rt then rt\<lparr>pr_events := pr_events rt @ [Resumed (r_asyncCtx reaction)]\<rparr> else rt)"
  have c1: "same_core rt rt1" using same_core_event same_core_refl by (simp add: rt1_def)
  obtain rt2 res where r2: "cf h VUndefined [arg] rt1 = Some (rt2, res)"
    using assms(3) Some by (auto simp: run_handler_def rt1_def [symmetric] split: option.splits)
  define rt3 where "rt3 = (if pr_hasCtxTracker rt2 then rt2\<lparr>pr_events := pr_events rt2 @ [Exited]\<rparr> else rt2)"
  have c3: "same_core rt2 rt3" using same_core_event same_core_refl by (simp add: rt3_def)
  have "rt' = rt3"
    using assms(3) Some r2
    by (cases res) (auto simp: run_handler_def rt1_def [symmetric] rt3_def [symmetric] Let_def split: if_splits)
  moreover have "good_result x rt rt3"
    using good_core [OF c1 assms(2)] good_callD [OF assms(1) _ r2] good_core [OF c3] good_trans good_pinv by metis
  ultimately show ?thesis by simp
qed

lemma reaction_job_step:
  assumes "good_call x cf" and "pinv x rt" and "run_job env cf (ReactionJob reaction arg) rt = Some rt'"
  shows "good_result x rt rt'"
proof -
  obtain rt1 b v where h: "run_handler env cf reaction arg rt = Some (rt1, b, v)"
    using assms(3) by (auto split: option.splits)
  have g: "good_result x rt rt1" by (rule run_handler_step [OF assms(1,2) h])
  show ?thesis
  proof (cases "r_capability reaction")
    case None then show ?thesis using assms(3) h g by simp
  next
    case (Some cap)
    then obtain r where "cf (if b then cap_resolve cap else cap_reject cap) VUndefined [v] rt1 = Some (rt', r)"
      using assms(3) h by (auto split: option.splits prod.splits)
    then show ?thesis using good_callD [OF assms(1) good_pinv [OF g]] g good_trans by blast
  qed
qed

lemma pinv_less:
  assumes "pinv x0 rt" and "\<And>p. x p \<le> x0 p"
  shows "pinv x rt"
  unfolding pinv_def
proof (intro conjI allI impI)
  fix p
  have "live rt p + x0 p \<le> 1" using assms(1) by (simp add: pinv_def)
  then show "live rt p + x p \<le> 1" using assms(2) [of p] by linarith
next
  fix p pr assume "pr_promises rt p = Some pr" "settled pr"
  then have "live rt p + x0 p = 0" "p_fulfill pr = []" "p_reject pr = []"
    using assms(1) by (simp_all add: pinv_def)
  then show "live rt p + x p = 0" "p_fulfill pr = []" "p_reject pr = []"
    using assms(2) [of p] by simp_all
next
  fix p assume "pr_promises rt p = None"
  then have "live rt p + x0 p = 0" using assms(1) by (simp add: pinv_def)
  then show "live rt p + x p = 0" using assms(2) [of p] by simp
qed (use assms(1) in \<open>simp_all add: pinv_def\<close>)

lemma thenable_job_step:
  assumes "good_call x cf" and "pinv x rt" and "pr_promises rt p = Some pr" and "\<not> settled pr"
    and "live rt p + x p = 0" and "run_job env cf (ThenableJob p t f) rt = Some rt'"
  shows "pinv x rt' \<and> pext x {p} rt rt'"
proof -
  obtain rt1 a b where c: "createResolvingFunctions p rt = (rt1, a, b)" by (metis prod_cases3)
  note s = createResolvingFunctions_step [OF assms(2-5) c]
  obtain rt2 r where r2: "cf f t [VObject a, VObject b] rt1 = Some (rt2, r)"
    using assms(6) c by (auto split: option.splits)
  have g2: "good_result x rt1 rt2" using good_callD [OF assms(1) _ r2] s by simp
  have g: "good_result x rt1 rt'"
  proof (cases r)
    case (Inr v) then show ?thesis using assms(6) c r2 g2 by simp
  next
    case (Inl ex)
    then obtain r' where "cf b VUndefined [ex] rt2 = Some (rt', r')"
      using assms(6) c r2 by (auto split: option.splits prod.splits)
    then show ?thesis using good_callD [OF assms(1) good_pinv [OF g2]] g2 good_trans by blast
  qed
  then have "pinv x rt'" "pext x {p} rt1 rt'"
    using pext_mono [of x "{}" rt1 rt' "{p}"] by (simp_all add: good_result_def)
  then show ?thesis using s pext_trans by blast
qed

lemma run_job_step:
  assumes "\<And>x. good_call x cf" and "pinv (thenables (j # js)) rt" and "run_job env cf j rt = Some rt'"
  shows "pinv (thenables js) rt' \<and> keeps_settled rt rt' \<and> (\<exists>new. pr_queue rt' = pr_queue rt @ new)"
proof (cases j)
  case (ReactionJob reaction arg)
  have x: "thenables (j # js) = thenables js" using ReactionJob by (simp add: fun_eq_iff)
  have inv: "pinv (thenables js) rt" using assms(2) x by simp
  have "good_result (thenables js) rt rt'"
    using reaction_job_step [OF assms(1) inv] assms(3) ReactionJob by simp
  then show ?thesis using good_keeps [OF inv, of "{}"] pext_queue by (auto simp: good_result_def)
next
  case (ThenableJob p t f)
  have le: "thenables js q \<le> thenables (j # js) q" for q by simp
  have inv: "pinv (thenables js) rt" by (rule pinv_less [OF assms(2) le])
  have one: "live rt p + thenables (j # js) p \<le> 1" using assms(2) unfolding pinv_def by blast
  then have l: "live rt p + thenables js p = 0" using ThenableJob by simp
  have "live rt p + thenables (j # js) p \<noteq> 0" using ThenableJob by simp
  then obtain pr where pr: "pr_promises rt p = Some pr" "\<not> settled pr"
    using assms(2) unfolding pinv_def by (metis not_None_eq)
  have "pinv (thenables js) rt' \<and> pext (thenables js) {p} rt rt'"
    by (rule thenable_job_step [OF assms(1) inv pr l assms(3) [unfolded ThenableJob]])
  then show ?thesis using pext_keeps_pending [OF _ inv pr] pext_queue by blast
qed

lemma leave_step_good:
  assumes "\<And>x. good_call x cf" and "linv l" and "leave_step env cf l = Some (j, l')"
  shows "linv l' \<and> keeps_settled (snd l) (snd l') \<and> (\<exists>new. pending l @ new = j # pending l')"
proof -
  obtain jobs rt where l: "l = (jobs, rt)" by fastforce
  define b where "b = (case l of ([], rt) \<Rightarrow> (pr_queue rt, rt\<lparr>pr_queue := []\<rparr>) | (jobs, rt) \<Rightarrow> (jobs, rt))"
  have bi: "linv b \<and> keeps_settled rt (snd b) \<and> pending b = pending l"
  proof (cases jobs)
    case Nil
    have lv: "live (rt\<lparr>pr_queue := []\<rparr>) p + thenables (pr_queue rt) p = live rt p" for p
      by (simp add: live_def)
    have "thenables [] = (\<lambda>p. 0)" by (simp add: fun_eq_iff)
    then have "pinv (\<lambda>p. 0) rt" using assms(2) l Nil by (simp add: linv_def)
    then have "pinv (thenables (pr_queue rt)) (rt\<lparr>pr_queue := []\<rparr>)" unfolding pinv_def lv by simp
    then show ?thesis using Nil l by (simp add: b_def linv_def keeps_settled_def pending_def)
  next
    case (Cons a js)
    then show ?thesis using assms(2) l by (simp add: b_def keeps_settled_refl)
  qed
  obtain js rt1 where j: "b = (j # js, rt1)" "run_job env cf j rt1 = Some (snd l')" "fst l' = js"
    using assms(3) unfolding leave_step_def b_def [symmetric]
    by (auto split: prod.splits list.splits option.splits)
  have "pinv (thenables js) (snd l') \<and> keeps_settled rt1 (snd l') \<and> (\<exists>new. pr_queue (snd l') = pr_queue rt1 @ new)"
    by (rule run_job_step [OF assms(1) _ j(2)]) (use bi j(1) in \<open>simp add: linv_def\<close>)
  then obtain new where r: "pinv (thenables js) (snd l')" "keeps_settled rt1 (snd l')"
      "pr_queue (snd l') = pr_queue rt1 @ new" by blast
  have "pending l @ new = (j # js @ pr_queue rt1) @ new" using bi j(1) by (simp add: pending_def)
  also have "\<dots> = j # pending l'" using r(3) j(3) by (simp add: pending_def)
  finally have "\<exists>new. pending l @ new = j # pending l'" by blast
  then show ?thesis
    using bi r j l keeps_settled_trans by (auto simp: linv_def)
qed

text \<open>Jobs run in the order in which they were enqueued.\<close>

lemma leave_steps_fifo:
  assumes "\<And>x. good_call x cf"
  shows "linv l \<Longrightarrow> leave_steps env cf n l = Some (js, l') \<Longrightarrow>
     linv l' \<and> length js = n \<and> keeps_settled (snd l) (snd l') \<and> (\<exists>new. pending l @ new = js @ pending l')"
proof (induction n arbitrary: l js)
  case 0 then show ?case by (auto simp: keeps_settled_refl)
next
  case (Suc n)
  then obtain j l1 js1 where s: "leave_step env cf l = Some (j, l1)" "leave_steps env cf n l1 = Some (js1, l')" "js = j # js1"
    by (auto split: option.splits)
  have a: "linv l1" "keeps_settled (snd l) (snd l1)" "\<exists>new. pending l @ new = j # pending l1"
    using leave_step_good [OF assms Suc.prems(1) s(1)] by blast+
  have b: "linv l'" "length js1 = n" "keeps_settled (snd l1) (snd l')" "\<exists>new. pending l1 @ new = js1 @ pending l'"
    using Suc.IH [OF a(1) s(2)] by blast+
  obtain n1 n2 where n: "pending l @ n1 = j # pending l1" "pending l1 @ n2 = js1 @ pending l'" using a(3) b(4) by blast
  then have "pending l @ (n1 @ n2) = (j # js1) @ pending l'" by (metis append.assoc append_Cons)
  then show ?case using a b s(3) keeps_settled_trans by (metis length_Cons)
qed

section \<open>Reachable states\<close>

definition prt0 :: "bool \<Rightarrow> bool \<Rightarrow> prt" where
  "prt0 rejTracker ctxTracker =
     \<lparr>pr_promises = Map.empty, pr_funs = Map.empty, pr_pairs = [], pr_next = 0, pr_queue = [],
      pr_hasRejTracker = rejTracker, pr_hasCtxTracker = ctxTracker, pr_events = []\<rparr>"

text \<open>What the host can do: call a function, run a program, run the next job or drop the queue
  after an interrupt (\<open>leaveAbrupt\<close>).\<close>

inductive pstep :: "penv \<Rightarrow> loop \<Rightarrow> loop \<Rightarrow> bool" for env where
  ps_call: "call_fn n env f this args rt = Some (rt', r) \<Longrightarrow> pstep env (jobs, rt) (jobs, rt')"
| ps_prog: "run_prog env (call_fn n env) pg rt = Some (rt', r) \<Longrightarrow> pstep env (jobs, rt) (jobs, rt')"
| ps_job: "leave_step env (call_fn n env) l = Some (j, l') \<Longrightarrow> pstep env l l'"
| ps_abrupt: "pstep env (jobs, rt) (jobs, rt\<lparr>pr_queue := []\<rparr>)"

lemma linv_init: "linv ([], prt0 a b)"
  by (simp add: linv_def pinv_def prt0_def live_def open_pairs_def thenables_def)

lemma drop_queue:
  assumes "pinv x rt"
  shows "pinv x (rt\<lparr>pr_queue := []\<rparr>)"
proof -
  have le: "live (rt\<lparr>pr_queue := []\<rparr>) p \<le> live rt p" for p by (simp add: live_def)
  show ?thesis unfolding pinv_def
  proof (intro conjI allI impI)
    fix p
    have "live rt p + x p \<le> 1" using assms by (simp add: pinv_def)
    then show "live (rt\<lparr>pr_queue := []\<rparr>) p + x p \<le> 1" using le [of p] by linarith
  next
    fix p pr assume "pr_promises (rt\<lparr>pr_queue := []\<rparr>) p = Some pr" "settled pr"
    then have "live rt p + x p = 0" "p_fulfill pr = []" "p_reject pr = []" using assms by (simp_all add: pinv_def)
    then show "live (rt\<lparr>pr_queue := []\<rparr>) p + x p = 0" "p_fulfill pr = []" "p_reject pr = []"
      using le [of p] by simp_all
  next
    fix p assume "pr_promises (rt\<lparr>pr_queue := []\<rparr>) p = None"
    then have "live rt p + x p = 0" using assms by (simp add: pinv_def)
    then show "live (rt\<lparr>pr_queue := []\<rparr>) p + x p = 0" using le [of p] by simp
  qed (use assms in \<open>simp_all add: pinv_def\<close>)
qed

lemma pstep_good:
  "pstep env l l' \<Longrightarrow> linv l \<Longrightarrow> linv l' \<and> keeps_settled (snd l) (snd l')"
proof (induction rule: pstep.induct)
  case (ps_call n f this args rt rt' r jobs)
  then have "good_result (thenables jobs) rt rt'" using good_callD [OF call_fn_good] by (simp add: linv_def)
  then show ?case using good_keeps [of _ rt "{}"] ps_call by (auto simp: linv_def good_result_def)
next
  case (ps_prog n pg rt rt' r jobs)
  then have "good_result (thenables jobs) rt rt'" using run_prog_good [OF call_fn_good] by (simp add: linv_def)
  then show ?case using good_keeps [of _ rt "{}"] ps_prog by (auto simp: linv_def good_result_def)
next
  case (ps_job n l j l')
  then show ?case using leave_step_good [OF call_fn_good] by blast
next
  case (ps_abrupt jobs rt)
  then show ?case using drop_queue by (simp add: linv_def keeps_settled_def)
qed

lemma psteps_good:
  "(pstep env)\<^sup>*\<^sup>* l l' \<Longrightarrow> linv l \<Longrightarrow> linv l' \<and> keeps_settled (snd l) (snd l')"
  by (induction rule: rtranclp_induct) (use keeps_settled_refl pstep_good keeps_settled_trans in blast)+

section \<open>Properties\<close>

text \<open>
  C2. A promise settles at most once: in every state that any interleaving of host calls, user
  code and jobs reaches, whatever the user code does, a settled promise keeps its state and
  its result for ever, holds no reactions, and nothing is left that could settle it again - no
  unused pair of resolving functions and no thenable job.
\<close>

theorem promise_settles_once:
  assumes "(pstep env)\<^sup>*\<^sup>* ([], prt0 a b) l" and "(pstep env)\<^sup>*\<^sup>* l l'"
    and "pr_promises (snd l) p = Some pr" and "p_state pr \<noteq> Pending"
  shows "\<exists>pr'. pr_promises (snd l') p = Some pr' \<and> p_state pr' = p_state pr \<and> p_result pr' = p_result pr
    \<and> p_fulfill pr' = [] \<and> p_reject pr' = []
    \<and> open_pairs (pr_pairs (snd l')) p = 0 \<and> thenables (pending l') p = 0"
proof -
  have i: "linv l" using psteps_good [OF assms(1) linv_init] by blast
  have g: "linv l'" "keeps_settled (snd l) (snd l')" using psteps_good [OF assms(2) i] by blast+
  then obtain pr' where p: "pr_promises (snd l') p = Some pr'" "same_outcome pr pr'"
    using assms(3,4) by (auto simp: keeps_settled_def settled_def)
  then have "settled pr'" using assms(4) by (simp add: settled_def same_outcome_def)
  then have "live (snd l') p + thenables (fst l') p = 0" "p_fulfill pr' = []" "p_reject pr' = []"
    using g(1) p(1) by (simp_all add: linv_def pinv_def)
  then show ?thesis using p by (auto simp: same_outcome_def live_def pending_def)
qed

definition penv0 :: penv where
  "penv0 = \<lparr>e_user = (\<lambda>f this args. Return VUndefined), e_callable = (\<lambda>f. False),
     e_then = (\<lambda>obj. Return VUndefined), e_typeError = VString [], e_grab = (\<lambda>ev. length ev)\<rparr>"

definition prog_pending :: prog where
  "prog_pending = NewPromise (\<lambda>(p, f, g). Then p VUndefined VUndefined (\<lambda>q. Return (VObject f)))"

definition prog_settled :: prog where
  "prog_settled = NewPromise (\<lambda>(p, f, g). Call g VUndefined [VInt 5] (\<lambda>r. Return (VObject p)))"

definition after_prog :: "prog \<Rightarrow> prt" where
  "after_prog pg = (case run_prog penv0 (call_fn 2 penv0) pg (prt0 False False) of Some (rt, _) \<Rightarrow> rt | None \<Rightarrow> prt0 False False)"

lemmas machine_defs = newPromiseCapability_def newPromise_def createResolvingFunctions_def
  promiseProto_then_def performPromiseThen_def addReactions_def upd_promise_def reject_promise_def
  fulfill_promise_def set_resolved_def alreadyResolved_def pair_promise_def argument_def
  trackPromiseRejection_def trigger_queue

lemma prog_settled_run:
  "\<exists>r. run_prog penv0 (call_fn 2 penv0) prog_settled (prt0 False False) = Some (after_prog prog_settled, r)"
  "\<exists>pr. pr_promises (after_prog prog_settled) 0 = Some pr \<and> p_state pr = Rejected \<and> p_result pr = VInt 5"
  by (simp_all add: after_prog_def prog_settled_def machine_defs prt0_def Let_def numeral_2_eq_2)

lemma prog_pending_run:
  "\<exists>r. run_prog penv0 (call_fn 2 penv0) prog_pending (prt0 False False) = Some (after_prog prog_pending, r)"
  "\<exists>pr. pr_promises (after_prog prog_pending) 0 = Some pr \<and> p_state pr = Pending \<and> length (p_fulfill pr) = 1"
  "pr_funs (after_prog prog_pending) 1 = Some (ResolveFn 0)"
  "pr_pairs (after_prog prog_pending) ! 0 = (0, False)" "pr_queue (after_prog prog_pending) = []"
  by (simp_all add: after_prog_def prog_pending_def machine_defs prt0_def Let_def numeral_2_eq_2)

theorem promise_settles_once_witness:
  "open_pairs (pr_pairs (after_prog prog_settled)) 0 = 0"
proof -
  obtain r where "run_prog penv0 (call_fn 2 penv0) prog_settled (prt0 False False) = Some (after_prog prog_settled, r)"
    using prog_settled_run(1) by blast
  then have s: "(pstep penv0)\<^sup>*\<^sup>* ([], prt0 False False) ([], after_prog prog_settled)"
    using ps_prog by blast
  obtain pr where p: "pr_promises (after_prog prog_settled) 0 = Some pr" "p_state pr = Rejected"
    using prog_settled_run(2) by blast
  then show ?thesis
    using promise_settles_once [OF s rtranclp.rtrancl_refl, of 0 pr] by auto
qed

text \<open>
  C13. Fulfilling a promise runs its reactions: when a resolving function that has not been used
  is called with a value that is not an object, in a state that the program can reach, the
  promise is fulfilled with the value, and however long the job loop then runs, its
  \<open>i\<close>-th reaction is the job number \<open>k + i\<close> of the loop, \<open>k\<close> being the number of jobs that
  were waiting; until then the loop has not ended.
\<close>

theorem promise_reactions_run:
  assumes "(pstep env)\<^sup>*\<^sup>* ([], prt0 a b) (jobs, rt)"
    and "pr_funs rt f = Some (ResolveFn c)" and "\<not> alreadyResolved rt c"
    and "\<not> is_object v" and "call_fn n env f this [v] rt = Some (rt1, r)"
  shows "\<exists>pr pr'. pr_promises rt (pair_promise rt c) = Some pr
    \<and> pr_promises rt1 (pair_promise rt c) = Some pr' \<and> p_state pr' = Fulfilled \<and> p_result pr' = v
    \<and> (\<forall>i m m' js l'. i < length (p_fulfill pr) \<longrightarrow>
          leave_steps env (call_fn m' env) m (jobs, rt1) = Some (js, l') \<longrightarrow>
          (if length jobs + length (pr_queue rt) + i < m
           then js ! (length jobs + length (pr_queue rt) + i) = ReactionJob (p_fulfill pr ! i) v
           else pending l' \<noteq> []))"
proof -
  define p where "p = pair_promise rt c"
  have inv: "pinv (thenables jobs) rt" using psteps_good [OF assms(1) linv_init] by (simp add: linv_def)
  have cl: "c < length (pr_pairs rt)" using inv assms(2) unfolding pinv_def by (metis fun_pair.simps(1))
  obtain pr where pr: "pr_promises (set_resolved c rt) p = Some pr"
    using set_resolved_step(5) [OF inv cl assms(3)] by (auto simp: p_def)
  have same: "pr_promises (set_resolved c rt) = pr_promises rt" "pr_queue (set_resolved c rt) = pr_queue rt"
    by (simp_all add: set_resolved_def)
  obtain n' where n: "n = Suc n'" using assms(5) by (cases n) auto
  have nv: "\<not> SameAs host0 v (VObject p)"
  proof (cases v)
    case (VInt i) then show ?thesis by (simp add: valueInt_SameAs_def)
  next
    case (VFloat x) then show ?thesis by (simp add: valueFloat_SameAs_def)
  qed (use assms(4) in simp_all)
  have "resolve_body env (call_fn n' env) p v (set_resolved c rt) = Some (fulfill_promise p v (set_resolved c rt))"
    using nv assms(4) by (cases v) (simp_all add: resolve_body_def)
  then have rt1: "rt1 = fulfill_promise p v (set_resolved c rt)"
    using assms(2,3,5) n by (simp add: p_def argument_def)
  have q1: "pr_queue rt1 = pr_queue rt @ map (\<lambda>r. ReactionJob r v) (p_fulfill pr)"
    using pr same by (simp add: rt1 fulfill_promise_def Let_def trigger_queue)
  have p1: "\<exists>pr'. pr_promises rt1 p = Some pr' \<and> p_state pr' = Fulfilled \<and> p_result pr' = v"
    using pr by (simp add: rt1 fulfill_promise_def Let_def trigger_queue)
  have "good_result (thenables jobs) rt rt1" by (rule good_callD [OF call_fn_good inv assms(5)])
  then have inv1: "linv (jobs, rt1)" by (simp add: linv_def good_result_def)
  have run: "if length jobs + length (pr_queue rt) + i < m
      then js ! (length jobs + length (pr_queue rt) + i) = ReactionJob (p_fulfill pr ! i) v else pending l' \<noteq> []"
    if i: "i < length (p_fulfill pr)" and st: "leave_steps env (call_fn m' env) m (jobs, rt1) = Some (js, l')"
    for i m m' js l'
  proof -
    define k where "k = length jobs + length (pr_queue rt) + i"
    obtain new where e: "pending (jobs, rt1) @ new = js @ pending l'" "length js = m"
      using leave_steps_fifo [OF call_fn_good inv1 st] by blast
    have at: "pending (jobs, rt1) ! k = ReactionJob (p_fulfill pr ! i) v" "k < length (pending (jobs, rt1))"
      using i by (simp_all add: pending_def q1 k_def nth_append)
    have nk: "(js @ pending l') ! k = ReactionJob (p_fulfill pr ! i) v" "k < length (js @ pending l')"
      using at e(1) by (metis nth_append, metis length_append trans_less_add1)
    show ?thesis using nk e(2) unfolding k_def [symmetric] by (auto simp: nth_append)
  qed
  show ?thesis using pr p1 run same unfolding p_def by metis
qed

theorem promise_reactions_run_witness:
  "\<exists>rt1 pr pr'. call_fn 1 penv0 1 VUndefined [VInt 7] (after_prog prog_pending) = Some (rt1, Inr VUndefined)
    \<and> pr_promises (after_prog prog_pending) 0 = Some pr \<and> pr_promises rt1 0 = Some pr' \<and> p_result pr' = VInt 7"
proof -
  obtain r where "run_prog penv0 (call_fn 2 penv0) prog_pending (prt0 False False) = Some (after_prog prog_pending, r)"
    using prog_pending_run(1) by blast
  then have s: "(pstep penv0)\<^sup>*\<^sup>* ([], prt0 False False) ([], after_prog prog_pending)"
    using ps_prog by blast
  have o: "\<not> alreadyResolved (after_prog prog_pending) 0" "pair_promise (after_prog prog_pending) 0 = 0"
    using prog_pending_run(4) by (simp_all add: alreadyResolved_def pair_promise_def)
  obtain rt1 where c: "call_fn 1 penv0 1 VUndefined [VInt 7] (after_prog prog_pending) = Some (rt1, Inr VUndefined)"
    using prog_pending_run(3) o by (simp add: resolve_body_def valueInt_SameAs_def argument_def)
  have "\<not> is_object (VInt 7)" by simp
  from promise_reactions_run [OF s prog_pending_run(3) o(1) this c] show ?thesis
    using c o(2) by auto
qed

end
