(* ===== verification/Byte_Memory.thy ===== *)
theory Byte_Memory
  imports Conversions
begin

text \<open>
  The bytes behind an \<open>ArrayBuffer\<close>: a Go \<open>[]byte\<close>, read and written through unsafe
  pointers as integers of one to eight bytes in the byte order of the machine (little
  endian, that of amd64), and the encodings of \<open>float64\<close> and \<open>float32\<close>
  (\<open>math.Float64bits\<close>, \<open>math.Float32bits\<close> and their inverses, and Go's conversion
  \<open>float32(f)\<close>).
\<close>

type_synonym bytes = "8 word list"

section \<open>Integers in memory\<close>

fun le_nat :: "bytes \<Rightarrow> nat" where
  "le_nat [] = 0"
| "le_nat (b # bs) = unat b + 256 * le_nat bs"

fun le_bytes :: "nat \<Rightarrow> nat \<Rightarrow> bytes" where
  "le_bytes 0 x = []"
| "le_bytes (Suc n) x = word_of_nat (x mod 256) # le_bytes n (x div 256)"

lemma length_le_bytes [simp]: "length (le_bytes n x) = n"
  by (induction n arbitrary: x) auto

lemma unat_byte [simp]: "unat (word_of_nat (x mod 256) :: 8 word) = x mod 256"
  by (simp add: unat_of_nat)

lemma le_nat_le_bytes: "le_nat (le_bytes n x) = x mod 256 ^ n"
proof (induction n arbitrary: x)
  case (Suc n)
  have "x mod 256 ^ Suc n = x mod 256 + 256 * (x div 256 mod 256 ^ n)"
    by (simp add: mod_mult2_eq)
  with Suc show ?case by simp
qed simp

lemma unat_byte_less [simp]: "unat (b :: 8 word) < 256"
  using unsigned_less [of b, where 'a = nat] by simp

lemma le_nat_less: "le_nat bs < 256 ^ length bs"
proof (induction bs)
  case (Cons b bs)
  have "unat b + 256 * le_nat bs < 256 * (le_nat bs + 1)" by simp
  also have "\<dots> \<le> 256 * 256 ^ length bs" using Cons by (intro mult_le_mono) auto
  finally show ?case by simp
qed simp

lemma le_bytes_le_nat: "le_bytes (length bs) (le_nat bs) = bs"
proof (induction bs)
  case (Cons b bs)
  have m: "(unat b + 256 * le_nat bs) mod 256 = unat b" by simp
  have d: "(unat b + 256 * le_nat bs) div 256 = le_nat bs" by simp
  show ?case using Cons unfolding le_nat.simps length_Cons le_bytes.simps m d by simp
qed simp

text \<open>
  A pointer into the slice, \<open>off\<close> bytes from its start, dereferenced as an \<open>n\<close>-byte
  integer. Go checks nothing here.
\<close>

definition inside :: "nat \<Rightarrow> bytes \<Rightarrow> int \<Rightarrow> bool" where
  "inside n d off \<longleftrightarrow> 0 \<le> off \<and> off + int n \<le> int (length d)"

definition ld :: "nat \<Rightarrow> bytes \<Rightarrow> int \<Rightarrow> go_error + nat" where
  "ld n d off = (if inside n d off then Inr (le_nat (take n (drop (nat off) d))) else Inl MemFault)"

definition st :: "nat \<Rightarrow> bytes \<Rightarrow> int \<Rightarrow> nat \<Rightarrow> go_error + bytes" where
  "st n d off x =
     (if inside n d off then Inr (take (nat off) d @ le_bytes n x @ drop (nat off + n) d)
      else Inl MemFault)"

lemma inside_nat:
  assumes "inside n d off"
  obtains k where "off = int k" "k + n \<le> length d"
  using assms by (auto simp: inside_def intro: that [of "nat off"])

lemma ld_nat [simp]: "k + n \<le> length d \<Longrightarrow> ld n d (int k) = Inr (le_nat (take n (drop k d)))"
  by (simp add: ld_def inside_def)

lemma st_nat [simp]:
  "k + n \<le> length d \<Longrightarrow> st n d (int k) x = Inr (take k d @ le_bytes n x @ drop (k + n) d)"
  by (simp add: st_def inside_def)

lemma ld_ok: "inside n d off \<Longrightarrow> \<exists>x. ld n d off = Inr x \<and> x < 256 ^ n"
proof -
  assume a: "inside n d off"
  then have "length (take n (drop (nat off) d)) = n" by (auto simp: inside_def)
  then show ?thesis using a le_nat_less [of "take n (drop (nat off) d)"] by (simp add: ld_def)
qed

lemma st_Inr_inside: "st n d off x = Inr d' \<Longrightarrow> inside n d off"
  by (auto simp: st_def split: if_splits)

lemma st_length: "st n d off x = Inr d' \<Longrightarrow> length d' = length d"
  by (auto simp: st_def inside_def split: if_splits)

lemma st_ok: "inside n d off \<Longrightarrow> \<exists>d'. st n d off x = Inr d' \<and> length d' = length d"
  by (auto simp: st_def inside_def)

lemma ld_st_same:
  assumes "st n d off x = Inr d'"
  shows "ld n d' off = Inr (x mod 256 ^ n)"
proof -
  obtain k where k: "off = int k" "k + n \<le> length d"
    using st_Inr_inside [OF assms] by (rule inside_nat)
  with assms have d': "d' = take k d @ le_bytes n x @ drop (k + n) d" by simp
  have "take n (drop k d') = le_bytes n x" using k by (simp add: d')
  then show ?thesis using k st_length [OF assms] by (simp add: le_nat_le_bytes)
qed

lemma ld_st_other:
  assumes "st n d off x = Inr d'" and "off' + int n' \<le> off \<or> off + int n \<le> off'"
  shows "ld n' d' off' = ld n' d off'"
proof (cases "inside n' d off'")
  case True
  then obtain j where j: "off' = int j" "j + n' \<le> length d" by (rule inside_nat)
  obtain k where k: "off = int k" "k + n \<le> length d"
    using st_Inr_inside [OF assms(1)] by (rule inside_nat)
  with assms(1) have d': "d' = take k d @ le_bytes n x @ drop (k + n) d" by simp
  have "take n' (drop j d') = take n' (drop j d)"
  proof (cases "j + n' \<le> k")
    case True
    have "take n' (drop j d') = drop j (take (j + n') d')" by (simp add: drop_take)
    also have "take (j + n') d' = take (j + n') d" using True k by (simp add: d' min_def)
    finally show ?thesis by (simp add: drop_take)
  next
    case False
    then have le: "k + n \<le> j" using assms(2) j k by auto
    then have "drop j d' = drop (k + n + (j - (k + n))) d'" by simp
    also have "\<dots> = drop (j - (k + n)) (drop (k + n) d')"
      unfolding drop_drop by (simp only: add.commute)
    also have "drop (k + n) d' = drop (k + n) d" using k by (simp add: d')
    finally show ?thesis using le by simp
  qed
  then show ?thesis using j k st_length [OF assms(1)] by simp
next
  case False
  then have "\<not> inside n' d' off'" using st_length [OF assms(1)] by (simp add: inside_def)
  with False show ?thesis by (simp add: ld_def)
qed

lemma ld_inside: "ld n d off = Inr x \<Longrightarrow> inside n d off"
  by (auto simp: ld_def split: if_splits)

lemma ld_less: "ld n d off = Inr x \<Longrightarrow> x < 256 ^ n"
  using ld_ok ld_inside by fastforce

text \<open>The exchange of two elements, \<open>*pi, *pj = *pj, *pi\<close>.\<close>

definition swap_mem :: "nat \<Rightarrow> bytes \<Rightarrow> int \<Rightarrow> int \<Rightarrow> go_error + bytes" where
  "swap_mem n d i j =
     bindR (ld n d i) (\<lambda>x. bindR (ld n d j) (\<lambda>y. bindR (st n d i y) (\<lambda>d. st n d j x)))"

lemma swap_mem_ok:
  assumes "inside n d i" "inside n d j"
  shows "\<exists>d'. swap_mem n d i j = Inr d' \<and> length d' = length d"
proof -
  obtain x where x: "ld n d i = Inr x" using assms(1) ld_ok by blast
  obtain y where y: "ld n d j = Inr y" using assms(2) ld_ok by blast
  obtain d1 where d1: "st n d i y = Inr d1" "length d1 = length d" using assms(1) st_ok by blast
  obtain d2 where d2: "st n d1 j x = Inr d2" "length d2 = length d1"
    using assms(2) d1(2) st_ok [of n d1 j] by (auto simp: inside_def)
  show ?thesis using x y d1 d2 by (simp add: swap_mem_def)
qed

lemma swap_mem_ld:
  assumes "swap_mem n d i j = Inr d'" and "i = j \<or> i + int n \<le> j \<or> j + int n \<le> i"
  shows "ld n d' i = ld n d j" "ld n d' j = ld n d i"
proof -
  obtain x y d1 where x: "ld n d i = Inr x" and y: "ld n d j = Inr y" and d1: "st n d i y = Inr d1"
    and d': "st n d1 j x = Inr d'"
    using assms(1) by (auto simp: swap_mem_def bindR_Inr_iff)
  have xy: "x mod 256 ^ n = x" "y mod 256 ^ n = y" using ld_less [OF x] ld_less [OF y] by simp_all
  show "ld n d' j = ld n d i" using ld_st_same [OF d'] x xy by simp
  show "ld n d' i = ld n d j"
  proof (cases "i = j")
    case True
    then show ?thesis using ld_st_same [OF d'] x xy by simp
  next
    case False
    with assms(2) have "ld n d' i = ld n d1 i" by (intro ld_st_other [OF d']) auto
    then show ?thesis using ld_st_same [OF d1] y xy by simp
  qed
qed

text \<open>The signed integer with the same bits.\<close>

definition to_signed :: "nat \<Rightarrow> nat \<Rightarrow> int" where
  "to_signed n x = wrap_signed (8 * n) (int x)"

lemma to_signed_store: "0 < n \<Longrightarrow> to_signed n (nat (wrap_unsigned 64 i) mod 256 ^ n) = wrap_signed (8 * n) i"
  if "n \<le> 8" for n
proof -
  assume n: "0 < n"
  have p: "(256::int) ^ n = 2 ^ (8 * n)" by (simp add: power_mult)
  have "int (nat (wrap_unsigned 64 i) mod 256 ^ n) = (i mod 2 ^ 64) mod 2 ^ (8 * n)"
    by (simp add: wrap_unsigned_def zmod_int p)
  also have "\<dots> = i mod 2 ^ (8 * n)"
    using that by (intro mod_mod_cancel le_imp_power_dvd) simp
  finally have *: "int (nat (wrap_unsigned 64 i) mod 256 ^ n) = i mod 2 ^ (8 * n)" .
  show ?thesis unfolding to_signed_def * wrap_signed_def by (simp add: mod_add_left_eq)
qed

section \<open>The encodings of floats\<close>

definition Float64frombits :: "nat \<Rightarrow> f64" where
  "Float64frombits b =
     (let s = odd (b div 2 ^ 63); x = b div 2 ^ 52 mod 2 ^ 11; m = b mod 2 ^ 52 in
      if x = 2047 then (if m = 0 then Inf s else NaN)
      else if x = 0 then Fin s m (-1074)
      else Fin s (2 ^ 52 + m) (int x - 1075))"

text \<open>
  A \<open>float32\<close>, with its own normal form: 24 bits of significand, the last of which is
  worth at least \<open>2^-149\<close>.
\<close>

datatype f32 =
    NaN32
  | Inf32 bool
  | Fin32 bool nat int

definition f32_ok :: "f32 \<Rightarrow> bool" where
  "f32_ok f = (case f of Fin32 s m e \<Rightarrow>
       m < 2 ^ 24 \<and> -149 \<le> e \<and> e \<le> 104 \<and> (m < 2 ^ 23 \<longrightarrow> e = -149)
     | _ \<Rightarrow> True)"

definition mk_fin32 :: "bool \<Rightarrow> nat \<Rightarrow> int \<Rightarrow> f32" where
  "mk_fin32 s m e =
     (if m = 2 ^ 24 then (if 104 < e + 1 then Inf32 s else Fin32 s (2 ^ 23) (e + 1))
      else if 104 < e then Inf32 s else Fin32 s m e)"

text \<open>\<open>float32(f)\<close>: rounded to nearest, ties to even.\<close>

fun float32 :: "f64 \<Rightarrow> f32" where
  "float32 NaN = NaN32"
| "float32 (Inf s) = Inf32 s"
| "float32 (Fin s n e) =
     (if n = 0 then Fin32 s 0 (-149) else
      let e' = max (e + int (bitlen n) - 24) (-149) in
      if e' \<le> e then mk_fin32 s (n * 2 ^ nat (e - e')) e'
      else mk_fin32 s (shift_round n (nat (e' - e))) e')"

text \<open>\<open>float64(f)\<close> of a \<open>float32\<close>, which is exact.\<close>

fun float64 :: "f32 \<Rightarrow> f64" where
  "float64 NaN32 = NaN"
| "float64 (Inf32 s) = Inf s"
| "float64 (Fin32 s m e) = round_f64 s m e"

fun Float32bits :: "f32 \<Rightarrow> nat" where
  "Float32bits NaN32 = 0x7FC00000"
| "Float32bits (Inf32 s) = (if s then 2 ^ 31 else 0) + 255 * 2 ^ 23"
| "Float32bits (Fin32 s m e) =
     (if s then 2 ^ 31 else 0) + (if m < 2 ^ 23 then m else nat (e + 150) * 2 ^ 23 + (m - 2 ^ 23))"

definition Float32frombits :: "nat \<Rightarrow> f32" where
  "Float32frombits b =
     (let s = odd (b div 2 ^ 31); x = b div 2 ^ 23 mod 2 ^ 8; m = b mod 2 ^ 23 in
      if x = 255 then (if m = 0 then Inf32 s else NaN32)
      else if x = 0 then Fin32 s m (-149)
      else Fin32 s (2 ^ 23 + m) (int x - 150))"

text \<open>The three fields of an encoding.\<close>

lemma float_fields:
  fixes s :: bool and x m p w :: nat
  assumes "x < 2 ^ w" "m < 2 ^ p"
  defines "b \<equiv> (if s then 2 ^ (p + w) else 0) + (x * 2 ^ p + m)"
  shows "odd (b div 2 ^ (p + w)) = s" "b div 2 ^ p mod 2 ^ w = x" "b mod 2 ^ p = m"
    "b < 2 ^ Suc (p + w)"
proof -
  have lt: "x * 2 ^ p + m < 2 ^ (p + w)"
  proof -
    have "x * 2 ^ p + m < (x + 1) * 2 ^ p" using assms(2) by simp
    also have "\<dots> \<le> 2 ^ w * 2 ^ p" using assms(1) by (intro mult_le_mono1) simp
    finally show ?thesis by (simp add: power_add mult.commute)
  qed
  have "b div 2 ^ (p + w) = (if s then 1 else 0)"
    using lt div_add_self1 [of "2 ^ (p + w)" "x * 2 ^ p + m"] by (simp add: b_def)
  then show "odd (b div 2 ^ (p + w)) = s" by simp
  have "b div 2 ^ p = (if s then 2 ^ w else 0) + x"
    using assms(2) by (simp add: b_def power_add)
  then show "b div 2 ^ p mod 2 ^ w = x" using assms(1) by simp
  show "b mod 2 ^ p = m" using assms(2) by (simp add: b_def power_add)
  show "b < 2 ^ Suc (p + w)" using lt by (simp add: b_def)
qed

lemma Float64frombits_fields:
  assumes "x < 2 ^ 11" "m < 2 ^ 52"
  shows "Float64frombits ((if s then 2 ^ 63 else 0) + (x * 2 ^ 52 + m)) =
    (if x = 2047 then (if m = 0 then Inf s else NaN)
      else if x = 0 then Fin s m (-1074)
      else Fin s (2 ^ 52 + m) (int x - 1075))"
    "(if s then 2 ^ 63 else 0) + (x * 2 ^ 52 + m) < 2 ^ 64"
proof -
  have n: "52 + 11 = (63::nat)" by simp
  note f = float_fields(1-3) [OF assms, of s, unfolded n]
  show "Float64frombits ((if s then 2 ^ 63 else 0) + (x * 2 ^ 52 + m)) =
    (if x = 2047 then (if m = 0 then Inf s else NaN)
      else if x = 0 then Fin s m (-1074)
      else Fin s (2 ^ 52 + m) (int x - 1075))"
    unfolding Float64frombits_def Let_def f ..
  have "Suc 63 = 64" by simp
  then show "(if s then 2 ^ 63 else 0) + (x * 2 ^ 52 + m) < 2 ^ 64"
    using float_fields(4) [OF assms, of s, unfolded n] by (simp only:)
qed

lemma Float32frombits_fields:
  assumes "x < 2 ^ 8" "m < 2 ^ 23"
  shows "Float32frombits ((if s then 2 ^ 31 else 0) + (x * 2 ^ 23 + m)) =
    (if x = 255 then (if m = 0 then Inf32 s else NaN32)
      else if x = 0 then Fin32 s m (-149)
      else Fin32 s (2 ^ 23 + m) (int x - 150))"
    "(if s then 2 ^ 31 else 0) + (x * 2 ^ 23 + m) < 2 ^ 32"
proof -
  have n: "23 + 8 = (31::nat)" by simp
  note f = float_fields(1-3) [OF assms, of s, unfolded n]
  show "Float32frombits ((if s then 2 ^ 31 else 0) + (x * 2 ^ 23 + m)) =
    (if x = 255 then (if m = 0 then Inf32 s else NaN32)
      else if x = 0 then Fin32 s m (-149)
      else Fin32 s (2 ^ 23 + m) (int x - 150))"
    unfolding Float32frombits_def Let_def f ..
  have "Suc 31 = 32" by simp
  then show "(if s then 2 ^ 31 else 0) + (x * 2 ^ 23 + m) < 2 ^ 32"
    using float_fields(4) [OF assms, of s, unfolded n] by (simp only:)
qed

lemma Float64frombits_bits:
  assumes "f64_ok f"
  shows "Float64frombits (Float64bits f) = f" "Float64bits f < 2 ^ 64"
proof -
  have "Float64frombits (Float64bits f) = f \<and> Float64bits f < 2 ^ 64"
  proof (cases f)
    case NaN
    have "Float64bits f = (if False then 2 ^ 63 else 0) + (2047 * 2 ^ 52 + (2 ^ 51 + 1))"
      by (simp add: NaN)
    then show ?thesis
      using Float64frombits_fields [of 2047 "2 ^ 51 + 1" False]
        float_fields(4) [of 2047 11 "2 ^ 51 + 1" 52 False] by (simp add: NaN)
  next
    case (Inf s)
    then show ?thesis
      using Float64frombits_fields [of 2047 0 s] float_fields(4) [of 2047 11 0 52 s] by simp
  next
    case (Fin s m e)
    note ok = assms [unfolded Fin f64_ok_def, simplified]
    show ?thesis
    proof (cases "m < 2 ^ 52")
      case True
      then show ?thesis
        using Float64frombits_fields [of 0 m s] float_fields(4) [of 0 11 m 52 s] Fin ok by simp
    next
      case False
      let ?x = "nat (e + 1075)" and ?m = "m - 2 ^ 52"
      have x: "?x < 2 ^ 11" "?x \<noteq> 2047" "?x \<noteq> 0" "int ?x - 1075 = e" and m: "?m < 2 ^ 52" "2 ^ 52 + ?m = m"
        using ok False by auto
      have b: "Float64bits f = (if s then 2 ^ 63 else 0) + (?x * 2 ^ 52 + ?m)"
        using False by (simp add: Fin)
      show ?thesis
      proof
        show "Float64frombits (Float64bits f) = f"
          unfolding b Float64frombits_fields(1) [OF x(1) m(1), of s] using x m Fin by simp
        show "Float64bits f < 2 ^ 64" unfolding b by (rule Float64frombits_fields(2) [OF x(1) m(1)])
      qed
    qed
  qed
  then show "Float64frombits (Float64bits f) = f" "Float64bits f < 2 ^ 64" by auto
qed

lemma Float32frombits_bits:
  assumes "f32_ok f"
  shows "Float32frombits (Float32bits f) = f" "Float32bits f < 2 ^ 32"
proof -
  have "Float32frombits (Float32bits f) = f \<and> Float32bits f < 2 ^ 32"
  proof (cases f)
    case NaN32
    have "Float32bits f = (if False then 2 ^ 31 else 0) + (255 * 2 ^ 23 + 2 ^ 22)"
      by (simp add: NaN32)
    then show ?thesis
      using Float32frombits_fields [of 255 "2 ^ 22" False]
        float_fields(4) [of 255 8 "2 ^ 22" 23 False] by (simp add: NaN32)
  next
    case (Inf32 s)
    then show ?thesis
      using Float32frombits_fields [of 255 0 s] float_fields(4) [of 255 8 0 23 s] by simp
  next
    case (Fin32 s m e)
    note ok = assms [unfolded Fin32 f32_ok_def, simplified]
    show ?thesis
    proof (cases "m < 2 ^ 23")
      case True
      then show ?thesis
        using Float32frombits_fields [of 0 m s] float_fields(4) [of 0 8 m 23 s] Fin32 ok by simp
    next
      case False
      let ?x = "nat (e + 150)" and ?m = "m - 2 ^ 23"
      have x: "?x < 2 ^ 8" "?x \<noteq> 255" "?x \<noteq> 0" "int ?x - 150 = e" and m: "?m < 2 ^ 23" "2 ^ 23 + ?m = m"
        using ok False by auto
      have b: "Float32bits f = (if s then 2 ^ 31 else 0) + (?x * 2 ^ 23 + ?m)"
        using False by (simp add: Fin32)
      show ?thesis
      proof
        show "Float32frombits (Float32bits f) = f"
          unfolding b Float32frombits_fields(1) [OF x(1) m(1), of s] using x m Fin32 by simp
        show "Float32bits f < 2 ^ 32" unfolding b by (rule Float32frombits_fields(2) [OF x(1) m(1)])
      qed
    qed
  qed
  then show "Float32frombits (Float32bits f) = f" "Float32bits f < 2 ^ 32" by auto
qed

lemma mk_fin32_ok:
  assumes "m \<le> 2 ^ 24" "-149 \<le> e" "m < 2 ^ 23 \<Longrightarrow> e = -149"
  shows "f32_ok (mk_fin32 s m e)"
  using assms by (auto simp: mk_fin32_def f32_ok_def)

lemma float32_ok: "f32_ok (float32 f)"
proof (cases f)
  case (Fin s n e)
  show ?thesis
  proof (cases "n = 0")
    case False
    define l where "l = bitlen n"
    define e' where "e' = max (e + int l - 24) (-149)"
    have l: "2 ^ (l - 1) \<le> n" "n < 2 ^ l" "0 < l"
      using bitlen_bounds [of n] False by (auto simp: l_def)
    show ?thesis
    proof (cases "e' \<le> e")
      case True
      define t where "t = nat (e - e')"
      have lt: "l + t \<le> 24" using True by (auto simp: t_def e'_def)
      have "n * 2 ^ t < 2 ^ (l + t)" using l by (simp add: power_add)
      also have "\<dots> \<le> (2::nat) ^ 24" using lt by (intro power_increasing) auto
      finally have up: "n * 2 ^ t \<le> 2 ^ 24" by simp
      have low: "e' = -149" if "n * 2 ^ t < 2 ^ 23"
      proof (rule ccontr)
        assume "e' \<noteq> -149"
        then have "e' = e + int l - 24" by (auto simp: e'_def)
        then have "l - 1 + t = 23" using True l(3) by (auto simp: t_def)
        moreover have "2 ^ (l - 1 + t) \<le> n * 2 ^ t"
          using l(1) by (simp only: power_add mult_le_mono1)
        ultimately show False using that by simp
      qed
      have "f32_ok (mk_fin32 s (n * 2 ^ t) e')"
        using up low by (intro mk_fin32_ok) (auto simp: e'_def)
      then show ?thesis
        using False True unfolding Fin float32.simps l_def [symmetric] e'_def [symmetric]
        by (simp add: Let_def t_def)
    next
      case False': False
      define d where "d = nat (e' - e)"
      have d: "e' = e + int d" using False' by (simp add: d_def)
      have "l \<le> d + 24" using d by (auto simp: e'_def)
      then have "(2::nat) ^ l \<le> 2 ^ (d + 24)" by (intro power_increasing) auto
      with l(2) have "n < 2 ^ (d + 24)" by (rule less_le_trans)
      then have up: "shift_round n d \<le> 2 ^ 24" by (rule shift_round_le)
      have low: "e' = -149" if "shift_round n d < 2 ^ 23"
      proof (rule ccontr)
        assume "e' \<noteq> -149"
        then have "e' = e + int l - 24" by (auto simp: e'_def)
        then have "l - 1 = d + 23" using d by auto
        then have "2 ^ 23 \<le> shift_round n d" using l(1) by (intro shift_round_ge) simp
        then show False using that by simp
      qed
      have "f32_ok (mk_fin32 s (shift_round n d) e')"
        using up low by (intro mk_fin32_ok) (auto simp: e'_def)
      then show ?thesis
        using False False' unfolding Fin float32.simps l_def [symmetric] e'_def [symmetric]
        by (simp add: Let_def d_def)
    qed
  qed (simp add: Fin f32_ok_def)
qed (simp_all add: f32_ok_def)

lemma float64_ok: "f64_ok (float64 f)"
  by (cases f) simp_all

end
