(* ===== verification/Typed_Arrays.thy ===== *)
theory Typed_Arrays
  imports Byte_Memory
begin

text \<open>
  Typed arrays, array buffers and data views (\<open>typedarrays.go\<close>,
  \<open>builtin_typedarrays.go\<close>). The eleven element types implement one Go interface,
  \<open>typedArray\<close>; here it is a record of operations on the bytes of the buffer, and each
  element type is a value of that record. An operation that dereferences an unsafe pointer
  outside the buffer has the result \<open>MemFault\<close>.
\<close>

section \<open>The interface \<open>typedArray\<close>\<close>

record typedArray =
  ta_toRaw :: "host \<Rightarrow> jsval \<Rightarrow> go_error + nat"
  ta_get :: "bytes \<Rightarrow> int \<Rightarrow> go_error + jsval"
  ta_set :: "host \<Rightarrow> bytes \<Rightarrow> int \<Rightarrow> jsval \<Rightarrow> go_error + bytes"
  ta_getRaw :: "bytes \<Rightarrow> int \<Rightarrow> go_error + nat"
  ta_setRaw :: "bytes \<Rightarrow> int \<Rightarrow> nat \<Rightarrow> go_error + bytes"
  ta_less :: "bytes \<Rightarrow> int \<Rightarrow> int \<Rightarrow> go_error + bool"
  ta_swap :: "bytes \<Rightarrow> int \<Rightarrow> int \<Rightarrow> go_error + bytes"
  ta_typeMatch :: "jsval \<Rightarrow> bool"

text \<open>Go's conversion of a signed integer to \<open>uint64\<close>.\<close>

definition uint64 :: "int \<Rightarrow> nat" where
  "uint64 i = nat (wrap_unsigned 64 i)"

text \<open>
  The seven integer element types differ in the size, the conversion of a value, the type
  the bytes are read as, and the range of \<open>typeMatch\<close>; the eight methods are otherwise
  the same text. A store truncates to the size.
\<close>

definition intArray :: "nat \<Rightarrow> (host \<Rightarrow> jsval \<Rightarrow> go_error + int) \<Rightarrow> (nat \<Rightarrow> int) \<Rightarrow> int \<Rightarrow> int \<Rightarrow> typedArray" where
  "intArray n toT rd lo hi =
     \<lparr>ta_toRaw = \<lambda>h v. mapR uint64 (toT h v),
      ta_get = \<lambda>d idx. mapR (\<lambda>x. intToValue (rd x)) (ld n d (idx * int n)),
      ta_set = \<lambda>h d idx v. bindR (toT h v) (\<lambda>i. st n d (idx * int n) (uint64 i)),
      ta_getRaw = \<lambda>d idx. mapR (\<lambda>x. uint64 (rd x)) (ld n d (idx * int n)),
      ta_setRaw = \<lambda>d idx raw. st n d (idx * int n) raw,
      ta_less = \<lambda>d i j. bindR (ld n d (i * int n)) (\<lambda>x. mapR (\<lambda>y. rd x < rd y) (ld n d (j * int n))),
      ta_swap = \<lambda>d i j. swap_mem n d (i * int n) (j * int n),
      ta_typeMatch = \<lambda>v. case v of VInt i \<Rightarrow> lo \<le> i \<and> i \<le> hi | _ \<Rightarrow> False\<rparr>"

definition uint8Array :: typedArray where
  "uint8Array = intArray 1 toUint8 int 0 255"

definition uint8ClampedArray :: typedArray where
  "uint8ClampedArray = intArray 1 toUint8Clamp int 0 255"

definition int8Array :: typedArray where
  "int8Array = intArray 1 toInt8 (to_signed 1) (- 128) 127"

definition uint16Array :: typedArray where
  "uint16Array = intArray 2 toUint16 int 0 65535"

definition int16Array :: typedArray where
  "int16Array = intArray 2 toInt16 (to_signed 2) (- 32768) 32767"

definition uint32Array :: typedArray where
  "uint32Array = intArray 4 toUint32 int 0 4294967295"

definition int32Array :: typedArray where
  "int32Array = intArray 4 toInt32 (to_signed 4) (- 2147483648) 2147483647"

text \<open>
  The order of \<open>sort\<close> on floats: NaN last, \<open>-0\<close> before \<open>+0\<close>.
\<close>

definition typedFloatLess :: "f64 \<Rightarrow> f64 \<Rightarrow> bool" where
  "typedFloatLess x y =
     (if f_isNaN y then \<not> f_isNaN x
      else if f_isNaN x then False
      else if f_isZero x \<and> f_isZero y then f_signbit x
      else f_lt x y)"

text \<open>
  \<open>setRaw\<close> of the float types stores \<open>Float32frombits(v)\<close>, which has the bits of \<open>v\<close>
  (the payload of a NaN included), and \<open>getRaw\<close> gives the bits back.
\<close>

definition float32_at :: "nat \<Rightarrow> f64" where
  "float32_at x = float64 (Float32frombits x)"

definition toFloat32 :: "host \<Rightarrow> jsval \<Rightarrow> go_error + f32" where
  "toFloat32 h v = mapR float32 (ToFloat h v)"

definition float32Array :: typedArray where
  "float32Array =
     \<lparr>ta_toRaw = \<lambda>h v. mapR Float32bits (toFloat32 h v),
      ta_get = \<lambda>d idx. mapR (\<lambda>x. floatToValue (float32_at x)) (ld 4 d (idx * 4)),
      ta_set = \<lambda>h d idx v. bindR (toFloat32 h v) (\<lambda>f. st 4 d (idx * 4) (Float32bits f)),
      ta_getRaw = \<lambda>d idx. ld 4 d (idx * 4),
      ta_setRaw = \<lambda>d idx raw. st 4 d (idx * 4) raw,
      ta_less = \<lambda>d i j. bindR (ld 4 d (i * 4)) (\<lambda>x.
        mapR (\<lambda>y. typedFloatLess (float32_at x) (float32_at y)) (ld 4 d (j * 4))),
      ta_swap = \<lambda>d i j. swap_mem 4 d (i * 4) (j * 4),
      ta_typeMatch = is_number\<rparr>"

definition float64Array :: typedArray where
  "float64Array =
     \<lparr>ta_toRaw = \<lambda>h v. mapR Float64bits (ToFloat h v),
      ta_get = \<lambda>d idx. mapR (\<lambda>x. floatToValue (Float64frombits x)) (ld 8 d (idx * 8)),
      ta_set = \<lambda>h d idx v. bindR (ToFloat h v) (\<lambda>f. st 8 d (idx * 8) (Float64bits f)),
      ta_getRaw = \<lambda>d idx. ld 8 d (idx * 8),
      ta_setRaw = \<lambda>d idx raw. st 8 d (idx * 8) raw,
      ta_less = \<lambda>d i j. bindR (ld 8 d (i * 8)) (\<lambda>x.
        mapR (\<lambda>y. typedFloatLess (Float64frombits x) (Float64frombits y)) (ld 8 d (j * 8))),
      ta_swap = \<lambda>d i j. swap_mem 8 d (i * 8) (j * 8),
      ta_typeMatch = is_number\<rparr>"

text \<open>\<open>toBigInt\<close> of \<open>builtin_bigint.go\<close>; an object goes through \<open>toPrimitiveNumber\<close>.\<close>

fun toBigInt_prim :: "host \<Rightarrow> jsval \<Rightarrow> go_error + int" where
  "toBigInt_prim h (VBigInt i) = Inr i"
| "toBigInt_prim h (VString s) =
     (case stringToBigInt h (toTrimmedUTF8 s) of Some i \<Rightarrow> Inr i | None \<Rightarrow> Inl SyntaxErr)"
| "toBigInt_prim h (VBool b) = Inr (if b then 1 else 0)"
| "toBigInt_prim h _ = Inl TypeErr"

definition toBigInt :: "host \<Rightarrow> jsval \<Rightarrow> go_error + int" where
  "toBigInt h v =
     (case v of VObject x \<Rightarrow> bindR (toPrimitiveNumber h x) (toBigInt_prim h) | _ \<Rightarrow> toBigInt_prim h v)"

definition toBigInt64 :: "host \<Rightarrow> jsval \<Rightarrow> go_error + int" where
  "toBigInt64 h v =
     mapR (\<lambda>n. let int64bit = n mod 2 ^ 64 in if 2 ^ 63 \<le> int64bit then int64bit - 2 ^ 64 else int64bit)
       (toBigInt h v)"

definition toBigUint64 :: "host \<Rightarrow> jsval \<Rightarrow> go_error + int" where
  "toBigUint64 h v = mapR (\<lambda>n. n mod 2 ^ 64) (toBigInt h v)"

text \<open>
  \<open>big.Int.Int64\<close> and \<open>big.Int.Uint64\<close>: the low 64 bits of the absolute value, negated by
  the former when the number is negative. (Their documentation leaves the result undefined
  when the number does not fit; this is what \<open>math/big\<close> computes.)
\<close>

definition big_Int64 :: "int \<Rightarrow> int" where
  "big_Int64 x =
     (let v = wrap_signed 64 (\<bar>x\<bar> mod 2 ^ 64) in if x < 0 then wrap_signed 64 (- v) else v)"

definition big_Uint64 :: "int \<Rightarrow> nat" where
  "big_Uint64 x = nat (\<bar>x\<bar> mod 2 ^ 64)"

definition bigInt64Array :: typedArray where
  "bigInt64Array =
     \<lparr>ta_toRaw = \<lambda>h v. mapR big_Uint64 (toBigInt64 h v),
      ta_get = \<lambda>d idx. mapR (\<lambda>x. VBigInt (to_signed 8 x)) (ld 8 d (idx * 8)),
      ta_set = \<lambda>h d idx v. bindR (toBigInt64 h v) (\<lambda>n. st 8 d (idx * 8) (uint64 (big_Int64 n))),
      ta_getRaw = \<lambda>d idx. mapR (\<lambda>x. uint64 (to_signed 8 x)) (ld 8 d (idx * 8)),
      ta_setRaw = \<lambda>d idx raw. st 8 d (idx * 8) raw,
      ta_less = \<lambda>d i j. bindR (ld 8 d (i * 8)) (\<lambda>x. mapR (\<lambda>y. to_signed 8 x < to_signed 8 y) (ld 8 d (j * 8))),
      ta_swap = \<lambda>d i j. swap_mem 8 d (i * 8) (j * 8),
      ta_typeMatch = is_bigint\<rparr>"

definition bigUint64Array :: typedArray where
  "bigUint64Array =
     \<lparr>ta_toRaw = \<lambda>h v. mapR big_Uint64 (toBigUint64 h v),
      ta_get = \<lambda>d idx. mapR (\<lambda>x. VBigInt (int x)) (ld 8 d (idx * 8)),
      ta_set = \<lambda>h d idx v. bindR (toBigUint64 h v) (\<lambda>n. st 8 d (idx * 8) (big_Uint64 n)),
      ta_getRaw = \<lambda>d idx. ld 8 d (idx * 8),
      ta_setRaw = \<lambda>d idx raw. st 8 d (idx * 8) raw,
      ta_less = \<lambda>d i j. bindR (ld 8 d (i * 8)) (\<lambda>x. mapR (\<lambda>y. x < y) (ld 8 d (j * 8))),
      ta_swap = \<lambda>d i j. swap_mem 8 d (i * 8) (j * 8),
      ta_typeMatch = is_bigint\<rparr>"

text \<open>The dynamic type of a \<open>typedArray\<close> value, its methods and its element size.\<close>

datatype elemKind =
    Uint8 | Uint8Clamped | Int8 | Uint16 | Int16 | Uint32 | Int32 | Float32 | Float64
  | BigInt64 | BigUint64

fun methods :: "elemKind \<Rightarrow> typedArray" where
  "methods Uint8 = uint8Array"
| "methods Uint8Clamped = uint8ClampedArray"
| "methods Int8 = int8Array"
| "methods Uint16 = uint16Array"
| "methods Int16 = int16Array"
| "methods Uint32 = uint32Array"
| "methods Int32 = int32Array"
| "methods Float32 = float32Array"
| "methods Float64 = float64Array"
| "methods BigInt64 = bigInt64Array"
| "methods BigUint64 = bigUint64Array"

text \<open>The element size the constructors \<open>newUint8ArrayObject\<close>, \<dots> pass.\<close>

fun elem_size :: "elemKind \<Rightarrow> nat" where
  "elem_size Uint8 = 1"
| "elem_size Uint8Clamped = 1"
| "elem_size Int8 = 1"
| "elem_size Uint16 = 2"
| "elem_size Int16 = 2"
| "elem_size Uint32 = 4"
| "elem_size Int32 = 4"
| "elem_size Float32 = 4"
| "elem_size Float64 = 8"
| "elem_size BigInt64 = 8"
| "elem_size BigUint64 = 8"

fun is_big :: "elemKind \<Rightarrow> bool" where
  "is_big BigInt64 = True"
| "is_big BigUint64 = True"
| "is_big _ = False"

lemmas method_defs = uint8Array_def uint8ClampedArray_def int8Array_def uint16Array_def int16Array_def
  uint32Array_def int32Array_def float32Array_def float64Array_def bigInt64Array_def bigUint64Array_def
  intArray_def

lemma elem_size_bounds [simp]: "0 < elem_size k" "elem_size k \<le> 8" "elem_size k \<noteq> 0"
  by (cases k; simp)+

section \<open>Every element type is an array over the bytes\<close>

text \<open>What an element holds after a store of \<open>v\<close>: ECMAScript's \<open>SetValueInBuffer\<close> then
  \<open>GetValueFromBuffer\<close>.\<close>

fun elem_value :: "elemKind \<Rightarrow> host \<Rightarrow> jsval \<Rightarrow> go_error + jsval" where
  "elem_value Uint8 h v = mapR VInt (toUint8 h v)"
| "elem_value Uint8Clamped h v = mapR VInt (toUint8Clamp h v)"
| "elem_value Int8 h v = mapR VInt (toInt8 h v)"
| "elem_value Uint16 h v = mapR VInt (toUint16 h v)"
| "elem_value Int16 h v = mapR VInt (toInt16 h v)"
| "elem_value Uint32 h v = mapR VInt (toUint32 h v)"
| "elem_value Int32 h v = mapR VInt (toInt32 h v)"
| "elem_value Float32 h v = mapR (\<lambda>f. floatToValue (float64 (float32 f))) (ToFloat h v)"
| "elem_value Float64 h v = mapR floatToValue (ToFloat h v)"
| "elem_value BigInt64 h v = mapR (\<lambda>i. VBigInt (wrap_signed 64 i)) (toBigInt h v)"
| "elem_value BigUint64 h v = mapR (\<lambda>i. VBigInt (wrap_unsigned 64 i)) (toBigInt h v)"

text \<open>The raw bytes a store writes, and the value bytes are read as.\<close>

fun encode :: "elemKind \<Rightarrow> host \<Rightarrow> jsval \<Rightarrow> go_error + nat" where
  "encode Uint8 h v = mapR uint64 (toUint8 h v)"
| "encode Uint8Clamped h v = mapR uint64 (toUint8Clamp h v)"
| "encode Int8 h v = mapR uint64 (toInt8 h v)"
| "encode Uint16 h v = mapR uint64 (toUint16 h v)"
| "encode Int16 h v = mapR uint64 (toInt16 h v)"
| "encode Uint32 h v = mapR uint64 (toUint32 h v)"
| "encode Int32 h v = mapR uint64 (toInt32 h v)"
| "encode Float32 h v = mapR Float32bits (toFloat32 h v)"
| "encode Float64 h v = mapR Float64bits (ToFloat h v)"
| "encode BigInt64 h v = mapR (\<lambda>n. uint64 (big_Int64 n)) (toBigInt64 h v)"
| "encode BigUint64 h v = mapR big_Uint64 (toBigUint64 h v)"

fun decode :: "elemKind \<Rightarrow> nat \<Rightarrow> jsval" where
  "decode Uint8 x = intToValue (int x)"
| "decode Uint8Clamped x = intToValue (int x)"
| "decode Int8 x = intToValue (to_signed 1 x)"
| "decode Uint16 x = intToValue (int x)"
| "decode Int16 x = intToValue (to_signed 2 x)"
| "decode Uint32 x = intToValue (int x)"
| "decode Int32 x = intToValue (to_signed 4 x)"
| "decode Float32 x = floatToValue (float32_at x)"
| "decode Float64 x = floatToValue (Float64frombits x)"
| "decode BigInt64 x = VBigInt (to_signed 8 x)"
| "decode BigUint64 x = VBigInt (int x)"

lemma methods_get: "ta_get (methods k) d idx = mapR (decode k) (ld (elem_size k) d (idx * int (elem_size k)))"
  by (cases k; cases "ld (elem_size k) d (idx * int (elem_size k))") (simp_all add: method_defs)

lemma mapR_bindR: "bindR (mapR g r) f = bindR r (\<lambda>x. f (g x))"
  by (cases r) auto

lemma methods_set:
  "ta_set (methods k) h d idx v = bindR (encode k h v) (st (elem_size k) d (idx * int (elem_size k)))"
  by (cases k) (simp_all add: method_defs mapR_bindR)

lemma methods_setRaw: "ta_setRaw (methods k) d idx raw = st (elem_size k) d (idx * int (elem_size k)) raw"
  by (cases k) (simp_all add: method_defs)

lemma methods_swap:
  "ta_swap (methods k) d i j = swap_mem (elem_size k) d (i * int (elem_size k)) (j * int (elem_size k))"
  by (cases k) (simp_all add: method_defs)
lemma num_to_int_signed: "0 < w \<Longrightarrow> - (2 ^ (w - 1)) \<le> num_to_int (wrap_signed w) v \<and> num_to_int (wrap_signed w) v < 2 ^ (w - 1)"
  using wrap_signed_range [of w] by (auto simp: num_to_int_def split: jsval.split)

lemma num_to_int_unsigned: "0 \<le> num_to_int (wrap_unsigned w) v \<and> num_to_int (wrap_unsigned w) v < 2 ^ w"
  using wrap_unsigned_range [of w] by (auto simp: num_to_int_def split: jsval.split)

lemma mapR_range: "mapR f r = Inr i \<Longrightarrow> (\<And>x. P (f x)) \<Longrightarrow> P i"
  by (cases r) auto

lemma toInt_ranges:
  "toUint8 h v = Inr i \<Longrightarrow> 0 \<le> i \<and> i < 2 ^ (8 * 1)"
  "toUint16 h v = Inr i \<Longrightarrow> 0 \<le> i \<and> i < 2 ^ (8 * 2)"
  "toUint32 h v = Inr i \<Longrightarrow> 0 \<le> i \<and> i < 2 ^ (8 * 4)"
  "toInt8 h v = Inr i \<Longrightarrow> - (2 ^ (8 * 1 - 1)) \<le> i \<and> i < 2 ^ (8 * 1 - 1)"
  "toInt16 h v = Inr i \<Longrightarrow> - (2 ^ (8 * 2 - 1)) \<le> i \<and> i < 2 ^ (8 * 2 - 1)"
  "toInt32 h v = Inr i \<Longrightarrow> - (2 ^ (8 * 4 - 1)) \<le> i \<and> i < 2 ^ (8 * 4 - 1)"
  unfolding toUint8_def toUint16_def toUint32_def toInt8_def toInt16_def toInt32_def
  by (erule mapR_range, use num_to_int_unsigned [of 8] num_to_int_unsigned [of 16]
      num_to_int_unsigned [of 32] num_to_int_signed [of 8] num_to_int_signed [of 16]
      num_to_int_signed [of 32] in simp)+

lemma Clamp_range: "toUint8Clamp h v = Inr i \<Longrightarrow> 0 \<le> i \<and> i < 2 ^ 8"
  using wrap_unsigned_range [of 8]
  by (cases "ToNumber h v") (auto simp: toUint8Clamp_def Let_def split: jsval.splits)

lemma decode_unsigned:
  assumes "n \<le> 6" "0 \<le> i" "i < 2 ^ (8 * n)"
  shows "intToValue (int (uint64 i mod 256 ^ n)) = VInt i"
proof -
  have p: "(256::int) ^ n = 2 ^ (8 * n)" by (simp add: power_mult)
  have "(2::int) ^ (8 * n) \<le> 2 ^ 48" using assms(1) by (intro power_increasing) auto
  then have "i < 2 ^ 48" using assms(3) by linarith
  then have "wrap_unsigned 64 i = i" "\<bar>i\<bar> \<le> maxInt" using assms(2) by (simp_all add: wrap_unsigned_def maxInt_def)
  moreover have "i mod 256 ^ n = i" using assms p by simp
  ultimately show ?thesis using assms(2) by (simp add: uint64_def zmod_int)
qed

lemma decode_signed:
  assumes "0 < n" "n \<le> 6" "- (2 ^ (8 * n - 1)) \<le> i" "i < 2 ^ (8 * n - 1)"
  shows "intToValue (to_signed n (uint64 i mod 256 ^ n)) = VInt i"
proof -
  have "(2::int) ^ (8 * n - 1) \<le> 2 ^ 47" using assms(2) by (intro power_increasing) auto
  then have "\<bar>i\<bar> \<le> maxInt" using assms(3,4) by (simp add: maxInt_def abs_le_iff)
  moreover have "wrap_signed (8 * n) i = i" using assms by (intro wrap_signed_id) auto
  moreover have "to_signed n (uint64 i mod 256 ^ n) = wrap_signed (8 * n) i"
    unfolding uint64_def using assms(1,2) by (intro to_signed_store) auto
  ultimately show ?thesis by simp
qed

lemma big_Int64_id:
  assumes "- (2 ^ 63) \<le> i" "i < 2 ^ 63"
  shows "big_Int64 i = i"
proof (cases "i = - (2 ^ 63)")
  case True
  then show ?thesis by (simp add: big_Int64_def wrap_signed_def)
next
  case False
  then have "\<bar>i\<bar> < 2 ^ 63" using assms by (auto simp: abs_less_iff)
  then have "wrap_signed 64 (\<bar>i\<bar> mod 2 ^ 64) = \<bar>i\<bar>" "wrap_signed 64 i = i"
    by (simp_all add: wrap_signed_def abs_less_iff)
  then show ?thesis by (simp add: big_Int64_def Let_def)
qed

lemma toBigInt64_wrap: "toBigInt64 h v = mapR (wrap_signed 64) (toBigInt h v)"
proof -
  have "(let b = n mod 2 ^ 64 in if 2 ^ 63 \<le> b then b - 2 ^ 64 else b) = wrap_signed 64 n" for n :: int
  proof -
    define q b where "q = n div 2 ^ 64" and "b = n mod 2 ^ 64"
    have n: "n = q * 2 ^ 64 + b" "0 \<le> b" "b < 2 ^ 64"
      unfolding q_def b_def by (simp_all only: div_mult_mod_eq) simp_all
    have "(n + 2 ^ 63) mod 2 ^ 64 = (b + 2 ^ 63) mod 2 ^ 64"
      unfolding b_def by (rule mod_add_left_eq [symmetric])
    also have "\<dots> = (if 2 ^ 63 \<le> b then b - 2 ^ 63 else b + 2 ^ 63)"
    proof (cases "2 ^ 63 \<le> b")
      case True
      have "(b + 2 ^ 63) mod 2 ^ 64 = (b - 2 ^ 63 + 1 * 2 ^ 64) mod 2 ^ 64"
        by (simp add: add.commute)
      also have "\<dots> = (b - 2 ^ 63) mod 2 ^ 64" by (rule mod_mult_self1)
      finally show ?thesis using True n by simp
    qed (use n in simp)
    finally have "wrap_signed 64 n = (if 2 ^ 63 \<le> b then b - 2 ^ 63 else b + 2 ^ 63) - 2 ^ 63"
      by (simp add: wrap_signed_def)
    then show ?thesis unfolding Let_def b_def [symmetric] by simp
  qed
  then show ?thesis by (simp add: toBigInt64_def)
qed

lemma encode_decode:
  assumes "encode k h v = Inr x" and "\<And>f. ToFloat h v = Inr f \<Longrightarrow> f64_ok f"
  shows "elem_value k h v = Inr (decode k (x mod 256 ^ elem_size k))"
proof (cases k)
  case Uint8
  with assms(1) obtain i where i: "toUint8 h v = Inr i" "x = uint64 i"
    by (cases "toUint8 h v") auto
  note r = toInt_ranges(1) [OF i(1)]
  from i Uint8 show ?thesis using r decode_unsigned [of 1 i] by simp
next
  case Uint8Clamped
  with assms(1) obtain i where i: "toUint8Clamp h v = Inr i" "x = uint64 i"
    by (cases "toUint8Clamp h v") auto
  with Clamp_range [OF i(1)] Uint8Clamped show ?thesis using decode_unsigned [of 1 i] by simp
next
  case Int8
  with assms(1) obtain i where i: "toInt8 h v = Inr i" "x = uint64 i"
    by (cases "toInt8 h v") auto
  note r = toInt_ranges(4) [OF i(1)]
  from i Int8 show ?thesis using r decode_signed [of 1 i] by simp
next
  case Uint16
  with assms(1) obtain i where i: "toUint16 h v = Inr i" "x = uint64 i"
    by (cases "toUint16 h v") auto
  note r = toInt_ranges(2) [OF i(1)]
  from i Uint16 show ?thesis using r decode_unsigned [of 2 i] by simp
next
  case Int16
  with assms(1) obtain i where i: "toInt16 h v = Inr i" "x = uint64 i"
    by (cases "toInt16 h v") auto
  note r = toInt_ranges(5) [OF i(1)]
  from i Int16 show ?thesis using r decode_signed [of 2 i] by simp
next
  case Uint32
  with assms(1) obtain i where i: "toUint32 h v = Inr i" "x = uint64 i"
    by (cases "toUint32 h v") auto
  note r = toInt_ranges(3) [OF i(1)]
  from i Uint32 show ?thesis using r decode_unsigned [of 4 i] by simp
next
  case Int32
  with assms(1) obtain i where i: "toInt32 h v = Inr i" "x = uint64 i"
    by (cases "toInt32 h v") auto
  note r = toInt_ranges(6) [OF i(1)]
  from i Int32 show ?thesis using r decode_signed [of 4 i] by simp
next
  case Float32
  with assms(1) obtain f where f: "ToFloat h v = Inr f" "x = Float32bits (float32 f)"
    by (cases "ToFloat h v") (auto simp: toFloat32_def)
  have "x mod 256 ^ 4 = x" "Float32frombits x = float32 f"
    using Float32frombits_bits [OF float32_ok, of f] f(2) by simp_all
  with f Float32 show ?thesis by (simp add: float32_at_def)
next
  case Float64
  with assms(1) obtain f where f: "ToFloat h v = Inr f" "x = Float64bits f"
    by (cases "ToFloat h v") auto
  have "x mod 256 ^ 8 = x" "Float64frombits x = f"
    using Float64frombits_bits [OF assms(2) [OF f(1)]] f(2) by simp_all
  with f Float64 show ?thesis by simp
next
  case BigInt64
  with assms(1) obtain i where i: "toBigInt h v = Inr i" "x = uint64 (big_Int64 (wrap_signed 64 i))"
    by (cases "toBigInt h v") (auto simp: toBigInt64_wrap)
  have r: "- (2 ^ 63) \<le> wrap_signed 64 i" "wrap_signed 64 i < 2 ^ 63"
    using wrap_signed_range [of 64 i] by simp_all
  then have "to_signed 8 (x mod 256 ^ 8) = wrap_signed 64 (wrap_signed 64 i)"
    unfolding i(2) big_Int64_id [OF r] uint64_def using to_signed_store [of 8 "wrap_signed 64 i"] by simp
  also have "\<dots> = wrap_signed 64 i" using r by (intro wrap_signed_id) auto
  finally show ?thesis using BigInt64 i by simp
next
  case BigUint64
  with assms(1) obtain i where i: "toBigInt h v = Inr i" "x = nat (i mod 2 ^ 64)"
    by (cases "toBigInt h v") (auto simp: toBigUint64_def big_Uint64_def)
  then have "int (x mod 256 ^ 8) = i mod 2 ^ 64" by (simp add: zmod_int)
  with BigUint64 i show ?thesis by (simp add: wrap_unsigned_def)
qed

text \<open>An element of a typed array, as a place in the bytes.\<close>

definition elem_inside :: "elemKind \<Rightarrow> bytes \<Rightarrow> int \<Rightarrow> bool" where
  "elem_inside k d idx \<longleftrightarrow> 0 \<le> idx \<and> (idx + 1) * int (elem_size k) \<le> int (length d)"

lemma elem_inside_iff: "elem_inside k d idx \<longleftrightarrow> inside (elem_size k) d (idx * int (elem_size k))"
  by (auto simp: elem_inside_def inside_def algebra_simps zero_le_mult_iff)

lemma elem_disjoint:
  assumes "i \<noteq> (j :: int)"
  shows "i * int n + int n \<le> j * int n \<or> j * int n + int n \<le> i * int n"
proof -
  consider "i + 1 \<le> j" | "j + 1 \<le> i" using assms by linarith
  then show ?thesis
  proof cases
    case 1
    then have "(i + 1) * int n \<le> j * int n" by (intro mult_right_mono) auto
    then show ?thesis by (simp add: distrib_right)
  next
    case 2
    then have "(j + 1) * int n \<le> i * int n" by (intro mult_right_mono) auto
    then show ?thesis by (simp add: distrib_right)
  qed
qed

lemma elem_value_encode: "elem_value k h v = Inr y \<Longrightarrow> \<exists>x. encode k h v = Inr x"
  by (cases k) (auto simp: mapR_def toFloat32_def toBigInt64_def toBigUint64_def split: sum.splits)

lemma set_get:
  assumes "elem_inside k d i" "elem_value k h v = Inr x" "\<And>f. ToFloat h v = Inr f \<Longrightarrow> f64_ok f"
  shows "\<exists>d'. ta_set (methods k) h d i v = Inr d' \<and> length d' = length d
      \<and> ta_get (methods k) d' i = Inr x
      \<and> (\<forall>l. l \<noteq> i \<longrightarrow> ta_get (methods k) d' l = ta_get (methods k) d l)"
proof -
  let ?n = "elem_size k" and ?i = "i * int (elem_size k)"
  have ij: "inside ?n d ?i" using assms(1) by (simp add: elem_inside_iff)
  obtain y where y: "encode k h v = Inr y" using elem_value_encode [OF assms(2)] by blast
  have x: "x = decode k (y mod 256 ^ ?n)" using encode_decode [OF y assms(3)] assms(2) by simp
  obtain d' where d': "st ?n d ?i y = Inr d'" "length d' = length d" using st_ok [OF ij] by blast
  have "ld ?n d' (l * int ?n) = ld ?n d (l * int ?n)" if "l \<noteq> i" for l
    using elem_disjoint [OF that] by (intro ld_st_other [OF d'(1)]) auto
  then show ?thesis
    using d' y ld_st_same [OF d'(1)] by (intro exI [of _ d']) (simp add: methods_set methods_get x)
qed

lemma swap_get:
  assumes "elem_inside k d i" "elem_inside k d j"
  shows "\<exists>d'. ta_swap (methods k) d i j = Inr d' \<and> length d' = length d
      \<and> ta_get (methods k) d' i = ta_get (methods k) d j \<and> ta_get (methods k) d' j = ta_get (methods k) d i"
proof -
  let ?n = "elem_size k" and ?i = "i * int (elem_size k)" and ?j = "j * int (elem_size k)"
  have ij: "inside ?n d ?i" "inside ?n d ?j" using assms by (simp_all add: elem_inside_iff)
  obtain d' where d': "swap_mem ?n d ?i ?j = Inr d'" "length d' = length d"
    using swap_mem_ok [OF ij] by blast
  have "?i = ?j \<or> ?i + int ?n \<le> ?j \<or> ?j + int ?n \<le> ?i"
    using elem_disjoint [of i j] by (cases "i = j") auto
  then show ?thesis
    using swap_mem_ld [OF d'(1)] d' by (intro exI [of _ d']) (simp add: methods_swap methods_get)
qed



text \<open>
  The raw form of a value, with which \<open>includes\<close> and \<open>indexOf\<close> compare and which \<open>fill\<close>
  stores, loses the sign of a negative BigInt: \<open>Uint64()\<close> is the low word of the absolute
  value.
\<close>

lemma bigInt64_raw_sign:
  "ta_toRaw bigInt64Array h (VBigInt (- 1)) = Inr 1"
  "bindR (ta_toRaw bigInt64Array h (VBigInt (- 1))) (\<lambda>raw. bindR (ta_setRaw bigInt64Array (replicate 8 0) 0 raw)
     (\<lambda>d. ta_get bigInt64Array d 0)) = Inr (VBigInt 1)"
  "bindR (ta_set bigInt64Array h (replicate 8 0) 0 (VBigInt (- 1))) (\<lambda>d. ta_get bigInt64Array d 0)
     = Inr (VBigInt (- 1))"
proof -
  show r: "ta_toRaw bigInt64Array h (VBigInt (- 1)) = Inr 1"
    by (simp add: bigInt64Array_def toBigInt64_wrap toBigInt_def wrap_signed_def big_Uint64_def)
  have one: "st 8 (replicate 8 0) 0 1 = Inr (le_bytes 8 1 @ [])" "ld 8 (le_bytes 8 1 @ []) 0 = Inr (1 mod 256 ^ 8)"
    unfolding le_nat_le_bytes [symmetric] by (simp_all add: st_def ld_def inside_def)
  show "bindR (ta_toRaw bigInt64Array h (VBigInt (- 1))) (\<lambda>raw. bindR (ta_setRaw bigInt64Array (replicate 8 0) 0 raw)
     (\<lambda>d. ta_get bigInt64Array d 0)) = Inr (VBigInt 1)"
    unfolding r using one by (simp add: bigInt64Array_def to_signed_def wrap_signed_def)
  have "elem_inside BigInt64 (replicate 8 0) 0" by (simp add: elem_inside_def)
  moreover have "elem_value BigInt64 h (VBigInt (- 1)) = Inr (VBigInt (- 1))"
    by (simp add: toBigInt_def wrap_signed_def)
  ultimately have "\<exists>d'. ta_set (methods BigInt64) h (replicate 8 0) 0 (VBigInt (- 1)) = Inr d'
      \<and> length d' = length (replicate 8 (0 :: 8 word)) \<and> ta_get (methods BigInt64) d' 0 = Inr (VBigInt (- 1))
      \<and> (\<forall>l. l \<noteq> 0 \<longrightarrow> ta_get (methods BigInt64) d' l = ta_get (methods BigInt64) (replicate 8 0) l)"
    by (rule set_get) simp
  then show "bindR (ta_set bigInt64Array h (replicate 8 0) 0 (VBigInt (- 1))) (\<lambda>d. ta_get bigInt64Array d 0)
     = Inr (VBigInt (- 1))" by auto
qed

end
