(* ===== verification/Data_Views.thy ===== *)
theory Data_Views
  imports Typed_Arrays
begin

text \<open>
  Array buffers and data views (\<open>typedarrays.go\<close>, the first part of
  \<open>builtin_typedarrays.go\<close>). The buffers of a program are a map from addresses; detaching
  one drops its bytes. \<open>get*\<close> and \<open>set*\<close> of \<open>arrayBufferObject\<close> check the index as
  Go does when it slices (\<open>GoPanic\<close>), except that a store in the native byte order checks the
  first byte only and writes the rest through an unsafe pointer (\<open>MemFault\<close> if outside).
\<close>

section \<open>Array buffers\<close>

record arrayBufferObject =
  ab_detached :: bool
  ab_data :: "bytes option"

type_synonym buffers = "nat \<Rightarrow> arrayBufferObject"

definition ab_bytes :: "arrayBufferObject \<Rightarrow> bytes" where
  "ab_bytes o' = (case ab_data o' of None \<Rightarrow> [] | Some d \<Rightarrow> d)"

definition ensureNotDetached :: "arrayBufferObject \<Rightarrow> bool \<Rightarrow> go_error + bool" where
  "ensureNotDetached o' throw = (if ab_detached o' then typeErrorResult throw False else Inr True)"

definition detach :: "arrayBufferObject \<Rightarrow> arrayBufferObject" where
  "detach o' = o'\<lparr>ab_data := None, ab_detached := True\<rparr>"

text \<open>The Go method \<open>ArrayBuffer.Detach\<close>.\<close>

definition ArrayBuffer_Detach :: "arrayBufferObject \<Rightarrow> arrayBufferObject \<times> bool" where
  "ArrayBuffer_Detach a = (if ab_detached a then (a, False) else (detach a, True))"

text \<open>A detached buffer has no bytes.\<close>

definition ab_ok :: "arrayBufferObject \<Rightarrow> bool" where
  "ab_ok o' \<longleftrightarrow> (ab_detached o' \<longrightarrow> ab_data o' = None)"

lemma ab_ok_detach: "ab_ok (detach o')" "ab_ok a \<Longrightarrow> ab_ok (fst (ArrayBuffer_Detach a))"
  by (auto simp: ab_ok_def detach_def ArrayBuffer_Detach_def)

lemma ensureNotDetached_iff [simp]:
  "ensureNotDetached o' throw = Inr True \<longleftrightarrow> \<not> ab_detached o'"
  "\<not> ab_detached o' \<Longrightarrow> ensureNotDetached o' throw = Inr True"
  "ab_detached o' \<Longrightarrow> ensureNotDetached o' True = Inl TypeErr"
  "ab_detached o' \<Longrightarrow> ensureNotDetached o' False = Inr False"
  by (auto simp: ensureNotDetached_def)

datatype byteOrder = bigEndian | littleEndian

definition nativeEndian :: byteOrder where
  "nativeEndian = littleEndian"

text \<open>Go's \<open>data[idx : idx+n]\<close>.\<close>

definition slice_at :: "nat \<Rightarrow> bytes \<Rightarrow> int \<Rightarrow> go_error + bytes" where
  "slice_at n d idx = (if inside n d idx then Inr (take n (drop (nat idx) d)) else Inl GoPanic)"

text \<open>
  The readers and writers of 2, 4 and 8 bytes have one body: in the native order the bytes
  are used as they are, else reversed.
\<close>

definition getUintN :: "nat \<Rightarrow> arrayBufferObject \<Rightarrow> int \<Rightarrow> byteOrder \<Rightarrow> go_error + nat" where
  "getUintN n o' idx bo =
     bindR (slice_at n (ab_bytes o') idx) (\<lambda>b. Inr (le_nat (if bo = nativeEndian then b else rev b)))"

definition with_data :: "arrayBufferObject \<Rightarrow> bytes \<Rightarrow> arrayBufferObject" where
  "with_data o' d = o'\<lparr>ab_data := map_option (\<lambda>_. d) (ab_data o')\<rparr>"

definition setUintN :: "nat \<Rightarrow> arrayBufferObject \<Rightarrow> int \<Rightarrow> nat \<Rightarrow> byteOrder \<Rightarrow> go_error + arrayBufferObject" where
  "setUintN n o' idx x bo =
     (let d = ab_bytes o' in
      if bo = nativeEndian then
        (if inside 1 d idx then mapR (with_data o') (st n d idx x) else Inl GoPanic)
      else
        bindR (slice_at n d idx) (\<lambda>_.
          Inr (with_data o' (take (nat idx) d @ rev (le_bytes n x) @ drop (nat idx + n) d))))"

definition getUint16 :: "arrayBufferObject \<Rightarrow> int \<Rightarrow> byteOrder \<Rightarrow> go_error + nat" where
  "getUint16 = getUintN 2"

definition setUint16 :: "arrayBufferObject \<Rightarrow> int \<Rightarrow> nat \<Rightarrow> byteOrder \<Rightarrow> go_error + arrayBufferObject" where
  "setUint16 = setUintN 2"

definition getUint32 :: "arrayBufferObject \<Rightarrow> int \<Rightarrow> byteOrder \<Rightarrow> go_error + nat" where
  "getUint32 = getUintN 4"

definition setUint32 :: "arrayBufferObject \<Rightarrow> int \<Rightarrow> nat \<Rightarrow> byteOrder \<Rightarrow> go_error + arrayBufferObject" where
  "setUint32 o' idx x bo = bindR (ensureNotDetached o' True) (\<lambda>_. setUintN 4 o' idx x bo)"

definition getUint64 :: "arrayBufferObject \<Rightarrow> int \<Rightarrow> byteOrder \<Rightarrow> go_error + nat" where
  "getUint64 = getUintN 8"

definition setUint64 :: "arrayBufferObject \<Rightarrow> int \<Rightarrow> nat \<Rightarrow> byteOrder \<Rightarrow> go_error + arrayBufferObject" where
  "setUint64 = setUintN 8"

definition getUint8 :: "arrayBufferObject \<Rightarrow> int \<Rightarrow> go_error + nat" where
  "getUint8 o' idx = mapR le_nat (slice_at 1 (ab_bytes o') idx)"

definition setUint8 :: "arrayBufferObject \<Rightarrow> int \<Rightarrow> nat \<Rightarrow> go_error + arrayBufferObject" where
  "setUint8 o' idx x =
     (let d = ab_bytes o' in if inside 1 d idx then mapR (with_data o') (st 1 d idx x) else Inl GoPanic)"

definition getFloat32 :: "arrayBufferObject \<Rightarrow> int \<Rightarrow> byteOrder \<Rightarrow> go_error + f32" where
  "getFloat32 o' idx bo = mapR Float32frombits (getUint32 o' idx bo)"

definition setFloat32 :: "arrayBufferObject \<Rightarrow> int \<Rightarrow> f32 \<Rightarrow> byteOrder \<Rightarrow> go_error + arrayBufferObject" where
  "setFloat32 o' idx f bo = setUint32 o' idx (Float32bits f) bo"

definition getFloat64 :: "arrayBufferObject \<Rightarrow> int \<Rightarrow> byteOrder \<Rightarrow> go_error + f64" where
  "getFloat64 o' idx bo = mapR Float64frombits (getUint64 o' idx bo)"

definition setFloat64 :: "arrayBufferObject \<Rightarrow> int \<Rightarrow> f64 \<Rightarrow> byteOrder \<Rightarrow> go_error + arrayBufferObject" where
  "setFloat64 o' idx f bo = setUint64 o' idx (Float64bits f) bo"

definition getBigInt64 :: "arrayBufferObject \<Rightarrow> int \<Rightarrow> byteOrder \<Rightarrow> go_error + int" where
  "getBigInt64 o' idx bo = mapR (to_signed 8) (getUintN 8 o' idx bo)"

definition getBigUint64 :: "arrayBufferObject \<Rightarrow> int \<Rightarrow> byteOrder \<Rightarrow> go_error + int" where
  "getBigUint64 o' idx bo = mapR int (getUintN 8 o' idx bo)"

definition setBigInt64 :: "arrayBufferObject \<Rightarrow> int \<Rightarrow> int \<Rightarrow> byteOrder \<Rightarrow> go_error + arrayBufferObject" where
  "setBigInt64 o' idx val bo = setUintN 8 o' idx (uint64 (big_Int64 val)) bo"

definition setBigUint64 :: "arrayBufferObject \<Rightarrow> int \<Rightarrow> int \<Rightarrow> byteOrder \<Rightarrow> go_error + arrayBufferObject" where
  "setBigUint64 o' idx val bo = setUintN 8 o' idx (big_Uint64 val) bo"

definition getInt32 :: "arrayBufferObject \<Rightarrow> int \<Rightarrow> byteOrder \<Rightarrow> go_error + int" where
  "getInt32 o' idx bo = mapR (to_signed 4) (getUint32 o' idx bo)"

definition setInt32 :: "arrayBufferObject \<Rightarrow> int \<Rightarrow> int \<Rightarrow> byteOrder \<Rightarrow> go_error + arrayBufferObject" where
  "setInt32 o' idx val bo = setUint32 o' idx (nat (wrap_unsigned 32 val)) bo"

definition getInt16 :: "arrayBufferObject \<Rightarrow> int \<Rightarrow> byteOrder \<Rightarrow> go_error + int" where
  "getInt16 o' idx bo = mapR (to_signed 2) (getUint16 o' idx bo)"

definition setInt16 :: "arrayBufferObject \<Rightarrow> int \<Rightarrow> int \<Rightarrow> byteOrder \<Rightarrow> go_error + arrayBufferObject" where
  "setInt16 o' idx val bo = setUint16 o' idx (nat (wrap_unsigned 16 val)) bo"

definition getInt8 :: "arrayBufferObject \<Rightarrow> int \<Rightarrow> go_error + int" where
  "getInt8 o' idx = mapR (\<lambda>b. to_signed 1 (le_nat b)) (slice_at 1 (ab_bytes o') idx)"

definition setInt8 :: "arrayBufferObject \<Rightarrow> int \<Rightarrow> int \<Rightarrow> go_error + arrayBufferObject" where
  "setInt8 o' idx val = setUint8 o' idx (nat (wrap_unsigned 8 val))"

section \<open>Data views\<close>

record dataViewObject =
  dv_buf :: nat
  dv_byteLen :: int
  dv_byteOffset :: int

definition getIdxAndByteOrder :: "buffers \<Rightarrow> dataViewObject \<Rightarrow> int \<Rightarrow> jsval option \<Rightarrow> nat
    \<Rightarrow> go_error + int \<times> byteOrder" where
  "getIdxAndByteOrder B o' getIdx littleEndianVal sz =
     bindR (ensureNotDetached (B (dv_buf o')) True) (\<lambda>_.
       if dv_byteLen o' < getIdx + int sz then Inl RangeErr
       else Inr (getIdx + dv_byteOffset o',
         case littleEndianVal of
           Some v \<Rightarrow> if ToBoolean v then littleEndian else bigEndian
         | None \<Rightarrow> nativeEndian))"

text \<open>\<open>call.Argument(i)\<close>.\<close>

definition Argument :: "jsval list \<Rightarrow> nat \<Rightarrow> jsval" where
  "Argument args i = (if i < length args then args ! i else VUndefined)"

text \<open>
  \<open>newDataView\<close>; \<open>proto\<close> is what \<open>getPrototypeFromCtor\<close> does to the buffers: it reads a
  property of \<open>new.target\<close>, which may run user code.
\<close>

definition newDataView :: "host \<Rightarrow> (buffers \<Rightarrow> (buffers, unit) outcome) \<Rightarrow> buffers \<Rightarrow> nat option
    \<Rightarrow> jsval list \<Rightarrow> bool \<Rightarrow> (buffers, dataViewObject) outcome" where
  "newDataView h proto B bufArg args newTarget =
     (if \<not> newTarget then (B, Inl TypeErr)
      else case bufArg of
        None \<Rightarrow> (B, Inl TypeErr)
      | Some b \<Rightarrow>
          let len = (\<lambda>B. int (length (ab_bytes (B b)))) in
          case (if 1 < length args then
                  bindR (toIndex h (args ! 1)) (\<lambda>off.
                    bindR (ensureNotDetached (B b) True) (\<lambda>_.
                      if len B < off then Inl RangeErr else Inr off))
                else Inr 0) of
            Inl e \<Rightarrow> (B, Inl e)
          | Inr byteOffset \<Rightarrow>
              (case (if 2 < length args \<and> args ! 2 \<noteq> VUndefined then
                       bindR (toIndex h (args ! 2)) (\<lambda>l.
                         if len B < byteOffset + l then Inl RangeErr else Inr l)
                     else Inr (len B - byteOffset)) of
                 Inl e \<Rightarrow> (B, Inl e)
               | Inr byteLen \<Rightarrow>
                   (case proto B of
                      (B', Inl e) \<Rightarrow> (B', Inl e)
                    | (B', Inr _) \<Rightarrow>
                        (B', bindR (ensureNotDetached (B' b) True) (\<lambda>_.
                           if len B' < byteOffset then Inl RangeErr
                           else if len B' < byteOffset + byteLen then Inl RangeErr
                           else Inr \<lparr>dv_buf = b, dv_byteLen = byteLen, dv_byteOffset = byteOffset\<rparr>)))))"

text \<open>A data view lies inside its buffer as long as that is attached.\<close>

definition dv_ok :: "buffers \<Rightarrow> dataViewObject \<Rightarrow> bool" where
  "dv_ok B dv \<longleftrightarrow> 0 \<le> dv_byteOffset dv \<and> 0 \<le> dv_byteLen dv \<and> ab_ok (B (dv_buf dv))
     \<and> (\<not> ab_detached (B (dv_buf dv)) \<longrightarrow>
          dv_byteOffset dv + dv_byteLen dv \<le> int (length (ab_bytes (B (dv_buf dv)))))"

text \<open>The accessors. A receiver that is no data view raises a TypeError.\<close>

definition dataViewProto_getByteLen :: "buffers \<Rightarrow> dataViewObject option \<Rightarrow> go_error + jsval" where
  "dataViewProto_getByteLen B this =
     (case this of None \<Rightarrow> Inl TypeErr
      | Some dv \<Rightarrow> bindR (ensureNotDetached (B (dv_buf dv)) True) (\<lambda>_. Inr (intToValue (dv_byteLen dv))))"

definition dataViewProto_getByteOffset :: "buffers \<Rightarrow> dataViewObject option \<Rightarrow> go_error + jsval" where
  "dataViewProto_getByteOffset B this =
     (case this of None \<Rightarrow> Inl TypeErr
      | Some dv \<Rightarrow> bindR (ensureNotDetached (B (dv_buf dv)) True) (\<lambda>_. Inr (intToValue (dv_byteOffset dv))))"

text \<open>The common part of the getters: convert the index, check it, read.\<close>

definition dv_read :: "host \<Rightarrow> buffers \<Rightarrow> dataViewObject option \<Rightarrow> jsval \<Rightarrow> jsval \<Rightarrow> nat
    \<Rightarrow> (arrayBufferObject \<Rightarrow> int \<Rightarrow> byteOrder \<Rightarrow> go_error + jsval) \<Rightarrow> go_error + jsval" where
  "dv_read h B this idxArg le sz rd =
     (case this of None \<Rightarrow> Inl TypeErr
      | Some dv \<Rightarrow>
          bindR (toIndex h idxArg) (\<lambda>i.
            bindR (getIdxAndByteOrder B dv i (Some le) sz) (\<lambda>(idx, bo). rd (B (dv_buf dv)) idx bo)))"

definition dataViewProto_getFloat32 :: "host \<Rightarrow> buffers \<Rightarrow> dataViewObject option \<Rightarrow> jsval list \<Rightarrow> go_error + jsval" where
  "dataViewProto_getFloat32 h B this args =
     dv_read h B this (Argument args 0) (Argument args 1) 4
       (\<lambda>o' idx bo. mapR (\<lambda>f. floatToValue (float64 f)) (getFloat32 o' idx bo))"

definition dataViewProto_getFloat64 :: "host \<Rightarrow> buffers \<Rightarrow> dataViewObject option \<Rightarrow> jsval list \<Rightarrow> go_error + jsval" where
  "dataViewProto_getFloat64 h B this args =
     dv_read h B this (Argument args 0) (Argument args 1) 8
       (\<lambda>o' idx bo. mapR floatToValue (getFloat64 o' idx bo))"

definition dataViewProto_getInt8 :: "host \<Rightarrow> buffers \<Rightarrow> dataViewObject option \<Rightarrow> jsval list \<Rightarrow> go_error + jsval" where
  "dataViewProto_getInt8 h B this args =
     dv_read h B this (Argument args 0) (Argument args 1) 1
       (\<lambda>o' idx _. mapR intToValue (getInt8 o' idx))"

definition dataViewProto_getInt16 :: "host \<Rightarrow> buffers \<Rightarrow> dataViewObject option \<Rightarrow> jsval list \<Rightarrow> go_error + jsval" where
  "dataViewProto_getInt16 h B this args =
     dv_read h B this (Argument args 0) (Argument args 1) 2
       (\<lambda>o' idx bo. mapR intToValue (getInt16 o' idx bo))"

definition dataViewProto_getInt32 :: "host \<Rightarrow> buffers \<Rightarrow> dataViewObject option \<Rightarrow> jsval list \<Rightarrow> go_error + jsval" where
  "dataViewProto_getInt32 h B this args =
     dv_read h B this (Argument args 0) (Argument args 1) 4
       (\<lambda>o' idx bo. mapR intToValue (getInt32 o' idx bo))"

definition dataViewProto_getUint8 :: "host \<Rightarrow> buffers \<Rightarrow> dataViewObject option \<Rightarrow> jsval list \<Rightarrow> go_error + jsval" where
  "dataViewProto_getUint8 h B this args =
     dv_read h B this (Argument args 0) (Argument args 1) 1
       (\<lambda>o' idx _. mapR (\<lambda>x. intToValue (int x)) (getUint8 o' idx))"

definition dataViewProto_getUint16 :: "host \<Rightarrow> buffers \<Rightarrow> dataViewObject option \<Rightarrow> jsval list \<Rightarrow> go_error + jsval" where
  "dataViewProto_getUint16 h B this args =
     dv_read h B this (Argument args 0) (Argument args 1) 2
       (\<lambda>o' idx bo. mapR (\<lambda>x. intToValue (int x)) (getUint16 o' idx bo))"

definition dataViewProto_getUint32 :: "host \<Rightarrow> buffers \<Rightarrow> dataViewObject option \<Rightarrow> jsval list \<Rightarrow> go_error + jsval" where
  "dataViewProto_getUint32 h B this args =
     dv_read h B this (Argument args 0) (Argument args 1) 4
       (\<lambda>o' idx bo. mapR (\<lambda>x. intToValue (int x)) (getUint32 o' idx bo))"

text \<open>The two BigInt getters convert the index with \<open>ToNumber\<close> first.\<close>

definition dataViewProto_getBigInt64 :: "host \<Rightarrow> buffers \<Rightarrow> dataViewObject option \<Rightarrow> jsval list \<Rightarrow> go_error + jsval" where
  "dataViewProto_getBigInt64 h B this args =
     (case this of None \<Rightarrow> Inl TypeErr
      | Some _ \<Rightarrow> bindR (ToNumber h (Argument args 0)) (\<lambda>n.
          dv_read h B this n (Argument args 1) 8 (\<lambda>o' idx bo. mapR VBigInt (getBigInt64 o' idx bo))))"

definition dataViewProto_getBigUint64 :: "host \<Rightarrow> buffers \<Rightarrow> dataViewObject option \<Rightarrow> jsval list \<Rightarrow> go_error + jsval" where
  "dataViewProto_getBigUint64 h B this args =
     (case this of None \<Rightarrow> Inl TypeErr
      | Some _ \<Rightarrow> bindR (ToNumber h (Argument args 0)) (\<lambda>n.
          dv_read h B this n (Argument args 1) 8 (\<lambda>o' idx bo. mapR VBigInt (getBigUint64 o' idx bo))))"

text \<open>The setters: index, value, check, then the store.\<close>

definition dv_write :: "host \<Rightarrow> buffers \<Rightarrow> dataViewObject option \<Rightarrow> jsval list \<Rightarrow> nat
    \<Rightarrow> (jsval \<Rightarrow> go_error + 'a) \<Rightarrow> (arrayBufferObject \<Rightarrow> int \<Rightarrow> 'a \<Rightarrow> byteOrder \<Rightarrow> go_error + arrayBufferObject)
    \<Rightarrow> go_error + buffers" where
  "dv_write h B this args sz conv wr =
     (case this of None \<Rightarrow> Inl TypeErr
      | Some dv \<Rightarrow>
          bindR (toIndex h (Argument args 0)) (\<lambda>idxVal.
            bindR (conv (Argument args 1)) (\<lambda>val.
              bindR (getIdxAndByteOrder B dv idxVal (Some (Argument args 2)) sz) (\<lambda>(idx, bo).
                bindR (wr (B (dv_buf dv)) idx val bo) (\<lambda>o'. Inr (B(dv_buf dv := o')))))))"

definition dataViewProto_setFloat32 :: "host \<Rightarrow> buffers \<Rightarrow> dataViewObject option \<Rightarrow> jsval list \<Rightarrow> go_error + buffers" where
  "dataViewProto_setFloat32 h B this args = dv_write h B this args 4 (toFloat32 h) setFloat32"

definition dataViewProto_setFloat64 :: "host \<Rightarrow> buffers \<Rightarrow> dataViewObject option \<Rightarrow> jsval list \<Rightarrow> go_error + buffers" where
  "dataViewProto_setFloat64 h B this args = dv_write h B this args 8 (ToFloat h) setFloat64"

definition dataViewProto_setInt8 :: "host \<Rightarrow> buffers \<Rightarrow> dataViewObject option \<Rightarrow> jsval list \<Rightarrow> go_error + buffers" where
  "dataViewProto_setInt8 h B this args = dv_write h B this args 1 (toInt8 h) (\<lambda>o' idx v _. setInt8 o' idx v)"

definition dataViewProto_setInt16 :: "host \<Rightarrow> buffers \<Rightarrow> dataViewObject option \<Rightarrow> jsval list \<Rightarrow> go_error + buffers" where
  "dataViewProto_setInt16 h B this args = dv_write h B this args 2 (toInt16 h) setInt16"

definition dataViewProto_setInt32 :: "host \<Rightarrow> buffers \<Rightarrow> dataViewObject option \<Rightarrow> jsval list \<Rightarrow> go_error + buffers" where
  "dataViewProto_setInt32 h B this args = dv_write h B this args 4 (toInt32 h) setInt32"

definition dataViewProto_setUint8 :: "host \<Rightarrow> buffers \<Rightarrow> dataViewObject option \<Rightarrow> jsval list \<Rightarrow> go_error + buffers" where
  "dataViewProto_setUint8 h B this args =
     dv_write h B this args 1 (toUint8 h) (\<lambda>o' idx v _. setUint8 o' idx (nat v))"

definition dataViewProto_setUint16 :: "host \<Rightarrow> buffers \<Rightarrow> dataViewObject option \<Rightarrow> jsval list \<Rightarrow> go_error + buffers" where
  "dataViewProto_setUint16 h B this args =
     dv_write h B this args 2 (toUint16 h) (\<lambda>o' idx v bo. setUint16 o' idx (nat v) bo)"

definition dataViewProto_setUint32 :: "host \<Rightarrow> buffers \<Rightarrow> dataViewObject option \<Rightarrow> jsval list \<Rightarrow> go_error + buffers" where
  "dataViewProto_setUint32 h B this args =
     dv_write h B this args 4 (toUint32 h) (\<lambda>o' idx v bo. setUint32 o' idx (nat v) bo)"

definition dataViewProto_setBigInt64 :: "host \<Rightarrow> buffers \<Rightarrow> dataViewObject option \<Rightarrow> jsval list \<Rightarrow> go_error + buffers" where
  "dataViewProto_setBigInt64 h B this args = dv_write h B this args 8 (toBigInt64 h) setBigInt64"

definition dataViewProto_setBigUint64 :: "host \<Rightarrow> buffers \<Rightarrow> dataViewObject option \<Rightarrow> jsval list \<Rightarrow> go_error + buffers" where
  "dataViewProto_setBigUint64 h B this args = dv_write h B this args 8 (toBigUint64 h) setBigUint64"

text \<open>The methods of \<open>DataView.prototype\<close> by element type; there is no clamped one.\<close>

fun dv_get :: "elemKind \<Rightarrow> host \<Rightarrow> buffers \<Rightarrow> dataViewObject option \<Rightarrow> jsval list \<Rightarrow> go_error + jsval" where
  "dv_get Uint8 = dataViewProto_getUint8"
| "dv_get Uint8Clamped = (\<lambda>_ _ _ _. Inl TypeErr)"
| "dv_get Int8 = dataViewProto_getInt8"
| "dv_get Uint16 = dataViewProto_getUint16"
| "dv_get Int16 = dataViewProto_getInt16"
| "dv_get Uint32 = dataViewProto_getUint32"
| "dv_get Int32 = dataViewProto_getInt32"
| "dv_get Float32 = dataViewProto_getFloat32"
| "dv_get Float64 = dataViewProto_getFloat64"
| "dv_get BigInt64 = dataViewProto_getBigInt64"
| "dv_get BigUint64 = dataViewProto_getBigUint64"

fun dv_set :: "elemKind \<Rightarrow> host \<Rightarrow> buffers \<Rightarrow> dataViewObject option \<Rightarrow> jsval list \<Rightarrow> go_error + buffers" where
  "dv_set Uint8 = dataViewProto_setUint8"
| "dv_set Uint8Clamped = (\<lambda>_ _ _ _. Inl TypeErr)"
| "dv_set Int8 = dataViewProto_setInt8"
| "dv_set Uint16 = dataViewProto_setUint16"
| "dv_set Int16 = dataViewProto_setInt16"
| "dv_set Uint32 = dataViewProto_setUint32"
| "dv_set Int32 = dataViewProto_setInt32"
| "dv_set Float32 = dataViewProto_setFloat32"
| "dv_set Float64 = dataViewProto_setFloat64"
| "dv_set BigInt64 = dataViewProto_setBigInt64"
| "dv_set BigUint64 = dataViewProto_setBigUint64"

section \<open>The data view and the typed array see the same bytes\<close>

lemma le_bytes_cong: "x mod 256 ^ n = y mod 256 ^ n \<Longrightarrow> le_bytes n x = le_bytes n y"
  by (metis le_nat_le_bytes le_bytes_le_nat length_le_bytes)

lemma le_nat_rev1: "length b = 1 \<Longrightarrow> le_nat (rev b) = le_nat b"
  by (cases b) auto

lemma mapR_mapR: "mapR f (mapR g r) = mapR (\<lambda>x. f (g x)) r"
  by (cases r) auto

lemma slice_at_length: "slice_at n d idx = Inr b \<Longrightarrow> length b = n"
  by (auto simp: slice_at_def inside_def split: if_splits)

lemma getUintN_1: "getUintN 1 o' idx bo = mapR le_nat (slice_at 1 (ab_bytes o') idx)"
  using slice_at_length [of 1 "ab_bytes o'" idx]
  by (cases "slice_at 1 (ab_bytes o') idx") (auto simp: getUintN_def le_nat_rev1)

lemma setUintN_1: "setUintN 1 o' idx x bo = setUint8 o' idx x"
proof -
  have "rev (le_bytes 1 x) = le_bytes 1 x" by simp
  then show ?thesis
    by (simp add: setUintN_def setUint8_def slice_at_def st_def Let_def del: le_bytes.simps)
qed

lemma decode_fun:
  "decode Uint8 = (\<lambda>x. intToValue (int x))" "decode Int8 = (\<lambda>x. intToValue (to_signed 1 x))"
  "decode Uint16 = (\<lambda>x. intToValue (int x))" "decode Int16 = (\<lambda>x. intToValue (to_signed 2 x))"
  "decode Uint32 = (\<lambda>x. intToValue (int x))" "decode Int32 = (\<lambda>x. intToValue (to_signed 4 x))"
  "decode Float32 = (\<lambda>x. floatToValue (float32_at x))"
  "decode Float64 = (\<lambda>x. floatToValue (Float64frombits x))"
  "decode BigInt64 = (\<lambda>x. VBigInt (to_signed 8 x))" "decode BigUint64 = (\<lambda>x. VBigInt (int x))"
  by (simp_all add: fun_eq_iff)

text \<open>Every getter reads the bytes and decodes them, every setter encodes the value.\<close>

lemma dv_readers:
  "mapR (\<lambda>x. intToValue (int x)) (getUint8 o' idx) = mapR (decode Uint8) (getUintN 1 o' idx bo)"
  "mapR intToValue (getInt8 o' idx) = mapR (decode Int8) (getUintN 1 o' idx bo)"
  "mapR (\<lambda>x. intToValue (int x)) (getUint16 o' idx bo) = mapR (decode Uint16) (getUintN 2 o' idx bo)"
  "mapR intToValue (getInt16 o' idx bo) = mapR (decode Int16) (getUintN 2 o' idx bo)"
  "mapR (\<lambda>x. intToValue (int x)) (getUint32 o' idx bo) = mapR (decode Uint32) (getUintN 4 o' idx bo)"
  "mapR intToValue (getInt32 o' idx bo) = mapR (decode Int32) (getUintN 4 o' idx bo)"
  "mapR (\<lambda>f. floatToValue (float64 f)) (getFloat32 o' idx bo) = mapR (decode Float32) (getUintN 4 o' idx bo)"
  "mapR floatToValue (getFloat64 o' idx bo) = mapR (decode Float64) (getUintN 8 o' idx bo)"
  "mapR VBigInt (getBigInt64 o' idx bo) = mapR (decode BigInt64) (getUintN 8 o' idx bo)"
  "mapR VBigInt (getBigUint64 o' idx bo) = mapR (decode BigUint64) (getUintN 8 o' idx bo)"
  unfolding decode_fun getUint8_def getInt8_def getUint16_def getInt16_def getUint32_def getInt32_def
    getFloat32_def getFloat64_def getUint64_def getBigInt64_def getBigUint64_def getUintN_1 mapR_mapR
    float32_at_def by (rule refl)+

lemma dv_get_decode:
  assumes "k \<noteq> Uint8Clamped" "ToNumber h (Argument args 0) = Inr (Argument args 0)"
  shows "dv_get k h B this args = dv_read h B this (Argument args 0) (Argument args 1) (elem_size k)
     (\<lambda>o' idx bo. mapR (decode k) (getUintN (elem_size k) o' idx bo))"
proof -
  have none: "dv_read h B None i le n rd = Inl TypeErr" for i le n rd by (simp add: dv_read_def)
  show ?thesis
    using assms(1)
    by (cases k; cases "this"; simp only: dv_get.simps elem_size.simps assms(2) none bindR_simps option.case
        dv_readers(1) [where bo = littleEndian] dv_readers(2) [where bo = littleEndian] dv_readers(3-)
        dataViewProto_getUint8_def dataViewProto_getInt8_def dataViewProto_getUint16_def
        dataViewProto_getInt16_def dataViewProto_getUint32_def dataViewProto_getInt32_def
        dataViewProto_getFloat32_def dataViewProto_getFloat64_def dataViewProto_getBigInt64_def
        dataViewProto_getBigUint64_def getUintN_1)
qed

lemma setUintN_cong: "x mod 256 ^ n = y mod 256 ^ n \<Longrightarrow> setUintN n o' idx x bo = setUintN n o' idx y bo"
  using le_bytes_cong [of x n y] by (simp add: setUintN_def st_def Let_def)

lemma narrow_cong:
  assumes "w = 8 * n" "w \<le> 64"
  shows "nat (wrap_unsigned w i) mod 256 ^ n = uint64 i mod 256 ^ n"
proof -
  have p: "(256::int) ^ n = 2 ^ w" using assms(1) by (simp add: power_mult)
  have "int (uint64 i mod 256 ^ n) = (i mod 2 ^ 64) mod 2 ^ w"
    by (simp add: uint64_def wrap_unsigned_def zmod_int p)
  also have "\<dots> = i mod 2 ^ w"
    using assms(2) by (intro mod_mod_cancel le_imp_power_dvd) simp
  also have "\<dots> = int (nat (wrap_unsigned w i) mod 256 ^ n)"
    by (simp add: wrap_unsigned_def zmod_int p)
  finally show ?thesis by simp
qed

lemma narrow_nat:
  assumes "0 \<le> i" "i < 2 ^ 64"
  shows "nat i = uint64 i"
  using assms by (simp add: uint64_def wrap_unsigned_def)

lemma dv_write_map:
  assumes "\<And>val o' idx bo. conv (Argument args 1) = Inr val \<Longrightarrow> \<not> ab_detached o' \<Longrightarrow>
      wr o' idx val bo = wr' o' idx (f val) bo"
  shows "dv_write h B this args sz conv wr = dv_write h B this args sz (\<lambda>v. mapR f (conv v)) wr'"
proof (cases "this")
  case (Some dv)
  show ?thesis
  proof (cases "ab_detached (B (dv_buf dv))")
    case True
    then show ?thesis
      by (cases "conv (Argument args 1)"; cases "toIndex h (Argument args 0)")
        (simp_all add: dv_write_def Some getIdxAndByteOrder_def)
  next
    case False
    then have "wr (B (dv_buf dv)) idx val bo = wr' (B (dv_buf dv)) idx (f val) bo"
      if "conv (Argument args 1) = Inr val" for val idx bo
      using assms [OF that] by blast
    then show ?thesis
      by (cases "conv (Argument args 1)") (simp_all add: dv_write_def Some)
  qed
qed (simp add: dv_write_def)

lemma setUintN_narrow:
  "w = 8 * n \<Longrightarrow> w \<le> 64 \<Longrightarrow> setUintN n o' idx (nat (wrap_unsigned w i)) bo = setUintN n o' idx (uint64 i) bo"
  using narrow_cong by (intro setUintN_cong) blast

lemma encode_fun:
  "encode Uint8 h = (\<lambda>v. mapR uint64 (toUint8 h v))" "encode Int8 h = (\<lambda>v. mapR uint64 (toInt8 h v))"
  "encode Uint16 h = (\<lambda>v. mapR uint64 (toUint16 h v))" "encode Int16 h = (\<lambda>v. mapR uint64 (toInt16 h v))"
  "encode Uint32 h = (\<lambda>v. mapR uint64 (toUint32 h v))" "encode Int32 h = (\<lambda>v. mapR uint64 (toInt32 h v))"
  "encode Float32 h = (\<lambda>v. mapR Float32bits (toFloat32 h v))"
  "encode Float64 h = (\<lambda>v. mapR Float64bits (ToFloat h v))"
  "encode BigInt64 h = (\<lambda>v. mapR (\<lambda>n. uint64 (big_Int64 n)) (toBigInt64 h v))"
  "encode BigUint64 h = (\<lambda>v. mapR big_Uint64 (toBigUint64 h v))"
  by (simp_all add: fun_eq_iff)

lemmas dv_set_defs = dataViewProto_setUint8_def dataViewProto_setInt8_def dataViewProto_setUint16_def
  dataViewProto_setInt16_def dataViewProto_setUint32_def dataViewProto_setInt32_def
  dataViewProto_setFloat32_def dataViewProto_setFloat64_def dataViewProto_setBigInt64_def
  dataViewProto_setBigUint64_def

lemma setUint32_attached: "\<not> ab_detached o' \<Longrightarrow> setUint32 o' idx x bo = setUintN 4 o' idx x bo"
  by (simp add: setUint32_def)

lemma dv_set_encode:
  assumes "k \<noteq> Uint8Clamped"
  shows "dv_set k h B this args = dv_write h B this args (elem_size k) (encode k h) (setUintN (elem_size k))"
  using assms
proof (cases k)
  case Uint8
  then show ?thesis
    by (simp only: dv_set.simps dv_set_defs elem_size.simps encode_fun)
      (intro dv_write_map, frule toInt_ranges(1), simp add: setUintN_1 [unfolded One_nat_def] narrow_nat)
next
  case Int8
  then show ?thesis
    by (simp only: dv_set.simps dv_set_defs elem_size.simps encode_fun)
      (intro dv_write_map, simp add: setInt8_def setUintN_1 [symmetric, where bo = littleEndian]
        setUintN_narrow del: One_nat_def, simp only: setUintN_1)
next
  case Uint16
  then show ?thesis
    by (simp only: dv_set.simps dv_set_defs elem_size.simps encode_fun)
      (intro dv_write_map, frule toInt_ranges(2), simp add: setUint16_def narrow_nat)
next
  case Int16
  then show ?thesis
    by (simp only: dv_set.simps dv_set_defs elem_size.simps encode_fun)
      (intro dv_write_map, simp add: setInt16_def setUint16_def setUintN_narrow)
next
  case Uint32
  then show ?thesis
    by (simp only: dv_set.simps dv_set_defs elem_size.simps encode_fun)
      (intro dv_write_map, frule toInt_ranges(3), simp add: setUint32_attached narrow_nat)
next
  case Int32
  then show ?thesis
    by (simp only: dv_set.simps dv_set_defs elem_size.simps encode_fun)
      (intro dv_write_map, simp add: setInt32_def setUint32_attached setUintN_narrow)
next
  case Float32
  then show ?thesis
    by (simp only: dv_set.simps dv_set_defs elem_size.simps encode_fun)
      (intro dv_write_map, simp add: setFloat32_def setUint32_attached)
next
  case Float64
  then show ?thesis
    by (simp only: dv_set.simps dv_set_defs elem_size.simps encode_fun)
      (intro dv_write_map, simp add: setFloat64_def setUint64_def)
next
  case BigInt64
  then show ?thesis
    by (simp only: dv_set.simps dv_set_defs elem_size.simps encode_fun)
      (intro dv_write_map, simp add: setBigInt64_def)
next
  case BigUint64
  then show ?thesis
    by (simp only: dv_set.simps dv_set_defs elem_size.simps encode_fun)
      (intro dv_write_map, simp add: setBigUint64_def)
qed simp

text \<open>Storing then loading, in either byte order.\<close>

lemma inside_first: "inside n d idx \<Longrightarrow> 0 < n \<Longrightarrow> inside 1 d idx"
  by (simp add: inside_def)

lemma setUintN_ok:
  assumes "inside n (ab_bytes o') idx" "0 < n" "ab_data o' \<noteq> None"
  shows "\<exists>o''. setUintN n o' idx x bo = Inr o'' \<and> ab_detached o'' = ab_detached o'
    \<and> length (ab_bytes o'') = length (ab_bytes o') \<and> ab_data o'' \<noteq> None
    \<and> getUintN n o'' idx bo = Inr (x mod 256 ^ n)
    \<and> (\<forall>m j. j + int m \<le> idx \<or> idx + int n \<le> j \<longrightarrow> ld m (ab_bytes o'') j = ld m (ab_bytes o') j)"
proof -
  define d where "d = ab_bytes o'"
  have d: "ab_data o' = Some d" using assms(3) by (auto simp: d_def ab_bytes_def)
  define y where "y = (if bo = nativeEndian then x else le_nat (rev (le_bytes n x)))"
  have y: "le_bytes n y = (if bo = nativeEndian then le_bytes n x else rev (le_bytes n x))"
    using le_bytes_le_nat [of "rev (le_bytes n x)"] by (simp add: y_def)
  have i: "inside n d idx" "inside 1 d idx" using assms inside_first by (auto simp: d_def)
  obtain d' where d': "st n d idx y = Inr d'" "length d' = length d" using st_ok [OF i(1)] by blast
  define o'' where "o'' = with_data o' d'"
  have b: "ab_bytes o'' = d'" by (simp add: o''_def with_data_def ab_bytes_def d)
  have "setUintN n o' idx x bo = Inr o''"
  proof (cases "bo = nativeEndian")
    case True
    then show ?thesis using i d' by (simp add: setUintN_def Let_def d_def [symmetric] y_def o''_def)
  next
    case False
    then have "d' = take (nat idx) d @ rev (le_bytes n x) @ drop (nat idx + n) d"
      using d'(1) i y by (simp add: st_def)
    then show ?thesis using i False
      by (simp add: setUintN_def Let_def d_def [symmetric] o''_def slice_at_def)
  qed
  moreover have "getUintN n o'' idx bo = Inr (x mod 256 ^ n)"
  proof -
    have i': "inside n d' idx" using i(1) d'(2) by (simp add: inside_def)
    have "take n (drop (nat idx) d') = le_bytes n y"
      using d'(1) i(1) by (auto simp: st_def inside_def)
    then show ?thesis using i' y by (simp add: getUintN_def slice_at_def b le_nat_le_bytes)
  qed
  moreover have "\<forall>m j. j + int m \<le> idx \<or> idx + int n \<le> j \<longrightarrow> ld m d' j = ld m d j"
    using ld_st_other [OF d'(1)] by blast
  ultimately show ?thesis
    using d'(2) by (intro exI [of _ o'']) (simp add: b d_def [symmetric], simp add: o''_def with_data_def d)
qed

text \<open>
  C19. A value stored through a data view (\<open>setInt8\<close>, \dots, \<open>setBigUint64\<close>) reads back, with
  the same byte order, as what ECMAScript makes of it for that type; nothing outside its
  bytes changes, and in little-endian order an aligned typed array over the same buffer sees
  it too. On a detached buffer both raise a TypeError, past the end of the view a RangeError,
  and they never touch memory outside the buffer.
\<close>

theorem data_view_access:
  fixes le v :: jsval and dv :: dataViewObject
  assumes ok: "dv_ok B dv" and k: "k \<noteq> Uint8Clamped" and i: "0 \<le> i" "i < maxInt"
    and v: "elem_value k h v = Inr x" "\<And>f. ToFloat h v = Inr f \<Longrightarrow> f64_ok f"
  defines "stored \<equiv> dv_set k h B (Some dv) [VInt i, v, le]" and "n \<equiv> elem_size k"
    and "at \<equiv> dv_byteOffset dv + i" and "b \<equiv> dv_buf dv"
  shows "if ab_detached (B b) then stored = Inl TypeErr \<and> dv_get k h B (Some dv) [VInt i, le] = Inl TypeErr
    else if dv_byteLen dv < i + int n
    then stored = Inl RangeErr \<and> dv_get k h B (Some dv) [VInt i, le] = Inl RangeErr
    else \<exists>B'. stored = Inr B' \<and> dv_ok B' dv \<and> dv_get k h B' (Some dv) [VInt i, le] = Inr x
      \<and> (\<forall>a. a \<noteq> b \<longrightarrow> B' a = B a)
      \<and> (\<forall>m j. j + int m \<le> at \<or> at + int n \<le> j \<longrightarrow> ld m (ab_bytes (B' b)) j = ld m (ab_bytes (B b)) j)
      \<and> (\<forall>j. ToBoolean le \<and> at = j * int n \<longrightarrow> ta_get (methods k) (ab_bytes (B' b)) j = Inr x)"
proof -
  have idx: "toIndex h (VInt i) = Inr i" using i by (simp add: toIndex_def)
  obtain y where y: "encode k h v = Inr y" using elem_value_encode [OF v(1)] by blast
  have x: "x = decode k (y mod 256 ^ n)" using encode_decode [OF y v(2)] v(1) by (simp add: n_def)
  note get = dv_get_decode [OF k, of h "[VInt i, le]"]
  note st = dv_set_encode [OF k, of h B "Some dv" "[VInt i, v, le]", folded stored_def]
  let ?bo = "if ToBoolean le then littleEndian else bigEndian"
  show ?thesis
  proof (cases "ab_detached (B b)")
    case True
    then show ?thesis
      by (simp add: get st dv_read_def dv_write_def Argument_def idx y getIdxAndByteOrder_def b_def)
  next
    case att: False
    show ?thesis
    proof (cases "dv_byteLen dv < i + int n")
      case True
      with att show ?thesis
        by (simp add: get st dv_read_def dv_write_def Argument_def idx y getIdxAndByteOrder_def b_def n_def)
    next
      case False
      have n: "0 < n" by (simp add: n_def)
      have "inside n (ab_bytes (B b)) at"
        using ok att False i by (simp add: dv_ok_def inside_def b_def at_def)
      moreover have "ab_data (B b) \<noteq> None"
        using calculation n by (cases "ab_data (B b)") (auto simp: inside_def ab_bytes_def)
      ultimately obtain o'' where o'': "setUintN n (B b) at y ?bo = Inr o''" "\<not> ab_detached o''"
        "length (ab_bytes o'') = length (ab_bytes (B b))" "getUintN n o'' at ?bo = Inr (y mod 256 ^ n)"
        "\<forall>m j. j + int m \<le> at \<or> at + int n \<le> j \<longrightarrow> ld m (ab_bytes o'') j = ld m (ab_bytes (B b)) j"
        using setUintN_ok [of n "B b" at y ?bo] n att by auto
      let ?B = "B(b := o'')"
      have "stored = Inr ?B"
        using att False o''(1) by (simp add: st dv_write_def Argument_def idx y getIdxAndByteOrder_def
            b_def at_def n_def add.commute)
      moreover have "dv_get k h ?B (Some dv) [VInt i, le] = Inr x"
        using False o''(2,4) by (simp add: get dv_read_def Argument_def idx getIdxAndByteOrder_def
            b_def at_def n_def x add.commute)
      moreover have "ta_get (methods k) (ab_bytes o'') j = Inr x" if "ToBoolean le" "at = j * int n" for j
      proof -
        have "inside n (ab_bytes o'') at" using \<open>inside n (ab_bytes (B b)) at\<close> o''(3) by (simp add: inside_def)
        then have "getUintN n o'' at ?bo = ld n (ab_bytes o'') at"
          using that(1) by (simp add: getUintN_def nativeEndian_def slice_at_def ld_def)
        then show ?thesis using o''(4) that(2) by (simp add: methods_get n_def [symmetric] x)
      qed
      moreover have "dv_ok ?B dv" using ok o''(2,3) att by (simp add: dv_ok_def b_def ab_ok_def)
      ultimately show ?thesis using att False o''(5) by auto
    qed
  qed
qed

theorem data_view_access_witness:
  "\<exists>B'. dv_set Int16 host0 (\<lambda>_. \<lparr>ab_detached = False, ab_data = Some [0, 0, 0]\<rparr>)
     (Some \<lparr>dv_buf = 0, dv_byteLen = 2, dv_byteOffset = 1\<rparr>) [VInt 0, VInt 258, VNull] = Inr B'
   \<and> dv_get Int16 host0 B' (Some \<lparr>dv_buf = 0, dv_byteLen = 2, dv_byteOffset = 1\<rparr>) [VInt 0, VNull] = Inr (VInt 258)"
proof -
  let ?B = "\<lambda>_ :: nat. \<lparr>ab_detached = False, ab_data = Some [0, 0, 0]\<rparr>"
    and ?dv = "\<lparr>dv_buf = 0, dv_byteLen = 2, dv_byteOffset = 1\<rparr>"
  have ok: "dv_ok ?B ?dv" by (simp add: dv_ok_def ab_ok_def ab_bytes_def)
  have x: "elem_value Int16 host0 (VInt 258) = Inr (VInt 258)"
    by (simp add: toInt16_def num_to_int_def wrap_signed_def)
  have f: "f64_ok f" if "ToFloat host0 (VInt 258) = Inr f" for f using that by auto
  have i: "(0::int) \<le> 0" "0 < maxInt" by (simp_all add: maxInt_def)
  show ?thesis
    using data_view_access [OF ok _ i x f, of VNull] by auto
qed
lemma newDataView_ok:
  assumes "newDataView h proto B buf args nt = (B', Inr dv)" "\<And>a. ab_ok (B' a)"
  shows "dv_ok B' dv"
proof -
  have t: "0 \<le> i" if "toIndex h v = Inr i" for v i
    using that by (auto simp: toIndex_def bindR_Inr_iff split: if_splits)
  show ?thesis
    using assms(1)
    by (auto simp: newDataView_def Let_def bindR_Inr_iff dv_ok_def assms(2)
        split: if_splits option.splits sum.splits prod.splits dest: t)
qed

end
