(* ===== verification/Typed_Array_Objects.thy ===== *)
theory Typed_Array_Objects
  imports Data_Views Arrays
begin

text \<open>
  Typed array objects: their integer-indexed properties (\<open>typedArrayObject\<close> of
  \<open>typedarrays.go\<close>), their constructors and the methods of \<open>%TypedArray%.prototype\<close>
  (\<open>builtin_typedarrays.go\<close>). A callback is user code that may change every buffer's bytes
  and may detach buffers; it cannot resize one.
\<close>

section \<open>The object\<close>

record typedArrayObject =
  tao_buf :: nat
  tao_kind :: elemKind
  tao_length :: int
  tao_offset :: int

text \<open>
  The element size and the default constructor are those of the element type: the eleven
  functions \<open>newUint8ArrayObject\<close>, \<dots> pass them to \<open>_newTypedArrayObject\<close>.
\<close>

abbreviation tao_size :: "typedArrayObject \<Rightarrow> nat" where
  "tao_size a \<equiv> elem_size (tao_kind a)"

abbreviation tao_methods :: "typedArrayObject \<Rightarrow> typedArray" where
  "tao_methods a \<equiv> methods (tao_kind a)"

definition newTypedArrayObject :: "nat \<Rightarrow> int \<Rightarrow> int \<Rightarrow> elemKind \<Rightarrow> typedArrayObject" where
  "newTypedArrayObject buf offset len k =
     \<lparr>tao_buf = buf, tao_kind = k, tao_length = len, tao_offset = offset\<rparr>"

definition tao_data :: "buffers \<Rightarrow> typedArrayObject \<Rightarrow> bytes" where
  "tao_data B a = ab_bytes (B (tao_buf a))"

definition tao_detached :: "buffers \<Rightarrow> typedArrayObject \<Rightarrow> bool" where
  "tao_detached B a = ab_detached (B (tao_buf a))"

text \<open>\<open>a.viewedArrayBuf.ensureNotDetached(true)\<close>.\<close>

definition tao_check :: "buffers \<Rightarrow> typedArrayObject \<Rightarrow> go_error + bool" where
  "tao_check B a = ensureNotDetached (B (tao_buf a)) True"

text \<open>A store through the object's methods, into its buffer.\<close>

definition upd_data :: "buffers \<Rightarrow> typedArrayObject \<Rightarrow> bytes \<Rightarrow> buffers" where
  "upd_data B a d = B(tao_buf a := with_data (B (tao_buf a)) d)"

definition tao_get :: "buffers \<Rightarrow> typedArrayObject \<Rightarrow> int \<Rightarrow> go_error + jsval" where
  "tao_get B a i = ta_get (tao_methods a) (tao_data B a) (tao_offset a + i)"

definition tao_set :: "host \<Rightarrow> buffers \<Rightarrow> typedArrayObject \<Rightarrow> int \<Rightarrow> jsval \<Rightarrow> go_error + buffers" where
  "tao_set h B a i v = mapR (upd_data B a) (ta_set (tao_methods a) h (tao_data B a) (tao_offset a + i) v)"

definition tao_setRaw :: "buffers \<Rightarrow> typedArrayObject \<Rightarrow> int \<Rightarrow> nat \<Rightarrow> go_error + buffers" where
  "tao_setRaw B a i raw = mapR (upd_data B a) (ta_setRaw (tao_methods a) (tao_data B a) (tao_offset a + i) raw)"

definition tao_swap :: "buffers \<Rightarrow> typedArrayObject \<Rightarrow> int \<Rightarrow> int \<Rightarrow> go_error + buffers" where
  "tao_swap B a i j =
     mapR (upd_data B a) (ta_swap (tao_methods a) (tao_data B a) (tao_offset a + i) (tao_offset a + j))"

section \<open>Integer-indexed properties\<close>

text \<open>A method either handles the key or goes on to the same method of \<open>baseObject\<close>.\<close>

datatype 'a dispatch = Done 'a | ToBase

definition isValidIntegerIndex :: "buffers \<Rightarrow> typedArrayObject \<Rightarrow> int \<Rightarrow> bool" where
  "isValidIntegerIndex B a idx = (\<not> tao_detached B a \<and> 0 \<le> idx \<and> idx < tao_length a)"

definition tao_getIdx :: "buffers \<Rightarrow> typedArrayObject \<Rightarrow> int \<Rightarrow> go_error + jsval option" where
  "tao_getIdx B a idx =
     (if 0 \<le> idx \<and> idx < tao_length a then
        (if tao_detached B a then Inr None else mapR Some (tao_get B a idx))
      else Inr None)"

definition elem_prop :: "jsval \<Rightarrow> slot" where
  "elem_prop v = Prop \<lparr>vp_value = Some v, vp_writable = True, vp_configurable = True,
     vp_enumerable = True, vp_accessor = False, vp_getter = None, vp_setter = None\<rparr>"

definition tao_getOwnPropIdx :: "buffers \<Rightarrow> typedArrayObject \<Rightarrow> int \<Rightarrow> go_error + slot option" where
  "tao_getOwnPropIdx B a idx = mapR (map_option elem_prop) (tao_getIdx B a idx)"

text \<open>How every method that takes a string decides.\<close>

definition by_name :: "host \<Rightarrow> ustr \<Rightarrow> (int \<Rightarrow> go_error + 'a) \<Rightarrow> (go_error + 'a) \<Rightarrow> go_error + 'a dispatch" where
  "by_name h name onIdx onOther =
     bindR (strToIntNum h name) (\<lambda>(idx, ok).
       if ok then mapR Done (onIdx idx)
       else if idx = 0 then mapR Done onOther
       else Inr ToBase)"

definition tao_getOwnPropStr :: "host \<Rightarrow> buffers \<Rightarrow> typedArrayObject \<Rightarrow> ustr \<Rightarrow> go_error + slot option dispatch" where
  "tao_getOwnPropStr h B a name = by_name h name (tao_getOwnPropIdx B a) (Inr None)"

definition tao_getStr :: "host \<Rightarrow> buffers \<Rightarrow> typedArrayObject \<Rightarrow> ustr \<Rightarrow> go_error + jsval option dispatch" where
  "tao_getStr h B a name = by_name h name (tao_getIdx B a) (Inr None)"

definition tao_putIdx :: "host \<Rightarrow> buffers \<Rightarrow> typedArrayObject \<Rightarrow> int \<Rightarrow> jsval option \<Rightarrow> go_error + buffers" where
  "tao_putIdx h B a idx v =
     bindR (if is_big (tao_kind a)
            then (case v of None \<Rightarrow> Inl TypeErr | Some v \<Rightarrow> mapR VBigInt (toBigInt h v))
            else (case v of None \<Rightarrow> Inl GoPanic | Some v \<Rightarrow> ToNumber h v))
       (\<lambda>v. if isValidIntegerIndex B a idx then tao_set h B a idx v else Inr B)"

definition tao_setOwnStr :: "host \<Rightarrow> buffers \<Rightarrow> typedArrayObject \<Rightarrow> ustr \<Rightarrow> jsval \<Rightarrow> go_error + (buffers \<times> bool) dispatch" where
  "tao_setOwnStr h B a name v =
     by_name h name (\<lambda>idx. mapR (\<lambda>B'. (B', True)) (tao_putIdx h B a idx (Some v)))
       (mapR (\<lambda>_. (B, True)) (toNumeric h v))"

definition tao_setOwnIdx :: "host \<Rightarrow> buffers \<Rightarrow> typedArrayObject \<Rightarrow> int \<Rightarrow> jsval \<Rightarrow> go_error + buffers \<times> bool" where
  "tao_setOwnIdx h B a idx v = mapR (\<lambda>B'. (B', True)) (tao_putIdx h B a idx (Some v))"

text \<open>
  \<open>setForeignStr\<close> and \<open>setForeignIdx\<close> answer themselves when the index is not valid, else
  the common \<open>_setForeignStr\<close> does with the own property.
\<close>

definition tao_setForeignStr :: "host \<Rightarrow> buffers \<Rightarrow> typedArrayObject \<Rightarrow> ustr \<Rightarrow> go_error + (bool \<times> bool) dispatch" where
  "tao_setForeignStr h B a name =
     bindR (strToIntNum h name) (\<lambda>(idx, ok).
       if ok then (if \<not> isValidIntegerIndex B a idx then Inr (Done (True, True)) else Inr ToBase)
       else if idx = 0 then Inr (Done (True, True))
       else Inr ToBase)"

definition tao_setForeignIdx :: "buffers \<Rightarrow> typedArrayObject \<Rightarrow> int \<Rightarrow> (bool \<times> bool) dispatch" where
  "tao_setForeignIdx B a idx = (if \<not> isValidIntegerIndex B a idx then Done (True, True) else ToBase)"

definition tao_hasOwnPropertyStr :: "host \<Rightarrow> buffers \<Rightarrow> typedArrayObject \<Rightarrow> ustr \<Rightarrow> go_error + bool dispatch" where
  "tao_hasOwnPropertyStr h B a name = by_name h name (\<lambda>idx. Inr (isValidIntegerIndex B a idx)) (Inr False)"

definition tao_hasOwnPropertyIdx :: "buffers \<Rightarrow> typedArrayObject \<Rightarrow> int \<Rightarrow> bool" where
  "tao_hasOwnPropertyIdx B a idx = isValidIntegerIndex B a idx"

definition tao_hasPropertyStr :: "host \<Rightarrow> buffers \<Rightarrow> typedArrayObject \<Rightarrow> ustr \<Rightarrow> go_error + bool dispatch" where
  "tao_hasPropertyStr h B a name = by_name h name (\<lambda>idx. Inr (isValidIntegerIndex B a idx)) (Inr False)"

text \<open>
  \<open>_defineIdxProperty\<close>. The descriptor's value, \<open>nil\<close> when it has none, is handed on to
  \<open>_putIdx\<close>.
\<close>

definition defineIdxProperty :: "env \<Rightarrow> buffers \<Rightarrow> typedArrayObject \<Rightarrow> bool \<Rightarrow> int \<Rightarrow> propdesc \<Rightarrow> bool
    \<Rightarrow> go_error + buffers \<times> bool" where
  "defineIdxProperty E B a extensible idx desc throw =
     (let h = e_host E in
      if pd_configurable desc = FLAG_FALSE \<or> pd_enumerable desc = FLAG_FALSE \<or> pd_IsAccessor desc
        \<or> pd_writable desc = FLAG_FALSE
      then typeErrorResult throw (B, False)
      else bindR (tao_getOwnPropIdx B a idx) (\<lambda>existing.
        bindR (snd (base_defineOwnProperty E extensible existing desc throw)) (\<lambda>r.
          case r of
            None \<Rightarrow> Inr (B, False)
          | Some _ \<Rightarrow>
              if \<not> isValidIntegerIndex B a idx then typeErrorResult throw (B, False)
              else mapR (\<lambda>B'. (B', True)) (tao_putIdx h B a idx (pd_value desc)))))"

definition tao_defineOwnPropertyStr :: "env \<Rightarrow> buffers \<Rightarrow> typedArrayObject \<Rightarrow> bool \<Rightarrow> ustr \<Rightarrow> propdesc \<Rightarrow> bool
    \<Rightarrow> go_error + (buffers \<times> bool) dispatch" where
  "tao_defineOwnPropertyStr E B a extensible name desc throw =
     by_name (e_host E) name (\<lambda>idx. defineIdxProperty E B a extensible idx desc throw)
       (bindR (ensureNotDetached (B (tao_buf a)) throw) (\<lambda>_. typeErrorResult throw (B, False)))"

definition tao_deleteIdx :: "buffers \<Rightarrow> typedArrayObject \<Rightarrow> int \<Rightarrow> bool \<Rightarrow> go_error + bool" where
  "tao_deleteIdx B a idx throw =
     (if \<not> tao_detached B a \<and> 0 \<le> idx \<and> idx < tao_length a then typeErrorResult throw False else Inr True)"

definition tao_deleteStr :: "host \<Rightarrow> buffers \<Rightarrow> typedArrayObject \<Rightarrow> ustr \<Rightarrow> bool \<Rightarrow> go_error + bool dispatch" where
  "tao_deleteStr h B a name throw =
     by_name h name (\<lambda>idx. if isValidIntegerIndex B a idx then typeErrorResult throw False else Inr True)
       (Inr True)"

definition tao_stringKeys :: "typedArrayObject \<Rightarrow> bool \<Rightarrow> jsobj \<Rightarrow> jsobj \<times> ustr list" where
  "tao_stringKeys a all base =
     (let (base', ks) = stringKeys all base in
      (base', map (\<lambda>i. FormatInt (int i)) [0..<nat (tao_length a)] @ ks))"

text \<open>\<open>typedArrayPropIter.next\<close>: the next index, its name and its value; then the base object.\<close>

definition typedArrayPropIter_next :: "buffers \<Rightarrow> typedArrayObject \<Rightarrow> int
    \<Rightarrow> (int \<times> ustr \<times> (go_error + jsval option)) option" where
  "typedArrayPropIter_next B a idx =
     (if idx < tao_length a then Some (idx + 1, FormatInt idx, tao_getIdx B a idx) else None)"

section \<open>The invariant\<close>

definition tao_ok :: "buffers \<Rightarrow> typedArrayObject \<Rightarrow> bool" where
  "tao_ok B a \<longleftrightarrow> 0 \<le> tao_offset a \<and> 0 \<le> tao_length a
     \<and> (\<not> tao_detached B a \<longrightarrow>
          (tao_offset a + tao_length a) * int (tao_size a) \<le> int (length (tao_data B a)))"

text \<open>What any code, user code included, may do to the buffers.\<close>

definition buffers_evolve :: "buffers \<Rightarrow> buffers \<Rightarrow> bool" where
  "buffers_evolve B B' \<longleftrightarrow> (\<forall>b. (ab_detached (B' b) \<or>
     \<not> ab_detached (B b) \<and> length (ab_bytes (B' b)) = length (ab_bytes (B b)))
     \<and> (ab_data (B b) = None \<longrightarrow> ab_data (B' b) = None))"

lemma evolve_refl [simp]: "buffers_evolve B B"
  by (auto simp: buffers_evolve_def)

lemma evolve_trans: "buffers_evolve B B' \<Longrightarrow> buffers_evolve B' B'' \<Longrightarrow> buffers_evolve B B''"
  unfolding buffers_evolve_def by metis

lemma tao_ok_evolve: "tao_ok B a \<Longrightarrow> buffers_evolve B B' \<Longrightarrow> tao_ok B' a"
  unfolding tao_ok_def buffers_evolve_def tao_detached_def tao_data_def by metis

lemma evolve_detached: "buffers_evolve B B' \<Longrightarrow> tao_detached B a \<Longrightarrow> tao_detached B' a"
  unfolding buffers_evolve_def tao_detached_def by blast

text \<open>Within the length, an element of an attached array is inside the bytes.\<close>

lemma valid_inside:
  assumes "tao_ok B a" "isValidIntegerIndex B a i"
  shows "elem_inside (tao_kind a) (tao_data B a) (tao_offset a + i)"
proof -
  have "(tao_offset a + i + 1) * int (tao_size a) \<le> (tao_offset a + tao_length a) * int (tao_size a)"
    using assms(2) by (intro mult_right_mono) (auto simp: isValidIntegerIndex_def)
  moreover have "(tao_offset a + tao_length a) * int (tao_size a) \<le> int (length (tao_data B a))"
    "0 \<le> tao_offset a" "0 \<le> i"
    using assms by (auto simp: tao_ok_def isValidIntegerIndex_def)
  ultimately show ?thesis unfolding elem_inside_def by linarith
qed

lemma tao_get_ok: "tao_ok B a \<Longrightarrow> isValidIntegerIndex B a i \<Longrightarrow> \<exists>v. tao_get B a i = Inr v"
  using valid_inside [of B a i] ld_ok
  unfolding tao_get_def methods_get elem_inside_iff by fastforce

section \<open>Methods with a callback\<close>

definition bindS :: "('s, 'a) outcome \<Rightarrow> ('s \<Rightarrow> 'a \<Rightarrow> ('s, 'b) outcome) \<Rightarrow> ('s, 'b) outcome" where
  "bindS r f = (case r of (s, Inl e) \<Rightarrow> (s, Inl e) | (s, Inr x) \<Rightarrow> f s x)"

lemma bindS_simps [simp]: "bindS (s, Inl e) f = (s, Inl e)" "bindS (s, Inr x) f = f s x"
  by (simp_all add: bindS_def)

lemma bindS_cong [fundef_cong]:
  "r = r' \<Longrightarrow> (\<And>s x. r' = (s, Inr x) \<Longrightarrow> f s x = f' s x) \<Longrightarrow> bindS r f = bindS r' f'"
  by (cases r'; cases "snd r'") (auto simp: bindS_def)

text \<open>
  A callback gets the element (\<open>nil\<close> for one that is gone, where the method passes it on) and
  the index.
\<close>

type_synonym callback = "buffers \<Rightarrow> jsval option \<Rightarrow> int \<Rightarrow> (buffers, jsval) outcome"

text \<open>The element at \<open>k\<close>, or the given value when the index is no longer valid.\<close>

definition elem_or :: "jsval option \<Rightarrow> buffers \<Rightarrow> typedArrayObject \<Rightarrow> int \<Rightarrow> go_error + jsval option" where
  "elem_or dflt B a k = (if isValidIntegerIndex B a k then mapR Some (tao_get B a k) else Inr dflt)"

text \<open>The loops run over the list of the indices still to visit.\<close>

definition upto_length :: "typedArrayObject \<Rightarrow> int list" where
  "upto_length a = map int [0..<nat (tao_length a)]"

fun every_loop :: "callback \<Rightarrow> typedArrayObject \<Rightarrow> int list \<Rightarrow> buffers \<Rightarrow> (buffers, jsval) outcome" where
  "every_loop cb a [] B = (B, Inr (VBool True))"
| "every_loop cb a (k # ks) B =
     bindS (B, elem_or (Some VUndefined) B a k) (\<lambda>B v.
       bindS (cb B v k) (\<lambda>B r.
         if \<not> ToBoolean r then (B, Inr (VBool False)) else every_loop cb a ks B))"

fun some_loop :: "callback \<Rightarrow> typedArrayObject \<Rightarrow> int list \<Rightarrow> buffers \<Rightarrow> (buffers, jsval) outcome" where
  "some_loop cb a [] B = (B, Inr (VBool False))"
| "some_loop cb a (k # ks) B =
     bindS (B, elem_or (Some VUndefined) B a k) (\<lambda>B v.
       bindS (cb B v k) (\<lambda>B r.
         if ToBoolean r then (B, Inr (VBool True)) else some_loop cb a ks B))"

text \<open>\<open>find\<close> and \<open>findLast\<close> pass \<open>nil\<close> for a missing element, and may return it.\<close>

fun find_loop :: "callback \<Rightarrow> typedArrayObject \<Rightarrow> int list \<Rightarrow> buffers \<Rightarrow> (buffers, jsval option) outcome" where
  "find_loop cb a [] B = (B, Inr (Some VUndefined))"
| "find_loop cb a (k # ks) B =
     bindS (B, elem_or None B a k) (\<lambda>B v.
       bindS (cb B v k) (\<lambda>B r.
         if ToBoolean r then (B, Inr v) else find_loop cb a ks B))"

fun findIndex_loop :: "callback \<Rightarrow> typedArrayObject \<Rightarrow> int list \<Rightarrow> buffers \<Rightarrow> (buffers, jsval) outcome" where
  "findIndex_loop cb a [] B = (B, Inr (VInt (- 1)))"
| "findIndex_loop cb a (k # ks) B =
     bindS (B, elem_or (Some VUndefined) B a k) (\<lambda>B v.
       bindS (cb B v k) (\<lambda>B r.
         if ToBoolean r then (B, Inr (intToValue k)) else findIndex_loop cb a ks B))"

fun forEach_loop :: "callback \<Rightarrow> typedArrayObject \<Rightarrow> int list \<Rightarrow> buffers \<Rightarrow> (buffers, jsval) outcome" where
  "forEach_loop cb a [] B = (B, Inr VUndefined)"
| "forEach_loop cb a (k # ks) B =
     bindS (B, elem_or None B a k) (\<lambda>B v. bindS (cb B v k) (\<lambda>B _. forEach_loop cb a ks B))"

text \<open>\<open>filter\<close> collects the raw bytes of the elements kept.\<close>

fun filter_loop :: "callback \<Rightarrow> typedArrayObject \<Rightarrow> int list \<Rightarrow> bytes \<Rightarrow> nat \<Rightarrow> buffers
    \<Rightarrow> (buffers, bytes \<times> nat) outcome" where
  "filter_loop cb a [] buf captured B = (B, Inr (buf, captured))"
| "filter_loop cb a (k # ks) buf captured B =
     (let i = (tao_offset a + k) * int (tao_size a) in
      bindS (B, if isValidIntegerIndex B a k then
                  bindR (tao_get B a k) (\<lambda>v.
                    if int (length (tao_data B a)) < i then Inl GoPanic
                    else Inr (Some v, take (tao_size a) (drop (nat i) (tao_data B a))))
                else Inr (Some VUndefined, replicate (tao_size a) 0)) (\<lambda>B (v, rawVal).
        bindS (cb B v k) (\<lambda>B r.
          if ToBoolean r then filter_loop cb a ks (buf @ rawVal) (Suc captured) B
          else filter_loop cb a ks buf captured B)))"

text \<open>A reducer also gets the accumulator.\<close>

fun reduce_loop :: "(jsval \<Rightarrow> callback) \<Rightarrow> typedArrayObject \<Rightarrow> int list \<Rightarrow> jsval \<Rightarrow> buffers
    \<Rightarrow> (buffers, jsval) outcome" where
  "reduce_loop cb a [] acc B = (B, Inr acc)"
| "reduce_loop cb a (k # ks) acc B =
     bindS (B, elem_or (Some VUndefined) B a k) (\<lambda>B v.
       bindS (cb acc B v k) (\<lambda>B acc'. reduce_loop cb a ks acc' B))"

text \<open>
  Each method checks that the buffer is attached, then that its argument is a function
  (\<open>None\<close> is one that is not), then loops.
\<close>

definition checked :: "buffers \<Rightarrow> typedArrayObject \<Rightarrow> 'c option \<Rightarrow> ('c \<Rightarrow> (buffers, 'a) outcome) \<Rightarrow> (buffers, 'a) outcome" where
  "checked B a cb f =
     bindS (B, tao_check B a) (\<lambda>B _. case cb of None \<Rightarrow> (B, Inl TypeErr) | Some c \<Rightarrow> f c)"

definition typedArrayProto_every :: "buffers \<Rightarrow> typedArrayObject \<Rightarrow> callback option \<Rightarrow> (buffers, jsval) outcome" where
  "typedArrayProto_every B a cb = checked B a cb (\<lambda>c. every_loop c a (upto_length a) B)"

definition typedArrayProto_some :: "buffers \<Rightarrow> typedArrayObject \<Rightarrow> callback option \<Rightarrow> (buffers, jsval) outcome" where
  "typedArrayProto_some B a cb = checked B a cb (\<lambda>c. some_loop c a (upto_length a) B)"

definition typedArrayProto_find :: "buffers \<Rightarrow> typedArrayObject \<Rightarrow> callback option \<Rightarrow> (buffers, jsval option) outcome" where
  "typedArrayProto_find B a cb = checked B a cb (\<lambda>c. find_loop c a (upto_length a) B)"

definition typedArrayProto_findIndex :: "buffers \<Rightarrow> typedArrayObject \<Rightarrow> callback option \<Rightarrow> (buffers, jsval) outcome" where
  "typedArrayProto_findIndex B a cb = checked B a cb (\<lambda>c. findIndex_loop c a (upto_length a) B)"

definition typedArrayProto_findLast :: "buffers \<Rightarrow> typedArrayObject \<Rightarrow> callback option \<Rightarrow> (buffers, jsval option) outcome" where
  "typedArrayProto_findLast B a cb = checked B a cb (\<lambda>c. find_loop c a (rev (upto_length a)) B)"

definition typedArrayProto_findLastIndex :: "buffers \<Rightarrow> typedArrayObject \<Rightarrow> callback option \<Rightarrow> (buffers, jsval) outcome" where
  "typedArrayProto_findLastIndex B a cb = checked B a cb (\<lambda>c. findIndex_loop c a (rev (upto_length a)) B)"

definition typedArrayProto_forEach :: "buffers \<Rightarrow> typedArrayObject \<Rightarrow> callback option \<Rightarrow> (buffers, jsval) outcome" where
  "typedArrayProto_forEach B a cb = checked B a cb (\<lambda>c. forEach_loop c a (upto_length a) B)"

definition typedArrayProto_filter :: "buffers \<Rightarrow> typedArrayObject \<Rightarrow> callback option \<Rightarrow> (buffers, bytes \<times> nat) outcome" where
  "typedArrayProto_filter B a cb = checked B a cb (\<lambda>c. filter_loop c a (upto_length a) [] 0 B)"

definition typedArrayProto_reduce :: "buffers \<Rightarrow> typedArrayObject \<Rightarrow> (jsval \<Rightarrow> callback) option \<Rightarrow> jsval option
    \<Rightarrow> (buffers, jsval) outcome" where
  "typedArrayProto_reduce B a cb initial =
     checked B a cb (\<lambda>c.
       case initial of
         Some v \<Rightarrow> reduce_loop c a (upto_length a) v B
       | None \<Rightarrow>
           if 0 < tao_length a
           then bindS (B, tao_get B a 0) (\<lambda>B v. reduce_loop c a (tl (upto_length a)) v B)
           else (B, Inl TypeErr))"

definition typedArrayProto_reduceRight :: "buffers \<Rightarrow> typedArrayObject \<Rightarrow> (jsval \<Rightarrow> callback) option \<Rightarrow> jsval option
    \<Rightarrow> (buffers, jsval) outcome" where
  "typedArrayProto_reduceRight B a cb initial =
     checked B a cb (\<lambda>c.
       case initial of
         Some v \<Rightarrow> reduce_loop c a (rev (upto_length a)) v B
       | None \<Rightarrow>
           if 0 < tao_length a
           then bindS (B, tao_get B a (tao_length a - 1)) (\<lambda>B v. reduce_loop c a (tl (rev (upto_length a))) v B)
           else (B, Inl TypeErr))"

text \<open>
  \<open>map\<close> stores into the array it has created, without looking whether the callback has
  detached it.
\<close>

fun map_loop :: "host \<Rightarrow> callback \<Rightarrow> typedArrayObject \<Rightarrow> typedArrayObject \<Rightarrow> int list \<Rightarrow> buffers
    \<Rightarrow> (buffers, unit) outcome" where
  "map_loop h cb a dst [] B = (B, Inr ())"
| "map_loop h cb a dst (i # is) B =
     bindS (B, elem_or (Some VUndefined) B a i) (\<lambda>B v.
       bindS (cb B v i) (\<lambda>B r.
         case tao_set h B dst i r of
           Inl e \<Rightarrow> (B, Inl e)
         | Inr B \<Rightarrow> map_loop h cb a dst is B))"

definition typedArrayProto_map :: "host \<Rightarrow> buffers \<Rightarrow> typedArrayObject \<Rightarrow> callback option
    \<Rightarrow> (buffers \<Rightarrow> int \<Rightarrow> (buffers, typedArrayObject) outcome) \<Rightarrow> (buffers, typedArrayObject) outcome" where
  "typedArrayProto_map h B a cb speciesCreate =
     checked B a cb (\<lambda>c.
       bindS (speciesCreate B (tao_length a)) (\<lambda>B dst.
         bindS (map_loop h c a dst (upto_length a) B) (\<lambda>B _. (B, Inr dst))))"

text \<open>User code raises JavaScript errors only, and cannot resize a buffer.\<close>

definition js_result :: "buffers \<Rightarrow> (buffers, 'a) outcome \<Rightarrow> bool" where
  "js_result B r \<longleftrightarrow> buffers_evolve B (fst r) \<and> (\<forall>e. snd r = Inl e \<longrightarrow> \<not> not_js e)"

definition callback_ok :: "callback \<Rightarrow> bool" where
  "callback_ok cb \<longleftrightarrow> (\<forall>B v k. js_result B (cb B v k))"

lemma js_result_Inr [simp]: "js_result B (B', Inr x) = buffers_evolve B B'"
  by (simp add: js_result_def)

lemma js_result_bind:
  assumes "js_result B r" "\<And>B' x. r = (B', Inr x) \<Longrightarrow> buffers_evolve B B' \<Longrightarrow> js_result B' (f B' x)"
  shows "js_result B (bindS r f)"
proof (cases r)
  case (Pair B' x)
  show ?thesis
  proof (cases x)
    case (Inr y)
    have "buffers_evolve B B'" using assms(1) Pair by (simp add: js_result_def)
    then show ?thesis
      using assms(2) [of B' y] Pair Inr evolve_trans by (auto simp: js_result_def)
  qed (use assms(1) Pair in \<open>simp add: js_result_def\<close>)
qed

lemma elem_or_ok: "tao_ok B a \<Longrightarrow> \<exists>v. elem_or d B a k = Inr v"
  using tao_get_ok [of B a k] by (auto simp: elem_or_def)

lemma js_elem_or: "tao_ok B a \<Longrightarrow> js_result B (B, elem_or d B a k)"
  using elem_or_ok [of B a d k] by auto

lemma callback_js: "callback_ok cb \<Longrightarrow> js_result B (cb B v k)"
  by (simp add: callback_ok_def)

lemma js_result_then:
  assumes "tao_ok B a" "js_result B (B, r)" "\<And>x. r = Inr x \<Longrightarrow> js_result B (f B x)"
  shows "js_result B (bindS (B, r) f)"
  using assms by (intro js_result_bind) auto

lemma loops_js:
  assumes "callback_ok cb" "tao_ok B a"
  shows "js_result B (every_loop cb a ks B)" "js_result B (some_loop cb a ks B)"
    "js_result B (find_loop cb a ks B)" "js_result B (findIndex_loop cb a ks B)"
    "js_result B (forEach_loop cb a ks B)"
  using assms(2)
proof (induction ks arbitrary: B)
  case (Cons k ks)
  note c = callback_js [OF assms(1)]
  {
    case 1
    show ?case unfolding every_loop.simps
      by (intro js_result_bind js_elem_or [OF 1] c) (auto intro!: Cons.IH(1) tao_ok_evolve [OF 1])
  next
    case 2
    show ?case unfolding some_loop.simps
      by (intro js_result_bind js_elem_or [OF 2] c) (auto intro!: Cons.IH(2) tao_ok_evolve [OF 2])
  next
    case 3
    show ?case unfolding find_loop.simps
      by (intro js_result_bind js_elem_or [OF 3] c) (auto intro!: Cons.IH(3) tao_ok_evolve [OF 3])
  next
    case 4
    show ?case unfolding findIndex_loop.simps
      by (intro js_result_bind js_elem_or [OF 4] c) (auto intro!: Cons.IH(4) tao_ok_evolve [OF 4])
  next
    case 5
    show ?case unfolding forEach_loop.simps
      by (intro js_result_bind js_elem_or [OF 5] c) (auto intro!: Cons.IH(5) tao_ok_evolve [OF 5])
  }
qed simp_all

lemma reduce_js:
  assumes "\<And>acc. callback_ok (cb acc)" "tao_ok B a"
  shows "js_result B (reduce_loop cb a ks acc B)"
  using assms(2)
proof (induction ks arbitrary: acc B)
  case (Cons k ks)
  show ?case unfolding reduce_loop.simps
    by (intro js_result_bind js_elem_or [OF Cons.prems] callback_js [OF assms(1)])
      (auto intro!: Cons.IH tao_ok_evolve [OF Cons.prems])
qed simp

lemma filter_js:
  assumes "callback_ok cb" "tao_ok B a"
  shows "js_result B (filter_loop cb a ks buf n B)"
  using assms(2)
proof (induction ks arbitrary: buf n B)
  case (Cons k ks)
  let ?i = "(tao_offset a + k) * int (tao_size a)"
  let ?first = "if isValidIntegerIndex B a k then
      bindR (tao_get B a k) (\<lambda>v. if int (length (tao_data B a)) < ?i then Inl GoPanic
        else Inr (Some v, take (tao_size a) (drop (nat ?i) (tao_data B a))))
    else Inr (Some VUndefined, replicate (tao_size a) 0)"
  have "js_result B (B, ?first)"
  proof (cases "isValidIntegerIndex B a k")
    case True
    then have "inside (tao_size a) (tao_data B a) ?i"
      using valid_inside [OF Cons.prems] by (simp add: elem_inside_iff)
    then show ?thesis using True tao_get_ok [OF Cons.prems True] by (auto simp: inside_def)
  qed simp
  then show ?case unfolding filter_loop.simps Let_def
    by (intro js_result_bind) (auto intro!: Cons.IH tao_ok_evolve [OF Cons.prems] js_result_bind
        callback_js [OF assms(1)])
qed simp
section \<open>Methods without a callback\<close>

definition relToIdx :: "int \<Rightarrow> int \<Rightarrow> int" where
  "relToIdx rel l = (if 0 \<le> rel then min rel l else max (l + rel) 0)"

lemma relToIdx_range: "0 \<le> l \<Longrightarrow> 0 \<le> relToIdx rel l \<and> relToIdx rel l \<le> l"
  by (auto simp: relToIdx_def)

text \<open>Go's \<open>copy(dst, src)\<close>: as many bytes as both have; the result is the new \<open>dst\<close>.\<close>

definition go_copy :: "bytes \<Rightarrow> bytes \<Rightarrow> bytes" where
  "go_copy dst src = take (length dst) src @ drop (length src) dst"

lemma length_go_copy [simp]: "length (go_copy dst src) = length dst"
  by (simp add: go_copy_def)

text \<open>\<open>data[from:to]\<close> and \<open>data[from:]\<close>.\<close>

definition subslice :: "bytes \<Rightarrow> int \<Rightarrow> int \<Rightarrow> go_error + bytes" where
  "subslice d from to =
     (if 0 \<le> from \<and> from \<le> to \<and> to \<le> int (length d)
      then Inr (take (nat (to - from)) (drop (nat from) d)) else Inl GoPanic)"

text \<open>\<open>copy(data[p:], s)\<close>.\<close>

definition copy_at :: "bytes \<Rightarrow> int \<Rightarrow> bytes \<Rightarrow> go_error + bytes" where
  "copy_at d p s =
     bindR (subslice d p (int (length d))) (\<lambda>dst. Inr (take (nat p) d @ go_copy dst s))"

text \<open>The second or third argument, the length when it is missing.\<close>

definition rel_arg :: "host \<Rightarrow> jsval \<Rightarrow> int \<Rightarrow> go_error + int" where
  "rel_arg h v l = (if v \<noteq> VUndefined then ToInteger h v else Inr l)"

text \<open>
  \<open>ArrayBuffer.prototype.slice\<close>; \<open>species\<close> creates the result, an \<open>ArrayBuffer\<close> or
  something else (\<open>None\<close>).
\<close>

definition arrayBufferProto_slice :: "host \<Rightarrow> buffers \<Rightarrow> nat \<Rightarrow> jsval list
    \<Rightarrow> (buffers \<Rightarrow> int \<Rightarrow> (buffers, nat option) outcome) \<Rightarrow> (buffers, nat) outcome" where
  "arrayBufferProto_slice h B b args species =
     (let l = int (length (ab_bytes (B b))) in
      bindS (B, ToInteger h (Argument args 0)) (\<lambda>B rel0.
        bindS (B, rel_arg h (Argument args 1) l) (\<lambda>B rel1.
          let start = relToIdx rel0 l; stop = relToIdx rel1 l; newLen = max (stop - start) 0 in
          bindS (species B newLen) (\<lambda>B ret.
            case ret of
              None \<Rightarrow> (B, Inl TypeErr)
            | Some r \<Rightarrow>
                if 0 < newLen then
                  bindS (B, ensureNotDetached (B b) True) (\<lambda>B _.
                    if r = b then (B, Inl TypeErr)
                    else if int (length (ab_bytes (B r))) < newLen then (B, Inl TypeErr)
                    else bindS (B, ensureNotDetached (B r) True) (\<lambda>B _.
                      bindS (B, subslice (ab_bytes (B b)) start stop) (\<lambda>B s.
                        (B(r := with_data (B r) (go_copy (ab_bytes (B r)) s)), Inr r))))
                else (B, Inr r)))))"

definition typedArrayProto_getByteLen :: "buffers \<Rightarrow> typedArrayObject \<Rightarrow> jsval" where
  "typedArrayProto_getByteLen B a =
     (if ab_data (B (tao_buf a)) = None then VInt 0 else intToValue (tao_length a * int (tao_size a)))"

definition typedArrayProto_getLength :: "buffers \<Rightarrow> typedArrayObject \<Rightarrow> jsval" where
  "typedArrayProto_getLength B a =
     (if ab_data (B (tao_buf a)) = None then VInt 0 else intToValue (tao_length a))"

definition typedArrayProto_getByteOffset :: "buffers \<Rightarrow> typedArrayObject \<Rightarrow> jsval" where
  "typedArrayProto_getByteOffset B a =
     (if ab_data (B (tao_buf a)) = None then VInt 0 else intToValue (tao_offset a * int (tao_size a)))"

text \<open>The destination of \<open>copy\<close> in \<open>copyWithin\<close> reaches to the end of the buffer.\<close>

definition typedArrayProto_copyWithin :: "host \<Rightarrow> buffers \<Rightarrow> typedArrayObject \<Rightarrow> jsval list \<Rightarrow> go_error + buffers" where
  "typedArrayProto_copyWithin h B a args =
     (let l = tao_length a; offset = tao_offset a; elemSize = int (tao_size a) in
      bindR (tao_check B a) (\<lambda>_.
      bindR (ToInteger h (Argument args 0)) (\<lambda>rel0.
      bindR (ToInteger h (Argument args 1)) (\<lambda>rel1.
      bindR (rel_arg h (Argument args 2) l) (\<lambda>relEnd.
        let to = relToIdx rel0 l; from = relToIdx rel1 l; final = relToIdx relEnd l; d = tao_data B a in
        if from < final then
          bindR (tao_check B a) (\<lambda>_.
            bindR (subslice d ((offset + from) * elemSize) ((offset + final) * elemSize)) (\<lambda>s.
              mapR (upd_data B a) (copy_at d ((offset + to) * elemSize) s)))
        else Inr B)))))"

fun fill_loop :: "typedArrayObject \<Rightarrow> nat \<Rightarrow> int list \<Rightarrow> buffers \<Rightarrow> go_error + buffers" where
  "fill_loop a raw [] B = Inr B"
| "fill_loop a raw (k # ks) B = bindR (tao_setRaw B a k raw) (fill_loop a raw ks)"

definition typedArrayProto_fill :: "host \<Rightarrow> buffers \<Rightarrow> typedArrayObject \<Rightarrow> jsval list \<Rightarrow> go_error + buffers" where
  "typedArrayProto_fill h B a args =
     (let l = tao_length a in
      bindR (tao_check B a) (\<lambda>_.
      bindR (ToInteger h (Argument args 1)) (\<lambda>rel.
      bindR (rel_arg h (Argument args 2) l) (\<lambda>relEnd.
      bindR (ta_toRaw (tao_methods a) h (Argument args 0)) (\<lambda>raw.
      bindR (tao_check B a) (\<lambda>_.
        fill_loop a raw [relToIdx rel l .. relToIdx relEnd l - 1] B))))))"

text \<open>\<open>searchElement == _negativeZero\<close> is a comparison of Go interfaces, by value.\<close>

definition no_neg_zero :: "jsval \<Rightarrow> jsval" where
  "no_neg_zero v = (case v of VFloat f \<Rightarrow> if f_isZero f then VInt 0 else v | _ \<Rightarrow> v)"

text \<open>The first index of the list at which the raw bytes are \<open>se\<close>.\<close>

fun raw_index :: "buffers \<Rightarrow> typedArrayObject \<Rightarrow> nat \<Rightarrow> int list \<Rightarrow> go_error + int option" where
  "raw_index B a se [] = Inr None"
| "raw_index B a se (k # ks) =
     bindR (ta_getRaw (tao_methods a) (tao_data B a) (tao_offset a + k)) (\<lambda>raw.
       if raw = se then Inr (Some k) else raw_index B a se ks)"

definition typedArrayProto_includes :: "host \<Rightarrow> buffers \<Rightarrow> typedArrayObject \<Rightarrow> jsval list \<Rightarrow> go_error + bool" where
  "typedArrayProto_includes h B a args =
     bindR (tao_check B a) (\<lambda>_.
       let len = tao_length a in
       if len = 0 then Inr False
       else bindR (ToInteger h (Argument args 1)) (\<lambda>n.
         if len \<le> n then Inr False
         else
           let startIdx = (if n < 0 then max (len + n) 0 else n);
             searchElement = no_neg_zero (Argument args 0) in
           if tao_detached B a then Inr (searchElement = VUndefined \<and> startIdx < len)
           else if ta_typeMatch (tao_methods a) searchElement then
             bindR (ta_toRaw (tao_methods a) h searchElement) (\<lambda>se.
               mapR (\<lambda>r. r \<noteq> None) (raw_index B a se [startIdx .. len - 1]))
           else Inr False))"

definition typedArrayProto_at :: "host \<Rightarrow> buffers \<Rightarrow> typedArrayObject \<Rightarrow> jsval list \<Rightarrow> go_error + jsval" where
  "typedArrayProto_at h B a args =
     bindR (tao_check B a) (\<lambda>_.
     bindR (ToInteger h (Argument args 0)) (\<lambda>idx.
       let len = tao_length a; idx = (if idx < 0 then len + idx else idx) in
       if len \<le> idx \<or> idx < 0 then Inr VUndefined
       else if \<not> tao_detached B a then tao_get B a idx
       else Inr VUndefined))"

definition is_NaN :: "jsval \<Rightarrow> bool" where
  "is_NaN v = (case v of VFloat f \<Rightarrow> f_isNaN f | _ \<Rightarrow> False)"

definition idx_result :: "int option \<Rightarrow> jsval" where
  "idx_result r = (case r of Some k \<Rightarrow> intToValue k | None \<Rightarrow> VInt (- 1))"

text \<open>The part \<open>indexOf\<close> and \<open>lastIndexOf\<close> share.\<close>

definition raw_search :: "host \<Rightarrow> buffers \<Rightarrow> typedArrayObject \<Rightarrow> jsval \<Rightarrow> int list \<Rightarrow> go_error + jsval" where
  "raw_search h B a v ks =
     (if \<not> tao_detached B a then
        (let searchElement = no_neg_zero v in
         if \<not> is_NaN searchElement \<and> ta_typeMatch (tao_methods a) searchElement then
           bindR (ta_toRaw (tao_methods a) h searchElement) (\<lambda>se. mapR idx_result (raw_index B a se ks))
         else Inr (VInt (- 1)))
      else Inr (VInt (- 1)))"

definition typedArrayProto_indexOf :: "host \<Rightarrow> buffers \<Rightarrow> typedArrayObject \<Rightarrow> jsval list \<Rightarrow> go_error + jsval" where
  "typedArrayProto_indexOf h B a args =
     bindR (tao_check B a) (\<lambda>_.
       let len = tao_length a in
       if len = 0 then Inr (VInt (- 1))
       else bindR (ToInteger h (Argument args 1)) (\<lambda>n.
         if len \<le> n then Inr (VInt (- 1))
         else raw_search h B a (Argument args 0) [(if n < 0 then max (len + n) 0 else n) .. len - 1]))"

definition typedArrayProto_lastIndexOf :: "host \<Rightarrow> buffers \<Rightarrow> typedArrayObject \<Rightarrow> jsval list \<Rightarrow> go_error + jsval" where
  "typedArrayProto_lastIndexOf h B a args =
     bindR (tao_check B a) (\<lambda>_.
       let len = tao_length a in
       if len = 0 then Inr (VInt (- 1))
       else bindR (if length args < 2 then Inr (len - 1)
                   else mapR (\<lambda>f. if 0 \<le> f then min f (len - 1) else if f + len < 0 then - 1 else f + len)
                     (ToInteger h (Argument args 1))) (\<lambda>fromIndex.
         raw_search h B a (Argument args 0) (rev [0 .. fromIndex])))"

fun reverse_loop :: "typedArrayObject \<Rightarrow> int list \<Rightarrow> buffers \<Rightarrow> go_error + buffers" where
  "reverse_loop a [] B = Inr B"
| "reverse_loop a (lower # ks) B =
     bindR (tao_swap B a lower (tao_length a - lower - 1)) (reverse_loop a ks)"

definition typedArrayProto_reverse :: "buffers \<Rightarrow> typedArrayObject \<Rightarrow> go_error + buffers" where
  "typedArrayProto_reverse B a =
     bindR (tao_check B a) (\<lambda>_. reverse_loop a (map int [0..<nat (tao_length a) div 2]) B)"

text \<open>The comparison and exchange that \<open>sort.Stable\<close> is given.\<close>

record typedArraySortCtx =
  sc_ta :: typedArrayObject
  sc_compare :: "(buffers \<Rightarrow> jsval \<Rightarrow> jsval \<Rightarrow> (buffers, jsval) outcome) option"
  sc_needValidate :: bool
  sc_detached :: bool

definition checkDetached :: "buffers \<Rightarrow> typedArraySortCtx \<Rightarrow> typedArraySortCtx" where
  "checkDetached B ctx =
     (if \<not> sc_detached ctx \<and> sc_needValidate ctx
      then ctx\<lparr>sc_detached := tao_detached B (sc_ta ctx), sc_needValidate := False\<rparr> else ctx)"

definition sort_order :: "host \<Rightarrow> jsval \<Rightarrow> go_error + bool" where
  "sort_order h res =
     (case res of
        VInt i \<Rightarrow> Inr (i < 0)
      | _ \<Rightarrow> bindR (ToFloat h res) (\<lambda>f.
          Inr (if f_lt f (f_zero False) then True
               else if f_lt (f_zero False) f then False
               else f_signbit f)))"

definition sort_Less :: "host \<Rightarrow> buffers \<Rightarrow> typedArraySortCtx \<Rightarrow> int \<Rightarrow> int
    \<Rightarrow> (buffers \<times> typedArraySortCtx) \<times> (go_error + bool)" where
  "sort_Less h B ctx i j =
     (let ctx = checkDetached B ctx; a = sc_ta ctx in
      if sc_detached ctx then ((B, ctx), Inr False)
      else case sc_compare ctx of
        Some cmp \<Rightarrow>
          bindS ((B, ctx), tao_get B a i) (\<lambda>(B, ctx) x.
            bindS ((B, ctx), tao_get B a j) (\<lambda>(B, ctx) y.
              case cmp B x y of
                (B', Inl e) \<Rightarrow> ((B', ctx), Inl e)
              | (B', Inr r) \<Rightarrow>
                  bindS ((B', ctx), ToNumber h r) (\<lambda>(B, ctx) n.
                    ((B, ctx\<lparr>sc_needValidate := True\<rparr>), sort_order h n))))
      | None \<Rightarrow>
          ((B, ctx), ta_less (tao_methods a) (tao_data B a) (tao_offset a + i) (tao_offset a + j)))"

definition sort_Swap :: "buffers \<Rightarrow> typedArraySortCtx \<Rightarrow> int \<Rightarrow> int
    \<Rightarrow> (buffers \<times> typedArraySortCtx) \<times> (go_error + unit)" where
  "sort_Swap B ctx i j =
     (let ctx = checkDetached B ctx in
      if sc_detached ctx then ((B, ctx), Inr ())
      else case tao_swap B (sc_ta ctx) i j of
        Inl e \<Rightarrow> ((B, ctx), Inl e)
      | Inr B' \<Rightarrow> ((B', ctx), Inr ()))"
section \<open>No access outside the buffers\<close>

named_theorems js_intros "results that are JavaScript errors or proper values"

definition js_only :: "go_error + 'a \<Rightarrow> bool" where
  "js_only r \<longleftrightarrow> (\<forall>e. r = Inl e \<longrightarrow> \<not> not_js e)"

definition js_upd :: "buffers \<Rightarrow> go_error + buffers \<Rightarrow> bool" where
  "js_upd B r \<longleftrightarrow> js_only r \<and> (\<forall>B'. r = Inr B' \<longrightarrow> buffers_evolve B B')"

lemma js_only_simps [simp]: "js_only (Inr x)" "js_only (Inl e) = (\<not> not_js e)"
  by (simp_all add: js_only_def)

lemma js_upd_simps [simp]: "js_upd B (Inr B') = buffers_evolve B B'" "js_upd B (Inl e) = (\<not> not_js e)"
  by (auto simp: js_upd_def)

lemma js_only_bind [js_intros]: "js_only r \<Longrightarrow> (\<And>x. r = Inr x \<Longrightarrow> js_only (f x)) \<Longrightarrow> js_only (bindR r f)"
  by (cases r) auto

lemma js_upd_bind [js_intros]: "js_only r \<Longrightarrow> (\<And>x. r = Inr x \<Longrightarrow> js_upd B (f x)) \<Longrightarrow> js_upd B (bindR r f)"
  by (cases r) auto

lemma js_only_map [js_intros]: "js_only r \<Longrightarrow> js_only (mapR f r)"
  by (cases r) auto

lemma js_check [js_intros]: "js_only (tao_check B a)"
  by (simp add: tao_check_def ensureNotDetached_def)

lemma tao_check_Inr: "tao_check B a = Inr x \<Longrightarrow> \<not> tao_detached B a"
  by (auto simp: tao_check_def ensureNotDetached_def tao_detached_def split: if_splits)

text \<open>The conversion methods of a user's object raise JavaScript errors only.\<close>

definition host_ok :: "host \<Rightarrow> bool" where
  "host_ok h \<longleftrightarrow> (\<forall>x s r. (h_exotic h x s = Some r \<or> h_method h x s = Some r) \<longrightarrow> js_only r)"

lemma host_ok_host0: "host_ok host0"
  by (simp add: host_ok_def host0_def)

lemma js_tryPrimitive: "host_ok h \<Longrightarrow> js_only (tryPrimitive h x s)"
  by (auto simp: tryPrimitive_def host_ok_def split: option.split intro!: js_only_map)

lemma js_toPrimitiveNumber:
  assumes "host_ok h"
  shows "js_only (toPrimitiveNumber h x)"
proof -
  have e: "js_only (tryExoticToPrimitive h x s)" for s
    using assms by (auto simp: tryExoticToPrimitive_def host_ok_def split: option.split intro!: js_only_bind)
  have o: "js_only (ordinaryToPrimitiveNumber h x)"
    unfolding ordinaryToPrimitiveNumber_def
    by (intro js_only_bind js_tryPrimitive assms) (auto split: option.split intro!: js_only_bind js_tryPrimitive assms)
  show ?thesis
    unfolding toPrimitiveNumber_def
    by (intro js_only_bind e) (auto split: option.split intro: o)
qed

lemma js_prim: "\<not> is_object v \<Longrightarrow> js_only (ToNumber_prim v)" "\<not> is_object v \<Longrightarrow> js_only (ToFloat_prim v)"
  "\<not> is_object v \<Longrightarrow> js_only (ToInteger_prim v)" "js_only (toBigInt_prim h v)"
  by (cases v; simp split: option.split)+

lemma ToNumber_prim_not_object: "ToNumber_prim p = Inr v \<Longrightarrow> \<not> is_object v"
proof -
  have i: "\<not> is_object (intToValue i)" for i by (simp add: intToValue_def Let_def)
  have f: "\<not> is_object (floatToValue f)" for f
    by (auto simp: floatToValue_def negativeZero_def i split: option.split)
  have s: "\<not> is_object (asciiString_ToNumber s)" for s
    by (auto simp: asciiString_ToNumber_def Let_def i f split: sum.split)
  show "ToNumber_prim p = Inr v \<Longrightarrow> \<not> is_object v"
    by (cases p) (auto simp: String_ToNumber_def unicodeString_ToNumber_def s i split: if_splits)
qed

lemma js_conversions [js_intros]:
  assumes "host_ok h"
  shows "js_only (ToNumber h v)" "js_only (ToFloat h v)" "js_only (ToInteger h v)" "js_only (toBigInt h v)"
proof -
  note p = js_toPrimitiveNumber [OF assms] and q = toPrimitive_prim(1)
  show "js_only (ToNumber h v)"
    by (cases "is_object v") (auto simp: js_prim ToNumber_def split: jsval.splits intro!: js_only_bind p js_prim dest: q)
  show "js_only (ToFloat h v)"
    by (cases "is_object v") (auto simp: js_prim ToFloat_def split: jsval.splits intro!: js_only_bind p js_prim dest: q)
  show "js_only (ToInteger h v)"
    by (cases "is_object v") (auto simp: js_prim ToInteger_def split: jsval.splits
        intro!: js_only_bind p js_prim dest: q ToNumber_prim_not_object)
  show "js_only (toBigInt h v)"
    by (cases v) (auto simp: toBigInt_def intro!: js_only_bind p js_prim split: option.split)
qed

lemma js_rel_arg [js_intros]: "host_ok h \<Longrightarrow> js_only (rel_arg h v l)"
  by (simp add: rel_arg_def js_conversions)

lemma js_toRaw [js_intros]: "host_ok h \<Longrightarrow> js_only (ta_toRaw (methods k) h v)"
  by (cases k) (auto simp: method_defs toUint8_def toUint8Clamp_def toInt8_def toUint16_def toInt16_def
      toUint32_def toInt32_def toFloat32_def toBigInt64_def toBigUint64_def intro!: js_only_map js_conversions)

lemma js_encode: "host_ok h \<Longrightarrow> js_only (encode k h v)"
  by (cases k) (auto simp: toUint8_def toUint8Clamp_def toInt8_def toUint16_def toInt16_def
      toUint32_def toInt32_def toFloat32_def toBigInt64_def toBigUint64_def intro!: js_only_map js_conversions)

lemma upd_data_evolve:
  "length d = length (tao_data B a) \<Longrightarrow> buffers_evolve B (upd_data B a d)"
  by (cases "ab_data (B (tao_buf a))")
    (auto simp: buffers_evolve_def upd_data_def with_data_def tao_data_def ab_bytes_def)

lemma js_store: "inside n (tao_data B a) off \<Longrightarrow> js_upd B (mapR (upd_data B a) (st n (tao_data B a) off x))"
  using st_ok [of n "tao_data B a" off x] upd_data_evolve [of _ B a] by auto

lemma js_tao_set:
  assumes "host_ok h" "tao_ok B a" "isValidIntegerIndex B a i"
  shows "js_upd B (tao_set h B a i v)"
proof -
  have "js_upd B (bindR (encode (tao_kind a) h v) (\<lambda>x. mapR (upd_data B a)
      (st (tao_size a) (tao_data B a) ((tao_offset a + i) * int (tao_size a)) x)))"
    using valid_inside [OF assms(2,3)] by (intro js_upd_bind js_encode assms(1) js_store) (simp add: elem_inside_iff)
  moreover have "mapR f (bindR r g) = bindR r (\<lambda>x. mapR f (g x))"
    for f :: "bytes \<Rightarrow> buffers" and r :: "go_error + nat" and g by (cases r) auto
  ultimately show ?thesis by (simp add: tao_set_def methods_set)
qed

lemma js_tao_swap:
  assumes "tao_ok B a" "isValidIntegerIndex B a i" "isValidIntegerIndex B a j"
  shows "js_upd B (tao_swap B a i j)"
  using swap_mem_ok [of "tao_size a" "tao_data B a"] valid_inside [OF assms(1,2)] valid_inside [OF assms(1,3)]
    upd_data_evolve [of _ B a]
  by (fastforce simp: tao_swap_def methods_swap elem_inside_iff)

lemma valid_evolve:
  "buffers_evolve B B' \<Longrightarrow> \<not> tao_detached B' a \<Longrightarrow> isValidIntegerIndex B a i \<Longrightarrow> isValidIntegerIndex B' a i"
  by (simp add: isValidIntegerIndex_def)

lemma upd_data_detached [simp]: "tao_detached (upd_data B a d) b = tao_detached B b"
  by (simp add: tao_detached_def upd_data_def with_data_def)

lemma js_fill_loop:
  assumes "tao_ok B a" "\<forall>k \<in> set ks. isValidIntegerIndex B a k"
  shows "js_upd B (fill_loop a raw ks B)"
  using assms
proof (induction ks arbitrary: B)
  case (Cons k ks)
  have "inside (tao_size a) (tao_data B a) ((tao_offset a + k) * int (tao_size a))"
    using valid_inside [OF Cons.prems(1)] Cons.prems(2) by (simp add: elem_inside_iff)
  then obtain d where d: "st (tao_size a) (tao_data B a) ((tao_offset a + k) * int (tao_size a)) raw = Inr d"
    "length d = length (tao_data B a)" using st_ok by blast
  let ?B = "upd_data B a d"
  have e: "buffers_evolve B ?B" using d(2) by (rule upd_data_evolve)
  have "js_upd ?B (fill_loop a raw ks ?B)"
    using Cons.prems tao_ok_evolve [OF Cons.prems(1) e]
    by (intro Cons.IH) (auto simp: isValidIntegerIndex_def)
  then show ?case
    using d(1) evolve_trans [OF e] by (auto simp: js_upd_def tao_setRaw_def methods_setRaw)
qed simp

lemma js_reverse_loop:
  assumes "tao_ok B a" "\<forall>k \<in> set ks. isValidIntegerIndex B a k"
  shows "js_upd B (reverse_loop a ks B)"
  using assms
proof (induction ks arbitrary: B)
  case (Cons k ks)
  let ?i = "(tao_offset a + k) * int (tao_size a)"
    and ?j = "(tao_offset a + (tao_length a - k - 1)) * int (tao_size a)"
  have "isValidIntegerIndex B a (tao_length a - k - 1)"
    using Cons.prems(2) by (auto simp: isValidIntegerIndex_def)
  then have "inside (tao_size a) (tao_data B a) ?i" "inside (tao_size a) (tao_data B a) ?j"
    using valid_inside [OF Cons.prems(1)] Cons.prems(2) by (simp_all add: elem_inside_iff [symmetric])
  then obtain d where d: "swap_mem (tao_size a) (tao_data B a) ?i ?j = Inr d"
    "length d = length (tao_data B a)" using swap_mem_ok by blast
  let ?B = "upd_data B a d"
  have e: "buffers_evolve B ?B" using d(2) by (rule upd_data_evolve)
  have "js_upd ?B (reverse_loop a ks ?B)"
    using Cons.prems tao_ok_evolve [OF Cons.prems(1) e]
    by (intro Cons.IH) (auto simp: isValidIntegerIndex_def)
  then show ?case
    using d(1) evolve_trans [OF e] by (auto simp: js_upd_def tao_swap_def methods_swap)
qed simp

lemma methods_getRaw_ok:
  assumes "tao_ok B a" "isValidIntegerIndex B a i"
  shows "\<exists>x. ta_getRaw (tao_methods a) (tao_data B a) (tao_offset a + i) = Inr x"
  using valid_inside [OF assms] ld_ok [of "tao_size a" "tao_data B a" "(tao_offset a + i) * int (tao_size a)"]
  unfolding elem_inside_iff by (cases "tao_kind a") (auto simp: method_defs)

lemma js_raw_index:
  "tao_ok B a \<Longrightarrow> \<forall>k \<in> set ks. isValidIntegerIndex B a k \<Longrightarrow> js_only (raw_index B a se ks)"
proof (induction ks)
  case (Cons k ks)
  then show ?case using methods_getRaw_ok [of B a k] by auto
qed simp

lemma js_copyWithin:
  assumes "host_ok h" "tao_ok B a"
  shows "js_upd B (typedArrayProto_copyWithin h B a args)"
proof -
  define l offset es d where "l = tao_length a" and "offset = tao_offset a" and "es = int (tao_size a)"
    and "d = tao_data B a"
  have step: "js_upd B (bindR (subslice d ((offset + fr) * es) ((offset + final) * es)) (\<lambda>s.
      mapR (upd_data B a) (copy_at d ((offset + to) * es) s)))"
    if "\<not> tao_detached B a" "0 \<le> fr" "fr < final" "final \<le> l" "0 \<le> to" "to \<le> l" for fr to final
  proof -
    note hyps = that
    have es: "0 < es" by (simp add: es_def)
    have n: "(offset + l) * es \<le> int (length d)" "0 \<le> offset"
      using assms(2) that(1) by (auto simp: tao_ok_def offset_def l_def es_def d_def)
    have m: "(offset + i) * es \<le> (offset + l) * es" "0 \<le> (offset + i) * es" if "0 \<le> i" "i \<le> l" for i
      using that n(2) es by (auto intro!: mult_right_mono)
    have "(offset + fr) * es \<le> (offset + final) * es" using that(3) es by (intro mult_right_mono) auto
    moreover have "(offset + final) * es \<le> int (length d)" using m(1) [of final] n(1) that by linarith
    ultimately obtain s where s: "subslice d ((offset + fr) * es) ((offset + final) * es) = Inr s"
      using m(2) [OF hyps(2)] hyps(3,4) by (auto simp: subslice_def)
    have t: "0 \<le> (offset + to) * es" "(offset + to) * es \<le> int (length d)"
      using m [of to] n(1) that by auto
    then obtain d' where d': "copy_at d ((offset + to) * es) s = Inr d'" "length d' = length d"
      by (auto simp: copy_at_def subslice_def)
    then show ?thesis using s upd_data_evolve [of d' B a] by (simp add: d_def)
  qed
  have l: "0 \<le> l" using assms(2) by (simp add: tao_ok_def l_def)
  show ?thesis
    unfolding typedArrayProto_copyWithin_def Let_def l_def [symmetric] offset_def [symmetric]
      es_def [symmetric] d_def [symmetric]
    by (intro js_upd_bind js_intros assms(1))
      (auto intro!: js_upd_bind [OF js_check] step dest: tao_check_Inr simp: relToIdx_range [OF l])
qed

lemma upto_range_valid:
  "\<not> tao_detached B a \<Longrightarrow> 0 \<le> i \<Longrightarrow> j < tao_length a \<Longrightarrow> \<forall>k \<in> set [i..j]. isValidIntegerIndex B a k"
  by (auto simp: isValidIntegerIndex_def)

lemma js_fill:
  assumes "host_ok h" "tao_ok B a"
  shows "js_upd B (typedArrayProto_fill h B a args)"
proof -
  have l: "0 \<le> tao_length a" using assms(2) by (simp add: tao_ok_def)
  have "js_upd B (fill_loop a raw [relToIdx rel (tao_length a) .. relToIdx e (tao_length a) - 1] B)"
    if "\<not> tao_detached B a" for raw rel e
    using relToIdx_range [OF l, of rel] relToIdx_range [OF l, of e]
    by (intro js_fill_loop assms(2) upto_range_valid that) auto
  then show ?thesis
    unfolding typedArrayProto_fill_def Let_def
    by (intro js_upd_bind js_intros assms(1)) (auto dest: tao_check_Inr)
qed

lemma js_reverse:
  assumes "tao_ok B a"
  shows "js_upd B (typedArrayProto_reverse B a)"
  unfolding typedArrayProto_reverse_def
  by (intro js_upd_bind js_intros js_reverse_loop assms)
    (auto dest!: tao_check_Inr simp: isValidIntegerIndex_def)

lemma js_raw_search:
  assumes "host_ok h" "tao_ok B a" "\<not> tao_detached B a \<Longrightarrow> \<forall>k \<in> set ks. isValidIntegerIndex B a k"
  shows "js_only (raw_search h B a v ks)"
  unfolding raw_search_def Let_def
  using assms by (auto intro!: js_only_bind js_only_map js_toRaw js_raw_index)

lemma js_searches:
  assumes "host_ok h" "tao_ok B a"
  shows "js_only (typedArrayProto_includes h B a args)" "js_only (typedArrayProto_indexOf h B a args)"
    "js_only (typedArrayProto_lastIndexOf h B a args)" "js_only (typedArrayProto_at h B a args)"
proof -
  note c = js_conversions(3) [OF assms(1)]
  show "js_only (typedArrayProto_includes h B a args)"
    unfolding typedArrayProto_includes_def Let_def
    by (intro js_only_bind js_check)
      (auto intro!: js_only_bind js_only_map js_toRaw js_raw_index c assms simp: isValidIntegerIndex_def)
  show "js_only (typedArrayProto_indexOf h B a args)"
    unfolding typedArrayProto_indexOf_def Let_def
    by (intro js_only_bind js_check)
      (auto intro!: js_only_bind js_raw_search c assms simp: isValidIntegerIndex_def)
  let ?from = "if length args < 2 then Inr (tao_length a - 1)
      else mapR (\<lambda>f. if 0 \<le> f then min f (tao_length a - 1) else if f + tao_length a < 0 then - 1
        else f + tao_length a) (ToInteger h (Argument args 1))"
  have first: "js_only ?from" by (simp add: js_only_map c)
  have range: "i < tao_length a" if "?from = Inr i" "tao_length a \<noteq> 0" for i
    using that assms(2) by (auto simp: tao_ok_def mapR_def split: if_splits sum.splits)
  have "js_only (bindR ?from (\<lambda>i. raw_search h B a (Argument args 0) (rev [0 .. i])))"
    if "tao_length a \<noteq> 0"
    by (intro js_only_bind first js_raw_search assms)
      (use range [OF _ that] in \<open>auto simp: isValidIntegerIndex_def\<close>)
  then show "js_only (typedArrayProto_lastIndexOf h B a args)"
    unfolding typedArrayProto_lastIndexOf_def Let_def
    by (intro js_only_bind js_check) (cases "tao_length a = 0"; simp only: if_True if_False js_only_simps simp_thms)
  show "js_only (typedArrayProto_at h B a args)"
    unfolding typedArrayProto_at_def Let_def
  proof (intro js_only_bind js_check c)
    fix i
    define k where "k = (if i < 0 then tao_length a + i else i)"
    show "js_only (if tao_length a \<le> k \<or> k < 0 then Inr VUndefined
        else if \<not> tao_detached B a then tao_get B a k else Inr VUndefined)"
      using tao_get_ok [OF assms(2), of k] by (auto simp: isValidIntegerIndex_def)
  qed
qed

text \<open>\<open>Less\<close> and \<open>Swap\<close> notice a buffer that the comparison function has detached.\<close>

definition ctx_ok :: "buffers \<Rightarrow> typedArraySortCtx \<Rightarrow> bool" where
  "ctx_ok B ctx \<longleftrightarrow> tao_ok B (sc_ta ctx)
     \<and> (\<not> sc_detached ctx \<and> \<not> sc_needValidate ctx \<longrightarrow> \<not> tao_detached B (sc_ta ctx))
     \<and> (\<forall>cmp. sc_compare ctx = Some cmp \<longrightarrow> (\<forall>B x y. js_result B (cmp B x y)))"

definition sort_step_ok :: "buffers \<Rightarrow> (buffers \<times> typedArraySortCtx) \<times> (go_error + 'a) \<Rightarrow> bool" where
  "sort_step_ok B r \<longleftrightarrow> buffers_evolve B (fst (fst r)) \<and> js_only (snd r)
     \<and> (ok_result (snd r) \<longrightarrow> ctx_ok (fst (fst r)) (snd (fst r)))"

lemma ctx_check:
  assumes "ctx_ok B ctx"
  shows "ctx_ok B (checkDetached B ctx)" "sc_ta (checkDetached B ctx) = sc_ta ctx"
    "sc_detached (checkDetached B ctx) \<or> \<not> tao_detached B (sc_ta ctx)"
    "sc_compare (checkDetached B ctx) = sc_compare ctx"
  using assms by (auto simp: ctx_ok_def checkDetached_def)

lemma ctx_evolve: "ctx_ok B ctx \<Longrightarrow> buffers_evolve B B' \<Longrightarrow> ctx_ok B' (ctx\<lparr>sc_needValidate := True\<rparr>)"
  using tao_ok_evolve by (auto simp: ctx_ok_def)

lemma ToNumber_is_number: "ToNumber h r = Inr n \<Longrightarrow> \<not> is_object n"
  by (cases r) (auto simp: ToNumber_def bindR_Inr_iff simp del: ToNumber_prim.simps
      dest: ToNumber_prim_not_object)

lemma js_sort_order: "\<not> is_object n \<Longrightarrow> js_only (sort_order h n)"
  by (cases n) (auto simp: sort_order_def intro!: js_only_bind)

lemma sort_Less_ok:
  assumes "ctx_ok B ctx" "host_ok h" "0 \<le> i" "i < tao_length (sc_ta ctx)" "0 \<le> j" "j < tao_length (sc_ta ctx)"
  shows "sort_step_ok B (sort_Less h B ctx i j)"
proof -
  define c where "c = checkDetached B ctx"
  define a where "a = sc_ta ctx"
  note c = ctx_check [OF assms(1), folded c_def a_def]
  show ?thesis
  proof (cases "sc_detached c")
    case True
    then show ?thesis using c(1) by (simp add: sort_Less_def Let_def c_def [symmetric] sort_step_ok_def)
  next
    case False
    have ok: "tao_ok B a" using assms(1) by (simp add: ctx_ok_def a_def)
    have v: "isValidIntegerIndex B a i" "isValidIntegerIndex B a j"
      using c(3) False assms by (auto simp: isValidIntegerIndex_def a_def)
    show ?thesis
    proof (cases "sc_compare c")
      case None
      obtain x y where "ld (tao_size a) (tao_data B a) ((tao_offset a + i) * int (tao_size a)) = Inr x"
        "ld (tao_size a) (tao_data B a) ((tao_offset a + j) * int (tao_size a)) = Inr y"
        using valid_inside [OF ok v(1)] valid_inside [OF ok v(2)] ld_ok unfolding elem_inside_iff by metis
      then have "\<exists>r. ta_less (tao_methods a) (tao_data B a) (tao_offset a + i) (tao_offset a + j) = Inr r"
        by (cases "tao_kind a") (auto simp: method_defs)
      then show ?thesis
        using False None c by (auto simp: sort_Less_def Let_def c_def [symmetric] sort_step_ok_def a_def)
    next
      case (Some cmp)
      obtain x y where xy: "tao_get B a i = Inr x" "tao_get B a j = Inr y"
        using tao_get_ok [OF ok v(1)] tao_get_ok [OF ok v(2)] by blast
      obtain B' r where r: "cmp B x y = (B', r)" by fastforce
      have js: "buffers_evolve B B'" "\<And>e. r = Inl e \<Longrightarrow> \<not> not_js e"
        using c(1) Some r unfolding ctx_ok_def js_result_def by (metis fst_conv, metis snd_conv)
      have res: "sort_Less h B ctx i j = (case r of Inl e \<Rightarrow> ((B', c), Inl e)
          | Inr r \<Rightarrow> bindS ((B', c), ToNumber h r) (\<lambda>(B, ctx) n.
              ((B, ctx\<lparr>sc_needValidate := True\<rparr>), sort_order h n)))"
        using False Some c(2) xy r by (auto simp: sort_Less_def Let_def c_def [symmetric] a_def split: sum.split)
      show ?thesis
      proof (cases r)
        case (Inl e)
        then show ?thesis using js unfolding res by (simp add: sort_step_ok_def)
      next
        case (Inr w)
        show ?thesis
        proof (cases "ToNumber h w")
          case (Inl e)
          then show ?thesis
            using js js_conversions(1) [OF assms(2), of w] unfolding res Inr by (simp add: sort_step_ok_def)
        next
          case (Inr n)
          then show ?thesis
            using js ctx_evolve [OF c(1) js(1)] js_sort_order [OF ToNumber_is_number [OF Inr]]
            unfolding res \<open>r = Inr w\<close> by (simp add: sort_step_ok_def)
        qed
      qed
    qed
  qed
qed

lemma sort_Swap_ok:
  assumes "ctx_ok B ctx" "0 \<le> i" "i < tao_length (sc_ta ctx)" "0 \<le> j" "j < tao_length (sc_ta ctx)"
  shows "sort_step_ok B (sort_Swap B ctx i j)"
proof -
  define c where "c = checkDetached B ctx"
  note c = ctx_check [OF assms(1), folded c_def]
  show ?thesis
  proof (cases "sc_detached c")
    case True
    then show ?thesis using c(1) by (simp add: sort_Swap_def Let_def c_def [symmetric] sort_step_ok_def)
  next
    case False
    have ok: "tao_ok B (sc_ta c)" using c(1) by (simp add: ctx_ok_def)
    have "isValidIntegerIndex B (sc_ta c) i" "isValidIntegerIndex B (sc_ta c) j"
      using c(2,3) False assms by (auto simp: isValidIntegerIndex_def)
    then have "js_upd B (tao_swap B (sc_ta c) i j)" by (rule js_tao_swap [OF ok])
    moreover have "ctx_ok B' c" if "tao_swap B (sc_ta c) i j = Inr B'" "buffers_evolve B B'" for B'
      using c that tao_ok_evolve [OF ok that(2)] False
      by (auto simp: ctx_ok_def tao_swap_def mapR_def split: sum.splits)
    ultimately show ?thesis
      using False by (auto simp: sort_Swap_def Let_def c_def [symmetric] sort_step_ok_def js_upd_def
          split: sum.split)
  qed
qed

text \<open>The methods with a callback, all at once.\<close>

lemma checked_js:
  assumes "\<And>c. cb = Some c \<Longrightarrow> js_result B (f c)"
  shows "js_result B (checked B a cb f)"
  using assms
  by (cases cb) (auto simp: checked_def tao_check_def ensureNotDetached_def js_result_def)

lemma js_reduce:
  assumes "tao_ok B a" "\<And>c acc. cb = Some c \<Longrightarrow> callback_ok (c acc)"
  shows "js_result B (typedArrayProto_reduce B a cb initial)"
    "js_result B (typedArrayProto_reduceRight B a cb initial)"
proof -
  have fst: "\<exists>v. tao_get B a i = Inr v" if "\<not> tao_detached B a" "0 < tao_length a" "i = 0 \<or> i = tao_length a - 1" for i
    using that by (intro tao_get_ok assms) (auto simp: isValidIntegerIndex_def)
  show "js_result B (typedArrayProto_reduce B a cb initial)"
  proof (cases "tao_detached B a \<or> cb = None")
    case True
    then show ?thesis
      by (auto simp: typedArrayProto_reduce_def checked_def tao_check_def ensureNotDetached_def
          tao_detached_def js_result_def)
  next
    case False
    then show ?thesis
      unfolding typedArrayProto_reduce_def
      using fst [of 0] assms
      by (intro checked_js) (auto split: option.split intro!: reduce_js simp: js_result_def [of _ "(_, Inl _)"])
  qed
  show "js_result B (typedArrayProto_reduceRight B a cb initial)"
  proof (cases "tao_detached B a \<or> cb = None")
    case True
    then show ?thesis
      by (auto simp: typedArrayProto_reduceRight_def checked_def tao_check_def ensureNotDetached_def
          tao_detached_def js_result_def)
  next
    case False
    then show ?thesis
      unfolding typedArrayProto_reduceRight_def
      using fst [of "tao_length a - 1"] assms
      by (intro checked_js) (auto split: option.split intro!: reduce_js simp: js_result_def [of _ "(_, Inl _)"])
  qed
qed


text \<open>Concrete arrays: four bytes, viewed whole and in part.\<close>

definition demo_buffers :: buffers where
  "demo_buffers = (\<lambda>_. \<lparr>ab_detached = False, ab_data = Some [1, 2, 3, 4]\<rparr>)"

definition demo_array :: "elemKind \<Rightarrow> int \<Rightarrow> typedArrayObject" where
  "demo_array k len = newTypedArrayObject 0 0 len k"

text \<open>A callback that detaches the buffer.\<close>

definition detaching :: callback where
  "detaching B v k = (B(0 := detach (B 0)), Inr (VBool True))"

lemma detaching_ok: "callback_ok detaching"
  by (auto simp: callback_ok_def detaching_def js_result_def buffers_evolve_def detach_def)

lemmas demo_defs = demo_buffers_def demo_array_def newTypedArrayObject_def tao_detached_def
  tao_data_def ab_bytes_def


text \<open>
  \<open>map\<close> is not safe: it stores the result of the callback without a check, so a callback that
  detaches the new array's buffer makes it write through a nil pointer.
\<close>

lemma map_writes_detached:
  "snd (typedArrayProto_map host0 demo_buffers (demo_array Uint8 4) (Some detaching)
     (\<lambda>B n. (B, Inr (demo_array Uint8 n)))) = Inl MemFault"
  by (simp add: typedArrayProto_map_def checked_def tao_check_def upto_length_def elem_or_def
      isValidIntegerIndex_def tao_get_def detaching_def detach_def tao_set_def demo_defs method_defs
      ld_def st_def inside_def toUint8_def num_to_int_def wrap_unsigned_def upt_rec)

text \<open>
  \<open>copyWithin\<close> writes past the end of an array that does not reach to the end of its buffer:
  \<open>new Uint8Array(buf, 0, 3).copyWithin(1, 0)\<close> changes the fourth byte.
\<close>

lemma copyWithin_past_end:
  "mapR (\<lambda>B. ab_bytes (B 0)) (typedArrayProto_copyWithin host0 demo_buffers (demo_array Uint8 3) [VInt 1, VInt 0])
     = Inr [1, 1, 2, 3]"
  by (simp add: typedArrayProto_copyWithin_def tao_check_def Argument_def rel_arg_def relToIdx_def
      subslice_def copy_at_def go_copy_def upd_data_def with_data_def demo_defs)

text \<open>A descriptor without a value makes \<open>_putIdx\<close> call a method of \<open>nil\<close>.\<close>

lemma define_without_value:
  "defineIdxProperty env0 demo_buffers (demo_array Uint8 4) True 0 (empty_desc\<lparr>pd_enumerable := FLAG_TRUE\<rparr>) True
     = Inl GoPanic"
proof -
  let ?d = "empty_desc\<lparr>pd_enumerable := FLAG_TRUE\<rparr>"
  have g: "tao_getOwnPropIdx demo_buffers (demo_array Uint8 4) 0 = Inr (Some (elem_prop (VInt 1)))"
    by (simp add: tao_getOwnPropIdx_def tao_getIdx_def tao_get_def demo_defs method_defs ld_def inside_def
        maxInt_def)
  have d: "\<exists>p. snd (base_defineOwnProperty env0 True (Some (elem_prop (VInt 1))) ?d True) = Inr (Some p)"
    by (simp add: elem_prop_def base_defineOwnProperty_def slot_prop_def define_rejected_def
        define_getter_def define_setter_def object_of_def empty_desc_def pd_IsAccessor_def pd_IsData_def
        flag_bool_def Let_def)
  have v: "isValidIntegerIndex demo_buffers (demo_array Uint8 4) 0" "\<not> is_big (tao_kind (demo_array Uint8 4))"
    by (simp_all add: isValidIntegerIndex_def demo_defs)
  show ?thesis
    using d v by (auto simp: defineIdxProperty_def g tao_putIdx_def empty_desc_def pd_IsAccessor_def)
qed

text \<open>\<open>includes\<close> compares modulo \<open>2^64\<close>, and \<open>indexOf\<close> tells \<open>-0\<close> from \<open>0\<close>.\<close>

definition zero_buffers :: "nat \<Rightarrow> buffers" where
  "zero_buffers x = (\<lambda>_. \<lparr>ab_detached = False, ab_data = Some (le_bytes 8 x)\<rparr>)"

lemma includes_modulo:
  "typedArrayProto_includes host0 (zero_buffers 0) (demo_array BigInt64 1) [VBigInt (2 ^ 64)] = Inr True"
proof -
  have l: "ld 8 (le_bytes 8 0) 0 = Inr 0" using le_nat_le_bytes [of 8 0] by (simp add: ld_def inside_def)
  have r: "toBigInt64 host0 (VBigInt 18446744073709551616) = Inr 0" by (simp add: toBigInt64_def toBigInt_def)
  show ?thesis
    by (simp add: typedArrayProto_includes_def tao_check_def Argument_def no_neg_zero_def zero_buffers_def
        bigInt64Array_def l r big_Uint64_def uint64_def to_signed_def wrap_signed_def demo_array_def
        newTypedArrayObject_def tao_detached_def tao_data_def ab_bytes_def wrap_unsigned_def
        del: le_bytes.simps)
qed

lemma indexOf_negative_zero:
  "typedArrayProto_indexOf host0 (zero_buffers (2 ^ 63)) (demo_array Float64 1) [VInt 0] = Inr (VInt (- 1))"
proof -
  have l: "ld 8 (le_bytes 8 (2 ^ 63)) 0 = Inr (2 ^ 63)"
    using le_nat_le_bytes [of 8 "2 ^ 63"] by (simp add: ld_def inside_def)
  then have l: "ld 8 (le_bytes 8 9223372036854775808) 0 = Inr 9223372036854775808" by simp
  have b: "Float64bits (f_of_int 0) = 0" by (simp add: f_of_int_0 f_zero_def)
  show ?thesis
    by (simp add: typedArrayProto_indexOf_def raw_search_def tao_check_def Argument_def no_neg_zero_def
        zero_buffers_def float64Array_def l b is_NaN_def is_number_def idx_result_def demo_array_def
        newTypedArrayObject_def tao_detached_def tao_data_def ab_bytes_def del: le_bytes.simps)
qed

end
