(* ===== verification/Typed_Array_Copy.thy ===== *)
theory Typed_Array_Copy
  imports Typed_Array_Objects
begin

text \<open>
  Construction of typed arrays and the methods that copy elements between them
  (\<open>builtin_typedarrays.go\<close>): \<open>set\<close> on arrays that may share a buffer, \<open>slice\<close>, \<open>with\<close>,
  \<open>toReversed\<close>, the constructors from a length, from an \<open>ArrayBuffer\<close> and from another typed
  array. \<open>addr\<close> gives the address of each buffer's first byte, which \<open>set\<close> and \<open>slice\<close>
  compare.
\<close>

section \<open>Construction\<close>

text \<open>\<open>allocByteSlice\<close>; \<open>room\<close> says which sizes the Go runtime can allocate.\<close>

definition allocByteSlice :: "(int \<Rightarrow> bool) \<Rightarrow> int \<Rightarrow> go_error + bytes" where
  "allocByteSlice room sz =
     (if sz < 0 then Inl RangeErr else if \<not> room sz then Inl RangeErr else Inr (replicate (nat sz) 0))"

text \<open>
  \<open>allocateTypedArray\<close>, into a new buffer at the address \<open>b\<close>; the prototype is read after
  the buffer is created and before it has bytes.
\<close>

definition allocateTypedArray :: "(int \<Rightarrow> bool) \<Rightarrow> buffers \<Rightarrow> nat \<Rightarrow> int \<Rightarrow> elemKind
    \<Rightarrow> (buffers \<Rightarrow> (buffers, unit) outcome) \<Rightarrow> (buffers, typedArrayObject) outcome" where
  "allocateTypedArray room B b len k proto =
     bindS (proto (B(b := \<lparr>ab_detached = False, ab_data = None\<rparr>))) (\<lambda>B _.
       let ta = newTypedArrayObject b 0 len k in
       if 0 < len then
         bindS (B, allocByteSlice room (len * int (elem_size k))) (\<lambda>B d.
           (B(b := (B b)\<lparr>ab_data := Some d\<rparr>), Inr ta))
       else (B, Inr ta))"

definition newTypedArrayFromArrayBuffer :: "host \<Rightarrow> buffers \<Rightarrow> nat \<Rightarrow> jsval list \<Rightarrow> elemKind
    \<Rightarrow> (buffers \<Rightarrow> (buffers, unit) outcome) \<Rightarrow> (buffers, typedArrayObject) outcome" where
  "newTypedArrayFromArrayBuffer h B ab args k proto =
     (let es = int (elem_size k); len = (\<lambda>B. int (length (ab_bytes (B ab)))) in
      bindS (proto B) (\<lambda>B _. (B,
        bindR (if Argument args 1 \<noteq> VUndefined then
                 bindR (toIndex h (Argument args 1)) (\<lambda>off. if off mod es \<noteq> 0 then Inl RangeErr else Inr off)
               else Inr 0) (\<lambda>byteOffset.
          bindR (if Argument args 2 \<noteq> VUndefined then
                   bindR (toIndex h (Argument args 2)) (\<lambda>n.
                     bindR (ensureNotDetached (B ab) True) (\<lambda>_.
                       if len B < byteOffset + n * es then Inl RangeErr else Inr n))
                 else
                   bindR (ensureNotDetached (B ab) True) (\<lambda>_.
                     if len B mod es \<noteq> 0 then Inl RangeErr
                     else if go_div (len B - byteOffset) es < 0 then Inl RangeErr
                     else Inr (go_div (len B - byteOffset) es))) (\<lambda>n.
            Inr (newTypedArrayObject ab (go_div byteOffset es) n k))))))"

text \<open>\<open>checkTypedArrayMixBigInt\<close>, by the names of the two constructors.\<close>

definition checkTypedArrayMixBigInt :: "elemKind \<Rightarrow> elemKind \<Rightarrow> go_error + unit" where
  "checkTypedArrayMixBigInt src dst = (if is_big src \<and> \<not> is_big dst then Inl TypeErr else Inr ())"

text \<open>One element read from \<open>src\<close> and stored in \<open>dst\<close>, and a run of them in the given order.\<close>

definition copy_elem :: "host \<Rightarrow> typedArrayObject \<Rightarrow> int \<Rightarrow> typedArrayObject \<Rightarrow> int \<Rightarrow> buffers \<Rightarrow> go_error + buffers" where
  "copy_elem h dst i src j B = bindR (tao_get B src j) (tao_set h B dst i)"

fun copy_elems :: "host \<Rightarrow> typedArrayObject \<Rightarrow> int \<Rightarrow> typedArrayObject \<Rightarrow> int list \<Rightarrow> buffers \<Rightarrow> go_error + buffers" where
  "copy_elems h dst off src [] B = Inr B"
| "copy_elems h dst off src (i # is) B =
     bindR (copy_elem h dst (off + i) src i B) (copy_elems h dst off src is)"

definition newTypedArrayFromTypedArray :: "host \<Rightarrow> (int \<Rightarrow> bool) \<Rightarrow> buffers \<Rightarrow> nat \<Rightarrow> typedArrayObject \<Rightarrow> elemKind
    \<Rightarrow> (buffers \<Rightarrow> (buffers, unit) outcome) \<Rightarrow> (buffers, typedArrayObject) outcome" where
  "newTypedArrayFromTypedArray h room B b src k proto =
     bindS (allocateTypedArray room B b 0 k proto) (\<lambda>B dst.
       bindS (B, tao_check B src) (\<lambda>B _.
         bindS (B, allocByteSlice room (tao_length src * int (elem_size k))) (\<lambda>B d.
           let B = B(b := (B b)\<lparr>ab_data := Some d\<rparr>); dst = dst\<lparr>tao_length := tao_length src\<rparr> in
           bindS (B, tao_check B src) (\<lambda>B _.
             if tao_kind src = k then
               bindS (B, subslice (tao_data B src) (tao_offset src * int (tao_size src))
                   (int (length (tao_data B src)))) (\<lambda>B s.
                 (upd_data B dst (go_copy (tao_data B dst) s), Inr dst))
             else
               bindS (B, checkTypedArrayMixBigInt (tao_kind src) k) (\<lambda>B _.
                 case copy_elems h dst 0 src [0 .. tao_length src - 1] B of
                   Inl e \<Rightarrow> (B, Inl e)
                 | Inr B \<Rightarrow> (B, Inr dst))))))"

section \<open>\<open>set\<close>\<close>

text \<open>
  The order in which \<open>set\<close> visits the elements, chosen so that no element of the source is
  overwritten before it is read, when the two arrays share memory.
\<close>

definition set_order :: "int \<Rightarrow> int \<Rightarrow> int \<Rightarrow> int \<Rightarrow> int \<Rightarrow> int list" where
  "set_order curSrc curDst srcLen srcSize dstSize =
     (let endSrc = curSrc + srcLen * srcSize in
      if dstSize = srcSize then
        (if curDst \<le> curSrc \<or> endSrc \<le> curDst then [0 .. srcLen - 1] else rev [0 .. srcLen - 1])
      else
        let x0 = go_div (curDst - curSrc) (srcSize - dstSize);
          x = (if x0 < 0 then 0 else if srcLen < x0 then srcLen else x0) in
        if dstSize < srcSize then [x .. srcLen - 1] @ rev [0 .. x - 1]
        else [0 .. x - 1] @ rev [x .. srcLen - 1])"

text \<open>Go's \<open>&data[i]\<close> as an address; the index is checked.\<close>

definition elem_addr :: "(nat \<Rightarrow> int) \<Rightarrow> buffers \<Rightarrow> nat \<Rightarrow> int \<Rightarrow> go_error + int" where
  "elem_addr addr B b i = (if inside 1 (ab_bytes (B b)) i then Inr (addr b + i) else Inl GoPanic)"

definition set_typed :: "host \<Rightarrow> (nat \<Rightarrow> int) \<Rightarrow> buffers \<Rightarrow> typedArrayObject \<Rightarrow> typedArrayObject \<Rightarrow> int
    \<Rightarrow> go_error + buffers" where
  "set_typed h addr B ta src targetOffset =
     (let dst0 = (tao_offset ta + targetOffset) * int (tao_size ta);
        src0 = tao_offset src * int (tao_size src); srcLen = tao_length src in
      bindR (tao_check B src) (\<lambda>_.
        if srcLen + targetOffset < 0 \<or> tao_length ta < srcLen + targetOffset then Inl RangeErr
        else if tao_kind src = tao_kind ta then
          bindR (subslice (tao_data B src) src0 ((tao_offset src + srcLen) * int (tao_size src))) (\<lambda>s.
            mapR (upd_data B ta) (copy_at (tao_data B ta) dst0 s))
        else
          bindR (checkTypedArrayMixBigInt (tao_kind src) (tao_kind ta)) (\<lambda>_.
          bindR (elem_addr addr B (tao_buf src) src0) (\<lambda>curSrc.
          bindR (elem_addr addr B (tao_buf ta) dst0) (\<lambda>curDst.
            copy_elems h ta targetOffset src
              (set_order curSrc curDst srcLen (int (tao_size src)) (int (tao_size ta))) B)))))"

text \<open>An array-like source: elements are fetched by user code, which may detach the buffer.\<close>

fun set_array_loop :: "host \<Rightarrow> typedArrayObject \<Rightarrow> int \<Rightarrow> (buffers \<Rightarrow> int \<Rightarrow> (buffers, jsval) outcome)
    \<Rightarrow> int list \<Rightarrow> buffers \<Rightarrow> (buffers, unit) outcome" where
  "set_array_loop h ta off fetch [] B = (B, Inr ())"
| "set_array_loop h ta off fetch (i # is) B =
     bindS (fetch B i) (\<lambda>B v.
       if isValidIntegerIndex B ta (off + i) then
         (case tao_set h B ta (off + i) v of
            Inl e \<Rightarrow> (B, Inl e)
          | Inr B \<Rightarrow> set_array_loop h ta off fetch is B)
       else set_array_loop h ta off fetch is B)"

datatype set_source = FromTyped typedArrayObject
  | FromArrayLike int "buffers \<Rightarrow> int \<Rightarrow> (buffers, jsval) outcome"

definition typedArrayProto_set :: "host \<Rightarrow> (nat \<Rightarrow> int) \<Rightarrow> buffers \<Rightarrow> typedArrayObject \<Rightarrow> set_source \<Rightarrow> jsval
    \<Rightarrow> (buffers, unit) outcome" where
  "typedArrayProto_set h addr B ta source offArg =
     bindS (B, ToInteger h offArg) (\<lambda>B targetOffset.
       if targetOffset < 0 then (B, Inl RangeErr)
       else bindS (B, tao_check B ta) (\<lambda>B _.
         case source of
           FromTyped src \<Rightarrow>
             (case set_typed h addr B ta src targetOffset of Inl e \<Rightarrow> (B, Inl e) | Inr B \<Rightarrow> (B, Inr ()))
         | FromArrayLike srcLen fetch \<Rightarrow>
             if srcLen + targetOffset < 0 \<or> tao_length ta < srcLen + targetOffset then (B, Inl RangeErr)
             else set_array_loop h ta targetOffset fetch [0 .. srcLen - 1] B))"

section \<open>\<open>slice\<close>, \<open>with\<close>, \<open>toReversed\<close>\<close>

text \<open>Byte by byte, forwards: what the loop of \<open>slice\<close> does where \<open>copy\<close> would be \<open>memmove\<close>.\<close>

fun copy_forward :: "bytes \<Rightarrow> nat \<Rightarrow> nat \<Rightarrow> nat \<Rightarrow> bytes" where
  "copy_forward d dst src 0 = d"
| "copy_forward d dst src (Suc n) = copy_forward (d[dst := d ! src]) (Suc dst) (Suc src) n"

fun slice_loop :: "host \<Rightarrow> typedArrayObject \<Rightarrow> typedArrayObject \<Rightarrow> int \<Rightarrow> int list \<Rightarrow> buffers \<Rightarrow> go_error + buffers" where
  "slice_loop h dst ta start [] B = Inr B"
| "slice_loop h dst ta start (i # is) B =
     bindR (tao_check B ta) (\<lambda>_. bindR (copy_elem h dst i ta (start + i) B) (slice_loop h dst ta start is))"

definition typedArrayProto_slice :: "host \<Rightarrow> (nat \<Rightarrow> int) \<Rightarrow> buffers \<Rightarrow> typedArrayObject \<Rightarrow> jsval list
    \<Rightarrow> (buffers \<Rightarrow> int \<Rightarrow> (buffers, typedArrayObject) outcome) \<Rightarrow> (buffers, typedArrayObject) outcome" where
  "typedArrayProto_slice h addr B ta args speciesCreate =
     bindS (B, tao_check B ta) (\<lambda>B _.
     bindS (B, ToInteger h (Argument args 0)) (\<lambda>B rel0.
     bindS (B, rel_arg h (Argument args 1) (tao_length ta)) (\<lambda>B rel1.
       let l = tao_length ta; start = relToIdx rel0 l; count = max (relToIdx rel1 l - start) 0 in
       bindS (speciesCreate B count) (\<lambda>B dst.
         if tao_kind dst = tao_kind ta then
           (if 0 < count then
              bindS (B, tao_check B ta) (\<lambda>B _.
                let es = int (tao_size ta); byteCount = count * es; d0 = tao_offset dst * es;
                  s0 = (tao_offset ta + start) * es in
                bindS (B, subslice (tao_data B dst) d0 (d0 + byteCount)) (\<lambda>B _.
                bindS (B, subslice (tao_data B ta) s0 (s0 + byteCount)) (\<lambda>B s.
                  if addr (tao_buf dst) + d0 \<le> addr (tao_buf ta) + s0
                    \<or> addr (tao_buf ta) + s0 + byteCount \<le> addr (tao_buf dst) + d0
                    \<or> tao_buf dst \<noteq> tao_buf ta
                  then bindS (B, copy_at (tao_data B dst) d0 s) (\<lambda>B d. (upd_data B dst d, Inr dst))
                  else (upd_data B dst (copy_forward (tao_data B dst) (nat d0) (nat s0) (nat byteCount)), Inr dst))))
            else (B, Inr dst))
         else (case slice_loop h dst ta start [0 .. count - 1] B of
                 Inl e \<Rightarrow> (B, Inl e) | Inr B \<Rightarrow> (B, Inr dst))))))"

text \<open>\<open>with\<close> and \<open>toReversed\<close> make a new array of the default constructor, at the address \<open>b\<close>.\<close>

definition typedArrayProto_with :: "host \<Rightarrow> (int \<Rightarrow> bool) \<Rightarrow> buffers \<Rightarrow> nat \<Rightarrow> typedArrayObject \<Rightarrow> jsval list
    \<Rightarrow> (buffers, typedArrayObject) outcome" where
  "typedArrayProto_with h room B b ta args =
     bindS (B, tao_check B ta) (\<lambda>B _.
     bindS (B, ToInteger h (Argument args 0)) (\<lambda>B rel.
       let actualIndex = (if 0 \<le> rel then rel else tao_length ta + rel) in
       bindS (B, if is_big (tao_kind ta) then mapR VBigInt (toBigInt h (Argument args 1))
                 else ToNumber h (Argument args 1)) (\<lambda>B numericValue.
         if \<not> isValidIntegerIndex B ta actualIndex then (B, Inl RangeErr)
         else bindS (allocateTypedArray room B b (tao_length ta) (tao_kind ta) (\<lambda>B. (B, Inr ()))) (\<lambda>B a.
           bindS (B, subslice (tao_data B ta) (tao_offset ta * int (tao_size ta)) (int (length (tao_data B ta)))) (\<lambda>B s.
             case tao_set h (upd_data B a (go_copy (tao_data B a) s)) a actualIndex numericValue of
               Inl e \<Rightarrow> (B, Inl e)
             | Inr B \<Rightarrow> (B, Inr a))))))"

fun reversed_loop :: "host \<Rightarrow> typedArrayObject \<Rightarrow> typedArrayObject \<Rightarrow> int list \<Rightarrow> buffers \<Rightarrow> go_error + buffers" where
  "reversed_loop h a ta [] B = Inr B"
| "reversed_loop h a ta (k # ks) B =
     bindR (copy_elem h a k ta (tao_length ta - k - 1) B) (reversed_loop h a ta ks)"

definition typedArrayProto_toReversed :: "host \<Rightarrow> (int \<Rightarrow> bool) \<Rightarrow> buffers \<Rightarrow> nat \<Rightarrow> typedArrayObject
    \<Rightarrow> (buffers, typedArrayObject) outcome" where
  "typedArrayProto_toReversed h room B b ta =
     bindS (B, tao_check B ta) (\<lambda>B _.
     bindS (allocateTypedArray room B b (tao_length ta) (tao_kind ta) (\<lambda>B. (B, Inr ()))) (\<lambda>B a.
       case reversed_loop h a ta [0 .. tao_length ta - 1] B of Inl e \<Rightarrow> (B, Inl e) | Inr B \<Rightarrow> (B, Inr a)))"
section \<open>What an element reads as\<close>

lemma Float64frombits_ok: "f64_ok (Float64frombits x)"
proof -
  define e m where "e = x div 2 ^ 52 mod 2 ^ 11" and "m = x mod 2 ^ 52"
  have "e < 2 ^ 11" "m < 2 ^ 52" by (simp_all add: e_def m_def)
  then show ?thesis
    unfolding Float64frombits_def Let_def e_def [symmetric] m_def [symmetric] f64_ok_def by auto
qed

text \<open>An element of a number type is a number, one of a BigInt type a BigInt.\<close>

definition elem_like :: "elemKind \<Rightarrow> jsval \<Rightarrow> bool" where
  "elem_like k v = (if is_big k then is_bigint v else is_number v \<and> num_ok v)"

lemma floatToValue_number: "f64_ok f \<Longrightarrow> is_number (floatToValue f) \<and> num_ok (floatToValue f)"
proof -
  assume f: "f64_ok f"
  have "is_number (floatToValue f)"
  proof (cases "floatToInt f")
    case (Some i)
    then have "\<bar>i\<bar> \<le> maxInt" using floatToInt_Some [OF f] by blast
    with Some show ?thesis by (simp add: floatToValue_def is_number_def)
  qed (simp add: floatToValue_def is_number_def negativeZero_def)
  with f show ?thesis using floatToValue_ok by simp
qed

lemma small_int_number: "\<bar>i\<bar> \<le> maxInt \<Longrightarrow> is_number (intToValue i) \<and> num_ok (intToValue i)"
  by (simp add: is_number_def num_ok_def)

lemma int_elem_small:
  assumes "n \<le> 4" "0 < n" "x < 256 ^ n"
  shows "\<bar>int x\<bar> \<le> maxInt" "\<bar>to_signed n x\<bar> \<le> maxInt"
proof -
  have "(256::nat) ^ n \<le> 256 ^ 4" using assms(1) by (intro power_increasing) auto
  then show "\<bar>int x\<bar> \<le> maxInt" using assms(3) by (simp add: maxInt_def)
  have "(2::int) ^ (8 * n - 1) \<le> 2 ^ 31" using assms(1) by (intro power_increasing) auto
  then show "\<bar>to_signed n x\<bar> \<le> maxInt"
    using wrap_signed_range [of "8 * n" "int x"] assms(2) by (auto simp: to_signed_def maxInt_def)
qed

lemma decode_like:
  assumes "x < 256 ^ elem_size k"
  shows "elem_like k (decode k x)"
  using assms int_elem_small [of 1 x] int_elem_small [of 2 x] int_elem_small [of 4 x]
    small_int_number floatToValue_number [OF float64_ok] floatToValue_number [OF Float64frombits_ok]
  by (cases k) (simp_all add: elem_like_def float32_at_def del: intToValue_small)

lemma elem_like_float: "elem_like k v \<Longrightarrow> ToFloat h v = Inr f \<Longrightarrow> f64_ok f"
  by (cases v) (auto simp: elem_like_def is_number_def num_ok_def split: if_splits)

lemma elem_value_total:
  assumes "elem_like k v" "is_big k = is_big k'"
  shows "\<exists>w. elem_value k' h v = Inr w"
proof (cases "is_big k'")
  case True
  with assms obtain i where "v = VBigInt i" by (cases v) (auto simp: elem_like_def)
  with True show ?thesis by (cases k') (auto simp: toBigInt_def)
next
  case False
  with assms have n: "is_number v" by (simp add: elem_like_def)
  then obtain i f where v: "v = VInt i \<or> v = VFloat f" by (cases v) (auto simp: is_number_def)
  then have "\<exists>m. ToNumber h v = Inr m" "\<exists>g. ToFloat h v = Inr g" by auto
  with False show ?thesis
    by (cases k') (auto simp: toUint8_def toUint8Clamp_def toInt8_def toUint16_def toInt16_def
        toUint32_def toInt32_def)
qed

lemma tao_get_like:
  assumes "tao_ok B a" "isValidIntegerIndex B a i"
  obtains v where "tao_get B a i = Inr v" "elem_like (tao_kind a) v"
proof -
  obtain x where x: "ld (tao_size a) (tao_data B a) ((tao_offset a + i) * int (tao_size a)) = Inr x"
    "x < 256 ^ tao_size a"
    using valid_inside [OF assms] ld_ok unfolding elem_inside_iff by blast
  with decode_like [OF x(2)] show ?thesis by (intro that) (simp_all add: tao_get_def methods_get)
qed

section \<open>The order of \<open>set\<close>\<close>

text \<open>
  In the order chosen, no destination cell written earlier overlaps a source cell read
  later. \<open>S\<close> and \<open>D\<close> are the places of the first source and destination element.
\<close>

definition apart :: "int \<Rightarrow> int \<Rightarrow> int \<Rightarrow> int \<Rightarrow> int \<Rightarrow> int \<Rightarrow> bool" where
  "apart D t S s i j \<longleftrightarrow> D + (i + 1) * t \<le> S + j * s \<or> S + (j + 1) * s \<le> D + i * t"

lemma go_div_bounds:
  assumes "0 < w"
  shows "0 < go_div d w \<Longrightarrow> go_div d w * w \<le> d" "0 \<le> go_div d w \<Longrightarrow> d < (go_div d w + 1) * w"
    "go_div d w < 0 \<Longrightarrow> d < 0"
proof -
  have e: "d div w * w + d mod w = d" by simp
  have m: "0 \<le> d mod w" "d mod w < w" using assms by simp_all
  have 1: "d div w * w \<le> d" "d < (d div w + 1) * w"
    using e m unfolding distrib_right mult_1 by linarith+
  have g: "go_div d w = (if 0 \<le> d then d div w else - (- d div w))"
    using assms by (auto simp: go_div_def sgn_if)
  have n: "d < 0 \<Longrightarrow> 0 \<le> - d div w" using assms by (simp add: pos_imp_zdiv_nonneg_iff)
  show "0 < go_div d w \<Longrightarrow> go_div d w * w \<le> d" using 1 n by (auto simp: g split: if_splits)
  show "0 \<le> go_div d w \<Longrightarrow> d < (go_div d w + 1) * w"
    using 1 n assms by (cases "0 \<le> d") (auto simp: g intro: less_le_trans [of d 0])
  show "go_div d w < 0 \<Longrightarrow> d < 0"
    using assms by (auto simp: g pos_imp_zdiv_neg_iff split: if_splits)
qed

lemma go_div_neg: "go_div d (- w) = go_div (- d) w"
  by (simp add: go_div_def)

lemma apart_before:
  assumes "D - S \<le> (i + 1) * (s - t)" "i < j" "0 < s"
  shows "apart D t S s i j"
proof -
  have "D + (i + 1) * t \<le> S + (i + 1) * s" using assms(1) by (simp add: algebra_simps)
  also have "\<dots> \<le> S + j * s" using assms(2,3) by (intro add_left_mono mult_right_mono) auto
  finally show ?thesis by (simp add: apart_def)
qed

lemma apart_after:
  assumes "k * (s - t) \<le> D - S" "j < k" "k \<le> i" "0 < s" "0 < t"
  shows "apart D t S s i j"
proof -
  have "S + (j + 1) * s \<le> S + k * s" using assms by (intro add_left_mono mult_right_mono) auto
  also have "\<dots> \<le> D + k * t" using assms(1) by (simp add: algebra_simps)
  also have "\<dots> \<le> D + i * t" using assms by (intro add_left_mono mult_right_mono) auto
  finally show ?thesis by (simp add: apart_def)
qed

lemma sorted_wrt_upto: "(\<And>i j. a \<le> i \<Longrightarrow> i < j \<Longrightarrow> j \<le> b \<Longrightarrow> P i j) \<Longrightarrow> sorted_wrt P [a .. b :: int]"
proof (induction "nat (b - a + 1)" arbitrary: a)
  case 0
  then have "b < a" by linarith
  then show ?case by simp
next
  case (Suc n)
  have ab: "a \<le> b" using Suc.hyps(2) by linarith
  have "sorted_wrt P [a + 1 .. b]"
    by (rule Suc.hyps(1)) (use Suc.hyps(2) in linarith, use Suc.prems in simp)
  then show ?case unfolding upto_rec1 [OF ab] using Suc.prems by simp
qed

lemma set_order_set: "0 \<le> n \<Longrightarrow> set (set_order cs cd n s t) = {0 ..< n}"
  by (auto simp: set_order_def Let_def)

lemma set_order_apart:
  assumes "0 < s" "0 < t" "0 \<le> n"
  shows "sorted_wrt (apart D t S s) (set_order (A + S) (A + D) n s t)"
proof -
  define x0 where "x0 = go_div (D - S) (s - t)"
  define x where "x = (if x0 < 0 then 0 else if n < x0 then n else x0)"
  have d: "A + D - (A + S) = D - S" by simp
  consider "s = t" | "t < s" | "s < t" by linarith
  then show ?thesis
  proof cases
    case 1
    show ?thesis
    proof (cases "D \<le> S \<or> S + n * s \<le> D")
      case True
      have "apart D t S s i j" if "0 \<le> i" "i < j" "j < n" for i j
      proof (cases "D \<le> S")
        case True
        then show ?thesis using that assms 1 by (intro apart_before) auto
      next
        case False
        then have "S + n * s \<le> D" using \<open>D \<le> S \<or> S + n * s \<le> D\<close> by blast
        moreover have "(j + 1) * s \<le> n * s" "0 \<le> i * t" using that assms by (auto intro!: mult_right_mono)
        ultimately show ?thesis by (simp add: apart_def)
      qed
      then show ?thesis using 1 True by (auto simp: set_order_def Let_def intro!: sorted_wrt_upto)
    next
      case False
      then have "apart D t S s i j" if "0 \<le> j" "j < i" "i < n" for i j
        using that assms 1 by (intro apart_after [of i]) auto
      then show ?thesis using 1 False
        by (auto simp: set_order_def Let_def sorted_wrt_rev intro!: sorted_wrt_upto)
    qed
  next
    case 2
    then have w: "0 < s - t" by simp
    note b = go_div_bounds [OF w, of "D - S", folded x0_def]
    have low: "apart D t S s i j" if "x \<le> i" "i < j" "j < n" for i j
    proof (rule apart_before)
      have "D - S \<le> (i + 1) * (s - t)"
      proof (cases "x0 < 0")
        case True
        then have "0 \<le> (i + 1) * (s - t)"
          using w that by (intro mult_nonneg_nonneg) (simp_all add: x_def)
        then show ?thesis using b(3) [OF True] by linarith
      next
        case False
        then have "x0 + 1 \<le> i + 1" using that by (auto simp: x_def split: if_splits)
        then have "(x0 + 1) * (s - t) \<le> (i + 1) * (s - t)" using w by (intro mult_right_mono) auto
        then show ?thesis using b(2) False by linarith
      qed
      then show "D - S \<le> (i + 1) * (s - t)" .
    qed (use that assms in auto)
    have x: "x * (s - t) \<le> D - S" if "0 < x"
    proof -
      have "x \<le> x0" "0 < x0" using that by (auto simp: x_def split: if_splits)
      then have "x * (s - t) \<le> x0 * (s - t)" using w by (intro mult_right_mono) auto
      then show ?thesis using b(1) \<open>0 < x0\<close> by linarith
    qed
    have cross: "apart D t S s i j" if "x \<le> i" "0 \<le> j" "j < x" for i j
      using x that assms by (intro apart_after [of x]) auto
    have down: "apart D t S s i j" if "0 \<le> j" "j < i" "i < x" for i j
    proof (rule apart_after [of i])
      have "i * (s - t) \<le> x * (s - t)" using that w by (intro mult_right_mono) auto
      then show "i * (s - t) \<le> D - S" using x that by linarith
    qed (use that assms in auto)
    have "set_order (A + S) (A + D) n s t = [x .. n - 1] @ rev [0 .. x - 1]"
      using 2 by (simp add: set_order_def Let_def d x0_def x_def)
    moreover have "sorted_wrt (apart D t S s) [x .. n - 1]" by (rule sorted_wrt_upto) (simp add: low)
    moreover have "sorted_wrt (\<lambda>i j. apart D t S s j i) [0 .. x - 1]"
      using assms by (intro sorted_wrt_upto down) (auto simp: x_def)
    ultimately show ?thesis using cross by (simp add: sorted_wrt_append sorted_wrt_rev)
  next
    case 3
    then have w: "0 < t - s" by simp
    have x0': "x0 = go_div (S - D) (t - s)" using go_div_neg [of "D - S" "t - s"] by (simp add: x0_def)
    note b = go_div_bounds [OF w, of "S - D", folded x0']
    have low: "apart D t S s i j" if "i < x" "i < j" "0 \<le> i" for i j
    proof (rule apart_before)
      have x: "0 < x0" "i + 1 \<le> x0" using that by (auto simp: x_def split: if_splits)
      then have "(i + 1) * (t - s) \<le> x0 * (t - s)" using w by (intro mult_right_mono) auto
      also have "\<dots> \<le> S - D" using b(1) x by blast
      finally show "D - S \<le> (i + 1) * (s - t)" by (simp add: algebra_simps)
    qed (use that assms in auto)
    have down: "apart D t S s i j" if "x \<le> j" "j < i" "i < n" for i j
    proof (rule apart_after [of i])
      have "S - D \<le> i * (t - s)"
      proof (cases "x0 < 0")
        case True
        have "0 \<le> i * (t - s)" using True that w by (intro mult_nonneg_nonneg) (simp_all add: x_def)
        then show ?thesis using b(3) [OF True] by linarith
      next
        case False
        then have "x0 + 1 \<le> i" using that by (auto simp: x_def split: if_splits)
        then have "(x0 + 1) * (t - s) \<le> i * (t - s)" using w by (intro mult_right_mono) auto
        then show ?thesis using b(2) False by linarith
      qed
      then show "i * (s - t) \<le> D - S" by (simp add: algebra_simps)
    qed (use that assms in auto)
    have "set_order (A + S) (A + D) n s t = [0 .. x - 1] @ rev [x .. n - 1]"
      using 3 by (simp add: set_order_def Let_def d x0_def x_def)
    moreover have "sorted_wrt (apart D t S s) [0 .. x - 1]" by (rule sorted_wrt_upto) (simp add: low)
    moreover have "sorted_wrt (\<lambda>i j. apart D t S s j i) [x .. n - 1]"
      by (rule sorted_wrt_upto) (simp add: down)
    ultimately show ?thesis using low by (auto simp: sorted_wrt_append sorted_wrt_rev)
  qed
qed

section \<open>\<open>set\<close> behaves as if the source were read first\<close>

text \<open>The bytes of the destination window are the only ones that change.\<close>

definition outside :: "typedArrayObject \<Rightarrow> int set \<Rightarrow> int \<Rightarrow> nat \<Rightarrow> bool" where
  "outside a I j m \<longleftrightarrow> (\<forall>i \<in> I. j + int m \<le> (tao_offset a + i) * int (tao_size a)
     \<or> (tao_offset a + i) * int (tao_size a) + int (tao_size a) \<le> j)"

definition only_window :: "buffers \<Rightarrow> buffers \<Rightarrow> typedArrayObject \<Rightarrow> int set \<Rightarrow> bool" where
  "only_window B B' a I \<longleftrightarrow> (\<forall>b. b \<noteq> tao_buf a \<longrightarrow> B' b = B b) \<and> tao_detached B' a = tao_detached B a
     \<and> length (tao_data B' a) = length (tao_data B a) \<and> (ab_data (B' (tao_buf a)) = None) = (ab_data (B (tao_buf a)) = None)
     \<and> (\<forall>j m. outside a I j m \<longrightarrow> ld m (tao_data B' a) j = ld m (tao_data B a) j)"

lemma only_window_refl: "only_window B B a I"
  by (simp add: only_window_def)

lemma tao_data_upd: "ab_data (B (tao_buf a)) \<noteq> None \<Longrightarrow> tao_data (upd_data B a d) a = d"
  by (auto simp: tao_data_def upd_data_def with_data_def ab_bytes_def)

lemma attached_data:
  assumes "elem_inside k (tao_data B a) i"
  shows "ab_data (B (tao_buf a)) \<noteq> None"
proof
  assume "ab_data (B (tao_buf a)) = None"
  then have "tao_data B a = []" by (simp add: tao_data_def ab_bytes_def)
  with assms have "0 \<le> i" "(i + 1) * int (elem_size k) \<le> 0" by (simp_all add: elem_inside_def)
  moreover have "0 < (i + 1) * int (elem_size k)" using calculation(1) by (intro mult_pos_pos) auto
  ultimately show False by linarith
qed

text \<open>One store: the element, and nothing outside it.\<close>

lemma tao_set_step:
  assumes "tao_ok B a" "isValidIntegerIndex B a i" "elem_value (tao_kind a) h v = Inr w"
    "\<And>f. ToFloat h v = Inr f \<Longrightarrow> f64_ok f"
  obtains B' where "tao_set h B a i v = Inr B'" "tao_get B' a i = Inr w" "only_window B B' a {i}"
proof -
  let ?n = "tao_size a" and ?off = "(tao_offset a + i) * int (tao_size a)"
  note ins = valid_inside [OF assms(1,2)]
  obtain y where y: "encode (tao_kind a) h v = Inr y" using elem_value_encode [OF assms(3)] by blast
  have w: "w = decode (tao_kind a) (y mod 256 ^ ?n)" using encode_decode [OF y assms(4)] assms(3) by simp
  obtain d where d: "st ?n (tao_data B a) ?off y = Inr d" "length d = length (tao_data B a)"
    using st_ok ins unfolding elem_inside_iff by blast
  note nn = attached_data [OF ins]
  let ?B = "upd_data B a d"
  have "tao_set h B a i v = Inr ?B" using d(1) y by (simp add: tao_set_def methods_set)
  moreover have "tao_get ?B a i = Inr w"
    using ld_st_same [OF d(1)] by (simp add: tao_get_def methods_get tao_data_upd [of B a, OF nn] w)
  moreover have "only_window B ?B a {i}"
    using d ld_st_other [OF d(1)] nn
    by (auto simp: only_window_def outside_def tao_data_upd [of B a, OF nn], auto simp: upd_data_def with_data_def)
  ultimately show ?thesis by (rule that)
qed

lemma only_window_get:
  assumes "only_window B B' a I" "i \<notin> I"
  shows "tao_get B' a i = tao_get B a i"
proof -
  have "outside a I ((tao_offset a + i) * int (tao_size a)) (tao_size a)"
    unfolding outside_def
  proof
    fix j assume "j \<in> I"
    then have "tao_offset a + i \<noteq> tao_offset a + j" using assms(2) by auto
    then show "(tao_offset a + i) * int (tao_size a) + int (tao_size a) \<le> (tao_offset a + j) * int (tao_size a)
      \<or> (tao_offset a + j) * int (tao_size a) + int (tao_size a) \<le> (tao_offset a + i) * int (tao_size a)"
      by (rule elem_disjoint)
  qed
  then show ?thesis using assms(1) by (simp add: only_window_def tao_get_def methods_get)
qed

lemma only_window_trans:
  assumes "only_window B B' a I" "only_window B' B'' a J"
  shows "only_window B B'' a (I \<union> J)"
proof -
  have o: "outside a (I \<union> J) j m = (outside a I j m \<and> outside a J j m)" for j m
    by (auto simp: outside_def)
  show ?thesis using assms by (simp add: only_window_def o)
qed

lemma only_window_ok: "only_window B B' a I \<Longrightarrow> tao_ok B a \<Longrightarrow> tao_ok B' a"
  by (simp add: only_window_def tao_ok_def)

text \<open>
  The loop: the cells in \<open>P\<close> are written, those of the list are still to come, and no source
  cell of the list overlaps a destination cell of \<open>P\<close>.
\<close>

definition cells_apart :: "typedArrayObject \<Rightarrow> int \<Rightarrow> typedArrayObject \<Rightarrow> int \<Rightarrow> int \<Rightarrow> bool" where
  "cells_apart dst off src i j \<longleftrightarrow> tao_buf dst \<noteq> tao_buf src
     \<or> apart ((tao_offset dst + off) * int (tao_size dst)) (int (tao_size dst))
         (tao_offset src * int (tao_size src)) (int (tao_size src)) i j"

lemma copy_elems_correct:
  assumes "\<forall>i \<in> set is. \<exists>v. tao_get B0 src i = Inr v \<and> elem_like (tao_kind src) v
      \<and> elem_value (tao_kind dst) h v = Inr (w i)"
    and "\<forall>i \<in> set is. isValidIntegerIndex B0 dst (off + i)" "tao_ok B0 dst"
    and "sorted_wrt (cells_apart dst off src) is" "distinct is"
    and "\<forall>i \<in> P. \<forall>j \<in> set is. cells_apart dst off src i j" "P \<inter> set is = {}"
    and "only_window B0 B dst ((+) off ` P)"
  shows "\<exists>B'. copy_elems h dst off src is B = Inr B'
    \<and> only_window B0 B' dst ((+) off ` (P \<union> set is))
    \<and> (\<forall>i \<in> set is. tao_get B' dst (off + i) = Inr (w i))
    \<and> (\<forall>i \<in> P. tao_get B' dst (off + i) = tao_get B dst (off + i))"
  using assms
proof (induction "is" arbitrary: B P)
  case Nil
  then show ?case by simp
next
  case (Cons i "is")
  obtain v where v: "tao_get B0 src i = Inr v" "elem_like (tao_kind src) v" "elem_value (tao_kind dst) h v = Inr (w i)"
    using Cons.prems(1) by auto
  have src: "tao_get B src i = Inr v"
  proof (cases "tao_buf dst = tao_buf src")
    case True
    have "outside dst ((+) off ` P) ((tao_offset src + i) * int (tao_size src)) (tao_size src)"
      using Cons.prems(6) True by (auto simp: outside_def cells_apart_def apart_def algebra_simps)
    then have "ld (tao_size src) (tao_data B dst) ((tao_offset src + i) * int (tao_size src))
      = ld (tao_size src) (tao_data B0 dst) ((tao_offset src + i) * int (tao_size src))"
      using Cons.prems(8) by (simp add: only_window_def)
    then show ?thesis using v(1) True by (simp add: tao_get_def methods_get tao_data_def)
  next
    case False
    then show ?thesis using v(1) Cons.prems(8) by (simp add: only_window_def tao_get_def tao_data_def)
  qed
  have ok: "tao_ok B dst" "isValidIntegerIndex B dst (off + i)"
    using only_window_ok [OF Cons.prems(8,3)] Cons.prems(2,8)
    by (auto simp: isValidIntegerIndex_def only_window_def)
  obtain B1 where B1: "tao_set h B dst (off + i) v = Inr B1" "tao_get B1 dst (off + i) = Inr (w i)"
    "only_window B B1 dst {off + i}"
    using tao_set_step [OF ok v(3)] elem_like_float [OF v(2)] by blast
  have win: "only_window B0 B1 dst ((+) off ` insert i P)"
    using only_window_trans [OF Cons.prems(8) B1(3)] by (simp add: insert_commute Un_commute)
  have "\<exists>B'. copy_elems h dst off src is B1 = Inr B'
    \<and> only_window B0 B' dst ((+) off ` (insert i P \<union> set is))
    \<and> (\<forall>j \<in> set is. tao_get B' dst (off + j) = Inr (w j))
    \<and> (\<forall>j \<in> insert i P. tao_get B' dst (off + j) = tao_get B1 dst (off + j))"
    using Cons.prems by (intro Cons.IH win) auto
  then obtain B' where B': "copy_elems h dst off src is B1 = Inr B'"
    "only_window B0 B' dst ((+) off ` (insert i P \<union> set is))"
    "\<forall>j \<in> set is. tao_get B' dst (off + j) = Inr (w j)"
    "\<forall>j \<in> insert i P. tao_get B' dst (off + j) = tao_get B1 dst (off + j)" by blast
  have "tao_get B1 dst (off + j) = tao_get B dst (off + j)" if "j \<in> P" for j
    using that Cons.prems(7) by (intro only_window_get [OF B1(3)]) auto
  then show ?case
    using B' B1 src by (intro exI [of _ B']) (simp add: copy_elem_def)
qed

text \<open>The bytes of an element that is copied as bytes.\<close>

lemma ld_copy_at:
  assumes "copy_at d p s = Inr d'" "p + int (length s) \<le> int (length d)"
  shows "length d' = length d"
    and "0 \<le> a \<Longrightarrow> a + n \<le> length s \<Longrightarrow> ld n d' (p + int a) = Inr (le_nat (take n (drop a s)))"
    and "j + int m \<le> p \<or> p + int (length s) \<le> j \<Longrightarrow> ld m d' j = ld m d j"
proof -
  have p: "0 \<le> p" and d': "d' = take (nat p) d @ s @ drop (nat p + length s) d"
    using assms by (auto simp: copy_at_def subslice_def go_copy_def add.commute split: if_splits)
  then obtain k where k: "p = int k" "k + length s \<le> length d"
    using assms(2) by (intro that [of "nat p"]) auto
  then have d': "d' = take k d @ s @ drop (k + length s) d" using d' by simp
  show len: "length d' = length d" using k by (simp add: d')
  show "ld n d' (p + int a) = Inr (le_nat (take n (drop a s)))" if "0 \<le> a" "a + n \<le> length s"
  proof -
    have "drop (k + a) d' = drop a (s @ drop (k + length s) d)" using k by (simp add: d')
    then have "take n (drop (k + a) d') = take n (drop a s)" using that by simp
    then show ?thesis using k that len ld_nat [of "k + a" n d'] by simp
  qed
  show "ld m d' j = ld m d j" if "j + int m \<le> p \<or> p + int (length s) \<le> j"
  proof (cases "inside m d j")
    case True
    then obtain i where i: "j = int i" "i + m \<le> length d" by (rule inside_nat)
    have "take m (drop i d') = take m (drop i d)"
    proof (cases "i + m \<le> k")
      case True
      have "take m (drop i d') = drop i (take (i + m) d')" by (simp add: drop_take)
      also have "take (i + m) d' = take (i + m) d" using True k by (simp add: d' min_def)
      finally show ?thesis by (simp add: drop_take)
    next
      case False
      then have "k + length s \<le> i" using that k i by auto
      then show ?thesis using k by (simp add: d' drop_append)
    qed
    then show ?thesis using i len by simp
  next
    case False
    then have "\<not> inside m d' j" using len by (simp add: inside_def)
    with False show ?thesis by (simp add: ld_def)
  qed
qed

text \<open>The cells of a window leave no gap.\<close>

lemma outside_window:
  assumes "outside a {off ..< off + n} j m" "0 < m" "0 < n"
  shows "j + int m \<le> (tao_offset a + off) * int (tao_size a)
    \<or> (tao_offset a + off) * int (tao_size a) + n * int (tao_size a) \<le> j"
proof (rule ccontr)
  let ?t = "int (tao_size a)"
  assume "\<not> ?thesis"
  then have c: "(tao_offset a + off) * ?t < j + int m" "j < (tao_offset a + off + n) * ?t"
    by (auto simp: distrib_right)
  have o: "j + int m \<le> (tao_offset a + i) * ?t \<or> (tao_offset a + i + 1) * ?t \<le> j" if "off \<le> i" "i < off + n" for i
    using assms(1) that by (auto simp: outside_def distrib_right)
  show False
  proof (cases "j < (tao_offset a + off) * ?t")
    case True
    then show False using o [of off] c assms(3) by (auto simp: distrib_right)
  next
    case False
    define q where "q = j div ?t"
    have e: "q * ?t + j mod ?t = j" by (simp add: q_def)
    have "0 \<le> j mod ?t" "j mod ?t < ?t" by simp_all
    then have q: "q * ?t \<le> j" "j < (q + 1) * ?t" using e unfolding distrib_right mult_1 by linarith+
    have "tao_offset a + off < q + 1"
    proof (rule mult_right_less_imp_less [of _ ?t])
      show "(tao_offset a + off) * ?t < (q + 1) * ?t" using False q by linarith
    qed simp
    moreover have "q < tao_offset a + off + n"
    proof (rule mult_right_less_imp_less [of _ ?t])
      show "q * ?t < (tao_offset a + off + n) * ?t" using c q by linarith
    qed simp
    ultimately show False using o [of "q - tao_offset a"] q assms(2) by auto
  qed
qed

lemma set_order_distinct: "distinct (set_order cs cd n s t)"
  by (auto simp: set_order_def Let_def)

lemma nat_plus_int: "0 \<le> S \<Longrightarrow> nat (S + int y) = nat S + y"
  by (simp add: nat_add_distrib)

lemma take_drop_inner:
  assumes "int (y + z) \<le> N"
  shows "take z (drop y (take (nat N) (drop m d))) = take z (drop (m + y) d)"
proof -
  have "y + z \<le> nat N" using assms by simp
  then show ?thesis by (simp add: drop_take min_def add.commute)
qed

text \<open>
  C12. \<open>TypedArray.prototype.set\<close> with a typed array, whether or not the two share a buffer
  and however their elements overlap: every element of the source ends up in the destination
  as if the whole source had been read before the first store (converted to the
  destination's element type where the types differ, byte for byte where they agree), and no
  other byte of any buffer changes. An empty source of another type is excluded: there the
  code indexes past the end of the buffer.
\<close>

theorem typed_array_set_overlap:
  assumes "tao_ok B ta" "tao_ok B src" "\<not> tao_detached B ta" "\<not> tao_detached B src"
    and "0 \<le> off" "off + tao_length src \<le> tao_length ta" "is_big (tao_kind src) = is_big (tao_kind ta)"
    and "tao_kind src = tao_kind ta \<or> 0 < tao_length src"
  shows "\<exists>B'. set_typed h addr B ta src off = Inr B' \<and> only_window B B' ta {off ..< off + tao_length src}
    \<and> (\<forall>i. 0 \<le> i \<and> i < tao_length src \<longrightarrow>
        tao_get B' ta (off + i) = (if tao_kind src = tao_kind ta then tao_get B src i
          else bindR (tao_get B src i) (elem_value (tao_kind ta) h)))"
proof -
  define n s t where "n = tao_length src" and "s = int (tao_size src)" and "t = int (tao_size ta)"
  define S D where "S = tao_offset src * s" and "D = (tao_offset ta + off) * t"
  have pos: "0 < s" "0 < t" "0 \<le> n" using assms(2) by (simp_all add: s_def t_def n_def tao_ok_def)
  have so: "0 \<le> tao_offset src" "0 \<le> tao_offset ta" "0 \<le> off"
    and sb: "(tao_offset src + n) * s \<le> int (length (tao_data B src))"
    and tb: "(tao_offset ta + tao_length ta) * t \<le> int (length (tao_data B ta))"
    using assms(1-5) by (auto simp: tao_ok_def n_def s_def t_def)
  have "(tao_offset ta + off + n) * t \<le> (tao_offset ta + tao_length ta) * t"
    using assms(6) pos by (intro mult_right_mono) (auto simp: n_def)
  then have db: "D + n * t \<le> int (length (tao_data B ta))" using tb by (simp add: D_def distrib_right)
  have sb': "S + n * s \<le> int (length (tao_data B src))" using sb by (simp add: S_def distrib_right)
  have nn: "0 \<le> S" "0 \<le> D" "0 \<le> n * s" "0 \<le> n * t" using so pos by (simp_all add: S_def D_def)
  have vs: "isValidIntegerIndex B src i" and vt: "isValidIntegerIndex B ta (off + i)"
    if "0 \<le> i" "i < n" for i
    using that assms(3-6) by (auto simp: isValidIntegerIndex_def n_def)
  have image: "(+) off ` {0 ..< n} = {off ..< off + n}"
    by (auto simp: image_iff intro: bexI [of _ "_ - off"])
  show ?thesis
  proof (cases "tao_kind src = tao_kind ta")
    case True
    then have st: "s = t" by (simp add: s_def t_def)
    obtain bs where bs: "subslice (tao_data B src) S (S + n * s) = Inr bs" "int (length bs) = n * s"
      "bs = take (nat (n * s)) (drop (nat S) (tao_data B src))"
      using sb' nn by (auto simp: subslice_def)
    obtain d where d: "copy_at (tao_data B ta) D bs = Inr d"
      using db nn by (auto simp: copy_at_def subslice_def)
    note cp = ld_copy_at [OF d]
    have len: "D + int (length bs) \<le> int (length (tao_data B ta))" using bs(2) db st by simp
    let ?B = "upd_data B ta d"
    have ss: "(tao_offset src + tao_length src) * int (tao_size src) = S + n * s"
      by (simp add: S_def n_def s_def distrib_right)
    have S0: "tao_offset src * int (tao_size src) = S" by (simp add: S_def s_def)
    have D0: "(tao_offset ta + off) * int (tao_size ta) = D" by (simp add: D_def t_def)
    have res: "set_typed h addr B ta src off = Inr ?B"
      unfolding set_typed_def Let_def ss S0 D0
      using True assms(4,6) bs(1) d pos assms(5) by (simp add: tao_check_def tao_detached_def n_def)
    show ?thesis
    proof (cases "ab_data (B (tao_buf ta)) = None")
      case None: True
      then have "tao_data B ta = []" by (simp add: tao_data_def ab_bytes_def)
      then have "n * t \<le> 0" using db nn by simp
      then have "n = 0" using pos by (simp add: mult_le_0_iff)
      moreover have "with_data (B (tao_buf ta)) d = B (tao_buf ta)"
        using None by (cases "B (tao_buf ta)") (simp add: with_data_def)
      then have "?B = B" by (simp add: upd_data_def)
      ultimately show ?thesis using res by (auto simp: only_window_refl n_def)
    next
      case Some: False
      note dB = tao_data_upd [of B ta, OF Some, of d]
      have "ld m d j = ld m (tao_data B ta) j" if "outside ta {off ..< off + n} j m" for j m
      proof (cases "m = 0 \<or> n = 0")
        case True
        then show ?thesis
        proof
          assume "m = 0"
          then show ?thesis using cp(1) [OF len] by (simp add: ld_def inside_def)
        next
          assume "n = 0"
          then have "bs = []" using bs(2) by simp
          then have "d = tao_data B ta" using d by (auto simp: copy_at_def go_copy_def subslice_def split: if_splits)
          then show ?thesis by simp
        qed
      next
        case False
        then have "j + int m \<le> D \<or> D + n * t \<le> j"
          using outside_window [OF that] pos by (simp add: D_def t_def)
        then show ?thesis using bs(2) st by (intro cp(3) [OF len]) simp
      qed
      then have "only_window B ?B ta {off ..< off + n}"
        using cp(1) [OF len] Some by (simp add: only_window_def dB, simp add: upd_data_def with_data_def)
      moreover have "tao_get ?B ta (off + i) = tao_get B src i" if i: "0 \<le> i" "i < n" for i
      proof -
        obtain k where k: "i = int k" using i(1) by (rule nonneg_int_cases)
        define z where "z = tao_size ta"
        have z: "t = int z" "s = int z" by (simp_all add: z_def t_def s_def True)
        have "(i + 1) * s \<le> n * s" using i pos by (intro mult_right_mono) auto
        then have kz: "int (k * z + z) \<le> n * s" by (simp add: k z distrib_right)
        then have kl: "k * z + z \<le> length bs" using bs(2) by linarith
        have "ld z d (D + int (k * z)) = Inr (le_nat (take z (drop (k * z) bs)))"
          using kl by (intro cp(2) [OF len]) simp_all
        moreover have "take z (drop (k * z) bs) = take z (drop (nat (S + int (k * z))) (tao_data B src))"
        unfolding bs(3) nat_plus_int [OF nn(1)] by (rule take_drop_inner [OF kz])
        moreover have "inside z (tao_data B src) (S + int (k * z))"
          using kz sb' nn by (simp add: inside_def)
        ultimately have "ld z d (D + int (k * z)) = ld z (tao_data B src) (S + int (k * z))"
          by (simp add: ld_def)
        moreover have "(tao_offset ta + (off + i)) * int z = D + int (k * z)"
          by (simp add: D_def k z distrib_right)
        moreover have "(tao_offset src + i) * int z = S + int (k * z)"
          by (simp add: S_def k z distrib_right)
        ultimately show ?thesis
          using True by (simp add: tao_get_def methods_get dB z_def)
      qed
      ultimately show ?thesis using res True by (simp add: n_def)
    qed
  next
    case False
    then have n0: "0 < n" using assms(8) by (simp add: n_def)
    define A where "A b = (if tao_buf ta = tao_buf src then addr (tao_buf src) else addr b)" for b
    have "0 < n * s" "0 < n * t" using n0 pos by simp_all
    then have ins: "inside 1 (tao_data B src) S" "inside 1 (tao_data B ta) D"
      unfolding inside_def using sb' db nn by linarith+
    define ord where "ord = set_order (addr (tao_buf src) + S) (addr (tao_buf ta) + D) n s t"
    have ord: "set ord = {0 ..< n}" "distinct ord"
      using set_order_set [of n] pos set_order_distinct by (simp_all add: ord_def)
    have sorted: "sorted_wrt (cells_apart ta off src) ord"
    proof (cases "tao_buf ta = tao_buf src")
      case True
      then have "sorted_wrt (apart D t S s) ord"
        unfolding ord_def using set_order_apart [OF pos, of D S "addr (tao_buf src)"] by simp
      then show ?thesis
        by (rule sorted_wrt_mono_rel [rotated]) (simp add: cells_apart_def D_def S_def s_def t_def)
    next
      case False
      then have "cells_apart ta off src i j" for i j by (simp add: cells_apart_def)
      then show ?thesis by (induction ord) auto
    qed
    define w where "w i = projr (bindR (tao_get B src i) (elem_value (tao_kind ta) h))" for i
    have val: "\<exists>v. tao_get B src i = Inr v \<and> elem_like (tao_kind src) v \<and> elem_value (tao_kind ta) h v = Inr (w i)"
      if "0 \<le> i" "i < n" for i
    proof -
      note valid = vs [OF that]
      obtain v where v: "tao_get B src i = Inr v" "elem_like (tao_kind src) v"
        using tao_get_like [OF assms(2) valid] by blast
      obtain x where "elem_value (tao_kind ta) h v = Inr x"
        using elem_value_total [OF v(2) assms(7)] by blast
      with v show ?thesis by (simp add: w_def)
    qed
    have "\<exists>B'. copy_elems h ta off src ord B = Inr B' \<and> only_window B B' ta ((+) off ` ({} \<union> set ord))
      \<and> (\<forall>i \<in> set ord. tao_get B' ta (off + i) = Inr (w i))
      \<and> (\<forall>i \<in> {}. tao_get B' ta (off + i) = tao_get B ta (off + i))"
      using val vt ord sorted by (intro copy_elems_correct assms(1)) (auto simp: only_window_refl)
    then obtain B' where B': "copy_elems h ta off src ord B = Inr B'" "only_window B B' ta {off ..< off + n}"
      "\<forall>i. 0 \<le> i \<and> i < n \<longrightarrow> tao_get B' ta (off + i) = Inr (w i)"
      using ord(1) image by auto
    have mix: "checkTypedArrayMixBigInt (tao_kind src) (tao_kind ta) = Inr ()"
      using assms(7) by (simp add: checkTypedArrayMixBigInt_def)
    have "set_typed h addr B ta src off = Inr B'"
      using False assms(4,5,6) B'(1) mix so pos ins
      by (simp add: set_typed_def Let_def tao_check_def tao_detached_def S_def [symmetric] D_def [symmetric]
          s_def [symmetric] t_def [symmetric] n_def [symmetric] elem_addr_def tao_data_def ord_def)
    moreover have "tao_get B' ta (off + i) = bindR (tao_get B src i) (elem_value (tao_kind ta) h)"
      if "0 \<le> i" "i < n" for i
      using val [OF that] B'(3) that by auto
    ultimately show ?thesis using B'(2) False by (auto simp: n_def)
  qed
qed

theorem typed_array_set_overlap_witness:
  "\<exists>B'. set_typed host0 (\<lambda>_. 4096) demo_buffers (demo_array Uint8 4)
      (newTypedArrayObject 0 0 2 Int16) 1 = Inr B'
     \<and> tao_get B' (demo_array Uint8 4) 1 = bindR (tao_get demo_buffers (newTypedArrayObject 0 0 2 Int16) 0)
         (elem_value Uint8 host0)"
proof -
  let ?ta = "demo_array Uint8 4" and ?src = "newTypedArrayObject 0 0 2 Int16"
  have "\<exists>B'. set_typed host0 (\<lambda>_. 4096) demo_buffers ?ta ?src 1 = Inr B'
    \<and> only_window demo_buffers B' ?ta {1 ..< 1 + tao_length ?src}
    \<and> (\<forall>i. 0 \<le> i \<and> i < tao_length ?src \<longrightarrow>
        tao_get B' ?ta (1 + i) = (if tao_kind ?src = tao_kind ?ta then tao_get demo_buffers ?src i
          else bindR (tao_get demo_buffers ?src i) (elem_value (tao_kind ?ta) host0)))"
    by (rule typed_array_set_overlap) (simp_all add: tao_ok_def demo_defs)
  then obtain B' where B': "set_typed host0 (\<lambda>_. 4096) demo_buffers ?ta ?src 1 = Inr B'"
    "\<forall>i. 0 \<le> i \<and> i < tao_length ?src \<longrightarrow>
        tao_get B' ?ta (1 + i) = (if tao_kind ?src = tao_kind ?ta then tao_get demo_buffers ?src i
          else bindR (tao_get demo_buffers ?src i) (elem_value (tao_kind ?ta) host0))" by blast
  have "tao_get B' ?ta (1 + 0) = bindR (tao_get demo_buffers ?src 0) (elem_value Uint8 host0)"
    using B'(2) [rule_format, of 0] by (simp add: demo_array_def newTypedArrayObject_def)
  with B'(1) show ?thesis by auto
qed

text \<open>
  An empty source of another element type whose buffer has no bytes:
  \<open>new Uint8Array(4).set(new Int16Array(0))\<close> indexes an empty slice, a Go panic.
\<close>

lemma set_empty_source:
  "set_typed host0 addr (demo_buffers(1 := \<lparr>ab_detached = False, ab_data = None\<rparr>))
     (demo_array Uint8 4) (newTypedArrayObject 1 0 0 Int16) 0 = Inl GoPanic"
  by (simp add: set_typed_def Let_def tao_check_def checkTypedArrayMixBigInt_def elem_addr_def
      inside_def demo_defs)

end
