(* ===== verification/Bytecode.thy ===== *)
theory Bytecode
  imports Instructions
begin

text \<open>
  The instructions as data: what the compiler emits and the loop \<open>vm.run\<close> executes. An
  instruction of \<open>vm.go\<close> that differs from others in one respect only is a constructor applied
  to the difference: the operator, the condition of a jump, the place of a binding. The
  instructions whose \<open>exec\<close> methods \<open>Instructions\<close> does not model are run by a parameter.

  The second half is the calculus the correctness of the compiler rests on: machines that
  differ in the stack, the program counter and the reference stack only (\<open>framed\<close>), actions
  that leave these alone (\<open>pure_act\<close>), and one lemma for each instruction.
\<close>

section \<open>Instructions\<close>

datatype bop =
    B_add | B_sub | B_mul | B_exp | B_div | B_mod | B_or | B_and | B_xor | B_sal | B_sar | B_shr
  | B_lt | B_gt | B_lte | B_gte | B_eq | B_neq | B_strict_eq | B_strict_neq

datatype uop = U_not | U_bnot | U_neg | U_plus | U_inc | U_dec | U_toNumber

datatype jmp =
    J_jump | J_jneP | J_jeqP | J_jne | J_jeq | J_jcoalesc | J_jcoalescP | J_jdef
  | J_jopt | J_joptc | J_joptdel | J_joptdelc | J_joptdelP | J_joptdelcP

text \<open>\<open>loadStack\<close>, \<open>loadStack1\<close> and \<open>loadStash\<close> and their relatives: what is done, and where.\<close>

datatype slotop =
    S_load | S_loadLex | S_store | S_storeP | S_storeLex | S_storeLexP | S_init | S_initP

datatype place = AtStack int | AtStack1 int | AtStash "32 word"

text \<open>\<open>loadMixed\<close>, \<open>loadMixedStack\<close>, \<open>loadMixedStack1\<close>: with the level of the scope.\<close>

datatype mixed = MixStash "32 word" | MixStack int nat | MixStack1 int nat

datatype propop =
    P_getProp | P_getPropCallee | P_getPropRecv | P_getPropRecvCallee
  | P_getPropRef | P_getPropRefStrict | P_getPropRefRecv | P_getPropRefRecvStrict
  | P_setProp | P_setPropP | P_setPropStrict | P_setPropStrictP
  | P_setPropRecv | P_setPropRecvP | P_setPropRecvStrict | P_setPropRecvStrictP
  | P_deleteProp | P_deletePropStrict | P_putProp

datatype elemop =
    E_getElem | E_getElemCallee | E_getElemRecv | E_getElemRecvCallee
  | E_getElemRef | E_getElemRefStrict | E_getElemRefRecv | E_getElemRefRecvStrict
  | E_setElem | E_setElemP | E_setElemStrict | E_setElemStrictP | E_setElemRecv | E_setElemRecvP | E_setElemRecvStrict
  | E_setElemRecvStrictP | E_setElem1 | E_deleteElem | E_deleteElemStrict

datatype nameop =
    N_loadDynamic | N_loadDynamicRef | N_loadDynamicCallee | N_resolveVar1 | N_resolveVar1Strict
  | N_setGlobal | N_setGlobalStrict | N_deleteVar | N_deleteGlobal | N_initGlobal | N_initGlobalP

text \<open>Instructions that are compiled but whose execution is a parameter.\<close>

datatype extop =
    X_call nat | X_callVariadic | X_callEval nat | X_callEvalStrict nat | X_callEvalVariadic
  | X_callEvalVariadicStrict | X_new nat | X_newVariadic | X_startVariadic | X_endVariadic
  | X_superCall nat | X_superCallVariadic | X_resolveThisDynamic | X_resolveThisStack
  | X_resolveThisStash "32 word" | X_loadThisStack | X_loadThisStash "32 word" | X_ret
  | X_cret "32 word" | X_loadSuper
  | X_getThisDynamic | X_pushSpread | X_copySpread | X_newArray nat | X_pushArrayItem
  | X_pushArraySpread | X_setElem1Named | X_await | X_yield | X_yieldRes | X_yieldDelegate
  | X_yieldDelegateRes | X_taggedTmpl "jsval list" "jsval list"

datatype instr =
    i_nil
  | i_loadVal jsval
  | i_loadUndef
  | i_loadNil
  | i_loadGlobalObject
  | i_loadNewTarget
  | i_pop
  | i_dup
  | i_rdupN nat
  | i_dupLast nat
  | i_bin bop
  | i_un uop
  | i_typeof
  | i_instanceof
  | i_in
  | i_jmp jmp int
  | i_slot slotop place
  | i_loadMixed bool ustr bool mixed
  | i_resolveMixed varType ustr bool mixed
  | i_throwAssignToConst
  | i_name nameop ustr
  | i_getValue
  | i_putValue
  | i_putValueP
  | i_popRef
  | i_prop propop ustr
  | i_elem elemop
  | i_toString
  | i_toPropertyKey
  | i_concatStrings nat
  | i_newObject
  | i_setProto
  | i_throw
  | i_throwConst panic
  | i_ext extop

record ienv =
  i_env :: venv
  i_hasInstance :: nat
  i_hasInst :: "oheap \<Rightarrow> jsval \<Rightarrow> (oheap, bool) outcome"
  i_exp :: "jsval \<Rightarrow> jsval \<Rightarrow> go_error + jsval"
  i_run_ext :: "extop \<Rightarrow> unit act"

section \<open>Execution\<close>

fun bop_fun :: "ienv \<Rightarrow> bop \<Rightarrow> jsval \<Rightarrow> jsval \<Rightarrow> go_error + jsval" where
  "bop_fun I B_add = op_add (h_of (i_env I))"
| "bop_fun I B_sub = op_sub (h_of (i_env I))"
| "bop_fun I B_mul = op_mul (h_of (i_env I))"
| "bop_fun I B_exp = i_exp I"
| "bop_fun I B_div = op_div (h_of (i_env I))"
| "bop_fun I B_mod = op_mod (h_of (i_env I))"
| "bop_fun I B_or = op_or (h_of (i_env I))"
| "bop_fun I B_and = op_and (h_of (i_env I))"
| "bop_fun I B_xor = op_xor (h_of (i_env I))"
| "bop_fun I B_sal = op_sal (h_of (i_env I))"
| "bop_fun I B_sar = op_sar (h_of (i_env I))"
| "bop_fun I B_shr = op_shr (h_of (i_env I))"
| "bop_fun I B_lt = op_lt (h_of (i_env I))"
| "bop_fun I B_gt = op_gt (h_of (i_env I))"
| "bop_fun I B_lte = op_lte (h_of (i_env I))"
| "bop_fun I B_gte = op_gte (h_of (i_env I))"
| "bop_fun I B_eq = op_eq (h_of (i_env I))"
| "bop_fun I B_neq = op_neq (h_of (i_env I))"
| "bop_fun I B_strict_eq = op_strict_eq (h_of (i_env I))"
| "bop_fun I B_strict_neq = op_strict_neq (h_of (i_env I))"

fun uop_fun :: "ienv \<Rightarrow> uop \<Rightarrow> jsval \<Rightarrow> go_error + jsval" where
  "uop_fun I U_not = (\<lambda>v. Inr (VBool (\<not> ToBoolean v)))"
| "uop_fun I U_bnot = op_bnot (h_of (i_env I))"
| "uop_fun I U_neg = op_neg (h_of (i_env I))"
| "uop_fun I U_plus = op_plus (h_of (i_env I))"
| "uop_fun I U_inc = op_inc (h_of (i_env I))"
| "uop_fun I U_dec = op_dec (h_of (i_env I))"
| "uop_fun I U_toNumber = toNumeric (h_of (i_env I))"

fun exec_jmp :: "jmp \<Rightarrow> int \<Rightarrow> unit act" where
  "exec_jmp J_jump = jump_exec"
| "exec_jmp J_jneP = jneP_exec"
| "exec_jmp J_jeqP = jeqP_exec"
| "exec_jmp J_jne = jne_exec"
| "exec_jmp J_jeq = jeq_exec"
| "exec_jmp J_jcoalesc = jcoalesc_exec"
| "exec_jmp J_jcoalescP = jcoalescP_exec"
| "exec_jmp J_jdef = jdef_exec"
| "exec_jmp J_jopt = jopt_exec"
| "exec_jmp J_joptc = joptc_exec"
| "exec_jmp J_joptdel = joptdel_exec"
| "exec_jmp J_joptdelc = joptdelc_exec"
| "exec_jmp J_joptdelP = joptdelP_exec"
| "exec_jmp J_joptdelcP = joptdelcP_exec"

fun exec_slot :: "venv \<Rightarrow> slotop \<Rightarrow> place \<Rightarrow> unit act" where
  "exec_slot E S_load p = (case p of AtStack i \<Rightarrow> loadStack_exec i | AtStack1 i \<Rightarrow> loadStack1_exec i
     | AtStash x \<Rightarrow> loadStash_exec x)"
| "exec_slot E S_loadLex p = (case p of AtStack i \<Rightarrow> loadStackLex_exec E i
     | AtStack1 i \<Rightarrow> loadStack1Lex_exec E i | AtStash x \<Rightarrow> loadStashLex_exec E x)"
| "exec_slot E S_store p = (case p of AtStack i \<Rightarrow> storeStack i | AtStack1 i \<Rightarrow> storeStack1 i
     | AtStash x \<Rightarrow> storeStash_exec x)"
| "exec_slot E S_storeP p = (case p of AtStack i \<Rightarrow> storeStackP_exec i | AtStack1 i \<Rightarrow> storeStack1P_exec i
     | AtStash x \<Rightarrow> storeStashP_exec x)"
| "exec_slot E S_storeLex p = (case p of AtStack i \<Rightarrow> storeStackLex i | AtStack1 i \<Rightarrow> storeStack1Lex i
     | AtStash x \<Rightarrow> storeStashLex_exec x)"
| "exec_slot E S_storeLexP p = (case p of AtStack i \<Rightarrow> storeStackLexP_exec i
     | AtStack1 i \<Rightarrow> storeStack1LexP_exec i | AtStash x \<Rightarrow> storeStashLexP_exec x)"
| "exec_slot E S_init p = (case p of AtStack i \<Rightarrow> initStack i | AtStack1 i \<Rightarrow> initStack1 i
     | AtStash x \<Rightarrow> initStash_exec x)"
| "exec_slot E S_initP p = (case p of AtStack i \<Rightarrow> initStackP_exec i | AtStack1 i \<Rightarrow> initStack1P_exec i
     | AtStash x \<Rightarrow> initStashP_exec x)"

fun exec_loadMixed :: "venv \<Rightarrow> bool \<Rightarrow> ustr \<Rightarrow> bool \<Rightarrow> mixed \<Rightarrow> unit act" where
  "exec_loadMixed E lx name callee (MixStash x) =
     (if lx then loadMixedLex_exec E name x callee else loadMixed_exec E name x callee)"
| "exec_loadMixed E lx name callee (MixStack i l) =
     (if lx then loadMixedStackLex_exec E name i l callee else loadMixedStack_exec E name i l callee)"
| "exec_loadMixed E lx name callee (MixStack1 i l) =
     (if lx then loadMixedStack1Lex_exec E name i l callee else loadMixedStack1_exec E name i l callee)"

fun exec_resolveMixed :: "venv \<Rightarrow> varType \<Rightarrow> ustr \<Rightarrow> bool \<Rightarrow> mixed \<Rightarrow> unit act" where
  "exec_resolveMixed E typ name strict (MixStash x) = resolveMixed_exec E name x typ strict"
| "exec_resolveMixed E typ name strict (MixStack i l) = resolveMixedStack_exec E name i typ l strict"
| "exec_resolveMixed E typ name strict (MixStack1 i l) = resolveMixedStack1_exec E name i typ l strict"

fun exec_prop :: "venv \<Rightarrow> propop \<Rightarrow> ustr \<Rightarrow> unit act" where
  "exec_prop E P_getProp = getProp_exec E"
| "exec_prop E P_getPropCallee = getPropCallee_exec E"
| "exec_prop E P_getPropRecv = getPropRecv_exec E"
| "exec_prop E P_getPropRecvCallee = getPropRecvCallee_exec E"
| "exec_prop E P_getPropRef = getPropRef_exec E"
| "exec_prop E P_getPropRefStrict = getPropRefStrict_exec E"
| "exec_prop E P_getPropRefRecv = getPropRefRecv_exec E"
| "exec_prop E P_getPropRefRecvStrict = getPropRefRecvStrict_exec E"
| "exec_prop E P_setProp = setProp_exec E"
| "exec_prop E P_setPropP = setPropP_exec E"
| "exec_prop E P_setPropStrict = setPropStrict_exec E"
| "exec_prop E P_setPropStrictP = setPropStrictP_exec E"
| "exec_prop E P_setPropRecv = setPropRecv_exec E"
| "exec_prop E P_setPropRecvP = setPropRecvP_exec E"
| "exec_prop E P_setPropRecvStrict = setPropRecvStrict_exec E"
| "exec_prop E P_setPropRecvStrictP = setPropRecvStrictP_exec E"
| "exec_prop E P_deleteProp = deleteProp_exec E"
| "exec_prop E P_deletePropStrict = deletePropStrict_exec E"
| "exec_prop E P_putProp = putProp_exec"

fun exec_elem :: "venv \<Rightarrow> elemop \<Rightarrow> unit act" where
  "exec_elem E E_getElem = getElem_exec E"
| "exec_elem E E_getElemCallee = getElemCallee_exec E"
| "exec_elem E E_getElemRecv = getElemRecv_exec E"
| "exec_elem E E_getElemRecvCallee = getElemRecvCallee_exec E"
| "exec_elem E E_getElemRef = getElemRef_exec E"
| "exec_elem E E_getElemRefStrict = getElemRefStrict_exec E"
| "exec_elem E E_getElemRefRecv = getElemRefRecv_exec E"
| "exec_elem E E_getElemRefRecvStrict = getElemRefRecvStrict_exec E"
| "exec_elem E E_setElem = setElem_exec E"
| "exec_elem E E_setElemP = setElemP_exec E"
| "exec_elem E E_setElemStrict = setElemStrict_exec E"
| "exec_elem E E_setElemStrictP = setElemStrictP_exec E"
| "exec_elem E E_setElemRecv = setElemRecv_exec E"
| "exec_elem E E_setElemRecvP = setElemRecvP_exec E"
| "exec_elem E E_setElemRecvStrict = setElemRecvStrict_exec E"
| "exec_elem E E_setElemRecvStrictP = setElemRecvStrictP_exec E"
| "exec_elem E E_setElem1 = setElem1_exec E"
| "exec_elem E E_deleteElem = deleteElem_exec E"
| "exec_elem E E_deleteElemStrict = deleteElemStrict_exec E"

fun exec_name :: "venv \<Rightarrow> nameop \<Rightarrow> ustr \<Rightarrow> unit act" where
  "exec_name E N_loadDynamic = loadDynamic_exec E"
| "exec_name E N_loadDynamicRef = loadDynamicRef_exec E"
| "exec_name E N_loadDynamicCallee = loadDynamicCallee_exec E"
| "exec_name E N_resolveVar1 = resolveVar1_exec E"
| "exec_name E N_resolveVar1Strict = resolveVar1Strict_exec E"
| "exec_name E N_setGlobal = setGlobal_exec E"
| "exec_name E N_setGlobalStrict = setGlobalStrict_exec E"
| "exec_name E N_deleteVar = deleteVar_exec E"
| "exec_name E N_deleteGlobal = deleteGlobal_exec E"
| "exec_name E N_initGlobal = initGlobal_exec"
| "exec_name E N_initGlobalP = initGlobalP_exec"

fun exec :: "ienv \<Rightarrow> instr \<Rightarrow> unit act" where
  "exec I i_nil = crash"
| "exec I (i_loadVal v) = loadVal_exec v"
| "exec I i_loadUndef = loadUndef_exec"
| "exec I i_loadNil = loadNil_exec"
| "exec I i_loadGlobalObject = loadGlobalObject_exec (i_env I)"
| "exec I i_loadNewTarget = loadNewTarget_exec"
| "exec I i_pop = pop_exec"
| "exec I i_dup = dup_exec"
| "exec I (i_rdupN d) = rdupN_exec d"
| "exec I (i_dupLast d) = dupLast_exec d"
| "exec I (i_bin b) = binop (bop_fun I b)"
| "exec I (i_un b) = unop (uop_fun I b)"
| "exec I i_typeof = typeof_exec (i_env I)"
| "exec I i_instanceof = instanceof_exec (i_env I) (i_hasInstance I) (i_hasInst I)"
| "exec I i_in = in_exec (i_env I)"
| "exec I (i_jmp j d) = exec_jmp j d"
| "exec I (i_slot k p) = exec_slot (i_env I) k p"
| "exec I (i_loadMixed lx name callee m) = exec_loadMixed (i_env I) lx name callee m"
| "exec I (i_resolveMixed typ name strict m) = exec_resolveMixed (i_env I) typ name strict m"
| "exec I i_throwAssignToConst = throwAssignToConst_exec (i_env I)"
| "exec I (i_name k name) = exec_name (i_env I) k name"
| "exec I i_getValue = getValue_exec (i_env I)"
| "exec I i_putValue = putValue_exec (i_env I)"
| "exec I i_putValueP = putValueP_exec (i_env I)"
| "exec I i_popRef = popRef_exec"
| "exec I (i_prop k name) = exec_prop (i_env I) k name"
| "exec I (i_elem k) = exec_elem (i_env I) k"
| "exec I i_toString = toString_exec (i_env I)"
| "exec I i_toPropertyKey = toPropertyKey_exec (i_env I)"
| "exec I (i_concatStrings n) = concatStrings_exec n"
| "exec I i_newObject = newObject_exec (i_env I)"
| "exec I i_setProto = setProto_exec (i_env I)"
| "exec I i_throw = throw_exec (i_env I)"
| "exec I (i_throwConst p) = throwConst_exec (i_env I) p"
| "exec I (i_ext x) = i_run_ext I x"

text \<open>
  \<open>vm.run\<close> without its interrupts: the loop ends when the program counter leaves the code.
  Programs are addresses in a table; the loop need not end, hence the fuel.
\<close>

definition halted :: "(nat \<Rightarrow> instr list) \<Rightarrow> vm \<Rightarrow> bool" where
  "halted P s \<longleftrightarrow> (case v_prg s of None \<Rightarrow> False
     | Some p \<Rightarrow> v_pc s < 0 \<or> int (length (P p)) \<le> v_pc s)"

definition step_vm :: "ienv \<Rightarrow> (nat \<Rightarrow> instr list) \<Rightarrow> unit act" where
  "step_vm I P s = (case v_prg s of None \<Rightarrow> (s, Inl (PErr GoPanic))
     | Some p \<Rightarrow> exec I (P p ! nat (v_pc s)) s)"

fun vm_run :: "ienv \<Rightarrow> (nat \<Rightarrow> instr list) \<Rightarrow> nat \<Rightarrow> vm \<Rightarrow> (vm \<times> (panic + unit)) option" where
  "vm_run I P 0 s = None"
| "vm_run I P (Suc n) s =
     (if halted P s then Some (s, Inr ())
      else case step_vm I P s of (s', Inl q) \<Rightarrow> Some (s', Inl q) | (s', Inr _) \<Rightarrow> vm_run I P n s')"
text \<open>
  \<open>vm.runTry\<close>: a panic of the loop is handled by the innermost try frame, whose catch or
  finally block the loop then goes on with, or by the frame \<open>runTry\<close> pushed itself.
\<close>

fun runTry_loop :: "ienv \<Rightarrow> (nat \<Rightarrow> instr list) \<Rightarrow> nat \<Rightarrow> nat \<Rightarrow> vm \<Rightarrow> (vm \<times> (panic + jsval option)) option" where
  "runTry_loop I P m 0 s = None"
| "runTry_loop I P m (Suc n) s =
     (case vm_run I P m s of
        None \<Rightarrow> None
      | Some (s, Inr _) \<Rightarrow> if halted P s then Some (s, Inr None) else runTry_loop I P m n s
      | Some (s, Inl q) \<Rightarrow>
          (case handleThrow (i_env I) q s of
             (s, Inl q) \<Rightarrow> Some (s, Inl q)
           | (s, Inr ex) \<Rightarrow> if ex \<noteq> None \<or> halted P s then Some (s, Inr ex) else runTry_loop I P m n s))"

definition runTry :: "ienv \<Rightarrow> (nat \<Rightarrow> instr list) \<Rightarrow> nat \<Rightarrow> nat \<Rightarrow> vm \<Rightarrow> (vm \<times> (panic + jsval option)) option" where
  "runTry I P m n s =
     map_option (\<lambda>(s, r). thenA popTryFrame (\<lambda>_ s. (s, r)) s)
       (runTry_loop I P m n (pushTryFrame (i_env I) tryPanicMarker (-1) s))"

end
