(* ===== verification/Compile_Scopes.thy ===== *)
theory Compile_Scopes
  imports Bytecode "HOL-Library.AList"
begin

text \<open>
  The state of the compiler and its scopes (\<open>compiler.go\<close>). A name is resolved to a binding
  when its use is compiled, but where the binding will live, on the stack or in a scope object,
  is known only when the scope is closed: each use leaves an instruction to be
  patched and its position (an access point) with the binding, and
  \<open>finaliseVarAlloc\<close> rewrites them all.

  Scopes and bindings are addressed by their positions in two lists. Source maps, the
  cache of string constants and the texts of error messages are left out.
\<close>

section \<open>The state of the compiler\<close>

record binding =
  bd_scope :: nat
  bd_name :: ustr
  bd_points :: "(nat \<times> int list) list"
  bd_isConst :: bool
  bd_isStrict :: bool
  bd_isArg :: bool
  bd_isVar :: bool
  bd_inStash :: bool

record cscope =
  sc_prg :: nat
  sc_outer :: "nat option"
  sc_nested :: "nat list"
  sc_names :: "(ustr \<times> nat) list"
  sc_bindings :: "nat list"
  sc_base :: int
  sc_numArgs :: nat
  sc_funcType :: funcType
  sc_strict :: bool
  sc_eval :: bool
  sc_dynLookup :: bool
  sc_needStash :: bool
  sc_variable :: bool
  sc_dynamic :: bool
  sc_argsInStash :: bool
  sc_argsNeeded :: bool

text \<open>Of a \<open>block\<close> only the positions that wait for the end of an optional chain are needed.\<close>

record cblock =
  bl_breaks :: "nat list"
  bl_conts :: "nat list"

text \<open>\<open>c.p\<close> is the program \<open>k_prg\<close>, whose code is at hand; \<open>k_prgs\<close> holds the code of the others.\<close>

record cst =
  k_code :: "instr list"
  k_prg :: nat
  k_prgs :: "nat \<Rightarrow> instr list"
  k_scope :: nat
  k_scopes :: "cscope list"
  k_bindings :: "binding list"
  k_blocks :: "cblock list"

type_synonym 'a comp = "cst \<Rightarrow> go_error + (cst \<times> 'a)"

type_synonym emitter = "cst \<Rightarrow> go_error + cst"

text \<open>\<open>throwSyntaxError\<close>, which a failed assertion calls as well.\<close>

definition syntaxError :: "cst \<Rightarrow> go_error + 'a" where
  "syntaxError c = Inl SyntaxErr"

definition emit :: "instr \<Rightarrow> emitter" where
  "emit i c = Inr (c\<lparr>k_code := k_code c @ [i]\<rparr>)"

definition skipE :: emitter where
  "skipE c = Inr c"

definition seqE :: "emitter \<Rightarrow> emitter \<Rightarrow> emitter" where
  "seqE e f c = bindR (e c) f"

fun seqEs :: "emitter list \<Rightarrow> emitter" where
  "seqEs [] = skipE"
| "seqEs [e] = e"
| "seqEs (e # f # es) = seqE e (seqEs (f # es))"

definition whenE :: "bool \<Rightarrow> emitter \<Rightarrow> emitter" where
  "whenE b e = (if b then e else skipE)"

definition emits :: "instr list \<Rightarrow> emitter" where
  "emits is c = Inr (c\<lparr>k_code := k_code c @ is\<rparr>)"

definition set_code :: "nat \<Rightarrow> instr \<Rightarrow> emitter" where
  "set_code j i c = (if j < length (k_code c) then Inr (c\<lparr>k_code := (k_code c)[j := i]\<rparr>) else Inl GoPanic)"

text \<open>
  A forward jump: its place is taken when the code before its target is emitted, and the
  distance filled in at the target.
\<close>

definition jump_over :: "(int \<Rightarrow> instr) \<Rightarrow> emitter \<Rightarrow> emitter" where
  "jump_over j body c =
     (let mark = length (k_code c) in
      bindR (seqE (emit i_nil) body c) (\<lambda>c. set_code mark (j (int (length (k_code c) - mark))) c))"

abbreviation scope_of :: "cst \<Rightarrow> cscope" where
  "scope_of c \<equiv> k_scopes c ! k_scope c"

definition upd_scope :: "nat \<Rightarrow> (cscope \<Rightarrow> cscope) \<Rightarrow> cst \<Rightarrow> cst" where
  "upd_scope s f c = c\<lparr>k_scopes := (k_scopes c)[s := f (k_scopes c ! s)]\<rparr>"

definition upd_binding :: "nat \<Rightarrow> (binding \<Rightarrow> binding) \<Rightarrow> cst \<Rightarrow> cst" where
  "upd_binding b f c = c\<lparr>k_bindings := (k_bindings c)[b := f (k_bindings c ! b)]\<rparr>"

definition prg_code :: "cst \<Rightarrow> nat \<Rightarrow> instr list" where
  "prg_code c p = (if p = k_prg c then k_code c else k_prgs c p)"

definition set_prg_code :: "nat \<Rightarrow> instr list \<Rightarrow> cst \<Rightarrow> cst" where
  "set_prg_code p code c =
     (if p = k_prg c then c\<lparr>k_code := code\<rparr> else c\<lparr>k_prgs := (k_prgs c)(p := code)\<rparr>)"

section \<open>Scopes\<close>

definition scope_isFunction :: "cscope \<Rightarrow> bool" where
  "scope_isFunction s \<longleftrightarrow> sc_funcType s \<noteq> funcNone \<and> \<not> sc_eval s"

definition scope_isDynamic :: "cscope \<Rightarrow> bool" where
  "scope_isDynamic s \<longleftrightarrow> sc_dynLookup s \<or> sc_dynamic s"

definition new_cscope :: "nat \<Rightarrow> nat option \<Rightarrow> bool \<Rightarrow> cscope" where
  "new_cscope p outer strict =
     \<lparr>sc_prg = p, sc_outer = outer, sc_nested = [], sc_names = [], sc_bindings = [], sc_base = 0,
      sc_numArgs = 0, sc_funcType = funcNone, sc_strict = strict, sc_eval = False, sc_dynLookup = False,
      sc_needStash = False, sc_variable = False, sc_dynamic = False, sc_argsInStash = False,
      sc_argsNeeded = False\<rparr>"

definition newScope :: "cst \<Rightarrow> cst" where
  "newScope c = c\<lparr>k_scopes := k_scopes c @ [new_cscope (k_prg c) (Some (k_scope c)) (sc_strict (scope_of c))],
     k_scope := length (k_scopes c)\<rparr>"

definition newBlockScope :: "cst \<Rightarrow> cst" where
  "newBlockScope c =
     (let outer = k_scope c; c = newScope c;
          c = upd_scope outer (\<lambda>s. s\<lparr>sc_nested := sc_nested s @ [k_scope c]\<rparr>) c
      in upd_scope (k_scope c) (\<lambda>s. s\<lparr>sc_base := int (length (k_code c))\<rparr>) c)"

definition popScope :: emitter where
  "popScope c = (case sc_outer (scope_of c) of Some o' \<Rightarrow> Inr (c\<lparr>k_scope := o'\<rparr>) | None \<Rightarrow> Inl GoPanic)"

definition moveArgsToStash :: "nat \<Rightarrow> cst \<Rightarrow> cst" where
  "moveArgsToStash s c =
     (let args = takeWhile (\<lambda>b. bd_isArg (k_bindings c ! b)) (sc_bindings (k_scopes c ! s));
          c = fold (\<lambda>b. upd_binding b (\<lambda>x. x\<lparr>bd_inStash := True\<rparr>)) args c
      in upd_scope s (\<lambda>x. x\<lparr>sc_argsInStash := True, sc_needStash := True\<rparr>) c)"

definition moveToStash :: "nat \<Rightarrow> cst \<Rightarrow> cst" where
  "moveToStash b c =
     (let x = k_bindings c ! b; s = bd_scope x in
      if bd_isArg x \<and> \<not> sc_argsInStash (k_scopes c ! s) then moveArgsToStash s c
      else upd_scope s (\<lambda>s. s\<lparr>sc_needStash := True\<rparr>) (upd_binding b (\<lambda>x. x\<lparr>bd_inStash := True\<rparr>) c))"

definition new_binding :: "nat \<Rightarrow> ustr \<Rightarrow> binding" where
  "new_binding s name = \<lparr>bd_scope = s, bd_name = name, bd_points = [], bd_isConst = False,
     bd_isStrict = False, bd_isArg = False, bd_isVar = False, bd_inStash = False\<rparr>"

definition addBinding :: "nat \<Rightarrow> ustr \<Rightarrow> nat comp" where
  "addBinding s name c =
     (if length (sc_bindings (k_scopes c ! s)) \<ge> 2 ^ 24 - 1 then syntaxError c
      else let b = length (k_bindings c) in
        Inr (upd_scope s (\<lambda>x. x\<lparr>sc_bindings := sc_bindings x @ [b]\<rparr>)
               (c\<lparr>k_bindings := k_bindings c @ [new_binding s name]\<rparr>), b))"

definition bindNameLexical :: "nat \<Rightarrow> ustr \<Rightarrow> bool \<Rightarrow> (nat \<times> bool) comp" where
  "bindNameLexical s name unique c =
     (case map_of (sc_names (k_scopes c ! s)) name of
        Some b \<Rightarrow> if unique then syntaxError c else Inr (c, b, False)
      | None \<Rightarrow> bindR (addBinding s name c) (\<lambda>(c, b).
          Inr (upd_scope s (\<lambda>x. x\<lparr>sc_names := AList.update name b (sc_names x)\<rparr>) c, b, True)))"

text \<open>\<open>thisBindingName\<close>, which no identifier can be.\<close>

definition thisBindingName :: ustr where
  "thisBindingName = u '' this''"

definition createThisBinding :: "nat \<Rightarrow> nat comp" where
  "createThisBinding s c =
     bindR (bindNameLexical s thisBindingName False c) (\<lambda>(c, b, _).
       Inr (upd_binding b (\<lambda>x. x\<lparr>bd_isVar := True\<rparr>) c, b))"

text \<open>
  The searches through the enclosing scopes. A scope is younger than the one around it, so
  as many steps as there are scopes are enough.
\<close>

fun bindName_loop :: "nat \<Rightarrow> ustr \<Rightarrow> nat \<Rightarrow> (nat \<times> bool) comp" where
  "bindName_loop 0 name s c = Inl GoPanic"
| "bindName_loop (Suc n) name s c =
     (let x = k_scopes c ! s in
      case (if \<not> scope_isFunction x \<and> \<not> sc_variable x then sc_outer x else None) of
        Some o' \<Rightarrow> bindName_loop n name o' c
      | None \<Rightarrow> bindR (bindNameLexical s name False c) (\<lambda>(c, b, created).
          Inr (if created then upd_binding b (\<lambda>x. x\<lparr>bd_isVar := True\<rparr>) c else c, b, created)))"

definition bindName :: "nat \<Rightarrow> ustr \<Rightarrow> (nat \<times> bool) comp" where
  "bindName s name c = bindName_loop (length (k_scopes c)) name s c"

fun bindNameShadow_loop :: "nat \<Rightarrow> ustr \<Rightarrow> nat \<Rightarrow> (nat \<times> bool) comp" where
  "bindNameShadow_loop 0 name s c = Inl GoPanic"
| "bindNameShadow_loop (Suc n) name s c =
     (let x = k_scopes c ! s in
      case (if \<not> scope_isFunction x then sc_outer x else None) of
        Some o' \<Rightarrow> bindNameShadow_loop n name o' c
      | None \<Rightarrow>
          let b = length (k_bindings c) in
          Inr (upd_scope s (\<lambda>x. x\<lparr>sc_bindings := sc_bindings x @ [b],
                 sc_names := AList.update name b (sc_names x)\<rparr>)
               (c\<lparr>k_bindings := k_bindings c @ [new_binding s name]\<rparr>),
               b, map_of (sc_names x) name = None))"

definition bindNameShadow :: "nat \<Rightarrow> ustr \<Rightarrow> (nat \<times> bool) comp" where
  "bindNameShadow s name c = bindNameShadow_loop (length (k_scopes c)) name s c"

fun nearest :: "(cscope \<Rightarrow> bool) \<Rightarrow> nat \<Rightarrow> cst \<Rightarrow> nat option \<Rightarrow> nat option" where
  "nearest f n c None = None"
| "nearest f 0 c (Some s) = None"
| "nearest f (Suc n) c (Some s) =
     (if f (k_scopes c ! s) then Some s else nearest f n c (sc_outer (k_scopes c ! s)))"

definition nearestFunction :: "cst \<Rightarrow> nat \<Rightarrow> nat option" where
  "nearestFunction c s = nearest scope_isFunction (length (k_scopes c)) c (Some s)"

definition nearestThis :: "cst \<Rightarrow> nat \<Rightarrow> nat option" where
  "nearestThis c s =
     nearest (\<lambda>x. sc_eval x \<or> scope_isFunction x \<and> sc_funcType x \<noteq> funcArrow) (length (k_scopes c)) c (Some s)"

text \<open>
  \<open>lookupName\<close>: the binding, if one is known at compile time, and whether no scope on the way
  can get new names at run time.
\<close>

definition arguments_name :: ustr where
  "arguments_name = u ''arguments''"

fun lookupName_loop :: "nat \<Rightarrow> ustr \<Rightarrow> nat \<Rightarrow> bool \<Rightarrow> bool \<Rightarrow> (nat option \<times> bool) comp" where
  "lookupName_loop 0 name s toStash noDyn c = Inl GoPanic"
| "lookupName_loop (Suc n) name s toStash noDyn c =
     (let x = k_scopes c ! s in
      case sc_outer x of
        None \<Rightarrow> Inr (c, None, False)
      | Some o' \<Rightarrow>
          (case map_of (sc_names x) name of
             Some b \<Rightarrow> Inr (if toStash \<and> \<not> bd_inStash (k_bindings c ! b) then moveToStash b c else c,
               Some b, noDyn)
           | None \<Rightarrow>
               let noDyn = (noDyn \<and> \<not> sc_dynamic x) in
               if name = arguments_name \<and> sc_funcType x \<noteq> funcNone \<and> sc_funcType x \<noteq> funcArrow then
                 if sc_funcType x = funcClsInit then syntaxError c
                 else bindR (bindName s name (upd_scope s (\<lambda>x. x\<lparr>sc_argsNeeded := True\<rparr>) c))
                        (\<lambda>(c, b, _). Inr (c, Some b, noDyn))
               else lookupName_loop n name o' (toStash \<or> scope_isFunction x) noDyn c))"

definition lookupName :: "ustr \<Rightarrow> (nat option \<times> bool) comp" where
  "lookupName name c = lookupName_loop (length (k_scopes c)) name (k_scope c) False True c"

fun lookupThis_loop :: "nat \<Rightarrow> nat option \<Rightarrow> bool \<Rightarrow> cst \<Rightarrow> cst \<times> nat option \<times> bool" where
  "lookupThis_loop n None toStash c = (c, None, False)"
| "lookupThis_loop 0 (Some s) toStash c = (c, None, False)"
| "lookupThis_loop (Suc n) (Some s) toStash c =
     (let x = k_scopes c ! s in
      if sc_outer x = None \<and> sc_eval x then (c, None, True)
      else case map_of (sc_names x) thisBindingName of
          Some b \<Rightarrow> (if toStash \<and> \<not> bd_inStash (k_bindings c ! b) then moveToStash b c else c, Some b, False)
        | None \<Rightarrow> lookupThis_loop n (sc_outer x) (toStash \<or> scope_isFunction x) c)"

definition lookupThis :: "cst \<Rightarrow> cst \<times> nat option \<times> bool" where
  "lookupThis c = lookupThis_loop (length (k_scopes c)) (Some (k_scope c)) False c"

definition cscope_deleteBinding :: "nat \<Rightarrow> nat \<Rightarrow> cst \<Rightarrow> cst" where
  "cscope_deleteBinding s b c =
     (if b \<in> set (sc_bindings (k_scopes c ! s)) then
        upd_scope s (\<lambda>x. x\<lparr>sc_names := AList.delete (bd_name (k_bindings c ! b)) (sc_names x),
          sc_bindings := remove1 b (sc_bindings x)\<rparr>) c
      else c)"

definition makeNamesMap :: "cst \<Rightarrow> nat \<Rightarrow> (ustr \<times> 32 word) list" where
  "makeNamesMap c s =
     fold (\<lambda>(i, b). let x = k_bindings c ! b;
         idx = of_nat i;
         idx = (if bd_isConst x then (if bd_isStrict x then idx OR maskConst OR maskStrict else idx OR maskConst)
                else idx);
         idx = (if bd_isVar x then idx OR maskVar else idx)
       in AList.update (bd_name x) idx) (enumerate 0 (sc_bindings (k_scopes c ! s))) []"
section \<open>Access points\<close>

definition add_point :: "nat \<Rightarrow> int \<Rightarrow> (nat \<times> int list) list \<Rightarrow> (nat \<times> int list) list" where
  "add_point s pos pts = AList.update s ((case map_of pts s of None \<Rightarrow> [] | Some ps \<Rightarrow> ps) @ [pos]) pts"

text \<open>Positions are relative to the base of the scope that is current at the access.\<close>

definition markAccessPointAtScope :: "nat \<Rightarrow> nat \<Rightarrow> int \<Rightarrow> cst \<Rightarrow> cst" where
  "markAccessPointAtScope b s pos c =
     upd_binding b (\<lambda>x. x\<lparr>bd_points := add_point s (pos - sc_base (k_scopes c ! s)) (bd_points x)\<rparr>) c"

definition markAccessPointAt :: "nat \<Rightarrow> int \<Rightarrow> cst \<Rightarrow> cst" where
  "markAccessPointAt b pos c = markAccessPointAtScope b (k_scope c) pos c"

definition markAccessPoint :: "nat \<Rightarrow> cst \<Rightarrow> cst" where
  "markAccessPoint b c = markAccessPointAt b (int (length (prg_code c (sc_prg (scope_of c))))) c"

definition useCount :: "binding \<Rightarrow> nat" where
  "useCount b = sum_list (map (length \<circ> snd) (bd_points b))"

text \<open>A \<open>var\<close> needs no check for an access before its initialisation.\<close>

definition plain_var :: "binding \<Rightarrow> bool" where
  "plain_var b \<longleftrightarrow> bd_isVar b \<and> \<not> bd_isArg b"

definition mark_emit :: "nat \<Rightarrow> instr \<Rightarrow> emitter" where
  "mark_emit b i c = emit i (markAccessPoint b c)"

definition load_instr :: "binding \<Rightarrow> instr" where
  "load_instr x = i_slot (if plain_var x then S_load else S_loadLex) (AtStack 0)"

definition emitGet :: "nat \<Rightarrow> emitter" where
  "emitGet b c = mark_emit b (load_instr (k_bindings c ! b)) c"

definition emitGetAt :: "nat \<Rightarrow> nat \<Rightarrow> emitter" where
  "emitGetAt b pos c = set_code pos (load_instr (k_bindings c ! b)) (markAccessPointAt b (int pos) c)"

definition emitGetP :: "nat \<Rightarrow> emitter" where
  "emitGetP b c =
     (if plain_var (k_bindings c ! b) then Inr c
      else seqE (mark_emit b (i_slot S_loadLex (AtStack 0))) (emit i_pop) c)"

text \<open>
  A constant is not stored to. In strict mode, or when it was declared with \<open>const\<close>, the store
  throws; else nothing is emitted.
\<close>

definition emit_store :: "slotop \<Rightarrow> slotop \<Rightarrow> nat \<Rightarrow> emitter" where
  "emit_store var_op lex_op b c =
     (let x = k_bindings c ! b in
      if bd_isConst x then
        if bd_isStrict x \<or> sc_strict (scope_of c) then emit i_throwAssignToConst c else Inr c
      else mark_emit b (i_slot (if plain_var x then var_op else lex_op) (AtStack 0)) c)"

definition emitSet :: "nat \<Rightarrow> emitter" where
  "emitSet = emit_store S_store S_storeLex"

definition emitSetP :: "nat \<Rightarrow> emitter" where
  "emitSetP = emit_store S_storeP S_storeLexP"

definition is_global_lex :: "cst \<Rightarrow> binding \<Rightarrow> bool" where
  "is_global_lex c x \<longleftrightarrow> \<not> bd_isVar x \<and> sc_outer (k_scopes c ! bd_scope x) = None"

definition emitInitP :: "nat \<Rightarrow> emitter" where
  "emitInitP b c =
     (let x = k_bindings c ! b in
      if is_global_lex c x then emit (i_name N_initGlobalP (bd_name x)) c
      else mark_emit b (i_slot S_initP (AtStack 0)) c)"

definition emitInit :: "nat \<Rightarrow> emitter" where
  "emitInit b c =
     (let x = k_bindings c ! b in
      if is_global_lex c x then emit (i_name N_initGlobal (bd_name x)) c
      else mark_emit b (i_slot S_init (AtStack 0)) c)"

definition emitInitAt :: "nat \<Rightarrow> nat \<Rightarrow> emitter" where
  "emitInitAt b pos c =
     (let x = k_bindings c ! b in
      if is_global_lex c x then set_code pos (i_name N_initGlobal (bd_name x)) c
      else set_code pos (i_slot S_init (AtStack 0)) (markAccessPointAt b (int pos) c))"

definition emitGetVar :: "nat \<Rightarrow> bool \<Rightarrow> emitter" where
  "emitGetVar b callee c =
     (let x = k_bindings c ! b in
      mark_emit b (i_loadMixed (\<not> plain_var x) (bd_name x) callee (MixStash 0)) c)"

definition emitResolveVar :: "nat \<Rightarrow> bool \<Rightarrow> emitter" where
  "emitResolveVar b strict c =
     (let x = k_bindings c ! b;
          typ = (if plain_var x then varTypeVar
                 else if bd_isConst x then if bd_isStrict x then varTypeStrictConst else varTypeConst
                 else varTypeLet)
      in mark_emit b (i_resolveMixed typ (bd_name x) strict (MixStash 0)) c)"

section \<open>Allocation of the variables\<close>

text \<open>
  The instruction an access point is rewritten to; \<open>None\<close> is the failed assertion. The
  binding of \<open>this\<close> has instructions of its own in the constructor of a derived class.
\<close>

fun patch_stash :: "32 word \<Rightarrow> instr \<Rightarrow> instr option" where
  "patch_stash idx (i_slot k (AtStack _)) = Some (i_slot k (AtStash idx))"
| "patch_stash idx (i_loadMixed lx n callee (MixStash _)) = Some (i_loadMixed lx n callee (MixStash idx))"
| "patch_stash idx (i_resolveMixed t n strict (MixStash _)) = Some (i_resolveMixed t n strict (MixStash idx))"
| "patch_stash idx _ = None"

fun patch_this_stash :: "bool \<Rightarrow> 32 word \<Rightarrow> instr \<Rightarrow> instr option" where
  "patch_this_stash derived idx (i_slot S_load (AtStack _)) =
     Some (if derived then i_ext (X_loadThisStash idx) else i_slot S_load (AtStash idx))"
| "patch_this_stash derived idx (i_slot S_init (AtStack _)) = Some (i_slot S_init (AtStash idx))"
| "patch_this_stash derived idx (i_slot S_initP (AtStack _)) = Some (i_slot S_initP (AtStash idx))"
| "patch_this_stash derived idx (i_ext X_resolveThisStack) =
     (if derived then Some (i_ext (X_resolveThisStash idx)) else None)"
| "patch_this_stash derived idx (i_ext X_ret) = (if derived then Some (i_ext (X_cret idx)) else None)"
| "patch_this_stash derived idx _ = None"

fun patch_stack :: "bool \<Rightarrow> int \<Rightarrow> nat \<Rightarrow> instr \<Rightarrow> instr option" where
  "patch_stack argsInStash idx level (i_slot k (AtStack _)) =
     Some (i_slot k (if argsInStash then AtStack1 idx else AtStack idx))"
| "patch_stack argsInStash idx level (i_loadMixed lx n callee (MixStash _)) =
     Some (i_loadMixed lx n callee (if argsInStash then MixStack1 idx level else MixStack idx level))"
| "patch_stack argsInStash idx level (i_resolveMixed t n strict (MixStash _)) =
     Some (i_resolveMixed t n strict (if argsInStash then MixStack1 idx level else MixStack idx level))"
| "patch_stack argsInStash idx level _ = None"

fun patch_this_stack :: "instr \<Rightarrow> instr option" where
  "patch_this_stack (i_slot S_load (AtStack _)) = Some (i_ext X_loadThisStack)"
| "patch_this_stack (i_slot S_init (AtStack i)) = Some (i_slot S_init (AtStack i))"
| "patch_this_stack (i_slot S_initP (AtStack i)) = Some (i_slot S_initP (AtStack i))"
| "patch_this_stack (i_ext X_resolveThisStack) = Some (i_ext X_resolveThisStack)"
| "patch_this_stack (i_ext X_ret) = Some (i_ext X_ret)"
| "patch_this_stack _ = None"

text \<open>How many scope objects there will be between the scope of an access and the binding's.\<close>

fun scope_level :: "nat \<Rightarrow> cst \<Rightarrow> nat \<Rightarrow> nat option \<Rightarrow> nat" where
  "scope_level n c target None = 0"
| "scope_level 0 c target (Some s) = 0"
| "scope_level (Suc n) c target (Some s) =
     (if s = target then 0
      else (if sc_needStash (k_scopes c ! s) \<or> scope_isDynamic (k_scopes c ! s) then 1 else 0)
           + scope_level n c target (sc_outer (k_scopes c ! s)))"

fun patch_code :: "(instr \<Rightarrow> instr option) \<Rightarrow> int list \<Rightarrow> instr list \<Rightarrow> go_error + instr list" where
  "patch_code f [] code = Inr code"
| "patch_code f (pc # pcs) code =
     (if pc < 0 \<or> int (length code) \<le> pc then Inl GoPanic
      else case f (code ! nat pc) of
          None \<Rightarrow> Inl SyntaxErr
        | Some i \<Rightarrow> patch_code f pcs (code[nat pc := i]))"

text \<open>All access points of a binding; \<open>f\<close> gets the level of the scope of the access.\<close>

fun patch_points :: "(nat \<Rightarrow> instr \<Rightarrow> instr option) \<Rightarrow> nat \<Rightarrow> (nat \<times> int list) list \<Rightarrow> emitter" where
  "patch_points f target [] c = Inr c"
| "patch_points f target ((s, pcs) # pts) c =
     (let level = scope_level (length (k_scopes c)) c target (Some s);
          x = k_scopes c ! s in
      if level > 255 then syntaxError c
      else bindR (patch_code (f level) (map (\<lambda>pc. sc_base x + pc) pcs) (prg_code c (sc_prg x)))
             (\<lambda>code. patch_points f target pts (set_prg_code (sc_prg x) code c)))"

definition stash_operand :: "nat \<Rightarrow> nat \<Rightarrow> 32 word" where
  "stash_operand level stashIdx = push_bit 24 (of_nat level) OR of_nat stashIdx"

record alloc_ctx =
  al_scope :: nat
  al_argsInStash :: bool
  al_allInStash :: bool
  al_derived :: bool
  al_numArgs :: nat
  al_offset :: nat

text \<open>One binding, the \<open>i\<close>-th of the scope; the counters of the stack and of the scope object.\<close>

definition alloc_binding :: "alloc_ctx \<Rightarrow> nat \<Rightarrow> nat \<Rightarrow> nat \<Rightarrow> nat \<Rightarrow> (nat \<times> nat) comp" where
  "alloc_binding A i b stackIdx stashIdx c =
     (let x = k_bindings c ! b; this = (bd_name x = thisBindingName) in
      if al_allInStash A \<or> bd_inStash x then
        bindR (patch_points
            (\<lambda>level. if this then patch_this_stash (al_derived A) (stash_operand level stashIdx)
                     else patch_stash (stash_operand level stashIdx)) (al_scope A) (bd_points x) c)
          (\<lambda>c. Inr (c, stackIdx, Suc stashIdx))
      else
        let arg = (i < al_numArgs A);
            stackIdx' = (if this \<or> arg then stackIdx else Suc stackIdx);
            idx = (if this then 0 else if arg then - (int i + 1) else int (stackIdx' + al_offset A))
        in bindR (if this \<and> \<not> al_derived A then patch_points (\<lambda>_. Some) (al_scope A) (map (\<lambda>(s, _). (s, [])) (bd_points x)) c
                  else patch_points
                    (\<lambda>level. if this then patch_this_stack else patch_stack (al_argsInStash A) idx level)
                    (al_scope A) (bd_points x) c)
             (\<lambda>c. Inr (c, stackIdx', stashIdx)))"

fun alloc_bindings :: "alloc_ctx \<Rightarrow> nat \<Rightarrow> nat list \<Rightarrow> nat \<Rightarrow> nat \<Rightarrow> (nat \<times> nat) comp" where
  "alloc_bindings A i [] stackIdx stashIdx c = Inr (c, stackIdx, stashIdx)"
| "alloc_bindings A i (b # bs) stackIdx stashIdx c =
     bindR (alloc_binding A i b stackIdx stashIdx c)
       (\<lambda>(c, stackIdx, stashIdx). alloc_bindings A (Suc i) bs stackIdx stashIdx c)"

definition alloc_of :: "cst \<Rightarrow> nat \<Rightarrow> nat \<Rightarrow> alloc_ctx" where
  "alloc_of c s stackOffset =
     \<lparr>al_scope = s,
      al_argsInStash = (case nearestFunction c s of None \<Rightarrow> False | Some f \<Rightarrow> sc_argsInStash (k_scopes c ! f)),
      al_allInStash = scope_isDynamic (k_scopes c ! s),
      al_derived = (case nearestThis c s of None \<Rightarrow> False | Some f \<Rightarrow> sc_funcType (k_scopes c ! f) = funcDerivedCtor),
      al_numArgs = sc_numArgs (k_scopes c ! s), al_offset = stackOffset\<rparr>"

text \<open>\<open>finaliseVarAlloc\<close>: the sizes of the scope object and of the stack part, then the blocks inside.\<close>

fun finaliseVarAlloc :: "nat \<Rightarrow> nat \<Rightarrow> nat \<Rightarrow> (nat \<times> nat) comp"
  and finalise_nested :: "nat \<Rightarrow> nat \<Rightarrow> nat list \<Rightarrow> emitter" where
  "finaliseVarAlloc 0 s stackOffset c = Inl GoPanic"
| "finaliseVarAlloc (Suc n) s stackOffset c =
     bindR (alloc_bindings (alloc_of c s stackOffset) 0 (sc_bindings (k_scopes c ! s)) 0 0 c)
       (\<lambda>(c, stackIdx, stashIdx).
         bindR (finalise_nested n (stackIdx + stackOffset) (sc_nested (k_scopes c ! s)) c)
           (\<lambda>c. Inr (c, stashIdx, stackIdx)))"
| "finalise_nested n stackOffset [] c = Inr c"
| "finalise_nested n stackOffset (s # ss) c =
     bindR (finaliseVarAlloc n s stackOffset c) (\<lambda>(c, _). finalise_nested n stackOffset ss c)"

end
