(* ===== verification/Compile_Expr.thy ===== *)
theory Compile_Expr
  imports Compile_Scopes
begin

text \<open>
  Compilation of expressions (\<open>compiler_expr.go\<close>). Each kind of expression is a Go type that
  implements the interface \<open>compiledExpr\<close>: it can emit the code that leaves its value on
  the stack, that assigns to it, that makes a reference of it, that updates it in place,
  that deletes it. Here the interface is a record of emitters (\<open>cexpr\<close>), each method of each type
  a definition, and \<open>compileExpression\<close> builds the records from the syntax tree.

  An expression is constant when it is made of literals and operators; \<open>evalConst\<close> compiles it
  on the side, runs the code on a machine of the compiler's own, and the value replaces the
  expression. Functions, classes, regular expressions, private names and destructuring
  patterns are not in the syntax.
\<close>

section \<open>Syntax\<close>

datatype token =
    T_ASSIGN | T_PLUS | T_MINUS | T_MULTIPLY | T_EXPONENT | T_SLASH | T_REMAINDER | T_AND | T_OR
  | T_EXCLUSIVE_OR | T_SHIFT_LEFT | T_SHIFT_RIGHT | T_UNSIGNED_SHIFT_RIGHT | T_LOGICAL_AND
  | T_LOGICAL_OR | T_COALESCE | T_EQUAL | T_STRICT_EQUAL | T_NOT_EQUAL | T_STRICT_NOT_EQUAL | T_LESS
  | T_GREATER | T_LESS_OR_EQUAL | T_GREATER_OR_EQUAL | T_INSTANCEOF | T_IN | T_NOT | T_BITWISE_NOT
  | T_TYPEOF | T_DELETE | T_VOID | T_INCREMENT | T_DECREMENT

datatype numlit = NumInt int | NumFloat f64 | NumBig int

text \<open>\<open>TemplateElement\<close>: the source text, and its value if the escapes in it are valid.\<close>

record telement =
  te_literal :: ustr
  te_parsed :: ustr
  te_valid :: bool

datatype expr =
    NumberLiteral ustr numlit
  | StringLiteral ustr
  | BooleanLiteral bool
  | NullLiteral
  | Identifier ustr
  | TemplateLiteral "expr option" "telement list" "expr list"
  | BinaryExpression token expr expr
  | UnaryExpression token expr bool
  | ConditionalExpression expr expr expr
  | AssignExpression token expr expr
  | SequenceExpression "expr list"
  | DotExpression expr ustr
  | BracketExpression expr expr
  | SuperDotExpression ustr
  | SuperBracketExpression expr
  | SuperExpression
  | ThisExpression
  | MetaProperty ustr ustr
  | CallExpression expr "(bool \<times> expr) list"
  | NewExpression expr "(bool \<times> expr) list"
  | ArrayLiteral "(bool \<times> expr) option list"
  | ObjectLiteral "property list"
  | OptionalChain expr
  | Optional expr
  | AwaitExpression expr
  | YieldExpression "expr option" bool
and property =
    PropertyKeyed expr expr bool
  | PropertyShort ustr "expr option"
  | SpreadProperty expr

section \<open>Compiled expressions\<close>

text \<open>What an expression can do as a value, and then as the target of an assignment as well.\<close>

record cvalue =
  v_getter :: "bool \<Rightarrow> emitter"
  v_constant :: "cst \<Rightarrow> go_error + bool"
  v_literal :: "jsval option"
  v_named :: "(ustr \<Rightarrow> emitter) option"

record cexpr = cvalue +
  x_setter :: "cvalue \<Rightarrow> bool \<Rightarrow> emitter"
  x_ref :: emitter
  x_unary :: "emitter option \<Rightarrow> emitter \<Rightarrow> bool \<Rightarrow> bool \<Rightarrow> emitter"
  x_delete :: "bool \<Rightarrow> emitter"
  x_getterOrRef :: "emitter option"
  x_ident :: "ustr option"
  x_callee :: "ustr comp"
  x_isSuper :: bool

text \<open>
  The machine constants are evaluated on: its environment, its state before an evaluation, the
  address of its program (not that of a program being compiled).
\<close>

record cenv =
  e_I :: ienv
  e_vm :: vm
  e_prg :: nat

abbreviation val :: "'a cvalue_scheme \<Rightarrow> cvalue" where
  "val \<equiv> cvalue.truncate"

lemma val_simps [simp]:
  "v_getter (val e) = v_getter e" "v_constant (val e) = v_constant e"
  "v_literal (val e) = v_literal e" "v_named (val e) = v_named e"
  by (simp_all add: cvalue.truncate_def)

definition emit_pop_unless :: "bool \<Rightarrow> emitter" where
  "emit_pop_unless putOnStack = whenE (\<not> putOnStack) (emit i_pop)"

definition by_strict :: "instr \<Rightarrow> instr \<Rightarrow> emitter" where
  "by_strict i j c = emit (if sc_strict (scope_of c) then i else j) c"

definition emitLiteralValue :: "jsval \<Rightarrow> emitter" where
  "emitLiteralValue v = emit (i_loadVal v)"

definition base_emitDelete :: "bool \<Rightarrow> emitter" where
  "base_emitDelete putOnStack = whenE putOnStack (emitLiteralValue (VBool True))"

definition default_callee :: "(bool \<Rightarrow> emitter) \<Rightarrow> ustr comp" where
  "default_callee getter c = bindR (seqE (emit i_loadUndef) (getter True) c) (\<lambda>c. Inr (c, []))"

text \<open>\<open>baseCompiledExpr\<close>, with the method every type has of its own.\<close>

definition base_expr :: "(bool \<Rightarrow> emitter) \<Rightarrow> cexpr" where
  "base_expr getter =
     \<lparr>v_getter = getter, v_constant = (\<lambda>_. Inr False), v_literal = None, v_named = None,
      x_setter = (\<lambda>_ _. syntaxError), x_ref = syntaxError, x_unary = (\<lambda>_ _ _ _. syntaxError),
      x_delete = base_emitDelete, x_getterOrRef = None, x_ident = None,
      x_callee = default_callee getter, x_isSuper = False\<rparr>"

section \<open>Constants\<close>

definition enter_eval :: "cenv \<Rightarrow> cst \<Rightarrow> cst" where
  "enter_eval K c =
     (if k_prg c = e_prg K then c
      else c\<lparr>k_prgs := (k_prgs c)(k_prg c := k_code c), k_prg := e_prg K, k_code := []\<rparr>)"

text \<open>
  The code of a constant has no jumps back and no handlers: one step for each instruction is
  enough, and one round of \<open>runTry\<close>. The result is the objects of the compiler's machine with
  the value, or with the exception.
\<close>

definition eval_code :: "cenv \<Rightarrow> instr list \<Rightarrow> nat \<Rightarrow> go_error + (oheap \<times> (jsval + jsval))" where
  "eval_code K code pc =
     (case runTry (e_I K) (\<lambda>_. code) (Suc (length code)) 1
             ((e_vm K)\<lparr>v_prg := Some (e_prg K), v_pc := int pc\<rparr>) of
        Some (s, Inr None) \<Rightarrow>
          (case pop s of (s, Inr (CVal v)) \<Rightarrow> Inr (v_heap s, Inr v) | _ \<Rightarrow> Inl GoPanic)
      | Some (s, Inr (Some ex)) \<Rightarrow> Inr (v_heap s, Inl ex)
      | _ \<Rightarrow> Inl GoPanic)"

definition evalConst :: "cenv \<Rightarrow> 'a cvalue_scheme \<Rightarrow> cst \<Rightarrow> go_error + (oheap \<times> (jsval + jsval))" where
  "evalConst K e c =
     (case v_literal e of
        Some v \<Rightarrow> Inr (v_heap (e_vm K), Inr v)
      | None \<Rightarrow>
          (let c = enter_eval K c in
           bindR (v_getter e True c) (\<lambda>c'. eval_code K (k_code c') (length (k_code c)))))"

definition obj_string :: "cenv \<Rightarrow> oheap \<Rightarrow> nat \<Rightarrow> ustr \<Rightarrow> go_error + jsval option" where
  "obj_string K H a name =
     (let E = i_env (e_I K) in
      case getStr (x_env E) (x_fuel E) H a name None of None \<Rightarrow> Inl GoPanic | Some (_, r) \<Rightarrow> r)"

definition emitThrow :: "cenv \<Rightarrow> oheap \<Rightarrow> jsval \<Rightarrow> emitter" where
  "emitThrow K H v c =
     (case v of
        VObject a \<Rightarrow>
          bindR (obj_string K H a (u ''name'')) (\<lambda>n.
          bindR (toString (h_of (i_env (e_I K))) (case n of None \<Rightarrow> VUndefined | Some n \<Rightarrow> n)) (\<lambda>t.
            if t = u ''TypeError'' \<or> t = u ''RangeError'' then
              bindR (obj_string K H a (u ''message'')) (\<lambda>msg.
                seqEs [emit (i_name N_loadDynamic t),
                  (case msg of Some m \<Rightarrow> seqE (emitLiteralValue m) (emit (i_ext (X_new 1)))
                             | None \<Rightarrow> emit (i_ext (X_new 0))),
                  emit i_throw] c)
            else syntaxError c))
      | _ \<Rightarrow> syntaxError c)"

definition emitConst :: "cenv \<Rightarrow> 'a cvalue_scheme \<Rightarrow> bool \<Rightarrow> emitter" where
  "emitConst K e putOnStack c =
     bindR (evalConst K e c) (\<lambda>(H, r). case r of
         Inr v \<Rightarrow> whenE putOnStack (emitLiteralValue v) c
       | Inl ex \<Rightarrow> emitThrow K H ex c)"

definition emitExpr :: "cenv \<Rightarrow> 'a cvalue_scheme \<Rightarrow> bool \<Rightarrow> emitter" where
  "emitExpr K e putOnStack c =
     bindR (v_constant e c) (\<lambda>k. if k then emitConst K e putOnStack c else v_getter e putOnStack c)"

definition emitNamed :: "'a cvalue_scheme \<Rightarrow> ustr \<Rightarrow> emitter" where
  "emitNamed e name = (case v_named e of Some f \<Rightarrow> f name | None \<Rightarrow> v_getter e True)"

definition emitNamedOrConst :: "cenv \<Rightarrow> 'a cvalue_scheme \<Rightarrow> ustr \<Rightarrow> emitter" where
  "emitNamedOrConst K e name c =
     bindR (v_constant e c) (\<lambda>k. if k then emitConst K e True c else emitNamed e name c)"

text \<open>The name of a property whose expression is constant.\<close>

definition checkConstantString :: "cenv \<Rightarrow> 'a cvalue_scheme \<Rightarrow> cst \<Rightarrow> go_error + ustr option" where
  "checkConstantString K e c =
     bindR (v_constant e c) (\<lambda>k.
       if \<not> k then Inr None
       else bindR (evalConst K e c) (\<lambda>(H, r). Inr (case r of Inr (VString s) \<Rightarrow> Some s | _ \<Rightarrow> None)))"

section \<open>Literals\<close>

definition compiledLiteral :: "jsval \<Rightarrow> cexpr" where
  "compiledLiteral v =
     (base_expr (\<lambda>putOnStack. whenE putOnStack (emitLiteralValue v)))
       \<lparr>v_constant := \<lambda>_. Inr True, v_literal := Some v\<rparr>"

definition is_octal_digit :: "16 word \<Rightarrow> bool" where
  "is_octal_digit d \<longleftrightarrow> 48 \<le> d \<and> d \<le> 55"

definition compileNumberLiteral :: "ustr \<Rightarrow> numlit \<Rightarrow> cst \<Rightarrow> go_error + cexpr" where
  "compileNumberLiteral literal v c =
     (if sc_strict (scope_of c) \<and> length literal > 1 \<and> literal ! 0 = 48 \<and> is_octal_digit (literal ! 1)
      then syntaxError c
      else Inr (compiledLiteral (case v of NumInt i \<Rightarrow> intToValue i | NumFloat f \<Rightarrow> floatToValue f
                                         | NumBig i \<Rightarrow> VBigInt i)))"

fun template_rest :: "(ustr \<times> cexpr) list \<Rightarrow> emitter" where
  "template_rest [] = skipE"
| "template_rest ((elt, e) # es) =
     seqEs [whenE (elt \<noteq> []) (emitLiteralValue (VString elt)), v_getter e True, emit i_toString, template_rest es]"

text \<open>
  A template without a tag: the texts that are not empty and the expressions, converted, are
  concatenated. Between two texts there is one expression.
\<close>

definition template_strings :: "telement list \<Rightarrow> cexpr list \<Rightarrow> emitter" where
  "template_strings elements expressions =
     (let tail = te_parsed (last elements); parts = zip (map te_parsed (butlast elements)) expressions;
          count = length (filter (\<lambda>(t, _). t \<noteq> []) parts) + length parts + (if tail \<noteq> [] then 1 else 0)
      in if length expressions < length elements - 1 then (\<lambda>_. Inl GoPanic)
         else seqEs [template_rest parts, whenE (tail \<noteq> []) (emitLiteralValue (VString tail)),
                emit (i_concatStrings count)])"

definition compiledTemplateLiteral_emitGetter ::
  "cexpr option \<Rightarrow> telement list \<Rightarrow> cexpr list \<Rightarrow> bool \<Rightarrow> emitter" where
  "compiledTemplateLiteral_emitGetter tag elements expressions putOnStack =
     seqE
       (case tag of
          None \<Rightarrow>
            (if elements = [] then emitLiteralValue (VString [])
             else if length elements = 1 then emitLiteralValue (VString (te_parsed (hd elements)))
             else template_strings elements expressions)
        | Some t \<Rightarrow>
            (\<lambda>c. bindR (x_callee t c) (\<lambda>(c, _).
               seqEs (emit (i_ext (X_taggedTmpl (map (VString \<circ> te_literal) elements)
                        (map (\<lambda>e. if te_valid e then VString (te_parsed e) else VUndefined) elements)))
                      # map (\<lambda>e. v_getter e True) expressions
                      @ [emit (i_ext (X_call (length expressions + 1)))]) c)))
       (emit_pop_unless putOnStack)"
section \<open>Identifiers\<close>

definition checkIdentifierName :: "ustr \<Rightarrow> emitter" where
  "checkIdentifierName name c =
     (if name \<in> set (map u [''implements'', ''interface'', ''let'', ''package'', ''private'', ''protected'',
        ''public'', ''static'', ''yield'']) then syntaxError c else Inr c)"

definition checkIdentifierLName :: "ustr \<Rightarrow> emitter" where
  "checkIdentifierLName name c = (if name = u ''eval'' \<or> name = arguments_name then syntaxError c else Inr c)"

definition when_strict :: "emitter \<Rightarrow> emitter" where
  "when_strict e c = (if sc_strict (scope_of c) then e c else Inr c)"

definition with_binding :: "ustr \<Rightarrow> (nat option \<Rightarrow> bool \<Rightarrow> emitter) \<Rightarrow> emitter" where
  "with_binding name f c = bindR (lookupName name c) (\<lambda>(c, b, noDynamics). f b noDynamics c)"

text \<open>A failed assertion when the name is unknown, though no scope can get new names.\<close>

definition known :: "nat option \<Rightarrow> (nat \<Rightarrow> emitter) \<Rightarrow> emitter" where
  "known b f = (case b of None \<Rightarrow> syntaxError | Some b \<Rightarrow> f b)"

definition compiledIdentifierExpr_emitGetter :: "ustr \<Rightarrow> bool \<Rightarrow> emitter" where
  "compiledIdentifierExpr_emitGetter name putOnStack =
     with_binding name (\<lambda>b noDynamics.
       if noDynamics then known b (\<lambda>b. if putOnStack then emitGet b else emitGetP b)
       else seqE (case b of Some b \<Rightarrow> emitGetVar b False | None \<Rightarrow> emit (i_name N_loadDynamic name))
              (emit_pop_unless putOnStack))"

definition compiledIdentifierExpr_emitGetterOrRef :: "ustr \<Rightarrow> emitter" where
  "compiledIdentifierExpr_emitGetterOrRef name =
     with_binding name (\<lambda>b noDynamics.
       if noDynamics then known b emitGet
       else (case b of Some b \<Rightarrow> emitGetVar b False | None \<Rightarrow> emit (i_name N_loadDynamicRef name)))"

definition compiledIdentifierExpr_emitGetterAndCallee :: "ustr \<Rightarrow> emitter" where
  "compiledIdentifierExpr_emitGetterAndCallee name =
     with_binding name (\<lambda>b noDynamics.
       if noDynamics then known b (\<lambda>b. seqE (emit i_loadUndef) (emitGet b))
       else (case b of Some b \<Rightarrow> emitGetVar b True | None \<Rightarrow> emit (i_name N_loadDynamicCallee name)))"

definition emitVarRef :: "ustr \<Rightarrow> nat option \<Rightarrow> emitter" where
  "emitVarRef name b =
     seqE (when_strict (checkIdentifierLName name))
       (case b of
          Some b \<Rightarrow> (\<lambda>c. emitResolveVar b (sc_strict (scope_of c)) c)
        | None \<Rightarrow> by_strict (i_name N_resolveVar1Strict name) (i_name N_resolveVar1 name))"

definition compiledIdentifierExpr_emitVarSetter1 :: "ustr \<Rightarrow> bool \<Rightarrow> (bool \<Rightarrow> emitter) \<Rightarrow> emitter" where
  "compiledIdentifierExpr_emitVarSetter1 name putOnStack emitRight =
     with_binding name (\<lambda>b noDynamics.
       if noDynamics then
         seqEs [when_strict (checkIdentifierLName name), emitRight False,
           (case b of
              Some b \<Rightarrow> if putOnStack then emitSet b else emitSetP b
            | None \<Rightarrow> seqE (by_strict (i_name N_setGlobalStrict name) (i_name N_setGlobal name))
                (emit_pop_unless putOnStack))]
       else seqEs [emitVarRef name b, emitRight True, emit (if putOnStack then i_putValue else i_putValueP)])"

definition compiledIdentifierExpr_emitVarSetter :: "cenv \<Rightarrow> ustr \<Rightarrow> cvalue \<Rightarrow> bool \<Rightarrow> emitter" where
  "compiledIdentifierExpr_emitVarSetter K name valueExpr putOnStack =
     compiledIdentifierExpr_emitVarSetter1 name putOnStack (\<lambda>_. emitNamedOrConst K valueExpr name)"

definition compiledIdentifierExpr_emitRef :: "ustr \<Rightarrow> emitter" where
  "compiledIdentifierExpr_emitRef name = with_binding name (\<lambda>b _. emitVarRef name b)"

definition compiledIdentifierExpr_emitUnary ::
  "ustr \<Rightarrow> emitter option \<Rightarrow> emitter \<Rightarrow> bool \<Rightarrow> bool \<Rightarrow> emitter" where
  "compiledIdentifierExpr_emitUnary name prepare body postfix putOnStack =
     (let current = (\<lambda>isRef. if isRef then emit i_getValue else compiledIdentifierExpr_emitGetter name True) in
      if putOnStack then
        seqE (compiledIdentifierExpr_emitVarSetter1 name True (\<lambda>isRef.
            seqEs [emit i_loadUndef, current isRef, (case prepare of Some p \<Rightarrow> p | None \<Rightarrow> skipE),
              whenE (\<not> postfix) body, emit (i_rdupN 1), whenE postfix body]))
          (emit i_pop)
      else compiledIdentifierExpr_emitVarSetter1 name False (\<lambda>isRef. seqE (current isRef) body))"

definition compiledIdentifierExpr_emitDelete :: "ustr \<Rightarrow> bool \<Rightarrow> emitter" where
  "compiledIdentifierExpr_emitDelete name putOnStack c =
     (if sc_strict (scope_of c) then syntaxError c
      else with_binding name (\<lambda>b noDynamics.
        case b of
          None \<Rightarrow> seqE (emit (i_name (if noDynamics then N_deleteGlobal else N_deleteVar) name))
                    (emit_pop_unless putOnStack)
        | Some _ \<Rightarrow> whenE putOnStack (emitLiteralValue (VBool False))) c)"

definition compiledIdentifierExpr :: "cenv \<Rightarrow> ustr \<Rightarrow> cexpr" where
  "compiledIdentifierExpr K name =
     (base_expr (compiledIdentifierExpr_emitGetter name))
       \<lparr>x_setter := compiledIdentifierExpr_emitVarSetter K name, x_ref := compiledIdentifierExpr_emitRef name,
        x_unary := compiledIdentifierExpr_emitUnary name, x_delete := compiledIdentifierExpr_emitDelete name,
        x_getterOrRef := Some (compiledIdentifierExpr_emitGetterOrRef name), x_ident := Some name,
        x_callee := (\<lambda>c. bindR (compiledIdentifierExpr_emitGetterAndCallee name c) (\<lambda>c. Inr (c, name)))\<rparr>"

definition emitLoadThis :: emitter where
  "emitLoadThis c =
     (case lookupThis c of
        (c, Some b, _) \<Rightarrow> emitGet b c
      | (c, None, eval) \<Rightarrow> emit (if eval then i_ext X_getThisDynamic else i_loadGlobalObject) c)"

definition compiledThisExpr :: cexpr where
  "compiledThisExpr = base_expr (\<lambda>putOnStack. seqE emitLoadThis (emit_pop_unless putOnStack))"

definition compiledNewTarget_emitGetter :: "bool \<Rightarrow> emitter" where
  "compiledNewTarget_emitGetter putOnStack c =
     (case nearestThis c (k_scope c) of
        None \<Rightarrow> syntaxError c
      | Some s \<Rightarrow> if sc_funcType (k_scopes c ! s) = funcNone then syntaxError c
                  else whenE putOnStack (emit i_loadNewTarget) c)"

section \<open>Properties\<close>

text \<open>
  The update of a property in place, the same for the four kinds of property: \<open>operands\<close> leaves
  the \<open>n - 1\<close> operands of a store on the stack, \<open>load\<close> copies them and reads the property.
  The result of a postfix operator is kept below the operands.
\<close>

definition property_emitUnary :: "emitter \<Rightarrow> emitter \<Rightarrow> nat \<Rightarrow> emitter \<Rightarrow> emitter \<Rightarrow>
  emitter option \<Rightarrow> emitter \<Rightarrow> bool \<Rightarrow> bool \<Rightarrow> emitter" where
  "property_emitUnary operands load n store storeP prepare body postfix putOnStack =
     (let prepare' = (case prepare of Some p \<Rightarrow> p | None \<Rightarrow> skipE) in
      if \<not> putOnStack then seqEs [operands, load, body, storeP]
      else if \<not> postfix then seqEs [operands, load, prepare', body, store]
      else seqEs [emit i_loadUndef, operands, load, prepare', emit (i_rdupN n), body, storeP])"

definition emit_property_value :: "emitter \<Rightarrow> instr \<Rightarrow> bool \<Rightarrow> emitter" where
  "emit_property_value operands i putOnStack = seqEs [operands, emit i, emit_pop_unless putOnStack]"

definition prop_store :: "bool \<Rightarrow> ustr \<Rightarrow> emitter" where
  "prop_store putOnStack name =
     (if putOnStack then by_strict (i_prop P_setPropStrict name) (i_prop P_setProp name)
      else by_strict (i_prop P_setPropStrictP name) (i_prop P_setPropP name))"

definition compiledDotExpr_emitSetter :: "cexpr \<Rightarrow> ustr \<Rightarrow> cvalue \<Rightarrow> bool \<Rightarrow> emitter" where
  "compiledDotExpr_emitSetter left name valueExpr putOnStack =
     seqEs [v_getter left True, v_getter valueExpr True, prop_store putOnStack name]"

definition compiledDotExpr_emitUnary ::
  "cexpr \<Rightarrow> ustr \<Rightarrow> emitter option \<Rightarrow> emitter \<Rightarrow> bool \<Rightarrow> bool \<Rightarrow> emitter" where
  "compiledDotExpr_emitUnary left name =
     property_emitUnary (v_getter left True) (emits [i_dup, i_prop P_getProp name]) 2
       (prop_store True name) (prop_store False name)"

definition compiledDotExpr_emitDelete :: "cexpr \<Rightarrow> ustr \<Rightarrow> bool \<Rightarrow> emitter" where
  "compiledDotExpr_emitDelete left name putOnStack =
     seqEs [v_getter left True, by_strict (i_prop P_deletePropStrict name) (i_prop P_deleteProp name),
       emit_pop_unless putOnStack]"

definition compiledDotExpr :: "cexpr \<Rightarrow> ustr \<Rightarrow> cexpr" where
  "compiledDotExpr left name =
     (base_expr (emit_property_value (v_getter left True) (i_prop P_getProp name)))
       \<lparr>x_setter := compiledDotExpr_emitSetter left name,
        x_ref := seqE (v_getter left True) (by_strict (i_prop P_getPropRefStrict name) (i_prop P_getPropRef name)),
        x_unary := compiledDotExpr_emitUnary left name, x_delete := compiledDotExpr_emitDelete left name,
        x_callee := (\<lambda>c. bindR (seqE (v_getter left True) (emit (i_prop P_getPropCallee name)) c) (\<lambda>c. Inr (c, [])))\<rparr>"

definition elem_operands :: "cexpr \<Rightarrow> cexpr \<Rightarrow> emitter" where
  "elem_operands left member = seqE (v_getter left True) (v_getter member True)"

definition compiledBracketExpr_emitSetter :: "cexpr \<Rightarrow> cexpr \<Rightarrow> cvalue \<Rightarrow> bool \<Rightarrow> emitter" where
  "compiledBracketExpr_emitSetter left member valueExpr putOnStack =
     seqEs [v_getter left True, v_getter member True, v_getter valueExpr True,
       (if putOnStack then by_strict (i_elem E_setElemStrict) (i_elem E_setElem)
        else by_strict (i_elem E_setElemStrictP) (i_elem E_setElemP))]"

definition compiledBracketExpr_emitUnary ::
  "cexpr \<Rightarrow> cexpr \<Rightarrow> emitter option \<Rightarrow> emitter \<Rightarrow> bool \<Rightarrow> bool \<Rightarrow> emitter" where
  "compiledBracketExpr_emitUnary left member =
     property_emitUnary (elem_operands left member) (emits [i_dupLast 2, i_elem E_getElem]) 3
       (by_strict (i_elem E_setElemStrict) (i_elem E_setElem))
       (seqE (by_strict (i_elem E_setElemStrict) (i_elem E_setElem)) (emit i_pop))"

definition compiledBracketExpr_emitDelete :: "cexpr \<Rightarrow> cexpr \<Rightarrow> bool \<Rightarrow> emitter" where
  "compiledBracketExpr_emitDelete left member putOnStack =
     seqEs [v_getter left True, v_getter member True, by_strict (i_elem E_deleteElemStrict) (i_elem E_deleteElem),
       emit_pop_unless putOnStack]"

definition compiledBracketExpr :: "cexpr \<Rightarrow> cexpr \<Rightarrow> cexpr" where
  "compiledBracketExpr left member =
     (base_expr (emit_property_value (elem_operands left member) (i_elem E_getElem)))
       \<lparr>x_setter := compiledBracketExpr_emitSetter left member,
        x_ref := seqE (elem_operands left member) (by_strict (i_elem E_getElemRefStrict) (i_elem E_getElemRef)),
        x_unary := compiledBracketExpr_emitUnary left member,
        x_delete := compiledBracketExpr_emitDelete left member,
        x_callee := (\<lambda>c. bindR (seqE (elem_operands left member) (emit (i_elem E_getElemCallee)) c) (\<lambda>c. Inr (c, [])))\<rparr>"
section \<open>Properties of super\<close>

definition super_operands :: emitter where
  "super_operands = seqE emitLoadThis (emit (i_ext X_loadSuper))"

definition super_store :: "bool \<Rightarrow> ustr \<Rightarrow> emitter" where
  "super_store putOnStack name =
     (if putOnStack then by_strict (i_prop P_setPropRecvStrict name) (i_prop P_setPropRecv name)
      else by_strict (i_prop P_setPropRecvStrictP name) (i_prop P_setPropRecvP name))"

definition compiledSuperDotExpr_emitSetter :: "ustr \<Rightarrow> cvalue \<Rightarrow> bool \<Rightarrow> emitter" where
  "compiledSuperDotExpr_emitSetter name valueExpr putOnStack =
     seqEs [super_operands, v_getter valueExpr True, super_store putOnStack name]"

definition compiledSuperDotExpr_emitUnary ::
  "ustr \<Rightarrow> emitter option \<Rightarrow> emitter \<Rightarrow> bool \<Rightarrow> bool \<Rightarrow> emitter" where
  "compiledSuperDotExpr_emitUnary name =
     property_emitUnary super_operands (emits [i_dupLast 2, i_prop P_getPropRecv name]) 3
       (super_store True name) (super_store False name)"

text \<open>\<open>emitSuperReferenceError\<close>\<close>

definition super_emitDelete :: "bool \<Rightarrow> emitter" where
  "super_emitDelete putOnStack = emit (i_throwConst (PErr ReferenceErr))"

definition compiledSuperDotExpr :: "ustr \<Rightarrow> cexpr" where
  "compiledSuperDotExpr name =
     (base_expr (emit_property_value super_operands (i_prop P_getPropRecv name)))
       \<lparr>x_setter := compiledSuperDotExpr_emitSetter name,
        x_ref := seqE super_operands
          (by_strict (i_prop P_getPropRefRecvStrict name) (i_prop P_getPropRefRecv name)),
        x_unary := compiledSuperDotExpr_emitUnary name, x_delete := super_emitDelete,
        x_callee := (\<lambda>c. bindR (seqE super_operands (emit (i_prop P_getPropRecvCallee name)) c) (\<lambda>c. Inr (c, [])))\<rparr>"

definition super_elem_operands :: "cexpr \<Rightarrow> emitter" where
  "super_elem_operands member = seqEs [emitLoadThis, v_getter member True, emit (i_ext X_loadSuper)]"

definition super_elem_store :: "bool \<Rightarrow> emitter" where
  "super_elem_store putOnStack =
     (if putOnStack then by_strict (i_elem E_setElemRecvStrict) (i_elem E_setElemRecv)
      else by_strict (i_elem E_setElemRecvStrictP) (i_elem E_setElemRecvP))"

definition compiledSuperBracketExpr_emitSetter :: "cexpr \<Rightarrow> cvalue \<Rightarrow> bool \<Rightarrow> emitter" where
  "compiledSuperBracketExpr_emitSetter member valueExpr putOnStack =
     seqEs [super_elem_operands member, v_getter valueExpr True, super_elem_store putOnStack]"

definition compiledSuperBracketExpr_emitUnary ::
  "cexpr \<Rightarrow> emitter option \<Rightarrow> emitter \<Rightarrow> bool \<Rightarrow> bool \<Rightarrow> emitter" where
  "compiledSuperBracketExpr_emitUnary member =
     property_emitUnary (super_elem_operands member) (emits [i_dupLast 3, i_elem E_getElemRecv]) 4
       (super_elem_store True) (super_elem_store False)"

definition compiledSuperBracketExpr :: "cexpr \<Rightarrow> cexpr" where
  "compiledSuperBracketExpr member =
     (base_expr (emit_property_value (super_elem_operands member) (i_elem E_getElemRecv)))
       \<lparr>x_setter := compiledSuperBracketExpr_emitSetter member,
        x_ref := seqE (super_elem_operands member)
          (by_strict (i_elem E_getElemRefRecvStrict) (i_elem E_getElemRefRecv)),
        x_unary := compiledSuperBracketExpr_emitUnary member, x_delete := super_emitDelete,
        x_callee := (\<lambda>c. bindR (seqEs [super_operands, v_getter member True, emit (i_elem E_getElemRecvCallee)] c)
          (\<lambda>c. Inr (c, [])))\<rparr>"

text \<open>\<open>checkSuperBase\<close>\<close>

definition checkSuperBase :: emitter where
  "checkSuperBase c =
     (case nearestThis c (k_scope c) of
        None \<Rightarrow> syntaxError c
      | Some s \<Rightarrow> if sc_funcType (k_scopes c ! s) \<in> {funcMethod, funcClsInit, funcCtor, funcDerivedCtor}
                  then Inr c else syntaxError c)"

definition compiledSuperExpr :: cexpr where
  "compiledSuperExpr =
     (base_expr (\<lambda>putOnStack. whenE putOnStack (emit (i_ext X_loadSuper))))
       \<lparr>x_callee := (\<lambda>c. Inr (c, [])), x_isSuper := True\<rparr>"

section \<open>Assignments and operators\<close>

fun assign_op :: "token \<Rightarrow> bop option" where
  "assign_op T_PLUS = Some B_add"
| "assign_op T_MINUS = Some B_sub"
| "assign_op T_MULTIPLY = Some B_mul"
| "assign_op T_EXPONENT = Some B_exp"
| "assign_op T_SLASH = Some B_div"
| "assign_op T_REMAINDER = Some B_mod"
| "assign_op T_OR = Some B_or"
| "assign_op T_AND = Some B_and"
| "assign_op T_EXCLUSIVE_OR = Some B_xor"
| "assign_op T_SHIFT_LEFT = Some B_sal"
| "assign_op T_SHIFT_RIGHT = Some B_sar"
| "assign_op T_UNSIGNED_SHIFT_RIGHT = Some B_shr"
| "assign_op _ = None"

text \<open>
  \<open>&&=\<close>, \<open>||=\<close>, \<open>??=\<close>: when the value decides, the jump goes past the store, to where the
  reference is dropped; the store drops it itself and jumps over that.
\<close>

definition logical_assign :: "cenv \<Rightarrow> jmp \<Rightarrow> cexpr \<Rightarrow> cexpr \<Rightarrow> bool \<Rightarrow> emitter" where
  "logical_assign K j left right putOnStack =
     seqEs [x_ref left, emit i_getValue,
       jump_over (i_jmp j)
         (seqEs [(case x_ident left of Some name \<Rightarrow> emitNamedOrConst K right name | None \<Rightarrow> v_getter right True),
            emit (if putOnStack then i_putValue else i_putValueP), emit (i_jmp J_jump 2)]),
       emit i_popRef]"

definition compiledAssignExpr_emitGetter :: "cenv \<Rightarrow> token \<Rightarrow> cexpr \<Rightarrow> cexpr \<Rightarrow> bool \<Rightarrow> emitter" where
  "compiledAssignExpr_emitGetter K operator left right putOnStack =
     (case assign_op operator of
        Some b \<Rightarrow> x_unary left None (seqE (v_getter right True) (emit (i_bin b))) False putOnStack
      | None \<Rightarrow>
          if operator = T_ASSIGN then x_setter left (val right) putOnStack
          else if operator = T_LOGICAL_AND then
            logical_assign K (if putOnStack then J_jne else J_jneP) left right putOnStack
          else if operator = T_LOGICAL_OR then
            logical_assign K (if putOnStack then J_jeq else J_jeqP) left right putOnStack
          else if operator = T_COALESCE then
            logical_assign K (if putOnStack then J_jcoalesc else J_jcoalescP) left right putOnStack
          else syntaxError)"

definition compiledUnaryExpr_emitGetter :: "cenv \<Rightarrow> token \<Rightarrow> cexpr \<Rightarrow> bool \<Rightarrow> bool \<Rightarrow> emitter" where
  "compiledUnaryExpr_emitGetter K operator operand postfix putOnStack =
     (if operator = T_NOT then seqEs [v_getter operand True, emit (i_un U_not), emit_pop_unless putOnStack]
      else if operator = T_BITWISE_NOT then
        seqEs [v_getter operand True, emit (i_un U_bnot), emit_pop_unless putOnStack]
      else if operator = T_TYPEOF then
        seqEs [(case x_getterOrRef operand of Some e \<Rightarrow> e | None \<Rightarrow> v_getter operand True), emit i_typeof,
          emit_pop_unless putOnStack]
      else if operator = T_DELETE then x_delete operand putOnStack
      else if operator = T_MINUS then
        seqEs [emitExpr K operand True, emit (i_un U_neg), emit_pop_unless putOnStack]
      else if operator = T_PLUS then
        seqEs [emitExpr K operand True, emit (i_un U_plus), emit_pop_unless putOnStack]
      else if operator = T_INCREMENT then
        x_unary operand (Some (emit (i_un U_toNumber))) (emit (i_un U_inc)) postfix putOnStack
      else if operator = T_DECREMENT then
        x_unary operand (Some (emit (i_un U_toNumber))) (emit (i_un U_dec)) postfix putOnStack
      else if operator = T_VOID then seqE (emitExpr K operand False) (whenE putOnStack (emit i_loadUndef))
      else syntaxError)"

definition compiledUnaryExpr :: "cenv \<Rightarrow> token \<Rightarrow> cexpr \<Rightarrow> bool \<Rightarrow> cexpr" where
  "compiledUnaryExpr K operator operand postfix =
     (base_expr (compiledUnaryExpr_emitGetter K operator operand postfix))\<lparr>v_constant := v_constant operand\<rparr>"

text \<open>\<open>test ? consequent : alternate\<close>: the first jump ends behind the second.\<close>

definition compiledConditionalExpr_emitGetter :: "cexpr \<Rightarrow> cexpr \<Rightarrow> cexpr \<Rightarrow> bool \<Rightarrow> emitter" where
  "compiledConditionalExpr_emitGetter test consequent alternate putOnStack c =
     bindR (v_getter test True c) (\<lambda>c.
     let j = length (k_code c) in
     bindR (seqE (emit i_nil) (v_getter consequent putOnStack) c) (\<lambda>c.
     let j1 = length (k_code c) in
     bindR (emit i_nil c) (\<lambda>c.
     bindR (set_code j (i_jmp J_jneP (int (length (k_code c) - j))) c) (\<lambda>c.
     bindR (v_getter alternate putOnStack c) (\<lambda>c.
     set_code j1 (i_jmp J_jump (int (length (k_code c) - j1))) c)))))"

text \<open>
  The logical operators. \<open>decides\<close> says of a value of the left operand whether it is the result;
  \<open>j\<close> is the jump that does so at run time.
\<close>

definition logical_constant ::
  "cenv \<Rightarrow> (jsval \<Rightarrow> bool) \<Rightarrow> cexpr \<Rightarrow> cexpr \<Rightarrow> cst \<Rightarrow> go_error + bool" where
  "logical_constant K decides left right c =
     bindR (v_constant left c) (\<lambda>k.
       if \<not> k then Inr False
       else bindR (evalConst K left c) (\<lambda>(H, r). case r of
           Inr v \<Rightarrow> if decides v then Inr True else v_constant right c
         | Inl ex \<Rightarrow> Inr True))"

definition logical_emitGetter ::
  "cenv \<Rightarrow> (jsval \<Rightarrow> bool) \<Rightarrow> jmp \<Rightarrow> emitter \<Rightarrow> (jsval \<Rightarrow> bool \<Rightarrow> emitter) \<Rightarrow> cexpr \<Rightarrow> cexpr \<Rightarrow> bool \<Rightarrow> emitter" where
  "logical_emitGetter K decides j emit_left decided left right putOnStack c =
     bindR (v_constant left c) (\<lambda>k.
       if k then
         bindR (evalConst K left c) (\<lambda>(H, r). case r of
             Inr v \<Rightarrow> if decides v then decided v putOnStack c else emitExpr K right putOnStack c
           | Inl ex \<Rightarrow> emitThrow K H ex c)
       else seqEs [emit_left, jump_over (i_jmp j) (emitExpr K right True), emit_pop_unless putOnStack] c)"

definition emit_decided :: "jsval \<Rightarrow> bool \<Rightarrow> emitter" where
  "emit_decided v putOnStack = whenE putOnStack (emitLiteralValue v)"

definition compiledLogicalOr :: "cenv \<Rightarrow> cexpr \<Rightarrow> cexpr \<Rightarrow> cexpr" where
  "compiledLogicalOr K left right =
     (base_expr (logical_emitGetter K ToBoolean J_jeq (emitExpr K left True) emit_decided left right))
       \<lparr>v_constant := logical_constant K ToBoolean left right\<rparr>"

definition compiledCoalesce :: "cenv \<Rightarrow> cexpr \<Rightarrow> cexpr \<Rightarrow> cexpr" where
  "compiledCoalesce K left right =
     (base_expr (logical_emitGetter K (\<lambda>v. v \<noteq> VNull \<and> v \<noteq> VUndefined) J_jcoalesc (emitExpr K left True)
        emit_decided left right))
       \<lparr>v_constant := logical_constant K (\<lambda>v. v \<noteq> VNull \<and> v \<noteq> VUndefined) left right\<rparr>"

text \<open>Of the three only \<open>&&\<close> leaves a decided value on the stack when it is not wanted.\<close>

definition compiledLogicalAnd :: "cenv \<Rightarrow> cexpr \<Rightarrow> cexpr \<Rightarrow> cexpr" where
  "compiledLogicalAnd K left right =
     (base_expr (logical_emitGetter K (\<lambda>v. \<not> ToBoolean v) J_jne (v_getter left True)
        (\<lambda>v putOnStack. emitLiteralValue v) left right))
       \<lparr>v_constant := logical_constant K (\<lambda>v. \<not> ToBoolean v) left right\<rparr>"

fun binary_instr :: "token \<Rightarrow> instr option" where
  "binary_instr T_LESS = Some (i_bin B_lt)"
| "binary_instr T_GREATER = Some (i_bin B_gt)"
| "binary_instr T_LESS_OR_EQUAL = Some (i_bin B_lte)"
| "binary_instr T_GREATER_OR_EQUAL = Some (i_bin B_gte)"
| "binary_instr T_EQUAL = Some (i_bin B_eq)"
| "binary_instr T_NOT_EQUAL = Some (i_bin B_neq)"
| "binary_instr T_STRICT_EQUAL = Some (i_bin B_strict_eq)"
| "binary_instr T_STRICT_NOT_EQUAL = Some (i_bin B_strict_neq)"
| "binary_instr T_PLUS = Some (i_bin B_add)"
| "binary_instr T_MINUS = Some (i_bin B_sub)"
| "binary_instr T_MULTIPLY = Some (i_bin B_mul)"
| "binary_instr T_EXPONENT = Some (i_bin B_exp)"
| "binary_instr T_SLASH = Some (i_bin B_div)"
| "binary_instr T_REMAINDER = Some (i_bin B_mod)"
| "binary_instr T_AND = Some (i_bin B_and)"
| "binary_instr T_OR = Some (i_bin B_or)"
| "binary_instr T_EXCLUSIVE_OR = Some (i_bin B_xor)"
| "binary_instr T_INSTANCEOF = Some i_instanceof"
| "binary_instr T_IN = Some i_in"
| "binary_instr T_SHIFT_LEFT = Some (i_bin B_sal)"
| "binary_instr T_SHIFT_RIGHT = Some (i_bin B_sar)"
| "binary_instr T_UNSIGNED_SHIFT_RIGHT = Some (i_bin B_shr)"
| "binary_instr _ = None"

definition compiledBinaryExpr_emitGetter :: "cenv \<Rightarrow> token \<Rightarrow> cexpr \<Rightarrow> cexpr \<Rightarrow> bool \<Rightarrow> emitter" where
  "compiledBinaryExpr_emitGetter K operator left right putOnStack =
     seqEs [emitExpr K left True, emitExpr K right True,
       (case binary_instr operator of Some i \<Rightarrow> emit i | None \<Rightarrow> syntaxError), emit_pop_unless putOnStack]"

definition compiledBinaryExpr :: "cenv \<Rightarrow> token \<Rightarrow> cexpr \<Rightarrow> cexpr \<Rightarrow> cexpr" where
  "compiledBinaryExpr K operator left right =
     (base_expr (compiledBinaryExpr_emitGetter K operator left right))
       \<lparr>v_constant := (\<lambda>c. bindR (v_constant left c) (\<lambda>k. if k then v_constant right c else Inr False))\<rparr>"

fun compiledSequenceExpr_emitGetter :: "cexpr list \<Rightarrow> bool \<Rightarrow> emitter" where
  "compiledSequenceExpr_emitGetter [] putOnStack = skipE"
| "compiledSequenceExpr_emitGetter [e] putOnStack = v_getter e putOnStack"
| "compiledSequenceExpr_emitGetter (e # e' # es) putOnStack =
     seqE (v_getter e False) (compiledSequenceExpr_emitGetter (e' # es) putOnStack)"
section \<open>Calls\<close>

definition emit_args :: "(bool \<times> cexpr) list \<Rightarrow> emitter" where
  "emit_args args =
     seqEs (map (\<lambda>(spread, e). seqE (v_getter e True) (whenE spread (emit (i_ext X_pushSpread)))) args)"

definition compiledNewExpr_emitGetter :: "cexpr \<Rightarrow> (bool \<times> cexpr) list \<Rightarrow> bool \<Rightarrow> emitter" where
  "compiledNewExpr_emitGetter callee args putOnStack =
     (let variadic = list_ex fst args in
      seqEs [whenE variadic (emit (i_ext X_startVariadic)), v_getter callee True, emit_args args,
        (if variadic then emits [i_ext X_newVariadic, i_ext X_endVariadic] else emit (i_ext (X_new (length args)))),
        emit_pop_unless putOnStack])"

text \<open>
  A direct call of \<open>eval\<close> makes every enclosing scope one whose names can be looked up at run
  time, and the nearest scope of variables one that can get new ones, unless it is strict.
\<close>

fun mark_eval :: "nat \<Rightarrow> nat option \<Rightarrow> bool \<Rightarrow> cst \<Rightarrow> cst" where
  "mark_eval n None foundVar c = c"
| "mark_eval 0 (Some s) foundVar c = c"
| "mark_eval (Suc n) (Some s) foundVar c =
     (let x = k_scopes c ! s; target = (\<not> foundVar \<and> (sc_variable x \<or> scope_isFunction x)) in
      mark_eval n (sc_outer x) (foundVar \<or> target)
        (upd_scope s (\<lambda>x. x\<lparr>sc_dynamic := sc_dynamic x \<or> target \<and> \<not> sc_strict x, sc_dynLookup := True\<rparr>) c))"

definition emit_super_call :: "nat \<Rightarrow> bool \<Rightarrow> emitter" where
  "emit_super_call n variadic c =
     (case lookupThis c of (c, b, eval) \<Rightarrow>
        if \<not> eval \<and> b = None then syntaxError c
        else seqE (\<lambda>c. if eval then emit (i_ext X_resolveThisDynamic) c
                       else mark_emit (the b) (i_ext X_resolveThisStack) c)
               (emit (i_ext (if variadic then X_superCallVariadic else X_superCall n))) c)"

definition emit_eval_call :: "nat \<Rightarrow> bool \<Rightarrow> emitter" where
  "emit_eval_call n variadic c =
     by_strict (i_ext (if variadic then X_callEvalVariadicStrict else X_callEvalStrict n))
       (i_ext (if variadic then X_callEvalVariadic else X_callEval n))
       (mark_eval (length (k_scopes c)) (Some (k_scope c)) False c)"

definition compiledCallExpr_emitGetter :: "cexpr \<Rightarrow> (bool \<times> cexpr) list \<Rightarrow> bool \<Rightarrow> emitter" where
  "compiledCallExpr_emitGetter callee args putOnStack c =
     (let variadic = list_ex fst args; n = length args in
      bindR (whenE variadic (emit (i_ext X_startVariadic)) c) (\<lambda>c.
      bindR (x_callee callee c) (\<lambda>(c, name).
        seqEs [emit_args args,
          (if x_isSuper callee then emit_super_call n variadic
           else if name = u ''eval'' then emit_eval_call n variadic
           else emit (i_ext (if variadic then X_callVariadic else X_call n))),
          whenE variadic (emit (i_ext X_endVariadic)), emit_pop_unless putOnStack] c)))"

definition compiledCallExpr :: "cexpr \<Rightarrow> (bool \<times> cexpr) list \<Rightarrow> cexpr" where
  "compiledCallExpr callee args =
     (base_expr (compiledCallExpr_emitGetter callee args))
       \<lparr>x_delete := (\<lambda>putOnStack. seqE (compiledCallExpr_emitGetter callee args False)
          (whenE putOnStack (emitLiteralValue (VBool True))))\<rparr>"

section \<open>Optional chains\<close>

definition startOptChain :: emitter where
  "startOptChain c = Inr (c\<lparr>k_blocks := \<lparr>bl_breaks = [], bl_conts = []\<rparr> # k_blocks c\<rparr>)"

fun patch_jumps :: "jmp \<Rightarrow> nat \<Rightarrow> nat list \<Rightarrow> emitter" where
  "patch_jumps j lbl [] c = Inr c"
| "patch_jumps j lbl (item # items) c =
     bindR (set_code item (i_jmp j (int lbl - int item)) c) (patch_jumps j lbl items)"

definition endOptChain_with :: "jmp \<Rightarrow> jmp \<Rightarrow> emitter" where
  "endOptChain_with j jc c =
     (let lbl = length (k_code c) in
      case k_blocks c of
        [] \<Rightarrow> Inl GoPanic
      | b # bs \<Rightarrow>
          bindR (patch_jumps j lbl (bl_breaks b) c) (\<lambda>c.
          bindR (patch_jumps jc lbl (bl_conts b) c) (\<lambda>c. Inr (c\<lparr>k_blocks := bs\<rparr>))))"

definition endOptChain :: emitter where
  "endOptChain = endOptChain_with J_jopt J_joptc"

definition endOptChainDelete :: emitter where
  "endOptChainDelete = endOptChain_with J_joptdel J_joptdelc"

definition endOptChainDeleteP :: emitter where
  "endOptChainDeleteP = endOptChain_with J_joptdelP J_joptdelcP"

definition compiledOptionalChain :: "cexpr \<Rightarrow> cexpr" where
  "compiledOptionalChain e =
     (base_expr (\<lambda>putOnStack. seqEs [startOptChain, v_getter e True, endOptChain, emit_pop_unless putOnStack]))
       \<lparr>x_delete := (\<lambda>putOnStack. seqEs [startOptChain, x_delete e putOnStack,
          (if putOnStack then endOptChainDelete else endOptChainDeleteP)]),
        x_callee := (\<lambda>c. bindR (startOptChain c) (\<lambda>c. bindR (x_callee e c) (\<lambda>(c, _).
          bindR (endOptChain c) (\<lambda>c. Inr (c, [])))))\<rparr>"

definition add_break :: emitter where
  "add_break c = (case k_blocks c of
     [] \<Rightarrow> Inl GoPanic
   | b # bs \<Rightarrow> emit i_nil (c\<lparr>k_blocks := b\<lparr>bl_breaks := bl_breaks b @ [length (k_code c)]\<rparr> # bs\<rparr>))"

definition add_cont :: emitter where
  "add_cont c = (case k_blocks c of
     [] \<Rightarrow> Inl GoPanic
   | b # bs \<Rightarrow> emit i_nil (c\<lparr>k_blocks := b\<lparr>bl_conts := bl_conts b @ [length (k_code c)]\<rparr> # bs\<rparr>))"

definition compiledOptional :: "cexpr \<Rightarrow> cexpr" where
  "compiledOptional e =
     (base_expr (\<lambda>putOnStack. seqE (v_getter e putOnStack) (whenE putOnStack add_break)))
       \<lparr>x_callee := (\<lambda>c. bindR (x_callee e c) (\<lambda>(c, _). bindR (add_cont c) (\<lambda>c. Inr (c, []))))\<rparr>"

definition compiledAwaitExpression_emitGetter :: "cexpr \<Rightarrow> bool \<Rightarrow> emitter" where
  "compiledAwaitExpression_emitGetter arg putOnStack =
     seqEs [v_getter arg True, emit (i_ext X_await), emit_pop_unless putOnStack]"

definition compiledYieldExpression_emitGetter :: "cexpr option \<Rightarrow> bool \<Rightarrow> bool \<Rightarrow> emitter" where
  "compiledYieldExpression_emitGetter arg delegate putOnStack =
     seqE (case arg of Some e \<Rightarrow> v_getter e True | None \<Rightarrow> emit i_loadUndef)
       (emit (i_ext (if putOnStack then if delegate then X_yieldDelegateRes else X_yieldRes
                     else if delegate then X_yieldDelegate else X_yield)))"

section \<open>Array and object literals\<close>

text \<open>
  The elements of a literal are compiled while the literal's own code is emitted: \<open>g\<close> is the
  compilation of an element.
\<close>

definition then_emit :: "(cst \<Rightarrow> go_error + cexpr) \<Rightarrow> (cexpr \<Rightarrow> emitter) \<Rightarrow> emitter" where
  "then_emit g f c = bindR (g c) (\<lambda>e. f e c)"

definition compiledArrayLiteral_emitGetter ::
  "cenv \<Rightarrow> (bool \<times> (cst \<Rightarrow> go_error + cexpr)) option list \<Rightarrow> bool \<Rightarrow> emitter" where
  "compiledArrayLiteral_emitGetter K elements putOnStack c =
     (let mark = length (k_code c);
          item = (\<lambda>v. case v of
            Some (True, g) \<Rightarrow> seqE (then_emit g (\<lambda>e. v_getter e True)) (emit (i_ext X_pushArraySpread))
          | Some (False, g) \<Rightarrow> seqE (then_emit g (\<lambda>e. emitExpr K e True)) (emit (i_ext X_pushArrayItem))
          | None \<Rightarrow> emits [i_loadNil, i_ext X_pushArrayItem]);
          hasSpread = list_ex (\<lambda>v. case v of Some (b, _) \<Rightarrow> b | None \<Rightarrow> False) elements
      in bindR (seqEs (emit i_nil # map item elements) c) (\<lambda>c.
         bindR (set_code mark (i_ext (X_newArray (if hasSpread then 0 else length elements))) c)
           (emit_pop_unless putOnStack)))"

text \<open>
  \<open>processKey\<close>: the name of a property, when it is constant and its evaluation does not throw;
  else the code of the key has been emitted.
\<close>

definition processKey :: "cenv \<Rightarrow> (cst \<Rightarrow> go_error + cexpr) \<Rightarrow> ustr option comp" where
  "processKey K g c =
     bindR (g c) (\<lambda>e.
     bindR (v_constant e c) (\<lambda>k.
     bindR (if k then bindR (evalConst K e c) (\<lambda>(H, r). case r of
                Inr v \<Rightarrow> mapR Some (toString (h_of (i_env (e_I K))) v) | Inl _ \<Rightarrow> Inr None)
            else Inr None) (\<lambda>name.
       case name of Some n \<Rightarrow> Inr (c, Some n)
       | None \<Rightarrow> bindR (v_getter e True c) (\<lambda>c. Inr (c, None)))))"

definition proto_name :: ustr where
  "proto_name = u ''__proto__''"

text \<open>A property \<open>key: value\<close>; the result is whether there has been a \<open>__proto__\<close>.\<close>

definition emit_keyed :: "cenv \<Rightarrow> (cst \<Rightarrow> go_error + cexpr) \<Rightarrow> (cst \<Rightarrow> go_error + cexpr) \<Rightarrow> bool \<Rightarrow> bool \<Rightarrow> bool comp" where
  "emit_keyed K key value' computed hasProto c =
     bindR (processKey K key c) (\<lambda>(c, name).
     bindR (value' c) (\<lambda>e.
       case name of
         None \<Rightarrow> bindR (seqEs [emit i_toPropertyKey, emitExpr K e True,
             emit (if v_named e \<noteq> None then i_ext X_setElem1Named else i_elem E_setElem1)] c)
             (\<lambda>c. Inr (c, hasProto))
       | Some n \<Rightarrow>
           let isProto = (n = proto_name \<and> \<not> computed) in
           if isProto \<and> hasProto then syntaxError c
           else bindR (seqE (if v_named e \<noteq> None \<and> \<not> isProto then emitNamed e n else emitExpr K e True)
                  (emit (if isProto then i_setProto else i_prop P_putProp n)) c)
                  (\<lambda>c. Inr (c, hasProto \<or> isProto))))"

definition emit_short :: "cenv \<Rightarrow> ustr \<Rightarrow> bool \<Rightarrow> emitter" where
  "emit_short K name initializer c =
     (if initializer then syntaxError c
      else if sc_strict (scope_of c) \<and> name = u ''let'' then syntaxError c
      else seqEs [when_strict (checkIdentifierName name), compiledIdentifierExpr_emitGetter name True,
             emit (i_prop P_putProp name)] c)"

text \<open>A property once compiled: what it emits, given whether there has been a \<open>__proto__\<close>.\<close>

type_synonym cprop = "bool \<Rightarrow> bool comp"

fun emit_props :: "cprop list \<Rightarrow> cprop" where
  "emit_props [] hasProto c = Inr (c, hasProto)"
| "emit_props (p # ps) hasProto c = bindR (p hasProto c) (\<lambda>(c, hasProto). emit_props ps hasProto c)"

definition compiledObjectLiteral_emitGetter :: "cprop list \<Rightarrow> bool \<Rightarrow> emitter" where
  "compiledObjectLiteral_emitGetter props putOnStack c =
     bindR (emit i_newObject c) (\<lambda>c.
     bindR (emit_props props False c) (\<lambda>(c, _). emit_pop_unless putOnStack c))"

section \<open>From the syntax tree\<close>

definition compiledIdentifier :: "cenv \<Rightarrow> ustr \<Rightarrow> cst \<Rightarrow> go_error + cexpr" where
  "compiledIdentifier K name c =
     bindR (when_strict (checkIdentifierName name) c) (\<lambda>_. Inr (compiledIdentifierExpr K name))"

definition compileBracketExpression ::
  "cenv \<Rightarrow> (cst \<Rightarrow> go_error + cexpr) \<Rightarrow> (cst \<Rightarrow> go_error + cexpr) \<Rightarrow> cst \<Rightarrow> go_error + cexpr" where
  "compileBracketExpression K left member c =
     bindR (left c) (\<lambda>l. bindR (member c) (\<lambda>m. bindR (checkConstantString K m c) (\<lambda>name.
       Inr (case name of Some n \<Rightarrow> compiledDotExpr l n | None \<Rightarrow> compiledBracketExpr l m))))"

definition compileSuperBracketExpression :: "cenv \<Rightarrow> (cst \<Rightarrow> go_error + cexpr) \<Rightarrow> cst \<Rightarrow> go_error + cexpr" where
  "compileSuperBracketExpression K member c =
     bindR (checkSuperBase c) (\<lambda>_. bindR (member c) (\<lambda>m. bindR (checkConstantString K m c) (\<lambda>name.
       Inr (case name of Some n \<Rightarrow> compiledSuperDotExpr n | None \<Rightarrow> compiledSuperBracketExpr m))))"

definition compileMetaProperty :: "ustr \<Rightarrow> ustr \<Rightarrow> cst \<Rightarrow> go_error + cexpr" where
  "compileMetaProperty meta property c =
     (if meta = u ''new'' \<or> property \<noteq> u ''target'' then Inr (base_expr compiledNewTarget_emitGetter)
      else syntaxError c)"

definition compileBinaryExpression :: "cenv \<Rightarrow> token \<Rightarrow> cexpr \<Rightarrow> cexpr \<Rightarrow> cexpr" where
  "compileBinaryExpression K operator l r =
     (if operator = T_LOGICAL_OR then compiledLogicalOr K l r
      else if operator = T_COALESCE then compiledCoalesce K l r
      else if operator = T_LOGICAL_AND then compiledLogicalAnd K l r
      else compiledBinaryExpr K operator l r)"

text \<open>\<open>compileCallee\<close>: a call of \<open>super\<close> is possible in the constructor of a derived class.\<close>

definition compileCallee :: "bool \<Rightarrow> (cst \<Rightarrow> go_error + cexpr) \<Rightarrow> cst \<Rightarrow> go_error + cexpr" where
  "compileCallee isSuper g c =
     (if isSuper then
        (case nearestThis c (k_scope c) of
           Some s \<Rightarrow> if sc_funcType (k_scopes c ! s) = funcDerivedCtor then Inr compiledSuperExpr else syntaxError c
         | None \<Rightarrow> syntaxError c)
      else g c)"

fun comp_list :: "(cst \<Rightarrow> go_error + 'a) list \<Rightarrow> cst \<Rightarrow> go_error + 'a list" where
  "comp_list [] c = Inr []"
| "comp_list (f # fs) c = bindR (f c) (\<lambda>x. bindR (comp_list fs c) (\<lambda>xs. Inr (x # xs)))"

definition comp_option :: "(cst \<Rightarrow> go_error + 'a) option \<Rightarrow> cst \<Rightarrow> go_error + 'a option" where
  "comp_option f c = (case f of None \<Rightarrow> Inr None | Some f \<Rightarrow> mapR Some (f c))"

definition comp_args :: "(bool \<times> (cst \<Rightarrow> go_error + cexpr)) list \<Rightarrow> cst \<Rightarrow> go_error + (bool \<times> cexpr) list" where
  "comp_args args = comp_list (map (\<lambda>(b, f) c. mapR (Pair b) (f c)) args)"

primrec compileExpression :: "cenv \<Rightarrow> expr \<Rightarrow> cst \<Rightarrow> go_error + cexpr"
  and compileProperty :: "cenv \<Rightarrow> property \<Rightarrow> cprop" where
  "compileExpression K (NumberLiteral literal v) = compileNumberLiteral literal v"
| "compileExpression K (StringLiteral s) = (\<lambda>c. Inr (compiledLiteral (VString s)))"
| "compileExpression K (BooleanLiteral b) = (\<lambda>c. Inr (compiledLiteral (VBool b)))"
| "compileExpression K NullLiteral = (\<lambda>c. Inr (compiledLiteral VNull))"
| "compileExpression K (Identifier name) = compiledIdentifier K name"
| "compileExpression K (TemplateLiteral tag elements expressions) = (\<lambda>c.
     bindR (comp_option (map_option (compileExpression K) tag) c) (\<lambda>t.
     bindR (comp_list (map (compileExpression K) expressions) c) (\<lambda>es.
       Inr (base_expr (compiledTemplateLiteral_emitGetter t elements es)))))"
| "compileExpression K (BinaryExpression operator left right) = (\<lambda>c.
     bindR (compileExpression K left c) (\<lambda>l. bindR (compileExpression K right c) (\<lambda>r.
       Inr (compileBinaryExpression K operator l r))))"
| "compileExpression K (UnaryExpression operator operand postfix) = (\<lambda>c.
     bindR (compileExpression K operand c) (\<lambda>e. Inr (compiledUnaryExpr K operator e postfix)))"
| "compileExpression K (ConditionalExpression test consequent alternate) = (\<lambda>c.
     bindR (compileExpression K test c) (\<lambda>t. bindR (compileExpression K consequent c) (\<lambda>e.
     bindR (compileExpression K alternate c) (\<lambda>f. Inr (base_expr (compiledConditionalExpr_emitGetter t e f))))))"
| "compileExpression K (AssignExpression operator left right) = (\<lambda>c.
     bindR (compileExpression K left c) (\<lambda>l. bindR (compileExpression K right c) (\<lambda>r.
       Inr (base_expr (compiledAssignExpr_emitGetter K operator l r)))))"
| "compileExpression K (SequenceExpression es) = (\<lambda>c.
     bindR (comp_list (map (compileExpression K) es) c) (\<lambda>es.
       Inr (base_expr (compiledSequenceExpr_emitGetter es))))"
| "compileExpression K (DotExpression left name) = (\<lambda>c.
     bindR (compileExpression K left c) (\<lambda>l. Inr (compiledDotExpr l name)))"
| "compileExpression K (BracketExpression left member) =
     compileBracketExpression K (compileExpression K left) (compileExpression K member)"
| "compileExpression K (SuperDotExpression name) = (\<lambda>c.
     bindR (checkSuperBase c) (\<lambda>_. Inr (compiledSuperDotExpr name)))"
| "compileExpression K (SuperBracketExpression member) =
     compileSuperBracketExpression K (compileExpression K member)"
| "compileExpression K SuperExpression = syntaxError"
| "compileExpression K ThisExpression = (\<lambda>c. Inr compiledThisExpr)"
| "compileExpression K (MetaProperty meta property) = compileMetaProperty meta property"
| "compileExpression K (CallExpression callee args) = (\<lambda>c.
     bindR (comp_args (map (map_prod id (compileExpression K)) args) c) (\<lambda>args.
     bindR (compileCallee (callee = SuperExpression) (compileExpression K callee) c) (\<lambda>f.
       Inr (compiledCallExpr f args))))"
| "compileExpression K (NewExpression callee args) = (\<lambda>c.
     bindR (comp_args (map (map_prod id (compileExpression K)) args) c) (\<lambda>args.
     bindR (compileExpression K callee c) (\<lambda>f. Inr (base_expr (compiledNewExpr_emitGetter f args)))))"
| "compileExpression K (ArrayLiteral elements) = (\<lambda>c.
     Inr (base_expr (compiledArrayLiteral_emitGetter K
       (map (map_option (map_prod id (compileExpression K))) elements))))"
| "compileExpression K (ObjectLiteral props) = (\<lambda>c.
     Inr (base_expr (compiledObjectLiteral_emitGetter (map (compileProperty K) props))))"
| "compileExpression K (OptionalChain e) = (\<lambda>c.
     bindR (compileExpression K e c) (\<lambda>e. Inr (compiledOptionalChain e)))"
| "compileExpression K (Optional e) = (\<lambda>c.
     bindR (compileExpression K e c) (\<lambda>e. Inr (compiledOptional e)))"
| "compileExpression K (AwaitExpression e) = (\<lambda>c.
     bindR (compileExpression K e c) (\<lambda>e. Inr (base_expr (compiledAwaitExpression_emitGetter e))))"
| "compileExpression K (YieldExpression e delegate) = (\<lambda>c.
     bindR (comp_option (map_option (compileExpression K) e) c) (\<lambda>e.
       Inr (base_expr (compiledYieldExpression_emitGetter e delegate))))"
| "compileProperty K (PropertyKeyed key value' computed) =
     emit_keyed K (compileExpression K key) (compileExpression K value') computed"
| "compileProperty K (PropertyShort name initializer) = (\<lambda>hasProto c.
     bindR (emit_short K name (initializer \<noteq> None) c) (\<lambda>c. Inr (c, hasProto)))"
| "compileProperty K (SpreadProperty e) = (\<lambda>hasProto c.
     bindR (then_emit (compileExpression K e) (\<lambda>e. v_getter e True) c) (\<lambda>c.
     bindR (emit (i_ext X_copySpread) c) (\<lambda>c. Inr (c, hasProto))))"
section \<open>Concrete instances\<close>

definition ienv0 :: ienv where
  "ienv0 = \<lparr>i_env = venv0, i_hasInstance = 0, i_hasInst = \<lambda>H v. (H, Inr False),
     i_exp = \<lambda>x y. Inr VUndefined, i_run_ext = \<lambda>_. crash\<rparr>"

definition cenv0 :: cenv where
  "cenv0 = \<lparr>e_I = ienv0, e_vm = vm0, e_prg = 1\<rparr>"

text \<open>The compiler at the start of a script: the global scope only.\<close>

definition script_cst :: "bool \<Rightarrow> cst" where
  "script_cst strict =
     \<lparr>k_code = [], k_prg = 0, k_prgs = \<lambda>_. [], k_scope = 0,
      k_scopes = [(new_cscope 0 None strict)\<lparr>sc_dynamic := True\<rparr>], k_bindings = [], k_blocks = []\<rparr>"

definition expr_code :: "cenv \<Rightarrow> cst \<Rightarrow> bool \<Rightarrow> expr \<Rightarrow> go_error + instr list" where
  "expr_code K c putOnStack e =
     bindR (compileExpression K e c) (\<lambda>x. mapR k_code (emitExpr K x putOnStack c))"

end
