(* ===== verification/Code_Calculus.thy ===== *)
theory Code_Calculus
  imports Bytecode
begin

text \<open>
  A calculus for straight pieces of code and for pieces with forward jumps. Machines are put in a
  form that shows the part of the stacks an instruction works on (\<open>framed\<close>); an action that
  touches nothing of the frame is pure (\<open>pure_act\<close>). A piece of code \<open>implements\<close> an action on
  values and references when running it, anywhere in a program and on top of any stack, does
  what the action does and leaves the values and references it returns.
\<close>

section \<open>Machines in a frame\<close>

definition framed :: "cell list \<Rightarrow> cell list \<Rightarrow> int \<Rightarrow> nat \<Rightarrow> ref list \<Rightarrow> vm \<Rightarrow> vm" where
  "framed st junk pc p refs s =
     s\<lparr>v_stack := st @ junk, v_sp := int (length st), v_pc := pc, v_prg := Some p, v_refStack := refs\<rparr>"

lemma framed_simps [simp]:
  "v_stack (framed st junk pc p refs s) = st @ junk"
  "v_sp (framed st junk pc p refs s) = int (length st)"
  "v_pc (framed st junk pc p refs s) = pc"
  "v_prg (framed st junk pc p refs s) = Some p"
  "v_refStack (framed st junk pc p refs s) = refs"
  "v_heap (framed st junk pc p refs s) = v_heap s"
  "v_stashes (framed st junk pc p refs s) = v_stashes s"
  "v_stash (framed st junk pc p refs s) = v_stash s"
  "framed st junk pc p refs (framed st' junk' pc' p' refs' s) = framed st junk pc p refs s"
  by (simp_all add: framed_def)

lemma framed_self:
  assumes "0 \<le> v_sp s" "v_sp s \<le> int (length (v_stack s))" "v_prg s = Some p"
  shows "s = framed (take (nat (v_sp s)) (v_stack s)) (drop (nat (v_sp s)) (v_stack s)) (v_pc s) p (v_refStack s) s"
  using assms by (simp add: framed_def min_absorb1)

definition pure_act :: "'a act \<Rightarrow> bool" where
  "pure_act m \<longleftrightarrow> (\<forall>st junk pc p refs s.
     m (framed st junk pc p refs s) = (framed st junk pc p refs (fst (m s)), snd (m s)))"

named_theorems pure "actions that leave the frame of a machine alone"

lemma pure_act_eq:
  "pure_act m \<Longrightarrow> m (framed st junk pc p refs s) = (framed st junk pc p refs (fst (m s)), snd (m s))"
  by (simp add: pure_act_def)

lemma thenA_pure:
  "pure_act m \<Longrightarrow> thenA m f (framed st junk pc p refs s) =
     (case m s of (s', Inl q) \<Rightarrow> (framed st junk pc p refs s', Inl q)
                | (s', Inr x) \<Rightarrow> f x (framed st junk pc p refs s'))"
  by (simp add: thenA_def pure_act_eq split: prod.split sum.split)

lemma seqA_pure:
  "pure_act m \<Longrightarrow> seqA m f (framed st junk pc p refs s) =
     (case m s of (s', Inl q) \<Rightarrow> (framed st junk pc p refs s', Inl q)
                | (s', Inr x) \<Rightarrow> f (framed st junk pc p refs s'))"
  by (simp add: seqA_def thenA_pure split: prod.split sum.split)

lemma pure_returnA [pure]: "pure_act (returnA x)"
  by (simp add: pure_act_def)

lemma pure_raise [pure]: "pure_act (raise q)"
  by (simp add: pure_act_def)

lemma pure_crash [pure]: "pure_act crash"
  by (simp add: pure_act_def)

lemma pure_liftR [pure]: "pure_act (liftR r)"
  by (simp add: pure_act_def)

lemma pure_readA:
  "(\<And>st junk pc p refs s. f (framed st junk pc p refs s) = f s) \<Longrightarrow> pure_act (readA f)"
  by (simp add: pure_act_def)

lemma pure_readA_heap [pure]: "pure_act (readA v_heap)"
  by (rule pure_readA) simp

lemma pure_readA_stash [pure]: "pure_act (readA v_stash)"
  by (rule pure_readA) simp

lemma pure_thenA [pure]:
  assumes "pure_act m" "\<And>x. pure_act (f x)"
  shows "pure_act (thenA m f)"
  unfolding pure_act_def thenA_def using assms
  by (simp add: pure_act_eq split: prod.split sum.split)

lemma pure_thenA_on:
  assumes "pure_act m" "\<And>s s' x. m s = (s', Inr x) \<Longrightarrow> pure_act (f x)"
  shows "pure_act (thenA m f)"
proof -
  have "thenA m f (framed st junk pc p refs s)
      = (framed st junk pc p refs (fst (thenA m f s)), snd (thenA m f s))" for st junk pc p refs s
  proof (cases "m s")
    case (Pair s' r)
    then show ?thesis
    proof (cases r)
      case (Inr x)
      then have "pure_act (f x)" using assms(2) Pair by blast
      then show ?thesis using Pair Inr by (simp add: thenA_def pure_act_eq [OF assms(1)] pure_act_eq)
    qed (simp add: thenA_def pure_act_eq [OF assms(1)])
  qed
  then show ?thesis by (simp add: pure_act_def)
qed

lemma pure_seqA [pure]: "pure_act m \<Longrightarrow> pure_act f \<Longrightarrow> pure_act (seqA m f)"
  unfolding seqA_def by (rule pure_thenA)

lemma pure_unitA [pure]: "pure_act m \<Longrightarrow> pure_act (unitA m)"
  unfolding unitA_def by (intro pure)

lemma pure_updA:
  "(\<And>st junk pc p refs s. f (framed st junk pc p refs s) = framed st junk pc p refs (f s)) \<Longrightarrow> pure_act (updA f)"
  by (simp add: pure_act_def)

lemma pure_liftH [pure]: "pure_act (liftH f)"
  by (simp add: pure_act_def liftH_def framed_def split: option.split prod.split)

lemma pure_liftB [pure]: "pure_act (liftB f)"
  unfolding liftB_def by (rule pure_liftH)

lemma pure_option [pure]:
  "pure_act a \<Longrightarrow> (\<And>x. pure_act (f x)) \<Longrightarrow> pure_act (case r of None \<Rightarrow> a | Some x \<Rightarrow> f x)"
  by (cases r) simp_all

lemma pure_if [pure]: "pure_act a \<Longrightarrow> pure_act b \<Longrightarrow> pure_act (if r then a else b)"
  by simp

lemma pure_prod [pure]: "(\<And>x y. pure_act (f x y)) \<Longrightarrow> pure_act (case r of (x, y) \<Rightarrow> f x y)"
  by (cases r) simp

lemma pure_jsval [pure]:
  "pure_act a \<Longrightarrow> pure_act b \<Longrightarrow> (\<And>x. pure_act (c x)) \<Longrightarrow> (\<And>x. pure_act (d x)) \<Longrightarrow> (\<And>x. pure_act (e x))
   \<Longrightarrow> (\<And>x. pure_act (f x)) \<Longrightarrow> (\<And>x. pure_act (g x)) \<Longrightarrow> (\<And>x. pure_act (h x)) \<Longrightarrow> (\<And>x. pure_act (i x))
   \<Longrightarrow> pure_act (case v of VUndefined \<Rightarrow> a | VNull \<Rightarrow> b | VBool x \<Rightarrow> c x | VInt x \<Rightarrow> d x | VFloat x \<Rightarrow> e x
       | VString x \<Rightarrow> f x | VSymbol x \<Rightarrow> g x | VBigInt x \<Rightarrow> h x | VObject x \<Rightarrow> i x)"
  by (cases v) simp_all

lemma pure_cell [pure]:
  "pure_act a \<Longrightarrow> (\<And>x. pure_act (b x)) \<Longrightarrow> (\<And>x. pure_act (c x)) \<Longrightarrow> (\<And>x. pure_act (d x))
   \<Longrightarrow> pure_act (case v of CNil \<Rightarrow> a | CVal x \<Rightarrow> b x | CUnresolved x \<Rightarrow> c x | CMember x \<Rightarrow> d x)"
  by (cases v) simp_all

lemma pure_cell_val [pure]: "pure_act (cell_val c)"
  unfolding cell_val_def by (intro pure)

lemma pure_val_of [pure]: "pure_act (val_of c)"
  unfolding val_of_def by (intro pure)

lemma pure_stash_at [pure]: "pure_act (stash_at a)"
  by (simp add: pure_act_def stash_at_def)

lemma pure_set_stash [pure]: "pure_act (set_stash a st)"
  unfolding set_stash_def by (rule pure_updA) (simp add: framed_def)

lemma pure_cell_at [pure]: "pure_act (cell_at i cs)"
  unfolding cell_at_def by (intro pure)

lemma pure_set_cell [pure]: "pure_act (set_cell a i v)"
  unfolding set_cell_def by (intro pure)

lemma pure_string_object [pure]: "pure_act (string_object E t)"
  by (simp add: pure_act_def string_object_def framed_def split: prod.split)

lemma pure_newPrimitiveObject [pure]: "pure_act (newPrimitiveObject E v)"
  by (simp add: pure_act_def newPrimitiveObject_def framed_def Let_def)

lemma pure_ToObject [pure]: "pure_act (ToObject E v)"
  unfolding ToObject_def by (intro pure)

lemma pure_toObject [pure]: "pure_act (toObject v)"
  unfolding toObject_def by (intro pure)

lemma pure_baseObject [pure]: "pure_act (baseObject E v)"
  unfolding baseObject_def by (intro pure)

lemma pure_toPropertyKey [pure]: "pure_act (toPropertyKey E k)"
  unfolding toPropertyKey_def by (intro pure)

lemma pure_obj_get_str [pure]: "pure_act (obj_get_str E a name recv)"
  unfolding obj_get_str_def by (intro pure)

lemma pure_obj_get [pure]: "pure_act (obj_get E a k recv)"
  unfolding obj_get_def by (intro pure)

lemma pure_obj_write [pure]: "pure_act (obj_write E a k v this strict)"
  unfolding obj_write_def by (intro pure)

lemma pure_obj_write_str [pure]: "pure_act (obj_write_str E a name v this strict)"
  unfolding obj_write_str_def by (intro pure)

lemma pure_strict_write [pure]: "pure_act (strict_write E r k v)"
  unfolding strict_write_def by (intro pure)

lemma pure_stashObjHas [pure]: "pure_act (stashObjHas E obj name)"
  unfolding stashObjHas_def by (intro pure)

lemma pure_getByName [pure]: "pure_act (getByName E a name)"
  unfolding getByName_def by (intro pure)

lemma pure_getRefByName [pure]: "pure_act (getRefByName E a name strict)"
  unfolding getRefByName_def by (intro pure)

lemma pure_getByIdx [pure]: "pure_act (getByIdx a i)"
  unfolding getByIdx_def by (intro pure)

lemma pure_global_value [pure]: "pure_act (global_value E name)"
  unfolding global_value_def by (intro pure)

lemma pure_find_name [pure]: "pure_act (find_name E name n a)"
  by (induction E name n a rule: find_name.induct) (auto simp del: act_simps intro!: pure)

lemma pure_find_ref [pure]: "pure_act (find_ref E name strict n a)"
  by (induction E name strict n a rule: find_ref.induct) (auto simp del: act_simps intro!: pure)
section \<open>The stack in a frame\<close>

text \<open>The operands of an instruction are the last cells of the frame's stack, up to four.\<close>

lemma framed_nth:
  assumes "0 < k" "k \<le> length xs"
  shows "top (int k) (framed (st @ xs) junk pc p refs s) = (framed (st @ xs) junk pc p refs s, Inr (xs ! (length xs - k)))"
proof -
  have n: "nat (int (length (st @ xs)) - int k) = length st + (length xs - k)" using assms by simp
  have l: "length xs - k < length xs" using assms by simp
  have "(st @ xs @ junk) ! (length st + (length xs - k)) = xs ! (length xs - k)"
    unfolding nth_append_length_plus using l by (simp only: nth_append if_True)
  then have "stack_at (int (length (st @ xs)) - int k) (framed (st @ xs) junk pc p refs s)
      = (framed (st @ xs) junk pc p refs s, Inr (xs ! (length xs - k)))"
    unfolding stack_at_def framed_simps append_assoc n using assms by simp
  then show ?thesis by (simp add: top_def)
qed

lemma framed_top [simp]:
  "top 1 (framed (st @ [a]) junk pc p refs s) = (framed (st @ [a]) junk pc p refs s, Inr a)"
  "top 1 (framed (st @ [a, b]) junk pc p refs s) = (framed (st @ [a, b]) junk pc p refs s, Inr b)"
  "top 2 (framed (st @ [a, b]) junk pc p refs s) = (framed (st @ [a, b]) junk pc p refs s, Inr a)"
  "top 1 (framed (st @ [a, b, c]) junk pc p refs s) = (framed (st @ [a, b, c]) junk pc p refs s, Inr c)"
  "top 2 (framed (st @ [a, b, c]) junk pc p refs s) = (framed (st @ [a, b, c]) junk pc p refs s, Inr b)"
  "top 3 (framed (st @ [a, b, c]) junk pc p refs s) = (framed (st @ [a, b, c]) junk pc p refs s, Inr a)"
  using framed_nth [of 1 "[a]" st] framed_nth [of 1 "[a, b]" st] framed_nth [of 2 "[a, b]" st]
    framed_nth [of 1 "[a, b, c]" st] framed_nth [of 2 "[a, b, c]" st] framed_nth [of 3 "[a, b, c]" st]
  by simp_all

lemma framed_top0 [simp]:
  "top 0 (framed st (a # junk) pc p refs s) = (framed st (a # junk) pc p refs s, Inr a)"
  by (simp add: top_def stack_at_def nth_append)

lemma framed_put:
  assumes "0 < k" "k \<le> length xs"
  shows "put_top (int k) x (framed (st @ xs) junk pc p refs s)
    = (framed (st @ xs[length xs - k := x]) junk pc p refs s, Inr ())"
proof -
  have n: "nat (int (length (st @ xs)) - int k) = length st + (length xs - k)" using assms by simp
  have l: "length xs - k < length xs" using assms by simp
  have "(st @ xs @ junk)[length st + (length xs - k) := x] = st @ xs[length xs - k := x] @ junk"
    using l by (simp add: list_update_append)
  then have "set_stack (int (length (st @ xs)) - int k) x (framed (st @ xs) junk pc p refs s)
      = (framed (st @ xs[length xs - k := x]) junk pc p refs s, Inr ())"
    unfolding set_stack_def framed_simps append_assoc n using assms by (simp add: framed_def)
  then show ?thesis by (simp add: put_top_def)
qed

lemma framed_put_top [simp]:
  "put_top 1 x (framed (st @ [a]) junk pc p refs s) = (framed (st @ [x]) junk pc p refs s, Inr ())"
  "put_top 1 x (framed (st @ [a, b]) junk pc p refs s) = (framed (st @ [a, x]) junk pc p refs s, Inr ())"
  "put_top 2 x (framed (st @ [a, b]) junk pc p refs s) = (framed (st @ [x, b]) junk pc p refs s, Inr ())"
  using framed_put [of 1 "[a]" x st] framed_put [of 1 "[a, b]" x st] framed_put [of 2 "[a, b]" x st]
  by simp_all

lemma framed_add_sp [simp]:
  "add_sp (-1) (framed (st @ [a]) junk pc p refs s) = (framed st (a # junk) pc p refs s, Inr ())"
  "add_sp (-1) (framed (st @ [a, b]) junk pc p refs s) = (framed (st @ [a]) (b # junk) pc p refs s, Inr ())"
  "add_sp (-1) (framed (st @ [a, b, c]) junk pc p refs s) = (framed (st @ [a, b]) (c # junk) pc p refs s, Inr ())"
  "add_sp (-2) (framed (st @ [a, b]) junk pc p refs s) = (framed st (a # b # junk) pc p refs s, Inr ())"
  "add_sp (-2) (framed (st @ [a, b, c]) junk pc p refs s) = (framed (st @ [a]) (b # c # junk) pc p refs s, Inr ())"
  "add_sp (-3) (framed (st @ [a, b, c]) junk pc p refs s) = (framed st (a # b # c # junk) pc p refs s, Inr ())"
  by (simp_all add: add_sp_def framed_def)

lemma framed_pc [simp]:
  "next_pc (framed st junk pc p refs s) = (framed st junk (pc + 1) p refs s, Inr ())"
  "add_pc d (framed st junk pc p refs s) = (framed st junk (pc + d) p refs s, Inr ())"
  by (simp_all add: next_pc_def add_pc_def framed_def)

lemma framed_push [simp]:
  "push x (framed st junk pc p refs s) = (framed (st @ [x]) (tl junk) pc p refs s, Inr ())"
proof (cases junk)
  case Nil
  have "nat (int (length st) + 1) - length st = 1" by simp
  then show ?thesis
    by (simp add: Nil push_def thenA_def expand_def set_stack_def add_sp_def framed_def list_update_append)
qed (simp add: push_def thenA_def expand_def set_stack_def add_sp_def framed_def list_update_append)

lemma framed_refs [simp]:
  "push_ref r (framed st junk pc p refs s) = (framed st junk pc p (refs @ [r]) s, Inr ())"
  "pop_ref (framed st junk pc p (refs @ [r]) s) = (framed st junk pc p refs s, Inr r)"
  by (simp_all add: push_ref_def pop_ref_def framed_def)

lemma thenA_fixed:
  "m s = (s', Inr x) \<Longrightarrow> thenA m f s = f x s'"
  "m s = (s', Inl q) \<Longrightarrow> thenA m f s = (s', Inl q)"
  by (simp_all add: thenA_def)

lemma top_val_framed [simp]:
  assumes "top k (framed st junk pc p refs s) = (framed st junk pc p refs s, Inr a)"
  shows "top_val k (framed st junk pc p refs s) = (framed st junk pc p refs (fst (cell_val a s)), snd (cell_val a s))"
  by (simp add: top_val_def thenA_def assms pure_act_eq [OF pure_cell_val])

section \<open>Running a piece of code\<close>

definition code_at :: "(nat \<Rightarrow> instr list) \<Rightarrow> nat \<Rightarrow> nat \<Rightarrow> instr list \<Rightarrow> bool" where
  "code_at P p pc ins \<longleftrightarrow> pc + length ins \<le> length (P p) \<and> take (length ins) (drop pc (P p)) = ins"

lemma code_at_append:
  "code_at P p pc (a @ b) \<longleftrightarrow> code_at P p pc a \<and> code_at P p (pc + length a) b"
  by (auto simp: code_at_def take_add add.commute)

lemma code_at_Cons: "code_at P p pc (i # b) \<longleftrightarrow> code_at P p pc [i] \<and> code_at P p (Suc pc) b"
  using code_at_append [of P p pc "[i]" b] by simp

lemma code_at_fetch:
  "code_at P p pc [i] \<Longrightarrow> pc < length (P p) \<and> P p ! pc = i"
  by (auto simp: code_at_def take_Suc_conv_app_nth)

definition vm_step :: "ienv \<Rightarrow> (nat \<Rightarrow> instr list) \<Rightarrow> vm \<Rightarrow> vm \<Rightarrow> bool" where
  "vm_step I P s t \<longleftrightarrow> \<not> halted P s \<and> step_vm I P s = (t, Inr ())"

text \<open>
  The machine is about to raise \<open>q\<close>: the instruction panics with it, or throws it, in the
  state \<open>t\<close>.
\<close>

definition throws :: "ienv \<Rightarrow> (nat \<Rightarrow> instr list) \<Rightarrow> vm \<Rightarrow> panic \<Rightarrow> vm \<Rightarrow> bool" where
  "throws I P s q t \<longleftrightarrow>
     \<not> halted P s \<and> (step_vm I P s = (t, Inl q) \<or> step_vm I P s = vm_throw (i_env I) q t)"

text \<open>What one instruction does at the place it stands.\<close>

lemma step_at:
  assumes "code_at P p pc [i]" "s = framed st junk (int pc) p refs s'"
  shows "\<not> halted P s" "step_vm I P s = exec I i s"
  using code_at_fetch [OF assms(1)] by (simp_all add: assms(2) halted_def step_vm_def)

text \<open>
  An action on values and references: it returns the cells and the references that are to be on
  top of the stacks. \<open>runs_like\<close> says that a piece of code of length \<open>n\<close> that starts at \<open>pc\<close> ran like it.
\<close>

type_synonym pushed = "cell list \<times> ref list"

definition runs_like :: "ienv \<Rightarrow> (nat \<Rightarrow> instr list) \<Rightarrow> nat \<Rightarrow> vm \<Rightarrow> int \<Rightarrow> cell list \<Rightarrow> ref list
    \<Rightarrow> vm \<times> (panic + pushed) \<Rightarrow> nat \<Rightarrow> bool" where
  "runs_like I P n s pc' st refs r p \<longleftrightarrow>
     (\<exists>k t. k \<le> n \<and> (vm_step I P ^^ k) s t \<and>
       (case r of
          (s', Inr (ys, rs)) \<Rightarrow> (\<exists>junk'. t = framed (st @ ys) junk' pc' p (refs @ rs) s')
        | (s', Inl q) \<Rightarrow> (\<exists>st' junk' pc'' refs'.
            throws I P t q (framed (st @ st') junk' pc'' p (refs @ refs') s'))))"

lemma runs_like_Inr:
  "runs_like I P n s pc' st refs (s', Inr (ys, rs)) p \<longleftrightarrow>
     (\<exists>k junk'. k \<le> n \<and> (vm_step I P ^^ k) s (framed (st @ ys) junk' pc' p (refs @ rs) s'))"
  by (auto simp: runs_like_def)

lemma runs_like_Inl:
  "runs_like I P n s pc' st refs (s', Inl q) p \<longleftrightarrow>
     (\<exists>k t st' junk' pc'' refs'. k \<le> n \<and> (vm_step I P ^^ k) s t
        \<and> throws I P t q (framed (st @ st') junk' pc'' p (refs @ refs') s'))"
  unfolding runs_like_def by simp

lemma runs_like_mono: "runs_like I P n s pc' st refs r p \<Longrightarrow> n \<le> m \<Longrightarrow> runs_like I P m s pc' st refs r p"
  unfolding runs_like_def using order_trans by blast

definition implements :: "ienv \<Rightarrow> instr list \<Rightarrow> cell list \<Rightarrow> ref list \<Rightarrow> pushed act \<Rightarrow> bool" where
  "implements I ins xs rs ev \<longleftrightarrow>
     (\<forall>P p pc st junk refs s. code_at P p pc ins \<longrightarrow>
        runs_like I P (length ins) (framed (st @ xs) junk (int pc) p (refs @ rs) s)
          (int (pc + length ins)) st refs (ev s) p)"

lemma implementsI:
  assumes "\<And>P p pc st junk refs s. code_at P p pc ins \<Longrightarrow>
     runs_like I P (length ins) (framed (st @ xs) junk (int pc) p (refs @ rs) s) (int (pc + length ins)) st refs (ev s) p"
  shows "implements I ins xs rs ev"
  using assms by (simp add: implements_def)

lemma implementsD:
  assumes "implements I ins xs rs ev" "code_at P p pc ins"
  shows "runs_like I P (length ins) (framed (st @ xs) junk (int pc) p (refs @ rs) s)
      (int (pc + length ins)) st refs (ev s) p"
  using assms by (simp add: implements_def)

lemma implements_empty: "implements I [] xs rs (returnA (xs, rs))"
  by (rule implementsI) (auto simp: runs_like_def intro!: exI [of _ "0::nat"])

text \<open>More steps first, and a longer stack below.\<close>

lemma steps_runs_like:
  assumes "(vm_step I P ^^ k) s s'" "runs_like I P n s' pc' st refs r p" "k + n \<le> m"
  shows "runs_like I P m s pc' st refs r p"
proof -
  from assms(2) obtain l t where t: "l \<le> n" "(vm_step I P ^^ l) s' t" and
    f: "case r of (s', Inr (ys, rs)) \<Rightarrow> (\<exists>junk'. t = framed (st @ ys) junk' pc' p (refs @ rs) s')
        | (s', Inl q) \<Rightarrow> (\<exists>st' junk' pc'' refs'. throws I P t q (framed (st @ st') junk' pc'' p (refs @ refs') s'))"
    by (auto simp: runs_like_def)
  have "(vm_step I P ^^ (k + l)) s t" using assms(1) t(2) by (auto simp: relpowp_add)
  moreover have "k + l \<le> m" using t(1) assms(3) by simp
  ultimately show ?thesis using f unfolding runs_like_def by blast
qed

lemma runs_like_below:
  assumes "runs_like I P n s pc' (st @ zs) (refs @ qs) r p"
  shows "runs_like I P n s pc' st refs (map_prod id (map_sum id (map_prod ((@) zs) ((@) qs))) r) p"
proof -
  obtain s' x where r: "r = (s', x)" by (cases r)
  show ?thesis
  proof (cases x)
    case (Inl q)
    then show ?thesis using assms by (simp add: runs_like_def r) blast
  next
    case (Inr y)
    then show ?thesis using assms by (cases y) (simp add: runs_like_def r)
  qed
qed

lemma implements_bind:
  assumes a: "implements I a xs rs (thenA ev (\<lambda>x. returnA (g x)))"
    and b: "\<And>s s' x. ev s = (s', Inr x) \<Longrightarrow> implements I b (fst (g x)) (snd (g x)) (f x)"
  shows "implements I (a @ b) xs rs (thenA ev f)"
proof (rule implementsI)
  fix P p pc st junk refs s
  assume c: "code_at P p pc (a @ b)"
  let ?s = "framed (st @ xs) junk (int pc) p (refs @ rs) s"
  from implementsD [OF a] c have ra: "runs_like I P (length a) ?s (int (pc + length a)) st refs
      (thenA ev (\<lambda>x. returnA (g x)) s) p" by (simp add: code_at_append)
  show "runs_like I P (length (a @ b)) ?s (int (pc + length (a @ b))) st refs (thenA ev f s) p"
  proof (cases "ev s" rule: prod.exhaust)
    case (Pair s' x)
    show ?thesis
    proof (cases x)
      case (Inl q)
      then have "thenA ev f s = (s', Inl q)" by (simp add: thenA_def Pair)
      moreover have "runs_like I P (length a) ?s pc' st refs (s', Inl q) p" for pc'
        using ra by (simp add: thenA_def Pair Inl runs_like_Inl)
      ultimately show ?thesis by (simp only: runs_like_mono [where n = "length a"] length_append le_add1)
    next
      case (Inr y)
      obtain ys rs' where g: "g y = (ys, rs')" by (cases "g y")
      have "thenA ev (\<lambda>x. returnA (g x)) s = (s', Inr (ys, rs'))" by (simp add: thenA_def Pair Inr g)
      then obtain k junk' where k: "k \<le> length a"
        "(vm_step I P ^^ k) ?s (framed (st @ ys) junk' (int (pc + length a)) p (refs @ rs') s')"
        using ra by (metis runs_like_Inr)
      have "implements I b ys rs' (f y)" using b [of s s' y] Pair Inr g by simp
      from implementsD [OF this, of P p "pc + length a" st junk' refs s'] c
      have "runs_like I P (length b) (framed (st @ ys) junk' (int (pc + length a)) p (refs @ rs') s')
          (int (pc + length (a @ b))) st refs (thenA ev f s) p"
        by (simp add: code_at_append thenA_def Pair Inr add.assoc)
      then show ?thesis using steps_runs_like [OF k(2)] k(1) by simp
    qed
  qed
qed

lemma implements_seq:
  assumes "implements I a xs rs ev"
    and "\<And>s s' ys rs'. ev s = (s', Inr (ys, rs')) \<Longrightarrow> implements I b ys rs' (f (ys, rs'))"
  shows "implements I (a @ b) xs rs (thenA ev f)"
proof (rule implements_bind [where g = id])
  have "thenA ev (\<lambda>x. returnA (id x)) = ev" by (auto simp: thenA_def split: prod.splits sum.splits)
  then show "implements I a xs rs (thenA ev (\<lambda>x. returnA (id x)))" using assms(1) by simp
qed (use assms(2) in auto)

text \<open>The same on top of cells and references that are already there.\<close>

lemma implements_below:
  assumes "implements I ins xs rs ev"
  shows "implements I ins (zs @ xs) (qs @ rs) (thenA ev (\<lambda>(ys, rs'). returnA (zs @ ys, qs @ rs')))"
proof (rule implementsI)
  fix P p pc st junk refs s
  assume "code_at P p pc ins"
  from implementsD [OF assms this, of "st @ zs" junk "refs @ qs" s]
  have "runs_like I P (length ins) (framed (st @ (zs @ xs)) junk (int pc) p (refs @ (qs @ rs)) s)
      (int (pc + length ins)) (st @ zs) (refs @ qs) (ev s) p" by simp
  from runs_like_below [OF this] show "runs_like I P (length ins) (framed (st @ (zs @ xs)) junk (int pc) p (refs @ (qs @ rs)) s)
      (int (pc + length ins)) st refs (thenA ev (\<lambda>(ys, rs'). returnA (zs @ ys, qs @ rs')) s) p"
    by (cases "ev s") (auto simp: thenA_def map_prod_def map_sum_def split: sum.splits)
qed
section \<open>One instruction, and jumps\<close>

text \<open>\<open>raised\<close>: the instruction ends in the panic \<open>q\<close>, or throws it, with the effects of \<open>s'\<close>.\<close>

definition raised :: "ienv \<Rightarrow> vm \<times> (panic + unit) \<Rightarrow> panic \<Rightarrow> cell list \<Rightarrow> nat \<Rightarrow> ref list \<Rightarrow> vm \<Rightarrow> bool" where
  "raised I r q st p refs s' \<longleftrightarrow>
     (\<exists>st' junk' pc'' refs'. let t = framed (st @ st') junk' pc'' p (refs @ refs') s' in
        r = (t, Inl q) \<or> r = vm_throw (i_env I) q t)"

lemma raisedI:
  "raised I (framed (st @ st') junk' pc'' p (refs @ refs') s', Inl q) q st p refs s'"
  "raised I (vm_throw (i_env I) q (framed (st @ st') junk' pc'' p (refs @ refs') s')) q st p refs s'"
  unfolding raised_def Let_def by blast+

lemma raised_framed:
  "raised I (framed st junk' pc'' p refs s', Inl q) q st p refs s'"
  "raised I (framed (st @ st') junk' pc'' p refs s', Inl q) q st p refs s'"
  "raised I (framed st junk' pc'' p (refs @ refs') s', Inl q) q st p refs s'"
  "raised I (vm_throw (i_env I) q (framed st junk' pc'' p refs s')) q st p refs s'"
  "raised I (vm_throw (i_env I) q (framed (st @ st') junk' pc'' p refs s')) q st p refs s'"
  using raisedI(1) [of I st "[]" junk' pc'' p refs "[]" s' q] raisedI(1) [of I st st' junk' pc'' p refs "[]" s' q]
    raisedI(1) [of I st "[]" junk' pc'' p refs refs' s' q]
    raisedI(2) [of I q st "[]" junk' pc'' p refs "[]" s'] raisedI(2) [of I q st st' junk' pc'' p refs "[]" s']
  by simp_all

lemma raised_throws:
  assumes "code_at P p pc [i]" "s = framed (st @ xs) junk (int pc) p (refs @ rs) s0"
    and "raised I (exec I i s) q st p refs s'"
  shows "runs_like I P 1 s pc' st refs (s', Inl q) p"
proof -
  obtain st' junk' pc'' refs' where
    "exec I i s = (framed (st @ st') junk' pc'' p (refs @ refs') s', Inl q)
     \<or> exec I i s = vm_throw (i_env I) q (framed (st @ st') junk' pc'' p (refs @ refs') s')"
    using assms(3) unfolding raised_def Let_def by blast
  then have "throws I P s q (framed (st @ st') junk' pc'' p (refs @ refs') s')"
    using step_at [OF assms(1,2)] by (simp add: throws_def)
  moreover have "(vm_step I P ^^ 0) s s" by simp
  ultimately show ?thesis unfolding runs_like_Inl by blast
qed

lemma one_step: "vm_step I P s t \<Longrightarrow> (vm_step I P ^^ 1) s t"
  by (simp only: relpowp_1)

definition instr_like :: "ienv \<Rightarrow> instr \<Rightarrow> cell list \<Rightarrow> ref list \<Rightarrow> pushed act \<Rightarrow> bool" where
  "instr_like I i xs rs ev \<longleftrightarrow>
     (\<forall>st junk pc p refs s.
       let r = exec I i (framed (st @ xs) junk pc p (refs @ rs) s) in
       case ev s of
         (s', Inl q) \<Rightarrow> raised I r q st p refs s'
       | (s', Inr (ys, rs')) \<Rightarrow> (\<exists>junk'. r = (framed (st @ ys) junk' (pc + 1) p (refs @ rs') s', Inr ())))"

lemma implements_instr:
  assumes "instr_like I i xs rs ev"
  shows "implements I [i] xs rs ev"
proof (rule implementsI)
  fix P p pc st junk refs s
  assume c: "code_at P p pc [i]"
  let ?s = "framed (st @ xs) junk (int pc) p (refs @ rs) s"
  have f: "case ev s of (s', Inl q) \<Rightarrow> raised I (exec I i ?s) q st p refs s'
       | (s', Inr (ys, rs')) \<Rightarrow> (\<exists>junk'. exec I i ?s = (framed (st @ ys) junk' (int pc + 1) p (refs @ rs') s', Inr ()))"
    using assms unfolding instr_like_def Let_def by (elim allE)
  show "runs_like I P (length [i]) ?s (int (pc + length [i])) st refs (ev s) p"
  proof (cases "ev s")
    case (Pair s' x)
    show ?thesis
    proof (cases x)
      case (Inl q)
      then have "raised I (exec I i ?s) q st p refs s'"
        using f Pair by simp
      from raised_throws [OF c refl this] show ?thesis by (simp add: Pair Inl)
    next
      case (Inr y)
      obtain ys rs' where y: "y = (ys, rs')" by (cases y)
      obtain junk' where "exec I i ?s = (framed (st @ ys) junk' (int pc + 1) p (refs @ rs') s', Inr ())"
        using f Pair Inr y by auto
      then have "(vm_step I P ^^ 1) ?s (framed (st @ ys) junk' (int pc + 1) p (refs @ rs') s')"
        using step_at [OF c refl] by (intro one_step) (simp add: vm_step_def)
      moreover have "(1::nat) \<le> length [i]" "int (pc + length [i]) = int pc + 1" by simp_all
      ultimately show ?thesis unfolding Pair Inr y runs_like_Inr by metis
    qed
  qed
qed

text \<open>What a conditional jump finds out about a cell: whether it jumps, and what it leaves.\<close>

fun jmp_test :: "jmp \<Rightarrow> cell \<Rightarrow> (bool \<times> cell list) act" where
  "jmp_test J_jneP c = thenA (cell_val c) (\<lambda>v. returnA (\<not> ToBoolean v, []))"
| "jmp_test J_jeqP c = thenA (cell_val c) (\<lambda>v. returnA (ToBoolean v, []))"
| "jmp_test J_jne c = thenA (cell_val c) (\<lambda>v. returnA (\<not> ToBoolean v, if \<not> ToBoolean v then [c] else []))"
| "jmp_test J_jeq c = thenA (cell_val c) (\<lambda>v. returnA (ToBoolean v, if ToBoolean v then [c] else []))"
| "jmp_test J_jcoalesc c = returnA (\<not> is_nullish c, if is_nullish c then [] else [c])"
| "jmp_test J_jcoalescP c = returnA (\<not> is_nullish c, [])"
| "jmp_test _ c = crash"

definition is_test :: "jmp \<Rightarrow> bool" where
  "is_test j \<longleftrightarrow> j \<in> {J_jneP, J_jeqP, J_jne, J_jeq, J_jcoalesc, J_jcoalescP}"

lemma cell_val_cases:
  obtains (val) v where "c = CVal v" "\<And>s. cell_val c s = (s, Inr v)"
    | (no_val) q where "\<And>s. cell_val c s = (s, Inl q)"
  by (cases c) (auto simp: cell_val_def)

lemma exec_test:
  assumes "is_test j"
  shows "case jmp_test j c s of
       (s', Inl q) \<Rightarrow> raised I (exec I (i_jmp j d) (framed (st @ [c]) junk pc p refs s)) q st p refs s'
     | (s', Inr (taken, ys)) \<Rightarrow> (\<exists>junk'. exec I (i_jmp j d) (framed (st @ [c]) junk pc p refs s)
           = (framed (st @ ys) junk' (pc + (if taken then d else 1)) p refs s', Inr ()))"
proof (cases c rule: cell_val_cases)
  case (val v)
  then show ?thesis using assms
    by (auto simp: is_test_def jneP_exec_def jeqP_exec_def jne_exec_def jeq_exec_def jcoalesc_exec_def
        jcoalescP_exec_def seqA_def top_val_def thenA_def)
next
  case (no_val q)
  then have "\<not> is_nullish c" by (cases c) (auto simp: is_nullish_def cell_val_def)
  then show ?thesis using assms no_val
    by (auto simp: is_test_def jneP_exec_def jeqP_exec_def jne_exec_def jeq_exec_def jcoalesc_exec_def
        jcoalescP_exec_def seqA_def top_val_def thenA_def raised_framed)
qed

lemma test_step:
  fixes c :: cell and I :: ienv and pc :: nat
  assumes j: "is_test j" and c: "code_at P p pc [i_jmp j d]"
  defines "s0 \<equiv> \<lambda>st refs junk s. framed (st @ [c]) junk (int pc) p refs s"
  shows "jmp_test j c s = (s', Inl q) \<Longrightarrow> runs_like I P 1 (s0 st (refs @ rs) junk s) pc' st refs (s', Inl q) p"
    and "jmp_test j c s = (s', Inr (taken, ys)) \<Longrightarrow> \<exists>junk'. (vm_step I P ^^ 1) (s0 st refs junk s)
        (framed (st @ ys) junk' (int pc + (if taken then d else 1)) p refs s')"
proof -
  assume t: "jmp_test j c s = (s', Inl q)"
  have "raised I (exec I (i_jmp j d) (s0 st (refs @ rs) junk s)) q st p (refs @ rs) s'"
    using exec_test [OF j, where c = c and s = s and I = I and d = d and st = st and
        junk = junk and pc = "int pc" and p = p and refs = "refs @ rs"] t by (simp add: s0_def)
  then have "raised I (exec I (i_jmp j d) (s0 st (refs @ rs) junk s)) q st p refs s'"
    unfolding raised_def Let_def append_assoc by blast
  from raised_throws [OF c _ this] show "runs_like I P 1 (s0 st (refs @ rs) junk s) pc' st refs (s', Inl q) p"
    unfolding s0_def by blast
next
  assume t: "jmp_test j c s = (s', Inr (taken, ys))"
  then obtain junk' where "exec I (i_jmp j d) (s0 st refs junk s)
      = (framed (st @ ys) junk' (int pc + (if taken then d else 1)) p refs s', Inr ())"
    using exec_test [OF j, where c = c and s = s and I = I and d = d and st = st and
        junk = junk and pc = "int pc" and p = p and refs = refs] by (auto simp: s0_def)
  then have "vm_step I P (s0 st refs junk s) (framed (st @ ys) junk' (int pc + (if taken then d else 1)) p refs s')"
    using step_at [OF c, of "s0 st refs junk s" "st @ [c]" junk refs s] by (simp add: s0_def vm_step_def)
  from one_step [OF this] show "\<exists>junk'. (vm_step I P ^^ 1) (s0 st refs junk s)
        (framed (st @ ys) junk' (int pc + (if taken then d else 1)) p refs s')" by blast
qed

text \<open>A conditional jump over a piece of code.\<close>

lemma implements_jump_over:
  assumes j: "is_test j" and d: "d = int (length b) + 1"
    and b: "\<And>s s' ys. jmp_test j c s = (s', Inr (False, ys)) \<Longrightarrow> implements I b ys rs ev"
  shows "implements I (i_jmp j d # b) [c] rs
     (thenA (jmp_test j c) (\<lambda>(taken, ys). if taken then returnA (ys, rs) else ev))"
proof (rule implementsI)
  fix P p pc st junk refs s
  assume "code_at P p pc (i_jmp j d # b)"
  then have c: "code_at P p pc [i_jmp j d]" "code_at P p (Suc pc) b" by (auto simp: code_at_Cons [of _ _ _ _ b])
  let ?s = "framed (st @ [c]) junk (int pc) p (refs @ rs) s"
  let ?ev = "thenA (jmp_test j c) (\<lambda>(taken, ys). if taken then returnA (ys, rs) else ev)"
  let ?fin = "int (pc + length (i_jmp j d # b))"
  show "runs_like I P (length (i_jmp j d # b)) ?s ?fin st refs (?ev s) p"
  proof (cases "jmp_test j c s" rule: prod.exhaust)
    case (Pair s' r)
    show ?thesis
    proof (cases r)
      case (Inl q)
      from test_step(1) [OF j c(1) Pair [unfolded Inl]] show ?thesis
        by (simp add: thenA_def Pair Inl runs_like_mono [where n = 1])
    next
      case (Inr y)
      obtain taken ys where y: "y = (taken, ys)" by (cases y)
      from test_step(2) [OF j c(1) Pair [unfolded Inr y]] obtain junk' where st:
        "(vm_step I P ^^ 1) ?s (framed (st @ ys) junk' (int pc + (if taken then d else 1)) p (refs @ rs) s')"
        by blast
      show ?thesis
      proof (cases taken)
        case True
        have "int pc + d = ?fin" using d by simp
        then have "(vm_step I P ^^ 1) ?s (framed (st @ ys) junk' ?fin p (refs @ rs) s')"
          using st True by (simp only: if_True)
        then have "runs_like I P 1 ?s ?fin st refs (s', Inr (ys, rs)) p" unfolding runs_like_Inr by blast
        then show ?thesis using True by (simp add: thenA_def Pair Inr y runs_like_mono [where n = 1])
      next
        case False
        then have "implements I b ys rs ev" using b [of s s' ys] Pair Inr y by simp
        from implementsD [OF this c(2), of st junk' refs s']
        have "runs_like I P (length b) (framed (st @ ys) junk' (int pc + 1) p (refs @ rs) s')
            ?fin st refs (ev s') p" by (simp add: algebra_simps)
        from steps_runs_like [OF st [unfolded if_not_P [OF False]] this] False
        show ?thesis by (simp add: thenA_def Pair Inr y)
      qed
    qed
  qed
qed

text \<open>A jump at the end of the first of two pieces leads past the second.\<close>

lemma jump_past:
  assumes "code_at P p pc (a @ [i_jmp J_jump d])" "implements I a xs rs ev"
  shows "runs_like I P (Suc (length a)) (framed (st @ xs) junk (int pc) p (refs @ rs) s)
    (int (pc + length a) + d) st refs (ev s) p"
proof -
  let ?s = "framed (st @ xs) junk (int pc) p (refs @ rs) s"
  have c: "code_at P p pc a" "code_at P p (pc + length a) [i_jmp J_jump d]"
    using assms(1) by (simp_all add: code_at_append)
  note r = implementsD [OF assms(2) c(1), of st junk refs s]
  show ?thesis
  proof (cases "ev s" rule: prod.exhaust)
    case (Pair s' x)
    show ?thesis
    proof (cases x)
      case (Inl q)
      have "runs_like I P (length a) ?s (int (pc + length a) + d) st refs (ev s) p"
        using r unfolding Pair Inl runs_like_Inl by blast
      then show ?thesis by (rule runs_like_mono) simp
    next
      case (Inr y)
      obtain ys rs' where y: "y = (ys, rs')" by (cases y)
      obtain k junk' where k: "k \<le> length a"
        "(vm_step I P ^^ k) ?s (framed (st @ ys) junk' (int (pc + length a)) p (refs @ rs') s')"
        using r unfolding Pair Inr y runs_like_Inr by blast
      have "exec I (i_jmp J_jump d) (framed (st @ ys) junk' (int (pc + length a)) p (refs @ rs') s')
          = (framed (st @ ys) junk' (int (pc + length a) + d) p (refs @ rs') s', Inr ())"
        by (simp add: jump_exec_def)
      then have "vm_step I P (framed (st @ ys) junk' (int (pc + length a)) p (refs @ rs') s')
          (framed (st @ ys) junk' (int (pc + length a) + d) p (refs @ rs') s')"
        using step_at [OF c(2) refl] by (simp add: vm_step_def)
      from relpowp_Suc_I [OF k(2) this] k(1) show ?thesis
        unfolding Pair Inr y runs_like_Inr by (metis Suc_le_mono)
    qed
  qed
qed

text \<open>Two branches: the test jumps to the second, which the first jumps over.\<close>

lemma implements_cond:
  assumes j: "is_test j" and d: "d = int (length a) + 2" and e: "e = int (length b) + 1"
    and a: "\<And>s s' ys. jmp_test j c s = (s', Inr (False, ys)) \<Longrightarrow> implements I a ys rs (ev1 ys)"
    and b: "\<And>s s' ys. jmp_test j c s = (s', Inr (True, ys)) \<Longrightarrow> implements I b ys rs (ev2 ys)"
  shows "implements I (i_jmp j d # a @ i_jmp J_jump e # b) [c] rs
     (thenA (jmp_test j c) (\<lambda>(taken, ys). if taken then ev2 ys else ev1 ys))"
proof (rule implementsI)
  fix P p pc st junk refs s
  assume "code_at P p pc (i_jmp j d # a @ i_jmp J_jump e # b)"
  then have c: "code_at P p pc [i_jmp j d]" "code_at P p (Suc pc) (a @ [i_jmp J_jump e])"
      "code_at P p (pc + length a + 2) b"
    by (simp_all add: code_at_Cons [of _ _ _ _ "_ @ _"] code_at_append code_at_Cons [of _ _ _ _ b])
  let ?s = "framed (st @ [c]) junk (int pc) p (refs @ rs) s"
  let ?ev = "thenA (jmp_test j c) (\<lambda>(taken, ys). if taken then ev2 ys else ev1 ys)"
  let ?n = "length (i_jmp j d # a @ i_jmp J_jump e # b)"
  let ?fin = "int (pc + ?n)"
  show "runs_like I P ?n ?s ?fin st refs (?ev s) p"
  proof (cases "jmp_test j c s" rule: prod.exhaust)
    case (Pair s' r)
    show ?thesis
    proof (cases r)
      case (Inl q)
      from test_step(1) [OF j c(1) Pair [unfolded Inl]] show ?thesis
        by (simp add: thenA_def Pair Inl runs_like_mono [where n = 1])
    next
      case (Inr y)
      obtain taken ys where y: "y = (taken, ys)" by (cases y)
      from test_step(2) [OF j c(1) Pair [unfolded Inr y]] obtain junk' where st:
        "(vm_step I P ^^ 1) ?s (framed (st @ ys) junk' (int pc + (if taken then d else 1)) p (refs @ rs) s')"
        by blast
      show ?thesis
      proof (cases taken)
        case True
        then have "implements I b ys rs (ev2 ys)" using b [of s s' ys] Pair Inr y by simp
        from implementsD [OF this c(3), of st junk' refs s']
        have "runs_like I P (length b) (framed (st @ ys) junk' (int pc + d) p (refs @ rs) s')
            ?fin st refs (ev2 ys s') p" by (simp add: d algebra_simps)
        from steps_runs_like [OF st [unfolded if_P [OF True]] this] True
        show ?thesis by (simp add: thenA_def Pair Inr y)
      next
        case False
        then have "implements I a ys rs (ev1 ys)" using a [of s s' ys] Pair Inr y by simp
        from jump_past [OF c(2) this, of st junk' refs s']
        have "runs_like I P (Suc (length a)) (framed (st @ ys) junk' (int pc + 1) p (refs @ rs) s')
            ?fin st refs (ev1 ys s') p" by (simp add: e algebra_simps)
        from steps_runs_like [OF st [unfolded if_not_P [OF False]] this] False
        show ?thesis by (simp add: thenA_def Pair Inr y)
      qed
    qed
  qed
qed
section \<open>Pieces of code that leave one value\<close>

text \<open>\<open>pushv\<close>: the value of an action, on top of what is there.\<close>

definition pushv :: "cell act \<Rightarrow> cell list \<Rightarrow> ref list \<Rightarrow> pushed act" where
  "pushv ev xs rs = thenA ev (\<lambda>v. returnA (xs @ [v], rs))"

definition value_code :: "ienv \<Rightarrow> instr list \<Rightarrow> cell act \<Rightarrow> bool" where
  "value_code I ins ev \<longleftrightarrow> (\<forall>xs rs. implements I ins xs rs (pushv ev xs rs))"

definition effect_code :: "ienv \<Rightarrow> instr list \<Rightarrow> 'a act \<Rightarrow> bool" where
  "effect_code I ins ev \<longleftrightarrow> (\<forall>xs rs. implements I ins xs rs (thenA ev (\<lambda>_. returnA (xs, rs))))"

text \<open>A piece that replaces the value on top.\<close>

definition map_code :: "ienv \<Rightarrow> instr list \<Rightarrow> (cell \<Rightarrow> cell act) \<Rightarrow> bool" where
  "map_code I ins f \<longleftrightarrow> (\<forall>x xs rs. implements I ins (xs @ [x]) rs (pushv (f x) xs rs))"

text \<open>A piece that leaves a reference.\<close>

definition ref_code :: "ienv \<Rightarrow> instr list \<Rightarrow> ref act \<Rightarrow> bool" where
  "ref_code I ins ev \<longleftrightarrow> (\<forall>xs rs. implements I ins xs rs (thenA ev (\<lambda>r. returnA (xs, rs @ [r]))))"

lemma value_then:
  assumes "value_code I a ev" "\<And>s s' x. ev s = (s', Inr x) \<Longrightarrow> implements I b (xs @ [x]) rs (f x)"
  shows "implements I (a @ b) xs rs (thenA ev f)"
proof (rule implements_bind [where g = "\<lambda>x. (xs @ [x], rs)"])
  show "implements I a xs rs (thenA ev (\<lambda>x. returnA (xs @ [x], rs)))"
    using assms(1) by (simp only: value_code_def pushv_def)
qed (simp add: assms(2))

lemma effect_then:
  assumes "effect_code I a ev" "\<And>s s' x. ev s = (s', Inr x) \<Longrightarrow> implements I b xs rs (f x)"
  shows "implements I (a @ b) xs rs (thenA ev f)"
proof (rule implements_bind [where g = "\<lambda>x. (xs, rs)"])
  show "implements I a xs rs (thenA ev (\<lambda>x. returnA (xs, rs)))"
    using assms(1) by (simp only: effect_code_def)
qed (simp add: assms(2))

lemma map_then:
  assumes "map_code I a g" "\<And>s s' y. g x s = (s', Inr y) \<Longrightarrow> implements I b (xs @ [y]) rs (f y)"
  shows "implements I (a @ b) (xs @ [x]) rs (thenA (g x) f)"
proof (rule implements_bind [where g = "\<lambda>y. (xs @ [y], rs)"])
  show "implements I a (xs @ [x]) rs (thenA (g x) (\<lambda>y. returnA (xs @ [y], rs)))"
    using assms(1) by (simp only: map_code_def pushv_def)
qed (simp add: assms(2))

lemma ref_then:
  assumes "ref_code I a ev" "\<And>s s' r. ev s = (s', Inr r) \<Longrightarrow> implements I b xs (rs @ [r]) (f r)"
  shows "implements I (a @ b) xs rs (thenA ev f)"
proof (rule implements_bind [where g = "\<lambda>r. (xs, rs @ [r])"])
  show "implements I a xs rs (thenA ev (\<lambda>r. returnA (xs, rs @ [r])))"
    using assms(1) by (simp only: ref_code_def)
qed (simp add: assms(2))

lemma thenA_returnA [simp]: "thenA m returnA = m"
  by (auto simp: thenA_def split: prod.splits sum.splits)

lemma pushv_thenA: "pushv (thenA ev f) xs rs = thenA ev (\<lambda>x. pushv (f x) xs rs)"
  by (simp only: pushv_def thenA_assoc)

lemma pushv_returnA: "pushv (returnA v) xs rs = returnA (xs @ [v], rs)"
  by (rule ext) (simp add: pushv_def thenA_def)

lemma thenA_returnA_bind: "thenA (returnA x) f = f x"
  by (rule ext) (simp add: thenA_def)

lemmas act_assoc = pushv_thenA pushv_returnA thenA_returnA_bind thenA_assoc

text \<open>On top of other values, and instructions as such pieces.\<close>

lemma implements_shift:
  assumes "\<And>rs. implements I ins [x] rs (thenA (f x) (\<lambda>y. returnA ([y], rs)))"
  shows "implements I ins (xs @ [x]) rs (pushv (f x) xs rs)"
  using implements_below [OF assms [of "[]"], of xs rs]
  by (simp only: pushv_def thenA_assoc thenA_returnA_bind prod.case append_Nil2)

lemma instr_value:
  assumes "\<And>xs rs. instr_like I i xs rs (pushv ev xs rs)"
  shows "value_code I [i] ev"
  using implements_instr [OF assms] by (simp add: value_code_def)

lemma instr_map:
  assumes "\<And>x xs rs. instr_like I i (xs @ [x]) rs (pushv (f x) xs rs)"
  shows "map_code I [i] f"
  using implements_instr [OF assms] by (simp add: map_code_def)

text \<open>
  An instruction that takes operands from the stack and leaves at most one value: it is enough
  to look at a stack of its operands.
\<close>

lemma instr_below:
  assumes "\<And>st junk pc p refs s. let r = exec I i (framed (st @ xs) junk pc p refs s) in
       case ev s of
         (s', Inl q) \<Rightarrow> raised I r q st p refs s'
       | (s', Inr y) \<Rightarrow> (\<exists>junk'. r = (framed (st @ g y) junk' (pc + 1) p refs s', Inr ()))"
  shows "implements I [i] (zs @ xs) rs (thenA ev (\<lambda>y. returnA (zs @ g y, rs)))"
proof (rule implements_instr, unfold instr_like_def Let_def, intro allI)
  fix st junk pc p refs s
  let ?r = "exec I i (framed (st @ zs @ xs) junk pc p (refs @ rs) s)"
  have a: "case ev s of (s', Inl q) \<Rightarrow> raised I ?r q (st @ zs) p (refs @ rs) s'
      | (s', Inr y) \<Rightarrow> (\<exists>junk'. ?r = (framed ((st @ zs) @ g y) junk' (pc + 1) p (refs @ rs) s', Inr ()))"
    using assms [of "st @ zs" junk pc p "refs @ rs" s] by (simp only: Let_def append_assoc)
  show "case thenA ev (\<lambda>y. returnA (zs @ g y, rs)) s of
        (s', Inl q) \<Rightarrow> raised I ?r q st p refs s'
      | (s', Inr (ys, rs')) \<Rightarrow> (\<exists>junk'. ?r = (framed (st @ ys) junk' (pc + 1) p (refs @ rs') s', Inr ()))"
  proof (cases "ev s" rule: prod.exhaust)
    case (Pair s' x)
    have w: "raised I r q (st @ zs) p (refs @ rs) s' \<Longrightarrow> raised I r q st p refs s'" for r q
      unfolding raised_def Let_def append_assoc by blast
    show ?thesis
    proof (cases x)
      case (Inl q)
      then show ?thesis using a w by (simp add: thenA_def Pair)
    next
      case (Inr y)
      then show ?thesis using a by (simp add: thenA_def Pair)
    qed
  qed
qed

end
