(* ===== verification/Expr_Meaning.thy ===== *)
theory Expr_Meaning
  imports Compile_Expr Code_Calculus
begin

text \<open>
  What expressions mean, without a machine: an evaluator by recursion on the syntax over the
  objects and scopes, with no stack, no jumps and no constant folding. The code the compiler
  emits is compared with it in \<open>Compile_Correct\<close>.
\<close>

section \<open>Reading and writing\<close>

text \<open>Properties: the base is checked before the key is converted.\<close>

definition get_prop :: "venv \<Rightarrow> cell \<Rightarrow> ustr \<Rightarrow> cell act" where
  "get_prop E c name =
     thenA (cell_val c) (\<lambda>v. thenA (baseObject E v) (\<lambda>base. case base of
         None \<Rightarrow> raise (PErr TypeErr)
       | Some a \<Rightarrow> thenA (obj_get_str E a name v) (\<lambda>r. returnA (nilSafe (optval r)))))"

definition get_elem :: "venv \<Rightarrow> cell \<Rightarrow> cell \<Rightarrow> cell act" where
  "get_elem E c k =
     thenA (cell_val c) (\<lambda>v. thenA (baseObject E v) (\<lambda>base. case base of
         None \<Rightarrow> raise (PErr TypeErr)
       | Some a \<Rightarrow> thenA (thenA (cell_val k) (toPropertyKey E)) (\<lambda>k.
           thenA (obj_get E a k v) (\<lambda>r. returnA (nilSafe (optval r))))))"

definition strict_write_str :: "venv \<Rightarrow> jsval \<Rightarrow> ustr \<Rightarrow> jsval \<Rightarrow> unit act" where
  "strict_write_str E base name v =
     (case base of
        VObject a \<Rightarrow> obj_write_str E a name v None True
      | _ \<Rightarrow> thenA (ToObject E base) (\<lambda>a. obj_write_str E a name v (Some base) True))"

definition put_prop :: "venv \<Rightarrow> bool \<Rightarrow> cell \<Rightarrow> ustr \<Rightarrow> cell \<Rightarrow> cell act" where
  "put_prop E strict c name x =
     (if strict then
        thenA (cell_val c) (\<lambda>base. thenA (cell_val x) (\<lambda>v.
          seqA (strict_write_str E base name v) (returnA (CVal v))))
      else
        thenA (cell_val x) (\<lambda>v. thenA (thenA (cell_val c) (ToObject E)) (\<lambda>a.
          seqA (obj_write_str E a name v None False) (returnA (CVal v)))))"

definition put_elem :: "venv \<Rightarrow> bool \<Rightarrow> cell \<Rightarrow> cell \<Rightarrow> cell \<Rightarrow> cell act" where
  "put_elem E strict c k x =
     (if strict then
        thenA (thenA (cell_val k) (toPropertyKey E)) (\<lambda>k. thenA (cell_val c) (\<lambda>base.
          thenA (cell_val x) (\<lambda>v. seqA (strict_write E base k v) (returnA (CVal v)))))
      else
        thenA (thenA (cell_val c) (ToObject E)) (\<lambda>a. thenA (thenA (cell_val k) (toPropertyKey E)) (\<lambda>k.
          thenA (cell_val x) (\<lambda>v. seqA (obj_write E a k v None False) (returnA (CVal v))))))"

definition del_prop :: "venv \<Rightarrow> bool \<Rightarrow> cell \<Rightarrow> ustr \<Rightarrow> cell act" where
  "del_prop E strict c name =
     thenA (thenA (cell_val c) (ToObject E)) (\<lambda>a.
       thenA (liftH (\<lambda>H. Some (deleteStr H a name strict))) (\<lambda>b.
         returnA (CVal (VBool (strict \<or> b)))))"

definition del_elem :: "venv \<Rightarrow> bool \<Rightarrow> cell \<Rightarrow> cell \<Rightarrow> cell act" where
  "del_elem E strict c k =
     thenA (thenA (cell_val c) (ToObject E)) (\<lambda>a. thenA (thenA (cell_val k) (toPropertyKey E)) (\<lambda>k.
       thenA (liftH (\<lambda>H. object_delete (x_env E) H a k strict)) (\<lambda>b.
         returnA (CVal (VBool (strict \<or> b))))))"

text \<open>Names, looked up in the scopes from the inside out, then in the global object.\<close>

definition load_name :: "venv \<Rightarrow> ustr \<Rightarrow> cell act" where
  "load_name E name =
     thenA (find_name_all E name) (\<lambda>r. case r of
         Some (_, v) \<Rightarrow> returnA v
       | None \<Rightarrow> thenA (global_value E name) (\<lambda>v. case v of
             Some v \<Rightarrow> returnA (CVal v) | None \<Rightarrow> raise (PErr ReferenceErr)))"

definition load_name_typeof :: "venv \<Rightarrow> ustr \<Rightarrow> cell act" where
  "load_name_typeof E name =
     thenA (find_name_all E name) (\<lambda>r. case r of
         Some (_, v) \<Rightarrow> returnA v
       | None \<Rightarrow> thenA (global_value E name) (\<lambda>v.
           returnA (case v of Some v \<Rightarrow> CVal v | None \<Rightarrow> CUnresolved name)))"

definition resolve_name :: "venv \<Rightarrow> bool \<Rightarrow> ustr \<Rightarrow> ref act" where
  "resolve_name E strict name =
     thenA (find_ref_all E name strict) (\<lambda>r. case r of
         Some r \<Rightarrow> returnA r
       | None \<Rightarrow>
           if strict then
             thenA (liftB (\<lambda>H. hasPropertyStr (x_fuel E) H (x_global E) name)) (\<lambda>has.
               returnA (if has then ObjStrRef (x_global E) name None True True else UnresolvedRef name))
           else returnA (ObjStrRef (x_global E) name None False True))"

definition delete_name :: "venv \<Rightarrow> ustr \<Rightarrow> cell act" where
  "delete_name E name =
     thenA (\<lambda>s. delete_name_in E name (length (v_stashes s)) (v_stash s) s) (\<lambda>r.
       thenA (case r of Some b \<Rightarrow> returnA b | None \<Rightarrow> delete_global E name) (\<lambda>b.
         returnA (CVal (VBool b))))"

section \<open>The evaluator\<close>

definition apply_bin :: "(jsval \<Rightarrow> jsval \<Rightarrow> go_error + jsval) \<Rightarrow> cell \<Rightarrow> cell \<Rightarrow> cell act" where
  "apply_bin f x y =
     thenA (cell_val x) (\<lambda>x. thenA (cell_val y) (\<lambda>y. thenA (liftR (f x y)) (\<lambda>v. returnA (CVal v))))"

definition apply_un :: "(jsval \<Rightarrow> go_error + jsval) \<Rightarrow> cell \<Rightarrow> cell act" where
  "apply_un f x = thenA (cell_val x) (\<lambda>x. thenA (liftR (f x)) (\<lambda>v. returnA (CVal v)))"

text \<open>\<open>instanceof\<close> and \<open>in\<close>.\<close>

definition instance_test :: "ienv \<Rightarrow> cell \<Rightarrow> cell \<Rightarrow> cell act" where
  "instance_test I x y =
     thenA (cell_val x) (\<lambda>left. thenA (thenA (cell_val y) toObject) (\<lambda>right.
       thenA (liftH (\<lambda>H. instanceOfOperator (x_env (i_env I)) (x_fuel (i_env I)) (i_hasInstance I)
           (i_hasInst I) H left right)) (\<lambda>b. returnA (CVal (VBool b)))))"

definition in_test :: "venv \<Rightarrow> cell \<Rightarrow> cell \<Rightarrow> cell act" where
  "in_test E x y =
     thenA (cell_val x) (\<lambda>left. thenA (thenA (cell_val y) toObject) (\<lambda>right.
       thenA (liftB (\<lambda>H. object_hasProperty (x_env E) (x_fuel E) H right left)) (\<lambda>b.
         returnA (CVal (VBool b)))))"

definition type_name :: "venv \<Rightarrow> cell \<Rightarrow> cell act" where
  "type_name E c =
     (case c of
        CNil \<Rightarrow> raise (PErr TypeErr)
      | CUnresolved _ \<Rightarrow> returnA (CVal (VString (u ''undefined'')))
      | CMember _ \<Rightarrow> raise (PErr TypeErr)
      | CVal v \<Rightarrow> returnA (CVal (VString (case v of
            VUndefined \<Rightarrow> u ''undefined'' | VNull \<Rightarrow> u ''object''
          | VObject a \<Rightarrow> if e_callable (x_env E) a then u ''function'' else u ''object''
          | VBool _ \<Rightarrow> u ''boolean'' | VString _ \<Rightarrow> u ''string'' | VInt _ \<Rightarrow> u ''number''
          | VFloat _ \<Rightarrow> u ''number'' | VBigInt _ \<Rightarrow> u ''bigint'' | VSymbol _ \<Rightarrow> u ''symbol''))))"

text \<open>Whether the value of the left operand is the result of a logical operator.\<close>

fun decides :: "token \<Rightarrow> jsval \<Rightarrow> bool" where
  "decides T_LOGICAL_AND v = (\<not> ToBoolean v)"
| "decides T_LOGICAL_OR v = ToBoolean v"
| "decides T_COALESCE v = (v \<noteq> VNull \<and> v \<noteq> VUndefined)"
| "decides _ v = False"

definition short_circuit :: "token \<Rightarrow> cell \<Rightarrow> bool act" where
  "short_circuit t c =
     (if t = T_COALESCE then returnA (\<not> is_nullish c) else thenA (cell_val c) (\<lambda>v. returnA (decides t v)))"

definition is_logical :: "token \<Rightarrow> bool" where
  "is_logical t \<longleftrightarrow> t = T_LOGICAL_AND \<or> t = T_LOGICAL_OR \<or> t = T_COALESCE"

definition eval_binary :: "ienv \<Rightarrow> token \<Rightarrow> cell act \<Rightarrow> cell act \<Rightarrow> cell act" where
  "eval_binary I t l r =
     (if is_logical t then
        thenA l (\<lambda>x. thenA (short_circuit t x) (\<lambda>d. if d then returnA x else r))
      else thenA l (\<lambda>x. thenA r (\<lambda>y. case binary_instr t of
          Some (i_bin b) \<Rightarrow> apply_bin (bop_fun I b) x y
        | Some i_instanceof \<Rightarrow> instance_test I x y
        | Some i_in \<Rightarrow> in_test (i_env I) x y
        | _ \<Rightarrow> crash)))"

text \<open>A place that can be read and written; its operands have been evaluated.\<close>

datatype lref = L_ref ref | L_prop cell ustr | L_elem cell cell

fun read_lref :: "venv \<Rightarrow> lref \<Rightarrow> cell act" where
  "read_lref E (L_ref r) = thenA (ref_get E r) (\<lambda>(_, v). returnA (nilSafe v))"
| "read_lref E (L_prop c name) = get_prop E c name"
| "read_lref E (L_elem c k) = get_elem E c k"

text \<open>The result of a write is the value as it was written.\<close>

fun write_lref :: "venv \<Rightarrow> bool \<Rightarrow> lref \<Rightarrow> cell \<Rightarrow> cell act" where
  "write_lref E strict (L_ref r) x = seqA (ref_set E r x) (returnA x)"
| "write_lref E strict (L_prop c name) x = put_prop E strict c name x"
| "write_lref E strict (L_elem c k) x = put_elem E strict c k x"

text \<open>The reference that a logical assignment makes of it: the base is converted at once.\<close>

fun ref_of_lref :: "venv \<Rightarrow> bool \<Rightarrow> lref \<Rightarrow> ref act" where
  "ref_of_lref E strict (L_ref r) = returnA r"
| "ref_of_lref E strict (L_prop c name) =
     thenA (thenA (cell_val c) (ToObject E)) (\<lambda>a. returnA (ObjStrRef a name None strict False))"
| "ref_of_lref E strict (L_elem c k) =
     thenA (thenA (cell_val c) (ToObject E)) (\<lambda>a. thenA (cell_val k) (\<lambda>k. returnA (ObjRef a k None strict False)))"

text \<open>
  Update in place: the old value, converted first, gives the new one; a postfix operator results
  in the old.
\<close>

definition update_lref :: "venv \<Rightarrow> bool \<Rightarrow> lref act \<Rightarrow> (cell \<Rightarrow> cell act) \<Rightarrow> (cell \<Rightarrow> cell act) \<Rightarrow> bool \<Rightarrow> cell act" where
  "update_lref E strict target prepare body postfix =
     thenA target (\<lambda>t. thenA (thenA (read_lref E t) prepare) (\<lambda>old. thenA (body old) (\<lambda>new.
       thenA (write_lref E strict t new) (\<lambda>w. returnA (if postfix then old else w)))))"

definition assign_lref :: "venv \<Rightarrow> bool \<Rightarrow> lref act \<Rightarrow> cell act \<Rightarrow> cell act" where
  "assign_lref E strict target value = thenA target (\<lambda>t. thenA value (write_lref E strict t))"

definition logical_lref :: "venv \<Rightarrow> bool \<Rightarrow> token \<Rightarrow> lref act \<Rightarrow> cell act \<Rightarrow> cell act" where
  "logical_lref E strict t target value =
     thenA (thenA target (ref_of_lref E strict)) (\<lambda>r. thenA (ref_get E r) (\<lambda>(r, old).
       thenA (short_circuit t (nilSafe old)) (\<lambda>d.
         if d then returnA (nilSafe old)
         else thenA value (\<lambda>v. seqA (ref_set E r v) (returnA v)))))"

text \<open>
  The meaning of an expression: its value, the operand of \<open>typeof\<close>, the place it denotes if it
  can be assigned to, and its deletion. \<open>m_effect\<close> is what is done when the value is not wanted:
  the same, except that \<open>++\<close> and \<open>--\<close> do not convert the old value first.
\<close>

record meaning =
  m_value :: "cell act"
  m_effect :: "cell act"
  m_typeof :: "cell act"
  m_target :: "lref act"
  m_delete :: "cell act"

definition plain :: "cell act \<Rightarrow> meaning" where
  "plain ev = \<lparr>m_value = ev, m_effect = ev, m_typeof = ev, m_target = crash, m_delete = crash\<rparr>"

definition eval_assign :: "ienv \<Rightarrow> bool \<Rightarrow> token \<Rightarrow> meaning \<Rightarrow> meaning \<Rightarrow> cell act" where
  "eval_assign I strict t l r =
     (case assign_op t of
        Some b \<Rightarrow> update_lref (i_env I) strict (m_target l) returnA
            (\<lambda>x. thenA (m_value r) (apply_bin (bop_fun I b) x)) False
      | None \<Rightarrow>
          if t = T_ASSIGN then assign_lref (i_env I) strict (m_target l) (m_value r)
          else logical_lref (i_env I) strict t (m_target l) (m_value r))"

definition to_number :: "ienv \<Rightarrow> bool \<Rightarrow> cell \<Rightarrow> cell act" where
  "to_number I keep = (if keep then apply_un (uop_fun I U_toNumber) else returnA)"

definition eval_unary :: "ienv \<Rightarrow> bool \<Rightarrow> bool \<Rightarrow> token \<Rightarrow> meaning \<Rightarrow> bool \<Rightarrow> cell act" where
  "eval_unary I strict keep t e postfix =
     (if t = T_NOT then thenA (m_value e) (apply_un (uop_fun I U_not))
      else if t = T_BITWISE_NOT then thenA (m_value e) (apply_un (uop_fun I U_bnot))
      else if t = T_MINUS then thenA (m_value e) (apply_un (uop_fun I U_neg))
      else if t = T_PLUS then thenA (m_value e) (apply_un (uop_fun I U_plus))
      else if t = T_TYPEOF then thenA (m_typeof e) (type_name (i_env I))
      else if t = T_VOID then thenA (m_effect e) (\<lambda>_. returnA (CVal VUndefined))
      else if t = T_DELETE then m_delete e
      else if t = T_INCREMENT then
        update_lref (i_env I) strict (m_target e) (to_number I keep) (apply_un (uop_fun I U_inc)) postfix
      else if t = T_DECREMENT then
        update_lref (i_env I) strict (m_target e) (to_number I keep) (apply_un (uop_fun I U_dec)) postfix
      else crash)"

fun eval_sequence :: "(meaning \<Rightarrow> cell act) \<Rightarrow> meaning list \<Rightarrow> cell act" where
  "eval_sequence last_value [] = crash"
| "eval_sequence last_value [e] = last_value e"
| "eval_sequence last_value (e # f # es) = thenA (m_effect e) (\<lambda>_. eval_sequence last_value (f # es))"

definition eval_conditional :: "cell act \<Rightarrow> cell act \<Rightarrow> cell act \<Rightarrow> cell act" where
  "eval_conditional t e f =
     thenA t (\<lambda>c. thenA (cell_val c) (\<lambda>v. if ToBoolean v then e else f))"

definition literal_value :: "numlit \<Rightarrow> jsval" where
  "literal_value v = (case v of NumInt i \<Rightarrow> intToValue i | NumFloat f \<Rightarrow> floatToValue f | NumBig i \<Rightarrow> VBigInt i)"

text \<open>The kinds of expression that are left out have no meaning here; \<open>supported\<close> excludes them.\<close>

primrec meaning_of :: "ienv \<Rightarrow> bool \<Rightarrow> expr \<Rightarrow> meaning" where
  "meaning_of I strict (NumberLiteral literal v) = plain (returnA (CVal (literal_value v)))"
| "meaning_of I strict (StringLiteral s) = plain (returnA (CVal (VString s)))"
| "meaning_of I strict (BooleanLiteral b) = plain (returnA (CVal (VBool b)))"
| "meaning_of I strict NullLiteral = plain (returnA (CVal VNull))"
| "meaning_of I strict ThisExpression = plain (returnA (CVal (VObject (x_global (i_env I)))))"
| "meaning_of I strict (Identifier name) =
     \<lparr>m_value = load_name (i_env I) name, m_effect = load_name (i_env I) name, m_typeof = load_name_typeof (i_env I) name,
      m_target = thenA (resolve_name (i_env I) strict name) (\<lambda>r. returnA (L_ref r)),
      m_delete = delete_name (i_env I) name\<rparr>"
| "meaning_of I strict (DotExpression e name) =
     (let ev = m_value (meaning_of I strict e); val = thenA ev (\<lambda>c. get_prop (i_env I) c name) in
      \<lparr>m_value = val, m_effect = val, m_typeof = val, m_target = thenA ev (\<lambda>c. returnA (L_prop c name)),
       m_delete = thenA ev (\<lambda>c. del_prop (i_env I) strict c name)\<rparr>)"
| "meaning_of I strict (BracketExpression e k) =
     (let ev = m_value (meaning_of I strict e); kv = m_value (meaning_of I strict k);
          val = thenA ev (\<lambda>c. thenA kv (get_elem (i_env I) c)) in
      \<lparr>m_value = val, m_effect = val, m_typeof = val, m_target = thenA ev (\<lambda>c. thenA kv (\<lambda>k. returnA (L_elem c k))),
       m_delete = thenA ev (\<lambda>c. thenA kv (del_elem (i_env I) strict c))\<rparr>)"
| "meaning_of I strict (BinaryExpression t l r) =
     plain (eval_binary I t (m_value (meaning_of I strict l)) (m_value (meaning_of I strict r)))"
| "meaning_of I strict (UnaryExpression t e postfix) =
     (plain (eval_unary I strict True t (meaning_of I strict e) postfix))
       \<lparr>m_effect := eval_unary I strict False t (meaning_of I strict e) postfix\<rparr>"
| "meaning_of I strict (ConditionalExpression t e f) =
     (let t' = m_value (meaning_of I strict t); e' = meaning_of I strict e; f' = meaning_of I strict f in
      (plain (eval_conditional t' (m_value e') (m_value f')))
        \<lparr>m_effect := eval_conditional t' (m_effect e') (m_effect f')\<rparr>)"
| "meaning_of I strict (AssignExpression t l r) =
     plain (eval_assign I strict t (meaning_of I strict l) (meaning_of I strict r))"
| "meaning_of I strict (SequenceExpression es) =
     (plain (eval_sequence m_value (map (meaning_of I strict) es)))
       \<lparr>m_effect := eval_sequence m_effect (map (meaning_of I strict) es)\<rparr>"
| "meaning_of I strict (TemplateLiteral tag elements es) = plain crash"
| "meaning_of I strict (SuperDotExpression name) = plain crash"
| "meaning_of I strict (SuperBracketExpression e) = plain crash"
| "meaning_of I strict SuperExpression = plain crash"
| "meaning_of I strict (MetaProperty m p) = plain crash"
| "meaning_of I strict (CallExpression e args) = plain crash"
| "meaning_of I strict (NewExpression e args) = plain crash"
| "meaning_of I strict (ArrayLiteral es) = plain crash"
| "meaning_of I strict (ObjectLiteral ps) = plain crash"
| "meaning_of I strict (OptionalChain e) = plain crash"
| "meaning_of I strict (Optional e) = plain crash"
| "meaning_of I strict (AwaitExpression e) = plain crash"
| "meaning_of I strict (YieldExpression e d) = plain crash"

definition eval_expr :: "ienv \<Rightarrow> bool \<Rightarrow> expr \<Rightarrow> cell act" where
  "eval_expr I strict e = m_value (meaning_of I strict e)"

definition eval_effect :: "ienv \<Rightarrow> bool \<Rightarrow> expr \<Rightarrow> cell act" where
  "eval_effect I strict e = m_effect (meaning_of I strict e)"

end
