(* ===== verification/Instruction_Code.thy ===== *)
theory Instruction_Code
  imports Expr_Meaning
begin

text \<open>
  What the single instructions do in the terms of \<open>Expr_Meaning\<close>: for each instruction of the
  expressions of \<open>Compile_Correct\<close> one lemma that the instruction, run anywhere in a program,
  implements the action of the reference evaluator.
\<close>

section \<open>What the instructions do\<close>

lemmas exec_split = prod.splits sum.splits option.splits

lemma pure_strict_write_str [pure]: "pure_act (strict_write_str E base name v)"
  unfolding strict_write_str_def by (intro pure)

lemma framed_eq [simp]: "\<exists>junk'. framed st junk pc p refs s = framed st junk' pc p refs s"
  by blast

lemmas pure_eqs =
  pure_act_eq [OF pure_strict_write_str]
  pure_act_eq [OF pure_cell_val] pure_act_eq [OF pure_baseObject] pure_act_eq [OF pure_obj_get_str]
  pure_act_eq [OF pure_obj_get] pure_act_eq [OF pure_toPropertyKey] pure_act_eq [OF pure_ToObject]
  pure_act_eq [OF pure_toObject] pure_act_eq [OF pure_obj_write] pure_act_eq [OF pure_obj_write_str]
  pure_act_eq [OF pure_strict_write] pure_act_eq [OF pure_liftH] pure_act_eq [OF pure_liftB]
  pure_act_eq [OF pure_liftR] pure_act_eq [OF pure_global_value]

lemmas exec_simps = Let_def thenA_def seqA_def pure_eqs raised_framed top_val_framed with_base_def set_done_def

lemma instr_getProp:
  "implements I [i_prop P_getProp n] (zs @ [c]) rs (pushv (get_prop (i_env I) c n) zs rs)"
  unfolding pushv_def
  by (rule instr_below [where g = "\<lambda>y. [y]"])
    (auto simp: exec_simps getProp_exec_def get_prop_def split: exec_split)

lemma instr_getElem:
  "implements I [i_elem E_getElem] (zs @ [c, k]) rs (pushv (get_elem (i_env I) c k) zs rs)"
  unfolding pushv_def
  by (rule instr_below [where g = "\<lambda>y. [y]"])
    (auto simp: exec_simps getElem_exec_def get_elem_def split: exec_split)
text \<open>The four stores of a property, and those of an element; \<open>P\<close> stands for those that pop the value.\<close>

definition store_instr :: "bool \<Rightarrow> bool \<Rightarrow> ustr \<Rightarrow> instr" where
  "store_instr strict keep n =
     i_prop (if strict then if keep then P_setPropStrict else P_setPropStrictP
             else if keep then P_setProp else P_setPropP) n"

definition store_elem_instr :: "bool \<Rightarrow> bool \<Rightarrow> instr" where
  "store_elem_instr strict keep =
     i_elem (if strict then if keep then E_setElemStrict else E_setElemStrictP
             else if keep then E_setElem else E_setElemP)"

lemmas store_defs = set_prop_def setProp_exec_def setPropP_exec_def
  set_prop_strict_def [folded strict_write_str_def]
  setPropStrict_exec_def setPropStrictP_exec_def put_prop_def store_instr_def

lemmas store_elem_defs = set_elem_def setElem_exec_def setElemP_exec_def set_elem_strict_def
  setElemStrict_exec_def setElemStrictP_exec_def put_elem_def store_elem_instr_def

lemma instr_setProp:
  "implements I [store_instr strict True n] (zs @ [c, x]) rs (pushv (put_prop (i_env I) strict c n x) zs rs)"
  unfolding pushv_def
  by (rule instr_below [where g = "\<lambda>y. [y]"]; cases strict)
    (auto simp: exec_simps store_defs split: exec_split)

lemma instr_setPropP:
  "implements I [store_instr strict False n] (zs @ [c, x]) rs
     (thenA (put_prop (i_env I) strict c n x) (\<lambda>_. returnA (zs, rs)))"
  by (rule instr_below [where g = "\<lambda>y. []", simplified]; cases strict)
    (auto simp: exec_simps store_defs split: exec_split)

lemma instr_setElem:
  "implements I [store_elem_instr strict True] (zs @ [c, k, x]) rs
     (pushv (put_elem (i_env I) strict c k x) zs rs)"
  unfolding pushv_def
  by (rule instr_below [where g = "\<lambda>y. [y]"]; cases strict)
    (auto simp: exec_simps store_elem_defs split: exec_split)

lemma instr_setElemP:
  "implements I [store_elem_instr strict False] (zs @ [c, k, x]) rs
     (thenA (put_elem (i_env I) strict c k x) (\<lambda>_. returnA (zs, rs)))"
  by (rule instr_below [where g = "\<lambda>y. []", simplified]; cases strict)
    (auto simp: exec_simps store_elem_defs split: exec_split)

lemma instr_deleteProp:
  "implements I [i_prop (if strict then P_deletePropStrict else P_deleteProp) n] (zs @ [c]) rs
     (pushv (del_prop (i_env I) strict c n) zs rs)"
  unfolding pushv_def
  by (rule instr_below [where g = "\<lambda>y. [y]"]; cases strict)
    (auto simp: exec_simps deleteProp_exec_def deletePropStrict_exec_def del_prop_def split: exec_split)

lemma instr_deleteElem:
  "implements I [i_elem (if strict then E_deleteElemStrict else E_deleteElem)] (zs @ [c, k]) rs
     (pushv (del_elem (i_env I) strict c k) zs rs)"
  unfolding pushv_def
  by (rule instr_below [where g = "\<lambda>y. [y]"]; cases strict)
    (auto simp: exec_simps deleteElem_exec_def deleteElemStrict_exec_def del_elem_def split: exec_split)

lemma instr_bin:
  "implements I [i_bin b] (zs @ [x, y]) rs (pushv (apply_bin (bop_fun I b) x y) zs rs)"
  unfolding pushv_def
  by (rule instr_below [where g = "\<lambda>y. [y]"])
    (auto simp: exec_simps binop_def apply_bin_def split: exec_split)

lemma instr_un:
  "map_code I [i_un b] (apply_un (uop_fun I b))"
  unfolding map_code_def pushv_def
  by (intro allI, rule instr_below [where g = "\<lambda>y. [y]"])
    (auto simp: exec_simps unop_def apply_un_def split: exec_split)

lemma instr_instanceof:
  "implements I [i_instanceof] (zs @ [x, y]) rs (pushv (instance_test I x y) zs rs)"
  unfolding pushv_def
  by (rule instr_below [where g = "\<lambda>y. [y]"])
    (auto simp: exec_simps instanceof_exec_def instance_test_def split: exec_split)

lemma instr_in:
  "implements I [i_in] (zs @ [x, y]) rs (pushv (in_test (i_env I) x y) zs rs)"
  unfolding pushv_def
  by (rule instr_below [where g = "\<lambda>y. [y]"])
    (auto simp: exec_simps in_exec_def in_test_def split: exec_split)

lemma instr_typeof:
  "map_code I [i_typeof] (type_name (i_env I))"
  unfolding map_code_def pushv_def
  by (intro allI, rule instr_below [where g = "\<lambda>y. [y]"])
    (auto simp: exec_simps typeof_exec_def type_name_def split: exec_split cell.splits jsval.splits)

lemma instr_value0:
  assumes "\<And>st junk pc p refs s. let r = exec I i (framed st junk pc p refs s) in
       case ev s of
         (s', Inl q) \<Rightarrow> raised I r q st p refs s'
       | (s', Inr y) \<Rightarrow> (\<exists>junk'. r = (framed (st @ [y]) junk' (pc + 1) p refs s', Inr ()))"
  shows "value_code I [i] ev"
proof -
  note b = instr_below [where xs = "[]" and g = "\<lambda>y. [y]" and ev = ev and I = I and i = i, unfolded append_Nil2]
  show ?thesis unfolding value_code_def pushv_def using b [OF assms] by blast
qed

lemma instr_push:
  assumes "exec I i = thenA ev (\<lambda>c. seqA (push c) next_pc)" "pure_act ev"
  shows "value_code I [i] ev"
  by (rule instr_value0) (auto simp: exec_simps assms(1) pure_act_eq [OF assms(2)] split: exec_split)

lemma instr_loads:
  "value_code I [i_loadVal v] (returnA (CVal v))"
  "value_code I [i_loadUndef] (returnA (CVal VUndefined))"
  "value_code I [i_loadGlobalObject] (returnA (CVal (VObject (x_global (i_env I)))))"
  by (rule instr_value0; auto simp: exec_simps loadVal_exec_def loadUndef_exec_def loadGlobalObject_exec_def)+

lemma pure_find_all [pure]:
  "pure_act (find_name_all E name)" "pure_act (find_ref_all E name strict)"
  by (simp_all add: pure_act_def find_name_all_def find_ref_all_def pure_act_eq [OF pure_find_name]
      pure_act_eq [OF pure_find_ref])

lemmas pure_find_eqs = pure_act_eq [OF pure_find_all(1)] pure_act_eq [OF pure_find_all(2)]

lemma instr_loadDynamic:
  "value_code I [i_name N_loadDynamic name] (load_name (i_env I) name)"
  by (rule instr_value0)
    (auto simp: exec_simps pure_find_eqs loadDynamic_exec_def load_name_def split: exec_split)

lemma instr_loadDynamicRef:
  "value_code I [i_name N_loadDynamicRef name] (load_name_typeof (i_env I) name)"
  by (rule instr_value0)
    (auto simp: exec_simps pure_find_eqs loadDynamicRef_exec_def load_name_typeof_def split: exec_split)

lemma pure_delete_global [pure]: "pure_act (delete_global E name)"
  unfolding delete_global_def by (intro pure)

lemma pure_delete_name_in [pure]: "pure_act (delete_name_in E name n a)"
proof (induction n arbitrary: a)
  case 0
  show ?case by (cases a) (simp_all add: pure del: act_simps)
next
  case (Suc n)
  show ?case
  proof (cases a)
    case (Some b)
    show ?thesis unfolding Some delete_name_in.simps by (intro pure Suc)
  qed (simp add: pure del: act_simps)
qed

lemma instr_deleteVar:
  "value_code I [i_name N_deleteVar name] (delete_name (i_env I) name)"
proof (rule instr_push)
  have "pure_act (\<lambda>s. delete_name_in E name (length (v_stashes s)) (v_stash s) s)" for E
    by (simp add: pure_act_def pure_act_eq [OF pure_delete_name_in])
  then show "pure_act (delete_name (i_env I) name)" unfolding delete_name_def by (intro pure)
qed (simp only: exec.simps exec_name.simps deleteVar_exec_def delete_name_def thenA_assoc thenA_returnA_bind)
section \<open>References\<close>

text \<open>The references of the code at hand live in scopes and objects, not on the value stack.\<close>

definition off_stack :: "ref \<Rightarrow> bool" where
  "off_stack r \<longleftrightarrow> (case r of
     StashRef _ w _ \<Rightarrow> w \<noteq> OnStack | ThisRef w _ \<Rightarrow> w \<noteq> OnStack | StashRefLex _ w _ \<Rightarrow> w \<noteq> OnStack
   | StashRefConst _ w _ _ \<Rightarrow> w \<noteq> OnStack | _ \<Rightarrow> True)"

lemma pure_load_cell: "w \<noteq> OnStack \<Longrightarrow> pure_act (load_cell w i)"
  unfolding load_cell_def by (cases w) (simp_all add: pure)

lemma pure_store_cell: "w \<noteq> OnStack \<Longrightarrow> pure_act (store_cell w i v)"
  unfolding store_cell_def by (cases w) (simp_all add: pure)

lemma pure_getKey [pure]: "pure_act (getKey E r)"
  unfolding getKey_def by (cases r) (auto simp del: act_simps intro!: pure)

lemma pure_ref_get: "off_stack r \<Longrightarrow> pure_act (ref_get E r)"
  unfolding ref_get_def by (cases r) (auto simp: off_stack_def simp del: act_simps intro!: pure pure_load_cell)

lemma pure_ref_set: "off_stack r \<Longrightarrow> pure_act (ref_set E r v)"
  unfolding ref_set_def
  by (cases r) (auto simp: off_stack_def simp del: act_simps intro!: pure pure_load_cell pure_store_cell)

lemma getRefByName_off_stack:
  "getRefByName E a name strict s = (s', Inr (Some r)) \<Longrightarrow> off_stack r"
  unfolding getRefByName_def
  by (auto simp: thenA_def off_stack_def Let_def split: exec_split if_splits)

lemma find_ref_off_stack:
  "find_ref E name strict n a s = (s', Inr (Some r)) \<Longrightarrow> off_stack r"
proof (induction n arbitrary: a s)
  case 0
  then show ?case by (cases a) simp_all
next
  case (Suc n)
  then show ?case
    by (cases a) (auto simp: thenA_def dest: getRefByName_off_stack split: exec_split)
qed

lemma resolve_off_stack:
  "resolve_name E strict name s = (s', Inr r) \<Longrightarrow> off_stack r"
  unfolding resolve_name_def find_ref_all_def
  by (auto simp: thenA_def off_stack_def split: exec_split if_splits dest!: find_ref_off_stack)

text \<open>Reading through a reference other than \<open>objRef\<close> leaves it as it is, one off the stack there.\<close>

definition is_objRef :: "ref \<Rightarrow> bool" where
  "is_objRef r \<longleftrightarrow> (case r of ObjRef _ _ _ _ _ \<Rightarrow> True | _ \<Rightarrow> False)"

lemma ref_get_same:
  "ref_get E r s = (s', Inr (r', v)) \<Longrightarrow> \<not> is_objRef r \<Longrightarrow> r' = r"
  unfolding ref_get_def is_objRef_def
  by (cases r) (auto simp: thenA_def split: exec_split if_splits)

lemma ref_get_off_stack:
  "ref_get E r s = (s', Inr (r', v)) \<Longrightarrow> off_stack r \<Longrightarrow> off_stack r'"
proof (cases "is_objRef r")
  case True
  assume "ref_get E r s = (s', Inr (r', v))"
  then show "off_stack r'" using True unfolding ref_get_def is_objRef_def getKey_def
    by (cases r) (auto simp: thenA_def off_stack_def split: exec_split if_splits)
qed (metis ref_get_same)

lemma resolve_not_objRef:
  "resolve_name E strict name s = (s', Inr r) \<Longrightarrow> \<not> is_objRef r"
proof -
  have g: "getRefByName E a name strict s = (s', Inr (Some r)) \<Longrightarrow> \<not> is_objRef r" for a s s'
    unfolding getRefByName_def
    by (auto simp: thenA_def is_objRef_def Let_def split: exec_split if_splits)
  have "find_ref E name strict n a s = (s', Inr (Some r)) \<Longrightarrow> \<not> is_objRef r" for n a s
  proof (induction n arbitrary: a s)
    case 0
    then show ?case by (cases a) simp_all
  next
    case (Suc n)
    then show ?case by (cases a) (auto simp: thenA_def dest: g split: exec_split)
  qed
  then show "resolve_name E strict name s = (s', Inr r) \<Longrightarrow> \<not> is_objRef r"
    unfolding resolve_name_def find_ref_all_def
    by (auto simp: thenA_def is_objRef_def split: exec_split if_splits)
qed

lemma pure_resolve_name [pure]: "pure_act (resolve_name E strict name)"
  unfolding resolve_name_def by (intro pure)

lemma instr_ref:
  assumes "exec I i = thenA ev (\<lambda>r. seqA (push_ref r) next_pc)" "pure_act ev"
  shows "ref_code I [i] ev"
  unfolding ref_code_def
proof (intro allI, rule implements_instr, unfold instr_like_def Let_def, intro allI)
  fix xs rs st junk pc p refs s
  show "case thenA ev (\<lambda>r. returnA (xs, rs @ [r])) s of
       (s', Inl q) \<Rightarrow> raised I (exec I i (framed (st @ xs) junk pc p (refs @ rs) s)) q st p refs s'
     | (s', Inr (ys, rs')) \<Rightarrow> \<exists>junk'. exec I i (framed (st @ xs) junk pc p (refs @ rs) s)
         = (framed (st @ ys) junk' (pc + 1) p (refs @ rs') s', Inr ())"
    using raisedI(1) [of I st xs junk pc p refs rs]
    by (auto simp: thenA_def seqA_def assms(1) pure_act_eq [OF assms(2)] framed_refs(1) [of _ _ _ _ _ "refs @ rs"]
        split: exec_split)
qed

lemma instr_resolveVar1:
  "ref_code I [i_name (if strict then N_resolveVar1Strict else N_resolveVar1) name] (resolve_name (i_env I) strict name)"
proof (rule instr_ref)
  show "exec I (i_name (if strict then N_resolveVar1Strict else N_resolveVar1) name)
    = thenA (resolve_name (i_env I) strict name) (\<lambda>r. seqA (push_ref r) next_pc)"
    by (rule ext) (auto simp: resolveVar1_exec_def resolveVar1Strict_exec_def resolve_name_def thenA_def
        split: exec_split)
qed (intro pure)
text \<open>Instructions that work on the reference on top of the reference stack.\<close>

lemma instr_below_refs:
  assumes "\<And>st junk pc p refs s. let r = exec I i (framed (st @ xs) junk pc p (refs @ rs) s) in
       case ev s of
         (s', Inl q) \<Rightarrow> raised I r q st p refs s'
       | (s', Inr y) \<Rightarrow> (\<exists>junk'. r = (framed (st @ g y) junk' (pc + 1) p (refs @ h y) s', Inr ()))"
  shows "implements I [i] (zs @ xs) (qs @ rs) (thenA ev (\<lambda>y. returnA (zs @ g y, qs @ h y)))"
proof (rule implements_instr, unfold instr_like_def Let_def, intro allI)
  fix st junk pc p refs s
  let ?r = "exec I i (framed (st @ zs @ xs) junk pc p (refs @ qs @ rs) s)"
  have a: "case ev s of (s', Inl q) \<Rightarrow> raised I ?r q (st @ zs) p (refs @ qs) s'
      | (s', Inr y) \<Rightarrow> (\<exists>junk'. ?r = (framed ((st @ zs) @ g y) junk' (pc + 1) p ((refs @ qs) @ h y) s', Inr ()))"
    using assms [of "st @ zs" junk pc p "refs @ qs" s] by (simp only: Let_def append_assoc)
  have w: "raised I r q (st @ zs) p (refs @ qs) s' \<Longrightarrow> raised I r q st p refs s'" for r q s'
    unfolding raised_def Let_def append_assoc by blast
  show "case thenA ev (\<lambda>y. returnA (zs @ g y, qs @ h y)) s of
        (s', Inl q) \<Rightarrow> raised I ?r q st p refs s'
      | (s', Inr (ys, rs')) \<Rightarrow> (\<exists>junk'. ?r = (framed (st @ ys) junk' (pc + 1) p (refs @ rs') s', Inr ()))"
    using a w by (auto simp: thenA_def split: prod.splits sum.splits)
qed

lemma raised_ref:
  "raised I (framed (st @ st') junk' pc'' p (refs @ refs') s', Inl q) q st p refs s'"
  "raised I (framed st junk' pc'' p (refs @ refs') s', Inl q) q st p refs s'"
  using raisedI(1) [of I st st' junk' pc'' p refs refs' s' q] raisedI(1) [of I st "[]" junk' pc'' p refs refs' s' q]
  by simp_all

lemma instr_getValue:
  assumes "off_stack r"
  shows "implements I [i_getValue] zs (qs @ [r])
    (thenA (ref_get (i_env I) r) (\<lambda>(r', v). returnA (zs @ [nilSafe v], qs @ [r'])))"
proof -
  have u: "updA (\<lambda>s. s\<lparr>v_refStack := butlast (v_refStack s) @ [r']\<rparr>) (framed st junk pc p (refs @ [r]) s)
      = (framed st junk pc p (refs @ [r']) s, Inr ())" for st junk pc p refs s r'
    by (simp add: framed_def)
  have "implements I [i_getValue] (zs @ []) (qs @ [r])
      (thenA (ref_get (i_env I) r) (\<lambda>y. returnA (zs @ [nilSafe (snd y)], qs @ [fst y])))"
    by (rule instr_below_refs [where g = "\<lambda>y. [nilSafe (snd y)]" and h = "\<lambda>y. [fst y]"])
      (auto simp: Let_def getValue_exec_def thenA_def seqA_def u pure_act_eq [OF pure_ref_get [OF assms]]
        raised_ref simp del: updA_def split: exec_split)
  then show ?thesis by (simp only: fst_conv snd_conv append_Nil2 case_prod_beta')
qed

lemma instr_putValue:
  assumes "off_stack r"
  shows "implements I [i_putValue] (zs @ [x]) (qs @ [r])
    (thenA (ref_set (i_env I) r x) (\<lambda>_. returnA (zs @ [x], qs)))"
proof -
  have "implements I [i_putValue] (zs @ [x]) (qs @ [r]) (thenA (ref_set (i_env I) r x)
      (\<lambda>y. returnA (zs @ [x], qs @ [])))"
    by (rule instr_below_refs [where g = "\<lambda>y. [x]" and h = "\<lambda>y. []"])
      (auto simp: exec_simps raised_ref putValue_exec_def pure_act_eq [OF pure_ref_set [OF assms]] split: exec_split)
  then show ?thesis by (simp only: fst_conv snd_conv append_Nil2)
qed

lemma instr_putValueP:
  assumes "off_stack r"
  shows "implements I [i_putValueP] (zs @ [x]) (qs @ [r])
    (thenA (ref_set (i_env I) r x) (\<lambda>_. returnA (zs, qs)))"
proof -
  have "implements I [i_putValueP] (zs @ [x]) (qs @ [r]) (thenA (ref_set (i_env I) r x)
      (\<lambda>y. returnA (zs @ [], qs @ [])))"
    by (rule instr_below_refs [where g = "\<lambda>y. []" and h = "\<lambda>y. []"])
      (auto simp: exec_simps raised_ref putValueP_exec_def pure_act_eq [OF pure_ref_set [OF assms]] split: exec_split)
  then show ?thesis by (simp only: fst_conv snd_conv append_Nil2)
qed

lemma instr_popRef: "implements I [i_popRef] zs (qs @ [r]) (returnA (zs, qs))"
proof (rule implements_instr, unfold instr_like_def Let_def, intro allI)
  fix st junk pc p refs s
  have "pop_ref (framed st junk pc p (refs @ qs @ [r]) s) = (framed st junk pc p (refs @ qs) s, Inr r)" for st
    using framed_refs(2) [of st junk pc p "refs @ qs" r s] by simp
  then show "case returnA (zs, qs) s of
      (s', Inl q) \<Rightarrow> raised I (exec I i_popRef (framed (st @ zs) junk pc p (refs @ qs @ [r]) s)) q st p refs s'
    | (s', Inr (ys, rs')) \<Rightarrow> \<exists>junk'. exec I i_popRef (framed (st @ zs) junk pc p (refs @ qs @ [r]) s)
        = (framed (st @ ys) junk' (pc + 1) p (refs @ rs') s', Inr ())"
    by (auto simp: popRef_exec_def thenA_def)
qed

lemma instr_getPropRef:
  "implements I [i_prop (if strict then P_getPropRefStrict else P_getPropRef) n] (zs @ [c]) qs
    (thenA (ref_of_lref (i_env I) strict (L_prop c n)) (\<lambda>r. returnA (zs, qs @ [r])))"
proof -
  have "implements I [i_prop (if strict then P_getPropRefStrict else P_getPropRef) n] (zs @ [c]) (qs @ []) (thenA (ref_of_lref (i_env I) strict (L_prop c n))
      (\<lambda>y. returnA (zs @ [], qs @ [y])))"
    by (rule instr_below_refs [where g = "\<lambda>y. []" and h = "\<lambda>y. [y]"]; cases strict)
      (auto simp: exec_simps raised_ref getPropRef_exec_def getPropRefStrict_exec_def prop_ref_def split: exec_split)
  then show ?thesis by (simp only: fst_conv snd_conv append_Nil2)
qed

lemma instr_getElemRef:
  "implements I [i_elem (if strict then E_getElemRefStrict else E_getElemRef)] (zs @ [c, k]) qs
    (thenA (ref_of_lref (i_env I) strict (L_elem c k)) (\<lambda>r. returnA (zs, qs @ [r])))"
proof -
  have "implements I [i_elem (if strict then E_getElemRefStrict else E_getElemRef)] (zs @ [c, k]) (qs @ []) (thenA (ref_of_lref (i_env I) strict (L_elem c k))
      (\<lambda>y. returnA (zs @ [], qs @ [y])))"
    by (rule instr_below_refs [where g = "\<lambda>y. []" and h = "\<lambda>y. [y]"]; cases strict)
      (auto simp: exec_simps raised_ref getElemRef_exec_def getElemRefStrict_exec_def elem_ref_def split: exec_split)
  then show ?thesis by (simp only: fst_conv snd_conv append_Nil2)
qed

section \<open>Moving values on the stack\<close>

lemma instr_pop: "implements I [i_pop] (zs @ [c]) qs (returnA (zs, qs))"
proof -
  have "implements I [i_pop] (zs @ [c]) qs (thenA (returnA ()) (\<lambda>y. returnA (zs @ [], qs)))"
    by (rule instr_below) (auto simp: Let_def pop_exec_def seqA_def thenA_def)
  then show ?thesis by (simp only: thenA_returnA_bind append_Nil2)
qed

lemma instr_dup: "implements I [i_dup] (zs @ [c]) qs (returnA (zs @ [c, c], qs))"
proof -
  have "implements I [i_dup] (zs @ [c]) qs (thenA (returnA ()) (\<lambda>y. returnA (zs @ [c, c], qs)))"
    by (rule instr_below) (auto simp: Let_def dup_exec_def seqA_def thenA_def)
  then show ?thesis by (simp only: thenA_returnA_bind)
qed

lemma instr_dupLast2: "implements I [i_dupLast 2] (zs @ [c, k]) qs (returnA (zs @ [c, k, c, k], qs))"
proof -
  have "\<exists>junk'. dupLast_exec 2 (framed (st @ [c, k]) junk pc p refs s)
      = (framed (st @ [c, k, c, k]) junk' (pc + 1) p refs s, Inr ())" for st junk pc p refs s
  proof (cases "length junk < 3")
    case True
    then show ?thesis
      by (intro exI [of _ "drop 2 (junk @ replicate (3 - length junk) CNil)"])
        (auto simp: dupLast_exec_def expand_def framed_def Let_def nat_add_distrib)
  next
    case False
    then show ?thesis
      by (intro exI [of _ "drop 2 junk"]) (auto simp: dupLast_exec_def expand_def framed_def Let_def nat_add_distrib)
  qed
  then have "implements I [i_dupLast 2] (zs @ [c, k]) qs (thenA (returnA ()) (\<lambda>y. returnA (zs @ [c, k, c, k], qs)))"
    by (intro instr_below) (simp add: Let_def)
  then show ?thesis by (simp only: thenA_returnA_bind)
qed

lemma instr_rdupN:
  assumes "d = length xs"
  shows "implements I [i_rdupN (Suc d)] (zs @ [c] @ xs @ [x]) qs (returnA (zs @ [x] @ xs @ [x], qs))"
proof -
  have "rdupN_exec (Suc d) (framed (st @ ([c] @ xs @ [x])) junk pc p refs s)
      = (framed (st @ ([x] @ xs @ [x])) junk (pc + 1) p refs s, Inr ())" for st junk pc p refs s
  proof -
    have t: "top 1 (framed (st @ c # xs @ [x]) junk pc p refs s) = (framed (st @ c # xs @ [x]) junk pc p refs s, Inr x)"
      using framed_nth [of 1 "c # xs @ [x]" st] by (simp add: nth_append)
    have "put_top (int (Suc (Suc d))) x (framed (st @ ([c] @ xs @ [x])) junk pc p refs s)
        = (framed (st @ ([x] @ xs @ [x])) junk pc p refs s, Inr ())"
      using framed_put [of "Suc (Suc d)" "[c] @ xs @ [x]" x st] assms by simp
    then show ?thesis by (simp add: rdupN_exec_def thenA_def t seqA_def)
  qed
  then have "implements I [i_rdupN (Suc d)] (zs @ ([c] @ xs @ [x])) qs (thenA (returnA ()) (\<lambda>y. returnA (zs @ ([x] @ xs @ [x]), qs)))"
    by (intro instr_below) (simp add: Let_def)
  then show ?thesis by (simp only: thenA_returnA_bind)
qed

end
