(* ===== verification/Compile_Correct.thy ===== *)
theory Compile_Correct
  imports Instruction_Code
begin

text \<open>
  The compiler of expressions is correct: the code of an expression leaves on the stack the value
  its meaning gives, with the same effects on objects and scopes, or raises the same
  exception. The proof goes by induction on the syntax, over the interface records of
  \<open>Compile_Expr\<close>; constants are the same whether they are folded or not.
\<close>

section \<open>Emitting code\<close>

text \<open>
  Code at the level of a script: names that are not bound in a function or a block are looked up
  at run time, so what is emitted does not depend on what has been compiled before.
\<close>

definition script_scope :: "bool \<Rightarrow> cst \<Rightarrow> bool" where
  "script_scope strict c \<longleftrightarrow>
     k_scope c < length (k_scopes c) \<and> sc_outer (scope_of c) = None \<and> \<not> sc_eval (scope_of c) \<and>
     map_of (sc_names (scope_of c)) thisBindingName = None \<and> sc_strict (scope_of c) = strict"

definition emits_code :: "bool \<Rightarrow> emitter \<Rightarrow> instr list \<Rightarrow> bool" where
  "emits_code strict f ins \<longleftrightarrow>
     (\<forall>c. script_scope strict c \<longrightarrow> f c = Inr (c\<lparr>k_code := k_code c @ ins\<rparr>))"

named_theorems emission "what the emitters of the compiler emit"

lemma script_scope_code [simp]: "script_scope strict (c\<lparr>k_code := x\<rparr>) = script_scope strict c"
  by (simp add: script_scope_def)

lemma emits_codeD: "emits_code strict f ins \<Longrightarrow> script_scope strict c \<Longrightarrow> f c = Inr (c\<lparr>k_code := k_code c @ ins\<rparr>)"
  by (simp add: emits_code_def)

lemma emits_emit [emission]: "emits_code strict (emit i) [i]"
  by (simp add: emits_code_def emit_def)

lemma emits_emits [emission]: "emits_code strict (emits ins) ins"
  by (simp add: emits_code_def emits_def)

lemma emits_skip [emission]: "emits_code strict skipE []"
  by (simp add: emits_code_def skipE_def)

lemma emits_seqE [emission]:
  "emits_code strict f a \<Longrightarrow> emits_code strict g b \<Longrightarrow> emits_code strict (seqE f g) (a @ b)"
  by (simp add: emits_code_def seqE_def)

lemma emits_whenE [emission]:
  "(b \<Longrightarrow> emits_code strict f a) \<Longrightarrow> emits_code strict (whenE b f) (if b then a else [])"
  by (simp add: whenE_def emits_skip)

lemma emits_by_strict [emission]: "emits_code strict (by_strict i j) [if strict then i else j]"
  by (simp add: emits_code_def by_strict_def emit_def script_scope_def)

lemma emits_pop_unless [emission]:
  "emits_code strict (emit_pop_unless putOnStack) (if putOnStack then [] else [i_pop])"
  by (simp add: emits_code_def emit_pop_unless_def whenE_def emit_def skipE_def)

lemma emits_seqEs1 [emission]: "emits_code strict f a \<Longrightarrow> emits_code strict (seqEs [f]) a"
  by simp

lemma emits_seqEs [emission]:
  "emits_code strict f a \<Longrightarrow> emits_code strict (seqEs (g # gs)) b \<Longrightarrow> emits_code strict (seqEs (f # g # gs)) (a @ b)"
  using emits_seqE by simp

lemma emits_literal [emission]: "emits_code strict (emitLiteralValue v) [i_loadVal v]"
  unfolding emitLiteralValue_def by (rule emits_emit)

lemma emits_jump_over [emission]:
  assumes "emits_code strict f a"
  shows "emits_code strict (jump_over j f) (j (int (length a) + 1) # a)"
  unfolding emits_code_def jump_over_def
  by (auto simp: seqE_def emit_def set_code_def emits_codeD [OF assms] add.commute)

lemma emits_with_binding [emission]:
  assumes "emits_code strict (f None False) a"
  shows "emits_code strict (with_binding name f) a"
  unfolding emits_code_def
proof (intro allI impI)
  fix c
  assume c: "script_scope strict c"
  then obtain n where "length (k_scopes c) = Suc n" by (cases "k_scopes c") (auto simp: script_scope_def)
  then have "lookupName name c = Inr (c, None, False)" using c by (simp add: lookupName_def script_scope_def)
  then show "with_binding name f c = Inr (c\<lparr>k_code := k_code c @ a\<rparr>)"
    using c assms by (simp add: with_binding_def emits_code_def)
qed

lemma emits_when_strict [emission]:
  "(strict \<Longrightarrow> emits_code strict f []) \<Longrightarrow> emits_code strict (when_strict f) []"
  by (auto simp: emits_code_def when_strict_def script_scope_def)

lemma emits_this [emission]: "emits_code strict emitLoadThis [i_loadGlobalObject]"
  unfolding emits_code_def
proof (intro allI impI)
  fix c
  assume c: "script_scope strict c"
  then obtain n where "length (k_scopes c) = Suc n" by (cases "k_scopes c") (auto simp: script_scope_def)
  moreover have "sc_outer (scope_of c) = None" "\<not> sc_eval (scope_of c)"
      "map_of (sc_names (scope_of c)) thisBindingName = None"
    using c by (simp_all add: script_scope_def)
  ultimately have "lookupThis c = (c, None, False)" unfolding lookupThis_def by (cases n) (simp_all add: Let_def)
  then show "emitLoadThis c = Inr (c\<lparr>k_code := k_code c @ [i_loadGlobalObject]\<rparr>)"
    by (simp add: emitLoadThis_def emit_def)
qed
section \<open>Constants\<close>

lemma vm_run_steps:
  "(vm_step I P ^^ k) s t \<Longrightarrow> halted P t \<Longrightarrow> k < n \<Longrightarrow> vm_run I P n s = Some (t, Inr ())"
proof (induction k arbitrary: s n)
  case 0
  then show ?case by (cases n) simp_all
next
  case (Suc k)
  obtain s' where s: "vm_step I P s s'" "(vm_step I P ^^ k) s' t" using Suc.prems(1) by (meson relpowp_Suc_D2)
  obtain m where m: "n = Suc m" using Suc.prems(3) by (cases n) auto
  show ?case using Suc.IH [OF s(2) Suc.prems(2), of m] Suc.prems(3) s(1) by (simp add: m vm_step_def)
qed

lemma pushTryFrame_simps [simp]:
  "v_heap (pushTryFrame E cp fp s) = v_heap s" "v_stack (pushTryFrame E cp fp s) = v_stack s"
  "v_sp (pushTryFrame E cp fp s) = v_sp s" "v_pc (pushTryFrame E cp fp s) = v_pc s"
  "v_prg (pushTryFrame E cp fp s) = v_prg s" "v_tryStack (pushTryFrame E cp fp s) \<noteq> []"
  by (simp_all add: pushTryFrame_def reserveTry_def)

definition const_vm_ok :: "cenv \<Rightarrow> bool" where
  "const_vm_ok K \<longleftrightarrow> 0 \<le> v_sp (e_vm K) \<and> v_sp (e_vm K) \<le> int (length (v_stack (e_vm K)))"

lemma eval_code_value:
  assumes ok: "const_vm_ok K" and v: "value_code (e_I K) ins (returnA (CVal v))"
  shows "eval_code K (pre @ ins) (length pre) = Inr (v_heap (e_vm K), Inr v)"
proof -
  let ?s = "pushTryFrame (i_env (e_I K)) tryPanicMarker (-1) ((e_vm K)\<lparr>v_prg := Some (e_prg K), v_pc := int (length pre)\<rparr>)"
  let ?P = "\<lambda>_::nat. pre @ ins"
  obtain st junk refs where s: "?s = framed st junk (int (length pre)) (e_prg K) refs ?s"
    using framed_self [of ?s "e_prg K"] ok by (auto simp: const_vm_ok_def)
  have "implements (e_I K) ins [] [] (returnA ([CVal v], []))"
    using v unfolding value_code_def pushv_returnA by (metis append_Nil)
  from implementsD [OF this, of ?P "e_prg K" "length pre" st junk refs ?s]
  have "runs_like (e_I K) ?P (length ins) ?s (int (length (pre @ ins))) st refs (?s, Inr ([CVal v], [])) (e_prg K)"
    by (simp add: code_at_def flip: s)
  then obtain k junk' where k: "k \<le> length ins" "(vm_step (e_I K) ?P ^^ k) ?s
      (framed (st @ [CVal v]) junk' (int (length (pre @ ins))) (e_prg K) refs ?s)"
    by (auto simp: runs_like_Inr)
  let ?t = "framed (st @ [CVal v]) junk' (int (length (pre @ ins))) (e_prg K) refs ?s"
  have h: "halted ?P ?t" by (simp add: halted_def)
  have "vm_run (e_I K) ?P (Suc (length (pre @ ins))) ?s = Some (?t, Inr ())"
    by (rule vm_run_steps [OF k(2) h]) (use k(1) in simp)
  then have "runTry_loop (e_I K) ?P (Suc (length (pre @ ins))) 1 ?s = Some (?t, Inr None)"
    using h by simp
  then have "runTry (e_I K) ?P (Suc (length (pre @ ins))) 1
      ((e_vm K)\<lparr>v_prg := Some (e_prg K), v_pc := int (length pre)\<rparr>)
      = Some (?t\<lparr>v_tryStack := butlast (v_tryStack ?t)\<rparr>, Inr None)"
    unfolding runTry_def by (simp add: thenA_def popTryFrame_def framed_def)
  moreover have "pop (?t\<lparr>v_tryStack := ts\<rparr>) = (?t\<lparr>v_sp := int (length st), v_tryStack := ts\<rparr>, Inr (CVal v))" for ts
    by (simp add: pop_def add_sp_def thenA_def stack_at_def framed_def nth_append)
  ultimately show ?thesis unfolding eval_code_def by (simp add: framed_def)
qed

text \<open>What a constant expression evaluates to, if it is one: \<open>None\<close> is an expression that is not constant.\<close>

definition const_bin :: "ienv \<Rightarrow> token \<Rightarrow> jsval \<Rightarrow> jsval \<Rightarrow> go_error + jsval" where
  "const_bin I t x y = (case binary_instr t of Some (i_bin b) \<Rightarrow> bop_fun I b x y | _ \<Rightarrow> Inl TypeErr)"

definition const_un :: "ienv \<Rightarrow> token \<Rightarrow> jsval \<Rightarrow> go_error + jsval" where
  "const_un I t x =
     (if t = T_NOT then uop_fun I U_not x
      else if t = T_BITWISE_NOT then uop_fun I U_bnot x
      else if t = T_MINUS then uop_fun I U_neg x
      else if t = T_PLUS then uop_fun I U_plus x
      else if t = T_TYPEOF then
        (case type_name (i_env I) (CVal x) vm0 of (_, Inr (CVal v)) \<Rightarrow> Inr v | _ \<Rightarrow> Inl TypeErr)
      else if t = T_VOID then Inr VUndefined
      else Inl SyntaxErr)"

primrec cval :: "ienv \<Rightarrow> expr \<Rightarrow> (go_error + jsval) option" where
  "cval I (NumberLiteral literal v) = Some (Inr (literal_value v))"
| "cval I (StringLiteral s) = Some (Inr (VString s))"
| "cval I (BooleanLiteral b) = Some (Inr (VBool b))"
| "cval I NullLiteral = Some (Inr VNull)"
| "cval I (BinaryExpression t l r) =
     (if is_logical t then
        (case cval I l of
           Some (Inr v) \<Rightarrow> if decides t v then Some (Inr v) else cval I r
         | x \<Rightarrow> x)
      else
        (case (cval I l, cval I r) of
           (Some x, Some y) \<Rightarrow> Some (bindR x (\<lambda>x. bindR y (const_bin I t x)))
         | _ \<Rightarrow> None))"
| "cval I (UnaryExpression t e postfix) = map_option (\<lambda>x. bindR x (const_un I t)) (cval I e)"
| "cval I ThisExpression = None"
| "cval I (Identifier name) = None"
| "cval I (DotExpression e name) = None"
| "cval I (BracketExpression e k) = None"
| "cval I (ConditionalExpression t e f) = None"
| "cval I (AssignExpression t l r) = None"
| "cval I (SequenceExpression es) = None"
| "cval I (TemplateLiteral tag elements es) = None"
| "cval I (SuperDotExpression name) = None"
| "cval I (SuperBracketExpression e) = None"
| "cval I SuperExpression = None"
| "cval I (MetaProperty m p) = None"
| "cval I (CallExpression e args) = None"
| "cval I (NewExpression e args) = None"
| "cval I (ArrayLiteral es) = None"
| "cval I (ObjectLiteral ps) = None"
| "cval I (OptionalChain e) = None"
| "cval I (Optional e) = None"
| "cval I (AwaitExpression e) = None"
| "cval I (YieldExpression e d) = None"

text \<open>The machine of the compiler and that of the program convert and compare values alike.\<close>

definition same_host :: "ienv \<Rightarrow> ienv \<Rightarrow> bool" where
  "same_host I J \<longleftrightarrow> h_of (i_env I) = h_of (i_env J) \<and> i_exp I = i_exp J
     \<and> e_callable (x_env (i_env I)) = e_callable (x_env (i_env J))"

lemma same_host_ops:
  assumes "same_host I J"
  shows "bop_fun I b = bop_fun J b" "uop_fun I o' = uop_fun J o'" "type_name (i_env I) c = type_name (i_env J) c"
proof -
  show "bop_fun I b = bop_fun J b" using assms by (cases b) (simp_all add: same_host_def)
  show "uop_fun I o' = uop_fun J o'" using assms by (cases o') (simp_all add: same_host_def)
  show "type_name (i_env I) c = type_name (i_env J) c"
    using assms by (auto simp: same_host_def type_name_def split: cell.split jsval.split)
qed

lemma same_host_const:
  assumes "same_host I J"
  shows "const_bin I t x y = const_bin J t x y" "const_un I t x = const_un J t x"
  unfolding const_bin_def const_un_def
  by (auto simp: same_host_ops [OF assms] simp del: bop_fun.simps uop_fun.simps split: option.split instr.split)

lemmas expr_induct = expr.induct [where ?P2.0 = "\<lambda>_. True", simplified,
  case_names NumberLiteral StringLiteral BooleanLiteral NullLiteral Identifier TemplateLiteral BinaryExpression
    UnaryExpression ConditionalExpression AssignExpression SequenceExpression DotExpression BracketExpression
    SuperDotExpression SuperBracketExpression SuperExpression ThisExpression MetaProperty CallExpression
    NewExpression ArrayLiteral ObjectLiteral OptionalChain Optional AwaitExpression YieldExpression]

lemma cval_same_host: "same_host I J \<Longrightarrow> cval I e = cval J e"
proof (induction e rule: expr_induct)
  case (BinaryExpression t l r)
  have "const_bin I t = const_bin J t" using same_host_const(1) [OF BinaryExpression.prems] by blast
  then show ?case using BinaryExpression by (simp only: cval.simps)
next
  case (UnaryExpression t e postfix)
  have "const_un I t = const_un J t" using same_host_const(2) [OF UnaryExpression.prems] by blast
  then show ?case using UnaryExpression by (simp only: cval.simps)
qed (simp_all only: cval.simps)

lemma act_cell_val [simp]: "cell_val (CVal v) = returnA v"
  by (rule ext) (simp add: cell_val_def)

lemma liftR_Inr: "liftR (Inr v) = returnA v"
  by (rule ext) (simp add: liftR_def)

lemma short_circuit_val: "is_logical t \<Longrightarrow> short_circuit t (CVal v) = returnA (decides t v)"
  by (auto simp: short_circuit_def is_logical_def thenA_returnA_bind is_nullish_def split: jsval.splits
      simp del: act_simps)

lemma type_name_val:
  "type_name E (CVal x) s0 = (s1, Inr v) \<Longrightarrow> type_name E (CVal x) = returnA v"
  by (rule ext) (simp add: type_name_def)

text \<open>The meaning of a constant expression is its value, whatever the state.\<close>

lemma meaning_const:
  "cval I e = Some (Inr v) \<Longrightarrow> m_value (meaning_of I strict e) = returnA (CVal v)
     \<and> m_effect (meaning_of I strict e) = returnA (CVal v) \<and> m_typeof (meaning_of I strict e) = returnA (CVal v)"
proof (induction e arbitrary: v rule: expr_induct)
  case (BinaryExpression t l r)
  show ?case
  proof (cases "is_logical t")
    case True
    then obtain x where x: "cval I l = Some (Inr x)" "if decides t x then v = x else cval I r = Some (Inr v)"
      using BinaryExpression.prems by (auto split: option.splits sum.splits if_splits)
    then show ?thesis using BinaryExpression.IH True
      by (auto simp: plain_def eval_binary_def thenA_returnA_bind short_circuit_val simp del: act_simps split: if_splits)
  next
    case False
    then obtain x y where xy: "cval I l = Some (Inr x)" "cval I r = Some (Inr y)"
      using BinaryExpression.prems False by (auto simp: bindR_def split: option.splits sum.splits)
    then obtain b where "binary_instr t = Some (i_bin b)" "bop_fun I b x y = Inr v"
      using BinaryExpression.prems False
      by (auto simp: const_bin_def simp del: bop_fun.simps split: option.splits instr.splits)
    then show ?thesis using BinaryExpression.IH xy False
      by (simp add: plain_def eval_binary_def thenA_returnA_bind apply_bin_def liftR_Inr del: act_simps)
  qed
next
  case (UnaryExpression t e postfix)
  then obtain y where "cval I e = Some y" "bindR y (const_un I t) = Inr v" by auto
  then obtain x where x: "cval I e = Some (Inr x)" by (cases y) (auto simp: bindR_def)
  have r: "m_value (meaning_of I strict e) = returnA (CVal x)" "m_effect (meaning_of I strict e) = returnA (CVal x)"
    "m_typeof (meaning_of I strict e) = returnA (CVal x)"
    using UnaryExpression.IH [OF x] by blast+
  show ?case using UnaryExpression.prems x r
    by (auto simp: const_un_def plain_def eval_unary_def thenA_returnA_bind apply_un_def liftR_Inr bindR_def simp del: act_simps uop_fun.simps
        dest!: type_name_val split: if_splits prod.splits sum.splits cell.splits)
qed (simp_all add: plain_def)
section \<open>The expressions covered\<close>

text \<open>
  Constants that raise are left out (the compiler emits a \<open>throw\<close> of its own for them), and so
  are the expressions the compiler rejects. A property whose key is a constant string is compiled
  as \<open>e.name\<close>; as a target it has to be written so.
\<close>

definition const_ok :: "ienv \<Rightarrow> expr \<Rightarrow> bool" where
  "const_ok I e \<longleftrightarrow> (case cval I e of Some (Inl _) \<Rightarrow> False | _ \<Rightarrow> True)"

definition const_name :: "ienv \<Rightarrow> expr \<Rightarrow> ustr option" where
  "const_name I e = (case cval I e of Some (Inr (VString s)) \<Rightarrow> Some s | _ \<Rightarrow> None)"

fun assignable :: "ienv \<Rightarrow> bool \<Rightarrow> expr \<Rightarrow> bool" where
  "assignable I strict (Identifier name) \<longleftrightarrow> \<not> (strict \<and> (name = u ''eval'' \<or> name = arguments_name))"
| "assignable I strict (DotExpression e name) \<longleftrightarrow> True"
| "assignable I strict (BracketExpression e k) \<longleftrightarrow> const_name I k = None"
| "assignable I strict _ \<longleftrightarrow> False"

fun deletable :: "bool \<Rightarrow> expr \<Rightarrow> bool" where
  "deletable strict (Identifier name) \<longleftrightarrow> \<not> strict"
| "deletable strict (DotExpression e name) \<longleftrightarrow> True"
| "deletable strict (BracketExpression e k) \<longleftrightarrow> True"
| "deletable strict _ \<longleftrightarrow> False"

text \<open>
  Expressions whose code leaves nothing behind when the value is not wanted. A logical operator
  with a constant left operand may leave its value.
\<close>

primrec void_ok :: "ienv \<Rightarrow> expr \<Rightarrow> bool" where
  "void_ok I (BinaryExpression t l r) = (\<not> (is_logical t \<and> cval I l \<noteq> None))"
| "void_ok I (ConditionalExpression t e f) = (void_ok I e \<and> void_ok I f)"
| "void_ok I (SequenceExpression es) = (let bs = map (void_ok I) es in bs \<noteq> [] \<and> last bs)"
| "void_ok I (NumberLiteral literal v) = True"
| "void_ok I (StringLiteral s) = True"
| "void_ok I (BooleanLiteral b) = True"
| "void_ok I NullLiteral = True"
| "void_ok I (UnaryExpression t e postfix) = True"
| "void_ok I ThisExpression = True"
| "void_ok I (Identifier name) = True"
| "void_ok I (DotExpression e name) = True"
| "void_ok I (BracketExpression e k) = True"
| "void_ok I (AssignExpression t l r) = True"
| "void_ok I (TemplateLiteral tag elements es) = False"
| "void_ok I (SuperDotExpression name) = False"
| "void_ok I (SuperBracketExpression e) = False"
| "void_ok I SuperExpression = False"
| "void_ok I (MetaProperty m p) = False"
| "void_ok I (CallExpression e args) = False"
| "void_ok I (NewExpression e args) = False"
| "void_ok I (ArrayLiteral es) = False"
| "void_ok I (ObjectLiteral ps) = False"
| "void_ok I (OptionalChain e) = False"
| "void_ok I (Optional e) = False"
| "void_ok I (AwaitExpression e) = False"
| "void_ok I (YieldExpression e d) = False"

definition reserved_names :: "ustr list" where
  "reserved_names = map u [''implements'', ''interface'', ''let'', ''package'', ''private'', ''protected'',
     ''public'', ''static'', ''yield'']"

definition old_octal :: "ustr \<Rightarrow> bool" where
  "old_octal literal \<longleftrightarrow> length literal > 1 \<and> literal ! 0 = 48 \<and> is_octal_digit (literal ! 1)"

definition plain_unary :: "token \<Rightarrow> bool" where
  "plain_unary t \<longleftrightarrow> t = T_NOT \<or> t = T_BITWISE_NOT \<or> t = T_MINUS \<or> t = T_PLUS \<or> t = T_TYPEOF"

primrec supported :: "ienv \<Rightarrow> bool \<Rightarrow> expr \<Rightarrow> bool" where
  "supported I strict (NumberLiteral literal v) = (\<not> (strict \<and> old_octal literal))"
| "supported I strict (StringLiteral s) = True"
| "supported I strict (BooleanLiteral b) = True"
| "supported I strict NullLiteral = True"
| "supported I strict ThisExpression = True"
| "supported I strict (Identifier name) = (\<not> (strict \<and> name \<in> set reserved_names))"
| "supported I strict (BinaryExpression t l r) =
     (supported I strict l \<and> supported I strict r \<and> (is_logical t \<or> binary_instr t \<noteq> None)
      \<and> const_ok I (BinaryExpression t l r))"
| "supported I strict (UnaryExpression t e postfix) =
     (supported I strict e \<and> const_ok I (UnaryExpression t e postfix) \<and>
      (plain_unary t \<or> t = T_VOID \<and> (cval I e \<noteq> None \<or> void_ok I e) \<or> t = T_DELETE \<and> deletable strict e
       \<or> (t = T_INCREMENT \<or> t = T_DECREMENT) \<and> assignable I strict e))"
| "supported I strict (ConditionalExpression t e f) =
     (supported I strict t \<and> supported I strict e \<and> supported I strict f)"
| "supported I strict (AssignExpression t l r) =
     (supported I strict l \<and> supported I strict r \<and> assignable I strict l
      \<and> (assign_op t \<noteq> None \<or> t = T_ASSIGN \<or> is_logical t))"
| "supported I strict (SequenceExpression es) =
     (es \<noteq> [] \<and> list_all (\<lambda>b. b) (map (supported I strict) es) \<and> list_all (void_ok I) (butlast es))"
| "supported I strict (DotExpression e name) = supported I strict e"
| "supported I strict (BracketExpression e k) = (supported I strict e \<and> supported I strict k)"
| "supported I strict (TemplateLiteral tag elements es) = False"
| "supported I strict (SuperDotExpression name) = False"
| "supported I strict (SuperBracketExpression e) = False"
| "supported I strict SuperExpression = False"
| "supported I strict (MetaProperty m p) = False"
| "supported I strict (CallExpression e args) = False"
| "supported I strict (NewExpression e args) = False"
| "supported I strict (ArrayLiteral es) = False"
| "supported I strict (ObjectLiteral ps) = False"
| "supported I strict (OptionalChain e) = False"
| "supported I strict (Optional e) = False"
| "supported I strict (AwaitExpression e) = False"
| "supported I strict (YieldExpression e d) = False"

section \<open>What a compiled expression has to satisfy\<close>

text \<open>
  The same code runs on the machine of the compiler when an expression is constant; what is
  said of code is said for both.
\<close>

definition codes :: "cenv \<Rightarrow> ienv \<Rightarrow> bool \<Rightarrow> emitter \<Rightarrow> (ienv \<Rightarrow> instr list \<Rightarrow> bool) \<Rightarrow> bool" where
  "codes K I strict f Q \<longleftrightarrow>
     (\<exists>ins. emits_code strict f ins \<and> Q I ins \<and> Q (e_I K) ins)"

definition typeof_getter :: "cexpr \<Rightarrow> emitter" where
  "typeof_getter x = (case x_getterOrRef x of Some f \<Rightarrow> f | None \<Rightarrow> v_getter x True)"

definition good_value :: "cenv \<Rightarrow> ienv \<Rightarrow> bool \<Rightarrow> expr \<Rightarrow> cexpr \<Rightarrow> bool" where
  "good_value K I strict e x \<longleftrightarrow>
     (\<forall>c. script_scope strict c \<longrightarrow> v_constant x c = Inr (cval I e \<noteq> None)) \<and>
     (\<forall>v. v_literal x = Some v \<longrightarrow> cval I e = Some (Inr v)) \<and> v_named x = None \<and>
     codes K I strict (v_getter x True) (\<lambda>J ins. value_code J ins (m_value (meaning_of J strict e))) \<and>
     codes K I strict (typeof_getter x) (\<lambda>J ins. value_code J ins (m_typeof (meaning_of J strict e))) \<and>
     (void_ok I e \<longrightarrow>
       codes K I strict (v_getter x False) (\<lambda>J ins. effect_code J ins (m_effect (meaning_of J strict e))))"

text \<open>The operands of a target, as code that leaves a target the store instructions work on.\<close>

definition keep_code :: "bool \<Rightarrow> ienv \<Rightarrow> instr list \<Rightarrow> cell act \<Rightarrow> bool" where
  "keep_code keep J ins ev = (if keep then value_code J ins ev else effect_code J ins ev)"

definition good_target :: "cenv \<Rightarrow> ienv \<Rightarrow> bool \<Rightarrow> expr \<Rightarrow> cexpr \<Rightarrow> bool" where
  "good_target K I strict e x \<longleftrightarrow>
     (\<forall>y ev keep. codes K I strict (v_getter y True) (\<lambda>J ins. value_code J ins (ev J)) \<longrightarrow>
        codes K I strict (emitExpr K y True) (\<lambda>J ins. value_code J ins (ev J)) \<longrightarrow> v_named y = None \<longrightarrow>
        codes K I strict (x_setter x y keep)
          (\<lambda>J ins. keep_code keep J ins (assign_lref (i_env J) strict (m_target (meaning_of J strict e)) (ev J)))) \<and>
     codes K I strict (x_ref x) (\<lambda>J ins. ref_code J ins
        (thenA (m_target (meaning_of J strict e)) (ref_of_lref (i_env J) strict))) \<and>
     (\<forall>prepare prep body f postfix keep.
        codes K I strict (case prepare of Some p \<Rightarrow> p | None \<Rightarrow> skipE) (\<lambda>J ins. map_code J ins (prep J)) \<longrightarrow>
        codes K I strict body (\<lambda>J ins. map_code J ins (f J)) \<longrightarrow>
        codes K I strict (x_unary x prepare body postfix keep)
          (\<lambda>J ins. keep_code keep J ins (update_lref (i_env J) strict (m_target (meaning_of J strict e))
             (if keep then prep J else returnA) (f J) postfix)))"

definition good_delete :: "cenv \<Rightarrow> ienv \<Rightarrow> bool \<Rightarrow> expr \<Rightarrow> cexpr \<Rightarrow> bool" where
  "good_delete K I strict e x \<longleftrightarrow>
     (\<forall>keep. codes K I strict (x_delete x keep)
        (\<lambda>J ins. keep_code keep J ins (m_delete (meaning_of J strict e))))"

definition good :: "cenv \<Rightarrow> ienv \<Rightarrow> bool \<Rightarrow> expr \<Rightarrow> cexpr \<Rightarrow> bool" where
  "good K I strict e x \<longleftrightarrow> good_value K I strict e x \<and>
     (assignable I strict e \<longrightarrow> good_target K I strict e x) \<and>
     (deletable strict e \<longrightarrow> good_delete K I strict e x)"

definition setting :: "cenv \<Rightarrow> ienv \<Rightarrow> bool" where
  "setting K I \<longleftrightarrow> const_vm_ok K \<and> same_host I (e_I K)"

lemma codesI:
  "emits_code strict f ins \<Longrightarrow> (\<And>J. J = I \<or> J = e_I K \<Longrightarrow> Q J ins) \<Longrightarrow> codes K I strict f Q"
  unfolding codes_def by blast

lemma codesE:
  assumes "codes K I strict f Q"
  obtains ins where "emits_code strict f ins" "\<And>J. J = I \<or> J = e_I K \<Longrightarrow> Q J ins"
  using assms unfolding codes_def by blast

lemma codes_ex: "codes K I strict f Q \<Longrightarrow> \<exists>ins. emits_code strict f ins \<and> (\<forall>J. J = I \<or> J = e_I K \<longrightarrow> Q J ins)"
  unfolding codes_def by blast

lemma codes_mono:
  "codes K I strict f Q \<Longrightarrow> (\<And>J ins. J = I \<or> J = e_I K \<Longrightarrow> Q J ins \<Longrightarrow> R J ins) \<Longrightarrow> codes K I strict f R"
  unfolding codes_def by blast
section \<open>Pieces of code\<close>

lemma value_pop: "value_code J a ev \<Longrightarrow> effect_code J (a @ [i_pop]) ev"
  unfolding effect_code_def by (intro allI value_then instr_pop)

lemma keep_pop: "value_code J a ev \<Longrightarrow> keep_code keep J (a @ (if keep then [] else [i_pop])) ev"
  by (simp add: keep_code_def value_pop)

lemma value_map: "value_code J a ev \<Longrightarrow> map_code J b f \<Longrightarrow> value_code J (a @ b) (thenA ev f)"
  unfolding value_code_def [of J "a @ b"] pushv_thenA
  by (intro allI value_then) (simp_all add: map_code_def)

lemma map_nil: "map_code J [] returnA"
  unfolding map_code_def pushv_returnA using implements_empty by blast

lemma effect_value: "effect_code J a ev \<Longrightarrow> value_code J b w \<Longrightarrow> value_code J (a @ b) (thenA ev (\<lambda>_. w))"
  unfolding value_code_def [of J "a @ b"] pushv_thenA
  by (intro allI effect_then) (simp_all add: value_code_def)

lemma effect_effect: "effect_code J a ev \<Longrightarrow> effect_code J b w \<Longrightarrow> effect_code J (a @ b) (thenA ev (\<lambda>_. w))"
  unfolding effect_code_def [of J "a @ b"] thenA_assoc
  by (intro allI effect_then) (simp_all add: effect_code_def)

lemma effect_nil: "effect_code J [] (returnA v)"
  unfolding effect_code_def thenA_returnA_bind using implements_empty by blast

text \<open>Two operands and an instruction.\<close>

lemma value_value:
  assumes "value_code J a l" "value_code J b r"
    and "\<And>x y zs rs. implements J c (zs @ [x, y]) rs (pushv (f x y) zs rs)"
  shows "value_code J (a @ b @ c) (thenA l (\<lambda>x. thenA r (f x)))"
  unfolding value_code_def pushv_thenA
proof (intro allI, rule value_then [OF assms(1)], rule value_then [OF assms(2)])
  fix xs rs x y
  show "implements J c ((xs @ [x]) @ [y]) rs (pushv (f x y) xs rs)" using assms(3) [of xs x y rs] by simp
qed

lemma effect_cong: "thenA ev (\<lambda>_. returnA ()) = thenA ev' (\<lambda>_. returnA ()) \<Longrightarrow> effect_code J a ev = effect_code J a ev'"
proof -
  assume e: "thenA ev (\<lambda>_. returnA ()) = thenA ev' (\<lambda>_. returnA ())"
  have "thenA ev (\<lambda>_. returnA y) = thenA (thenA ev (\<lambda>_. returnA ())) (\<lambda>_. returnA y)" for ev :: "'c act" and y :: pushed
    by (simp only: thenA_assoc thenA_returnA_bind)
  then show ?thesis unfolding effect_code_def by (metis e)
qed

lemma codes_emit: "(\<And>J. J = I \<or> J = e_I K \<Longrightarrow> Q J [i]) \<Longrightarrow> codes K I strict (emit i) Q"
  by (rule codesI [OF emits_emit])

lemma codes_seqE:
  assumes "codes K I strict f Q" "codes K I strict g R"
    and "\<And>J a b. J = I \<or> J = e_I K \<Longrightarrow> Q J a \<Longrightarrow> R J b \<Longrightarrow> S J (a @ b)"
  shows "codes K I strict (seqE f g) S"
  using assms(1,2) by (elim codesE) (rule codesI, erule (1) emits_seqE, simp add: assms(3))

section \<open>Constant folding\<close>

lemma script_enter_eval: "script_scope strict c \<Longrightarrow> script_scope strict (enter_eval K c)"
  by (simp add: enter_eval_def script_scope_def)

lemma evalConst_good:
  assumes s: "setting K I" and g: "good_value K I strict e x" and v: "cval I e = Some (Inr v)"
    and c: "script_scope strict c"
  shows "evalConst K x c = Inr (v_heap (e_vm K), Inr v)"
proof (cases "v_literal x")
  case (Some w)
  then show ?thesis using g v by (simp add: evalConst_def good_value_def)
next
  case None
  obtain ins where ins: "emits_code strict (v_getter x True) ins"
    "value_code (e_I K) ins (m_value (meaning_of (e_I K) strict e))"
    using g by (auto simp: good_value_def elim!: codesE)
  have "cval (e_I K) e = Some (Inr v)" using cval_same_host s v by (auto simp: setting_def)
  then have "value_code (e_I K) ins (returnA (CVal v))"
    using ins(2) meaning_const by (metis (no_types, lifting))
  then have "eval_code K (pre @ ins) (length pre) = Inr (v_heap (e_vm K), Inr v)" for pre
    using eval_code_value s by (simp add: setting_def)
  then show ?thesis
    by (simp add: evalConst_def None emits_codeD [OF ins(1) script_enter_eval [OF c]])
qed

lemma emitExpr_code:
  assumes s: "setting K I" and g: "good_value K I strict e x" and ok: "const_ok I e"
    and keep: "\<not> keep \<Longrightarrow> cval I e \<noteq> None \<or> void_ok I e"
  shows "codes K I strict (emitExpr K x keep) (\<lambda>J ins.
     if keep then value_code J ins (m_value (meaning_of J strict e))
     else effect_code J ins (m_effect (meaning_of J strict e)))"
proof (cases "cval I e")
  case None
  then have "emitExpr K x keep c = v_getter x keep c" if "script_scope strict c" for c
    using g that by (simp add: emitExpr_def good_value_def)
  then have "emits_code strict (emitExpr K x keep) ins = emits_code strict (v_getter x keep) ins" for ins
    by (simp add: emits_code_def)
  then show ?thesis using g keep None by (cases keep) (simp_all add: good_value_def codes_def)
next
  case (Some r)
  then obtain v where v: "cval I e = Some (Inr v)" using ok by (cases r) (auto simp: const_ok_def)
  have "emitExpr K x keep c = whenE keep (emitLiteralValue v) c" if "script_scope strict c" for c
    using g that evalConst_good [OF s g v that] v by (simp add: emitExpr_def emitConst_def good_value_def)
  then have e: "emits_code strict (emitExpr K x keep) (if keep then [i_loadVal v] else [])"
    using emits_whenE [where b = keep and strict = strict, OF emits_literal [of strict v]] by (simp add: emits_code_def)
  have "cval J e = Some (Inr v)" if "J = I \<or> J = e_I K" for J
    using that v s cval_same_host by (auto simp: setting_def)
  then have m: "m_value (meaning_of J strict e) = returnA (CVal v)" "m_effect (meaning_of J strict e) = returnA (CVal v)"
    if "J = I \<or> J = e_I K" for J
    using that meaning_const by blast+
  show ?thesis
    by (rule codesI [OF e]) (simp add: m instr_loads(1) effect_nil del: act_simps)
qed
section \<open>Values of the single kinds of expression\<close>

text \<open>An expression whose value is not constant, made of its getter.\<close>

lemma emits_getter_pop:
  assumes "codes K I strict f (\<lambda>J ins. value_code J ins (ev J))"
  shows "codes K I strict (seqE f (emit_pop_unless keep)) (\<lambda>J ins. keep_code keep J ins (ev J))"
  using assms by (elim codesE) (rule codesI, erule emits_seqE, rule emits_pop_unless, simp add: keep_pop)

lemma seqEs_simps: "seqEs (f # g # h # fs) = seqE f (seqEs (g # h # fs))" "seqEs [f, g] = seqE f g"
  by simp_all

lemma seqE_assoc: "seqE (seqE f g) h = seqE f (seqE g h)"
  by (rule ext) (simp add: seqE_def bindR_def split: sum.split)

text \<open>Getters that end by dropping the value if it is not wanted.\<close>

lemma good_value_popping:
  assumes "\<And>keep. v_getter x keep = seqE f (emit_pop_unless keep)"
    and "codes K I strict f (\<lambda>J ins. value_code J ins (m_value (meaning_of J strict e)))"
    and "\<And>c. script_scope strict c \<Longrightarrow> v_constant x c = Inr (cval I e \<noteq> None)"
    and "v_literal x = None" "v_named x = None" "x_getterOrRef x = None"
    and "\<And>J. m_effect (meaning_of J strict e) = m_value (meaning_of J strict e)"
    and "\<And>J. m_typeof (meaning_of J strict e) = m_value (meaning_of J strict e)"
  shows "good_value K I strict e x"
  using assms(3-8) emits_getter_pop [OF assms(2), of True] emits_getter_pop [OF assms(2), of False]
  by (simp add: good_value_def assms(1) typeof_getter_def keep_code_def)

text \<open>Any getter.\<close>

lemma good_valueI:
  assumes "\<And>keep. keep \<or> void_ok I e \<Longrightarrow> codes K I strict (v_getter x keep) (\<lambda>J ins.
      if keep then value_code J ins (m_value (meaning_of J strict e))
      else effect_code J ins (m_effect (meaning_of J strict e)))"
    and "\<And>c. script_scope strict c \<Longrightarrow> v_constant x c = Inr (cval I e \<noteq> None)"
    and "v_literal x = None" "v_named x = None" "x_getterOrRef x = None"
    and "\<And>J. m_typeof (meaning_of J strict e) = m_value (meaning_of J strict e)"
  shows "good_value K I strict e x"
  using assms(2-6) assms(1) [of True] assms(1) [of False]
  by (simp add: good_value_def typeof_getter_def)

lemma base_expr_simps [simp]:
  "v_getter (base_expr g) = g" "v_constant (base_expr g) = (\<lambda>_. Inr False)" "v_literal (base_expr g) = None"
  "v_named (base_expr g) = None" "x_getterOrRef (base_expr g) = None" "x_ident (base_expr g) = None"
  by (simp_all add: base_expr_def)

lemma good_literal:
  assumes "\<And>J. meaning_of J strict e = plain (returnA (CVal v))" "cval I e = Some (Inr v)"
  shows "good_value K I strict e (compiledLiteral v)"
proof -
  have "codes K I strict (whenE True (emitLiteralValue v)) (\<lambda>J ins. value_code J ins (returnA (CVal v)))"
    using codesI [OF emits_literal] instr_loads(1) by (auto simp: whenE_def simp del: act_simps)
  moreover have "codes K I strict (whenE False (emitLiteralValue v)) (\<lambda>J ins. effect_code J ins (returnA (CVal v)))"
    unfolding whenE_def by (simp only: if_False, rule codesI [OF emits_skip]) (rule effect_nil)
  ultimately show ?thesis using assms
    by (simp add: good_value_def compiledLiteral_def typeof_getter_def plain_def del: act_simps)
qed

lemma good_this: "good_value K I strict ThisExpression compiledThisExpr"
proof (rule good_value_popping)
  show "v_getter compiledThisExpr keep = seqE emitLoadThis (emit_pop_unless keep)" for keep
    by (simp add: compiledThisExpr_def)
  show "codes K I strict emitLoadThis (\<lambda>J ins. value_code J ins (m_value (meaning_of J strict ThisExpression)))"
    by (rule codesI [OF emits_this]) (simp add: plain_def instr_loads(3) del: act_simps)
qed (simp_all add: compiledThisExpr_def plain_def)

text \<open>Identifiers.\<close>

lemma emits_checkIdentifierLName:
  "\<not> (name = u ''eval'' \<or> name = arguments_name) \<Longrightarrow> emits_code strict (checkIdentifierLName name) []"
  by (simp add: emits_code_def checkIdentifierLName_def)

lemma good_identifier: "good_value K I strict (Identifier name) (compiledIdentifierExpr K name)"
proof -
  let ?x = "compiledIdentifierExpr K name"
  have f: "codes K I strict (emit (i_name N_loadDynamic name)) (\<lambda>J ins. value_code J ins (load_name (i_env J) name))"
    by (rule codes_emit) (rule instr_loadDynamic)
  have g: "codes K I strict (v_getter ?x keep) (\<lambda>J ins. keep_code keep J ins (load_name (i_env J) name))" for keep
  proof -
    have "v_getter ?x keep = with_binding name (\<lambda>b noDynamics.
       if noDynamics then known b (\<lambda>b. if keep then emitGet b else emitGetP b)
       else seqE (case b of Some b \<Rightarrow> emitGetVar b False | None \<Rightarrow> emit (i_name N_loadDynamic name))
              (emit_pop_unless keep))"
      by (simp add: compiledIdentifierExpr_def compiledIdentifierExpr_emitGetter_def)
    then show ?thesis using emits_getter_pop [OF f, of keep]
      by (elim codesE) (rule codesI, simp, rule emits_with_binding, simp_all)
  qed
  have "codes K I strict (typeof_getter ?x) (\<lambda>J ins. value_code J ins (load_name_typeof (i_env J) name))"
  proof (rule codesI)
    show "emits_code strict (typeof_getter ?x) [i_name N_loadDynamicRef name]"
      by (simp add: typeof_getter_def compiledIdentifierExpr_def compiledIdentifierExpr_emitGetterOrRef_def)
        (rule emits_with_binding, simp add: emits_emit)
  qed (rule instr_loadDynamicRef)
  then show ?thesis using g [of True] g [of False]
    by (simp add: good_value_def keep_code_def compiledIdentifierExpr_def)
qed
section \<open>Properties as targets\<close>

text \<open>The operands that stand on the stack for a place, and the code that works on them.\<close>

fun cells :: "lref \<Rightarrow> cell list" where
  "cells (L_ref r) = []"
| "cells (L_prop c name) = [c]"
| "cells (L_elem c k) = [c, k]"

definition operand_code :: "ienv \<Rightarrow> instr list \<Rightarrow> lref act \<Rightarrow> bool" where
  "operand_code J ins tgt \<longleftrightarrow> (\<forall>xs rs. implements J ins xs rs (thenA tgt (\<lambda>t. returnA (xs @ cells t, rs))))"

definition access_code :: "ienv \<Rightarrow> bool \<Rightarrow> lref \<Rightarrow> nat \<Rightarrow> instr list \<Rightarrow> instr list \<Rightarrow> instr list \<Rightarrow> bool" where
  "access_code J strict t n ld st stP \<longleftrightarrow> n = Suc (length (cells t)) \<and>
     (\<forall>xs rs. implements J ld (xs @ cells t) rs
        (thenA (read_lref (i_env J) t) (\<lambda>v. returnA (xs @ cells t @ [v], rs)))) \<and>
     (\<forall>xs rs x. implements J st (xs @ cells t @ [x]) rs (pushv (write_lref (i_env J) strict t x) xs rs)) \<and>
     (\<forall>xs rs x. implements J stP (xs @ cells t @ [x]) rs
        (thenA (write_lref (i_env J) strict t x) (\<lambda>_. returnA (xs, rs))))"

lemma operand_then:
  assumes "operand_code J a tgt"
    and "\<And>s s' t. tgt s = (s', Inr t) \<Longrightarrow> implements J b (xs @ cells t) rs (f t)"
  shows "implements J (a @ b) xs rs (thenA tgt f)"
proof (rule implements_bind [where g = "\<lambda>t. (xs @ cells t, rs)"])
  show "implements J a xs rs (thenA tgt (\<lambda>t. returnA (xs @ cells t, rs)))"
    using assms(1) by (simp add: operand_code_def)
qed (simp add: assms(2))

lemma access_then:
  assumes "access_code J strict t n ld st stP"
    and "\<And>s s' v. read_lref (i_env J) t s = (s', Inr v) \<Longrightarrow> implements J b (xs @ cells t @ [v]) rs (f v)"
  shows "implements J (ld @ b) (xs @ cells t) rs (thenA (read_lref (i_env J) t) f)"
proof (rule implements_bind [where g = "\<lambda>v. (xs @ cells t @ [v], rs)"])
  show "implements J ld (xs @ cells t) rs (thenA (read_lref (i_env J) t) (\<lambda>v. returnA (xs @ cells t @ [v], rs)))"
    using assms(1) by (simp add: access_code_def)
qed (simp add: assms(2))

lemma map_then':
  assumes "map_code I a g" "\<And>s s' y. g x s = (s', Inr y) \<Longrightarrow> implements I b (xs @ ys @ [y]) rs (f y)"
  shows "implements I (a @ b) (xs @ ys @ [x]) rs (thenA (g x) f)"
  using map_then [OF assms(1), of x b "xs @ ys" rs f] assms(2) by simp

lemma update_value:
  assumes o': "operand_code J o' tgt" and p: "map_code J p prep" and b: "map_code J b f"
    and a: "\<And>s s' t. tgt s = (s', Inr t) \<Longrightarrow> access_code J strict t n ld st stP"
  shows "value_code J (o' @ ld @ p @ b @ st) (update_lref (i_env J) strict tgt prep f False)"
  unfolding value_code_def update_lref_def pushv_thenA if_False thenA_returnA thenA_assoc
proof (intro allI, rule operand_then [OF o'], rule access_then [OF a], assumption,
    rule map_then' [OF p], rule map_then' [OF b])
  fix xs rs s s' t x
  assume "tgt s = (s', Inr t)"
  from a [OF this] show "implements J st (xs @ cells t @ [x]) rs (pushv (write_lref (i_env J) strict t x) xs rs)"
    by (simp add: access_code_def)
qed

lemma update_postfix:
  assumes o': "operand_code J o' tgt" and p: "map_code J p prep" and b: "map_code J b f"
    and a: "\<And>s s' t. tgt s = (s', Inr t) \<Longrightarrow> access_code J strict t n ld st stP"
  shows "value_code J ([i_loadUndef] @ o' @ ld @ p @ [i_rdupN n] @ b @ stP) (update_lref (i_env J) strict tgt prep f True)"
proof -
  have r: "implements J ([i_rdupN n] @ b @ stP) ((xs @ [CVal VUndefined]) @ cells t @ [v]) rs
      (thenA (f v) (\<lambda>new. thenA (write_lref (i_env J) strict t new) (\<lambda>w. returnA (xs @ [v], rs))))"
    if "tgt s = (s', Inr t)" for s s' t xs v rs
  proof -
    have n: "n = Suc (length (cells t))" using a [OF that] by (simp add: access_code_def)
    have d: "implements J [i_rdupN n] ((xs @ [CVal VUndefined]) @ cells t @ [v]) rs (returnA ((xs @ [v]) @ cells t @ [v], rs))"
      using instr_rdupN [of "length (cells t)" "cells t" J xs "CVal VUndefined" v rs] by (simp add: n)
    have e: "implements J (b @ stP) ((xs @ [v]) @ cells t @ [v]) rs
        (thenA (f v) (\<lambda>new. thenA (write_lref (i_env J) strict t new) (\<lambda>w. returnA (xs @ [v], rs))))"
    proof (rule map_then' [OF b])
      show "implements J stP ((xs @ [v]) @ cells t @ [y]) rs (thenA (write_lref (i_env J) strict t y) (\<lambda>w. returnA (xs @ [v], rs)))" for y
        using a [OF that] unfolding access_code_def by blast
    qed
    have "implements J ([i_rdupN n] @ b @ stP) ((xs @ [CVal VUndefined]) @ cells t @ [v]) rs
        (thenA (returnA ((xs @ [v]) @ cells t @ [v], rs)) (\<lambda>_. thenA (f v) (\<lambda>new. thenA (write_lref (i_env J) strict t new) (\<lambda>w. returnA (xs @ [v], rs)))))"
      by (rule implements_seq [OF d]) (use e in \<open>auto simp: returnA_def\<close>)
    then show ?thesis by (simp only: thenA_returnA_bind)
  qed
  have m: "implements J (o' @ ld @ p @ [i_rdupN n] @ b @ stP) (xs @ [CVal VUndefined]) rs
      (pushv (update_lref (i_env J) strict tgt prep f True) xs rs)" for xs rs
    unfolding update_lref_def pushv_thenA if_True thenA_assoc pushv_returnA
    by (rule operand_then [OF o'], rule access_then [OF a], assumption, rule map_then' [OF p], rule r)
  have "implements J ([i_loadUndef] @ o' @ ld @ p @ [i_rdupN n] @ b @ stP) xs rs
      (thenA (returnA (CVal VUndefined)) (\<lambda>_. pushv (update_lref (i_env J) strict tgt prep f True) xs rs))" for xs rs
    by (rule value_then [OF instr_loads(2)]) (use m in simp)
  then show ?thesis unfolding value_code_def thenA_returnA_bind by blast
qed

lemma update_effect:
  assumes o': "operand_code J o' tgt" and b: "map_code J b f"
    and a: "\<And>s s' t. tgt s = (s', Inr t) \<Longrightarrow> access_code J strict t n ld st stP"
  shows "effect_code J (o' @ ld @ b @ stP) (update_lref (i_env J) strict tgt returnA f postfix)"
  unfolding effect_code_def update_lref_def thenA_returnA thenA_assoc thenA_returnA_bind
proof (intro allI, rule operand_then [OF o'], rule access_then [OF a], assumption, rule map_then' [OF b])
  fix xs rs s s' t x
  assume "tgt s = (s', Inr t)"
  from a [OF this] show "implements J stP (xs @ cells t @ [x]) rs
      (thenA (write_lref (i_env J) strict t x) (\<lambda>y. returnA (xs, rs)))"
    by (simp add: access_code_def)
qed

lemma assign_value:
  assumes o': "operand_code J o' tgt" and v: "value_code J b ev"
    and a: "\<And>s s' t. tgt s = (s', Inr t) \<Longrightarrow> access_code J strict t n ld st stP"
  shows "value_code J (o' @ b @ st) (assign_lref (i_env J) strict tgt ev)"
    and "effect_code J (o' @ b @ stP) (assign_lref (i_env J) strict tgt ev)"
proof -
  note ac = a [unfolded access_code_def]
  show "value_code J (o' @ b @ st) (assign_lref (i_env J) strict tgt ev)"
    unfolding value_code_def assign_lref_def pushv_thenA
  proof (intro allI, rule operand_then [OF o'], rule value_then [OF v])
    fix xs rs s s' t x
    assume "tgt s = (s', Inr t)"
    then show "implements J st ((xs @ cells t) @ [x]) rs (pushv (write_lref (i_env J) strict t x) xs rs)"
      using ac by simp
  qed
  show "effect_code J (o' @ b @ stP) (assign_lref (i_env J) strict tgt ev)"
    unfolding effect_code_def assign_lref_def thenA_assoc
  proof (intro allI, rule operand_then [OF o'], rule value_then [OF v])
    fix xs rs s s' t x
    assume "tgt s = (s', Inr t)"
    then show "implements J stP ((xs @ cells t) @ [x]) rs (thenA (write_lref (i_env J) strict t x) (\<lambda>_. returnA (xs, rs)))"
      using ac by simp
  qed
qed

text \<open>What \<open>property_emitUnary\<close> emits.\<close>

lemma codes_property_unary:
  assumes o': "codes K I strict operands (\<lambda>J ins. operand_code J ins (tgt J))"
    and a: "emits_code strict load ld" "emits_code strict store st" "emits_code strict storeP stP"
      "\<And>J s s' t. tgt J s = (s', Inr t) \<Longrightarrow> access_code J strict t n ld st stP"
    and p: "codes K I strict (case prepare of Some p \<Rightarrow> p | None \<Rightarrow> skipE) (\<lambda>J ins. map_code J ins (prep J))"
    and b: "codes K I strict body (\<lambda>J ins. map_code J ins (f J))"
  shows "codes K I strict (property_emitUnary operands load n store storeP prepare body postfix keep)
    (\<lambda>J ins. keep_code keep J ins (update_lref (i_env J) strict (tgt J) (if keep then prep J else returnA) (f J) postfix))"
proof -
  obtain oi where o1: "emits_code strict operands oi" "\<And>J. J = I \<or> J = e_I K \<Longrightarrow> operand_code J oi (tgt J)"
    using codes_ex [OF o'] by blast
  obtain pi' where p1: "emits_code strict (case prepare of Some p \<Rightarrow> p | None \<Rightarrow> skipE) pi'"
    "\<And>J. J = I \<or> J = e_I K \<Longrightarrow> map_code J pi' (prep J)" using codes_ex [OF p] by blast
  obtain bi where b1: "emits_code strict body bi" "\<And>J. J = I \<or> J = e_I K \<Longrightarrow> map_code J bi (f J)"
    using codes_ex [OF b] by blast
  let ?E = "property_emitUnary operands load n store storeP prepare body postfix keep"
  consider "\<not> keep" | "keep" "\<not> postfix" | "keep" "postfix" by blast
  then show ?thesis
  proof cases
    case 1
    have "emits_code strict ?E (oi @ ld @ bi @ stP)"
      unfolding property_emitUnary_def Let_def using 1 by (simp add: emits_seqE o1 a b1)
    then show ?thesis using 1 unfolding keep_code_def by (simp, elim codesI) (rule update_effect, erule o1(2), erule b1(2), erule a(4))
  next
    case 2
    have "emits_code strict ?E (oi @ ld @ pi' @ bi @ st)"
      unfolding property_emitUnary_def Let_def using 2 by (simp add: emits_seqE o1 a b1 p1)
    then show ?thesis using 2 unfolding keep_code_def by (simp, elim codesI) (rule update_value, erule o1(2), erule p1(2), erule b1(2), erule a(4))
  next
    case 3
    have "emits_code strict ?E ([i_loadUndef] @ oi @ ld @ pi' @ [i_rdupN n] @ bi @ stP)"
      unfolding property_emitUnary_def Let_def using 3 by (simp only: seqEs.simps if_True not_True_eq_False if_False)
        (intro emits_seqE emits_emit o1 a b1 p1)
    then show ?thesis using 3 unfolding keep_code_def
      by (simp only: if_True, elim codesI) (rule update_postfix, erule o1(2), erule p1(2), erule b1(2), erule a(4))
  qed
qed

text \<open>The code of the operands and of the accesses.\<close>

lemma operand_prop:
  "value_code J a ev \<Longrightarrow> operand_code J a (thenA ev (\<lambda>c. returnA (L_prop c name)))"
  unfolding operand_code_def thenA_assoc thenA_returnA_bind cells.simps value_code_def pushv_def .

lemma operand_elem:
  assumes "value_code J a ev" "value_code J b kv"
  shows "operand_code J (a @ b) (thenA ev (\<lambda>c. thenA kv (\<lambda>k. returnA (L_elem c k))))"
  unfolding operand_code_def thenA_assoc thenA_returnA_bind cells.simps
proof (intro allI, rule value_then [OF assms(1)])
  fix xs rs x
  have "implements J b (xs @ [x]) rs (pushv kv (xs @ [x]) rs)" using assms(2) by (simp add: value_code_def)
  then show "implements J b (xs @ [x]) rs (thenA kv (\<lambda>k. returnA (xs @ [x, k], rs)))"
    by (simp add: pushv_def)
qed

lemma implements_returnA:
  "implements J a xs rs (returnA (ys, qs)) \<Longrightarrow> implements J b ys qs ev \<Longrightarrow> implements J (a @ b) xs rs ev"
  using implements_seq [where ev = "returnA (ys, qs)" and f = "\<lambda>_. ev"] by (simp add: thenA_returnA_bind returnA_def)

lemma access_prop:
  "access_code J strict (L_prop c name) 2 [i_dup, i_prop P_getProp name]
     [store_instr strict True name] [store_instr strict False name]"
proof -
  have "implements J ([i_dup] @ [i_prop P_getProp name]) (xs @ [c]) rs
      (thenA (get_prop (i_env J) c name) (\<lambda>v. returnA (xs @ [c, v], rs)))" for xs rs
    by (rule implements_returnA [OF instr_dup])
      (use instr_getProp [of J name "xs @ [c]" c rs] in \<open>simp add: pushv_def del: act_simps\<close>)
  then show ?thesis
    by (simp add: access_code_def instr_setProp instr_setPropP del: act_simps)
qed

lemma access_elem:
  "access_code J strict (L_elem c k) 3 [i_dupLast 2, i_elem E_getElem]
     [store_elem_instr strict True] [store_elem_instr strict False]"
proof -
  have "implements J ([i_dupLast 2] @ [i_elem E_getElem]) (xs @ [c, k]) rs
      (thenA (get_elem (i_env J) c k) (\<lambda>v. returnA (xs @ [c, k, v], rs)))" for xs rs
    by (rule implements_returnA [OF instr_dupLast2])
      (use instr_getElem [of J "xs @ [c, k]" c k rs] in \<open>simp add: pushv_def del: act_simps\<close>)
  then show ?thesis
    by (simp add: access_code_def instr_setElem instr_setElemP del: act_simps)
qed

lemma access_pop:
  assumes "access_code J strict t n ld st stP"
  shows "access_code J strict t n ld st (st @ [i_pop])"
proof -
  have "implements J (st @ [i_pop]) (xs @ cells t @ [x]) rs (thenA (write_lref (i_env J) strict t x) (\<lambda>_. returnA (xs, rs)))"
    for xs rs x
  proof (rule implements_bind [where g = "\<lambda>y. (xs @ [y], rs)"])
    show "implements J st (xs @ cells t @ [x]) rs (thenA (write_lref (i_env J) strict t x) (\<lambda>y. returnA (xs @ [y], rs)))"
      using assms by (simp add: access_code_def pushv_def)
  qed (simp add: instr_pop)
  then show ?thesis using assms by (simp add: access_code_def)
qed

lemma codes_assign:
  assumes o': "codes K I strict operands (\<lambda>J ins. operand_code J ins (tgt J))"
    and a: "emits_code strict store (if keep then st else stP)"
      "\<And>J s s' t. tgt J s = (s', Inr t) \<Longrightarrow> access_code J strict t n ld st stP"
    and y: "codes K I strict f (\<lambda>J ins. value_code J ins (ev J))"
  shows "codes K I strict (seqEs [operands, f, store])
    (\<lambda>J ins. keep_code keep J ins (assign_lref (i_env J) strict (tgt J) (ev J)))"
proof -
  obtain oi where o1: "emits_code strict operands oi" "\<And>J. J = I \<or> J = e_I K \<Longrightarrow> operand_code J oi (tgt J)"
    using codes_ex [OF o'] by blast
  obtain yi where y1: "emits_code strict f yi" "\<And>J. J = I \<or> J = e_I K \<Longrightarrow> value_code J yi (ev J)"
    using codes_ex [OF y] by blast
  show ?thesis
  proof (rule codesI)
    show "emits_code strict (seqEs [operands, f, store]) (oi @ yi @ (if keep then st else stP))"
      by (simp add: emits_seqE o1 y1 a)
  next
    fix J
    assume J: "J = I \<or> J = e_I K"
    show "keep_code keep J (oi @ yi @ (if keep then st else stP)) (assign_lref (i_env J) strict (tgt J) (ev J))"
      using assign_value [OF o1(2) [OF J] y1(2) [OF J] a(2)] by (simp add: keep_code_def)
  qed
qed

lemma codes_ref:
  assumes o': "codes K I strict operands (\<lambda>J ins. operand_code J ins (tgt J))"
    and g: "emits_code strict g [i]"
    and i: "\<And>J s s' t xs rs. tgt J s = (s', Inr t) \<Longrightarrow> implements J [i] (xs @ cells t) rs
      (thenA (ref_of_lref (i_env J) strict t) (\<lambda>r. returnA (xs, rs @ [r])))"
  shows "codes K I strict (seqE operands g) (\<lambda>J ins. ref_code J ins (thenA (tgt J) (ref_of_lref (i_env J) strict)))"
  using o'
proof (elim codesE, intro codesI)
  fix ins
  assume "emits_code strict operands ins"
  then show "emits_code strict (seqE operands g) (ins @ [i])" using g by (rule emits_seqE)
next
  fix ins J
  assume "\<And>J. J = I \<or> J = e_I K \<Longrightarrow> operand_code J ins (tgt J)" "J = I \<or> J = e_I K"
  then have o1: "operand_code J ins (tgt J)" by blast
  show "ref_code J (ins @ [i]) (thenA (tgt J) (ref_of_lref (i_env J) strict))"
    unfolding ref_code_def thenA_assoc [of "tgt J"] by (intro allI, rule operand_then [OF o1]) (rule i)
qed

lemma codes_value_map:
  assumes "codes K I strict f (\<lambda>J ins. value_code J ins (ev J))"
    and "emits_code strict g b" "\<And>J. map_code J b (h J)"
  shows "codes K I strict (seqE f g) (\<lambda>J ins. value_code J ins (thenA (ev J) (h J)))"
  using assms(1) by (elim codesE) (rule codesI, erule emits_seqE, rule assms(2), simp add: value_map assms(3))

lemma seqEs_pop: "seqEs [f, g, emit_pop_unless keep] = seqE (seqE f g) (emit_pop_unless keep)"
  by (simp add: seqE_assoc)

lemma emits_prop_store: "emits_code strict (prop_store keep name) [store_instr strict keep name]"
  unfolding prop_store_def store_instr_def using emits_by_strict [of strict] by (cases strict; cases keep) fastforce+

lemma emits_elem_store:
  "emits_code strict (if keep then by_strict (i_elem E_setElemStrict) (i_elem E_setElem)
     else by_strict (i_elem E_setElemStrictP) (i_elem E_setElemP)) [store_elem_instr strict keep]"
  unfolding store_elem_instr_def using emits_by_strict [of strict] by (cases strict; cases keep) fastforce+

lemma map_getProp: "map_code J [i_prop P_getProp name] (\<lambda>c. get_prop (i_env J) c name)"
  by (simp add: map_code_def instr_getProp)

lemma map_deleteProp:
  "map_code J [i_prop (if strict then P_deletePropStrict else P_deleteProp) name] (\<lambda>c. del_prop (i_env J) strict c name)"
  by (simp add: map_code_def instr_deleteProp)

section \<open>Dot expressions\<close>

lemma good_valueD:
  assumes "good_value K I strict e x"
  shows "codes K I strict (v_getter x True) (\<lambda>J ins. value_code J ins (m_value (meaning_of J strict e)))"
    and "void_ok I e \<Longrightarrow> codes K I strict (v_getter x False) (\<lambda>J ins. effect_code J ins (m_effect (meaning_of J strict e)))"
    and "codes K I strict (typeof_getter x) (\<lambda>J ins. value_code J ins (m_typeof (meaning_of J strict e)))"
    and "script_scope strict c \<Longrightarrow> v_constant x c = Inr (cval I e \<noteq> None)" and "v_named x = None"
  using assms by (auto simp: good_value_def)

lemma dot_value:
  assumes "good_value K I strict e x"
    and "\<And>J. m_value (meaning_of J strict e') = thenA (m_value (meaning_of J strict e)) (\<lambda>c. get_prop (i_env J) c name)"
    and "\<And>J. m_effect (meaning_of J strict e') = m_value (meaning_of J strict e')"
    and "\<And>J. m_typeof (meaning_of J strict e') = m_value (meaning_of J strict e')"
    and "cval I e' = None"
  shows "good_value K I strict e' (compiledDotExpr x name)"
proof (rule good_value_popping)
  show "v_getter (compiledDotExpr x name) keep = seqE (seqE (v_getter x True) (emit (i_prop P_getProp name))) (emit_pop_unless keep)"
    for keep
    by (simp add: compiledDotExpr_def emit_property_value_def seqE_assoc)
  show "codes K I strict (seqE (v_getter x True) (emit (i_prop P_getProp name)))
      (\<lambda>J ins. value_code J ins (m_value (meaning_of J strict e')))"
    unfolding assms(2) by (rule codes_value_map [OF good_valueD(1) [OF assms(1)] emits_emit map_getProp])
qed (simp_all add: compiledDotExpr_def assms)

lemma dot_target:
  assumes "good_value K I strict e x"
  shows "good_target K I strict (DotExpression e name) (compiledDotExpr x name)"
proof -
  let ?tgt = "\<lambda>J. thenA (m_value (meaning_of J strict e)) (\<lambda>c. returnA (L_prop c name))"
  have m: "m_target (meaning_of J strict (DotExpression e name)) = ?tgt J" for J by (simp add: Let_def)
  have o': "codes K I strict (v_getter x True) (\<lambda>J ins. operand_code J ins (?tgt J))"
    by (rule codes_mono [OF good_valueD(1) [OF assms] operand_prop])
  have a: "?tgt J s = (s', Inr t) \<Longrightarrow> access_code J strict t 2 [i_dup, i_prop P_getProp name]
       [store_instr strict True name] [store_instr strict False name]" for J s s' t
    using access_prop by (auto simp: thenA_def split: prod.splits sum.splits)
  have st: "emits_code strict (prop_store keep name) (if keep then [store_instr strict True name] else [store_instr strict False name])"
    for keep using emits_prop_store [of strict keep name] by (cases keep) simp_all
  have "emits_code strict (by_strict (i_prop P_getPropRefStrict name) (i_prop P_getPropRef name))
      [i_prop (if strict then P_getPropRefStrict else P_getPropRef) name]"
    using emits_by_strict [of strict "i_prop P_getPropRefStrict name" "i_prop P_getPropRef name"] by (cases strict) simp_all
  note rf = codes_ref [OF o' this]
  have t: "?tgt J s = (s', Inr t) \<Longrightarrow> \<exists>c. t = L_prop c name" for J s s' t
    by (auto simp: thenA_def split: prod.splits sum.splits)
  have i: "?tgt J s = (s', Inr t) \<Longrightarrow> implements J [i_prop (if strict then P_getPropRefStrict else P_getPropRef) name]
      (xs @ cells t) rs (thenA (ref_of_lref (i_env J) strict t) (\<lambda>r. returnA (xs, rs @ [r])))" for J s s' t xs rs
    by (drule t) (elim exE, simp only: cells.simps instr_getPropRef)
  have r: "codes K I strict (x_ref (compiledDotExpr x name))
      (\<lambda>J ins. ref_code J ins (thenA (?tgt J) (ref_of_lref (i_env J) strict)))"
    using rf [OF i] by (simp add: compiledDotExpr_def del: ref_of_lref.simps)
  show ?thesis unfolding good_target_def m
  proof (intro conjI allI impI)
    fix y :: cvalue and ev keep
    assume "codes K I strict (v_getter y True) (\<lambda>J ins. value_code J ins (ev J))"
    from codes_assign [OF o' st a this] show "codes K I strict (x_setter (compiledDotExpr x name) y keep)
        (\<lambda>J ins. keep_code keep J ins (assign_lref (i_env J) strict (?tgt J) (ev J)))"
      by (simp add: compiledDotExpr_def compiledDotExpr_emitSetter_def)
  next
    fix prepare prep body f postfix keep
    assume "codes K I strict (case prepare of Some p \<Rightarrow> p | None \<Rightarrow> skipE) (\<lambda>J ins. map_code J ins (prep J))"
      "codes K I strict body (\<lambda>J ins. map_code J ins (f J))"
    from codes_property_unary [OF o' emits_emits emits_prop_store emits_prop_store a this]
    show "codes K I strict (x_unary (compiledDotExpr x name) prepare body postfix keep)
      (\<lambda>J ins. keep_code keep J ins (update_lref (i_env J) strict (?tgt J) (if keep then prep J else returnA) (f J) postfix))"
      by (simp add: compiledDotExpr_def compiledDotExpr_emitUnary_def)
  qed (use r in simp)
qed

lemma good_deleteI:
  assumes "\<And>keep. x_delete x keep = seqE f (emit_pop_unless keep)"
    and "codes K I strict f (\<lambda>J ins. value_code J ins (m_delete (meaning_of J strict e)))"
  shows "good_delete K I strict e x"
  using emits_getter_pop [OF assms(2)] by (simp add: good_delete_def assms(1))

lemma dot_delete:
  assumes "good_value K I strict e x"
    and "\<And>J. J = I \<or> J = e_I K \<Longrightarrow> m_delete (meaning_of J strict e')
      = thenA (m_value (meaning_of J strict e)) (\<lambda>c. del_prop (i_env J) strict c name)"
  shows "good_delete K I strict e' (compiledDotExpr x name)"
proof (rule good_deleteI)
  let ?d = "by_strict (i_prop P_deletePropStrict name) (i_prop P_deleteProp name)"
  show "x_delete (compiledDotExpr x name) keep = seqE (seqE (v_getter x True) ?d) (emit_pop_unless keep)" for keep
    by (simp add: compiledDotExpr_def compiledDotExpr_emitDelete_def seqE_assoc)
  have d: "emits_code strict ?d [i_prop (if strict then P_deletePropStrict else P_deleteProp) name]"
    using emits_by_strict [of strict "i_prop P_deletePropStrict name" "i_prop P_deleteProp name"] by (cases strict) simp_all
  have "codes K I strict (seqE (v_getter x True) ?d) (\<lambda>J ins. value_code J ins
      (thenA (m_value (meaning_of J strict e)) (\<lambda>c. del_prop (i_env J) strict c name)))"
    by (rule codes_value_map [OF good_valueD(1) [OF assms(1)] d map_deleteProp])
  then show "codes K I strict (seqE (v_getter x True) ?d) (\<lambda>J ins. value_code J ins (m_delete (meaning_of J strict e')))"
    by (rule codes_mono) (simp add: assms(2))
qed

section \<open>Bracket expressions\<close>

lemma codes_value2:
  assumes "codes K I strict f (\<lambda>J ins. value_code J ins (l J))" "codes K I strict g (\<lambda>J ins. value_code J ins (r J))"
    and "emits_code strict h c" "\<And>J x y zs rs. implements J c (zs @ [x, y]) rs (pushv (op' J x y) zs rs)"
  shows "codes K I strict (seqE f (seqE g h)) (\<lambda>J ins. value_code J ins (thenA (l J) (\<lambda>x. thenA (r J) (op' J x))))"
  using assms(1,2)
  by (elim codesE) (rule codesI, erule emits_seqE, erule emits_seqE, rule assms(3), simp add: value_value assms(4))

lemma bracket_value:
  assumes "good_value K I strict e x" "good_value K I strict k y"
  shows "good_value K I strict (BracketExpression e k) (compiledBracketExpr x y)"
proof (rule good_value_popping)
  let ?f = "seqE (v_getter x True) (seqE (v_getter y True) (emit (i_elem E_getElem)))"
  show "v_getter (compiledBracketExpr x y) keep = seqE ?f (emit_pop_unless keep)" for keep
    by (simp add: compiledBracketExpr_def emit_property_value_def elem_operands_def seqE_assoc)
  show "codes K I strict ?f (\<lambda>J ins. value_code J ins (m_value (meaning_of J strict (BracketExpression e k))))"
    using codes_value2 [OF good_valueD(1) [OF assms(1)] good_valueD(1) [OF assms(2)] emits_emit instr_getElem]
    by (simp add: Let_def)
qed (simp_all add: compiledBracketExpr_def Let_def)

lemma bracket_operands:
  assumes "good_value K I strict e x" "good_value K I strict k y"
  shows "codes K I strict (elem_operands x y) (\<lambda>J ins. operand_code J ins (thenA (m_value (meaning_of J strict e))
     (\<lambda>c. thenA (m_value (meaning_of J strict k)) (\<lambda>k. returnA (L_elem c k)))))"
  unfolding elem_operands_def
  by (rule codes_seqE [OF good_valueD(1) [OF assms(1)] good_valueD(1) [OF assms(2)]]) (rule operand_elem)

lemma bracket_target:
  assumes "good_value K I strict e x" "good_value K I strict k y"
  shows "good_target K I strict (BracketExpression e k) (compiledBracketExpr x y)"
proof -
  let ?tgt = "\<lambda>J. thenA (m_value (meaning_of J strict e)) (\<lambda>c. thenA (m_value (meaning_of J strict k)) (\<lambda>k. returnA (L_elem c k)))"
  let ?x = "compiledBracketExpr x y" and ?st = "[store_elem_instr strict True]" and ?stP = "[store_elem_instr strict False]"
  have m: "m_target (meaning_of J strict (BracketExpression e k)) = ?tgt J" for J by (simp add: Let_def)
  note o' = bracket_operands [OF assms]
  have t: "?tgt J s = (s', Inr t) \<Longrightarrow> \<exists>c k. t = L_elem c k" for J s s' t
    by (auto simp: thenA_def split: prod.splits sum.splits)
  then have a: "?tgt J s = (s', Inr t) \<Longrightarrow> access_code J strict t 3 [i_dupLast 2, i_elem E_getElem] ?st ?stP" for J s s' t
    using access_elem by blast
  have st: "emits_code strict (by_strict (i_elem E_setElemStrict) (i_elem E_setElem)) ?st"
    using emits_elem_store [of strict True] by simp
  have stp: "emits_code strict (if keep then by_strict (i_elem E_setElemStrict) (i_elem E_setElem)
     else by_strict (i_elem E_setElemStrictP) (i_elem E_setElemP)) (if keep then ?st else ?stP)" for keep
    using emits_elem_store [of strict keep] by (cases keep) simp_all
  have "emits_code strict (by_strict (i_elem E_getElemRefStrict) (i_elem E_getElemRef))
      [i_elem (if strict then E_getElemRefStrict else E_getElemRef)]"
    using emits_by_strict [of strict "i_elem E_getElemRefStrict" "i_elem E_getElemRef"] by (cases strict) simp_all
  note rf = codes_ref [OF o' this]
  have i: "?tgt J s = (s', Inr t) \<Longrightarrow> implements J [i_elem (if strict then E_getElemRefStrict else E_getElemRef)]
      (xs @ cells t) rs (thenA (ref_of_lref (i_env J) strict t) (\<lambda>r. returnA (xs, rs @ [r])))" for J s s' t xs rs
    by (drule t) (elim exE, simp only: cells.simps instr_getElemRef)
  have r: "codes K I strict (x_ref ?x)
      (\<lambda>J ins. ref_code J ins (thenA (?tgt J) (ref_of_lref (i_env J) strict)))"
    using rf [OF i] by (simp add: compiledBracketExpr_def del: ref_of_lref.simps)
  show ?thesis unfolding good_target_def m
  proof (intro conjI allI impI)
    fix z :: cvalue and ev keep
    assume "codes K I strict (v_getter z True) (\<lambda>J ins. value_code J ins (ev J))"
    from codes_assign [OF o' stp a this] show "codes K I strict (x_setter ?x z keep)
        (\<lambda>J ins. keep_code keep J ins (assign_lref (i_env J) strict (?tgt J) (ev J)))"
      by (simp add: compiledBracketExpr_def compiledBracketExpr_emitSetter_def elem_operands_def seqE_assoc)
  next
    fix prepare prep body f postfix keep
    assume p: "codes K I strict (case prepare of Some p \<Rightarrow> p | None \<Rightarrow> skipE) (\<lambda>J ins. map_code J ins (prep J))"
      "codes K I strict body (\<lambda>J ins. map_code J ins (f J))"
    from codes_property_unary [OF o' emits_emits st emits_seqE [OF st emits_emit] access_pop [OF a] p]
    show "codes K I strict (x_unary ?x prepare body postfix keep)
      (\<lambda>J ins. keep_code keep J ins (update_lref (i_env J) strict (?tgt J) (if keep then prep J else returnA) (f J) postfix))"
      by (simp add: compiledBracketExpr_def compiledBracketExpr_emitUnary_def)
  qed (use r in simp)
qed

lemma bracket_delete:
  assumes "good_value K I strict e x" "good_value K I strict k y"
  shows "good_delete K I strict (BracketExpression e k) (compiledBracketExpr x y)"
proof (rule good_deleteI)
  let ?d = "by_strict (i_elem E_deleteElemStrict) (i_elem E_deleteElem)"
  let ?f = "seqE (v_getter x True) (seqE (v_getter y True) ?d)"
  show "x_delete (compiledBracketExpr x y) keep = seqE ?f (emit_pop_unless keep)" for keep
    by (simp add: compiledBracketExpr_def compiledBracketExpr_emitDelete_def seqE_assoc)
  have d: "emits_code strict ?d [i_elem (if strict then E_deleteElemStrict else E_deleteElem)]"
    using emits_by_strict [of strict "i_elem E_deleteElemStrict" "i_elem E_deleteElem"] by (cases strict) simp_all
  show "codes K I strict ?f (\<lambda>J ins. value_code J ins (m_delete (meaning_of J strict (BracketExpression e k))))"
    using codes_value2 [OF good_valueD(1) [OF assms(1)] good_valueD(1) [OF assms(2)] d instr_deleteElem]
    by (simp add: Let_def)
qed

section \<open>Identifiers as targets\<close>

lemma getValue_then:
  assumes "off_stack r" "\<not> is_objRef r" "\<And>v. implements J b (zs @ [v]) (qs @ [r]) (f v)"
  shows "implements J ([i_getValue] @ b) zs (qs @ [r]) (thenA (read_lref (i_env J) (L_ref r)) f)"
proof -
  have "implements J ([i_getValue] @ b) zs (qs @ [r]) (thenA (ref_get (i_env J) r) (\<lambda>y. f (nilSafe (snd y))))"
  proof (rule implements_bind [where g = "\<lambda>y. (zs @ [nilSafe (snd y)], qs @ [fst y])"])
    show "implements J [i_getValue] zs (qs @ [r])
        (thenA (ref_get (i_env J) r) (\<lambda>y. returnA (zs @ [nilSafe (snd y)], qs @ [fst y])))"
      using instr_getValue [OF assms(1), of J zs qs] by (simp add: case_prod_beta' del: act_simps)
  next
    fix s s' x
    assume "ref_get (i_env J) r s = (s', Inr x)"
    then have "fst x = r" using ref_get_same [of "i_env J" r s s' "fst x" "snd x"] assms(2) by simp
    then show "implements J b (fst (zs @ [nilSafe (snd x)], qs @ [fst x])) (snd (zs @ [nilSafe (snd x)], qs @ [fst x]))
        (f (nilSafe (snd x)))"
      using assms(3) by simp
  qed
  then show ?thesis by (simp only: read_lref.simps thenA_assoc case_prod_beta' thenA_returnA_bind)
qed

lemma putValue_end:
  assumes "off_stack r"
  shows "implements J [i_putValue] (zs @ [x]) (qs @ [r]) (pushv (write_lref (i_env J) strict (L_ref r) x) zs qs)"
    and "implements J [i_putValueP] (zs @ [x]) (qs @ [r]) (thenA (write_lref (i_env J) strict (L_ref r) x) (\<lambda>_. returnA (zs, qs)))"
  using instr_putValue [OF assms] instr_putValueP [OF assms]
  by (simp_all only: write_lref.simps seqA_def pushv_thenA pushv_returnA thenA_assoc thenA_returnA_bind)

definition var_target :: "ienv \<Rightarrow> bool \<Rightarrow> ustr \<Rightarrow> lref act" where
  "var_target J strict name = thenA (resolve_name (i_env J) strict name) (\<lambda>r. returnA (L_ref r))"

lemma var_then:
  assumes "\<And>r. off_stack r \<Longrightarrow> \<not> is_objRef r \<Longrightarrow> implements J b xs (rs @ [r]) (f (L_ref r))"
  shows "implements J ([i_name (if strict then N_resolveVar1Strict else N_resolveVar1) name] @ b) xs rs
    (thenA (var_target J strict name) f)"
  unfolding var_target_def thenA_assoc thenA_returnA_bind
  by (rule ref_then [OF instr_resolveVar1], rule assms, erule resolve_off_stack, erule resolve_not_objRef)

lemma var_assign:
  assumes "value_code J b ev"
  shows "keep_code keep J ([i_name (if strict then N_resolveVar1Strict else N_resolveVar1) name] @ b
      @ [if keep then i_putValue else i_putValueP]) (assign_lref (i_env J) strict (var_target J strict name) ev)"
proof (cases keep)
  case True
  have "value_code J ([i_name (if strict then N_resolveVar1Strict else N_resolveVar1) name] @ b @ [i_putValue])
     (assign_lref (i_env J) strict (var_target J strict name) ev)"
    unfolding value_code_def assign_lref_def pushv_thenA
    by (intro allI, rule var_then, rule value_then [OF assms], rule putValue_end)
  then show ?thesis using True by (simp add: keep_code_def)
next
  case False
  have "effect_code J ([i_name (if strict then N_resolveVar1Strict else N_resolveVar1) name] @ b @ [i_putValueP])
     (assign_lref (i_env J) strict (var_target J strict name) ev)"
    unfolding effect_code_def assign_lref_def thenA_assoc
    by (intro allI, rule var_then, rule value_then [OF assms], rule putValue_end)
  then show ?thesis using False by (simp add: keep_code_def)
qed

lemma rdup_put_pop:
  assumes "off_stack r"
  shows "implements J ([i_rdupN 1] @ [i_putValue] @ [i_pop]) (zs @ [c, x]) (qs @ [r])
    (pushv (write_lref (i_env J) strict (L_ref r) x) zs qs)"
proof (rule implements_returnA)
  show "implements J [i_rdupN 1] (zs @ [c, x]) (qs @ [r]) (returnA (zs @ [x, x], qs @ [r]))"
    using instr_rdupN [of 0 "[]" J zs c x "qs @ [r]"] by (simp del: act_simps)
  have "implements J ([i_putValue] @ [i_pop]) ((zs @ [x]) @ [x]) (qs @ [r])
      (thenA (write_lref (i_env J) strict (L_ref r) x) (\<lambda>_. returnA (zs @ [x], qs)))"
  proof (rule implements_bind [where g = "\<lambda>y. ((zs @ [x]) @ [y], qs)"])
    show "implements J [i_putValue] ((zs @ [x]) @ [x]) (qs @ [r])
        (thenA (write_lref (i_env J) strict (L_ref r) x) (\<lambda>y. returnA ((zs @ [x]) @ [y], qs)))"
      using putValue_end(1) [OF assms, of J "zs @ [x]" x qs strict] unfolding pushv_def .
  qed (use instr_pop [of J "zs @ [x]"] in simp)
  moreover have "thenA (write_lref (i_env J) strict (L_ref r) x) (\<lambda>_. returnA (zs @ [x], qs))
      = pushv (write_lref (i_env J) strict (L_ref r) x) zs qs"
    by (simp only: write_lref.simps seqA_def pushv_thenA pushv_returnA thenA_assoc thenA_returnA_bind)
  ultimately show "implements J ([i_putValue] @ [i_pop]) (zs @ [x, x]) (qs @ [r])
      (pushv (write_lref (i_env J) strict (L_ref r) x) zs qs)" by simp
qed

lemma rdup_body_put_pop:
  assumes "off_stack r" "map_code J b f"
  shows "implements J ([i_rdupN 1] @ b @ [i_putValue] @ [i_pop]) (zs @ [c, x]) (qs @ [r])
    (thenA (f x) (\<lambda>new. thenA (write_lref (i_env J) strict (L_ref r) new) (\<lambda>w. returnA (zs @ [x], qs))))"
proof (rule implements_returnA)
  show "implements J [i_rdupN 1] (zs @ [c, x]) (qs @ [r]) (returnA (zs @ [x, x], qs @ [r]))"
    using instr_rdupN [of 0 "[]" J zs c x "qs @ [r]"] by (simp del: act_simps)
  have "implements J (b @ [i_putValue] @ [i_pop]) ((zs @ [x]) @ [x]) (qs @ [r])
    (thenA (f x) (\<lambda>new. thenA (write_lref (i_env J) strict (L_ref r) new) (\<lambda>w. returnA (zs @ [x], qs))))"
  proof (rule map_then [OF assms(2)])
    fix y
    show "implements J ([i_putValue] @ [i_pop]) ((zs @ [x]) @ [y]) (qs @ [r])
        (thenA (write_lref (i_env J) strict (L_ref r) y) (\<lambda>w. returnA (zs @ [x], qs)))"
    proof (rule implements_bind [where g = "\<lambda>w. ((zs @ [x]) @ [w], qs)"])
      show "implements J [i_putValue] ((zs @ [x]) @ [y]) (qs @ [r])
          (thenA (write_lref (i_env J) strict (L_ref r) y) (\<lambda>w. returnA ((zs @ [x]) @ [w], qs)))"
        using putValue_end(1) [OF assms(1), of J "zs @ [x]" y qs strict] unfolding pushv_def .
    qed (use instr_pop [of J "zs @ [x]"] in simp)
  qed
  then show "implements J (b @ [i_putValue] @ [i_pop]) (zs @ [x, x]) (qs @ [r])
    (thenA (f x) (\<lambda>new. thenA (write_lref (i_env J) strict (L_ref r) new) (\<lambda>w. returnA (zs @ [x], qs))))" by simp
qed

lemma var_update_value:
  assumes p: "map_code J p prep" and b: "map_code J b f"
  shows "value_code J ([i_name (if strict then N_resolveVar1Strict else N_resolveVar1) name] @ [i_loadUndef] @ [i_getValue]
      @ p @ (if postfix then [] else b) @ [i_rdupN 1] @ (if postfix then b else []) @ [i_putValue] @ [i_pop])
    (update_lref (i_env J) strict (var_target J strict name) prep f postfix)"
proof -
  have r: "implements J ([i_loadUndef] @ c) xs rs ev" if "implements J c (xs @ [CVal VUndefined]) rs ev" for c xs rs ev
    using value_then [OF instr_loads(2), of J c xs rs "\<lambda>_. ev"] that
    by (simp add: thenA_returnA_bind returnA_def)
  have pre: "implements J ([i_getValue] @ p @ b @ [i_rdupN 1] @ [i_putValue] @ [i_pop]) (xs @ [CVal VUndefined]) (rs @ [r])
     (thenA (read_lref (i_env J) (L_ref r)) (\<lambda>x. thenA (prep x) (\<lambda>old. thenA (f old) (\<lambda>new.
        pushv (write_lref (i_env J) strict (L_ref r) new) xs rs))))"
    if o': "off_stack r" "\<not> is_objRef r" for xs rs r
  proof (rule getValue_then [OF o'], rule map_then [OF p], rule map_then [OF b])
    show "implements J ([i_rdupN 1] @ [i_putValue] @ [i_pop]) ((xs @ [CVal VUndefined]) @ [y]) (rs @ [r])
        (pushv (write_lref (i_env J) strict (L_ref r) y) xs rs)" for y
      using rdup_put_pop [OF o'(1), of J xs "CVal VUndefined" y rs strict] by (simp del: act_simps)
  qed
  have post: "implements J ([i_getValue] @ p @ [i_rdupN 1] @ b @ [i_putValue] @ [i_pop]) (xs @ [CVal VUndefined]) (rs @ [r])
     (thenA (read_lref (i_env J) (L_ref r)) (\<lambda>x. thenA (prep x) (\<lambda>old. thenA (f old) (\<lambda>new.
        thenA (write_lref (i_env J) strict (L_ref r) new) (\<lambda>w. returnA (xs @ [old], rs))))))"
    if o': "off_stack r" "\<not> is_objRef r" for xs rs r
  proof (rule getValue_then [OF o'], rule map_then [OF p])
    show "implements J ([i_rdupN 1] @ b @ [i_putValue] @ [i_pop]) ((xs @ [CVal VUndefined]) @ [y]) (rs @ [r])
        (thenA (f y) (\<lambda>new. thenA (write_lref (i_env J) strict (L_ref r) new) (\<lambda>w. returnA (xs @ [y], rs))))" for y
      using rdup_body_put_pop [OF o'(1) b, of xs "CVal VUndefined" y rs strict] by (simp del: act_simps)
  qed
  show ?thesis
  proof (cases postfix)
    case True
    then have pp: "postfix = True" by simp
    show ?thesis unfolding pp if_True append_Nil
      unfolding value_code_def update_lref_def pushv_thenA if_True thenA_assoc pushv_returnA
      by (intro allI, rule var_then, rule r, rule post)
  next
    case False
    then have np: "postfix = False" by simp
    show ?thesis unfolding np if_False append_Nil
      unfolding value_code_def update_lref_def pushv_thenA if_False thenA_assoc thenA_returnA
      by (intro allI, rule var_then, rule r, rule pre)
  qed
qed

lemma var_update_effect:
  assumes b: "map_code J b f"
  shows "effect_code J ([i_name (if strict then N_resolveVar1Strict else N_resolveVar1) name] @ [i_getValue] @ b @ [i_putValueP])
    (update_lref (i_env J) strict (var_target J strict name) returnA f postfix)"
  unfolding effect_code_def update_lref_def thenA_returnA thenA_assoc thenA_returnA_bind
  by (intro allI, rule var_then, rule getValue_then, assumption, assumption, rule map_then [OF b], rule putValue_end)

lemma emits_emitVarRef:
  assumes "assignable I strict (Identifier name)"
  shows "emits_code strict (emitVarRef name None) [i_name (if strict then N_resolveVar1Strict else N_resolveVar1) name]"
proof -
  have "emits_code strict (when_strict (checkIdentifierLName name)) []"
    by (rule emits_when_strict) (use assms emits_checkIdentifierLName in simp)
  from emits_seqE [OF this emits_by_strict [of strict "i_name N_resolveVar1Strict name" "i_name N_resolveVar1 name"]]
  show ?thesis by (cases strict) (simp_all add: emitVarRef_def)
qed

lemma emits_VarSetter1:
  assumes "assignable I strict (Identifier name)" "emits_code strict (f True) a"
  shows "emits_code strict (compiledIdentifierExpr_emitVarSetter1 name keep f)
    ([i_name (if strict then N_resolveVar1Strict else N_resolveVar1) name] @ a @ [if keep then i_putValue else i_putValueP])"
  unfolding compiledIdentifierExpr_emitVarSetter1_def
  by (rule emits_with_binding)
    (simp only: if_False seqEs.simps, intro emits_seqE emits_emitVarRef [OF assms(1)] assms(2) emits_emit)

lemma identifier_simps:
  "x_ref (compiledIdentifierExpr K name) = with_binding name (\<lambda>b _. emitVarRef name b)"
  "x_setter (compiledIdentifierExpr K name) y keep =
     compiledIdentifierExpr_emitVarSetter1 name keep (\<lambda>_. emitNamedOrConst K y name)"
  "x_unary (compiledIdentifierExpr K name) = compiledIdentifierExpr_emitUnary name"
  "x_delete (compiledIdentifierExpr K name) = compiledIdentifierExpr_emitDelete name"
  by (simp_all add: compiledIdentifierExpr_def compiledIdentifierExpr_emitVarSetter_def
      compiledIdentifierExpr_emitRef_def)

lemma identifier_target:
  assumes a: "assignable I strict (Identifier name)"
  shows "good_target K I strict (Identifier name) (compiledIdentifierExpr K name)"
proof -
  let ?x = "compiledIdentifierExpr K name" and ?n = "i_name (if strict then N_resolveVar1Strict else N_resolveVar1) name"
  have m: "m_target (meaning_of J strict (Identifier name)) = var_target J strict name" for J
    by (simp add: var_target_def)
  have r: "codes K I strict (x_ref ?x) (\<lambda>J ins. ref_code J ins
      (thenA (var_target J strict name) (ref_of_lref (i_env J) strict)))"
  proof (rule codesI)
    show "emits_code strict (x_ref ?x) [?n]"
      unfolding identifier_simps
      by (rule emits_with_binding, rule emits_emitVarRef [OF a])
    have "thenA (var_target J strict name) (ref_of_lref (i_env J) strict) = resolve_name (i_env J) strict name" for J
      by (simp only: var_target_def thenA_assoc thenA_returnA_bind ref_of_lref.simps thenA_returnA)
    then show "ref_code J [?n] (thenA (var_target J strict name) (ref_of_lref (i_env J) strict))" for J
      by (simp only: instr_resolveVar1)
  qed
  show ?thesis unfolding good_target_def m
  proof (intro conjI allI impI)
    fix y :: cvalue and ev keep
    assume y: "codes K I strict (emitExpr K y True) (\<lambda>J ins. value_code J ins (ev J))" "v_named y = None"
    have e: "emitNamedOrConst K y name = emitExpr K y True"
      unfolding emitNamedOrConst_def emitExpr_def emitNamed_def y(2) option.case by (rule refl)
    show "codes K I strict (x_setter ?x y keep)
        (\<lambda>J ins. keep_code keep J ins (assign_lref (i_env J) strict (var_target J strict name) (ev J)))"
      using y(1)
    proof (elim codesE, intro codesI)
      fix ins
      assume "emits_code strict (emitExpr K y True) ins"
      then show "emits_code strict (x_setter ?x y keep) ([?n] @ ins @ [if keep then i_putValue else i_putValueP])"
        by (simp only: identifier_simps)
          (rule emits_VarSetter1 [OF a], simp only: e)
    qed (rule var_assign, simp)
  next
    fix prepare prep body f postfix keep
    assume p: "codes K I strict (case prepare of Some p \<Rightarrow> p | None \<Rightarrow> skipE) (\<lambda>J ins. map_code J ins (prep J))"
      and b: "codes K I strict body (\<lambda>J ins. map_code J ins (f J))"
    obtain pi' where p1: "emits_code strict (case prepare of Some p \<Rightarrow> p | None \<Rightarrow> skipE) pi'"
      "\<And>J. J = I \<or> J = e_I K \<Longrightarrow> map_code J pi' (prep J)" using codes_ex [OF p] by blast
    obtain bi where b1: "emits_code strict body bi" "\<And>J. J = I \<or> J = e_I K \<Longrightarrow> map_code J bi (f J)"
      using codes_ex [OF b] by blast
    show "codes K I strict (x_unary ?x prepare body postfix keep)
      (\<lambda>J ins. keep_code keep J ins (update_lref (i_env J) strict (var_target J strict name)
        (if keep then prep J else returnA) (f J) postfix))"
    proof (cases keep)
      case True
      then have k: "keep = True" by simp
      let ?ins = "([?n] @ ([i_loadUndef] @ [i_getValue] @ pi' @ (if \<not> postfix then bi else []) @ [i_rdupN 1]
          @ (if postfix then bi else [])) @ [i_putValue]) @ [i_pop]"
      have "emits_code strict (x_unary ?x prepare body postfix True) ?ins"
        unfolding identifier_simps compiledIdentifierExpr_emitUnary_def Let_def if_True
        by (rule emits_seqE [OF emits_VarSetter1 [OF a, where keep = True, unfolded if_True] emits_emit])
          (simp only: seqEs.simps if_True, intro emits_seqE emits_emit emits_whenE p1 b1)
      moreover have "?ins = [?n] @ [i_loadUndef] @ [i_getValue] @ pi' @ (if postfix then [] else bi) @ [i_rdupN 1]
          @ (if postfix then bi else []) @ [i_putValue] @ [i_pop]" by simp
      ultimately have "emits_code strict (x_unary ?x prepare body postfix True) ([?n] @ [i_loadUndef] @ [i_getValue] @ pi'
          @ (if postfix then [] else bi) @ [i_rdupN 1] @ (if postfix then bi else []) @ [i_putValue] @ [i_pop])" by metis
      then show ?thesis unfolding k keep_code_def if_True
        by (rule codesI) (rule var_update_value, erule p1(2), erule b1(2))
    next
      case False
      then have k: "keep = False" by simp
      have "emits_code strict (x_unary ?x prepare body postfix False) ([?n] @ ([i_getValue] @ bi) @ [i_putValueP])"
        unfolding identifier_simps compiledIdentifierExpr_emitUnary_def Let_def if_False
        by (rule emits_VarSetter1 [OF a, where keep = False, unfolded if_False])
          (simp only: seqEs.simps if_True, intro emits_seqE emits_emit b1)
      then have "emits_code strict (x_unary ?x prepare body postfix False) ([?n] @ [i_getValue] @ bi @ [i_putValueP])"
        by simp
      then show ?thesis unfolding k keep_code_def if_False
        by (rule codesI) (rule var_update_effect, erule b1(2))
    qed
  qed (use r in simp)
qed

lemma identifier_delete:
  assumes "\<not> strict"
  shows "good_delete K I strict (Identifier name) (compiledIdentifierExpr K name)"
  unfolding good_delete_def
proof (intro allI codesI)
  fix keep
  let ?f = "\<lambda>b noDynamics. case b of
      None \<Rightarrow> seqE (emit (i_name (if noDynamics then N_deleteGlobal else N_deleteVar) name)) (emit_pop_unless keep)
    | Some _ \<Rightarrow> whenE keep (emitLiteralValue (VBool False))"
  have "emits_code strict (with_binding name ?f) ([i_name N_deleteVar name] @ (if keep then [] else [i_pop]))"
    by (rule emits_with_binding) (simp only: option.case if_False, intro emits_seqE emits_emit emits_pop_unless)
  moreover have "x_delete (compiledIdentifierExpr K name) keep c = with_binding name ?f c" if "script_scope strict c" for c
    using that assms by (simp add: identifier_simps compiledIdentifierExpr_emitDelete_def script_scope_def)
  ultimately show "emits_code strict (x_delete (compiledIdentifierExpr K name) keep)
      ([i_name N_deleteVar name] @ (if keep then [] else [i_pop]))"
    by (simp add: emits_code_def)
qed (simp only: meaning_of.simps meaning.simps, rule keep_pop, rule instr_deleteVar)

text \<open>A key that is a constant string.\<close>

lemma elem_const_name:
  "get_elem E c (CVal (VString n)) = get_prop E c n" "del_elem E strict c (CVal (VString n)) = del_prop E strict c n"
proof -
  have k: "toPropertyKey E (VString n) = returnA (VString n)"
    by (rule ext) (simp add: toPropertyKey_def thenA_def)
  have g: "obj_get E a (VString n) v = obj_get_str E a n v" for a v
    by (simp add: obj_get_def obj_get_str_def object_get_def with_name_def)
  have d: "object_delete (x_env E) H a (VString n) strict = Some (deleteStr H a n strict)" for H a
    by (simp add: object_delete_def with_name_def)
  show "get_elem E c (CVal (VString n)) = get_prop E c n"
    by (simp only: get_elem_def get_prop_def act_cell_val k g thenA_returnA_bind)
  show "del_elem E strict c (CVal (VString n)) = del_prop E strict c n"
    by (simp only: del_elem_def del_prop_def act_cell_val k d thenA_returnA_bind)
qed

lemma const_name_meaning:
  assumes "setting K I" "const_name I k = Some n" "J = I \<or> J = e_I K"
  shows "m_value (meaning_of J strict k) = returnA (CVal (VString n))"
proof -
  have "cval I k = Some (Inr (VString n))"
    using assms(2) by (auto simp: const_name_def split: option.splits sum.splits jsval.splits)
  then have "cval J k = Some (Inr (VString n))" using assms(1,3) cval_same_host by (auto simp: setting_def)
  then show ?thesis using meaning_const by blast
qed

section \<open>Operators\<close>

lemma supported_const_ok: "supported I strict e \<Longrightarrow> const_ok I e"
  by (cases e) (simp_all add: const_ok_def)

lemma value_of_expr:
  assumes "setting K I" "good_value K I strict e x" "supported I strict e"
  shows "codes K I strict (emitExpr K x True) (\<lambda>J ins. value_code J ins (m_value (meaning_of J strict e)))"
  using emitExpr_code [OF assms(1,2) supported_const_ok [OF assms(3)], where keep = True] by simp

lemma binary_instr_cases:
  assumes "binary_instr t = Some i"
  shows "(\<exists>b. i = i_bin b) \<or> i = i_instanceof \<or> i = i_in"
  using assms by (cases t) auto

definition apply_instr :: "ienv \<Rightarrow> token \<Rightarrow> cell \<Rightarrow> cell \<Rightarrow> cell act" where
  "apply_instr J t x y = (case binary_instr t of
     Some (i_bin b) \<Rightarrow> apply_bin (bop_fun J b) x y
   | Some i_instanceof \<Rightarrow> instance_test J x y
   | Some i_in \<Rightarrow> in_test (i_env J) x y
   | _ \<Rightarrow> crash)"

lemma instr_binary:
  assumes "binary_instr t = Some i"
  shows "implements J [i] (zs @ [x, y]) rs (pushv (apply_instr J t x y) zs rs)"
  using binary_instr_cases [OF assms] assms instr_bin instr_instanceof instr_in
  by (auto simp: apply_instr_def simp del: bop_fun.simps)

lemma binary_value:
  assumes s: "setting K I" and l: "good_value K I strict l x" "supported I strict l"
    and r: "good_value K I strict r y" "supported I strict r" and t: "\<not> is_logical t" "binary_instr t = Some i"
  shows "good_value K I strict (BinaryExpression t l r) (compiledBinaryExpr K t x y)"
proof (rule good_value_popping)
  let ?f = "seqE (emitExpr K x True) (seqE (emitExpr K y True) (emit i))"
  show "v_getter (compiledBinaryExpr K t x y) keep = seqE ?f (emit_pop_unless keep)" for keep
    by (simp add: compiledBinaryExpr_def compiledBinaryExpr_emitGetter_def t seqE_assoc)
  have "m_value (meaning_of J strict (BinaryExpression t l r))
      = thenA (m_value (meaning_of J strict l)) (\<lambda>x. thenA (m_value (meaning_of J strict r)) (apply_instr J t x))" for J
    by (simp add: plain_def eval_binary_def t(1) apply_instr_def [abs_def])
  then show "codes K I strict ?f (\<lambda>J ins. value_code J ins (m_value (meaning_of J strict (BinaryExpression t l r))))"
    using codes_value2 [OF value_of_expr [OF s l] value_of_expr [OF s r] emits_emit instr_binary [OF t(2)]] by simp
  show "v_constant (compiledBinaryExpr K t x y) c = Inr (cval I (BinaryExpression t l r) \<noteq> None)"
    if "script_scope strict c" for c
    using good_valueD(4) [OF l(1) that] good_valueD(4) [OF r(1) that] t(1)
    by (auto simp: compiledBinaryExpr_def split: option.split)
qed (simp_all add: compiledBinaryExpr_def plain_def)

text \<open>The logical operators.\<close>

definition logical_jump :: "bool \<Rightarrow> token \<Rightarrow> jmp" where
  "logical_jump keep t =
     (if keep then if t = T_LOGICAL_AND then J_jne else if t = T_LOGICAL_OR then J_jeq else J_jcoalesc
      else if t = T_LOGICAL_AND then J_jneP else if t = T_LOGICAL_OR then J_jeqP else J_jcoalescP)"

lemma logical_jump_test:
  assumes "is_logical t"
  shows "is_test (logical_jump keep t)"
    and "jmp_test (logical_jump keep t) c
      = thenA (short_circuit t c) (\<lambda>d. returnA (d, if d \<and> keep then [c] else []))"
proof -
  show "is_test (logical_jump keep t)" by (simp add: logical_jump_def is_test_def)
  consider "t = T_LOGICAL_AND" | "t = T_LOGICAL_OR" | "t = T_COALESCE" using assms by (auto simp: is_logical_def)
  then show "jmp_test (logical_jump keep t) c
      = thenA (short_circuit t c) (\<lambda>d. returnA (d, if d \<and> keep then [c] else []))"
    by cases (cases keep; auto simp: logical_jump_def short_circuit_def thenA_assoc thenA_returnA_bind simp del: act_simps)+
qed

lemma map_logical:
  assumes t: "is_logical t" and b: "value_code J b r"
  shows "map_code J (i_jmp (logical_jump True t) (int (length b) + 1) # b)
    (\<lambda>x. thenA (short_circuit t x) (\<lambda>d. if d then returnA x else r))"
  unfolding map_code_def
proof (intro allI implements_shift)
  fix x rs
  have "implements J (i_jmp (logical_jump True t) (int (length b) + 1) # b) [x] rs
      (thenA (jmp_test (logical_jump True t) x) (\<lambda>(taken, ys). if taken then returnA (ys, rs) else pushv r [] rs))"
  proof (rule implements_jump_over [OF logical_jump_test(1) [OF t] refl])
    fix s s' ys
    assume "jmp_test (logical_jump True t) x s = (s', Inr (False, ys))"
    then have "ys = []" unfolding logical_jump_test(2) [OF t] by (auto simp: thenA_def split: prod.splits sum.splits)
    then show "implements J b ys rs (pushv r [] rs)" using b by (simp add: value_code_def)
  qed
  moreover have "thenA (jmp_test (logical_jump True t) x) (\<lambda>(taken, ys). if taken then returnA (ys, rs) else pushv r [] rs)
      = thenA (thenA (short_circuit t x) (\<lambda>d. if d then returnA x else r)) (\<lambda>y. returnA ([y], rs))"
    unfolding logical_jump_test(2) [OF t] thenA_assoc thenA_returnA_bind
    by (rule arg_cong [where f = "thenA (short_circuit t x)"])
      (auto simp: fun_eq_iff pushv_def thenA_def)
  ultimately show "implements J (i_jmp (logical_jump True t) (int (length b) + 1) # b) [x] rs
      (thenA (thenA (short_circuit t x) (\<lambda>d. if d then returnA x else r)) (\<lambda>y. returnA ([y], rs)))" by simp
qed

lemma logical_value:
  assumes s: "setting K I" and l: "good_value K I strict l x" "supported I strict l"
    and r: "good_value K I strict r y" "supported I strict r" and t: "is_logical t"
    and ok: "const_ok I (BinaryExpression t l r)"
    and g: "v_getter z = logical_emitGetter K (decides t) (logical_jump True t) el dec x y"
    and el: "codes K I strict el (\<lambda>J ins. value_code J ins (m_value (meaning_of J strict l)))"
    and dec: "\<And>v. dec v True = emitLiteralValue v"
    and c: "v_constant z = logical_constant K (decides t) x y"
    and n: "v_literal z = None" "v_named z = None" "x_getterOrRef z = None"
  shows "good_value K I strict (BinaryExpression t l r) z"
proof (rule good_valueI)
  let ?e = "BinaryExpression t l r"
  have kl: "v_constant x c = Inr (cval I l \<noteq> None)" if "script_scope strict c" for c
    using good_valueD(4) [OF l(1) that] .
  have m: "m_value (meaning_of J strict ?e) = thenA (m_value (meaning_of J strict l)) (\<lambda>x. thenA (short_circuit t x)
      (\<lambda>d. if d then returnA x else m_value (meaning_of J strict r)))"
    "m_effect (meaning_of J strict ?e) = m_value (meaning_of J strict ?e)" for J
    by (simp_all add: plain_def eval_binary_def t)
  show "codes K I strict (v_getter z keep) (\<lambda>J ins.
      if keep then value_code J ins (m_value (meaning_of J strict ?e))
      else effect_code J ins (m_effect (meaning_of J strict ?e)))" if keep: "keep \<or> void_ok I ?e" for keep
  proof (cases "cval I l")
    case None
    let ?f = "seqE el (jump_over (i_jmp (logical_jump True t)) (emitExpr K y True))"
    have f: "codes K I strict ?f (\<lambda>J ins. value_code J ins (m_value (meaning_of J strict ?e)))"
    proof (rule codes_seqE [OF el])
      have "\<exists>ins. emits_code strict (emitExpr K y True) ins \<and> (\<forall>J. J = I \<or> J = e_I K \<longrightarrow> value_code J ins (m_value (meaning_of J strict r)))"
        using codes_ex [OF value_of_expr [OF s r]] by blast
      then show "codes K I strict (jump_over (i_jmp (logical_jump True t)) (emitExpr K y True))
          (\<lambda>J ins. map_code J ins (\<lambda>x. thenA (short_circuit t x)
            (\<lambda>d. if d then returnA x else m_value (meaning_of J strict r))))"
        by (elim exE conjE) (rule codesI, erule emits_jump_over, rule map_logical [OF t], blast)
    qed (simp only: m value_map)
    have eq: "v_getter z keep c = seqE ?f (emit_pop_unless keep) c" if "script_scope strict c" for c
      using kl [OF that] None by (simp add: g logical_emitGetter_def seqE_assoc)
    have "codes K I strict (seqE ?f (emit_pop_unless keep)) (\<lambda>J ins. keep_code keep J ins (m_value (meaning_of J strict ?e)))"
      by (rule emits_getter_pop [OF f])
    then show ?thesis unfolding codes_def emits_code_def keep_code_def m(2) by (simp add: eq)
  next
    case (Some q)
    then obtain v where v: "cval I l = Some (Inr v)" using ok t by (cases q) (auto simp: const_ok_def)
    then have k: keep using keep t by simp
    have cv: "cval J l = Some (Inr v)" if "J = I \<or> J = e_I K" for J
      using that v s cval_same_host by (auto simp: setting_def)
    have eq: "v_getter z keep c = (if decides t v then emitLiteralValue v else emitExpr K y True) c"
      if "script_scope strict c" for c
      using kl [OF that] v k evalConst_good [OF s l(1) v that] by (simp add: g logical_emitGetter_def dec)
    show ?thesis
    proof (cases "decides t v")
      case True
      have mv: "m_value (meaning_of J strict ?e) = returnA (CVal v)" if "J = I \<or> J = e_I K" for J
      proof -
        have "cval J ?e = Some (Inr v)" using cv [OF that] True t by simp
        then show ?thesis using meaning_const by blast
      qed
      have "emits_code strict (v_getter z keep) [i_loadVal v]"
        using emits_literal [of strict v] True by (simp add: emits_code_def eq)
      then show ?thesis
      proof (rule codesI)
        show "if keep then value_code J [i_loadVal v] (m_value (meaning_of J strict ?e))
          else effect_code J [i_loadVal v] (m_effect (meaning_of J strict ?e))" if "J = I \<or> J = e_I K" for J
          unfolding mv [OF that] if_P [OF k] by (rule instr_loads(1))
      qed
    next
      case False
      have mv: "m_value (meaning_of J strict ?e) = m_value (meaning_of J strict r)" if "J = I \<or> J = e_I K" for J
        using meaning_const [OF cv [OF that], of strict] False t
        by (simp add: m(1) thenA_returnA_bind short_circuit_val del: act_simps meaning_of.simps)
      have "codes K I strict (v_getter z keep) (\<lambda>J ins. value_code J ins (m_value (meaning_of J strict r)))"
        using value_of_expr [OF s r] False by (simp add: codes_def emits_code_def eq)
      then show ?thesis using k by (rule_tac codes_mono) (simp_all only: if_True mv)
    qed
  qed
  show "v_constant z c = Inr (cval I ?e \<noteq> None)" if sc: "script_scope strict c" for c
  proof (cases "cval I l")
    case None
    then show ?thesis using kl [OF sc] t by (simp add: c logical_constant_def)
  next
    case (Some q)
    then obtain v where v: "cval I l = Some (Inr v)" using ok t by (cases q) (auto simp: const_ok_def)
    then show ?thesis using kl [OF sc] t evalConst_good [OF s l(1) v sc] good_valueD(4) [OF r(1) sc]
      by (simp add: c logical_constant_def)
  qed
qed (simp_all add: n plain_def)

section \<open>Unary operators\<close>

lemma good_targetD:
  assumes "good_target K I strict e x"
  shows "codes K I strict (v_getter y True) (\<lambda>J ins. value_code J ins (ev J)) \<Longrightarrow>
      codes K I strict (emitExpr K y True) (\<lambda>J ins. value_code J ins (ev J)) \<Longrightarrow> v_named y = None \<Longrightarrow>
      codes K I strict (x_setter x y keep)
        (\<lambda>J ins. keep_code keep J ins (assign_lref (i_env J) strict (m_target (meaning_of J strict e)) (ev J)))"
    and "codes K I strict (x_ref x) (\<lambda>J ins. ref_code J ins
        (thenA (m_target (meaning_of J strict e)) (ref_of_lref (i_env J) strict)))"
    and "codes K I strict (case prepare of Some p \<Rightarrow> p | None \<Rightarrow> skipE) (\<lambda>J ins. map_code J ins (prep J)) \<Longrightarrow>
      codes K I strict body (\<lambda>J ins. map_code J ins (f J)) \<Longrightarrow>
      codes K I strict (x_unary x prepare body postfix keep)
        (\<lambda>J ins. keep_code keep J ins (update_lref (i_env J) strict (m_target (meaning_of J strict e))
           (if keep then prep J else returnA) (f J) postfix))"
  using assms unfolding good_target_def by blast+

lemma instr_unary:
  "map_code J [i_un U_not] (apply_un (uop_fun J U_not))" "map_code J [i_un U_bnot] (apply_un (uop_fun J U_bnot))"
  "map_code J [i_un U_neg] (apply_un (uop_fun J U_neg))" "map_code J [i_un U_plus] (apply_un (uop_fun J U_plus))"
  by (rule instr_un)+

lemma unary_constant:
  assumes "good_value K I strict e x" "script_scope strict c"
  shows "v_constant (compiledUnaryExpr K t x postfix) c = Inr (cval I (UnaryExpression t e postfix) \<noteq> None)"
  using good_valueD(4) [OF assms] by (simp add: compiledUnaryExpr_def)

lemma unary_plain_value:
  assumes s: "setting K I" and g: "good_value K I strict e x" "supported I strict e" and t: "plain_unary t"
  shows "good_value K I strict (UnaryExpression t e postfix) (compiledUnaryExpr K t x postfix)"
proof -
  let ?e = "UnaryExpression t e postfix" and ?x = "compiledUnaryExpr K t x postfix"
  obtain f where f: "\<And>keep. v_getter ?x keep = seqE f (emit_pop_unless keep)"
    "codes K I strict f (\<lambda>J ins. value_code J ins (m_value (meaning_of J strict ?e)))"
  proof -
    note simps = compiledUnaryExpr_def compiledUnaryExpr_emitGetter_def seqE_assoc typeof_getter_def plain_def eval_unary_def
    consider "t = T_NOT" | "t = T_BITWISE_NOT" | "t = T_MINUS" | "t = T_PLUS" | "t = T_TYPEOF"
      using t by (auto simp: plain_unary_def)
    then show ?thesis
    proof cases
      case 1
      then show ?thesis
        by (intro that [of "seqE (v_getter x True) (emit (i_un U_not))"])
          (simp_all add: simps codes_value_map [OF good_valueD(1) [OF g(1)] emits_emit instr_unary(1)] del: uop_fun.simps)
    next
      case 2
      then show ?thesis
        by (intro that [of "seqE (v_getter x True) (emit (i_un U_bnot))"])
          (simp_all add: simps codes_value_map [OF good_valueD(1) [OF g(1)] emits_emit instr_unary(2)] del: uop_fun.simps)
    next
      case 3
      then show ?thesis
        by (intro that [of "seqE (emitExpr K x True) (emit (i_un U_neg))"])
          (simp_all add: simps codes_value_map [OF value_of_expr [OF s g] emits_emit instr_unary(3)] del: uop_fun.simps)
    next
      case 4
      then show ?thesis
        by (intro that [of "seqE (emitExpr K x True) (emit (i_un U_plus))"])
          (simp_all add: simps codes_value_map [OF value_of_expr [OF s g] emits_emit instr_unary(4)] del: uop_fun.simps)
    next
      case 5
      then show ?thesis
        by (intro that [of "seqE (typeof_getter x) (emit i_typeof)"])
          (simp_all add: simps codes_value_map [OF good_valueD(3) [OF g(1)] emits_emit instr_typeof, unfolded typeof_getter_def])
    qed
  qed
  have "m_effect (meaning_of J strict ?e) = m_value (meaning_of J strict ?e)" for J
    using t by (auto simp: plain_unary_def plain_def eval_unary_def)
  then show ?thesis
    by (intro good_value_popping [OF f]) (simp_all add: unary_constant [OF g(1)] del: meaning_of.simps, simp_all add: compiledUnaryExpr_def plain_def)
qed

lemma unary_void_value:
  assumes s: "setting K I" and g: "good_value K I strict e x" "supported I strict e" and v: "cval I e \<noteq> None \<or> void_ok I e"
  shows "good_value K I strict (UnaryExpression T_VOID e postfix) (compiledUnaryExpr K T_VOID x postfix)"
proof (rule good_valueI)
  let ?e = "UnaryExpression T_VOID e postfix" and ?x = "compiledUnaryExpr K T_VOID x postfix"
  have m: "m_value (meaning_of J strict ?e) = thenA (m_effect (meaning_of J strict e)) (\<lambda>_. returnA (CVal VUndefined))"
    "m_effect (meaning_of J strict ?e) = m_value (meaning_of J strict ?e)" for J
    by (simp_all add: plain_def eval_unary_def del: act_simps)
  have x: "codes K I strict (emitExpr K x False) (\<lambda>J ins. effect_code J ins (m_effect (meaning_of J strict e)))"
    using emitExpr_code [OF s g(1) supported_const_ok [OF g(2)], where keep = False] v by simp
  show "codes K I strict (v_getter ?x keep) (\<lambda>J ins.
      if keep then value_code J ins (m_value (meaning_of J strict ?e))
      else effect_code J ins (m_effect (meaning_of J strict ?e)))" for keep
  proof (cases keep)
    case True
    have "v_getter ?x keep = seqE (emitExpr K x False) (emit i_loadUndef)"
      using True by (simp add: compiledUnaryExpr_def compiledUnaryExpr_emitGetter_def whenE_def)
    moreover have "codes K I strict (seqE (emitExpr K x False) (emit i_loadUndef))
        (\<lambda>J ins. value_code J ins (m_value (meaning_of J strict ?e)))" unfolding m
      by (rule codes_seqE [OF x codes_emit [where Q = "\<lambda>J ins. value_code J ins (returnA (CVal VUndefined))"]])
        (rule instr_loads(2), rule effect_value)
    ultimately show ?thesis using True by simp
  next
    case False
    have "v_getter ?x keep = seqE (emitExpr K x False) skipE"
      using False by (simp add: compiledUnaryExpr_def compiledUnaryExpr_emitGetter_def whenE_def)
    moreover have "codes K I strict (seqE (emitExpr K x False) skipE)
        (\<lambda>J ins. effect_code J ins (m_effect (meaning_of J strict ?e)))" unfolding m
      by (rule codes_seqE [OF x codesI [OF emits_skip, where Q = "\<lambda>J ins. effect_code J ins (returnA (CVal VUndefined))"]])
        (rule effect_nil, rule effect_effect)
    ultimately show ?thesis using False by simp
  qed
  show "v_constant ?x c = Inr (cval I ?e \<noteq> None)" if "script_scope strict c" for c
    by (rule unary_constant [OF g(1) that])
qed (simp_all add: compiledUnaryExpr_def plain_def)

lemma unary_delete_value:
  assumes g: "good_value K I strict e x" "good_delete K I strict e x"
  shows "good_value K I strict (UnaryExpression T_DELETE e postfix) (compiledUnaryExpr K T_DELETE x postfix)"
proof (rule good_valueI)
  let ?e = "UnaryExpression T_DELETE e postfix" and ?x = "compiledUnaryExpr K T_DELETE x postfix"
  have m: "m_value (meaning_of J strict ?e) = m_delete (meaning_of J strict e)"
    "m_effect (meaning_of J strict ?e) = m_value (meaning_of J strict ?e)" for J
    by (simp_all add: plain_def eval_unary_def)
  have "v_getter ?x keep = x_delete x keep" for keep
    by (simp add: compiledUnaryExpr_def compiledUnaryExpr_emitGetter_def)
  then show "codes K I strict (v_getter ?x keep) (\<lambda>J ins.
      if keep then value_code J ins (m_value (meaning_of J strict ?e))
      else effect_code J ins (m_effect (meaning_of J strict ?e)))" for keep
    using g(2) unfolding good_delete_def keep_code_def m by simp
  show "v_constant ?x c = Inr (cval I ?e \<noteq> None)" if "script_scope strict c" for c
    by (rule unary_constant [OF g(1) that])
qed (simp_all add: compiledUnaryExpr_def plain_def)

lemma unary_update_value:
  assumes g: "good_value K I strict e x" "good_target K I strict e x" and t: "t = T_INCREMENT \<or> t = T_DECREMENT"
  shows "good_value K I strict (UnaryExpression t e postfix) (compiledUnaryExpr K t x postfix)"
proof (rule good_valueI)
  let ?e = "UnaryExpression t e postfix" and ?x = "compiledUnaryExpr K t x postfix"
  let ?u = "if t = T_INCREMENT then U_inc else U_dec"
  have m: "eval_unary J strict keep t (meaning_of J strict e) postfix
      = update_lref (i_env J) strict (m_target (meaning_of J strict e))
          (if keep then apply_un (uop_fun J U_toNumber) else returnA) (apply_un (uop_fun J ?u)) postfix" for J keep
    using t by (auto simp: eval_unary_def to_number_def simp del: uop_fun.simps act_simps)
  have v: "v_getter ?x keep = x_unary x (Some (emit (i_un U_toNumber))) (emit (i_un ?u)) postfix keep" for keep
    using t by (auto simp: compiledUnaryExpr_def compiledUnaryExpr_emitGetter_def)
  have "codes K I strict (case Some (emit (i_un U_toNumber)) of Some p \<Rightarrow> p | None \<Rightarrow> skipE)
      (\<lambda>J ins. map_code J ins (apply_un (uop_fun J U_toNumber)))"
    unfolding option.case by (rule codes_emit) (rule instr_un)
  moreover have "codes K I strict (emit (i_un ?u)) (\<lambda>J ins. map_code J ins (apply_un (uop_fun J ?u)))"
    by (rule codes_emit) (rule instr_un)
  ultimately have "codes K I strict (v_getter ?x keep)
      (\<lambda>J ins. keep_code keep J ins (eval_unary J strict keep t (meaning_of J strict e) postfix))" for keep
    unfolding v m by (rule good_targetD(3) [OF g(2)])
  then show "codes K I strict (v_getter ?x keep) (\<lambda>J ins.
      if keep then value_code J ins (m_value (meaning_of J strict ?e))
      else effect_code J ins (m_effect (meaning_of J strict ?e)))" for keep
    by (rule codes_mono) (cases keep, simp_all add: keep_code_def plain_def)
  show "v_constant ?x c = Inr (cval I ?e \<noteq> None)" if "script_scope strict c" for c
    by (rule unary_constant [OF g(1) that])
qed (simp_all add: compiledUnaryExpr_def plain_def)

section \<open>The conditional operator\<close>

lemma emits_conditional:
  assumes t: "emits_code strict (v_getter x True) a" and e: "emits_code strict (v_getter y keep) b"
    and f: "emits_code strict (v_getter z keep) c"
  shows "emits_code strict (compiledConditionalExpr_emitGetter x y z keep)
    (a @ i_jmp J_jneP (int (length b) + 2) # b @ i_jmp J_jump (int (length c) + 1) # c)"
  unfolding emits_code_def compiledConditionalExpr_emitGetter_def
  by (auto simp: seqE_def emit_def set_code_def emits_codeD [OF t] emits_codeD [OF e] emits_codeD [OF f] Let_def
      list_update_append add.commute)

lemma jneP_cond:
  "thenA (jmp_test J_jneP c) (\<lambda>(taken, ys). if taken then f ys else e ys)
     = thenA (cell_val c) (\<lambda>v. if ToBoolean v then e [] else f [])"
  unfolding jmp_test.simps thenA_assoc thenA_returnA_bind by (rule arg_cong [where f = "thenA (cell_val c)"]) auto

lemma jneP_taken:
  "jmp_test J_jneP c s = (s', Inr (d, ys)) \<Longrightarrow> ys = []"
  by (auto simp: thenA_def split: prod.splits sum.splits)

lemma map_conditional:
  assumes "value_code J b e" "value_code J c f"
  shows "map_code J (i_jmp J_jneP (int (length b) + 2) # b @ i_jmp J_jump (int (length c) + 1) # c)
    (\<lambda>x. thenA (cell_val x) (\<lambda>v. if ToBoolean v then e else f))"
  unfolding map_code_def
proof (intro allI implements_shift)
  fix x rs
  have "implements J (i_jmp J_jneP (int (length b) + 2) # b @ i_jmp J_jump (int (length c) + 1) # c) [x] rs
      (thenA (jmp_test J_jneP x) (\<lambda>(taken, ys). if taken then pushv f ys rs else pushv e ys rs))"
    using assms by (intro implements_cond) (auto simp: is_test_def value_code_def)
  then show "implements J (i_jmp J_jneP (int (length b) + 2) # b @ i_jmp J_jump (int (length c) + 1) # c) [x] rs
      (thenA (thenA (cell_val x) (\<lambda>v. if ToBoolean v then e else f)) (\<lambda>y. returnA ([y], rs)))"
    unfolding jneP_cond thenA_assoc pushv_def append_Nil by (simp add: if_distrib [where f = "\<lambda>m. thenA m g" for g] del: act_simps)
qed

text \<open>The same when the values are not wanted.\<close>

definition drop_code :: "ienv \<Rightarrow> instr list \<Rightarrow> (cell \<Rightarrow> cell act) \<Rightarrow> bool" where
  "drop_code J ins f \<longleftrightarrow> (\<forall>x xs rs. implements J ins (xs @ [x]) rs (thenA (f x) (\<lambda>_. returnA (xs, rs))))"

lemma value_drop: "value_code J a ev \<Longrightarrow> drop_code J b f \<Longrightarrow> effect_code J (a @ b) (thenA ev f)"
  unfolding effect_code_def thenA_assoc by (intro allI value_then) (simp_all add: drop_code_def)

lemma implements_shift_drop:
  assumes "\<And>rs. implements J ins [x] rs (thenA (f x) (\<lambda>_. returnA ([], rs)))"
  shows "implements J ins (xs @ [x]) rs (thenA (f x) (\<lambda>_. returnA (xs, rs)))"
  using implements_below [OF assms [of "[]"], of xs rs]
  by (simp only: thenA_assoc thenA_returnA_bind prod.case append_Nil2)

lemma drop_conditional:
  assumes "effect_code J b e" "effect_code J c f"
  shows "drop_code J (i_jmp J_jneP (int (length b) + 2) # b @ i_jmp J_jump (int (length c) + 1) # c)
    (\<lambda>x. thenA (cell_val x) (\<lambda>v. if ToBoolean v then e else f))"
  unfolding drop_code_def
proof (intro allI implements_shift_drop)
  fix x rs
  have "implements J (i_jmp J_jneP (int (length b) + 2) # b @ i_jmp J_jump (int (length c) + 1) # c) [x] rs
      (thenA (jmp_test J_jneP x) (\<lambda>(taken, ys). if taken then thenA f (\<lambda>_. returnA (ys, rs)) else thenA e (\<lambda>_. returnA (ys, rs))))"
    using assms by (intro implements_cond) (auto simp: is_test_def effect_code_def)
  then show "implements J (i_jmp J_jneP (int (length b) + 2) # b @ i_jmp J_jump (int (length c) + 1) # c) [x] rs
      (thenA (thenA (cell_val x) (\<lambda>v. if ToBoolean v then e else f)) (\<lambda>_. returnA ([], rs)))"
    unfolding jneP_cond thenA_assoc by (simp add: if_distrib [where f = "\<lambda>m. thenA m g" for g] del: act_simps)
qed

lemma conditional_value:
  assumes "good_value K I strict t x" "good_value K I strict e y" "good_value K I strict f z"
  shows "good_value K I strict (ConditionalExpression t e f) (base_expr (compiledConditionalExpr_emitGetter x y z))"
proof (rule good_valueI)
  let ?c = "ConditionalExpression t e f"
  have m: "m_value (meaning_of J strict ?c) = thenA (m_value (meaning_of J strict t)) (\<lambda>c. thenA (cell_val c)
      (\<lambda>v. if ToBoolean v then m_value (meaning_of J strict e) else m_value (meaning_of J strict f)))"
    "m_effect (meaning_of J strict ?c) = thenA (m_value (meaning_of J strict t)) (\<lambda>c. thenA (cell_val c)
      (\<lambda>v. if ToBoolean v then m_effect (meaning_of J strict e) else m_effect (meaning_of J strict f)))" for J
    by (simp_all add: plain_def eval_conditional_def Let_def)
  obtain a where a: "emits_code strict (v_getter x True) a"
    "\<And>J. J = I \<or> J = e_I K \<Longrightarrow> value_code J a (m_value (meaning_of J strict t))"
    using codes_ex [OF good_valueD(1) [OF assms(1)]] by blast
  fix keep
  assume keep: "keep \<or> void_ok I ?c"
  have bc: "codes K I strict (v_getter w keep) (\<lambda>J ins. if keep then value_code J ins (m_value (meaning_of J strict d))
      else effect_code J ins (m_effect (meaning_of J strict d)))"
    if "good_value K I strict d w" "keep \<or> void_ok I d" for w d
    using that good_valueD(1,2) [OF that(1)] by (cases keep) simp_all
  obtain b where b: "emits_code strict (v_getter y keep) b" "\<And>J. J = I \<or> J = e_I K \<Longrightarrow>
      if keep then value_code J b (m_value (meaning_of J strict e)) else effect_code J b (m_effect (meaning_of J strict e))"
    using codes_ex [OF bc [OF assms(2)]] keep by auto
  obtain c where c: "emits_code strict (v_getter z keep) c" "\<And>J. J = I \<or> J = e_I K \<Longrightarrow>
      if keep then value_code J c (m_value (meaning_of J strict f)) else effect_code J c (m_effect (meaning_of J strict f))"
    using codes_ex [OF bc [OF assms(3)]] keep by auto
  show "codes K I strict (v_getter (base_expr (compiledConditionalExpr_emitGetter x y z)) keep) (\<lambda>J ins.
      if keep then value_code J ins (m_value (meaning_of J strict ?c))
      else effect_code J ins (m_effect (meaning_of J strict ?c)))"
    unfolding base_expr_simps
  proof (rule codesI, rule emits_conditional [OF a(1) b(1) c(1)])
    fix J
    assume J: "J = I \<or> J = e_I K"
    show "if keep then value_code J (a @ i_jmp J_jneP (int (length b) + 2) # b @ i_jmp J_jump (int (length c) + 1) # c)
        (m_value (meaning_of J strict ?c))
      else effect_code J (a @ i_jmp J_jneP (int (length b) + 2) # b @ i_jmp J_jump (int (length c) + 1) # c)
        (m_effect (meaning_of J strict ?c))"
    proof (cases keep)
      case True
      show ?thesis unfolding if_P [OF True] m
        using True b(2) [OF J] c(2) [OF J] by (intro value_map [OF a(2) [OF J]] map_conditional) simp_all
    next
      case False
      show ?thesis unfolding if_not_P [OF False] m
        using False b(2) [OF J] c(2) [OF J] by (intro value_drop [OF a(2) [OF J]] drop_conditional) simp_all
    qed
  qed
qed (simp_all add: plain_def Let_def)

section \<open>Sequences\<close>

lemma sequence_code:
  assumes "list_all2 (good_value K I strict) es xs" "es \<noteq> []" "list_all (void_ok I) (butlast es)"
    and "keep \<or> void_ok I (last es)"
  shows "codes K I strict (compiledSequenceExpr_emitGetter xs keep) (\<lambda>J ins.
     if keep then value_code J ins (eval_sequence m_value (map (meaning_of J strict) es))
     else effect_code J ins (eval_sequence m_effect (map (meaning_of J strict) es)))"
  using assms
proof (induction es xs rule: list_all2_induct)
  case (Cons e es x xs)
  show ?case
  proof (cases es)
    case Nil
    then have "xs = []" using Cons.hyps(2) by simp
    then show ?thesis using Nil Cons.prems good_valueD(1,2) [OF Cons.hyps(1)] by (cases keep) simp_all
  next
    case (Cons e' es')
    then obtain x' xs' where xs: "xs = x' # xs'" using Cons.hyps(2) by (cases xs) simp_all
    have v: "codes K I strict (v_getter x False) (\<lambda>J ins. effect_code J ins (m_effect (meaning_of J strict e)))"
      using good_valueD(2) [OF Cons.hyps(1)] Cons.prems Cons by simp
    have "codes K I strict (compiledSequenceExpr_emitGetter xs keep) (\<lambda>J ins.
        if keep then value_code J ins (eval_sequence m_value (map (meaning_of J strict) es))
        else effect_code J ins (eval_sequence m_effect (map (meaning_of J strict) es)))"
      by (rule Cons.IH) (use Cons.prems Cons in auto)
    then have "codes K I strict (seqE (v_getter x False) (compiledSequenceExpr_emitGetter xs keep)) (\<lambda>J ins.
        if keep then value_code J ins (thenA (m_effect (meaning_of J strict e)) (\<lambda>_. eval_sequence m_value (map (meaning_of J strict) es)))
        else effect_code J ins (thenA (m_effect (meaning_of J strict e)) (\<lambda>_. eval_sequence m_effect (map (meaning_of J strict) es))))"
      by (rule codes_seqE [OF v]) (cases keep, simp_all only: if_True if_False effect_value effect_effect)
    then show ?thesis by (cases keep) (simp_all add: Cons xs)
  qed
qed simp

lemma sequence_value:
  assumes "list_all2 (good_value K I strict) es xs" "es \<noteq> []" "list_all (void_ok I) (butlast es)"
  shows "good_value K I strict (SequenceExpression es) (base_expr (compiledSequenceExpr_emitGetter xs))"
proof (rule good_valueI)
  fix keep
  assume "keep \<or> void_ok I (SequenceExpression es)"
  then have "keep \<or> void_ok I (last es)" using assms(2) by (auto simp: last_map)
  from sequence_code [OF assms this]
  show "codes K I strict (v_getter (base_expr (compiledSequenceExpr_emitGetter xs)) keep) (\<lambda>J ins.
      if keep then value_code J ins (m_value (meaning_of J strict (SequenceExpression es)))
      else effect_code J ins (m_effect (meaning_of J strict (SequenceExpression es))))"
    by (cases keep) (simp_all add: plain_def)
qed (simp_all add: plain_def)

section \<open>Assignments\<close>

lemma target_off_stack:
  assumes "assignable I strict e" "thenA (m_target (meaning_of J strict e)) (ref_of_lref (i_env J) strict) s = (s', Inr r)"
  shows "off_stack r"
proof (cases e)
  case (Identifier name)
  have "thenA (m_target (meaning_of J strict e)) (ref_of_lref (i_env J) strict) = resolve_name (i_env J) strict name"
    by (simp only: Identifier meaning_of.simps meaning.simps thenA_assoc thenA_returnA_bind ref_of_lref.simps thenA_returnA)
  then show ?thesis using assms(2) resolve_off_stack by metis
next
  case (DotExpression e' n)
  then show ?thesis using assms(2) by (auto simp: Let_def thenA_def off_stack_def split: prod.splits sum.splits)
next
  case (BracketExpression e' k)
  then show ?thesis using assms(2) by (auto simp: Let_def thenA_def off_stack_def split: prod.splits sum.splits)
qed (use assms(1) in simp_all)

text \<open>What follows the reading of the old value in \<open>&&=\<close>, \<open>||=\<close> and \<open>??=\<close>.\<close>

definition logical_store :: "ienv \<Rightarrow> token \<Rightarrow> cell act \<Rightarrow> ref \<Rightarrow> cell \<Rightarrow> cell act" where
  "logical_store J t ev r c = thenA (short_circuit t c) (\<lambda>d.
     if d then returnA c else thenA ev (\<lambda>v. seqA (ref_set (i_env J) r v) (returnA v)))"

definition logical_tail :: "bool \<Rightarrow> token \<Rightarrow> instr list \<Rightarrow> instr list" where
  "logical_tail keep t b = i_jmp (logical_jump keep t) (int (length (b @ [if keep then i_putValue else i_putValueP])) + 2)
     # (b @ [if keep then i_putValue else i_putValueP]) @ i_jmp J_jump (int (length [i_popRef]) + 1) # [i_popRef]"

lemma logical_tail_code:
  assumes t: "is_logical t" and v: "value_code J b ev" and r: "off_stack r"
  shows "implements J (logical_tail keep t b) (xs @ [c]) (rs @ [r])
    (thenA (logical_store J t ev r c) (\<lambda>y. returnA (xs @ (if keep then [y] else []), rs)))"
proof -
  let ?out = "\<lambda>y. returnA (if keep then [y] else [], rs)"
  let ?ev = "thenA ev (\<lambda>v. thenA (ref_set (i_env J) r v) (\<lambda>_. ?out v))"
  have put: "implements J [if keep then i_putValue else i_putValueP] ([] @ [x]) (rs @ [r])
      (thenA (ref_set (i_env J) r x) (\<lambda>_. ?out x))" for x
    using instr_putValue [OF r, of J "[]" x rs] instr_putValueP [OF r, of J "[]" x rs] by (cases keep) simp_all
  have a: "implements J (b @ [if keep then i_putValue else i_putValueP]) ys (rs @ [r]) ?ev"
    if "jmp_test (logical_jump keep t) c s = (s', Inr (False, ys))" for s s' ys
  proof -
    have "ys = []" using that unfolding logical_jump_test(2) [OF t] by (auto simp: thenA_def split: prod.splits sum.splits)
    moreover have "implements J (b @ [if keep then i_putValue else i_putValueP]) [] (rs @ [r]) ?ev"
      by (rule value_then [OF v]) (rule put)
    ultimately show ?thesis by simp
  qed
  have "implements J (logical_tail keep t b) [c] (rs @ [r])
      (thenA (jmp_test (logical_jump keep t) c) (\<lambda>(taken, ys). if taken then returnA (ys, rs) else ?ev))"
    unfolding logical_tail_def
    by (rule implements_cond [OF logical_jump_test(1) [OF t] refl refl a instr_popRef])
  moreover have "thenA (jmp_test (logical_jump keep t) c) (\<lambda>(taken, ys). if taken then returnA (ys, rs) else ?ev)
      = thenA (logical_store J t ev r c) ?out"
    unfolding logical_store_def logical_jump_test(2) [OF t] thenA_assoc thenA_returnA_bind
    by (rule arg_cong [where f = "thenA (short_circuit t c)"])
      (auto simp: fun_eq_iff thenA_def seqA_def split: prod.split sum.split)
  ultimately have "implements J (logical_tail keep t b) [c] (rs @ [r]) (thenA (logical_store J t ev r c) ?out)" by simp
  from implements_below [OF this, of xs "[]"] show ?thesis
    by (simp only: thenA_assoc thenA_returnA_bind prod.case append_Nil)
qed

lemma logical_lref_code:
  assumes t: "is_logical t" and v: "value_code J b ev"
    and rc: "ref_code J a (thenA tgt (ref_of_lref (i_env J) strict))"
    and r: "\<And>s s' r. thenA tgt (ref_of_lref (i_env J) strict) s = (s', Inr r) \<Longrightarrow> off_stack r"
  shows "keep_code keep J (a @ [i_getValue] @ logical_tail keep t b) (logical_lref (i_env J) strict t tgt ev)"
proof -
  let ?out = "\<lambda>xs rs y. returnA (xs @ (if keep then [y] else []), rs)"
  have "implements J (a @ [i_getValue] @ logical_tail keep t b) xs rs
      (thenA (logical_lref (i_env J) strict t tgt ev) (?out xs rs))" for xs rs
    unfolding logical_lref_def thenA_assoc [of "thenA tgt _"]
  proof (rule ref_then [OF rc])
    fix s s' r
    assume "thenA tgt (ref_of_lref (i_env J) strict) s = (s', Inr r)"
    then have o': "off_stack r" by (rule assms(4))
    have "implements J ([i_getValue] @ logical_tail keep t b) xs (rs @ [r])
       (thenA (ref_get (i_env J) r) (\<lambda>y. thenA (logical_store J t ev (fst y) (nilSafe (snd y))) (?out xs rs)))"
    proof (rule implements_bind [where g = "\<lambda>y. (xs @ [nilSafe (snd y)], rs @ [fst y])"])
      show "implements J [i_getValue] xs (rs @ [r])
          (thenA (ref_get (i_env J) r) (\<lambda>y. returnA (xs @ [nilSafe (snd y)], rs @ [fst y])))"
        using instr_getValue [OF o', of J xs rs] by (simp add: case_prod_beta' del: act_simps)
    next
      fix s s' x
      assume "ref_get (i_env J) r s = (s', Inr x)"
      then have "off_stack (fst x)" using ref_get_off_stack [of "i_env J" r s s' "fst x" "snd x"] o' by simp
      then show "implements J (logical_tail keep t b) (fst (xs @ [nilSafe (snd x)], rs @ [fst x]))
          (snd (xs @ [nilSafe (snd x)], rs @ [fst x])) (thenA (logical_store J t ev (fst x) (nilSafe (snd x))) (?out xs rs))"
        unfolding fst_conv snd_conv by (rule logical_tail_code [OF t v])
    qed
    then show "implements J ([i_getValue] @ logical_tail keep t b) xs (rs @ [r])
        (thenA (thenA (ref_get (i_env J) r) (\<lambda>(r, old). thenA (short_circuit t (nilSafe old)) (\<lambda>d. if d then returnA (nilSafe old)
           else thenA ev (\<lambda>v. seqA (ref_set (i_env J) r v) (returnA v))))) (?out xs rs))"
      by (simp only: thenA_assoc [of "ref_get _ _"] logical_store_def case_prod_beta')
  qed
  then show ?thesis by (cases keep) (simp_all add: keep_code_def value_code_def effect_code_def pushv_def)
qed

lemma assignment_value:
  assumes s: "setting K I" and l: "good_target K I strict l x" "assignable I strict l"
    and r: "good_value K I strict r y" "supported I strict r"
    and t: "assign_op t \<noteq> None \<or> t = T_ASSIGN \<or> is_logical t"
  shows "good_value K I strict (AssignExpression t l r) (base_expr (compiledAssignExpr_emitGetter K t x y))"
proof (rule good_valueI)
  let ?e = "AssignExpression t l r"
  have m: "m_effect (meaning_of J strict ?e) = m_value (meaning_of J strict ?e)"
    "m_value (meaning_of J strict ?e) = eval_assign J strict t (meaning_of J strict l) (meaning_of J strict r)" for J
    by (simp_all add: plain_def)
  note rv = good_valueD(1) [OF r(1)]
  fix keep
  have "codes K I strict (compiledAssignExpr_emitGetter K t x y keep)
     (\<lambda>J ins. keep_code keep J ins (eval_assign J strict t (meaning_of J strict l) (meaning_of J strict r)))"
  proof (cases "assign_op t")
    case (Some b)
    let ?f = "\<lambda>J x. thenA (m_value (meaning_of J strict r)) (apply_bin (bop_fun J b) x)"
    have f: "codes K I strict (seqE (v_getter y True) (emit (i_bin b))) (\<lambda>J ins. map_code J ins (?f J))"
    proof (rule codes_seqE [OF rv codes_emit [where Q = "\<lambda>J ins. ins = [i_bin b]"]])
      fix J a c
      assume v: "value_code J a (m_value (meaning_of J strict r))" and c: "c = [i_bin b]"
      show "map_code J (a @ c) (?f J)" unfolding map_code_def pushv_thenA c
      proof (intro allI, rule value_then [OF v])
        show "implements J [i_bin b] ((xs @ [x]) @ [y]) rs (pushv (apply_bin (bop_fun J b) x y) xs rs)" for xs x y rs
          using instr_bin [of J b xs x y rs] by simp
      qed
    qed simp
    have n: "codes K I strict (case None of Some p \<Rightarrow> p | None \<Rightarrow> skipE) (\<lambda>J ins. map_code J ins returnA)"
      unfolding option.case by (rule codesI [OF emits_skip]) (rule map_nil)
    from good_targetD(3) [OF l(1) n f, of False keep] show ?thesis
      by (simp add: compiledAssignExpr_emitGetter_def eval_assign_def Some)
  next
    case None
    show ?thesis
    proof (cases "t = T_ASSIGN")
      case True
      have e: "emitExpr K (val y) True = emitExpr K y True"
        by (rule ext) (unfold emitExpr_def emitConst_def evalConst_def val_simps, rule refl)
      show ?thesis
        using good_targetD(1) [OF l(1), of "val y" "\<lambda>J. m_value (meaning_of J strict r)" keep] rv value_of_expr [OF s r]
          good_valueD(5) [OF r(1)] True
        by (simp add: compiledAssignExpr_emitGetter_def eval_assign_def e)
    next
      case False
      then have lg: "is_logical t" using t None by simp
      let ?right = "case x_ident x of Some name \<Rightarrow> emitNamedOrConst K y name | None \<Rightarrow> v_getter y True"
      have "emitNamedOrConst K y name = emitExpr K y True" for name
        unfolding emitNamedOrConst_def emitExpr_def emitNamed_def good_valueD(5) [OF r(1)] option.case by (rule refl)
      then have "codes K I strict ?right (\<lambda>J ins. value_code J ins (m_value (meaning_of J strict r)))"
        using rv value_of_expr [OF s r] by (cases "x_ident x") simp_all
      then obtain b where b: "emits_code strict ?right b"
        "\<And>J. J = I \<or> J = e_I K \<Longrightarrow> value_code J b (m_value (meaning_of J strict r))"
        using codes_ex by blast
      obtain a where a: "emits_code strict (x_ref x) a" "\<And>J. J = I \<or> J = e_I K \<Longrightarrow> ref_code J a
          (thenA (m_target (meaning_of J strict l)) (ref_of_lref (i_env J) strict))"
        using codes_ex [OF good_targetD(2) [OF l(1)]] by blast
      have g: "compiledAssignExpr_emitGetter K t x y keep = logical_assign K (logical_jump keep t) x y keep"
        using lg None by (auto simp: compiledAssignExpr_emitGetter_def is_logical_def logical_jump_def)
      have len: "int (length (b @ [i] @ [j])) + 1 = int (length (b @ [i])) + 2" for i j :: instr by simp
      have "emits_code strict (logical_assign K (logical_jump keep t) x y keep)
          (a @ [i_getValue] @ (i_jmp (logical_jump keep t) (int (length (b @ [if keep then i_putValue else i_putValueP] @ [i_jmp J_jump 2])) + 1)
             # b @ [if keep then i_putValue else i_putValueP] @ [i_jmp J_jump 2]) @ [i_popRef])"
        unfolding logical_assign_def seqEs.simps by (intro emits_seqE a(1) b(1) emits_emit emits_jump_over)
      then have em: "emits_code strict (compiledAssignExpr_emitGetter K t x y keep) (a @ [i_getValue] @ logical_tail keep t b)"
        unfolding g len by (simp add: logical_tail_def)
      have ev: "eval_assign J strict t (meaning_of J strict l) (meaning_of J strict r)
          = logical_lref (i_env J) strict t (m_target (meaning_of J strict l)) (m_value (meaning_of J strict r))" for J
        by (simp add: eval_assign_def None False)
      show ?thesis unfolding ev
        by (rule codesI [OF em]) (intro logical_lref_code lg b(2) a(2) target_off_stack [OF l(2)])
    qed
  qed
  then show "codes K I strict (v_getter (base_expr (compiledAssignExpr_emitGetter K t x y)) keep) (\<lambda>J ins.
      if keep then value_code J ins (m_value (meaning_of J strict ?e))
      else effect_code J ins (m_effect (meaning_of J strict ?e)))"
    unfolding m keep_code_def base_expr_simps .
qed (simp_all add: plain_def)

section \<open>The compiler of expressions\<close>

definition compiles_to :: "cenv \<Rightarrow> ienv \<Rightarrow> bool \<Rightarrow> expr \<Rightarrow> cexpr \<Rightarrow> bool" where
  "compiles_to K I strict e x \<longleftrightarrow>
     (\<forall>c. script_scope strict c \<longrightarrow> compileExpression K e c = Inr x) \<and> good K I strict e x"

lemma compiles_value:
  assumes "good_value K I strict e x" "\<And>c. script_scope strict c \<Longrightarrow> compileExpression K e c = Inr x"
    "\<not> assignable I strict e" "\<not> deletable strict e"
  shows "compiles_to K I strict e x"
  using assms by (simp add: compiles_to_def good_def)

lemma checkConstantString_good:
  assumes "setting K I" "good_value K I strict k y" "supported I strict k" "script_scope strict c"
  shows "checkConstantString K y c = Inr (const_name I k)"
proof (cases "cval I k")
  case None
  then show ?thesis using good_valueD(4) [OF assms(2,4)] by (simp add: checkConstantString_def const_name_def)
next
  case (Some q)
  then obtain v where "cval I k = Some (Inr v)"
    using supported_const_ok [OF assms(3)] by (cases q) (auto simp: const_ok_def)
  then show ?thesis using good_valueD(4) [OF assms(2,4)] evalConst_good [OF assms(1,2) _ assms(4)]
    by (auto simp: checkConstantString_def const_name_def split: jsval.split)
qed

lemma compiles_identifier:
  assumes "supported I strict (Identifier name)"
  shows "compiles_to K I strict (Identifier name) (compiledIdentifierExpr K name)"
proof -
  have "compileExpression K (Identifier name) c = Inr (compiledIdentifierExpr K name)" if "script_scope strict c" for c
    using assms that
    by (auto simp: compiledIdentifier_def when_strict_def checkIdentifierName_def script_scope_def reserved_names_def)
  then show ?thesis using good_identifier identifier_target identifier_delete
    by (simp add: compiles_to_def good_def)
qed

lemma compiles_dot:
  assumes "compiles_to K I strict e x"
  shows "compiles_to K I strict (DotExpression e name) (compiledDotExpr x name)"
proof -
  have g: "good_value K I strict e x" using assms by (simp add: compiles_to_def good_def)
  have "good_value K I strict (DotExpression e name) (compiledDotExpr x name)"
    by (rule dot_value [OF g]) (simp_all add: Let_def)
  moreover have "good_delete K I strict (DotExpression e name) (compiledDotExpr x name)"
    by (rule dot_delete [OF g]) (simp add: Let_def)
  ultimately show ?thesis using assms dot_target [OF g] by (simp add: compiles_to_def good_def)
qed

lemma compiles_bracket:
  assumes s: "setting K I" and e: "compiles_to K I strict e x" and k: "compiles_to K I strict k y" "supported I strict k"
  shows "\<exists>z. compiles_to K I strict (BracketExpression e k) z"
proof -
  have g: "good_value K I strict e x" "good_value K I strict k y" using e k by (simp_all add: compiles_to_def good_def)
  have c: "compileExpression K (BracketExpression e k) c
      = Inr (case const_name I k of Some n \<Rightarrow> compiledDotExpr x n | None \<Rightarrow> compiledBracketExpr x y)"
    if "script_scope strict c" for c
    using e k(1) checkConstantString_good [OF s g(2) k(2) that] that
    by (simp add: compileBracketExpression_def compiles_to_def)
  show ?thesis
  proof (cases "const_name I k")
    case None
    then have "compiles_to K I strict (BracketExpression e k) (compiledBracketExpr x y)"
      using c bracket_value [OF g] bracket_target [OF g] bracket_delete [OF g] by (simp add: compiles_to_def good_def)
    then show ?thesis by blast
  next
    case (Some n)
    let ?e = "BracketExpression e k"
    obtain v where v: "cval I k = Some (Inr v)"
      using Some by (auto simp: const_name_def split: option.splits sum.splits)
    have kv: "m_value (meaning_of J strict k) = returnA (CVal (VString n))" if "J = I \<or> J = e_I K" for J
      using const_name_meaning [OF s Some that] .
    have "codes K I strict (seqE (v_getter x True) (emit (i_prop P_getProp n)))
        (\<lambda>J ins. value_code J ins (m_value (meaning_of J strict ?e)))"
      by (rule codes_mono [OF codes_value_map [OF good_valueD(1) [OF g(1)] emits_emit map_getProp]])
        (simp add: Let_def kv thenA_returnA_bind elem_const_name del: act_simps)
    then have "good_value K I strict ?e (compiledDotExpr x n)"
      by (intro good_value_popping)
        (simp_all add: compiledDotExpr_def emit_property_value_def seqE_assoc Let_def)
    moreover have "good_delete K I strict ?e (compiledDotExpr x n)"
      by (rule dot_delete [OF g(1)]) (simp add: Let_def kv thenA_returnA_bind elem_const_name del: act_simps)
    ultimately have "compiles_to K I strict ?e (compiledDotExpr x n)" using c Some by (simp add: compiles_to_def good_def)
    then show ?thesis by blast
  qed
qed

lemma compiles_binary:
  assumes s: "setting K I" and l: "compiles_to K I strict l x" and r: "compiles_to K I strict r y"
    and sup: "supported I strict (BinaryExpression t l r)"
  shows "compiles_to K I strict (BinaryExpression t l r) (compileBinaryExpression K t x y)"
proof (rule compiles_value)
  have g: "good_value K I strict l x" "good_value K I strict r y" using l r by (simp_all add: compiles_to_def good_def)
  have o': "supported I strict l" "supported I strict r" "const_ok I (BinaryExpression t l r)"
    "is_logical t \<or> binary_instr t \<noteq> None" using sup by simp_all
  note lv = logical_value [OF s g(1) o'(1) g(2) o'(2) _ o'(3)]
  have d: "decides T_LOGICAL_OR = ToBoolean" "decides T_COALESCE = (\<lambda>v. v \<noteq> VNull \<and> v \<noteq> VUndefined)"
    "decides T_LOGICAL_AND = (\<lambda>v. \<not> ToBoolean v)" by (auto simp: fun_eq_iff)
  consider "t = T_LOGICAL_OR" | "t = T_COALESCE" | "t = T_LOGICAL_AND" | i where "\<not> is_logical t" "binary_instr t = Some i"
    using o'(4) by (auto simp: is_logical_def)
  then show "good_value K I strict (BinaryExpression t l r) (compileBinaryExpression K t x y)"
  proof cases
    case 1
    then have "good_value K I strict (BinaryExpression t l r) (compiledLogicalOr K x y)"
      by (intro lv [OF _ _ value_of_expr [OF s g(1) o'(1)], of _ emit_decided])
        (simp_all add: compiledLogicalOr_def d is_logical_def logical_jump_def emit_decided_def whenE_def)
    then show ?thesis using 1 by (simp add: compileBinaryExpression_def)
  next
    case 2
    then have "good_value K I strict (BinaryExpression t l r) (compiledCoalesce K x y)"
      by (intro lv [OF _ _ value_of_expr [OF s g(1) o'(1)], of _ emit_decided])
        (simp_all add: compiledCoalesce_def d is_logical_def logical_jump_def emit_decided_def whenE_def)
    then show ?thesis using 2 by (simp add: compileBinaryExpression_def)
  next
    case 3
    then have "good_value K I strict (BinaryExpression t l r) (compiledLogicalAnd K x y)"
      by (intro lv [OF _ _ good_valueD(1) [OF g(1)], of _ "\<lambda>v putOnStack. emitLiteralValue v"])
        (simp_all add: compiledLogicalAnd_def d is_logical_def logical_jump_def)
    then show ?thesis using 3 by (simp add: compileBinaryExpression_def)
  next
    case 4
    then show ?thesis using binary_value [OF s g(1) o'(1) g(2) o'(2) 4]
      by (auto simp: compileBinaryExpression_def is_logical_def)
  qed
  show "compileExpression K (BinaryExpression t l r) c = Inr (compileBinaryExpression K t x y)"
    if "script_scope strict c" for c
    using l r that by (simp add: compiles_to_def)
qed simp_all

lemma compiles_unary:
  assumes s: "setting K I" and e: "compiles_to K I strict e x" and sup: "supported I strict (UnaryExpression t e postfix)"
  shows "compiles_to K I strict (UnaryExpression t e postfix) (compiledUnaryExpr K t x postfix)"
proof (rule compiles_value)
  have g: "good_value K I strict e x" "assignable I strict e \<Longrightarrow> good_target K I strict e x"
    "deletable strict e \<Longrightarrow> good_delete K I strict e x" using e by (simp_all add: compiles_to_def good_def)
  have o': "supported I strict e" using sup by simp
  consider "plain_unary t" | "t = T_VOID" "cval I e \<noteq> None \<or> void_ok I e" | "t = T_DELETE" "deletable strict e"
    | "t = T_INCREMENT \<or> t = T_DECREMENT" "assignable I strict e" using sup by auto
  then show "good_value K I strict (UnaryExpression t e postfix) (compiledUnaryExpr K t x postfix)"
    by cases (simp_all only: unary_plain_value [OF s g(1) o'] unary_void_value [OF s g(1) o']
      unary_delete_value [OF g(1) g(3)] unary_update_value [OF g(1) g(2)])
  show "compileExpression K (UnaryExpression t e postfix) c = Inr (compiledUnaryExpr K t x postfix)"
    if "script_scope strict c" for c
    using e that by (simp add: compiles_to_def)
qed simp_all

lemma comp_list_Inr:
  assumes "list_all2 (\<lambda>f x. f c = Inr x) fs xs"
  shows "comp_list fs c = Inr xs"
  using assms by (induction rule: list_all2_induct) simp_all

text \<open>Every expression of the fragment is compiled, and its code does what it means.\<close>

lemma compile_good:
  assumes s: "setting K I"
  shows "supported I strict e \<Longrightarrow> \<exists>x. compiles_to K I strict e x"
proof (induction e rule: expr_induct)
  case (NumberLiteral literal v)
  have "compileExpression K (NumberLiteral literal v) c = Inr (compiledLiteral (literal_value v))"
    if "script_scope strict c" for c
    using NumberLiteral that by (auto simp: compileNumberLiteral_def literal_value_def old_octal_def script_scope_def)
  then have "compiles_to K I strict (NumberLiteral literal v) (compiledLiteral (literal_value v))"
    by (intro compiles_value good_literal) simp_all
  then show ?case by blast
next
  case (StringLiteral t)
  have "compiles_to K I strict (StringLiteral t) (compiledLiteral (VString t))"
    by (intro compiles_value good_literal) simp_all
  then show ?case by blast
next
  case (BooleanLiteral b)
  have "compiles_to K I strict (BooleanLiteral b) (compiledLiteral (VBool b))"
    by (intro compiles_value good_literal) simp_all
  then show ?case by blast
next
  case NullLiteral
  have "compiles_to K I strict NullLiteral (compiledLiteral VNull)"
    by (intro compiles_value good_literal) simp_all
  then show ?case by blast
next
  case ThisExpression
  have "compiles_to K I strict ThisExpression compiledThisExpr"
    by (intro compiles_value good_this) simp_all
  then show ?case by blast
next
  case (Identifier name)
  then show ?case using compiles_identifier by blast
next
  case (BinaryExpression t l r)
  then obtain x y where xy: "compiles_to K I strict l x" "compiles_to K I strict r y" by auto
  then show ?case using compiles_binary [OF s xy BinaryExpression.prems] by blast
next
  case (UnaryExpression t e postfix)
  then obtain x where x: "compiles_to K I strict e x" by auto
  then show ?case using compiles_unary [OF s x UnaryExpression.prems] by blast
next
  case (ConditionalExpression t e f)
  then obtain x y z where xyz: "compiles_to K I strict t x" "compiles_to K I strict e y" "compiles_to K I strict f z"
    by auto
  then have "compiles_to K I strict (ConditionalExpression t e f) (base_expr (compiledConditionalExpr_emitGetter x y z))"
    by (intro compiles_value conditional_value) (simp_all add: compiles_to_def good_def)
  then show ?case by blast
next
  case (AssignExpression t l r)
  then obtain x y where xy: "compiles_to K I strict l x" "compiles_to K I strict r y" by auto
  have o': "supported I strict r" "assignable I strict l" "assign_op t \<noteq> None \<or> t = T_ASSIGN \<or> is_logical t"
    using AssignExpression.prems by simp_all
  have g: "good_target K I strict l x" "good_value K I strict r y"
    using xy o'(2) by (simp_all add: compiles_to_def good_def)
  have "compiles_to K I strict (AssignExpression t l r) (base_expr (compiledAssignExpr_emitGetter K t x y))"
    using xy by (intro compiles_value assignment_value [OF s g(1) o'(2) g(2) o'(1,3)]) (simp_all add: compiles_to_def)
  then show ?case by blast
next
  case (SequenceExpression es)
  have sup: "\<forall>e \<in> set es. supported I strict e" "es \<noteq> []" "list_all (void_ok I) (butlast es)"
    using SequenceExpression.prems by (auto simp: list_all_iff)
  then have "\<forall>e \<in> set es. \<exists>x. compiles_to K I strict e x" using SequenceExpression.IH by blast
  from bchoice [OF this] obtain f where "\<forall>e \<in> set es. compiles_to K I strict e (f e)" by blast
  then have xs: "list_all2 (compiles_to K I strict) es (map f es)" by (simp add: list_all2_map2 list_all2_same)
  let ?xs = "map f es"
  have "list_all2 (good_value K I strict) es ?xs"
    by (rule list_all2_mono [OF xs]) (simp add: compiles_to_def good_def)
  from sequence_value [OF this sup(2,3)]
  have "compiles_to K I strict (SequenceExpression es) (base_expr (compiledSequenceExpr_emitGetter ?xs))"
  proof (rule compiles_value)
    fix c
    assume c: "script_scope strict c"
    have "list_all2 (\<lambda>f x. f c = Inr x) (map (compileExpression K) es) ?xs"
      unfolding list_all2_map1 by (rule list_all2_mono [OF xs]) (simp add: compiles_to_def c)
    then show "compileExpression K (SequenceExpression es) c = Inr (base_expr (compiledSequenceExpr_emitGetter ?xs))"
      by (simp add: comp_list_Inr)
  qed simp_all
  then show ?case by blast
next
  case (DotExpression e name)
  then obtain x where "compiles_to K I strict e x" by auto
  from compiles_dot [OF this] show ?case by (rule exI)
next
  case (BracketExpression e k)
  then obtain x y where "compiles_to K I strict e x" "compiles_to K I strict k y" by auto
  then show ?case using compiles_bracket [OF s] BracketExpression.prems by simp
qed simp_all

text \<open>\<open>emitExpr\<close> of a compiled expression, as the compiler of statements calls it.\<close>

definition emit_expression :: "cenv \<Rightarrow> expr \<Rightarrow> bool \<Rightarrow> emitter" where
  "emit_expression K e putOnStack c = bindR (compileExpression K e c) (\<lambda>x. emitExpr K x putOnStack c)"

lemma compile_codes:
  assumes s: "setting K I" and e: "supported I strict e" and keep: "\<not> keep \<Longrightarrow> cval I e \<noteq> None \<or> void_ok I e"
  shows "codes K I strict (emit_expression K e keep) (\<lambda>J ins.
     if keep then value_code J ins (eval_expr J strict e) else effect_code J ins (eval_effect J strict e))"
proof -
  obtain x where x: "compiles_to K I strict e x" using compile_good [OF s e] by blast
  then have g: "good_value K I strict e x" by (simp add: compiles_to_def good_def)
  have "emit_expression K e keep c = emitExpr K x keep c" if "script_scope strict c" for c
    using x that by (simp add: emit_expression_def compiles_to_def)
  then show ?thesis using emitExpr_code [OF s g supported_const_ok [OF e], where keep = keep] keep
    by (cases keep) (simp_all add: codes_def emits_code_def eval_expr_def eval_effect_def)
qed

section \<open>Correctness\<close>

text \<open>
  Running a piece of code: \<open>keep\<close> says whether the value of the action is left on the stack.
\<close>

definition runs_to :: "ienv \<Rightarrow> instr list \<Rightarrow> bool \<Rightarrow> cell act \<Rightarrow> bool" where
  "runs_to I ins keep ev \<longleftrightarrow>
     (\<forall>P p pc st junk refs s. code_at P p pc ins \<longrightarrow>
        (case ev s of
           (s', Inr v) \<Rightarrow> (\<exists>k junk'. k \<le> length ins \<and>
             (vm_step I P ^^ k) (framed st junk (int pc) p refs s)
               (framed (st @ (if keep then [v] else [])) junk' (int (pc + length ins)) p refs s'))
         | (s', Inl q) \<Rightarrow> (\<exists>k t st' junk' pc' refs'. k \<le> length ins \<and>
             (vm_step I P ^^ k) (framed st junk (int pc) p refs s) t \<and>
             throws I P t q (framed (st @ st') junk' pc' p (refs @ refs') s'))))"

lemma runs_toI:
  assumes "implements I ins [] [] (thenA ev (\<lambda>v. returnA (if keep then [v] else [], [])))"
  shows "runs_to I ins keep ev"
  unfolding runs_to_def
proof (intro allI impI)
  fix P p pc st junk refs s
  assume c: "code_at P p pc ins"
  note r = implementsD [OF assms c, of st junk refs s, unfolded append_Nil2]
  show "case ev s of
       (s', Inr v) \<Rightarrow> (\<exists>k junk'. k \<le> length ins \<and> (vm_step I P ^^ k) (framed st junk (int pc) p refs s)
           (framed (st @ (if keep then [v] else [])) junk' (int (pc + length ins)) p refs s'))
     | (s', Inl q) \<Rightarrow> (\<exists>k t st' junk' pc' refs'. k \<le> length ins \<and>
         (vm_step I P ^^ k) (framed st junk (int pc) p refs s) t \<and>
         throws I P t q (framed (st @ st') junk' pc' p (refs @ refs') s'))"
  proof (cases "ev s")
    case (Pair s' x)
    show ?thesis
    proof (cases x)
      case (Inl q)
      then show ?thesis using r by (simp add: thenA_def Pair runs_like_Inl)
    next
      case (Inr v)
      then show ?thesis using r by (simp only: thenA_def Pair runs_like_Inr prod.case sum.case returnA_def append_Nil2)
    qed
  qed
qed

lemma expression_runs:
  assumes "setting K I" "supported I strict e" "script_scope strict c" "\<not> keep \<Longrightarrow> cval I e \<noteq> None \<or> void_ok I e"
  shows "\<exists>ins. emit_expression K e keep c = Inr (c\<lparr>k_code := k_code c @ ins\<rparr>)
    \<and> runs_to I ins keep (if keep then eval_expr I strict e else eval_effect I strict e)"
proof -
  obtain ins where ins: "emits_code strict (emit_expression K e keep) ins"
    "if keep then value_code I ins (eval_expr I strict e) else effect_code I ins (eval_effect I strict e)"
    using codes_ex [OF compile_codes [OF assms(1,2,4)]] by blast
  have "implements I ins [] [] (thenA (if keep then eval_expr I strict e else eval_effect I strict e)
      (\<lambda>v. returnA (if keep then [v] else [], [])))"
  proof (cases keep)
    case True
    then have "implements I ins [] [] (pushv (eval_expr I strict e) [] [])" using ins(2) by (simp add: value_code_def)
    then show ?thesis using True by (simp add: pushv_def del: act_simps)
  next
    case False
    then have "implements I ins [] [] (thenA (eval_effect I strict e) (\<lambda>_. returnA ([], [])))"
      using ins(2) by (simp add: effect_code_def del: act_simps)
    then show ?thesis using False by (simp del: act_simps)
  qed
  from runs_toI [OF this] show ?thesis using emits_codeD [OF ins(1) assms(3)] by blast
qed

text \<open>
  C1. Correctness of the compiler of expressions: in the scope of a script every expression of the
  fragment is compiled, and its code, wherever it stands in a program and whatever is on the
  stacks below, either runs to its end and leaves the value the reference evaluator gives, with the
  same effects on objects and scopes and nothing else on the stacks, or reaches the instruction that
  raises the exception the evaluator raises, with the same effects until then. Constant
  folding is covered.
\<close>

theorem compile_expression_correct:
  assumes "setting K I" "supported I strict e" "script_scope strict c"
  shows "\<exists>ins. emit_expression K e True c = Inr (c\<lparr>k_code := k_code c @ ins\<rparr>)
    \<and> runs_to I ins True (eval_expr I strict e)"
  using expression_runs [OF assms, where keep = True] by simp


lemma script_cst_scope: "script_scope strict (script_cst strict)"
  by (simp add: script_scope_def script_cst_def new_cscope_def)

text \<open>
  C18. The compiled code of an expression that has a value runs to its end: \<open>vm.run\<close> needs no more
  than one round for each instruction and one to see that the code has been left, and the value is on
  top of the stack then.
\<close>

theorem run_expression_terminates:
  assumes "setting K I" "supported I strict e" "eval_expr I strict e s = (s', Inr v)"
  shows "\<exists>ins junk'. expr_code K (script_cst strict) True e = Inr ins
    \<and> vm_run I (\<lambda>_. ins) (Suc (length ins)) (framed st junk 0 p refs s)
      = Some (framed (st @ [v]) junk' (int (length ins)) p refs s', Inr ())"
proof -
  obtain ins where e: "emit_expression K e True (script_cst strict) = Inr ((script_cst strict)\<lparr>k_code := k_code (script_cst strict) @ ins\<rparr>)"
    and r: "runs_to I ins True (eval_expr I strict e)"
    using expression_runs [OF assms(1,2) script_cst_scope, where keep = True] by auto
  have "expr_code K (script_cst strict) True e = mapR k_code (emit_expression K e True (script_cst strict))"
    by (simp add: expr_code_def emit_expression_def bindR_def split: sum.split)
  moreover have "k_code (script_cst strict) = []" by (simp add: script_cst_def)
  ultimately have c: "expr_code K (script_cst strict) True e = Inr ins" by (simp add: e)
  have a: "code_at (\<lambda>_. ins) p 0 ins" by (simp add: code_at_def)
  from r [unfolded runs_to_def, rule_format, OF a, of st junk refs s] obtain k junk' where k: "k \<le> length ins" "(vm_step I (\<lambda>_. ins) ^^ k) (framed st junk 0 p refs s)
      (framed (st @ [v]) junk' (int (length ins)) p refs s')"
    using assms(3) by auto
  have "vm_run I (\<lambda>_. ins) (Suc (length ins)) (framed st junk 0 p refs s)
      = Some (framed (st @ [v]) junk' (int (length ins)) p refs s', Inr ())"
    by (rule vm_run_steps [OF k(2)]) (use k(1) in \<open>simp_all add: halted_def\<close>)
  with c show ?thesis by blast
qed

text \<open>\<open>(false || x) ? (this.n += 1) : null\<close> and \<open>x++\<close>, in sloppy mode.\<close>

definition sample_expr :: expr where
  "sample_expr = ConditionalExpression (BinaryExpression T_LOGICAL_OR (BooleanLiteral False) (Identifier (u ''x'')))
     (AssignExpression T_PLUS (DotExpression ThisExpression (u ''n'')) (NumberLiteral (u ''1'') (NumInt 1))) NullLiteral"

definition sample_update :: expr where
  "sample_update = UnaryExpression T_INCREMENT (Identifier (u ''x'')) True"

lemma setting0: "setting cenv0 ienv0"
  by (simp add: setting_def const_vm_ok_def same_host_def cenv0_def vm0_def)

lemma sample_supported:
  "supported ienv0 False sample_expr" "supported ienv0 False sample_update" "void_ok ienv0 sample_update"
  by (simp_all add: sample_expr_def sample_update_def const_ok_def is_logical_def)

lemma compile_expression_correct_witness:
  "\<exists>ins. emit_expression cenv0 sample_expr True (script_cst False) = Inr ((script_cst False)\<lparr>k_code := k_code (script_cst False) @ ins\<rparr>)
    \<and> runs_to ienv0 ins True (eval_expr ienv0 False sample_expr)"
  by (rule compile_expression_correct [OF setting0 sample_supported(1) script_cst_scope])


lemma run_expression_terminates_witness:
  "\<exists>ins junk'. expr_code cenv0 (script_cst False) True (BinaryExpression T_LOGICAL_AND ThisExpression (BooleanLiteral True)) = Inr ins
    \<and> vm_run ienv0 (\<lambda>_. ins) (Suc (length ins)) (framed [] [] 0 0 [] vm0)
      = Some (framed ([] @ [CVal (VBool True)]) junk' (int (length ins)) 0 [] vm0, Inr ())"
proof (rule run_expression_terminates [OF setting0])
  show "supported ienv0 False (BinaryExpression T_LOGICAL_AND ThisExpression (BooleanLiteral True))"
    by (simp add: const_ok_def is_logical_def)
  show "eval_expr ienv0 False (BinaryExpression T_LOGICAL_AND ThisExpression (BooleanLiteral True)) vm0 = (vm0, Inr (CVal (VBool True)))"
    by (simp add: eval_expr_def plain_def eval_binary_def is_logical_def short_circuit_def thenA_def)
qed

section \<open>What is not as intended\<close>

text \<open>
  A value that is not wanted: \<open>&&\<close> with a constant left operand that decides leaves it on the
  stack, while \<open>||\<close> and \<open>??\<close> do not. So \<open>1 + (false && x, 5)\<close> adds the wrong operands.
\<close>

lemma unwanted_and_leaks:
  "mapR k_code (v_getter (compiledLogicalAnd cenv0 (compiledLiteral (VBool False)) y) False (script_cst False))
     = Inr [i_loadVal (VBool False)]"
  "mapR k_code (v_getter (compiledLogicalOr cenv0 (compiledLiteral (VBool True)) y) False (script_cst False)) = Inr []"
  by (simp_all add: compiledLogicalAnd_def compiledLogicalOr_def logical_emitGetter_def evalConst_def compiledLiteral_def
      emitLiteralValue_def emit_decided_def whenE_def emit_def skipE_def script_cst_def)

text \<open>\<open>delete\<close> of anything but a name or a property does not evaluate it, so \<open>delete (x = 5)\<close> assigns nothing.\<close>

lemma delete_skips_operand:
  "mapR k_code (v_getter (compiledUnaryExpr K T_DELETE (base_expr g) False) True (script_cst False))
     = Inr [i_loadVal (VBool True)]"
  by (simp add: compiledUnaryExpr_def compiledUnaryExpr_emitGetter_def base_expr_def base_emitDelete_def whenE_def
      emitLiteralValue_def emit_def script_cst_def)

text \<open>
  The name of a function expression is a constant that an assignment in sloppy mode ignores;
  where the value of the assignment is not wanted, the assigned value stays on the stack.
\<close>

lemma unwanted_const_leaks:
  assumes "bd_isConst (k_bindings c ! b)" "\<not> bd_isStrict (k_bindings c ! b)" "\<not> sc_strict (scope_of c)"
  shows "emitSetP b c = Inr c"
  using assms by (simp add: emitSetP_def emit_store_def Let_def)

text \<open>\<open>import.meta\<close> passes for \<open>new.target\<close>.\<close>

lemma meta_property_accepts:
  "meta \<noteq> u ''new'' \<Longrightarrow> property \<noteq> u ''target'' \<Longrightarrow>
   compileMetaProperty meta property c = Inr (base_expr compiledNewTarget_emitGetter)"
  by (simp add: compileMetaProperty_def)

text \<open>
  \<open>x++\<close> whose value is not wanted does not convert the old value (\<open>to_number\<close>): a boolean, like a
  string, becomes a float, even where it is integral and the same update in a value position gives the
  integer of the normal form.
\<close>

lemma unwanted_update_unnormalised:
  "\<exists>f. uop_fun I U_inc (VBool b) = Inr (VFloat f)"
  "\<exists>i j. uop_fun I U_toNumber (VBool b) = Inr (VInt i) \<and> uop_fun I U_inc (VInt i) = Inr (intToValue j)"
  by (auto simp: op_inc_def toNumeric_def)

end
